(* ===== verification/Prelude.thy ===== *)
theory Prelude
  imports Main "HOL-Library.Signed_Division"
begin

text \<open>
  Shared vocabulary of the development: the failures a C or C++ operation can end
  in, results that may fail, the C integer division, and the generic lemmas on
  integer ranges and sums the components share.

  A glog \<^verbatim>\<open>CHECK\<close> or \<^verbatim>\<open>LOG(FATAL)\<close> aborts the process (\<open>Abort\<close>); a thrown
  \<^verbatim>\<open>std::exception\<close> can be caught (\<open>Exn\<close>); an out-of-range \<^verbatim>\<open>operator[]\<close>, a null
  dereference or a division by zero has no defined behaviour (\<open>Undefined\<close>).
\<close>

section \<open>Failures and results\<close>

datatype failure =
    Abort string
  | Exn string
  | Undefined string

type_synonym 'a result = "failure + 'a"

definition rbind :: "'a result \<Rightarrow> ('a \<Rightarrow> 'b result) \<Rightarrow> 'b result" where
  "rbind m f = (case m of Inl e \<Rightarrow> Inl e | Inr x \<Rightarrow> f x)"

definition check :: "bool \<Rightarrow> string \<Rightarrow> unit result" where
  "check b msg = (if b then Inr () else Inl (Abort msg))"

named_theorems result_simps "evaluation of results that may fail"

lemma rbind_Inl [simp]: "rbind (Inl e) f = Inl e"
  by (simp add: rbind_def)

lemma rbind_Inr [simp]: "rbind (Inr x) f = f x"
  by (simp add: rbind_def)

lemma rbind_assoc: "rbind (rbind m f) g = rbind m (\<lambda>x. rbind (f x) g)"
  by (cases m) auto

lemma check_True [simp]: "check True msg = Inr ()"
  by (simp add: check_def)

lemma check_False [simp]: "check False msg = Inl (Abort msg)"
  by (simp add: check_def)

lemma rbind_eq_Inr_iff [result_simps]:
  "rbind m f = Inr y \<longleftrightarrow> (\<exists>x. m = Inr x \<and> f x = Inr y)"
  by (cases m) auto

lemma rbind_eq_Inl_iff:
  "rbind m f = Inl e \<longleftrightarrow> m = Inl e \<or> (\<exists>x. m = Inr x \<and> f x = Inl e)"
  by (cases m) auto

lemma check_eq_Inr_iff [result_simps]: "check b msg = Inr u \<longleftrightarrow> b"
  by (cases b) auto

text \<open>A loop over a list that stops at the first failure.\<close>

fun rfold :: "('a \<Rightarrow> 's \<Rightarrow> 's result) \<Rightarrow> 'a list \<Rightarrow> 's \<Rightarrow> 's result" where
  "rfold f [] s = Inr s"
| "rfold f (x # xs) s = rbind (f x s) (rfold f xs)"

fun rmap :: "('a \<Rightarrow> 'b result) \<Rightarrow> 'a list \<Rightarrow> 'b list result" where
  "rmap f [] = Inr []"
| "rmap f (x # xs) = rbind (f x) (\<lambda>y. rbind (rmap f xs) (\<lambda>ys. Inr (y # ys)))"

lemma rfold_append: "rfold f (xs @ ys) s = rbind (rfold f xs s) (rfold f ys)"
  by (induction xs arbitrary: s) (auto simp: rbind_def split: sum.splits)

lemma rfold_invariant:
  assumes "rfold f xs s = Inr t" and "I s"
    and "\<And>x u v. x \<in> set xs \<Longrightarrow> I u \<Longrightarrow> f x u = Inr v \<Longrightarrow> I v"
  shows "I t"
  using assms
  by (induction xs arbitrary: s) (auto simp: rbind_eq_Inr_iff)

lemma rfold_total:
  assumes "\<And>x s. x \<in> set xs \<Longrightarrow> f x s = Inr (g x s)"
  shows "rfold f xs s = Inr (fold g xs s)"
  using assms by (induction xs arbitrary: s) auto

lemma rmap_eq_Inr_iff:
  "rmap f xs = Inr ys \<longleftrightarrow>
     length ys = length xs \<and> (\<forall>i < length xs. f (xs ! i) = Inr (ys ! i))"
proof (induction xs arbitrary: ys)
  case Nil
  then show ?case by auto
next
  case (Cons x xs)
  show ?case
    by (cases ys) (auto simp: rbind_eq_Inr_iff Cons.IH nth_Cons split: nat.splits)
qed

lemma rmap_total:
  assumes "\<And>x. x \<in> set xs \<Longrightarrow> f x = Inr (g x)"
  shows "rmap f xs = Inr (map g xs)"
  using assms by (induction xs) auto

section \<open>C integers\<close>

text \<open>
  \<open>sdiv\<close> and \<open>smod\<close> round towards zero, as \<^verbatim>\<open>/\<close> and \<^verbatim>\<open>%\<close> do in C and C++. Where both
  operands are non-negative they are \<open>div\<close> and \<open>mod\<close>.
\<close>

named_theorems c_arith "C division on non-negative operands"

lemma sdiv_nonneg [c_arith]: "0 \<le> (a::int) \<Longrightarrow> 0 < b \<Longrightarrow> a sdiv b = a div b"
  by (cases "a = 0") (simp_all add: signed_divide_int_def sgn_if)

lemma smod_nonneg [c_arith]: "0 \<le> (a::int) \<Longrightarrow> 0 < b \<Longrightarrow> a smod b = a mod b"
  by (cases "a = 0") (simp_all add: signed_modulo_int_def sgn_if)

section \<open>Integer ranges and sums\<close>

named_theorems range_simps "sums over integer ranges"

lemma sum_list_map_upto [range_simps]:
  "sum_list (map f [i..j]) = (\<Sum>k \<in> {i..j}. f k)" for f :: "int \<Rightarrow> int"
  by (simp add: sum_list_distinct_conv_sum_set)

lemma length_upto0 [simp]: "length [0..n - 1] = nat n"
  by simp

lemma nth_upto0: "0 \<le> i \<Longrightarrow> i < n \<Longrightarrow> [0..n - 1] ! nat i = i"
  by (simp add: nth_upto)

lemma sum_indicator_below:
  assumes "0 \<le> m" and "m \<le> n"
  shows "(\<Sum>k \<in> {0..n - 1}. if k < m then 1 else 0) = (m::int)"
proof -
  have "(\<Sum>k \<in> {0..n - 1}. if k < m then 1 else 0) = (\<Sum>k \<in> {k \<in> {0..n - 1}. k < m}. (1::int))"
    by (rule sum.inter_filter [symmetric]) simp
  also have "{k \<in> {0..n - 1}. k < m} = {0..m - 1}"
    using assms by auto
  finally show ?thesis using assms by simp
qed

text \<open>Splitting \<open>t\<close> items over \<open>n\<close> holders, the first \<open>t mod n\<close> getting one more.\<close>

lemma sum_even_split:
  assumes "0 < n" and "0 \<le> t"
  shows "(\<Sum>k \<in> {0..n - 1}. t div n + (if k < t mod n then 1 else 0)) = (t::int)"
proof -
  have "(\<Sum>k \<in> {0..n - 1}. t div n + (if k < t mod n then 1 else 0))
      = n * (t div n) + (\<Sum>k \<in> {0..n - 1}. if k < t mod n then 1 else 0)"
    using assms by (simp add: sum.distrib)
  also have "\<dots> = n * (t div n) + t mod n"
    using assms by (simp add: sum_indicator_below order_less_imp_le)
  finally show ?thesis by simp
qed

section \<open>Counting in an updated list\<close>

lemma filter_update_length:
  assumes "i < length xs"
  shows "int (length (filter P (xs[i := y])))
    = int (length (filter P xs)) - of_bool (P (xs ! i)) + of_bool (P y)"
  using assms
proof (induction xs arbitrary: i)
  case Nil
  then show ?case by simp
next
  case (Cons x xs)
  show ?case
  proof (cases i)
    case (Suc k)
    then show ?thesis using Cons.IH[of k] Cons.prems by simp
  qed simp
qed

lemma count_list_filter: "count_list xs z = length (filter (\<lambda>x. x = z) xs)"
  by (induction xs) auto

lemma count_list_update:
  "i < length xs \<Longrightarrow>
   int (count_list (xs[i := y]) z) = int (count_list xs z) - of_bool (xs ! i = z) + of_bool (y = z)"
  by (simp add: count_list_filter filter_update_length)

end
