(* ===== verification/Layerwise_Layout.thy ===== *)
theory Layerwise_Layout
  imports Prelude
begin

text \<open>
  The layerwise split of the KV cache (\<^verbatim>\<open>core/framework/kv_cache/layerwise_split_layout.h\<close>,
  \<^verbatim>\<open>core/framework/parallel_state/mapping_ilu.{h,cpp}\<close>): which tensor-parallel ranks hold
  which KV heads of each model layer.

  A \<^verbatim>\<open>std::vector\<close> is a list and an \<^verbatim>\<open>int64_t\<close> or \<^verbatim>\<open>int32_t\<close> an \<open>int\<close>, except where the code
  narrows (\<^verbatim>\<open>static_cast<int32_t>\<close>, written \<open>signed_take_bit 31\<close>). The sums stay below
  $2^{31}$ and $2^{63}$ for every world size below $2^{30}$ and every head count the code meets.
\<close>

section \<open>Hardware constants (ilu\_hw\_constants.h)\<close>

definition kWarpSize :: int where "kWarpSize = 64"

definition kSmClockMHz :: int where "kSmClockMHz = 1500"

definition kMemClockMHz :: int where "kMemClockMHz = 1200"

definition kHbmPerCardMiB :: int where "kHbmPerCardMiB = 32768"

definition kHbmPerCardBytes :: int where
  "kHbmPerCardBytes = kHbmPerCardMiB * 1024 * 1024"

definition kHbmBaselineUsageMiB :: int where "kHbmBaselineUsageMiB = 257"

definition kVerifiedCardCount :: int where "kVerifiedCardCount = 4"

definition kFlatTopology :: bool where "kFlatTopology = True"

section \<open>LayerShardSpec and LayerwiseSplitLayout\<close>

record LayerShardSpec =
  layer_id :: int
  assigned_ranks :: "int list"
  heads_per_rank :: "int list"

definition total_heads :: "LayerShardSpec \<Rightarrow> int" where
  "total_heads s = sum_list (heads_per_rank s)"

definition is_valid :: "LayerShardSpec \<Rightarrow> bool" where
  "is_valid s =
     (if layer_id s < 0 \<or> assigned_ranks s = [] then False
      else if length (assigned_ranks s) \<noteq> length (heads_per_rank s) then False
      else list_all (\<lambda>h. \<not> h \<le> 0) (heads_per_rank s))"

record LayerwiseSplitLayout =
  specs :: "LayerShardSpec list"

definition num_layers :: "LayerwiseSplitLayout \<Rightarrow> int" where
  "num_layers L = int (length (specs L))"

text \<open>\<^verbatim>\<open>specs_[lid]\<close> is unchecked in the code: out of range it is undefined behaviour.\<close>

definition spec_at :: "LayerwiseSplitLayout \<Rightarrow> int \<Rightarrow> LayerShardSpec result" where
  "spec_at L lid =
     (if 0 \<le> lid \<and> lid < num_layers L then Inr (specs L ! nat lid)
      else Inl (Undefined ''specs_[lid]''))"

definition layer_spec :: "LayerwiseSplitLayout \<Rightarrow> int \<Rightarrow> LayerShardSpec result" where
  "layer_spec L lid =
     rbind (check (lid \<ge> 0) ''lid >= 0'') (\<lambda>_.
     rbind (check (lid < num_layers L) ''lid < num_layers()'') (\<lambda>_.
     spec_at L lid))"

definition rank_in_spec :: "int \<Rightarrow> LayerShardSpec \<Rightarrow> bool" where
  "rank_in_spec rank s = list_ex (\<lambda>r. r = rank) (assigned_ranks s)"

definition rank_owns_layer :: "LayerwiseSplitLayout \<Rightarrow> int \<Rightarrow> int \<Rightarrow> bool result" where
  "rank_owns_layer L rank lid = rbind (spec_at L lid) (\<lambda>s. Inr (rank_in_spec rank s))"

text \<open>
  The index loop of \<^verbatim>\<open>heads_for_rank\<close>: the head count at the first position whose rank
  matches, \<open>0\<close> when there is none, undefined where \<^verbatim>\<open>heads_per_rank\<close> is too short.
\<close>

fun find_heads :: "int \<Rightarrow> int list \<Rightarrow> int list \<Rightarrow> int result" where
  "find_heads rank [] hs = Inr 0"
| "find_heads rank (r # rs) [] =
     (if r = rank then Inl (Undefined ''heads_per_rank[i]'') else find_heads rank rs [])"
| "find_heads rank (r # rs) (h # hs) = (if r = rank then Inr h else find_heads rank rs hs)"

definition heads_for_rank :: "LayerwiseSplitLayout \<Rightarrow> int \<Rightarrow> int \<Rightarrow> int result" where
  "heads_for_rank L rank lid =
     rbind (spec_at L lid) (\<lambda>s. find_heads rank (assigned_ranks s) (heads_per_rank s))"

definition layers_on_rank :: "LayerwiseSplitLayout \<Rightarrow> int \<Rightarrow> int" where
  "layers_on_rank L rank = int (length (filter (rank_in_spec rank) (specs L)))"

fun validate_from :: "int \<Rightarrow> LayerShardSpec list \<Rightarrow> unit result" where
  "validate_from i [] = Inr ()"
| "validate_from i (s # ss) =
     rbind (check (is_valid s) ''Invalid LayerShardSpec'') (\<lambda>_.
     rbind (check (layer_id s = i) ''Layer id mismatch'') (\<lambda>_.
     validate_from (i + 1) ss))"

definition validate :: "LayerwiseSplitLayout \<Rightarrow> unit result" where
  "validate L = validate_from 0 (specs L)"

definition make_layout :: "LayerShardSpec list \<Rightarrow> LayerwiseSplitLayout result" where
  "make_layout ss =
     (let L = \<lparr>specs = ss\<rparr> in rbind (validate L) (\<lambda>_. Inr L))"

section \<open>compute\_ilu\_layerwise\_layout (mapping\_ilu.cpp)\<close>

datatype IluTopoKind = kFlatPIX | kGrouped

text \<open>
  One iteration of the layer loop: the shard of layer \<open>lid\<close> and the next round-robin
  offset. A layer with no KV heads reaches \<^verbatim>\<open>total_heads / needed\<close> with \<open>needed = 0\<close>.
\<close>

definition dense_shard :: "int \<Rightarrow> int \<Rightarrow> int \<Rightarrow> LayerShardSpec" where
  "dense_shard ws lid kv =
     (let base = kv sdiv ws; rem = kv smod ws in
      \<lparr>layer_id = lid,
       assigned_ranks = [0..ws - 1],
       heads_per_rank = map (\<lambda>r. base + (if r < rem then 1 else 0)) [0..ws - 1]\<rparr>)"

definition sparse_shard :: "int \<Rightarrow> int \<Rightarrow> int \<Rightarrow> int \<Rightarrow> int \<Rightarrow> LayerShardSpec" where
  "sparse_shard ws rr_offset lid kv needed =
     (let base = kv sdiv needed; rem = kv smod needed in
      \<lparr>layer_id = lid,
       assigned_ranks = map (\<lambda>j. (rr_offset + j) smod ws) [0..needed - 1],
       heads_per_rank = map (\<lambda>j. base + (if j < rem then 1 else 0)) [0..needed - 1]\<rparr>)"

definition layer_step :: "int \<Rightarrow> int \<Rightarrow> int \<Rightarrow> int \<Rightarrow> (LayerShardSpec \<times> int) result" where
  "layer_step ws rr_offset lid kv =
     (if kv \<ge> ws then Inr (dense_shard ws lid kv, rr_offset)
      else let needed = signed_take_bit 31 kv in
        if needed = 0 then Inl (Undefined ''total_heads / needed'')
        else Inr (sparse_shard ws rr_offset lid kv needed, (rr_offset + needed) smod ws))"

fun layer_loop :: "int \<Rightarrow> int \<Rightarrow> int \<Rightarrow> int list \<Rightarrow> LayerShardSpec list result" where
  "layer_loop ws rr_offset lid [] = Inr []"
| "layer_loop ws rr_offset lid (kv # rest) =
     rbind (layer_step ws rr_offset lid kv) (\<lambda>(spec, rr).
     rbind (layer_loop ws rr (lid + 1) rest) (\<lambda>ss.
     Inr (spec # ss)))"

definition compute_ilu_layerwise_layout ::
    "int \<Rightarrow> int list \<Rightarrow> int \<Rightarrow> IluTopoKind \<Rightarrow> LayerwiseSplitLayout result" where
  "compute_ilu_layerwise_layout n_layers per_layer_kv_heads world_size topo_kind =
     rbind (check (int (length per_layer_kv_heads) = n_layers)
              ''per_layer_kv_heads.size() == num_layers'') (\<lambda>_.
     rbind (check (world_size > 0) ''world_size > 0'') (\<lambda>_.
     rbind (layer_loop world_size 0 0 per_layer_kv_heads) make_layout))"

section \<open>What a shard of a layer is\<close>

text \<open>
  The contract of one layer's shard: the ranks are distinct and in range, every rank holds
  a positive number of heads, and the heads sum to the layer's.
\<close>

definition sharded :: "int \<Rightarrow> int \<Rightarrow> LayerShardSpec \<Rightarrow> bool" where
  "sharded ws kv s \<longleftrightarrow>
     distinct (assigned_ranks s) \<and> set (assigned_ranks s) \<subseteq> {0..<ws} \<and>
     length (assigned_ranks s) = length (heads_per_rank s) \<and>
     (\<forall>h \<in> set (heads_per_rank s). 0 < h) \<and> sum_list (heads_per_rank s) = kv"

definition shard_heads :: "int \<Rightarrow> LayerShardSpec \<Rightarrow> int" where
  "shard_heads rank s =
     (case map_of (zip (assigned_ranks s) (heads_per_rank s)) rank of None \<Rightarrow> 0 | Some h \<Rightarrow> h)"

lemma find_heads_map_of:
  "length rs = length hs \<Longrightarrow>
   find_heads rank rs hs = Inr (case map_of (zip rs hs) rank of None \<Rightarrow> 0 | Some h \<Rightarrow> h)"
  by (induction rank rs hs rule: find_heads.induct) auto

lemma find_heads_sharded:
  "sharded ws kv s \<Longrightarrow>
   find_heads rank (assigned_ranks s) (heads_per_rank s) = Inr (shard_heads rank s)"
  by (simp add: find_heads_map_of sharded_def shard_heads_def)

lemma rank_in_spec_iff [simp]: "rank_in_spec rank s \<longleftrightarrow> rank \<in> set (assigned_ranks s)"
  by (auto simp: rank_in_spec_def list_ex_iff)

lemma shard_heads_not_owned: "rank \<notin> set (assigned_ranks s) \<Longrightarrow> shard_heads rank s = 0"
  by (auto simp: shard_heads_def dest!: map_of_SomeD set_zip_leftD split: option.splits)

lemma shard_heads_pos:
  assumes "sharded ws kv s" and "rank \<in> set (assigned_ranks s)"
  shows "0 < shard_heads rank s"
proof -
  from assms have "rank \<in> dom (map_of (zip (assigned_ranks s) (heads_per_rank s)))"
    by (simp add: sharded_def)
  then obtain h where h: "map_of (zip (assigned_ranks s) (heads_per_rank s)) rank = Some h"
    by blast
  then have "h \<in> set (heads_per_rank s)"
    by (meson map_of_SomeD set_zip_rightD)
  with assms(1) h show ?thesis by (simp add: sharded_def shard_heads_def)
qed

lemma shard_heads_nonneg: "sharded ws kv s \<Longrightarrow> 0 \<le> shard_heads rank s"
  by (cases "rank \<in> set (assigned_ranks s)")
     (auto dest: shard_heads_pos simp: shard_heads_not_owned intro: order_less_imp_le)

lemma sum_map_of_zip:
  assumes "distinct rs" and "length rs = length hs" and "finite A" and "set rs \<subseteq> A"
  shows "(\<Sum>r \<in> A. case map_of (zip rs hs) r of None \<Rightarrow> 0 | Some h \<Rightarrow> h) = sum_list (hs :: int list)"
  using assms(2,1,3,4)
proof (induction rs hs rule: list_induct2)
  case Nil
  then show ?case by simp
next
  case 2: (Cons r rs h hs)
  let ?v = "\<lambda>r'. case map_of (zip rs hs) r' of None \<Rightarrow> 0 | Some h \<Rightarrow> h"
  have "r \<in> A" using 2 by simp
  have r: "?v r = 0" using 2 by (auto dest!: map_of_SomeD set_zip_leftD split: option.splits)
  have "(\<Sum>r' \<in> A. case map_of (zip (r # rs) (h # hs)) r' of None \<Rightarrow> 0 | Some h \<Rightarrow> h)
      = (\<Sum>r' \<in> A. (if r' = r then h else 0) + ?v r')"
    using r by (intro sum.cong) auto
  also have "\<dots> = h + (\<Sum>r' \<in> A. ?v r')"
    using \<open>r \<in> A\<close> \<open>finite A\<close> by (simp add: sum.distrib sum.delta)
  finally show ?case using 2 by simp
qed

lemma sum_shard_heads:
  "sharded ws kv s \<Longrightarrow> (\<Sum>r \<in> {0..<ws}. shard_heads r s) = kv"
  by (auto simp: sharded_def shard_heads_def sum_map_of_zip)

section \<open>Round robin\<close>

text \<open>
  The ranks of the sparse layers, one after the other, are \<open>a mod ws, (a + 1) mod ws, \<dots>\<close>:
  each layer starts where the previous one stopped. \<open>rr_hits ws r a n\<close> counts the
  visits to rank \<open>r\<close> in \<open>n\<close> steps from \<open>a\<close>.
\<close>

definition rr_hits :: "int \<Rightarrow> int \<Rightarrow> int \<Rightarrow> int \<Rightarrow> int" where
  "rr_hits ws r a n = (\<Sum>j \<in> {0..<n}. of_bool ((a + j) mod ws = r))"

lemma rr_hits_mod [simp]: "rr_hits ws r (a mod ws) n = rr_hits ws r a n"
  by (simp add: rr_hits_def mod_add_left_eq)

lemma rr_hits_0 [simp]: "rr_hits ws r a 0 = 0"
  by (simp add: rr_hits_def)

lemma rr_hits_nonneg: "0 \<le> rr_hits ws r a n"
  by (simp add: rr_hits_def sum_nonneg)

lemma rr_hits_add:
  assumes "0 \<le> m" and "0 \<le> n"
  shows "rr_hits ws r a (m + n) = rr_hits ws r a m + rr_hits ws r (a + m) n"
proof -
  let ?f = "\<lambda>j. of_bool ((a + j) mod ws = r) :: int"
  have "(\<Sum>j \<in> {m..<m + n}. ?f j) = (\<Sum>j \<in> {0..<n}. ?f (m + j))"
    by (rule sum.reindex_bij_witness[of _ "\<lambda>j. m + j" "\<lambda>j. j - m"]) auto
  moreover have "(\<Sum>j \<in> {0..<m + n}. ?f j) = (\<Sum>j \<in> {0..<m}. ?f j) + (\<Sum>j \<in> {m..<m + n}. ?f j)"
  proof -
    have "{0..<m + n} = {0..<m} \<union> {m..<m + n}" using assms by auto
    then have "(\<Sum>j \<in> {0..<m + n}. ?f j) = (\<Sum>j \<in> {0..<m} \<union> {m..<m + n}. ?f j)"
      by (rule arg_cong)
    also have "\<dots> = (\<Sum>j \<in> {0..<m}. ?f j) + (\<Sum>j \<in> {m..<m + n}. ?f j)"
      by (rule sum.union_disjoint) auto
    finally show ?thesis .
  qed
  ultimately show ?thesis
    by (simp only: rr_hits_def add.assoc)
qed

text \<open>A full round visits each rank once, a shorter walk at most once.\<close>

lemma rr_unique:
  assumes "0 < ws" and "0 \<le> j" and "j < ws" and "(a + j) mod ws = r"
  shows "j = (r - a) mod (ws::int)"
proof -
  have "(r - a) mod ws = ((a + j) mod ws - a) mod ws" using assms by simp
  also have "\<dots> = j mod ws" by (simp add: mod_diff_left_eq)
  finally show ?thesis using assms by simp
qed

lemma rr_hits_round:
  assumes "0 \<le> r" and "r < ws"
  shows "rr_hits ws r a ws = 1"
proof -
  let ?j = "(r - a) mod ws"
  have j: "0 \<le> ?j" "?j < ws" "(a + ?j) mod ws = r"
    using assms by (simp_all add: mod_add_right_eq)
  have "rr_hits ws r a ws = (\<Sum>j \<in> {0..<ws}. of_bool (j = ?j))"
    unfolding rr_hits_def using rr_unique[of ws _ a r] j assms
    by (intro sum.cong) auto
  also have "\<dots> = 1" using j by (simp add: of_bool_def)
  finally show ?thesis .
qed

lemma rr_hits_short:
  assumes "0 \<le> r" and "r < ws" and "0 \<le> n" and "n \<le> ws"
  shows "rr_hits ws r a n \<le> 1"
  using rr_hits_add[of n "ws - n" ws r a] rr_hits_nonneg[of ws r "a + n" "ws - n"]
    rr_hits_round[of r ws a] assms by simp

lemma rr_hits_rounds:
  assumes "0 \<le> r" and "r < ws"
  shows "rr_hits ws r a (int q * ws) = int q"
proof (induction q arbitrary: a)
  case 0
  then show ?case by simp
next
  case (Suc q)
  have "int (Suc q) * ws = ws + int q * ws" by (simp add: algebra_simps)
  then show ?case
    using assms Suc rr_hits_add[of ws "int q * ws" ws r a] by (simp add: rr_hits_round)
qed

lemma rr_hits_split:
  assumes "0 \<le> r" and "r < ws" and "0 \<le> n"
  shows "rr_hits ws r a n = n div ws + rr_hits ws r (a + n div ws * ws) (n mod ws)"
proof -
  have "0 \<le> n div ws" using assms by (simp add: pos_imp_zdiv_nonneg_iff)
  then have "rr_hits ws r a (n div ws * ws) = n div ws"
    using rr_hits_rounds[OF assms(1,2), of a "nat (n div ws)"] by simp
  with rr_hits_add[of "n div ws * ws" "n mod ws" ws r a] \<open>0 \<le> n div ws\<close> assms
  show ?thesis by simp
qed

lemma rr_hits_bounds:
  assumes "0 \<le> r" and "r < ws" and "0 \<le> n"
  shows "n div ws \<le> rr_hits ws r a n"
    and "rr_hits ws r a n \<le> n div ws + of_bool (n mod ws \<noteq> 0)"
proof -
  let ?h = "rr_hits ws r (a + n div ws * ws) (n mod ws)"
  have "?h \<le> of_bool (n mod ws \<noteq> 0)"
    using rr_hits_short[OF assms(1,2), of "n mod ws"] assms
    by (cases "n mod ws = 0") (simp_all add: order_less_imp_le)
  then show "rr_hits ws r a n \<le> n div ws + of_bool (n mod ws \<noteq> 0)"
    using rr_hits_split[OF assms, of a] by linarith
  show "n div ws \<le> rr_hits ws r a n"
    using rr_hits_split[OF assms, of a] rr_hits_nonneg[of ws r] by simp
qed

lemma rr_hits_balanced:
  assumes "0 \<le> r" and "r < ws" and "0 \<le> r'" and "r' < ws" and "0 \<le> n"
  shows "rr_hits ws r a n - rr_hits ws r' a n \<le> 1"
proof -
  have "rr_hits ws r a n \<le> n div ws + 1"
    using rr_hits_bounds(2)[OF assms(1,2,5), of a] by (cases "n mod ws = 0") auto
  moreover have "n div ws \<le> rr_hits ws r' a n"
    by (rule rr_hits_bounds(1)[OF assms(3-5)])
  ultimately show ?thesis by simp
qed

section \<open>The shards the mapping computes\<close>

lemma shard_heads_map:
  assumes "assigned_ranks s = map f xs" and "heads_per_rank s = map g xs"
    and "distinct xs" and "inj_on f (set xs)" and "x \<in> set xs"
  shows "shard_heads (f x) s = g x"
proof -
  have "zip (map f xs) (map g xs) = map (\<lambda>x. (f x, g x)) xs"
    by (simp add: zip_map_map zip_same_conv_map)
  moreover have "distinct (map fst (map (\<lambda>x. (f x, g x)) xs))"
    using assms(3,4) by (simp add: distinct_map o_def)
  ultimately have "map_of (zip (map f xs) (map g xs)) (f x) = Some (g x)"
    using assms(5) by (auto intro!: map_of_is_SomeI)
  then show ?thesis by (simp add: shard_heads_def assms(1,2))
qed

lemma set_upto_less [simp]: "{0..n - 1} = {0..<n}" for n :: int
  by auto

lemma dense_shard_heads:
  assumes "0 \<le> r" and "r < ws" and "ws \<le> kv"
  shows "shard_heads r (dense_shard ws lid kv) = kv div ws + of_bool (r < kv mod ws)"
  using shard_heads_map[of "dense_shard ws lid kv" "\<lambda>r. r" "[0..ws - 1]"
      "\<lambda>r. kv sdiv ws + (if r < kv smod ws then 1 else 0)" r] assms
  by (simp add: dense_shard_def Let_def c_arith)

lemma dense_shard_sharded:
  assumes "0 < ws" and "ws \<le> kv"
  shows "sharded ws kv (dense_shard ws lid kv)"
proof -
  have "0 < kv div ws" using assms by (simp add: pos_imp_zdiv_pos_iff)
  moreover have "(\<Sum>r \<in> {0..<ws}. kv div ws + (if r < kv mod ws then 1 else 0)) = kv"
    using sum_even_split[of ws kv] assms by simp
  ultimately show ?thesis using assms
    by (auto simp: sharded_def dense_shard_def Let_def c_arith sum_list_map_upto)
qed

lemma rr_rank_inj:
  assumes "0 < ws" and "n \<le> ws"
  shows "inj_on (\<lambda>j. (a + j) mod ws) {0..<n :: int}"
proof (rule inj_onI)
  fix x y assume xy: "x \<in> {0..<n}" "y \<in> {0..<n}" "(a + x) mod ws = (a + y) mod ws"
  then have "x = ((a + y) mod ws - a) mod ws" "y = ((a + y) mod ws - a) mod ws"
    using assms by (auto intro!: rr_unique)
  then show "x = y" by simp
qed

lemma sparse_shard_simps:
  assumes "0 \<le> rr" and "0 < n" and "n < ws"
  shows "assigned_ranks (sparse_shard ws rr lid n n) = map (\<lambda>j. (rr + j) mod ws) [0..n - 1]"
    and "heads_per_rank (sparse_shard ws rr lid n n) = map (\<lambda>j. 1) [0..n - 1]"
    and "layer_id (sparse_shard ws rr lid n n) = lid"
  using assms by (auto simp: sparse_shard_def Let_def c_arith)

lemma sparse_shard_sharded:
  assumes "0 \<le> rr" and "0 < n" and "n < ws"
  shows "sharded ws n (sparse_shard ws rr lid n n)"
  using assms rr_rank_inj[of ws n rr]
  by (auto simp: sharded_def sparse_shard_simps distinct_map sum_list_map_upto)

lemma sparse_shard_heads:
  assumes "0 \<le> rr" and "0 < n" and "n < ws" and "0 \<le> r" and "r < ws"
  shows "shard_heads r (sparse_shard ws rr lid n n) = rr_hits ws r rr n"
proof (cases "\<exists>j \<in> {0..<n}. (rr + j) mod ws = r")
  case True
  then obtain j where j: "j \<in> {0..<n}" "(rr + j) mod ws = r" by blast
  have "shard_heads ((rr + j) mod ws) (sparse_shard ws rr lid n n) = 1"
    using j assms rr_rank_inj[of ws n rr]
    by (intro shard_heads_map[where xs = "[0..n - 1]" and g = "\<lambda>_. 1"])
       (simp_all add: sparse_shard_simps)
  moreover have "1 \<le> rr_hits ws r rr n"
  proof -
    have "(\<Sum>i \<in> {j}. of_bool ((rr + i) mod ws = r) :: int) \<le> rr_hits ws r rr n"
      unfolding rr_hits_def using j by (intro sum_mono2) auto
    with j show ?thesis by simp
  qed
  ultimately show ?thesis
    using rr_hits_short[of r ws n rr] assms j by simp
next
  case False
  then have "rr_hits ws r rr n = 0"
    by (auto simp: rr_hits_def intro!: sum.neutral)
  moreover have "r \<notin> set (assigned_ranks (sparse_shard ws rr lid n n))"
    using False assms by (auto simp: sparse_shard_simps)
  ultimately show ?thesis by (simp add: shard_heads_not_owned)
qed

text \<open>The cast to \<^verbatim>\<open>int32_t\<close> keeps the head count of a sparse layer.\<close>

lemma narrow_id: "0 < (kv::int) \<Longrightarrow> kv < ws \<Longrightarrow> ws < 2 ^ 31 \<Longrightarrow> signed_take_bit 31 kv = kv"
  by (rule signed_take_bit_int_eq_self) auto

lemma layer_step_dense:
  "ws \<le> kv \<Longrightarrow> layer_step ws rr lid kv = Inr (dense_shard ws lid kv, rr)"
  by (simp add: layer_step_def)

lemma layer_step_sparse:
  assumes "0 < kv" and "kv < ws" and "ws < 2 ^ 31" and "0 \<le> rr"
  shows "layer_step ws rr lid kv = Inr (sparse_shard ws rr lid kv kv, (rr + kv) mod ws)"
  using assms narrow_id[of kv ws] by (simp add: layer_step_def c_arith)

section \<open>The layer loop\<close>

text \<open>On positive head counts the loop returns these shards, with no failure.\<close>

fun shards :: "int \<Rightarrow> int \<Rightarrow> int \<Rightarrow> int list \<Rightarrow> LayerShardSpec list" where
  "shards ws rr lid [] = []"
| "shards ws rr lid (kv # rest) =
     (if ws \<le> kv then dense_shard ws lid kv # shards ws rr (lid + 1) rest
      else sparse_shard ws rr lid kv kv # shards ws ((rr + kv) mod ws) (lid + 1) rest)"

definition positive_heads :: "int list \<Rightarrow> bool" where
  "positive_heads hs \<longleftrightarrow> (\<forall>h \<in> set hs. 0 < h)"

lemma positive_heads_simps [simp]:
  "positive_heads []" "positive_heads (h # hs) \<longleftrightarrow> 0 < h \<and> positive_heads hs"
  by (auto simp: positive_heads_def)

definition rank_count :: "int \<Rightarrow> bool" where
  "rank_count ws \<longleftrightarrow> 0 < ws \<and> ws < 2 ^ 31"

lemma rank_countD: "rank_count ws \<Longrightarrow> 0 < ws" "rank_count ws \<Longrightarrow> ws < 2 ^ 31"
  by (simp_all add: rank_count_def)

lemma layer_loop_shards:
  "rank_count ws \<Longrightarrow> positive_heads hs \<Longrightarrow> 0 \<le> rr \<Longrightarrow>
   layer_loop ws rr lid hs = Inr (shards ws rr lid hs)"
  by (induction hs arbitrary: rr lid)
     (auto simp: layer_step_dense layer_step_sparse rank_count_def)

lemma length_shards [simp]: "length (shards ws rr lid hs) = length hs"
  by (induction hs arbitrary: rr lid) auto

lemma layer_id_shards:
  "i < length hs \<Longrightarrow> layer_id (shards ws rr lid hs ! i) = lid + int i"
  by (induction hs arbitrary: rr lid i)
     (auto simp: nth_Cons dense_shard_def sparse_shard_def Let_def split: nat.splits)

lemma shards_sharded:
  "0 < ws \<Longrightarrow> positive_heads hs \<Longrightarrow> 0 \<le> rr \<Longrightarrow>
   list_all2 (sharded ws) hs (shards ws rr lid hs)"
  by (induction hs arbitrary: rr lid)
     (auto intro: dense_shard_sharded sparse_shard_sharded)

lemma sharded_is_valid:
  "sharded ws kv s \<Longrightarrow> 0 < kv \<Longrightarrow> 0 \<le> layer_id s \<Longrightarrow> is_valid s"
  by (auto simp: sharded_def is_valid_def list_all_iff)

lemma validate_from_Inr_iff:
  "validate_from i ss = Inr () \<longleftrightarrow>
   (\<forall>k < length ss. is_valid (ss ! k) \<and> layer_id (ss ! k) = i + int k)"
proof (induction ss arbitrary: i)
  case Nil
  then show ?case by simp
next
  case (Cons s ss)
  show ?case
    by (auto simp: result_simps Cons.IH nth_Cons split: nat.splits)
qed

lemma validate_shards:
  assumes "rank_count ws" and "positive_heads hs" and "0 \<le> rr"
  shows "validate_from 0 (shards ws rr 0 hs) = Inr ()"
proof -
  have "is_valid (shards ws rr 0 hs ! k)" if "k < length hs" for k
  proof (rule sharded_is_valid)
    show "sharded ws (hs ! k) (shards ws rr 0 hs ! k)"
      using shards_sharded[of ws hs rr 0] assms that
      by (auto simp: rank_count_def list_all2_conv_all_nth)
    show "0 < hs ! k" using assms that by (simp add: positive_heads_def)
    show "0 \<le> layer_id (shards ws rr 0 hs ! k)" using that by (simp add: layer_id_shards)
  qed
  then show ?thesis by (simp add: validate_from_Inr_iff layer_id_shards)
qed

lemma compute_layout_eq:
  assumes "rank_count ws" and "positive_heads hs"
  shows "compute_ilu_layerwise_layout (int (length hs)) hs ws topo = Inr \<lparr>specs = shards ws 0 0 hs\<rparr>"
  using assms validate_shards[of ws hs 0] layer_loop_shards[of ws hs 0 0]
  by (simp add: compute_ilu_layerwise_layout_def make_layout_def Let_def validate_def rank_count_def)

text \<open>No layout comes out of a head count that is not positive.\<close>

lemma sparse_shard_nonpos:
  assumes "n \<noteq> 0" and "kv \<le> 0"
  shows "\<not> is_valid (sparse_shard ws rr lid kv n)"
proof (cases "n < 0")
  case True
  then show ?thesis by (simp add: is_valid_def sparse_shard_def Let_def)
next
  case False
  with assms have "0 < n" by simp
  then have "kv sdiv n \<le> 0" "kv smod n \<le> 0"
    using assms(2) by (auto simp: signed_divide_int_def signed_modulo_int_def sgn_if
      zero_le_mult_iff pos_imp_zdiv_nonneg_iff)
  with \<open>0 < n\<close> show ?thesis
    by (auto simp: is_valid_def sparse_shard_def Let_def list_all_iff)
qed

lemma layer_step_nonpos:
  assumes "layer_step ws rr lid kv = Inr (s, rr')" and "0 < ws" and "kv \<le> 0"
  shows "\<not> is_valid s"
  using assms sparse_shard_nonpos[of _ kv ws rr lid]
  by (auto simp: layer_step_def Let_def split: if_splits)

lemma layer_loop_nonpos:
  assumes "layer_loop ws rr lid hs = Inr ss" and "0 < ws" and "\<not> positive_heads hs"
  shows "\<exists>s \<in> set ss. \<not> is_valid s"
  using assms
proof (induction hs arbitrary: rr lid ss)
  case Nil
  then show ?case by simp
next
  case (Cons kv hs)
  then obtain s rr' ss' where *: "layer_step ws rr lid kv = Inr (s, rr')"
      "layer_loop ws rr' (lid + 1) hs = Inr ss'" "ss = s # ss'"
    by (auto simp: rbind_eq_Inr_iff)
  show ?case
  proof (cases "0 < kv")
    case True
    then show ?thesis using Cons.IH[OF *(2)] Cons.prems * by auto
  next
    case False
    then show ?thesis using layer_step_nonpos[OF *(1)] Cons.prems * by auto
  qed
qed

lemma layer_loop_zero_heads:
  assumes "rank_count ws" and "positive_heads pre" and "0 \<le> rr"
  shows "layer_loop ws rr lid (pre @ 0 # post) = Inl (Undefined ''total_heads / needed'')"
  using assms
proof (induction pre arbitrary: rr lid)
  case Nil
  then show ?case by (simp add: layer_step_def rank_count_def)
next
  case (Cons kv pre)
  then show ?case
    by (cases "ws \<le> kv") (simp_all add: layer_step_dense layer_step_sparse rank_count_def)
qed

section \<open>Heads and layers of one rank\<close>

definition sparse_heads :: "int \<Rightarrow> int list \<Rightarrow> int" where
  "sparse_heads ws hs = sum_list (filter (\<lambda>h. h < ws) hs)"

lemma sparse_heads_simps [simp]:
  "sparse_heads ws [] = 0"
  "sparse_heads ws (h # hs) = (if h < ws then h else 0) + sparse_heads ws hs"
  by (simp_all add: sparse_heads_def)

lemma sparse_heads_nonneg: "positive_heads hs \<Longrightarrow> 0 \<le> sparse_heads ws hs"
  by (induction hs) auto

definition dense_heads_on :: "int \<Rightarrow> int list \<Rightarrow> int \<Rightarrow> int" where
  "dense_heads_on ws hs r =
     (\<Sum>kv \<leftarrow> filter (\<lambda>h. ws \<le> h) hs. kv div ws + of_bool (r < kv mod ws))"

lemma dense_heads_on_simps [simp]:
  "dense_heads_on ws [] r = 0"
  "dense_heads_on ws (h # hs) r =
     (if ws \<le> h then h div ws + of_bool (r < h mod ws) else 0) + dense_heads_on ws hs r"
  by (simp_all add: dense_heads_on_def)

definition rank_heads :: "LayerShardSpec list \<Rightarrow> int \<Rightarrow> int" where
  "rank_heads ss r = (\<Sum>s \<leftarrow> ss. shard_heads r s)"

lemma rank_heads_simps [simp]:
  "rank_heads [] r = 0" "rank_heads (s # ss) r = shard_heads r s + rank_heads ss r"
  by (simp_all add: rank_heads_def)

lemma rank_heads_shards:
  assumes "0 \<le> r" and "r < ws"
  shows "positive_heads hs \<Longrightarrow> 0 \<le> rr \<Longrightarrow>
    rank_heads (shards ws rr lid hs) r = dense_heads_on ws hs r + rr_hits ws r rr (sparse_heads ws hs)"
proof (induction hs arbitrary: rr lid)
  case Nil
  then show ?case by simp
next
  case (Cons kv hs)
  show ?case
  proof (cases "ws \<le> kv")
    case True
    with Cons assms show ?thesis by (simp add: dense_shard_heads)
  next
    case False
    have "rr_hits ws r rr (kv + sparse_heads ws hs)
        = rr_hits ws r rr kv + rr_hits ws r (rr + kv) (sparse_heads ws hs)"
      using Cons.prems sparse_heads_nonneg by (intro rr_hits_add) auto
    with False Cons assms show ?thesis by (simp add: sparse_shard_heads)
  qed
qed

lemma sum_rank_heads:
  assumes "list_all2 (sharded ws) hs ss"
  shows "(\<Sum>r \<in> {0..<ws}. rank_heads ss r) = sum_list hs"
  using assms by (induction rule: list_all2_induct) (simp_all add: sum.distrib sum_shard_heads)

text \<open>The sparse layers a rank stores.\<close>

definition sparse_layers_on :: "int \<Rightarrow> int list \<Rightarrow> LayerShardSpec list \<Rightarrow> int \<Rightarrow> nat" where
  "sparse_layers_on ws hs ss r =
     length (filter (\<lambda>(kv, s). kv < ws \<and> rank_in_spec r s) (zip hs ss))"

lemma sparse_layers_on_simps [simp]:
  "sparse_layers_on ws [] ss r = 0"
  "sparse_layers_on ws (h # hs) (s # ss) r =
     of_bool (h < ws \<and> rank_in_spec r s) + sparse_layers_on ws hs ss r"
  by (simp_all add: sparse_layers_on_def)

lemma sparse_shard_owned:
  assumes "0 \<le> rr" and "0 < n" and "n < ws" and "0 \<le> r" and "r < ws"
  shows "of_bool (rank_in_spec r (sparse_shard ws rr lid n n)) = rr_hits ws r rr n"
proof -
  have s: "sharded ws n (sparse_shard ws rr lid n n)"
    by (rule sparse_shard_sharded[OF assms(1-3)])
  show ?thesis
    using sparse_shard_heads[OF assms, of lid] shard_heads_pos[OF s, of r]
      rr_hits_short[of r ws n rr] shard_heads_not_owned[of r] assms
    by (cases "r \<in> set (assigned_ranks (sparse_shard ws rr lid n n))") auto
qed

lemma sparse_layers_on_shards:
  assumes "0 \<le> r" and "r < ws"
  shows "positive_heads hs \<Longrightarrow> 0 \<le> rr \<Longrightarrow>
    int (sparse_layers_on ws hs (shards ws rr lid hs) r) = rr_hits ws r rr (sparse_heads ws hs)"
proof (induction hs arbitrary: rr lid)
  case Nil
  then show ?case by simp
next
  case (Cons kv hs)
  show ?case
  proof (cases "ws \<le> kv")
    case True
    with Cons assms show ?thesis by simp
  next
    case False
    have "rr_hits ws r rr (kv + sparse_heads ws hs)
        = rr_hits ws r rr kv + rr_hits ws r (rr + kv) (sparse_heads ws hs)"
      using Cons.prems sparse_heads_nonneg by (intro rr_hits_add) auto
    with False Cons assms sparse_shard_owned[of rr kv ws r lid] show ?thesis
      by (simp del: rank_in_spec_iff)
  qed
qed

lemma sparse_layers_le: "length hs = length ss \<Longrightarrow>
  int (sparse_layers_on ws hs ss r) \<le> layers_on_rank \<lparr>specs = ss\<rparr> r"
  by (induction hs ss rule: list_induct2) (auto simp: layers_on_rank_def)

lemma dense_layer_owned:
  "ws \<le> kv \<Longrightarrow> 0 \<le> r \<Longrightarrow> r < ws \<Longrightarrow> rank_in_spec r (dense_shard ws lid kv)"
  by (simp add: dense_shard_def Let_def)

lemma layers_on_rank_dense:
  "0 \<le> r \<Longrightarrow> r < ws \<Longrightarrow> kv \<in> set hs \<Longrightarrow> ws \<le> kv \<Longrightarrow>
   0 < layers_on_rank \<lparr>specs = shards ws rr lid hs\<rparr> r"
  by (induction hs arbitrary: rr lid)
     (auto simp: layers_on_rank_def dense_layer_owned simp del: rank_in_spec_iff)

lemma layer_fair:
  assumes "0 < ws" and "positive_heads hs" and "0 \<le> rr" and "i < length hs"
    and "0 \<le> r" and "r < ws" and "0 \<le> r'" and "r' < ws"
  shows "shard_heads r (shards ws rr lid hs ! i) - shard_heads r' (shards ws rr lid hs ! i) \<le> 1"
  using assms
proof (induction hs arbitrary: rr lid i)
  case Nil
  then show ?case by simp
next
  case (Cons kv hs)
  show ?case
  proof (cases i)
    case (Suc k)
    with Cons show ?thesis by (auto intro!: Cons.IH)
  next
    case 0
    then show ?thesis
    proof (cases "ws \<le> kv")
      case True
      with Cons.prems 0 show ?thesis by (simp add: dense_shard_heads)
    next
      case False
      with Cons.prems 0 rr_hits_balanced[of r ws r' kv rr] show ?thesis
        by (simp add: sparse_shard_heads)
    qed
  qed
qed

section \<open>The contract of a layout provider\<close>

text \<open>
  What the estimator, the allocator and the master rely on: from positive head counts the
  provider returns one shard per layer, in layer order. They use the layout through the
  lemmas of this contract only.
\<close>

locale layout_provider =
  fixes compute :: "int \<Rightarrow> int list \<Rightarrow> int \<Rightarrow> LayerwiseSplitLayout result"
  assumes compute_total: "rank_count ws \<Longrightarrow> positive_heads hs \<Longrightarrow>
      \<exists>L. compute (int (length hs)) hs ws = Inr L"
    and compute_sharded: "rank_count ws \<Longrightarrow> positive_heads hs \<Longrightarrow>
      compute (int (length hs)) hs ws = Inr L \<Longrightarrow> list_all2 (sharded ws) hs (specs L)"
begin

lemma provided_length:
  "rank_count ws \<Longrightarrow> positive_heads hs \<Longrightarrow> compute (int (length hs)) hs ws = Inr L \<Longrightarrow>
   num_layers L = int (length hs)"
  using compute_sharded[of ws hs L] by (simp add: num_layers_def list_all2_lengthD)

lemma provided_shard:
  assumes "rank_count ws" and "positive_heads hs" and "compute (int (length hs)) hs ws = Inr L"
    and "0 \<le> lid" and "lid < int (length hs)"
  shows "sharded ws (hs ! nat lid) (specs L ! nat lid)"
  using compute_sharded[OF assms(1-3)] assms(4,5) by (simp add: list_all2_conv_all_nth)

lemma provided_heads:
  assumes "rank_count ws" and "positive_heads hs" and "compute (int (length hs)) hs ws = Inr L"
    and "0 \<le> lid" and "lid < int (length hs)"
  shows "heads_for_rank L r lid = Inr (shard_heads r (specs L ! nat lid))"
  using provided_shard[OF assms] provided_length[OF assms(1-3)] assms(4,5)
  by (simp add: heads_for_rank_def spec_at_def find_heads_sharded)

lemma provided_owned:
  assumes "rank_count ws" and "positive_heads hs" and "compute (int (length hs)) hs ws = Inr L"
    and "0 \<le> lid" and "lid < int (length hs)"
  shows "rank_owns_layer L r lid = Inr (0 < shard_heads r (specs L ! nat lid))"
proof -
  have "sharded ws (hs ! nat lid) (specs L ! nat lid)" by (rule provided_shard[OF assms])
  then have "r \<in> set (assigned_ranks (specs L ! nat lid)) \<longleftrightarrow> 0 < shard_heads r (specs L ! nat lid)"
    using shard_heads_pos shard_heads_not_owned by fastforce
  then show ?thesis
    using provided_length[OF assms(1-3)] assms(4,5) by (simp add: rank_owns_layer_def spec_at_def)
qed

lemma provided_sum:
  assumes "rank_count ws" and "positive_heads hs" and "compute (int (length hs)) hs ws = Inr L"
  shows "(\<Sum>r \<in> {0..<ws}. rank_heads (specs L) r) = sum_list hs"
  by (rule sum_rank_heads[OF compute_sharded[OF assms]])

end

interpretation ilu: layout_provider "\<lambda>n hs ws. compute_ilu_layerwise_layout n hs ws topo" for topo
  by unfold_locales (auto simp: compute_layout_eq rank_count_def intro!: shards_sharded)

section \<open>Properties\<close>

lemma compute_layout_Inr:
  assumes "rank_count ws" and "positive_heads hs"
    and "compute_ilu_layerwise_layout (int (length hs)) hs ws topo = Inr L"
  shows "specs L = shards ws 0 0 hs"
  using assms by (auto simp: compute_layout_eq)

text \<open>
  C12: for every list of positive per-layer KV head counts and every rank count below
  $2^{31}$ the mapping returns a layout, with one shard per layer in layer order; each shard
  names distinct ranks in range, gives each a positive number of heads and hands out exactly
  the layer's heads. No \<^verbatim>\<open>CHECK\<close> of the mapping or of the layout's constructor fails.
\<close>

theorem layout_computed:
  assumes "rank_count ws" and "positive_heads hs"
  shows "\<exists>L. compute_ilu_layerwise_layout (int (length hs)) hs ws topo = Inr L \<and>
    num_layers L = int (length hs) \<and>
    (\<forall>i < length hs. layer_id (specs L ! i) = int i \<and> sharded ws (hs ! i) (specs L ! i))"
  using assms shards_sharded[of ws hs 0 0]
  by (auto simp: compute_layout_eq num_layers_def layer_id_shards rank_count_def
      list_all2_conv_all_nth)

theorem layout_computed_witness:
  "\<exists>L. compute_ilu_layerwise_layout 3 [8, 5, 2] 4 kFlatPIX = Inr L \<and>
    num_layers L = 3 \<and>
    (\<forall>i < 3. layer_id (specs L ! i) = int i \<and> sharded 4 ([8, 5, 2] ! i) (specs L ! i))"
  using layout_computed[of 4 "[8, 5, 2]" kFlatPIX]
  by (simp add: rank_count_def numeral_3_eq_3)

text \<open>
  the mapping returns a layout exactly when every layer has a positive number of KV
  heads. Zero or negative counts never slip through: they end in the division or in the
  constructor's \<^verbatim>\<open>CHECK\<close>, whatever the cast to \<^verbatim>\<open>int32_t\<close> makes of them.
\<close>

theorem layout_iff_positive_heads:
  assumes "rank_count ws"
  shows "(\<exists>L. compute_ilu_layerwise_layout (int (length hs)) hs ws topo = Inr L)
    \<longleftrightarrow> positive_heads hs"
proof
  assume "\<exists>L. compute_ilu_layerwise_layout (int (length hs)) hs ws topo = Inr L"
  then obtain ss where loop: "layer_loop ws 0 0 hs = Inr ss" and "validate_from 0 ss = Inr ()"
    by (auto simp: compute_ilu_layerwise_layout_def make_layout_def validate_def Let_def result_simps)
  then have "\<forall>s \<in> set ss. is_valid s"
    by (auto simp: validate_from_Inr_iff in_set_conv_nth)
  then show "positive_heads hs"
    using layer_loop_nonpos[OF loop] assms by (auto simp: rank_count_def)
qed (use assms compute_layout_eq in blast)

theorem layout_iff_positive_heads_witness:
  "\<not> (\<exists>L. compute_ilu_layerwise_layout 2 [8, -3] 4 kGrouped = Inr L)"
  using layout_iff_positive_heads[of 4 "[8, -3]" kGrouped] by (simp add: rank_count_def)

text \<open>
  the first layer without KV heads (a linear-attention layer, say) makes the mapping
  divide by zero: \<^verbatim>\<open>total_heads / needed\<close> is evaluated with \<open>needed = 0\<close>, before the
  constructor could report the empty shard.
\<close>

theorem layout_zero_heads_undefined:
  assumes "rank_count ws" and "positive_heads pre"
  shows "compute_ilu_layerwise_layout (int (length (pre @ 0 # post))) (pre @ 0 # post) ws topo
    = Inl (Undefined ''total_heads / needed'')"
  using assms layer_loop_zero_heads[of ws pre 0 0 post]
  by (simp add: compute_ilu_layerwise_layout_def rank_count_def)

theorem layout_zero_heads_undefined_witness:
  "compute_ilu_layerwise_layout 4 [8, 2, 0, 8] 4 kFlatPIX = Inl (Undefined ''total_heads / needed'')"
  using layout_zero_heads_undefined[of 4 "[8, 2]" "[8]" kFlatPIX] by (simp add: rank_count_def)

text \<open>
  C16: in every layer of a computed layout the ranks' shares, as \<^verbatim>\<open>heads_for_rank\<close> reads
  them, sum to the layer's KV heads: no head is lost and none is stored twice.
\<close>

theorem layer_heads_conserved:
  assumes "rank_count ws" and "positive_heads hs"
    and "compute_ilu_layerwise_layout (int (length hs)) hs ws topo = Inr L"
    and "0 \<le> lid" and "lid < num_layers L"
  shows "\<exists>f. (\<forall>r. heads_for_rank L r lid = Inr (f r)) \<and> (\<Sum>r \<in> {0..<ws}. f r) = hs ! nat lid"
proof -
  let ?s = "specs L ! nat lid"
  from assms have "sharded ws (hs ! nat lid) ?s"
    using compute_layout_Inr[OF assms(1-3)] shards_sharded[of ws hs 0 0]
    by (auto simp: list_all2_conv_all_nth num_layers_def rank_count_def)
  then show ?thesis using assms(4,5)
    by (intro exI[of _ "\<lambda>r. shard_heads r ?s"])
       (auto simp: heads_for_rank_def spec_at_def find_heads_sharded sum_shard_heads)
qed

theorem layer_heads_conserved_witness:
  "\<exists>L f. compute_ilu_layerwise_layout 2 [7, 3] 4 kFlatPIX = Inr L \<and>
    (\<forall>r. heads_for_rank L r 0 = Inr (f r)) \<and> (\<Sum>r \<in> {0..<4}. f r) = 7"
proof -
  have h: "rank_count 4" "positive_heads [7, 3]" by (simp_all add: rank_count_def)
  have c: "compute_ilu_layerwise_layout (int (length [7, 3 :: int])) [7, 3] 4 kFlatPIX
      = Inr \<lparr>specs = shards 4 0 0 [7, 3]\<rparr>"
    by (rule compute_layout_eq[OF h])
  show ?thesis
    using layer_heads_conserved[OF h c, of 0] c by (auto simp: num_layers_def)
qed

text \<open>
  within a layer the ranks' shares differ by at most one head.
\<close>

theorem layer_heads_fair:
  assumes "rank_count ws" and "positive_heads hs"
    and "compute_ilu_layerwise_layout (int (length hs)) hs ws topo = Inr L"
    and "r \<in> {0..<ws}" and "r' \<in> {0..<ws}"
    and "heads_for_rank L r lid = Inr a" and "heads_for_rank L r' lid = Inr b"
  shows "\<bar>a - b\<bar> \<le> 1"
proof -
  have s: "specs L = shards ws 0 0 hs" by (rule compute_layout_Inr[OF assms(1-3)])
  from assms(6) have lid: "nat lid < length hs" "0 \<le> lid"
    by (auto simp: heads_for_rank_def spec_at_def num_layers_def s result_simps split: if_splits)
  then have "sharded ws (hs ! nat lid) (specs L ! nat lid)"
    using shards_sharded[of ws hs 0 0] assms(1,2) s
    by (auto simp: list_all2_conv_all_nth rank_count_def)
  then have "a = shard_heads r (specs L ! nat lid)" "b = shard_heads r' (specs L ! nat lid)"
    using assms(6,7) by (auto simp: heads_for_rank_def spec_at_def find_heads_sharded split: if_splits)
  then show ?thesis
    using layer_fair[of ws hs 0 "nat lid" r r' 0] layer_fair[of ws hs 0 "nat lid" r' r 0]
      assms lid s by (simp add: rank_count_def abs_le_iff)
qed

theorem layer_heads_fair_witness:
  "\<exists>L a b. compute_ilu_layerwise_layout 2 [7, 3] 4 kFlatPIX = Inr L \<and>
    heads_for_rank L 0 0 = Inr a \<and> heads_for_rank L 3 0 = Inr b \<and> \<bar>a - b\<bar> \<le> 1"
proof -
  have h: "rank_count 4" "positive_heads [7, 3]" by (simp_all add: rank_count_def)
  have c: "compute_ilu_layerwise_layout (int (length [7, 3 :: int])) [7, 3] 4 kFlatPIX
      = Inr \<lparr>specs = shards 4 0 0 [7, 3]\<rparr>"
    by (rule compute_layout_eq[OF h])
  have "heads_for_rank \<lparr>specs = shards 4 0 0 [7, 3]\<rparr> 0 0 = Inr 2"
    "heads_for_rank \<lparr>specs = shards 4 0 0 [7, 3]\<rparr> 3 0 = Inr 1"
    by code_simp+
  then show ?thesis
    using layer_heads_fair[OF h c, of 0 3 0 2 1] c by auto
qed

text \<open>
  The topology argument has no effect: a grouped topology, which \<^verbatim>\<open>mapping_ilu.h\<close> says
  keeps the sparse layers within a PCIe switch, gets the flat round robin.
\<close>

lemma grouped_layout_is_flat:
  "compute_ilu_layerwise_layout n hs ws kGrouped = compute_ilu_layerwise_layout n hs ws kFlatPIX"
  by (simp add: compute_ilu_layerwise_layout_def)

text \<open>
  C15: on a flat topology round robin balances the sparse layers (fewer KV heads than ranks):
  over all of them, the numbers of layers any two ranks store differ by at most one.
\<close>

theorem round_robin_balanced:
  assumes "rank_count ws" and "positive_heads hs"
    and "compute_ilu_layerwise_layout (int (length hs)) hs ws kFlatPIX = Inr L"
    and "r \<in> {0..<ws}" and "r' \<in> {0..<ws}"
  shows "\<bar>int (sparse_layers_on ws hs (specs L) r) - int (sparse_layers_on ws hs (specs L) r')\<bar> \<le> 1"
  using rr_hits_balanced[of r ws r' "sparse_heads ws hs" 0]
    rr_hits_balanced[of r' ws r "sparse_heads ws hs" 0] sparse_heads_nonneg[of hs ws] assms(2,4,5)
  by (simp add: compute_layout_Inr[OF assms(1-3)] sparse_layers_on_shards abs_le_iff)

theorem round_robin_balanced_witness:
  "\<exists>L. compute_ilu_layerwise_layout 4 [8, 2, 3, 2] 4 kFlatPIX = Inr L \<and>
    \<bar>int (sparse_layers_on 4 [8, 2, 3, 2] (specs L) 2) - int (sparse_layers_on 4 [8, 2, 3, 2] (specs L) 3)\<bar> \<le> 1"
proof -
  have h: "rank_count 4" "positive_heads [8, 2, 3, 2]" by (simp_all add: rank_count_def)
  have c: "compute_ilu_layerwise_layout (int (length [8, 2, 3, 2 :: int])) [8, 2, 3, 2] 4 kFlatPIX
      = Inr \<lparr>specs = shards 4 0 0 [8, 2, 3, 2]\<rparr>"
    by (rule compute_layout_eq[OF h])
  show ?thesis using round_robin_balanced[OF h c, of 2 3] c by auto
qed

text \<open>
  no rank is left without a layer when some layer is dense or when the sparse layers
  have at least as many KV heads as there are ranks.
\<close>

theorem every_rank_stores_a_layer:
  assumes "rank_count ws" and "positive_heads hs"
    and "compute_ilu_layerwise_layout (int (length hs)) hs ws topo = Inr L"
    and "(\<exists>kv \<in> set hs. ws \<le> kv) \<or> ws \<le> sparse_heads ws hs"
    and "r \<in> {0..<ws}"
  shows "0 < layers_on_rank L r"
proof -
  have s: "specs L = shards ws 0 0 hs" by (rule compute_layout_Inr[OF assms(1-3)])
  then have L: "L = \<lparr>specs = shards ws 0 0 hs\<rparr>" by simp
  show ?thesis
  proof (cases "\<exists>kv \<in> set hs. ws \<le> kv")
    case True
    then show ?thesis using assms(5) L by (auto intro: layers_on_rank_dense)
  next
    case False
    with assms have "1 \<le> sparse_heads ws hs div ws"
      using zdiv_mono1[of ws "sparse_heads ws hs" ws] by (simp add: rank_count_def)
    also have "\<dots> \<le> rr_hits ws r 0 (sparse_heads ws hs)"
      using assms sparse_heads_nonneg by (intro rr_hits_bounds) auto
    also have "\<dots> = int (sparse_layers_on ws hs (shards ws 0 0 hs) r)"
      using assms by (simp add: sparse_layers_on_shards)
    also have "\<dots> \<le> layers_on_rank L r"
      unfolding L by (rule sparse_layers_le) simp
    finally show ?thesis by simp
  qed
qed

theorem every_rank_stores_a_layer_witness:
  "\<exists>L. compute_ilu_layerwise_layout 2 [2, 2] 4 kFlatPIX = Inr L \<and> 0 < layers_on_rank L 3"
proof -
  have h: "rank_count 4" "positive_heads [2, 2]" by (simp_all add: rank_count_def)
  have c: "compute_ilu_layerwise_layout (int (length [2, 2 :: int])) [2, 2] 4 kFlatPIX
      = Inr \<lparr>specs = shards 4 0 0 [2, 2]\<rparr>"
    by (rule compute_layout_eq[OF h])
  show ?thesis using every_rank_stores_a_layer[OF h c, of 3] c by auto
qed

end
