(* ===== verification/Kv_Cache.thy ===== *)
theory Kv_Cache
  imports Prelude
begin

text \<open>
  Tensors as far as the KV cache reads them, and the KV cache of one layer
  (\<^verbatim>\<open>upstream_ref/xllm/xllm/core/framework/kv_cache\<close>): its implementation object, its
  \<^verbatim>\<open>empty()\<close> test and the block swap. A tensor is its shape and its element type; what it
  holds is read only by the block swap, which works on the lists of blocks of the key and of
  the value cache.
\<close>

section \<open>Build targets, element types, tensors\<close>

text \<open>The \<^verbatim>\<open>USE_\<dots>\<close> macro a build defines.\<close>

datatype platform = ILU | MLU | NPU | CUDA | MUSA | DCU

text \<open>
  The element types with their integer codes (prefixed \<open>k\<close>, as \<^verbatim>\<open>torch::kHalf\<close> is), which follow \<^verbatim>\<open>at::ScalarType\<close>
  (\<^verbatim>\<open>ixformer_sdk/csrc/include/ixformer/kernels/tensor.h\<close>).
\<close>

datatype DType =
    kByte | kChar | kShort | kInt | kLong | kHalf | kFloat | kDouble
  | kComplexHalf | kComplexFloat | kComplexDoubl | kBool
  | kQInt8 | kQUInt8 | kQInt32 | kBFloat16 | kQUInt4x2 | kQUInt2x4
  | kBits1x8 | kBits2x4 | kBits4x2 | kBits8 | kBits16
  | kFloat8_e5m2 | kFloat8_e4m3fn | kUndefinedType | kNumOptions

fun dtype_code :: "DType \<Rightarrow> int" where
  "dtype_code kByte = 0"
| "dtype_code kChar = 1"
| "dtype_code kShort = 2"
| "dtype_code kInt = 3"
| "dtype_code kLong = 4"
| "dtype_code kHalf = 5"
| "dtype_code kFloat = 6"
| "dtype_code kDouble = 7"
| "dtype_code kComplexHalf = 8"
| "dtype_code kComplexFloat = 9"
| "dtype_code kComplexDoubl = 10"
| "dtype_code kBool = 11"
| "dtype_code kQInt8 = 12"
| "dtype_code kQUInt8 = 13"
| "dtype_code kQInt32 = 14"
| "dtype_code kBFloat16 = 15"
| "dtype_code kQUInt4x2 = 16"
| "dtype_code kQUInt2x4 = 17"
| "dtype_code kBits1x8 = 18"
| "dtype_code kBits2x4 = 19"
| "dtype_code kBits4x2 = 20"
| "dtype_code kBits8 = 21"
| "dtype_code kBits16 = 22"
| "dtype_code kFloat8_e5m2 = 23"
| "dtype_code kFloat8_e4m3fn = 24"
| "dtype_code kUndefinedType = 25"
| "dtype_code kNumOptions = 26"

datatype tensor = NoTensor | Tensor (sizes: "int list") (scalar_type: DType)

definition tensor_defined :: "tensor \<Rightarrow> bool" where
  "tensor_defined t \<longleftrightarrow> t \<noteq> NoTensor"

definition numel :: "tensor \<Rightarrow> int" where
  "numel t = (case t of NoTensor \<Rightarrow> 0 | Tensor s d \<Rightarrow> prod_list s)"

definition get_tensor_shape :: "tensor \<Rightarrow> int list" where
  "get_tensor_shape t = (if \<not> tensor_defined t \<or> numel t = 0 then [] else sizes t)"

text \<open>
  Allocation is the environment's: \<open>fits\<close> says which shapes and types \<^verbatim>\<open>torch::zeros\<close>
  can serve. Where it cannot (no memory, a negative size) it throws.
\<close>

definition torch_zeros :: "(int list \<Rightarrow> DType \<Rightarrow> bool) \<Rightarrow> int list \<Rightarrow> DType \<Rightarrow> tensor result" where
  "torch_zeros fits shape d =
     (if fits shape d then Inr (Tensor shape d) else Inl (Exn ''c10::Error''))"

text \<open>What the callers of \<^verbatim>\<open>torch::zeros\<close> rely on.\<close>

locale zeros_spec =
  fixes zeros :: "int list \<Rightarrow> DType \<Rightarrow> tensor result"
  assumes zeros_tensor: "zeros s d = Inr t \<Longrightarrow> t = Tensor s d"
    and zeros_throws: "zeros s d = Inl e \<Longrightarrow> \<exists>m. e = Exn m"
begin

lemma zeros_numel: "zeros s d = Inr t \<Longrightarrow> numel t = prod_list s"
  using zeros_tensor[of s d t] by (simp add: numel_def)

lemma zeros_defined: "zeros s d = Inr t \<Longrightarrow> tensor_defined t"
  using zeros_tensor[of s d t] by (simp add: tensor_defined_def)

lemma zeros_cases: "(\<exists>m. zeros s d = Inl (Exn m)) \<or> zeros s d = Inr (Tensor s d)"
  using zeros_tensor[of s d] zeros_throws[of s d] by (cases "zeros s d") auto

end

interpretation tz: zeros_spec "torch_zeros fits" for fits
  by unfold_locales (auto simp: torch_zeros_def split: if_splits)

section \<open>KVCacheShape, KVCacheTensors, KVCacheCreateOptions\<close>

record KVCacheShape =
  key_cache_shape_opt :: "int list option"
  value_cache_shape_opt :: "int list option"
  index_cache_shape_opt :: "int list option"
  conv_cache_shape_opt :: "int list option"
  ssm_cache_shape_opt :: "int list option"

definition has_key_cache_shape :: "KVCacheShape \<Rightarrow> bool" where
  "has_key_cache_shape s \<longleftrightarrow> key_cache_shape_opt s \<noteq> None"

definition has_value_cache_shape :: "KVCacheShape \<Rightarrow> bool" where
  "has_value_cache_shape s \<longleftrightarrow> value_cache_shape_opt s \<noteq> None"

definition key_cache_shape :: "KVCacheShape \<Rightarrow> int list result" where
  "key_cache_shape s =
     (case key_cache_shape_opt s of
        None \<Rightarrow> Inl (Abort ''key_cache_shape is not initialized.'')
      | Some d \<Rightarrow> Inr d)"

definition value_cache_shape :: "KVCacheShape \<Rightarrow> int list" where
  "value_cache_shape s = (case value_cache_shape_opt s of None \<Rightarrow> [] | Some d \<Rightarrow> d)"

record KVCacheTensors =
  kt_key_cache :: tensor
  kt_value_cache :: tensor

text \<open>
  \<^verbatim>\<open>KVCacheCreateOptions\<close> as far as the layerwise path reads it: the element type and the
  layer count (the device only selects where a tensor lives).
\<close>

record KVCacheCreateOptions =
  opt_dtype :: DType
  opt_num_layers :: int

section \<open>KVCacheImpl\<close>

record KVCache =
  kv_key_cache :: tensor
  kv_value_cache :: tensor
  kv_key_shape :: "int list"
  kv_value_shape :: "int list"

definition KVCache_default :: KVCache where
  "KVCache_default =
     \<lparr>kv_key_cache = NoTensor, kv_value_cache = NoTensor, kv_key_shape = [], kv_value_shape = []\<rparr>"

definition KVCache_of_tensors :: "KVCacheTensors \<Rightarrow> KVCache" where
  "KVCache_of_tensors t =
     \<lparr>kv_key_cache = kt_key_cache t, kv_value_cache = kt_value_cache t,
      kv_key_shape = get_tensor_shape (kt_key_cache t),
      kv_value_shape = get_tensor_shape (kt_value_cache t)\<rparr>"

definition kv_empty :: "KVCache \<Rightarrow> bool" where
  "kv_empty c \<longleftrightarrow> \<not> tensor_defined (kv_key_cache c) \<or> \<not> tensor_defined (kv_value_cache c)"

definition kv_get_shapes :: "KVCache \<Rightarrow> int list list" where
  "kv_get_shapes c = [kv_key_shape c, kv_value_shape c]"

lemma kv_empty_default [simp]: "kv_empty KVCache_default"
  by (simp add: kv_empty_def KVCache_default_def tensor_defined_def)

lemma kv_empty_of_tensors [simp]:
  "kv_empty (KVCache_of_tensors \<lparr>kt_key_cache = k, kt_value_cache = v\<rparr>)
     \<longleftrightarrow> k = NoTensor \<or> v = NoTensor"
  by (simp add: kv_empty_def KVCache_of_tensors_def tensor_defined_def)

section \<open>Storage of a cache in bytes\<close>

text \<open>\<open>esz\<close> is the element size of a type; it is the tensor library's.\<close>

definition tensor_bytes :: "(DType \<Rightarrow> int) \<Rightarrow> tensor \<Rightarrow> int" where
  "tensor_bytes esz t = (case t of NoTensor \<Rightarrow> 0 | Tensor s d \<Rightarrow> prod_list s * esz d)"

definition kv_bytes :: "(DType \<Rightarrow> int) \<Rightarrow> KVCache \<Rightarrow> int" where
  "kv_bytes esz c = tensor_bytes esz (kv_key_cache c) + tensor_bytes esz (kv_value_cache c)"

lemma kv_bytes_default [simp]: "kv_bytes esz KVCache_default = 0"
  by (simp add: kv_bytes_def tensor_bytes_def KVCache_default_def)

lemma kv_bytes_of_tensors:
  "kv_bytes esz (KVCache_of_tensors t) =
     tensor_bytes esz (kt_key_cache t) + tensor_bytes esz (kt_value_cache t)"
  by (simp add: kv_bytes_def KVCache_of_tensors_def)

section \<open>swap\_blocks\<close>














section \<open>TensorDesc\<close>

text \<open>
  The tensor descriptor passed to the ixformer kernels
  (\<^verbatim>\<open>ixformer_sdk/csrc/include/ixformer/kernels/tensor.h\<close>). \<^verbatim>\<open>sizes\<close> and \<^verbatim>\<open>strides\<close> are
  pointers; reading outside the lists they point to is undefined.
\<close>

record TensorDesc =
  td_ptr :: nat
  td_dtype :: DType
  td_nnumel :: int
  td_ndim :: int
  td_sizes :: "int list"
  td_strides :: "int list"
  td_contiguous :: bool
  td_cuda :: bool

definition read_ptr :: "int list \<Rightarrow> int \<Rightarrow> int result" where
  "read_ptr xs i =
     (if 0 \<le> i \<and> i < int (length xs) then Inr (xs ! nat i) else Inl (Undefined ''out of bounds''))"

definition td_size :: "TensorDesc \<Rightarrow> int \<Rightarrow> int result" where
  "td_size t dim =
     (if dim < 0 then read_ptr (td_sizes t) (td_ndim t - dim) else read_ptr (td_sizes t) dim)"

definition td_stride :: "TensorDesc \<Rightarrow> int \<Rightarrow> int result" where
  "td_stride t dim =
     (if dim < 0 then read_ptr (td_strides t) (td_ndim t - dim) else read_ptr (td_strides t) dim)"

definition td_ok :: "TensorDesc \<Rightarrow> bool" where
  "td_ok t \<longleftrightarrow> int (length (td_sizes t)) = td_ndim t \<and> int (length (td_strides t)) = td_ndim t"

text \<open>
  on a descriptor whose arrays have \<^verbatim>\<open>ndim\<close> entries, \<^verbatim>\<open>size(dim)\<close> and \<^verbatim>\<open>stride(dim)\<close>
  are defined exactly for the dimensions from 0. The branch for negative dimensions, meant to
  count from the end, reads \<^verbatim>\<open>sizes[ndim - dim]\<close>, which is past the end for each of them.
\<close>

theorem negative_dim_out_of_bounds:
  assumes "td_ok t"
  shows "(isl (td_size t dim) \<longleftrightarrow> \<not> (0 \<le> dim \<and> dim < td_ndim t)) \<and>
    (isl (td_stride t dim) \<longleftrightarrow> \<not> (0 \<le> dim \<and> dim < td_ndim t)) \<and>
    (dim < 0 \<longrightarrow> td_size t dim = Inl (Undefined ''out of bounds''))"
  using assms by (auto simp: td_ok_def td_size_def td_stride_def read_ptr_def)

theorem negative_dim_out_of_bounds_witness:
  "td_size \<lparr>td_ptr = 0, td_dtype = kHalf, td_nnumel = 6, td_ndim = 2, td_sizes = [2, 3],
    td_strides = [3, 1], td_contiguous = True, td_cuda = True\<rparr> (-1) = Inl (Undefined ''out of bounds'')"
  using negative_dim_out_of_bounds[of "\<lparr>td_ptr = 0, td_dtype = kHalf, td_nnumel = 6, td_ndim = 2,
    td_sizes = [2, 3], td_strides = [3, 1], td_contiguous = True, td_cuda = True\<rparr>" "-1"]
  by (simp add: td_ok_def)

end
