(* ===== verification/Layerwise_Estimate.thy ===== *)
theory Layerwise_Estimate
  imports Complex_Main Layerwise_Layout Kv_Cache
begin

text \<open>
  The memory estimate of a layerwise layout
  (\<^verbatim>\<open>core/framework/kv_cache/kv_cache_estimation_layerwise.{h,cpp}\<close>) and the engine and
  master that compute the layout and log the estimate
  (\<^verbatim>\<open>core/distributed_runtime/layerwise_split_{engine_ext,master}.cpp\<close>). Head and byte
  counts are \<^verbatim>\<open>int64_t\<close>: every sum and product of the estimator wraps (\<open>int64\<close>), and the
  properties say which sizes do not. The \<^verbatim>\<open>double\<close> average, exact below $2^{53}$, is the
  quotient cut to an integer, and the percentage a rational.
\<close>

section \<open>64-bit arithmetic\<close>

definition int64 :: "int \<Rightarrow> int" where
  "int64 x = signed_take_bit 63 x"

lemma int64_id: "- (2 ^ 63) \<le> x \<Longrightarrow> x < 2 ^ 63 \<Longrightarrow> int64 x = x"
  by (simp add: int64_def signed_take_bit_int_eq_self)

lemma int64_0 [simp]: "int64 0 = 0"
  by (simp add: int64_def)

lemma int64_int64 [simp]: "int64 (int64 x) = int64 x"
  by (simp add: int64_def)

lemma int64_le: "0 \<le> x \<Longrightarrow> int64 x \<le> x"
  using signed_take_bit_int_less_exp[of 63 x] int64_id[of x]
  by (cases "x < 2 ^ 63") (simp_all add: int64_def)

text \<open>Only the last cast of a sum or product counts.\<close>

lemma int64_arith [simp]:
  "int64 (int64 a + b) = int64 (a + b)"
  "int64 (a + int64 b) = int64 (a + b)"
  "int64 (int64 a * b) = int64 (a * b)"
  "int64 (a * int64 b) = int64 (a * b)"
  unfolding int64_def
  by (metis signed_take_bit_add signed_take_bit_signed_take_bit min.idem,
      metis signed_take_bit_add signed_take_bit_signed_take_bit min.idem,
      metis signed_take_bit_mult signed_take_bit_signed_take_bit min.idem,
      metis signed_take_bit_mult signed_take_bit_signed_take_bit min.idem)

definition sum64 :: "int list \<Rightarrow> int" where
  "sum64 xs = fold (\<lambda>x acc. int64 (acc + x)) xs 0"

lemma sum64_eq: "sum64 xs = int64 (sum_list xs)"
proof -
  have "int64 (fold (\<lambda>x acc. int64 (acc + x)) xs a) = int64 (a + sum_list xs)" for a
    by (induction xs arbitrary: a) (simp_all add: add.assoc)
  moreover have "int64 (fold (\<lambda>x acc. int64 (acc + x)) xs 0) = fold (\<lambda>x acc. int64 (acc + x)) xs 0"
    by (cases xs rule: rev_cases) simp_all
  ultimately show ?thesis by (simp add: sum64_def)
qed

lemma int64_add_cong: "int64 a = int64 b \<Longrightarrow> int64 c = int64 e \<Longrightarrow> int64 (a + c) = int64 (b + e)"
proof -
  assume eq: "int64 a = int64 b" "int64 c = int64 e"
  have "int64 (a + c) = int64 (int64 a + int64 c)" by simp
  also have "\<dots> = int64 (int64 b + int64 e)" by (simp only: eq)
  finally show ?thesis by simp
qed

lemma sum64_int64: "sum64 (map (\<lambda>x. int64 (f x)) xs) = int64 (\<Sum>x \<leftarrow> xs. f x)"
  unfolding sum64_eq
proof (induction xs)
  case (Cons x xs)
  have "int64 (int64 (f x) + (\<Sum>x \<leftarrow> xs. int64 (f x))) = int64 (f x + (\<Sum>x \<leftarrow> xs. f x))"
    by (rule int64_add_cong[OF int64_int64 Cons.IH])
  then show ?case by simp
qed simp

section \<open>The estimator\<close>

definition dtype_bytes :: "int \<Rightarrow> int" where
  "dtype_bytes dtype_enum =
     (if dtype_enum = 5 then 2
      else if dtype_enum = 15 then 2
      else if dtype_enum = 6 then 4
      else if dtype_enum = 2 then 1
      else 2)"

definition align_up64 :: "int \<Rightarrow> int \<Rightarrow> int" where
  "align_up64 val align = int64 ((int64 (int64 (val + align) - 1) sdiv align) * align)"

record LayerwiseKVMemoryEstimate =
  peak_per_rank_bytes :: int
  average_per_rank_bytes :: int
  uniform_per_rank_bytes :: int
  per_rank_bytes :: "int list"
  savings_vs_uniform_pct :: rat

definition padded_head_dim :: "platform \<Rightarrow> int \<Rightarrow> int" where
  "padded_head_dim plat head_dim =
     (if plat = ILU then align_up64 head_dim kWarpSize else head_dim)"

definition layer_bytes :: "int \<Rightarrow> int \<Rightarrow> int \<Rightarrow> int \<Rightarrow> int \<Rightarrow> int" where
  "layer_bytes heads n_blocks block_size padded elem_bytes =
     int64 (int64 (int64 (int64 (int64 (2 * heads) * n_blocks) * block_size) * padded) * elem_bytes)"

text \<open>The inner loop over the ranks of one layer, adding to \<^verbatim>\<open>per_rank_bytes\<close>.\<close>

fun add_shards ::
    "int \<Rightarrow> (int \<Rightarrow> int) \<Rightarrow> int list \<Rightarrow> int list \<Rightarrow> int list \<Rightarrow> int list result" where
  "add_shards world_size bytes [] hs acc = Inr acc"
| "add_shards world_size bytes (rank # rs) [] acc = Inl (Undefined ''heads_per_rank[i]'')"
| "add_shards world_size bytes (rank # rs) (heads # hs) acc =
     rbind (check (rank \<ge> 0) ''rank >= 0'') (\<lambda>_.
     rbind (check (rank < world_size) ''rank < world_size'') (\<lambda>_.
     add_shards world_size bytes rs hs (acc[nat rank := int64 (acc ! nat rank + bytes heads)])))"

definition add_layer ::
    "LayerwiseSplitLayout \<Rightarrow> int \<Rightarrow> (int \<Rightarrow> int) \<Rightarrow> int \<Rightarrow> int list \<Rightarrow> int list result" where
  "add_layer layout world_size bytes lid acc =
     rbind (layer_spec layout lid) (\<lambda>s.
       add_shards world_size bytes (assigned_ranks s) (heads_per_rank s) acc)"

definition max_element :: "int list \<Rightarrow> int" where
  "max_element xs = fold max (tl xs) (hd xs)"

definition estimate_layerwise_kv_memory ::
    "platform \<Rightarrow> LayerwiseSplitLayout \<Rightarrow> int \<Rightarrow> int \<Rightarrow> int \<Rightarrow> int \<Rightarrow> int \<Rightarrow> int
     \<Rightarrow> LayerwiseKVMemoryEstimate result" where
  "estimate_layerwise_kv_memory plat layout n_blocks block_size head_dim max_tokens dtype_enum world_size =
     rbind (check (num_layers layout > 0) ''num_layers > 0'') (\<lambda>_.
     rbind (check (world_size > 0) ''world_size > 0'') (\<lambda>_.
     let elem_bytes = dtype_bytes dtype_enum;
         padded = padded_head_dim plat head_dim;
         bytes = (\<lambda>heads. layer_bytes heads n_blocks block_size padded elem_bytes) in
     rbind (rfold (add_layer layout world_size bytes) [0..num_layers layout - 1]
              (replicate (nat world_size) 0)) (\<lambda>per_rank.
     let uniform_total = sum64 (map total_heads (specs layout));
         uniform_per_rank = layer_bytes (uniform_total sdiv world_size) n_blocks block_size padded elem_bytes;
         peak = max_element per_rank;
         total = sum64 per_rank in
     Inr \<lparr>peak_per_rank_bytes = peak,
          average_per_rank_bytes = total sdiv world_size,
          uniform_per_rank_bytes = uniform_per_rank,
          per_rank_bytes = per_rank,
          savings_vs_uniform_pct =
            (if uniform_per_rank > 0
             then 100 * (1 - of_int peak / of_int uniform_per_rank) else 0)\<rparr>)))"

section \<open>The engine and the master\<close>

text \<open>\<open>flag\<close> is \<^verbatim>\<open>FLAGS_enable_layerwise_split\<close>, whose default is off.\<close>

definition default_enable_layerwise_split :: bool where
  "default_enable_layerwise_split = False"

definition maybe_compute_layerwise_layout ::
    "platform \<Rightarrow> bool \<Rightarrow> int \<Rightarrow> int list \<Rightarrow> int \<Rightarrow> LayerwiseSplitLayout option result" where
  "maybe_compute_layerwise_layout plat flag n_layers per_layer_kv_heads world_size =
     (if \<not> flag then Inr None
      else if plat = ILU then
        rbind (compute_ilu_layerwise_layout n_layers per_layer_kv_heads world_size kFlatPIX) (\<lambda>L. Inr (Some L))
      else if plat = NPU then Inr None
      else
        rbind (compute_ilu_layerwise_layout n_layers per_layer_kv_heads world_size kFlatPIX) (\<lambda>L. Inr (Some L)))"

definition per_layer_heads :: "int \<Rightarrow> int \<Rightarrow> int \<Rightarrow> int \<Rightarrow> int list result" where
  "per_layer_heads n_layers dense_kv_heads moe_kv_heads first_moe_layer =
     (if n_layers < 0 then Inl (Exn ''std::length_error'')
      else Inr (map (\<lambda>i. if i < first_moe_layer then dense_kv_heads else moe_kv_heads) [0..n_layers - 1]))"

definition master_compute_layerwise_layout ::
    "platform \<Rightarrow> bool \<Rightarrow> int \<Rightarrow> int \<Rightarrow> int \<Rightarrow> int \<Rightarrow> int \<Rightarrow> int \<Rightarrow> int \<Rightarrow> int \<Rightarrow> int \<Rightarrow> int
     \<Rightarrow> LayerwiseSplitLayout option result" where
  "master_compute_layerwise_layout plat flag n_layers dense_kv_heads moe_kv_heads first_moe_layer
       world_size n_blocks block_size head_dim max_tokens dtype_enum =
     (if \<not> flag then Inr None
      else
        rbind (per_layer_heads n_layers dense_kv_heads moe_kv_heads first_moe_layer) (\<lambda>hs.
        rbind (maybe_compute_layerwise_layout plat flag n_layers hs world_size) (\<lambda>layout.
        case layout of
          None \<Rightarrow> Inr None
        | Some L \<Rightarrow>
            rbind (estimate_layerwise_kv_memory plat L n_blocks block_size head_dim max_tokens
                     dtype_enum world_size) (\<lambda>est. Inr (Some L)))))"

section \<open>Lemmas on the estimator\<close>

text \<open>
  \<open>align_up\<close> is the rounding on sizes that do not wrap; the allocator of the caches, in
  \<^verbatim>\<open>kv_cache_layerwise.cpp\<close>, has a copy of the function for itself.
\<close>

definition align_up :: "int \<Rightarrow> int \<Rightarrow> int" where
  "align_up val align = ((val + align - 1) sdiv align) * align"

lemma align_up_ge: "0 < a \<Longrightarrow> 0 \<le> v \<Longrightarrow> v \<le> align_up v a"
proof -
  assume a: "0 < a" "0 \<le> v"
  have "(v + a - 1) = a * ((v + a - 1) div a) + (v + a - 1) mod a" by simp
  moreover have "(v + a - 1) mod a \<le> a - 1" using a pos_mod_bound[of a "v + a - 1"] by simp
  ultimately have "v \<le> a * ((v + a - 1) div a)" by linarith
  then show ?thesis using a by (simp add: align_up_def c_arith mult.commute)
qed

lemma align_up_less: "0 < a \<Longrightarrow> 0 \<le> v \<Longrightarrow> align_up v a < v + a"
proof -
  assume a: "0 < a" "0 \<le> v"
  have "(v + a - 1) div a * a \<le> v + a - 1"
    using div_mult_mod_eq[of "v + a - 1" a] pos_mod_sign[of a "v + a - 1"] a by linarith
  then show ?thesis using a by (simp add: align_up_def c_arith)
qed

lemma align_up_multiple: "a dvd align_up v a"
  by (simp add: align_up_def)

lemma align_up_id: "0 < a \<Longrightarrow> 0 \<le> v \<Longrightarrow> a dvd v \<Longrightarrow> align_up v a = v"
proof -
  assume a: "0 < a" "0 \<le> v" "a dvd v"
  have "align_up v a - v < a" "0 \<le> align_up v a - v"
    using align_up_less[of a v] align_up_ge[of a v] a by auto
  moreover have "a dvd align_up v a - v" using a align_up_multiple by auto
  ultimately show ?thesis using a by (metis zdvd_not_zless eq_iff_diff_eq_0 order_le_less)
qed

definition padded_dim :: "platform \<Rightarrow> int \<Rightarrow> int" where
  "padded_dim plat d = (if plat = ILU then align_up d kWarpSize else d)"

lemma padded_dim_nonneg: "0 \<le> d \<Longrightarrow> 0 \<le> padded_dim plat d"
  using align_up_ge[of kWarpSize d] by (simp add: padded_dim_def kWarpSize_def)

lemma align_up64_eq:
  assumes "0 \<le> d" and "0 < a" and "d + a < 2 ^ 63"
  shows "align_up64 d a = align_up d a"
proof -
  have "0 \<le> align_up d a" "align_up d a < 2 ^ 63"
    using align_up_ge[of a d] align_up_less[of a d] assms by auto
  then show ?thesis
    using assms by (simp add: align_up64_def align_up_def int64_id)
qed

lemma padded_head_dim_eq: "0 \<le> d \<Longrightarrow> d + 64 < 2 ^ 63 \<Longrightarrow> padded_head_dim plat d = padded_dim plat d"
  by (simp add: padded_head_dim_def padded_dim_def align_up64_eq kWarpSize_def)

lemma dtype_bytes_pos: "0 < dtype_bytes d"
  by (simp add: dtype_bytes_def)

lemma max_element_eq: "xs \<noteq> [] \<Longrightarrow> max_element xs = Max (set xs)"
  by (cases xs) (simp_all add: max_element_def flip: Max.set_eq_fold)

text \<open>One layer adds to every rank what its shard gives it.\<close>

lemma add_shards_Inr:
  assumes "length rs = length hs" and "set rs \<subseteq> {0..<ws}" and "distinct rs"
    and "length acc = nat ws"
  shows "add_shards ws bytes rs hs acc = Inr (map (\<lambda>r. case map_of (zip rs hs) r of
      None \<Rightarrow> acc ! nat r | Some h \<Rightarrow> int64 (acc ! nat r + bytes h)) [0..ws - 1])"
  using assms
proof (induction rs hs arbitrary: acc rule: list_induct2)
  case Nil
  then show ?case by (auto intro!: nth_equalityI simp: nth_upto)
next
  case (Cons r rs h hs)
  let ?acc = "acc[nat r := int64 (acc ! nat r + bytes h)]"
  have r: "map_of (zip rs hs) r = None"
    using Cons by simp
  have "add_shards ws bytes (r # rs) (h # hs) acc = add_shards ws bytes rs hs ?acc"
    using Cons.prems by simp
  also have "\<dots> = Inr (map (\<lambda>q. case map_of (zip rs hs) q of
      None \<Rightarrow> ?acc ! nat q | Some h \<Rightarrow> int64 (?acc ! nat q + bytes h)) [0..ws - 1])"
    using Cons.prems by (intro Cons.IH) auto
  also have "\<dots> = Inr (map (\<lambda>q. case map_of (zip (r # rs) (h # hs)) q of
      None \<Rightarrow> acc ! nat q | Some h \<Rightarrow> int64 (acc ! nat q + bytes h)) [0..ws - 1])"
  proof -
    have "(case map_of (zip rs hs) q of None \<Rightarrow> ?acc ! nat q | Some h \<Rightarrow> int64 (?acc ! nat q + bytes h))
        = (case map_of (zip (r # rs) (h # hs)) q of None \<Rightarrow> acc ! nat q | Some h \<Rightarrow> int64 (acc ! nat q + bytes h))"
      if "q \<in> {0..<ws}" for q
    proof (cases "q = r")
      case True
      then show ?thesis using that Cons.prems r by simp
    next
      case False
      then have "nat q \<noteq> nat r" using that Cons.prems by (simp add: nat_eq_iff)
      then have "?acc ! nat q = acc ! nat q" by simp
      then show ?thesis using False by (simp split: option.split)
    qed
    then show ?thesis by simp
  qed
  finally show ?case .
qed

text \<open>
  \<open>kv_unit\<close> is what one KV head of one layer costs; \<open>code_unit\<close> is the product as the
  estimator forms it, from a head dimension that may have wrapped.
\<close>

definition kv_unit :: "platform \<Rightarrow> int \<Rightarrow> int \<Rightarrow> int \<Rightarrow> int \<Rightarrow> int" where
  "kv_unit plat n_blocks block_size head_dim dtype_enum =
     2 * n_blocks * block_size * padded_dim plat head_dim * dtype_bytes dtype_enum"

definition code_unit :: "platform \<Rightarrow> int \<Rightarrow> int \<Rightarrow> int \<Rightarrow> int \<Rightarrow> int" where
  "code_unit plat nb bs d t = 2 * nb * bs * padded_head_dim plat d * dtype_bytes t"

lemma code_unit_eq:
  "plat \<noteq> ILU \<or> 0 \<le> d \<and> d + 64 < 2 ^ 63 \<Longrightarrow> code_unit plat nb bs d t = kv_unit plat nb bs d t"
  by (auto simp: code_unit_def kv_unit_def padded_head_dim_eq padded_dim_def padded_head_dim_def
      align_up64_eq kWarpSize_def)

lemma kv_unit_nonneg:
  "0 \<le> nb \<Longrightarrow> 0 \<le> bs \<Longrightarrow> 0 \<le> d \<Longrightarrow> 0 \<le> kv_unit plat nb bs d t"
  using padded_dim_nonneg[of d plat] dtype_bytes_pos[of t] by (simp add: kv_unit_def)

lemma layer_bytes_unit:
  "layer_bytes h nb bs (padded_head_dim plat d) (dtype_bytes t) = int64 (code_unit plat nb bs d t * h)"
  by (simp add: layer_bytes_def code_unit_def ac_simps)

text \<open>
  \<open>bytes_fit\<close>: the sizes are not negative, and neither the padded head dimension nor the
  bytes of all heads of all layers pass the range of \<^verbatim>\<open>int64_t\<close>.
\<close>

definition bytes_fit :: "platform \<Rightarrow> int list \<Rightarrow> int \<Rightarrow> int \<Rightarrow> int \<Rightarrow> int \<Rightarrow> bool" where
  "bytes_fit plat hs nb bs d t \<longleftrightarrow> 0 \<le> nb \<and> 0 \<le> bs \<and> 0 \<le> d \<and> d + 64 < 2 ^ 63 \<and>
     sum_list hs < 2 ^ 63 \<and> kv_unit plat nb bs d t * sum_list hs < 2 ^ 63"

lemma bytes_fitD:
  assumes "bytes_fit plat hs nb bs d t" and "0 \<le> k" and "k \<le> sum_list hs"
  shows "code_unit plat nb bs d t = kv_unit plat nb bs d t" and "0 \<le> kv_unit plat nb bs d t"
    and "int64 (kv_unit plat nb bs d t * k) = kv_unit plat nb bs d t * k" and "int64 k = k"
proof -
  show "code_unit plat nb bs d t = kv_unit plat nb bs d t"
    using assms(1) by (intro code_unit_eq) (simp add: bytes_fit_def)
  show u: "0 \<le> kv_unit plat nb bs d t"
    using assms(1) by (intro kv_unit_nonneg) (simp_all add: bytes_fit_def)
  have "kv_unit plat nb bs d t * k \<le> kv_unit plat nb bs d t * sum_list hs"
    by (rule mult_left_mono[OF assms(3) u])
  then show "int64 (kv_unit plat nb bs d t * k) = kv_unit plat nb bs d t * k" "int64 k = k"
    using assms u by (auto intro!: int64_id simp: bytes_fit_def order_trans[of _ 0])
qed

lemma add_shards_sharded:
  assumes "sharded ws kv s" and "\<And>h. bytes h = int64 (u * h)"
  shows "add_shards ws bytes (assigned_ranks s) (heads_per_rank s) (map (\<lambda>r. int64 (f r)) [0..ws - 1])
    = Inr (map (\<lambda>r. int64 (f r + u * shard_heads r s)) [0..ws - 1])"
proof -
  have "(case m of None \<Rightarrow> map (\<lambda>r. int64 (f r)) [0..ws - 1] ! nat r
      | Some h \<Rightarrow> int64 (map (\<lambda>r. int64 (f r)) [0..ws - 1] ! nat r + bytes h))
      = int64 (f r + u * (case m of None \<Rightarrow> 0 | Some h \<Rightarrow> h))" if "r \<in> {0..<ws}" for m r
    using that assms(2) by (cases m) (simp_all add: nth_upto)
  then show ?thesis
    using assms(1) by (simp add: add_shards_Inr sharded_def shard_heads_def)
qed

lemma add_layers_from:
  assumes "rfold (add_layer L ws bytes) [0..num_layers L - 1] (replicate (nat ws) 0) = res"
    and "list_all2 (sharded ws) hs (specs L)" and "0 < ws" and "\<And>h. bytes h = int64 (u * h)"
  shows "res = Inr (map (\<lambda>r. int64 (u * rank_heads (specs L) r)) [0..ws - 1])"
proof -
  have "k \<le> length (specs L) \<Longrightarrow>
      rfold (add_layer L ws bytes) [0..int k - 1] (replicate (nat ws) 0)
        = Inr (map (\<lambda>r. int64 (u * rank_heads (take k (specs L)) r)) [0..ws - 1])" for k
  proof (induction k)
    case 0
    show ?case using \<open>0 < ws\<close> by (auto intro!: nth_equalityI)
  next
    case (Suc k)
    let ?s = "specs L ! k"
    have "sharded ws (hs ! k) ?s"
      using Suc.prems assms(2) by (simp add: list_all2_conv_all_nth)
    moreover have "layer_spec L (int k) = Inr ?s"
      using Suc.prems by (simp add: layer_spec_def spec_at_def num_layers_def)
    moreover have "rank_heads (take (Suc k) (specs L)) r
        = rank_heads (take k (specs L)) r + shard_heads r ?s" for r
      using Suc.prems by (simp add: rank_heads_def take_Suc_conv_app_nth)
    moreover have "[0..int (Suc k) - 1] = [0..int k - 1] @ [int k]"
      using upto_rec2[of 0 "int k"] by simp
    ultimately show ?case
      using Suc add_shards_sharded[OF _ assms(4), of ws "hs ! k" ?s]
      by (simp add: rfold_append add_layer_def distrib_left del: upto_rec_numeral)
  qed
  from this[of "length (specs L)"] assms(1) show ?thesis
    by (simp add: num_layers_def)
qed

section \<open>The estimate of a provided layout\<close>

context layout_provider
begin

lemma provided_total_heads:
  assumes "rank_count ws" and "positive_heads hs" and "compute (int (length hs)) hs ws = Inr L"
  shows "map total_heads (specs L) = hs"
  using compute_sharded[OF assms]
  by (auto simp: list_all2_conv_all_nth sharded_def total_heads_def intro!: nth_equalityI)

text \<open>The estimate is a function of the heads each rank holds.\<close>

lemma provided_estimate:
  assumes "rank_count ws" and "positive_heads hs" and "compute (int (length hs)) hs ws = Inr L"
    and "hs \<noteq> []"
    and "u = code_unit plat nb bs d t"
    and "per = map (\<lambda>r. int64 (u * rank_heads (specs L) r)) [0..ws - 1]"
    and "uni = int64 (u * (int64 (sum_list hs) sdiv ws))"
  shows "estimate_layerwise_kv_memory plat L nb bs d mt t ws = Inr
    \<lparr>peak_per_rank_bytes = max_element per, average_per_rank_bytes = int64 (u * sum_list hs) sdiv ws,
     uniform_per_rank_bytes = uni, per_rank_bytes = per,
     savings_vs_uniform_pct =
       (if uni > 0 then 100 * (1 - of_int (max_element per) / of_int uni) else 0)\<rparr>"
proof -
  have ws: "0 < ws" using assms(1) by (simp add: rank_count_def)
  have n: "0 < num_layers L"
    using provided_length[OF assms(1-3)] assms(4) by simp
  have loop: "rfold (add_layer L ws (\<lambda>h. layer_bytes h nb bs (padded_head_dim plat d) (dtype_bytes t)))
      [0..num_layers L - 1] (replicate (nat ws) 0) = Inr per"
    unfolding assms(6)
    by (rule add_layers_from[OF refl compute_sharded[OF assms(1-3)] ws])
       (simp add: layer_bytes_unit assms(5))
  have "(\<Sum>r \<leftarrow> [0..ws - 1]. u * rank_heads (specs L) r) = u * sum_list hs"
    using provided_sum[OF assms(1-3)] by (simp add: sum_list_map_upto flip: sum_distrib_left)
  then have total: "sum64 per = int64 (u * sum_list hs)"
    by (simp add: assms(6) sum64_int64)
  have uniform: "layer_bytes (sum64 hs sdiv ws) nb bs (padded_head_dim plat d) (dtype_bytes t) = uni"
    by (simp add: assms(5,7) layer_bytes_unit sum64_eq)
  show ?thesis
    by (simp only: estimate_layerwise_kv_memory_def Let_def loop total uniform n ws
        provided_total_heads[OF assms(1-3)] check_True rbind_Inr)
qed

text \<open>No rank holds more heads than there are.\<close>

lemma provided_rank_heads_le:
  assumes "rank_count ws" and "positive_heads hs" and "compute (int (length hs)) hs ws = Inr L"
    and "r \<in> {0..<ws}"
  shows "0 \<le> rank_heads (specs L) r" and "rank_heads (specs L) r \<le> sum_list hs"
proof -
  have nn: "0 \<le> rank_heads (specs L) q" for q
    unfolding rank_heads_def using compute_sharded[OF assms(1-3)] shard_heads_nonneg[of ws _ _ q]
    by (intro sum_list_nonneg) (auto simp: list_all2_conv_all_nth in_set_conv_nth, blast)
  then show "0 \<le> rank_heads (specs L) r" .
  show "rank_heads (specs L) r \<le> sum_list hs"
    using member_le_sum[of r "{0..<ws}" "rank_heads (specs L)"] nn assms(4)
      provided_sum[OF assms(1-3)] by simp
qed

lemma provided_bytes:
  assumes "rank_count ws" and "positive_heads hs" and "compute (int (length hs)) hs ws = Inr L"
    and "hs \<noteq> []" and "bytes_fit plat hs nb bs d t"
    and "u = kv_unit plat nb bs d t"
    and "per = map (\<lambda>r. u * rank_heads (specs L) r) [0..ws - 1]"
    and "uni = u * (sum_list hs div ws)"
  shows "estimate_layerwise_kv_memory plat L nb bs d mt t ws = Inr
    \<lparr>peak_per_rank_bytes = max_element per, average_per_rank_bytes = (u * sum_list hs) sdiv ws,
     uniform_per_rank_bytes = uni, per_rank_bytes = per,
     savings_vs_uniform_pct =
       (if uni > 0 then 100 * (1 - of_int (max_element per) / of_int uni) else 0)\<rparr>"
proof -
  have ws: "0 < ws" using assms(1) by (simp add: rank_count_def)
  have heads: "0 \<le> sum_list hs"
    using assms(2) by (simp add: sum_list_nonneg positive_heads_def order_less_imp_le)
  have "sum_list hs div ws \<le> sum_list hs" "0 \<le> sum_list hs div ws"
    using heads ws zdiv_mono2[of "sum_list hs" 1 ws] by (simp_all add: pos_imp_zdiv_nonneg_iff)
  then have 1: "int64 (u * (sum_list hs div ws)) = uni"
    using bytes_fitD(3)[OF assms(5)] by (simp add: assms(6,8))
  have 2: "map (\<lambda>r. int64 (u * rank_heads (specs L) r)) [0..ws - 1] = per"
    using provided_rank_heads_le[OF assms(1-3)] bytes_fitD(3)[OF assms(5)]
    by (simp add: assms(6,7))
  have 3: "int64 (u * sum_list hs) = u * sum_list hs" "int64 (sum_list hs) sdiv ws = sum_list hs div ws"
    using bytes_fitD(3,4)[OF assms(5) heads order_refl] heads ws by (simp_all add: assms(6) c_arith)
  have u: "u = code_unit plat nb bs d t"
    using bytes_fitD(1)[OF assms(5) order_refl heads] assms(6) by simp
  show ?thesis
    using provided_estimate[OF assms(1-4) u refl refl, of mt] by (simp only: 1 2 3)
qed

lemma provided_rank_heads:
  assumes "rank_count ws" and "positive_heads hs" and "compute (int (length hs)) hs ws = Inr L"
  shows "\<exists>f. (\<forall>lid \<in> {0..<int (length hs)}. heads_for_rank L r lid = Inr (f lid)) \<and>
    rank_heads (specs L) r = (\<Sum>lid \<in> {0..<int (length hs)}. f lid)"
proof -
  let ?f = "\<lambda>lid. shard_heads r (specs L ! nat lid)"
  have len: "length (specs L) = length hs"
    using provided_length[OF assms] by (simp add: num_layers_def)
  have "rank_heads (specs L) r = (\<Sum>i < length hs. shard_heads r (specs L ! i))"
    by (simp add: rank_heads_def sum_list_sum_nth len atLeast0LessThan)
  also have "\<dots> = (\<Sum>lid \<in> {0..<int (length hs)}. ?f lid)"
    by (rule sum.reindex_bij_witness[of _ nat int]) auto
  finally show ?thesis using provided_heads[OF assms] by (intro exI[of _ ?f]) simp
qed

text \<open>The busiest rank holds at least the mean, and the floor of the mean is the baseline.\<close>

lemma provided_peak_mean:
  assumes "rank_count ws" and "positive_heads hs" and "compute (int (length hs)) hs ws = Inr L"
    and "0 \<le> u"
  shows "u * sum_list hs \<le> ws * max_element (map (\<lambda>r. u * rank_heads (specs L) r) [0..ws - 1])"
proof -
  let ?per = "map (\<lambda>r. u * rank_heads (specs L) r) [0..ws - 1]"
  have ws: "0 < ws" using assms(1) by (simp add: rank_count_def)
  have "u * rank_heads (specs L) r \<le> max_element ?per" if "r \<in> {0..<ws}" for r
    using that ws by (subst max_element_eq) (auto intro!: Max_ge)
  then have "(\<Sum>r \<in> {0..<ws}. u * rank_heads (specs L) r) \<le> (\<Sum>r \<in> {0..<ws}. max_element ?per)"
    by (rule sum_mono)
  then show ?thesis
    using provided_sum[OF assms(1-3)] ws by (simp flip: sum_distrib_left)
qed

end

section \<open>The busiest rank\<close>

text \<open>
  The most a rank can hold: its ceiling share of every dense layer and the ceiling share of
  the sparse layers' heads, which round robin deals out one by one.
\<close>

definition ceil_div :: "int \<Rightarrow> int \<Rightarrow> int" where
  "ceil_div a b = a div b + of_bool (a mod b \<noteq> 0)"

definition peak_heads_bound :: "int \<Rightarrow> int list \<Rightarrow> int" where
  "peak_heads_bound ws hs =
     (\<Sum>kv \<leftarrow> filter (\<lambda>h. ws \<le> h) hs. ceil_div kv ws) + ceil_div (sparse_heads ws hs) ws"

lemma dense_heads_on_le:
  assumes "0 \<le> r"
  shows "dense_heads_on ws hs r \<le> (\<Sum>kv \<leftarrow> filter (\<lambda>h. ws \<le> h) hs. ceil_div kv ws)"
proof (induction hs)
  case Nil
  then show ?case by simp
next
  case (Cons h hs)
  have "of_bool (r < h mod ws) \<le> (of_bool (h mod ws \<noteq> 0) :: int)" using assms by auto
  with Cons show ?case by (simp add: ceil_div_def)
qed

lemma rank_heads_le_bound:
  assumes "0 \<le> r" and "r < ws" and "positive_heads hs"
  shows "rank_heads (shards ws 0 0 hs) r \<le> peak_heads_bound ws hs"
  using rank_heads_shards[OF assms(1,2,3), of 0 0] dense_heads_on_le[OF assms(1), of ws hs]
    rr_hits_bounds(2)[OF assms(1,2) sparse_heads_nonneg[OF assms(3)], of 0 ws]
  by (simp add: peak_heads_bound_def ceil_div_def)

section \<open>Properties\<close>

text \<open>
  C18: where the bytes of all heads stay in the range of \<^verbatim>\<open>int64_t\<close>, the estimate of a
  computed layout charges every rank for exactly the heads \<^verbatim>\<open>heads_for_rank\<close> gives it over
  all layers, and the ranks' bytes sum to the bytes of all layers' heads: the cache is neither
  under-reported nor counted twice.
\<close>

theorem estimate_charges_each_rank:
  assumes "rank_count ws" and "positive_heads hs" and "hs \<noteq> []"
    and "compute_ilu_layerwise_layout (int (length hs)) hs ws topo = Inr L"
    and "bytes_fit plat hs nb bs d t"
  shows "\<exists>est. estimate_layerwise_kv_memory plat L nb bs d mt t ws = Inr est \<and>
    length (per_rank_bytes est) = nat ws \<and>
    (\<forall>r \<in> {0..<ws}. \<exists>f. (\<forall>lid \<in> {0..<int (length hs)}. heads_for_rank L r lid = Inr (f lid)) \<and>
       per_rank_bytes est ! nat r = (\<Sum>lid \<in> {0..<int (length hs)}. kv_unit plat nb bs d t * f lid)) \<and>
    sum_list (per_rank_bytes est) = kv_unit plat nb bs d t * sum_list hs"
proof -
  let ?per = "map (\<lambda>r. kv_unit plat nb bs d t * rank_heads (specs L) r) [0..ws - 1]"
  from ilu.provided_bytes[OF assms(1,2,4,3,5) refl refl refl, of mt]
  obtain est where est: "estimate_layerwise_kv_memory plat L nb bs d mt t ws = Inr est"
    and per: "per_rank_bytes est = ?per"
    by simp
  have "\<exists>f. (\<forall>lid \<in> {0..<int (length hs)}. heads_for_rank L r lid = Inr (f lid)) \<and>
       per_rank_bytes est ! nat r = (\<Sum>lid \<in> {0..<int (length hs)}. kv_unit plat nb bs d t * f lid)"
    if "r \<in> {0..<ws}" for r
  proof -
    from ilu.provided_rank_heads[OF assms(1,2,4), of r]
    obtain f where "\<forall>lid \<in> {0..<int (length hs)}. heads_for_rank L r lid = Inr (f lid)"
      "rank_heads (specs L) r = (\<Sum>lid \<in> {0..<int (length hs)}. f lid)" by blast
    then show ?thesis
      using that by (intro exI[of _ f]) (simp add: per nth_upto sum_distrib_left)
  qed
  moreover have "sum_list ?per = kv_unit plat nb bs d t * sum_list hs"
    using ilu.provided_sum[OF assms(1,2,4)] by (simp add: sum_list_map_upto flip: sum_distrib_left)
  moreover have "length ?per = nat ws" by simp
  ultimately show ?thesis
    using est by (intro exI[of _ est]) (simp only: per, blast)
qed

text \<open>
  the estimate is ordered: baseline \<open>\<le>\<close> average \<open>\<le>\<close> peak, so the reported
  \<^verbatim>\<open>savings_vs_uniform_pct\<close> is never positive. The baseline floors the mean number of
  heads per rank, and no placement can have a busiest rank below the mean.
\<close>

theorem estimate_never_saves:
  assumes "rank_count ws" and "positive_heads hs" and "hs \<noteq> []"
    and "compute_ilu_layerwise_layout (int (length hs)) hs ws topo = Inr L"
    and fit: "bytes_fit plat hs nb bs d t"
  shows "\<exists>est. estimate_layerwise_kv_memory plat L nb bs d mt t ws = Inr est \<and>
    uniform_per_rank_bytes est \<le> average_per_rank_bytes est \<and>
    average_per_rank_bytes est \<le> peak_per_rank_bytes est \<and>
    savings_vs_uniform_pct est \<le> 0"
proof -
  define u where "u = kv_unit plat nb bs d t"
  define per where "per = map (\<lambda>r. u * rank_heads (specs L) r) [0..ws - 1]"
  define uni where "uni = u * (sum_list hs div ws)"
  have ws: "0 < ws" using assms(1) by (simp add: rank_count_def)
  have u: "0 \<le> u" using fit by (simp add: u_def bytes_fit_def kv_unit_nonneg)
  have heads: "0 \<le> sum_list hs"
    using assms(2) by (simp add: sum_list_nonneg positive_heads_def order_less_imp_le)
  have avg: "(u * sum_list hs) sdiv ws = (u * sum_list hs) div ws"
    using u heads ws by (simp add: c_arith)
  have "ws * (sum_list hs div ws) \<le> sum_list hs"
    using pos_mod_sign[OF ws, of "sum_list hs"] mult_div_mod_eq[of ws "sum_list hs"] by linarith
  from mult_left_mono[OF this u] have "ws * uni \<le> u * sum_list hs"
    by (simp add: uni_def mult.left_commute)
  then have 1: "uni \<le> (u * sum_list hs) div ws"
    using zdiv_mono1[of "ws * uni" "u * sum_list hs" ws] ws by simp
  have "u * sum_list hs \<le> ws * max_element per"
    unfolding per_def by (rule ilu.provided_peak_mean[OF assms(1,2,4) u])
  then have 2: "(u * sum_list hs) div ws \<le> max_element per"
    using zdiv_mono1[of "u * sum_list hs" "ws * max_element per" ws] ws by simp
  have 3: "(if uni > 0 then 100 * (1 - of_int (max_element per) / of_int uni) else 0) \<le> (0 :: rat)"
    using 1 2 by (simp add: le_divide_eq)
  show ?thesis
    unfolding ilu.provided_bytes[OF assms(1,2,4,3) fit u_def per_def uni_def, of mt]
    by (intro exI conjI, rule refl)
       (simp_all only: LayerwiseKVMemoryEstimate.select_convs avg 1 2 3)
qed

text \<open>
  no rank is estimated above its ceiling share of every dense layer plus the ceiling
  share of the sparse layers' heads.
\<close>

theorem estimate_peak_bound:
  assumes "rank_count ws" and "positive_heads hs" and "hs \<noteq> []"
    and "compute_ilu_layerwise_layout (int (length hs)) hs ws topo = Inr L"
    and fit: "bytes_fit plat hs nb bs d t"
  shows "\<exists>est. estimate_layerwise_kv_memory plat L nb bs d mt t ws = Inr est \<and>
    peak_per_rank_bytes est \<le> kv_unit plat nb bs d t * peak_heads_bound ws hs"
proof -
  define u where "u = kv_unit plat nb bs d t"
  define per where "per = map (\<lambda>r. u * rank_heads (specs L) r) [0..ws - 1]"
  have u: "0 \<le> u" using fit by (simp add: u_def bytes_fit_def kv_unit_nonneg)
  have "max_element per \<le> u * peak_heads_bound ws hs"
    using assms(1) rank_heads_le_bound[of _ ws hs] mult_left_mono[OF _ u] assms(2)
      compute_layout_Inr[OF assms(1,2,4)]
    by (subst max_element_eq) (auto simp: per_def rank_count_def)
  then show ?thesis
    using ilu.provided_bytes[OF assms(1,2,4,3) fit u_def per_def refl, of mt] by (simp add: u_def)
qed

text \<open>
  C22: with the feature on (not in an NPU build) and positive head counts the master returns
  a layout of all layers in which the ranks' heads sum to the dense count before the first
  MoE layer and to the MoE count from there on. The estimate it logs on the way cannot fail.
\<close>

theorem master_layout:
  assumes "plat \<noteq> NPU" and "0 < n" and "0 < dense" and "0 < moe" and "rank_count ws"
  shows "\<exists>L. master_compute_layerwise_layout plat True n dense moe first ws nb bs d mt t = Inr (Some L) \<and>
    num_layers L = n \<and>
    (\<forall>lid \<in> {0..<n}. \<exists>f. (\<forall>r. heads_for_rank L r lid = Inr (f r)) \<and>
       (\<Sum>r \<in> {0..<ws}. f r) = (if lid < first then dense else moe))"
proof -
  let ?hs = "map (\<lambda>i. if i < first then dense else moe) [0..n - 1]"
  have pos: "positive_heads ?hs" using assms by (auto simp: positive_heads_def)
  have len: "int (length ?hs) = n" and ne: "?hs \<noteq> []" using assms by auto
  from ilu.compute_total[OF assms(5) pos, of kFlatPIX]
  obtain L where L: "compute_ilu_layerwise_layout (int (length ?hs)) ?hs ws kFlatPIX = Inr L" by blast
  have heads: "per_layer_heads n dense moe first = Inr ?hs"
    using assms by (simp add: per_layer_heads_def)
  have "maybe_compute_layerwise_layout plat True n ?hs ws = Inr (Some L)"
    using assms(1) L len by (simp add: maybe_compute_layerwise_layout_def)
  then have "master_compute_layerwise_layout plat True n dense moe first ws nb bs d mt t = Inr (Some L)"
    using ilu.provided_estimate[OF assms(5) pos L ne refl refl refl, of plat nb bs d mt t]
    by (simp add: master_compute_layerwise_layout_def heads)
  moreover have "\<exists>f. (\<forall>r. heads_for_rank L r lid = Inr (f r)) \<and>
       (\<Sum>r \<in> {0..<ws}. f r) = (if lid < first then dense else moe)" if "lid \<in> {0..<n}" for lid
  proof -
    have lid: "0 \<le> lid" "lid < int (length ?hs)" using that len by auto
    have "?hs ! nat lid = (if lid < first then dense else moe)"
      using that by (simp add: nth_upto)
    with sum_shard_heads[OF ilu.provided_shard[OF assms(5) pos L lid]]
      ilu.provided_heads[OF assms(5) pos L lid] show ?thesis
      by (intro exI[of _ "\<lambda>r. shard_heads r (specs L ! nat lid)"]) simp
  qed
  ultimately show ?thesis
    using ilu.provided_length[OF assms(5) pos L] len by (intro exI[of _ L]) simp
qed

text \<open>
  the master falls back to uniform sharding (no layout) exactly when the feature is off
  or the build is an NPU one; otherwise it returns a layout or fails, and for a model
  without layers it aborts the process in the estimate.
\<close>

theorem master_no_layout:
  assumes "0 \<le> n"
  shows "(master_compute_layerwise_layout plat flag n dense moe first ws nb bs d mt t = Inr None
      \<longleftrightarrow> \<not> flag \<or> plat = NPU) \<and>
    (flag \<and> plat \<noteq> NPU \<and> 0 < ws \<longrightarrow>
      master_compute_layerwise_layout plat flag 0 dense moe first ws nb bs d mt t
        = Inl (Abort ''num_layers > 0''))"
proof
  show "master_compute_layerwise_layout plat flag n dense moe first ws nb bs d mt t = Inr None
      \<longleftrightarrow> \<not> flag \<or> plat = NPU"
    using assms
    by (auto simp: master_compute_layerwise_layout_def per_layer_heads_def
        maybe_compute_layerwise_layout_def rbind_eq_Inr_iff split: option.splits if_splits)
  show "flag \<and> plat \<noteq> NPU \<and> 0 < ws \<longrightarrow>
      master_compute_layerwise_layout plat flag 0 dense moe first ws nb bs d mt t
        = Inl (Abort ''num_layers > 0'')"
    by (simp add: master_compute_layerwise_layout_def per_layer_heads_def
        maybe_compute_layerwise_layout_def compute_ilu_layerwise_layout_def make_layout_def
        validate_def Let_def estimate_layerwise_kv_memory_def num_layers_def)
qed

section \<open>Witnesses\<close>

lemma sample_layout:
  "compute_ilu_layerwise_layout (int (length [8, 2 :: int])) [8, 2] 4 kFlatPIX
     = Inr \<lparr>specs = shards 4 0 0 [8, 2]\<rparr>"
  by (rule compute_layout_eq) (simp_all add: rank_count_def)

lemma sample_heads: "rank_count 4" "positive_heads [8, 2]" "[8, 2 :: int] \<noteq> []"
  by (simp_all add: rank_count_def)

lemma sample_fit: "bytes_fit ILU [8, 2] 2 16 96 5"
  by code_simp

theorem estimate_charges_each_rank_witness:
  "\<exists>L est. compute_ilu_layerwise_layout 2 [8, 2] 4 kFlatPIX = Inr L \<and>
    estimate_layerwise_kv_memory ILU L 2 16 96 0 5 4 = Inr est \<and>
    length (per_rank_bytes est) = 4 \<and> sum_list (per_rank_bytes est) = 163840"
proof -
  have "kv_unit ILU 2 16 96 5 = 16384" by code_simp
  then show ?thesis
    using estimate_charges_each_rank[OF sample_heads sample_layout sample_fit, of 0] sample_layout
    by auto
qed

theorem estimate_never_saves_witness:
  "\<exists>L est. compute_ilu_layerwise_layout 2 [8, 2] 4 kFlatPIX = Inr L \<and>
    estimate_layerwise_kv_memory ILU L 2 16 96 0 5 4 = Inr est \<and>
    average_per_rank_bytes est \<le> peak_per_rank_bytes est \<and> savings_vs_uniform_pct est \<le> 0"
  using estimate_never_saves[OF sample_heads sample_layout sample_fit, of 0] sample_layout
  by auto

theorem estimate_peak_bound_witness:
  "\<exists>L est. compute_ilu_layerwise_layout 2 [8, 2] 4 kFlatPIX = Inr L \<and>
    estimate_layerwise_kv_memory ILU L 2 16 96 0 5 4 = Inr est \<and> peak_per_rank_bytes est \<le> 49152"
proof -
  have "kv_unit ILU 2 16 96 5 * peak_heads_bound 4 [8, 2] = 49152" by code_simp
  then show ?thesis
    using estimate_peak_bound[OF sample_heads sample_layout sample_fit, of 0] sample_layout
    by auto
qed

theorem master_layout_witness:
  "\<exists>L. master_compute_layerwise_layout ILU True 3 8 2 1 4 10 16 128 4096 15 = Inr (Some L) \<and>
    num_layers L = 3 \<and>
    (\<exists>f. (\<forall>r. heads_for_rank L r 2 = Inr (f r)) \<and> (\<Sum>r \<in> {0..<4}. f r) = 2)"
  using master_layout[of ILU 3 8 2 4 1 10 16 128 4096 15]
  by (auto simp: rank_count_def dest!: bspec[where x = "2 :: int"])

theorem master_no_layout_witness:
  "master_compute_layerwise_layout NPU True 3 8 2 1 4 10 16 128 4096 15 = Inr None \<and>
   master_compute_layerwise_layout ILU True 0 8 2 1 4 10 16 128 4096 15 = Inl (Abort ''num_layers > 0'')"
  using master_no_layout[of 3 NPU True 8 2 1 4 10 16 128 4096 15]
    master_no_layout[of 0 ILU True 8 2 1 4 10 16 128 4096 15]
  by simp

end
