(* ===== verification/Layerwise_Kv.thy ===== *)
theory Layerwise_Kv
  imports Layerwise_Estimate Kv_Cache
begin

text \<open>
  The allocation of the KV caches of one rank under a layerwise layout
  (\<^verbatim>\<open>core/framework/kv_cache/kv_cache_layerwise.cpp\<close>) and the worker's call of it
  (\<^verbatim>\<open>core/runtime/worker_layerwise_init.cpp\<close>).

  The vector of caches is filled layer by layer, so what was allocated before a failure
  stays in it: the allocator returns the vector and, where it failed, the failure. The
  parameter \<open>fits\<close> says which tensors can still be allocated beside those the call already
  holds. A head dimension within a warp of $2^{63}$, for which \<^verbatim>\<open>align_up\<close> leaves the range
  of \<^verbatim>\<open>int64_t\<close>, is outside the model of the allocator.
\<close>

section \<open>The allocator\<close>

definition local_shape :: "platform \<Rightarrow> int \<Rightarrow> int list \<Rightarrow> int list" where
  "local_shape plat local_heads shape =
     (if plat = ILU \<or> plat = MLU
      then (shape[1 := local_heads])[3 := align_up (shape[1 := local_heads] ! 3) kWarpSize]
      else shape[2 := local_heads])"

definition held_tensors :: "KVCache list \<Rightarrow> tensor list" where
  "held_tensors cs = concat (map (\<lambda>c. [kv_key_cache c, kv_value_cache c]) cs)"

definition allocate_layer ::
    "platform \<Rightarrow> (tensor list \<Rightarrow> int list \<Rightarrow> DType \<Rightarrow> bool) \<Rightarrow> KVCacheShape \<Rightarrow> KVCacheCreateOptions
     \<Rightarrow> LayerwiseSplitLayout \<Rightarrow> int \<Rightarrow> KVCache list \<Rightarrow> int \<Rightarrow> KVCache result" where
  "allocate_layer plat fits base_shape create_options layout current_rank kv_caches i =
     rbind (rank_owns_layer layout current_rank i) (\<lambda>owned.
     if \<not> owned then Inr KVCache_default
     else
       rbind (heads_for_rank layout current_rank i) (\<lambda>local_heads.
       rbind (check (local_heads > 0) ''local_heads > 0'') (\<lambda>_.
       rbind (check (has_key_cache_shape base_shape) ''has_key_cache_shape'') (\<lambda>_.
       rbind (key_cache_shape base_shape) (\<lambda>k_shape.
       rbind (check (length k_shape \<ge> 4) ''k_shape.size() >= 4'') (\<lambda>_.
       let d = opt_dtype create_options; held = held_tensors kv_caches in
       rbind (torch_zeros (fits held) (local_shape plat local_heads k_shape) d) (\<lambda>k_tensor.
       if has_value_cache_shape base_shape then
         let v_shape = value_cache_shape base_shape in
         rbind (check (length v_shape \<ge> 4) ''v_shape.size() >= 4'') (\<lambda>_.
         rbind (torch_zeros (fits (held @ [k_tensor])) (local_shape plat local_heads v_shape) d) (\<lambda>v_tensor.
         Inr (KVCache_of_tensors \<lparr>kt_key_cache = k_tensor, kt_value_cache = v_tensor\<rparr>)))
       else
         Inr (KVCache_of_tensors \<lparr>kt_key_cache = k_tensor, kt_value_cache = NoTensor\<rparr>))))))))"

fun allocate_loop ::
    "(KVCache list \<Rightarrow> int \<Rightarrow> KVCache result) \<Rightarrow> int list \<Rightarrow> KVCache list
     \<Rightarrow> KVCache list \<times> failure option" where
  "allocate_loop layer [] kv_caches = (kv_caches, None)"
| "allocate_loop layer (i # is) kv_caches =
     (case layer kv_caches i of
        Inl e \<Rightarrow> (kv_caches, Some e)
      | Inr c \<Rightarrow> allocate_loop layer is (kv_caches @ [c]))"

definition allocate_kv_caches_layerwise ::
    "platform \<Rightarrow> (tensor list \<Rightarrow> int list \<Rightarrow> DType \<Rightarrow> bool) \<Rightarrow> KVCache list \<Rightarrow> KVCacheShape
     \<Rightarrow> KVCacheCreateOptions \<Rightarrow> LayerwiseSplitLayout \<Rightarrow> int \<Rightarrow> KVCache list \<times> failure option" where
  "allocate_kv_caches_layerwise plat fits kv_caches base_shape create_options layout current_rank =
     (if kv_caches \<noteq> [] then (kv_caches, Some (Abort ''KV caches already initialized.''))
      else if opt_num_layers create_options \<noteq> num_layers layout
      then (kv_caches, Some (Abort ''Layout/config layer count mismatch.''))
      else
        case allocate_loop (allocate_layer plat fits base_shape create_options layout current_rank)
               [0..opt_num_layers create_options - 1] kv_caches of
          (cs, Some e) \<Rightarrow> (cs, Some e)
        | (cs, None) \<Rightarrow>
            if int (length cs) = opt_num_layers create_options then (cs, None)
            else (cs, Some (Abort ''kv_caches.size() == num_layers'')))"

section \<open>The worker\<close>

text \<open>
  The verification loop: stops at the first layer whose cache does not match its ownership.
  \<^verbatim>\<open>kv_caches[lid]\<close> is unchecked.
\<close>

fun verify_caches ::
    "LayerwiseSplitLayout \<Rightarrow> int \<Rightarrow> KVCache list \<Rightarrow> int list \<Rightarrow> bool result" where
  "verify_caches layout rank kv_caches [] = Inr True"
| "verify_caches layout rank kv_caches (lid # lids) =
     rbind (rank_owns_layer layout rank lid) (\<lambda>owns.
     if \<not> (0 \<le> lid \<and> lid < int (length kv_caches)) then Inl (Undefined ''kv_caches[lid]'')
     else
       let is_empty = kv_empty (kv_caches ! nat lid) in
       if owns \<and> is_empty then Inr False
       else if \<not> owns \<and> \<not> is_empty then Inr False
       else verify_caches layout rank kv_caches lids)"

text \<open>Only exceptions are caught; an abort takes the process down.\<close>

definition worker_allocate_layerwise_kv_cache ::
    "platform \<Rightarrow> (tensor list \<Rightarrow> int list \<Rightarrow> DType \<Rightarrow> bool) \<Rightarrow> KVCache list \<Rightarrow> KVCacheShape
     \<Rightarrow> KVCacheCreateOptions \<Rightarrow> LayerwiseSplitLayout \<Rightarrow> int \<Rightarrow> (KVCache list \<times> bool) result" where
  "worker_allocate_layerwise_kv_cache plat fits kv_caches shape create_options layout rank =
     (case allocate_kv_caches_layerwise plat fits kv_caches shape create_options layout rank of
        (cs, Some (Exn m)) \<Rightarrow> Inr (cs, False)
      | (cs, Some e) \<Rightarrow> Inl e
      | (cs, None) \<Rightarrow>
          rbind (verify_caches layout rank cs [0..num_layers layout - 1]) (\<lambda>ok. Inr (cs, ok)))"

section \<open>Lemmas on the loops\<close>

lemma allocate_loop_steps:
  assumes "\<And>k. k < length is \<Longrightarrow> layer (cs @ take k new) (is ! k) = Inr (new ! k)"
    and "length new = length is"
  shows "allocate_loop layer is cs = (cs @ new, None)"
  using assms
proof (induction "is" arbitrary: cs new)
  case Nil
  then show ?case by simp
next
  case (Cons i "is")
  then obtain c new' where new: "new = c # new'" by (cases new) auto
  have "layer cs i = Inr c" using Cons.prems(1)[of 0] new by simp
  moreover have "allocate_loop layer is (cs @ [c]) = ((cs @ [c]) @ new', None)"
    using Cons.prems(1)[of "Suc _"] Cons.prems(2) new by (intro Cons.IH) auto
  ultimately show ?case using new by simp
qed

lemma allocate_loop_fails:
  assumes "\<And>k. k < n \<Longrightarrow> layer (cs @ take k new) (is ! k) = Inr (new ! k)"
    and "length new = n" and "n < length is" and "layer (cs @ new) (is ! n) = Inl e"
  shows "allocate_loop layer is cs = (cs @ new, Some e)"
proof -
  have append: "allocate_loop layer (xs @ ys) cs = (case allocate_loop layer xs cs of
      (cs', None) \<Rightarrow> allocate_loop layer ys cs' | (cs', Some e) \<Rightarrow> (cs', Some e))" for xs ys cs
    by (induction layer xs cs rule: allocate_loop.induct) (auto split: sum.splits)
  have "allocate_loop layer (take n is) cs = (cs @ new, None)"
    using assms by (intro allocate_loop_steps) auto
  moreover have "is = take n is @ is ! n # drop (Suc n) is"
    using assms(3) by (simp add: id_take_nth_drop)
  ultimately show ?thesis
    using append[of "take n is" "is ! n # drop (Suc n) is"] assms(4) by simp
qed

lemma verify_caches_True:
  assumes "\<And>lid. lid \<in> set lids \<Longrightarrow> 0 \<le> lid \<and> lid < int (length cs) \<and>
      rank_owns_layer L r lid = Inr (\<not> kv_empty (cs ! nat lid))"
  shows "verify_caches L r cs lids = Inr True"
  using assms by (induction lids) (auto simp: Let_def)

section \<open>What a layer's cache is\<close>

text \<open>The cache the allocator stores for a layer of which the rank holds \<open>h\<close> heads.\<close>

definition cache_for :: "platform \<Rightarrow> KVCacheShape \<Rightarrow> DType \<Rightarrow> int \<Rightarrow> KVCache" where
  "cache_for plat base d h =
     (case key_cache_shape_opt base of
        None \<Rightarrow> KVCache_default
      | Some k \<Rightarrow>
          if h = 0 then KVCache_default
          else KVCache_of_tensors
            \<lparr>kt_key_cache = Tensor (local_shape plat h k) d,
             kt_value_cache = (case value_cache_shape_opt base of
                None \<Rightarrow> NoTensor | Some v \<Rightarrow> Tensor (local_shape plat h v) d)\<rparr>)"

definition base_ok :: "KVCacheShape \<Rightarrow> bool" where
  "base_ok base \<longleftrightarrow>
     (case key_cache_shape_opt base of None \<Rightarrow> False | Some k \<Rightarrow> 4 \<le> length k) \<and>
     (case value_cache_shape_opt base of None \<Rightarrow> True | Some v \<Rightarrow> 4 \<le> length v)"

lemma base_okE:
  assumes "base_ok base"
  obtains k where "key_cache_shape_opt base = Some k" "4 \<le> length k"
    "\<forall>v. value_cache_shape_opt base = Some v \<longrightarrow> 4 \<le> length v"
  using assms by (auto simp: base_ok_def split: option.splits)

lemma cache_for_0 [simp]: "cache_for plat base d 0 = KVCache_default"
  by (simp add: cache_for_def split: option.split)

lemma held_tensors_simps [simp]:
  "held_tensors [] = []"
  "held_tensors (xs @ ys) = held_tensors xs @ held_tensors ys"
  "held_tensors [c] = [kv_key_cache c, kv_value_cache c]"
  by (simp_all add: held_tensors_def)

definition held_bytes :: "(DType \<Rightarrow> int) \<Rightarrow> tensor list \<Rightarrow> int" where
  "held_bytes esz ts = (\<Sum>t \<leftarrow> ts. tensor_bytes esz t)"

lemma held_bytes_simps [simp]:
  "held_bytes esz [] = 0"
  "held_bytes esz (t # ts) = tensor_bytes esz t + held_bytes esz ts"
  "held_bytes esz (ts @ us) = held_bytes esz ts + held_bytes esz us"
  by (simp_all add: held_bytes_def)

lemma held_bytes_caches: "held_bytes esz (held_tensors cs) = (\<Sum>c \<leftarrow> cs. kv_bytes esz c)"
  by (induction cs) (simp_all add: held_tensors_def kv_bytes_def)

text \<open>A device with \<open>budget\<close> bytes for the caches.\<close>

definition memory_fits ::
    "(DType \<Rightarrow> int) \<Rightarrow> int \<Rightarrow> tensor list \<Rightarrow> int list \<Rightarrow> DType \<Rightarrow> bool" where
  "memory_fits esz budget held s d \<longleftrightarrow>
     list_all (\<lambda>n. 0 \<le> n) s \<and> held_bytes esz held + prod_list s * esz d \<le> budget"

text \<open>
  One layer, once its head count is known: no check fails, so only \<^verbatim>\<open>torch::zeros\<close> can.
\<close>

lemma allocate_layer_eq:
  assumes "rank_owns_layer L r i = Inr (0 < h)" and "heads_for_rank L r i = Inr h"
    and "0 \<le> h" and "base_ok base" and "key_cache_shape_opt base = Some k"
    and "kt = Tensor (local_shape plat h k) (opt_dtype opts)"
  shows "allocate_layer plat fits base opts L r cs i =
    (if 0 < h \<and> \<not> fits (held_tensors cs) (local_shape plat h k) (opt_dtype opts)
       \<or> 0 < h \<and> (\<exists>v. value_cache_shape_opt base = Some v \<and>
           \<not> fits (held_tensors cs @ [kt]) (local_shape plat h v) (opt_dtype opts))
     then Inl (Exn ''c10::Error'')
     else Inr (cache_for plat base (opt_dtype opts) h))"
proof (cases "h = 0")
  case True
  then show ?thesis using assms by (simp add: allocate_layer_def)
next
  case False
  note eval = allocate_layer_def cache_for_def torch_zeros_def key_cache_shape_def
    value_cache_shape_def has_key_cache_shape_def has_value_cache_shape_def Let_def
  have k: "4 \<le> length k" using assms(4,5) by (auto elim: base_okE)
  show ?thesis
  proof (cases "value_cache_shape_opt base")
    case None
    then show ?thesis using assms(1,2,3,5,6) False k by (simp add: eval)
  next
    case (Some v)
    moreover have "4 \<le> length v" using assms(4) Some by (auto elim: base_okE)
    ultimately show ?thesis using assms(1,2,3,5,6) False k by (simp add: eval)
  qed
qed

lemma allocate_layer_cases:
  assumes "rank_owns_layer L r i = Inr (0 < h)" and "heads_for_rank L r i = Inr h"
    and "0 \<le> h" and "base_ok base"
  shows "allocate_layer plat fits base opts L r cs i = Inr (cache_for plat base (opt_dtype opts) h)
    \<or> (\<exists>m. allocate_layer plat fits base opts L r cs i = Inl (Exn m))"
proof -
  obtain k where "key_cache_shape_opt base = Some k" using assms(4) by (elim base_okE)
  from allocate_layer_eq[OF assms this refl] show ?thesis by simp
qed

lemma cache_for_tensors:
  assumes "base_ok base" and "key_cache_shape_opt base = Some k" and "0 < h"
  shows "kv_key_cache (cache_for plat base d h) = Tensor (local_shape plat h k) d"
    and "kv_value_cache (cache_for plat base d h) = (case value_cache_shape_opt base of
      None \<Rightarrow> NoTensor | Some v \<Rightarrow> Tensor (local_shape plat h v) d)"
  using assms by (simp_all add: cache_for_def KVCache_of_tensors_def)

lemma kv_empty_cache_for:
  assumes "base_ok base" and "value_cache_shape_opt base \<noteq> None" and "0 \<le> h"
  shows "kv_empty (cache_for plat base d h) \<longleftrightarrow> h = 0"
  using assms by (cases "h = 0") (auto simp: cache_for_def elim!: base_okE)

lemma allocate_layer_bounded:
  assumes "rank_owns_layer L r i = Inr (0 < h)" and "heads_for_rank L r i = Inr h"
    and "0 \<le> h" and "base_ok base" and "held_bytes esz (held_tensors cs) \<le> budget"
    and "allocate_layer plat (memory_fits esz budget) base opts L r cs i = Inr c"
  shows "held_bytes esz (held_tensors (cs @ [c])) \<le> budget"
proof -
  obtain k where k: "key_cache_shape_opt base = Some k" using assms(4) by (elim base_okE)
  let ?kt = "Tensor (local_shape plat h k) (opt_dtype opts)"
  show ?thesis
  proof (cases "h = 0")
    case True
    then have "c = KVCache_default" using assms(6) allocate_layer_eq[OF assms(1-4) k refl] by simp
    then show ?thesis using assms(5) by (simp add: KVCache_default_def tensor_bytes_def)
  next
    case False
    then have "0 < h" using assms(3) by simp
    then show ?thesis
      using assms(6) allocate_layer_eq[OF assms(1-4) k refl, of plat "memory_fits esz budget" opts cs]
        cache_for_tensors[OF assms(4) k \<open>0 < h\<close>, of plat "opt_dtype opts"]
      by (cases "value_cache_shape_opt base")
         (auto simp: memory_fits_def tensor_bytes_def split: if_splits)
  qed
qed

text \<open>The loop over layers whose only failures are exceptions.\<close>

lemma allocate_loop_result:
  assumes "\<And>i cs. i \<in> set is \<Longrightarrow> layer cs i = Inr (g i) \<or> (\<exists>m. layer cs i = Inl (Exn m))"
  shows "allocate_loop layer is cs = (cs @ map g is, None) \<or>
    (\<exists>n m. n < length is \<and> allocate_loop layer is cs = (cs @ map g (take n is), Some (Exn m)))"
  using assms
proof (induction "is" arbitrary: cs)
  case Nil
  then show ?case by simp
next
  case (Cons i "is")
  from Cons.prems[of i cs] consider "layer cs i = Inr (g i)" | m where "layer cs i = Inl (Exn m)"
    by auto
  then show ?case
  proof cases
    case 1
    with Cons.IH[of "cs @ [g i]"] Cons.prems show ?thesis
      by (auto intro: exI[of _ "Suc _"])
  next
    case 2
    then show ?thesis by (intro disjI2 exI[of _ 0]) simp
  qed
qed

lemma allocate_loop_keeps:
  assumes "P cs" and "\<And>cs i c. i \<in> set is \<Longrightarrow> P cs \<Longrightarrow> layer cs i = Inr c \<Longrightarrow> P (cs @ [c])"
  shows "P (fst (allocate_loop layer is cs))"
  using assms by (induction layer "is" cs rule: allocate_loop.induct) (auto split: sum.splits)

section \<open>The caches of a rank under a provided layout\<close>

definition rank_caches ::
    "platform \<Rightarrow> KVCacheShape \<Rightarrow> DType \<Rightarrow> LayerwiseSplitLayout \<Rightarrow> int \<Rightarrow> KVCache list" where
  "rank_caches plat base d L r = map (\<lambda>s. cache_for plat base d (shard_heads r s)) (specs L)"

lemma map_nth_upto: "map (\<lambda>lid. f (xs ! nat lid)) [0..int (length xs) - 1] = map f xs"
  by (rule nth_equalityI) (auto simp: nth_upto)

context layout_provider
begin

lemma provided_layer:
  assumes "rank_count ws" and "positive_heads hs" and "compute (int (length hs)) hs ws = Inr L"
    and "lid \<in> set [0..num_layers L - 1]"
  shows "rank_owns_layer L r lid = Inr (0 < shard_heads r (specs L ! nat lid))"
    and "heads_for_rank L r lid = Inr (shard_heads r (specs L ! nat lid))"
    and "0 \<le> shard_heads r (specs L ! nat lid)"
proof -
  have lid: "0 \<le> lid" "lid < int (length hs)"
    using provided_length[OF assms(1-3)] assms(4) by auto
  show "rank_owns_layer L r lid = Inr (0 < shard_heads r (specs L ! nat lid))"
    by (rule provided_owned[OF assms(1-3) lid])
  show "heads_for_rank L r lid = Inr (shard_heads r (specs L ! nat lid))"
    by (rule provided_heads[OF assms(1-3) lid])
  show "0 \<le> shard_heads r (specs L ! nat lid)"
    by (rule shard_heads_nonneg[OF provided_shard[OF assms(1-3) lid]])
qed

lemma provided_allocation:
  assumes "rank_count ws" and "positive_heads hs" and "compute (int (length hs)) hs ws = Inr L"
    and "base_ok base" and "opt_num_layers opts = num_layers L"
    and "all = rank_caches plat base (opt_dtype opts) L r"
  shows "allocate_kv_caches_layerwise plat fits [] base opts L r = (all, None) \<or>
    (\<exists>n m. n < length all \<and>
      allocate_kv_caches_layerwise plat fits [] base opts L r = (take n all, Some (Exn m)))"
proof -
  let ?g = "\<lambda>lid. cache_for plat base (opt_dtype opts) (shard_heads r (specs L ! nat lid))"
  have all: "map ?g [0..num_layers L - 1] = all"
    using map_nth_upto[of "\<lambda>s. cache_for plat base (opt_dtype opts) (shard_heads r s)" "specs L"]
    by (simp add: assms(6) rank_caches_def num_layers_def)
  have len: "int (length all) = num_layers L" "length [0..num_layers L - 1] = length all"
    by (simp_all add: assms(6) rank_caches_def num_layers_def)
  have "allocate_loop (allocate_layer plat fits base opts L r) [0..num_layers L - 1] [] = (all, None) \<or>
    (\<exists>n m. n < length all \<and>
      allocate_loop (allocate_layer plat fits base opts L r) [0..num_layers L - 1] []
        = (take n all, Some (Exn m)))"
    using allocate_loop_result[of "[0..num_layers L - 1]" "allocate_layer plat fits base opts L r" ?g "[]"]
      allocate_layer_cases[OF provided_layer[OF assms(1-3)] assms(4), where plat = plat and opts = opts]
    unfolding all take_map[symmetric] append_Nil len(2) by metis
  then show ?thesis
    by (auto simp: allocate_kv_caches_layerwise_def assms(5) len)
qed

text \<open>The verification loop accepts these caches, when there is a value cache.\<close>

lemma provided_verified:
  assumes "rank_count ws" and "positive_heads hs" and "compute (int (length hs)) hs ws = Inr L"
    and "base_ok base" and "value_cache_shape_opt base \<noteq> None"
  shows "verify_caches L r (rank_caches plat base d L r) [0..num_layers L - 1] = Inr True"
proof (rule verify_caches_True)
  fix lid assume lid: "lid \<in> set [0..num_layers L - 1]"
  then have "nat lid < length (specs L)" "0 \<le> lid" by (auto simp: num_layers_def)
  moreover have "kv_empty (rank_caches plat base d L r ! nat lid)
      \<longleftrightarrow> shard_heads r (specs L ! nat lid) = 0"
    using calculation kv_empty_cache_for[OF assms(4,5)] provided_layer(3)[OF assms(1-3) lid]
    by (simp add: rank_caches_def)
  ultimately show "0 \<le> lid \<and> lid < int (length (rank_caches plat base d L r)) \<and>
      rank_owns_layer L r lid = Inr (\<not> kv_empty (rank_caches plat base d L r ! nat lid))"
    using provided_layer[OF assms(1-3) lid, of r] by (auto simp: rank_caches_def)
qed

end

section \<open>Allocation in a device of bounded memory\<close>

definition nonneg_shapes :: "KVCacheShape \<Rightarrow> bool" where
  "nonneg_shapes base \<longleftrightarrow>
     (case key_cache_shape_opt base of None \<Rightarrow> True | Some k \<Rightarrow> list_all (\<lambda>n. 0 \<le> n) k) \<and>
     (case value_cache_shape_opt base of None \<Rightarrow> True | Some v \<Rightarrow> list_all (\<lambda>n. 0 \<le> n) v)"

lemma local_shape_nonneg:
  assumes "list_all (\<lambda>n. 0 \<le> n) k" and "0 \<le> h" and "4 \<le> length k"
  shows "list_all (\<lambda>n. 0 \<le> n) (local_shape plat h k)"
proof -
  have "0 \<le> k[1 := h] ! 3" using assms by (simp add: list_all_length)
  then have "0 \<le> align_up (k[1 := h] ! 3) kWarpSize"
    using align_up_ge[of kWarpSize "k[1 := h] ! 3"] by (simp add: kWarpSize_def)
  with assms show ?thesis
    by (auto simp: local_shape_def list_all_length nth_list_update)
qed

lemma prod_list_nonneg: "list_all (\<lambda>n. 0 \<le> n) s \<Longrightarrow> (0 :: int) \<le> prod_list s"
  by (induction s) simp_all

lemma tensor_bytes_nonneg:
  "list_all (\<lambda>n. 0 \<le> n) s \<Longrightarrow> 0 \<le> esz d \<Longrightarrow> 0 \<le> tensor_bytes esz (Tensor s d)"
  using prod_list_nonneg[of s] by (simp add: tensor_bytes_def)

lemma cache_for_bytes_nonneg:
  assumes "base_ok base" and "nonneg_shapes base" and "0 \<le> h" and "0 \<le> esz d"
  shows "0 \<le> kv_bytes esz (cache_for plat base d h)"
proof (cases "h = 0")
  case False
  with assms(3) have "0 < h" by simp
  obtain k where k: "key_cache_shape_opt base = Some k" "4 \<le> length k"
      "\<forall>v. value_cache_shape_opt base = Some v \<longrightarrow> 4 \<le> length v"
    using assms(1) by (blast elim: base_okE)
  have "0 \<le> tensor_bytes esz (Tensor (local_shape plat h k) d)"
    using assms k by (intro tensor_bytes_nonneg local_shape_nonneg) (auto simp: nonneg_shapes_def)
  moreover have "0 \<le> tensor_bytes esz (Tensor (local_shape plat h v) d)"
    if "value_cache_shape_opt base = Some v" for v
    using assms k that by (intro tensor_bytes_nonneg local_shape_nonneg) (auto simp: nonneg_shapes_def)
  ultimately show ?thesis
    using cache_for_tensors[OF assms(1) k(1) \<open>0 < h\<close>, of plat d]
    by (cases "value_cache_shape_opt base") (simp_all add: kv_bytes_def tensor_bytes_def)
qed simp

lemma allocate_layer_fits:
  assumes "rank_owns_layer L r i = Inr (0 < h)" and "heads_for_rank L r i = Inr h"
    and "0 \<le> h" and "base_ok base" and "nonneg_shapes base" and "0 \<le> esz (opt_dtype opts)"
    and "held_bytes esz (held_tensors cs) + kv_bytes esz (cache_for plat base (opt_dtype opts) h) \<le> budget"
  shows "allocate_layer plat (memory_fits esz budget) base opts L r cs i
    = Inr (cache_for plat base (opt_dtype opts) h)"
proof -
  let ?d = "opt_dtype opts"
  obtain k where k: "key_cache_shape_opt base = Some k" "4 \<le> length k"
      "\<forall>v. value_cache_shape_opt base = Some v \<longrightarrow> 4 \<le> length v"
    using assms(4) by (blast elim: base_okE)
  note eq = allocate_layer_eq[OF assms(1-4) k(1) refl, of plat "memory_fits esz budget" opts cs]
  have shape: "list_all (\<lambda>n. 0 \<le> n) (local_shape plat h s)"
    if "s = k \<or> value_cache_shape_opt base = Some s" for s
    using that assms(3,5) k by (intro local_shape_nonneg) (auto simp: nonneg_shapes_def)
  have bytes: "0 \<le> prod_list (local_shape plat h s) * esz ?d"
    if "s = k \<or> value_cache_shape_opt base = Some s" for s
    using prod_list_nonneg[OF shape[OF that]] assms(6) by simp
  show ?thesis
  proof (cases "h = 0")
    case False
    with assms(3) have "0 < h" by simp
    note t = cache_for_tensors[OF assms(4) k(1) this, of plat ?d]
    show ?thesis
    proof (cases "value_cache_shape_opt base")
      case None
      then show ?thesis
        using eq t shape[of k] assms(7) by (simp add: memory_fits_def kv_bytes_def tensor_bytes_def)
    next
      case (Some v)
      then show ?thesis
        using eq t shape[of k] shape[of v] bytes[of v] assms(7)
        by (simp add: memory_fits_def kv_bytes_def tensor_bytes_def)
    qed
  qed (use eq in simp)
qed

lemma sum_list_nth_le:
  assumes "\<forall>x \<in> set xs. 0 \<le> f x" and "k < length xs"
  shows "(\<Sum>x \<leftarrow> take k xs. f x) + f (xs ! k) \<le> (\<Sum>x \<leftarrow> xs. f x :: int)"
proof -
  have "0 \<le> (\<Sum>x \<leftarrow> drop (Suc k) xs. f x)"
    using assms(1) by (intro sum_list_nonneg) (auto dest: in_set_dropD)
  moreover have "map f xs = map f (take k xs) @ f (xs ! k) # map f (drop (Suc k) xs)"
    using assms(2) by (metis id_take_nth_drop list.simps(9) map_append)
  ultimately show ?thesis by simp
qed

context layout_provider
begin

lemma provided_bounded:
  assumes "rank_count ws" and "positive_heads hs" and "compute (int (length hs)) hs ws = Inr L"
    and "base_ok base" and "opt_num_layers opts = num_layers L" and "0 \<le> budget"
  shows "(\<Sum>c \<leftarrow> fst (allocate_kv_caches_layerwise plat (memory_fits esz budget) [] base opts L r).
    kv_bytes esz c) \<le> budget"
proof -
  let ?layer = "allocate_layer plat (memory_fits esz budget) base opts L r"
  have "held_bytes esz (held_tensors (fst (allocate_loop ?layer [0..num_layers L - 1] []))) \<le> budget"
  proof (rule allocate_loop_keeps[where P = "\<lambda>cs. held_bytes esz (held_tensors cs) \<le> budget"])
    show "held_bytes esz (held_tensors (cs @ [c])) \<le> budget"
      if "lid \<in> set [0..num_layers L - 1]" "held_bytes esz (held_tensors cs) \<le> budget"
        "?layer cs lid = Inr c" for cs lid c
      by (rule allocate_layer_bounded[OF provided_layer[OF assms(1-3) that(1)] assms(4) that(2,3)])
  qed (use assms(6) in simp)
  then show ?thesis
    unfolding held_bytes_caches
    by (auto simp: allocate_kv_caches_layerwise_def assms(5) split: prod.splits option.splits)
qed

lemma provided_fits:
  assumes "rank_count ws" and "positive_heads hs" and "compute (int (length hs)) hs ws = Inr L"
    and "base_ok base" and "opt_num_layers opts = num_layers L"
    and "nonneg_shapes base" and "\<forall>d. 0 \<le> esz d"
    and "all = rank_caches plat base (opt_dtype opts) L r"
    and "(\<Sum>c \<leftarrow> all. kv_bytes esz c) \<le> budget"
  shows "allocate_kv_caches_layerwise plat (memory_fits esz budget) [] base opts L r = (all, None)"
proof -
  let ?layer = "allocate_layer plat (memory_fits esz budget) base opts L r"
  have len: "length all = length (specs L)" by (simp add: assms(8) rank_caches_def)
  have nonneg: "\<forall>c \<in> set all. 0 \<le> kv_bytes esz c"
  proof
    fix c assume "c \<in> set all"
    then obtain i where i: "i < length (specs L)"
        "c = cache_for plat base (opt_dtype opts) (shard_heads r (specs L ! i))"
      by (auto simp: assms(8) rank_caches_def in_set_conv_nth)
    have "0 \<le> shard_heads r (specs L ! i)"
      using provided_layer(3)[OF assms(1-3), of "int i" r] i by (simp add: num_layers_def)
    then show "0 \<le> kv_bytes esz c"
      using cache_for_bytes_nonneg[OF assms(4,6)] assms(7) i by simp
  qed
  have "allocate_loop ?layer [0..num_layers L - 1] [] = ([] @ all, None)"
  proof (rule allocate_loop_steps)
    show "length all = length [0..num_layers L - 1]" by (simp add: len num_layers_def)
    fix i assume i: "i < length [0..num_layers L - 1]"
    then have lid: "int i \<in> set [0..num_layers L - 1]" "i < length (specs L)" by (auto simp: num_layers_def)
    let ?h = "shard_heads r (specs L ! i)" and ?d = "opt_dtype opts"
    have c: "all ! i = cache_for plat base ?d ?h" using lid by (simp add: assms(8) rank_caches_def)
    have h: "0 \<le> ?h" using provided_layer(3)[OF assms(1-3) lid(1), of r] by simp
    have room: "held_bytes esz (held_tensors (take i all)) + kv_bytes esz (all ! i) \<le> budget"
      using sum_list_nth_le[OF nonneg, of i] assms(9) lid len by (simp add: held_bytes_caches)
    have "?layer (take i all) (int i) = Inr (all ! i)"
      using allocate_layer_fits[OF provided_layer[OF assms(1-3) lid(1)] assms(4,6)] assms(7) room c
      by simp
    then show "?layer ([] @ take i all) ([0..num_layers L - 1] ! i) = Inr (all ! i)"
      using i by (simp add: nth_upto)
  qed
  then show ?thesis
    by (simp add: allocate_kv_caches_layerwise_def assms(5) len num_layers_def)
qed

end

section \<open>Bytes of a rank's caches on the transposed layout\<close>

text \<open>
  The base shapes of a model with one KV shape: \<open>[n_blocks, n_heads, block_size, head_dim]\<close>
  for keys and values.
\<close>

definition kv_base :: "int \<Rightarrow> int \<Rightarrow> int \<Rightarrow> int \<Rightarrow> KVCacheShape" where
  "kv_base n_blocks n_heads block_size head_dim =
     \<lparr>key_cache_shape_opt = Some [n_blocks, n_heads, block_size, head_dim],
      value_cache_shape_opt = Some [n_blocks, n_heads, block_size, head_dim],
      index_cache_shape_opt = None, conv_cache_shape_opt = None, ssm_cache_shape_opt = None\<rparr>"

lemma kv_base_simps [simp]:
  "key_cache_shape_opt (kv_base nb h0 bs d) = Some [nb, h0, bs, d]"
  "value_cache_shape_opt (kv_base nb h0 bs d) = Some [nb, h0, bs, d]"
  "base_ok (kv_base nb h0 bs d)"
  by (simp_all add: kv_base_def base_ok_def)

lemma nonneg_kv_base [simp]:
  "nonneg_shapes (kv_base nb h0 bs d) \<longleftrightarrow> 0 \<le> nb \<and> 0 \<le> h0 \<and> 0 \<le> bs \<and> 0 \<le> d"
  by (simp add: nonneg_shapes_def)

lemma local_shape_transposed:
  "plat = ILU \<or> plat = MLU \<Longrightarrow> local_shape plat h [nb, h0, bs, d] = [nb, h, bs, align_up d kWarpSize]"
  by (auto simp: local_shape_def numeral_3_eq_3)

lemma local_shape_default:
  "plat \<noteq> ILU \<Longrightarrow> plat \<noteq> MLU \<Longrightarrow> local_shape plat h [nb, bs, h0, d] = [nb, bs, h, d]"
  by (simp add: local_shape_def numeral_2_eq_2)

lemma cache_bytes_transposed:
  assumes "plat = ILU \<or> plat = MLU" and "esz t = dtype_bytes (dtype_code t)" and "0 \<le> h"
  shows "kv_bytes esz (cache_for plat (kv_base nb h0 bs d) t h)
    = kv_unit ILU nb bs d (dtype_code t) * h"
proof (cases "h = 0")
  case False
  with assms(3) have "0 < h" by simp
  show ?thesis
    using cache_for_tensors[of "kv_base nb h0 bs d" _ h plat t] \<open>0 < h\<close> assms
    by (simp add: kv_bytes_def tensor_bytes_def local_shape_transposed kv_unit_def padded_dim_def)
qed simp

lemma rank_bytes_transposed:
  assumes "plat = ILU \<or> plat = MLU" and "esz t = dtype_bytes (dtype_code t)"
    and "list_all2 (sharded ws) hs (specs L)"
  shows "(\<Sum>c \<leftarrow> rank_caches plat (kv_base nb h0 bs d) t L r. kv_bytes esz c)
    = kv_unit ILU nb bs d (dtype_code t) * rank_heads (specs L) r"
proof -
  have "map (\<lambda>s. kv_bytes esz (cache_for plat (kv_base nb h0 bs d) t (shard_heads r s))) (specs L)
      = map (\<lambda>s. kv_unit ILU nb bs d (dtype_code t) * shard_heads r s) (specs L)"
  proof (rule list.map_cong[OF refl])
    fix s assume "s \<in> set (specs L)"
    then obtain kv where "sharded ws kv s"
      using assms(3) by (auto simp: list_all2_conv_all_nth in_set_conv_nth)
    then show "kv_bytes esz (cache_for plat (kv_base nb h0 bs d) t (shard_heads r s))
        = kv_unit ILU nb bs d (dtype_code t) * shard_heads r s"
      by (intro cache_bytes_transposed assms(1,2) shard_heads_nonneg)
  qed
  then show ?thesis
    by (simp only: rank_caches_def rank_heads_def map_map o_def sum_list_const_mult)
qed

section \<open>Properties\<close>

text \<open>
  C19: when the allocation returns, every layer has a cache. Where the rank holds heads of the
  layer, keys and values have the layer's local head count on the axis the build uses (1 on
  ILU and MLU, with \<^verbatim>\<open>head_dim\<close> padded to the warp, 2 elsewhere) and the base shape on the
  others; where it holds none, the cache is the empty placeholder.
\<close>

theorem allocated_shapes:
  assumes "rank_count ws" and "positive_heads hs"
    and "compute_ilu_layerwise_layout (int (length hs)) hs ws topo = Inr L"
    and "opt_num_layers opts = int (length hs)"
    and "allocate_kv_caches_layerwise plat fits [] (kv_base n0 n1 n2 n3) opts L r = (cs, None)"
  shows "length cs = length hs \<and>
    (\<forall>lid < length hs. \<exists>h. heads_for_rank L r (int lid) = Inr h \<and>
      (if h = 0 then kv_empty (cs ! lid)
       else let shape = (if plat = ILU \<or> plat = MLU then [n0, h, n2, align_up n3 64] else [n0, n1, h, n3])
            in kv_key_cache (cs ! lid) = Tensor shape (opt_dtype opts) \<and>
               kv_value_cache (cs ! lid) = Tensor shape (opt_dtype opts)))"
proof -
  let ?base = "kv_base n0 n1 n2 n3" and ?d = "opt_dtype opts"
  have n: "num_layers L = int (length hs)" by (rule ilu.provided_length[OF assms(1-3)])
  have len: "length (specs L) = length hs" using n by (simp add: num_layers_def)
  have cs: "cs = rank_caches plat ?base ?d L r"
    using ilu.provided_allocation[OF assms(1-3), of ?base opts _ plat r fits] assms(4,5) n
    by auto
  have shape: "local_shape plat h [n0, n1, n2, n3]
      = (if plat = ILU \<or> plat = MLU then [n0, h, n2, align_up n3 64] else [n0, n1, h, n3])" for h
    by (auto simp: local_shape_transposed local_shape_default kWarpSize_def)
  have "\<exists>h. heads_for_rank L r (int lid) = Inr h \<and>
      (if h = 0 then kv_empty (cs ! lid)
       else let shape = (if plat = ILU \<or> plat = MLU then [n0, h, n2, align_up n3 64] else [n0, n1, h, n3])
            in kv_key_cache (cs ! lid) = Tensor shape ?d \<and> kv_value_cache (cs ! lid) = Tensor shape ?d)"
    if lid: "lid < length hs" for lid
  proof -
    let ?h = "shard_heads r (specs L ! lid)"
    have h: "heads_for_rank L r (int lid) = Inr ?h" "0 \<le> ?h"
      using ilu.provided_layer[OF assms(1-3), of "int lid" r] lid n by auto
    have "cs ! lid = cache_for plat ?base ?d ?h"
      using lid len by (simp add: cs rank_caches_def)
    then show ?thesis
      using h cache_for_tensors[of ?base _ ?h plat ?d] shape[of ?h]
      by (intro exI[of _ ?h]) (auto simp: Let_def)
  qed
  moreover have "length cs = length hs" by (simp add: cs rank_caches_def len)
  ultimately show ?thesis by blast
qed

text \<open>
  C7: on ILU, for sizes whose bytes stay in the range of \<^verbatim>\<open>int64_t\<close>, the estimate decides the
  allocation. In a device with \<open>budget\<close> bytes the worker reports success exactly when the bytes
  the estimator charges its rank fit, and it has then allocated exactly those bytes; it never
  holds more than the budget and never aborts.
\<close>

theorem worker_succeeds_iff_estimate_fits:
  assumes "rank_count ws" and "positive_heads hs" and "hs \<noteq> []"
    and "compute_ilu_layerwise_layout (int (length hs)) hs ws topo = Inr L"
    and fit: "bytes_fit ILU hs nb bs d (dtype_code t)" and "0 \<le> h0" and "0 \<le> budget"
    and "esz t = dtype_bytes (dtype_code t)" and "\<forall>t. 0 \<le> esz t"
    and "estimate_layerwise_kv_memory ILU L nb bs d mt (dtype_code t) ws = Inr est"
    and "r \<in> {0..<ws}"
  shows "\<exists>cs ok. worker_allocate_layerwise_kv_cache ILU (memory_fits esz budget) []
      (kv_base nb h0 bs d) \<lparr>opt_dtype = t, opt_num_layers = int (length hs)\<rparr> L r = Inr (cs, ok) \<and>
    (ok \<longleftrightarrow> per_rank_bytes est ! nat r \<le> budget) \<and>
    (ok \<longrightarrow> (\<Sum>c \<leftarrow> cs. kv_bytes esz c) = per_rank_bytes est ! nat r) \<and>
    (\<Sum>c \<leftarrow> cs. kv_bytes esz c) \<le> budget"
proof -
  let ?base = "kv_base nb h0 bs d" and ?opts = "\<lparr>opt_dtype = t, opt_num_layers = int (length hs)\<rparr>"
  let ?all = "rank_caches ILU ?base t L r" and ?fits = "memory_fits esz budget"
  let ?run = "allocate_kv_caches_layerwise ILU ?fits [] ?base ?opts L r"
  have n: "opt_num_layers ?opts = num_layers L"
    using ilu.provided_length[OF assms(1,2,4)] by simp
  have est: "per_rank_bytes est ! nat r = (\<Sum>c \<leftarrow> ?all. kv_bytes esz c)"
    using ilu.provided_bytes[OF assms(1,2,4,3) fit refl refl refl, of mt]
      assms(10,11) rank_bytes_transposed[of ILU esz t, OF _ assms(8) ilu.compute_sharded[OF assms(1,2,4)]]
    by (auto simp: nth_upto)
  have bound: "(\<Sum>c \<leftarrow> fst ?run. kv_bytes esz c) \<le> budget"
    by (rule ilu.provided_bounded[OF assms(1,2,4) _ n assms(7)]) simp
  show ?thesis
  proof (cases "(\<Sum>c \<leftarrow> ?all. kv_bytes esz c) \<le> budget")
    case True
    then have "?run = (?all, None)"
      using fit assms(6,9) by (intro ilu.provided_fits[OF assms(1,2,4) _ n]) (simp_all add: bytes_fit_def)
    then show ?thesis
      using True est ilu.provided_verified[OF assms(1,2,4), of ?base r ILU t]
      by (intro exI[of _ ?all] exI[of _ True]) (simp add: worker_allocate_layerwise_kv_cache_def)
  next
    case False
    then have "?run \<noteq> (?all, None)" using bound by auto
    then obtain k m where "?run = (take k ?all, Some (Exn m))"
      using ilu.provided_allocation[OF assms(1,2,4) _ n refl, of ?base ILU ?fits r] by auto
    then show ?thesis
      using False est bound
      by (intro exI[of _ "take k ?all"] exI[of _ False]) (simp add: worker_allocate_layerwise_kv_cache_def)
  qed
qed

text \<open>
  C23: without a value cache (a model with latent attention keeps keys only) the worker
  reports failure on every rank that holds heads, although the allocation succeeded: a
  cache without a value tensor counts as empty. The caches stay in the worker, so calling
  it again aborts the process.
\<close>

theorem worker_rejects_key_only_caches:
  assumes "rank_count ws" and "positive_heads hs"
    and "compute_ilu_layerwise_layout (int (length hs)) hs ws topo = Inr L"
    and "base_ok base" and "value_cache_shape_opt base = None"
    and "opt_num_layers opts = int (length hs)"
    and "lid < length hs" and "heads_for_rank L r (int lid) = Inr h" and "h \<noteq> 0"
  shows "\<exists>cs. allocate_kv_caches_layerwise plat (\<lambda>_ _ _. True) [] base opts L r = (cs, None) \<and>
    worker_allocate_layerwise_kv_cache plat (\<lambda>_ _ _. True) [] base opts L r = Inr (cs, False) \<and>
    worker_allocate_layerwise_kv_cache plat fits cs base opts L r
      = Inl (Abort ''KV caches already initialized.'')"
proof -
  let ?all = "rank_caches plat base (opt_dtype opts) L r" and ?true = "\<lambda>_ _ _. True"
  have n: "num_layers L = int (length hs)" by (rule ilu.provided_length[OF assms(1-3)])
  have len: "length (specs L) = length hs" using n by (simp add: num_layers_def)
  obtain k where k: "key_cache_shape_opt base = Some k" using assms(4) by (blast elim: base_okE)
  let ?g = "\<lambda>lid. cache_for plat base (opt_dtype opts) (shard_heads r (specs L ! nat lid))"
  have "allocate_loop (allocate_layer plat ?true base opts L r) [0..num_layers L - 1] [] = ([] @ ?all, None)"
  proof (rule allocate_loop_steps)
    fix i assume i: "i < length [0..num_layers L - 1]"
    then have "[0..num_layers L - 1] ! i \<in> set [0..num_layers L - 1]" by simp
    from allocate_layer_eq[OF ilu.provided_layer[OF assms(1-3) this] assms(4) k refl] i
    show "allocate_layer plat ?true base opts L r ([] @ take i ?all) ([0..num_layers L - 1] ! i)
        = Inr (?all ! i)"
      by (simp add: assms(5) nth_upto rank_caches_def num_layers_def)
  qed (simp add: rank_caches_def num_layers_def)
  then have run: "allocate_kv_caches_layerwise plat ?true [] base opts L r = (?all, None)"
    by (simp add: allocate_kv_caches_layerwise_def assms(6) n len rank_caches_def)
  have owned: "rank_owns_layer L r i = Inr (\<not> 0 = shard_heads r (specs L ! nat i))"
    if "i \<in> set [0..num_layers L - 1]" for i
    using ilu.provided_layer[OF assms(1-3) that, of r] by auto
  have empty: "kv_empty (?all ! i)" if "i < length hs" for i
    using that by (simp add: rank_caches_def len cache_for_def assms(5) split: option.split)
  have "verify_caches L r ?all (pre @ [int lid] @ post) = Inr False"
    if "set (pre @ [int lid] @ post) \<subseteq> set [0..num_layers L - 1]" for pre post
    using that
  proof (induction pre)
    case Nil
    then show ?case
      using owned[of "int lid"] empty[of lid] assms(7-9) ilu.provided_layer(2)[OF assms(1-3), of "int lid" r] n
      by (simp add: Let_def rank_caches_def len)
  next
    case (Cons i pre)
    moreover from Cons.prems have "0 \<le> i" "i < int (length hs)" using n by auto
    ultimately show ?case
      using owned[of i] empty[of "nat i"] by (simp add: Let_def rank_caches_def len nat_less_iff)
  qed
  moreover obtain pre post where "[0..num_layers L - 1] = pre @ [int lid] @ post"
    using split_list[of "int lid" "[0..num_layers L - 1]"] assms(7) n by auto
  ultimately have "verify_caches L r ?all [0..num_layers L - 1] = Inr False" by force
  then have fails: "worker_allocate_layerwise_kv_cache plat ?true [] base opts L r = Inr (?all, False)"
    by (simp add: worker_allocate_layerwise_kv_cache_def run)
  have "?all \<noteq> []" using assms(7) len by (auto simp: rank_caches_def)
  then have "worker_allocate_layerwise_kv_cache plat fits ?all base opts L r
      = Inl (Abort ''KV caches already initialized.'')"
    by (simp add: worker_allocate_layerwise_kv_cache_def allocate_kv_caches_layerwise_def)
  with run fails show ?thesis by blast
qed

text \<open>
  C24: on MLU the allocator pads \<^verbatim>\<open>head_dim\<close> and the estimator does not, so for a
  \<^verbatim>\<open>head_dim\<close> that is not a multiple of the warp every rank that holds heads allocates
  more than it was charged.
\<close>

theorem mlu_estimate_too_low:
  assumes "rank_count ws" and "positive_heads hs" and "hs \<noteq> []"
    and "compute_ilu_layerwise_layout (int (length hs)) hs ws topo = Inr L"
    and "0 < nb" and "0 < bs" and "0 \<le> d" and "\<not> 64 dvd d"
    and "esz t = dtype_bytes (dtype_code t)"
    and "estimate_layerwise_kv_memory MLU L nb bs d mt (dtype_code t) ws = Inr est"
    and "r \<in> {0..<ws}" and "rank_in_spec r s" and "s \<in> set (specs L)"
    and "allocate_kv_caches_layerwise MLU fits [] (kv_base nb h0 bs d)
      \<lparr>opt_dtype = t, opt_num_layers = int (length hs)\<rparr> L r = (cs, None)"
  shows "per_rank_bytes est ! nat r < (\<Sum>c \<leftarrow> cs. kv_bytes esz c)"
proof -
  have n: "num_layers L = int (length hs)" by (rule ilu.provided_length[OF assms(1,2,4)])
  have shards: "list_all2 (sharded ws) hs (specs L)" by (rule ilu.compute_sharded[OF assms(1,2,4)])
  have "cs = rank_caches MLU (kv_base nb h0 bs d) t L r"
    using ilu.provided_allocation[OF assms(1,2,4), of "kv_base nb h0 bs d"
      "\<lparr>opt_dtype = t, opt_num_layers = int (length hs)\<rparr>" _ MLU r fits] assms(14) n by auto
  then have bytes: "(\<Sum>c \<leftarrow> cs. kv_bytes esz c)
      = kv_unit ILU nb bs d (dtype_code t) * rank_heads (specs L) r"
    using rank_bytes_transposed[of MLU esz t, OF _ assms(9) shards] by simp
  let ?bytes = "kv_unit MLU nb bs d (dtype_code t) * rank_heads (specs L) r"
  have "per_rank_bytes est ! nat r = int64 ?bytes"
    using ilu.provided_estimate[OF assms(1,2,4,3) refl refl refl, of MLU nb bs d mt "dtype_code t"]
      assms(10,11) by (auto simp: nth_upto code_unit_eq)
  moreover have "0 \<le> ?bytes"
    using kv_unit_nonneg[of nb bs d MLU] assms(5-7) ilu.provided_rank_heads_le(1)[OF assms(1,2,4,11)]
    by simp
  ultimately have est: "per_rank_bytes est ! nat r \<le> ?bytes" by (simp add: int64_le)
  have "d < align_up d kWarpSize"
    using align_up_ge[of kWarpSize d] align_up_multiple[of kWarpSize d] assms(7,8)
    by (cases "d = align_up d kWarpSize") (auto simp: kWarpSize_def)
  then have unit: "kv_unit MLU nb bs d (dtype_code t) < kv_unit ILU nb bs d (dtype_code t)"
    using assms(5,6) dtype_bytes_pos[of "dtype_code t"] by (simp add: kv_unit_def padded_dim_def)
  obtain kv where "sharded ws kv s"
    using shards assms(13) by (auto simp: list_all2_conv_all_nth in_set_conv_nth)
  then have "0 < shard_heads r s" using assms(12) shard_heads_pos by simp
  also have "\<dots> \<le> rank_heads (specs L) r"
    unfolding rank_heads_def using assms(13) shards shard_heads_nonneg[of ws _ _ r]
    by (intro member_le_sum_list) (auto simp: list_all2_conv_all_nth in_set_conv_nth, blast)
  finally have "?bytes < (\<Sum>c \<leftarrow> cs. kv_bytes esz c)" using unit by (simp add: bytes)
  with est show ?thesis by simp
qed

section \<open>Witnesses\<close>

theorem allocated_shapes_witness:
  "\<exists>L cs. compute_ilu_layerwise_layout 2 [8, 2] 4 kFlatPIX = Inr L \<and>
    allocate_kv_caches_layerwise ILU (\<lambda>_ _ _. True) [] (kv_base 10 8 16 96)
      \<lparr>opt_dtype = kHalf, opt_num_layers = 2\<rparr> L 3 = (cs, None) \<and> length cs = 2"
proof -
  have "snd (allocate_kv_caches_layerwise ILU (\<lambda>_ _ _. True) [] (kv_base 10 8 16 96)
      \<lparr>opt_dtype = kHalf, opt_num_layers = 2\<rparr> \<lparr>specs = shards 4 0 0 [8, 2]\<rparr> 3) = None"
    by code_simp
  then obtain cs where run: "allocate_kv_caches_layerwise ILU (\<lambda>_ _ _. True) [] (kv_base 10 8 16 96)
      \<lparr>opt_dtype = kHalf, opt_num_layers = 2\<rparr> \<lparr>specs = shards 4 0 0 [8, 2]\<rparr> 3 = (cs, None)"
    by (metis prod.collapse)
  from allocated_shapes[OF sample_heads(1,2) sample_layout _ run] sample_layout run
  show ?thesis by auto
qed

theorem worker_succeeds_iff_estimate_fits_witness:
  "\<exists>L cs. compute_ilu_layerwise_layout 2 [8, 2] 4 kFlatPIX = Inr L \<and>
    worker_allocate_layerwise_kv_cache ILU (memory_fits (\<lambda>_. 2) 49152) [] (kv_base 2 8 16 96)
      \<lparr>opt_dtype = kHalf, opt_num_layers = 2\<rparr> L 0 = Inr (cs, True)"
proof -
  let ?L = "\<lparr>specs = shards 4 0 0 [8, 2]\<rparr>"
  let ?est = "estimate_layerwise_kv_memory ILU ?L 2 16 96 0 (dtype_code kHalf) 4"
  have "\<not> isl ?est" "per_rank_bytes (projr ?est) ! 0 = 49152" by code_simp+
  then obtain est where est: "?est = Inr est" "per_rank_bytes est ! 0 = 49152"
    by (metis sum.collapse(2) sum.sel(2))
  have "(2 :: int) = dtype_bytes (dtype_code kHalf)" by (simp add: dtype_bytes_def)
  with worker_succeeds_iff_estimate_fits[OF sample_heads sample_layout _ _ _ _ _ est(1),
      of 8 49152 "\<lambda>_. 2" 0] est(2) sample_layout sample_fit
  show ?thesis by auto
qed

theorem worker_rejects_key_only_caches_witness:
  "\<exists>L cs. compute_ilu_layerwise_layout 2 [8, 2] 4 kFlatPIX = Inr L \<and>
    worker_allocate_layerwise_kv_cache MLU (\<lambda>_ _ _. True) []
      ((kv_base 10 8 16 96)\<lparr>value_cache_shape_opt := None\<rparr>)
      \<lparr>opt_dtype = kHalf, opt_num_layers = 2\<rparr> L 3 = Inr (cs, False)"
proof -
  have "heads_for_rank \<lparr>specs = shards 4 0 0 [8, 2]\<rparr> 3 (int 0) = Inr 2" by code_simp
  with worker_rejects_key_only_caches[OF sample_heads(1,2) sample_layout,
      of "(kv_base 10 8 16 96)\<lparr>value_cache_shape_opt := None\<rparr>"
        "\<lparr>opt_dtype = kHalf, opt_num_layers = 2\<rparr>" 0 3 2 MLU] sample_layout
  show ?thesis by (auto simp: base_ok_def)
qed

theorem mlu_estimate_too_low_witness:
  "\<exists>L est cs. compute_ilu_layerwise_layout 2 [8, 2] 4 kFlatPIX = Inr L \<and>
    estimate_layerwise_kv_memory MLU L 2 16 96 0 5 4 = Inr est \<and>
    allocate_kv_caches_layerwise MLU (\<lambda>_ _ _. True) [] (kv_base 2 8 16 96)
      \<lparr>opt_dtype = kHalf, opt_num_layers = 2\<rparr> L 3 = (cs, None) \<and>
    per_rank_bytes est ! 3 < (\<Sum>c \<leftarrow> cs. kv_bytes (\<lambda>_. 2) c)"
proof -
  let ?L = "\<lparr>specs = shards 4 0 0 [8, 2]\<rparr>"
  let ?est = "estimate_layerwise_kv_memory MLU ?L 2 16 96 0 (dtype_code kHalf) 4"
  let ?run = "allocate_kv_caches_layerwise MLU (\<lambda>_ _ _. True) [] (kv_base 2 8 16 96)
      \<lparr>opt_dtype = kHalf, opt_num_layers = int (length [8, 2 :: int])\<rparr> ?L 3"
  have "\<not> isl ?est" by code_simp
  then obtain est where est: "?est = Inr est" by (metis sum.collapse(2))
  have "snd ?run = None" by code_simp
  then obtain cs where run: "?run = (cs, None)" by (metis prod.collapse)
  have owned: "rank_in_spec 3 (specs ?L ! 0)" "specs ?L ! 0 \<in> set (specs ?L)" by code_simp+
  have "per_rank_bytes est ! nat 3 < (\<Sum>c \<leftarrow> cs. kv_bytes (\<lambda>_. 2) c)"
    by (rule mlu_estimate_too_low[OF sample_heads sample_layout _ _ _ _ _ est _ owned run])
       (simp_all add: dtype_bytes_def)
  then show ?thesis
    using est run sample_layout by (intro exI[of _ ?L] exI[of _ est] exI[of _ cs]) simp
qed

end
