(* ===== verification/Ex_Registry.thy ===== *)
theory Ex_Registry
  imports Complex_Main Prelude
begin

text \<open>
  The EX engine's registry of dynamically loaded kernels
  (\<^verbatim>\<open>ex_engine/include/ex_engine.h\<close>, \<^verbatim>\<open>ex_engine/csrc/ex_registry.c\<close>): initialisation,
  loading one factor library or a directory of them, dispatch, and destruction.

  A pointer argument is an \<open>option\<close>, \<open>None\<close> for \<^verbatim>\<open>NULL\<close>. The dynamic linker and the directory
  are the environment's: \<open>env\<close> says what \<^verbatim>\<open>dlopen\<close>, \<^verbatim>\<open>dlsym\<close> and \<^verbatim>\<open>opendir\<close> return, and the
  state of the linker is the number of times each handle is held open. A kernel is a
  function from its arguments and the device memory \<open>'m\<close> to its return code and the memory
  it leaves.
\<close>

section \<open>ex\_engine.h\<close>

record ex_hardware_t =
  sm_major :: int
  sm_minor :: int
  sm_count :: int
  max_threads_per_sm :: int
  shared_mem_per_sm :: int
  l2_cache_size :: int
  memory_bus_width :: int
  memory_bandwidth :: rat

record ex_tuning_t =
  threads_per_block :: int
  items_per_thread :: int
  vec_size :: int
  shared_mem_bytes :: int
  num_warps :: int
  num_stages :: int

datatype ex_factor_id_t =
    EX_FACTOR_MOE_TOPK_SOFTMAX | EX_FACTOR_MOE_ALIGN_BLOCK | EX_FACTOR_MOE_FUSED_GEMM
  | EX_FACTOR_GELU_TANH_MUL | EX_FACTOR_BATCHED_ROTARY
  | EX_FACTOR_GDN_CHUNK_FWD | EX_FACTOR_GDN_RECURRENT
  | EX_FACTOR_CACHE_APPEND | EX_FACTOR_RESHAPE_CACHE_FLASH

fun factor_code :: "ex_factor_id_t \<Rightarrow> int" where
  "factor_code EX_FACTOR_MOE_TOPK_SOFTMAX = 0"
| "factor_code EX_FACTOR_MOE_ALIGN_BLOCK = 1"
| "factor_code EX_FACTOR_MOE_FUSED_GEMM = 2"
| "factor_code EX_FACTOR_GELU_TANH_MUL = 3"
| "factor_code EX_FACTOR_BATCHED_ROTARY = 4"
| "factor_code EX_FACTOR_GDN_CHUNK_FWD = 5"
| "factor_code EX_FACTOR_GDN_RECURRENT = 6"
| "factor_code EX_FACTOR_CACHE_APPEND = 7"
| "factor_code EX_FACTOR_RESHAPE_CACHE_FLASH = 8"

definition EX_FACTOR_COUNT :: int where "EX_FACTOR_COUNT = 9"

text \<open>The arguments of a kernel: addresses, the dimensions and the stream.\<close>

record kernel_args =
  ka_output :: nat
  ka_input :: nat
  ka_aux_inputs :: "nat list"
  ka_n_aux :: int
  ka_dims :: "int list"
  ka_n_dims :: int
  ka_stream :: nat

type_synonym 'm ex_kernel_fn_t = "kernel_args \<Rightarrow> 'm \<Rightarrow> int \<times> 'm"

text \<open>An enum field of a foreign library can hold any integer, so \<open>factor_id\<close> is one.\<close>

record 'm ex_factor_t =
  factor_id :: int
  factor_name :: string
  factor_version :: string
  tuning :: ex_tuning_t
  kernel :: "'m ex_kernel_fn_t option"
  kernel_fallback :: "'m ex_kernel_fn_t option"

type_synonym 'm ex_get_factor_fn_t = "ex_hardware_t \<Rightarrow> 'm ex_factor_t option"

record 'm ex_registry_t =
  factors :: "'m ex_factor_t option list"
  handles :: "nat option list"
  hardware :: ex_hardware_t
  loaded_count :: int

definition ex_bi_v100_hardware :: ex_hardware_t where
  "ex_bi_v100_hardware =
     \<lparr>sm_major = 7, sm_minor = 0, sm_count = 16, max_threads_per_sm = 2048,
      shared_mem_per_sm = 49152, l2_cache_size = 6 * 1024 * 1024,
      memory_bus_width = 4096, memory_bandwidth = 900\<rparr>"

section \<open>The environment\<close>

record 'm dl_env =
  env_dlopen :: "string \<Rightarrow> nat option"
  env_dlsym :: "nat \<Rightarrow> 'm ex_get_factor_fn_t option"
  env_readdir :: "string \<Rightarrow> string list option"

type_synonym dl_state = "nat \<Rightarrow> int"

definition dl_acquire :: "nat \<Rightarrow> dl_state \<Rightarrow> dl_state" where
  "dl_acquire h s = s(h := s h + 1)"

definition dlclose :: "nat \<Rightarrow> dl_state \<Rightarrow> dl_state" where
  "dlclose h s = s(h := s h - 1)"

section \<open>ex\_registry.c\<close>

definition ex_registry_init ::
    "'m ex_registry_t option \<Rightarrow> ex_hardware_t option \<Rightarrow> int \<times> 'm ex_registry_t option" where
  "ex_registry_init reg hw =
     (case (reg, hw) of
        (Some r, Some h) \<Rightarrow>
          (0, Some \<lparr>factors = replicate 9 None, handles = replicate 9 None,
                    hardware = h, loaded_count = 0\<rparr>)
      | _ \<Rightarrow> (-1, reg))"

definition ex_registry_load ::
    "'m dl_env \<Rightarrow> 'm ex_registry_t option \<Rightarrow> int \<Rightarrow> string option \<Rightarrow> dl_state
     \<Rightarrow> int \<times> 'm ex_registry_t option \<times> dl_state" where
  "ex_registry_load env reg fid so_path s =
     (case (reg, so_path) of
        (Some r, Some path) \<Rightarrow>
          if fid < 0 \<or> fid \<ge> EX_FACTOR_COUNT then (-1, reg, s)
          else
            let (r1, s1) =
              (case handles r ! nat fid of
                 Some h \<Rightarrow>
                   (r\<lparr>handles := (handles r)[nat fid := None], factors := (factors r)[nat fid := None]\<rparr>,
                    dlclose h s)
               | None \<Rightarrow> (r, s)) in
            (case env_dlopen env path of
               None \<Rightarrow> (-1, Some r1, s1)
             | Some handle \<Rightarrow>
                 let s2 = dl_acquire handle s1 in
                 (case env_dlsym env handle of
                    None \<Rightarrow> (-1, Some r1, dlclose handle s2)
                  | Some get_factor \<Rightarrow>
                      (case get_factor (hardware r1) of
                         None \<Rightarrow> (-1, Some r1, dlclose handle s2)
                       | Some factor \<Rightarrow>
                           if factor_id factor \<noteq> fid then (-1, Some r1, dlclose handle s2)
                           else
                             (0, Some (r1\<lparr>handles := (handles r1)[nat fid := Some handle],
                                          factors := (factors r1)[nat fid := Some factor],
                                          loaded_count := loaded_count r1 + 1\<rparr>), s2))))
      | _ \<Rightarrow> (-1, reg, s))"

text \<open>
  \<^verbatim>\<open>sscanf(name, "ex_factor_%d.so", &id) == 1\<close>: the literal prefix, then white space, an
  optional sign and decimal digits. The conversion count is 1 as soon as the digits are read;
  what follows them does not change it. A number outside \<^verbatim>\<open>int\<close> is undefined behaviour.
\<close>

definition is_space :: "char \<Rightarrow> bool" where
  "is_space c \<longleftrightarrow> of_char c \<in> {9, 10, 11, 12, 13, 32 :: nat}"

definition is_digit :: "char \<Rightarrow> bool" where
  "is_digit c \<longleftrightarrow> 48 \<le> (of_char c :: nat) \<and> (of_char c :: nat) \<le> 57"

definition digit_value :: "char \<Rightarrow> int" where
  "digit_value c = of_char c - 48"

definition decimal :: "string \<Rightarrow> int" where
  "decimal ds = foldl (\<lambda>n c. 10 * n + digit_value c) 0 ds"

definition scan_digits :: "int \<Rightarrow> string \<Rightarrow> int option" where
  "scan_digits sign t =
     (let ds = takeWhile is_digit t in if ds = [] then None else Some (sign * decimal ds))"

definition scan_int :: "string \<Rightarrow> int option" where
  "scan_int s =
     (case dropWhile is_space s of
        [] \<Rightarrow> None
      | c # t \<Rightarrow>
          if c = CHR ''-'' then scan_digits (-1) t
          else if c = CHR ''+'' then scan_digits 1 t
          else scan_digits 1 (c # t))"

definition factor_prefix :: string where "factor_prefix = ''ex_factor_''"

definition scan_factor_id :: "string \<Rightarrow> int option" where
  "scan_factor_id name =
     (if take 10 name = factor_prefix then scan_int (drop 10 name) else None)"

definition int_range :: "int \<Rightarrow> bool" where
  "int_range n \<longleftrightarrow> - (2 ^ 31) \<le> n \<and> n < 2 ^ 31"

text \<open>\<^verbatim>\<open>snprintf\<close> into 1024 bytes keeps 1023 characters.\<close>

definition factor_path :: "string \<Rightarrow> string \<Rightarrow> string" where
  "factor_path dir_path name = take 1023 (dir_path @ ''/'' @ name)"

fun load_entries ::
    "'m dl_env \<Rightarrow> string \<Rightarrow> string list \<Rightarrow> int \<times> 'm ex_registry_t \<times> dl_state
     \<Rightarrow> (int \<times> 'm ex_registry_t \<times> dl_state) result" where
  "load_entries env dir_path [] st = Inr st"
| "load_entries env dir_path (name # names) (loaded, r, s) =
     (case scan_factor_id name of
        None \<Rightarrow> load_entries env dir_path names (loaded, r, s)
      | Some fid \<Rightarrow>
          if \<not> int_range fid then Inl (Undefined ''sscanf %d'')
          else if fid \<ge> 0 \<and> fid < EX_FACTOR_COUNT then
            (case ex_registry_load env (Some r) fid (Some (factor_path dir_path name)) s of
               (rc, Some r', s') \<Rightarrow>
                 load_entries env dir_path names (if rc = 0 then loaded + 1 else loaded, r', s')
             | (rc, None, s') \<Rightarrow> Inl (Undefined ''registry pointer''))
          else load_entries env dir_path names (loaded, r, s))"

definition ex_registry_load_dir ::
    "'m dl_env \<Rightarrow> 'm ex_registry_t option \<Rightarrow> string option \<Rightarrow> dl_state
     \<Rightarrow> (int \<times> 'm ex_registry_t option \<times> dl_state) result" where
  "ex_registry_load_dir env reg dir_path s =
     (case (reg, dir_path) of
        (Some r, Some path) \<Rightarrow>
          (case env_readdir env path of
             None \<Rightarrow> Inr (-1, reg, s)
           | Some names \<Rightarrow>
               rbind (load_entries env path names (0, r, s)) (\<lambda>(loaded, r', s').
               Inr (loaded, Some r', s')))
      | _ \<Rightarrow> Inr (-1, reg, s))"

definition ex_dispatch ::
    "'m ex_registry_t option \<Rightarrow> int \<Rightarrow> kernel_args \<Rightarrow> 'm \<Rightarrow> int \<times> 'm" where
  "ex_dispatch reg fid args m =
     (case reg of
        None \<Rightarrow> (-1, m)
      | Some r \<Rightarrow>
          if fid < 0 \<or> fid \<ge> EX_FACTOR_COUNT then (-1, m)
          else
            (case factors r ! nat fid of
               None \<Rightarrow> (-1, m)
             | Some factor \<Rightarrow>
                 (case kernel factor of None \<Rightarrow> (-1, m) | Some k \<Rightarrow> k args m)))"

text \<open>The loop over the slots, closing every handle.\<close>

fun close_slots ::
    "nat list \<Rightarrow> 'm ex_registry_t \<times> dl_state \<Rightarrow> 'm ex_registry_t \<times> dl_state" where
  "close_slots [] st = st"
| "close_slots (i # is) (r, s) =
     close_slots is
       (case handles r ! i of
          Some h \<Rightarrow> (r\<lparr>handles := (handles r)[i := None], factors := (factors r)[i := None]\<rparr>, dlclose h s)
        | None \<Rightarrow> (r\<lparr>factors := (factors r)[i := None]\<rparr>, s))"

definition ex_registry_destroy ::
    "'m ex_registry_t option \<Rightarrow> dl_state \<Rightarrow> 'm ex_registry_t option \<times> dl_state" where
  "ex_registry_destroy reg s =
     (case reg of
        None \<Rightarrow> (None, s)
      | Some r \<Rightarrow>
          let (r', s') = close_slots [0..<9] (r, s) in (Some (r'\<lparr>loaded_count := 0\<rparr>), s'))"

section \<open>Counting the holders of a handle\<close>

text \<open>
  The contract of a table of reference counts, as the registry uses the dynamic linker:
  acquiring a handle adds one holder to it, releasing it takes one away, and nothing else
  changes. The registry's balance is proved from these two laws.
\<close>

locale ref_table =
  fixes acquire release :: "nat \<Rightarrow> 's \<Rightarrow> 's"
    and holders :: "'s \<Rightarrow> nat \<Rightarrow> int"
  assumes holders_acquire: "holders (acquire h s) k = holders s k + of_bool (k = h)"
    and holders_release: "holders (release h s) k = holders s k - of_bool (k = h)"
begin

text \<open>\<open>balanced base hs s\<close>: beyond \<open>base\<close>, each handle is held once per slot that stores it.\<close>

definition balanced :: "(nat \<Rightarrow> int) \<Rightarrow> nat option list \<Rightarrow> 's \<Rightarrow> bool" where
  "balanced base hs s \<longleftrightarrow> (\<forall>k. holders s k = base k + int (count_list hs (Some k)))"

lemma balanced_acquire_release:
  "balanced base hs s \<Longrightarrow> balanced base hs (release h (acquire h s))"
  by (simp add: balanced_def holders_acquire holders_release)

lemma balanced_store:
  "balanced base hs s \<Longrightarrow> i < length hs \<Longrightarrow> hs ! i = None \<Longrightarrow>
   balanced base (hs[i := Some h]) (acquire h s)"
  by (auto simp: balanced_def holders_acquire count_list_update)

lemma balanced_clear:
  "balanced base hs s \<Longrightarrow> i < length hs \<Longrightarrow> hs ! i = Some h \<Longrightarrow>
   balanced base (hs[i := None]) (release h s)"
  by (auto simp: balanced_def holders_release count_list_update)

lemma balanced_empty:
  "balanced base hs s \<Longrightarrow> set hs \<subseteq> {None} \<Longrightarrow> holders s = base"
proof
  fix k
  assume "balanced base hs s" "set hs \<subseteq> {None}"
  moreover from this(2) have "count_list hs (Some k) = 0" by (intro count_notin) auto
  ultimately show "holders s k = base k" by (simp add: balanced_def)
qed

end

interpretation dl: ref_table dl_acquire dlclose "\<lambda>s. s"
  by unfold_locales (simp_all add: dl_acquire_def dlclose_def)

section \<open>The registry invariant\<close>

text \<open>
  Nine slots; a slot has a factor exactly when it has a handle, and then the factor is the
  one that library's \<^verbatim>\<open>ex_get_factor\<close> returns for the registry's hardware, with the slot's
  own number; no more slots are filled than \<^verbatim>\<open>loaded_count\<close> says.
\<close>

definition slot_ok :: "'m dl_env \<Rightarrow> ex_hardware_t \<Rightarrow> nat \<Rightarrow> nat option \<Rightarrow> 'm ex_factor_t option \<Rightarrow> bool" where
  "slot_ok env hw i h f \<longleftrightarrow>
     (case (h, f) of
        (None, None) \<Rightarrow> True
      | (Some handle, Some factor) \<Rightarrow>
          factor_id factor = int i \<and>
          (case env_dlsym env handle of None \<Rightarrow> False | Some get \<Rightarrow> get hw = Some factor)
      | _ \<Rightarrow> False)"

definition filled :: "'m ex_registry_t \<Rightarrow> int" where
  "filled r = int (length (filter (\<lambda>h. h \<noteq> None) (handles r)))"

definition registry_ok :: "'m dl_env \<Rightarrow> 'm ex_registry_t \<Rightarrow> bool" where
  "registry_ok env r \<longleftrightarrow>
     length (handles r) = 9 \<and> length (factors r) = 9 \<and>
     (\<forall>i < 9. slot_ok env (hardware r) i (handles r ! i) (factors r ! i)) \<and>
     filled r \<le> loaded_count r"

lemma slot_ok_simps [simp]:
  "slot_ok env hw i None None"
  "slot_ok env hw i None f \<longleftrightarrow> f = None"
  "slot_ok env hw i h None \<longleftrightarrow> h = None"
  by (auto simp: slot_ok_def split: option.splits)

text \<open>Emptying a slot, and filling an empty one.\<close>

definition close_slot :: "nat \<Rightarrow> 'm ex_registry_t \<times> dl_state \<Rightarrow> 'm ex_registry_t \<times> dl_state" where
  "close_slot i st =
     (case handles (fst st) ! i of
        Some h \<Rightarrow> ((fst st)\<lparr>handles := (handles (fst st))[i := None],
                              factors := (factors (fst st))[i := None]\<rparr>, dlclose h (snd st))
      | None \<Rightarrow> st)"

definition fill_slot :: "nat \<Rightarrow> nat \<Rightarrow> 'm ex_factor_t \<Rightarrow> 'm ex_registry_t \<Rightarrow> 'm ex_registry_t" where
  "fill_slot i h f r =
     r\<lparr>handles := (handles r)[i := Some h], factors := (factors r)[i := Some f],
       loaded_count := loaded_count r + 1\<rparr>"

lemma close_slot_ok:
  assumes "registry_ok env (fst st)" and "i < 9"
  shows "registry_ok env (fst (close_slot i st))"
    and "handles (fst (close_slot i st)) = (handles (fst st))[i := None]"
    and "factors (fst (close_slot i st)) = (factors (fst st))[i := None]"
    and "hardware (fst (close_slot i st)) = hardware (fst st)"
    and "loaded_count (fst (close_slot i st)) = loaded_count (fst st)"
proof -
  have slot: "slot_ok env (hardware (fst st)) i (handles (fst st) ! i) (factors (fst st) ! i)"
    using assms by (simp add: registry_ok_def)
  show "handles (fst (close_slot i st)) = (handles (fst st))[i := None]"
    "factors (fst (close_slot i st)) = (factors (fst st))[i := None]"
    using slot by (auto simp: close_slot_def list_update_same_conv[symmetric] split: option.split)
      (metis list_update_id)+
  show "hardware (fst (close_slot i st)) = hardware (fst st)"
    "loaded_count (fst (close_slot i st)) = loaded_count (fst st)"
    by (simp_all add: close_slot_def split: option.split)
  show "registry_ok env (fst (close_slot i st))"
    using assms by (auto simp: close_slot_def registry_ok_def filled_def filter_update_length
        nth_list_update split: option.split)
qed

lemma close_slot_balanced:
  "dl.balanced base (handles (fst st)) (snd st) \<Longrightarrow> i < length (handles (fst st)) \<Longrightarrow>
   dl.balanced base (handles (fst (close_slot i st))) (snd (close_slot i st))"
  using dl.balanced_clear[of base "handles (fst st)" "snd st" i]
  by (simp add: close_slot_def split: option.split)

lemma fill_slot_ok:
  assumes "registry_ok env r" and "i < 9" and "handles r ! i = None"
    and "env_dlsym env h = Some get" and "get (hardware r) = Some f" and "factor_id f = int i"
  shows "registry_ok env (fill_slot i h f r)"
  using assms by (auto simp: registry_ok_def fill_slot_def filled_def filter_update_length
      nth_list_update slot_ok_def)

section \<open>Loading\<close>

text \<open>The library at \<open>path\<close> offers factor \<open>fid\<close> for this hardware.\<close>

definition loadable :: "'m dl_env \<Rightarrow> ex_hardware_t \<Rightarrow> int \<Rightarrow> string \<Rightarrow> (nat \<times> 'm ex_factor_t) option" where
  "loadable env hw fid path =
     (case env_dlopen env path of
        None \<Rightarrow> None
      | Some h \<Rightarrow>
          (case env_dlsym env h of
             None \<Rightarrow> None
           | Some get \<Rightarrow>
               (case get hw of
                  None \<Rightarrow> None
                | Some f \<Rightarrow> if factor_id f = fid then Some (h, f) else None)))"

definition valid_id :: "int \<Rightarrow> bool" where
  "valid_id fid \<longleftrightarrow> 0 \<le> fid \<and> fid < EX_FACTOR_COUNT"

lemma valid_id_nat: "valid_id fid \<Longrightarrow> nat fid < 9"
  by (auto simp: valid_id_def EX_FACTOR_COUNT_def nat_less_iff)

lemma dlclose_acquire [simp]: "dlclose h (dl_acquire h s) = s"
  by (auto simp: dlclose_def dl_acquire_def)

lemma load_eq:
  assumes "valid_id fid" and "st = close_slot (nat fid) (r, s)"
  shows "ex_registry_load env (Some r) fid (Some path) s =
    (case loadable env (hardware r) fid path of
       None \<Rightarrow> (-1, Some (fst st), snd st)
     | Some (h, f) \<Rightarrow> (0, Some (fill_slot (nat fid) h f (fst st)), dl_acquire h (snd st)))"
proof -
  have hw: "hardware (fst st) = hardware r"
    by (simp add: assms(2) close_slot_def split: option.split)
  have st: "st = (case handles r ! nat fid of
      Some h \<Rightarrow> (r\<lparr>handles := (handles r)[nat fid := None], factors := (factors r)[nat fid := None]\<rparr>,
                 dlclose h s)
    | None \<Rightarrow> (r, s))"
    by (simp add: assms(2) close_slot_def split: option.split)
  show ?thesis
    using assms(1) hw
    unfolding ex_registry_load_def loadable_def fill_slot_def option.case prod.case st[symmetric]
    by (cases st) (auto simp: valid_id_def Let_def split: option.split)
qed

definition reg_good :: "'m dl_env \<Rightarrow> (nat \<Rightarrow> int) \<Rightarrow> 'm ex_registry_t \<times> dl_state \<Rightarrow> bool" where
  "reg_good env base st \<longleftrightarrow>
     registry_ok env (fst st) \<and> dl.balanced base (handles (fst st)) (snd st)"

lemma close_slot_good:
  "reg_good env base st \<Longrightarrow> i < 9 \<Longrightarrow> reg_good env base (close_slot i st)"
  using close_slot_ok(1)[of env st i] close_slot_balanced[of base st i]
  by (simp add: reg_good_def registry_ok_def)

lemma loadableD:
  "loadable env hw fid path = Some (h, f) \<Longrightarrow>
   \<exists>get. env_dlopen env path = Some h \<and> env_dlsym env h = Some get \<and> get hw = Some f \<and> factor_id f = fid"
  by (auto simp: loadable_def split: option.splits if_splits)

lemma load_good:
  assumes "reg_good env base (r, s)"
    and "ex_registry_load env (Some r) fid path s = (rc, reg', s')"
  shows "\<exists>r'. reg' = Some r' \<and> reg_good env base (r', s') \<and> hardware r' = hardware r"
proof (cases "\<exists>p. path = Some p \<and> valid_id fid")
  case False
  then show ?thesis using assms
    by (auto simp: ex_registry_load_def valid_id_def split: option.splits if_splits)
next
  case True
  then obtain p where p: "path = Some p" "valid_id fid" by blast
  then have i: "nat fid < 9" by (simp add: valid_id_nat)
  let ?st = "close_slot (nat fid) (r, s)"
  have good: "reg_good env base ?st" by (rule close_slot_good[OF assms(1) i])
  note ok = close_slot_ok[of env "(r, s)" "nat fid"]
  have hw: "hardware (fst ?st) = hardware r"
    using ok(4) assms(1) i by (simp add: reg_good_def)
  show ?thesis
  proof (cases "loadable env (hardware r) fid p")
    case None
    then show ?thesis using assms(2) p load_eq[OF p(2) refl, of env r p s] good hw by auto
  next
    case (Some hf)
    then obtain h f where hf: "loadable env (hardware r) fid p = Some (h, f)" by (cases hf) auto
    then obtain get where get: "env_dlsym env h = Some get" "get (hardware r) = Some f" "factor_id f = fid"
      by (auto dest: loadableD)
    have empty: "handles (fst ?st) ! nat fid = None"
      using ok(2) assms(1) i by (simp add: reg_good_def registry_ok_def)
    have "registry_ok env (fill_slot (nat fid) h f (fst ?st))"
      using good get hw p by (intro fill_slot_ok[OF _ i empty get(1)]) (auto simp: reg_good_def valid_id_def)
    moreover have "dl.balanced base (handles (fill_slot (nat fid) h f (fst ?st))) (dl_acquire h (snd ?st))"
      using good i empty by (auto simp: fill_slot_def reg_good_def registry_ok_def intro!: dl.balanced_store)
    moreover have "hardware (fill_slot (nat fid) h f (fst ?st)) = hardware r"
      by (simp add: fill_slot_def hw)
    ultimately show ?thesis
      using assms(2) p hf load_eq[OF p(2) refl, of env r p s] by (auto simp: reg_good_def)
  qed
qed

lemma load_count:
  assumes "registry_ok env r" and "ex_registry_load env (Some r) fid path s = (rc, Some r', s')"
  shows "loaded_count r' = loaded_count r + of_bool (rc = 0)"
proof (cases "\<exists>p. path = Some p \<and> valid_id fid")
  case False
  then show ?thesis using assms
    by (auto simp: ex_registry_load_def valid_id_def split: option.splits if_splits)
next
  case True
  then obtain p where p: "path = Some p" "valid_id fid" by blast
  have "loaded_count (fst (close_slot (nat fid) (r, s))) = loaded_count r"
    by (simp add: close_slot_def split: option.split)
  then show ?thesis
    using assms(2) p load_eq[OF p(2) refl, of env r p s]
    by (auto simp: fill_slot_def split: option.splits prod.splits)
qed

lemma load_entries_good:
  assumes "load_entries env dir_path names (n, r, s) = Inr (n', r', s')" and "reg_good env base (r, s)"
  shows "reg_good env base (r', s') \<and> hardware r' = hardware r \<and>
    loaded_count r' - loaded_count r = n' - n \<and> n \<le> n' \<and> n' \<le> n + int (length names)"
  using assms
proof (induction names arbitrary: n r s)
  case Nil
  then show ?case by auto
next
  case (Cons name names)
  consider "load_entries env dir_path names (n, r, s) = Inr (n', r', s')"
    | fid rc r1 s1 where
      "ex_registry_load env (Some r) fid (Some (factor_path dir_path name)) s = (rc, Some r1, s1)"
      "load_entries env dir_path names (if rc = 0 then n + 1 else n, r1, s1) = Inr (n', r', s')"
    using Cons.prems(1) by (auto split: option.splits if_splits prod.splits)
  then show ?case
  proof cases
    case 1
    from Cons.IH[OF this Cons.prems(2)] show ?thesis by auto
  next
    case 2
    have "reg_good env base (r1, s1)" "hardware r1 = hardware r"
      using load_good[OF Cons.prems(2) 2(1)] by auto
    with Cons.IH[OF 2(2)] load_count[OF _ 2(1)] Cons.prems(2) show ?thesis
      by (auto simp: reg_good_def split: if_splits)
  qed
qed

lemma load_dir_good:
  assumes "ex_registry_load_dir env (Some r) path s = Inr (rc, reg', s')" and "reg_good env base (r, s)"
  shows "\<exists>r'. reg' = Some r' \<and> reg_good env base (r', s') \<and> hardware r' = hardware r \<and>
    (rc \<noteq> -1 \<longrightarrow> 0 \<le> rc \<and> loaded_count r' = loaded_count r + rc)"
  using assms load_entries_good[OF _ assms(2)]
  by (auto simp: ex_registry_load_dir_def rbind_eq_Inr_iff split: option.splits) force+

section \<open>Destroying\<close>

lemma close_slots_eq:
  "reg_good env base st \<Longrightarrow> set is \<subseteq> {..<9} \<Longrightarrow> close_slots is st = fold close_slot is st"
proof (induction "is" arbitrary: st)
  case Nil
  then show ?case by simp
next
  case (Cons i "is")
  obtain r s where st: "st = (r, s)" by (cases st)
  have "slot_ok env (hardware r) i (handles r ! i) (factors r ! i)" "length (factors r) = 9"
    using Cons.prems st by (auto simp: reg_good_def registry_ok_def)
  then have "handles r ! i = None \<Longrightarrow> r\<lparr>factors := (factors r)[i := None]\<rparr> = r"
    by (metis (no_types, lifting) slot_ok_simps(2) list_update_id ex_registry_t.surjective
        ex_registry_t.update_convs(1))
  then have "close_slots (i # is) st = close_slots is (close_slot i st)"
    by (simp add: st close_slot_def split: option.split)
  moreover have "reg_good env base (close_slot i st)"
    using Cons.prems by (intro close_slot_good) auto
  ultimately show ?case using Cons by simp
qed

lemma close_all:
  assumes "reg_good env base st" and "set is \<subseteq> {..<9}"
  shows "reg_good env base (fold close_slot is st) \<and>
    (\<forall>i < 9. handles (fst (fold close_slot is st)) ! i
      = (if i \<in> set is then None else handles (fst st) ! i))"
  using assms
proof (induction "is" arbitrary: st)
  case Nil
  then show ?case by simp
next
  case (Cons i "is")
  have good: "reg_good env base (close_slot i st)"
    using Cons.prems by (intro close_slot_good) auto
  have "handles (fst (close_slot i st)) = (handles (fst st))[i := None]" "length (handles (fst st)) = 9"
    using close_slot_ok(2)[of env st i] Cons.prems by (auto simp: reg_good_def registry_ok_def)
  with Cons.IH[OF good] Cons.prems show ?case by (auto simp: nth_list_update)
qed

lemma destroy_good:
  assumes "reg_good env base (r, s)"
  shows "\<exists>r'. ex_registry_destroy (Some r) s = (Some r', base) \<and>
    handles r' = replicate 9 None \<and> factors r' = replicate 9 None \<and> loaded_count r' = 0 \<and>
    hardware r' = hardware r"
proof -
  let ?st = "fold close_slot [0..<9] (r, s)"
  have sub: "set [0..<9] \<subseteq> {..<9}" by auto
  note all = close_all[OF assms sub]
  have hw: "hardware (fst (fold close_slot is st)) = hardware (fst st)" for "is" and st :: "'a ex_registry_t \<times> dl_state"
    by (induction "is" arbitrary: st) (simp_all add: close_slot_def split: option.split)
  have len: "length (handles (fst ?st)) = 9" "length (factors (fst ?st)) = 9"
    using all by (auto simp: reg_good_def registry_ok_def)
  have h: "handles (fst ?st) = replicate 9 None"
    using all len by (auto intro!: nth_equalityI)
  have f: "factors (fst ?st) = replicate 9 None"
  proof (rule nth_equalityI)
    fix i assume "i < length (factors (fst ?st))"
    then have i: "i < 9" using len by simp
    then have "slot_ok env (hardware (fst ?st)) i (handles (fst ?st) ! i) (factors (fst ?st) ! i)"
      using all unfolding reg_good_def registry_ok_def by blast
    then show "factors (fst ?st) ! i = replicate 9 None ! i" using h i by simp
  qed (simp add: len)
  have "(\<lambda>k. snd ?st k) = base"
    by (rule dl.balanced_empty[of base "handles (fst ?st)"]) (use all h in \<open>simp_all add: reg_good_def\<close>)
  then show ?thesis
    using close_slots_eq[OF assms sub] h f hw[of "[0..<9]" "(r, s)"]
    by (cases ?st) (simp add: ex_registry_destroy_def)
qed

section \<open>What a load does to the slots\<close>

lemma load_slots:
  assumes "registry_ok env r" and "valid_id fid"
    and "lib = loadable env (hardware r) fid path"
  shows "\<exists>r' s'. ex_registry_load env (Some r) fid (Some path) s
      = (if lib = None then -1 else 0, Some r', s') \<and>
    factors r' = (factors r)[nat fid := map_option snd lib] \<and>
    handles r' = (handles r)[nat fid := map_option fst lib]"
proof -
  have i: "nat fid < 9" by (rule valid_id_nat[OF assms(2)])
  have "registry_ok env (fst (r, s))" using assms(1) by simp
  note ok = close_slot_ok[OF this i]
  show ?thesis
    using load_eq[OF assms(2) refl, of env r path s] ok(2,3) assms(3)
    by (cases lib) (auto simp: fill_slot_def)
qed

lemma load_entries_last:
  assumes "load_entries env dir_path names (n, r, s) = Inr (n', r', s')"
    and "reg_good env base (r, s)" and "i < 9"
    and "ns = filter (\<lambda>nm. scan_factor_id nm = Some (int i)) names"
  shows "factors r' ! i = (if ns = [] then factors r ! i
    else map_option snd (loadable env (hardware r) (int i) (factor_path dir_path (last ns))))"
  using assms
proof (induction names arbitrary: n r s ns)
  case Nil
  then show ?case by simp
next
  case (Cons name names)
  let ?ns = "filter (\<lambda>nm. scan_factor_id nm = Some (int i)) names"
  show ?case
  proof (cases "\<exists>fid. scan_factor_id name = Some fid \<and> valid_id fid")
    case False
    then have "load_entries env dir_path names (n, r, s) = Inr (n', r', s')"
      using Cons.prems(1) by (auto simp: valid_id_def split: option.splits if_splits)
    moreover have "valid_id (int i)" using Cons.prems(3) by (simp add: valid_id_def EX_FACTOR_COUNT_def)
    then have "scan_factor_id name \<noteq> Some (int i)" using False by blast
    ultimately show ?thesis using Cons.IH[OF _ Cons.prems(2,3) refl] Cons.prems(4) by simp
  next
    case True
    then obtain fid where fid: "scan_factor_id name = Some fid" "valid_id fid" by blast
    let ?path = "factor_path dir_path name"
    have ok: "registry_ok env r" using Cons.prems(2) by (simp add: reg_good_def)
    obtain rc r1 s1 where load: "ex_registry_load env (Some r) fid (Some ?path) s = (rc, Some r1, s1)"
      and f1: "factors r1 = (factors r)[nat fid := map_option snd (loadable env (hardware r) fid ?path)]"
      using load_slots[OF ok fid(2) refl, of ?path s] by blast
    have rest: "load_entries env dir_path names (if rc = 0 then n + 1 else n, r1, s1) = Inr (n', r', s')"
      using Cons.prems(1) fid load by (auto simp: valid_id_def split: if_splits)
    have good: "reg_good env base (r1, s1)" "hardware r1 = hardware r"
      using load_good[OF Cons.prems(2) load] by auto
    have "factors r1 ! i = (if fid = int i then map_option snd (loadable env (hardware r) fid ?path)
        else factors r ! i)"
      using f1 ok Cons.prems(3) fid(2) by (auto simp: registry_ok_def nth_list_update valid_id_def)
    then show ?thesis
      using Cons.IH[OF rest good(1) Cons.prems(3) refl] good(2) fid(1) Cons.prems(4) by auto
  qed
qed

section \<open>Registries a program can reach\<close>

text \<open>One call on a registry, and the registries reachable from an initialised one.\<close>

inductive reg_step ::
    "'m dl_env \<Rightarrow> 'm ex_registry_t \<times> dl_state \<Rightarrow> 'm ex_registry_t \<times> dl_state \<Rightarrow> bool"
  for env where
  step_load: "ex_registry_load env (Some r) fid path s = (rc, Some r', s') \<Longrightarrow>
    reg_step env (r, s) (r', s')"
| step_load_dir: "ex_registry_load_dir env (Some r) path s = Inr (rc, Some r', s') \<Longrightarrow>
    reg_step env (r, s) (r', s')"
| step_destroy: "ex_registry_destroy (Some r) s = (Some r', s') \<Longrightarrow>
    reg_step env (r, s) (r', s')"

inductive reg_reachable ::
    "'m dl_env \<Rightarrow> ex_hardware_t \<Rightarrow> dl_state \<Rightarrow> 'm ex_registry_t \<times> dl_state \<Rightarrow> bool"
  for env hw base where
  reach_init: "ex_registry_init (Some r0) (Some hw) = (0, Some r) \<Longrightarrow>
    reg_reachable env hw base (r, base)"
| reach_step: "reg_reachable env hw base st \<Longrightarrow> reg_step env st st' \<Longrightarrow>
    reg_reachable env hw base st'"

inductive_cases reg_stepE: "reg_step env (r, s) st'"

lemma init_good:
  assumes "ex_registry_init (Some r0) (Some hw) = (0, Some r)"
  shows "reg_good env base (r, base)" and "hardware r = hw"
  using assms
  by (auto simp: ex_registry_init_def reg_good_def registry_ok_def filled_def dl.balanced_def
      count_list_filter)

lemma destroy_keeps:
  assumes "reg_good env base (r, s)" and "ex_registry_destroy (Some r) s = (Some r', s')"
  shows "reg_good env base (r', s')" and "hardware r' = hardware r"
  using destroy_good[OF assms(1)] assms(2)
  by (auto simp: reg_good_def registry_ok_def filled_def dl.balanced_def count_list_filter)

lemma step_good:
  assumes "reg_step env st st'" and "reg_good env base st"
  shows "reg_good env base st' \<and> hardware (fst st') = hardware (fst st)"
  using assms
proof (cases rule: reg_step.cases)
  case (step_load r fid path s rc r' s')
  with load_good[of env base r s fid path rc "Some r'" s'] assms(2) show ?thesis by auto
next
  case (step_load_dir r path s rc r' s')
  with load_dir_good[of env r path s rc "Some r'" s' base] assms(2) show ?thesis by auto
next
  case (step_destroy r s r' s')
  with destroy_keeps[of env base r s r' s'] assms(2) show ?thesis by auto
qed

lemma reachable_good:
  "reg_reachable env hw base st \<Longrightarrow> reg_good env base st \<and> hardware (fst st) = hw"
proof (induction rule: reg_reachable.induct)
  case (reach_init r0 r)
  then show ?case using init_good by auto
next
  case (reach_step st st')
  then show ?case using step_good[of env st st' base] by auto
qed

section \<open>Scanning names\<close>

lemma takeWhile_digits:
  "list_all is_digit ds \<Longrightarrow> (case rest of [] \<Rightarrow> True | c # _ \<Rightarrow> \<not> is_digit c) \<Longrightarrow>
   takeWhile is_digit (ds @ rest) = ds"
  by (induction ds) (auto split: list.splits)

lemma digit_plain: "is_digit c \<Longrightarrow> \<not> is_space c \<and> c \<noteq> CHR ''-'' \<and> c \<noteq> CHR ''+''"
  by (auto simp: is_digit_def is_space_def)

lemma scan_digits_any_suffix:
  assumes "list_all is_digit ds" and "ds \<noteq> []"
    and "case rest of [] \<Rightarrow> True | c # _ \<Rightarrow> \<not> is_digit c"
  shows "scan_factor_id (factor_prefix @ ds @ rest) = Some (decimal ds)"
proof -
  obtain c t where c: "ds = c # t" "is_digit c" using assms(1,2) by (cases ds) auto
  have "dropWhile is_space (ds @ rest) = ds @ rest"
    using c digit_plain[of c] by simp
  then have "scan_int (ds @ rest) = Some (decimal ds)"
    using c digit_plain[of c] takeWhile_digits[OF assms(1,3)]
    by (simp add: scan_int_def scan_digits_def Let_def)
  then show ?thesis by (simp add: scan_factor_id_def factor_prefix_def)
qed

section \<open>Properties\<close>

text \<open>
  C17: every registry a program can reach keeps the invariant: a slot has a factor exactly
  when it has a handle, the factor is the one its library returned for the registry's
  hardware, its number is the slot's, and \<^verbatim>\<open>loaded_count\<close> is at least the number of
  filled slots. The hardware descriptor never changes.
\<close>

theorem registry_invariant:
  assumes "reg_reachable env hw base (r, s)"
  shows "registry_ok env r \<and> hardware r = hw"
  using reachable_good[OF assms] by (simp add: reg_good_def)

text \<open>
  C8: no handle leaks and none is closed twice. In every reachable state each handle is
  held once per slot that stores it (beyond what was held before), whatever loads failed on
  the way, and destroying the registry gives all of them back and empties every slot.
\<close>

theorem registry_no_leak:
  assumes "reg_reachable env hw base (r, s)"
  shows "(\<forall>h. s h = base h + int (count_list (handles r) (Some h))) \<and>
    (\<exists>r'. ex_registry_destroy (Some r) s = (Some r', base) \<and>
       handles r' = replicate 9 None \<and> factors r' = replicate 9 None \<and> loaded_count r' = 0)"
  using reachable_good[OF assms] destroy_good[of env base r s]
  by (auto simp: reg_good_def dl.balanced_def)

text \<open>
  C20: a load with a valid number succeeds exactly when the library opens, exports
  \<^verbatim>\<open>ex_get_factor\<close>, and that returns a factor of this number; then dispatching the number
  runs that factor's kernel. A load that fails leaves the number without a kernel, even if
  one was loaded before. Dispatching any other number is unaffected.
\<close>

theorem dispatch_after_load:
  assumes "reg_reachable env hw base (r, s)" and "valid_id fid"
    and "lib = loadable env hw fid path"
  shows "\<exists>r' s'. ex_registry_load env (Some r) fid (Some path) s
      = (if lib = None then -1 else 0, Some r', s') \<and>
    ex_dispatch (Some r') fid args m
      = (case lib of
           None \<Rightarrow> (-1, m)
         | Some (h, f) \<Rightarrow> (case kernel f of None \<Rightarrow> (-1, m) | Some k \<Rightarrow> k args m)) \<and>
    (\<forall>other. other \<noteq> fid \<longrightarrow> ex_dispatch (Some r') other args m = ex_dispatch (Some r) other args m)"
proof -
  have ok: "registry_ok env r" "hardware r = hw"
    using reachable_good[OF assms(1)] by (auto simp: reg_good_def)
  have len: "length (factors r) = 9" "nat fid < 9"
    using ok valid_id_nat[OF assms(2)] by (auto simp: registry_ok_def)
  from load_slots[OF ok(1) assms(2), of lib path s] ok(2) assms(3)
  obtain r' s' where load: "ex_registry_load env (Some r) fid (Some path) s
      = (if lib = None then -1 else 0, Some r', s')"
    and f: "factors r' = (factors r)[nat fid := map_option snd lib]" by auto
  have "ex_dispatch (Some r') fid args m
      = (case lib of None \<Rightarrow> (-1, m)
         | Some (h, f) \<Rightarrow> (case kernel f of None \<Rightarrow> (-1, m) | Some k \<Rightarrow> k args m))"
    using assms(2) len by (auto simp: ex_dispatch_def f valid_id_def split: option.split)
  moreover have "ex_dispatch (Some r') other args m = ex_dispatch (Some r) other args m"
    if "other \<noteq> fid" for other
  proof (cases "valid_id other")
    case True
    then have "nat fid \<noteq> nat other" using that assms(2) by (auto simp: valid_id_def)
    then show ?thesis by (simp add: ex_dispatch_def f)
  qed (auto simp: ex_dispatch_def valid_id_def)
  ultimately show ?thesis using load by blast
qed

text \<open>
  C21: after scanning a directory, slot \<open>i\<close> has what the last entry whose name scans to
  \<open>i\<close> offers, or nothing if that library cannot be used, even when an earlier entry could;
  a slot no entry names is unchanged. The return value is the number of successful loads,
  by which \<^verbatim>\<open>loaded_count\<close> has grown.
\<close>

theorem load_dir_last_entry_wins:
  assumes "reg_reachable env hw base (r, s)" and "env_readdir env dir = Some names"
    and "ex_registry_load_dir env (Some r) (Some dir) s = Inr (rc, reg', s')"
  shows "\<exists>r'. reg' = Some r' \<and> 0 \<le> rc \<and> rc \<le> int (length names) \<and>
    loaded_count r' = loaded_count r + rc \<and>
    (\<forall>i < 9. factors r' ! i =
      (let ns = filter (\<lambda>nm. scan_factor_id nm = Some (int i)) names in
       if ns = [] then factors r ! i
       else map_option snd (loadable env hw (int i) (factor_path dir (last ns)))))"
proof -
  have good: "reg_good env base (r, s)" and hw: "hardware r = hw"
    using reachable_good[OF assms(1)] by auto
  obtain r' where r': "reg' = Some r'" and entries: "load_entries env dir names (0, r, s) = Inr (rc, r', s')"
    using assms(2,3) by (auto simp: ex_registry_load_dir_def rbind_eq_Inr_iff)
  show ?thesis
    using load_entries_good[OF entries good] load_entries_last[OF entries good _ refl] hw r'
    by (auto simp: Let_def)
qed

text \<open>
  the suffix \<^verbatim>\<open>.so\<close> of the naming convention is not checked: every name that starts
  with \<^verbatim>\<open>ex_factor_\<close> and a number is taken for that factor, whatever follows, so a backup
  or a partial download in the directory is loaded and can displace the factor.
\<close>

theorem load_dir_ignores_suffix:
  assumes "list_all is_digit ds" and "ds \<noteq> []"
    and "case rest of [] \<Rightarrow> True | c # _ \<Rightarrow> \<not> is_digit c"
  shows "scan_factor_id (''ex_factor_'' @ ds @ rest) = scan_factor_id (''ex_factor_'' @ ds @ ''.so'')
    \<and> scan_factor_id (''ex_factor_'' @ ds @ rest) = Some (decimal ds)"
  using scan_digits_any_suffix[OF assms] scan_digits_any_suffix[OF assms(1,2), of "''.so''"]
  by (simp add: factor_prefix_def is_digit_def)

text \<open>
  loading a factor again keeps the number of filled slots and still counts, so
  \<^verbatim>\<open>loaded_count\<close> is not the number of loaded factors once one was reloaded; a reload that
  fails empties the slot and leaves the count.
\<close>

theorem reload_overcounts:
  assumes "reg_reachable env hw base (r, s)" and "valid_id fid"
    and "handles r ! nat fid \<noteq> None"
    and "ex_registry_load env (Some r) fid (Some path) s = (rc, Some r', s')"
  shows "if rc = 0 then filled r' = filled r \<and> loaded_count r' = loaded_count r + 1
    else filled r' = filled r - 1 \<and> loaded_count r' = loaded_count r"
proof -
  have ok: "registry_ok env r" using reachable_good[OF assms(1)] by (simp add: reg_good_def)
  have len: "nat fid < length (handles r)" using ok valid_id_nat[OF assms(2)] by (simp add: registry_ok_def)
  show ?thesis
    using load_slots[OF ok assms(2) refl, of path s] load_count[OF ok assms(4)] assms(3,4) len
    by (auto simp: filled_def filter_update_length split: if_splits)
qed

section \<open>Witnesses\<close>

text \<open>
  A library for factor 5 in a directory that also holds a backup of it, which the linker
  cannot open. Its kernel adds one to a counter.
\<close>

definition sample_factor :: "nat ex_factor_t" where
  "sample_factor =
     \<lparr>factor_id = 5, factor_name = ''gdn'', factor_version = ''1.0'',
      tuning = \<lparr>threads_per_block = 256, items_per_thread = 4, vec_size = 4,
        shared_mem_bytes = 49152, num_warps = 4, num_stages = 1\<rparr>,
      kernel = Some (\<lambda>args m. (0, m + 1)), kernel_fallback = None\<rparr>"

definition sample_env :: "nat dl_env" where
  "sample_env =
     \<lparr>env_dlopen = (\<lambda>path. if path = ''d/ex_factor_5.so'' then Some 7 else None),
      env_dlsym = (\<lambda>h. Some (\<lambda>hw. Some sample_factor)),
      env_readdir = (\<lambda>d. Some [''ex_factor_5.so'', ''ex_factor_5.so.bak''])\<rparr>"

definition sample_registry :: "nat ex_registry_t" where
  "sample_registry = \<lparr>factors = replicate 9 None, handles = replicate 9 None,
     hardware = ex_bi_v100_hardware, loaded_count = 0\<rparr>"

definition sample_args :: kernel_args where
  "sample_args = \<lparr>ka_output = 0, ka_input = 1, ka_aux_inputs = [], ka_n_aux = 0,
     ka_dims = [4, 128], ka_n_dims = 2, ka_stream = 0\<rparr>"

lemma sample_reachable:
  "reg_reachable sample_env ex_bi_v100_hardware (\<lambda>_. 0) (sample_registry, \<lambda>_. 0)"
  by (rule reach_init[of sample_registry]) (simp add: ex_registry_init_def sample_registry_def)

lemma sample_loadable:
  "loadable sample_env ex_bi_v100_hardware 5 ''d/ex_factor_5.so'' = Some (7, sample_factor)"
  by (simp add: loadable_def sample_env_def sample_factor_def)

lemma sample_valid: "valid_id 5"
  by (simp add: valid_id_def EX_FACTOR_COUNT_def)

lemma sample_load:
  "\<exists>r s. ex_registry_load sample_env (Some sample_registry) 5 (Some ''d/ex_factor_5.so'') (\<lambda>_. 0)
      = (0, Some r, s) \<and> handles r ! 5 = Some 7 \<and>
    reg_reachable sample_env ex_bi_v100_hardware (\<lambda>_. 0) (r, s)"
proof -
  have ok: "registry_ok sample_env sample_registry" "hardware sample_registry = ex_bi_v100_hardware"
    "length (handles sample_registry) = 9"
    by (simp_all add: sample_registry_def registry_ok_def filled_def)
  from load_slots[OF ok(1) sample_valid, of "Some (7, sample_factor)" "''d/ex_factor_5.so''" "\<lambda>_. 0"]
    ok sample_loadable
  obtain r s where "ex_registry_load sample_env (Some sample_registry) 5 (Some ''d/ex_factor_5.so'')
      (\<lambda>_. 0) = (0, Some r, s)" "handles r ! 5 = Some 7" by auto
  then show ?thesis
    using reach_step[OF sample_reachable step_load] by blast
qed

theorem registry_invariant_witness:
  "\<exists>r s. reg_reachable sample_env ex_bi_v100_hardware (\<lambda>_. 0) (r, s) \<and> handles r ! 5 = Some 7 \<and>
    registry_ok sample_env r"
  using sample_load registry_invariant by blast

theorem registry_no_leak_witness:
  "\<exists>r s r'. reg_reachable sample_env ex_bi_v100_hardware (\<lambda>_. 0) (r, s) \<and> handles r ! 5 = Some 7 \<and>
    ex_registry_destroy (Some r) s = (Some r', \<lambda>_. 0) \<and> handles r' = replicate 9 None"
  using sample_load registry_no_leak by blast

theorem dispatch_after_load_witness:
  "\<exists>r s. ex_registry_load sample_env (Some sample_registry) 5 (Some ''d/ex_factor_5.so'') (\<lambda>_. 0)
      = (0, Some r, s) \<and> ex_dispatch (Some r) 5 sample_args (41 :: nat) = (0, 42)"
  using dispatch_after_load[OF sample_reachable sample_valid sample_loadable[symmetric], of sample_args 41]
  by (auto simp: sample_factor_def)

theorem load_dir_last_entry_wins_witness:
  "\<exists>rc r s. ex_registry_load_dir sample_env (Some sample_registry) (Some ''d'') (\<lambda>_. 0) = Inr (rc, Some r, s)
    \<and> loaded_count r = rc \<and> factors r ! 5 = None"
proof -
  let ?dir = "ex_registry_load_dir sample_env (Some sample_registry) (Some ''d'') (\<lambda>_. 0)"
  have names: "env_readdir sample_env ''d'' = Some [''ex_factor_5.so'', ''ex_factor_5.so.bak'']"
    by (simp add: sample_env_def)
  have scan: "scan_factor_id ''ex_factor_5.so'' = Some 5" "scan_factor_id ''ex_factor_5.so.bak'' = Some 5"
    by code_simp+
  have "env_dlopen sample_env (factor_path ''d'' ''ex_factor_5.so.bak'') = None"
    by (simp add: sample_env_def factor_path_def)
  then have last: "loadable sample_env ex_bi_v100_hardware 5 (factor_path ''d'' ''ex_factor_5.so.bak'') = None"
    by (simp add: loadable_def)
  have int_range: "int_range 5" by (simp add: int_range_def)
  have "\<exists>x. ?dir = Inr x"
  proof -
    have "\<exists>x. load_entries sample_env ''d'' [''ex_factor_5.so'', ''ex_factor_5.so.bak'']
        (0, sample_registry, \<lambda>_. 0) = Inr x"
      using scan int_range sample_valid
      by (auto simp: valid_id_def load_eq[OF sample_valid refl] split: option.split)
    then show ?thesis
      using names by (auto simp: ex_registry_load_dir_def)
  qed
  then obtain rc reg' s' where run: "?dir = Inr (rc, reg', s')" by (metis prod_cases3)
  from load_dir_last_entry_wins[OF sample_reachable names run] scan last
  show ?thesis using run by (auto simp: sample_registry_def dest!: spec[where x = 5])
qed

theorem load_dir_ignores_suffix_witness:
  "scan_factor_id ''ex_factor_12.so.partial'' = Some 12"
  using load_dir_ignores_suffix[THEN conjunct2, of "''12''" "''.so.partial''"]
  by (simp add: is_digit_def decimal_def digit_value_def)

theorem reload_overcounts_witness:
  "\<exists>r s rc r' s'. reg_reachable sample_env ex_bi_v100_hardware (\<lambda>_. 0) (r, s) \<and>
    ex_registry_load sample_env (Some r) 5 (Some ''d/ex_factor_5.so'') s = (rc, Some r', s') \<and>
    rc = 0 \<and> filled r' = filled r \<and> loaded_count r' = loaded_count r + 1"
proof -
  obtain r s where r: "handles r ! nat 5 = Some 7"
      "reg_reachable sample_env ex_bi_v100_hardware (\<lambda>_. 0) (r, s)"
    using sample_load by auto
  have ok: "registry_ok sample_env r" "hardware r = ex_bi_v100_hardware"
    using reachable_good[OF r(2)] by (auto simp: reg_good_def)
  from load_slots[OF ok(1) sample_valid, of _ "''d/ex_factor_5.so''" s] ok(2) sample_loadable
  obtain r' s' where load: "ex_registry_load sample_env (Some r) 5 (Some ''d/ex_factor_5.so'') s
      = (0, Some r', s')" by auto
  from reload_overcounts[OF r(2) sample_valid _ load] r load show ?thesis by auto
qed

end
