(* ===== verification/Torch.thy ===== *)
theory Torch
  imports Complex_Main Kv_Cache
begin

text \<open>
  Tensors as the kernel interface passes them around. A tensor is undefined or has a shape,
  an element type and an identity (the name of an operation, its operands and its integer
  arguments), so two tensors of the same shape and type can differ. Contiguity and devices
  are not part of a tensor.

  The tensor library is not part of the program: its operations are a parameter of the model,
  the record \<open>aten\<close>, and what the code relies on, the documented shapes of the results and
  when an operation throws, are the laws of the locale \<open>aten_laws\<close>.
\<close>

datatype device = kCPU | Accelerator int

datatype torch =
    TUndef
  | Tn (origin: string) (operands: "torch list") (int_args: "int list")
       (tsizes: "int list") (tdtype: DType)

definition t_defined :: "torch \<Rightarrow> bool" where
  "t_defined t \<longleftrightarrow> t \<noteq> TUndef"

fun t_sizes :: "torch \<Rightarrow> int list" where
  "t_sizes TUndef = []"
| "t_sizes (Tn nm ops args s d) = s"

fun t_dtype :: "torch \<Rightarrow> DType" where
  "t_dtype TUndef = kUndefinedType"
| "t_dtype (Tn nm ops args s d) = d"

definition t_dim :: "torch \<Rightarrow> int" where
  "t_dim t = int (length (t_sizes t))"

definition t_numel :: "torch \<Rightarrow> int" where
  "t_numel t = prod_list (t_sizes t)"

definition torch_error :: "string \<Rightarrow> 'a result" where
  "torch_error msg = Inl (Exn msg)"

text \<open>A dimension counted from the end when negative.\<close>

definition wrap_dim :: "int \<Rightarrow> int \<Rightarrow> nat result" where
  "wrap_dim d n =
     (if 0 \<le> d \<and> d < n then Inr (nat d)
      else if - n \<le> d \<and> d < 0 then Inr (nat (d + n))
      else torch_error ''Dimension out of range'')"

definition t_size :: "torch \<Rightarrow> int \<Rightarrow> int result" where
  "t_size t d = rbind (wrap_dim d (t_dim t)) (\<lambda>i. Inr (t_sizes t ! i))"

section \<open>Shape arithmetic\<close>

text \<open>The bounds of a slice are clamped to the dimension, counted from its end when negative.\<close>

definition clamp :: "int \<Rightarrow> int \<Rightarrow> int" where
  "clamp n x = max 0 (min n (if x < 0 then x + n else x))"

text \<open>
  The shape \<^verbatim>\<open>reshape\<close> gives a tensor of \<open>n\<close> elements: one entry may be \<open>-1\<close> and is inferred;
  the number of elements must not change.
\<close>

definition infer_shape :: "int \<Rightarrow> int list \<Rightarrow> int list result" where
  "infer_shape n s =
     (let known = prod_list (filter (\<lambda>x. x \<noteq> -1) s) in
      if list_ex (\<lambda>x. x < -1) s then torch_error ''invalid shape dimension''
      else if length (filter (\<lambda>x. x = -1) s) > 1 then torch_error ''only one dimension can be inferred''
      else if -1 \<in> set s then
        if known = 0 then torch_error ''cannot reshape tensor of 0 elements''
        else if n mod known \<noteq> 0 then torch_error ''shape is invalid for input''
        else Inr (map (\<lambda>x. if x = -1 then n div known else x) s)
      else if known = n then Inr s else torch_error ''shape is invalid for input'')"

text \<open>Broadcasting: shapes aligned at the end, a dimension of size one stretched.\<close>

fun broadcast_rev :: "int list \<Rightarrow> int list \<Rightarrow> int list result" where
  "broadcast_rev [] bs = Inr bs"
| "broadcast_rev as [] = Inr as"
| "broadcast_rev (a # as) (b # bs) =
     (if a = b \<or> b = 1 then rbind (broadcast_rev as bs) (\<lambda>s. Inr (a # s))
      else if a = 1 then rbind (broadcast_rev as bs) (\<lambda>s. Inr (b # s))
      else torch_error ''The size of tensor a must match the size of tensor b'')"

text \<open>Two shapes that agree outside one dimension.\<close>

definition same_but :: "nat \<Rightarrow> int list \<Rightarrow> int list \<Rightarrow> bool" where
  "same_but i s s' \<longleftrightarrow> length s = length s' \<and> s[i := 0] = s'[i := 0]"

section \<open>The tensor library\<close>

record aten =
  at_empty :: "int list \<Rightarrow> DType \<Rightarrow> torch result"
  at_arange :: "int \<Rightarrow> torch result"
  at_zeros_like :: "torch \<Rightarrow> torch result"
  at_to :: "torch \<Rightarrow> DType \<Rightarrow> torch result"
  at_slice :: "torch \<Rightarrow> int \<Rightarrow> int \<Rightarrow> int \<Rightarrow> torch result"
  at_chunk :: "torch \<Rightarrow> int \<Rightarrow> int \<Rightarrow> torch list result"
  at_cat :: "torch list \<Rightarrow> int \<Rightarrow> torch result"
  at_reshape :: "torch \<Rightarrow> int list \<Rightarrow> torch result"
  at_view :: "torch \<Rightarrow> int list \<Rightarrow> torch result"
  at_add :: "torch \<Rightarrow> torch \<Rightarrow> torch result"
  at_add_to :: "torch \<Rightarrow> torch \<Rightarrow> torch result"
  at_div :: "torch \<Rightarrow> torch \<Rightarrow> torch result"
  at_sum :: "torch \<Rightarrow> int \<Rightarrow> torch result"
  at_cumsum :: "torch \<Rightarrow> int \<Rightarrow> torch result"
  at_unsqueeze :: "torch \<Rightarrow> int \<Rightarrow> torch result"

section \<open>Sizes\<close>

named_theorems torch_simps "shapes of tensor operations"

lemma t_defined_simps [simp]:
  "\<not> t_defined TUndef" "t_defined (Tn nm ops args s d)"
  by (simp_all add: t_defined_def)

lemma wrap_dim_nonneg [torch_simps]: "0 \<le> d \<Longrightarrow> d < n \<Longrightarrow> wrap_dim d n = Inr (nat d)"
  by (simp add: wrap_dim_def)

lemma wrap_dim_last [torch_simps]: "0 < n \<Longrightarrow> wrap_dim (-1) n = Inr (nat (n - 1))"
  by (simp add: wrap_dim_def)

lemma t_size_last: "t_sizes t \<noteq> [] \<Longrightarrow> t_size t (-1) = Inr (last (t_sizes t))"
  by (simp add: t_size_def t_dim_def wrap_dim_def last_conv_nth nat_diff_distrib' Suc_le_eq)

lemma t_size_nth: "i < length (t_sizes t) \<Longrightarrow> t_size t (int i) = Inr (t_sizes t ! i)"
  by (simp add: t_size_def t_dim_def wrap_dim_def)

lemma t_size_0: "t_sizes t \<noteq> [] \<Longrightarrow> t_size t 0 = Inr (t_sizes t ! 0)"
  using t_size_nth[of 0 t] by simp

lemma infer_shape_id:
  "list_all (\<lambda>n. 0 \<le> n) s \<Longrightarrow> prod_list s = n \<Longrightarrow> infer_shape n s = Inr s"
proof -
  assume s: "list_all (\<lambda>n. 0 \<le> n) s" "prod_list s = n"
  then have "filter (\<lambda>x. x \<noteq> -1) s = s" "-1 \<notin> set s" "filter (\<lambda>x. x = -1) s = []"
    "\<not> list_ex (\<lambda>x. x < -1) s"
    by (force simp: list_all_iff list_ex_iff filter_empty_conv intro!: filter_True)+
  then show ?thesis using s by (simp add: infer_shape_def)
qed

lemma broadcast_rev_same: "broadcast_rev s s = Inr s"
  by (induction s) auto

text \<open>Flattening all leading dimensions.\<close>

lemma infer_shape_flatten:
  assumes "list_all (\<lambda>n. 0 \<le> n) s" and "0 < h"
  shows "infer_shape (prod_list (s @ [h])) [-1, h] = Inr [prod_list s, h]"
  using assms by (simp add: infer_shape_def)

lemma sum_list_nonneg_all: "list_all (\<lambda>n. 0 \<le> n) s \<Longrightarrow> 0 \<le> prod_list (s :: int list)"
  by (induction s) auto

lemma t_defined_sizes: "t_sizes t \<noteq> [] \<Longrightarrow> t_defined t"
  by (cases t) (simp_all add: t_defined_def)

lemma t_size_cons [torch_simps]:
  "t_sizes t = [a, b] \<Longrightarrow> t_size t 0 = Inr a"
  "t_sizes t = [a, b] \<Longrightarrow> t_size t 1 = Inr b"
  "t_sizes t = [a, b] \<Longrightarrow> t_size t (-1) = Inr b"
  "t_sizes t = [a, b, c] \<Longrightarrow> t_size t 0 = Inr a"
  "t_sizes t = [a, b, c] \<Longrightarrow> t_size t 1 = Inr b"
  "t_sizes t = [a, b, c] \<Longrightarrow> t_size t 2 = Inr c"
  by (simp_all add: t_size_def t_dim_def wrap_dim_def)

section \<open>The laws\<close>

text \<open>
  What the documentation of the library promises of the operations: new tensors have the
  requested shape, or the call throws for a negative one; a slice keeps all other dimensions;
  a dimension that is a multiple of the number of chunks is cut evenly; concatenation sums one
  dimension; reshaping follows \<open>infer_shape\<close>; a view has the shape of \<open>infer_shape\<close> too, but
  may throw when the strides of the tensor do not fit, which splitting the last dimension
  never does; sums broadcast, an in-place sum only onto its
  own shape, and incompatible shapes throw.
\<close>

locale aten_laws =
  fixes lib :: aten
  assumes empty_ok: "list_all (\<lambda>n. 0 \<le> n) s \<Longrightarrow> \<exists>t. at_empty lib s ty = Inr t"
    and empty_shape: "at_empty lib s ty = Inr t \<Longrightarrow>
      list_all (\<lambda>n. 0 \<le> n) s \<and> t_sizes t = s \<and> t_dtype t = ty"
    and arange_ok: "0 \<le> n \<Longrightarrow> \<exists>t. at_arange lib n = Inr t \<and> t_sizes t = [n] \<and> t_dtype t = kLong"
    and to_ok: "t_defined t \<Longrightarrow> \<exists>u. at_to lib t ty = Inr u \<and> t_sizes u = t_sizes t \<and> t_dtype u = ty"
    and slice_ok: "wrap_dim d (t_dim t) = Inr i \<Longrightarrow>
      \<exists>u. at_slice lib t d a b = Inr u \<and> t_dtype u = t_dtype t \<and>
        t_sizes u = (t_sizes t)[i := max 0 (clamp (t_sizes t ! i) b - clamp (t_sizes t ! i) a)]"
    and chunk_ok: "wrap_dim d (t_dim t) = Inr i \<Longrightarrow> 0 < k \<Longrightarrow> 0 < n \<Longrightarrow> t_sizes t ! i = n * k \<Longrightarrow>
      \<exists>us. at_chunk lib t n d = Inr us \<and> length us = nat n \<and>
        list_all (\<lambda>u. t_sizes u = (t_sizes t)[i := k]) us"
    and cat_ok: "wrap_dim d (t_dim t) = Inr i \<Longrightarrow>
      list_all (\<lambda>u. same_but i (t_sizes t) (t_sizes u)) us \<Longrightarrow>
      \<exists>c. at_cat lib (t # us) d = Inr c \<and>
        t_sizes c = (t_sizes t)[i := sum_list (map (\<lambda>u. t_sizes u ! i) (t # us))]"
    and reshape_ok: "t_defined t \<Longrightarrow> infer_shape (t_numel t) s = Inr s' \<Longrightarrow>
      \<exists>u. at_reshape lib t s = Inr u \<and> t_sizes u = s' \<and> t_dtype u = t_dtype t"
    and reshape_shape: "at_reshape lib t s = Inr u \<Longrightarrow> infer_shape (t_numel t) s = Inr (t_sizes u)"
    and view_shape: "at_view lib t s = Inr u \<Longrightarrow> infer_shape (t_numel t) s = Inr (t_sizes u)"
    and view_splits: "t_defined t \<Longrightarrow> t_sizes t = lead @ [prod_list ns] \<Longrightarrow>
      infer_shape (t_numel t) s = Inr (lead @ ns) \<Longrightarrow>
      \<exists>u. at_view lib t s = Inr u \<and> t_sizes u = lead @ ns \<and> t_dtype u = t_dtype t"
    and div_ok: "t_defined x \<Longrightarrow> t_defined y \<Longrightarrow> broadcast_rev (rev (t_sizes x)) (rev (t_sizes y)) = Inr s \<Longrightarrow>
      \<exists>c. at_div lib x y = Inr c \<and> t_sizes c = rev s"
    and add_to_ok: "t_defined x \<Longrightarrow> t_defined y \<Longrightarrow> broadcast_rev (rev (t_sizes x)) (rev (t_sizes y)) = Inr (rev (t_sizes x)) \<Longrightarrow>
      \<exists>c. at_add_to lib x y = Inr c \<and> t_sizes c = t_sizes x"
    and add_to_throws: "broadcast_rev (rev (t_sizes x)) (rev (t_sizes y)) \<noteq> Inr (rev (t_sizes x)) \<Longrightarrow>
      \<exists>msg. at_add_to lib x y = Inl (Exn msg)"
    and sum_ok: "wrap_dim d (t_dim t) = Inr i \<Longrightarrow>
      \<exists>u. at_sum lib t d = Inr u \<and> t_sizes u = take i (t_sizes t) @ drop (Suc i) (t_sizes t)"
    and cumsum_ok: "wrap_dim d (t_dim t) = Inr i \<Longrightarrow>
      \<exists>u. at_cumsum lib t d = Inr u \<and> t_sizes u = t_sizes t"
    and unsqueeze_ok: "t_defined t \<Longrightarrow> \<exists>u. at_unsqueeze lib t (-1) = Inr u \<and> t_sizes u = t_sizes t @ [1]"
begin

text \<open>Flattening all leading dimensions, and undoing it.\<close>

lemma flatten_Inr:
  assumes "t_sizes t = lead @ [h]" and "list_all (\<lambda>n. 0 \<le> n) lead" and "0 < h"
  shows "\<exists>u. at_reshape lib t [-1, h] = Inr u \<and> t_sizes u = [prod_list lead, h] \<and> t_dtype u = t_dtype t"
  by (rule reshape_ok) (use assms infer_shape_flatten t_defined_sizes[of t] in \<open>simp_all add: t_numel_def\<close>)

lemma flatten_back:
  assumes "t_sizes y = [prod_list lead, h]" and "list_all (\<lambda>n. 0 \<le> n) lead" and "0 < h"
  shows "\<exists>u. at_reshape lib y (lead @ [h]) = Inr u \<and> t_sizes u = lead @ [h] \<and> t_dtype u = t_dtype y"
  using assms t_defined_sizes[of y] by (intro reshape_ok infer_shape_id) (simp_all add: t_numel_def)

lemma empty_Inr:
  assumes "list_all (\<lambda>n. 0 \<le> n) s"
  shows "\<exists>t. at_empty lib s d = Inr t \<and> t_sizes t = s \<and> t_dtype t = d"
  using empty_ok[OF assms, of d] empty_shape by blast

text \<open>Every row divided by its sum.\<close>

lemma normed_rows:
  assumes "t_sizes w = [n, k]"
  shows "\<exists>s u v. at_sum lib w (-1) = Inr s \<and> at_unsqueeze lib s (-1) = Inr u \<and>
    at_div lib w u = Inr v \<and> t_sizes v = [n, k]"
proof -
  have "wrap_dim (-1) (t_dim w) = Inr 1" by (simp add: t_dim_def assms wrap_dim_def)
  then obtain s where s: "at_sum lib w (-1) = Inr s" "t_sizes s = [n]"
    using sum_ok assms by (metis append.right_neutral drop_Suc_Cons drop_eq_Nil2 impossible_Cons
        length_Cons linorder_linear list.size(3) numeral_nat(7) take_Suc_Cons take_0 drop0)
  obtain u where u: "at_unsqueeze lib s (-1) = Inr u" "t_sizes u = [n, 1]"
    using unsqueeze_ok[of s] t_defined_sizes[of s] s(2) by auto
  have "broadcast_rev [k, n] [1, n] = Inr [k, n]" by simp
  then show ?thesis
    using div_ok[of w u "[k, n]"] t_defined_sizes[of w] t_defined_sizes[of u] s(1) u assms by auto
qed

end

section \<open>A reference instance\<close>

text \<open>The least an implementation must do: results are records of the call with their shape.\<close>

definition t_empty :: "int list \<Rightarrow> DType \<Rightarrow> torch result" where
  "t_empty s d =
     (if list_all (\<lambda>n. 0 \<le> n) s then Inr (Tn ''empty'' [] [] s d)
      else torch_error ''negative dimension'')"

definition t_arange :: "int \<Rightarrow> torch result" where
  "t_arange n =
     (if 0 \<le> n then Inr (Tn ''arange'' [] [n] [n] kLong) else torch_error ''arange bounds'')"

definition t_to :: "torch \<Rightarrow> DType \<Rightarrow> torch result" where
  "t_to t d = (if t_dtype t = d then Inr t else Inr (Tn ''to'' [t] [] (t_sizes t) d))"

definition t_slice :: "torch \<Rightarrow> int \<Rightarrow> int \<Rightarrow> int \<Rightarrow> torch result" where
  "t_slice t d a b =
     rbind (wrap_dim d (t_dim t)) (\<lambda>i.
     let n = t_sizes t ! i in
     Inr (Tn ''slice'' [t] [int i, clamp n a, clamp n b]
            ((t_sizes t)[i := max 0 (clamp n b - clamp n a)]) (t_dtype t)))"

definition t_chunk :: "torch \<Rightarrow> int \<Rightarrow> int \<Rightarrow> torch list result" where
  "t_chunk t n d =
     rbind (wrap_dim d (t_dim t)) (\<lambda>i.
     if n \<le> 0 then torch_error ''chunk expects chunks to be greater than 0''
     else
       let len = t_sizes t ! i;
           step = max 1 ((len + n - 1) div n);
           count = (if len = 0 then n else (len + step - 1) div step) in
       Inr (map (\<lambda>k. Tn ''chunk'' [t] [n, int i, k]
              ((t_sizes t)[i := (if len = 0 then 0 else min step (len - k * step))]) (t_dtype t))
            [0..count - 1]))"

definition t_cat :: "torch list \<Rightarrow> int \<Rightarrow> torch result" where
  "t_cat ts d =
     (case ts of
        [] \<Rightarrow> torch_error ''expected a non-empty list of Tensors''
      | t # us \<Rightarrow>
          rbind (wrap_dim d (t_dim t)) (\<lambda>i.
          if list_all (\<lambda>u. same_but i (t_sizes t) (t_sizes u)) us
          then Inr (Tn ''cat'' ts [int i]
                 ((t_sizes t)[i := sum_list (map (\<lambda>u. t_sizes u ! i) ts)]) (t_dtype t))
          else torch_error ''Sizes of tensors must match''))"

definition t_reshape :: "torch \<Rightarrow> int list \<Rightarrow> torch result" where
  "t_reshape t s =
     rbind (infer_shape (t_numel t) s) (\<lambda>s'.
     Inr (if s' = t_sizes t then t else Tn ''reshape'' [t] [] s' (t_dtype t)))"

definition t_view :: "torch \<Rightarrow> int list \<Rightarrow> torch result" where
  "t_view t s =
     rbind (infer_shape (t_numel t) s) (\<lambda>s'.
     Inr (if s' = t_sizes t then t else Tn ''view'' [t] [] s' (t_dtype t)))"

definition t_binary :: "string \<Rightarrow> torch \<Rightarrow> torch \<Rightarrow> torch result" where
  "t_binary nm a b =
     rbind (broadcast_rev (rev (t_sizes a)) (rev (t_sizes b))) (\<lambda>s.
     Inr (Tn nm [a, b] [] (rev s) (t_dtype a)))"

definition t_add_to :: "torch \<Rightarrow> torch \<Rightarrow> torch result" where
  "t_add_to a b =
     (if broadcast_rev (rev (t_sizes a)) (rev (t_sizes b)) = Inr (rev (t_sizes a))
      then Inr (Tn ''add_'' [a, b] [] (t_sizes a) (t_dtype a))
      else torch_error ''output with shape doesn't match the broadcast shape'')"

definition t_along :: "string \<Rightarrow> (nat \<Rightarrow> int list \<Rightarrow> int list) \<Rightarrow> torch \<Rightarrow> int \<Rightarrow> torch result" where
  "t_along nm shape t d =
     rbind (wrap_dim d (t_dim t)) (\<lambda>i. Inr (Tn nm [t] [d] (shape i (t_sizes t)) (t_dtype t)))"

definition aten_ref :: aten where
  "aten_ref =
     \<lparr>at_empty = t_empty, at_arange = t_arange,
      at_zeros_like = (\<lambda>t. t_empty (t_sizes t) (t_dtype t)), at_to = t_to, at_slice = t_slice,
      at_chunk = t_chunk, at_cat = t_cat, at_reshape = t_reshape,
      at_view = t_view, at_add = t_binary ''add'',
      at_add_to = t_add_to, at_div = t_binary ''div'',
      at_sum = t_along ''sum'' (\<lambda>i s. take i s @ drop (Suc i) s),
      at_cumsum = t_along ''cumsum'' (\<lambda>i s. s),
      at_unsqueeze = (\<lambda>t d. Inr (Tn ''unsqueeze'' [t] [d] (t_sizes t @ [1]) (t_dtype t)))\<rparr>"

lemma wrap_dim_less: "wrap_dim d n = Inr i \<Longrightarrow> int i < n"
  by (auto simp: wrap_dim_def torch_error_def split: if_splits)

lemma chunk_steps:
  fixes n k :: int
  assumes "0 < k" and "0 < n"
  shows "(n * k + n - 1) div n = k" and "(n * k + k - 1) div k = n"
  using assms div_mult_self1[of n "n - 1" k] div_mult_self1[of k "k - 1" n]
  by (simp_all add: div_pos_pos_trivial algebra_simps)

lemma t_chunk_even:
  assumes "wrap_dim d (t_dim t) = Inr i" and "0 < k" and "0 < n" and "t_sizes t ! i = n * k"
  shows "\<exists>us. t_chunk t n d = Inr us \<and> length us = nat n \<and>
    list_all (\<lambda>u. t_sizes u = (t_sizes t)[i := k]) us"
proof -
  have "n * k \<noteq> 0" "\<not> n \<le> 0" "max 1 k = k" using assms(2,3) by auto
  moreover have "min k (n * k - j * k) = k" if "j \<in> {0..n - 1}" for j
  proof -
    have "(j + 1) * k \<le> n * k" using that assms(2) by (intro mult_right_mono) auto
    then show ?thesis by (simp add: algebra_simps)
  qed
  ultimately show ?thesis
    using assms chunk_steps[OF assms(2,3)] by (simp add: t_chunk_def Let_def list_all_iff)
qed

interpretation ref: aten_laws aten_ref
proof (unfold_locales, goal_cases)
  case (6 d t i k n)
  then show ?case using t_chunk_even by (simp add: aten_ref_def)
qed (auto simp: aten_ref_def t_empty_def t_arange_def t_to_def t_slice_def t_cat_def t_reshape_def t_view_def
      t_binary_def t_add_to_def t_along_def torch_error_def Let_def rbind_eq_Inr_iff split: if_splits)

end
