(* ===== verification/Kernel_Params.thy ===== *)
theory Kernel_Params
  imports Torch
begin

text \<open>
  The parameter structures of the kernel interface (\<^verbatim>\<open>ex_engine/xllm_kernels/param.h\<close>), one
  record per structure with its fields in order, prefixed with the structure's name. Next to
  each is the value a declaration \<^verbatim>\<open>XParams p;\<close> gives: fields with an initialiser have it,
  tensors are undefined and optionals empty, and a scalar without initialiser is
  indeterminate, so it is an argument (\<open>gi\<close>, \<open>gb\<close>, \<open>gr\<close>, \<open>gd\<close> for integers, booleans, reals
  and element types).
\<close>

record RotaryParams =
  rotary_q :: torch
  rotary_k :: torch
  rotary_sin :: torch
  rotary_cos :: torch
  rotary_cos_sin :: torch
  rotary_precomputed_cos_sin :: torch
  rotary_position_ids :: "torch option"
  rotary_cu_query_lens :: "torch option"
  rotary_interleaved :: bool
  rotary_discrete :: bool
  rotary_dynamic_ntk :: bool
  rotary_max_query_len :: int

definition default_RotaryParams :: "bool \<Rightarrow> int \<Rightarrow> RotaryParams" where
  "default_RotaryParams gb gi =
     \<lparr>rotary_q = TUndef, rotary_k = TUndef, rotary_sin = TUndef,
      rotary_cos = TUndef, rotary_cos_sin = TUndef,
      rotary_precomputed_cos_sin = TUndef, rotary_position_ids = None,
      rotary_cu_query_lens = None, rotary_interleaved = gb, rotary_discrete = gb,
      rotary_dynamic_ntk = False, rotary_max_query_len = gi\<rparr>"

record ActivationParams =
  activation_input :: torch
  activation_output :: torch
  activation_bias :: "torch option"
  activation_cusum_token_count :: "torch option"
  activation_act_mode :: string
  activation_is_gated :: bool
  activation_start_expert_id :: int
  activation_expert_size :: int

definition default_ActivationParams :: "bool \<Rightarrow> ActivationParams" where
  "default_ActivationParams gb =
     \<lparr>activation_input = TUndef, activation_output = TUndef,
      activation_bias = None, activation_cusum_token_count = None,
      activation_act_mode = '''', activation_is_gated = gb, activation_start_expert_id = 0,
      activation_expert_size = 0\<rparr>"

record ReshapePagedCacheParams =
  reshape_paged_cache_key :: torch
  reshape_paged_cache_value :: "torch option"
  reshape_paged_cache_k_cache :: torch
  reshape_paged_cache_v_cache :: "torch option"
  reshape_paged_cache_slot_mapping :: torch
  reshape_paged_cache_direction :: bool
  reshape_paged_cache_k_cache_scale :: "torch option"
  reshape_paged_cache_v_cache_scale :: "torch option"

definition default_ReshapePagedCacheParams :: ReshapePagedCacheParams where
  "default_ReshapePagedCacheParams =
     \<lparr>reshape_paged_cache_key = TUndef, reshape_paged_cache_value = None,
      reshape_paged_cache_k_cache = TUndef, reshape_paged_cache_v_cache = None,
      reshape_paged_cache_slot_mapping = TUndef, reshape_paged_cache_direction = False,
      reshape_paged_cache_k_cache_scale = None, reshape_paged_cache_v_cache_scale = None\<rparr>"

record ReshapeFromCacheParams =
  reshape_from_cache_key :: torch
  reshape_from_cache_value :: "torch option"
  reshape_from_cache_key_cache :: torch
  reshape_from_cache_value_cache :: "torch option"
  reshape_from_cache_context_lengths :: torch
  reshape_from_cache_max_context_len :: int
  reshape_from_cache_context_seq_offset :: "torch option"
  reshape_from_cache_block_tables :: "torch option"
  reshape_from_cache_cache_seq_offset :: "torch option"
  reshape_from_cache_key_cache_quant_scale :: "torch option"
  reshape_from_cache_value_cache_quant_scale :: "torch option"
  reshape_from_cache_quant_mode :: int
  reshape_from_cache_quant_bit :: int

definition default_ReshapeFromCacheParams :: "int \<Rightarrow> ReshapeFromCacheParams" where
  "default_ReshapeFromCacheParams gi =
     \<lparr>reshape_from_cache_key = TUndef, reshape_from_cache_value = None,
      reshape_from_cache_key_cache = TUndef, reshape_from_cache_value_cache = None,
      reshape_from_cache_context_lengths = TUndef, reshape_from_cache_max_context_len = gi,
      reshape_from_cache_context_seq_offset = None, reshape_from_cache_block_tables = None,
      reshape_from_cache_cache_seq_offset = None,
      reshape_from_cache_key_cache_quant_scale = None,
      reshape_from_cache_value_cache_quant_scale = None, reshape_from_cache_quant_mode = 1,
      reshape_from_cache_quant_bit = 8\<rparr>"

record FusedLayerNormParams =
  fused_layer_norm_input :: torch
  fused_layer_norm_output :: torch
  fused_layer_norm_residual :: "torch option"
  fused_layer_norm_weight :: torch
  fused_layer_norm_beta :: "torch option"
  fused_layer_norm_bias :: "torch option"
  fused_layer_norm_quant_scale :: "torch option"
  fused_layer_norm_residual_out :: "torch option"
  fused_layer_norm_smooth_quant_scale :: "torch option"
  fused_layer_norm_normed_out :: "torch option"
  fused_layer_norm_mode :: string
  fused_layer_norm_eps :: rat
  fused_layer_norm_store_output_before_norm :: bool
  fused_layer_norm_store_output_after_norm :: bool
  fused_layer_norm_dynamic_quant :: bool

definition default_FusedLayerNormParams :: "rat \<Rightarrow> FusedLayerNormParams" where
  "default_FusedLayerNormParams gr =
     \<lparr>fused_layer_norm_input = TUndef, fused_layer_norm_output = TUndef,
      fused_layer_norm_residual = None, fused_layer_norm_weight = TUndef,
      fused_layer_norm_beta = None, fused_layer_norm_bias = None,
      fused_layer_norm_quant_scale = None, fused_layer_norm_residual_out = None,
      fused_layer_norm_smooth_quant_scale = None, fused_layer_norm_normed_out = None,
      fused_layer_norm_mode = '''', fused_layer_norm_eps = gr,
      fused_layer_norm_store_output_before_norm = False,
      fused_layer_norm_store_output_after_norm = False,
      fused_layer_norm_dynamic_quant = False\<rparr>"

record MatmulParams =
  matmul_a :: torch
  matmul_b :: torch
  matmul_bias :: "torch option"
  matmul_c :: "torch option"
  matmul_alpha :: rat
  matmul_beta :: rat

definition default_MatmulParams :: "MatmulParams" where
  "default_MatmulParams =
     \<lparr>matmul_a = TUndef, matmul_b = TUndef, matmul_bias = None, matmul_c = None,
      matmul_alpha = 1, matmul_beta = 0\<rparr>"

record GroupGemmParams =
  group_gemm_a :: torch
  group_gemm_b :: torch
  group_gemm_token_count :: torch
  group_gemm_output :: torch
  group_gemm_a_scale :: "torch option"
  group_gemm_b_scale :: "torch option"
  group_gemm_quant_flag :: "int list option"
  group_gemm_max_dim :: int
  group_gemm_trans_a :: bool
  group_gemm_trans_b :: bool
  group_gemm_a_quant_bit :: int
  group_gemm_x_list :: "torch list option"
  group_gemm_weight_list :: "torch list option"
  group_gemm_bias_list :: "torch list option"
  group_gemm_scale_list :: "torch list option"
  group_gemm_offset_list :: "torch list option"
  group_gemm_antiquant_scale_list :: "torch list option"
  group_gemm_antiquant_offset_list :: "torch list option"
  group_gemm_per_token_scale_list :: "torch list option"
  group_gemm_group_list :: "torch option"
  group_gemm_activation_input_list :: "torch list option"
  group_gemm_activation_quant_scale_list :: "torch list option"
  group_gemm_activation_quant_offset_list :: "torch list option"
  group_gemm_split_item :: "int option"
  group_gemm_group_type :: "int option"
  group_gemm_group_list_type :: "int option"
  group_gemm_act_type :: "int option"
  group_gemm_tuning_config :: "int list option"
  group_gemm_output_dtype :: "DType option"
  group_gemm_combine_idx :: "torch option"

definition default_GroupGemmParams :: "int \<Rightarrow> bool \<Rightarrow> GroupGemmParams" where
  "default_GroupGemmParams gi gb =
     \<lparr>group_gemm_a = TUndef, group_gemm_b = TUndef,
      group_gemm_token_count = TUndef, group_gemm_output = TUndef,
      group_gemm_a_scale = None, group_gemm_b_scale = None, group_gemm_quant_flag = None,
      group_gemm_max_dim = gi, group_gemm_trans_a = gb, group_gemm_trans_b = gb,
      group_gemm_a_quant_bit = gi, group_gemm_x_list = None, group_gemm_weight_list = None,
      group_gemm_bias_list = None, group_gemm_scale_list = None,
      group_gemm_offset_list = None, group_gemm_antiquant_scale_list = None,
      group_gemm_antiquant_offset_list = None, group_gemm_per_token_scale_list = None,
      group_gemm_group_list = None, group_gemm_activation_input_list = None,
      group_gemm_activation_quant_scale_list = None,
      group_gemm_activation_quant_offset_list = None, group_gemm_split_item = Some 2,
      group_gemm_group_type = Some 0, group_gemm_group_list_type = Some 1,
      group_gemm_act_type = None, group_gemm_tuning_config = None,
      group_gemm_output_dtype = None, group_gemm_combine_idx = None\<rparr>"

record MoeFusedTopkParams =
  moe_fused_topk_input :: torch
  moe_fused_topk_finished :: "torch option"
  moe_fused_topk_topk :: int
  moe_fused_topk_num_expert_group :: int
  moe_fused_topk_topk_group :: int
  moe_fused_topk_normalize :: bool
  moe_fused_topk_mask :: "torch option"
  moe_fused_topk_normed_by :: string
  moe_fused_topk_scoring_func :: string
  moe_fused_topk_route_scale :: rat
  moe_fused_topk_e_score_correction_bias :: "torch option"

definition default_MoeFusedTopkParams :: "int \<Rightarrow> bool \<Rightarrow> rat \<Rightarrow> MoeFusedTopkParams" where
  "default_MoeFusedTopkParams gi gb gr =
     \<lparr>moe_fused_topk_input = TUndef, moe_fused_topk_finished = None,
      moe_fused_topk_topk = gi, moe_fused_topk_num_expert_group = gi,
      moe_fused_topk_topk_group = gi, moe_fused_topk_normalize = gb,
      moe_fused_topk_mask = None, moe_fused_topk_normed_by = '''',
      moe_fused_topk_scoring_func = '''', moe_fused_topk_route_scale = gr,
      moe_fused_topk_e_score_correction_bias = None\<rparr>"

record MoeGenIdxParams =
  moe_gen_idx_expert_id :: torch
  moe_gen_idx_expert_num :: int

definition default_MoeGenIdxParams :: "int \<Rightarrow> MoeGenIdxParams" where
  "default_MoeGenIdxParams gi =
     \<lparr>moe_gen_idx_expert_id = TUndef, moe_gen_idx_expert_num = gi\<rparr>"

record MoeExpandInputParams =
  moe_expand_input_input :: torch
  moe_expand_input_gather_index :: torch
  moe_expand_input_cusum_token_count :: "torch option"
  moe_expand_input_start_expert_id :: int
  moe_expand_input_expert_size :: int
  moe_expand_input_combine_idx :: torch
  moe_expand_input_topk :: int

definition default_MoeExpandInputParams :: "int \<Rightarrow> MoeExpandInputParams" where
  "default_MoeExpandInputParams gi =
     \<lparr>moe_expand_input_input = TUndef, moe_expand_input_gather_index = TUndef,
      moe_expand_input_cusum_token_count = None, moe_expand_input_start_expert_id = gi,
      moe_expand_input_expert_size = gi, moe_expand_input_combine_idx = TUndef,
      moe_expand_input_topk = gi\<rparr>"

record MoeCombineResultParams =
  moe_combine_result_input :: torch
  moe_combine_result_reduce_weight :: torch
  moe_combine_result_gather_ids :: torch
  moe_combine_result_probes :: "torch option"
  moe_combine_result_padded_mode :: bool
  moe_combine_result_restore_shape :: "int list option"
  moe_combine_result_residual :: "torch option"
  moe_combine_result_cusum_token_count :: "torch option"
  moe_combine_result_start_expert_id :: int
  moe_combine_result_expert_size :: int
  moe_combine_result_bias :: "torch option"

definition default_MoeCombineResultParams :: "MoeCombineResultParams" where
  "default_MoeCombineResultParams =
     \<lparr>moe_combine_result_input = TUndef,
      moe_combine_result_reduce_weight = TUndef, moe_combine_result_gather_ids = TUndef,
      moe_combine_result_probes = None, moe_combine_result_padded_mode = False,
      moe_combine_result_restore_shape = None, moe_combine_result_residual = None,
      moe_combine_result_cusum_token_count = None, moe_combine_result_start_expert_id = 0,
      moe_combine_result_expert_size = 0, moe_combine_result_bias = None\<rparr>"

record MoeAll2AllGenSendLayoutParams =
  moe_all2_all_gen_send_layout_token_count :: torch
  moe_all2_all_gen_send_layout_nrank :: int

definition default_MoeAll2AllGenSendLayoutParams :: "int \<Rightarrow> MoeAll2AllGenSendLayoutParams" where
  "default_MoeAll2AllGenSendLayoutParams gi =
     \<lparr>moe_all2_all_gen_send_layout_token_count = TUndef,
      moe_all2_all_gen_send_layout_nrank = gi\<rparr>"

record MoeAll2AllGenGatherIndexParams =
  moe_all2_all_gen_gather_index_token_num :: torch
  moe_all2_all_gen_gather_index_pad_num :: int
  moe_all2_all_gen_gather_index_return_cusum_token_count :: bool

definition default_MoeAll2AllGenGatherIndexParams :: "int \<Rightarrow> MoeAll2AllGenGatherIndexParams" where
  "default_MoeAll2AllGenGatherIndexParams gi =
     \<lparr>moe_all2_all_gen_gather_index_token_num = TUndef,
      moe_all2_all_gen_gather_index_pad_num = gi,
      moe_all2_all_gen_gather_index_return_cusum_token_count = False\<rparr>"

record MoeAll2AllCreateParams =
  moe_all2_all_create_dispatch_token_byte :: int
  moe_all2_all_create_combine_token_byte :: int
  moe_all2_all_create_max_expert_num :: int
  moe_all2_all_create_max_token_num :: int
  moe_all2_all_create_rank :: int
  moe_all2_all_create_nrank :: int
  moe_all2_all_create_device :: device

definition default_MoeAll2AllCreateParams :: "int \<Rightarrow> MoeAll2AllCreateParams" where
  "default_MoeAll2AllCreateParams gi =
     \<lparr>moe_all2_all_create_dispatch_token_byte = gi,
      moe_all2_all_create_combine_token_byte = gi, moe_all2_all_create_max_expert_num = gi,
      moe_all2_all_create_max_token_num = gi, moe_all2_all_create_rank = gi,
      moe_all2_all_create_nrank = gi, moe_all2_all_create_device = kCPU\<rparr>"

record MoeAll2AllInitParams =
  moe_all2_all_init_handle :: int
  moe_all2_all_init_all_exchange_info :: torch
  moe_all2_all_init_device :: device

definition default_MoeAll2AllInitParams :: "int \<Rightarrow> MoeAll2AllInitParams" where
  "default_MoeAll2AllInitParams gi =
     \<lparr>moe_all2_all_init_handle = gi, moe_all2_all_init_all_exchange_info = TUndef,
      moe_all2_all_init_device = kCPU\<rparr>"

record MoeAll2AllDispatchParams =
  moe_all2_all_dispatch_handle :: int
  moe_all2_all_dispatch_token_byte :: int
  moe_all2_all_dispatch_token_num :: int
  moe_all2_all_dispatch_send_layout :: torch
  moe_all2_all_dispatch_send_token_num :: torch
  moe_all2_all_dispatch_recv_layout :: torch
  moe_all2_all_dispatch_recv_token_num :: torch
  moe_all2_all_dispatch_send_token :: "torch option"
  moe_all2_all_dispatch_recv_token :: "torch option"

definition default_MoeAll2AllDispatchParams :: "int \<Rightarrow> MoeAll2AllDispatchParams" where
  "default_MoeAll2AllDispatchParams gi =
     \<lparr>moe_all2_all_dispatch_handle = gi, moe_all2_all_dispatch_token_byte = gi,
      moe_all2_all_dispatch_token_num = gi, moe_all2_all_dispatch_send_layout = TUndef,
      moe_all2_all_dispatch_send_token_num = TUndef,
      moe_all2_all_dispatch_recv_layout = TUndef,
      moe_all2_all_dispatch_recv_token_num = TUndef,
      moe_all2_all_dispatch_send_token = None, moe_all2_all_dispatch_recv_token = None\<rparr>"

record MoeAll2AllCombineParams =
  moe_all2_all_combine_handle :: int
  moe_all2_all_combine_token_byte :: int
  moe_all2_all_combine_token_num :: int
  moe_all2_all_combine_send_src_layout :: torch
  moe_all2_all_combine_send_dst_layout :: torch
  moe_all2_all_combine_send_token :: "torch option"
  moe_all2_all_combine_recv_token :: "torch option"

definition default_MoeAll2AllCombineParams :: "int \<Rightarrow> MoeAll2AllCombineParams" where
  "default_MoeAll2AllCombineParams gi =
     \<lparr>moe_all2_all_combine_handle = gi, moe_all2_all_combine_token_byte = gi,
      moe_all2_all_combine_token_num = gi, moe_all2_all_combine_send_src_layout = TUndef,
      moe_all2_all_combine_send_dst_layout = TUndef,
      moe_all2_all_combine_send_token = None, moe_all2_all_combine_recv_token = None\<rparr>"

record MoeAll2AllDestroyParams =
  moe_all2_all_destroy_handle :: int
  moe_all2_all_destroy_device :: device

definition default_MoeAll2AllDestroyParams :: "int \<Rightarrow> MoeAll2AllDestroyParams" where
  "default_MoeAll2AllDestroyParams gi =
     \<lparr>moe_all2_all_destroy_handle = gi, moe_all2_all_destroy_device = kCPU\<rparr>"

record ScaledQuantizeParams =
  scaled_quantize_x :: torch
  scaled_quantize_smooth :: torch
  scaled_quantize_zero :: "torch option"
  scaled_quantize_token_count :: "torch option"
  scaled_quantize_gather_index :: "torch option"
  scaled_quantize_gather_index_start_position :: "torch option"
  scaled_quantize_output :: "torch option"
  scaled_quantize_output_scale :: "torch option"
  scaled_quantize_act_mode :: string
  scaled_quantize_active_coef :: rat
  scaled_quantize_is_gated :: bool
  scaled_quantize_quant_type :: DType

definition default_ScaledQuantizeParams :: "ScaledQuantizeParams" where
  "default_ScaledQuantizeParams =
     \<lparr>scaled_quantize_x = TUndef, scaled_quantize_smooth = TUndef,
      scaled_quantize_zero = None, scaled_quantize_token_count = None,
      scaled_quantize_gather_index = None,
      scaled_quantize_gather_index_start_position = None, scaled_quantize_output = None,
      scaled_quantize_output_scale = None, scaled_quantize_act_mode = ''none'',
      scaled_quantize_active_coef = 1, scaled_quantize_is_gated = False,
      scaled_quantize_quant_type = kChar\<rparr>"

record ScaledMatmulParams =
  scaled_matmul_a :: torch
  scaled_matmul_b :: torch
  scaled_matmul_a_scale :: "torch option"
  scaled_matmul_b_scale :: torch
  scaled_matmul_output_dtype :: DType
  scaled_matmul_bias :: "torch option"
  scaled_matmul_c :: "torch option"
  scaled_matmul_act_mode :: string
  scaled_matmul_quant_bit_size :: int
  scaled_matmul_alpha :: rat
  scaled_matmul_beta :: rat
  scaled_matmul_use_hp_active :: bool
  scaled_matmul_a_quant_bit_size :: int
  scaled_matmul_a_calib :: "torch option"
  scaled_matmul_b_calib :: "torch option"
  scaled_matmul_output :: "torch option"

definition default_ScaledMatmulParams :: "DType \<Rightarrow> ScaledMatmulParams" where
  "default_ScaledMatmulParams gd =
     \<lparr>scaled_matmul_a = TUndef, scaled_matmul_b = TUndef,
      scaled_matmul_a_scale = None, scaled_matmul_b_scale = TUndef,
      scaled_matmul_output_dtype = gd, scaled_matmul_bias = None, scaled_matmul_c = None,
      scaled_matmul_act_mode = ''none'', scaled_matmul_quant_bit_size = 8,
      scaled_matmul_alpha = 1, scaled_matmul_beta = 1, scaled_matmul_use_hp_active = False,
      scaled_matmul_a_quant_bit_size = - 1, scaled_matmul_a_calib = None,
      scaled_matmul_b_calib = None, scaled_matmul_output = None\<rparr>"

record TopKPParams =
  top_kp_logits :: torch
  top_kp_temperatures :: torch
  top_kp_top_k :: torch
  top_kp_top_p :: torch

definition default_TopKPParams :: "TopKPParams" where
  "default_TopKPParams =
     \<lparr>top_kp_logits = TUndef, top_kp_temperatures = TUndef,
      top_kp_top_k = TUndef, top_kp_top_p = TUndef\<rparr>"

record RandomSampleParams =
  random_sample_logits :: torch

definition default_RandomSampleParams :: "RandomSampleParams" where
  "default_RandomSampleParams =
     \<lparr>random_sample_logits = TUndef\<rparr>"

record RejectionSampleParams =
  rejection_sample_draft_token_ids :: torch
  rejection_sample_num_draft_tokens :: torch
  rejection_sample_cu_num_draft_tokens :: torch
  rejection_sample_draft_probs :: "torch option"
  rejection_sample_target_probs :: torch
  rejection_sample_bonus_token_ids :: torch
  rejection_sample_uniform_rand :: torch
  rejection_sample_uniform_probs :: torch
  rejection_sample_max_spec_len :: int

definition default_RejectionSampleParams :: "int \<Rightarrow> RejectionSampleParams" where
  "default_RejectionSampleParams gi =
     \<lparr>rejection_sample_draft_token_ids = TUndef,
      rejection_sample_num_draft_tokens = TUndef,
      rejection_sample_cu_num_draft_tokens = TUndef, rejection_sample_draft_probs = None,
      rejection_sample_target_probs = TUndef, rejection_sample_bonus_token_ids = TUndef,
      rejection_sample_uniform_rand = TUndef, rejection_sample_uniform_probs = TUndef,
      rejection_sample_max_spec_len = gi\<rparr>"

record MaskedIndexerSelectPagedKVParams =
  masked_indexer_select_paged_kv_query :: torch
  masked_indexer_select_paged_kv_k_cache :: torch
  masked_indexer_select_paged_kv_weights :: torch
  masked_indexer_select_paged_kv_k_cache_block_table :: "torch option"
  masked_indexer_select_paged_kv_cu_seq_q_lens :: "torch option"
  masked_indexer_select_paged_kv_cu_seq_k_lens :: "torch option"
  masked_indexer_select_paged_kv_k_context_lens :: "torch option"
  masked_indexer_select_paged_kv_kv_cache_block_table :: torch
  masked_indexer_select_paged_kv_is_prefill :: bool
  masked_indexer_select_paged_kv_index_topk :: int
  masked_indexer_select_paged_kv_kv_cache_block_size :: int
  masked_indexer_select_paged_kv_softmax_scale :: rat
  masked_indexer_select_paged_kv_q_scale :: "torch option"
  masked_indexer_select_paged_kv_k_scale_cache :: "torch option"
  masked_indexer_select_paged_kv_sparse_block_table :: torch
  masked_indexer_select_paged_kv_sparse_context_lens :: torch

definition default_MaskedIndexerSelectPagedKVParams :: "bool \<Rightarrow> int \<Rightarrow> rat \<Rightarrow> MaskedIndexerSelectPagedKVParams" where
  "default_MaskedIndexerSelectPagedKVParams gb gi gr =
     \<lparr>masked_indexer_select_paged_kv_query = TUndef,
      masked_indexer_select_paged_kv_k_cache = TUndef,
      masked_indexer_select_paged_kv_weights = TUndef,
      masked_indexer_select_paged_kv_k_cache_block_table = None,
      masked_indexer_select_paged_kv_cu_seq_q_lens = None,
      masked_indexer_select_paged_kv_cu_seq_k_lens = None,
      masked_indexer_select_paged_kv_k_context_lens = None,
      masked_indexer_select_paged_kv_kv_cache_block_table = TUndef,
      masked_indexer_select_paged_kv_is_prefill = gb,
      masked_indexer_select_paged_kv_index_topk = gi,
      masked_indexer_select_paged_kv_kv_cache_block_size = gi,
      masked_indexer_select_paged_kv_softmax_scale = gr,
      masked_indexer_select_paged_kv_q_scale = None,
      masked_indexer_select_paged_kv_k_scale_cache = None,
      masked_indexer_select_paged_kv_sparse_block_table = TUndef,
      masked_indexer_select_paged_kv_sparse_context_lens = TUndef\<rparr>"

record GatherSplitParams =
  gather_split_input :: torch
  gather_split_gather_index :: torch
  gather_split_valid_token_num :: torch
  gather_split_output_head :: torch
  gather_split_output_tail :: torch

definition default_GatherSplitParams :: "GatherSplitParams" where
  "default_GatherSplitParams =
     \<lparr>gather_split_input = TUndef, gather_split_gather_index = TUndef,
      gather_split_valid_token_num = TUndef, gather_split_output_head = TUndef,
      gather_split_output_tail = TUndef\<rparr>"

record FusedMlaQParams =
  fused_mla_q_q :: torch
  fused_mla_q_output :: torch
  fused_mla_q_output_scale :: torch
  fused_mla_q_output_norm :: "torch option"
  fused_mla_q_gamma :: torch
  fused_mla_q_smooth_quant_scale :: "torch option"
  fused_mla_q_weight_b :: torch
  fused_mla_q_weight_b_scale :: torch
  fused_mla_q_weight_c :: torch
  fused_mla_q_sin :: torch
  fused_mla_q_cos :: torch
  fused_mla_q_position_id :: torch
  fused_mla_q_quant_mode :: string
  fused_mla_q_eps :: rat
  fused_mla_q_interleaved :: bool

definition default_FusedMlaQParams :: "FusedMlaQParams" where
  "default_FusedMlaQParams =
     \<lparr>fused_mla_q_q = TUndef, fused_mla_q_output = TUndef,
      fused_mla_q_output_scale = TUndef, fused_mla_q_output_norm = None,
      fused_mla_q_gamma = TUndef, fused_mla_q_smooth_quant_scale = None,
      fused_mla_q_weight_b = TUndef, fused_mla_q_weight_b_scale = TUndef,
      fused_mla_q_weight_c = TUndef, fused_mla_q_sin = TUndef,
      fused_mla_q_cos = TUndef, fused_mla_q_position_id = TUndef,
      fused_mla_q_quant_mode = ''none'', fused_mla_q_eps = 1 / 1000000,
      fused_mla_q_interleaved = True\<rparr>"

record FusedMlaKVParams =
  fused_mla_kv_input_kv :: torch
  fused_mla_kv_sin :: torch
  fused_mla_kv_cos :: torch
  fused_mla_kv_position_id :: torch
  fused_mla_kv_gamma :: torch
  fused_mla_kv_kv_cache :: torch
  fused_mla_kv_kv_cache_scale :: "torch option"
  fused_mla_kv_slot_mapping :: "torch option"
  fused_mla_kv_cache_bs_id :: "torch option"
  fused_mla_kv_cache_seq_offset :: "torch option"
  fused_mla_kv_quant_mode :: string
  fused_mla_kv_is_paged_cache :: bool
  fused_mla_kv_eps :: rat
  fused_mla_kv_interleaved :: bool

definition default_FusedMlaKVParams :: "FusedMlaKVParams" where
  "default_FusedMlaKVParams =
     \<lparr>fused_mla_kv_input_kv = TUndef, fused_mla_kv_sin = TUndef,
      fused_mla_kv_cos = TUndef, fused_mla_kv_position_id = TUndef,
      fused_mla_kv_gamma = TUndef, fused_mla_kv_kv_cache = TUndef,
      fused_mla_kv_kv_cache_scale = None, fused_mla_kv_slot_mapping = None,
      fused_mla_kv_cache_bs_id = None, fused_mla_kv_cache_seq_offset = None,
      fused_mla_kv_quant_mode = ''none'', fused_mla_kv_is_paged_cache = True,
      fused_mla_kv_eps = 1 / 1000000, fused_mla_kv_interleaved = True\<rparr>"

record FusedIndexerQParams =
  fused_indexer_q_input_q :: torch
  fused_indexer_q_output :: torch
  fused_indexer_q_output_scale :: "torch option"
  fused_indexer_q_w_q :: torch
  fused_indexer_q_w_q_scale :: "torch option"
  fused_indexer_q_hadamard_matrix :: "torch option"
  fused_indexer_q_sin :: torch
  fused_indexer_q_cos :: torch
  fused_indexer_q_position_id :: torch
  fused_indexer_q_quant_mode :: string
  fused_indexer_q_interleaved :: bool
  fused_indexer_q_rope_at_front :: bool

definition default_FusedIndexerQParams :: "FusedIndexerQParams" where
  "default_FusedIndexerQParams =
     \<lparr>fused_indexer_q_input_q = TUndef, fused_indexer_q_output = TUndef,
      fused_indexer_q_output_scale = None, fused_indexer_q_w_q = TUndef,
      fused_indexer_q_w_q_scale = None, fused_indexer_q_hadamard_matrix = None,
      fused_indexer_q_sin = TUndef, fused_indexer_q_cos = TUndef,
      fused_indexer_q_position_id = TUndef, fused_indexer_q_quant_mode = ''none'',
      fused_indexer_q_interleaved = True, fused_indexer_q_rope_at_front = True\<rparr>"

record FusedIndexerKParams =
  fused_indexer_k_x :: torch
  fused_indexer_k_wk :: torch
  fused_indexer_k_wproj :: torch
  fused_indexer_k_sin_table :: torch
  fused_indexer_k_cos_table :: torch
  fused_indexer_k_position_id :: torch
  fused_indexer_k_slot_mapping :: torch
  fused_indexer_k_head_weights :: torch
  fused_indexer_k_k_cache :: torch
  fused_indexer_k_k_cache_scale :: "torch option"
  fused_indexer_k_hadamard_matrix :: "torch option"
  fused_indexer_k_interleaved :: bool
  fused_indexer_k_gamma :: "torch option"
  fused_indexer_k_beta :: "torch option"
  fused_indexer_k_eps :: rat

definition default_FusedIndexerKParams :: "FusedIndexerKParams" where
  "default_FusedIndexerKParams =
     \<lparr>fused_indexer_k_x = TUndef, fused_indexer_k_wk = TUndef,
      fused_indexer_k_wproj = TUndef, fused_indexer_k_sin_table = TUndef,
      fused_indexer_k_cos_table = TUndef, fused_indexer_k_position_id = TUndef,
      fused_indexer_k_slot_mapping = TUndef, fused_indexer_k_head_weights = TUndef,
      fused_indexer_k_k_cache = TUndef, fused_indexer_k_k_cache_scale = None,
      fused_indexer_k_hadamard_matrix = None, fused_indexer_k_interleaved = True,
      fused_indexer_k_gamma = None, fused_indexer_k_beta = None,
      fused_indexer_k_eps = 1 / 1000000\<rparr>"

record MoeInitRoutingV2Params =
  moe_init_routing_v2_x :: torch
  moe_init_routing_v2_expert_idx :: torch
  moe_init_routing_v2_scale :: "torch option"
  moe_init_routing_v2_offset :: "torch option"
  moe_init_routing_v2_active_num :: int
  moe_init_routing_v2_expert_capacity :: int
  moe_init_routing_v2_expert_num :: int
  moe_init_routing_v2_drop_pad_mode :: int
  moe_init_routing_v2_expert_tokens_num_type :: int
  moe_init_routing_v2_expert_tokens_num_flag :: bool
  moe_init_routing_v2_quant_mode :: int
  moe_init_routing_v2_active_expert_range :: "int list"
  moe_init_routing_v2_row_idx_type :: int

definition default_MoeInitRoutingV2Params :: "int \<Rightarrow> bool \<Rightarrow> MoeInitRoutingV2Params" where
  "default_MoeInitRoutingV2Params gi gb =
     \<lparr>moe_init_routing_v2_x = TUndef, moe_init_routing_v2_expert_idx = TUndef,
      moe_init_routing_v2_scale = None, moe_init_routing_v2_offset = None,
      moe_init_routing_v2_active_num = gi, moe_init_routing_v2_expert_capacity = gi,
      moe_init_routing_v2_expert_num = gi, moe_init_routing_v2_drop_pad_mode = gi,
      moe_init_routing_v2_expert_tokens_num_type = gi,
      moe_init_routing_v2_expert_tokens_num_flag = gb, moe_init_routing_v2_quant_mode = gi,
      moe_init_routing_v2_active_expert_range = [], moe_init_routing_v2_row_idx_type = gi\<rparr>"

record Fp8ScaledQuantizeParams =
  fp8_scaled_quantize_input :: torch
  fp8_scaled_quantize_output :: "torch option"
  fp8_scaled_quantize_scale :: "torch option"

definition default_Fp8ScaledQuantizeParams :: "Fp8ScaledQuantizeParams" where
  "default_Fp8ScaledQuantizeParams =
     \<lparr>fp8_scaled_quantize_input = TUndef, fp8_scaled_quantize_output = None,
      fp8_scaled_quantize_scale = None\<rparr>"

record Fp8ScaledMatmulParams =
  fp8_scaled_matmul_a :: torch
  fp8_scaled_matmul_b :: torch
  fp8_scaled_matmul_a_scale :: torch
  fp8_scaled_matmul_b_scale :: torch
  fp8_scaled_matmul_bias :: "torch option"
  fp8_scaled_matmul_output :: "torch option"
  fp8_scaled_matmul_output_dtype :: DType
  fp8_scaled_matmul_input_shape :: "int list option"

definition default_Fp8ScaledMatmulParams :: "DType \<Rightarrow> Fp8ScaledMatmulParams" where
  "default_Fp8ScaledMatmulParams gd =
     \<lparr>fp8_scaled_matmul_a = TUndef, fp8_scaled_matmul_b = TUndef,
      fp8_scaled_matmul_a_scale = TUndef, fp8_scaled_matmul_b_scale = TUndef,
      fp8_scaled_matmul_bias = None, fp8_scaled_matmul_output = None,
      fp8_scaled_matmul_output_dtype = gd, fp8_scaled_matmul_input_shape = None\<rparr>"

record StaticScaledFp8QuantParams =
  static_scaled_fp8_quant_output :: torch
  static_scaled_fp8_quant_input :: torch
  static_scaled_fp8_quant_scale :: torch

definition default_StaticScaledFp8QuantParams :: "StaticScaledFp8QuantParams" where
  "default_StaticScaledFp8QuantParams =
     \<lparr>static_scaled_fp8_quant_output = TUndef,
      static_scaled_fp8_quant_input = TUndef, static_scaled_fp8_quant_scale = TUndef\<rparr>"

record RmsNormStaticFp8QuantParams =
  rms_norm_static_fp8_quant_input :: torch
  rms_norm_static_fp8_quant_weight :: torch
  rms_norm_static_fp8_quant_scale :: torch
  rms_norm_static_fp8_quant_epsilon :: rat

definition default_RmsNormStaticFp8QuantParams :: "rat \<Rightarrow> RmsNormStaticFp8QuantParams" where
  "default_RmsNormStaticFp8QuantParams gr =
     \<lparr>rms_norm_static_fp8_quant_input = TUndef,
      rms_norm_static_fp8_quant_weight = TUndef,
      rms_norm_static_fp8_quant_scale = TUndef, rms_norm_static_fp8_quant_epsilon = gr\<rparr>"

record FusedAddRmsNormStaticFp8QuantParams =
  fused_add_rms_norm_static_fp8_quant_input :: torch
  fused_add_rms_norm_static_fp8_quant_residual :: torch
  fused_add_rms_norm_static_fp8_quant_weight :: torch
  fused_add_rms_norm_static_fp8_quant_scale :: torch
  fused_add_rms_norm_static_fp8_quant_epsilon :: rat

definition default_FusedAddRmsNormStaticFp8QuantParams :: "rat \<Rightarrow> FusedAddRmsNormStaticFp8QuantParams" where
  "default_FusedAddRmsNormStaticFp8QuantParams gr =
     \<lparr>fused_add_rms_norm_static_fp8_quant_input = TUndef,
      fused_add_rms_norm_static_fp8_quant_residual = TUndef,
      fused_add_rms_norm_static_fp8_quant_weight = TUndef,
      fused_add_rms_norm_static_fp8_quant_scale = TUndef,
      fused_add_rms_norm_static_fp8_quant_epsilon = gr\<rparr>"

record FusedGdnGatingParams =
  fused_gdn_gating_A_log :: torch
  fused_gdn_gating_a :: torch
  fused_gdn_gating_b :: torch
  fused_gdn_gating_dt_bias :: torch
  fused_gdn_gating_beta :: rat
  fused_gdn_gating_threshold :: rat

definition default_FusedGdnGatingParams :: "FusedGdnGatingParams" where
  "default_FusedGdnGatingParams =
     \<lparr>fused_gdn_gating_A_log = TUndef, fused_gdn_gating_a = TUndef,
      fused_gdn_gating_b = TUndef, fused_gdn_gating_dt_bias = TUndef,
      fused_gdn_gating_beta = 1, fused_gdn_gating_threshold = 20\<rparr>"

record FusedRecurrentGatedDeltaRuleParams =
  fused_recurrent_gated_delta_rule_q :: torch
  fused_recurrent_gated_delta_rule_k :: torch
  fused_recurrent_gated_delta_rule_v :: torch
  fused_recurrent_gated_delta_rule_g :: torch
  fused_recurrent_gated_delta_rule_beta :: "torch option"
  fused_recurrent_gated_delta_rule_scale :: "rat option"
  fused_recurrent_gated_delta_rule_initial_state :: "torch option"
  fused_recurrent_gated_delta_rule_inplace_final_state :: bool
  fused_recurrent_gated_delta_rule_cu_seqlens :: "torch option"
  fused_recurrent_gated_delta_rule_ssm_state_indices :: "torch option"
  fused_recurrent_gated_delta_rule_num_accepted_tokens :: "torch option"
  fused_recurrent_gated_delta_rule_use_qk_l2norm_in_kernel :: bool

definition default_FusedRecurrentGatedDeltaRuleParams :: "FusedRecurrentGatedDeltaRuleParams" where
  "default_FusedRecurrentGatedDeltaRuleParams =
     \<lparr>fused_recurrent_gated_delta_rule_q = TUndef,
      fused_recurrent_gated_delta_rule_k = TUndef,
      fused_recurrent_gated_delta_rule_v = TUndef,
      fused_recurrent_gated_delta_rule_g = TUndef,
      fused_recurrent_gated_delta_rule_beta = None,
      fused_recurrent_gated_delta_rule_scale = None,
      fused_recurrent_gated_delta_rule_initial_state = None,
      fused_recurrent_gated_delta_rule_inplace_final_state = True,
      fused_recurrent_gated_delta_rule_cu_seqlens = None,
      fused_recurrent_gated_delta_rule_ssm_state_indices = None,
      fused_recurrent_gated_delta_rule_num_accepted_tokens = None,
      fused_recurrent_gated_delta_rule_use_qk_l2norm_in_kernel = False\<rparr>"

record CausalConv1dUpdateParams =
  causal_conv1d_update_x :: torch
  causal_conv1d_update_conv_state :: torch
  causal_conv1d_update_weight :: torch
  causal_conv1d_update_activation :: bool
  causal_conv1d_update_bias :: "torch option"
  causal_conv1d_update_conv_state_indices :: "torch option"
  causal_conv1d_update_query_start_loc :: "torch option"
  causal_conv1d_update_max_query_len :: int
  causal_conv1d_update_pad_slot_id :: int
  causal_conv1d_update_block_idx_last_scheduled_token :: "torch option"
  causal_conv1d_update_initial_state_idx :: "torch option"
  causal_conv1d_update_validate_data :: bool

definition default_CausalConv1dUpdateParams :: "CausalConv1dUpdateParams" where
  "default_CausalConv1dUpdateParams =
     \<lparr>causal_conv1d_update_x = TUndef, causal_conv1d_update_conv_state = TUndef,
      causal_conv1d_update_weight = TUndef, causal_conv1d_update_activation = True,
      causal_conv1d_update_bias = None, causal_conv1d_update_conv_state_indices = None,
      causal_conv1d_update_query_start_loc = None, causal_conv1d_update_max_query_len = - 1,
      causal_conv1d_update_pad_slot_id = - 1,
      causal_conv1d_update_block_idx_last_scheduled_token = None,
      causal_conv1d_update_initial_state_idx = None,
      causal_conv1d_update_validate_data = False\<rparr>"

record GatedLayerNormParams =
  gated_layer_norm_x :: torch
  gated_layer_norm_weight :: torch
  gated_layer_norm_bias :: torch
  gated_layer_norm_eps :: rat
  gated_layer_norm_z :: "torch option"
  gated_layer_norm_group_size :: int
  gated_layer_norm_norm_before_gate :: bool
  gated_layer_norm_is_rms_norm :: bool

definition default_GatedLayerNormParams :: "rat \<Rightarrow> GatedLayerNormParams" where
  "default_GatedLayerNormParams gr =
     \<lparr>gated_layer_norm_x = TUndef, gated_layer_norm_weight = TUndef,
      gated_layer_norm_bias = TUndef, gated_layer_norm_eps = gr, gated_layer_norm_z = None,
      gated_layer_norm_group_size = - 1, gated_layer_norm_norm_before_gate = True,
      gated_layer_norm_is_rms_norm = True\<rparr>"

record PartialRotaryEmbeddingParams =
  partial_rotary_embedding_positions :: torch
  partial_rotary_embedding_query :: torch
  partial_rotary_embedding_key :: torch
  partial_rotary_embedding_head_size :: int
  partial_rotary_embedding_rotary_dim :: int
  partial_rotary_embedding_cos_sin_cache :: torch
  partial_rotary_embedding_is_neox_style :: bool

definition default_PartialRotaryEmbeddingParams :: "int \<Rightarrow> bool \<Rightarrow> PartialRotaryEmbeddingParams" where
  "default_PartialRotaryEmbeddingParams gi gb =
     \<lparr>partial_rotary_embedding_positions = TUndef,
      partial_rotary_embedding_query = TUndef, partial_rotary_embedding_key = TUndef,
      partial_rotary_embedding_head_size = gi, partial_rotary_embedding_rotary_dim = gi,
      partial_rotary_embedding_cos_sin_cache = TUndef,
      partial_rotary_embedding_is_neox_style = gb\<rparr>"

record FusedQkvzbaSplitReshapeParams =
  fused_qkvzba_split_reshape_mixed_qkvz :: torch
  fused_qkvzba_split_reshape_mixed_ba :: torch
  fused_qkvzba_split_reshape_num_heads_qk :: int
  fused_qkvzba_split_reshape_num_heads_v :: int
  fused_qkvzba_split_reshape_head_qk :: int
  fused_qkvzba_split_reshape_head_v :: int

definition default_FusedQkvzbaSplitReshapeParams :: "int \<Rightarrow> FusedQkvzbaSplitReshapeParams" where
  "default_FusedQkvzbaSplitReshapeParams gi =
     \<lparr>fused_qkvzba_split_reshape_mixed_qkvz = TUndef,
      fused_qkvzba_split_reshape_mixed_ba = TUndef,
      fused_qkvzba_split_reshape_num_heads_qk = gi,
      fused_qkvzba_split_reshape_num_heads_v = gi, fused_qkvzba_split_reshape_head_qk = gi,
      fused_qkvzba_split_reshape_head_v = gi\<rparr>"

record GemmaRMSNormParams =
  gemma_rms_norm_x :: torch
  gemma_rms_norm_gamma :: torch
  gemma_rms_norm_epsilon :: rat
  gemma_rms_norm_rstd_out :: torch
  gemma_rms_norm_norm_out :: torch

definition default_GemmaRMSNormParams :: "rat \<Rightarrow> GemmaRMSNormParams" where
  "default_GemmaRMSNormParams gr =
     \<lparr>gemma_rms_norm_x = TUndef, gemma_rms_norm_gamma = TUndef,
      gemma_rms_norm_epsilon = gr, gemma_rms_norm_rstd_out = TUndef,
      gemma_rms_norm_norm_out = TUndef\<rparr>"

record SplitQkvRmsnormMropeParams =
  split_qkv_rmsnorm_mrope_qkvg :: torch
  split_qkv_rmsnorm_mrope_q_weight :: torch
  split_qkv_rmsnorm_mrope_k_weight :: torch
  split_qkv_rmsnorm_mrope_cos_sin :: torch
  split_qkv_rmsnorm_mrope_gather_pattern :: torch
  split_qkv_rmsnorm_mrope_eps :: rat
  split_qkv_rmsnorm_mrope_num_q_heads :: int
  split_qkv_rmsnorm_mrope_num_kv_heads :: int
  split_qkv_rmsnorm_mrope_head_size :: int

definition default_SplitQkvRmsnormMropeParams :: "rat \<Rightarrow> int \<Rightarrow> SplitQkvRmsnormMropeParams" where
  "default_SplitQkvRmsnormMropeParams gr gi =
     \<lparr>split_qkv_rmsnorm_mrope_qkvg = TUndef,
      split_qkv_rmsnorm_mrope_q_weight = TUndef,
      split_qkv_rmsnorm_mrope_k_weight = TUndef,
      split_qkv_rmsnorm_mrope_cos_sin = TUndef,
      split_qkv_rmsnorm_mrope_gather_pattern = TUndef, split_qkv_rmsnorm_mrope_eps = gr,
      split_qkv_rmsnorm_mrope_num_q_heads = gi, split_qkv_rmsnorm_mrope_num_kv_heads = gi,
      split_qkv_rmsnorm_mrope_head_size = gi\<rparr>"

record ChunkGatedDeltaRuleParams =
  chunk_gated_delta_rule_q :: torch
  chunk_gated_delta_rule_k :: torch
  chunk_gated_delta_rule_v :: torch
  chunk_gated_delta_rule_g :: torch
  chunk_gated_delta_rule_beta :: torch
  chunk_gated_delta_rule_scale :: "rat option"
  chunk_gated_delta_rule_initial_state :: "torch option"
  chunk_gated_delta_rule_output_final_state :: bool
  chunk_gated_delta_rule_chunk_size :: int
  chunk_gated_delta_rule_cu_seqlens :: "torch option"
  chunk_gated_delta_rule_head_first :: bool
  chunk_gated_delta_rule_use_qk_l2norm_in_kernel :: bool

definition default_ChunkGatedDeltaRuleParams :: "ChunkGatedDeltaRuleParams" where
  "default_ChunkGatedDeltaRuleParams =
     \<lparr>chunk_gated_delta_rule_q = TUndef, chunk_gated_delta_rule_k = TUndef,
      chunk_gated_delta_rule_v = TUndef, chunk_gated_delta_rule_g = TUndef,
      chunk_gated_delta_rule_beta = TUndef, chunk_gated_delta_rule_scale = None,
      chunk_gated_delta_rule_initial_state = None,
      chunk_gated_delta_rule_output_final_state = False,
      chunk_gated_delta_rule_chunk_size = 64, chunk_gated_delta_rule_cu_seqlens = None,
      chunk_gated_delta_rule_head_first = False,
      chunk_gated_delta_rule_use_qk_l2norm_in_kernel = False\<rparr>"

end
