(* ===== verification/Ops_Api.thy ===== *)
theory Ops_Api
  imports Kernel_Params
begin

text \<open>
  The kernel interface (\<^verbatim>\<open>ex_engine/xllm_kernels/ops_api.cpp\<close>): every operation picks the
  implementation of the build's device and passes it the parameters it takes. The
  device kernels are the environment's: \<open>run name args\<close> is what the function \<open>name\<close> returns,
  as a list of tensors. A build without an implementation stops in \<^verbatim>\<open>NOT_IMPLEMENTED()\<close>
  or a fatal log, and \<^verbatim>\<open>optional::value\<close> throws where the optional is empty.
\<close>

section \<open>Values passed to a kernel\<close>

datatype kval =
    KT torch
  | KO "torch option"
  | KL "torch list"
  | KLO "torch list option"
  | KI int
  | KIO "int option"
  | KIs "int list"
  | KIsO "int list option"
  | KB bool
  | KR rat
  | KRO "rat option"
  | KS string
  | KD DType
  | KDO "DType option"
  | KDev device

type_synonym backends = "string \<Rightarrow> kval list \<Rightarrow> torch list result"

definition not_implemented :: "'a result" where
  "not_implemented = Inl (Abort ''NOT_IMPLEMENTED'')"

definition value_or_undef :: "torch option \<Rightarrow> torch" where
  "value_or_undef t = (case t of None \<Rightarrow> TUndef | Some u \<Rightarrow> u)"

definition opt_value :: "'a option \<Rightarrow> 'a result" where
  "opt_value x = (case x of None \<Rightarrow> Inl (Exn ''bad_optional_access'') | Some y \<Rightarrow> Inr y)"

text \<open>A kernel that returns one tensor, two tensors or three.\<close>

definition one :: "torch list \<Rightarrow> torch result" where
  "one ts = (case ts of [t] \<Rightarrow> Inr t | _ \<Rightarrow> Inl (Undefined ''kernel result''))"

definition two :: "torch list \<Rightarrow> (torch \<times> torch) result" where
  "two ts = (case ts of [t, u] \<Rightarrow> Inr (t, u) | _ \<Rightarrow> Inl (Undefined ''kernel result''))"

definition three :: "torch list \<Rightarrow> (torch \<times> torch \<times> torch) result" where
  "three ts = (case ts of [t, u, v] \<Rightarrow> Inr (t, u, v) | _ \<Rightarrow> Inl (Undefined ''kernel result''))"

lemma opt_value_simps [simp]:
  "opt_value (Some x) = Inr x" "opt_value None = Inl (Exn ''bad_optional_access'')"
  by (simp_all add: opt_value_def)

lemma result_arity_simps [simp]:
  "one [t] = Inr t" "two [t, u] = Inr (t, u)" "three [t, u, v] = Inr (t, u, v)"
  by (simp_all add: one_def two_def three_def)

section \<open>Operations with one call per device\<close>

definition reshape_paged_cache ::
    "platform \<Rightarrow> backends \<Rightarrow> ReshapePagedCacheParams \<Rightarrow> torch list result" where
  "reshape_paged_cache plat run p =
     (if plat = MLU then
        run ''mlu::reshape_paged_cache'' [KT (reshape_paged_cache_key p),
          KO (reshape_paged_cache_value p), KT (reshape_paged_cache_k_cache p),
          KO (reshape_paged_cache_v_cache p), KT (reshape_paged_cache_slot_mapping p),
          KB (reshape_paged_cache_direction p)]
      else if plat = NPU then
        run ''npu::reshape_paged_cache'' [KT (reshape_paged_cache_key p),
          KO (reshape_paged_cache_value p), KT (reshape_paged_cache_k_cache p),
          KO (reshape_paged_cache_v_cache p), KT (reshape_paged_cache_slot_mapping p)]
      else if plat = CUDA \<or> plat = MUSA then
        run ''cuda::reshape_paged_cache'' [KT (reshape_paged_cache_slot_mapping p),
          KT (reshape_paged_cache_key p), KT (value_or_undef (reshape_paged_cache_value p)),
          KT (reshape_paged_cache_k_cache p),
          KT (value_or_undef (reshape_paged_cache_v_cache p))]
      else if plat = ILU then
        run ''ilu::reshape_paged_cache'' [KT (reshape_paged_cache_key p),
          KO (reshape_paged_cache_value p), KT (reshape_paged_cache_k_cache p),
          KO (reshape_paged_cache_v_cache p), KT (reshape_paged_cache_slot_mapping p)]
      else not_implemented)"

definition reshape_from_cache ::
    "platform \<Rightarrow> backends \<Rightarrow> ReshapeFromCacheParams \<Rightarrow> torch list result" where
  "reshape_from_cache plat run p =
     (if plat = MLU then
        run ''mlu::reshape_from_cache'' [KT (reshape_from_cache_key p),
          KO (reshape_from_cache_value p), KT (reshape_from_cache_key_cache p),
          KO (reshape_from_cache_value_cache p), KT (reshape_from_cache_context_lengths p),
          KI (reshape_from_cache_max_context_len p),
          KO (reshape_from_cache_context_seq_offset p), KO (reshape_from_cache_block_tables p),
          KO (reshape_from_cache_cache_seq_offset p)]
      else not_implemented)"

definition matmul ::
    "platform \<Rightarrow> backends \<Rightarrow> MatmulParams \<Rightarrow> torch list result" where
  "matmul plat run p =
     (if plat = MLU then
        run ''mlu::matmul'' [KT (matmul_a p), KT (matmul_b p), KO (matmul_bias p),
          KO (matmul_c p), KR (matmul_alpha p), KR (matmul_beta p)]
      else if plat = NPU then
        run ''npu::matmul'' [KT (matmul_a p), KT (matmul_b p), KO (matmul_bias p)]
      else if plat = CUDA \<or> plat = MUSA then
        run ''cuda::matmul'' [KT (matmul_a p), KT (matmul_b p), KO (matmul_bias p)]
      else if plat = ILU then
        run ''ilu::matmul'' [KT (matmul_a p), KT (matmul_b p), KO (matmul_bias p)]
      else not_implemented)"

definition moe_gen_idx ::
    "platform \<Rightarrow> backends \<Rightarrow> MoeGenIdxParams \<Rightarrow> torch list result" where
  "moe_gen_idx plat run p =
     (if plat = MLU then
        run ''mlu::moe_gen_idx'' [KT (moe_gen_idx_expert_id p), KI (moe_gen_idx_expert_num p)]
      else if plat = ILU then
        run ''ilu::moe_gen_idx'' [KT (moe_gen_idx_expert_id p), KI (moe_gen_idx_expert_num p)]
      else not_implemented)"

definition moe_expand_input ::
    "platform \<Rightarrow> backends \<Rightarrow> MoeExpandInputParams \<Rightarrow> torch list result" where
  "moe_expand_input plat run p =
     (if plat = MLU then
        run ''mlu::moe_expand_input'' [KT (moe_expand_input_input p),
          KT (moe_expand_input_gather_index p), KO (moe_expand_input_cusum_token_count p),
          KI (moe_expand_input_start_expert_id p), KI (moe_expand_input_expert_size p)]
      else if plat = ILU then
        run ''ilu::moe_expand_input'' [KT (moe_expand_input_input p),
          KT (moe_expand_input_gather_index p), KT (moe_expand_input_combine_idx p),
          KI (moe_expand_input_topk p)]
      else not_implemented)"

definition moe_all2all_gen_send_layout ::
    "platform \<Rightarrow> backends \<Rightarrow> MoeAll2AllGenSendLayoutParams \<Rightarrow> torch list result" where
  "moe_all2all_gen_send_layout plat run p =
     (if plat = MLU then
        run ''mlu::moe_all2all_gen_send_layout'' [KT (moe_all2_all_gen_send_layout_token_count p),
          KI (moe_all2_all_gen_send_layout_nrank p)]
      else not_implemented)"

definition moe_all2all_gen_gather_index ::
    "platform \<Rightarrow> backends \<Rightarrow> MoeAll2AllGenGatherIndexParams \<Rightarrow> torch list result" where
  "moe_all2all_gen_gather_index plat run p =
     (if plat = MLU then
        run ''mlu::moe_all2all_gen_gather_index'' [KT (moe_all2_all_gen_gather_index_token_num p),
          KI (moe_all2_all_gen_gather_index_pad_num p),
          KB (moe_all2_all_gen_gather_index_return_cusum_token_count p)]
      else not_implemented)"

definition moe_all2all_create ::
    "platform \<Rightarrow> backends \<Rightarrow> MoeAll2AllCreateParams \<Rightarrow> torch list result" where
  "moe_all2all_create plat run p =
     (if plat = MLU then
        run ''mlu::moe_all2all_create'' [KI (moe_all2_all_create_dispatch_token_byte p),
          KI (moe_all2_all_create_combine_token_byte p),
          KI (moe_all2_all_create_max_expert_num p), KI (moe_all2_all_create_max_token_num p),
          KI (moe_all2_all_create_rank p), KI (moe_all2_all_create_nrank p),
          KDev (moe_all2_all_create_device p)]
      else not_implemented)"

definition moe_all2all_init ::
    "platform \<Rightarrow> backends \<Rightarrow> MoeAll2AllInitParams \<Rightarrow> torch list result" where
  "moe_all2all_init plat run p =
     (if plat = MLU then
        run ''mlu::moe_all2all_init'' [KI (moe_all2_all_init_handle p),
          KT (moe_all2_all_init_all_exchange_info p), KDev (moe_all2_all_init_device p)]
      else not_implemented)"

definition moe_all2all_dispatch ::
    "platform \<Rightarrow> backends \<Rightarrow> MoeAll2AllDispatchParams \<Rightarrow> torch list result" where
  "moe_all2all_dispatch plat run p =
     (if plat = MLU then
        run ''mlu::moe_all2all_dispatch'' [KI (moe_all2_all_dispatch_handle p),
          KI (moe_all2_all_dispatch_token_byte p), KI (moe_all2_all_dispatch_token_num p),
          KT (moe_all2_all_dispatch_send_layout p), KT (moe_all2_all_dispatch_send_token_num p),
          KT (moe_all2_all_dispatch_recv_layout p), KT (moe_all2_all_dispatch_recv_token_num p),
          KO (moe_all2_all_dispatch_send_token p), KO (moe_all2_all_dispatch_recv_token p)]
      else not_implemented)"

definition moe_all2all_combine ::
    "platform \<Rightarrow> backends \<Rightarrow> MoeAll2AllCombineParams \<Rightarrow> torch list result" where
  "moe_all2all_combine plat run p =
     (if plat = MLU then
        run ''mlu::moe_all2all_combine'' [KI (moe_all2_all_combine_handle p),
          KI (moe_all2_all_combine_token_byte p), KI (moe_all2_all_combine_token_num p),
          KT (moe_all2_all_combine_send_src_layout p),
          KT (moe_all2_all_combine_send_dst_layout p), KO (moe_all2_all_combine_send_token p),
          KO (moe_all2_all_combine_recv_token p)]
      else not_implemented)"

definition moe_all2all_destroy ::
    "platform \<Rightarrow> backends \<Rightarrow> MoeAll2AllDestroyParams \<Rightarrow> torch list result" where
  "moe_all2all_destroy plat run p =
     (if plat = MLU then
        run ''mlu::moe_all2all_destroy'' [KI (moe_all2_all_destroy_handle p),
          KDev (moe_all2_all_destroy_device p)]
      else not_implemented)"

definition scaled_quantize ::
    "platform \<Rightarrow> backends \<Rightarrow> ScaledQuantizeParams \<Rightarrow> torch list result" where
  "scaled_quantize plat run p =
     (if plat = MLU then
        run ''mlu::scaled_quantize'' [KT (scaled_quantize_x p), KT (scaled_quantize_smooth p),
          KO (scaled_quantize_zero p), KO (scaled_quantize_token_count p),
          KO (scaled_quantize_gather_index p),
          KO (scaled_quantize_gather_index_start_position p), KO (scaled_quantize_output p),
          KO (scaled_quantize_output_scale p), KS (scaled_quantize_act_mode p),
          KR (scaled_quantize_active_coef p), KB (scaled_quantize_is_gated p),
          KD (scaled_quantize_quant_type p)]
      else not_implemented)"

definition scaled_matmul ::
    "platform \<Rightarrow> backends \<Rightarrow> ScaledMatmulParams \<Rightarrow> torch list result" where
  "scaled_matmul plat run p =
     (if plat = MLU then
        run ''mlu::scaled_matmul'' [KT (scaled_matmul_a p), KT (scaled_matmul_b p),
          KO (scaled_matmul_a_scale p), KT (scaled_matmul_b_scale p),
          KD (scaled_matmul_output_dtype p), KO (scaled_matmul_bias p), KO (scaled_matmul_c p),
          KS (scaled_matmul_act_mode p), KI (scaled_matmul_quant_bit_size p),
          KR (scaled_matmul_alpha p), KR (scaled_matmul_beta p),
          KB (scaled_matmul_use_hp_active p), KI (scaled_matmul_a_quant_bit_size p),
          KO (scaled_matmul_a_calib p), KO (scaled_matmul_b_calib p),
          KO (scaled_matmul_output p)]
      else not_implemented)"

definition apply_top_k_top_p ::
    "platform \<Rightarrow> backends \<Rightarrow> TopKPParams \<Rightarrow> torch list result" where
  "apply_top_k_top_p plat run p =
     (if plat = MLU then
        run ''mlu::apply_top_k_top_p'' [KT (top_kp_logits p), KT (top_kp_temperatures p),
          KT (top_kp_top_k p), KT (top_kp_top_p p)]
      else not_implemented)"

definition random_sample ::
    "platform \<Rightarrow> backends \<Rightarrow> RandomSampleParams \<Rightarrow> torch list result" where
  "random_sample plat run p =
     (if plat = MLU then
        run ''mlu::random_sample'' [KT (random_sample_logits p)]
      else if plat = CUDA then
        run ''cuda::random_sample'' [KT (random_sample_logits p)]
      else not_implemented)"

definition rejection_sample ::
    "platform \<Rightarrow> backends \<Rightarrow> RejectionSampleParams \<Rightarrow> torch list result" where
  "rejection_sample plat run p =
     (if plat = MLU then
        run ''mlu::rejection_sample'' [KT (rejection_sample_draft_token_ids p),
          KT (rejection_sample_num_draft_tokens p), KT (rejection_sample_cu_num_draft_tokens p),
          KO (rejection_sample_draft_probs p), KT (rejection_sample_target_probs p),
          KT (rejection_sample_bonus_token_ids p), KT (rejection_sample_uniform_rand p),
          KT (rejection_sample_uniform_probs p), KI (rejection_sample_max_spec_len p)]
      else not_implemented)"

definition masked_indexer_select_paged_kv ::
    "platform \<Rightarrow> backends \<Rightarrow> MaskedIndexerSelectPagedKVParams \<Rightarrow> torch list result" where
  "masked_indexer_select_paged_kv plat run p =
     (if plat = MLU then
        run ''mlu::masked_indexer_select_paged_kv'' [KT (masked_indexer_select_paged_kv_query p),
          KT (masked_indexer_select_paged_kv_k_cache p),
          KT (masked_indexer_select_paged_kv_weights p),
          KT (masked_indexer_select_paged_kv_kv_cache_block_table p),
          KO (masked_indexer_select_paged_kv_cu_seq_q_lens p),
          KO (masked_indexer_select_paged_kv_cu_seq_k_lens p),
          KO (masked_indexer_select_paged_kv_k_context_lens p),
          KO (masked_indexer_select_paged_kv_k_cache_block_table p),
          KB (masked_indexer_select_paged_kv_is_prefill p),
          KI (masked_indexer_select_paged_kv_index_topk p),
          KI (masked_indexer_select_paged_kv_kv_cache_block_size p),
          KR (masked_indexer_select_paged_kv_softmax_scale p),
          KO (masked_indexer_select_paged_kv_q_scale p),
          KO (masked_indexer_select_paged_kv_k_scale_cache p),
          KT (masked_indexer_select_paged_kv_sparse_block_table p),
          KT (masked_indexer_select_paged_kv_sparse_context_lens p)]
      else not_implemented)"

definition gather_split ::
    "platform \<Rightarrow> backends \<Rightarrow> GatherSplitParams \<Rightarrow> torch list result" where
  "gather_split plat run p =
     (if plat = MLU then
        run ''mlu::gather_split'' [KT (gather_split_input p), KT (gather_split_gather_index p),
          KT (gather_split_valid_token_num p), KT (gather_split_output_head p),
          KT (gather_split_output_tail p)]
      else not_implemented)"

definition fused_mla_q ::
    "platform \<Rightarrow> backends \<Rightarrow> FusedMlaQParams \<Rightarrow> torch list result" where
  "fused_mla_q plat run p =
     (if plat = MLU then
        run ''mlu::fused_mla_q'' [KT (fused_mla_q_q p), KT (fused_mla_q_output p),
          KT (fused_mla_q_output_scale p), KO (fused_mla_q_output_norm p),
          KT (fused_mla_q_gamma p), KO (fused_mla_q_smooth_quant_scale p),
          KT (fused_mla_q_weight_b p), KT (fused_mla_q_weight_b_scale p),
          KT (fused_mla_q_weight_c p), KT (fused_mla_q_sin p), KT (fused_mla_q_cos p),
          KT (fused_mla_q_position_id p), KS (fused_mla_q_quant_mode p), KR (fused_mla_q_eps p),
          KB (fused_mla_q_interleaved p)]
      else not_implemented)"

definition fused_mla_kv ::
    "platform \<Rightarrow> backends \<Rightarrow> FusedMlaKVParams \<Rightarrow> torch list result" where
  "fused_mla_kv plat run p =
     (if plat = MLU then
        run ''mlu::fused_mla_kv'' [KT (fused_mla_kv_input_kv p), KT (fused_mla_kv_sin p),
          KT (fused_mla_kv_cos p), KT (fused_mla_kv_position_id p), KT (fused_mla_kv_gamma p),
          KT (fused_mla_kv_kv_cache p), KO (fused_mla_kv_kv_cache_scale p),
          KO (fused_mla_kv_slot_mapping p), KO (fused_mla_kv_cache_bs_id p),
          KO (fused_mla_kv_cache_seq_offset p), KS (fused_mla_kv_quant_mode p),
          KB (fused_mla_kv_is_paged_cache p), KR (fused_mla_kv_eps p),
          KB (fused_mla_kv_interleaved p)]
      else not_implemented)"

definition fused_indexer_q ::
    "platform \<Rightarrow> backends \<Rightarrow> FusedIndexerQParams \<Rightarrow> torch list result" where
  "fused_indexer_q plat run p =
     (if plat = MLU then
        run ''mlu::fused_indexer_q'' [KT (fused_indexer_q_input_q p),
          KT (fused_indexer_q_output p), KO (fused_indexer_q_output_scale p),
          KT (fused_indexer_q_w_q p), KO (fused_indexer_q_w_q_scale p),
          KO (fused_indexer_q_hadamard_matrix p), KT (fused_indexer_q_sin p),
          KT (fused_indexer_q_cos p), KT (fused_indexer_q_position_id p),
          KS (fused_indexer_q_quant_mode p), KB (fused_indexer_q_interleaved p),
          KB (fused_indexer_q_rope_at_front p)]
      else not_implemented)"

definition fused_indexer_k ::
    "platform \<Rightarrow> backends \<Rightarrow> FusedIndexerKParams \<Rightarrow> torch list result" where
  "fused_indexer_k plat run p =
     (if plat = MLU then
        run ''mlu::fused_indexer_k'' [KT (fused_indexer_k_x p), KT (fused_indexer_k_wk p),
          KT (fused_indexer_k_wproj p), KT (fused_indexer_k_sin_table p),
          KT (fused_indexer_k_cos_table p), KT (fused_indexer_k_position_id p),
          KT (fused_indexer_k_slot_mapping p), KT (fused_indexer_k_head_weights p),
          KT (fused_indexer_k_k_cache p), KO (fused_indexer_k_k_cache_scale p),
          KO (fused_indexer_k_hadamard_matrix p), KB (fused_indexer_k_interleaved p),
          KO (fused_indexer_k_gamma p), KO (fused_indexer_k_beta p), KR (fused_indexer_k_eps p)]
      else not_implemented)"

definition moe_init_routing_v2 ::
    "platform \<Rightarrow> backends \<Rightarrow> MoeInitRoutingV2Params \<Rightarrow> torch list result" where
  "moe_init_routing_v2 plat run p =
     (if plat = NPU then
        run ''npu::apply_npu_moe_init_routing_v2'' [KT (moe_init_routing_v2_x p),
          KT (moe_init_routing_v2_expert_idx p), KO (moe_init_routing_v2_scale p),
          KO (moe_init_routing_v2_offset p), KI (moe_init_routing_v2_active_num p),
          KI (moe_init_routing_v2_expert_capacity p), KI (moe_init_routing_v2_expert_num p),
          KI (moe_init_routing_v2_drop_pad_mode p),
          KI (moe_init_routing_v2_expert_tokens_num_type p),
          KB (moe_init_routing_v2_expert_tokens_num_flag p),
          KI (moe_init_routing_v2_quant_mode p), KIs (moe_init_routing_v2_active_expert_range p),
          KI (moe_init_routing_v2_row_idx_type p)]
      else not_implemented)"

definition fp8_scaled_quantize ::
    "platform \<Rightarrow> backends \<Rightarrow> Fp8ScaledQuantizeParams \<Rightarrow> torch list result" where
  "fp8_scaled_quantize plat run p =
     (if plat = CUDA then
        run ''cuda::fp8_scaled_quantize'' [KT (fp8_scaled_quantize_input p),
          KO (fp8_scaled_quantize_output p), KO (fp8_scaled_quantize_scale p)]
      else not_implemented)"

definition fused_gdn_gating ::
    "platform \<Rightarrow> backends \<Rightarrow> FusedGdnGatingParams \<Rightarrow> torch list result" where
  "fused_gdn_gating plat run p =
     (if plat = NPU then
        run ''npu::tilelang::fused_gdn_gating'' [KT (fused_gdn_gating_A_log p),
          KT (fused_gdn_gating_a p), KT (fused_gdn_gating_b p), KT (fused_gdn_gating_dt_bias p),
          KR (fused_gdn_gating_beta p), KR (fused_gdn_gating_threshold p)]
      else not_implemented)"

definition fused_recurrent_gated_delta_rule ::
    "platform \<Rightarrow> backends \<Rightarrow> FusedRecurrentGatedDeltaRuleParams \<Rightarrow> torch list result" where
  "fused_recurrent_gated_delta_rule plat run p =
     (if plat = NPU then
        run ''npu::npu_fused_recurrent_gated_delta_rule'' [KT (fused_recurrent_gated_delta_rule_q p),
          KT (fused_recurrent_gated_delta_rule_k p), KT (fused_recurrent_gated_delta_rule_v p),
          KT (fused_recurrent_gated_delta_rule_g p),
          KO (fused_recurrent_gated_delta_rule_beta p),
          KRO (fused_recurrent_gated_delta_rule_scale p),
          KO (fused_recurrent_gated_delta_rule_initial_state p),
          KB (fused_recurrent_gated_delta_rule_inplace_final_state p),
          KO (fused_recurrent_gated_delta_rule_cu_seqlens p),
          KO (fused_recurrent_gated_delta_rule_ssm_state_indices p),
          KO (fused_recurrent_gated_delta_rule_num_accepted_tokens p),
          KB (fused_recurrent_gated_delta_rule_use_qk_l2norm_in_kernel p)]
      else not_implemented)"

definition gated_layer_norm ::
    "platform \<Rightarrow> backends \<Rightarrow> GatedLayerNormParams \<Rightarrow> torch list result" where
  "gated_layer_norm plat run p =
     (if plat = NPU then
        run ''npu::layer_norm_fwd'' [KT (gated_layer_norm_x p), KT (gated_layer_norm_weight p),
          KT (gated_layer_norm_bias p), KR (gated_layer_norm_eps p), KO (gated_layer_norm_z p),
          KI (gated_layer_norm_group_size p), KB (gated_layer_norm_norm_before_gate p),
          KB (gated_layer_norm_is_rms_norm p)]
      else if plat = MLU then
        run ''mlu::gated_layer_norm'' [KT (gated_layer_norm_x p), KT (gated_layer_norm_weight p),
          KT (gated_layer_norm_bias p), KR (gated_layer_norm_eps p), KO (gated_layer_norm_z p),
          KI (gated_layer_norm_group_size p), KB (gated_layer_norm_norm_before_gate p)]
      else not_implemented)"

definition partial_rotary_embedding ::
    "platform \<Rightarrow> backends \<Rightarrow> PartialRotaryEmbeddingParams \<Rightarrow> torch list result" where
  "partial_rotary_embedding plat run p =
     (if plat = NPU then
        run ''npu::apply_npu_partial_rotary_embedding'' [KT (partial_rotary_embedding_positions p),
          KT (partial_rotary_embedding_query p), KT (partial_rotary_embedding_key p),
          KI (partial_rotary_embedding_head_size p), KI (partial_rotary_embedding_rotary_dim p),
          KT (partial_rotary_embedding_cos_sin_cache p),
          KB (partial_rotary_embedding_is_neox_style p)]
      else not_implemented)"

definition fused_qkvzba_split_reshape_cat ::
    "platform \<Rightarrow> backends \<Rightarrow> FusedQkvzbaSplitReshapeParams \<Rightarrow> torch list result" where
  "fused_qkvzba_split_reshape_cat plat run p =
     (if plat = NPU then
        run ''npu::npu_fused_qkvzba_split_reshape_cat'' [KT (fused_qkvzba_split_reshape_mixed_qkvz p),
          KT (fused_qkvzba_split_reshape_mixed_ba p),
          KI (fused_qkvzba_split_reshape_num_heads_qk p),
          KI (fused_qkvzba_split_reshape_num_heads_v p),
          KI (fused_qkvzba_split_reshape_head_qk p), KI (fused_qkvzba_split_reshape_head_v p)]
      else not_implemented)"

definition gemma_rms_norm ::
    "platform \<Rightarrow> backends \<Rightarrow> GemmaRMSNormParams \<Rightarrow> torch list result" where
  "gemma_rms_norm plat run p =
     (if plat = NPU then
        run ''npu::npu_gemma_rms_norm'' [KT (gemma_rms_norm_x p), KT (gemma_rms_norm_gamma p),
          KR (gemma_rms_norm_epsilon p), KT (gemma_rms_norm_rstd_out p),
          KT (gemma_rms_norm_norm_out p)]
      else if plat = MLU then
        run ''mlu::gemma_rms_norm'' [KT (gemma_rms_norm_x p), KT (gemma_rms_norm_gamma p),
          KR (gemma_rms_norm_epsilon p), KT (gemma_rms_norm_norm_out p)]
      else not_implemented)"

definition split_qkv_rmsnorm_mrope ::
    "platform \<Rightarrow> backends \<Rightarrow> SplitQkvRmsnormMropeParams \<Rightarrow> torch list result" where
  "split_qkv_rmsnorm_mrope plat run p =
     (if plat = NPU then
        run ''npu::tilelang::split_qkv_rmsnorm_mrope'' [KT (split_qkv_rmsnorm_mrope_qkvg p),
          KT (split_qkv_rmsnorm_mrope_q_weight p), KT (split_qkv_rmsnorm_mrope_k_weight p),
          KT (split_qkv_rmsnorm_mrope_cos_sin p), KT (split_qkv_rmsnorm_mrope_gather_pattern p),
          KR (split_qkv_rmsnorm_mrope_eps p), KI (split_qkv_rmsnorm_mrope_num_q_heads p),
          KI (split_qkv_rmsnorm_mrope_num_kv_heads p), KI (split_qkv_rmsnorm_mrope_head_size p)]
      else not_implemented)"

definition chunk_gated_delta_rule ::
    "platform \<Rightarrow> backends \<Rightarrow> ChunkGatedDeltaRuleParams \<Rightarrow> torch list result" where
  "chunk_gated_delta_rule plat run p =
     (if plat = NPU then
        run ''npu::npu_chunk_gated_delta_rule'' [KT (chunk_gated_delta_rule_q p),
          KT (chunk_gated_delta_rule_k p), KT (chunk_gated_delta_rule_v p),
          KT (chunk_gated_delta_rule_g p), KT (chunk_gated_delta_rule_beta p),
          KRO (chunk_gated_delta_rule_scale p), KO (chunk_gated_delta_rule_initial_state p),
          KB (chunk_gated_delta_rule_output_final_state p),
          KO (chunk_gated_delta_rule_cu_seqlens p), KB (chunk_gated_delta_rule_head_first p),
          KB (chunk_gated_delta_rule_use_qk_l2norm_in_kernel p)]
      else not_implemented)"

text \<open>Three take their arguments one by one.\<close>

definition l2_norm :: "platform \<Rightarrow> backends \<Rightarrow> torch \<Rightarrow> rat \<Rightarrow> torch list result" where
  "l2_norm plat run x eps =
     (if plat = NPU then run ''npu::npu_l2norm_last_dim'' [KT x, KR eps] else not_implemented)"

definition build_split_qkv_rmsnorm_mrope_gather_pattern ::
    "platform \<Rightarrow> backends \<Rightarrow> int \<Rightarrow> int list \<Rightarrow> bool \<Rightarrow> device \<Rightarrow> torch list result" where
  "build_split_qkv_rmsnorm_mrope_gather_pattern plat run rope_dim mrope_section is_interleaved dev =
     (if plat = NPU then
        run ''npu::tilelang::build_split_qkv_rmsnorm_mrope_gather_pattern''
          [KI rope_dim, KIs mrope_section, KB is_interleaved, KDev dev]
      else not_implemented)"

definition recurrent_gated_delta_rule ::
    "platform \<Rightarrow> backends \<Rightarrow> torch \<Rightarrow> torch \<Rightarrow> torch \<Rightarrow> torch \<Rightarrow> torch option \<Rightarrow> rat option
     \<Rightarrow> torch option \<Rightarrow> torch option \<Rightarrow> torch option \<Rightarrow> torch option \<Rightarrow> torch option
     \<Rightarrow> torch list result" where
  "recurrent_gated_delta_rule plat run query key val state beta scale actual_seq_lengths
       ssm_state_indices num_accepted_tokens g gk =
     (if plat = NPU then
        run ''npu::npu_recurrent_gated_delta_rule''
          [KT query, KT key, KT val, KT state, KO beta, KRO scale, KO actual_seq_lengths,
           KO ssm_state_indices, KO num_accepted_tokens, KO g, KO gk]
      else not_implemented)"

text \<open>Whether a fused kernel exists for these head counts; only the NPU library knows.\<close>

definition has_split_qkv_rmsnorm_mrope_specialization ::
    "platform \<Rightarrow> (int \<Rightarrow> int \<Rightarrow> int \<Rightarrow> bool) \<Rightarrow> int \<Rightarrow> int \<Rightarrow> int \<Rightarrow> bool" where
  "has_split_qkv_rmsnorm_mrope_specialization plat npu_has num_q_heads num_kv_heads head_size =
     (if plat = NPU then npu_has num_q_heads num_kv_heads head_size else False)"

section \<open>Quantised caches\<close>

definition quant_to_paged_cache ::
    "platform \<Rightarrow> backends \<Rightarrow> ReshapePagedCacheParams \<Rightarrow> torch list result" where
  "quant_to_paged_cache plat run p =
     (if plat = MLU then
        rbind (check (reshape_paged_cache_k_cache_scale p \<noteq> None)
                 ''k_cache_scale is required for quant_to_paged_cache'') (\<lambda>_.
        rbind (opt_value (reshape_paged_cache_k_cache_scale p)) (\<lambda>k_scale.
        run ''mlu::quant_to_paged_cache'' [KT (reshape_paged_cache_key p),
          KO (reshape_paged_cache_value p), KT (reshape_paged_cache_k_cache p),
          KO (reshape_paged_cache_v_cache p), KT k_scale,
          KO (reshape_paged_cache_v_cache_scale p), KT (reshape_paged_cache_slot_mapping p)]))
      else not_implemented)"

definition dequant_from_paged_cache ::
    "platform \<Rightarrow> backends \<Rightarrow> ReshapeFromCacheParams \<Rightarrow> torch list result" where
  "dequant_from_paged_cache plat run p =
     (if plat = MLU then
        rbind (check (reshape_from_cache_key_cache_quant_scale p \<noteq> None)
                 ''key_cache_quant_scale is required for dequant_from_paged_cache'') (\<lambda>_.
        rbind (opt_value (reshape_from_cache_key_cache_quant_scale p)) (\<lambda>k_scale.
        rbind (opt_value (reshape_from_cache_block_tables p)) (\<lambda>block_tables.
        run ''mlu::dequant_from_paged_cache'' [KT (reshape_from_cache_key p),
          KO (reshape_from_cache_value p), KT (reshape_from_cache_key_cache p),
          KO (reshape_from_cache_value_cache p), KT k_scale,
          KO (reshape_from_cache_value_cache_quant_scale p),
          KT (reshape_from_cache_context_lengths p), KI (reshape_from_cache_max_context_len p),
          KO (reshape_from_cache_context_seq_offset p), KT block_tables,
          KI (reshape_from_cache_quant_mode p), KI (reshape_from_cache_quant_bit p)])))
      else not_implemented)"

section \<open>Rotary embedding\<close>

text \<open>
  The positions and the cos/sin cache of the CUDA path. \<open>item\<close> reads one element of a
  tensor; the contents of a tensor are the environment's.
\<close>

definition rotary_positions :: "aten \<Rightarrow> (torch \<Rightarrow> int \<Rightarrow> int) \<Rightarrow> RotaryParams \<Rightarrow> torch result" where
  "rotary_positions lib item p =
     (case rotary_position_ids p of
        Some pos \<Rightarrow> at_to lib pos kLong
      | None \<Rightarrow>
          (case rotary_cu_query_lens p of
             Some lens \<Rightarrow>
               rbind (at_to lib lens kLong) (\<lambda>cu.
               rbind (check (t_numel cu \<ge> 2) ''cu_query_lens must have at least 2 elements'') (\<lambda>_.
               let seq_len = item cu 1 - item cu 0 in
               rbind (check (seq_len > 0) ''invalid sequence length'') (\<lambda>_.
               at_arange lib seq_len)))
           | None \<Rightarrow>
               rbind (t_size (rotary_q p) 0) (\<lambda>seq_len.
               rbind (check (seq_len > 0) ''cannot infer valid sequence length from q tensor'') (\<lambda>_.
               at_arange lib seq_len))))"

text \<open>The first and third quarter of a cos/sin cache, side by side.\<close>

definition half_cos_sin :: "aten \<Rightarrow> torch \<Rightarrow> torch result" where
  "half_cos_sin lib cos_sin =
     rbind (at_chunk lib cos_sin 4 (-1)) (\<lambda>cs.
     if length cs \<le> 2 then Inl (Undefined ''cos_sin_vec[2]'')
     else at_cat lib [cs ! 0, cs ! 2] (-1))"

definition rotary_cos_sin_cuda :: "aten \<Rightarrow> RotaryParams \<Rightarrow> torch result" where
  "rotary_cos_sin_cuda lib p =
     (if t_defined (rotary_precomputed_cos_sin p) then Inr (rotary_precomputed_cos_sin p)
      else if t_defined (rotary_cos p) \<and> t_defined (rotary_sin p) then
        rbind (t_size (rotary_cos p) (-1)) (\<lambda>head_dim.
        let rot_half = head_dim sdiv 2 in
        rbind (at_slice lib (rotary_cos p) (-1) 0 rot_half) (\<lambda>cos_sliced.
        rbind (at_slice lib (rotary_sin p) (-1) 0 rot_half) (\<lambda>sin_sliced.
        at_cat lib [cos_sliced, sin_sliced] (-1))))
      else if t_defined (rotary_cos_sin p) then half_cos_sin lib (rotary_cos_sin p)
      else Inl (Abort ''neither cos_sin nor cos/sin provided''))"

definition rotary_cos_sin_ilu :: "aten \<Rightarrow> RotaryParams \<Rightarrow> torch result" where
  "rotary_cos_sin_ilu lib p =
     (if t_defined (rotary_precomputed_cos_sin p) then Inr (rotary_precomputed_cos_sin p)
      else half_cos_sin lib (rotary_cos_sin p))"

definition apply_rotary ::
    "aten \<Rightarrow> platform \<Rightarrow> backends \<Rightarrow> (torch \<Rightarrow> int \<Rightarrow> int) \<Rightarrow> RotaryParams \<Rightarrow> torch list result" where
  "apply_rotary lib plat run item p =
     (if plat = MLU then
        run ''mlu::apply_rotary'' [KT (rotary_q p), KT (rotary_k p), KT (rotary_sin p),
          KT (rotary_cos p), KO (rotary_position_ids p), KO (rotary_cu_query_lens p),
          KB (rotary_interleaved p), KB (rotary_discrete p), KB (rotary_dynamic_ntk p),
          KI (rotary_max_query_len p)]
      else if plat = NPU then
        rbind (opt_value (rotary_position_ids p)) (\<lambda>pos.
        run ''npu::apply_rotary'' [KT (rotary_q p), KT (rotary_k p), KT (rotary_cos_sin p), KT pos])
      else if plat = CUDA \<or> plat = MUSA then
        let is_neox = \<not> rotary_interleaved p in
        rbind (rotary_positions lib item p) (\<lambda>pos_ids.
        rbind (rotary_cos_sin_cuda lib p) (\<lambda>cos_sin.
        run ''cuda::rotary_embedding'' [KT pos_ids, KT (rotary_q p), KT (rotary_k p), KT cos_sin,
          KB is_neox]))
      else if plat = ILU then
        rbind (rotary_cos_sin_ilu lib p) (\<lambda>ilu_cos_sin.
        rbind (opt_value (rotary_position_ids p)) (\<lambda>pos.
        rbind (at_to lib pos kLong) (\<lambda>long_position_ids.
        run ''ilu::apply_rope_pos_ids_cos_sin_cache'' [KT (rotary_q p), KT (rotary_k p),
          KT ilu_cos_sin, KT long_position_ids, KB (rotary_interleaved p)])))
      else not_implemented)"

section \<open>Activation and normalisation\<close>

text \<open>Both write to their parameters, so they return them.\<close>

definition active :: "platform \<Rightarrow> backends \<Rightarrow> ActivationParams \<Rightarrow> ActivationParams result" where
  "active plat run p =
     (if plat = MLU then
        rbind (run ''mlu::active'' [KT (activation_input p), KT (activation_output p),
          KO (activation_bias p), KO (activation_cusum_token_count p), KS (activation_act_mode p),
          KB (activation_is_gated p), KI (activation_start_expert_id p),
          KI (activation_expert_size p)]) (\<lambda>_. Inr p)
      else if plat = NPU then
        rbind (run ''npu::active'' [KT (activation_input p), KS (activation_act_mode p)]) (\<lambda>ts.
        rbind (one ts) (\<lambda>t. Inr (p\<lparr>activation_output := t\<rparr>)))
      else if plat = CUDA \<or> plat = MUSA then
        rbind (run ''cuda::act_and_mul'' [KT (activation_output p), KT (activation_input p),
          KS (activation_act_mode p)]) (\<lambda>_. Inr p)
      else if plat = ILU then
        rbind (run ''ilu::act_and_mul'' [KT (activation_output p), KT (activation_input p),
          KS (activation_act_mode p)]) (\<lambda>_. Inr p)
      else not_implemented)"

text \<open>
  \<^verbatim>\<open>USE_MUSA\<close> has a branch of its own before the one it shares with \<^verbatim>\<open>USE_CUDA\<close>.
\<close>

definition fused_layernorm_args :: "FusedLayerNormParams \<Rightarrow> kval list" where
  "fused_layernorm_args p =
     [KT (fused_layer_norm_input p), KT (fused_layer_norm_output p), KO (fused_layer_norm_residual p),
      KT (fused_layer_norm_weight p), KO (fused_layer_norm_beta p), KO (fused_layer_norm_bias p),
      KO (fused_layer_norm_quant_scale p), KO (fused_layer_norm_residual_out p),
      KO (fused_layer_norm_smooth_quant_scale p), KO (fused_layer_norm_normed_out p),
      KS (fused_layer_norm_mode p), KR (fused_layer_norm_eps p),
      KB (fused_layer_norm_store_output_before_norm p),
      KB (fused_layer_norm_store_output_after_norm p), KB (fused_layer_norm_dynamic_quant p)]"

definition fused_layernorm ::
    "platform \<Rightarrow> backends \<Rightarrow> FusedLayerNormParams \<Rightarrow> FusedLayerNormParams result" where
  "fused_layernorm plat run p =
     (let x = fused_layer_norm_input p; w = fused_layer_norm_weight p; eps = fused_layer_norm_eps p in
      if plat = MLU then rbind (run ''mlu::fused_layernorm'' (fused_layernorm_args p)) (\<lambda>_. Inr p)
      else if plat = MUSA then
        rbind (run ''musa::fused_layernorm'' (fused_layernorm_args p)) (\<lambda>_. Inr p)
      else if plat = NPU then
        (case fused_layer_norm_residual p of
           Some res \<Rightarrow>
             rbind (run ''npu::add_rms_norm'' [KT x, KT res, KT w, KR eps]) (\<lambda>ts.
             rbind (three ts) (\<lambda>(y, _, res_out).
             Inr (p\<lparr>fused_layer_norm_output := y, fused_layer_norm_residual_out := Some res_out\<rparr>)))
         | None \<Rightarrow>
             rbind (run ''npu::rms_norm'' [KT x, KT w, KR eps, KS (fused_layer_norm_mode p)]) (\<lambda>ts.
             rbind (one ts) (\<lambda>y. Inr (p\<lparr>fused_layer_norm_output := y\<rparr>))))
      else if plat = CUDA \<or> plat = MUSA then
        (case fused_layer_norm_residual p of
           Some res \<Rightarrow>
             rbind (run ''cuda::fused_add_rms_norm'' [KT x, KT res, KT w, KR eps]) (\<lambda>_.
             Inr (p\<lparr>fused_layer_norm_output := x,
                    fused_layer_norm_residual_out := fused_layer_norm_residual p\<rparr>))
         | None \<Rightarrow>
             rbind (run ''cuda::rms_norm'' [KT (fused_layer_norm_output p), KT x, KT w, KR eps])
               (\<lambda>_. Inr p))
      else if plat = ILU then
        (case fused_layer_norm_residual p of
           Some res \<Rightarrow>
             rbind (run ''ilu::residual_layer_norm'' [KT x, KT (fused_layer_norm_output p),
               KO (fused_layer_norm_residual p), KT w, KO (fused_layer_norm_bias p),
               KO (fused_layer_norm_residual_out p), KR eps]) (\<lambda>_. Inr p)
         | None \<Rightarrow>
             rbind (run ''ilu::rms_norm'' [KT (fused_layer_norm_output p), KT x, KT w, KR eps])
               (\<lambda>_. Inr p))
      else not_implemented)"

section \<open>Grouped matrix product and mixture of experts\<close>

definition group_gemm :: "platform \<Rightarrow> backends \<Rightarrow> GroupGemmParams \<Rightarrow> torch result" where
  "group_gemm plat run p =
     (if plat = MLU then
        rbind (run ''mlu::group_gemm'' [KT (group_gemm_a p), KT (group_gemm_b p),
          KT (group_gemm_token_count p), KT (group_gemm_output p), KO (group_gemm_a_scale p),
          KO (group_gemm_b_scale p), KIsO (group_gemm_quant_flag p), KI (group_gemm_max_dim p),
          KB (group_gemm_trans_a p), KB (group_gemm_trans_b p), KI (group_gemm_a_quant_bit p)]) one
      else if plat = NPU then
        let x_ref = (case group_gemm_x_list p of Some l \<Rightarrow> l | None \<Rightarrow> [group_gemm_a p]);
            weight_ref = (case group_gemm_weight_list p of Some l \<Rightarrow> l | None \<Rightarrow> [group_gemm_b p]);
            group_list = (case group_gemm_group_list p of
                            Some t \<Rightarrow> Some t | None \<Rightarrow> Some (group_gemm_token_count p)) in
        rbind (run ''npu::apply_npu_grouped_matmul'' [KL x_ref, KL weight_ref,
          KLO (group_gemm_bias_list p), KLO (group_gemm_scale_list p),
          KLO (group_gemm_offset_list p), KLO (group_gemm_antiquant_scale_list p),
          KLO (group_gemm_antiquant_offset_list p), KLO (group_gemm_per_token_scale_list p),
          KO group_list, KLO (group_gemm_activation_input_list p),
          KLO (group_gemm_activation_quant_scale_list p),
          KLO (group_gemm_activation_quant_offset_list p), KIO (group_gemm_split_item p),
          KIO (group_gemm_group_type p), KIO (group_gemm_group_list_type p),
          KIO (group_gemm_act_type p), KIsO (group_gemm_tuning_config p),
          KDO (group_gemm_output_dtype p)]) (\<lambda>outputs.
        if outputs = [] then Inl (Undefined ''outputs.back()'') else Inr (last outputs))
      else if plat = ILU then
        rbind (run ''ilu::group_gemm'' [KT (group_gemm_a p), KT (group_gemm_b p),
          KT (group_gemm_token_count p), KO (group_gemm_combine_idx p), KT (group_gemm_output p)]) one
      else not_implemented)"

definition moe_topk_args :: "MoeFusedTopkParams \<Rightarrow> kval list" where
  "moe_topk_args p =
     [KT (moe_fused_topk_input p), KI (moe_fused_topk_topk p), KI (moe_fused_topk_num_expert_group p),
      KI (moe_fused_topk_topk_group p), KB (moe_fused_topk_normalize p), KO (moe_fused_topk_mask p),
      KS (moe_fused_topk_normed_by p), KS (moe_fused_topk_scoring_func p),
      KR (moe_fused_topk_route_scale p), KO (moe_fused_topk_e_score_correction_bias p)]"

definition moe_active_topk ::
    "platform \<Rightarrow> backends \<Rightarrow> MoeFusedTopkParams \<Rightarrow> (torch \<times> torch) result" where
  "moe_active_topk plat run p =
     (if plat = MLU then rbind (run ''mlu::moe_active_topk'' (moe_topk_args p)) two
      else if plat = NPU then
        rbind (check (moe_fused_topk_scoring_func p = ''softmax'')
                 ''Only softmax is supported for NPU'') (\<lambda>_.
        rbind (run ''npu::apply_moe_gating_topk_softmax'' [KT (moe_fused_topk_input p),
          KO (moe_fused_topk_finished p), KI (moe_fused_topk_topk p)]) (\<lambda>ts.
        rbind (three ts) (\<lambda>(topk_weights, topk_ids, row_ids). Inr (topk_weights, topk_ids))))
      else if plat = ILU then rbind (run ''ilu::moe_active_topk'' (moe_topk_args p)) two
      else if plat = CUDA \<or> plat = MUSA then
        rbind (run ''cuda::moe_fused_topk'' [KT (moe_fused_topk_input p), KI (moe_fused_topk_topk p),
          KB (moe_fused_topk_normalize p), KO (moe_fused_topk_e_score_correction_bias p),
          KS (moe_fused_topk_scoring_func p)]) two
      else not_implemented)"

definition moe_combine_result ::
    "aten \<Rightarrow> platform \<Rightarrow> backends \<Rightarrow> MoeCombineResultParams \<Rightarrow> torch result" where
  "moe_combine_result lib plat run p =
     (if plat = MLU then
        rbind (run ''mlu::moe_combine_result'' [KT (moe_combine_result_input p),
          KT (moe_combine_result_reduce_weight p), KT (moe_combine_result_gather_ids p),
          KO (moe_combine_result_residual p), KO (moe_combine_result_cusum_token_count p),
          KI (moe_combine_result_start_expert_id p), KI (moe_combine_result_expert_size p),
          KO (moe_combine_result_bias p)]) one
      else if plat = NPU then
        let probes = (if moe_combine_result_probes p \<noteq> None then moe_combine_result_probes p
                      else Some (moe_combine_result_reduce_weight p)) in
        rbind (run ''npu::apply_npu_moe_token_unpermute'' [KT (moe_combine_result_input p),
          KT (moe_combine_result_gather_ids p), KO probes, KB (moe_combine_result_padded_mode p),
          KIsO (moe_combine_result_restore_shape p)]) (\<lambda>ts.
        rbind (one ts) (\<lambda>output.
        case moe_combine_result_residual p of
          Some res \<Rightarrow> at_add lib output res
        | None \<Rightarrow> Inr output))
      else if plat = ILU then
        rbind (run ''ilu::moe_combine_result'' [KT (moe_combine_result_input p),
          KT (moe_combine_result_reduce_weight p)]) one
      else not_implemented)"

section \<open>FP8\<close>

definition fp8_scaled_matmul ::
    "aten \<Rightarrow> platform \<Rightarrow> backends \<Rightarrow> Fp8ScaledMatmulParams \<Rightarrow> torch result" where
  "fp8_scaled_matmul lib plat run p =
     (if plat = CUDA then
        rbind (run ''cuda::fp8_scaled_matmul'' [KT (fp8_scaled_matmul_a p), KT (fp8_scaled_matmul_b p),
          KT (fp8_scaled_matmul_a_scale p), KT (fp8_scaled_matmul_b_scale p),
          KD (fp8_scaled_matmul_output_dtype p), KO (fp8_scaled_matmul_bias p),
          KO (fp8_scaled_matmul_output p)]) (\<lambda>ts.
        rbind (one ts) (\<lambda>out_2d.
        case fp8_scaled_matmul_input_shape p of
          Some shape \<Rightarrow>
            if shape = [] then Inl (Undefined ''out_shape.back()'')
            else rbind (t_size (fp8_scaled_matmul_b p) 0) (\<lambda>n. at_view lib out_2d (butlast shape @ [n]))
        | None \<Rightarrow> Inr out_2d))
      else Inl (Abort ''fp8_scaled_matmul is only supported on CUDA''))"

definition static_scaled_fp8_quant ::
    "platform \<Rightarrow> backends \<Rightarrow> StaticScaledFp8QuantParams \<Rightarrow> torch list result" where
  "static_scaled_fp8_quant plat run p =
     (if plat = CUDA then
        run ''cuda::static_scaled_fp8_quant'' [KT (static_scaled_fp8_quant_output p),
          KT (static_scaled_fp8_quant_input p), KT (static_scaled_fp8_quant_scale p)]
      else Inl (Abort ''static_scaled_fp8_quant is only supported on CUDA''))"

definition rms_norm_static_fp8_quant ::
    "aten \<Rightarrow> platform \<Rightarrow> backends \<Rightarrow> RmsNormStaticFp8QuantParams \<Rightarrow> torch result" where
  "rms_norm_static_fp8_quant lib plat run p =
     (if plat = CUDA then
        let x = rms_norm_static_fp8_quant_input p; org_shape = t_sizes x in
        rbind (t_size x (-1)) (\<lambda>hidden_size.
        rbind (at_reshape lib x [-1, hidden_size]) (\<lambda>input_2d.
        rbind (t_size input_2d 0) (\<lambda>n.
        rbind (at_empty lib [n, hidden_size] kFloat8_e4m3fn) (\<lambda>output.
        rbind (run ''cuda::rms_norm_static_fp8_quant'' [KT output, KT input_2d,
          KT (rms_norm_static_fp8_quant_weight p), KT (rms_norm_static_fp8_quant_scale p),
          KR (rms_norm_static_fp8_quant_epsilon p)]) (\<lambda>_.
        at_reshape lib output org_shape)))))
      else Inl (Abort ''rms_norm_static_fp8_quant is only supported on CUDA''))"

definition fused_add_rms_norm_static_fp8_quant ::
    "aten \<Rightarrow> platform \<Rightarrow> backends \<Rightarrow> FusedAddRmsNormStaticFp8QuantParams \<Rightarrow> (torch \<times> torch) result" where
  "fused_add_rms_norm_static_fp8_quant lib plat run p =
     (if plat = CUDA then
        let x = fused_add_rms_norm_static_fp8_quant_input p; org_shape = t_sizes x in
        rbind (t_size x (-1)) (\<lambda>hidden_size.
        rbind (at_reshape lib x [-1, hidden_size]) (\<lambda>input_2d.
        rbind (at_reshape lib (fused_add_rms_norm_static_fp8_quant_residual p) [-1, hidden_size]) (\<lambda>residual_2d.
        rbind (t_size input_2d 0) (\<lambda>n.
        rbind (at_empty lib [n, hidden_size] kFloat8_e4m3fn) (\<lambda>output.
        rbind (run ''cuda::fused_add_rms_norm_static_fp8_quant'' [KT output, KT input_2d, KT residual_2d,
          KT (fused_add_rms_norm_static_fp8_quant_weight p),
          KT (fused_add_rms_norm_static_fp8_quant_scale p),
          KR (fused_add_rms_norm_static_fp8_quant_epsilon p)]) (\<lambda>_.
        rbind (at_reshape lib output org_shape) (\<lambda>output_reshaped.
        rbind (at_reshape lib residual_2d org_shape) (\<lambda>residual_reshaped.
        Inr (output_reshaped, residual_reshaped)))))))))
      else Inl (Abort ''fused_add_rms_norm_static_fp8_quant is only supported on CUDA''))"

section \<open>Causal convolution\<close>

text \<open>\<open>contiguous\<close> says which tensors are; it is the tensor library's.\<close>

definition causal_conv1d_update ::
    "platform \<Rightarrow> backends \<Rightarrow> (torch \<Rightarrow> bool) \<Rightarrow> CausalConv1dUpdateParams \<Rightarrow> torch list result" where
  "causal_conv1d_update plat run contiguous p =
     (if plat = NPU then
        rbind (case causal_conv1d_update_conv_state_indices p of
                 Some idx \<Rightarrow> check (contiguous idx) ''conv_state_indices must be contiguous.''
               | None \<Rightarrow> Inr ()) (\<lambda>_.
        run ''npu::npu_causal_conv1d_update_v2'' [KT (causal_conv1d_update_x p),
          KT (causal_conv1d_update_conv_state p), KT (causal_conv1d_update_weight p),
          KB (causal_conv1d_update_activation p), KO (causal_conv1d_update_bias p),
          KO (causal_conv1d_update_conv_state_indices p), KO (causal_conv1d_update_query_start_loc p),
          KI (causal_conv1d_update_max_query_len p), KI (causal_conv1d_update_pad_slot_id p),
          KO (causal_conv1d_update_block_idx_last_scheduled_token p),
          KO (causal_conv1d_update_initial_state_idx p), KB (causal_conv1d_update_validate_data p)])
      else not_implemented)"

section \<open>Properties\<close>

context aten_laws
begin

text \<open>The first and third of four equal quarters.\<close>

lemma half_cos_sin_shape:
  assumes "t_sizes t = s @ [4 * k]" and "0 < k"
  shows "\<exists>c. half_cos_sin lib t = Inr c \<and> t_sizes c = s @ [2 * k]"
proof -
  have wrap: "wrap_dim (-1) (t_dim u) = Inr (length s)" if "t_sizes u = s @ [x]" for u x
    by (simp add: t_dim_def wrap_dim_def that)
  obtain us where us: "at_chunk lib t 4 (-1) = Inr us" "length us = 4"
      "list_all (\<lambda>u. t_sizes u = s @ [k]) us"
    using chunk_ok[OF wrap[OF assms(1)] assms(2), of 4] by (auto simp: assms(1))
  then have q: "t_sizes (us ! 0) = s @ [k]" "t_sizes (us ! 2) = s @ [k]"
    by (simp_all add: list_all_length)
  obtain c where "at_cat lib [us ! 0, us ! 2] (-1) = Inr c" "t_sizes c = s @ [2 * k]"
    using cat_ok[OF wrap[OF q(1)], of "[us ! 2]"] q by (auto simp: same_but_def)
  with us show ?thesis by (simp add: half_cos_sin_def)
qed

text \<open>Positions made up from the first dimension of the query.\<close>

lemma default_positions:
  assumes "rotary_position_ids p = None" and "rotary_cu_query_lens p = None"
    and "t_sizes (rotary_q p) = n # s" and "0 < n"
  shows "\<exists>pos. rotary_positions lib item p = Inr pos \<and> at_arange lib n = Inr pos \<and> t_sizes pos = [n]"
proof -
  have "t_size (rotary_q p) 0 = Inr n" using t_size_0[of "rotary_q p"] assms(3) by simp
  moreover obtain pos where "at_arange lib n = Inr pos" "t_sizes pos = [n]"
    using arange_ok[of n] assms(4) by auto
  ultimately show ?thesis using assms(1,2,4) by (simp add: rotary_positions_def check_def)
qed

lemma fused_add_norm_fp8:
  assumes "t_sizes (fused_add_rms_norm_static_fp8_quant_input p) = lead @ [h]"
    and "t_sizes (fused_add_rms_norm_static_fp8_quant_residual p) = lead @ [h]"
    and "list_all (\<lambda>n. 0 \<le> n) lead" and "0 < h"
    and "\<And>args. \<exists>ts. run ''cuda::fused_add_rms_norm_static_fp8_quant'' args = Inr ts"
  shows "\<exists>y r. fused_add_rms_norm_static_fp8_quant lib CUDA run p = Inr (y, r) \<and>
    t_sizes y = lead @ [h] \<and> t_dtype y = kFloat8_e4m3fn \<and> t_sizes r = lead @ [h] \<and>
    t_dtype r = t_dtype (fused_add_rms_norm_static_fp8_quant_residual p)"
proof -
  let ?x = "fused_add_rms_norm_static_fp8_quant_input p"
  let ?r = "fused_add_rms_norm_static_fp8_quant_residual p"
  let ?n = "prod_list lead"
  have n: "list_all (\<lambda>n. 0 \<le> n) [?n, h]" using sum_list_nonneg_all[OF assms(3)] assms(4) by simp
  have last: "t_size ?x (-1) = Inr h" using t_size_last[of ?x] assms(1) by simp
  obtain x2 where x2: "at_reshape lib ?x [-1, h] = Inr x2" "t_sizes x2 = [?n, h]"
    using flatten_Inr[OF assms(1,3,4)] by blast
  obtain r2 where r2: "at_reshape lib ?r [-1, h] = Inr r2" "t_sizes r2 = [?n, h]" "t_dtype r2 = t_dtype ?r"
    using flatten_Inr[OF assms(2,3,4)] by blast
  have rows: "t_size x2 0 = Inr ?n" using t_size_0[of x2] x2(2) by simp
  obtain out where out: "at_empty lib [?n, h] kFloat8_e4m3fn = Inr out" "t_sizes out = [?n, h]"
      "t_dtype out = kFloat8_e4m3fn"
    using empty_Inr[OF n] by blast
  obtain y where y: "at_reshape lib out (lead @ [h]) = Inr y" "t_sizes y = lead @ [h]" "t_dtype y = kFloat8_e4m3fn"
    using flatten_back[OF out(2) assms(3,4)] out(3) by auto
  obtain r where r: "at_reshape lib r2 (lead @ [h]) = Inr r" "t_sizes r = lead @ [h]" "t_dtype r = t_dtype ?r"
    using flatten_back[OF r2(2) assms(3,4)] r2(3) by auto
  obtain ts where ts: "run ''cuda::fused_add_rms_norm_static_fp8_quant'' [KT out, KT x2, KT r2,
          KT (fused_add_rms_norm_static_fp8_quant_weight p),
          KT (fused_add_rms_norm_static_fp8_quant_scale p),
          KR (fused_add_rms_norm_static_fp8_quant_epsilon p)] = Inr ts"
    using assms(5) by blast
  have "fused_add_rms_norm_static_fp8_quant lib CUDA run p = Inr (y, r)"
    by (simp add: fused_add_rms_norm_static_fp8_quant_def assms(1) last x2(1) r2(1) rows out(1) ts y(1) r(1))
  with y r show ?thesis by blast
qed

end

text \<open>
  from a cos/sin cache of four equal quarters \<open>s @ [4 k]\<close> the CUDA and the Iluvatar
  builds give their rotary kernel the same cache, of shape \<open>s @ [2 k]\<close>, when the caller passed
  neither a precomputed cache nor separate cos and sin.
\<close>

theorem rotary_cache_agrees:
  assumes "aten_laws lib" and "t_sizes (rotary_cos_sin p) = s @ [4 * k]" and "0 < k"
    and "\<not> t_defined (rotary_precomputed_cos_sin p)"
    and "\<not> (t_defined (rotary_cos p) \<and> t_defined (rotary_sin p))"
  shows "\<exists>c. rotary_cos_sin_cuda lib p = Inr c \<and> rotary_cos_sin_ilu lib p = Inr c \<and>
    t_sizes c = s @ [2 * k]"
proof -
  have "t_defined (rotary_cos_sin p)" using t_defined_sizes assms(2) by auto
  then show ?thesis
    using aten_laws.half_cos_sin_shape[OF assms(1-3)] assms(4,5)
    by (simp only: rotary_cos_sin_cuda_def rotary_cos_sin_ilu_def if_False if_True simp_thms)
qed

definition demo_rotary :: RotaryParams where
  "demo_rotary = (default_RotaryParams False 0)
     \<lparr>rotary_q := Tn ''q'' [] [] [3, 8] kBFloat16, rotary_k := Tn ''k'' [] [] [3, 8] kBFloat16,
      rotary_cos_sin := Tn ''cache'' [] [] [16, 4 * 2] kBFloat16\<rparr>"

theorem rotary_cache_agrees_witness:
  "\<exists>c. rotary_cos_sin_cuda aten_ref demo_rotary = Inr c \<and>
     rotary_cos_sin_ilu aten_ref demo_rotary = Inr c \<and> t_sizes c = [16, 4]"
  using rotary_cache_agrees[OF ref.aten_laws_axioms, of demo_rotary "[16]" 2]
  by (simp add: demo_rotary_def default_RotaryParams_def)

text \<open>
  without position ids the two builds differ: CUDA numbers the tokens of the query itself
  and calls its kernel with them, Iluvatar throws before it reaches its kernel.
\<close>

theorem rotary_without_positions:
  assumes "aten_laws lib" and "rotary_position_ids p = None" and "rotary_cu_query_lens p = None"
    and "t_sizes (rotary_q p) = n # s" and "0 < n"
    and "rotary_cos_sin_cuda lib p = Inr c" and "rotary_cos_sin_ilu lib p = Inr c'"
  shows "(\<exists>pos. at_arange lib n = Inr pos \<and> t_sizes pos = [n] \<and>
      apply_rotary lib CUDA run item p
      = run ''cuda::rotary_embedding'' [KT pos, KT (rotary_q p), KT (rotary_k p), KT c,
           KB (\<not> rotary_interleaved p)])
    \<and> apply_rotary lib ILU run item p = Inl (Exn ''bad_optional_access'')"
  using aten_laws.default_positions[OF assms(1-5), of item] assms(2,6,7)
  by (auto simp: apply_rotary_def)

theorem rotary_without_positions_witness:
  "apply_rotary aten_ref ILU (\<lambda>_ _. Inr []) (\<lambda>_ _. 0) demo_rotary = Inl (Exn ''bad_optional_access'')"
proof -
  obtain c where c: "rotary_cos_sin_cuda aten_ref demo_rotary = Inr c"
      "rotary_cos_sin_ilu aten_ref demo_rotary = Inr c"
    using ref.half_cos_sin_shape[of "rotary_cos_sin demo_rotary" "[16]" 2]
    by (auto simp: rotary_cos_sin_cuda_def rotary_cos_sin_ilu_def demo_rotary_def default_RotaryParams_def)
  show ?thesis
    using rotary_without_positions[OF ref.aten_laws_axioms _ _ _ _ c, of 3 "[8]" "\<lambda>_ _. Inr []" "\<lambda>_ _. 0"]
    by (simp add: demo_rotary_def default_RotaryParams_def)
qed

text \<open>
  the fused residual normalisation to fp8 flattens its two operands, and gives both results
  back in the shape of the input, the first in fp8, the second in the type of the residual,
  whenever the kernel returns; the two operands must have the same shape with a positive
  last dimension.
\<close>

theorem fused_add_norm_fp8_shapes:
  assumes "aten_laws lib" and "t_sizes (fused_add_rms_norm_static_fp8_quant_input p) = lead @ [h]"
    and "t_sizes (fused_add_rms_norm_static_fp8_quant_residual p) = lead @ [h]"
    and "list_all (\<lambda>n. 0 \<le> n) lead" and "0 < h"
    and "\<And>args. \<exists>ts. run ''cuda::fused_add_rms_norm_static_fp8_quant'' args = Inr ts"
  shows "\<exists>y r. fused_add_rms_norm_static_fp8_quant lib CUDA run p = Inr (y, r) \<and>
    t_sizes y = lead @ [h] \<and> t_dtype y = kFloat8_e4m3fn \<and> t_sizes r = lead @ [h] \<and>
    t_dtype r = t_dtype (fused_add_rms_norm_static_fp8_quant_residual p)"
  by (rule aten_laws.fused_add_norm_fp8[OF assms(1-5)]) (rule assms(6))

theorem fused_add_norm_fp8_shapes_witness:
  "\<exists>y r. fused_add_rms_norm_static_fp8_quant aten_ref CUDA (\<lambda>_ _. Inr [])
     ((default_FusedAddRmsNormStaticFp8QuantParams 0)
      \<lparr>fused_add_rms_norm_static_fp8_quant_input := Tn ''x'' [] [] [2, 3, 8] kBFloat16,
       fused_add_rms_norm_static_fp8_quant_residual := Tn ''r'' [] [] [2, 3, 8] kBFloat16\<rparr>) = Inr (y, r) \<and>
     t_sizes y = [2, 3, 8] \<and> t_dtype y = kFloat8_e4m3fn \<and> t_sizes r = [2, 3, 8] \<and> t_dtype r = kBFloat16"
  using fused_add_norm_fp8_shapes[OF ref.aten_laws_axioms,
      of "(default_FusedAddRmsNormStaticFp8QuantParams 0)
      \<lparr>fused_add_rms_norm_static_fp8_quant_input := Tn ''x'' [] [] [2, 3, 8] kBFloat16,
       fused_add_rms_norm_static_fp8_quant_residual := Tn ''r'' [] [] [2, 3, 8] kBFloat16\<rparr>"
      "[2, 3]" 8 "\<lambda>_ _. Inr []"]
  by simp

end
