(* ===== verification/Ilu_Kernels.thy ===== *)
theory Ilu_Kernels
  imports Ops_Api
begin

text \<open>
  The Iluvatar implementations behind the kernel interface
  (\<^verbatim>\<open>ex_engine/csrc/ilu_kernel_*.cpp\<close>): what they allocate, reshape and pass to the
  ixformer library. \<open>infer name outs args\<close> is a call of \<^verbatim>\<open>infer::name\<close>: it returns the tensors
  \<open>outs\<close> as the call has written them, or the library's exception. Nothing is assumed of it.
\<close>

type_synonym ixformer = "string \<Rightarrow> torch list \<Rightarrow> kval list \<Rightarrow> torch list result"

section \<open>Activation, normalisation, rotary embedding\<close>

definition ilu_act_and_mul :: "ixformer \<Rightarrow> torch \<Rightarrow> torch \<Rightarrow> string \<Rightarrow> torch list result" where
  "ilu_act_and_mul infer out input act_mode =
     (if act_mode = ''silu'' then infer ''silu_and_mul'' [out] [KT input]
      else Inl (Abort ''Unsupported act mode''))"

definition ilu_residual_layer_norm ::
    "aten \<Rightarrow> ixformer \<Rightarrow> torch \<Rightarrow> torch \<Rightarrow> torch option \<Rightarrow> torch \<Rightarrow> torch option \<Rightarrow> torch option \<Rightarrow> rat
     \<Rightarrow> torch list result" where
  "ilu_residual_layer_norm lib infer input output residual weight bias residual_out eps =
     rbind (case residual of Some t \<Rightarrow> Inr t | None \<Rightarrow> at_zeros_like lib input) (\<lambda>residual'.
     rbind (case residual_out of Some t \<Rightarrow> Inr t | None \<Rightarrow> at_zeros_like lib input) (\<lambda>residual_out'.
     infer ''residual_rms_norm'' [output, residual_out']
       [KT input, KT residual', KT weight, KO bias, KR 1, KR eps, KB False]))"

definition ilu_rms_norm :: "ixformer \<Rightarrow> torch \<Rightarrow> torch \<Rightarrow> torch \<Rightarrow> rat \<Rightarrow> torch list result" where
  "ilu_rms_norm infer output input weight eps =
     infer ''rms_norm'' [output] [KT input, KT weight, KO None, KR eps]"

definition ilu_apply_rope ::
    "ixformer \<Rightarrow> torch \<Rightarrow> torch \<Rightarrow> torch \<Rightarrow> torch \<Rightarrow> bool \<Rightarrow> torch list result" where
  "ilu_apply_rope infer query key cos_sin_cache positions interleave =
     rbind (t_size cos_sin_cache (-1)) (\<lambda>head_size.
     infer ''xllm_rotary_embedding'' [query, key]
       [KT positions, KI head_size, KT cos_sin_cache, KB (\<not> interleave)])"

section \<open>Matrix product\<close>

definition gemv_conditions :: "aten \<Rightarrow> torch \<Rightarrow> torch \<Rightarrow> torch \<Rightarrow> int \<Rightarrow> bool result" where
  "gemv_conditions lib input weight bias gemv_max_batch =
     rbind (t_size input (-1)) (\<lambda>k0.
     rbind (at_view lib input [-1, k0]) (\<lambda>input_view.
     rbind (t_size weight (-1)) (\<lambda>k1.
     rbind (at_view lib weight [-1, k1]) (\<lambda>weight_view.
     rbind (t_size input_view 0) (\<lambda>m.
     rbind (t_size input_view 1) (\<lambda>k.
     rbind (t_size weight_view 0) (\<lambda>n.
     Inr (if \<not> t_defined bias \<and> m \<le> gemv_max_batch \<and> k smod 32 = 0 \<and> n smod 2 = 0
          then True else False))))))))"

definition ilu_matmul ::
    "aten \<Rightarrow> ixformer \<Rightarrow> bool \<Rightarrow> torch \<Rightarrow> torch \<Rightarrow> torch option \<Rightarrow> torch list result" where
  "ilu_matmul lib infer disable_infer_gemm_ex a b bias =
     (let act_type = -1; shape = t_sizes a in
      rbind (if shape = [] then Inr shape
             else rbind (t_size b 0) (\<lambda>n. Inr (butlast shape @ [n]))) (\<lambda>output_shape.
      rbind (at_empty lib output_shape (t_dtype a)) (\<lambda>output.
      rbind (gemv_conditions lib a b (value_or_undef bias) 1) (\<lambda>cond.
      if cond \<and> \<not> disable_infer_gemm_ex \<and> act_type = (-1 :: int)
      then infer ''ixformer_linear_ex'' [output] [KT a, KT b, KO bias]
      else infer ''ixformer_linear'' [output] [KT a, KT b, KI act_type, KO bias, KB False]))))"

section \<open>Mixture of experts\<close>

text \<open>
  The arguments for grouping, masks, the scoring function, the route scale and the bias are
  accepted and not used.
\<close>

definition ilu_moe_active_topk ::
    "aten \<Rightarrow> ixformer \<Rightarrow> torch \<Rightarrow> int \<Rightarrow> int \<Rightarrow> int \<Rightarrow> bool \<Rightarrow> torch option \<Rightarrow> string \<Rightarrow> string \<Rightarrow> rat
     \<Rightarrow> torch option \<Rightarrow> torch list result" where
  "ilu_moe_active_topk lib infer input topk num_expert_group topk_group renormalize msk normed_by
       scoring_func route_scale e_score_correction_bias =
     rbind (at_to lib input kFloat) (\<lambda>input'.
      rbind (t_size input 0) (\<lambda>n.
      rbind (at_empty lib [n, topk] kFloat) (\<lambda>reduce_weight.
      rbind (at_empty lib [n, topk] kInt) (\<lambda>topk_indices.
      rbind (at_empty lib [n, topk] kInt) (\<lambda>token_expert_indices.
      rbind (infer ''topk_softmax'' [reduce_weight, topk_indices, token_expert_indices]
               [KT input', KB False]) (\<lambda>ts.
      rbind (three ts) (\<lambda>(weights, indices, _).
      rbind (at_sum lib weights (-1)) (\<lambda>tt.
      if renormalize then
        rbind (at_sum lib weights (-1)) (\<lambda>row_sums.
        rbind (at_unsqueeze lib row_sums (-1)) (\<lambda>column.
        rbind (at_div lib weights column) (\<lambda>normed.
        Inr [normed, indices])))
      else Inr [weights, indices]))))))))"

definition ilu_moe_gen_idx :: "aten \<Rightarrow> ixformer \<Rightarrow> torch \<Rightarrow> int \<Rightarrow> torch list result" where
  "ilu_moe_gen_idx lib infer expert_id expert_num =
     (let n = t_numel expert_id; d = t_dtype expert_id in
      rbind (at_empty lib [n] d) (\<lambda>src_dst.
      rbind (at_empty lib [n] d) (\<lambda>dst_src.
      rbind (at_empty lib [expert_num] d) (\<lambda>expert_sizes.
      rbind (infer ''moe_compute_token_index_api'' [src_dst, dst_src, expert_sizes]
               [KT expert_id, KO None, KO None, KO None, KI 0, KI expert_num, KI expert_num]) (\<lambda>ts.
      rbind (three ts) (\<lambda>(src_dst', dst_src', sizes').
      rbind (at_cumsum lib sizes' (-1)) (\<lambda>cusum.
      Inr [src_dst', dst_src', sizes', cusum])))))))"

definition ilu_moe_expand_input ::
    "aten \<Rightarrow> ixformer \<Rightarrow> torch \<Rightarrow> torch \<Rightarrow> torch \<Rightarrow> int \<Rightarrow> torch list result" where
  "ilu_moe_expand_input lib infer input gather_index combine_idx topk =
     rbind (t_size input 0) (\<lambda>n.
     let dst_tokens = n * topk in
     rbind (t_size input 1) (\<lambda>h.
     rbind (at_empty lib [dst_tokens, h] (t_dtype input)) (\<lambda>output.
     infer ''moe_expand_input'' [output]
       [KT input, KT combine_idx, KT gather_index, KI dst_tokens, KI topk])))"

definition ilu_moe_combine_result :: "aten \<Rightarrow> ixformer \<Rightarrow> torch \<Rightarrow> torch \<Rightarrow> torch list result" where
  "ilu_moe_combine_result lib infer input weight =
     rbind (t_size weight 1) (\<lambda>k.
     rbind (t_size input 1) (\<lambda>h.
     rbind (at_view lib input [-1, k, h]) (\<lambda>input'.
     rbind (t_size input' 0) (\<lambda>n.
     rbind (t_size input' 2) (\<lambda>h'.
     rbind (at_empty lib [n, h'] (t_dtype input')) (\<lambda>output.
     infer ''moe_output_reduce_sum'' [output] [KT input', KT weight, KO None, KO None, KR 1]))))))"

text \<open>\<open>sum_of\<close> reads the sum of a tensor.\<close>

definition ilu_group_gemm ::
    "ixformer \<Rightarrow> (torch \<Rightarrow> int) \<Rightarrow> torch \<Rightarrow> torch \<Rightarrow> torch \<Rightarrow> torch option \<Rightarrow> torch
     \<Rightarrow> torch list result" where
  "ilu_group_gemm infer sum_of input weight tokens_per_experts dst_to_src output =
     infer ''moe_w16a16_group_gemm'' [output]
       [KT input, KT weight, KT tokens_per_experts, KO dst_to_src, KO None, KS ''TN'', KI 0,
        KI (sum_of tokens_per_experts)]"

section \<open>The backend\<close>

text \<open>The functions the kernel interface can call in an ILU build.\<close>

definition ilu_backend ::
    "aten \<Rightarrow> ixformer \<Rightarrow> bool \<Rightarrow> (torch \<Rightarrow> int) \<Rightarrow> backends" where
  "ilu_backend lib infer disable_ex sum_of name args =
     (if name = ''ilu::act_and_mul'' then
        (case args of
            [KT out, KT input, KS mode] \<Rightarrow>
            ilu_act_and_mul infer out input mode
          | _ \<Rightarrow> Inl (Undefined name))
      else if name = ''ilu::residual_layer_norm'' then
        (case args of
            [KT input, KT output, KO residual, KT weight, KO bias, KO residual_out, KR eps] \<Rightarrow>
            ilu_residual_layer_norm lib infer input output residual weight bias residual_out eps
          | _ \<Rightarrow> Inl (Undefined name))
      else if name = ''ilu::rms_norm'' then
        (case args of
            [KT output, KT input, KT weight, KR eps] \<Rightarrow>
            ilu_rms_norm infer output input weight eps
          | _ \<Rightarrow> Inl (Undefined name))
      else if name = ''ilu::apply_rope_pos_ids_cos_sin_cache'' then
        (case args of
            [KT q, KT k, KT cos_sin, KT pos, KB interleave] \<Rightarrow>
            ilu_apply_rope infer q k cos_sin pos interleave
          | _ \<Rightarrow> Inl (Undefined name))
      else if name = ''ilu::matmul'' then
        (case args of
            [KT a, KT b, KO bias] \<Rightarrow>
            ilu_matmul lib infer disable_ex a b bias
          | _ \<Rightarrow> Inl (Undefined name))
      else if name = ''ilu::moe_active_topk'' then
        (case args of
            [KT input, KI topk, KI groups, KI topk_group, KB renorm, KO msk, KS normed_by,
             KS scoring, KR scale, KO bias] \<Rightarrow>
            ilu_moe_active_topk lib infer input topk groups topk_group renorm msk normed_by
              scoring scale bias
          | _ \<Rightarrow> Inl (Undefined name))
      else if name = ''ilu::moe_gen_idx'' then
        (case args of
            [KT expert_id, KI expert_num] \<Rightarrow>
            ilu_moe_gen_idx lib infer expert_id expert_num
          | _ \<Rightarrow> Inl (Undefined name))
      else if name = ''ilu::moe_expand_input'' then
        (case args of
            [KT input, KT gather, KT combine, KI topk] \<Rightarrow>
            ilu_moe_expand_input lib infer input gather combine topk
          | _ \<Rightarrow> Inl (Undefined name))
      else if name = ''ilu::moe_combine_result'' then
        (case args of
            [KT input, KT weight] \<Rightarrow>
            ilu_moe_combine_result lib infer input weight
          | _ \<Rightarrow> Inl (Undefined name))
      else if name = ''ilu::group_gemm'' then
        (case args of
            [KT a, KT b, KT counts, KO combine, KT output] \<Rightarrow>
            ilu_group_gemm infer sum_of a b counts combine output
          | _ \<Rightarrow> Inl (Undefined name))
      else Inl (Undefined name))"

end
