(* ===== verification/Fused_Moe.thy ===== *)
theory Fused_Moe
  imports Ilu_Kernels
begin

text \<open>
  The mixture-of-experts layer of the Iluvatar build (\<^verbatim>\<open>ex_engine/csrc/ilu_layer_fused_moe.cpp\<close>)
  without quantisation and without all-to-all communication: its construction, the routing,
  the two grouped matrix products and the combination of their results. The reduction over
  ranks and the shared experts are the environment's.
\<close>

section \<open>The layer and its environment\<close>

record FusedMoE =
  fm_num_total_experts :: int
  fm_topk :: int
  fm_num_expert_group :: int
  fm_topk_group :: int
  fm_route_scale :: rat
  fm_hidden_size :: int
  fm_n_shared_experts :: int
  fm_is_gated :: bool
  fm_renormalize :: bool
  fm_hidden_act :: string
  fm_scoring_func :: string
  fm_num_experts_per_rank :: int
  fm_start_expert_id :: int
  fm_tp_world_size :: int
  fm_ep_size :: int
  fm_w13 :: torch
  fm_w2 :: torch
  fm_e_score_correction_bias :: torch

text \<open>
  The arguments of the constructor it reads: those of the model, of the layer and of the
  parallel groups.
\<close>

record MoeConfig =
  mc_n_routed_experts :: int
  mc_num_experts_per_tok :: int
  mc_n_group :: int
  mc_topk_group :: int
  mc_routed_scaling_factor :: rat
  mc_hidden_size :: int
  mc_n_shared_experts :: int
  mc_moe_intermediate_size :: int
  mc_norm_topk_prob :: bool
  mc_hidden_act :: string
  mc_scoring_func :: string
  mc_topk_method :: string
  mc_is_gated :: bool
  mc_dtype :: DType
  mc_ep_size :: int
  mc_ep_rank :: int
  mc_world_size :: int
  mc_tp_world_size :: int

definition FusedMoE_create :: "aten \<Rightarrow> MoeConfig \<Rightarrow> FusedMoE result" where
  "FusedMoE_create lib c =
     (let ep_rank = (if mc_ep_size c > 1 then mc_ep_rank c else 0) in
      if mc_ep_size c = 0 then Inl (Undefined ''num_experts / ep_size'')
      else
        let per_rank = mc_n_routed_experts c sdiv mc_ep_size c in
        rbind (if mc_topk_method c = ''noaux_tc''
               then at_empty lib [mc_n_routed_experts c] (mc_dtype c) else Inr TUndef) (\<lambda>bias.
        rbind (check (\<not> (mc_n_shared_experts c > 0 \<and> mc_ep_size c > 1 \<and>
                         mc_ep_size c \<noteq> mc_world_size c))
                 ''Models with shared experts only support ep_size equal to world size'') (\<lambda>_.
        if mc_tp_world_size c = 0 then Inl (Undefined ''intermediate_size / world_size'')
        else
          let mid = mc_moe_intermediate_size c sdiv mc_tp_world_size c in
          rbind (at_empty lib [per_rank, mid * 2, mc_hidden_size c] (mc_dtype c)) (\<lambda>w13.
          rbind (at_empty lib [per_rank, mc_hidden_size c, mid] (mc_dtype c)) (\<lambda>w2.
          Inr \<lparr>fm_num_total_experts = mc_n_routed_experts c, fm_topk = mc_num_experts_per_tok c,
               fm_num_expert_group = mc_n_group c, fm_topk_group = mc_topk_group c,
               fm_route_scale = mc_routed_scaling_factor c, fm_hidden_size = mc_hidden_size c,
               fm_n_shared_experts = mc_n_shared_experts c, fm_is_gated = mc_is_gated c,
               fm_renormalize = mc_norm_topk_prob c, fm_hidden_act = mc_hidden_act c,
               fm_scoring_func = mc_scoring_func c, fm_num_experts_per_rank = per_rank,
               fm_start_expert_id = ep_rank * per_rank, fm_tp_world_size = mc_tp_world_size c,
               fm_ep_size = mc_ep_size c, fm_w13 = w13, fm_w2 = w2,
               fm_e_score_correction_bias = bias\<rparr>)))))"

text \<open>
  The environment: the build and its kernels, the values of fields the code leaves
  uninitialised, the reinterpretation of a tensor's bytes as another type, the reductions
  (over the tensor-parallel group, then the expert-parallel one) and the shared experts.
\<close>

record moe_env =
  me_aten :: aten
  me_plat :: platform
  me_run :: backends
  me_gi :: int
  me_gb :: bool
  me_gr :: rat
  me_reinterpret :: "torch \<Rightarrow> DType \<Rightarrow> torch result"
  me_reduce_tp :: "torch \<Rightarrow> torch result"
  me_reduce_ep :: "torch \<Rightarrow> torch result"
  me_shared :: "torch \<Rightarrow> torch result"

section \<open>Steps 1 to 3: routing\<close>

record SelectedExpertInfo =
  si_reduce_weight :: torch
  si_combine_idx :: torch
  si_token_count_slice :: torch
  si_cusum_token_count :: "torch option"

definition nth_output :: "torch list \<Rightarrow> nat \<Rightarrow> torch result" where
  "nth_output ts i = (if i < length ts then Inr (ts ! i) else Inl (Undefined ''output_vec[i]''))"

definition route_topk :: "moe_env \<Rightarrow> FusedMoE \<Rightarrow> torch \<Rightarrow> (torch \<times> torch) result" where
  "route_topk env m router_logits_2d =
     moe_active_topk (me_plat env) (me_run env)
       ((default_MoeFusedTopkParams (me_gi env) (me_gb env) (me_gr env))
        \<lparr>moe_fused_topk_input := router_logits_2d, moe_fused_topk_topk := fm_topk m,
         moe_fused_topk_num_expert_group := fm_num_expert_group m,
         moe_fused_topk_topk_group := fm_topk_group m,
         moe_fused_topk_normalize := fm_renormalize m,
         moe_fused_topk_normed_by := ''topk_logit'',
         moe_fused_topk_scoring_func := fm_scoring_func m,
         moe_fused_topk_route_scale := fm_route_scale m,
         moe_fused_topk_e_score_correction_bias :=
           (if t_defined (fm_e_score_correction_bias m)
            then Some (fm_e_score_correction_bias m) else None)\<rparr>)"

definition select_experts ::
    "moe_env \<Rightarrow> FusedMoE \<Rightarrow> torch \<Rightarrow> torch \<Rightarrow> (torch \<times> SelectedExpertInfo) result" where
  "select_experts env m hidden_states_2d router_logits_2d =
     rbind (t_size (fm_w13 m) 0) (\<lambda>expert_size.
     rbind (route_topk env m router_logits_2d) (\<lambda>(reduce_weight, expert_id).
     rbind (moe_gen_idx (me_plat env) (me_run env)
              ((default_MoeGenIdxParams (me_gi env))
               \<lparr>moe_gen_idx_expert_id := expert_id,
                moe_gen_idx_expert_num := fm_num_total_experts m\<rparr>)) (\<lambda>output_vec.
     rbind (nth_output output_vec 0) (\<lambda>gather_idx.
     rbind (nth_output output_vec 1) (\<lambda>combine_idx.
     rbind (nth_output output_vec 2) (\<lambda>token_count.
     rbind (nth_output output_vec 3) (\<lambda>cusum_token_count.
     rbind (at_slice (me_aten env) token_count 0 (fm_start_expert_id m) (fm_start_expert_id m + expert_size))
       (\<lambda>token_count_slice.
     rbind (moe_expand_input (me_plat env) (me_run env)
              ((default_MoeExpandInputParams (me_gi env))
               \<lparr>moe_expand_input_input := hidden_states_2d,
                moe_expand_input_gather_index := gather_idx,
                moe_expand_input_combine_idx := combine_idx,
                moe_expand_input_topk := fm_topk m\<rparr>)) (\<lambda>expanded.
     rbind (one expanded) (\<lambda>expand_hidden_states.
     Inr (expand_hidden_states,
          \<lparr>si_reduce_weight = reduce_weight, si_combine_idx = combine_idx,
           si_token_count_slice = token_count_slice,
           si_cusum_token_count = Some cusum_token_count\<rparr>)))))))))))"

section \<open>Steps 4 to 7: the experts\<close>

definition create_group_gemm_output :: "moe_env \<Rightarrow> torch \<Rightarrow> torch \<Rightarrow> torch \<Rightarrow> DType \<Rightarrow> torch result" where
  "create_group_gemm_output env a b group_list d =
     (let is_3d_weight = (t_dim b \<noteq> 2) in
      rbind (t_size a 0) (\<lambda>num_tokens.
      rbind (if is_3d_weight then t_size b 1 else t_size b 0) (\<lambda>out_dim.
      rbind (if is_3d_weight then Inr [num_tokens, out_dim]
             else rbind (t_size group_list 0) (\<lambda>g. Inr [g, num_tokens, out_dim])) (\<lambda>output_shape.
      at_empty (me_aten env) output_shape d))))"

definition view_as_dtype :: "moe_env \<Rightarrow> torch \<Rightarrow> DType \<Rightarrow> torch result" where
  "view_as_dtype env src target_dtype =
     (if t_dtype src = target_dtype then Inr src else me_reinterpret env src target_dtype)"

text \<open>One grouped product with transposed weights, as both steps call it.\<close>

definition expert_gemm ::
    "moe_env \<Rightarrow> torch \<Rightarrow> torch \<Rightarrow> torch \<Rightarrow> int \<Rightarrow> torch \<Rightarrow> torch option \<Rightarrow> torch result" where
  "expert_gemm env a b token_count max_dim output combine_idx =
     group_gemm (me_plat env) (me_run env)
       ((default_GroupGemmParams (me_gi env) (me_gb env))
        \<lparr>group_gemm_a := a, group_gemm_b := b, group_gemm_token_count := token_count,
         group_gemm_max_dim := max_dim, group_gemm_trans_a := False, group_gemm_trans_b := True,
         group_gemm_a_quant_bit := -1, group_gemm_output := output,
         group_gemm_combine_idx := combine_idx\<rparr>)"

definition activate :: "moe_env \<Rightarrow> FusedMoE \<Rightarrow> SelectedExpertInfo \<Rightarrow> torch \<Rightarrow> torch result" where
  "activate env m info gemm1_out =
     rbind (t_size (fm_w13 m) 0) (\<lambda>expert_size.
     rbind (if fm_is_gated m
            then rbind (t_size gemm1_out 1) (\<lambda>n. at_slice (me_aten env) gemm1_out 1 0 (n sdiv 2))
            else Inr gemm1_out) (\<lambda>act_out.
     rbind (active (me_plat env) (me_run env)
              ((default_ActivationParams (me_gb env))
               \<lparr>activation_input := gemm1_out, activation_output := act_out,
                activation_cusum_token_count := si_cusum_token_count info,
                activation_act_mode := fm_hidden_act m, activation_is_gated := fm_is_gated m,
                activation_start_expert_id := fm_start_expert_id m,
                activation_expert_size := expert_size\<rparr>)) (\<lambda>_.
     Inr act_out)))"

definition combine_experts ::
    "moe_env \<Rightarrow> FusedMoE \<Rightarrow> SelectedExpertInfo \<Rightarrow> torch \<Rightarrow> torch result" where
  "combine_experts env m info gemm2_out =
     rbind (t_size (fm_w13 m) 0) (\<lambda>expert_size.
     moe_combine_result (me_aten env) (me_plat env) (me_run env)
       (default_MoeCombineResultParams
        \<lparr>moe_combine_result_input := gemm2_out,
         moe_combine_result_reduce_weight := si_reduce_weight info,
         moe_combine_result_gather_ids := si_combine_idx info,
         moe_combine_result_cusum_token_count := si_cusum_token_count info,
         moe_combine_result_start_expert_id := fm_start_expert_id m,
         moe_combine_result_expert_size := expert_size,
         moe_combine_result_bias := None\<rparr>))"

definition reduce_and_share :: "moe_env \<Rightarrow> FusedMoE \<Rightarrow> torch \<Rightarrow> torch \<Rightarrow> torch result" where
  "reduce_and_share env m hidden_states final_hidden_states =
     rbind (if fm_tp_world_size m > 1 then me_reduce_tp env final_hidden_states
            else Inr final_hidden_states) (\<lambda>f1.
     rbind (if fm_ep_size m > 1 then me_reduce_ep env f1 else Inr f1) (\<lambda>f2.
     if fm_n_shared_experts m > 0 then
       rbind (me_shared env hidden_states) (\<lambda>shared.
       rbind (t_size shared (-1)) (\<lambda>h.
       rbind (at_reshape (me_aten env) shared [-1, h]) (\<lambda>shared_2d.
       at_add_to (me_aten env) f2 shared_2d)))
     else Inr f2))"

text \<open>The routed experts, up to the reduction.\<close>

definition routed_experts :: "moe_env \<Rightarrow> FusedMoE \<Rightarrow> torch \<Rightarrow> torch \<Rightarrow> torch result" where
  "routed_experts env m hidden_states router_logits =
     (let d = t_dtype hidden_states in
      rbind (t_size hidden_states (-1)) (\<lambda>h.
      rbind (at_reshape (me_aten env) hidden_states [-1, h]) (\<lambda>hidden_states_2d.
      rbind (t_size router_logits (-1)) (\<lambda>e.
      rbind (at_reshape (me_aten env) router_logits [-1, e]) (\<lambda>router_logits_2d.
      rbind (t_size hidden_states_2d 0) (\<lambda>max_dim.
      rbind (select_experts env m hidden_states_2d router_logits_2d) (\<lambda>(expanded, info).
      rbind (create_group_gemm_output env expanded (fm_w13 m) (si_token_count_slice info) d) (\<lambda>out1.
      rbind (view_as_dtype env expanded d) (\<lambda>expanded'.
      rbind (at_view (me_aten env) expanded' [-1, fm_hidden_size m]) (\<lambda>a1.
      rbind (expert_gemm env a1 (fm_w13 m) (si_token_count_slice info) max_dim out1 None) (\<lambda>gemm1_out.
      rbind (activate env m info gemm1_out) (\<lambda>act_out.
      rbind (create_group_gemm_output env act_out (fm_w2 m) (si_token_count_slice info) d) (\<lambda>out2.
      rbind (expert_gemm env act_out (fm_w2 m) (si_token_count_slice info) max_dim out2
               (Some (si_combine_idx info))) (\<lambda>gemm2_out.
      rbind (combine_experts env m info gemm2_out) (\<lambda>final.
      at_reshape (me_aten env) final (t_sizes hidden_states))))))))))))))))"

definition forward_experts :: "moe_env \<Rightarrow> FusedMoE \<Rightarrow> torch \<Rightarrow> torch \<Rightarrow> torch result" where
  "forward_experts env m hidden_states router_logits =
     rbind (routed_experts env m hidden_states router_logits) (\<lambda>final_hidden_states.
     reduce_and_share env m hidden_states final_hidden_states)"

section \<open>The constructed object\<close>

lemma int_range_eq_iff:
  fixes a b :: int
  assumes "0 \<le> a" and "0 \<le> b"
  shows "{0..<a} = {0..<b} \<longleftrightarrow> a = b"
proof
  assume "{0..<a} = {0..<b}"
  then have "card {0..<a} = card {0..<b}" by simp
  with assms show "a = b" by simp
qed simp

lemma if_Inl_eq_Inr_iff: "((if P then Inl e else r) = Inr y) \<longleftrightarrow> \<not> P \<and> r = Inr y"
  by simp

text \<open>What the constructor leaves in the object when it returns.\<close>

lemma create_fields:
  assumes "FusedMoE_create lib c = Inr m" and "aten_laws lib"
  shows "fm_num_total_experts m = mc_n_routed_experts c \<and> fm_topk m = mc_num_experts_per_tok c \<and>
    fm_hidden_size m = mc_hidden_size c \<and> fm_n_shared_experts m = mc_n_shared_experts c \<and>
    fm_is_gated m = mc_is_gated c \<and> fm_hidden_act m = mc_hidden_act c \<and>
    fm_num_experts_per_rank m = mc_n_routed_experts c sdiv mc_ep_size c \<and>
    fm_start_expert_id m = (if mc_ep_size c > 1 then mc_ep_rank c else 0) * fm_num_experts_per_rank m \<and>
    (\<exists>mid. 0 \<le> mid \<and> t_sizes (fm_w13 m) = [fm_num_experts_per_rank m, mid * 2, fm_hidden_size m] \<and>
       t_sizes (fm_w2 m) = [fm_num_experts_per_rank m, fm_hidden_size m, mid])"
proof -
  let ?mid = "mc_moe_intermediate_size c sdiv mc_tp_world_size c"
  from assms(1) obtain bias w13 w2 where
    w: "at_empty lib [mc_n_routed_experts c sdiv mc_ep_size c, ?mid * 2, mc_hidden_size c] (mc_dtype c) = Inr w13"
       "at_empty lib [mc_n_routed_experts c sdiv mc_ep_size c, mc_hidden_size c, ?mid] (mc_dtype c) = Inr w2"
    and m: "fm_num_total_experts m = mc_n_routed_experts c" "fm_topk m = mc_num_experts_per_tok c"
      "fm_hidden_size m = mc_hidden_size c" "fm_n_shared_experts m = mc_n_shared_experts c"
      "fm_is_gated m = mc_is_gated c" "fm_hidden_act m = mc_hidden_act c"
      "fm_num_experts_per_rank m = mc_n_routed_experts c sdiv mc_ep_size c"
      "fm_start_expert_id m = (if mc_ep_size c > 1 then mc_ep_rank c else 0) * fm_num_experts_per_rank m"
      "fm_w13 m = w13" "fm_w2 m = w2" "fm_e_score_correction_bias m = bias"
    unfolding FusedMoE_create_def Let_def if_Inl_eq_Inr_iff rbind_eq_Inr_iff
    by (elim conjE exE) (auto simp: sum.inject)
  note shapes = aten_laws.empty_shape[OF assms(2) w(1)] aten_laws.empty_shape[OF assms(2) w(2)]
  from shapes have "0 \<le> ?mid" by auto
  with m shapes show ?thesis by metis
qed

section \<open>Properties\<close>

text \<open>A small model and an environment to evaluate the properties on.\<close>

definition demo_moe_config :: MoeConfig where
  "demo_moe_config =
     \<lparr>mc_n_routed_experts = 5, mc_num_experts_per_tok = 2, mc_n_group = 1, mc_topk_group = 1,
      mc_routed_scaling_factor = 1, mc_hidden_size = 4, mc_n_shared_experts = 1,
      mc_moe_intermediate_size = 6, mc_norm_topk_prob = True, mc_hidden_act = ''silu'',
      mc_scoring_func = ''softmax'', mc_topk_method = ''greedy'', mc_is_gated = True,
      mc_dtype = kBFloat16, mc_ep_size = 2, mc_ep_rank = 1, mc_world_size = 2,
      mc_tp_world_size = 1\<rparr>"

definition demo_infer :: ixformer where
  "demo_infer name outs args = Inr outs"

definition demo_moe_env :: moe_env where
  "demo_moe_env =
     \<lparr>me_aten = aten_ref, me_plat = ILU, me_run = ilu_backend aten_ref demo_infer True (\<lambda>_. 0), me_gi = 0, me_gb = False,
      me_gr = 0, me_reinterpret = (\<lambda>t d. Inr t), me_reduce_tp = Inr, me_reduce_ep = Inr,
      me_shared = Inr\<rparr>"

lemma demo_moe_create:
  "\<exists>m. FusedMoE_create aten_ref (demo_moe_config\<lparr>mc_ep_rank := r\<rparr>) = Inr m"
  by (simp add: FusedMoE_create_def demo_moe_config_def Let_def aten_ref_def t_empty_def check_def c_arith)

text \<open>An operation that keeps the shape of its argument where it returns.\<close>

definition keeps_shape :: "(torch \<Rightarrow> torch result) \<Rightarrow> bool" where
  "keeps_shape f \<longleftrightarrow> (\<forall>t u. f t = Inr u \<longrightarrow> t_sizes u = t_sizes t)"

text \<open>The routed result has the shape of the hidden states, whatever the kernels return.\<close>

lemma routed_experts_shape:
  assumes "aten_laws (me_aten env)" and "routed_experts env m hidden router = Inr f"
    and "list_all (\<lambda>n. 0 \<le> n) (t_sizes hidden)"
  shows "t_sizes f = t_sizes hidden"
proof -
  obtain x where "at_reshape (me_aten env) x (t_sizes hidden) = Inr f"
    using assms(2) unfolding routed_experts_def Let_def rbind_eq_Inr_iff by (auto simp: rbind_eq_Inr_iff)
  then have shape: "infer_shape (t_numel x) (t_sizes hidden) = Inr (t_sizes f)"
    by (rule aten_laws.reshape_shape[OF assms(1)])
  have "-1 \<notin> set (t_sizes hidden)" using assms(3) by (auto simp: list_all_iff)
  then show ?thesis using shape by (auto simp: infer_shape_def Let_def torch_error_def split: if_splits)
qed

lemma routed_experts_shared:
  "routed_experts env (m\<lparr>fm_n_shared_experts := k\<rparr>) hidden router = routed_experts env m hidden router"
  by (simp add: routed_experts_def select_experts_def route_topk_def activate_def combine_experts_def)

lemma reduced_shape:
  assumes "keeps_shape g" and "(if q then g t else Inr t) = Inr u"
  shows "t_sizes u = t_sizes t"
  using assms by (auto simp: keeps_shape_def split: if_splits)

text \<open>The sum of a result of three dimensions and a flattened one of two does not fit.\<close>

lemma share_throws:
  assumes "aten_laws (me_aten env)" and "0 < fm_n_shared_experts m"
    and "t_sizes f = [b, s, h]" and "t_sizes u = [b, s, h]" and "1 < b" and "1 < s" and "0 < h"
  shows "\<exists>msg. rbind (t_size u (-1)) (\<lambda>h. rbind (at_reshape (me_aten env) u [-1, h]) (\<lambda>v.
    at_add_to (me_aten env) f v)) = Inl (Exn msg)"
proof -
  obtain v where v: "at_reshape (me_aten env) u [-1, h] = Inr v" "t_sizes v = [b * s, h]"
    using aten_laws.flatten_Inr[OF assms(1), of u "[b, s]" h] assms(4-7) by auto
  have "s \<noteq> b * s" "b * s \<noteq> 1" "s \<noteq> 1"
    using assms(5,6) by (auto simp: zmult_eq_1_iff)
  then have "\<exists>msg. at_add_to (me_aten env) f v = Inl (Exn msg)"
    by (intro aten_laws.add_to_throws[OF assms(1)]) (simp add: assms(3) v(2) torch_error_def)
  then show ?thesis using t_size_last[of u] assms(4) v(1) by simp
qed

text \<open>
  C26: with shared experts, hidden states of three dimensions \<open>[b, s, hidden]\<close> (more than one
  sequence of more than one token) never get a result, whatever the kernels do: the routed
  result has been reshaped back to three dimensions, the shared result is flattened to two,
  and the in-place sum of the two does not fit. Where the same layer without shared experts
  returns, and the shared experts do, it is this sum that throws.
\<close>

theorem moe_batched_shared_throws:
  assumes "aten_laws (me_aten env)" and "0 < fm_n_shared_experts m"
    and "keeps_shape (me_reduce_tp env)" and "keeps_shape (me_reduce_ep env)"
    and "keeps_shape (me_shared env)"
    and "t_sizes hidden = [b, s, h]" and "1 < b" and "1 < s" and "0 < h"
  shows "(\<exists>e. forward_experts env m hidden router = Inl e) \<and>
    (\<forall>t u. forward_experts env (m\<lparr>fm_n_shared_experts := 0\<rparr>) hidden router = Inr t \<longrightarrow>
       me_shared env hidden = Inr u \<longrightarrow>
       t_sizes t = [b, s, h] \<and> (\<exists>msg. forward_experts env m hidden router = Inl (Exn msg)))"
proof (cases "routed_experts env m hidden router")
  case (Inl e)
  then show ?thesis by (simp add: forward_experts_def routed_experts_shared)
next
  case f: (Inr f)
  let ?tp = "if fm_tp_world_size m > 1 then me_reduce_tp env f else Inr f"
  let ?ep = "\<lambda>f1. if fm_ep_size m > 1 then me_reduce_ep env f1 else Inr f1"
  have shape: "t_sizes f = [b, s, h]"
    using routed_experts_shape[OF assms(1) f] assms(6-9) by simp
  show ?thesis
  proof (cases "rbind ?tp ?ep")
    case (Inl e)
    then show ?thesis
      by (cases ?tp) (simp_all add: forward_experts_def f routed_experts_shared reduce_and_share_def)
  next
    case (Inr f2)
    then obtain f1 where f1: "?tp = Inr f1" "?ep f1 = Inr f2" by (auto simp: rbind_eq_Inr_iff)
    have f2: "t_sizes f2 = [b, s, h]"
      using reduced_shape[OF assms(3) f1(1)] reduced_shape[OF assms(4) f1(2)] shape by simp
    have result: "forward_experts env m hidden router = rbind (me_shared env hidden) (\<lambda>u.
        rbind (t_size u (-1)) (\<lambda>h. rbind (at_reshape (me_aten env) u [-1, h]) (\<lambda>v.
          at_add_to (me_aten env) f2 v)))"
      using assms(2) by (simp add: forward_experts_def f reduce_and_share_def f1)
    have alone: "forward_experts env (m\<lparr>fm_n_shared_experts := 0\<rparr>) hidden router = Inr f2"
      by (simp add: forward_experts_def f routed_experts_shared reduce_and_share_def f1)
    show ?thesis
    proof (cases "me_shared env hidden")
      case (Inl e)
      then show ?thesis by (simp add: result)
    next
      case (Inr u)
      then have "t_sizes u = [b, s, h]" using assms(5,6) by (simp add: keeps_shape_def)
      then show ?thesis
        using share_throws[OF assms(1,2) f2 _ assms(7-9)] f2 by (auto simp: result Inr alone)
    qed
  qed
qed

lemma demo_moe_env_ok:
  "aten_laws (me_aten demo_moe_env)" "keeps_shape (me_reduce_tp demo_moe_env)"
  "keeps_shape (me_reduce_ep demo_moe_env)" "keeps_shape (me_shared demo_moe_env)"
  by (auto simp: ref.aten_laws_axioms demo_moe_env_def keeps_shape_def)

theorem moe_batched_shared_throws_witness:
  "\<exists>m msg. FusedMoE_create aten_ref demo_moe_config = Inr m \<and>
     forward_experts demo_moe_env m (Tn ''hidden'' [] [] [2, 3, 4] kBFloat16)
       (Tn ''router'' [] [] [2, 3, 5] kFloat) = Inl (Exn msg)"
proof -
  obtain m where m: "FusedMoE_create aten_ref demo_moe_config = Inr m"
    using demo_moe_create[of 1] by (auto simp: demo_moe_config_def)
  let ?alone = "forward_experts demo_moe_env (m\<lparr>fm_n_shared_experts := 0\<rparr>)
    (Tn ''hidden'' [] [] [2, 3, 4] kBFloat16) (Tn ''router'' [] [] [2, 3, 5] kFloat)"
  have "rbind (FusedMoE_create aten_ref demo_moe_config) (\<lambda>m. rbind
     (forward_experts demo_moe_env (m\<lparr>fm_n_shared_experts := 0\<rparr>) (Tn ''hidden'' [] [] [2, 3, 4] kBFloat16)
       (Tn ''router'' [] [] [2, 3, 5] kFloat)) (\<lambda>t. Inr ())) = Inr ()"
    by code_simp
  then obtain t where t: "?alone = Inr t" by (auto simp: m rbind_eq_Inr_iff)
  have "0 < fm_n_shared_experts m" "\<And>x. me_shared demo_moe_env x = Inr x"
    using create_fields[OF m ref.aten_laws_axioms] by (simp_all add: demo_moe_config_def demo_moe_env_def)
  then show ?thesis
    using moe_batched_shared_throws[where env = demo_moe_env and m = m and b = 2 and s = 3 and h = 4
        and hidden = "Tn ''hidden'' [] [] [2, 3, 4] kBFloat16"
        and router = "Tn ''router'' [] [] [2, 3, 5] kFloat"] m t demo_moe_env_ok
    by auto
qed

text \<open>
  C27: the expert ranges of the expert-parallel ranks cover all routed experts exactly when
  the number of ranks divides the number of experts. The constructor does not check this:
  otherwise the last experts belong to no rank, though the router can pick them.
\<close>

theorem expert_ranges_cover:
  assumes "aten_laws lib" and "1 < mc_ep_size c" and "0 \<le> mc_n_routed_experts c"
    and "\<forall>rank \<in> {0..<mc_ep_size c}. FusedMoE_create lib (c\<lparr>mc_ep_rank := rank\<rparr>) = Inr (m rank)"
  shows "(\<Union>rank \<in> {0..<mc_ep_size c}. {fm_start_expert_id (m rank)
      ..<fm_start_expert_id (m rank) + fm_num_experts_per_rank (m rank)}) = {0..<mc_n_routed_experts c}
    \<longleftrightarrow> mc_ep_size c dvd mc_n_routed_experts c"
proof -
  let ?E = "mc_n_routed_experts c" and ?p = "mc_ep_size c"
  let ?q = "?E div ?p"
  have q: "0 \<le> ?q" using assms(2,3) by (simp add: pos_imp_zdiv_nonneg_iff)
  have range: "fm_start_expert_id (m rank) = rank * ?q" "fm_num_experts_per_rank (m rank) = ?q"
    if "rank \<in> {0..<?p}" for rank
    using create_fields[of lib "c\<lparr>mc_ep_rank := rank\<rparr>" "m rank"] assms that by (simp_all add: c_arith)
  have "(\<Union>rank \<in> {0..<?p}. {fm_start_expert_id (m rank)
      ..<fm_start_expert_id (m rank) + fm_num_experts_per_rank (m rank)})
    = (\<Union>rank \<in> {0..<?p}. {rank * ?q ..< rank * ?q + ?q})"
    using range by (intro SUP_cong) auto
  also have "\<dots> = {0..<?p * ?q}"
  proof (intro equalityI subsetI)
    fix x assume "x \<in> (\<Union>rank \<in> {0..<?p}. {rank * ?q ..< rank * ?q + ?q})"
    then obtain rank where r: "0 \<le> rank" "rank < ?p" "rank * ?q \<le> x" "x < rank * ?q + ?q" by auto
    then have "rank * ?q + ?q \<le> ?p * ?q"
      using mult_right_mono[of "rank + 1" ?p ?q] q by (simp add: algebra_simps)
    moreover have "0 \<le> rank * ?q" using r q by simp
    ultimately have "0 \<le> x" "x < ?p * ?q" using r by linarith+
    then show "x \<in> {0..<?p * ?q}" by simp
  next
    fix x assume x: "x \<in> {0..<?p * ?q}"
    then have "0 < ?q" using assms(2) by (cases "?q = 0") (use q in auto)
    have "?q * (x div ?q) + x mod ?q = x" "0 \<le> x mod ?q" "x mod ?q < ?q"
      using \<open>0 < ?q\<close> by simp_all
    then have b: "x div ?q * ?q \<le> x" "x < x div ?q * ?q + ?q"
      by (simp_all only: mult.commute[of _ ?q])
    moreover have "x < ?p * ?q" using x by simp
    ultimately have "x div ?q * ?q < ?p * ?q" by linarith
    then have "x div ?q < ?p" using \<open>0 < ?q\<close> mult_less_cancel_right_pos by blast
    moreover have "0 \<le> x div ?q" using \<open>0 < ?q\<close> x by (simp add: pos_imp_zdiv_nonneg_iff)
    ultimately show "x \<in> (\<Union>rank \<in> {0..<?p}. {rank * ?q ..< rank * ?q + ?q})"
      using b by (intro UN_I[of "x div ?q"]) simp_all
  qed
  finally have union: "(\<Union>rank \<in> {0..<?p}. {fm_start_expert_id (m rank)
      ..<fm_start_expert_id (m rank) + fm_num_experts_per_rank (m rank)}) = {0..<?p * ?q}" .
  have "{0..<?p * ?q} = {0..<?E} \<longleftrightarrow> ?p * ?q = ?E"
    using assms(2,3) q by (intro int_range_eq_iff) simp_all
  also have "\<dots> \<longleftrightarrow> ?p dvd ?E" by (metis dvd_div_mult_self dvd_triv_left mult.commute)
  finally show ?thesis unfolding union .
qed

theorem expert_ranges_cover_witness:
  "\<exists>m. (\<forall>rank \<in> {0..<2}. FusedMoE_create aten_ref (demo_moe_config\<lparr>mc_ep_rank := rank\<rparr>) = Inr (m rank)) \<and>
     (\<Union>rank \<in> {0..<2}. {fm_start_expert_id (m rank)
        ..<fm_start_expert_id (m rank) + fm_num_experts_per_rank (m rank)}) \<noteq> {0..<5}"
proof -
  obtain m where m: "\<forall>rank \<in> {0..<2}. FusedMoE_create aten_ref (demo_moe_config\<lparr>mc_ep_rank := rank\<rparr>) = Inr (m rank)"
    using demo_moe_create by metis
  then show ?thesis
    using expert_ranges_cover[OF ref.aten_laws_axioms, of demo_moe_config m] by (auto simp: demo_moe_config_def)
qed


end
