(* ===== verification/Json_Args.thy ===== *)
theory Json_Args
  imports Complex_Main Prelude
begin

text \<open>
  Reading model arguments from a configuration: the JSON reader with its dotted keys
  (\<^verbatim>\<open>upstream_ref/xllm/xllm/core/util/json_reader.h\<close>), the arguments of a model
  (\<^verbatim>\<open>core/framework/model/model_args.h\<close>, the ones the Qwen3 loaders touch) and the loading macros
  (\<^verbatim>\<open>models/model_registry.h\<close>, \<^verbatim>\<open>ex_engine/xllm_models/llm/qwen3_5.h\<close>). The conversion of a JSON value
  to a C++ type is the JSON library's and a parameter.
\<close>

section \<open>JSON\<close>

text \<open>Of two members with the same key the first counts.\<close>

datatype json =
    JNull
  | JBool bool
  | JInt int
  | JReal rat
  | JStr string
  | JList "json list"
  | JObj "(string \<times> json) list"

fun json_member :: "json \<Rightarrow> string \<Rightarrow> json option" where
  "json_member (JObj ms) k = map_of ms k"
| "json_member j k = None"

text \<open>\<^verbatim>\<open>absl::StrSplit(key, '.')\<close>.\<close>

fun split_dots :: "string \<Rightarrow> string list" where
  "split_dots [] = [[]]"
| "split_dots (ch # cs) =
     (if ch = CHR ''.'' then [] # split_dots cs
      else (case split_dots cs of [] \<Rightarrow> [[ch]] | w # ws \<Rightarrow> (ch # w) # ws))"

fun json_path :: "json \<Rightarrow> string list \<Rightarrow> json option" where
  "json_path j [] = Some j"
| "json_path j (k # ks) = (case json_member j k of None \<Rightarrow> None | Some m \<Rightarrow> json_path m ks)"

fun is_null_or_object :: "json \<Rightarrow> bool" where
  "is_null_or_object JNull = True"
| "is_null_or_object (JObj ms) = True"
| "is_null_or_object j = False"

definition json_contains :: "json \<Rightarrow> string \<Rightarrow> bool" where
  "json_contains j key \<longleftrightarrow> json_path j (split_dots key) \<noteq> None"

text \<open>The JSON value a key reads, before its conversion.\<close>

definition json_find :: "json \<Rightarrow> string \<Rightarrow> json option" where
  "json_find j key =
     (case json_path j (split_dots key) of
        None \<Rightarrow> None
      | Some data \<Rightarrow> if is_null_or_object data then None else Some data)"

definition json_value :: "(json \<Rightarrow> 'v result) \<Rightarrow> json \<Rightarrow> string \<Rightarrow> 'v option result" where
  "json_value get j key =
     (case json_find j key of None \<Rightarrow> Inr None | Some data \<Rightarrow> rbind (get data) (\<lambda>v. Inr (Some v)))"

definition json_value_or :: "(json \<Rightarrow> 'v result) \<Rightarrow> json \<Rightarrow> string \<Rightarrow> 'v \<Rightarrow> 'v result" where
  "json_value_or get j key default_value =
     rbind (json_value get j key) (\<lambda>data.
     Inr (case data of Some v \<Rightarrow> v | None \<Rightarrow> default_value))"

text \<open>The conversions the loaders use; each may throw.\<close>

record json_conv =
  jc_bool :: "json \<Rightarrow> bool result"
  jc_int32 :: "json \<Rightarrow> int result"
  jc_int64 :: "json \<Rightarrow> int result"
  jc_float :: "json \<Rightarrow> rat result"
  jc_string :: "json \<Rightarrow> string result"
  jc_int32s :: "json \<Rightarrow> int list result"
  jc_int64s :: "json \<Rightarrow> int list result"
  jc_strings :: "json \<Rightarrow> string list result"

section \<open>Model arguments\<close>

text \<open>
  Floating-point arguments are rationals: the decimal constants of the code are exact here and
  rounded there.
\<close>

record ModelArgs =
  ma_model_type :: string
  ma_dtype :: string
  ma_hidden_size :: int
  ma_hidden_act :: string
  ma_intermediate_size :: int
  ma_n_layers :: int
  ma_head_dim :: int
  ma_n_heads :: int
  ma_n_kv_heads :: "int option"
  ma_vocab_size :: int
  ma_rms_norm_eps :: rat
  ma_rope_theta :: rat
  ma_rope_scaling_rope_type :: string
  ma_rope_scaling_mrope_section :: "int list"
  ma_rope_scaling_mrope_interleaved :: bool
  ma_max_position_embeddings :: int
  ma_bos_token_id :: int
  ma_eos_token_id :: int
  ma_stop_token_ids :: "int set"
  ma_topk_method :: string
  ma_n_routed_experts :: int
  ma_n_shared_experts :: int
  ma_num_experts_per_tok :: int
  ma_moe_intermediate_size :: int
  ma_routed_scaling_factor :: rat
  ma_norm_topk_prob :: bool
  ma_n_group :: int
  ma_topk_group :: int
  ma_scoring_func :: string
  ma_num_nextn_predict_layers :: int
  ma_vision_start_token_id :: int
  ma_vision_end_token_id :: int
  ma_image_token_id :: int
  ma_video_token_id :: int
  ma_attention_bias :: bool
  ma_attention_dropout :: rat
  ma_decoder_sparse_step :: int
  ma_initializer_range :: rat
  ma_mlp_only_layers :: "int list"
  ma_num_experts :: int
  ma_output_router_logits :: bool
  ma_router_aux_loss_coef :: rat
  ma_attn_output_gate :: bool
  ma_full_attention_interval :: int
  ma_linear_conv_kernel_dim :: int
  ma_linear_key_head_dim :: int
  ma_linear_value_head_dim :: int
  ma_linear_num_key_heads :: int
  ma_linear_num_value_heads :: int
  ma_mamba_ssm_dtype :: string
  ma_shared_expert_intermediate_size :: int
  ma_partial_rotary_factor :: rat
  ma_layer_types :: "string list"
  ma_mm_hidden_act :: string
  ma_mm_hidden_size :: int
  ma_mm_intermediate_size :: int
  ma_mm_num_channels :: int
  ma_mm_initializer_range :: rat
  ma_mm_num_attention_heads :: int
  ma_mm_num_hidden_layers :: int
  ma_mm_patch_size :: int
  ma_mm_projection_dim :: int
  ma_mm_spatial_merge_size :: int
  ma_mm_head_dim :: int
  ma_mm_deepstack_visual_indexes :: "int list"
  ma_mm_temporal_patch_size :: int
  ma_mm_num_position_embeddings :: int
  ma_tie_word_embeddings :: bool
  ma_use_sliding_window :: bool
  ma_sliding_window :: int
  ma_max_window_layers :: int

text \<open>The values of a new object; \<open>gi\<close> is the one integer without an initialiser.\<close>

definition default_ModelArgs :: "int \<Rightarrow> ModelArgs" where
  "default_ModelArgs gi =
     \<lparr>ma_model_type = '''',
      ma_dtype = '''',
      ma_hidden_size = 0,
      ma_hidden_act = '''',
      ma_intermediate_size = 0,
      ma_n_layers = 0,
      ma_head_dim = 0,
      ma_n_heads = 0,
      ma_n_kv_heads = None,
      ma_vocab_size = -1,
      ma_rms_norm_eps = 0,
      ma_rope_theta = 10000,
      ma_rope_scaling_rope_type = '''',
      ma_rope_scaling_mrope_section = [],
      ma_rope_scaling_mrope_interleaved = False,
      ma_max_position_embeddings = 0,
      ma_bos_token_id = 0,
      ma_eos_token_id = -1,
      ma_stop_token_ids = {},
      ma_topk_method = '''',
      ma_n_routed_experts = 0,
      ma_n_shared_experts = 0,
      ma_num_experts_per_tok = 0,
      ma_moe_intermediate_size = 0,
      ma_routed_scaling_factor = 0,
      ma_norm_topk_prob = False,
      ma_n_group = 0,
      ma_topk_group = 0,
      ma_scoring_func = '''',
      ma_num_nextn_predict_layers = 0,
      ma_vision_start_token_id = 0,
      ma_vision_end_token_id = 0,
      ma_image_token_id = 0,
      ma_video_token_id = 0,
      ma_attention_bias = False,
      ma_attention_dropout = 0,
      ma_decoder_sparse_step = 1,
      ma_initializer_range = 1 / 50,
      ma_mlp_only_layers = [],
      ma_num_experts = 128,
      ma_output_router_logits = False,
      ma_router_aux_loss_coef = 1 / 1000,
      ma_attn_output_gate = False,
      ma_full_attention_interval = 0,
      ma_linear_conv_kernel_dim = 0,
      ma_linear_key_head_dim = 0,
      ma_linear_value_head_dim = 0,
      ma_linear_num_key_heads = 0,
      ma_linear_num_value_heads = 0,
      ma_mamba_ssm_dtype = '''',
      ma_shared_expert_intermediate_size = 0,
      ma_partial_rotary_factor = 0,
      ma_layer_types = [],
      ma_mm_hidden_act = '''',
      ma_mm_hidden_size = 0,
      ma_mm_intermediate_size = 0,
      ma_mm_num_channels = 0,
      ma_mm_initializer_range = 0,
      ma_mm_num_attention_heads = 0,
      ma_mm_num_hidden_layers = 0,
      ma_mm_patch_size = 0,
      ma_mm_projection_dim = 0,
      ma_mm_spatial_merge_size = 0,
      ma_mm_head_dim = 0,
      ma_mm_deepstack_visual_indexes = [],
      ma_mm_temporal_patch_size = 0,
      ma_mm_num_position_embeddings = gi,
      ma_tie_word_embeddings = False,
      ma_use_sliding_window = False,
      ma_sliding_window = -1,
      ma_max_window_layers = 0\<rparr>"

section \<open>The loading macros\<close>

type_synonym args_step = "ModelArgs \<Rightarrow> ModelArgs result"

fun load_all :: "args_step list \<Rightarrow> ModelArgs \<Rightarrow> ModelArgs result" where
  "load_all [] a = Inr a"
| "load_all (s # ss) a = rbind (s a) (load_all ss)"

definition load_arg ::
    "(json \<Rightarrow> 'v result) \<Rightarrow> ('v \<Rightarrow> ModelArgs \<Rightarrow> ModelArgs) \<Rightarrow> json \<Rightarrow> string \<Rightarrow> args_step" where
  "load_arg get put js key a =
     rbind (json_value get js key) (\<lambda>data.
     Inr (case data of Some v \<Rightarrow> put v a | None \<Rightarrow> a))"

definition load_arg_or ::
    "(json \<Rightarrow> 'v result) \<Rightarrow> ('v \<Rightarrow> ModelArgs \<Rightarrow> ModelArgs) \<Rightarrow> json \<Rightarrow> string
     \<Rightarrow> (ModelArgs \<Rightarrow> 'v) \<Rightarrow> args_step" where
  "load_arg_or get put js key default_value a =
     rbind (json_value_or get js key (default_value a)) (\<lambda>v. Inr (put v a))"

definition load_arg_or_func ::
    "(json \<Rightarrow> 'v result) \<Rightarrow> ('v \<Rightarrow> ModelArgs \<Rightarrow> ModelArgs) \<Rightarrow> json \<Rightarrow> string
     \<Rightarrow> (ModelArgs \<Rightarrow> 'v result) \<Rightarrow> args_step" where
  "load_arg_or_func get put js key func a =
     rbind (json_value get js key) (\<lambda>data.
     case data of
       Some v \<Rightarrow> Inr (put v a)
     | None \<Rightarrow> rbind (func a) (\<lambda>v. Inr (put v a)))"

definition set_arg :: "(ModelArgs \<Rightarrow> ModelArgs) \<Rightarrow> args_step" where
  "set_arg f a = Inr (f a)"

text \<open>\<^verbatim>\<open>args->arg_name()\<close> is \<open>sel\<close>.\<close>

definition load_arg_text_or_root ::
    "(json \<Rightarrow> 'v result) \<Rightarrow> ('v \<Rightarrow> ModelArgs \<Rightarrow> ModelArgs) \<Rightarrow> (ModelArgs \<Rightarrow> 'v) \<Rightarrow> json \<Rightarrow> string
     \<Rightarrow> (ModelArgs \<Rightarrow> 'v) \<Rightarrow> args_step list" where
  "load_arg_text_or_root get put sel js key default_value =
     [load_arg_or get put js (''text_config.'' @ key) default_value,
      load_arg_or get put js key sel]"

definition load_qwen3_5_rope_arg ::
    "(json \<Rightarrow> 'v result) \<Rightarrow> ('v \<Rightarrow> ModelArgs \<Rightarrow> ModelArgs) \<Rightarrow> (ModelArgs \<Rightarrow> 'v) \<Rightarrow> json \<Rightarrow> string
     \<Rightarrow> (ModelArgs \<Rightarrow> 'v) \<Rightarrow> args_step list" where
  "load_qwen3_5_rope_arg get put sel js key default_value =
     [load_arg_or get put js (''text_config.'' @ key) default_value,
      load_arg_or get put js key sel,
      load_arg_or get put js (''text_config.rope_scaling.'' @ key) sel,
      load_arg_or get put js (''rope_scaling.'' @ key) sel,
      load_arg_or get put js (''text_config.rope_parameters.'' @ key) sel,
      load_arg_or get put js (''rope_parameters.'' @ key) sel]"

section \<open>Lemmas\<close>

lemma load_all_append: "load_all (ss @ ts) a = rbind (load_all ss a) (load_all ts)"
proof (induction ss arbitrary: a)
  case (Cons s ss)
  then show ?case by (cases "s a") simp_all
qed simp

text \<open>The first word of a dotted key.\<close>

lemma split_dots_prefix: "CHR ''.'' \<notin> set w \<Longrightarrow> split_dots (w @ ''.'' @ key) = w # split_dots key"
  by (induction w) auto

lemma json_find_under:
  assumes "CHR ''.'' \<notin> set w"
  shows "json_find j (w @ ''.'' @ key)
    = (case json_member j w of None \<Rightarrow> None | Some m \<Rightarrow> json_find m key)"
  unfolding json_find_def split_dots_prefix[OF assms] by (simp split: option.split)

text \<open>A step that leaves an observation of the arguments as it is.\<close>

definition keeps :: "(ModelArgs \<Rightarrow> 'f) \<Rightarrow> args_step \<Rightarrow> bool" where
  "keeps sel s \<longleftrightarrow> (\<forall>a a'. s a = Inr a' \<longrightarrow> sel a' = sel a)"

named_theorems args_keeps "steps that keep an argument"

lemma keeps_load [args_keeps]:
  "(\<And>v a. sel (put v a) = sel a) \<Longrightarrow> keeps sel (load_arg get put js key)"
  "(\<And>v a. sel (put v a) = sel a) \<Longrightarrow> keeps sel (load_arg_or get put js key dv)"
  "(\<And>v a. sel (put v a) = sel a) \<Longrightarrow> keeps sel (load_arg_or_func get put js key func)"
  "(\<And>a. sel (f a) = sel a) \<Longrightarrow> keeps sel (set_arg f)"
  by (auto simp: keeps_def load_arg_def load_arg_or_def load_arg_or_func_def set_arg_def
      rbind_eq_Inr_iff split: option.splits)

lemma keeps_macros [args_keeps]:
  "(\<And>v a. sel (put v a) = sel a) \<Longrightarrow> list_all (keeps sel) (load_arg_text_or_root get put g js key dv)"
  "(\<And>v a. sel (put v a) = sel a) \<Longrightarrow> list_all (keeps sel) (load_qwen3_5_rope_arg get put g js key dv)"
  by (auto simp: load_arg_text_or_root_def load_qwen3_5_rope_arg_def intro!: args_keeps)

lemma load_all_keeps:
  assumes "load_all ss a = Inr a'" and "list_all (keeps sel) ss"
  shows "sel a' = sel a"
  using assms by (induction ss arbitrary: a) (auto simp: keeps_def rbind_eq_Inr_iff)

lemma load_all_ConsE:
  assumes "load_all (s # ss) a = Inr b"
  obtains x where "s a = Inr x" and "load_all ss x = Inr b"
  using assms by (auto simp: rbind_eq_Inr_iff)

lemma load_all_appendE:
  assumes "load_all (ss @ ts) a = Inr b"
  obtains x where "load_all ss a = Inr x" and "load_all ts x = Inr b"
  using assms by (auto simp: load_all_append rbind_eq_Inr_iff)

lemma load_arg_or_Inr:
  "load_arg_or get put js key dv a = Inr b \<longleftrightarrow>
    (case json_find js key of
       None \<Rightarrow> b = put (dv a) a
     | Some x \<Rightarrow> \<exists>v. get x = Inr v \<and> b = put v a)"
proof (cases "json_find js key")
  case None
  then show ?thesis by (auto simp: load_arg_or_def json_value_or_def json_value_def)
next
  case (Some x)
  then have "load_arg_or get put js key dv a = rbind (get x) (\<lambda>v. Inr (put v a))"
    by (simp add: load_arg_or_def json_value_or_def json_value_def rbind_assoc)
  with Some show ?thesis by (auto simp: rbind_eq_Inr_iff)
qed

text \<open>What one step establishes and the later ones keep.\<close>

lemma load_all_establish:
  assumes "load_all ss a = Inr b" and "n < length ss"
    and "\<And>x y. (ss ! n) x = Inr y \<Longrightarrow> Q (sel y)"
    and "list_all (keeps sel) (drop (Suc n) ss)"
  shows "Q (sel b)"
proof -
  obtain x where x: "load_all (take n ss) a = Inr x" "load_all (ss ! n # drop (Suc n) ss) x = Inr b"
    using assms(1) id_take_nth_drop[OF assms(2)] by (metis load_all_appendE)
  obtain y where y: "(ss ! n) x = Inr y" "load_all (drop (Suc n) ss) y = Inr b"
    using x(2) by (rule load_all_ConsE)
  have "sel b = sel y" using load_all_keeps[OF y(2) assms(4)] .
  with assms(3)[OF y(1)] show ?thesis by simp
qed

section \<open>What the macros read\<close>

text \<open>The value of the last key that is present, and of none the default.\<close>

fun last_found :: "json \<Rightarrow> string list \<Rightarrow> json option" where
  "last_found j [] = None"
| "last_found j (k # ks) = (case last_found j ks of None \<Rightarrow> json_find j k | Some x \<Rightarrow> Some x)"

definition loaded :: "(json \<Rightarrow> 'v result) \<Rightarrow> 'v \<Rightarrow> json option \<Rightarrow> 'v \<Rightarrow> bool" where
  "loaded get dv x v \<longleftrightarrow> (case x of None \<Rightarrow> v = dv | Some y \<Rightarrow> get y = Inr v)"

lemma chain_loads:
  assumes "\<And>v a. sel (put v a) = v"
    and "load_all (map (\<lambda>k. load_arg_or get put js k sel) ks) a = Inr b"
  shows "loaded get (sel a) (last_found js ks) (sel b)"
  using assms(2)
proof (induction ks arbitrary: a)
  case Nil
  then show ?case by (simp add: loaded_def)
next
  case (Cons k ks)
  then obtain x where x: "load_arg_or get put js k sel a = Inr x"
      "load_all (map (\<lambda>k. load_arg_or get put js k sel) ks) x = Inr b"
    by (auto simp: rbind_eq_Inr_iff)
  have "loaded get (sel a) (json_find js k) (sel x)"
    using x(1) assms(1) by (auto simp: load_arg_or_Inr loaded_def split: option.splits)
  with Cons.IH[OF x(2)] show ?case by (auto simp: loaded_def split: option.splits)
qed

lemma chain_loads_from:
  assumes "\<And>v a. sel (put v a) = v"
    and "load_all (load_arg_or get put js k dv # map (\<lambda>k. load_arg_or get put js k sel) ks) a = Inr b"
  shows "loaded get (dv a) (last_found js (k # ks)) (sel b)"
proof -
  obtain x where x: "load_arg_or get put js k dv a = Inr x"
      "load_all (map (\<lambda>k. load_arg_or get put js k sel) ks) x = Inr b"
    using assms(2) by (auto simp: rbind_eq_Inr_iff)
  have "loaded get (dv a) (json_find js k) (sel x)"
    using x(1) assms(1) by (auto simp: load_arg_or_Inr loaded_def split: option.splits)
  moreover have "loaded get (sel x) (last_found js ks) (sel b)"
    using chain_loads[OF assms(1) x(2)] .
  ultimately show ?thesis by (auto simp: loaded_def split: option.splits)
qed

text \<open>
  the value \<^verbatim>\<open>LOAD_ARG_TEXT_OR_ROOT\<close> leaves in an argument is the one at the root of the
  configuration when there is one, else the one in \<^verbatim>\<open>text_config\<close>, else the default: despite its
  name the macro prefers the root.
\<close>

theorem text_or_root_prefers_root:
  assumes "\<And>v a. sel (put v a) = v"
    and "load_all (load_arg_text_or_root get put sel js key dv) a = Inr b"
  shows "loaded get (dv a)
    (case json_find js key of
       Some x \<Rightarrow> Some x
     | None \<Rightarrow> (case json_member js ''text_config'' of None \<Rightarrow> None | Some t \<Rightarrow> json_find t key)) (sel b)"
proof -
  have "loaded get (dv a) (last_found js [''text_config.'' @ key, key]) (sel b)"
    by (rule chain_loads_from[where ks = "[key]", OF assms(1)])
      (use assms(2) in \<open>simp add: load_arg_text_or_root_def\<close>)
  moreover have "json_find js (''text_config.'' @ key)
      = (case json_member js ''text_config'' of None \<Rightarrow> None | Some t \<Rightarrow> json_find t key)"
    using json_find_under[of "''text_config''" js key] by simp
  ultimately show ?thesis by (simp split: option.splits)
qed

theorem text_or_root_prefers_root_witness:
  "ma_hidden_size (case load_all (load_arg_text_or_root (\<lambda>j. case j of JInt n \<Rightarrow> Inr n | _ \<Rightarrow> Inl (Exn ''type''))
       (\<lambda>v a. a\<lparr>ma_hidden_size := v\<rparr>) ma_hidden_size
       (JObj [(''text_config'', JObj [(''hidden_size'', JInt 7)]), (''hidden_size'', JInt 9)])
       ''hidden_size'' (\<lambda>a. 2048)) (default_ModelArgs 0) of Inr b \<Rightarrow> b) = 9"
proof -
  let ?js = "JObj [(''text_config'', JObj [(''hidden_size'', JInt 7)]), (''hidden_size'', JInt 9)]"
  let ?get = "\<lambda>j. case j of JInt n \<Rightarrow> Inr n | _ \<Rightarrow> Inl (Exn ''type'')"
  let ?put = "\<lambda>v a. a\<lparr>ma_hidden_size := v\<rparr>"
  obtain b where b: "load_all (load_arg_text_or_root ?get ?put ma_hidden_size ?js ''hidden_size'' (\<lambda>a. 2048))
      (default_ModelArgs 0) = Inr b"
    by (simp add: load_arg_text_or_root_def load_arg_or_def json_value_or_def json_value_def json_find_def)
  show ?thesis
    using text_or_root_prefers_root[of ma_hidden_size ?put, OF _ b] b
    by (simp add: json_find_def loaded_def)
qed

text \<open>
  \<^verbatim>\<open>LOAD_QWEN3_5_ROPE_ARG\<close> reads six places, and the last that is present counts:
  \<^verbatim>\<open>rope_parameters\<close> at the root overrides the same under \<^verbatim>\<open>text_config\<close>, which overrides
  \<^verbatim>\<open>rope_scaling\<close> at the root and under \<^verbatim>\<open>text_config\<close>, then the plain key at the root and under
  \<^verbatim>\<open>text_config\<close>.
\<close>

theorem rope_arg_precedence:
  assumes "\<And>v a. sel (put v a) = v"
    and "load_all (load_qwen3_5_rope_arg get put sel js key dv) a = Inr b"
  shows "loaded get (dv a)
    (last_found js (map (\<lambda>p. p @ key) [''text_config.'', [], ''text_config.rope_scaling.'', ''rope_scaling.'',
       ''text_config.rope_parameters.'', ''rope_parameters.''])) (sel b)"
  using chain_loads_from[where sel = sel and put = put and get = get and js = js and dv = dv
      and ks = "map (\<lambda>p. p @ key) [[], ''text_config.rope_scaling.'', ''rope_scaling.'',
       ''text_config.rope_parameters.'', ''rope_parameters.'']", OF assms(1)] assms(2)
  by (simp add: load_qwen3_5_rope_arg_def)

theorem rope_arg_precedence_witness:
  "\<exists>b. load_all (load_qwen3_5_rope_arg (\<lambda>j. case j of JInt n \<Rightarrow> Inr (of_int n) | _ \<Rightarrow> Inl (Exn ''type''))
       (\<lambda>v a. a\<lparr>ma_rope_theta := v\<rparr>) ma_rope_theta
       (JObj [(''rope_theta'', JInt 5), (''rope_parameters'', JObj [(''rope_theta'', JInt 3)])])
       ''rope_theta'' (\<lambda>a. 10000000)) (default_ModelArgs 0) = Inr b \<and> ma_rope_theta b = 3"
proof -
  let ?js = "JObj [(''rope_theta'', JInt 5), (''rope_parameters'', JObj [(''rope_theta'', JInt 3)])]"
  let ?get = "\<lambda>j. case j of JInt n \<Rightarrow> Inr (of_int n) | _ \<Rightarrow> Inl (Exn ''type'')"
  let ?put = "\<lambda>v a. a\<lparr>ma_rope_theta := v\<rparr>"
  obtain b where b: "load_all (load_qwen3_5_rope_arg ?get ?put ma_rope_theta ?js ''rope_theta'' (\<lambda>a. 10000000))
      (default_ModelArgs 0) = Inr b"
    by (simp add: load_qwen3_5_rope_arg_def load_arg_or_def json_value_or_def json_value_def json_find_def)
  show ?thesis
    using rope_arg_precedence[of ma_rope_theta ?put, OF _ b] b
    by (simp add: json_find_def loaded_def)
qed

end
