(* ===== verification/Qwen3_Args.thy ===== *)
theory Qwen3_Args
  imports Json_Args
begin

text \<open>
  The argument loaders of the Qwen3 models, one definition per stretch of the loading macros:
  Qwen3-Next (\<^verbatim>\<open>ex_engine/xllm_models/llm/qwen3_next.h\<close>), the Qwen3.5 text models
  (\<^verbatim>\<open>llm/qwen3_5.h\<close>), their multi-token-prediction drafts (\<^verbatim>\<open>llm/qwen3_5_mtp_base.h\<close>,
  \<^verbatim>\<open>llm/qwen3_5_mtp.h\<close>) and the multimodal models (\<^verbatim>\<open>vlm/qwen3_5.h\<close>). A loader that returns
  left its result in the arguments; a conversion of the JSON library may throw.
\<close>

section \<open>Qwen3-Next\<close>

definition qwen3_next_args :: "json_conv \<Rightarrow> json \<Rightarrow> args_step list" where
  "qwen3_next_args c js =
     [load_arg_or (jc_string c) (\<lambda>v a. a\<lparr>ma_model_type := v\<rparr>)
         js ''model_type'' (\<lambda>a. ''qwen3_next''),
      load_arg_or (jc_string c) (\<lambda>v a. a\<lparr>ma_dtype := v\<rparr>)
         js ''torch_dtype'' (\<lambda>a. ''''),
      load_arg_or (jc_bool c) (\<lambda>v a. a\<lparr>ma_attention_bias := v\<rparr>)
         js ''attention_bias'' (\<lambda>a. False),
      load_arg_or (jc_float c) (\<lambda>v a. a\<lparr>ma_attention_dropout := v\<rparr>)
         js ''attention_dropout'' (\<lambda>a. 0),
      load_arg_or (jc_int32 c) (\<lambda>v a. a\<lparr>ma_bos_token_id := v\<rparr>)
         js ''bos_token_id'' (\<lambda>a. 151643),
      load_arg_or (jc_int32 c) (\<lambda>v a. a\<lparr>ma_decoder_sparse_step := v\<rparr>)
         js ''decoder_sparse_step'' (\<lambda>a. 1),
      load_arg_or (jc_int32 c) (\<lambda>v a. a\<lparr>ma_eos_token_id := v\<rparr>)
         js ''eos_token_id'' (\<lambda>a. 151645),
      load_arg_or (jc_int64 c) (\<lambda>v a. a\<lparr>ma_head_dim := v\<rparr>)
         js ''head_dim'' (\<lambda>a. 256),
      load_arg_or (jc_string c) (\<lambda>v a. a\<lparr>ma_hidden_act := v\<rparr>)
         js ''hidden_act'' (\<lambda>a. ''silu''),
      load_arg_or (jc_int64 c) (\<lambda>v a. a\<lparr>ma_hidden_size := v\<rparr>)
         js ''hidden_size'' (\<lambda>a. 2048),
      load_arg_or (jc_float c) (\<lambda>v a. a\<lparr>ma_initializer_range := v\<rparr>)
         js ''initializer_range'' (\<lambda>a. 1 / 50),
      load_arg_or (jc_int64 c) (\<lambda>v a. a\<lparr>ma_intermediate_size := v\<rparr>)
         js ''intermediate_size'' (\<lambda>a. 5120),
      load_arg_or (jc_int64 c) (\<lambda>v a. a\<lparr>ma_max_position_embeddings := v\<rparr>)
         js ''max_position_embeddings'' (\<lambda>a. 262144),
      load_arg_or (jc_int32 c) (\<lambda>v a. a\<lparr>ma_max_window_layers := v\<rparr>)
         js ''max_window_layers'' (\<lambda>a. 28),
      load_arg_or (jc_int32 c) (\<lambda>v a. a\<lparr>ma_moe_intermediate_size := v\<rparr>)
         js ''moe_intermediate_size'' (\<lambda>a. 512),
      load_arg_or (jc_bool c) (\<lambda>v a. a\<lparr>ma_norm_topk_prob := v\<rparr>)
         js ''norm_topk_prob'' (\<lambda>a. True),
      load_arg_or (jc_int64 c) (\<lambda>v a. a\<lparr>ma_n_heads := v\<rparr>)
         js ''num_attention_heads'' (\<lambda>a. 16),
      load_arg_or (jc_int32 c) (\<lambda>v a. a\<lparr>ma_num_experts := v\<rparr>)
         js ''num_experts'' (\<lambda>a. 512),
      load_arg_or (jc_int32 c) (\<lambda>v a. a\<lparr>ma_num_experts_per_tok := v\<rparr>)
         js ''num_experts_per_tok'' (\<lambda>a. 10),
      load_arg_or (jc_int64 c) (\<lambda>v a. a\<lparr>ma_n_layers := v\<rparr>)
         js ''num_hidden_layers'' (\<lambda>a. 48),
      load_arg_or (jc_int64 c) (\<lambda>v a. a\<lparr>ma_n_kv_heads := Some v\<rparr>)
         js ''num_key_value_heads'' (\<lambda>a. 2),
      load_arg_or (jc_bool c) (\<lambda>v a. a\<lparr>ma_output_router_logits := v\<rparr>)
         js ''output_router_logits'' (\<lambda>a. False),
      load_arg_or (jc_float c) (\<lambda>v a. a\<lparr>ma_rms_norm_eps := v\<rparr>)
         js ''rms_norm_eps'' (\<lambda>a. 1 / 1000000),
      load_arg_or (jc_float c) (\<lambda>v a. a\<lparr>ma_rope_theta := v\<rparr>)
         js ''rope_theta'' (\<lambda>a. 10000000),
      load_arg_or (jc_float c) (\<lambda>v a. a\<lparr>ma_router_aux_loss_coef := v\<rparr>)
         js ''router_aux_loss_coef'' (\<lambda>a. 1 / 1000),
      load_arg_or (jc_bool c) (\<lambda>v a. a\<lparr>ma_use_sliding_window := v\<rparr>)
         js ''use_sliding_window'' (\<lambda>a. False),
      load_arg_or (jc_int32 c) (\<lambda>v a. a\<lparr>ma_sliding_window := v\<rparr>)
         js ''sliding_window'' (\<lambda>a. 4096),
      load_arg_or (jc_bool c) (\<lambda>v a. a\<lparr>ma_tie_word_embeddings := v\<rparr>)
         js ''tie_word_embeddings'' (\<lambda>a. False),
      load_arg_or (jc_int64 c) (\<lambda>v a. a\<lparr>ma_vocab_size := v\<rparr>)
         js ''vocab_size'' (\<lambda>a. 151936),
      load_arg_or (jc_int32s c) (\<lambda>v a. a\<lparr>ma_mlp_only_layers := v\<rparr>)
         js ''mlp_only_layers'' (\<lambda>a. []),
      load_arg_or (jc_bool c) (\<lambda>v a. a\<lparr>ma_attn_output_gate := v\<rparr>)
         js ''attn_output_gate'' (\<lambda>a. True),
      load_arg_or (jc_int32 c) (\<lambda>v a. a\<lparr>ma_full_attention_interval := v\<rparr>)
         js ''full_attention_interval'' (\<lambda>a. 4),
      load_arg_or (jc_int32 c) (\<lambda>v a. a\<lparr>ma_linear_conv_kernel_dim := v\<rparr>)
         js ''linear_conv_kernel_dim'' (\<lambda>a. 4),
      load_arg_or (jc_int32 c) (\<lambda>v a. a\<lparr>ma_linear_key_head_dim := v\<rparr>)
         js ''linear_key_head_dim'' (\<lambda>a. 128),
      load_arg_or (jc_int64 c) (\<lambda>v a. a\<lparr>ma_linear_num_key_heads := v\<rparr>)
         js ''linear_num_key_heads'' (\<lambda>a. 16),
      load_arg_or (jc_int32 c) (\<lambda>v a. a\<lparr>ma_linear_num_value_heads := v\<rparr>)
         js ''linear_num_value_heads'' (\<lambda>a. 32),
      load_arg_or (jc_int32 c) (\<lambda>v a. a\<lparr>ma_linear_value_head_dim := v\<rparr>)
         js ''linear_value_head_dim'' (\<lambda>a. 128),
      load_arg_or (jc_float c) (\<lambda>v a. a\<lparr>ma_partial_rotary_factor := v\<rparr>)
         js ''partial_rotary_factor'' (\<lambda>a. 1 / 4),
      load_arg_or (jc_int32 c) (\<lambda>v a. a\<lparr>ma_shared_expert_intermediate_size := v\<rparr>)
         js ''shared_expert_intermediate_size'' (\<lambda>a. 512),
      load_arg_or (jc_strings c) (\<lambda>v a. a\<lparr>ma_layer_types := v\<rparr>)
         js ''layer_types'' (\<lambda>a. []),
      load_arg_or (jc_int32 c) (\<lambda>v a. a\<lparr>ma_n_routed_experts := v\<rparr>)
         js ''n_routed_experts'' (\<lambda>a. ma_num_experts a),
      set_arg (\<lambda>a. a\<lparr>ma_n_shared_experts := if ma_shared_expert_intermediate_size a > 0 then 1 else 0\<rparr>),
      set_arg (\<lambda>a. a\<lparr>ma_scoring_func := ''softmax''\<rparr>),
      set_arg (\<lambda>a. a\<lparr>ma_topk_method := ''''\<rparr>),
      set_arg (\<lambda>a. a\<lparr>ma_n_group := -1\<rparr>),
      set_arg (\<lambda>a. a\<lparr>ma_topk_group := 0\<rparr>),
      set_arg (\<lambda>a. a\<lparr>ma_routed_scaling_factor := 1\<rparr>),
      set_arg (\<lambda>a. a\<lparr>ma_stop_token_ids := {ma_eos_token_id a}\<rparr>)]"

definition load_qwen3_next :: "json_conv \<Rightarrow> json \<Rightarrow> args_step" where
  "load_qwen3_next c js = load_all (qwen3_next_args c js)"

section \<open>Qwen3.5 text models\<close>

definition compat_core_args :: "json_conv \<Rightarrow> int \<Rightarrow> int \<Rightarrow> int \<Rightarrow> json \<Rightarrow> args_step list" where
  "compat_core_args c default_moe_intermediate_size default_num_experts default_num_experts_per_tok js =
     load_arg_text_or_root (jc_bool c) (\<lambda>v a. a\<lparr>ma_attention_bias := v\<rparr>) ma_attention_bias
         js ''attention_bias'' (\<lambda>a. False) @
     load_arg_text_or_root (jc_float c) (\<lambda>v a. a\<lparr>ma_attention_dropout := v\<rparr>) ma_attention_dropout
         js ''attention_dropout'' (\<lambda>a. 0) @
     load_arg_text_or_root (jc_int32 c) (\<lambda>v a. a\<lparr>ma_bos_token_id := v\<rparr>) ma_bos_token_id
         js ''bos_token_id'' (\<lambda>a. 151643) @
     load_arg_text_or_root (jc_int32 c) (\<lambda>v a. a\<lparr>ma_decoder_sparse_step := v\<rparr>) ma_decoder_sparse_step
         js ''decoder_sparse_step'' (\<lambda>a. 1) @
     load_arg_text_or_root (jc_int32 c) (\<lambda>v a. a\<lparr>ma_eos_token_id := v\<rparr>) ma_eos_token_id
         js ''eos_token_id'' (\<lambda>a. 151645) @
     load_arg_text_or_root (jc_int64 c) (\<lambda>v a. a\<lparr>ma_head_dim := v\<rparr>) ma_head_dim
         js ''head_dim'' (\<lambda>a. 256) @
     load_arg_text_or_root (jc_string c) (\<lambda>v a. a\<lparr>ma_hidden_act := v\<rparr>) ma_hidden_act
         js ''hidden_act'' (\<lambda>a. ''silu'') @
     load_arg_text_or_root (jc_int64 c) (\<lambda>v a. a\<lparr>ma_hidden_size := v\<rparr>) ma_hidden_size
         js ''hidden_size'' (\<lambda>a. 2048) @
     load_arg_text_or_root (jc_float c) (\<lambda>v a. a\<lparr>ma_initializer_range := v\<rparr>) ma_initializer_range
         js ''initializer_range'' (\<lambda>a. 1 / 50) @
     load_arg_text_or_root (jc_int64 c) (\<lambda>v a. a\<lparr>ma_intermediate_size := v\<rparr>) ma_intermediate_size
         js ''intermediate_size'' (\<lambda>a. 5120) @
     load_arg_text_or_root (jc_int64 c) (\<lambda>v a. a\<lparr>ma_max_position_embeddings := v\<rparr>) ma_max_position_embeddings
         js ''max_position_embeddings'' (\<lambda>a. 262144) @
     load_arg_text_or_root (jc_int32 c) (\<lambda>v a. a\<lparr>ma_max_window_layers := v\<rparr>) ma_max_window_layers
         js ''max_window_layers'' (\<lambda>a. 28) @
     load_arg_text_or_root (jc_int32 c) (\<lambda>v a. a\<lparr>ma_moe_intermediate_size := v\<rparr>) ma_moe_intermediate_size
         js ''moe_intermediate_size'' (\<lambda>a. default_moe_intermediate_size) @
     load_arg_text_or_root (jc_bool c) (\<lambda>v a. a\<lparr>ma_norm_topk_prob := v\<rparr>) ma_norm_topk_prob
         js ''norm_topk_prob'' (\<lambda>a. True) @
     load_arg_text_or_root (jc_int64 c) (\<lambda>v a. a\<lparr>ma_n_heads := v\<rparr>) ma_n_heads
         js ''num_attention_heads'' (\<lambda>a. 16) @
     load_arg_text_or_root (jc_int32 c) (\<lambda>v a. a\<lparr>ma_num_experts := v\<rparr>) ma_num_experts
         js ''num_experts'' (\<lambda>a. default_num_experts) @
     load_arg_text_or_root (jc_int32 c) (\<lambda>v a. a\<lparr>ma_num_experts_per_tok := v\<rparr>) ma_num_experts_per_tok
         js ''num_experts_per_tok'' (\<lambda>a. default_num_experts_per_tok) @
     load_arg_text_or_root (jc_int64 c) (\<lambda>v a. a\<lparr>ma_n_layers := v\<rparr>) ma_n_layers
         js ''num_hidden_layers'' (\<lambda>a. 48) @
     [load_arg_or (jc_int64 c) (\<lambda>v a. a\<lparr>ma_n_kv_heads := Some v\<rparr>)
         js ''text_config.num_key_value_heads'' (\<lambda>a. 2),
      load_arg_or (jc_int64 c) (\<lambda>v a. a\<lparr>ma_n_kv_heads := Some v\<rparr>)
         js ''num_key_value_heads'' (\<lambda>a. case ma_n_kv_heads a of None \<Rightarrow> 2 | Some v \<Rightarrow> v)] @
     load_arg_text_or_root (jc_bool c) (\<lambda>v a. a\<lparr>ma_output_router_logits := v\<rparr>) ma_output_router_logits
         js ''output_router_logits'' (\<lambda>a. False)"

definition compat_attention_args :: "json_conv \<Rightarrow> json \<Rightarrow> args_step list" where
  "compat_attention_args c js =
     load_arg_text_or_root (jc_float c) (\<lambda>v a. a\<lparr>ma_rms_norm_eps := v\<rparr>) ma_rms_norm_eps
         js ''rms_norm_eps'' (\<lambda>a. 1 / 1000000) @
     load_qwen3_5_rope_arg (jc_float c) (\<lambda>v a. a\<lparr>ma_rope_theta := v\<rparr>) ma_rope_theta
         js ''rope_theta'' (\<lambda>a. 10000000) @
     load_arg_text_or_root (jc_float c) (\<lambda>v a. a\<lparr>ma_router_aux_loss_coef := v\<rparr>) ma_router_aux_loss_coef
         js ''router_aux_loss_coef'' (\<lambda>a. 1 / 1000) @
     load_arg_text_or_root (jc_bool c) (\<lambda>v a. a\<lparr>ma_use_sliding_window := v\<rparr>) ma_use_sliding_window
         js ''use_sliding_window'' (\<lambda>a. False) @
     load_arg_text_or_root (jc_int32 c) (\<lambda>v a. a\<lparr>ma_sliding_window := v\<rparr>) ma_sliding_window
         js ''sliding_window'' (\<lambda>a. 4096) @
     load_arg_text_or_root (jc_bool c) (\<lambda>v a. a\<lparr>ma_tie_word_embeddings := v\<rparr>) ma_tie_word_embeddings
         js ''tie_word_embeddings'' (\<lambda>a. False) @
     load_arg_text_or_root (jc_int64 c) (\<lambda>v a. a\<lparr>ma_vocab_size := v\<rparr>) ma_vocab_size
         js ''vocab_size'' (\<lambda>a. 151936) @
     load_arg_text_or_root (jc_int32s c) (\<lambda>v a. a\<lparr>ma_mlp_only_layers := v\<rparr>) ma_mlp_only_layers
         js ''mlp_only_layers'' (\<lambda>a. []) @
     load_arg_text_or_root (jc_bool c) (\<lambda>v a. a\<lparr>ma_attn_output_gate := v\<rparr>) ma_attn_output_gate
         js ''attn_output_gate'' (\<lambda>a. True) @
     load_arg_text_or_root (jc_int32 c) (\<lambda>v a. a\<lparr>ma_full_attention_interval := v\<rparr>) ma_full_attention_interval
         js ''full_attention_interval'' (\<lambda>a. 4) @
     load_arg_text_or_root (jc_int32 c) (\<lambda>v a. a\<lparr>ma_linear_conv_kernel_dim := v\<rparr>) ma_linear_conv_kernel_dim
         js ''linear_conv_kernel_dim'' (\<lambda>a. 4) @
     load_arg_text_or_root (jc_int32 c) (\<lambda>v a. a\<lparr>ma_linear_key_head_dim := v\<rparr>) ma_linear_key_head_dim
         js ''linear_key_head_dim'' (\<lambda>a. 128) @
     load_arg_text_or_root (jc_int64 c) (\<lambda>v a. a\<lparr>ma_linear_num_key_heads := v\<rparr>) ma_linear_num_key_heads
         js ''linear_num_key_heads'' (\<lambda>a. 16) @
     load_arg_text_or_root (jc_int32 c) (\<lambda>v a. a\<lparr>ma_linear_num_value_heads := v\<rparr>) ma_linear_num_value_heads
         js ''linear_num_value_heads'' (\<lambda>a. 32) @
     load_arg_text_or_root (jc_int32 c) (\<lambda>v a. a\<lparr>ma_linear_value_head_dim := v\<rparr>) ma_linear_value_head_dim
         js ''linear_value_head_dim'' (\<lambda>a. 128) @
     load_qwen3_5_rope_arg (jc_float c) (\<lambda>v a. a\<lparr>ma_partial_rotary_factor := v\<rparr>) ma_partial_rotary_factor
         js ''partial_rotary_factor'' (\<lambda>a. 1 / 4) @
     [load_arg_or (jc_int64s c) (\<lambda>v a. a\<lparr>ma_rope_scaling_mrope_section := v\<rparr>)
         js ''text_config.rope_scaling.mrope_section'' (\<lambda>a. []),
      load_arg_or (jc_int64s c) (\<lambda>v a. a\<lparr>ma_rope_scaling_mrope_section := v\<rparr>)
         js ''text_config.rope_parameters.mrope_section'' (\<lambda>a. ma_rope_scaling_mrope_section a),
      load_arg_or (jc_int64s c) (\<lambda>v a. a\<lparr>ma_rope_scaling_mrope_section := v\<rparr>)
         js ''rope_parameters.mrope_section'' (\<lambda>a. ma_rope_scaling_mrope_section a),
      load_arg_or (jc_bool c) (\<lambda>v a. a\<lparr>ma_rope_scaling_mrope_interleaved := v\<rparr>)
         js ''text_config.rope_scaling.mrope_interleaved'' (\<lambda>a. False),
      load_arg_or (jc_bool c) (\<lambda>v a. a\<lparr>ma_rope_scaling_mrope_interleaved := v\<rparr>)
         js ''text_config.rope_parameters.mrope_interleaved'' (\<lambda>a. ma_rope_scaling_mrope_interleaved a),
      load_arg_or (jc_bool c) (\<lambda>v a. a\<lparr>ma_rope_scaling_mrope_interleaved := v\<rparr>)
         js ''rope_parameters.mrope_interleaved'' (\<lambda>a. ma_rope_scaling_mrope_interleaved a)]"

definition compat_mtp_args :: "json_conv \<Rightarrow> int \<Rightarrow> json \<Rightarrow> args_step list" where
  "compat_mtp_args c default_shared_expert_intermediate_size js =
     load_arg_text_or_root (jc_int32 c) (\<lambda>v a. a\<lparr>ma_shared_expert_intermediate_size := v\<rparr>) ma_shared_expert_intermediate_size
         js ''shared_expert_intermediate_size'' (\<lambda>a. default_shared_expert_intermediate_size) @
     [load_arg_or (jc_int32 c) (\<lambda>v a. a\<lparr>ma_num_nextn_predict_layers := v\<rparr>)
         js ''text_config.mtp_num_hidden_layers'' (\<lambda>a. 0),
      load_arg_or (jc_int32 c) (\<lambda>v a. a\<lparr>ma_num_nextn_predict_layers := v\<rparr>)
         js ''mtp_num_hidden_layers'' (\<lambda>a. ma_num_nextn_predict_layers a),
      load_arg_or (jc_int32 c) (\<lambda>v a. a\<lparr>ma_num_nextn_predict_layers := v\<rparr>)
         js ''text_config.num_nextn_predict_layers'' (\<lambda>a. ma_num_nextn_predict_layers a),
      load_arg_or (jc_int32 c) (\<lambda>v a. a\<lparr>ma_num_nextn_predict_layers := v\<rparr>)
         js ''num_nextn_predict_layers'' (\<lambda>a. ma_num_nextn_predict_layers a)]"

definition compat_layer_types :: "json_conv \<Rightarrow> json \<Rightarrow> args_step list" where
  "compat_layer_types c js =
     [load_arg_or (jc_strings c) (\<lambda>v a. a\<lparr>ma_layer_types := v\<rparr>)
         js ''text_config.layer_types'' (\<lambda>a. []),
      load_arg_or (jc_strings c) (\<lambda>v a. a\<lparr>ma_layer_types := v\<rparr>)
         js ''layer_types'' (\<lambda>a. ma_layer_types a),
      load_arg_or (jc_strings c) (\<lambda>v a. a\<lparr>ma_layer_types := v\<rparr>)
         js ''text_config.layers_block_type'' (\<lambda>a. ma_layer_types a),
      load_arg_or (jc_strings c) (\<lambda>v a. a\<lparr>ma_layer_types := v\<rparr>)
         js ''layers_block_type'' (\<lambda>a. ma_layer_types a)]"

definition compat_experts_args :: "json_conv \<Rightarrow> json \<Rightarrow> args_step list" where
  "compat_experts_args c js =
     [load_arg_or (jc_int32 c) (\<lambda>v a. a\<lparr>ma_n_routed_experts := v\<rparr>)
         js ''text_config.n_routed_experts'' (\<lambda>a. ma_num_experts a),
      load_arg_or (jc_int32 c) (\<lambda>v a. a\<lparr>ma_n_routed_experts := v\<rparr>)
         js ''n_routed_experts'' (\<lambda>a. ma_num_experts a),
      set_arg (\<lambda>a. a\<lparr>ma_n_shared_experts := if ma_shared_expert_intermediate_size a > 0 then 1 else 0\<rparr>),
      set_arg (\<lambda>a. a\<lparr>ma_scoring_func := ''softmax''\<rparr>),
      set_arg (\<lambda>a. a\<lparr>ma_topk_method := ''''\<rparr>),
      set_arg (\<lambda>a. a\<lparr>ma_n_group := -1\<rparr>),
      set_arg (\<lambda>a. a\<lparr>ma_topk_group := 0\<rparr>),
      set_arg (\<lambda>a. a\<lparr>ma_routed_scaling_factor := 1\<rparr>),
      set_arg (\<lambda>a. a\<lparr>ma_stop_token_ids := {ma_eos_token_id a, 248046}\<rparr>)] @
     load_arg_text_or_root (jc_string c) (\<lambda>v a. a\<lparr>ma_mamba_ssm_dtype := v\<rparr>) ma_mamba_ssm_dtype
         js ''mamba_ssm_dtype'' (\<lambda>a. ''float32'')"

text \<open>The whole of \<^verbatim>\<open>LOAD_QWEN3_5_NEXT_COMPAT_ARGS\<close> and the macro for type and dtype.\<close>

definition load_qwen3_5_next_compat_args ::
    "json_conv \<Rightarrow> int \<Rightarrow> int \<Rightarrow> int \<Rightarrow> int \<Rightarrow> json \<Rightarrow> args_step list" where
  "load_qwen3_5_next_compat_args c default_moe_intermediate_size default_num_experts
       default_num_experts_per_tok default_shared_expert_intermediate_size js =
     compat_core_args c default_moe_intermediate_size default_num_experts default_num_experts_per_tok js @
     compat_attention_args c js @
     compat_mtp_args c default_shared_expert_intermediate_size js @
     compat_layer_types c js @
     compat_experts_args c js"

definition text_type_and_dtype :: "json_conv \<Rightarrow> string \<Rightarrow> json \<Rightarrow> args_step list" where
  "text_type_and_dtype c default_model_type js =
     [set_arg (\<lambda>a. a\<lparr>ma_model_type := default_model_type\<rparr>),
      load_arg_or (jc_string c) (\<lambda>v a. a\<lparr>ma_dtype := v\<rparr>)
         js ''text_config.dtype'' (\<lambda>a. ''bfloat16''),
      load_arg_or (jc_string c) (\<lambda>v a. a\<lparr>ma_dtype := v\<rparr>)
         js ''dtype'' (\<lambda>a. ma_dtype a),
      load_arg_or (jc_string c) (\<lambda>v a. a\<lparr>ma_dtype := v\<rparr>)
         js ''text_config.torch_dtype'' (\<lambda>a. ma_dtype a),
      load_arg_or (jc_string c) (\<lambda>v a. a\<lparr>ma_dtype := v\<rparr>)
         js ''torch_dtype'' (\<lambda>a. ma_dtype a)]"

definition load_qwen3_5_text :: "json_conv \<Rightarrow> json \<Rightarrow> args_step" where
  "load_qwen3_5_text c js =
     load_all (text_type_and_dtype c ''qwen3_5_text'' js @
               load_qwen3_5_next_compat_args c 0 0 0 0 js)"

definition load_qwen3_5_moe_text :: "json_conv \<Rightarrow> json \<Rightarrow> args_step" where
  "load_qwen3_5_moe_text c js =
     load_all (text_type_and_dtype c ''qwen3_5_moe_text'' js @
               load_qwen3_5_next_compat_args c 512 512 10 512 js)"

section \<open>Multi-token-prediction drafts\<close>

text \<open>
  The registry maps a model type to its loader; a loader returns whether it succeeded and the
  arguments. \<^verbatim>\<open>size_t\<close> of the positive number of layers is that number.
\<close>

type_synonym args_loader = "json \<Rightarrow> ModelArgs \<Rightarrow> (bool \<times> ModelArgs) result"

definition register_model_args_loader ::
    "string \<Rightarrow> args_loader \<Rightarrow> (string \<Rightarrow> args_loader option) \<Rightarrow> string \<Rightarrow> args_loader option" where
  "register_model_args_loader name loader registry =
     (if registry name \<noteq> None then registry else registry(name := Some loader))"

definition registered :: "(json \<Rightarrow> args_step) \<Rightarrow> args_loader" where
  "registered load js a = rbind (load js a) (\<lambda>b. Inr (True, b))"

definition load_model_args ::
    "(string \<Rightarrow> args_loader option) \<Rightarrow> json \<Rightarrow> ModelArgs \<Rightarrow> string \<Rightarrow> string
     \<Rightarrow> (bool \<times> ModelArgs) result" where
  "load_model_args registry js args base_type mtp_type =
     (case registry base_type of
        None \<Rightarrow> Inr (False, args)
      | Some base_loader \<Rightarrow>
          rbind (base_loader js args) (\<lambda>(ok, a).
          if \<not> ok then Inr (False, a)
          else
            let n = ma_num_nextn_predict_layers a;
                mtp_num_layers = (if n \<le> 0 then 1 else n) in
            Inr (True, a\<lparr>ma_model_type := mtp_type,
                        ma_num_nextn_predict_layers := mtp_num_layers,
                        ma_n_layers := mtp_num_layers,
                        ma_layer_types := replicate (nat mtp_num_layers) ''full_attention''\<rparr>)))"

definition load_qwen3_5_mtp :: "(string \<Rightarrow> args_loader option) \<Rightarrow> args_loader" where
  "load_qwen3_5_mtp registry js args = load_model_args registry js args ''qwen3_5_text'' ''qwen3_5_mtp''"

definition load_qwen3_5_moe_mtp :: "(string \<Rightarrow> args_loader option) \<Rightarrow> args_loader" where
  "load_qwen3_5_moe_mtp registry js args =
     load_model_args registry js args ''qwen3_5_moe_text'' ''qwen3_5_moe_mtp''"

section \<open>Multimodal models\<close>

definition common_text_args :: "json_conv \<Rightarrow> json \<Rightarrow> args_step list" where
  "common_text_args c js =
     [load_arg_or (jc_string c) (\<lambda>v a. a\<lparr>ma_model_type := v\<rparr>)
         js ''model_type'' (\<lambda>a. ''qwen3_5''),
      load_arg_or (jc_string c) (\<lambda>v a. a\<lparr>ma_dtype := v\<rparr>)
         js ''text_config.dtype'' (\<lambda>a. ''bfloat16''),
      load_arg_or (jc_int64 c) (\<lambda>v a. a\<lparr>ma_vocab_size := v\<rparr>)
         js ''text_config.vocab_size'' (\<lambda>a. 248320),
      load_arg_or (jc_int64 c) (\<lambda>v a. a\<lparr>ma_hidden_size := v\<rparr>)
         js ''text_config.hidden_size'' (\<lambda>a. 5120),
      load_arg_or (jc_string c) (\<lambda>v a. a\<lparr>ma_hidden_act := v\<rparr>)
         js ''text_config.hidden_act'' (\<lambda>a. ''silu''),
      load_arg_or (jc_int64 c) (\<lambda>v a. a\<lparr>ma_intermediate_size := v\<rparr>)
         js ''text_config.intermediate_size'' (\<lambda>a. 17408),
      load_arg_or (jc_int64 c) (\<lambda>v a. a\<lparr>ma_n_layers := v\<rparr>)
         js ''text_config.num_hidden_layers'' (\<lambda>a. 64),
      load_arg_or (jc_int64 c) (\<lambda>v a. a\<lparr>ma_n_heads := v\<rparr>)
         js ''text_config.num_attention_heads'' (\<lambda>a. 24),
      load_arg (jc_int64 c) (\<lambda>v a. a\<lparr>ma_n_kv_heads := Some v\<rparr>)
         js ''text_config.num_key_value_heads'',
      load_arg_or (jc_int64 c) (\<lambda>v a. a\<lparr>ma_max_position_embeddings := v\<rparr>)
         js ''text_config.max_position_embeddings'' (\<lambda>a. 262144),
      load_arg_or (jc_float c) (\<lambda>v a. a\<lparr>ma_rms_norm_eps := v\<rparr>)
         js ''text_config.rms_norm_eps'' (\<lambda>a. 1 / 1000000),
      load_arg_or (jc_int32 c) (\<lambda>v a. a\<lparr>ma_bos_token_id := v\<rparr>)
         js ''text_config.bos_token_id'' (\<lambda>a. 151643),
      load_arg_or (jc_int32 c) (\<lambda>v a. a\<lparr>ma_eos_token_id := v\<rparr>)
         js ''text_config.eos_token_id'' (\<lambda>a. 248044),
      load_arg_or (jc_float c) (\<lambda>v a. a\<lparr>ma_rope_theta := v\<rparr>)
         js ''text_config.rope_parameters.rope_theta'' (\<lambda>a. 10000000),
      load_arg_or (jc_int64 c) (\<lambda>v a. a\<lparr>ma_head_dim := v\<rparr>)
         js ''text_config.head_dim'' (\<lambda>a. 256),
      load_arg_or (jc_bool c) (\<lambda>v a. a\<lparr>ma_tie_word_embeddings := v\<rparr>)
         js ''tie_word_embeddings'' (\<lambda>a. False),
      load_arg (jc_strings c) (\<lambda>v a. a\<lparr>ma_layer_types := v\<rparr>)
         js ''text_config.layer_types'',
      load_arg_or (jc_int32 c) (\<lambda>v a. a\<lparr>ma_linear_conv_kernel_dim := v\<rparr>)
         js ''text_config.linear_conv_kernel_dim'' (\<lambda>a. 4),
      load_arg_or (jc_int32 c) (\<lambda>v a. a\<lparr>ma_linear_key_head_dim := v\<rparr>)
         js ''text_config.linear_key_head_dim'' (\<lambda>a. 128),
      load_arg_or (jc_int32 c) (\<lambda>v a. a\<lparr>ma_linear_value_head_dim := v\<rparr>)
         js ''text_config.linear_value_head_dim'' (\<lambda>a. 128),
      load_arg_or (jc_int64 c) (\<lambda>v a. a\<lparr>ma_linear_num_key_heads := v\<rparr>)
         js ''text_config.linear_num_key_heads'' (\<lambda>a. 16),
      load_arg_or (jc_int32 c) (\<lambda>v a. a\<lparr>ma_linear_num_value_heads := v\<rparr>)
         js ''text_config.linear_num_value_heads'' (\<lambda>a. signed_take_bit 31 (ma_n_heads a * 2)),
      load_arg_or (jc_int32 c) (\<lambda>v a. a\<lparr>ma_full_attention_interval := v\<rparr>)
         js ''text_config.full_attention_interval'' (\<lambda>a. 4),
      load_arg_or (jc_bool c) (\<lambda>v a. a\<lparr>ma_attn_output_gate := v\<rparr>)
         js ''text_config.attn_output_gate'' (\<lambda>a. True),
      load_arg_or (jc_int32 c) (\<lambda>v a. a\<lparr>ma_num_nextn_predict_layers := v\<rparr>)
         js ''text_config.mtp_num_hidden_layers'' (\<lambda>a. 0),
      load_arg_or (jc_int32 c) (\<lambda>v a. a\<lparr>ma_num_nextn_predict_layers := v\<rparr>)
         js ''text_config.num_nextn_predict_layers'' (\<lambda>a. ma_num_nextn_predict_layers a),
      load_arg_or (jc_bool c) (\<lambda>v a. a\<lparr>ma_attention_bias := v\<rparr>)
         js ''text_config.attention_bias'' (\<lambda>a. False),
      load_arg_or (jc_float c) (\<lambda>v a. a\<lparr>ma_attention_dropout := v\<rparr>)
         js ''text_config.attention_dropout'' (\<lambda>a. 0),
      load_arg_or (jc_float c) (\<lambda>v a. a\<lparr>ma_initializer_range := v\<rparr>)
         js ''text_config.initializer_range'' (\<lambda>a. 1 / 50),
      load_arg_or (jc_int32s c) (\<lambda>v a. a\<lparr>ma_mlp_only_layers := v\<rparr>)
         js ''text_config.mlp_only_layers'' (\<lambda>a. []),
      load_arg_or (jc_int64s c) (\<lambda>v a. a\<lparr>ma_rope_scaling_mrope_section := v\<rparr>)
         js ''text_config.rope_parameters.mrope_section'' (\<lambda>a. [11, 11, 10]),
      load_arg_or (jc_bool c) (\<lambda>v a. a\<lparr>ma_rope_scaling_mrope_interleaved := v\<rparr>)
         js ''text_config.rope_parameters.mrope_interleaved'' (\<lambda>a. True)]"

definition common_rope_type :: "json_conv \<Rightarrow> json \<Rightarrow> args_step list" where
  "common_rope_type c js =
     [load_arg_or (jc_string c) (\<lambda>v a. a\<lparr>ma_rope_scaling_rope_type := v\<rparr>)
         js ''text_config.rope_parameters.rope_type'' (\<lambda>a. ''default''),
      set_arg (\<lambda>a. if ma_rope_scaling_rope_type a = ''default''
                  then a\<lparr>ma_rope_scaling_rope_type := ''mrope''\<rparr> else a)]"

definition common_rope_tail :: "json_conv \<Rightarrow> json \<Rightarrow> args_step list" where
  "common_rope_tail c js =
     [load_arg_or (jc_float c) (\<lambda>v a. a\<lparr>ma_partial_rotary_factor := v\<rparr>)
         js ''text_config.rope_parameters.partial_rotary_factor'' (\<lambda>a. 1 / 4),
      load_arg_or (jc_string c) (\<lambda>v a. a\<lparr>ma_mamba_ssm_dtype := v\<rparr>)
         js ''text_config.mamba_ssm_dtype'' (\<lambda>a. ''float32'')]"

definition load_qwen3_5_common_args :: "json_conv \<Rightarrow> json \<Rightarrow> args_step list" where
  "load_qwen3_5_common_args c js =
     common_text_args c js @ common_rope_type c js @ common_rope_tail c js"

definition vision_token_args :: "json_conv \<Rightarrow> json \<Rightarrow> args_step list" where
  "vision_token_args c js =
     [load_arg_or (jc_int32 c) (\<lambda>v a. a\<lparr>ma_image_token_id := v\<rparr>)
         js ''image_token_id'' (\<lambda>a. 248056),
      load_arg_or (jc_int32 c) (\<lambda>v a. a\<lparr>ma_video_token_id := v\<rparr>)
         js ''video_token_id'' (\<lambda>a. 248057),
      load_arg_or (jc_int32 c) (\<lambda>v a. a\<lparr>ma_vision_start_token_id := v\<rparr>)
         js ''vision_start_token_id'' (\<lambda>a. 248053),
      load_arg_or (jc_int32 c) (\<lambda>v a. a\<lparr>ma_vision_end_token_id := v\<rparr>)
         js ''vision_end_token_id'' (\<lambda>a. 248054),
      load_arg_or (jc_int64s c) (\<lambda>v a. a\<lparr>ma_mm_deepstack_visual_indexes := v\<rparr>)
         js ''vision_config.deepstack_visual_indexes'' (\<lambda>a. [])]"

definition check_deepstack :: args_step where
  "check_deepstack a =
     (if ma_mm_deepstack_visual_indexes a \<noteq> []
      then Inl (Abort ''qwen3_5 VLM does not support DeepStack visual indexes'') else Inr a)"

definition vision_tower_args :: "json_conv \<Rightarrow> json \<Rightarrow> args_step list" where
  "vision_tower_args c js =
     [load_arg_or (jc_int64 c) (\<lambda>v a. a\<lparr>ma_mm_num_hidden_layers := v\<rparr>)
         js ''vision_config.depth'' (\<lambda>a. 27),
      load_arg_or (jc_string c) (\<lambda>v a. a\<lparr>ma_mm_hidden_act := v\<rparr>)
         js ''vision_config.hidden_act'' (\<lambda>a. ''gelu_pytorch_tanh''),
      load_arg_or (jc_int64 c) (\<lambda>v a. a\<lparr>ma_mm_hidden_size := v\<rparr>)
         js ''vision_config.hidden_size'' (\<lambda>a. 1152),
      load_arg_or (jc_int64 c) (\<lambda>v a. a\<lparr>ma_mm_num_channels := v\<rparr>)
         js ''vision_config.in_channels'' (\<lambda>a. 3),
      load_arg_or (jc_float c) (\<lambda>v a. a\<lparr>ma_mm_initializer_range := v\<rparr>)
         js ''vision_config.initializer_range'' (\<lambda>a. 1 / 50),
      load_arg_or (jc_int64 c) (\<lambda>v a. a\<lparr>ma_mm_intermediate_size := v\<rparr>)
         js ''vision_config.intermediate_size'' (\<lambda>a. 4304),
      load_arg_or (jc_int64 c) (\<lambda>v a. a\<lparr>ma_mm_num_attention_heads := v\<rparr>)
         js ''vision_config.num_heads'' (\<lambda>a. 16),
      load_arg_or (jc_int64 c) (\<lambda>v a. a\<lparr>ma_mm_num_position_embeddings := v\<rparr>)
         js ''vision_config.num_position_embeddings'' (\<lambda>a. 2304),
      load_arg_or (jc_int64 c) (\<lambda>v a. a\<lparr>ma_mm_projection_dim := v\<rparr>)
         js ''vision_config.out_hidden_size'' (\<lambda>a. ma_hidden_size a),
      load_arg_or (jc_int64 c) (\<lambda>v a. a\<lparr>ma_mm_patch_size := v\<rparr>)
         js ''vision_config.patch_size'' (\<lambda>a. 16),
      load_arg_or (jc_int64 c) (\<lambda>v a. a\<lparr>ma_mm_spatial_merge_size := v\<rparr>)
         js ''vision_config.spatial_merge_size'' (\<lambda>a. 2),
      load_arg_or (jc_int32 c) (\<lambda>v a. a\<lparr>ma_mm_temporal_patch_size := v\<rparr>)
         js ''vision_config.temporal_patch_size'' (\<lambda>a. 2)]"

text \<open>The head size of the tower: an integer division, undefined for zero heads.\<close>

definition vision_head_dim :: "json_conv \<Rightarrow> json \<Rightarrow> args_step" where
  "vision_head_dim c js =
     load_arg_or_func (jc_int64 c) (\<lambda>v a. a\<lparr>ma_mm_head_dim := v\<rparr>) js ''head_dim''
       (\<lambda>a. if ma_mm_num_attention_heads a = 0 then Inl (Undefined ''mm_hidden_size / mm_num_attention_heads'')
            else Inr (ma_mm_hidden_size a sdiv ma_mm_num_attention_heads a))"

definition load_qwen3_5_vision_args :: "json_conv \<Rightarrow> json \<Rightarrow> args_step list" where
  "load_qwen3_5_vision_args c js =
     vision_token_args c js @ [check_deepstack] @ vision_tower_args c js @ [vision_head_dim c js]"

definition dense_overrides :: "json_conv \<Rightarrow> json \<Rightarrow> args_step list" where
  "dense_overrides c js =
     [set_arg (\<lambda>a. a\<lparr>ma_num_experts := 0\<rparr>),
      set_arg (\<lambda>a. a\<lparr>ma_n_routed_experts := 0\<rparr>),
      set_arg (\<lambda>a. a\<lparr>ma_n_shared_experts := 0\<rparr>),
      set_arg (\<lambda>a. a\<lparr>ma_stop_token_ids := {ma_eos_token_id a, 248046}\<rparr>)]"

definition dense_text_overrides :: "json_conv \<Rightarrow> json \<Rightarrow> args_step list" where
  "dense_text_overrides c js =
     [set_arg (\<lambda>a. a\<lparr>ma_n_routed_experts := 0\<rparr>),
      set_arg (\<lambda>a. a\<lparr>ma_n_shared_experts := 0\<rparr>),
      set_arg (\<lambda>a. a\<lparr>ma_decoder_sparse_step := 1\<rparr>),
      set_arg (\<lambda>a. a\<lparr>ma_stop_token_ids := {ma_eos_token_id a, 248046}\<rparr>)]"

definition moe_overrides :: "json_conv \<Rightarrow> json \<Rightarrow> args_step list" where
  "moe_overrides c js =
     [load_arg_or (jc_int32 c) (\<lambda>v a. a\<lparr>ma_decoder_sparse_step := v\<rparr>)
         js ''text_config.decoder_sparse_step'' (\<lambda>a. 1),
      load_arg_or (jc_int32 c) (\<lambda>v a. a\<lparr>ma_moe_intermediate_size := v\<rparr>)
         js ''text_config.moe_intermediate_size'' (\<lambda>a. 512),
      load_arg_or (jc_int32 c) (\<lambda>v a. a\<lparr>ma_num_experts := v\<rparr>)
         js ''text_config.num_experts'' (\<lambda>a. 512),
      load_arg_or (jc_int32 c) (\<lambda>v a. a\<lparr>ma_num_experts_per_tok := v\<rparr>)
         js ''text_config.num_experts_per_tok'' (\<lambda>a. 10),
      load_arg_or (jc_int32 c) (\<lambda>v a. a\<lparr>ma_shared_expert_intermediate_size := v\<rparr>)
         js ''text_config.shared_expert_intermediate_size'' (\<lambda>a. 512),
      load_arg_or (jc_bool c) (\<lambda>v a. a\<lparr>ma_norm_topk_prob := v\<rparr>)
         js ''text_config.norm_topk_prob'' (\<lambda>a. True),
      load_arg_or (jc_int32 c) (\<lambda>v a. a\<lparr>ma_n_routed_experts := v\<rparr>)
         js ''text_config.n_routed_experts'' (\<lambda>a. ma_num_experts a),
      set_arg (\<lambda>a. a\<lparr>ma_n_shared_experts := if ma_shared_expert_intermediate_size a > 0 then 1 else 0\<rparr>),
      set_arg (\<lambda>a. a\<lparr>ma_scoring_func := ''softmax''\<rparr>),
      set_arg (\<lambda>a. a\<lparr>ma_topk_method := ''''\<rparr>),
      set_arg (\<lambda>a. a\<lparr>ma_n_group := -1\<rparr>),
      set_arg (\<lambda>a. a\<lparr>ma_topk_group := 0\<rparr>),
      set_arg (\<lambda>a. a\<lparr>ma_routed_scaling_factor := 1\<rparr>),
      set_arg (\<lambda>a. a\<lparr>ma_stop_token_ids := {ma_eos_token_id a, 248046}\<rparr>)]"

definition load_vlm_qwen3_5 :: "json_conv \<Rightarrow> json \<Rightarrow> args_step" where
  "load_vlm_qwen3_5 c js =
     load_all (load_qwen3_5_common_args c js @ load_qwen3_5_vision_args c js @ dense_overrides c js)"

definition load_vlm_qwen3_5_moe :: "json_conv \<Rightarrow> json \<Rightarrow> args_step" where
  "load_vlm_qwen3_5_moe c js =
     load_all (load_qwen3_5_common_args c js @ load_qwen3_5_vision_args c js @ moe_overrides c js)"

definition load_vlm_qwen3_5_text :: "json_conv \<Rightarrow> json \<Rightarrow> args_step" where
  "load_vlm_qwen3_5_text c js =
     load_all (load_qwen3_5_common_args c js @ dense_text_overrides c js)"

definition load_vlm_qwen3_5_moe_text :: "json_conv \<Rightarrow> json \<Rightarrow> args_step" where
  "load_vlm_qwen3_5_moe_text c js =
     load_all (load_qwen3_5_common_args c js @ moe_overrides c js)"

section \<open>Properties\<close>

lemma experts_shared:
  assumes "load_all (compat_experts_args c js) a = Inr b"
  shows "ma_n_shared_experts b = (if ma_shared_expert_intermediate_size b > 0 then 1 else 0)"
  using load_all_establish[OF assms, of 2 "\<lambda>(n, h). n = (if h > 0 then 1 else 0)"
      "\<lambda>a. (ma_n_shared_experts a, ma_shared_expert_intermediate_size a)"]
  by (auto simp: compat_experts_args_def load_arg_text_or_root_def set_arg_def args_keeps)

lemma experts_constants:
  assumes "load_all (compat_experts_args c js) a = Inr b"
  shows "ma_scoring_func b = ''softmax''" and "ma_topk_method b = ''''" and "ma_n_group b = -1"
    and "ma_topk_group b = 0" and "ma_routed_scaling_factor b = 1"
    and "ma_stop_token_ids b = {ma_eos_token_id b, 248046}"
  using load_all_establish[OF assms, of 3 "\<lambda>v. v = ''softmax''" ma_scoring_func]
    load_all_establish[OF assms, of 4 "\<lambda>v. v = ''''" ma_topk_method]
    load_all_establish[OF assms, of 5 "\<lambda>v. v = -1" ma_n_group]
    load_all_establish[OF assms, of 6 "\<lambda>v. v = 0" ma_topk_group]
    load_all_establish[OF assms, of 7 "\<lambda>v. v = 1" ma_routed_scaling_factor]
    load_all_establish[OF assms, of 8 "\<lambda>(s, e). s = {e, 248046}" "\<lambda>a. (ma_stop_token_ids a, ma_eos_token_id a)"]
  by (auto simp: compat_experts_args_def load_arg_text_or_root_def set_arg_def args_keeps)

lemma experts_routed:
  assumes "load_all (compat_experts_args c js) a = Inr b"
  shows "loaded (jc_int32 c) (ma_num_experts b) (json_find js ''n_routed_experts'') (ma_n_routed_experts b)"
proof (rule load_all_establish[OF assms, of 1 "\<lambda>t. t"
      "\<lambda>a. loaded (jc_int32 c) (ma_num_experts a) (json_find js ''n_routed_experts'') (ma_n_routed_experts a)"])
  fix x y assume "(compat_experts_args c js ! 1) x = Inr y"
  then have "load_arg_or (jc_int32 c) (\<lambda>v a. a\<lparr>ma_n_routed_experts := v\<rparr>) js ''n_routed_experts''
      ma_num_experts x = Inr y"
    by (simp add: compat_experts_args_def)
  then show "loaded (jc_int32 c) (ma_num_experts y) (json_find js ''n_routed_experts'') (ma_n_routed_experts y)"
    by (auto simp: load_arg_or_Inr loaded_def split: option.splits)
qed (simp_all add: compat_experts_args_def load_arg_text_or_root_def args_keeps)

lemma text_loader_experts:
  assumes "load \<in> {load_qwen3_5_text, load_qwen3_5_moe_text}" and "load c js a = Inr b"
  obtains x where "load_all (compat_experts_args c js) x = Inr b"
proof -
  let ?pre = "\<lambda>t w x y z. text_type_and_dtype c t js @ compat_core_args c w x y js @
    compat_attention_args c js @ compat_mtp_args c z js @ compat_layer_types c js"
  have dense: "load_qwen3_5_text c js = load_all (?pre ''qwen3_5_text'' 0 0 0 0 @ compat_experts_args c js)"
    by (simp only: load_qwen3_5_text_def load_qwen3_5_next_compat_args_def append_assoc)
  have moe: "load_qwen3_5_moe_text c js
      = load_all (?pre ''qwen3_5_moe_text'' 512 512 10 512 @ compat_experts_args c js)"
    by (simp only: load_qwen3_5_moe_text_def load_qwen3_5_next_compat_args_def append_assoc)
  from assms(1) consider "load = load_qwen3_5_text" | "load = load_qwen3_5_moe_text" by blast
  then obtain ss where "load_all (ss @ compat_experts_args c js) a = Inr b"
    using assms(2) dense moe by cases (simp_all only:)
  then show thesis by (rule load_all_appendE) (rule that)
qed

text \<open>A library that throws on every conversion, and one that converts integers only.\<close>

definition no_conv :: json_conv where
  "no_conv =
     \<lparr>jc_bool = (\<lambda>j. Inl (Exn ''type'')), jc_int32 = (\<lambda>j. Inl (Exn ''type'')),
      jc_int64 = (\<lambda>j. Inl (Exn ''type'')), jc_float = (\<lambda>j. Inl (Exn ''type'')),
      jc_string = (\<lambda>j. Inl (Exn ''type'')), jc_int32s = (\<lambda>j. Inl (Exn ''type'')),
      jc_int64s = (\<lambda>j. Inl (Exn ''type'')), jc_strings = (\<lambda>j. Inl (Exn ''type''))\<rparr>"

definition int_conv :: json_conv where
  "int_conv = no_conv\<lparr>jc_int32 := (\<lambda>j. case j of JInt n \<Rightarrow> Inr n | _ \<Rightarrow> Inl (Exn ''type''))\<rparr>"

lemma load_missing:
  "json_find js key = None \<Longrightarrow> load_arg_or get put js key dv a = Inr (put (dv a) a)"
  "json_find js key = None \<Longrightarrow> load_arg get put js key a = Inr a"
  by (simp_all add: load_arg_or_def load_arg_def json_value_or_def json_value_def)

lemma json_find_empty: "json_find (JObj []) key = None"
  by (cases "split_dots key") (simp_all add: json_find_def)

text \<open>A configuration that names its experts under \<^verbatim>\<open>text_config\<close> only.\<close>

definition demo_config :: json where
  "demo_config = JObj [(''text_config'', JObj [(''n_routed_experts'', JInt 64)])]"

lemma demo_config_loads:
  "\<exists>b. load_qwen3_5_moe_text int_conv demo_config (default_ModelArgs 0) = Inr b \<and> ma_num_experts b = 512"
  by (simp add: load_qwen3_5_moe_text_def load_qwen3_5_next_compat_args_def text_type_and_dtype_def
      compat_core_args_def compat_attention_args_def compat_mtp_args_def compat_layer_types_def
      compat_experts_args_def load_arg_text_or_root_def load_qwen3_5_rope_arg_def load_all_append
      set_arg_def load_arg_or_def json_value_or_def json_value_def json_find_def demo_config_def
      int_conv_def no_conv_def)

text \<open>
  when a text loader returns, the number of routed experts is the root's, and without one
  at the root it is \<^verbatim>\<open>num_experts\<close>, whatever \<^verbatim>\<open>text_config.n_routed_experts\<close> says: the second of the
  two loads falls back to \<^verbatim>\<open>num_experts\<close> instead of the value the first has stored.
\<close>

theorem text_routed_experts_overwritten:
  assumes "load \<in> {load_qwen3_5_text, load_qwen3_5_moe_text}" and "load c js a = Inr b"
  shows "(case json_find js ''n_routed_experts'' of
      None \<Rightarrow> ma_n_routed_experts b = ma_num_experts b
    | Some x \<Rightarrow> jc_int32 c x = Inr (ma_n_routed_experts b))"
proof -
  obtain x where x: "load_all (compat_experts_args c js) x = Inr b"
    using text_loader_experts[OF assms] .
  show ?thesis using experts_routed[OF x] unfolding loaded_def .
qed

theorem text_routed_experts_overwritten_witness:
  "\<exists>b. load_qwen3_5_moe_text int_conv demo_config (default_ModelArgs 0) = Inr b \<and>
     ma_n_routed_experts b = 512"
proof -
  obtain b where b: "load_qwen3_5_moe_text int_conv demo_config (default_ModelArgs 0) = Inr b"
      "ma_num_experts b = 512"
    using demo_config_loads by blast
  show ?thesis
    using text_routed_experts_overwritten[where load = load_qwen3_5_moe_text, OF _ b(1)] b
    by (simp add: json_find_def demo_config_def)
qed

text \<open>
  both text loaders leave the router settings of the mixture of experts the same: softmax
  scores, no grouping, a route scale of one, one shared expert exactly when its size is
  positive, and the end-of-sequence token among the stop tokens.
\<close>

theorem text_router_settings:
  assumes "load \<in> {load_qwen3_5_text, load_qwen3_5_moe_text}" and "load c js a = Inr b"
  shows "ma_scoring_func b = ''softmax'' \<and> ma_topk_method b = '''' \<and> ma_n_group b = -1 \<and>
    ma_topk_group b = 0 \<and> ma_routed_scaling_factor b = 1 \<and>
    ma_n_shared_experts b = (if ma_shared_expert_intermediate_size b > 0 then 1 else 0) \<and>
    ma_stop_token_ids b = {ma_eos_token_id b, 248046}"
proof -
  obtain x where x: "load_all (compat_experts_args c js) x = Inr b"
    using text_loader_experts[OF assms] .
  show ?thesis using experts_constants[OF x] experts_shared[OF x] by simp
qed

theorem text_router_settings_witness:
  "\<exists>b. load_qwen3_5_moe_text int_conv demo_config (default_ModelArgs 0) = Inr b \<and>
     ma_scoring_func b = ''softmax'' \<and> ma_n_group b = -1"
proof -
  obtain b where b: "load_qwen3_5_moe_text int_conv demo_config (default_ModelArgs 0) = Inr b"
    using demo_config_loads by blast
  show ?thesis using text_router_settings[where load = load_qwen3_5_moe_text, OF _ b] b by simp
qed

lemma text_loads_empty: "\<exists>b. load_qwen3_5_text c (JObj []) a = Inr b"
  by (simp add: load_qwen3_5_text_def load_qwen3_5_next_compat_args_def text_type_and_dtype_def
      compat_core_args_def compat_attention_args_def compat_mtp_args_def compat_layer_types_def
      compat_experts_args_def load_arg_text_or_root_def load_qwen3_5_rope_arg_def load_all_append
      set_arg_def load_missing json_find_empty)

text \<open>
  An empty configuration loads without a conversion, and gives the dense text model: 48
  layers, 16 heads, no experts.
\<close>

lemma text_defaults:
  "\<exists>b. load_qwen3_5_text c (JObj []) a = Inr b \<and> ma_model_type b = ''qwen3_5_text'' \<and>
     ma_n_layers b = 48 \<and> ma_n_heads b = 16 \<and> ma_n_kv_heads b = Some 2 \<and> ma_num_experts b = 0 \<and>
     ma_n_routed_experts b = 0 \<and> ma_n_shared_experts b = 0 \<and> ma_layer_types b = []"
  by (simp add: load_qwen3_5_text_def load_qwen3_5_next_compat_args_def text_type_and_dtype_def
      compat_core_args_def compat_attention_args_def compat_mtp_args_def compat_layer_types_def
      compat_experts_args_def load_arg_text_or_root_def load_qwen3_5_rope_arg_def load_all_append
      set_arg_def load_missing json_find_empty)

text \<open>
  \<open>field_loaded\<close>: a list of steps leaves in an argument what the last key present of a chain
  holds. Steps before the chain do not matter, those after it must keep the argument.
\<close>

definition field_loaded ::
    "(json \<Rightarrow> 'v result) \<Rightarrow> 'v \<Rightarrow> json \<Rightarrow> string list \<Rightarrow> (ModelArgs \<Rightarrow> 'v) \<Rightarrow> args_step list \<Rightarrow> bool" where
  "field_loaded get dv js ks sel ss \<longleftrightarrow>
     (\<forall>a b. load_all ss a = Inr b \<longrightarrow> loaded get dv (last_found js ks) (sel b))"

lemma field_skip: "field_loaded get dv js ks sel ts \<Longrightarrow> field_loaded get dv js ks sel (ss @ ts)"
  by (auto simp: field_loaded_def elim: load_all_appendE)

lemma field_chain:
  assumes "\<And>v a. sel (put v a) = v" and "list_all (keeps sel) ts"
  shows "field_loaded get dv js (k # ks) sel
    ((load_arg_or get put js k (\<lambda>a. dv) # map (\<lambda>k. load_arg_or get put js k sel) ks) @ ts)"
proof -
  have "loaded get dv (last_found js (k # ks)) (sel b)"
    if run: "load_all ((load_arg_or get put js k (\<lambda>a. dv) # map (\<lambda>k. load_arg_or get put js k sel) ks) @ ts) a = Inr b"
    for a b
  proof -
    obtain x where x: "load_all (load_arg_or get put js k (\<lambda>a. dv) # map (\<lambda>k. load_arg_or get put js k sel) ks) a = Inr x"
      "load_all ts x = Inr b"
      using load_all_appendE[OF run] by blast
    from chain_loads_from[OF assms(1) x(1)] load_all_keeps[OF x(2) assms(2)] show ?thesis by simp
  qed
  then show ?thesis by (simp only: field_loaded_def) blast
qed

lemma field_text_or_root:
  assumes "list_all (keeps sel) ts" and "\<And>v a. sel (put v a) = v"
  shows "field_loaded get dv js [''text_config.'' @ key, key] sel
    (load_arg_text_or_root get put sel js key (\<lambda>a. dv) @ ts)"
  using field_chain[OF assms(2,1), of get dv js "''text_config.'' @ key" "[key]"]
  by (simp add: load_arg_text_or_root_def)

lemma field_four_keys:
  assumes "list_all (keeps sel) ts" and "\<And>v a. sel (put v a) = v"
  shows "field_loaded get dv js [k1, k2, k3, k4] sel
    ([load_arg_or get put js k1 (\<lambda>a. dv), load_arg_or get put js k2 sel,
      load_arg_or get put js k3 sel, load_arg_or get put js k4 sel] @ ts)"
  using field_chain[OF assms(2,1), of get dv js k1 "[k2, k3, k4]"] by simp

text \<open>An argument read at the root of the configuration, else under \<^verbatim>\<open>text_config\<close>, else its default.\<close>

definition text_arg :: "(json \<Rightarrow> 'v result) \<Rightarrow> 'v \<Rightarrow> json \<Rightarrow> string \<Rightarrow> 'v \<Rightarrow> bool" where
  "text_arg get dv js key v \<longleftrightarrow> loaded get dv (last_found js [''text_config.'' @ key, key]) v"

definition draft_layer_keys :: "string list" where
  "draft_layer_keys = [''text_config.mtp_num_hidden_layers'', ''mtp_num_hidden_layers'',
     ''text_config.num_nextn_predict_layers'', ''num_nextn_predict_layers'']"

text \<open>What the text loaders, dense and mixture of experts, read the shape of the model from.\<close>

lemma text_loader_steps:
  "load_qwen3_5_text c js = load_all (text_type_and_dtype c ''qwen3_5_text'' js @ compat_core_args c 0 0 0 js @
     compat_attention_args c js @ compat_mtp_args c 0 js @ compat_layer_types c js @ compat_experts_args c js)"
  "load_qwen3_5_moe_text c js = load_all (text_type_and_dtype c ''qwen3_5_moe_text'' js @ compat_core_args c 512 512 10 js @
     compat_attention_args c js @ compat_mtp_args c 512 js @ compat_layer_types c js @ compat_experts_args c js)"
  by (simp_all only: load_qwen3_5_text_def load_qwen3_5_moe_text_def load_qwen3_5_next_compat_args_def append_assoc)

lemmas text_steps = compat_core_args_def compat_attention_args_def compat_mtp_args_def
  compat_layer_types_def compat_experts_args_def append_assoc

lemma shape_fields:
  fixes c js w x y z t
  defines "ss \<equiv> text_type_and_dtype c t js @ compat_core_args c w x y js @ compat_attention_args c js @
    compat_mtp_args c z js @ compat_layer_types c js @ compat_experts_args c js"
  shows "field_loaded (jc_int64 c) 256 js [''text_config.'' @ ''head_dim'', ''head_dim''] ma_head_dim ss"
    and "field_loaded (jc_int64 c) 2048 js [''text_config.'' @ ''hidden_size'', ''hidden_size''] ma_hidden_size ss"
    and "field_loaded (jc_int64 c) 5120 js [''text_config.'' @ ''intermediate_size'', ''intermediate_size''] ma_intermediate_size ss"
    and "field_loaded (jc_int64 c) 16 js [''text_config.'' @ ''num_attention_heads'', ''num_attention_heads''] ma_n_heads ss"
    and "field_loaded (jc_int32 c) x js [''text_config.'' @ ''num_experts'', ''num_experts''] ma_num_experts ss"
    and "field_loaded (jc_int64 c) 151936 js [''text_config.'' @ ''vocab_size'', ''vocab_size''] ma_vocab_size ss"
    and "field_loaded (jc_int32 c) 151645 js [''text_config.'' @ ''eos_token_id'', ''eos_token_id''] ma_eos_token_id ss"
    and "field_loaded (jc_bool c) False js [''text_config.'' @ ''tie_word_embeddings'', ''tie_word_embeddings''] ma_tie_word_embeddings ss"
    and "field_loaded (jc_int32 c) 0 js draft_layer_keys ma_num_nextn_predict_layers ss"
  unfolding ss_def text_steps draft_layer_keys_def
  by ((rule field_text_or_root field_four_keys field_skip)+; simp add: args_keeps)+

text \<open>
  C28: a draft loader (dense or mixture of experts) returns the arguments of its base model's
  configuration as a draft. Its layers are full-attention layers, as many as the last of the four
  keys for the number of draft layers that is present says, at least one (also without any of
  them); its dimensions, vocabulary, end token, expert count and whether the embeddings are tied
  are those at the root of the configuration, else those under \<^verbatim>\<open>text_config\<close>, else the defaults;
  the router settings and stop tokens are the text model's. A base loader that throws makes the
  draft loader throw, and without a base loader it fails and changes nothing.
\<close>

theorem draft_args:
  assumes "(load, base_type, mtp_load, mtp_type, experts) \<in>
      {(load_qwen3_5_text, ''qwen3_5_text'', load_qwen3_5_mtp, ''qwen3_5_mtp'', 0),
       (load_qwen3_5_moe_text, ''qwen3_5_moe_text'', load_qwen3_5_moe_mtp, ''qwen3_5_moe_mtp'', 512)}"
    and "registry base_type = None \<or> registry base_type = Some (registered (load c))"
  shows "case mtp_load registry js a of
      Inl e \<Rightarrow> registry base_type \<noteq> None \<and> load c js a = Inl e
    | Inr (ok, b) \<Rightarrow>
        if registry base_type = None then \<not> ok \<and> b = a
        else ok \<and> ma_model_type b = mtp_type \<and>
          (\<exists>k. loaded (jc_int32 c) 0 (last_found js draft_layer_keys) k \<and>
             ma_n_layers b = max 1 k \<and> ma_num_nextn_predict_layers b = max 1 k \<and>
             ma_layer_types b = replicate (nat (max 1 k)) ''full_attention'') \<and>
          text_arg (jc_int64 c) 2048 js ''hidden_size'' (ma_hidden_size b) \<and>
          text_arg (jc_int64 c) 5120 js ''intermediate_size'' (ma_intermediate_size b) \<and>
          text_arg (jc_int64 c) 16 js ''num_attention_heads'' (ma_n_heads b) \<and>
          text_arg (jc_int64 c) 256 js ''head_dim'' (ma_head_dim b) \<and>
          text_arg (jc_int64 c) 151936 js ''vocab_size'' (ma_vocab_size b) \<and>
          text_arg (jc_int32 c) 151645 js ''eos_token_id'' (ma_eos_token_id b) \<and>
          text_arg (jc_int32 c) experts js ''num_experts'' (ma_num_experts b) \<and>
          text_arg (jc_bool c) False js ''tie_word_embeddings'' (ma_tie_word_embeddings b) \<and>
          ma_stop_token_ids b = {ma_eos_token_id b, 248046} \<and>
          ma_n_shared_experts b = (if ma_shared_expert_intermediate_size b > 0 then 1 else 0)"
proof -
  have run: "mtp_load registry js a = load_model_args registry js a base_type mtp_type"
    using assms(1) by (auto simp: load_qwen3_5_mtp_def load_qwen3_5_moe_mtp_def)
  show ?thesis
  proof (cases "registry base_type = None")
    case True
    then show ?thesis by (simp add: run load_model_args_def)
  next
    case False
    then have reg: "registry base_type = Some (registered (load c))"
      using assms(2) by (elim disjE) (erule notE, assumption+)
    show ?thesis
    proof (cases "load c js a")
      case (Inl e)
      then show ?thesis by (simp add: run load_model_args_def reg registered_def)
    next
      case (Inr base)
      let ?k = "ma_num_nextn_predict_layers base"
      have fields: "loaded (jc_int32 c) 0 (last_found js draft_layer_keys) ?k"
        "text_arg (jc_int64 c) 2048 js ''hidden_size'' (ma_hidden_size base)"
        "text_arg (jc_int64 c) 5120 js ''intermediate_size'' (ma_intermediate_size base)"
        "text_arg (jc_int64 c) 16 js ''num_attention_heads'' (ma_n_heads base)"
        "text_arg (jc_int64 c) 256 js ''head_dim'' (ma_head_dim base)"
        "text_arg (jc_int64 c) 151936 js ''vocab_size'' (ma_vocab_size base)"
        "text_arg (jc_int32 c) 151645 js ''eos_token_id'' (ma_eos_token_id base)"
        "text_arg (jc_int32 c) experts js ''num_experts'' (ma_num_experts base)"
        "text_arg (jc_bool c) False js ''tie_word_embeddings'' (ma_tie_word_embeddings base)"
        unfolding text_arg_def using assms(1) Inr text_loader_steps[where c = c and js = js]
          shape_fields[where c = c and js = js, unfolded field_loaded_def]
        by (auto simp del: append.simps)
      have ok: "load \<in> {load_qwen3_5_text, load_qwen3_5_moe_text}" using assms(1) by auto
      obtain x where x: "load_all (compat_experts_args c js) x = Inr base"
        using text_loader_experts[OF ok Inr] .
      have "mtp_load registry js a = Inr (True, base\<lparr>ma_model_type := mtp_type,
          ma_num_nextn_predict_layers := max 1 ?k, ma_n_layers := max 1 ?k,
          ma_layer_types := replicate (nat (max 1 ?k)) ''full_attention''\<rparr>)"
        by (auto simp: run load_model_args_def reg registered_def Inr Let_def max_def)
      then show ?thesis
        using fields experts_constants(6)[OF x] experts_shared[OF x] reg by auto
    qed
  qed
qed

definition draft_config :: json where
  "draft_config = JObj [(''mtp_num_hidden_layers'', JInt 2),
     (''text_config'', JObj [(''num_experts'', JInt 8), (''num_nextn_predict_layers'', JInt 3)])]"

theorem draft_args_witness:
  "\<exists>b. load_qwen3_5_moe_mtp (register_model_args_loader ''qwen3_5_moe_text''
         (registered (load_qwen3_5_moe_text int_conv)) (\<lambda>_. None)) draft_config (default_ModelArgs 0) = Inr (True, b) \<and>
     ma_n_layers b = 3 \<and> ma_num_experts b = 8"
proof -
  let ?registry = "register_model_args_loader ''qwen3_5_moe_text'' (registered (load_qwen3_5_moe_text int_conv)) (\<lambda>_. None)"
  have reg: "?registry ''qwen3_5_moe_text'' = Some (registered (load_qwen3_5_moe_text int_conv))"
    by (simp add: register_model_args_loader_def)
  have loads: "\<exists>b. load_qwen3_5_moe_text int_conv draft_config (default_ModelArgs 0) = Inr b"
    by (simp add: load_qwen3_5_moe_text_def load_qwen3_5_next_compat_args_def text_type_and_dtype_def
        compat_core_args_def compat_attention_args_def compat_mtp_args_def compat_layer_types_def
        compat_experts_args_def load_arg_text_or_root_def load_qwen3_5_rope_arg_def load_all_append
        set_arg_def load_arg_or_def json_value_or_def json_value_def json_find_def draft_config_def
        int_conv_def no_conv_def)
  have found: "last_found draft_config draft_layer_keys = Some (JInt 3)"
    "last_found draft_config [''text_config.'' @ ''num_experts'', ''num_experts''] = Some (JInt 8)"
    by (simp_all add: draft_config_def draft_layer_keys_def json_find_def)
  from draft_args[where load = load_qwen3_5_moe_text and base_type = "''qwen3_5_moe_text''"
      and mtp_load = load_qwen3_5_moe_mtp and mtp_type = "''qwen3_5_moe_mtp''" and experts = 512
      and registry = ?registry and c = int_conv and js = draft_config and a = "default_ModelArgs 0"] reg loads found
  show ?thesis
    by (auto simp: loaded_def text_arg_def int_conv_def split: sum.splits)
qed

lemma rope_type_step:
  assumes "load_all (common_rope_type c js) a = Inr b"
  shows "ma_rope_scaling_rope_type b \<noteq> ''default''"
proof (rule load_all_establish[OF assms, of 1 "\<lambda>t. t \<noteq> ''default''" ma_rope_scaling_rope_type])
  fix x y assume "(common_rope_type c js ! 1) x = Inr y"
  then have "y = (if ma_rope_scaling_rope_type x = ''default''
      then x\<lparr>ma_rope_scaling_rope_type := ''mrope''\<rparr> else x)"
    by (simp add: common_rope_type_def set_arg_def)
  then show "ma_rope_scaling_rope_type y \<noteq> ''default''" by simp
qed (simp_all add: common_rope_type_def)

lemma common_args_rope_type:
  assumes "load_all (load_qwen3_5_common_args c js) a = Inr b"
  shows "ma_rope_scaling_rope_type b \<noteq> ''default''"
proof -
  obtain y where y: "ma_rope_scaling_rope_type y \<noteq> ''default''" "load_all (common_rope_tail c js) y = Inr b"
    using assms unfolding load_qwen3_5_common_args_def
    by (elim load_all_appendE) (use rope_type_step in blast)
  have "ma_rope_scaling_rope_type b = ma_rope_scaling_rope_type y"
    by (rule load_all_keeps[OF y(2)]) (simp add: common_rope_tail_def args_keeps)
  with y(1) show ?thesis by simp
qed

lemma vision_args_effect:
  assumes "load_all (load_qwen3_5_vision_args c js) a = Inr b"
  shows "ma_mm_deepstack_visual_indexes b = []" and "ma_rope_scaling_rope_type b = ma_rope_scaling_rope_type a"
proof -
  obtain x y z where x: "load_all (vision_token_args c js) a = Inr x" "check_deepstack x = Inr y"
      "load_all (vision_tower_args c js) y = Inr z" "vision_head_dim c js z = Inr b"
    using assms by (auto simp: load_qwen3_5_vision_args_def load_all_append rbind_eq_Inr_iff)
  have y: "y = x" "ma_mm_deepstack_visual_indexes y = []"
    using x(2) by (auto simp: check_deepstack_def split: if_splits)
  have z: "ma_mm_deepstack_visual_indexes z = ma_mm_deepstack_visual_indexes y"
    "ma_rope_scaling_rope_type z = ma_rope_scaling_rope_type y"
    by (rule load_all_keeps[OF x(3)], simp add: vision_tower_args_def args_keeps)+
  have "keeps ma_mm_deepstack_visual_indexes (vision_head_dim c js)"
    "keeps ma_rope_scaling_rope_type (vision_head_dim c js)"
    by (simp_all add: vision_head_dim_def args_keeps)
  then have b: "ma_mm_deepstack_visual_indexes b = ma_mm_deepstack_visual_indexes z"
    "ma_rope_scaling_rope_type b = ma_rope_scaling_rope_type z"
    using x(4) by (auto simp: keeps_def)
  have "ma_rope_scaling_rope_type x = ma_rope_scaling_rope_type a"
    by (rule load_all_keeps[OF x(1)]) (simp add: vision_token_args_def args_keeps)
  with y z b show "ma_mm_deepstack_visual_indexes b = []"
    "ma_rope_scaling_rope_type b = ma_rope_scaling_rope_type a" by simp_all
qed

text \<open>
  when a multimodal loader returns, the rope type is not \<^verbatim>\<open>default\<close> (it has become
  \<^verbatim>\<open>mrope\<close>) and no DeepStack index was configured: the loader stops on those.
\<close>

theorem vlm_args:
  assumes "load \<in> {load_vlm_qwen3_5, load_vlm_qwen3_5_moe}" and "load c js a = Inr b"
  shows "ma_rope_scaling_rope_type b \<noteq> ''default'' \<and> ma_mm_deepstack_visual_indexes b = []"
proof -
  obtain ss where ss: "load_all (load_qwen3_5_common_args c js @ load_qwen3_5_vision_args c js @ ss) a = Inr b"
      "list_all (keeps ma_rope_scaling_rope_type) ss" "list_all (keeps ma_mm_deepstack_visual_indexes) ss"
  proof -
    from assms(1) consider "load = load_vlm_qwen3_5" | "load = load_vlm_qwen3_5_moe" by blast
    then show thesis
    proof cases
      case 1
      then show thesis
        using assms(2) that[of "dense_overrides c js"]
        by (simp add: load_vlm_qwen3_5_def dense_overrides_def args_keeps)
    next
      case 2
      then show thesis
        using assms(2) that[of "moe_overrides c js"]
        by (simp add: load_vlm_qwen3_5_moe_def moe_overrides_def args_keeps)
    qed
  qed
  obtain x y where x: "load_all (load_qwen3_5_common_args c js) a = Inr x"
      "load_all (load_qwen3_5_vision_args c js) x = Inr y" "load_all ss y = Inr b"
    using ss(1) by (elim load_all_appendE)
  show ?thesis
    using common_args_rope_type[OF x(1)] vision_args_effect[OF x(2)]
      load_all_keeps[OF x(3) ss(2)] load_all_keeps[OF x(3) ss(3)] by simp
qed

lemma vlm_loads_empty: "\<exists>b. load_vlm_qwen3_5 c (JObj []) a = Inr b"
  by (simp add: load_vlm_qwen3_5_def load_qwen3_5_common_args_def common_text_args_def common_rope_type_def
      common_rope_tail_def load_qwen3_5_vision_args_def vision_token_args_def check_deepstack_def
      vision_tower_args_def vision_head_dim_def dense_overrides_def load_all_append load_arg_or_func_def
      json_value_def set_arg_def load_missing json_find_empty)

theorem vlm_args_witness:
  "\<exists>b. load_vlm_qwen3_5 no_conv (JObj []) (default_ModelArgs 0) = Inr b \<and>
     ma_rope_scaling_rope_type b \<noteq> ''default''"
proof -
  obtain b where b: "load_vlm_qwen3_5 no_conv (JObj []) (default_ModelArgs 0) = Inr b"
    using vlm_loads_empty by blast
  then show ?thesis using vlm_args[where load = load_vlm_qwen3_5, OF _ b] by simp
qed

end
