(* ===== verification/State_Dict.thy ===== *)
theory State_Dict
  imports Torch
begin

text \<open>
  Dictionaries of weights (\<^verbatim>\<open>upstream_ref/xllm/xllm/core/framework/state_dict/state_dict.cpp\<close>): tensors by
  name, sub-dictionaries by prefix with the prefix stripped, and shards of a tensor. The
  container is a list of names and tensors without repeated names; reading a file is not
  modelled. Also the decimal numbers the models build names from.
\<close>

section \<open>Numbers in names\<close>

definition digit :: "nat \<Rightarrow> char" where
  "digit n = char_of (48 + n)"

text \<open>\<^verbatim>\<open>std::to_string\<close> of a natural number.\<close>

fun nat_string :: "nat \<Rightarrow> string" where
  "nat_string n = (if n < 10 then [digit n] else nat_string (n div 10) @ [digit (n mod 10)])"

declare nat_string.simps [simp del]

section \<open>State dictionaries\<close>

record StateDict =
  sd_dict :: "(string \<times> torch) list"
  sd_transform :: "(string \<Rightarrow> torch \<Rightarrow> torch) option"
  sd_prefix :: string

definition StateDict_of :: "(string \<times> torch) list \<Rightarrow> string \<Rightarrow> StateDict" where
  "StateDict_of dict prefx = \<lparr>sd_dict = dict, sd_transform = None, sd_prefix = prefx\<rparr>"

definition sd_size :: "StateDict \<Rightarrow> nat" where
  "sd_size sd = length (sd_dict sd)"

definition sd_has :: "StateDict \<Rightarrow> string \<Rightarrow> bool" where
  "sd_has sd name \<longleftrightarrow> map_of (sd_dict sd) name \<noteq> None"

text \<open>A tensor without dimensions is given one.\<close>

definition get_tensor :: "aten \<Rightarrow> StateDict \<Rightarrow> string \<Rightarrow> torch result" where
  "get_tensor lib sd name =
     (case map_of (sd_dict sd) name of
        None \<Rightarrow> Inr TUndef
      | Some t \<Rightarrow>
          rbind (if t_dim t = 0 then at_reshape lib t [t_numel t] else Inr t) (\<lambda>tensor.
          Inr (case sd_transform sd of None \<Rightarrow> tensor | Some f \<Rightarrow> f name tensor)))"

definition get_sharded_tensor :: "aten \<Rightarrow> StateDict \<Rightarrow> string \<Rightarrow> int \<Rightarrow> int \<Rightarrow> int \<Rightarrow> torch result" where
  "get_sharded_tensor lib sd name dim' rank world_size =
     rbind (check (dim' = 0 \<or> dim' = 1) ''Only support 1D or 2D sharding'') (\<lambda>_.
     rbind (check (rank \<ge> 0 \<and> rank < world_size) ''Invalid rank'') (\<lambda>_.
     rbind (get_tensor lib sd name) (\<lambda>tensor.
     if \<not> t_defined tensor then Inr tensor
     else
       rbind (t_size tensor dim') (\<lambda>dim_size.
       if dim_size < world_size then Inr tensor
       else
         rbind (check (dim_size smod world_size = 0) ''can't devide tensor evenly'') (\<lambda>_.
         rbind (at_chunk lib tensor world_size dim') (\<lambda>chunks.
         if nat rank < length chunks then Inr (chunks ! nat rank)
         else Inl (Undefined ''chunks[rank]'')))))))"

fun starts_with :: "string \<Rightarrow> string \<Rightarrow> bool" where
  "starts_with name [] = True"
| "starts_with [] (p # ps) = False"
| "starts_with (n # ns) (p # ps) = (n = p \<and> starts_with ns ps)"

definition get_dict_with_prefix :: "StateDict \<Rightarrow> string \<Rightarrow> StateDict" where
  "get_dict_with_prefix sd prefx =
     StateDict_of (map (\<lambda>(name, t). (drop (length prefx) name, t))
                     (filter (\<lambda>(name, t). starts_with name prefx) (sd_dict sd)))
       (sd_prefix sd @ prefx)"

fun get_dict_with_prefixes :: "StateDict \<Rightarrow> string list \<Rightarrow> StateDict" where
  "get_dict_with_prefixes sd [] = StateDict_of [] (sd_prefix sd)"
| "get_dict_with_prefixes sd (p # ps) =
     (let sub = get_dict_with_prefix sd p in
      if sd_size sub > 0 then sub else get_dict_with_prefixes sd ps)"

definition get_dict_with_transform ::
    "StateDict \<Rightarrow> string \<Rightarrow> (string \<Rightarrow> torch \<Rightarrow> torch) \<Rightarrow> StateDict" where
  "get_dict_with_transform sd prefx f = (get_dict_with_prefix sd prefx)\<lparr>sd_transform := Some f\<rparr>"

section \<open>Lemmas\<close>

definition sd_ok :: "StateDict \<Rightarrow> bool" where
  "sd_ok sd \<longleftrightarrow> distinct (map fst (sd_dict sd))"

lemma starts_with_append [simp]: "starts_with (p @ name) p"
  by (induction p) auto

lemma starts_with_iff: "starts_with name p \<longleftrightarrow> (\<exists>r. name = p @ r)"
  by (induction name p rule: starts_with.induct) auto

lemma starts_with_split:
  "starts_with name (p @ q) \<longleftrightarrow> starts_with name p \<and> starts_with (drop (length p) name) q"
  by (induction name p rule: starts_with.induct) auto

lemma map_of_stripped:
  "map_of (map (\<lambda>(name, t). (drop (length p) name, t)) (filter (\<lambda>(name, t). starts_with name p) d)) name
    = map_of d (p @ name)"
  by (induction d) (auto simp: starts_with_iff, metis)

lemma sub_lookup: "map_of (sd_dict (get_dict_with_prefix sd p)) name = map_of (sd_dict sd) (p @ name)"
  by (simp add: get_dict_with_prefix_def StateDict_of_def map_of_stripped)

lemma sub_transform [simp]: "sd_transform (get_dict_with_prefix sd p) = None"
  by (simp add: get_dict_with_prefix_def StateDict_of_def)

lemma distinct_stripped:
  "distinct (map fst d) \<Longrightarrow>
    distinct (map fst (map (\<lambda>(name, t). (drop (length p) name, t)) (filter (\<lambda>(name, t). starts_with name p) d)))"
proof (induction d)
  case (Cons e d)
  have "drop (length p) (fst e) \<notin> (\<lambda>(name, t). drop (length p) name) ` {(name, t) \<in> set d. starts_with name p}"
    if "starts_with (fst e) p"
    using that Cons.prems by (force simp: starts_with_iff image_iff)
  with Cons show ?case by (auto simp: image_iff, blast)
qed simp

lemma sub_ok: "sd_ok sd \<Longrightarrow> sd_ok (get_dict_with_prefix sd p)"
  using distinct_stripped[of "sd_dict sd" p]
  by (simp add: sd_ok_def get_dict_with_prefix_def StateDict_of_def)

text \<open>A sub-dictionary of a sub-dictionary is the one of the joined prefix.\<close>

lemma sub_sub: "get_dict_with_prefix (get_dict_with_prefix sd p) q = get_dict_with_prefix sd (p @ q)"
  by (simp add: get_dict_with_prefix_def StateDict_of_def filter_map o_def case_prod_unfold
      starts_with_split conj_commute add.commute)

lemma digit_eq: "a < 10 \<Longrightarrow> b < 10 \<Longrightarrow> digit a = digit b \<longleftrightarrow> a = b"
  by (auto simp: digit_def dest!: arg_cong[where f = "of_char :: char \<Rightarrow> nat"])

lemma digit_not_dot: "a < 10 \<Longrightarrow> digit a \<noteq> CHR ''.''"
  by (auto simp: digit_def dest!: arg_cong[where f = "of_char :: char \<Rightarrow> nat"])

lemma nat_string_nonempty: "nat_string n \<noteq> []"
  by (subst nat_string.simps) simp

lemma nat_string_no_dot: "CHR ''.'' \<notin> set (nat_string n)"
proof (induction n rule: nat_string.induct)
  case (1 n)
  then show ?case
    by (subst nat_string.simps) (auto dest: digit_not_dot[THEN not_sym] simp: digit_not_dot[THEN not_sym])
qed

lemma nat_string_inj: "nat_string m = nat_string n \<Longrightarrow> m = n"
proof (induction m arbitrary: n rule: nat_string.induct)
  case (1 m)
  show ?case
  proof (cases "m < 10 \<or> n < 10")
    case True
    then show ?thesis
      using 1(2) nat_string_nonempty[of "m div 10"] nat_string_nonempty[of "n div 10"]
      by (subst (asm) (1 2) nat_string.simps) (auto simp: digit_eq split: if_splits)
  next
    case False
    then have "nat_string (m div 10) = nat_string (n div 10)" "digit (m mod 10) = digit (n mod 10)"
      using 1(2) by (subst (asm) (1 2) nat_string.simps, simp)+
    then have "m div 10 = n div 10" "m mod 10 = n mod 10"
      using 1(1) False by (auto simp: digit_eq)
    then show ?thesis by (metis mult_div_mod_eq)
  qed
qed

end
