(* ===== verification/Hybrid_Model.thy ===== *)
theory Hybrid_Model
  imports State_Dict
begin

text \<open>
  The hybrid Qwen3 models: the decoder stack and its causal language model
  (\<^verbatim>\<open>ex_engine/xllm_models/llm/qwen3_next_hybrid_base.h\<close>) and the multi-token-prediction draft built on
  them (\<^verbatim>\<open>llm/qwen3_5_mtp_base.h\<close>). The modules a model is made of (embedding, decoder layers, norms,
  head), the metadata builder and the communication context are the environment's: a module
  is a value \<open>'m\<close> that can be loaded, verified and applied.
\<close>

section \<open>Inputs\<close>

datatype BatchForwardType = PREFILL | CHUNKED_PREFILL | DECODE | MIXED | EMPTY

definition is_chunked_prefill :: "BatchForwardType \<Rightarrow> bool" where
  "is_chunked_prefill t \<longleftrightarrow> t = CHUNKED_PREFILL"

definition no_decode :: "BatchForwardType \<Rightarrow> bool" where
  "no_decode t \<longleftrightarrow> t = PREFILL \<or> t = CHUNKED_PREFILL"

definition is_mixed :: "BatchForwardType \<Rightarrow> bool" where
  "is_mixed t \<longleftrightarrow> t = MIXED"

text \<open>The input parameters the models read.\<close>

record ModelInputParams =
  mi_input_embedding :: torch
  mi_batch_forward_type :: BatchForwardType
  mi_kv_max_seq_len :: int
  mi_num_sequences :: int
  mi_is_spec_verify :: bool
  mi_graph_attn_mask :: torch
  mi_q_seq_lens :: "int list"
  mi_kv_seq_lens :: "int list"
  mi_has_synchronizer :: bool

record FlashComm1Options =
  fc_enable_flashcomm1 :: bool
  fc_enable_mmrs_fusion :: bool

text \<open>What a layer returns: its output and, by reference, residual, positions and cache.\<close>

record layer_out =
  lo_hidden :: torch
  lo_residual :: "torch option"
  lo_positions :: torch
  lo_kv_cache :: KVCache

text \<open>
  The environment. \<open>he_flash\<close> is the communication context: the shard and gather functions when
  the sequence is sharded. \<open>he_no_tokens\<close> is the comparison of a shape with 0 the code makes.
\<close>

record ('m, 'a) hybrid_env =
  he_plat :: platform
  he_aten :: aten
  he_load :: "StateDict \<Rightarrow> 'm \<Rightarrow> 'm result"
  he_verify :: "string \<Rightarrow> 'm \<Rightarrow> unit result"
  he_embed :: "'m \<Rightarrow> torch \<Rightarrow> torch result"
  he_norm :: "'m \<Rightarrow> torch \<Rightarrow> torch option \<Rightarrow> (torch \<times> torch option) result"
  he_linear :: "'m \<Rightarrow> torch \<Rightarrow> torch result"
  he_mrope :: "'m \<Rightarrow> torch \<Rightarrow> torch result"
  he_layer :: "'m \<Rightarrow> torch \<Rightarrow> torch option \<Rightarrow> torch \<Rightarrow> 'a \<Rightarrow> KVCache \<Rightarrow> ModelInputParams \<Rightarrow> torch
    \<Rightarrow> layer_out result"
  he_build_metadata :: "ModelInputParams \<Rightarrow> bool \<Rightarrow> torch \<Rightarrow> 'a result"
  he_prepare_mrope :: "torch \<Rightarrow> 'a \<Rightarrow> 'a result"
  he_dense_mask :: "int \<Rightarrow> torch result"
  he_append_mask :: "int \<Rightarrow> int \<Rightarrow> int \<Rightarrow> torch result"
  he_flash :: "int \<Rightarrow> bool \<Rightarrow> FlashComm1Options
    \<Rightarrow> ((torch \<Rightarrow> torch result) \<times> (torch \<Rightarrow> torch result)) option"
  he_no_tokens :: "int list \<Rightarrow> bool"
  he_dummy_tokens :: torch
  he_dummy_positions :: torch
  he_synchronize_layer :: "nat \<Rightarrow> bool"
  he_record_event :: "nat \<Rightarrow> bool"
  he_index_select :: "torch \<Rightarrow> int \<Rightarrow> torch \<Rightarrow> torch result"
  he_normalize_rows :: "torch \<Rightarrow> torch result"

section \<open>The decoder stack\<close>

record 'm hybrid_model =
  hm_embed_tokens :: 'm
  hm_layers :: "'m list"
  hm_norm :: 'm
  hm_max_seq_len :: int
  hm_dp_size :: int
  hm_enable_mla :: bool
  hm_flash_options :: FlashComm1Options

text \<open>The constructor, before layers are added; the two modules are registered by it.\<close>

definition hybrid_create :: "'m \<Rightarrow> 'm \<Rightarrow> int \<Rightarrow> bool \<Rightarrow> int \<Rightarrow> FlashComm1Options \<Rightarrow> 'm hybrid_model" where
  "hybrid_create norm_module embed_module n_routed_experts enable_mla dp_size options =
     \<lparr>hm_embed_tokens = embed_module, hm_layers = [], hm_norm = norm_module, hm_max_seq_len = 0,
      hm_dp_size = dp_size, hm_enable_mla = enable_mla,
      hm_flash_options =
        (if n_routed_experts > 0
         then options\<lparr>fc_enable_flashcomm1 := False, fc_enable_mmrs_fusion := False\<rparr> else options)\<rparr>"

definition add_decoder_layer :: "'m \<Rightarrow> ('m, 'z) hybrid_model_scheme \<Rightarrow> ('m, 'z) hybrid_model_scheme" where
  "add_decoder_layer layer m = m\<lparr>hm_layers := hm_layers m @ [layer]\<rparr>"

definition num_hidden_layers :: "('m, 'z) hybrid_model_scheme \<Rightarrow> int" where
  "num_hidden_layers m = int (length (hm_layers m))"

definition set_word_embedding :: "'m \<Rightarrow> ('m, 'z) hybrid_model_scheme \<Rightarrow> ('m, 'z) hybrid_model_scheme" where
  "set_word_embedding word_embedding m = m\<lparr>hm_embed_tokens := word_embedding\<rparr>"

text \<open>The constructors of the models add one layer per layer id; \<open>mk\<close> makes a layer.\<close>

definition add_layers ::
    "(int \<Rightarrow> 'm) \<Rightarrow> int \<Rightarrow> ('m, 'z) hybrid_model_scheme \<Rightarrow> ('m, 'z) hybrid_model_scheme" where
  "add_layers mk n_layers m = fold (\<lambda>layer_id. add_decoder_layer (mk layer_id)) [0..n_layers - 1] m"

definition qwen3_next_model ::
    "(int \<Rightarrow> 'm) \<Rightarrow> bool \<Rightarrow> int \<Rightarrow> 'm hybrid_model \<Rightarrow> 'm hybrid_model" where
  "qwen3_next_model mk init_decoder_layers n_layers base =
     (if init_decoder_layers then add_layers mk n_layers base else base)"

definition qwen3_5_model ::
    "(int \<Rightarrow> 'm) \<Rightarrow> (int \<Rightarrow> 'm) \<Rightarrow> int \<Rightarrow> 'm hybrid_model \<Rightarrow> 'm hybrid_model" where
  "qwen3_5_model mk_next mk n_layers base =
     add_layers mk n_layers (qwen3_next_model mk_next False n_layers base)"

text \<open>The masks of all sequences, then one dense or one concatenated mask.\<close>

definition append_masks ::
    "('m, 'a) hybrid_env \<Rightarrow> ModelInputParams \<Rightarrow> int \<Rightarrow> int list \<Rightarrow> torch list result" where
  "append_masks env inp max_seq_len js =
     rmap (\<lambda>j.
       if nat j < length (mi_q_seq_lens inp) \<and> nat j < length (mi_kv_seq_lens inp)
       then he_append_mask env (mi_q_seq_lens inp ! nat j) (mi_kv_seq_lens inp ! nat j) max_seq_len
       else Inl (Undefined ''q_seq_lens[j]'')) js"

definition build_attention_mask ::
    "('m, 'a) hybrid_env \<Rightarrow> ModelInputParams \<Rightarrow> ('m, 'z) hybrid_model_scheme
     \<Rightarrow> (torch \<times> ('m, 'z) hybrid_model_scheme) result" where
  "build_attention_mask env inp m =
     (if he_plat env = NPU then
        Inr (if t_defined (mi_graph_attn_mask inp) then mi_graph_attn_mask inp else TUndef, m)
      else if t_defined (mi_graph_attn_mask inp) then Inr (mi_graph_attn_mask inp, m)
      else
        let m' = m\<lparr>hm_max_seq_len := max (mi_kv_max_seq_len inp) (hm_max_seq_len m)\<rparr>;
            use_append_mask = mi_is_spec_verify inp \<or> is_mixed (mi_batch_forward_type inp) \<or>
                              is_chunked_prefill (mi_batch_forward_type inp) in
        if \<not> use_append_mask \<or> mi_num_sequences inp \<le> 0 then
          rbind (he_dense_mask env (hm_max_seq_len m')) (\<lambda>t. Inr (t, m'))
        else
          rbind (append_masks env inp (hm_max_seq_len m') [0..mi_num_sequences inp - 1]) (\<lambda>ts.
          rbind (at_cat (he_aten env) ts 0) (\<lambda>t. Inr (t, m'))))"

text \<open>The first layer that has positions encoded decides.\<close>

fun first_mrope :: "('m, 'a) hybrid_env \<Rightarrow> torch \<Rightarrow> 'm list \<Rightarrow> torch result" where
  "first_mrope env positions [] = Inr TUndef"
| "first_mrope env positions (l # ls) =
     rbind (he_mrope env l positions) (\<lambda>t.
     if t_defined t \<or> ls = [] then Inr t else first_mrope env positions ls)"

text \<open>
  The loop over the layers; it stops early, without a result, when a layer is not synchronised
  or its event is not recorded.
\<close>

fun run_layers ::
    "('m, 'a) hybrid_env \<Rightarrow> (nat \<Rightarrow> bool) \<Rightarrow> ModelInputParams \<Rightarrow> 'a \<Rightarrow> torch \<Rightarrow> nat \<Rightarrow> 'm list
     \<Rightarrow> torch \<Rightarrow> torch option \<Rightarrow> torch \<Rightarrow> KVCache list
     \<Rightarrow> ((torch \<times> torch option) option \<times> KVCache list) result" where
  "run_layers env sync inp meta mrope i [] h residual positions kv_caches =
     Inr (Some (h, residual), kv_caches)"
| "run_layers env sync inp meta mrope i (l # ls) h residual positions kv_caches =
     (if \<not> sync i then Inr (None, kv_caches)
      else if \<not> i < length kv_caches then Inl (Undefined ''kv_caches[i]'')
      else
        rbind (he_layer env l h residual positions meta (kv_caches ! i) inp mrope) (\<lambda>out.
        let kv_caches' = kv_caches[i := lo_kv_cache out] in
        if he_plat env = NPU \<and> mi_has_synchronizer inp \<and> \<not> he_record_event env i
        then Inr (None, kv_caches')
        else run_layers env sync inp meta mrope (Suc i) ls (lo_hidden out) (lo_residual out)
               (lo_positions out) kv_caches'))"

text \<open>The result is the hidden states, undefined for an empty \<^verbatim>\<open>ModelOutput\<close>.\<close>

definition hybrid_forward ::
    "('m, 'a) hybrid_env \<Rightarrow> torch \<Rightarrow> torch \<Rightarrow> KVCache list \<Rightarrow> ModelInputParams
     \<Rightarrow> ('m, 'z) hybrid_model_scheme
     \<Rightarrow> (torch \<times> KVCache list \<times> ('m, 'z) hybrid_model_scheme) result" where
  "hybrid_forward env tokens0 positions0 kv_caches inp m =
     (let dummy = hm_dp_size m > 1 \<and> he_no_tokens env (t_sizes tokens0);
          tokens = (if dummy then he_dummy_tokens env else tokens0);
          positions = (if dummy then he_dummy_positions env else positions0) in
      rbind (build_attention_mask env inp m) (\<lambda>(msk, m').
      rbind (he_build_metadata env inp (hm_enable_mla m) msk) (\<lambda>meta.
      rbind (t_size tokens 0) (\<lambda>num_tokens.
      let flash = he_flash env num_tokens (no_decode (mi_batch_forward_type inp)) (hm_flash_options m) in
      rbind (if t_defined (mi_input_embedding inp) then Inr (mi_input_embedding inp)
             else he_embed env (hm_embed_tokens m) tokens) (\<lambda>h0.
      rbind (case flash of None \<Rightarrow> Inr h0 | Some (shard, gather) \<Rightarrow> shard h0) (\<lambda>h1.
      rbind (first_mrope env positions (hm_layers m)) (\<lambda>mrope.
      rbind (run_layers env (\<lambda>_. True) inp meta mrope 0 (hm_layers m) h1 None positions kv_caches)
        (\<lambda>(out, kv_caches').
      case out of
        None \<Rightarrow> Inr (TUndef, kv_caches', m')
      | Some (h, residual) \<Rightarrow>
          rbind (he_norm env (hm_norm m) h residual) (\<lambda>(hidden, _).
          rbind (case flash of None \<Rightarrow> Inr hidden | Some (shard, gather) \<Rightarrow> gather hidden) (\<lambda>hidden'.
          Inr (hidden', kv_caches', m')))))))))))"

section \<open>Loading the decoder stack\<close>

definition layer_prefix :: "nat \<Rightarrow> string" where
  "layer_prefix i = ''layers.'' @ nat_string i @ ''.''"

fun load_layers :: "('m, 'a) hybrid_env \<Rightarrow> StateDict \<Rightarrow> nat \<Rightarrow> 'm list \<Rightarrow> 'm list result" where
  "load_layers env sd i [] = Inr []"
| "load_layers env sd i (l # ls) =
     rbind (he_load env (get_dict_with_prefix sd (layer_prefix i)) l) (\<lambda>l'.
     rbind (load_layers env sd (Suc i) ls) (\<lambda>ls'.
     Inr (l' # ls')))"

definition hybrid_load_state_dict ::
    "('m, 'a) hybrid_env \<Rightarrow> StateDict \<Rightarrow> ('m, 'z) hybrid_model_scheme
     \<Rightarrow> ('m, 'z) hybrid_model_scheme result" where
  "hybrid_load_state_dict env sd m =
     rbind (he_load env (get_dict_with_prefix sd ''embed_tokens.'') (hm_embed_tokens m)) (\<lambda>e.
     rbind (load_layers env sd 0 (hm_layers m)) (\<lambda>ls.
     rbind (he_load env (get_dict_with_prefix sd ''norm.'') (hm_norm m)) (\<lambda>n.
     Inr (m\<lparr>hm_embed_tokens := e, hm_layers := ls, hm_norm := n\<rparr>))))"

fun verify_layers :: "('m, 'a) hybrid_env \<Rightarrow> string \<Rightarrow> nat \<Rightarrow> 'm list \<Rightarrow> unit result" where
  "verify_layers env prefx i [] = Inr ()"
| "verify_layers env prefx i (l # ls) =
     rbind (he_verify env (prefx @ layer_prefix i) l) (\<lambda>_. verify_layers env prefx (Suc i) ls)"

definition hybrid_verify_loaded_weights ::
    "('m, 'a) hybrid_env \<Rightarrow> string \<Rightarrow> ('m, 'z) hybrid_model_scheme \<Rightarrow> unit result" where
  "hybrid_verify_loaded_weights env prefx m = verify_layers env prefx 0 (hm_layers m)"

section \<open>Properties\<close>

lemma no_dot_split:
  assumes "s @ ''.'' @ r = t @ ''.'' @ r'" and "CHR ''.'' \<notin> set s" and "CHR ''.'' \<notin> set t"
  shows "s = t"
proof -
  have "takeWhile (\<lambda>x. x \<noteq> CHR ''.'') (u @ ''.'' @ v) = u" if "CHR ''.'' \<notin> set u" for u v
    using that by (induction u) auto
  then show ?thesis using assms by metis
qed

lemma layer_prefix_disjoint:
  assumes "starts_with name (p @ layer_prefix i)" and "starts_with name (p @ layer_prefix j)"
  shows "i = j"
proof -
  obtain r r' where "p @ layer_prefix i @ r = p @ layer_prefix j @ r'"
    using assms by (auto simp: starts_with_iff)
  then have "nat_string i @ ''.'' @ r = nat_string j @ ''.'' @ r'" by (simp add: layer_prefix_def)
  then have "nat_string i = nat_string j" by (rule no_dot_split[OF _ nat_string_no_dot nat_string_no_dot])
  then show ?thesis by (rule nat_string_inj)
qed

lemma load_layers_Inr:
  "load_layers env sd i ls = Inr ls' \<longleftrightarrow> length ls' = length ls \<and>
    (\<forall>k < length ls. he_load env (get_dict_with_prefix sd (layer_prefix (i + k))) (ls ! k) = Inr (ls' ! k))"
proof (induction ls arbitrary: i ls')
  case (Cons l ls)
  have "load_layers env sd i (l # ls) = Inr ls' \<longleftrightarrow>
    (\<exists>x xs. ls' = x # xs \<and> he_load env (get_dict_with_prefix sd (layer_prefix i)) l = Inr x \<and>
       load_layers env sd (Suc i) ls = Inr xs)"
    by (auto simp: rbind_eq_Inr_iff)
  also have "\<dots> \<longleftrightarrow> length ls' = length (l # ls) \<and>
    (\<forall>k < length (l # ls). he_load env (get_dict_with_prefix sd (layer_prefix (i + k))) ((l # ls) ! k) = Inr (ls' ! k))"
    unfolding Cons.IH by (cases ls') (auto simp: All_less_Suc2)
  finally show ?case .
qed auto

text \<open>
  C30: when the decoder stack is loaded from a sub-dictionary, layer \<open>i\<close> is loaded with exactly
  the tensors of the checkpoint named \<open>prefix.layers.i.*\<close>, and no tensor belongs to two layers:
  layer 1 does not see the tensors of layer 10.
\<close>

theorem layers_load_their_own:
  assumes "hybrid_load_state_dict env (get_dict_with_prefix sd p) m = Inr m'"
  shows "length (hm_layers m') = length (hm_layers m) \<and>
    (\<forall>i < length (hm_layers m).
       he_load env (get_dict_with_prefix sd (p @ layer_prefix i)) (hm_layers m ! i) = Inr (hm_layers m' ! i)) \<and>
    (\<forall>name i j. starts_with name (p @ layer_prefix i) \<and> starts_with name (p @ layer_prefix j) \<longrightarrow> i = j)"
proof -
  obtain e ls n where l: "load_layers env (get_dict_with_prefix sd p) 0 (hm_layers m) = Inr ls"
      "m' = m\<lparr>hm_embed_tokens := e, hm_layers := ls, hm_norm := n\<rparr>"
    using assms by (auto simp: hybrid_load_state_dict_def rbind_eq_Inr_iff)
  then show ?thesis
    using layer_prefix_disjoint by (auto simp: load_layers_Inr sub_sub)
qed

text \<open>Modules that record the dictionaries they were loaded from.\<close>

definition demo_hybrid_env :: "(StateDict list, unit) hybrid_env" where
  "demo_hybrid_env =
     \<lparr>he_plat = ILU, he_aten = aten_ref, he_load = (\<lambda>sd m. Inr (m @ [sd])),
      he_verify = (\<lambda>_ _. Inr ()), he_embed = (\<lambda>_ t. Inr t), he_norm = (\<lambda>_ t r. Inr (t, r)),
      he_linear = (\<lambda>_ t. Inr t), he_mrope = (\<lambda>_ _. Inr TUndef),
      he_layer = (\<lambda>_ h r p _ k _ _.
        Inr \<lparr>lo_hidden = h, lo_residual = r, lo_positions = p, lo_kv_cache = k\<rparr>),
      he_build_metadata = (\<lambda>_ _ _. Inr ()), he_prepare_mrope = (\<lambda>_ a. Inr a),
      he_dense_mask = (\<lambda>n. t_empty [n, n] kFloat), he_append_mask = (\<lambda>q _ n. t_empty [q, n] kFloat),
      he_flash = (\<lambda>_ _ _. None), he_no_tokens = (\<lambda>s. s = [0]), he_dummy_tokens = TUndef,
      he_dummy_positions = TUndef, he_synchronize_layer = (\<lambda>_. True), he_record_event = (\<lambda>_. True),
      he_index_select = (\<lambda>t _ _. Inr t), he_normalize_rows = Inr\<rparr>"

definition demo_hybrid_model :: "StateDict list hybrid_model" where
  "demo_hybrid_model = add_decoder_layer [] (add_decoder_layer []
     (hybrid_create [] [] 0 False 1 \<lparr>fc_enable_flashcomm1 = False, fc_enable_mmrs_fusion = False\<rparr>))"

definition demo_sd :: StateDict where
  "demo_sd = StateDict_of [(''model.layers.1.w'', Tn ''w'' [] [] [2] kFloat),
     (''model.layers.10.w'', Tn ''w10'' [] [] [3] kFloat)] []"

theorem layers_load_their_own_witness:
  "\<exists>m'. hybrid_load_state_dict demo_hybrid_env (get_dict_with_prefix demo_sd ''model.'') demo_hybrid_model = Inr m' \<and>
     hm_layers m' ! 1 = [get_dict_with_prefix demo_sd (''model.'' @ layer_prefix 1)]"
proof -
  obtain m' where m': "hybrid_load_state_dict demo_hybrid_env (get_dict_with_prefix demo_sd ''model.'')
      demo_hybrid_model = Inr m'"
    by (simp add: hybrid_load_state_dict_def demo_hybrid_env_def demo_hybrid_model_def add_decoder_layer_def
        hybrid_create_def)
  have len: "length (hm_layers demo_hybrid_model) = 2"
    by (simp add: demo_hybrid_model_def add_decoder_layer_def hybrid_create_def)
  have "he_load demo_hybrid_env (get_dict_with_prefix demo_sd (''model.'' @ layer_prefix 1))
      (hm_layers demo_hybrid_model ! 1) = Inr (hm_layers m' ! 1)"
    using conjunct1[OF conjunct2[OF layers_load_their_own[OF m']], rule_format, of 1] len by simp
  then show ?thesis using m'
    by (simp add: demo_hybrid_env_def demo_hybrid_model_def add_decoder_layer_def hybrid_create_def)
qed

lemma run_layers_total:
  assumes "\<And>l h r p k. \<exists>out. he_layer env l h r p meta k inp mrope = Inr out"
    and "he_plat env = NPU \<and> mi_has_synchronizer inp \<longrightarrow> (\<forall>i. he_record_event env i)"
    and "i + length ls \<le> length kvs"
  shows "\<exists>h' r' kvs'. run_layers env (\<lambda>_. True) inp meta mrope i ls h r p kvs = Inr (Some (h', r'), kvs') \<and>
    length kvs' = length kvs \<and> (\<forall>j. j < i \<or> i + length ls \<le> j \<longrightarrow> kvs' ! j = kvs ! j)"
  using assms(3)
proof (induction ls arbitrary: i h r p kvs)
  case (Cons l ls)
  obtain out where out: "he_layer env l h r p meta (kvs ! i) inp mrope = Inr out" using assms(1) by blast
  let ?kvs = "kvs[i := lo_kv_cache out]"
  have "\<not> (he_plat env = NPU \<and> mi_has_synchronizer inp \<and> \<not> he_record_event env i)" using assms(2) by blast
  moreover obtain h' r' kvs' where "run_layers env (\<lambda>_. True) inp meta mrope (Suc i) ls (lo_hidden out)
      (lo_residual out) (lo_positions out) ?kvs = Inr (Some (h', r'), kvs')"
      "length kvs' = length ?kvs" "\<forall>j. j < Suc i \<or> Suc i + length ls \<le> j \<longrightarrow> kvs' ! j = ?kvs ! j"
    using Cons.IH[of "Suc i" ?kvs "lo_hidden out" "lo_residual out" "lo_positions out"] Cons.prems by auto
  ultimately show ?case using Cons.prems out by (auto simp: Let_def)
qed simp

lemma run_layers_short:
  assumes "\<And>l h r p k. \<exists>out. he_layer env l h r p meta k inp mrope = Inr out"
    and "he_plat env = NPU \<and> mi_has_synchronizer inp \<longrightarrow> (\<forall>i. he_record_event env i)"
    and "i \<le> length kvs" and "length kvs < i + length ls"
  shows "run_layers env (\<lambda>_. True) inp meta mrope i ls h r p kvs = Inl (Undefined ''kv_caches[i]'')"
  using assms(3,4)
proof (induction ls arbitrary: i h r p kvs)
  case (Cons l ls)
  show ?case
  proof (cases "i < length kvs")
    case True
    obtain out where out: "he_layer env l h r p meta (kvs ! i) inp mrope = Inr out" using assms(1) by blast
    have "\<not> (he_plat env = NPU \<and> mi_has_synchronizer inp \<and> \<not> he_record_event env i)" using assms(2) by blast
    then show ?thesis using True out Cons.IH[of "Suc i" "kvs[i := lo_kv_cache out]"] Cons.prems
      by (auto simp: Let_def)
  next
    case False
    then show ?thesis by simp
  qed
qed simp

text \<open>
  when every layer can run and no event fails, the loop over the layers returns a result
  exactly when there is a cache for every layer, and then it has touched no cache beyond them;
  with fewer caches than layers it reads past the end of the caches, which the base model,
  unlike the draft model, does not check.
\<close>

theorem layers_need_their_caches:
  assumes "\<And>l h r p k. \<exists>out. he_layer env l h r p meta k inp mrope = Inr out"
    and "he_plat env = NPU \<and> mi_has_synchronizer inp \<longrightarrow> (\<forall>i. he_record_event env i)"
  shows "(case run_layers env (\<lambda>_. True) inp meta mrope 0 (hm_layers m) h None positions kvs of
      Inr (Some _, kvs') \<Rightarrow> length (hm_layers m) \<le> length kvs \<and> length kvs' = length kvs \<and>
        drop (length (hm_layers m)) kvs' = drop (length (hm_layers m)) kvs
    | Inr (None, _) \<Rightarrow> False
    | Inl e \<Rightarrow> e = Undefined ''kv_caches[i]'' \<and> length kvs < length (hm_layers m))"
proof (cases "length (hm_layers m) \<le> length kvs")
  case True
  then obtain h' r' kvs' where "run_layers env (\<lambda>_. True) inp meta mrope 0 (hm_layers m) h None positions kvs
      = Inr (Some (h', r'), kvs')" "length kvs' = length kvs"
      "\<forall>j. length (hm_layers m) \<le> j \<longrightarrow> kvs' ! j = kvs ! j"
    using run_layers_total[OF assms, of 0 "hm_layers m" kvs h None positions] by auto
  with True show ?thesis by (auto intro!: nth_equalityI)
next
  case False
  then show ?thesis using run_layers_short[OF assms, of 0 kvs "hm_layers m" h None positions] by simp
qed

definition demo_input :: ModelInputParams where
  "demo_input = \<lparr>mi_input_embedding = TUndef, mi_batch_forward_type = EMPTY, mi_kv_max_seq_len = 0,
     mi_num_sequences = 0, mi_is_spec_verify = False, mi_graph_attn_mask = TUndef, mi_q_seq_lens = [],
     mi_kv_seq_lens = [], mi_has_synchronizer = False\<rparr>"

theorem layers_need_their_caches_witness:
  "run_layers demo_hybrid_env (\<lambda>_. True) demo_input () TUndef 0 (hm_layers demo_hybrid_model) TUndef None TUndef []
    = Inl (Undefined ''kv_caches[i]'')"
proof -
  have total: "\<exists>out. he_layer demo_hybrid_env l h r p () k demo_input TUndef = Inr out" for l h r p k
    by (simp add: demo_hybrid_env_def)
  have "length (hm_layers demo_hybrid_model) = 2"
    by (simp add: demo_hybrid_model_def add_decoder_layer_def hybrid_create_def)
  then show ?thesis
    using layers_need_their_caches[where env = demo_hybrid_env and inp = demo_input and m = demo_hybrid_model
        and h = TUndef and positions = TUndef and kvs = "[]", OF total]
    by (auto simp: demo_input_def split: sum.splits prod.splits option.splits)
qed

end
