(* ===== verification/Hybrid_Lm.thy ===== *)
theory Hybrid_Lm
  imports Hybrid_Model
begin

text \<open>
  The causal language models over the hybrid decoder stack: hidden states to logits, and the
  loading of a checkpoint of several shards (\<^verbatim>\<open>llm/qwen3_next_hybrid_base.h\<close>), and the
  multi-token-prediction draft model (\<^verbatim>\<open>llm/qwen3_5_mtp_base.h\<close>).
\<close>

section \<open>The causal language model\<close>

record 'm causal_lm =
  cl_tie_word_embeddings :: bool
  cl_lm_head :: 'm

definition select_rows :: "('m, 'a) hybrid_env \<Rightarrow> torch \<Rightarrow> torch \<Rightarrow> torch result" where
  "select_rows env hidden_states idxes =
     (if t_defined idxes then he_index_select env hidden_states 0 idxes else Inr hidden_states)"

definition lm_logits :: "('m, 'a) hybrid_env \<Rightarrow> 'm causal_lm \<Rightarrow> torch \<Rightarrow> torch \<Rightarrow> torch result" where
  "lm_logits env lm hidden_states idxes =
     rbind (select_rows env hidden_states idxes) (he_linear env (cl_lm_head lm))"

definition lm_pooler :: "('m, 'a) hybrid_env \<Rightarrow> torch \<Rightarrow> torch \<Rightarrow> torch result" where
  "lm_pooler env hidden_states idxes =
     rbind (select_rows env hidden_states idxes) (he_normalize_rows env)"

definition has_tensor :: "aten \<Rightarrow> StateDict \<Rightarrow> string \<Rightarrow> bool result" where
  "has_tensor lib sd name = rbind (get_tensor lib sd name) (\<lambda>t. Inr (t_defined t))"

definition or_else :: "bool result \<Rightarrow> bool result \<Rightarrow> bool result" where
  "or_else p q = rbind p (\<lambda>b. if b then Inr True else q)"

text \<open>A plain or a quantised weight.\<close>

definition has_lm_head_weights :: "aten \<Rightarrow> StateDict \<Rightarrow> bool result" where
  "has_lm_head_weights lib sd = or_else (has_tensor lib sd ''weight'') (has_tensor lib sd ''qweight'')"

text \<open>The dictionary the head is loaded from.\<close>

definition head_dict :: "aten \<Rightarrow> bool \<Rightarrow> StateDict \<Rightarrow> StateDict \<Rightarrow> StateDict result" where
  "head_dict lib tie model_sd lm_head_sd =
     rbind (has_lm_head_weights lib lm_head_sd) (\<lambda>own.
     if \<not> own \<and> tie then
       let tied = get_dict_with_prefix model_sd ''embed_tokens.'' in
       rbind (has_lm_head_weights lib tied) (\<lambda>has_tied.
       Inr (if has_tied then tied else lm_head_sd))
     else Inr lm_head_sd)"

definition load_shard ::
    "('m, 'a) hybrid_env \<Rightarrow> string \<Rightarrow> string \<Rightarrow> StateDict \<Rightarrow> 'm hybrid_model \<times> 'm causal_lm
     \<Rightarrow> ('m hybrid_model \<times> 'm causal_lm) result" where
  "load_shard env model_prefix lm_head_prefix sd st =
     (case st of (m, lm) \<Rightarrow>
      let model_sd = get_dict_with_prefix sd model_prefix in
      rbind (hybrid_load_state_dict env model_sd m) (\<lambda>m'.
      rbind (head_dict (he_aten env) (cl_tie_word_embeddings lm) model_sd
               (get_dict_with_prefix sd lm_head_prefix)) (\<lambda>head_sd.
      rbind (he_load env head_sd (cl_lm_head lm)) (\<lambda>h.
      Inr (m', lm\<lparr>cl_lm_head := h\<rparr>)))))"

definition load_model ::
    "('m, 'a) hybrid_env \<Rightarrow> StateDict list \<Rightarrow> string \<Rightarrow> string \<Rightarrow> 'm hybrid_model \<times> 'm causal_lm
     \<Rightarrow> ('m hybrid_model \<times> 'm causal_lm) result" where
  "load_model env dicts model_prefix lm_head_prefix st =
     rbind (rfold (load_shard env model_prefix lm_head_prefix) dicts st) (\<lambda>(m, lm).
     rbind (hybrid_verify_loaded_weights env model_prefix m) (\<lambda>_.
     Inr (m, lm)))"

definition load_model_default ::
    "('m, 'a) hybrid_env \<Rightarrow> StateDict list \<Rightarrow> 'm hybrid_model \<times> 'm causal_lm
     \<Rightarrow> ('m hybrid_model \<times> 'm causal_lm) result" where
  "load_model_default env dicts = load_model env dicts ''model.'' ''lm_head.''"

definition qwen3_5_load_model ::
    "('m, 'a) hybrid_env \<Rightarrow> StateDict list \<Rightarrow> 'm hybrid_model \<times> 'm causal_lm
     \<Rightarrow> ('m hybrid_model \<times> 'm causal_lm) result" where
  "qwen3_5_load_model env dicts = load_model env dicts ''model.language_model.'' ''lm_head.''"

definition set_lm_head :: "'m \<Rightarrow> 'm causal_lm \<Rightarrow> 'm causal_lm" where
  "set_lm_head lm_head lm = lm\<lparr>cl_lm_head := lm_head\<rparr>"

section \<open>The draft model\<close>

record 'm mtp_model = "'m hybrid_model" +
  mt_pre_fc_norm_embedding :: 'm
  mt_pre_fc_norm_hidden :: 'm
  mt_fc :: 'm
  mt_shared_embedding_loaded :: bool
  mt_pre_fc_norm_embedding_loaded :: bool
  mt_pre_fc_norm_hidden_loaded :: bool
  mt_fc_loaded :: bool
  mt_norm_loaded :: bool

text \<open>The constructor: at least one layer; nothing is loaded yet.\<close>

definition mtp_create ::
    "(int \<Rightarrow> 'm) \<Rightarrow> 'm \<Rightarrow> 'm \<Rightarrow> 'm \<Rightarrow> int \<Rightarrow> 'm hybrid_model \<Rightarrow> 'm mtp_model" where
  "mtp_create mk norm_embedding norm_hidden fc n_layers base =
     add_layers mk (max (signed_take_bit 31 n_layers) 1)
       (hybrid_model.extend base
         \<lparr>mt_pre_fc_norm_embedding = norm_embedding, mt_pre_fc_norm_hidden = norm_hidden, mt_fc = fc,
          mt_shared_embedding_loaded = False, mt_pre_fc_norm_embedding_loaded = False,
          mt_pre_fc_norm_hidden_loaded = False, mt_fc_loaded = False, mt_norm_loaded = False\<rparr>)"

definition mtp_forward ::
    "('m, 'a) hybrid_env \<Rightarrow> torch \<Rightarrow> torch \<Rightarrow> KVCache list \<Rightarrow> ModelInputParams \<Rightarrow> 'm mtp_model
     \<Rightarrow> (torch \<times> KVCache list \<times> 'm mtp_model) result" where
  "mtp_forward env tokens0 positions0 kv_caches inp m =
     (let dummy = hm_dp_size m > 1 \<and> he_no_tokens env (t_sizes tokens0);
          tokens = (if dummy then he_dummy_tokens env else tokens0);
          positions = (if dummy then he_dummy_positions env else positions0) in
      rbind (build_attention_mask env inp m) (\<lambda>(msk, m').
      rbind (he_build_metadata env inp (hm_enable_mla m) msk) (\<lambda>meta0.
      rbind (he_prepare_mrope env positions meta0) (\<lambda>meta.
      rbind (he_embed env (hm_embed_tokens m) tokens) (\<lambda>embedding0.
      let hidden0 = (if t_defined (mi_input_embedding inp) then mi_input_embedding inp else embedding0) in
      rbind (he_norm env (mt_pre_fc_norm_embedding m) embedding0 None) (\<lambda>(embedding, _).
      rbind (he_norm env (mt_pre_fc_norm_hidden m) hidden0 None) (\<lambda>(hidden, _).
      rbind (at_cat (he_aten env) [embedding, hidden] (-1)) (\<lambda>both.
      rbind (he_linear env (mt_fc m) both) (\<lambda>mtp_hidden.
      rbind (check (length kv_caches = length (hm_layers m)) ''kv_caches.size() == layers_.size()'') (\<lambda>_.
      rbind (first_mrope env positions (hm_layers m)) (\<lambda>mrope.
      rbind (run_layers env (he_synchronize_layer env) inp meta mrope 0 (hm_layers m) mtp_hidden None
               positions kv_caches) (\<lambda>(out, kv_caches').
      case out of
        None \<Rightarrow> Inr (TUndef, kv_caches', m')
      | Some (h, residual) \<Rightarrow>
          rbind (he_norm env (hm_norm m) h residual) (\<lambda>(hidden', _).
          Inr (hidden', kv_caches', m'))))))))))))))"

definition load_shared_embeddings ::
    "('m, 'a) hybrid_env \<Rightarrow> StateDict \<Rightarrow> 'm mtp_model \<Rightarrow> 'm mtp_model result" where
  "load_shared_embeddings env sd m =
     (let esd = get_dict_with_prefix sd ''embed_tokens.'' in
      rbind (has_tensor (he_aten env) esd ''weight'') (\<lambda>found.
      rbind (he_load env esd (hm_embed_tokens m)) (\<lambda>e.
      Inr (m\<lparr>mt_shared_embedding_loaded := mt_shared_embedding_loaded m \<or> found,
             hm_embed_tokens := e\<rparr>))))"

definition load_mtp_state_dict ::
    "('m, 'a) hybrid_env \<Rightarrow> StateDict \<Rightarrow> 'm mtp_model \<Rightarrow> 'm mtp_model result" where
  "load_mtp_state_dict env sd m =
     rbind (has_tensor (he_aten env) sd ''pre_fc_norm_embedding.weight'') (\<lambda>b1.
     rbind (has_tensor (he_aten env) sd ''pre_fc_norm_hidden.weight'') (\<lambda>b2.
     rbind (or_else (has_tensor (he_aten env) sd ''fc.weight'')
                    (has_tensor (he_aten env) sd ''fc.qweight'')) (\<lambda>b3.
     rbind (has_tensor (he_aten env) sd ''norm.weight'') (\<lambda>b4.
     rbind (he_load env (get_dict_with_prefix sd ''pre_fc_norm_embedding.'')
              (mt_pre_fc_norm_embedding m)) (\<lambda>pe.
     rbind (he_load env (get_dict_with_prefix sd ''pre_fc_norm_hidden.'')
              (mt_pre_fc_norm_hidden m)) (\<lambda>ph.
     rbind (he_load env (get_dict_with_prefix sd ''fc.'') (mt_fc m)) (\<lambda>f.
     rbind (load_layers env sd 0 (hm_layers m)) (\<lambda>ls.
     rbind (he_load env (get_dict_with_prefix sd ''norm.'') (hm_norm m)) (\<lambda>n.
     Inr (m\<lparr>mt_pre_fc_norm_embedding_loaded := mt_pre_fc_norm_embedding_loaded m \<or> b1,
            mt_pre_fc_norm_hidden_loaded := mt_pre_fc_norm_hidden_loaded m \<or> b2,
            mt_fc_loaded := mt_fc_loaded m \<or> b3, mt_norm_loaded := mt_norm_loaded m \<or> b4,
            mt_pre_fc_norm_embedding := pe, mt_pre_fc_norm_hidden := ph, mt_fc := f,
            hm_layers := ls, hm_norm := n\<rparr>))))))))))"

definition mtp_load_state_dict ::
    "('m, 'a) hybrid_env \<Rightarrow> StateDict \<Rightarrow> 'm mtp_model \<Rightarrow> 'm mtp_model result" where
  "mtp_load_state_dict env sd m = rbind (load_shared_embeddings env sd m) (load_mtp_state_dict env sd)"









section \<open>Which weights a shard has\<close>









section \<open>Loading the draft\<close>





















end
