(* ===== verification/Gdn_Metadata.thy ===== *)
theory Gdn_Metadata
  imports Complex_Main Hybrid_Model
begin

text \<open>
  The metadata of the gated-delta-net layers (\<^verbatim>\<open>get_attention_metadata\<close> in
  \<^verbatim>\<open>ex_engine/xllm_models/vlm/qwen3_5.h\<close>): from the cumulative lengths of the sequences of a prefill
  batch, the table of blocks of 64 tokens (sequence and block number) and the chunk indices of
  the chunked kernel. Tensors are one-dimensional lists of integers here; the operations
  of the tensor library on them are a parameter, their documented results the laws of the
  locale \<open>int_tensors_laws\<close>. The lengths are 32-bit integers and their division is the true
  division of the tensor library, in \<^verbatim>\<open>float32\<close> with the result cut to an integer: it counts
  the blocks of a sequence up to $2^{24}$ tokens only.
\<close>

section \<open>True division of integers\<close>

text \<open>The nearest \<^verbatim>\<open>float32\<close> of an integer: 24 significant bits, ties to even.\<close>

function f32_shift :: "int \<Rightarrow> nat" where
  "f32_shift m = (if m < 2 ^ 24 then 0 else Suc (f32_shift (m div 2)))"
  by auto
termination
  by (relation "measure nat") (simp, simp add: nat_less_eq_zless)

declare f32_shift.simps [simp del]

definition f32_round :: "int \<Rightarrow> int" where
  "f32_round n =
     (let m = \<bar>n\<bar>; unit = 2 ^ f32_shift m; q = m div unit; r = m mod unit;
          q' = (if 2 * r < unit \<or> 2 * r = unit \<and> even q then q else q + 1) in
      (if n < 0 then - (q' * unit) else q' * unit))"

lemma f32_round_small: "\<bar>n\<bar> \<le> 2 ^ 24 \<Longrightarrow> f32_round n = n"
proof -
  assume n: "\<bar>n\<bar> \<le> 2 ^ 24"
  define m where "m = \<bar>n\<bar>"
  have "f32_round n = (if n < 0 then - m else m)"
  proof (cases "m = 2 ^ 24")
    case True
    have "f32_shift m = 1"
      unfolding True by (subst f32_shift.simps, subst f32_shift.simps) simp
    then show ?thesis unfolding f32_round_def Let_def m_def [symmetric] by (simp add: True)
  next
    case False
    with n have "f32_shift m = 0" by (subst f32_shift.simps) (simp add: m_def)
    then show ?thesis unfolding f32_round_def Let_def m_def [symmetric] by simp
  qed
  then show ?thesis by (simp add: m_def)
qed

text \<open>
  \<^verbatim>\<open>(n + size - 1) / size\<close> on a 32-bit tensor, then \<^verbatim>\<open>.to(kLong)\<close>; dividing by a power of two
  does not round again.
\<close>

definition true_ceil_div :: "int \<Rightarrow> int \<Rightarrow> int" where
  "true_ceil_div n block =
     f32_round (signed_take_bit 31 (signed_take_bit 31 (n + block) - 1)) sdiv block"

section \<open>Integer tensors\<close>

fun running_sums :: "int \<Rightarrow> int list \<Rightarrow> int list" where
  "running_sums s [] = []"
| "running_sums s (x # xs) = (s + x) # running_sums (s + x) xs"

record int_tensors =
  it_diff :: "int list \<Rightarrow> int list"
  it_cumsum :: "int list \<Rightarrow> int list"
  it_repeat_interleave :: "int list \<Rightarrow> int list \<Rightarrow> int list result"
  it_arange :: "int \<Rightarrow> int list result"
  it_cat :: "int list list \<Rightarrow> int list result"
  it_full :: "int \<Rightarrow> int \<Rightarrow> int list result"
  it_copy_front :: "int list \<Rightarrow> int list \<Rightarrow> int list result"

locale int_tensors_laws =
  fixes it :: int_tensors
  assumes diff_law: "it_diff it xs = map2 (\<lambda>a b. b - a) xs (tl xs)"
    and cumsum_law: "it_cumsum it xs = running_sums 0 xs"
    and repeat_law: "length xs = length ns \<Longrightarrow> list_all (\<lambda>n. 0 \<le> n) ns \<Longrightarrow>
      it_repeat_interleave it xs ns = Inr (concat (map2 (\<lambda>x n. replicate (nat n) x) xs ns))"
    and arange_law: "0 \<le> n \<Longrightarrow> it_arange it n = Inr [0..n - 1]"
    and cat_law: "xss \<noteq> [] \<Longrightarrow> it_cat it xss = Inr (concat xss)"
    and full_law: "0 \<le> n \<Longrightarrow> it_full it n v = Inr (replicate (nat n) v)"
    and copy_law: "length src \<le> length buf \<Longrightarrow> it_copy_front it buf src = Inr (src @ drop (length src) buf)"

section \<open>The tables\<close>

record gdn_tables =
  gt_tot :: int
  gt_batch :: "int list"
  gt_token_block_offset :: "int list"
  gt_chunk_indices :: "(int \<times> int) list"

definition kBlockM :: int where "kBlockM = 64"

definition pad_slot_id :: int where "pad_slot_id = -1"

definition default_max_num_programs :: int where "default_max_num_programs = 1024"

definition chunk_size :: int where "chunk_size = 64"

text \<open>The block tables, padded to twice the number of programs.\<close>

definition block_tables :: "int_tensors \<Rightarrow> int list \<Rightarrow> (int \<times> int list \<times> int list) result" where
  "block_tables it seqlens =
     (let nums = map (\<lambda>n. true_ceil_div n kBlockM) seqlens;
          tot = signed_take_bit 31 (sum_list nums) in
      rbind (it_arange it (int (length nums))) (\<lambda>range_batch.
      rbind (it_repeat_interleave it range_batch nums) (\<lambda>mlist.
      let max_num_programs = max default_max_num_programs (int (length mlist)) * 2 in
      rbind (it_full it max_num_programs pad_slot_id) (\<lambda>batch_ptr.
      rbind (it_full it max_num_programs pad_slot_id) (\<lambda>token_block_offset_ptr.
      rbind (rmap (it_arange it) nums) (\<lambda>vec.
      rbind (it_cat it vec) (\<lambda>offsetlist.
      rbind (it_copy_front it batch_ptr mlist) (\<lambda>batch.
      rbind (it_copy_front it token_block_offset_ptr offsetlist) (\<lambda>token_block_offset.
      Inr (tot, batch, token_block_offset))))))))))"

text \<open>The chunk indices: the second column counts within a sequence, the first its zeros.\<close>

definition chunk_table :: "int_tensors \<Rightarrow> int list \<Rightarrow> (int \<times> int) list result" where
  "chunk_table it seqlens =
     (let num_chunks = map (\<lambda>n. true_ceil_div n chunk_size) seqlens;
          cumsum = it_cumsum it num_chunks in
      if cumsum = [] then Inl (Exn ''index -1 is out of bounds'')
      else
        let total_chunks = last cumsum in
        rbind (it_arange it total_chunks) (\<lambda>arange_total.
        rbind (it_cat it [[0], butlast cumsum]) (\<lambda>prefx.
        rbind (it_repeat_interleave it prefx num_chunks) (\<lambda>repeats_prefix.
        if length repeats_prefix \<noteq> length arange_total then Inl (Exn ''size mismatch'')
        else
          let indices = map2 (-) arange_total repeats_prefix;
              msk = map (\<lambda>i. if i = 0 then 1 else 0) indices;
              col0 = map (\<lambda>c. c - 1) (it_cumsum it msk) in
          Inr (zip col0 indices)))))"

definition gdn_metadata :: "int_tensors \<Rightarrow> BatchForwardType \<Rightarrow> int list \<Rightarrow> gdn_tables option result" where
  "gdn_metadata it forward_type q_cu_seq_lens =
     (if forward_type = PREFILL \<or> forward_type = CHUNKED_PREFILL then
        let seqlens = it_diff it q_cu_seq_lens in
        rbind (block_tables it seqlens) (\<lambda>(tot, batch, token_block_offset).
        rbind (chunk_table it seqlens) (\<lambda>chunk_indices.
        Inr (Some \<lparr>gt_tot = tot, gt_batch = batch, gt_token_block_offset = token_block_offset,
                   gt_chunk_indices = chunk_indices\<rparr>)))
      else Inr None)"

section \<open>The blocks of a batch\<close>

text \<open>The specification: all blocks of all sequences, numbered from \<open>i\<close>, in order.\<close>

definition blocks_of :: "int \<Rightarrow> int" where
  "blocks_of n = (n + 63) div 64"

fun block_list :: "int \<Rightarrow> int list \<Rightarrow> (int \<times> int) list" where
  "block_list i [] = []"
| "block_list i (n # ns) = map (Pair i) [0..blocks_of n - 1] @ block_list (i + 1) ns"

lemma blocks_of_nonneg: "0 \<le> n \<Longrightarrow> 0 \<le> blocks_of n"
  by (simp add: blocks_of_def)

lemma blocks_of_pos: "0 < n \<Longrightarrow> 0 < blocks_of n"
  by (simp add: blocks_of_def pos_imp_zdiv_pos_iff)

text \<open>The lengths whose blocks the floating-point division counts.\<close>

definition len_ok :: "int \<Rightarrow> bool" where
  "len_ok n \<longleftrightarrow> 0 \<le> n \<and> n + 63 \<le> 2 ^ 24"

lemma len_ok_nonneg: "list_all len_ok ns \<Longrightarrow> list_all (\<lambda>n. 0 \<le> n) ns"
  by (auto simp: list_all_iff len_ok_def)

lemma true_ceil_div_64: "len_ok n \<Longrightarrow> true_ceil_div n 64 = blocks_of n"
  by (simp add: true_ceil_div_def len_ok_def blocks_of_def signed_take_bit_int_eq_self f32_round_small c_arith)

lemma block_count: "len_ok n \<Longrightarrow> true_ceil_div n kBlockM = blocks_of n"
  "len_ok n \<Longrightarrow> true_ceil_div n chunk_size = blocks_of n"
  by (simp_all add: kBlockM_def chunk_size_def true_ceil_div_64)

text \<open>
  Beyond, the rounding counts a block too many: $2^{24}$ tokens fill 262144 blocks.
\<close>

lemma long_sequence_extra_block:
  "true_ceil_div 16777216 chunk_size = 262145" "blocks_of 16777216 = 262144"
  by code_simp+

lemma length_block_list:
  "list_all (\<lambda>n. 0 \<le> n) ns \<Longrightarrow> int (length (block_list i ns)) = sum_list (map blocks_of ns)"
  by (induction ns arbitrary: i) (simp_all add: blocks_of_nonneg)

text \<open>The reference instance of the tensor operations.\<close>

definition it_ref :: int_tensors where
  "it_ref = \<lparr>it_diff = (\<lambda>xs. map2 (\<lambda>a b. b - a) xs (tl xs)),
     it_cumsum = running_sums 0,
     it_repeat_interleave = (\<lambda>xs ns.
       if length xs \<noteq> length ns then Inl (Exn ''repeats must have the same size as input'')
       else if list_all (\<lambda>n. 0 \<le> n) ns
       then Inr (concat (map2 (\<lambda>x n. replicate (nat n) x) xs ns))
       else Inl (Exn ''repeats can not be negative'')),
     it_arange = (\<lambda>n. if 0 \<le> n then Inr [0..n - 1] else Inl (Exn ''arange'')),
     it_cat = (\<lambda>xss. if xss = [] then Inl (Exn ''expected a non-empty list of Tensors'')
       else Inr (concat xss)),
     it_full = (\<lambda>n v. if 0 \<le> n then Inr (replicate (nat n) v) else Inl (Exn ''negative size'')),
     it_copy_front = (\<lambda>buf src. if length src \<le> length buf
       then Inr (src @ drop (length src) buf) else Inl (Exn ''narrow''))\<rparr>"

lemma batch_column:
  "list_all (\<lambda>n. 0 \<le> n) ns \<Longrightarrow>
    concat (map2 (\<lambda>x n. replicate (nat n) x) [i..i + int (length ns) - 1] (map blocks_of ns))
    = map fst (block_list i ns)"
proof (induction ns arbitrary: i)
  case (Cons n ns)
  have "[i..i + int (length (n # ns)) - 1] = i # [i + 1..(i + 1) + int (length ns) - 1]"
    by (simp add: upto_rec1 algebra_simps)
  moreover have "replicate (nat (blocks_of n)) i = map fst (map (Pair i) [0..blocks_of n - 1])"
    by (simp add: o_def map_replicate_const)
  ultimately show ?case using Cons.IH [of "i + 1"] Cons.prems by (simp del: of_nat_Suc)
qed simp

lemma offset_column:
  "concat (map (\<lambda>n. [0..blocks_of n - 1]) ns) = map snd (block_list i ns)"
  by (induction ns arbitrary: i) (auto simp: o_def)

lemma last_running_sums: "xs \<noteq> [] \<Longrightarrow> last (running_sums s xs) = s + sum_list xs"
proof (induction xs arbitrary: s)
  case (Cons x xs) then show ?case by (cases xs) simp_all
qed simp

lemma length_running_sums [simp]: "length (running_sums s xs) = length xs"
  by (induction xs arbitrary: s) simp_all

lemma running_sums_empty [simp]: "running_sums s xs = [] \<longleftrightarrow> xs = []"
  by (cases xs) simp_all

lemma running_sums_append:
  "running_sums s (xs @ ys) = running_sums s xs @ running_sums (s + sum_list xs) ys"
  by (induction xs arbitrary: s) (simp_all add: algebra_simps)

lemma running_sums_zeros: "running_sums s (replicate n 0) = replicate n s"
  by (induction n) simp_all

lemma zip_minus_const: "map2 (-) [s..s + n - 1] (replicate (nat n) s) = [0..n - 1]" if "0 \<le> n" for s n :: int
  using that by (intro nth_equalityI) (simp_all)

lemma prefix_differences:
  "list_all (\<lambda>n. 0 \<le> n) ns \<Longrightarrow>
   map2 (-) [s..s + sum_list ns - 1]
     (concat (map2 (\<lambda>x n. replicate (nat n) x) (butlast (s # running_sums s ns)) ns))
   = concat (map (\<lambda>n. [0..n - 1]) ns)"
proof (induction ns arbitrary: s)
  case (Cons n ns)
  have n: "0 \<le> n" and tot: "0 \<le> sum_list ns"
    using Cons.prems by (auto simp: list_all_iff intro: sum_list_nonneg)
  have "[s..s + sum_list (n # ns) - 1] = [s..s + n - 1] @ [s + n..(s + n) + sum_list ns - 1]"
    using n tot upto_split1 [of s "s + n" "s + n + sum_list ns - 1"] 
    by (cases "sum_list ns = 0") (simp_all add: algebra_simps)
  moreover have "length [s..s + n - 1] = length (replicate (nat n) s)" using n by simp
  moreover note zip_minus_const [OF n, of s] Cons.IH [of "s + n"]
  ultimately show ?case using Cons.prems by (simp add: zip_append algebra_simps)
qed simp

definition zero_mark :: "int \<Rightarrow> int" where
  "zero_mark i = (if i = 0 then 1 else 0)"

lemma zero_marks:
  assumes "0 < n"
  shows "map zero_mark [0..n - 1] = 1 # replicate (nat (n - 1)) 0"
proof -
  have "map zero_mark [1..n - 1] = map (\<lambda>_. 0) [1..n - 1]"
    by (rule map_cong) (auto simp: zero_mark_def)
  then show ?thesis
    using assms by (simp add: upto_rec1 zero_mark_def map_replicate_const)
qed

lemma sequence_column:
  "list_all (\<lambda>n. 0 \<le> n) ns \<Longrightarrow>
   map (\<lambda>c. c - 1) (running_sums k (map zero_mark (concat (map (\<lambda>n. [0..blocks_of n - 1]) ns))))
   = map fst (block_list k (filter (\<lambda>n. 0 < n) ns))"
proof (induction ns arbitrary: k)
  case (Cons n ns)
  show ?case
  proof (cases "0 < n")
    case True
    have pos: "0 < blocks_of n" using True by (rule blocks_of_pos)
    have "running_sums k (map zero_mark [0..blocks_of n - 1]) = replicate (nat (blocks_of n)) (k + 1)"
      using pos by (simp add: zero_marks running_sums_zeros nat_diff_distrib
          flip: replicate_Suc) 
    moreover have "sum_list (map zero_mark [0..blocks_of n - 1]) = 1"
      using pos by (simp add: zero_marks sum_list_replicate)
    moreover have "map fst (map (Pair k) [0..blocks_of n - 1]) = replicate (nat (blocks_of n)) k"
      using pos by (simp add: o_def map_replicate_const)
    ultimately show ?thesis
      using Cons.IH [of "k + 1"] Cons.prems True by (simp add: running_sums_append)
  next
    case False
    then show ?thesis using Cons by (simp add: blocks_of_def)
  qed
qed simp

lemma length_repeats:
  "length xs = length ns \<Longrightarrow> list_all (\<lambda>n. 0 \<le> n) ns \<Longrightarrow>
    int (length (concat (map2 (\<lambda>x n. replicate (nat n) x) xs ns))) = sum_list ns"
  by (induction xs ns rule: list_induct2) simp_all

context int_tensors_laws
begin

lemma block_table_lists:
  assumes "list_all len_ok lens" "lens \<noteq> []"
  defines "bl \<equiv> block_list 0 lens"
  shows "block_tables it lens =
    Inr (signed_take_bit 31 (int (length bl)),
         map fst bl @ replicate (2 * max 1024 (length bl) - length bl) (-1),
         map snd bl @ replicate (2 * max 1024 (length bl) - length bl) (-1))"
proof -
  note lens = len_ok_nonneg [OF assms(1)]
  have nums: "map (\<lambda>n. true_ceil_div n kBlockM) lens = map blocks_of lens"
    using assms(1) by (auto simp: list_all_iff block_count)
  have nonneg: "list_all (\<lambda>n. 0 \<le> n) (map blocks_of lens)"
    using lens by (auto simp: list_all_iff blocks_of_nonneg)
  have bufs: "nat (max 1024 (int (length bl)) * 2) = 2 * max 1024 (length bl)" by linarith
  have vec: "rmap (it_arange it) (map blocks_of lens) = Inr (map (\<lambda>n. [0..blocks_of n - 1]) lens)"
    using nonneg by (induction lens) (simp_all add: arange_law)
  have batch: "it_repeat_interleave it [0..int (length lens) - 1] (map blocks_of lens) = Inr (map fst bl)"
    using nonneg batch_column [OF lens, of 0] by (simp add: repeat_law bl_def)
  have offset: "concat (map (\<lambda>n. [0..blocks_of n - 1]) lens) = map snd bl"
    unfolding bl_def by (rule offset_column)
  have count: "sum_list (map blocks_of lens) = int (length bl)"
    unfolding bl_def by (rule length_block_list [OF lens, symmetric])
  show ?thesis
    unfolding block_tables_def nums using assms(2)
    by (simp add: Let_def arange_law vec batch cat_law full_law copy_law bufs count offset
        default_max_num_programs_def pad_slot_id_def)
qed

lemma chunk_table_list:
  assumes "list_all len_ok lens" "lens \<noteq> []"
  shows "chunk_table it lens = Inr (zip (map fst (block_list 0 (filter (\<lambda>n. 0 < n) lens)))
           (map snd (block_list 0 lens)))"
proof -
  define ns where "ns = map blocks_of lens"
  define reps where "reps = concat (map2 (\<lambda>x n. replicate (nat n) x) (butlast (0 # running_sums 0 ns)) ns)"
  note lens = len_ok_nonneg [OF assms(1)]
  have nums: "map (\<lambda>n. true_ceil_div n chunk_size) lens = ns"
    using assms(1) by (auto simp: ns_def list_all_iff block_count)
  have ns: "list_all (\<lambda>n. 0 \<le> n) ns" "ns \<noteq> []"
    using lens assms(2) by (auto simp: ns_def list_all_iff blocks_of_nonneg)
  then have tot: "0 \<le> sum_list ns" by (auto simp: list_all_iff intro: sum_list_nonneg)
  have prefx: "it_cat it [[0], butlast (running_sums 0 ns)] = Inr (butlast (0 # running_sums 0 ns))"
    using ns by (simp add: cat_law)
  have reps: "it_repeat_interleave it (butlast (0 # running_sums 0 ns)) ns = Inr reps"
    unfolding reps_def using ns by (intro repeat_law) simp_all
  have len: "length reps = length [0..sum_list ns - 1]"
  proof -
    have "int (length reps) = sum_list ns"
      unfolding reps_def using ns by (intro length_repeats) simp_all
    then show ?thesis using tot by simp
  qed
  have offset: "map2 (-) [0..sum_list ns - 1] reps = concat (map (\<lambda>n. [0..blocks_of n - 1]) lens)"
    using prefix_differences [OF ns(1), of 0] by (simp add: reps_def ns_def o_def)
  have marks: "map (\<lambda>i. if i = 0 then 1 else 0) = map zero_mark"
    by (simp add: zero_mark_def fun_eq_iff)
  show ?thesis
    unfolding chunk_table_def nums using ns tot len sequence_column [OF lens, of 0]
      offset_column [of lens 0]
    by (simp add: Let_def cumsum_law arange_law prefx reps last_running_sums offset marks
        del: butlast.simps)
qed

end

interpretation it_ref: int_tensors_laws it_ref
  by unfold_locales (simp_all add: it_ref_def)

lemma differences_of_sums:
  "map2 (\<lambda>a b. b - a) (s # running_sums s ns) (running_sums s ns) = ns"
  by (induction ns arbitrary: s) simp_all

text \<open>
  C31: from the cumulative lengths of a prefill batch of sequences below $2^{24}$ tokens (where the
  floating-point division is exact) the model computes the table of all blocks of 64 tokens, as two columns (sequence, block of the sequence) padded with -1 to twice
  the number of programs, and the number of blocks. The block column of the chunk indices is the
  same, but its sequence column numbers the sequences that have tokens only.
\<close>

theorem gdn_prefill_tables:
  assumes "int_tensors_laws it" and "forward_type = PREFILL \<or> forward_type = CHUNKED_PREFILL"
    and "list_all (\<lambda>n. 0 \<le> n \<and> n + 63 \<le> 2 ^ 24) lens" and "lens \<noteq> []"
    and "bl = block_list 0 lens" and "length bl < 2 ^ 31"
    and "pad = replicate (2 * max 1024 (length bl) - length bl) (-1)"
  shows "gdn_metadata it forward_type (0 # running_sums 0 lens) =
    Inr (Some \<lparr>gt_tot = int (length bl), gt_batch = map fst bl @ pad,
      gt_token_block_offset = map snd bl @ pad,
      gt_chunk_indices = zip (map fst (block_list 0 (filter (\<lambda>n. 0 < n) lens))) (map snd bl)\<rparr>)"
proof -
  have fine: "list_all len_ok lens" using assms(3) by (simp add: list_all_iff len_ok_def)
  have lens: "it_diff it (0 # running_sums 0 lens) = lens"
    using differences_of_sums [of 0 lens] by (simp add: int_tensors_laws.diff_law [OF assms(1)])
  have tot: "signed_take_bit 31 (int (length bl)) = int (length bl)"
    using assms(6) by (intro signed_take_bit_int_eq_self) simp_all
  show ?thesis
    using int_tensors_laws.block_table_lists [OF assms(1) fine assms(4)]
      int_tensors_laws.chunk_table_list [OF assms(1) fine assms(4)] assms(2) tot
    by (simp add: gdn_metadata_def lens flip: assms(5,7))
qed

theorem gdn_prefill_tables_witness:
  "gdn_metadata it_ref PREFILL [0, 0, 70, 80] =
    Inr (Some \<lparr>gt_tot = 3, gt_batch = [1, 1, 2] @ replicate 2045 (-1),
      gt_token_block_offset = [0, 1, 0] @ replicate 2045 (-1),
      gt_chunk_indices = [(0, 0), (0, 1), (1, 0)]\<rparr>)"
  using gdn_prefill_tables [OF it_ref.int_tensors_laws_axioms, of PREFILL "[0, 70, 10]", OF _ _ _ refl _ refl]
  by (simp add: blocks_of_def upto_rec1)

end
