(* ===== verification/Ilu_Attention.thy ===== *)
theory Ilu_Attention
  imports Ilu_Kernels
begin

text \<open>
  Attention in the Iluvatar build: the three attention wrappers around the ixformer library
  (\<^verbatim>\<open>ex_engine/csrc/ilu_kernel_attention.cpp\<close>) and the attention layer that writes new keys and
  values into the paged cache and runs the prefill or the decode kernel
  (\<^verbatim>\<open>ex_engine/csrc/ilu_layer_attention.cpp\<close>). The tensors of the layer's cache are passed in and
  returned as the kernels have written them; a query reassigned by reference is returned too.
\<close>

section \<open>The wrappers\<close>

text \<open>\<open>stride0\<close> is the stride of the first dimension.\<close>

definition ilu_reshape_paged_cache ::
    "aten \<Rightarrow> ixformer \<Rightarrow> (torch \<Rightarrow> int) \<Rightarrow> torch \<Rightarrow> torch option \<Rightarrow> torch \<Rightarrow> torch option \<Rightarrow> torch
     \<Rightarrow> torch list result" where
  "ilu_reshape_paged_cache lib infer stride0 key v key_cache value_cache slot_mapping =
     (let value' = value_or_undef v;
          value_cache' = value_or_undef value_cache;
          value_token_stride = (if t_defined value' then stride0 value' else 0) in
      rbind (at_to lib slot_mapping kLong) (\<lambda>slots.
      infer ''xllm_reshape_and_cache'' [key_cache, value_cache']
        [KT key, KT value', KT slots, KI (stride0 key), KI value_token_stride]))"

text \<open>The bias, the quantisation scales, the type name and \<open>return_lse\<close> are not used.\<close>

definition ilu_batch_prefill ::
    "ixformer \<Rightarrow> torch \<Rightarrow> torch \<Rightarrow> torch option \<Rightarrow> torch \<Rightarrow> torch option \<Rightarrow> torch option \<Rightarrow> torch option
     \<Rightarrow> torch option \<Rightarrow> torch option \<Rightarrow> torch option \<Rightarrow> torch option \<Rightarrow> torch option \<Rightarrow> torch
     \<Rightarrow> int \<Rightarrow> int \<Rightarrow> rat \<Rightarrow> bool \<Rightarrow> int \<Rightarrow> int \<Rightarrow> string \<Rightarrow> bool \<Rightarrow> torch list result" where
  "ilu_batch_prefill infer query key v output output_lse q_cu_seq_lens kv_cu_seq_lens alibi_slope
       attn_bias q_quant_scale k_quant_scale v_quant_scale block_tables max_query_len max_seq_len
       scale is_causal window_size_left window_size_right compute_dtype return_lse =
     rbind (opt_value v) (\<lambda>value'.
     infer ''ixinfer_flash_attn_unpad_with_block_tables'' [output]
       [KT query, KT key, KT value', KT block_tables, KT (value_or_undef q_cu_seq_lens),
        KT (value_or_undef kv_cu_seq_lens), KI max_query_len, KI max_seq_len, KB is_causal,
        KI window_size_left, KI window_size_right, KR scale, KR 0, KB False, KO alibi_slope,
        KO None, KO output_lse])"

text \<open>A tensor of four dimensions with the first two joined.\<close>

definition join_leading :: "aten \<Rightarrow> torch \<Rightarrow> torch result" where
  "join_leading lib t =
     (if t_dim t = 4 then
        rbind (t_size t 0) (\<lambda>a. rbind (t_size t 1) (\<lambda>b. rbind (t_size t 2) (\<lambda>c. rbind (t_size t 3) (\<lambda>d.
        at_view lib t [a * b, c, d]))))
      else Inr t)"

definition ilu_batch_decode ::
    "aten \<Rightarrow> ixformer \<Rightarrow> torch \<Rightarrow> torch \<Rightarrow> torch \<Rightarrow> torch \<Rightarrow> torch \<Rightarrow> torch option \<Rightarrow> torch option
     \<Rightarrow> torch option \<Rightarrow> torch option \<Rightarrow> torch option \<Rightarrow> torch option \<Rightarrow> torch option \<Rightarrow> torch option
     \<Rightarrow> string \<Rightarrow> int \<Rightarrow> int \<Rightarrow> int \<Rightarrow> rat \<Rightarrow> bool \<Rightarrow> bool \<Rightarrow> int \<Rightarrow> (torch \<times> torch list) result" where
  "ilu_batch_decode lib infer query k_cache output block_table seq_lens v_cache output_lse
       q_quant_scale k_cache_quant_scale v_cache_quant_scale out_quant_scale alibi_slope msk
       compute_dtype max_seq_len window_size_left window_size_right scale return_lse is_causal
       kv_cache_quant_bit_size =
     rbind (join_leading lib query) (\<lambda>query'.
     rbind (join_leading lib output) (\<lambda>output'.
     rbind (t_size k_cache 1) (\<lambda>num_kv_heads.
     rbind (t_size k_cache 2) (\<lambda>page_block_size.
     rbind (infer ''xllm_paged_attention'' [output']
       [KT query', KT k_cache, KT (value_or_undef v_cache), KI num_kv_heads, KR scale,
        KT block_table, KT seq_lens, KI page_block_size, KI max_seq_len, KO alibi_slope,
        KB is_causal, KI (signed_take_bit 31 window_size_left),
        KI (signed_take_bit 31 window_size_right), KR 0, KB False, KB False, KO None]) (\<lambda>outs.
     Inr (query', outs))))))"

section \<open>The layer\<close>

record AttentionImpl =
  al_num_heads :: int
  al_head_size :: int
  al_scale :: rat
  al_num_kv_heads :: int
  al_v_head_dim :: int
  al_use_fused_mla_qkv :: bool
  al_enable_lighting_indexer :: bool
  al_enable_mla :: bool
  al_sliding_window :: int

text \<open>The general constructor, and the one for layers without latent attention.\<close>

definition AttentionImpl_create_mla ::
    "int \<Rightarrow> int \<Rightarrow> int \<Rightarrow> int \<Rightarrow> int \<Rightarrow> rat \<Rightarrow> bool \<Rightarrow> bool \<Rightarrow> bool \<Rightarrow> AttentionImpl" where
  "AttentionImpl_create_mla num_heads head_size num_kv_heads v_head_dim sliding_window scale
       use_fused_mla_qkv enable_lighting_indexer enable_mla =
     \<lparr>al_num_heads = num_heads, al_head_size = head_size, al_scale = scale,
      al_num_kv_heads = num_kv_heads, al_v_head_dim = v_head_dim,
      al_use_fused_mla_qkv = use_fused_mla_qkv,
      al_enable_lighting_indexer = enable_lighting_indexer, al_enable_mla = enable_mla,
      al_sliding_window = (if sliding_window > -1 then sliding_window - 1 else sliding_window)\<rparr>"

definition AttentionImpl_create :: "int \<Rightarrow> int \<Rightarrow> rat \<Rightarrow> int \<Rightarrow> int \<Rightarrow> AttentionImpl" where
  "AttentionImpl_create num_heads head_size scale num_kv_heads sliding_window =
     \<lparr>al_num_heads = num_heads, al_head_size = head_size, al_scale = scale,
      al_num_kv_heads = num_kv_heads, al_v_head_dim = head_size, al_use_fused_mla_qkv = False,
      al_enable_lighting_indexer = False, al_enable_mla = False,
      al_sliding_window = (if sliding_window > -1 then sliding_window - 1 else sliding_window)\<rparr>"

text \<open>The fields of the attention metadata the layer reads.\<close>

record AttentionMetadata =
  am_q_cu_seq_lens :: torch
  am_kv_cu_seq_lens :: torch
  am_kv_seq_lens :: torch
  am_block_table :: torch
  am_slot_mapping :: torch
  am_max_query_len :: int
  am_max_seq_len :: int
  am_compute_dtype :: string
  am_is_prefill :: bool
  am_is_chunked_prefill :: bool
  am_is_dummy :: bool
  am_is_causal :: bool
  am_attn_mask :: torch

record attn_env =
  ae_aten :: aten
  ae_infer :: ixformer
  ae_stride0 :: "torch \<Rightarrow> int"

text \<open>The kernel interface of the build, as far as the layer calls it.\<close>

definition attn_run :: "attn_env \<Rightarrow> backends" where
  "attn_run env name args =
     (if name = ''ilu::reshape_paged_cache'' then
        (case args of
            [KT key, KO v, KT k_cache, KO v_cache, KT slots] \<Rightarrow>
            ilu_reshape_paged_cache (ae_aten env) (ae_infer env) (ae_stride0 env) key v k_cache v_cache slots
          | _ \<Rightarrow> Inl (Undefined name))
      else Inl (Undefined name))"

definition prefill_forward ::
    "attn_env \<Rightarrow> AttentionImpl \<Rightarrow> torch \<Rightarrow> torch \<Rightarrow> torch \<Rightarrow> torch option \<Rightarrow> AttentionMetadata
     \<Rightarrow> (torch \<times> torch) result" where
  "prefill_forward env l query output k_cache v_cache meta =
     (let head_size_v = (if al_enable_mla l then al_v_head_dim l else al_head_size l) in
      rbind (at_view (ae_aten env) query [-1, al_num_heads l, al_head_size l]) (\<lambda>query'.
      rbind (at_view (ae_aten env) output [-1, al_num_heads l, head_size_v]) (\<lambda>output'.
      rbind (ilu_batch_prefill (ae_infer env) query' k_cache v_cache output' None
               (Some (am_q_cu_seq_lens meta)) (Some (am_kv_cu_seq_lens meta)) None None None None None
               (am_block_table meta) (am_max_query_len meta) (am_max_seq_len meta) (al_scale l)
               (am_is_causal meta) (al_sliding_window l) (-1) (am_compute_dtype meta) False) (\<lambda>outs.
      rbind (one outs) (\<lambda>output''.
      Inr (query', output''))))))"

definition decoder_forward ::
    "attn_env \<Rightarrow> AttentionImpl \<Rightarrow> torch \<Rightarrow> torch \<Rightarrow> torch \<Rightarrow> torch option \<Rightarrow> AttentionMetadata
     \<Rightarrow> (torch \<times> torch) result" where
  "decoder_forward env l query output k_cache v_cache meta =
     (let head_size_v = (if al_enable_mla l then al_v_head_dim l else al_head_size l) in
      rbind (at_view (ae_aten env) query [-1, 1, al_num_heads l, al_head_size l]) (\<lambda>query'.
      rbind (at_view (ae_aten env) output [-1, 1, al_num_heads l, head_size_v]) (\<lambda>output'.
      rbind (t_size (am_block_table meta) (-1)) (\<lambda>blocks.
      rbind (t_size k_cache 2) (\<lambda>block_size.
      rbind (ilu_batch_decode (ae_aten env) (ae_infer env) query' k_cache output'
               (am_block_table meta) (am_kv_seq_lens meta) v_cache None None None None None None
               (Some (am_attn_mask meta)) (am_compute_dtype meta) (blocks * block_size)
               (al_sliding_window l) (-1) (al_scale l) False (am_is_causal meta) (-1))
        (\<lambda>(query'', outs).
      rbind (one outs) (\<lambda>output''.
      Inr (query'', output''))))))))"

text \<open>Output, query, key cache and value cache after the call.\<close>

definition attention_forward ::
    "attn_env \<Rightarrow> AttentionImpl \<Rightarrow> AttentionMetadata \<Rightarrow> torch \<Rightarrow> torch \<Rightarrow> torch \<Rightarrow> torch \<Rightarrow> torch
     \<Rightarrow> (torch \<times> torch \<times> torch \<times> torch) result" where
  "attention_forward env l meta query key v k_cache0 v_cache0 =
     (let lib = ae_aten env; mla = al_enable_mla l in
      rbind (if mla then rbind (t_size query 0) (\<lambda>n.
               at_empty lib [n, al_num_heads l * al_v_head_dim l] (t_dtype query))
             else at_empty lib (t_sizes query) (t_dtype query)) (\<lambda>output.
      if am_is_dummy meta then Inr (output, query, k_cache0, v_cache0)
      else
        let only_prefill = am_is_prefill meta \<or> am_is_chunked_prefill meta;
            num_kv_heads = (if mla \<and> \<not> only_prefill then 1 else al_num_kv_heads l) in
        rbind (if mla then Inr (None, None)
               else rbind (at_view lib v [-1, num_kv_heads, al_head_size l]) (\<lambda>v'.
                 Inr (Some v', Some v_cache0))) (\<lambda>(v', v_cache).
        rbind (if mla \<and> (only_prefill \<or> al_use_fused_mla_qkv l) then Inr (k_cache0, v_cache)
               else
                 rbind (at_view lib key [-1, num_kv_heads, al_head_size l]) (\<lambda>key'.
                 rbind (reshape_paged_cache ILU (attn_run env)
                          (default_ReshapePagedCacheParams
                           \<lparr>reshape_paged_cache_key := key', reshape_paged_cache_value := v',
                            reshape_paged_cache_k_cache := k_cache0,
                            reshape_paged_cache_v_cache := v_cache,
                            reshape_paged_cache_slot_mapping := am_slot_mapping meta\<rparr>)) (\<lambda>caches.
                 rbind (two caches) (\<lambda>(k, vc). Inr (k, map_option (\<lambda>_. vc) v_cache)))))
          (\<lambda>(k_cache, v_cache').
        rbind (if al_enable_lighting_indexer l \<or> \<not> only_prefill
               then decoder_forward env l query output k_cache v_cache' meta
               else prefill_forward env l query output k_cache v_cache' meta) (\<lambda>(query', output').
        rbind (at_view lib output'
                 [-1, al_num_heads l * (if mla then al_v_head_dim l else al_head_size l)]) (\<lambda>output''.
        Inr (output'', query', k_cache, case v_cache' of None \<Rightarrow> v_cache0 | Some vc \<Rightarrow> vc)))))))"

section \<open>Properties\<close>

context aten_laws
begin

text \<open>Splitting rows into heads.\<close>

lemma view_heads:
  assumes "t_sizes t = [n, a * b]" and "0 < a" and "0 < b"
  shows "\<exists>u. at_view lib t [-1, a, b] = Inr u \<and> t_sizes u = [n, a, b] \<and> t_dtype u = t_dtype t"
  using view_splits[of t "[n]" "[a, b]" "[-1, a, b]"] t_defined_sizes[of t] assms
  by (simp add: t_numel_def infer_shape_def)

end

text \<open>
  C32: with latent attention and no indexer every prefill throws: the layer has no value cache to
  pass on, and the prefill wrapper takes the value of the empty optional.
\<close>

theorem attention_mla_prefill_throws:
  assumes "aten_laws (ae_aten env)"
    and "al_enable_mla l" and "\<not> al_enable_lighting_indexer l" and "\<not> am_is_dummy meta"
    and "am_is_prefill meta \<or> am_is_chunked_prefill meta"
    and "0 < al_num_heads l" and "0 < al_head_size l" and "0 < al_v_head_dim l" and "0 \<le> n"
    and "t_sizes query = [n, al_num_heads l * al_head_size l]"
  shows "attention_forward env l meta query key val k0 v0 = Inl (Exn ''bad_optional_access'')"
proof -
  let ?w = "al_num_heads l * al_v_head_dim l"
  have "list_all (\<lambda>n. 0 \<le> n) [n, ?w]" using assms(6,8,9) by simp
  then obtain out0 where out0: "at_empty (ae_aten env) [n, ?w] (t_dtype query) = Inr out0" "t_sizes out0 = [n, ?w]"
    using aten_laws.empty_Inr[OF assms(1)] by blast
  obtain q where q: "at_view (ae_aten env) query [-1, al_num_heads l, al_head_size l] = Inr q"
    using aten_laws.view_heads[OF assms(1,10,6,7)] by blast
  obtain x where x: "at_view (ae_aten env) out0 [-1, al_num_heads l, al_v_head_dim l] = Inr x"
    using aten_laws.view_heads[OF assms(1) out0(2) assms(6,8)] by blast
  show ?thesis
    using assms(2-5)
    by (simp add: attention_forward_def prefill_forward_def ilu_batch_prefill_def torch_simps assms(10)
        out0(1) q x Let_def)
qed

section \<open>Witnesses\<close>

definition attn_demo_env :: attn_env where
  "attn_demo_env = \<lparr>ae_aten = aten_ref, ae_infer = (\<lambda>name outs args. Inr outs), ae_stride0 = (\<lambda>_. 16)\<rparr>"

definition attn_demo_meta :: "bool \<Rightarrow> AttentionMetadata" where
  "attn_demo_meta prefill =
     \<lparr>am_q_cu_seq_lens = TUndef, am_kv_cu_seq_lens = TUndef, am_kv_seq_lens = TUndef,
      am_block_table = Tn ''block_table'' [] [] [1, 8] kInt, am_slot_mapping = Tn ''slots'' [] [] [3] kInt,
      am_max_query_len = 3, am_max_seq_len = 3, am_compute_dtype = ''half'', am_is_prefill = prefill,
      am_is_chunked_prefill = False, am_is_dummy = False, am_is_causal = True, am_attn_mask = TUndef\<rparr>"

theorem attention_mla_prefill_throws_witness:
  "attention_forward attn_demo_env (AttentionImpl_create_mla 4 8 1 16 (-1) 1 False False True)
     (attn_demo_meta True) (Tn ''q'' [] [] [3, 32] kHalf) TUndef TUndef
     (Tn ''kc'' [] [] [9, 1, 16, 8] kHalf) TUndef = Inl (Exn ''bad_optional_access'')"
  using attention_mla_prefill_throws[of attn_demo_env "AttentionImpl_create_mla 4 8 1 16 (-1) 1 False False True"
      "attn_demo_meta True" 3 "Tn ''q'' [] [] [3, 32] kHalf" TUndef TUndef "Tn ''kc'' [] [] [9, 1, 16, 8] kHalf" TUndef]
    ref.aten_laws_axioms
  by (simp add: attn_demo_env_def attn_demo_meta_def AttentionImpl_create_mla_def)

end
