(* ===== verification/Gpu.thy ===== *)
theory Gpu
  imports Prelude "HOL-Library.Multiset"
begin

text \<open>
  What the device kernels of the program share: the threads of a launch, the grid-stride loop,
  the interleavings in which the iterations of the threads can run, and memories that are
  written at distinct addresses. An iteration is one step: no modelled kernel reads what
  another iteration of the same launch writes, except through an atomic operation.
\<close>

section \<open>Threads and loops\<close>

text \<open>The global numbers \<^verbatim>\<open>blockIdx.x * blockDim.x + threadIdx.x\<close> of a launch.\<close>

definition thread_ids :: "int \<Rightarrow> int \<Rightarrow> int list" where
  "thread_ids grid_dim block_dim =
     concat (map (\<lambda>b. map (\<lambda>t. b * block_dim + t) [0..block_dim - 1]) [0..grid_dim - 1])"

text \<open>
  The indices of \<^verbatim>\<open>for (i = start; i < limit; i += step)\<close>. A launch without threads has no step;
  the test of the step only makes the recursion total.
\<close>

function stride_loop :: "int \<Rightarrow> int \<Rightarrow> int \<Rightarrow> int list" where
  "stride_loop i step limit =
     (if i < limit \<and> 0 < step then i # stride_loop (i + step) step limit else [])"
  by pat_completeness auto

termination by (relation "measure (\<lambda>(i, step, limit). nat (limit - i))") auto

declare stride_loop.simps [simp del]

text \<open>One grid-stride loop per thread.\<close>

definition grid_stride :: "int \<Rightarrow> int \<Rightarrow> int \<Rightarrow> int list list" where
  "grid_stride grid_dim block_dim limit =
     map (\<lambda>t. stride_loop t (block_dim * grid_dim) limit) (thread_ids grid_dim block_dim)"

text \<open>One iteration per thread.\<close>

definition one_each :: "int \<Rightarrow> int \<Rightarrow> int list list" where
  "one_each grid_dim block_dim = map (\<lambda>t. [t]) (thread_ids grid_dim block_dim)"

section \<open>Interleavings\<close>

text \<open>
  \<open>interleave ps xs\<close>: the programs \<open>ps\<close>, each run in its own order, can make the steps \<open>xs\<close>.
\<close>

inductive interleave :: "'a list list \<Rightarrow> 'a list \<Rightarrow> bool" where
  finished: "(\<forall>p \<in> set ps. p = []) \<Longrightarrow> interleave ps []"
| step: "i < length ps \<Longrightarrow> ps ! i = x # r \<Longrightarrow> interleave (ps[i := r]) xs \<Longrightarrow> interleave ps (x # xs)"

inductive_cases interleave_NilE: "interleave ps []"
inductive_cases interleave_ConsE: "interleave ps (x # xs)"

lemma mset_concat_update:
  "i < length ps \<Longrightarrow> ps ! i = x # r \<Longrightarrow> mset (concat ps) = add_mset x (mset (concat (ps[i := r])))"
proof (induction ps arbitrary: i)
  case (Cons p ps)
  then show ?case by (cases i) auto
qed simp

text \<open>An interleaving makes all steps of all programs, and no others.\<close>

lemma interleave_mset: "interleave ps xs \<Longrightarrow> mset xs = mset (concat ps)"
proof (induction rule: interleave.induct)
  case (finished ps)
  then show ?case by (induction ps) auto
next
  case (step i ps x r xs)
  then show ?case using mset_concat_update by fastforce
qed

text \<open>Running the programs one after the other is an interleaving, so launches have one.\<close>

lemma interleave_skip: "interleave ps xs \<Longrightarrow> interleave ([] # ps) xs"
proof (induction rule: interleave.induct)
  case (step i ps x r xs)
  then show ?case by (intro interleave.step [of "Suc i"]) auto
qed (simp add: finished)

lemma interleave_concat: "interleave ps (concat ps)"
proof (induction ps)
  case (Cons p ps)
  show ?case
  proof (induction p)
    case Nil
    then show ?case using interleave_skip [OF Cons] by simp
  next
    case (Cons x p)
    then have "interleave (((x # p) # ps)[0 := p]) (concat (p # ps))" by simp
    then have "interleave ((x # p) # ps) (x # concat (p # ps))" by (rule interleave.step [rotated 2]) simp_all
    then show ?case by simp
  qed
qed (simp add: finished)

section \<open>What a launch visits\<close>

lemma thread_ids_upto:
  assumes "0 \<le> block_dim"
  shows "thread_ids grid_dim block_dim = [0..grid_dim * block_dim - 1]"
proof (cases "0 \<le> grid_dim")
  case True
  then show ?thesis
  proof (induction grid_dim rule: int_ge_induct)
    case base
    then show ?case by (simp add: thread_ids_def)
  next
    case (step g)
    have shift: "map (\<lambda>t. a + t) [0..n - 1] = [a..a + n - 1]" for a n :: int
      by (rule nth_equalityI) (simp_all)
    have "thread_ids (g + 1) block_dim = thread_ids g block_dim @ map (\<lambda>t. g * block_dim + t) [0..block_dim - 1]"
      using step.hyps by (simp add: thread_ids_def upto_rec2)
    also have "\<dots> = [0..g * block_dim - 1] @ [g * block_dim..g * block_dim + block_dim - 1]"
      using step.IH shift by simp
    also have "\<dots> = [0..(g + 1) * block_dim - 1]"
      using step.hyps assms upto_split1 [of 0 "g * block_dim" "(g + 1) * block_dim - 1"]
      by (cases "block_dim = 0") (simp_all add: algebra_simps)
    finally show ?case .
  qed
next
  case False
  then have "grid_dim * block_dim \<le> 0" using assms by (intro mult_nonpos_nonneg) simp_all
  then show ?thesis using False by (simp add: thread_ids_def)
qed

lemma dvd_step_iff:
  assumes "0 < (s::int)"
  shows "i \<le> j \<and> s dvd j - i \<longleftrightarrow> j = i \<or> i + s \<le> j \<and> s dvd j - (i + s)"
proof
  assume a: "i \<le> j \<and> s dvd j - i"
  then have "s \<le> j - i" if "j \<noteq> i" using that zdvd_imp_le by force
  moreover have "j - (i + s) = (j - i) - s" by simp
  ultimately show "j = i \<or> i + s \<le> j \<and> s dvd j - (i + s)" using a by (metis add_le_cancel_left add_uminus_conv_diff diff_add_cancel dvd_diff dvd_refl le_diff_eq add.commute)
next
  assume a: "j = i \<or> i + s \<le> j \<and> s dvd j - (i + s)"
  have "j - i = (j - (i + s)) + s" by simp
  then have "s dvd j - i" using a by (metis diff_self dvd_0_right dvd_add dvd_refl)
  then show "i \<le> j \<and> s dvd j - i" using a assms by auto
qed

lemma set_stride_loop:
  "0 < step \<Longrightarrow> j \<in> set (stride_loop i step limit) \<longleftrightarrow> i \<le> j \<and> j < limit \<and> step dvd j - i"
proof (induction i step limit rule: stride_loop.induct)
  case (1 i step limit)
  show ?case
  proof (cases "i < limit")
    case True
    then have "j \<in> set (stride_loop i step limit) \<longleftrightarrow> j = i \<or> i + step \<le> j \<and> j < limit \<and> step dvd j - (i + step)"
      using 1 by (subst stride_loop.simps) simp
    then show ?thesis using dvd_step_iff [of step i j] True 1(2) by blast
  next
    case False
    then show ?thesis by (subst stride_loop.simps) auto
  qed
qed

lemma distinct_stride_loop: "distinct (stride_loop i step limit)"
proof (induction i step limit rule: stride_loop.induct)
  case (1 i step limit)
  show ?case
  proof (cases "i < limit \<and> 0 < step")
    case True
    then have "i \<notin> set (stride_loop (i + step) step limit)" by (simp add: set_stride_loop)
    then show ?thesis using 1 True by (subst stride_loop.simps) simp
  qed (subst stride_loop.simps, auto)
qed

lemma set_grid_stride:
  assumes "0 < grid_dim" and "0 < block_dim"
  shows "set (concat (grid_stride grid_dim block_dim limit)) = {0..<limit}"
proof -
  let ?s = "block_dim * grid_dim"
  have s: "0 < ?s" using assms by simp
  have "(\<exists>t \<in> {0..grid_dim * block_dim - 1}. t \<le> j \<and> j < limit \<and> ?s dvd j - t) \<longleftrightarrow> 0 \<le> j \<and> j < limit" for j
  proof
    assume a: "0 \<le> j \<and> j < limit"
    have "j mod ?s \<in> {0..grid_dim * block_dim - 1}"
      using s by (simp add: mult.commute)
    moreover have "j mod ?s \<le> j" using a s by (simp add: zmod_le_nonneg_dividend)
    moreover have "?s dvd j - j mod ?s" by simp
    ultimately show "\<exists>t \<in> {0..grid_dim * block_dim - 1}. t \<le> j \<and> j < limit \<and> ?s dvd j - t" using a by blast
  qed auto
  moreover have "0 \<le> block_dim" using assms by simp
  moreover have "j \<in> set (concat (grid_stride grid_dim block_dim limit)) \<longleftrightarrow>
      (\<exists>t \<in> {0..grid_dim * block_dim - 1}. t \<le> j \<and> j < limit \<and> ?s dvd j - t)" for j
    using calculation(2) s by (simp add: grid_stride_def thread_ids_upto set_stride_loop)
  ultimately show ?thesis by (metis (no_types, lifting) atLeastLessThan_iff subsetI subset_antisym)
qed

lemma distinct_grid_stride:
  assumes "0 < grid_dim" and "0 < block_dim"
  shows "distinct (concat (grid_stride grid_dim block_dim limit))"
proof -
  let ?s = "block_dim * grid_dim"
  have s: "0 < ?s" using assms by simp
  have apart: "set (stride_loop t ?s limit) \<inter> set (stride_loop u ?s limit) = {}"
    if "0 \<le> t" "t < ?s" "0 \<le> u" "u < ?s" "t \<noteq> u" for t u
  proof -
    have "?s dvd j - t \<Longrightarrow> ?s dvd j - u \<Longrightarrow> False" for j
    proof -
      assume "?s dvd j - t" "?s dvd j - u"
      then have "t mod ?s = u mod ?s" by (metis mod_eq_dvd_iff)
      then show False using that by simp
    qed
    then show ?thesis using s by (auto simp: set_stride_loop)
  qed
  have "distinct (concat (map (\<lambda>t. stride_loop t ?s limit) ts))"
    if "distinct ts" "\<forall>t \<in> set ts. 0 \<le> t \<and> t < ?s" for ts
    using that
  proof (induction ts)
    case (Cons t ts)
    have "set (stride_loop t ?s limit) \<inter> set (stride_loop u ?s limit) = {}" if "u \<in> set ts" for u
      using Cons.prems that by (intro apart) auto
    then show ?case using Cons by (auto simp: distinct_stride_loop)
  qed simp
  then show ?thesis
    using assms by (simp add: grid_stride_def thread_ids_upto mult.commute)
qed

text \<open>A grid-stride launch makes every iteration exactly once, whatever the number of threads.\<close>

lemma grid_stride_mset:
  "0 < grid_dim \<Longrightarrow> 0 < block_dim \<Longrightarrow>
   mset (concat (grid_stride grid_dim block_dim limit)) = mset [0..limit - 1]"
  by (subst set_eq_iff_mset_eq_distinct [symmetric]) (auto simp: set_grid_stride distinct_grid_stride simp del: set_concat)

lemma one_each_mset:
  "0 \<le> block_dim \<Longrightarrow> mset (concat (one_each grid_dim block_dim)) = mset [0..grid_dim * block_dim - 1]"
  by (simp add: one_each_def thread_ids_upto)

lemma mset_upto_set: "mset xs = mset [0..n - 1] \<Longrightarrow> set xs = {0..<n}" for n :: int
proof -
  assume "mset xs = mset [0..n - 1]"
  then have "set xs = set [0..n - 1]" by (rule mset_eq_setD)
  also have "set [0..n - 1] = {0..<n}" by auto
  finally show ?thesis .
qed

lemma interleave_grid_stride:
  assumes "interleave (grid_stride grid_dim block_dim limit) xs" and "0 < grid_dim" and "0 < block_dim"
  shows "set xs = {0..<limit}" and "distinct xs" and "mset xs = mset [0..limit - 1]"
proof -
  show m: "mset xs = mset [0..limit - 1]"
    using interleave_mset [OF assms(1)] grid_stride_mset [OF assms(2,3)] by simp
  show "set xs = {0..<limit}" using m by (rule mset_upto_set)
  show "distinct xs" using mset_eq_imp_distinct_iff [OF m] by simp
qed

section \<open>Memories written at guarded addresses\<close>

text \<open>
  A memory is loaded from and stored to at addresses, and an access outside of it has no
  defined behaviour. The laws say that a store to a valid address changes what is loaded
  there and nowhere else.
\<close>

locale memory =
  fixes valid :: "'m \<Rightarrow> 'a \<Rightarrow> bool"
    and load :: "'m \<Rightarrow> 'a \<Rightarrow> 'v result"
    and store :: "'m \<Rightarrow> 'a \<Rightarrow> 'v \<Rightarrow> 'm result"
  assumes store_ok: "valid m a \<Longrightarrow> \<exists>m'. store m a v = Inr m'"
    and store_valid: "store m a v = Inr m' \<Longrightarrow> valid m' b = valid m b"
    and load_stored: "store m a v = Inr m' \<Longrightarrow> load m' a = Inr v"
    and load_other: "store m a v = Inr m' \<Longrightarrow> b \<noteq> a \<Longrightarrow> load m' b = load m b"
begin

text \<open>
  A loop whose iteration \<open>x\<close> stores \<open>v x\<close> at \<open>addr x\<close> when its guard holds and raises a flag
  otherwise: where no two guarded iterations store different values at one address, the result
  does not depend on the order of the iterations. What an iteration stores may depend on
  addresses \<open>R\<close> that no iteration writes.
\<close>

lemma guarded_stores_from:
  assumes "\<And>x m e. x \<in> set xs \<Longrightarrow> (\<forall>a \<in> R. load m a = load m0 a) \<Longrightarrow> f x (m, e) =
      (if ok x then rbind (store m (addr x) (v x)) (\<lambda>m'. Inr (m', e)) else Inr (m, 1))"
    and "\<forall>x \<in> set xs. ok x \<longrightarrow> valid m (addr x)"
    and "\<forall>a \<in> R. load m a = load m0 a" and "\<forall>x \<in> set xs. ok x \<longrightarrow> addr x \<notin> R"
  shows "\<exists>m'. rfold f xs (m, e) = Inr (m', if \<forall>x \<in> set xs. ok x then e else 1) \<and>
      (\<forall>b. valid m' b = valid m b) \<and>
      (\<forall>b. (\<forall>x \<in> set xs. ok x \<longrightarrow> addr x \<noteq> b) \<longrightarrow> load m' b = load m b) \<and>
      (\<forall>x \<in> set xs. ok x \<longrightarrow> (\<forall>y \<in> set xs. ok y \<longrightarrow> addr y = addr x \<longrightarrow> v y = v x) \<longrightarrow>
         load m' (addr x) = Inr (v x))"
  using assms
proof (induction xs arbitrary: m e)
  case Nil
  then show ?case by simp
next
  case (Cons x xs)
  show ?case
  proof (cases "ok x")
    case False
    have step: "f x (m, e) = Inr (m, 1)" using Cons.prems(1,3) False by simp
    have IH: "\<exists>m'. rfold f xs (m, 1) = Inr (m', if \<forall>x \<in> set xs. ok x then 1 else 1) \<and>
      (\<forall>b. valid m' b = valid m b) \<and>
      (\<forall>b. (\<forall>x \<in> set xs. ok x \<longrightarrow> addr x \<noteq> b) \<longrightarrow> load m' b = load m b) \<and>
      (\<forall>x \<in> set xs. ok x \<longrightarrow> (\<forall>y \<in> set xs. ok y \<longrightarrow> addr y = addr x \<longrightarrow> v y = v x) \<longrightarrow>
         load m' (addr x) = Inr (v x))"
      using Cons.prems by (intro Cons.IH) auto
    then obtain m' where r: "rfold f xs (m, 1) = Inr (m', if \<forall>x \<in> set xs. ok x then 1 else 1)"
      and rest: "(\<forall>b. valid m' b = valid m b) \<and>
      (\<forall>b. (\<forall>x \<in> set xs. ok x \<longrightarrow> addr x \<noteq> b) \<longrightarrow> load m' b = load m b) \<and>
      (\<forall>x \<in> set xs. ok x \<longrightarrow> (\<forall>y \<in> set xs. ok y \<longrightarrow> addr y = addr x \<longrightarrow> v y = v x) \<longrightarrow>
         load m' (addr x) = Inr (v x))" by blast
    have "rfold f (x # xs) (m, e) = Inr (m', if \<forall>y \<in> set (x # xs). ok y then e else 1)"
      using step r False by simp
    then show ?thesis using rest False
      by (intro exI [of _ m'] conjI) (simp_all only: list.set ball_simps False simp_thms, (elim conjE, assumption)+)
  next
    case True
    then obtain m1 where m1: "store m (addr x) (v x) = Inr m1"
      using Cons.prems(2) store_ok by fastforce
    have val1: "valid m1 b = valid m b" for b using store_valid [OF m1] .
    have keep: "\<forall>a \<in> R. load m1 a = load m0 a"
      using Cons.prems(3,4) True load_other [OF m1] by (metis list.set_intros(1))
    have "\<exists>m'. rfold f xs (m1, e) = Inr (m', if \<forall>x \<in> set xs. ok x then e else 1) \<and>
      (\<forall>b. valid m' b = valid m1 b) \<and>
      (\<forall>b. (\<forall>x \<in> set xs. ok x \<longrightarrow> addr x \<noteq> b) \<longrightarrow> load m' b = load m1 b) \<and>
      (\<forall>x \<in> set xs. ok x \<longrightarrow> (\<forall>y \<in> set xs. ok y \<longrightarrow> addr y = addr x \<longrightarrow> v y = v x) \<longrightarrow>
         load m' (addr x) = Inr (v x))"
      using Cons.prems val1 keep by (intro Cons.IH) auto
    then obtain m' where
      run: "rfold f xs (m1, e) = Inr (m', if \<forall>x \<in> set xs. ok x then e else 1)"
      and val: "\<forall>b. valid m' b = valid m1 b"
      and other: "\<forall>b. (\<forall>y \<in> set xs. ok y \<longrightarrow> addr y \<noteq> b) \<longrightarrow> load m' b = load m1 b"
      and stored: "\<forall>y \<in> set xs. ok y \<longrightarrow> (\<forall>z \<in> set xs. ok z \<longrightarrow> addr z = addr y \<longrightarrow> v z = v y) \<longrightarrow>
         load m' (addr y) = Inr (v y)"
      by blast
    have first: "load m' (addr x) = Inr (v x)"
      if same: "\<forall>z \<in> set xs. ok z \<longrightarrow> addr z = addr x \<longrightarrow> v z = v x"
    proof (cases "\<exists>y \<in> set xs. ok y \<and> addr y = addr x")
      case True
      then obtain y where y: "y \<in> set xs" "ok y" "addr y = addr x" by blast
      then have "v y = v x" using same by blast
      then show ?thesis using stored y same by metis
    next
      case False
      then show ?thesis using other load_stored [OF m1] by metis
    qed
    have "rfold f (x # xs) (m, e) = Inr (m', if \<forall>y \<in> set (x # xs). ok y then e else 1)"
      using True Cons.prems(1,3) m1 run by simp
    moreover have "load m' b = load m b" if "\<forall>y \<in> set (x # xs). ok y \<longrightarrow> addr y \<noteq> b" for b
      using that True other load_other [OF m1, of b] by auto
    moreover have "load m' (addr y) = Inr (v y)"
      if "y \<in> set (x # xs)" "ok y" "\<forall>z \<in> set (x # xs). ok z \<longrightarrow> addr z = addr y \<longrightarrow> v z = v y" for y
    proof -
      have rest: "\<forall>z \<in> set xs. ok z \<longrightarrow> addr z = addr y \<longrightarrow> v z = v y"
        using that(3) by (meson list.set_intros(2))
      show ?thesis
      proof (cases "y = x")
        case True
        then show ?thesis using first rest by blast
      next
        case False
        then have "y \<in> set xs" using that(1) by simp
        then show ?thesis using stored rest that(2) by blast
      qed
    qed
    moreover have "\<forall>b. valid m' b = valid m b" using val val1 by simp
    ultimately show ?thesis by blast
  qed
qed

lemma guarded_stores:
  assumes "\<And>x m e. x \<in> set xs \<Longrightarrow> f x (m, e) =
      (if ok x then rbind (store m (addr x) (v x)) (\<lambda>m'. Inr (m', e)) else Inr (m, 1))"
    and "\<forall>x \<in> set xs. ok x \<longrightarrow> valid m (addr x)"
  shows "\<exists>m'. rfold f xs (m, e) = Inr (m', if \<forall>x \<in> set xs. ok x then e else 1) \<and>
      (\<forall>b. valid m' b = valid m b) \<and>
      (\<forall>b. (\<forall>x \<in> set xs. ok x \<longrightarrow> addr x \<noteq> b) \<longrightarrow> load m' b = load m b) \<and>
      (\<forall>x \<in> set xs. ok x \<longrightarrow> (\<forall>y \<in> set xs. ok y \<longrightarrow> addr y = addr x \<longrightarrow> v y = v x) \<longrightarrow>
         load m' (addr x) = Inr (v x))"
  by (rule guarded_stores_from [of xs "{}" m f ok addr v m e]) (simp_all add: assms)

text \<open>The same loop without a flag.\<close>

lemma stores_from:
  assumes f: "\<And>x m'. x \<in> set xs \<Longrightarrow> (\<forall>a \<in> R. load m' a = load m a) \<Longrightarrow>
      f x m' = (if ok x then store m' (addr x) (v x) else Inr m')"
    and valid: "\<forall>x \<in> set xs. ok x \<longrightarrow> valid m (addr x)"
    and apart: "\<forall>x \<in> set xs. ok x \<longrightarrow> addr x \<notin> R"
  shows "\<exists>m'. rfold f xs m = Inr m' \<and>
      (\<forall>b. valid m' b = valid m b) \<and>
      (\<forall>b. (\<forall>x \<in> set xs. ok x \<longrightarrow> addr x \<noteq> b) \<longrightarrow> load m' b = load m b) \<and>
      (\<forall>x \<in> set xs. ok x \<longrightarrow> (\<forall>y \<in> set xs. ok y \<longrightarrow> addr y = addr x \<longrightarrow> v y = v x) \<longrightarrow>
         load m' (addr x) = Inr (v x))"
proof -
  let ?g = "\<lambda>x (m, e). rbind (f x m) (\<lambda>m'. Inr (m', if ok x then e else 1 :: int))"
  have same: "rfold ?g xs (m, e) = Inr (m', e') \<Longrightarrow> rfold f xs m = Inr m'" for m m' e e'
  proof (induction xs arbitrary: m e)
    case (Cons x xs)
    then show ?case by (auto simp: rbind_eq_Inr_iff)
  qed simp
  have "\<exists>m'. rfold ?g xs (m, 0) = Inr (m', if \<forall>x \<in> set xs. ok x then 0 else 1) \<and>
      (\<forall>b. valid m' b = valid m b) \<and>
      (\<forall>b. (\<forall>x \<in> set xs. ok x \<longrightarrow> addr x \<noteq> b) \<longrightarrow> load m' b = load m b) \<and>
      (\<forall>x \<in> set xs. ok x \<longrightarrow> (\<forall>y \<in> set xs. ok y \<longrightarrow> addr y = addr x \<longrightarrow> v y = v x) \<longrightarrow>
         load m' (addr x) = Inr (v x))"
    by (rule guarded_stores_from [where R = R and ?m0.0 = m]) (use f valid apart in simp_all)
  then obtain m' where r: "rfold ?g xs (m, 0) = Inr (m', if \<forall>x \<in> set xs. ok x then 0 else 1)"
    and rest: "(\<forall>b. valid m' b = valid m b) \<and>
      (\<forall>b. (\<forall>x \<in> set xs. ok x \<longrightarrow> addr x \<noteq> b) \<longrightarrow> load m' b = load m b) \<and>
      (\<forall>x \<in> set xs. ok x \<longrightarrow> (\<forall>y \<in> set xs. ok y \<longrightarrow> addr y = addr x \<longrightarrow> v y = v x) \<longrightarrow>
         load m' (addr x) = Inr (v x))" by blast
  from same [OF r] rest show ?thesis by blast
qed

lemma stores:
  assumes "\<And>x m. x \<in> set xs \<Longrightarrow> f x m = (if ok x then store m (addr x) (v x) else Inr m)"
    and "\<forall>x \<in> set xs. ok x \<longrightarrow> valid m (addr x)"
  shows "\<exists>m'. rfold f xs m = Inr m' \<and>
      (\<forall>b. valid m' b = valid m b) \<and>
      (\<forall>b. (\<forall>x \<in> set xs. ok x \<longrightarrow> addr x \<noteq> b) \<longrightarrow> load m' b = load m b) \<and>
      (\<forall>x \<in> set xs. ok x \<longrightarrow> (\<forall>y \<in> set xs. ok y \<longrightarrow> addr y = addr x \<longrightarrow> v y = v x) \<longrightarrow>
         load m' (addr x) = Inr (v x))"
  by (rule stores_from [of xs "{}"]) (simp_all add: assms)

end

text \<open>A flat array, and the arrays of several layers addressed by layer and index.\<close>

definition in_array :: "'v list \<Rightarrow> int \<Rightarrow> bool" where
  "in_array xs i \<longleftrightarrow> 0 \<le> i \<and> i < int (length xs)"

definition array_load :: "'v list \<Rightarrow> int \<Rightarrow> 'v result" where
  "array_load xs i = (if in_array xs i then Inr (xs ! nat i) else Inl (Undefined ''load out of bounds''))"

definition array_store :: "'v list \<Rightarrow> int \<Rightarrow> 'v \<Rightarrow> 'v list result" where
  "array_store xs i v =
     (if in_array xs i then Inr (xs[nat i := v]) else Inl (Undefined ''store out of bounds''))"

definition in_arrays :: "'v list list \<Rightarrow> nat \<times> int \<Rightarrow> bool" where
  "in_arrays ls a \<longleftrightarrow> fst a < length ls \<and> in_array (ls ! fst a) (snd a)"

definition arrays_load :: "'v list list \<Rightarrow> nat \<times> int \<Rightarrow> 'v result" where
  "arrays_load ls a =
     (if fst a < length ls then array_load (ls ! fst a) (snd a) else Inl (Undefined ''no such array''))"

definition arrays_store :: "'v list list \<Rightarrow> nat \<times> int \<Rightarrow> 'v \<Rightarrow> 'v list list result" where
  "arrays_store ls a v =
     (if fst a < length ls then
        rbind (array_store (ls ! fst a) (snd a) v) (\<lambda>xs. Inr (ls[fst a := xs]))
      else Inl (Undefined ''no such array''))"

interpretation flat: memory in_array array_load array_store
  by unfold_locales (auto simp: in_array_def array_load_def array_store_def nat_eq_iff nth_list_update split: if_splits)

interpretation layered: memory in_arrays arrays_load arrays_store
proof unfold_locales
  fix m :: "'v list list" and m' a b v
  show "in_arrays m a \<Longrightarrow> \<exists>m'. arrays_store m a v = Inr m'"
    by (simp add: in_arrays_def arrays_store_def array_store_def)
  assume s: "arrays_store m a v = Inr m'"
  then obtain xs where a: "fst a < length m" "array_store (m ! fst a) (snd a) v = Inr xs" "m' = m[fst a := xs]"
    by (auto simp: arrays_store_def rbind_eq_Inr_iff split: if_splits)
  show "in_arrays m' b = in_arrays m b"
    using a flat.store_valid [OF a(2)] by (auto simp: in_arrays_def nth_list_update)
  show "arrays_load m' a = Inr v"
    using a flat.load_stored [OF a(2)] by (simp add: arrays_load_def)
  assume "b \<noteq> a"
  then show "arrays_load m' b = arrays_load m b"
    using a flat.load_other [OF a(2), of "snd b"]
    by (cases "fst b = fst a") (auto simp: arrays_load_def prod_eq_iff)
qed

lemma array_loadI: "array_load xs i = Inr v \<longleftrightarrow> in_array xs i \<and> xs ! nat i = v"
  by (auto simp: array_load_def)

lemma in_array_length: "(\<forall>i. in_array xs i = in_array ys i) \<longleftrightarrow> length xs = length ys"
proof
  assume a: "\<forall>i. in_array xs i = in_array ys i"
  show "length xs = length ys"
    using a [rule_format, of "int (length xs)"] a [rule_format, of "int (length ys)"]
    by (simp add: in_array_def)
qed (simp add: in_array_def)

lemma rfold_array_length:
  "rfold f xs (m, e) = Inr (m', e') \<Longrightarrow> (\<forall>b. in_array m' b = in_array m b) \<Longrightarrow> length m' = length m"
  using in_array_length by blast

section \<open>Tensors as device code sees them\<close>

text \<open>
  A tensor with its device, address and elements. A contiguous tensor has all its elements in
  storage order, one element of \<open>bf_data\<close> for each unit the kernel reads.
\<close>

datatype scalar_kind = kFloat16 | kBFloat16 | kFloat32 | kInt32 | kInt64

record 'v buffer =
  bf_cuda :: bool
  bf_device :: int
  bf_type :: scalar_kind
  bf_contiguous :: bool
  bf_address :: int
  bf_sizes :: "int list"
  bf_data :: "'v list"

definition bf_dim :: "('v, 'z) buffer_scheme \<Rightarrow> int" where
  "bf_dim t = int (length (bf_sizes t))"

definition bf_numel :: "('v, 'z) buffer_scheme \<Rightarrow> int" where
  "bf_numel t = prod_list (bf_sizes t)"

text \<open>\<^verbatim>\<open>TORCH_CHECK\<close> throws; a size is only asked for below the number of dimensions.\<close>

definition torch_check :: "bool \<Rightarrow> string \<Rightarrow> unit result" where
  "torch_check b msg = (if b then Inr () else Inl (Exn msg))"

lemma torch_check_eq_Inr_iff [result_simps]: "torch_check b msg = Inr u \<longleftrightarrow> b"
  by (simp add: torch_check_def)

lemma torch_check_True [simp]: "torch_check True msg = Inr ()"
  by (simp add: torch_check_def)

text \<open>Checks in the order of the code: the first that fails throws.\<close>

definition torch_checks :: "(bool \<times> string) list \<Rightarrow> unit result" where
  "torch_checks cs = rfold (\<lambda>(b, msg) u. torch_check b msg) cs ()"

lemma torch_checks_Nil [result_simps]: "torch_checks [] = Inr u"
  by (simp add: torch_checks_def)

lemma torch_checks_Cons [result_simps]:
  "torch_checks ((b, msg) # cs) = Inr u \<longleftrightarrow> b \<and> torch_checks cs = Inr u"
  by (cases b) (simp_all add: torch_checks_def torch_check_def)

lemma torch_checks_cases: "torch_checks cs = Inr () \<or> (\<exists>m. torch_checks cs = Inl (Exn m))"
proof (induction cs)
  case (Cons c cs)
  then show ?case by (cases c; cases "fst c") (auto simp: torch_checks_def torch_check_def)
qed (simp add: torch_checks_def)

definition bf_size :: "'v buffer \<Rightarrow> nat \<Rightarrow> int result" where
  "bf_size t d = (if d < length (bf_sizes t) then Inr (bf_sizes t ! d)
     else Inl (Exn ''Dimension out of range''))"

text \<open>Conversions to 32-bit integers.\<close>

definition int32 :: "int \<Rightarrow> int" where
  "int32 x = signed_take_bit 31 x"

definition uint32 :: "int \<Rightarrow> int" where
  "uint32 x = take_bit 32 x"

lemma int32_id: "- (2 ^ 31) \<le> x \<Longrightarrow> x < 2 ^ 31 \<Longrightarrow> int32 x = x"
  by (simp add: int32_def signed_take_bit_int_eq_self)

text \<open>One unsigned comparison rejects negative and too large ids together.\<close>

lemma uint32_less_iff:
  assumes "- (2 ^ 31) \<le> b" and "b < 2 ^ 31" and "0 \<le> n" and "n < 2 ^ 31"
  shows "uint32 n \<le> uint32 b \<longleftrightarrow> \<not> (0 \<le> b \<and> b < n)"
proof (cases "0 \<le> b")
  case True
  then show ?thesis using assms by (auto simp: uint32_def take_bit_int_eq_self)
next
  case False
  have "take_bit 32 b = take_bit 32 (b + 2 ^ 32)" by (simp add: take_bit_eq_mod)
  also have "\<dots> = b + 2 ^ 32" using False assms by (intro take_bit_int_eq_self) simp_all
  finally show ?thesis using False assms by (simp add: uint32_def take_bit_int_eq_self)
qed


section \<open>Mixed-radix indices\<close>

lemma digit_bounds:
  assumes "0 \<le> a" "a < m" "0 \<le> b" "b < n"
  shows "0 \<le> a * n + b" and "a * n + b < m * (n::int)"
proof -
  have "0 \<le> a * n" using assms by simp
  then show "0 \<le> a * n + b" using assms by simp
  have "a * n + b < (a + 1) * n" using assms by (simp add: algebra_simps)
  also have "\<dots> \<le> m * n" using assms by (intro mult_right_mono) auto
  finally show "a * n + b < m * n" .
qed

lemma digit_inject:
  assumes "0 \<le> b" "b < n" "0 \<le> d" "d < (n::int)"
  shows "a * n + b = c * n + d \<longleftrightarrow> a = c \<and> b = d"
proof
  assume e: "a * n + b = c * n + d"
  have "(a * n + b) div n = a" "(c * n + d) div n = c" using assms by simp_all
  then show "a = c \<and> b = d" using e by simp
qed simp

lemma digit_div_mod:
  assumes "0 \<le> b" "b < (n::int)"
  shows "(a * n + b) div n = a" and "(a * n + b) mod n = b"
  using assms by simp_all

section \<open>Loops over two memories\<close>

lemma rfold_pair:
  assumes "\<And>x a b. x \<in> set xs \<Longrightarrow> h x (a, b) = rbind (f x a) (\<lambda>a'. rbind (g x b) (\<lambda>b'. Inr (a', b')))"
    and "rfold f xs a = Inr a'" and "rfold g xs b = Inr b'"
  shows "rfold h xs (a, b) = Inr (a', b')"
  using assms by (induction xs arbitrary: a b) (auto simp: rbind_eq_Inr_iff)

lemma rfold_concat: "rfold f (concat xss) s = rfold (\<lambda>xs. rfold f xs) xss s"
proof (induction xss arbitrary: s)
  case (Cons xs xss)
  have "rfold f (concat xss) = rfold (\<lambda>xs. rfold f xs) xss" by (rule ext) (rule Cons)
  then show ?case by (simp add: rfold_append)
qed simp

lemma rfold_map: "rfold f (map g xs) s = rfold (\<lambda>x. f (g x)) xs s"
proof (induction xs arbitrary: s)
  case (Cons x xs)
  have "rfold f (map g xs) = rfold (\<lambda>x. f (g x)) xs" by (rule ext) (rule Cons)
  then show ?case by simp
qed simp

lemma upto_upt: "[0..n - 1] = map int [0..<nat n]"
proof (rule nth_equalityI)
  show "[0..n - 1] ! i = map int [0..<nat n] ! i" if "i < length [0..n - 1]" for i
    using that by (simp add: nth_upto)
qed simp

lemma nth_map_upto0: "0 \<le> x \<Longrightarrow> x < n \<Longrightarrow> map f [0..n - 1] ! nat x = f x"
  by (simp add: nth_upto nat_less_eq_zless)

section \<open>Programs that do not meet\<close>

text \<open>The steps of one kind, when only one program has them, happen in the order of that program.\<close>

lemma interleave_filter:
  assumes "interleave ps xs" and "i < length ps" and "\<forall>j < length ps. j \<noteq> i \<longrightarrow> filter P (ps ! j) = []"
  shows "filter P xs = filter P (ps ! i)"
  using assms
proof (induction rule: interleave.induct)
  case (finished ps)
  then have "ps ! i = []" using nth_mem by blast
  then show ?case by simp
next
  case (step k ps x r xs)
  have rest: "filter P xs = filter P (ps[k := r] ! i)"
  proof (rule step.IH)
    show "\<forall>j < length (ps[k := r]). j \<noteq> i \<longrightarrow> filter P (ps[k := r] ! j) = []"
    proof (intro allI impI)
      fix j assume "j < length (ps[k := r])" "j \<noteq> i"
      then have "filter P (ps ! j) = []" using step.prems by simp
      then show "filter P (ps[k := r] ! j) = []"
        using step.hyps \<open>j < _\<close> by (cases "j = k") (auto split: if_splits)
    qed
  qed (use step.prems in simp)
  show ?case
  proof (cases "k = i")
    case True
    then show ?thesis using rest step.hyps by simp
  next
    case False
    then have "filter P (ps ! k) = []" using step.prems(2) step.hyps(1) by blast
    then have "\<not> P x" using step.hyps by (auto split: if_splits)
    then show ?thesis using rest False by simp
  qed
qed

text \<open>
  What one program alone decides. If the other programs leave a view \<open>R\<close> of the memory unchanged
  and the steps of this one depend on nothing but the view, the view is what the program alone
  would make of it.
\<close>

lemma rfold_succeeds:
  assumes "\<And>x m. x \<in> set xs \<Longrightarrow> I m \<Longrightarrow> \<exists>m'. f x m = Inr m' \<and> I m'" and "I m"
  shows "\<exists>m'. rfold f xs m = Inr m' \<and> I m'"
  using assms
proof (induction xs arbitrary: m)
  case (Cons x xs)
  obtain m1 where m1: "f x m = Inr m1" "I m1" using Cons.prems(1) [OF _ Cons.prems(2), of x] by auto
  have "\<exists>m'. rfold f xs m1 = Inr m' \<and> I m'" using Cons.prems m1(2) by (intro Cons.IH) simp_all
  then show ?case using m1(1) by simp
qed simp

lemma interleave_region:
  assumes "interleave ps xs" and "i < length ps"
    and "\<And>j x m m'. j < length ps \<Longrightarrow> j \<noteq> i \<Longrightarrow> x \<in> set (ps ! j) \<Longrightarrow> I m \<Longrightarrow> f x m = Inr m' \<Longrightarrow> R m' = R m"
    and "\<And>x m n m'. x \<in> set (ps ! i) \<Longrightarrow> I m \<Longrightarrow> I n \<Longrightarrow> R m = R n \<Longrightarrow> f x m = Inr m' \<Longrightarrow>
      \<exists>n'. f x n = Inr n' \<and> R n' = R m'"
    and "\<And>x m m'. x \<in> set (concat ps) \<Longrightarrow> I m \<Longrightarrow> f x m = Inr m' \<Longrightarrow> I m'"
    and "rfold f xs m = Inr m'" and "I m" and "I n" and "R m = R n"
  shows "\<exists>n'. rfold f (ps ! i) n = Inr n' \<and> R n' = R m'"
  using assms
proof (induction arbitrary: m n rule: interleave.induct)
  case (finished ps)
  then have "ps ! i = []" using nth_mem [of i ps] by simp
  then show ?case using finished.prems(5,8) by simp
next
  case (step k ps x r xs)
  obtain m1 where m1: "f x m = Inr m1" "rfold f xs m1 = Inr m'"
    using step.prems(5) by (auto simp: rbind_eq_Inr_iff)
  have "x # r \<in> set ps" using nth_mem [OF step.hyps(1)] step.hyps(2) by simp
  then have xk: "x \<in> set (ps ! k)" "x \<in> set (concat ps)" using step.hyps(2) by force+
  have I1: "I m1" using step.prems(4) [OF xk(2) step.prems(6) m1(1)] .
  have sub: "set (ps[k := r] ! j) \<subseteq> set (ps ! j)" if "j < length ps" for j
    using step.hyps that by (cases "j = k") auto
  have others: "R m' = R m" if "j < length (ps[k := r])" "j \<noteq> i" "y \<in> set (ps[k := r] ! j)" "I m" "f y m = Inr m'" for j y m m'
    using step.prems(2) [of j y m m'] sub [of j] that by auto
  have all: "I m'" if "y \<in> set (concat (ps[k := r]))" "I m" "f y m = Inr m'" for y m m'
  proof -
    have "y \<in> set (concat ps)" using that(1) sub by (fastforce simp: in_set_conv_nth)
    then show ?thesis using step.prems(4) that by blast
  qed
  show ?case
  proof (cases "k = i")
    case True
    obtain n1 where n1: "f x n = Inr n1" "R n1 = R m1"
      using step.prems(3) [of x m n m1] xk True step.prems(6-8) m1(1) by auto
    have "I n1" using step.prems(4) [OF xk(2) step.prems(7) n1(1)] .
    have "\<exists>n'. rfold f (ps[k := r] ! i) n1 = Inr n' \<and> R n' = R m'"
    proof (intro step.IH)
      show "\<exists>n'. f y n = Inr n' \<and> R n' = R m'" if "y \<in> set (ps[k := r] ! i)" "I m" "I n" "R m = R n" "f y m = Inr m'"
        for y m n m'
        using step.prems(3) [OF _ that(2-5)] sub [OF step.prems(1)] that(1) by blast
    qed (use step.prems(1) I1 m1(2) n1(2) \<open>I n1\<close> others all in simp_all)
    then show ?thesis using True step.hyps n1(1) by simp
  next
    case False
    have "R m1 = R n" using step.prems(2) [OF step.hyps(1) False xk(1) step.prems(6) m1(1)] step.prems(8) by simp
    have "\<exists>n'. rfold f (ps[k := r] ! i) n = Inr n' \<and> R n' = R m'"
    proof (rule step.IH [where m = m1])
      show "\<exists>n'. f y n = Inr n' \<and> R n' = R m'" if "y \<in> set (ps[k := r] ! i)" "I m" "I n" "R m = R n" "f y m = Inr m'"
        for y m n m'
        using step.prems(3) [OF _ that(2-5)] sub [OF step.prems(1)] that(1) by blast
    qed (use step.prems(1,7) I1 m1(2) \<open>R m1 = R n\<close> others all in simp_all)
    then show ?thesis using False by simp
  qed
qed

text \<open>Steps of two kinds that touch different parts of a memory can be run one kind at a time.\<close>

lemma rfold_filter:
  assumes "\<And>x m m'. x \<in> set xs \<Longrightarrow> \<not> P x \<Longrightarrow> I m \<Longrightarrow> f x m = Inr m' \<Longrightarrow> R m' = R m"
    and "\<And>x m n m'. x \<in> set xs \<Longrightarrow> P x \<Longrightarrow> I m \<Longrightarrow> I n \<Longrightarrow> R m = R n \<Longrightarrow> f x m = Inr m' \<Longrightarrow>
      \<exists>n'. f x n = Inr n' \<and> R n' = R m'"
    and "\<And>x m m'. x \<in> set xs \<Longrightarrow> I m \<Longrightarrow> f x m = Inr m' \<Longrightarrow> I m'"
    and "rfold f xs m = Inr m'" and "I m" and "I n" and "R m = R n"
  shows "\<exists>n'. rfold f (filter P xs) n = Inr n' \<and> R n' = R m'"
  using assms
proof (induction xs arbitrary: m n)
  case (Cons x xs)
  obtain m1 where m1: "f x m = Inr m1" "rfold f xs m1 = Inr m'"
    using Cons.prems(4) by (auto simp: rbind_eq_Inr_iff)
  have I1: "I m1" using Cons.prems(3) [OF _ Cons.prems(5) m1(1)] by simp
  show ?case
  proof (cases "P x")
    case True
    obtain n1 where n1: "f x n = Inr n1" "R n1 = R m1"
      using Cons.prems(2) [of x m n m1] True Cons.prems(5-7) m1(1) by auto
    have "I n1" using Cons.prems(3) [OF _ Cons.prems(6) n1(1)] by simp
    have "\<exists>n'. rfold f (filter P xs) n1 = Inr n' \<and> R n' = R m'"
      by (rule Cons.IH [OF Cons.prems(1-3) m1(2) I1])
        (simp_all add: \<open>I n1\<close> n1(2))
    then show ?thesis using True n1(1) by simp
  next
    case False
    then have "R m1 = R n" using Cons.prems(1) [of x m m1] Cons.prems(5,7) m1(1) by simp
    have "\<exists>n'. rfold f (filter P xs) n = Inr n' \<and> R n' = R m'"
      by (rule Cons.IH [OF Cons.prems(1-3) m1(2) I1 Cons.prems(6)]) (simp_all add: \<open>R m1 = R n\<close>)
    then show ?thesis using False by simp
  qed
qed simp

text \<open>A sequence of copies as an update of a function from addresses.\<close>

definition copied :: "('a \<times> 'a) list \<Rightarrow> ('a \<Rightarrow> 'v) \<Rightarrow> 'a \<Rightarrow> 'v" where
  "copied xs h = fold (\<lambda>(d, s) h. h(d := h s)) xs h"

lemma copied_Nil [simp]: "copied [] h = h"
  by (simp add: copied_def)

lemma copied_Cons [simp]: "copied ((d, s) # xs) h = copied xs (h(d := h s))"
  by (simp add: copied_def)

lemma copied_append: "copied (xs @ ys) h = copied ys (copied xs h)"
  by (simp add: copied_def)

lemma copied_region:
  assumes "\<forall>(d, s) \<in> set xs. if P (d, s) then s \<in> A else d \<notin> A" and "\<forall>a \<in> A. h a = h' a" and "a \<in> A"
  shows "copied xs h a = copied (filter P xs) h' a"
  using assms
proof (induction xs arbitrary: h h')
  case (Cons x xs)
  obtain d s where x: "x = (d, s)" by (cases x)
  show ?case
  proof (cases "P x")
    case True
    then have "\<forall>a \<in> A. (h(d := h s)) a = (h'(d := h' s)) a" using Cons.prems x by auto
    then have "copied xs (h(d := h s)) a = copied (filter P xs) (h'(d := h' s)) a"
      using Cons.prems by (intro Cons.IH) auto
    then show ?thesis using x True by (simp only: filter.simps if_True copied_Cons)
  next
    case False
    then have "\<forall>a \<in> A. (h(d := h s)) a = h' a" using Cons.prems x by auto
    then have "copied xs (h(d := h s)) a = copied (filter P xs) h' a"
      using Cons.prems by (intro Cons.IH) auto
    then show ?thesis using x False by (simp only: filter.simps if_False copied_Cons)
  qed
qed simp

lemma copied_other: "\<forall>(d, s) \<in> set xs. d \<noteq> a \<Longrightarrow> copied xs h a = h a"
  by (induction xs arbitrary: h) auto

context memory
begin

lemma copies_run:
  assumes "\<forall>x \<in> set xs. valid m (fst x) \<and> valid m (snd x)"
    and "\<And>x m. x \<in> set xs \<Longrightarrow> f x m = rbind (load m (snd x)) (store m (fst x))"
    and load_ok: "\<And>m a. valid m a \<Longrightarrow> \<exists>v. load m a = Inr v"
  shows "\<exists>m'. rfold f xs m = Inr m' \<and> (\<forall>b. valid m' b = valid m b) \<and> load m' = copied xs (load m)"
  using assms(1,2)
proof (induction xs arbitrary: m)
  case (Cons x xs)
  obtain v where v: "load m (snd x) = Inr v" using load_ok [of m "snd x"] Cons.prems(1) by auto
  obtain m1 where m1: "store m (fst x) v = Inr m1" using store_ok [of m "fst x" v] Cons.prems(1) by auto
  have l: "load m1 = (load m)(fst x := load m (snd x))"
    using load_stored [OF m1] load_other [OF m1] v by (intro ext) simp
  have "\<exists>m'. rfold f xs m1 = Inr m' \<and> (\<forall>b. valid m' b = valid m1 b) \<and> load m' = copied xs (load m1)"
    using Cons.prems store_valid [OF m1] by (intro Cons.IH) auto
  then show ?case using Cons.prems(2) [of x m] v m1 l store_valid [OF m1] by (cases x) auto
qed simp

end

end
