(* ===== verification/Kv_Transfer.thy ===== *)
theory Kv_Transfer
  imports Gpu
begin

text \<open>
  \<^verbatim>\<open>qwen3_6_scripts/corex_block_major_kv_transfer.cu\<close>: copies of KV blocks between the ten
  attention layers on the device, which hold all blocks of one plane together, and a staging
  buffer whose rows hold all layers of one block, and between that buffer and a pool in host
  memory. The unit of \<open>bf_data\<close> is the 16-byte vector of eight halves the kernels copy.
\<close>

section \<open>Shapes and constants\<close>

definition kAttentionLayers :: int where "kAttentionLayers = 10"
definition kKvPlanes :: int where "kKvPlanes = 2"
definition kElementsPerPlaneBlock :: int where "kElementsPerPlaneBlock = 4096"
definition kElementsPerVector :: int where "kElementsPerVector = 8"

definition kVectorsPerPlaneBlock :: int where
  "kVectorsPerPlaneBlock = kElementsPerPlaneBlock div kElementsPerVector"

definition kVectorsPerBlockMajorRow :: int where
  "kVectorsPerBlockMajorRow = kAttentionLayers * kKvPlanes * kVectorsPerPlaneBlock"

definition kThreads :: int where "kThreads = 256"
definition kMaxGridBlocks :: int where "kMaxGridBlocks = 65535"

lemmas transfer_constants = kAttentionLayers_def kKvPlanes_def kElementsPerPlaneBlock_def
  kElementsPerVector_def kVectorsPerPlaneBlock_def kVectorsPerBlockMajorRow_def kThreads_def
  kMaxGridBlocks_def

section \<open>The kernels\<close>

text \<open>Which of the ten pointers a layer number selects; the last one is the default.\<close>

definition select_layer :: "int \<Rightarrow> nat" where
  "select_layer layer =
     (if layer = 0 then 0 else if layer = 1 then 1 else if layer = 2 then 2
      else if layer = 3 then 3 else if layer = 4 then 4 else if layer = 5 then 5
      else if layer = 6 then 6 else if layer = 7 then 7 else if layer = 8 then 8 else 9)"

text \<open>The feature vector, plane, layer and row of a position in the staging buffer.\<close>

definition transfer_cursor :: "int \<Rightarrow> int \<times> int \<times> int \<times> int" where
  "transfer_cursor linear =
     (let feature_vector = linear mod kVectorsPerPlaneBlock;
          cursor = linear div kVectorsPerPlaneBlock;
          kv_plane = cursor mod kKvPlanes;
          cursor = cursor div kKvPlanes
      in (feature_vector, kv_plane, cursor mod kAttentionLayers, cursor div kAttentionLayers))"

definition layer_index :: "int \<Rightarrow> int \<Rightarrow> int \<Rightarrow> int \<Rightarrow> int" where
  "layer_index gpu_blocks kv_plane block feature_vector =
     (kv_plane * gpu_blocks + block) * kVectorsPerPlaneBlock + feature_vector"

fun pack_step :: "'v list list \<Rightarrow> int list \<Rightarrow> int \<Rightarrow> int \<Rightarrow> 'v list \<times> int \<Rightarrow> ('v list \<times> int) result" where
  "pack_step layers source_blocks gpu_blocks linear (staging, error_flag) =
     (let (feature_vector, kv_plane, layer, row) = transfer_cursor linear in
      rbind (array_load source_blocks row) (\<lambda>source_block.
      if uint32 gpu_blocks \<le> uint32 source_block then Inr (staging, 1)
      else rbind (arrays_load layers
                   (select_layer layer, layer_index gpu_blocks kv_plane source_block feature_vector)) (\<lambda>x.
           rbind (array_store staging linear x) (\<lambda>staging'. Inr (staging', error_flag)))))"

fun scatter_step :: "'v list \<Rightarrow> int list \<Rightarrow> int \<Rightarrow> int \<Rightarrow> 'v list list \<times> int \<Rightarrow> ('v list list \<times> int) result" where
  "scatter_step staging destination_blocks gpu_blocks linear (layers, error_flag) =
     (let (feature_vector, kv_plane, layer, row) = transfer_cursor linear in
      rbind (array_load destination_blocks row) (\<lambda>destination_block.
      if uint32 gpu_blocks \<le> uint32 destination_block then Inr (layers, 1)
      else rbind (array_load staging linear) (\<lambda>x.
           rbind (arrays_store layers
                   (select_layer layer, layer_index gpu_blocks kv_plane destination_block feature_vector) x)
             (\<lambda>layers'. Inr (layers', error_flag)))))"

text \<open>
  The grid-stride loops of a launch, their iterations in the order \<open>xs\<close>. Any interleaving of
  the threads' loops can occur.
\<close>

definition launch_blocks :: "int \<Rightarrow> int" where
  "launch_blocks cnt =
     (let work = cnt * kVectorsPerBlockMajorRow
      in int32 (min ((work + kThreads - 1) sdiv kThreads) kMaxGridBlocks))"

definition transfer_schedule :: "int \<Rightarrow> int list \<Rightarrow> bool" where
  "transfer_schedule cnt xs \<longleftrightarrow>
     interleave (grid_stride (launch_blocks cnt) kThreads (int32 cnt * kVectorsPerBlockMajorRow)) xs"

section \<open>The checks of the host\<close>

definition check_gpu_layer :: "int \<Rightarrow> int \<Rightarrow> 'v buffer \<Rightarrow> unit result" where
  "check_gpu_layer device blocks t = torch_checks
     [(bf_cuda t, ''GPU layer must be a CUDA tensor''),
      (bf_device t = device, ''GPU layer is on a different device''),
      (bf_type t = kFloat16, ''GPU layer must use float16''),
      (bf_contiguous t, ''GPU layer must be contiguous''),
      (bf_sizes t = [kKvPlanes, blocks, kElementsPerPlaneBlock], ''GPU layer must have shape [2, blocks, 4096]''),
      (bf_address t mod 16 = 0, ''GPU layer is not 16-byte aligned'')]"

definition check_gpu_layers :: "'v buffer list \<Rightarrow> unit result" where
  "check_gpu_layers layers =
     rbind (torch_check (int (length layers) = kAttentionLayers) ''expected exactly ten GPU attention-layer tensors'') (\<lambda>_.
     rbind (bf_size (layers ! 0) 1) (\<lambda>blocks.
     rfold (\<lambda>t _. check_gpu_layer (bf_device (layers ! 0)) blocks t) layers ()))"

definition check_gpu_transfer_args ::
  "'v buffer list \<Rightarrow> int buffer \<Rightarrow> 'v buffer \<Rightarrow> int buffer \<Rightarrow> int \<Rightarrow> unit result" where
  "check_gpu_transfer_args layers block_ids staging error_flag cnt =
     rbind (check_gpu_layers layers) (\<lambda>_.
     let device = bf_device (layers ! 0) in torch_checks
       [(bf_cuda block_ids, ''block_ids must be a CUDA tensor''),
        (bf_device block_ids = device, ''block_ids must be on the cache device''),
        (bf_type block_ids = kInt32, ''block_ids must use int32''),
        (bf_dim block_ids = 1 \<and> bf_contiguous block_ids,
           ''block_ids must be a contiguous one-dimensional tensor''),
        (0 < cnt \<and> cnt \<le> bf_numel block_ids, ''count must be in [1, block_ids.numel()]''),
        (bf_cuda staging, ''staging must be a CUDA tensor''),
        (bf_device staging = device, ''staging must be on the cache device''),
        (bf_type staging = kFloat16, ''staging must use float16''),
        (bf_contiguous staging, ''staging must be contiguous''),
        (bf_dim staging = 4 \<and> cnt \<le> bf_sizes staging ! 0 \<and>
           tl (bf_sizes staging) = [kAttentionLayers, kKvPlanes, kElementsPerPlaneBlock],
           ''staging must have shape [capacity>=count, 10, 2, 4096]''),
        (bf_address staging mod 16 = 0, ''staging is not 16-byte aligned''),
        (bf_cuda error_flag, ''error_flag must be a CUDA tensor''),
        (bf_device error_flag = device, ''error_flag must be on the cache device''),
        (bf_type error_flag = kInt32, ''error_flag must use int32''),
        (bf_contiguous error_flag \<and> bf_numel error_flag = 1,
           ''error_flag must be one contiguous int32 value'')])"

section \<open>Packing, scattering and the error flag\<close>

definition pack_block_major ::
  "int list \<Rightarrow> 'v buffer list \<Rightarrow> int buffer \<Rightarrow> 'v buffer \<Rightarrow> int buffer \<Rightarrow> int \<Rightarrow>
   ('v buffer \<times> int buffer) result" where
  "pack_block_major xs layers source_blocks staging error_flag cnt =
     rbind (check_gpu_transfer_args layers source_blocks staging error_flag cnt) (\<lambda>_.
     let blocks = int32 (bf_sizes (layers ! 0) ! 1) in
     rbind (rfold (pack_step (map bf_data layers) (bf_data source_blocks) blocks) xs
             (bf_data staging, bf_data error_flag ! 0)) (\<lambda>(st, e).
     Inr (staging\<lparr>bf_data := st\<rparr>, error_flag\<lparr>bf_data := [e]\<rparr>)))"

definition scatter_block_major ::
  "int list \<Rightarrow> 'v buffer \<Rightarrow> int buffer \<Rightarrow> 'v buffer list \<Rightarrow> int buffer \<Rightarrow> int \<Rightarrow>
   ('v buffer list \<times> int buffer) result" where
  "scatter_block_major xs staging destination_blocks layers error_flag cnt =
     rbind (check_gpu_transfer_args layers destination_blocks staging error_flag cnt) (\<lambda>_.
     let blocks = int32 (bf_sizes (layers ! 0) ! 1) in
     rbind (rfold (scatter_step (bf_data staging) (bf_data destination_blocks) blocks) xs
             (map bf_data layers, bf_data error_flag ! 0)) (\<lambda>(ls, e).
     Inr (map2 (\<lambda>t d. t\<lparr>bf_data := d\<rparr>) layers ls, error_flag\<lparr>bf_data := [e]\<rparr>)))"

definition check_transfer_error :: "int buffer \<Rightarrow> unit result" where
  "check_transfer_error error_flag = torch_checks
     [(bf_cuda error_flag, ''error_flag must be a CUDA tensor''),
      (bf_type error_flag = kInt32, ''error_flag must use int32''),
      (bf_contiguous error_flag \<and> bf_numel error_flag = 1,
         ''error_flag must be one contiguous int32 value''),
      (bf_data error_flag ! 0 = 0, ''GPU block mapping contains an out-of-range id'')]"

section \<open>Rows of the host pool\<close>

definition check_cpu_transfer_args :: "'v buffer \<Rightarrow> int buffer \<Rightarrow> 'v buffer \<Rightarrow> int \<Rightarrow> unit result" where
  "check_cpu_transfer_args pool block_ids staging cnt =
     rbind (torch_checks
       [(\<not> bf_cuda pool \<and> \<not> bf_cuda staging \<and> \<not> bf_cuda block_ids,
           ''CPU gather/scatter tensors must be on CPU''),
        (bf_type pool = kFloat16 \<and> bf_type staging = kFloat16, ''CPU pool and staging must use float16''),
        (bf_contiguous pool \<and> bf_contiguous staging, ''CPU pool and staging must be contiguous''),
        (bf_dim pool = 4 \<and> tl (bf_sizes pool) = [kAttentionLayers, kKvPlanes, kElementsPerPlaneBlock],
           ''CPU pool must have shape [slots, 10, 2, 4096]''),
        (bf_dim staging = 4 \<and> cnt \<le> bf_sizes staging ! 0 \<and>
           tl (bf_sizes staging) = [kAttentionLayers, kKvPlanes, kElementsPerPlaneBlock],
           ''CPU staging must have shape [capacity>=count, 10, 2, 4096]''),
        (bf_type block_ids = kInt64, ''CPU block_ids must use int64''),
        (bf_dim block_ids = 1 \<and> bf_contiguous block_ids,
           ''CPU block_ids must be contiguous and one-dimensional''),
        (0 < cnt \<and> cnt \<le> bf_numel block_ids, ''count must be in [1, block_ids.numel()]'')]) (\<lambda>_.
     rfold (\<lambda>row _. rbind (array_load (bf_data block_ids) row) (\<lambda>b.
         torch_check (0 \<le> b \<and> b < bf_sizes pool ! 0) ''CPU block id out of range''))
       [0..cnt - 1] ())"

text \<open>
  \<^verbatim>\<open>memcpy\<close> of one row, \<open>row_bytes\<close> long; the buffers hold 16-byte units.
\<close>

definition row_elements :: int where
  "row_elements = kAttentionLayers * kKvPlanes * kElementsPerPlaneBlock"

definition row_bytes :: int where "row_bytes = row_elements * 2"

definition memcpy :: "'v list \<Rightarrow> int \<Rightarrow> 'v list \<Rightarrow> int \<Rightarrow> int \<Rightarrow> 'v list result" where
  "memcpy dst dst_byte src src_byte bytes =
     (let d = dst_byte div 16; s = src_byte div 16; n = bytes div 16 in
      if 0 \<le> d \<and> d + n \<le> int (length dst) \<and> 0 \<le> s \<and> s + n \<le> int (length src)
      then Inr (take (nat d) dst @ take (nat n) (drop (nat s) src) @ drop (nat (d + n)) dst)
      else Inl (Undefined ''memcpy out of bounds''))"

text \<open>The rows of the parallel loop, in any order \<open>rows\<close>.\<close>

definition cpu_gather_rows ::
  "int list \<Rightarrow> 'v buffer \<Rightarrow> int buffer \<Rightarrow> 'v buffer \<Rightarrow> int \<Rightarrow> 'v buffer result" where
  "cpu_gather_rows rows pool source_blocks staging cnt =
     rbind (check_cpu_transfer_args pool source_blocks staging cnt) (\<lambda>_.
     rbind (rfold (\<lambda>row st. rbind (array_load (bf_data source_blocks) row) (\<lambda>b.
         memcpy st (row * row_bytes) (bf_data pool) (b * row_bytes) row_bytes)) rows (bf_data staging)) (\<lambda>st.
     Inr (staging\<lparr>bf_data := st\<rparr>)))"

definition cpu_scatter_rows ::
  "int list \<Rightarrow> 'v buffer \<Rightarrow> 'v buffer \<Rightarrow> int buffer \<Rightarrow> int \<Rightarrow> 'v buffer result" where
  "cpu_scatter_rows rows staging pool destination_blocks cnt =
     rbind (check_cpu_transfer_args pool destination_blocks staging cnt) (\<lambda>_.
     rbind (rfold (\<lambda>row p. rbind (array_load (bf_data destination_blocks) row) (\<lambda>b.
         memcpy p (b * row_bytes) (bf_data staging) (row * row_bytes) row_bytes)) rows (bf_data pool)) (\<lambda>p.
     Inr (pool\<lparr>bf_data := p\<rparr>)))"

section \<open>Positions\<close>

lemma select_layer_nat: "0 \<le> l \<Longrightarrow> l < 10 \<Longrightarrow> select_layer l = nat l"
proof -
  assume "0 \<le> l" "l < 10"
  then have "l = 0 \<or> l = 1 \<or> l = 2 \<or> l = 3 \<or> l = 4 \<or> l = 5 \<or> l = 6 \<or> l = 7 \<or> l = 8 \<or> l = 9" by presburger
  then show ?thesis by (elim disjE) (simp_all add: select_layer_def)
qed

definition staging_position :: "int \<Rightarrow> int \<Rightarrow> int \<Rightarrow> int \<Rightarrow> int" where
  "staging_position row layer kv_plane f = ((row * 10 + layer) * 2 + kv_plane) * 512 + f"

lemma cursor_position:
  assumes "0 \<le> f" "f < 512" "0 \<le> p" "p < 2" "0 \<le> l" "l < 10"
  shows "transfer_cursor (staging_position r l p f) = (f, p, l, r)"
proof -
  define d where "d = r * 10 + l"
  define c where "c = d * 2 + p"
  have i: "staging_position r l p f = c * 512 + f" by (simp add: c_def d_def staging_position_def)
  have c: "c mod 2 = p" "c div 2 = d" using assms by (simp_all add: c_def)
  have "d mod 10 = l" "d div 10 = r" using assms by (simp_all add: d_def)
  then show ?thesis
    using assms c by (simp add: i transfer_cursor_def transfer_constants Let_def)
qed

lemma position_cursor:
  assumes "0 \<le> i" "i < n * 10240"
  obtains f p l r where "i = staging_position r l p f" "0 \<le> f" "f < 512" "0 \<le> p" "p < 2"
    "0 \<le> l" "l < 10" "0 \<le> r" "r < n"
proof -
  define c where "c = i div 512"
  define d where "d = c div 2"
  have i: "i = c * 512 + i mod 512" by (simp add: c_def)
  have c: "c = d * 2 + c mod 2" by (simp add: d_def)
  have d: "d = d div 10 * 10 + d mod 10" by simp
  have "0 \<le> c" "c < n * 20" using assms by (auto simp: c_def)
  then have "0 \<le> d" "d < n * 10" by (auto simp: d_def)
  then have r: "0 \<le> d div 10" "d div 10 < n" by auto
  have "i = staging_position (d div 10) (d mod 10) (c mod 2) (i mod 512)"
    unfolding staging_position_def using i c d by simp
  then show thesis using r by (intro that [of "d div 10" "d mod 10" "c mod 2" "i mod 512"]) simp_all
qed

lemma position_bounds:
  assumes "0 \<le> f" "f < 512" "0 \<le> p" "p < 2" "0 \<le> l" "l < 10" "0 \<le> r" "r < n"
  shows "0 \<le> staging_position r l p f" "staging_position r l p f < n * 10240"
proof -
  show "0 \<le> staging_position r l p f" using assms by (simp add: staging_position_def)
  have "r * 10 + l < n * 10" using assms digit_bounds [of r n l 10] by simp
  then have "(r * 10 + l) * 2 + p < n * 10 * 2" using assms digit_bounds [of "r * 10 + l" "n * 10" p 2] by simp
  then have "((r * 10 + l) * 2 + p) * 512 + f < n * 10 * 2 * 512"
    using assms digit_bounds [of "(r * 10 + l) * 2 + p" "n * 10 * 2" f 512] by simp
  then show "staging_position r l p f < n * 10240" by (simp add: staging_position_def)
qed

text \<open>The caches and the ids a kernel is launched with.\<close>

definition caches_ok :: "'v list list \<Rightarrow> int \<Rightarrow> bool" where
  "caches_ok layers blocks \<longleftrightarrow> length layers = 10 \<and> 0 \<le> blocks \<and> blocks < 2 ^ 31 \<and>
     (\<forall>t \<in> set layers. int (length t) = 2 * blocks * 512)"

definition ids_ok :: "int list \<Rightarrow> int \<Rightarrow> bool" where
  "ids_ok ids n \<longleftrightarrow> 0 \<le> n \<and> n \<le> int (length ids) \<and> (\<forall>b \<in> set ids. - (2 ^ 31) \<le> b \<and> b < 2 ^ 31)"

definition id_in :: "int list \<Rightarrow> int \<Rightarrow> int \<Rightarrow> bool" where
  "id_in ids blocks row \<longleftrightarrow> 0 \<le> ids ! nat row \<and> ids ! nat row < blocks"

lemma ids_load:
  assumes "ids_ok ids n" "0 \<le> r" "r < n"
  shows "array_load ids r = Inr (ids ! nat r)" and "0 \<le> blocks \<Longrightarrow> blocks < 2 ^ 31 \<Longrightarrow>
    uint32 blocks \<le> uint32 (ids ! nat r) \<longleftrightarrow> \<not> id_in ids blocks r"
proof -
  have r: "nat r < length ids" using assms by (auto simp: ids_ok_def)
  then show "array_load ids r = Inr (ids ! nat r)" using assms by (simp add: array_load_def in_array_def)
  have "ids ! nat r \<in> set ids" using r by simp
  then show "0 \<le> blocks \<Longrightarrow> blocks < 2 ^ 31 \<Longrightarrow>
    uint32 blocks \<le> uint32 (ids ! nat r) \<longleftrightarrow> \<not> id_in ids blocks r"
    using assms unfolding id_in_def by (intro uint32_less_iff) (auto simp: ids_ok_def)
qed

lemma caches_valid:
  assumes "caches_ok layers blocks" "0 \<le> f" "f < 512" "0 \<le> p" "p < 2" "0 \<le> l" "l < 10"
    and "0 \<le> b" "b < blocks"
  shows "in_arrays layers (select_layer l, layer_index blocks p b f)"
proof -
  have "nat l < length layers" using assms by (simp add: caches_ok_def)
  then have len: "int (length (layers ! nat l)) = 2 * blocks * 512"
    using assms(1) by (simp add: caches_ok_def)
  have "0 \<le> p * blocks + b" "p * blocks + b < 2 * blocks"
    using assms digit_bounds [of p 2 b blocks] by simp_all
  then have "0 \<le> layer_index blocks p b f" "layer_index blocks p b f < 2 * blocks * 512"
    using assms digit_bounds [of "p * blocks + b" "2 * blocks" f 512]
    by (simp_all add: layer_index_def transfer_constants)
  then show ?thesis
    using len \<open>nat l < length layers\<close> assms by (simp add: in_arrays_def in_array_def select_layer_nat)
qed

lemma plane_vectors: "kVectorsPerPlaneBlock = 512"
  by (simp add: transfer_constants)

lemma layer_index_inject:
  assumes "0 \<le> f" "f < 512" "0 \<le> f'" "f' < 512" "0 \<le> b" "b < blocks" "0 \<le> b'" "b' < blocks"
  shows "layer_index blocks p b f = layer_index blocks p' b' f' \<longleftrightarrow> p = p' \<and> b = b' \<and> f = f'"
proof -
  have "layer_index blocks p b f = layer_index blocks p' b' f' \<longleftrightarrow> p * blocks + b = p' * blocks + b' \<and> f = f'"
    using assms digit_inject [of f 512 f'] by (simp only: layer_index_def plane_vectors)
  then show ?thesis using assms digit_inject [of b blocks b' p p'] by blast
qed

text \<open>The vector at a position of the caches.\<close>

definition cache_vector :: "'v list list \<Rightarrow> int \<Rightarrow> int \<Rightarrow> int \<Rightarrow> int \<Rightarrow> int \<Rightarrow> 'v" where
  "cache_vector layers blocks l p b f = layers ! nat l ! nat (layer_index blocks p b f)"

lemma caches_load:
  assumes "caches_ok layers blocks" "0 \<le> f" "f < 512" "0 \<le> p" "p < 2" "0 \<le> l" "l < 10"
    and "0 \<le> b" "b < blocks"
  shows "arrays_load layers (select_layer l, layer_index blocks p b f) = Inr (cache_vector layers blocks l p b f)"
  using caches_valid [OF assms] assms
  by (simp add: in_arrays_def arrays_load_def array_load_def cache_vector_def select_layer_nat)

text \<open>The row of a position, and the positions and rows a full launch visits.\<close>

definition cursor_row :: "int \<Rightarrow> int" where
  "cursor_row i = snd (snd (snd (transfer_cursor i)))"

lemma visited_position:
  assumes "set xs = {0..<n * 10240}" and "i \<in> set xs"
  shows "\<exists>f p l r. i = staging_position r l p f \<and> transfer_cursor i = (f, p, l, r) \<and> 0 \<le> f \<and> f < 512 \<and>
      0 \<le> p \<and> p < 2 \<and> 0 \<le> l \<and> l < 10 \<and> 0 \<le> r \<and> r < n"
proof -
  have "0 \<le> i" "i < n * 10240" using assms by auto
  then obtain f p l r where "i = staging_position r l p f" "0 \<le> f" "f < 512" "0 \<le> p" "p < 2"
    "0 \<le> l" "l < 10" "0 \<le> r" "r < n" by (rule position_cursor)
  then show ?thesis using cursor_position by blast
qed

lemma rows_visited:
  assumes xs: "set xs = {0..<n * 10240}"
  shows "(\<forall>i \<in> set xs. P (cursor_row i)) \<longleftrightarrow> (\<forall>r \<in> {0..<n}. P r)"
proof
  assume a: "\<forall>i \<in> set xs. P (cursor_row i)"
  show "\<forall>r \<in> {0..<n}. P r"
  proof
    fix r assume r: "r \<in> {0..<n}"
    then have "staging_position r 0 0 0 \<in> set xs" using xs position_bounds [of 0 0 0 r n] by simp
    then show "P r" using a cursor_position [of 0 0 0 r] by (auto simp: cursor_row_def)
  qed
next
  assume a: "\<forall>r \<in> {0..<n}. P r"
  show "\<forall>i \<in> set xs. P (cursor_row i)" using a visited_position [OF xs] by (fastforce simp: cursor_row_def)
qed

section \<open>The packing kernel\<close>

lemma pack_result:
  assumes c: "caches_ok layers blocks" and ids: "ids_ok ids n"
    and st: "n * 10240 \<le> int (length staging)" and xs: "set xs = {0..<n * 10240}"
  shows "\<exists>st. rfold (pack_step layers ids blocks) xs (staging, e) =
      Inr (st, if \<forall>r \<in> {0..<n}. id_in ids blocks r then e else 1) \<and>
    length st = length staging \<and>
    (\<forall>r l p f. 0 \<le> r \<and> r < n \<and> 0 \<le> l \<and> l < 10 \<and> 0 \<le> p \<and> p < 2 \<and> 0 \<le> f \<and> f < 512 \<and> id_in ids blocks r \<longrightarrow>
       st ! nat (staging_position r l p f) = cache_vector layers blocks l p (ids ! nat r) f) \<and>
    (\<forall>i < length staging. n * 10240 \<le> int i \<longrightarrow> st ! i = staging ! i)"
proof -
  define ok where "ok i = id_in ids blocks (cursor_row i)" for i
  define v where "v i = (let (f, p, l, r) = transfer_cursor i in cache_vector layers blocks l p (ids ! nat r) f)" for i
  have step: "pack_step layers ids blocks i (m, e) =
      (if ok i then rbind (array_store m i (v i)) (\<lambda>m'. Inr (m', e)) else Inr (m, 1))"
    if "i \<in> set xs" for i m e
  proof -
    obtain f p l r where i: "i = staging_position r l p f" "0 \<le> f" "f < 512" "0 \<le> p" "p < 2"
      "0 \<le> l" "l < 10" "0 \<le> r" "r < n" and cur: "transfer_cursor i = (f, p, l, r)"
      using visited_position [OF xs \<open>i \<in> set xs\<close>] by blast
    have b: "0 \<le> blocks" "blocks < 2 ^ 31" using c by (simp_all add: caches_ok_def)
    note un = ids_load [OF ids i(8,9)]
    show ?thesis
    proof (cases "id_in ids blocks r")
      case True
      then have "arrays_load layers (select_layer l, layer_index blocks p (ids ! nat r) f) = Inr (v i)"
        using caches_load [OF c i(2-7)] cur by (simp add: v_def id_in_def)
      then show ?thesis using True cur un(1) un(2) [OF b] by (simp add: ok_def cursor_row_def)
    next
      case False
      then show ?thesis using cur un(1) un(2) [OF b] by (simp add: ok_def cursor_row_def)
    qed
  qed
  have valid: "\<forall>i \<in> set xs. ok i \<longrightarrow> in_array staging i" using xs st by (auto simp: in_array_def)
  obtain m' where
    run: "rfold (pack_step layers ids blocks) xs (staging, e) = Inr (m', if \<forall>i \<in> set xs. ok i then e else 1)"
    and val: "\<forall>b. in_array m' b = in_array staging b"
    and other: "\<forall>b. (\<forall>i \<in> set xs. ok i \<longrightarrow> i \<noteq> b) \<longrightarrow> array_load m' b = array_load staging b"
    and stored: "\<forall>i \<in> set xs. ok i \<longrightarrow> (\<forall>y \<in> set xs. ok y \<longrightarrow> y = i \<longrightarrow> v y = v i) \<longrightarrow> array_load m' i = Inr (v i)"
    using flat.guarded_stores [OF step valid, of e] by blast
  have flag: "(\<forall>i \<in> set xs. ok i) \<longleftrightarrow> (\<forall>r \<in> {0..<n}. id_in ids blocks r)"
    unfolding ok_def by (rule rows_visited [OF xs])
  have len: "length m' = length staging" using val in_array_length by blast
  have "m' ! nat (staging_position r l p f) = cache_vector layers blocks l p (ids ! nat r) f"
    if a: "0 \<le> r" "r < n" "0 \<le> l" "l < 10" "0 \<le> p" "p < 2" "0 \<le> f" "f < 512" "id_in ids blocks r" for r l p f
  proof -
    let ?i = "staging_position r l p f"
    have cur: "transfer_cursor ?i = (f, p, l, r)" using a cursor_position by simp
    have "?i \<in> set xs" using xs position_bounds a by simp
    moreover have "ok ?i" using a cur by (simp add: ok_def cursor_row_def)
    ultimately have "array_load m' ?i = Inr (v ?i)" using stored by blast
    then show ?thesis using cur by (simp add: array_loadI v_def)
  qed
  moreover have "m' ! i = staging ! i" if "i < length staging" "n * 10240 \<le> int i" for i
  proof -
    have "array_load m' (int i) = array_load staging (int i)" using other xs that by fastforce
    then show ?thesis using that len by (simp add: array_load_def in_array_def)
  qed
  ultimately show ?thesis using run flag len by (intro exI [of _ m']) (simp add: run flag)
qed


section \<open>The scattering kernel\<close>

lemma arrays_store_shape: "arrays_store m a v = Inr m' \<Longrightarrow> map length m' = map length m"
  by (auto simp: arrays_store_def array_store_def rbind_eq_Inr_iff map_update list_update_id
      split: if_splits)
    (metis length_map list_update_id nth_map)

lemma caches_ok_cong:
  assumes "map length ls = map length layers"
  shows "caches_ok ls blocks = caches_ok layers blocks"
proof -
  have "length ls = length layers" using assms by (metis length_map)
  moreover have "length ` set ls = length ` set layers" using assms by (metis set_map)
  then have "(\<forall>t \<in> set ls. int (length t) = k) \<longleftrightarrow> (\<forall>t \<in> set layers. int (length t) = k)" for k
    by (metis (mono_tags, lifting) imageE imageI)
  ultimately show ?thesis by (simp add: caches_ok_def)
qed

lemma scatter_step_shape:
  "scatter_step staging ids blocks i s = Inr t \<Longrightarrow> map length (fst t) = map length (fst s)"
  by (cases s) (auto simp: Let_def rbind_eq_Inr_iff dest: arrays_store_shape split: prod.splits if_splits)

lemma scatter_result:
  assumes c: "caches_ok layers blocks" and ids: "ids_ok ids n"
    and st: "n * 10240 \<le> int (length staging)" and xs: "set xs = {0..<n * 10240}"
  shows "\<exists>ls. rfold (scatter_step staging ids blocks) xs (layers, e) =
      Inr (ls, if \<forall>r \<in> {0..<n}. id_in ids blocks r then e else 1) \<and>
    map length ls = map length layers \<and>
    (\<forall>r l p f. 0 \<le> r \<and> r < n \<and> 0 \<le> l \<and> l < 10 \<and> 0 \<le> p \<and> p < 2 \<and> 0 \<le> f \<and> f < 512 \<and> id_in ids blocks r \<and>
       (\<forall>q \<in> {0..<n}. ids ! nat q = ids ! nat r \<longrightarrow> q = r) \<longrightarrow>
       cache_vector ls blocks l p (ids ! nat r) f = staging ! nat (staging_position r l p f)) \<and>
    (\<forall>l p b f. 0 \<le> l \<and> l < 10 \<and> 0 \<le> p \<and> p < 2 \<and> 0 \<le> f \<and> f < 512 \<and> 0 \<le> b \<and> b < blocks \<and>
       (\<forall>q \<in> {0..<n}. ids ! nat q \<noteq> b) \<longrightarrow>
       cache_vector ls blocks l p b f = cache_vector layers blocks l p b f)"
proof -
  define ok where "ok i = id_in ids blocks (cursor_row i)" for i
  define addr where "addr i = (let (f, p, l, r) = transfer_cursor i in
    (select_layer l, layer_index blocks p (ids ! nat r) f))" for i
  define v where "v i = staging ! nat i" for i
  have b: "0 \<le> blocks" "blocks < 2 ^ 31" using c by (simp_all add: caches_ok_def)
  note pos = visited_position [OF xs]
  have step: "scatter_step staging ids blocks i (m, e) =
      (if ok i then rbind (arrays_store m (addr i) (v i)) (\<lambda>m'. Inr (m', e)) else Inr (m, 1))"
    if i: "i \<in> set xs" for i m e
  proof -
    obtain f p l r where cur: "transfer_cursor i = (f, p, l, r)" and r: "0 \<le> r" "r < n" using pos [OF i] by blast
    have "in_array staging i" using i xs st by (auto simp: in_array_def)
    then have "array_load staging i = Inr (v i)" by (simp add: array_load_def v_def)
    then show ?thesis
      using cur ids_load(1) [OF ids r] ids_load(2) [OF ids r b] by (simp add: ok_def cursor_row_def addr_def)
  qed
  have valid: "\<forall>i \<in> set xs. ok i \<longrightarrow> in_arrays layers (addr i)"
  proof (intro ballI impI)
    fix i assume i: "i \<in> set xs" "ok i"
    obtain f p l r where cur: "transfer_cursor i = (f, p, l, r)" "0 \<le> f" "f < 512" "0 \<le> p" "p < 2"
      "0 \<le> l" "l < 10" using pos [OF i(1)] by blast
    then show "in_arrays layers (addr i)"
      using caches_valid [OF c cur(2-7)] i(2) by (simp add: addr_def ok_def cursor_row_def id_in_def)
  qed
  obtain ls where
    run: "rfold (scatter_step staging ids blocks) xs (layers, e) = Inr (ls, if \<forall>i \<in> set xs. ok i then e else 1)"
    and other: "\<forall>a. (\<forall>i \<in> set xs. ok i \<longrightarrow> addr i \<noteq> a) \<longrightarrow> arrays_load ls a = arrays_load layers a"
    and stored: "\<forall>i \<in> set xs. ok i \<longrightarrow> (\<forall>y \<in> set xs. ok y \<longrightarrow> addr y = addr i \<longrightarrow> v y = v i) \<longrightarrow>
       arrays_load ls (addr i) = Inr (v i)"
    using layered.guarded_stores [where f = "scatter_step staging ids blocks", OF step valid, of e] by blast
  have shape: "map length ls = map length layers"
    using rfold_invariant [OF run, of "\<lambda>s. map length (fst s) = map length layers"] scatter_step_shape by fastforce
  then have c': "caches_ok ls blocks" using c caches_ok_cong by blast
  have "cache_vector ls blocks l p (ids ! nat r) f = staging ! nat (staging_position r l p f)"
    if a: "0 \<le> r" "r < n" "0 \<le> l" "l < 10" "0 \<le> p" "p < 2" "0 \<le> f" "f < 512" "id_in ids blocks r"
      and only: "\<forall>q \<in> {0..<n}. ids ! nat q = ids ! nat r \<longrightarrow> q = r" for r l p f
  proof -
    let ?i = "staging_position r l p f"
    have cur: "transfer_cursor ?i = (f, p, l, r)" using a cursor_position by simp
    have i: "?i \<in> set xs" using xs position_bounds a by simp
    have oki: "ok ?i" using a cur by (simp add: ok_def cursor_row_def)
    have same: "y = ?i" if y: "y \<in> set xs" "ok y" "addr y = addr ?i" for y
    proof -
      obtain f' p' l' r' where y': "y = staging_position r' l' p' f'" "transfer_cursor y = (f', p', l', r')"
        "0 \<le> f'" "f' < 512" "0 \<le> p'" "p' < 2" "0 \<le> l'" "l' < 10" "0 \<le> r'" "r' < n" using pos [OF y(1)] by blast
      have "select_layer l' = select_layer l"
        "layer_index blocks p' (ids ! nat r') f' = layer_index blocks p (ids ! nat r) f"
        using y(3) y'(2) cur by (simp_all add: addr_def)
      then have "l' = l" "p' = p" "ids ! nat r' = ids ! nat r" "f' = f"
        using y y' a layer_index_inject [of f' f "ids ! nat r'" blocks "ids ! nat r" p' p]
        by (simp_all add: select_layer_nat ok_def cursor_row_def id_in_def)
      moreover have "r' = r" using only y' calculation by simp
      ultimately show ?thesis using y' by simp
    qed
    have "arrays_load ls (addr ?i) = Inr (v ?i)" using stored i oki same by blast
    moreover have "arrays_load ls (addr ?i) = Inr (cache_vector ls blocks l p (ids ! nat r) f)"
      using caches_load [OF c' a(7,8,5,6,3,4)] a(9) cur by (simp add: addr_def id_in_def)
    ultimately show ?thesis by (simp add: v_def)
  qed
  moreover have "cache_vector ls blocks l p b' f = cache_vector layers blocks l p b' f"
    if a: "0 \<le> l" "l < 10" "0 \<le> p" "p < 2" "0 \<le> f" "f < 512" "0 \<le> b'" "b' < blocks"
      "\<forall>q \<in> {0..<n}. ids ! nat q \<noteq> b'" for l p b' f
  proof -
    have "addr i \<noteq> (select_layer l, layer_index blocks p b' f)" if i: "i \<in> set xs" "ok i" for i
    proof
      assume e: "addr i = (select_layer l, layer_index blocks p b' f)"
      obtain f' p' l' r' where y': "transfer_cursor i = (f', p', l', r')"
        "0 \<le> f'" "f' < 512" "0 \<le> r'" "r' < n" using pos [OF i(1)] by blast
      then have "ids ! nat r' = b'"
        using e i(2) a layer_index_inject [of f' f "ids ! nat r'" blocks b' p' p]
        by (simp add: addr_def ok_def cursor_row_def id_in_def)
      then show False using a(9) y' by simp
    qed
    then have "arrays_load ls (select_layer l, layer_index blocks p b' f) =
      arrays_load layers (select_layer l, layer_index blocks p b' f)" using other by blast
    then show ?thesis using caches_load [OF c' a(5,6,3,4,1,2,7,8)] caches_load [OF c a(5,6,3,4,1,2,7,8)] by simp
  qed
  moreover have "(\<forall>i \<in> set xs. ok i) \<longleftrightarrow> (\<forall>r \<in> {0..<n}. id_in ids blocks r)"
    unfolding ok_def by (rule rows_visited [OF xs])
  ultimately show ?thesis using run shape by (intro exI [of _ ls]) (simp add: run)
qed

section \<open>Copies of rows\<close>

lemma row_bytes_units: "(b * row_bytes) div 16 = b * 10240" "row_bytes div 16 = 10240"
  by (simp_all add: row_bytes_def row_elements_def transfer_constants)

lemma memcpy_row:
  assumes "0 \<le> t" "(t + 1) * 10240 \<le> int (length dst)" "0 \<le> s" "(s + 1) * 10240 \<le> int (length src)"
  shows "\<exists>dst'. memcpy dst (t * row_bytes) src (s * row_bytes) row_bytes = Inr dst' \<and> length dst' = length dst \<and>
    (\<forall>b k. 0 \<le> b \<and> 0 \<le> k \<and> k < 10240 \<and> b * 10240 + k < int (length dst) \<longrightarrow>
       dst' ! nat (b * 10240 + k) = (if b = t then src ! nat (s * 10240 + k) else dst ! nat (b * 10240 + k)))"
proof -
  let ?d = "nat (t * 10240)" and ?s = "nat (s * 10240)"
  let ?r = "take ?d dst @ take 10240 (drop ?s src) @ drop (?d + 10240) dst"
  have d: "?d + 10240 \<le> length dst" and s: "?s + 10240 \<le> length src" using assms by simp_all
  have r: "memcpy dst (t * row_bytes) src (s * row_bytes) row_bytes = Inr ?r"
    using assms by (simp add: memcpy_def row_bytes_units Let_def nat_add_distrib)
  have "?r ! nat (b * 10240 + k) = (if b = t then src ! nat (s * 10240 + k) else dst ! nat (b * 10240 + k))"
    if k: "0 \<le> b" "0 \<le> k" "k < 10240" "b * 10240 + k < int (length dst)" for b k
  proof -
    consider "b < t" | "b = t" | "t < b" by linarith
    then show ?thesis
    proof cases
      case 1
      then have "nat (b * 10240 + k) < ?d" using k by linarith
      then show ?thesis using 1 d by (simp add: nth_append)
    next
      case 2
      then have "nat (b * 10240 + k) = ?d + nat k" "nat (s * 10240 + k) = ?s + nat k"
        using k assms by (simp_all add: nat_add_distrib)
      moreover have "nat k < 10240" "nat k < length src - ?s" using k s by linarith+
      ultimately show ?thesis using 2 d s k by (simp add: nth_append)
    next
      case 3
      then have "?d + 10240 \<le> nat (b * 10240 + k)" using k assms by linarith
      then have "\<not> nat (b * 10240 + k) - ?d < 10240" "\<not> nat (b * 10240 + k) < ?d" by linarith+
      then show ?thesis using 3 d s k by (simp add: nth_append)
    qed
  qed
  moreover have "length ?r = length dst" using d s by simp
  ultimately show ?thesis using r by blast
qed

text \<open>Rows copied to distinct places, in any order.\<close>

lemma copy_rows:
  assumes "\<forall>r \<in> set rows. 0 \<le> T r \<and> (T r + 1) * 10240 \<le> int (length dst) \<and>
      0 \<le> S r \<and> (S r + 1) * 10240 \<le> int (length src)"
    and "\<And>r m. r \<in> set rows \<Longrightarrow> f r m = memcpy m (T r * row_bytes) src (S r * row_bytes) row_bytes"
    and "inj_on T (set rows)"
  shows "\<exists>dst'. rfold f rows dst = Inr dst' \<and> length dst' = length dst \<and>
    (\<forall>r \<in> set rows. \<forall>k. 0 \<le> k \<and> k < 10240 \<longrightarrow> dst' ! nat (T r * 10240 + k) = src ! nat (S r * 10240 + k)) \<and>
    (\<forall>b k. 0 \<le> b \<and> 0 \<le> k \<and> k < 10240 \<and> b * 10240 + k < int (length dst) \<and> b \<notin> T ` set rows \<longrightarrow>
       dst' ! nat (b * 10240 + k) = dst ! nat (b * 10240 + k))"
  using assms
proof (induction rows arbitrary: dst)
  case Nil
  then show ?case by simp
next
  case (Cons r rows)
  obtain d1 where d1: "f r dst = Inr d1" "length d1 = length dst"
    and at1: "\<And>b k. 0 \<le> b \<Longrightarrow> 0 \<le> k \<Longrightarrow> k < 10240 \<Longrightarrow> b * 10240 + k < int (length dst) \<Longrightarrow>
       d1 ! nat (b * 10240 + k) = (if b = T r then src ! nat (S r * 10240 + k) else dst ! nat (b * 10240 + k))"
    using memcpy_row [of "T r" dst "S r" src] Cons.prems(1,2) by auto
  have "\<exists>dst'. rfold f rows d1 = Inr dst' \<and> length dst' = length d1 \<and>
    (\<forall>q \<in> set rows. \<forall>k. 0 \<le> k \<and> k < 10240 \<longrightarrow> dst' ! nat (T q * 10240 + k) = src ! nat (S q * 10240 + k)) \<and>
    (\<forall>b k. 0 \<le> b \<and> 0 \<le> k \<and> k < 10240 \<and> b * 10240 + k < int (length d1) \<and> b \<notin> T ` set rows \<longrightarrow>
       dst' ! nat (b * 10240 + k) = d1 ! nat (b * 10240 + k))"
    using Cons.prems d1(2) by (intro Cons.IH) auto
  then obtain d2 where d2: "rfold f rows d1 = Inr d2" "length d2 = length d1"
    and stored: "\<And>q k. q \<in> set rows \<Longrightarrow> 0 \<le> k \<Longrightarrow> k < 10240 \<Longrightarrow> d2 ! nat (T q * 10240 + k) = src ! nat (S q * 10240 + k)"
    and rest: "\<And>b k. 0 \<le> b \<Longrightarrow> 0 \<le> k \<Longrightarrow> k < 10240 \<Longrightarrow> b * 10240 + k < int (length d1) \<Longrightarrow> b \<notin> T ` set rows \<Longrightarrow>
       d2 ! nat (b * 10240 + k) = d1 ! nat (b * 10240 + k)" by blast
  have r: "0 \<le> T r" "(T r + 1) * 10240 \<le> int (length dst)" using Cons.prems(1) by auto
  have "d2 ! nat (T q * 10240 + k) = src ! nat (S q * 10240 + k)"
    if "q \<in> set (r # rows)" "0 \<le> k" "k < 10240" for q k
  proof (cases "q \<in> set rows")
    case False
    then have "q = r" "T r \<notin> T ` set rows" using that Cons.prems(3) by (auto simp: inj_on_def)
    then show ?thesis using rest [of "T r" k] at1 [of "T r" k] that r d1(2) by simp
  qed (use stored that in blast)
  moreover have "d2 ! nat (b * 10240 + k) = dst ! nat (b * 10240 + k)"
    if "0 \<le> b" "0 \<le> k" "k < 10240" "b * 10240 + k < int (length dst)" "b \<notin> T ` set (r # rows)" for b k
    using rest [of b k] at1 [of b k] that d1(2) by simp
  ultimately show ?case using d1 d2 by (intro exI [of _ d2]) simp
qed

section \<open>What the checks establish\<close>

text \<open>
  The storage of a contiguous tensor: eight halves to the vector, one integer to the id. The ids
  are 32-bit, and the numbers of blocks and rows fit in 32 bits.
\<close>

definition half_units :: "'v buffer \<Rightarrow> bool" where
  "half_units t \<longleftrightarrow> 8 * int (length (bf_data t)) = bf_numel t"

definition id_units :: "int buffer \<Rightarrow> bool" where
  "id_units t \<longleftrightarrow> int (length (bf_data t)) = bf_numel t"

definition transfer_ready :: "'v buffer list \<Rightarrow> int buffer \<Rightarrow> 'v buffer \<Rightarrow> int buffer \<Rightarrow> int \<Rightarrow> bool" where
  "transfer_ready layers ids staging error_flag n \<longleftrightarrow>
     check_gpu_transfer_args layers ids staging error_flag n = Inr () \<and>
     (\<forall>t \<in> set layers. half_units t) \<and> half_units staging \<and> id_units ids \<and>
     (\<forall>b \<in> set (bf_data ids). int32 b = b) \<and> bf_sizes (layers ! 0) ! 1 < 2 ^ 31 \<and> n < 2 ^ 31"

definition cache_blocks :: "'v buffer list \<Rightarrow> int" where
  "cache_blocks layers = bf_sizes (layers ! 0) ! 1"

lemma rfold_checks: "rfold (\<lambda>t _. g t) ts () = Inr () \<longleftrightarrow> (\<forall>t \<in> set ts. g t = Inr ())"
  by (induction ts) (auto simp: rbind_eq_Inr_iff)

lemma checked_layers:
  assumes "check_gpu_layers layers = Inr ()" and "t \<in> set layers"
  shows "bf_sizes t = [2, cache_blocks layers, 4096]" and "length layers = 10"
proof -
  obtain b where len: "int (length layers) = 10" and b: "bf_size (layers ! 0) 1 = Inr b"
    and each: "rfold (\<lambda>t _. check_gpu_layer (bf_device (layers ! 0)) b t) layers () = Inr ()"
    using assms(1) unfolding check_gpu_layers_def
    by (auto simp: rbind_eq_Inr_iff torch_check_eq_Inr_iff transfer_constants)
  show "length layers = 10" using len by simp
  have "b = cache_blocks layers" using b by (simp add: bf_size_def cache_blocks_def split: if_splits)
  moreover have "check_gpu_layer (bf_device (layers ! 0)) b t = Inr ()"
    using each assms(2) unfolding rfold_checks by blast
  ultimately show "bf_sizes t = [2, cache_blocks layers, 4096]"
    by (simp add: check_gpu_layer_def torch_checks_Cons transfer_constants)
qed

lemma ready_layers:
  assumes "transfer_ready layers ids staging error_flag n"
  shows "caches_ok (map bf_data layers) (cache_blocks layers)" and "int32 (cache_blocks layers) = cache_blocks layers"
    and "length layers = 10"
proof -
  have chk: "check_gpu_layers layers = Inr ()" and half: "\<forall>t \<in> set layers. half_units t"
    and small: "cache_blocks layers < 2 ^ 31"
    using assms by (auto simp: transfer_ready_def check_gpu_transfer_args_def rbind_eq_Inr_iff cache_blocks_def)
  show ten: "length layers = 10"
    using chk by (auto simp: check_gpu_layers_def rbind_eq_Inr_iff torch_check_eq_Inr_iff transfer_constants)
  then have "layers ! 0 \<in> set layers" by simp
  moreover have len: "int (length (bf_data t)) = 2 * cache_blocks layers * 512" if "t \<in> set layers" for t
    using half that checked_layers(1) [OF chk that] by (auto simp: half_units_def bf_numel_def)
  ultimately have pos: "0 \<le> cache_blocks layers" by (metis mult_less_0_iff not_less of_nat_0_le_iff zero_less_numeral)
  then show "int32 (cache_blocks layers) = cache_blocks layers" using small by (simp add: int32_id)
  show "caches_ok (map bf_data layers) (cache_blocks layers)"
    using ten pos small len by (simp add: caches_ok_def)
qed

lemma ready_ids:
  assumes "transfer_ready layers ids staging error_flag n"
  shows "ids_ok (bf_data ids) n" and "int32 n = n" and "0 < n"
proof -
  have n: "0 < n" "n \<le> bf_numel ids" "n < 2 ^ 31" and ids: "id_units ids" "\<forall>b \<in> set (bf_data ids). int32 b = b"
    using assms
    by (auto simp: transfer_ready_def check_gpu_transfer_args_def rbind_eq_Inr_iff Let_def torch_checks_Cons)
  have "- (2 ^ 31) \<le> b \<and> b < 2 ^ 31" if "b \<in> set (bf_data ids)" for b
    using ids(2) that by (metis int32_def signed_take_bit_int_greater_eq_minus_exp signed_take_bit_int_less_exp)
  then show "ids_ok (bf_data ids) n" using n ids(1) by (simp add: ids_ok_def id_units_def)
  show "int32 n = n" "0 < n" using n by (simp_all add: int32_id)
qed

lemma ready_staging:
  assumes "transfer_ready layers ids staging error_flag n"
  shows "n * 10240 \<le> int (length (bf_data staging))"
proof -
  have s: "bf_dim staging = 4" "n \<le> bf_sizes staging ! 0" "tl (bf_sizes staging) = [10, 2, 4096]" "half_units staging"
    using assms
    by (auto simp: transfer_ready_def check_gpu_transfer_args_def rbind_eq_Inr_iff Let_def torch_checks_Cons
        transfer_constants)
  then obtain cap where "bf_sizes staging = [cap, 10, 2, 4096]" "n \<le> cap"
    by (cases "bf_sizes staging") (auto simp: bf_dim_def)
  then show ?thesis using s(4) by (simp add: half_units_def bf_numel_def)
qed

lemma transfer_visits:
  assumes "transfer_schedule n xs" and "int32 n = n" and "0 < n"
  shows "set xs = {0..<n * 10240}"
proof -
  have "0 < (n * 10240 + 255) div 256" using assms(3) by simp
  then have "0 < launch_blocks n"
    using assms by (simp add: launch_blocks_def Let_def transfer_constants int32_id sdiv_nonneg)
  then show ?thesis
    using assms interleave_grid_stride(1) [of "launch_blocks n" kThreads "n * 10240" xs]
    by (simp add: transfer_schedule_def transfer_constants)
qed

section \<open>Packing and scattering as the host calls them\<close>

lemma pack_block_major_runs:
  assumes ready: "transfer_ready layers ids staging error_flag n" and xs: "transfer_schedule n xs"
  shows "\<exists>st. pack_block_major xs layers ids staging error_flag n =
      Inr (staging\<lparr>bf_data := st\<rparr>, error_flag\<lparr>bf_data :=
        [if \<forall>r \<in> {0..<n}. id_in (bf_data ids) (cache_blocks layers) r then bf_data error_flag ! 0 else 1]\<rparr>) \<and>
    length st = length (bf_data staging) \<and>
    (\<forall>r l p f. 0 \<le> r \<and> r < n \<and> 0 \<le> l \<and> l < 10 \<and> 0 \<le> p \<and> p < 2 \<and> 0 \<le> f \<and> f < 512 \<and>
       id_in (bf_data ids) (cache_blocks layers) r \<longrightarrow>
       st ! nat (staging_position r l p f) =
       cache_vector (map bf_data layers) (cache_blocks layers) l p (bf_data ids ! nat r) f)"
proof -
  note ids = ready_ids [OF ready] and ls = ready_layers [OF ready]
  have args: "check_gpu_transfer_args layers ids staging error_flag n = Inr ()"
    using ready by (simp add: transfer_ready_def)
  show ?thesis
    using pack_result [OF ls(1) ids(1) ready_staging [OF ready] transfer_visits [OF xs ids(2,3)],
        of "bf_data error_flag ! 0"] args ls(2)
    by (auto simp: pack_block_major_def cache_blocks_def Let_def)
qed

lemma scatter_block_major_runs:
  assumes ready: "transfer_ready layers ids staging error_flag n" and xs: "transfer_schedule n xs"
  shows "\<exists>ls. scatter_block_major xs staging ids layers error_flag n =
      Inr (map2 (\<lambda>t d. t\<lparr>bf_data := d\<rparr>) layers ls, error_flag\<lparr>bf_data :=
        [if \<forall>r \<in> {0..<n}. id_in (bf_data ids) (cache_blocks layers) r then bf_data error_flag ! 0 else 1]\<rparr>) \<and>
    map length ls = map length (map bf_data layers) \<and>
    (\<forall>r l p f. 0 \<le> r \<and> r < n \<and> 0 \<le> l \<and> l < 10 \<and> 0 \<le> p \<and> p < 2 \<and> 0 \<le> f \<and> f < 512 \<and>
       id_in (bf_data ids) (cache_blocks layers) r \<and>
       (\<forall>q \<in> {0..<n}. bf_data ids ! nat q = bf_data ids ! nat r \<longrightarrow> q = r) \<longrightarrow>
       cache_vector ls (cache_blocks layers) l p (bf_data ids ! nat r) f =
       bf_data staging ! nat (staging_position r l p f)) \<and>
    (\<forall>l p b f. 0 \<le> l \<and> l < 10 \<and> 0 \<le> p \<and> p < 2 \<and> 0 \<le> f \<and> f < 512 \<and> 0 \<le> b \<and> b < cache_blocks layers \<and>
       (\<forall>q \<in> {0..<n}. bf_data ids ! nat q \<noteq> b) \<longrightarrow>
       cache_vector ls (cache_blocks layers) l p b f =
       cache_vector (map bf_data layers) (cache_blocks layers) l p b f)"
proof -
  note ids = ready_ids [OF ready] and ls = ready_layers [OF ready]
  have args: "check_gpu_transfer_args layers ids staging error_flag n = Inr ()"
    using ready by (simp add: transfer_ready_def)
  obtain l' where r: "rfold (scatter_step (bf_data staging) (bf_data ids) (cache_blocks layers)) xs
      (map bf_data layers, bf_data error_flag ! 0) =
      Inr (l', if \<forall>r \<in> {0..<n}. id_in (bf_data ids) (cache_blocks layers) r then bf_data error_flag ! 0 else 1)"
    and rest: "map length l' = map length (map bf_data layers) \<and>
    (\<forall>r l p f. 0 \<le> r \<and> r < n \<and> 0 \<le> l \<and> l < 10 \<and> 0 \<le> p \<and> p < 2 \<and> 0 \<le> f \<and> f < 512 \<and>
       id_in (bf_data ids) (cache_blocks layers) r \<and>
       (\<forall>q \<in> {0..<n}. bf_data ids ! nat q = bf_data ids ! nat r \<longrightarrow> q = r) \<longrightarrow>
       cache_vector l' (cache_blocks layers) l p (bf_data ids ! nat r) f =
       bf_data staging ! nat (staging_position r l p f)) \<and>
    (\<forall>l p b f. 0 \<le> l \<and> l < 10 \<and> 0 \<le> p \<and> p < 2 \<and> 0 \<le> f \<and> f < 512 \<and> 0 \<le> b \<and> b < cache_blocks layers \<and>
       (\<forall>q \<in> {0..<n}. bf_data ids ! nat q \<noteq> b) \<longrightarrow>
       cache_vector l' (cache_blocks layers) l p b f =
       cache_vector (map bf_data layers) (cache_blocks layers) l p b f)"
    using scatter_result [OF ls(1) ids(1) ready_staging [OF ready] transfer_visits [OF xs ids(2,3)],
        of "bf_data error_flag ! 0"] by blast
  have "scatter_block_major xs staging ids layers error_flag n =
      Inr (map2 (\<lambda>t d. t\<lparr>bf_data := d\<rparr>) layers l', error_flag\<lparr>bf_data :=
        [if \<forall>r \<in> {0..<n}. id_in (bf_data ids) (cache_blocks layers) r then bf_data error_flag ! 0 else 1]\<rparr>)"
    using args ls(2) r by (simp add: scatter_block_major_def cache_blocks_def Let_def)
  then show ?thesis using rest by blast
qed

section \<open>The host pool\<close>

definition cpu_ready :: "'v buffer \<Rightarrow> int buffer \<Rightarrow> 'v buffer \<Rightarrow> int \<Rightarrow> bool" where
  "cpu_ready pool ids staging n \<longleftrightarrow> check_cpu_transfer_args pool ids staging n = Inr () \<and>
     half_units pool \<and> half_units staging \<and> id_units ids"

lemma block_row_length:
  assumes "bf_dim t = 4" "tl (bf_sizes t) = [10, 2, 4096]" "half_units t"
  shows "int (length (bf_data t)) = bf_sizes t ! 0 * 10240"
proof -
  obtain cap where "bf_sizes t = [cap, 10, 2, 4096]"
    using assms by (cases "bf_sizes t") (auto simp: bf_dim_def)
  then show ?thesis using assms(3) by (simp add: half_units_def bf_numel_def)
qed

lemma cpu_ready_facts:
  assumes "cpu_ready pool ids staging n"
  shows "0 < n" and "n * 10240 \<le> int (length (bf_data staging))"
    and "r \<in> {0..<n} \<Longrightarrow> array_load (bf_data ids) r = Inr (bf_data ids ! nat r) \<and>
      0 \<le> bf_data ids ! nat r \<and> (bf_data ids ! nat r + 1) * 10240 \<le> int (length (bf_data pool))"
proof -
  have c: "bf_dim pool = 4" "tl (bf_sizes pool) = [10, 2, 4096]" "bf_dim staging = 4"
    "n \<le> bf_sizes staging ! 0" "tl (bf_sizes staging) = [10, 2, 4096]" "0 < n"
    and each: "rfold (\<lambda>row _. rbind (array_load (bf_data ids) row) (\<lambda>b.
         torch_check (0 \<le> b \<and> b < bf_sizes pool ! 0) ''CPU block id out of range'')) [0..n - 1] () = Inr ()"
    using assms
    by (auto simp: cpu_ready_def check_cpu_transfer_args_def rbind_eq_Inr_iff torch_checks_Cons transfer_constants)
  have half: "half_units pool" "half_units staging" using assms by (simp_all add: cpu_ready_def)
  show "0 < n" by fact
  show "n * 10240 \<le> int (length (bf_data staging))" using block_row_length [OF c(3,5) half(2)] c(4) by simp
  assume "r \<in> {0..<n}"
  then have "r \<in> set [0..n - 1]" by simp
  then have "rbind (array_load (bf_data ids) r) (\<lambda>b.
      torch_check (0 \<le> b \<and> b < bf_sizes pool ! 0) ''CPU block id out of range'') = Inr ()"
    using each unfolding rfold_checks by blast
  then have "array_load (bf_data ids) r = Inr (bf_data ids ! nat r)"
    "0 \<le> bf_data ids ! nat r" "bf_data ids ! nat r + 1 \<le> bf_sizes pool ! 0"
    by (auto simp: rbind_eq_Inr_iff array_load_def torch_check_eq_Inr_iff split: if_splits)
  moreover have "(bf_data ids ! nat r + 1) * 10240 \<le> bf_sizes pool ! 0 * 10240"
    using calculation(3) by (intro mult_right_mono) simp_all
  ultimately show "array_load (bf_data ids) r = Inr (bf_data ids ! nat r) \<and>
      0 \<le> bf_data ids ! nat r \<and> (bf_data ids ! nat r + 1) * 10240 \<le> int (length (bf_data pool))"
    using block_row_length [OF c(1,2) half(1)] by simp
qed

lemma staging_rows:
  assumes "cpu_ready pool ids staging n" and "r \<in> {0..<n}"
  shows "0 \<le> r \<and> (r + 1) * 10240 \<le> int (length (bf_data staging))"
proof -
  have "(r + 1) * 10240 \<le> n * 10240" using assms(2) by (intro mult_right_mono) simp_all
  then show ?thesis using cpu_ready_facts(2) [OF assms(1)] assms(2) by simp
qed

lemma cpu_scatter_runs:
  assumes ready: "cpu_ready pool ids staging n" and rows: "mset rows = mset [0..n - 1]"
    and distinct: "inj_on (\<lambda>r. bf_data ids ! nat r) {0..<n}"
  shows "\<exists>p. cpu_scatter_rows rows staging pool ids n = Inr (pool\<lparr>bf_data := p\<rparr>) \<and>
    length p = length (bf_data pool) \<and>
    (\<forall>r \<in> {0..<n}. \<forall>k. 0 \<le> k \<and> k < 10240 \<longrightarrow>
       p ! nat (bf_data ids ! nat r * 10240 + k) = bf_data staging ! nat (r * 10240 + k))"
proof -
  have set: "set rows = {0..<n}" using rows by (rule mset_upto_set)
  let ?f = "\<lambda>row p. rbind (array_load (bf_data ids) row) (\<lambda>b.
         memcpy p (b * row_bytes) (bf_data staging) (row * row_bytes) row_bytes)"
  have "\<exists>p. rfold ?f rows (bf_data pool) = Inr p \<and> length p = length (bf_data pool) \<and>
    (\<forall>r \<in> set rows. \<forall>k. 0 \<le> k \<and> k < 10240 \<longrightarrow>
       p ! nat (bf_data ids ! nat r * 10240 + k) = bf_data staging ! nat (r * 10240 + k)) \<and>
    (\<forall>b k. 0 \<le> b \<and> 0 \<le> k \<and> k < 10240 \<and> b * 10240 + k < int (length (bf_data pool)) \<and>
       b \<notin> (\<lambda>r. bf_data ids ! nat r) ` set rows \<longrightarrow>
       p ! nat (b * 10240 + k) = bf_data pool ! nat (b * 10240 + k))"
  proof (rule copy_rows)
    show "\<forall>r \<in> set rows. 0 \<le> bf_data ids ! nat r \<and> (bf_data ids ! nat r + 1) * 10240 \<le> int (length (bf_data pool)) \<and>
      0 \<le> r \<and> (r + 1) * 10240 \<le> int (length (bf_data staging))"
      using cpu_ready_facts(3) [OF ready] staging_rows [OF ready] set by blast
    show "?f r m = memcpy m (bf_data ids ! nat r * row_bytes) (bf_data staging) (r * row_bytes) row_bytes"
      if "r \<in> set rows" for r m
      using cpu_ready_facts(3) [OF ready, of r] that set by simp
    show "inj_on (\<lambda>r. bf_data ids ! nat r) (set rows)" using distinct set by simp
  qed
  then obtain p where p: "rfold ?f rows (bf_data pool) = Inr p" "length p = length (bf_data pool)"
    "\<forall>r \<in> {0..<n}. \<forall>k. 0 \<le> k \<and> k < 10240 \<longrightarrow>
       p ! nat (bf_data ids ! nat r * 10240 + k) = bf_data staging ! nat (r * 10240 + k)"
    unfolding set by blast
  have "check_cpu_transfer_args pool ids staging n = Inr ()" using ready by (simp add: cpu_ready_def)
  then have "cpu_scatter_rows rows staging pool ids n = Inr (pool\<lparr>bf_data := p\<rparr>)"
    by (simp only: cpu_scatter_rows_def rbind_Inr p(1))
  then show ?thesis using p by blast
qed

lemma cpu_gather_runs:
  assumes ready: "cpu_ready pool ids staging n" and rows: "mset rows = mset [0..n - 1]"
  shows "\<exists>st. cpu_gather_rows rows pool ids staging n = Inr (staging\<lparr>bf_data := st\<rparr>) \<and>
    length st = length (bf_data staging) \<and>
    (\<forall>r \<in> {0..<n}. \<forall>k. 0 \<le> k \<and> k < 10240 \<longrightarrow>
       st ! nat (r * 10240 + k) = bf_data pool ! nat (bf_data ids ! nat r * 10240 + k))"
proof -
  have set: "set rows = {0..<n}" using rows by (rule mset_upto_set)
  let ?f = "\<lambda>row st. rbind (array_load (bf_data ids) row) (\<lambda>b.
         memcpy st (row * row_bytes) (bf_data pool) (b * row_bytes) row_bytes)"
  have "\<exists>st. rfold ?f rows (bf_data staging) = Inr st \<and> length st = length (bf_data staging) \<and>
    (\<forall>r \<in> set rows. \<forall>k. 0 \<le> k \<and> k < 10240 \<longrightarrow>
       st ! nat (r * 10240 + k) = bf_data pool ! nat (bf_data ids ! nat r * 10240 + k)) \<and>
    (\<forall>b k. 0 \<le> b \<and> 0 \<le> k \<and> k < 10240 \<and> b * 10240 + k < int (length (bf_data staging)) \<and>
       b \<notin> (\<lambda>r. r) ` set rows \<longrightarrow>
       st ! nat (b * 10240 + k) = bf_data staging ! nat (b * 10240 + k))"
  proof (rule copy_rows [where T = "\<lambda>r. r"])
    show "\<forall>r \<in> set rows. 0 \<le> r \<and> (r + 1) * 10240 \<le> int (length (bf_data staging)) \<and>
      0 \<le> bf_data ids ! nat r \<and> (bf_data ids ! nat r + 1) * 10240 \<le> int (length (bf_data pool))"
      using cpu_ready_facts(3) [OF ready] staging_rows [OF ready] set by blast
    show "?f r m = memcpy m (r * row_bytes) (bf_data pool) (bf_data ids ! nat r * row_bytes) row_bytes"
      if "r \<in> set rows" for r m
      using cpu_ready_facts(3) [OF ready, of r] that set by simp
  qed simp
  then obtain st where st: "rfold ?f rows (bf_data staging) = Inr st" "length st = length (bf_data staging)"
    "\<forall>r \<in> {0..<n}. \<forall>k. 0 \<le> k \<and> k < 10240 \<longrightarrow>
       st ! nat (r * 10240 + k) = bf_data pool ! nat (bf_data ids ! nat r * 10240 + k)"
    unfolding set by blast
  have "check_cpu_transfer_args pool ids staging n = Inr ()" using ready by (simp add: cpu_ready_def)
  then have "cpu_gather_rows rows pool ids staging n = Inr (staging\<lparr>bf_data := st\<rparr>)"
    by (simp only: cpu_gather_rows_def rbind_Inr st(1))
  then show ?thesis using st by blast
qed

section \<open>The whole way out of the caches and back\<close>

lemma staging_row_position: "staging_position r l p f = r * 10240 + ((l * 2 + p) * 512 + f)"
  by (simp add: staging_position_def algebra_simps)

lemma row_offset_bounds:
  fixes f :: int
  assumes "0 \<le> f" "f < 512" "0 \<le> p" "p < 2" "0 \<le> l" "l < 10"
  shows "0 \<le> (l * 2 + p) * 512 + f" and "(l * 2 + p) * 512 + f < 10240"
  using position_bounds [of f p l 0 1] assms by (simp_all add: staging_position_def)

lemma transfer_ready_data:
  assumes "transfer_ready layers ids staging error_flag n" and "length d = length (bf_data staging)"
  shows "transfer_ready layers ids (staging\<lparr>bf_data := d\<rparr>) error_flag n"
  using assms
  by (simp add: transfer_ready_def check_gpu_transfer_args_def half_units_def bf_numel_def bf_dim_def)

lemma cpu_ready_staging:
  assumes "cpu_ready pool ids staging n" and "length d = length (bf_data staging)"
  shows "cpu_ready pool ids (staging\<lparr>bf_data := d\<rparr>) n"
  using assms by (simp add: cpu_ready_def check_cpu_transfer_args_def half_units_def bf_numel_def bf_dim_def)

lemma cpu_ready_pool:
  assumes "cpu_ready pool ids staging n" and "length d = length (bf_data pool)"
  shows "cpu_ready (pool\<lparr>bf_data := d\<rparr>) ids staging n"
  using assms by (simp add: cpu_ready_def check_cpu_transfer_args_def half_units_def bf_numel_def bf_dim_def)

lemma same_shape_length:
  "half_units s \<Longrightarrow> half_units t \<Longrightarrow> bf_sizes s = bf_sizes t \<Longrightarrow> length (bf_data s) = length (bf_data t)"
  by (simp add: half_units_def bf_numel_def)

lemma replaced_data: "length ls = length ts \<Longrightarrow> map bf_data (map2 (\<lambda>t d. t\<lparr>bf_data := d\<rparr>) ts ls) = ls"
  by (induction ts ls rule: list_induct2') simp_all

lemma flag_checked:
  assumes "transfer_ready layers ids staging error_flag n"
  shows "check_transfer_error (error_flag\<lparr>bf_data := [e]\<rparr>) = Inr () \<longleftrightarrow> e = 0"
  using assms
  by (auto simp: transfer_ready_def check_gpu_transfer_args_def rbind_eq_Inr_iff Let_def check_transfer_error_def
      torch_checks_Cons torch_checks_Nil bf_numel_def)

definition blocks_in_range :: "'v buffer list \<Rightarrow> int buffer \<Rightarrow> int \<Rightarrow> bool" where
  "blocks_in_range layers ids n \<longleftrightarrow> (\<forall>r \<in> {0..<n}. id_in (bf_data ids) (cache_blocks layers) r)"

definition ids_apart :: "int buffer \<Rightarrow> int \<Rightarrow> bool" where
  "ids_apart ids n \<longleftrightarrow> inj_on (\<lambda>r. bf_data ids ! nat r) {0..<n}"

text \<open>
  C13: After a pack or a scatter that starts from a clear flag, the deferred check throws exactly
  when one of the ids it was given is not a block of the caches; the transfer itself never
  accesses memory out of bounds, in whatever order its threads run.
\<close>

theorem transfer_error_reported:
  assumes "transfer_ready layers ids staging error_flag n" and "transfer_schedule n xs"
    and "bf_data error_flag ! 0 = 0"
  shows "(\<exists>st fl. pack_block_major xs layers ids staging error_flag n = Inr (st, fl) \<and>
           (check_transfer_error fl = Inr () \<longleftrightarrow> blocks_in_range layers ids n)) \<and>
         (\<exists>ls fl. scatter_block_major xs staging ids layers error_flag n = Inr (ls, fl) \<and>
           (check_transfer_error fl = Inr () \<longleftrightarrow> blocks_in_range layers ids n))"
proof
  show "\<exists>st fl. pack_block_major xs layers ids staging error_flag n = Inr (st, fl) \<and>
           (check_transfer_error fl = Inr () \<longleftrightarrow> blocks_in_range layers ids n)"
    using pack_block_major_runs [OF assms(1,2)] flag_checked [OF assms(1)] assms(3)
    by (force simp: blocks_in_range_def)
  show "\<exists>ls fl. scatter_block_major xs staging ids layers error_flag n = Inr (ls, fl) \<and>
           (check_transfer_error fl = Inr () \<longleftrightarrow> blocks_in_range layers ids n)"
    using scatter_block_major_runs [OF assms(1,2)] flag_checked [OF assms(1)] assms(3)
    by (force simp: blocks_in_range_def)
qed

text \<open>
  C4: Blocks packed from the caches, moved into slots of the host pool, fetched again and
  scattered into the caches are the blocks they were, whatever blocks of the caches they come
  back to, and all other blocks of the caches keep their contents. This holds for all orders in
  which the threads of the kernels and the workers of the host loops run; slots and destination
  blocks have to be distinct.
\<close>

theorem offload_restore:
  assumes out: "transfer_ready layers src staging flag n" "transfer_schedule n xs"
    and into: "transfer_ready layers2 dst staging2 flag2 n" "transfer_schedule n xs2"
    and cpu: "cpu_ready pool slots host n" "mset rows = mset [0..n - 1]" "mset rows2 = mset [0..n - 1]"
    and ids: "blocks_in_range layers src n" "blocks_in_range layers2 dst n" "ids_apart slots n" "ids_apart dst n"
    and shapes: "bf_sizes host = bf_sizes staging" "bf_sizes staging2 = bf_sizes staging"
    and flags: "bf_data flag ! 0 = 0" "bf_data flag2 ! 0 = 0"
  shows "\<exists>staged fl pool' host' caches fl2.
     pack_block_major xs layers src staging flag n = Inr (staged, fl) \<and> check_transfer_error fl = Inr () \<and>
     cpu_scatter_rows rows (host\<lparr>bf_data := bf_data staged\<rparr>) pool slots n = Inr pool' \<and>
     cpu_gather_rows rows2 pool' slots host n = Inr host' \<and>
     scatter_block_major xs2 (staging2\<lparr>bf_data := bf_data host'\<rparr>) dst layers2 flag2 n = Inr (caches, fl2) \<and>
     check_transfer_error fl2 = Inr () \<and>
     (\<forall>r l p f. 0 \<le> r \<and> r < n \<and> 0 \<le> l \<and> l < 10 \<and> 0 \<le> p \<and> p < 2 \<and> 0 \<le> f \<and> f < 512 \<longrightarrow>
        cache_vector (map bf_data caches) (cache_blocks layers2) l p (bf_data dst ! nat r) f =
        cache_vector (map bf_data layers) (cache_blocks layers) l p (bf_data src ! nat r) f) \<and>
     (\<forall>l p b f. 0 \<le> l \<and> l < 10 \<and> 0 \<le> p \<and> p < 2 \<and> 0 \<le> f \<and> f < 512 \<and> 0 \<le> b \<and> b < cache_blocks layers2 \<and>
        (\<forall>q \<in> {0..<n}. bf_data dst ! nat q \<noteq> b) \<longrightarrow>
        cache_vector (map bf_data caches) (cache_blocks layers2) l p b f =
        cache_vector (map bf_data layers2) (cache_blocks layers2) l p b f)"
proof -
  have half: "half_units staging" "half_units staging2" "half_units host"
    using out(1) into(1) cpu(1) by (simp_all add: transfer_ready_def cpu_ready_def)
  have lens: "length (bf_data host) = length (bf_data staging)" "length (bf_data staging2) = length (bf_data host)"
    using same_shape_length half shapes by metis+
  obtain st where pack: "pack_block_major xs layers src staging flag n =
      Inr (staging\<lparr>bf_data := st\<rparr>, flag\<lparr>bf_data := [0]\<rparr>)" "length st = length (bf_data staging)"
    and packed: "\<And>r l p f. 0 \<le> r \<Longrightarrow> r < n \<Longrightarrow> 0 \<le> l \<Longrightarrow> l < 10 \<Longrightarrow> 0 \<le> p \<Longrightarrow> p < 2 \<Longrightarrow> 0 \<le> f \<Longrightarrow> f < 512 \<Longrightarrow>
       st ! nat (staging_position r l p f) =
       cache_vector (map bf_data layers) (cache_blocks layers) l p (bf_data src ! nat r) f"
    using pack_block_major_runs [OF out] ids(1) flags(1) unfolding blocks_in_range_def by force
  obtain p where put: "cpu_scatter_rows rows (host\<lparr>bf_data := st\<rparr>) pool slots n = Inr (pool\<lparr>bf_data := p\<rparr>)"
      "length p = length (bf_data pool)"
    and stored: "\<And>r k. r \<in> {0..<n} \<Longrightarrow> 0 \<le> k \<Longrightarrow> k < 10240 \<Longrightarrow>
       p ! nat (bf_data slots ! nat r * 10240 + k) = st ! nat (r * 10240 + k)"
    using cpu_scatter_runs [OF cpu_ready_staging [OF cpu(1)] cpu(2) ids(3) [unfolded ids_apart_def], of st]
      lens(1) pack(2) by auto
  obtain h where get: "cpu_gather_rows rows2 (pool\<lparr>bf_data := p\<rparr>) slots host n = Inr (host\<lparr>bf_data := h\<rparr>)"
      "length h = length (bf_data host)"
    and fetched: "\<And>r k. r \<in> {0..<n} \<Longrightarrow> 0 \<le> k \<Longrightarrow> k < 10240 \<Longrightarrow>
       h ! nat (r * 10240 + k) = p ! nat (bf_data slots ! nat r * 10240 + k)"
    using cpu_gather_runs [OF cpu_ready_pool [OF cpu(1) put(2)] cpu(3)] by auto
  have same: "h ! nat (staging_position r l p f) = st ! nat (staging_position r l p f)"
    if "0 \<le> r" "r < n" "0 \<le> l" "l < 10" "0 \<le> p" "p < 2" "0 \<le> f" "f < 512" for r l p f
    using fetched [of r] stored [of r] row_offset_bounds [of f p l] that unfolding staging_row_position by simp
  have ready: "transfer_ready layers2 dst (staging2\<lparr>bf_data := h\<rparr>) flag2 n"
    using transfer_ready_data [OF into(1)] get(2) lens by simp
  obtain ls where scatter: "scatter_block_major xs2 (staging2\<lparr>bf_data := h\<rparr>) dst layers2 flag2 n =
      Inr (map2 (\<lambda>t d. t\<lparr>bf_data := d\<rparr>) layers2 ls, flag2\<lparr>bf_data := [0]\<rparr>)"
      "map length ls = map length (map bf_data layers2)"
    and back_in: "\<And>r l p f. 0 \<le> r \<Longrightarrow> r < n \<Longrightarrow> 0 \<le> l \<Longrightarrow> l < 10 \<Longrightarrow> 0 \<le> p \<Longrightarrow> p < 2 \<Longrightarrow> 0 \<le> f \<Longrightarrow> f < 512 \<Longrightarrow>
       (\<forall>q \<in> {0..<n}. bf_data dst ! nat q = bf_data dst ! nat r \<longrightarrow> q = r) \<Longrightarrow>
       cache_vector ls (cache_blocks layers2) l p (bf_data dst ! nat r) f = h ! nat (staging_position r l p f)"
    and untouched: "\<forall>l p b f. 0 \<le> l \<and> l < 10 \<and> 0 \<le> p \<and> p < 2 \<and> 0 \<le> f \<and> f < 512 \<and> 0 \<le> b \<and> b < cache_blocks layers2 \<and>
       (\<forall>q \<in> {0..<n}. bf_data dst ! nat q \<noteq> b) \<longrightarrow>
       cache_vector ls (cache_blocks layers2) l p b f =
       cache_vector (map bf_data layers2) (cache_blocks layers2) l p b f"
    using scatter_block_major_runs [OF ready into(2)] ids(2) flags(2) unfolding blocks_in_range_def by force
  define caches where "caches = map2 (\<lambda>t d. t\<lparr>bf_data := d\<rparr>) layers2 ls"
  have data: "map bf_data caches = ls"
    unfolding caches_def using scatter(2) by (intro replaced_data) (metis length_map)
  have restored: "cache_vector ls (cache_blocks layers2) l p (bf_data dst ! nat r) f =
        cache_vector (map bf_data layers) (cache_blocks layers) l p (bf_data src ! nat r) f"
    if "0 \<le> r" "r < n" "0 \<le> l" "l < 10" "0 \<le> p" "p < 2" "0 \<le> f" "f < 512" for r l p f
  proof -
    have "\<forall>q \<in> {0..<n}. bf_data dst ! nat q = bf_data dst ! nat r \<longrightarrow> q = r"
      using ids(4) that(1,2) unfolding ids_apart_def inj_on_def by (meson atLeastLessThan_iff)
    then show ?thesis using back_in [of r l p f] same [of r l p f] packed [of r l p f] that by simp
  qed
  show ?thesis
  proof (intro exI conjI)
    show "pack_block_major xs layers src staging flag n = Inr (staging\<lparr>bf_data := st\<rparr>, flag\<lparr>bf_data := [0]\<rparr>)"
      by (rule pack(1))
    show "cpu_scatter_rows rows (host\<lparr>bf_data := bf_data (staging\<lparr>bf_data := st\<rparr>)\<rparr>) pool slots n =
        Inr (pool\<lparr>bf_data := p\<rparr>)" using put(1) by simp
    show "cpu_gather_rows rows2 (pool\<lparr>bf_data := p\<rparr>) slots host n = Inr (host\<lparr>bf_data := h\<rparr>)"
      by (rule get(1))
    show "scatter_block_major xs2 (staging2\<lparr>bf_data := bf_data (host\<lparr>bf_data := h\<rparr>)\<rparr>) dst layers2 flag2 n =
        Inr (caches, flag2\<lparr>bf_data := [0]\<rparr>)" using scatter(1) unfolding caches_def by simp
    show "check_transfer_error (flag\<lparr>bf_data := [0]\<rparr>) = Inr ()" using flag_checked [OF out(1)] by simp
    show "check_transfer_error (flag2\<lparr>bf_data := [0]\<rparr>) = Inr ()" using flag_checked [OF into(1)] by simp
  qed (use restored untouched in \<open>auto simp only: data\<close>)
qed

section \<open>A concrete transfer\<close>

definition sample_layers :: "nat \<Rightarrow> nat buffer list" where
  "sample_layers v = replicate 10 \<lparr>bf_cuda = True, bf_device = 0, bf_type = kFloat16, bf_contiguous = True,
     bf_address = 4096, bf_sizes = [2, 1, 4096], bf_data = replicate 1024 v\<rparr>"

definition sample_rows :: "bool \<Rightarrow> nat buffer" where
  "sample_rows cuda = \<lparr>bf_cuda = cuda, bf_device = 0, bf_type = kFloat16, bf_contiguous = True,
     bf_address = 0, bf_sizes = [1, 10, 2, 4096], bf_data = replicate 10240 0\<rparr>"

definition sample_ints :: "bool \<Rightarrow> scalar_kind \<Rightarrow> int \<Rightarrow> int buffer" where
  "sample_ints cuda k i = \<lparr>bf_cuda = cuda, bf_device = 0, bf_type = k, bf_contiguous = True,
     bf_address = 0, bf_sizes = [1], bf_data = [i]\<rparr>"

definition sample_schedule :: "int list" where
  "sample_schedule = concat (grid_stride (launch_blocks 1) kThreads (int32 1 * kVectorsPerBlockMajorRow))"

lemma sample_schedule: "transfer_schedule 1 sample_schedule"
  unfolding transfer_schedule_def sample_schedule_def by (rule interleave_concat)

lemma sample_layers_checked: "check_gpu_layers (sample_layers v) = Inr ()"
proof -
  have each: "\<forall>t \<in> set (sample_layers v). check_gpu_layer 0 1 t = Inr ()"
    by (simp add: sample_layers_def check_gpu_layer_def torch_checks_def torch_check_def transfer_constants)
  have "int (length (sample_layers v)) = kAttentionLayers" "bf_size (sample_layers v ! 0) 1 = Inr 1"
    "bf_device (sample_layers v ! 0) = 0"
    by (simp_all add: sample_layers_def bf_size_def transfer_constants)
  then show ?thesis using each by (simp add: check_gpu_layers_def rfold_checks)
qed

lemma sample_ready:
  "int32 i = i \<Longrightarrow> transfer_ready (sample_layers v) (sample_ints True kInt32 i) (sample_rows True) (sample_ints True kInt32 0) 1"
  using sample_layers_checked [of v]
  by (simp add: transfer_ready_def check_gpu_transfer_args_def
      torch_checks_def torch_check_def bf_dim_def bf_numel_def half_units_def id_units_def
      transfer_constants sample_layers_def sample_rows_def sample_ints_def)

lemma sample_cpu_ready: "cpu_ready (sample_rows False) (sample_ints False kInt64 0) (sample_rows False) 1"
  by (simp add: cpu_ready_def check_cpu_transfer_args_def torch_checks_def torch_check_def bf_dim_def bf_numel_def
      half_units_def id_units_def array_load_def in_array_def transfer_constants sample_rows_def sample_ints_def)

lemma sample_blocks: "cache_blocks (sample_layers v) = 1"
  by (simp add: cache_blocks_def sample_layers_def)

lemma sample_cache: "cache_vector (map bf_data (sample_layers v)) 1 3 1 0 5 = v"
  by (simp add: cache_vector_def layer_index_def transfer_constants sample_layers_def)

theorem transfer_error_reported_witness:
  "\<exists>st fl. pack_block_major sample_schedule (sample_layers 7) (sample_ints True kInt32 3) (sample_rows True)
     (sample_ints True kInt32 0) 1 = Inr (st, fl) \<and> check_transfer_error fl \<noteq> Inr ()"
proof -
  have "\<not> blocks_in_range (sample_layers 7) (sample_ints True kInt32 3) 1"
    by (auto simp: blocks_in_range_def id_in_def sample_blocks sample_ints_def intro: exI [of _ 0])
  moreover have "transfer_ready (sample_layers 7) (sample_ints True kInt32 3) (sample_rows True) (sample_ints True kInt32 0) 1"
    by (rule sample_ready) (simp add: int32_def)
  moreover have "bf_data (sample_ints True kInt32 0) ! 0 = 0" by (simp add: sample_ints_def)
  ultimately show ?thesis
    using transfer_error_reported [OF _ sample_schedule] by blast
qed

theorem offload_restore_witness:
  "\<exists>host' caches fl. scatter_block_major sample_schedule ((sample_rows True)\<lparr>bf_data := host'\<rparr>)
       (sample_ints True kInt32 0) (sample_layers 9) (sample_ints True kInt32 0) 1 = Inr (caches, fl) \<and>
     cache_vector (map bf_data caches) 1 3 1 0 5 = 7"
proof -
  have id: "int32 0 = 0" by (simp add: int32_def)
  have in_range: "blocks_in_range (sample_layers v) (sample_ints True kInt32 0) 1" for v
    by (simp add: blocks_in_range_def id_in_def sample_blocks sample_ints_def)
  have apart: "ids_apart (sample_ints c k 0) 1" for c k by (auto simp: ids_apart_def inj_on_def)
  have sizes: "bf_sizes (sample_rows False) = bf_sizes (sample_rows True)" by (simp add: sample_rows_def)
  have flag: "bf_data (sample_ints True kInt32 0) ! 0 = 0" by (simp add: sample_ints_def)
  have order: "mset [0] = mset [0..(1::int) - 1]" by simp
  obtain host' :: "nat buffer" and caches fl where
    run: "scatter_block_major sample_schedule ((sample_rows True)\<lparr>bf_data := bf_data host'\<rparr>)
       (sample_ints True kInt32 0) (sample_layers 9) (sample_ints True kInt32 0) 1 = Inr (caches, fl)"
    and same: "\<forall>r l p f. 0 \<le> r \<and> r < 1 \<and> 0 \<le> l \<and> l < 10 \<and> 0 \<le> p \<and> p < 2 \<and> 0 \<le> f \<and> f < 512 \<longrightarrow>
        cache_vector (map bf_data caches) (cache_blocks (sample_layers 9)) l p (bf_data (sample_ints True kInt32 0) ! nat r) f =
        cache_vector (map bf_data (sample_layers 7)) (cache_blocks (sample_layers 7)) l p (bf_data (sample_ints True kInt32 0) ! nat r) f"
    using offload_restore [OF sample_ready [OF id, of 7] sample_schedule sample_ready [OF id, of 9] sample_schedule
        sample_cpu_ready order order in_range in_range apart apart sizes refl flag flag]
    by (elim exE conjE) (rule that, assumption+)
  have "cache_vector (map bf_data caches) 1 3 1 0 5 = 7"
    using same [rule_format, of 0 3 1 5] sample_cache [of 7] by (simp add: sample_blocks sample_ints_def)
  then show ?thesis using run by blast
qed

end
