(* ===== verification/Moe_Index.thy ===== *)
theory Moe_Index
  imports Gpu
begin

text \<open>
  The token order of the mixture of experts, \<^verbatim>\<open>ex_engine/xllm_kernels/cuda/moe/moe_compute_index.cu\<close>
  and \<^verbatim>\<open>qwen3_6_scripts/corex_moe_index_combine.cu\<close>: a histogram of the expert ids, its exclusive
  prefix sum by one block of 256 threads, and an atomic placement of every token at the next
  position of its expert. The tensors of \<^verbatim>\<open>torch::empty\<close> start with arbitrary contents, which are
  parameters. The weighted sum of the experts' results follows, over an arbitrary arithmetic.
\<close>

section \<open>The kernels\<close>

definition kMoeIndexBlock :: int where "kMoeIndexBlock = 256"

definition atomic_add :: "int list \<Rightarrow> int \<Rightarrow> int \<Rightarrow> (int \<times> int list) result" where
  "atomic_add xs i v =
     rbind (array_load xs i) (\<lambda>old. rbind (array_store xs i (int32 (old + v))) (\<lambda>xs'. Inr (old, xs')))"

definition moe_histogram_step :: "int list \<Rightarrow> int \<Rightarrow> int \<Rightarrow> int \<Rightarrow> int list \<Rightarrow> int list result" where
  "moe_histogram_step expert_id num_elements num_experts tid expert_sizes =
     (if tid < num_elements then
        rbind (array_load expert_id tid) (\<lambda>eid.
        if 0 \<le> eid \<and> eid < num_experts then
          rbind (atomic_add expert_sizes eid 1) (\<lambda>(old, sizes). Inr sizes)
        else Inr expert_sizes)
      else Inr expert_sizes)"

text \<open>\<^verbatim>\<open>cub::BlockScan::ExclusiveSum\<close>: the sum of the values of the threads before.\<close>

fun exclusive_sum :: "int \<Rightarrow> int list \<Rightarrow> int list" where
  "exclusive_sum acc [] = []"
| "exclusive_sum acc (v # vs) = acc # exclusive_sum (int32 (acc + v)) vs"

text \<open>The threads of the one block; \<^verbatim>\<open>total_out\<close> is null in both programs.\<close>

definition moe_prefix_sum_kernel :: "int list \<Rightarrow> int list \<Rightarrow> int \<Rightarrow> int list result" where
  "moe_prefix_sum_kernel expert_sizes expert_offsets num_experts =
     rbind (rmap (\<lambda>t. if t < uint32 num_experts then array_load expert_sizes t else Inr 0) [0..kMoeIndexBlock - 1]) (\<lambda>vals.
     rfold (\<lambda>t offs. if t < uint32 num_experts then array_store offs t (exclusive_sum 0 vals ! nat t) else Inr offs)
       [0..kMoeIndexBlock - 1] expert_offsets)"

record place_state =
  ps_offsets :: "int list"
  ps_dst_src :: "int list"
  ps_src_dst :: "int list"

definition moe_place_step :: "int list \<Rightarrow> int \<Rightarrow> int \<Rightarrow> int \<Rightarrow> place_state \<Rightarrow> place_state result" where
  "moe_place_step expert_id num_elements num_experts flat_idx s =
     (if num_elements \<le> flat_idx then Inr s
      else rbind (array_load expert_id flat_idx) (\<lambda>eid.
      if eid < 0 \<or> num_experts \<le> eid then Inr s
      else rbind (atomic_add (ps_offsets s) eid 1) (\<lambda>(pos, offs).
           rbind (array_store (ps_dst_src s) pos (int32 flat_idx)) (\<lambda>ds.
           rbind (array_store (ps_src_dst s) flat_idx pos) (\<lambda>sd.
           Inr \<lparr>ps_offsets = offs, ps_dst_src = ds, ps_src_dst = sd\<rparr>)))))"

section \<open>The host\<close>

text \<open>
  \<open>xs\<close> and \<open>ys\<close> are the orders in which the threads of the first and the third kernel run;
  \<open>junk\<close> is what the memory of \<^verbatim>\<open>torch::empty\<close> happens to hold.
\<close>

definition moe_grid :: "int \<Rightarrow> int" where
  "moe_grid n = (n + kMoeIndexBlock - 1) sdiv kMoeIndexBlock"

definition moe_schedule :: "int \<Rightarrow> int list \<Rightarrow> bool" where
  "moe_schedule n xs \<longleftrightarrow> interleave (one_each (moe_grid n) kMoeIndexBlock) xs"

definition moe_index_kernels ::
  "int list \<Rightarrow> int list \<Rightarrow> (int \<Rightarrow> int) \<Rightarrow> int list \<Rightarrow> int \<Rightarrow> (int list \<times> int list \<times> int list) result" where
  "moe_index_kernels xs ys junk expert_id num_experts =
     (let n = int (length expert_id);
          e = int32 num_experts;
          ids = map int32 expert_id;
          garbage = (\<lambda>k. map junk [0..k - 1]) in
      rbind (torch_check (0 \<le> num_experts) ''Trying to create tensor with negative dimension'') (\<lambda>_.
      rbind (rfold (moe_histogram_step ids n e) xs (replicate (nat num_experts) 0)) (\<lambda>sizes.
      rbind (moe_prefix_sum_kernel sizes (garbage num_experts) e) (\<lambda>offsets.
      rbind (rfold (moe_place_step ids n e) ys
              \<lparr>ps_offsets = offsets, ps_dst_src = garbage n, ps_src_dst = garbage n\<rparr>) (\<lambda>s.
      Inr (ps_src_dst s, ps_dst_src s, sizes))))))"

definition moe_compute_index ::
  "int list \<Rightarrow> int list \<Rightarrow> (int \<Rightarrow> int) \<Rightarrow> int list \<Rightarrow> int \<Rightarrow> (int list \<times> int list \<times> int list) result" where
  "moe_compute_index xs ys junk expert_id num_experts =
     rbind (torch_check (int32 num_experts \<le> kMoeIndexBlock) ''num_experts cannot exceed 256'') (\<lambda>_.
     moe_index_kernels xs ys junk expert_id num_experts)"

definition corex_moe_compute_index ::
  "int list \<Rightarrow> int list \<Rightarrow> (int \<Rightarrow> int) \<Rightarrow> int list \<Rightarrow> int \<Rightarrow> (int list \<times> int list \<times> int list) result" where
  "corex_moe_compute_index xs ys junk expert_id num_experts =
     moe_index_kernels xs ys junk expert_id num_experts"

section \<open>The histogram\<close>

definition valid_id :: "int \<Rightarrow> int \<Rightarrow> bool" where
  "valid_id num_experts e \<longleftrightarrow> 0 \<le> e \<and> e < num_experts"

text \<open>How many of the given tokens go to an expert.\<close>

definition routed :: "int list \<Rightarrow> int \<Rightarrow> int list \<Rightarrow> nat" where
  "routed ids e zs = length (filter (\<lambda>z. 0 \<le> z \<and> z < int (length ids) \<and> ids ! nat z = e) zs)"

lemma routed_Nil [simp]: "routed ids e [] = 0"
  by (simp add: routed_def)

lemma routed_Cons: "routed ids e (z # zs) =
    (if 0 \<le> z \<and> z < int (length ids) \<and> ids ! nat z = e then 1 else 0) + routed ids e zs"
  by (simp add: routed_def)

lemma routed_append: "routed ids e (ys @ zs) = routed ids e ys + routed ids e zs"
  by (simp add: routed_def)

lemma routed_mset: "mset xs = mset ys \<Longrightarrow> routed ids e xs = routed ids e ys"
  unfolding routed_def by (rule mset_eq_length) (simp add: mset_filter)

lemma routed_all: "routed ids e [0..int (length ids) - 1] = count_list ids e"
proof (induction ids rule: rev_induct)
  case (snoc x ids)
  have "[0..int (length (ids @ [x])) - 1] = [0..int (length ids) - 1] @ [int (length ids)]"
    using upto_rec2 [of 0 "int (length ids)"] by simp
  moreover have "routed (ids @ [x]) e [0..int (length ids) - 1] = routed ids e [0..int (length ids) - 1]"
    unfolding routed_def by (intro arg_cong [of _ _ length] filter_cong) (auto simp: nth_append)
  ultimately show ?case using snoc by (simp add: routed_append routed_Cons)
qed simp

lemma atomic_add_ok:
  "in_array xs i \<Longrightarrow> int32 (xs ! nat i + v) = xs ! nat i + v \<Longrightarrow>
   atomic_add xs i v = Inr (xs ! nat i, xs[nat i := xs ! nat i + v])"
  by (simp add: atomic_add_def array_load_def array_store_def)

lemma histogram_result:
  assumes "\<forall>x \<in> set xs. 0 \<le> x" and "int (length xs) < 2 ^ 31"
  shows "0 \<le> num_experts \<Longrightarrow> rfold (moe_histogram_step ids (int (length ids)) num_experts) xs (replicate (nat num_experts) 0) =
    Inr (map (\<lambda>e. int (routed ids e xs)) [0..num_experts - 1])"
  using assms
proof (induction xs rule: rev_induct)
  case Nil
  then show ?case by (simp add: map_replicate_const)
next
  case (snoc x xs)
  let ?m = "map (\<lambda>e. int (routed ids e xs)) [0..num_experts - 1]"
  have IH: "rfold (moe_histogram_step ids (int (length ids)) num_experts) xs (replicate (nat num_experts) 0) = Inr ?m"
    using snoc by simp
  have x: "0 \<le> x" using snoc.prems by simp
  have "moe_histogram_step ids (int (length ids)) num_experts x ?m =
      Inr (map (\<lambda>e. int (routed ids e (xs @ [x]))) [0..num_experts - 1])"
  proof (cases "x < int (length ids) \<and> valid_id num_experts (ids ! nat x)")
    case False
    then have "moe_histogram_step ids (int (length ids)) num_experts x ?m = Inr ?m"
      using x by (auto simp: moe_histogram_step_def array_load_def in_array_def valid_id_def)
    moreover have "map (\<lambda>e. int (routed ids e (xs @ [x]))) [0..num_experts - 1] = ?m"
      using False x by (auto simp: routed_append routed_Cons valid_id_def)
    ultimately show ?thesis by simp
  next
    case True
    let ?e = "ids ! nat x"
    have e: "0 \<le> ?e" "?e < num_experts" using True by (simp_all add: valid_id_def)
    then have at_e: "?m ! nat ?e = int (routed ids ?e xs)" by (simp add: nth_upto0)
    have "routed ids ?e xs \<le> length xs" by (simp add: routed_def)
    then have "int32 (?m ! nat ?e + 1) = ?m ! nat ?e + 1" using snoc.prems at_e by (intro int32_id) simp_all
    moreover have "in_array ?m ?e" using e by (simp add: in_array_def)
    ultimately have "atomic_add ?m ?e 1 = Inr (?m ! nat ?e, ?m[nat ?e := ?m ! nat ?e + 1])" by (simp only: atomic_add_ok)
    then have "moe_histogram_step ids (int (length ids)) num_experts x ?m = Inr (?m[nat ?e := ?m ! nat ?e + 1])"
      using True x e by (simp add: moe_histogram_step_def array_load_def in_array_def)
    moreover have "?m[nat ?e := ?m ! nat ?e + 1] = map (\<lambda>e. int (routed ids e (xs @ [x]))) [0..num_experts - 1]"
      using True x e at_e by (intro nth_equalityI) (auto simp: nth_list_update routed_append routed_Cons nth_upto)
    ultimately show ?thesis by simp
  qed
  then show ?case using IH by (simp add: rfold_append)
qed

section \<open>The prefix sum\<close>

lemma exclusive_sum_nth:
  assumes "0 \<le> acc" and "\<forall>v \<in> set vs. 0 \<le> v" and "acc + sum_list vs < 2 ^ 31"
  shows "t < length vs \<Longrightarrow> exclusive_sum acc vs ! t = acc + sum_list (take t vs)"
  using assms
proof (induction vs arbitrary: acc t)
  case (Cons v vs)
  have "0 \<le> sum_list vs" using Cons.prems by (intro sum_list_nonneg) simp
  then have "int32 (acc + v) = acc + v" using Cons.prems by (intro int32_id) auto
  then show ?case
    using Cons.IH [of _ "acc + v"] Cons.prems by (cases t) (simp_all add: algebra_simps)
qed simp

lemma length_exclusive_sum [simp]: "length (exclusive_sum acc vs) = length vs"
  by (induction vs arbitrary: acc) simp_all

lemma store_each:
  assumes "0 \<le> k" and "length offs = nat n"
  shows "rfold (\<lambda>t o'. if t < n then array_store o' t (v t) else Inr o') [0..k - 1] offs =
    Inr (map (\<lambda>i. if i < k then v i else offs ! nat i) [0..n - 1])"
  using assms(1)
proof (induction k rule: int_ge_induct)
  case base
  have "map (\<lambda>i. if i < 0 then v i else offs ! nat i) [0..n - 1] = offs"
    using assms(2) by (intro nth_equalityI) (simp_all add: nth_upto)
  then show ?case by simp
next
  case (step k)
  let ?m = "map (\<lambda>i. if i < k then v i else offs ! nat i) [0..n - 1]"
  have split: "[0..k + 1 - 1] = [0..k - 1] @ [k]" using step.hyps upto_rec2 [of 0 k] by simp
  show ?case
  proof (cases "k < n")
    case True
    have "?m[nat k := v k] = map (\<lambda>i. if i < k + 1 then v i else offs ! nat i) [0..n - 1]"
      using step.hyps True by (intro nth_equalityI) (auto simp: nth_list_update nth_upto)
    moreover have "in_array ?m k" using step.hyps True by (simp add: in_array_def)
    ultimately show ?thesis using True step.IH unfolding split by (simp add: rfold_append array_store_def)
  next
    case False
    then have "?m = map (\<lambda>i. if i < k + 1 then v i else offs ! nat i) [0..n - 1]" by auto
    then show ?thesis using False step.IH unfolding split by (simp add: rfold_append)
  qed
qed

text \<open>Where the tokens of an expert start when all the tokens are sorted.\<close>

definition expert_start :: "int list \<Rightarrow> int \<Rightarrow> int" where
  "expert_start ids e = (\<Sum>k \<in> {0..<e}. int (count_list ids k))"

lemma expert_start_Suc: "0 \<le> e \<Longrightarrow> expert_start ids (e + 1) = expert_start ids e + int (count_list ids e)"
proof -
  assume "0 \<le> e"
  then have "{0..<e + 1} = insert e {0..<e}" by auto
  then show ?thesis by (simp add: expert_start_def)
qed

lemma expert_start_mono: "0 \<le> d \<Longrightarrow> d \<le> e \<Longrightarrow> expert_start ids d \<le> expert_start ids e"
  unfolding expert_start_def by (intro sum_mono2) auto

lemma expert_start_valid:
  "0 \<le> e \<Longrightarrow> expert_start ids e = int (length (filter (\<lambda>x. 0 \<le> x \<and> x < e) ids))"
proof (induction ids)
  case Nil
  then show ?case by (simp add: expert_start_def)
next
  case (Cons x ids)
  have "expert_start (x # ids) e = (\<Sum>k \<in> {0..<e}. int (count_list ids k) + (if k = x then 1 else 0))"
    unfolding expert_start_def by (intro sum.cong) auto
  also have "\<dots> = expert_start ids e + (if 0 \<le> x \<and> x < e then 1 else 0)"
    by (simp add: sum.distrib expert_start_def)
  finally show ?case using Cons by simp
qed

lemma expert_start_le: "0 \<le> e \<Longrightarrow> expert_start ids e \<le> int (length ids)"
  by (simp add: expert_start_valid)

lemma take_upto_map: "t \<le> nat n \<Longrightarrow> sum_list (take t (map f [0..n - 1])) = (\<Sum>k \<in> {0..<int t}. f k)"
  for f :: "int \<Rightarrow> int"
proof (induction t)
  case (Suc t)
  have "{0..<int (Suc t)} = insert (int t) {0..<int t}" by auto
  then show ?case using Suc by (simp add: take_Suc_conv_app_nth nth_upto)
qed simp

lemma prefix_sum_result:
  assumes e: "0 \<le> e" "e \<le> kMoeIndexBlock" and small: "int (length ids) < 2 ^ 31" and len: "length offs = nat e"
  shows "moe_prefix_sum_kernel (map (\<lambda>k. int (count_list ids k)) [0..e - 1]) offs e =
    Inr (map (expert_start ids) [0..e - 1])"
proof -
  let ?c = "\<lambda>k. int (count_list ids k)"
  let ?sizes = "map ?c [0..e - 1]"
  let ?v = "\<lambda>t. if t < e then ?c t else 0"
  let ?vals = "map ?v [0..kMoeIndexBlock - 1]"
  have "e < 2 ^ 32" using e(2) by (simp add: kMoeIndexBlock_def)
  then have u: "uint32 e = e" using e(1) by (simp add: uint32_def take_bit_int_eq_self)
  have load: "(if t < e then array_load ?sizes t else Inr 0) = Inr (?v t)" if "t \<in> set [0..kMoeIndexBlock - 1]" for t
    using that by (simp add: array_load_def in_array_def nth_upto0)
  have sum: "sum_list (take t ?vals) = expert_start ids (min (int t) e)" if "t \<le> nat kMoeIndexBlock" for t
  proof -
    have "sum_list (take t ?vals) = (\<Sum>k \<in> {0..<int t}. ?v k)" using that by (rule take_upto_map)
    also have "\<dots> = (\<Sum>k \<in> {0..<min (int t) e}. ?c k)"
      by (intro sum.mono_neutral_cong_right) auto
    finally show ?thesis by (simp add: expert_start_def)
  qed
  have "take (nat kMoeIndexBlock) ?vals = ?vals" by simp
  then have "sum_list ?vals = expert_start ids e" using sum [of "nat kMoeIndexBlock"] e by simp
  then have bound: "0 + sum_list ?vals < 2 ^ 31" using expert_start_le [OF e(1), of ids] small by simp
  have nonneg: "\<forall>v \<in> set ?vals. 0 \<le> v" by auto
  have at_t: "exclusive_sum 0 ?vals ! nat t = expert_start ids t" if "0 \<le> t" "t < e" for t
  proof -
    have "nat t < length ?vals" using that e by simp
    then have "exclusive_sum 0 ?vals ! nat t = 0 + sum_list (take (nat t) ?vals)"
      by (intro exclusive_sum_nth [OF order_refl nonneg bound])
    moreover have "nat t \<le> nat kMoeIndexBlock" using that e by simp
    ultimately show ?thesis using sum [of "nat t"] that by simp
  qed
  have nth: "map (\<lambda>i. if i < kMoeIndexBlock then exclusive_sum 0 ?vals ! nat i else offs ! nat i) [0..e - 1] =
      map (expert_start ids) [0..e - 1]"
    using e at_t by (intro map_cong refl) simp
  have "rmap (\<lambda>t. if t < e then array_load ?sizes t else Inr 0) [0..kMoeIndexBlock - 1] = Inr ?vals"
    by (rule rmap_total) (rule load)
  moreover have "0 \<le> kMoeIndexBlock" by (simp add: kMoeIndexBlock_def)
  ultimately show ?thesis
    using store_each [of kMoeIndexBlock offs e "\<lambda>t. exclusive_sum 0 ?vals ! nat t"] len
    unfolding moe_prefix_sum_kernel_def u by (simp only: rbind_Inr nth)
qed

section \<open>The placement\<close>

text \<open>
  After the tokens \<open>zs\<close> are placed: each offset has advanced by the tokens of its expert, each
  placed token has a position in the range of its expert, and that position names the token.
\<close>

definition placed :: "int list \<Rightarrow> int \<Rightarrow> int list \<Rightarrow> place_state \<Rightarrow> bool" where
  "placed ids num_experts zs s \<longleftrightarrow>
     ps_offsets s = map (\<lambda>e. expert_start ids e + int (routed ids e zs)) [0..num_experts - 1] \<and>
     length (ps_dst_src s) = length ids \<and> length (ps_src_dst s) = length ids \<and>
     (\<forall>z \<in> set zs. z < int (length ids) \<and> valid_id num_experts (ids ! nat z) \<longrightarrow>
        (let pos = ps_src_dst s ! nat z; e = ids ! nat z in
         expert_start ids e \<le> pos \<and> pos < expert_start ids e + int (routed ids e zs) \<and>
         ps_dst_src s ! nat pos = z))"

lemma routed_le:
  assumes "distinct zs" and "\<forall>z \<in> set zs. 0 \<le> z"
  shows "routed ids e zs \<le> count_list ids e"
proof -
  let ?P = "\<lambda>z. 0 \<le> z \<and> z < int (length ids) \<and> ids ! nat z = e"
  have "routed ids e zs = card (set (filter ?P zs))"
    unfolding routed_def by (rule distinct_card [symmetric]) (simp add: assms(1))
  also have "\<dots> \<le> card (set (filter ?P [0..int (length ids) - 1]))"
    by (intro card_mono finite_set) auto
  also have "\<dots> = routed ids e [0..int (length ids) - 1]"
    unfolding routed_def by (rule distinct_card) simp
  finally show ?thesis by (simp add: routed_all)
qed

text \<open>The ranges of two experts do not meet.\<close>

lemma expert_ranges_apart:
  assumes "0 \<le> d" "0 \<le> e" "d \<noteq> e"
    and "expert_start ids d \<le> p" "p < expert_start ids d + int (count_list ids d)"
    and "expert_start ids e \<le> p" "p < expert_start ids e + int (count_list ids e)"
  shows False
proof -
  have "expert_start ids (i + 1) \<le> expert_start ids j" if "0 \<le> i" "i < j" for i j
    using that by (intro expert_start_mono) simp_all
  from this [of d e] this [of e d] show False
    using assms expert_start_Suc [of d ids] expert_start_Suc [of e ids] by (cases "d < e") simp_all
qed

lemma place_step:
  assumes p: "placed ids n zs s" and z: "0 \<le> z" "z \<notin> set zs" and zs: "distinct zs" "\<forall>y \<in> set zs. 0 \<le> y"
    and n: "0 \<le> n" "int (length ids) < 2 ^ 31"
  shows "\<exists>t. moe_place_step ids (int (length ids)) n z s = Inr t \<and> placed ids n (zs @ [z]) t \<and>
    (\<forall>y < length ids. int y \<notin> set (zs @ [z]) \<or> \<not> valid_id n (ids ! y) \<longrightarrow> ps_src_dst t ! y = ps_src_dst s ! y)"
proof (cases "z < int (length ids) \<and> valid_id n (ids ! nat z)")
  case False
  then have "moe_place_step ids (int (length ids)) n z s = Inr s"
    using z by (auto simp: moe_place_step_def array_load_def in_array_def valid_id_def)
  moreover have "map (\<lambda>e. expert_start ids e + int (routed ids e (zs @ [z]))) [0..n - 1] =
      map (\<lambda>e. expert_start ids e + int (routed ids e zs)) [0..n - 1]"
    using False z by (auto simp: routed_append routed_Cons valid_id_def)
  moreover have "routed ids e zs \<le> routed ids e (zs @ [z])" for e by (simp add: routed_append)
  ultimately show ?thesis
    using p False unfolding placed_def Let_def
    by (intro exI [of _ s]) (auto intro: less_le_trans)
next
  case True
  let ?e = "ids ! nat z"
  let ?pos = "expert_start ids ?e + int (routed ids ?e zs)"
  have e: "0 \<le> ?e" "?e < n" using True by (simp_all add: valid_id_def)
  have r1: "routed ids ?e (zs @ [z]) = routed ids ?e zs + 1" using True z by (simp add: routed_append routed_Cons)
  moreover have "routed ids ?e (zs @ [z]) \<le> count_list ids ?e" using z zs by (intro routed_le) auto
  ultimately have r: "routed ids ?e zs + 1 \<le> count_list ids ?e" by simp
  have start0: "0 \<le> expert_start ids ?e" using e by (simp add: expert_start_def sum_nonneg)
  have start1: "expert_start ids ?e + int (count_list ids ?e) \<le> int (length ids)"
    using expert_start_Suc [OF e(1), of ids] expert_start_le [of "?e + 1" ids] e by simp
  have pos: "0 \<le> ?pos" "?pos < int (length ids)" using r start0 start1 by linarith+
  have offs: "ps_offsets s = map (\<lambda>e. expert_start ids e + int (routed ids e zs)) [0..n - 1]"
    and len: "length (ps_dst_src s) = length ids" "length (ps_src_dst s) = length ids"
    using p by (simp_all add: placed_def)
  have at_e: "ps_offsets s ! nat ?e = ?pos" using e by (simp add: offs nth_upto0)
  have in_e: "in_array (ps_offsets s) ?e" using e by (simp add: offs in_array_def)
  have "int32 (ps_offsets s ! nat ?e + 1) = ps_offsets s ! nat ?e + 1"
    unfolding at_e using pos n(2) by (intro int32_id) simp_all
  then have add: "atomic_add (ps_offsets s) ?e 1 = Inr (?pos, (ps_offsets s)[nat ?e := ?pos + 1])"
    using atomic_add_ok [OF in_e, of 1] at_e by simp
  let ?t = "\<lparr>ps_offsets = (ps_offsets s)[nat ?e := ?pos + 1],
    ps_dst_src = (ps_dst_src s)[nat ?pos := z], ps_src_dst = (ps_src_dst s)[nat z := ?pos]\<rparr>"
  have z32: "int32 z = z" using True z n(2) by (intro int32_id) simp_all
  have run: "moe_place_step ids (int (length ids)) n z s = Inr ?t"
    using True z e pos len z32 add
    by (simp add: moe_place_step_def array_load_def array_store_def in_array_def valid_id_def)
  have "ps_offsets ?t = map (\<lambda>e. expert_start ids e + int (routed ids e (zs @ [z]))) [0..n - 1]"
    using True z e by (intro nth_equalityI)
      (auto simp: offs nth_list_update nth_upto routed_append routed_Cons)
  moreover have "expert_start ids (ids ! nat y) \<le> ps_src_dst ?t ! nat y \<and>
      ps_src_dst ?t ! nat y < expert_start ids (ids ! nat y) + int (routed ids (ids ! nat y) (zs @ [z])) \<and>
      ps_dst_src ?t ! nat (ps_src_dst ?t ! nat y) = y"
    if y: "y \<in> set (zs @ [z])" "y < int (length ids)" "valid_id n (ids ! nat y)" for y
  proof (cases "y = z")
    case eq: True
    have "nat z < length ids" "nat ?pos < length ids" using True z pos by auto
    then show ?thesis using len r1 unfolding eq by simp
  next
    case False
    then have yz: "y \<in> set zs" using y by simp
    then have "nat y \<noteq> nat z" using z zs False by auto
    let ?q = "ps_src_dst s ! nat y"
    have q: "expert_start ids (ids ! nat y) \<le> ?q" "?q < expert_start ids (ids ! nat y) + int (routed ids (ids ! nat y) zs)"
      "ps_dst_src s ! nat ?q = y"
      using p yz y by (auto simp: placed_def Let_def)
    have cy: "routed ids (ids ! nat y) zs \<le> count_list ids (ids ! nat y)" using zs by (rule routed_le)
    have y0: "0 \<le> ids ! nat y" using y by (simp add: valid_id_def)
    have "?q \<noteq> ?pos"
    proof (cases "ids ! nat y = ?e")
      case True
      then show ?thesis using q by simp
    next
      case False
      have "?q = ?pos \<Longrightarrow> False"
        by (rule expert_ranges_apart [OF y0 e(1) False, of ids ?q]) (use q cy r in linarith)+
      then show ?thesis by blast
    qed
    moreover have "0 \<le> expert_start ids (ids ! nat y)" using y0 by (simp add: expert_start_def sum_nonneg)
    ultimately have "nat ?q \<noteq> nat ?pos" using q pos by linarith
    then show ?thesis
      using q \<open>nat y \<noteq> nat z\<close> by (auto simp: routed_append)
  qed
  ultimately have "placed ids n (zs @ [z]) ?t" using len by (simp add: placed_def Let_def)
  moreover have "ps_src_dst ?t ! y = ps_src_dst s ! y"
    if "int y \<notin> set (zs @ [z]) \<or> \<not> valid_id n (ids ! y)" for y
  proof -
    have "nat z \<noteq> y" using that True z by auto
    then show ?thesis by simp
  qed
  ultimately show ?thesis using run by blast
qed

lemma place_result:
  assumes "distinct zs" "\<forall>z \<in> set zs. 0 \<le> z" "0 \<le> n" "int (length ids) < 2 ^ 31" "length d = length ids" "length u = length ids"
  shows "\<exists>t. rfold (moe_place_step ids (int (length ids)) n) zs
      \<lparr>ps_offsets = map (expert_start ids) [0..n - 1], ps_dst_src = d, ps_src_dst = u\<rparr> = Inr t \<and> placed ids n zs t \<and>
    (\<forall>y < length ids. int y \<notin> set zs \<or> \<not> valid_id n (ids ! y) \<longrightarrow> ps_src_dst t ! y = u ! y)"
  using assms
proof (induction zs rule: rev_induct)
  case Nil
  then show ?case by (simp add: placed_def)
next
  case (snoc z zs)
  let ?s = "\<lparr>ps_offsets = map (expert_start ids) [0..n - 1], ps_dst_src = d, ps_src_dst = u\<rparr>"
  obtain s where s: "rfold (moe_place_step ids (int (length ids)) n) zs ?s = Inr s" "placed ids n zs s"
    "\<forall>y < length ids. int y \<notin> set zs \<or> \<not> valid_id n (ids ! y) \<longrightarrow> ps_src_dst s ! y = u ! y"
    using snoc by auto
  obtain t where t: "moe_place_step ids (int (length ids)) n z s = Inr t" "placed ids n (zs @ [z]) t"
    "\<forall>y < length ids. int y \<notin> set (zs @ [z]) \<or> \<not> valid_id n (ids ! y) \<longrightarrow> ps_src_dst t ! y = ps_src_dst s ! y"
    using place_step [OF s(2), of z] snoc.prems by auto
  then show ?case using s by (intro exI [of _ t]) (simp add: rfold_append)
qed

section \<open>The whole computation\<close>

lemma routed_beyond: "int (length ids) \<le> m \<Longrightarrow> routed ids e [0..m - 1] = count_list ids e"
proof (induction m rule: int_ge_induct)
  case base
  then show ?case by (rule routed_all)
next
  case (step m)
  have "0 \<le> m" using step.hyps by simp
  then have "[0..m + 1 - 1] = [0..m - 1] @ [m]" using upto_rec2 [of 0 m] by simp
  then show ?case using step by (simp add: routed_append routed_Cons)
qed

lemma moe_schedule_facts:
  assumes "moe_schedule n xs" and "0 \<le> n"
  shows "mset xs = mset [0..moe_grid n * 256 - 1]" and "n \<le> moe_grid n * 256" and "moe_grid n * 256 \<le> n + 255"
    and "distinct xs" and "\<forall>x \<in> set xs. 0 \<le> x" and "{0..<n} \<subseteq> set xs"
proof -
  show m: "mset xs = mset [0..moe_grid n * 256 - 1]"
    using interleave_mset [of _ xs] one_each_mset [of 256 "moe_grid n"] assms(1)
    by (simp add: moe_schedule_def kMoeIndexBlock_def)
  have "moe_grid n = (n + 255) div 256" using assms(2) by (simp add: moe_grid_def kMoeIndexBlock_def sdiv_nonneg)
  then show g: "n \<le> moe_grid n * 256" "moe_grid n * 256 \<le> n + 255" by linarith+
  show "distinct xs" using mset_eq_imp_distinct_iff [OF m] by simp
  show "\<forall>x \<in> set xs. 0 \<le> x" "{0..<n} \<subseteq> set xs" using mset_upto_set [OF m] g by auto
qed

lemma histogram_counts:
  assumes "moe_schedule (int (length ids)) xs" and "0 \<le> n" and "int (length ids) + 256 \<le> 2 ^ 31"
  shows "rfold (moe_histogram_step ids (int (length ids)) n) xs (replicate (nat n) 0) =
    Inr (map (\<lambda>e. int (count_list ids e)) [0..n - 1])"
proof -
  note s = moe_schedule_facts [OF assms(1), simplified]
  have "length xs = length [0..moe_grid (int (length ids)) * 256 - 1]" using s(1) by (rule mset_eq_length)
  then have "int (length xs) < 2 ^ 31" using s(3) assms(3) by simp
  moreover have "routed ids e xs = count_list ids e" for e
    using routed_mset [OF s(1)] routed_beyond [OF s(2)] by simp
  ultimately show ?thesis using histogram_result [OF s(5) _ assms(2), of ids] by simp
qed

text \<open>The placement of all tokens is a bijection between valid tokens and positions.\<close>

lemma placed_all:
  assumes p: "placed ids n zs s" and cov: "{0..<int (length ids)} \<subseteq> set zs" and n: "0 \<le> n"
    and zs: "distinct zs" "\<forall>z \<in> set zs. 0 \<le> z"
  shows "i < length ids \<Longrightarrow> valid_id n (ids ! i) \<Longrightarrow>
      0 \<le> ps_src_dst s ! i \<and> ps_src_dst s ! i < expert_start ids n \<and> ps_dst_src s ! nat (ps_src_dst s ! i) = int i \<and>
      expert_start ids (ids ! i) \<le> ps_src_dst s ! i \<and> ps_src_dst s ! i < expert_start ids (ids ! i + 1)"
    and "0 \<le> q \<Longrightarrow> q < expert_start ids n \<Longrightarrow>
      \<exists>i < length ids. valid_id n (ids ! i) \<and> ps_src_dst s ! i = q \<and> ps_dst_src s ! nat q = int i"
proof -
  have at_i: "0 \<le> ps_src_dst s ! i \<and> ps_src_dst s ! i < expert_start ids n \<and> ps_dst_src s ! nat (ps_src_dst s ! i) = int i \<and>
      expert_start ids (ids ! i) \<le> ps_src_dst s ! i \<and> ps_src_dst s ! i < expert_start ids (ids ! i + 1)"
    if i: "i < length ids" "valid_id n (ids ! i)" for i
  proof -
    have e: "0 \<le> ids ! i" "ids ! i < n" using i by (simp_all add: valid_id_def)
    have "int i \<in> set zs" using cov i by auto
    then have "expert_start ids (ids ! i) \<le> ps_src_dst s ! i"
      "ps_src_dst s ! i < expert_start ids (ids ! i) + int (routed ids (ids ! i) zs)"
      "ps_dst_src s ! nat (ps_src_dst s ! i) = int i"
      using p i unfolding placed_def Let_def by fastforce+
    moreover have "routed ids (ids ! i) zs \<le> count_list ids (ids ! i)" using zs by (rule routed_le)
    moreover have "0 \<le> expert_start ids (ids ! i)" using e by (simp add: expert_start_def sum_nonneg)
    moreover have "expert_start ids (ids ! i + 1) \<le> expert_start ids n" using e by (intro expert_start_mono) simp_all
    ultimately show ?thesis using expert_start_Suc [OF e(1), of ids] by simp
  qed
  then show "i < length ids \<Longrightarrow> valid_id n (ids ! i) \<Longrightarrow>
      0 \<le> ps_src_dst s ! i \<and> ps_src_dst s ! i < expert_start ids n \<and> ps_dst_src s ! nat (ps_src_dst s ! i) = int i \<and>
      expert_start ids (ids ! i) \<le> ps_src_dst s ! i \<and> ps_src_dst s ! i < expert_start ids (ids ! i + 1)" by blast
  assume q: "0 \<le> q" "q < expert_start ids n"
  let ?V = "{i. i < length ids \<and> valid_id n (ids ! i)}"
  have "inj_on (\<lambda>i. ps_src_dst s ! i) ?V"
    using at_i by (intro inj_onI) (metis (mono_tags, lifting) mem_Collect_eq of_nat_eq_iff)
  then have "card ((\<lambda>i. ps_src_dst s ! i) ` ?V) = card ?V" by (rule card_image)
  also have "\<dots> = length (filter (\<lambda>x. 0 \<le> x \<and> x < n) ids)" by (simp add: length_filter_conv_card valid_id_def)
  also have "\<dots> = card {0..<expert_start ids n}" using expert_start_valid [OF n, of ids] by simp
  finally have "(\<lambda>i. ps_src_dst s ! i) ` ?V = {0..<expert_start ids n}"
    using at_i by (intro card_subset_eq) auto
  then have "q \<in> (\<lambda>i. ps_src_dst s ! i) ` ?V" using q by simp
  then obtain i where "i < length ids" "valid_id n (ids ! i)" "ps_src_dst s ! i = q" by auto
  then show "\<exists>i < length ids. valid_id n (ids ! i) \<and> ps_src_dst s ! i = q \<and> ps_dst_src s ! nat q = int i"
    using at_i by blast
qed

lemma moe_index_runs:
  assumes n: "0 \<le> n" "n \<le> 256" and len: "int (length ids) + 256 \<le> 2 ^ 31" and i32: "\<forall>e \<in> set ids. int32 e = e"
    and xs: "moe_schedule (int (length ids)) xs" and ys: "moe_schedule (int (length ids)) ys"
  shows "\<exists>s. moe_compute_index xs ys junk ids n =
      Inr (ps_src_dst s, ps_dst_src s, map (\<lambda>e. int (count_list ids e)) [0..n - 1]) \<and> placed ids n ys s \<and>
    (\<forall>i < length ids. \<not> valid_id n (ids ! i) \<longrightarrow> ps_src_dst s ! i = junk (int i))"
proof -
  have n32: "int32 n = n" using n by (intro int32_id) simp_all
  have ids32: "map int32 ids = ids" using i32 by (simp add: map_idI)
  note y = moe_schedule_facts [OF ys, simplified]
  let ?g = "map junk [0..int (length ids) - 1]"
  have "length ?g = length ids" by simp
  then obtain s where s: "rfold (moe_place_step ids (int (length ids)) n) ys
      \<lparr>ps_offsets = map (expert_start ids) [0..n - 1], ps_dst_src = ?g, ps_src_dst = ?g\<rparr> = Inr s" "placed ids n ys s"
    "\<forall>i < length ids. int i \<notin> set ys \<or> \<not> valid_id n (ids ! i) \<longrightarrow> ps_src_dst s ! i = ?g ! i"
    using place_result [OF y(4,5) n(1), of ids ?g ?g] len by auto
  have "moe_prefix_sum_kernel (map (\<lambda>e. int (count_list ids e)) [0..n - 1]) (map junk [0..n - 1]) n =
      Inr (map (expert_start ids) [0..n - 1])"
    using n len by (intro prefix_sum_result) (simp_all add: kMoeIndexBlock_def)
  then have "moe_compute_index xs ys junk ids n =
      Inr (ps_src_dst s, ps_dst_src s, map (\<lambda>e. int (count_list ids e)) [0..n - 1])"
    using n s(1) histogram_counts [OF xs n(1) len]
    by (simp add: moe_compute_index_def moe_index_kernels_def n32 ids32 kMoeIndexBlock_def torch_check_def)
  moreover have "?g ! i = junk (int i)" if "i < length ids" for i using that by (simp add: nth_upto)
  ultimately show ?thesis using s(2,3) by (intro exI [of _ s]) simp
qed

text \<open>
  C5: For at most 256 experts and every interleaving of the threads' atomic additions, the index
  of the tokens is a counting sort by expert: the sizes count the tokens of each expert, the two
  index tensors are inverse to each other between the tokens with a valid expert and the first
  positions, and the experts of the positions ascend. A token with an invalid expert has no
  position: its entry keeps whatever the memory held.
\<close>

theorem moe_index_sorts_tokens:
  assumes "0 \<le> n" "n \<le> 256" "int (length ids) + 256 \<le> 2 ^ 31" "\<forall>e \<in> set ids. int32 e = e"
    and "moe_schedule (int (length ids)) xs" "moe_schedule (int (length ids)) ys"
  shows "\<exists>src_dst dst_src. moe_compute_index xs ys junk ids n =
      Inr (src_dst, dst_src, map (\<lambda>e. int (count_list ids e)) [0..n - 1]) \<and>
    (\<forall>i < length ids. valid_id n (ids ! i) \<longrightarrow>
       0 \<le> src_dst ! i \<and> src_dst ! i < expert_start ids n \<and> dst_src ! nat (src_dst ! i) = int i) \<and>
    (\<forall>p. 0 \<le> p \<and> p < expert_start ids n \<longrightarrow>
       (\<exists>i < length ids. dst_src ! nat p = int i \<and> src_dst ! i = p \<and> valid_id n (ids ! i))) \<and>
    (\<forall>p q. 0 \<le> p \<and> p \<le> q \<and> q < expert_start ids n \<longrightarrow>
       ids ! nat (dst_src ! nat p) \<le> ids ! nat (dst_src ! nat q)) \<and>
    (\<forall>i < length ids. \<not> valid_id n (ids ! i) \<longrightarrow> src_dst ! i = junk (int i))"
proof -
  obtain s where run: "moe_compute_index xs ys junk ids n =
      Inr (ps_src_dst s, ps_dst_src s, map (\<lambda>e. int (count_list ids e)) [0..n - 1])"
    and p: "placed ids n ys s" and junk: "\<forall>i < length ids. \<not> valid_id n (ids ! i) \<longrightarrow> ps_src_dst s ! i = junk (int i)"
    using moe_index_runs [OF assms] by blast
  note y = moe_schedule_facts [OF assms(6), simplified]
  note all = placed_all [OF p y(6) assms(1) y(4,5)]
  have "ids ! nat (ps_dst_src s ! nat a) \<le> ids ! nat (ps_dst_src s ! nat b)"
    if ab: "0 \<le> a" "a \<le> b" "b < expert_start ids n" for a b
  proof (rule ccontr)
    obtain i where i: "i < length ids" "valid_id n (ids ! i)" "ps_src_dst s ! i = a" "ps_dst_src s ! nat a = int i"
      using all(2) [of a] ab by auto
    obtain j where j: "j < length ids" "valid_id n (ids ! j)" "ps_src_dst s ! j = b" "ps_dst_src s ! nat b = int j"
      using all(2) [of b] ab by auto
    assume "\<not> ids ! nat (ps_dst_src s ! nat a) \<le> ids ! nat (ps_dst_src s ! nat b)"
    then have "ids ! j + 1 \<le> ids ! i" using i j by simp
    then have "expert_start ids (ids ! j + 1) \<le> expert_start ids (ids ! i)"
      using j by (intro expert_start_mono) (simp_all add: valid_id_def)
    then show False using all(1) [OF i(1,2)] all(1) [OF j(1,2)] i j ab by simp
  qed
  then show ?thesis using run all junk by blast
qed

theorem moe_index_sorts_tokens_witness:
  "\<exists>src_dst dst_src. moe_compute_index [0..255] [0..255] (\<lambda>k. 77) [2, 0, 9, 2] 3 = Inr (src_dst, dst_src, [1, 0, 2]) \<and>
     src_dst ! 2 = 77 \<and> dst_src ! nat (src_dst ! 3) = 3"
proof -
  have "moe_schedule 4 (concat (one_each (moe_grid 4) kMoeIndexBlock))"
    unfolding moe_schedule_def by (rule interleave_concat)
  moreover have "concat (one_each (moe_grid 4) kMoeIndexBlock) = [0..255]"
    by (simp only: one_each_def moe_grid_def concat_map_singleton kMoeIndexBlock_def) (simp add: thread_ids_upto sdiv_nonneg)
  ultimately have s: "moe_schedule (int (length [2, 0, 9, 2 :: int])) [0..255]" by simp
  have i32: "\<forall>e \<in> set [2, 0, 9, 2]. int32 e = e" by (simp add: int32_id)
  have counts: "map (\<lambda>e. int (count_list [2, 0, 9, 2 :: int] e)) [0..3 - 1] = [1, 0, 2]"
    by (simp add: upto.simps)
  from moe_index_sorts_tokens [OF _ _ _ i32 s s, of 3 "\<lambda>k. 77"]
  obtain src_dst dst_src where r: "moe_compute_index [0..255] [0..255] (\<lambda>k. 77) [2, 0, 9, 2] 3 = Inr (src_dst, dst_src, [1, 0, 2])"
    and a: "\<forall>i < length [2, 0, 9, 2 :: int]. valid_id 3 ([2, 0, 9, 2] ! i) \<longrightarrow> dst_src ! nat (src_dst ! i) = int i"
    and b: "\<forall>i < length [2, 0, 9, 2 :: int]. \<not> valid_id 3 ([2, 0, 9, 2] ! i) \<longrightarrow> src_dst ! i = 77"
    unfolding counts by auto
  have "src_dst ! 2 = 77" "dst_src ! nat (src_dst ! 3) = 3"
    using a [rule_format, of 3] b [rule_format, of 2] by (simp_all add: valid_id_def)
  then show ?thesis using r by blast
qed

section \<open>More experts than threads\<close>

lemma rfold_skip: "(\<forall>x \<in> set xs. f x s = Inr s) \<Longrightarrow> rfold f xs s = Inr s"
  by (induction xs) auto

lemma prefix_sum_leaves:
  assumes n: "256 < n" "n < 2 ^ 31" and "length sizes = nat n" "length offs = nat n"
  shows "\<exists>vs. moe_prefix_sum_kernel sizes offs n =
    Inr (map (\<lambda>i. if i < 256 then vs i else offs ! nat i) [0..n - 1])"
proof -
  have u: "uint32 n = n" using n by (simp add: uint32_def take_bit_int_eq_self)
  have load: "(if t < n then array_load sizes t else Inr 0) = Inr (sizes ! nat t)" if "t \<in> set [0..kMoeIndexBlock - 1]" for t
    using that n assms(3) by (simp add: array_load_def in_array_def kMoeIndexBlock_def)
  have "rmap (\<lambda>t. if t < n then array_load sizes t else Inr 0) [0..kMoeIndexBlock - 1] =
      Inr (map (\<lambda>t. sizes ! nat t) [0..kMoeIndexBlock - 1])"
    by (rule rmap_total) (rule load)
  moreover have "0 \<le> kMoeIndexBlock" by (simp add: kMoeIndexBlock_def)
  ultimately show ?thesis
    using store_each [of kMoeIndexBlock offs n] assms(4)
    unfolding moe_prefix_sum_kernel_def u
    by (intro exI [of _ "\<lambda>i. exclusive_sum 0 (map (\<lambda>t. sizes ! nat t) [0..kMoeIndexBlock - 1]) ! nat i"])
      (simp only: rbind_Inr, simp only: kMoeIndexBlock_def)
qed

text \<open>
  C33: The copy of the index computation without a limit on the number of experts scans only the
  first 256 of them: a token of a later expert is placed at an offset that was never written. When
  the memory held a value outside of the tokens there, the placement writes out of bounds. The
  other copy throws for as many experts.
\<close>

theorem corex_index_unbounded_experts:
  assumes e: "256 \<le> e" "e < n" "n < 2 ^ 31" and junk: "junk e < 0 \<or> 1 \<le> junk e"
    and xs: "moe_schedule 1 xs" and ys: "moe_schedule 1 ys"
  shows "corex_moe_compute_index xs ys junk [e] n = Inl (Undefined ''store out of bounds'') \<and>
    moe_compute_index xs ys junk [e] n = Inl (Exn ''num_experts cannot exceed 256'')"
proof
  have n32: "int32 n = n" "int32 e = e" using e by (simp_all add: int32_id)
  show "moe_compute_index xs ys junk [e] n = Inl (Exn ''num_experts cannot exceed 256'')"
    using e by (simp add: moe_compute_index_def n32 torch_check_def kMoeIndexBlock_def)
  let ?sizes = "map (\<lambda>k. int (count_list [e] k)) [0..n - 1]"
  have hist: "rfold (moe_histogram_step [e] 1 n) xs (replicate (nat n) 0) = Inr ?sizes"
    using histogram_counts [of "[e]" xs n] xs e by simp
  obtain vs where pre: "moe_prefix_sum_kernel ?sizes (map junk [0..n - 1]) n =
      Inr (map (\<lambda>i. if i < 256 then vs i else map junk [0..n - 1] ! nat i) [0..n - 1])"
    using prefix_sum_leaves [of n ?sizes "map junk [0..n - 1]"] e by auto
  define offs where "offs = map (\<lambda>i. if i < 256 then vs i else map junk [0..n - 1] ! nat i) [0..n - 1]"
  have at_e: "in_array offs e" "offs ! nat e = junk e"
    using e by (simp_all add: offs_def in_array_def nth_upto0)
  let ?s = "\<lparr>ps_offsets = offs, ps_dst_src = map junk [0..0], ps_src_dst = map junk [0..0]\<rparr>"
  have first: "moe_place_step [e] 1 n 0 ?s = Inl (Undefined ''store out of bounds'')"
    using e junk at_e
    by (auto simp: moe_place_step_def array_load_def array_store_def in_array_def atomic_add_def)
  note y = moe_schedule_facts [OF ys, simplified]
  have "0 \<in> set ys" using y(6) by auto
  then obtain as bs where sp: "ys = as @ 0 # bs" by (meson split_list)
  have "1 \<le> z" if "z \<in> set as" for z
  proof -
    have "0 \<le> z" "z \<noteq> 0" using y(4,5) sp that by auto
    then show ?thesis by simp
  qed
  then have "rfold (moe_place_step [e] 1 n) as ?s = Inr ?s" by (intro rfold_skip) (simp add: moe_place_step_def)
  then have "rfold (moe_place_step [e] 1 n) ys ?s = Inl (Undefined ''store out of bounds'')"
    using first by (simp add: sp rfold_append)
  then show "corex_moe_compute_index xs ys junk [e] n = Inl (Undefined ''store out of bounds'')"
    using hist pre [folded offs_def] e
    by (simp add: corex_moe_compute_index_def moe_index_kernels_def n32 torch_check_def)
qed

theorem corex_index_unbounded_experts_witness:
  "corex_moe_compute_index (concat (one_each (moe_grid 1) kMoeIndexBlock)) (concat (one_each (moe_grid 1) kMoeIndexBlock))
     (\<lambda>k. 100000) [300] 512 = Inl (Undefined ''store out of bounds'')"
proof -
  have "moe_schedule 1 (concat (one_each (moe_grid 1) kMoeIndexBlock))"
    unfolding moe_schedule_def by (rule interleave_concat)
  then show ?thesis using corex_index_unbounded_experts [of 300 512 "\<lambda>k. 100000"] by simp
qed

section \<open>The weighted sum of the experts\<close>

text \<open>The arithmetic of the kernel: float accumulation over elements of the tensor's type.\<close>

record ('s, 'f) float_ops =
  fo_zero :: 'f
  fo_add :: "'f \<Rightarrow> 'f \<Rightarrow> 'f"
  fo_mul :: "'f \<Rightarrow> 'f \<Rightarrow> 'f"
  fo_load :: "'s \<Rightarrow> 'f"
  fo_round :: "'f \<Rightarrow> 's"

definition kCombineBlockSize :: int where "kCombineBlockSize = 256"

definition combine_element :: "('s, 'f) float_ops \<Rightarrow> 's list \<Rightarrow> 'f list \<Rightarrow> int \<Rightarrow> int \<Rightarrow> int \<Rightarrow> int \<Rightarrow> 'f result" where
  "combine_element ops gemm2 reduce_weight topk hidden token_id h =
     rfold (\<lambda>k acc.
       let flat_idx = token_id * topk + k in
       rbind (array_load reduce_weight flat_idx) (\<lambda>w.
       rbind (array_load gemm2 (flat_idx * hidden + h)) (\<lambda>g.
       Inr (fo_add ops acc (fo_mul ops w (fo_load ops g)))))) [0..topk - 1] (fo_zero ops)"

definition moe_combine_step ::
  "('s, 'f) float_ops \<Rightarrow> 's list \<Rightarrow> 'f list \<Rightarrow> int \<Rightarrow> int \<Rightarrow> int \<Rightarrow> int \<times> int \<Rightarrow> 's list \<Rightarrow> 's list result" where
  "moe_combine_step ops gemm2 reduce_weight n topk hidden i output =
     (let (token_id, h) = i in
      if n \<le> token_id then Inr output
      else rbind (combine_element ops gemm2 reduce_weight topk hidden token_id h) (\<lambda>acc.
           array_store output (token_id * hidden + h) (fo_round ops acc)))"

text \<open>One block per token, whose threads share the columns.\<close>

definition combine_schedule :: "int \<Rightarrow> int \<Rightarrow> (int \<times> int) list \<Rightarrow> bool" where
  "combine_schedule n hidden xs \<longleftrightarrow>
     interleave (concat (map (\<lambda>b. map (\<lambda>t. map (Pair b) (stride_loop t kCombineBlockSize hidden))
       [0..kCombineBlockSize - 1]) [0..n - 1])) xs"

definition corex_moe_combine_result ::
  "('s, 'f) float_ops \<Rightarrow> (int \<times> int) list \<Rightarrow> (int \<Rightarrow> 's) \<Rightarrow> 's buffer \<Rightarrow> 'f list \<Rightarrow> int \<Rightarrow> int \<Rightarrow> 's list result" where
  "corex_moe_combine_result ops xs junk gemm2 reduce_weight n topk =
     rbind (bf_size gemm2 1) (\<lambda>hidden.
     rbind (torch_check (bf_type gemm2 = kFloat16 \<or> bf_type gemm2 = kFloat32) ''expected scalar type Float'') (\<lambda>_.
     rfold (moe_combine_step ops (bf_data gemm2) reduce_weight n (int32 topk) hidden) xs
       (map junk [0..n * hidden - 1])))"

text \<open>The sum a row of the result stands for.\<close>

definition weighted_sum :: "('s, 'f) float_ops \<Rightarrow> 's list \<Rightarrow> 'f list \<Rightarrow> int \<Rightarrow> int \<Rightarrow> int \<Rightarrow> int \<Rightarrow> 'f" where
  "weighted_sum ops gemm2 reduce_weight topk hidden token_id h =
     fold (\<lambda>k acc. fo_add ops acc (fo_mul ops (reduce_weight ! nat (token_id * topk + k))
       (fo_load ops (gemm2 ! nat ((token_id * topk + k) * hidden + h))))) [0..topk - 1] (fo_zero ops)"

lemma combine_element_total:
  assumes "n * topk \<le> int (length rw)" "n * topk * hidden \<le> int (length g)"
    and "0 \<le> token" "token < n" "0 \<le> h" "h < hidden"
  shows "combine_element ops g rw topk hidden token h = Inr (weighted_sum ops g rw topk hidden token h)"
  unfolding combine_element_def weighted_sum_def
proof (rule rfold_total)
  fix k acc assume "k \<in> set [0..topk - 1]"
  then have k: "0 \<le> k" "k < topk" by auto
  have flat: "0 \<le> token * topk + k" "token * topk + k < n * topk" using digit_bounds [of token n k topk] assms k by simp_all
  then have "0 \<le> (token * topk + k) * hidden + h" "(token * topk + k) * hidden + h < n * topk * hidden"
    using digit_bounds [of "token * topk + k" "n * topk" h hidden] assms by simp_all
  then show "(let flat_idx = token * topk + k in
       rbind (array_load rw flat_idx) (\<lambda>w.
       rbind (array_load g (flat_idx * hidden + h)) (\<lambda>x.
       Inr (fo_add ops acc (fo_mul ops w (fo_load ops x)))))) =
    Inr (fo_add ops acc (fo_mul ops (rw ! nat (token * topk + k)) (fo_load ops (g ! nat ((token * topk + k) * hidden + h)))))"
    using flat assms by (simp add: array_load_def in_array_def Let_def)
qed

lemma combine_visits:
  assumes "combine_schedule n hidden xs"
  shows "set xs = {0..<n} \<times> {0..<hidden}"
proof -
  have "set (concat (grid_stride 1 kCombineBlockSize hidden)) = {0..<hidden}"
    by (rule set_grid_stride) (simp_all add: kCombineBlockSize_def)
  moreover have "grid_stride 1 kCombineBlockSize hidden = map (\<lambda>t. stride_loop t kCombineBlockSize hidden) [0..kCombineBlockSize - 1]"
    by (simp add: grid_stride_def thread_ids_upto kCombineBlockSize_def del: upto_rec_numeral)
  ultimately have col: "(\<Union>t \<in> {0..kCombineBlockSize - 1}. set (stride_loop t kCombineBlockSize hidden)) = {0..<hidden}" by simp
  have "set xs = set (concat (concat (map (\<lambda>b. map (\<lambda>t. map (Pair b) (stride_loop t kCombineBlockSize hidden))
       [0..kCombineBlockSize - 1]) [0..n - 1])))"
    by (rule mset_eq_setD, rule interleave_mset) (rule assms [unfolded combine_schedule_def])
  also have "\<dots> = (\<Union>b \<in> {0..n - 1}. Pair b ` (\<Union>t \<in> {0..kCombineBlockSize - 1}. set (stride_loop t kCombineBlockSize hidden)))"
    by auto
  finally show ?thesis unfolding col by auto
qed

text \<open>
  C34: In whatever order the threads run, the combination writes every element of the result
  exactly as the sum over the experts of its token, in the order of the experts, and reads no
  element outside of its inputs.
\<close>

theorem combine_is_weighted_sum:
  assumes "bf_sizes gemm2 = [n * topk, hidden]" "int (length (bf_data gemm2)) = n * topk * hidden"
    and "bf_type gemm2 = kFloat16 \<or> bf_type gemm2 = kFloat32" "int (length rw) = n * topk"
    and "0 \<le> n" "0 \<le> topk" "topk < 2 ^ 31" "combine_schedule n hidden xs"
  shows "\<exists>out. corex_moe_combine_result ops xs junk gemm2 rw n topk = Inr out \<and> length out = nat (n * hidden) \<and>
    (\<forall>token h. 0 \<le> token \<and> token < n \<and> 0 \<le> h \<and> h < hidden \<longrightarrow>
       out ! nat (token * hidden + h) = fo_round ops (weighted_sum ops (bf_data gemm2) rw topk hidden token h))"
proof -
  let ?v = "\<lambda>(token, h). fo_round ops (weighted_sum ops (bf_data gemm2) rw topk hidden token h)"
  let ?addr = "\<lambda>(token, h). token * hidden + h"
  let ?f = "moe_combine_step ops (bf_data gemm2) rw n topk hidden"
  let ?m = "map junk [0..n * hidden - 1]"
  have xs: "set xs = {0..<n} \<times> {0..<hidden}" using assms(8) by (rule combine_visits)
  have step: "?f i m = (if True then array_store m (?addr i) (?v i) else Inr m)" if "i \<in> set xs" for i m
    using that combine_element_total [of n topk rw hidden "bf_data gemm2"] assms
    by (auto simp: xs moe_combine_step_def)
  have valid: "\<forall>i \<in> set xs. True \<longrightarrow> in_array ?m (?addr i)"
    using digit_bounds [of _ n _ hidden] by (auto simp: xs in_array_def)
  obtain out where out: "rfold ?f xs ?m = Inr out" "\<forall>b. in_array out b = in_array ?m b"
    and stored: "\<forall>x \<in> set xs. True \<longrightarrow> (\<forall>y \<in> set xs. True \<longrightarrow> ?addr y = ?addr x \<longrightarrow> ?v y = ?v x) \<longrightarrow>
      array_load out (?addr x) = Inr (?v x)"
    using flat.stores [where f = ?f and ok = "\<lambda>_. True" and addr = ?addr and v = ?v, OF step valid] by blast
  have "out ! nat (token * hidden + h) = ?v (token, h)" if "0 \<le> token" "token < n" "0 \<le> h" "h < hidden" for token h
  proof -
    have "(token, h) \<in> set xs" using that xs by simp
    moreover have "\<forall>y \<in> set xs. ?addr y = ?addr (token, h) \<longrightarrow> y = (token, h)"
      using that by (auto simp: xs digit_inject)
    ultimately have "array_load out (?addr (token, h)) = Inr (?v (token, h))" using stored by blast
    then show ?thesis by (simp add: array_loadI)
  qed
  moreover have "length out = nat (n * hidden)" using out(2) in_array_length [of out ?m] by simp
  moreover have "int32 topk = topk" using assms by (intro int32_id) simp_all
  ultimately show ?thesis
    using out(1) assms(1,3) by (intro exI [of _ out]) (simp add: corex_moe_combine_result_def bf_size_def torch_check_def)
qed

theorem combine_is_weighted_sum_witness:
  "\<exists>xs out. corex_moe_combine_result \<lparr>fo_zero = 0, fo_add = (+), fo_mul = (*), fo_load = (\<lambda>x. x), fo_round = (\<lambda>x. x)\<rparr> xs (\<lambda>k. 9)
     \<lparr>bf_cuda = True, bf_device = 0, bf_type = kFloat32, bf_contiguous = True, bf_address = 0,
       bf_sizes = [2, 1], bf_data = [5, 7 :: int]\<rparr> [2, 3] 1 2 = Inr out \<and> out ! 0 = 31"
proof -
  have "combine_schedule 1 1 (concat (concat (map (\<lambda>b. map (\<lambda>t. map (Pair b) (stride_loop t kCombineBlockSize 1))
       [0..kCombineBlockSize - 1]) [0..1 - 1])))"
    unfolding combine_schedule_def by (rule interleave_concat)
  from combine_is_weighted_sum [OF _ _ _ _ _ _ _ this, of "\<lparr>bf_cuda = True, bf_device = 0, bf_type = kFloat32, bf_contiguous = True,
     bf_address = 0, bf_sizes = [2, 1], bf_data = [5, 7 :: int]\<rparr>" 2 "[2, 3]"
     "\<lparr>fo_zero = 0, fo_add = (+), fo_mul = (*), fo_load = (\<lambda>x. x), fo_round = (\<lambda>x. x)\<rparr>" "\<lambda>k. 9"]
  show ?thesis by (force simp: weighted_sum_def upto.simps)
qed

end
