(* ===== verification/Moe_Align.thy ===== *)
theory Moe_Align
  imports Moe_Index
begin

text \<open>
  The block-aligned token order of the grouped matrix products,
  \<^verbatim>\<open>ex_engine/csrc/moe/moe_align_sum_kernels.cu\<close>: the tokens are sorted by expert, the tokens of an
  expert padded to whole blocks, and every block is given its expert. Two programs do this, one
  block with a counter row per thread for small batches, and two kernels with atomic counters
  for large ones. The variant for batches and the plain sum are in \<open>Moe_Batched\<close>, the variant for LoRA
  adapters is in \<open>Moe_Lora\<close>.
\<close>

section \<open>The steps of the threads\<close>

text \<open>What the kernels of the two programs work with, and the arrays in memory.\<close>

record align_args =
  aa_topk_ids :: "int list"
  aa_expert_map :: "int list option"
  aa_num_experts :: int
  aa_block_size :: int
  aa_experts_per_warp :: int
  aa_padded_num_experts :: int

record align_state =
  al_sorted_token_ids :: "int list"
  al_expert_ids :: "int list"
  al_total_tokens_post_pad :: "int list"
  al_cumsum :: "int list"
  al_counts :: "int list"

definition CEILDIV :: "int \<Rightarrow> int \<Rightarrow> int" where
  "CEILDIV x y = (x + y - 1) sdiv y"

abbreviation aa_numel :: "align_args \<Rightarrow> int" where
  "aa_numel g \<equiv> int (length (aa_topk_ids g))"

text \<open>The expert of an id, if this rank has it.\<close>

definition map_expert :: "align_args \<Rightarrow> int \<Rightarrow> int option result" where
  "map_expert g expert_id = (case aa_expert_map g of
     None \<Rightarrow> Inr (Some expert_id)
   | Some m \<Rightarrow> rbind (array_load m expert_id) (\<lambda>e. Inr (if e = -1 then None else Some e)))"

text \<open>The large program skips ids beyond the experts, the small one does not look.\<close>

definition large_expert :: "align_args \<Rightarrow> int \<Rightarrow> int option result" where
  "large_expert g i = rbind (array_load (aa_topk_ids g) i) (\<lambda>x. let expert_id = int32 x in
     if aa_num_experts g \<le> expert_id then Inr None else map_expert g expert_id)"

definition small_expert :: "align_args \<Rightarrow> int \<Rightarrow> int option result" where
  "small_expert g i = rbind (array_load (aa_topk_ids g) i) (\<lambda>x. map_expert g (int32 x))"

text \<open>One iteration of a loop of a thread.\<close>

datatype align_step =
    Fill_Sorted int
  | Zero_Count int
  | Count_Token int
  | Count_Row int int
  | Add_Count int int
  | Set_Expert int int
  | Place_Token int
  | Place_Row int int

definition count_index :: "align_args \<Rightarrow> int \<Rightarrow> int" where
  "count_index g e = e sdiv aa_experts_per_warp g * aa_experts_per_warp g + e smod aa_experts_per_warp g"

definition count_token :: "align_args \<Rightarrow> int \<Rightarrow> align_state \<Rightarrow> align_state result" where
  "count_token g i m = rbind (large_expert g i) (\<lambda>x. case x of None \<Rightarrow> Inr m
     | Some e \<Rightarrow> rbind (atomic_add (al_counts m) (count_index g e) 1) (\<lambda>(old, c). Inr (m\<lparr>al_counts := c\<rparr>)))"

definition place_token :: "align_args \<Rightarrow> int \<Rightarrow> align_state \<Rightarrow> align_state result" where
  "place_token g i m = rbind (large_expert g i) (\<lambda>x. case x of None \<Rightarrow> Inr m
     | Some e \<Rightarrow> rbind (atomic_add (al_cumsum m) e 1) (\<lambda>(rank_post_pad, c).
         rbind (array_store (al_sorted_token_ids m) rank_post_pad (int32 i)) (\<lambda>s.
         Inr (m\<lparr>al_cumsum := c, al_sorted_token_ids := s\<rparr>))))"

definition count_row :: "align_args \<Rightarrow> int \<Rightarrow> int \<Rightarrow> align_state \<Rightarrow> align_state result" where
  "count_row g tid i m = rbind (small_expert g i) (\<lambda>x. case x of None \<Rightarrow> Inr m
     | Some e \<Rightarrow> rbind (atomic_add (al_counts m) ((tid + 1) * aa_num_experts g + e) 1) (\<lambda>(old, c).
         Inr (m\<lparr>al_counts := c\<rparr>)))"

definition place_row :: "align_args \<Rightarrow> int \<Rightarrow> int \<Rightarrow> align_state \<Rightarrow> align_state result" where
  "place_row g tid i m = rbind (small_expert g i) (\<lambda>x. case x of None \<Rightarrow> Inr m
     | Some e \<Rightarrow> rbind (array_load (al_cumsum m) e) (\<lambda>start.
         rbind (atomic_add (al_counts m) (tid * aa_num_experts g + e) 1) (\<lambda>(cnt, c).
         rbind (array_store (al_sorted_token_ids m) (int32 (cnt + start)) (int32 i)) (\<lambda>s.
         Inr (m\<lparr>al_counts := c, al_sorted_token_ids := s\<rparr>)))))"

fun align_exec :: "align_args \<Rightarrow> align_step \<Rightarrow> align_state \<Rightarrow> align_state result" where
  "align_exec g (Fill_Sorted a) m =
     rbind (array_store (al_sorted_token_ids m) a (int32 (aa_numel g))) (\<lambda>s. Inr (m\<lparr>al_sorted_token_ids := s\<rparr>))"
| "align_exec g (Zero_Count a) m = rbind (array_store (al_counts m) a 0) (\<lambda>c. Inr (m\<lparr>al_counts := c\<rparr>))"
| "align_exec g (Count_Token i) m = count_token g i m"
| "align_exec g (Count_Row tid i) m = count_row g tid i m"
| "align_exec g (Add_Count a b) m = rbind (array_load (al_counts m) b) (\<lambda>v.
     rbind (atomic_add (al_counts m) a v) (\<lambda>(old, c). Inr (m\<lparr>al_counts := c\<rparr>)))"
| "align_exec g (Set_Expert a e) m = rbind (array_store (al_expert_ids m) a e) (\<lambda>x. Inr (m\<lparr>al_expert_ids := x\<rparr>))"
| "align_exec g (Place_Token i) m = place_token g i m"
| "align_exec g (Place_Row tid i) m = place_row g tid i m"

text \<open>
  A scheduler gives for every phase between two barriers, by its number, an interleaving of the
  programs of the threads.
\<close>

type_synonym scheduler = "nat \<Rightarrow> align_step list list \<Rightarrow> align_step list"

definition fair :: "scheduler \<Rightarrow> bool" where
  "fair sched \<longleftrightarrow> (\<forall>n ps. interleave ps (sched n ps))"

definition run_phase :: "scheduler \<Rightarrow> align_args \<Rightarrow> nat \<Rightarrow> align_step list list \<Rightarrow> align_state \<Rightarrow> align_state result" where
  "run_phase sched g n ps m = rfold (align_exec g) (sched n ps) m"

section \<open>The program for large batches\<close>

definition kScanThreads :: int where "kScanThreads = 1024"

definition zero_program :: "align_args \<Rightarrow> int \<Rightarrow> int \<Rightarrow> align_step list" where
  "zero_program g warp_size tid = (let warp_id = tid sdiv warp_size in
     map (\<lambda>i. Zero_Count (warp_id * aa_experts_per_warp g + i))
       (filter (\<lambda>i. warp_id * aa_experts_per_warp g + i < aa_padded_num_experts g) [0..aa_experts_per_warp g - 1]))"

definition fill_program :: "int \<Rightarrow> int \<Rightarrow> align_state \<Rightarrow> align_step list" where
  "fill_program n tid m = map Fill_Sorted (stride_loop tid n (int (length (al_sorted_token_ids m))))"

text \<open>The scan of the padded counts by the block of 1024 threads.\<close>

definition padded_counts :: "align_args \<Rightarrow> align_state \<Rightarrow> int list result" where
  "padded_counts g m = rmap (\<lambda>t. if t < aa_num_experts g
     then rbind (array_load (al_counts m) (count_index g t)) (\<lambda>c.
          Inr (CEILDIV c (aa_block_size g) * aa_block_size g))
     else Inr 0) [0..kScanThreads - 1]"

definition scan_counts :: "align_args \<Rightarrow> align_state \<Rightarrow> align_state result" where
  "scan_counts g m = rbind (padded_counts g m) (\<lambda>vals.
     rbind (rfold (\<lambda>t c. if t < aa_num_experts g + 1 then array_store c t (exclusive_sum 0 vals ! nat t) else Inr c)
       [0..kScanThreads - 1] (al_cumsum m)) (\<lambda>c.
     rbind (rfold (\<lambda>t x. if t = aa_num_experts g then array_store x 0 (exclusive_sum 0 vals ! nat t) else Inr x)
       [0..kScanThreads - 1] (al_total_tokens_post_pad m)) (\<lambda>x.
     Inr (m\<lparr>al_cumsum := c, al_total_tokens_post_pad := x\<rparr>))))"

text \<open>The blocks of an expert, and the blocks left over.\<close>

definition expert_program :: "align_args \<Rightarrow> int \<Rightarrow> int \<Rightarrow> align_state \<Rightarrow> align_step list result" where
  "expert_program g stride tid m =
     rbind (if tid < aa_num_experts g
       then rbind (array_load (al_cumsum m) tid) (\<lambda>a. rbind (array_load (al_cumsum m) (tid + 1)) (\<lambda>b.
            Inr (map (\<lambda>i. Set_Expert (i sdiv aa_block_size g) tid) (stride_loop a (aa_block_size g) b))))
       else Inr []) (\<lambda>own.
     rbind (array_load (al_cumsum m) (aa_num_experts g)) (\<lambda>last.
     Inr (own @ map (\<lambda>i. Set_Expert i (-1)) (stride_loop (last sdiv aa_block_size g + tid) stride
       (CEILDIV (int (length (al_sorted_token_ids m))) (aa_block_size g))))))"

text \<open>
  A second block fills the sorted tokens while the first one counts; no other phase of the launch
  touches them, so the fill stands in the first phase. The placement is a launch of its own.
\<close>

definition align_large :: "scheduler \<Rightarrow> align_args \<Rightarrow> int \<Rightarrow> align_state \<Rightarrow> align_state result" where
  "align_large sched g warp_size m =
     rbind (run_phase sched g 0 (map (zero_program g warp_size) [0..kScanThreads - 1] @
       map (\<lambda>t. fill_program kScanThreads t m) [0..kScanThreads - 1]) m) (\<lambda>m.
     rbind (run_phase sched g 1 (map (\<lambda>t. map Count_Token (stride_loop t kScanThreads (aa_numel g)))
       [0..kScanThreads - 1]) m) (\<lambda>m.
     rbind (scan_counts g m) (\<lambda>m.
     rbind (rmap (\<lambda>t. expert_program g kScanThreads t m) [0..kScanThreads - 1]) (\<lambda>ps.
     rbind (run_phase sched g 2 ps m) (\<lambda>m.
     run_phase sched g 3 (map (map Place_Token)
       (grid_stride (min ((aa_numel g + 255) sdiv 256) 65535) 256 (aa_numel g))) m)))))"

section \<open>The program for small batches\<close>

definition kFillThreads :: int where "kFillThreads = 256"

definition row_count_program :: "align_args \<Rightarrow> int \<Rightarrow> int \<Rightarrow> align_step list" where
  "row_count_program g stride tid =
     map (\<lambda>i. Zero_Count ((tid + 1) * aa_num_experts g + i)) [0..aa_num_experts g - 1] @
     map (Count_Row tid) (stride_loop tid stride (aa_numel g))"

definition column_program :: "align_args \<Rightarrow> int \<Rightarrow> int \<Rightarrow> align_step list" where
  "column_program g stride tid = (if tid < aa_num_experts g
     then Zero_Count tid # map (\<lambda>i. Add_Count (i * aa_num_experts g + tid) ((i - 1) * aa_num_experts g + tid)) [1..stride]
     else [])"

text \<open>The first thread adds the padded counts up.\<close>

definition sum_padded :: "align_args \<Rightarrow> int \<Rightarrow> align_state \<Rightarrow> align_state result" where
  "sum_padded g stride m =
     rbind (array_store (al_cumsum m) 0 0) (\<lambda>c0.
     rbind (rfold (\<lambda>i c. rbind (array_load c (i - 1)) (\<lambda>a.
         rbind (array_load (al_counts m) (stride * aa_num_experts g + i - 1)) (\<lambda>n.
         array_store c i (int32 (a + CEILDIV n (aa_block_size g) * aa_block_size g)))))
       [1..aa_num_experts g] c0) (\<lambda>c.
     rbind (array_load c (aa_num_experts g)) (\<lambda>last.
     rbind (array_store (al_total_tokens_post_pad m) 0 last) (\<lambda>x.
     Inr (m\<lparr>al_cumsum := c, al_total_tokens_post_pad := x\<rparr>)))))"

definition align_small :: "scheduler \<Rightarrow> align_args \<Rightarrow> int \<Rightarrow> align_state \<Rightarrow> align_state result" where
  "align_small sched g stride m =
     rbind (run_phase sched g 0 (map (\<lambda>t. fill_program kFillThreads t m) [0..kFillThreads - 1] @
       map (row_count_program g stride) [0..stride - 1]) m) (\<lambda>m.
     rbind (run_phase sched g 1 (map (column_program g stride) [0..stride - 1]) m) (\<lambda>m.
     rbind (sum_padded g stride m) (\<lambda>m.
     rbind (rmap (\<lambda>t. rbind (expert_program g stride t m) (\<lambda>p.
       Inr (p @ map (Place_Row t) (stride_loop t stride (aa_numel g))))) [0..stride - 1]) (\<lambda>ps.
     run_phase sched g 2 ps m))))"

section \<open>The host\<close>

text \<open>
  The choice of the program. A block size that is not positive divides by zero or never ends a
  loop. \<open>junk\<close> is what fresh memory holds.
\<close>

definition align_args_of :: "int \<Rightarrow> int list \<Rightarrow> int \<Rightarrow> int \<Rightarrow> int list option \<Rightarrow> align_args" where
  "align_args_of warp_size topk_ids num_experts block_size maybe_expert_map =
     \<lparr>aa_topk_ids = topk_ids, aa_expert_map = maybe_expert_map, aa_num_experts = int32 num_experts,
       aa_block_size = int32 block_size, aa_experts_per_warp = warp_size,
       aa_padded_num_experts = int32 ((num_experts + warp_size - 1) sdiv warp_size * warp_size)\<rparr>"

definition moe_align_block_size ::
  "scheduler \<Rightarrow> int \<Rightarrow> (int \<Rightarrow> int) \<Rightarrow> int list \<Rightarrow> int \<Rightarrow> int \<Rightarrow> int list \<Rightarrow> int list \<Rightarrow> int list \<Rightarrow>
   int list option \<Rightarrow> align_state result" where
  "moe_align_block_size sched warp_size junk topk_ids num_experts block_size sorted_token_ids experts_ids
     num_tokens_post_pad maybe_expert_map =
     (let padded_num_experts = (num_experts + warp_size - 1) sdiv warp_size * warp_size;
          g = align_args_of warp_size topk_ids num_experts block_size maybe_expert_map;
          mem = (\<lambda>counts. \<lparr>al_sorted_token_ids = sorted_token_ids, al_expert_ids = experts_ids,
            al_total_tokens_post_pad = num_tokens_post_pad, al_cumsum = map junk [0..num_experts],
            al_counts = map junk [0..counts - 1]\<rparr>) in
      rbind (torch_check (padded_num_experts < 1024) ''padded_num_experts must be less than 1024'') (\<lambda>_.
      if int32 block_size \<le> 0 then Inl (Undefined ''block size'')
      else if int (length topk_ids) < 1024 \<and> num_experts \<le> 64 then
        let threads = max num_experts warp_size in align_small sched g threads (mem ((threads + 1) * num_experts))
      else align_large sched g warp_size
        (mem (CEILDIV padded_num_experts warp_size * warp_size))))"


section \<open>Placing into buckets\<close>

text \<open>
  Every item goes to the next free place of its bucket, which a counter holds up to an offset.
  Whatever the order of the items, a bucket then lists its items in the order of their arrival.
\<close>

definition arrivals :: "(int \<Rightarrow> int option) \<Rightarrow> int \<Rightarrow> int list \<Rightarrow> int list" where
  "arrivals key b zs = filter (\<lambda>z. key z = Some b) zs"

definition place_at ::
  "(int \<Rightarrow> int option) \<Rightarrow> (int \<Rightarrow> int) \<Rightarrow> int \<Rightarrow> int list \<times> int list \<Rightarrow> (int list \<times> int list) result" where
  "place_at key off z m = (case key z of None \<Rightarrow> Inr m
     | Some b \<Rightarrow> rbind (atomic_add (fst m) b 1) (\<lambda>(old, c).
         rbind (array_store (snd m) (old + off b) z) (\<lambda>d. Inr (c, d))))"

definition slice :: "int list \<Rightarrow> int \<Rightarrow> int \<Rightarrow> int list" where
  "slice xs a n = map (\<lambda>p. xs ! nat p) [a..a + n - 1]"

lemma arrivals_snoc: "arrivals key b (zs @ [z]) = arrivals key b zs @ (if key z = Some b then [z] else [])"
  by (simp add: arrivals_def)

lemma slice_Suc: "0 \<le> n \<Longrightarrow> slice xs a (n + 1) = slice xs a n @ [xs ! nat (a + n)]"
  using upto_rec2 [of a "a + n"] by (simp add: slice_def)

lemma slice_cong: "(\<And>p. a \<le> p \<Longrightarrow> p < a + n \<Longrightarrow> xs ! nat p = ys ! nat p) \<Longrightarrow> slice xs a n = slice ys a n"
  by (simp add: slice_def)

lemma length_slice [simp]: "length (slice xs a n) = nat n"
  by (simp add: slice_def)

text \<open>Where the buckets start, and that they do not meet.\<close>

definition buckets_ok :: "(int \<Rightarrow> int option) \<Rightarrow> (int \<Rightarrow> int) \<Rightarrow> int list \<Rightarrow> int list \<times> int list \<Rightarrow> bool" where
  "buckets_ok key off zs m \<longleftrightarrow>
     (\<forall>z \<in> set zs. \<forall>b. key z = Some b \<longrightarrow> in_array (fst m) b) \<and>
     (\<forall>b. in_array (fst m) b \<longrightarrow> - (2 ^ 31) \<le> fst m ! nat b \<and>
        fst m ! nat b + int (length (arrivals key b zs)) < 2 ^ 31 \<and>
        0 \<le> fst m ! nat b + off b \<and>
        fst m ! nat b + off b + int (length (arrivals key b zs)) \<le> int (length (snd m))) \<and>
     (\<forall>b b'. in_array (fst m) b \<and> in_array (fst m) b' \<and> b \<noteq> b' \<longrightarrow>
        fst m ! nat b + off b + int (length (arrivals key b zs)) \<le> fst m ! nat b' + off b' \<or>
        fst m ! nat b' + off b' + int (length (arrivals key b' zs)) \<le> fst m ! nat b + off b)"

lemma place_at_buckets:
  assumes "buckets_ok key off zs (c, d)"
  shows "\<exists>c' d'. rfold (place_at key off) zs (c, d) = Inr (c', d') \<and> length c' = length c \<and> length d' = length d \<and>
    (\<forall>b. in_array c b \<longrightarrow> c' ! nat b = c ! nat b + int (length (arrivals key b zs)) \<and>
       slice d' (c ! nat b + off b) (int (length (arrivals key b zs))) = arrivals key b zs) \<and>
    (\<forall>p. 0 \<le> p \<and> (\<forall>b. in_array c b \<longrightarrow> p < c ! nat b + off b \<or> c ! nat b + off b + int (length (arrivals key b zs)) \<le> p) \<longrightarrow>
       d' ! nat p = d ! nat p)"
  using assms
proof (induction zs rule: rev_induct)
  case Nil
  then show ?case by (simp add: arrivals_def slice_def)
next
  case (snoc z zs)
  have ok: "buckets_ok key off zs (c, d)"
    unfolding buckets_ok_def fst_conv snd_conv
  proof (intro conjI allI impI)
    fix b b' assume b: "in_array c b \<and> in_array c b' \<and> b \<noteq> b'"
    have "c ! nat b + off b + int (length (arrivals key b (zs @ [z]))) \<le> c ! nat b' + off b' \<or>
        c ! nat b' + off b' + int (length (arrivals key b' (zs @ [z]))) \<le> c ! nat b + off b"
      using snoc.prems b unfolding buckets_ok_def fst_conv snd_conv by blast
    then show "c ! nat b + off b + int (length (arrivals key b zs)) \<le> c ! nat b' + off b' \<or>
        c ! nat b' + off b' + int (length (arrivals key b' zs)) \<le> c ! nat b + off b"
      by (auto simp: arrivals_snoc split: if_splits)
  qed (use snoc.prems in \<open>auto simp: buckets_ok_def arrivals_snoc split: if_splits\<close>)
  then obtain c1 d1 where run: "rfold (place_at key off) zs (c, d) = Inr (c1, d1)"
    and len: "length c1 = length c" "length d1 = length d"
    and cell: "\<And>b. in_array c b \<Longrightarrow> c1 ! nat b = c ! nat b + int (length (arrivals key b zs)) \<and>
       slice d1 (c ! nat b + off b) (int (length (arrivals key b zs))) = arrivals key b zs"
    and rest: "\<And>p. 0 \<le> p \<Longrightarrow> \<forall>b. in_array c b \<longrightarrow> p < c ! nat b + off b \<or>
        c ! nat b + off b + int (length (arrivals key b zs)) \<le> p \<Longrightarrow> d1 ! nat p = d ! nat p"
    using snoc.IH by blast
  show ?case
  proof (cases "key z")
    case None
    then have run': "rfold (place_at key off) (zs @ [z]) (c, d) = Inr (c1, d1)"
      using run by (simp add: rfold_append) (simp add: place_at_def)
    show ?thesis
      by (rule exI [of _ c1], rule exI [of _ d1]) (use run' None len cell rest in \<open>simp add: arrivals_snoc\<close>)
  next
    case (Some b)
    let ?n = "int (length (arrivals key b zs))"
    let ?p = "c ! nat b + off b + ?n"
    have b: "in_array c b" using snoc.prems Some by (simp add: buckets_ok_def)
    have bounds: "- (2 ^ 31) \<le> c ! nat b" "c ! nat b + ?n + 1 < 2 ^ 31" "0 \<le> c ! nat b + off b" "?p < int (length d)"
      using snoc.prems b Some by (auto simp: buckets_ok_def arrivals_snoc)
    have apart: "p < c ! nat b' + off b' \<or> c ! nat b' + off b' + int (length (arrivals key b' zs)) \<le> p"
      if "in_array c b'" "b' \<noteq> b" "c ! nat b + off b \<le> p" "p \<le> ?p" for b' p
    proof -
      have "c ! nat b + off b + int (length (arrivals key b (zs @ [z]))) \<le> c ! nat b' + off b' \<or>
          c ! nat b' + off b' + int (length (arrivals key b' (zs @ [z]))) \<le> c ! nat b + off b"
        using snoc.prems that(1,2) b unfolding buckets_ok_def fst_conv snd_conv by blast
      then show ?thesis using that(2-4) Some by (auto simp: arrivals_snoc)
    qed
    have "in_array c1 b" using b len by (simp add: in_array_def)
    moreover have "int32 (c1 ! nat b + 1) = c1 ! nat b + 1"
      using cell [OF b] bounds by (intro int32_id) simp_all
    ultimately have add: "atomic_add c1 b 1 = Inr (c1 ! nat b, c1[nat b := c1 ! nat b + 1])" by (rule atomic_add_ok)
    have p: "c1 ! nat b + off b = ?p" using cell [OF b] by simp
    have store: "array_store d1 ?p z = Inr (d1[nat ?p := z])"
      using bounds(3,4) len by (simp add: array_store_def in_array_def)
    have run': "rfold (place_at key off) (zs @ [z]) (c, d) = Inr (c1[nat b := c1 ! nat b + 1], d1[nat ?p := z])"
      using run by (simp add: rfold_append) (simp add: place_at_def Some add p store)
    have nn: "nat p = nat ?p \<longleftrightarrow> p = ?p" if "0 \<le> p" for p using that bounds(3) by (simp add: eq_nat_nat_iff)
    have keep: "slice (d1[nat ?p := z]) (c ! nat b' + off b') (int (length (arrivals key b' zs))) = arrivals key b' zs"
      if "in_array c b'" for b'
    proof -
      have "0 \<le> c ! nat b' + off b'" using snoc.prems that by (simp add: buckets_ok_def)
      have "d1[nat ?p := z] ! nat p = d1 ! nat p"
        if "c ! nat b' + off b' \<le> p" "p < c ! nat b' + off b' + int (length (arrivals key b' zs))" for p
      proof -
        have "p \<noteq> ?p" using apart [OF \<open>in_array c b'\<close>, of p] that bounds by (cases "b' = b") auto
        then show ?thesis using nn [of p] that \<open>0 \<le> c ! nat b' + off b'\<close> by simp
      qed
      then show ?thesis using cell [OF that] slice_cong by metis
    qed
    have here: "slice (d1[nat ?p := z]) (c ! nat b + off b) (?n + 1) = arrivals key b zs @ [z]"
      using keep [OF b] bounds(3,4) len slice_Suc [of ?n "d1[nat ?p := z]" "c ! nat b + off b"] by simp
    show ?thesis
    proof (rule exI [of _ "c1[nat b := c1 ! nat b + 1]"], rule exI [of _ "d1[nat ?p := z]"], intro conjI run' allI impI)
      fix b' assume b': "in_array c b'"
      show "c1[nat b := c1 ! nat b + 1] ! nat b' = c ! nat b' + int (length (arrivals key b' (zs @ [z])))"
        using cell [OF b'] cell [OF b] b b' len Some
        by (cases "b' = b") (auto simp: nth_list_update in_array_def arrivals_snoc nat_eq_iff2)
      show "slice (d1[nat ?p := z]) (c ! nat b' + off b') (int (length (arrivals key b' (zs @ [z])))) =
          arrivals key b' (zs @ [z])"
        using keep [OF b'] here Some by (cases "b' = b") (simp_all add: arrivals_snoc algebra_simps)
    next
      fix p assume p': "0 \<le> p \<and> (\<forall>b'. in_array c b' \<longrightarrow> p < c ! nat b' + off b' \<or>
        c ! nat b' + off b' + int (length (arrivals key b' (zs @ [z]))) \<le> p)"
      then have "p \<noteq> ?p" using b Some by (force simp: arrivals_snoc)
      moreover have "d1 ! nat p = d ! nat p"
        by (rule rest) (use p' in \<open>force simp: arrivals_snoc\<close>)+
      ultimately show "d1[nat ?p := z] ! nat p = d ! nat p" using nn [of p] p' by simp
    qed (simp_all add: len)
  qed
qed


section \<open>What the aligned order is\<close>

text \<open>The expert of a token on this rank, its tokens, and where their padded blocks start.\<close>

definition token_expert :: "align_args \<Rightarrow> int \<Rightarrow> int option" where
  "token_expert g i = (let x = int32 (aa_topk_ids g ! nat i) in
     if aa_num_experts g \<le> x then None
     else case aa_expert_map g of None \<Rightarrow> Some x
       | Some m \<Rightarrow> if m ! nat x = -1 then None else Some (m ! nat x))"

definition expert_tokens :: "align_args \<Rightarrow> int \<Rightarrow> int list" where
  "expert_tokens g e = arrivals (token_expert g) e [0..aa_numel g - 1]"

definition padded_tokens :: "align_args \<Rightarrow> int \<Rightarrow> int" where
  "padded_tokens g e =
     (int (length (expert_tokens g e)) + aa_block_size g - 1) div aa_block_size g * aa_block_size g"

definition block_start :: "align_args \<Rightarrow> int \<Rightarrow> int" where
  "block_start g e = (\<Sum>k \<in> {0..<e}. padded_tokens g k)"

text \<open>
  The order is aligned: the places of an expert hold its tokens and then padding up to a whole
  block, every used block names its expert, and what is left over is padding and blocks of no
  expert.
\<close>

definition aligned :: "align_args \<Rightarrow> align_state \<Rightarrow> bool" where
  "aligned g m \<longleftrightarrow>
     (\<forall>e. 0 \<le> e \<and> e < aa_num_experts g \<longrightarrow>
        mset (slice (al_sorted_token_ids m) (block_start g e) (int (length (expert_tokens g e)))) = mset (expert_tokens g e) \<and>
        (\<forall>p. block_start g e + int (length (expert_tokens g e)) \<le> p \<and> p < block_start g (e + 1) \<longrightarrow>
           al_sorted_token_ids m ! nat p = aa_numel g) \<and>
        (\<forall>b. block_start g e \<le> b * aa_block_size g \<and> b * aa_block_size g < block_start g (e + 1) \<longrightarrow>
           al_expert_ids m ! nat b = e)) \<and>
     (\<forall>p. block_start g (aa_num_experts g) \<le> p \<and> p < int (length (al_sorted_token_ids m)) \<longrightarrow>
        al_sorted_token_ids m ! nat p = aa_numel g) \<and>
     (\<forall>b. block_start g (aa_num_experts g) \<le> b * aa_block_size g \<and> b < int (length (al_expert_ids m)) \<longrightarrow>
        al_expert_ids m ! nat b = -1) \<and>
     al_total_tokens_post_pad m ! 0 = block_start g (aa_num_experts g)"

text \<open>Ids and a map the experts of which exist.\<close>

definition align_args_ok :: "align_args \<Rightarrow> bool" where
  "align_args_ok g \<longleftrightarrow> 0 < aa_num_experts g \<and> aa_num_experts g < 1024 \<and> 0 < aa_block_size g \<and> aa_numel g < 2 ^ 31 \<and>
     (\<forall>x \<in> set (aa_topk_ids g). 0 \<le> x \<and> x < 2 ^ 31) \<and>
     (\<forall>m. aa_expert_map g = Some m \<longrightarrow> aa_num_experts g \<le> int (length m) \<and>
        (\<forall>e \<in> set m. e = -1 \<or> 0 \<le> e \<and> e < aa_num_experts g))"

text \<open>Room for the padded tokens and their blocks.\<close>

definition align_memory_ok :: "align_args \<Rightarrow> align_state \<Rightarrow> bool" where
  "align_memory_ok g m \<longleftrightarrow>
     block_start g (aa_num_experts g) \<le> int (length (al_sorted_token_ids m)) \<and>
     int (length (al_sorted_token_ids m)) + aa_block_size g < 2 ^ 31 \<and>
     int (length (al_expert_ids m)) = CEILDIV (int (length (al_sorted_token_ids m))) (aa_block_size g) \<and>
     0 < length (al_total_tokens_post_pad m) \<and> int (length (al_cumsum m)) = aa_num_experts g + 1"

lemma topk_id_ok:
  assumes "align_args_ok g" and "0 \<le> i" "i < aa_numel g"
  shows "0 \<le> aa_topk_ids g ! nat i" and "int32 (aa_topk_ids g ! nat i) = aa_topk_ids g ! nat i"
    and "aa_topk_ids g ! nat i \<in> set (aa_topk_ids g)"
    and "array_load (aa_topk_ids g) i = Inr (aa_topk_ids g ! nat i)"
proof -
  show x: "aa_topk_ids g ! nat i \<in> set (aa_topk_ids g)" using assms(2,3) by simp
  then show "0 \<le> aa_topk_ids g ! nat i" "int32 (aa_topk_ids g ! nat i) = aa_topk_ids g ! nat i"
    using assms(1) by (auto simp: align_args_ok_def intro!: int32_id)
  show "array_load (aa_topk_ids g) i = Inr (aa_topk_ids g ! nat i)"
    using assms(2,3) by (simp add: array_load_def in_array_def)
qed

lemma large_expert_eq:
  assumes "align_args_ok g" and "0 \<le> i" "i < aa_numel g"
  shows "large_expert g i = Inr (token_expert g i)"
proof -
  note x = topk_id_ok [OF assms]
  have "array_load m (aa_topk_ids g ! nat i) = Inr (m ! nat (aa_topk_ids g ! nat i))"
    if "aa_expert_map g = Some m" "aa_topk_ids g ! nat i < aa_num_experts g" for m
    using assms(1) that x(1) by (auto simp: align_args_ok_def array_load_def in_array_def)
  then show ?thesis
    by (cases "aa_expert_map g") (simp_all add: large_expert_def token_expert_def x map_expert_def Let_def)
qed

lemma token_expert_range:
  assumes "align_args_ok g" and "0 \<le> i" "i < aa_numel g" and "token_expert g i = Some e"
  shows "0 \<le> e" and "e < aa_num_experts g"
proof -
  let ?x = "aa_topk_ids g ! nat i"
  note x = topk_id_ok [OF assms(1-3)]
  have "0 \<le> e \<and> e < aa_num_experts g"
  proof (cases "aa_expert_map g")
    case (Some m)
    then have "?x < aa_num_experts g" "e = m ! nat ?x" "e \<noteq> -1"
      using assms(4) x by (auto simp: token_expert_def Let_def split: if_splits)
    moreover have "m ! nat ?x \<in> set m" using calculation(1) x assms(1) Some by (auto simp: align_args_ok_def)
    ultimately show ?thesis using assms(1) Some by (auto simp: align_args_ok_def)
  qed (use assms(4) x in \<open>auto simp: token_expert_def Let_def split: if_splits\<close>)
  then show "0 \<le> e" "e < aa_num_experts g" by simp_all
qed

lemma block_start_Suc: "0 \<le> e \<Longrightarrow> block_start g (e + 1) = block_start g e + padded_tokens g e"
proof -
  assume "0 \<le> e"
  then have "{0..<e + 1} = insert e {0..<e}" by auto
  then show ?thesis by (simp add: block_start_def)
qed

lemma round_up_ge:
  assumes "0 < (b::int)" and "0 \<le> n"
  shows "n \<le> (n + b - 1) div b * b" and "0 \<le> (n + b - 1) div b * b" and "(n + b - 1) div b * b < n + b"
proof -
  have e: "(n + b - 1) div b * b = (n + b - 1) - (n + b - 1) mod b" by (rule minus_mod_eq_div_mult [symmetric])
  have m: "0 \<le> (n + b - 1) mod b" "(n + b - 1) mod b < b" using assms by simp_all
  show "n \<le> (n + b - 1) div b * b" "(n + b - 1) div b * b < n + b" using e m by linarith+
  then show "0 \<le> (n + b - 1) div b * b" using assms(2) by linarith
qed

lemma padded_tokens_ge:
  assumes "0 < aa_block_size g"
  shows "int (length (expert_tokens g e)) \<le> padded_tokens g e" and "0 \<le> padded_tokens g e"
  using round_up_ge [OF assms, of "int (length (expert_tokens g e))"] by (simp_all add: padded_tokens_def)

lemma block_start_mono:
  assumes "0 < aa_block_size g" and "d \<le> e"
  shows "block_start g d \<le> block_start g e"
  unfolding block_start_def
  by (rule sum_mono2) (use assms padded_tokens_ge(2) in auto)

lemma block_start_nonneg: "0 < aa_block_size g \<Longrightarrow> 0 \<le> block_start g e"
  unfolding block_start_def by (intro sum_nonneg) (simp add: padded_tokens_ge)

lemma block_start_dvd: "aa_block_size g dvd block_start g e"
  unfolding block_start_def by (rule dvd_sum) (simp add: padded_tokens_def)

text \<open>Interleavings of programs that are all steps of one kind.\<close>

lemma interleave_set: "interleave ps xs \<Longrightarrow> set xs = \<Union> (set ` set ps)"
  using interleave_mset [of ps xs] mset_eq_setD [of xs "concat ps"] by simp

lemma mset_map_list:
  assumes "mset xs = mset (map f zs)"
  shows "\<exists>ys. xs = map f ys \<and> mset ys = mset zs"
  using assms
proof (induction xs arbitrary: zs)
  case (Cons x xs)
  have "x \<in> set (map f zs)" using mset_eq_setD [OF Cons.prems] by auto
  then obtain as z bs where z: "zs = as @ z # bs" "f z = x" by (auto dest: split_list)
  then have "mset xs = mset (map f (as @ bs))" using Cons.prems by simp
  then obtain ys where "xs = map f ys" "mset ys = mset (as @ bs)" using Cons.IH by blast
  then have "x # xs = map f (z # ys) \<and> mset (z # ys) = mset zs" using z by simp
  then show ?case by (rule exI)
qed simp

lemma interleave_map:
  assumes "interleave (map (map f) ps) xs"
  shows "\<exists>ys. xs = map f ys \<and> mset ys = mset (concat ps)"
proof -
  have "mset xs = mset (map f (concat ps))" using interleave_mset [OF assms] by (simp add: map_concat)
  then show ?thesis by (rule mset_map_list)
qed


section \<open>The program for large batches is right\<close>

lemma numel_small: "align_args_ok g \<Longrightarrow> int32 (aa_numel g) = aa_numel g"
  by (intro int32_id) (simp_all add: align_args_ok_def)

lemma numel_int32: "align_args_ok g \<Longrightarrow> 0 \<le> i \<Longrightarrow> i < aa_numel g \<Longrightarrow> int32 i = i"
  by (intro int32_id) (simp_all add: align_args_ok_def)

lemma nth_store:
  "0 \<le> a \<Longrightarrow> a < int (length xs) \<Longrightarrow> 0 \<le> p \<Longrightarrow> xs[nat a := v] ! nat p = (if p = a then v else xs ! nat p)"
  by (simp add: nth_list_update eq_nat_nat_iff)

text \<open>Filling and zeroing.\<close>

lemma fill_zero_run:
  assumes "align_args_ok g"
    and "\<forall>x \<in> set xs. (\<exists>a. x = Fill_Sorted a \<and> in_array (al_sorted_token_ids m) a) \<or>
      (\<exists>a. x = Zero_Count a \<and> in_array (al_counts m) a)"
  shows "\<exists>s c. rfold (align_exec g) xs m = Inr (m\<lparr>al_sorted_token_ids := s, al_counts := c\<rparr>) \<and>
    length s = length (al_sorted_token_ids m) \<and> length c = length (al_counts m) \<and>
    (\<forall>p \<ge> 0. s ! nat p = (if Fill_Sorted p \<in> set xs then aa_numel g else al_sorted_token_ids m ! nat p)) \<and>
    (\<forall>p \<ge> 0. c ! nat p = (if Zero_Count p \<in> set xs then 0 else al_counts m ! nat p))"
  using assms(2)
proof (induction xs rule: rev_induct)
  case Nil
  then show ?case by (intro exI [of _ "al_sorted_token_ids m"] exI [of _ "al_counts m"]) simp
next
  case (snoc x xs)
  then obtain s c where run: "rfold (align_exec g) xs m = Inr (m\<lparr>al_sorted_token_ids := s, al_counts := c\<rparr>)"
    and len: "length s = length (al_sorted_token_ids m)" "length c = length (al_counts m)"
    and s: "\<forall>p \<ge> 0. s ! nat p = (if Fill_Sorted p \<in> set xs then aa_numel g else al_sorted_token_ids m ! nat p)"
    and c: "\<forall>p \<ge> 0. c ! nat p = (if Zero_Count p \<in> set xs then 0 else al_counts m ! nat p)" by auto
  have "(\<exists>a. x = Fill_Sorted a \<and> in_array (al_sorted_token_ids m) a) \<or>
      (\<exists>a. x = Zero_Count a \<and> in_array (al_counts m) a)" using snoc.prems by simp
  then show ?case
  proof (elim disjE exE conjE)
    fix a assume x: "x = Fill_Sorted a" and a: "in_array (al_sorted_token_ids m) a"
    have "rfold (align_exec g) (xs @ [x]) m = Inr (m\<lparr>al_sorted_token_ids := s[nat a := aa_numel g], al_counts := c\<rparr>)"
      using run a len by (simp add: rfold_append x array_store_def in_array_def numel_small [OF assms(1)])
    then show ?thesis using len s c a x
      by (intro exI [of _ "s[nat a := aa_numel g]"] exI [of _ c])
        (simp add: in_array_def nth_store)
  next
    fix a assume x: "x = Zero_Count a" and a: "in_array (al_counts m) a"
    have "rfold (align_exec g) (xs @ [x]) m = Inr (m\<lparr>al_sorted_token_ids := s, al_counts := c[nat a := 0]\<rparr>)"
      using run a len by (simp add: rfold_append x array_store_def in_array_def)
    then show ?thesis using len s c a x
      by (intro exI [of _ s] exI [of _ "c[nat a := 0]"])
        (simp add: in_array_def nth_store)
  qed
qed

text \<open>Counting.\<close>

lemma count_index_id: "0 \<le> e \<Longrightarrow> 0 < aa_experts_per_warp g \<Longrightarrow> count_index g e = e"
  by (simp add: count_index_def c_arith)

lemma count_run:
  assumes ok: "align_args_ok g" "0 < aa_experts_per_warp g" and len: "aa_num_experts g \<le> int (length (al_counts m))"
    and ys: "\<forall>y \<in> set ys. 0 \<le> y \<and> y < aa_numel g"
    and small: "\<forall>e. 0 \<le> e \<and> e < aa_num_experts g \<longrightarrow> al_counts m ! nat e = 0" "int (length ys) < 2 ^ 31"
  shows "\<exists>c. rfold (align_exec g) (map Count_Token ys) m = Inr (m\<lparr>al_counts := c\<rparr>) \<and> length c = length (al_counts m) \<and>
    (\<forall>e. 0 \<le> e \<and> e < aa_num_experts g \<longrightarrow> c ! nat e = int (length (arrivals (token_expert g) e ys)))"
  using ys small(2)
proof (induction ys rule: rev_induct)
  case Nil
  then show ?case using small(1) by (intro exI [of _ "al_counts m"]) (simp add: arrivals_def)
next
  case (snoc y ys)
  then obtain c where run: "rfold (align_exec g) (map Count_Token ys) m = Inr (m\<lparr>al_counts := c\<rparr>)"
    and c: "length c = length (al_counts m)"
      "\<forall>e. 0 \<le> e \<and> e < aa_num_experts g \<longrightarrow> c ! nat e = int (length (arrivals (token_expert g) e ys))" by auto
  have y: "0 \<le> y" "y < aa_numel g" using snoc.prems by simp_all
  show ?case
  proof (cases "token_expert g y")
    case None
    then have "rfold (align_exec g) (map Count_Token (ys @ [y])) m = Inr (m\<lparr>al_counts := c\<rparr>)"
      using run by (simp add: rfold_append count_token_def large_expert_eq [OF ok(1) y])
    then show ?thesis using c None by (intro exI [of _ c]) (simp add: arrivals_snoc)
  next
    case (Some e)
    note e = token_expert_range [OF ok(1) y Some]
    have "length (arrivals (token_expert g) e ys) \<le> length ys" by (simp add: arrivals_def)
    then have "int32 (c ! nat e + 1) = c ! nat e + 1" using c(2) e snoc.prems by (intro int32_id) auto
    then have "atomic_add c e 1 = Inr (c ! nat e, c[nat e := c ! nat e + 1])"
      using e c(1) len by (intro atomic_add_ok) (simp_all add: in_array_def)
    then have "rfold (align_exec g) (map Count_Token (ys @ [y])) m = Inr (m\<lparr>al_counts := c[nat e := c ! nat e + 1]\<rparr>)"
      using run e
      by (simp add: rfold_append count_token_def large_expert_eq [OF ok(1) y] Some count_index_id [OF _ ok(2)])
    then show ?thesis using c e Some len
      by (intro exI [of _ "c[nat e := c ! nat e + 1]"]) (simp add: arrivals_snoc nth_store)
  qed
qed

text \<open>The scan.\<close>

lemma rfold_one:
  "distinct xs \<Longrightarrow> k \<in> set xs \<Longrightarrow> rfold (\<lambda>t x. if t = k then f x else Inr x) xs s = f s"
proof (induction xs)
  case (Cons y xs)
  have skip: "k \<notin> set xs \<Longrightarrow> rfold (\<lambda>t x. if t = k then f x else Inr x) xs s = Inr s" for s
    by (induction xs) auto
  show ?case
  proof (cases "y = k")
    case True
    then show ?thesis using Cons.prems skip by (cases "f s") simp_all
  qed (use Cons in simp)
qed simp

lemma padded_counts_eq:
  assumes ok: "align_args_ok g" "0 < aa_experts_per_warp g" and len: "aa_num_experts g \<le> int (length (al_counts m))"
    and c: "\<forall>e. 0 \<le> e \<and> e < aa_num_experts g \<longrightarrow> al_counts m ! nat e = int (length (expert_tokens g e))"
  shows "padded_counts g m = Inr (map (\<lambda>t. if t < aa_num_experts g then padded_tokens g t else 0) [0..kScanThreads - 1])"
  unfolding padded_counts_def
proof (rule rmap_total)
  fix t assume t: "t \<in> set [0..kScanThreads - 1]"
  then have "0 \<le> t" by simp
  moreover have "0 < aa_block_size g" using ok(1) by (simp add: align_args_ok_def)
  ultimately show "(if t < aa_num_experts g
      then rbind (array_load (al_counts m) (count_index g t)) (\<lambda>c. Inr (CEILDIV c (aa_block_size g) * aa_block_size g))
      else Inr 0) = Inr (if t < aa_num_experts g then padded_tokens g t else 0)"
    using c len by (simp add: count_index_id [OF _ ok(2)] array_load_def in_array_def CEILDIV_def padded_tokens_def sdiv_nonneg)
qed

lemma scan_counts_eq:
  assumes ok: "align_args_ok g" "0 < aa_experts_per_warp g" and len: "aa_num_experts g \<le> int (length (al_counts m))"
    and c: "\<forall>e. 0 \<le> e \<and> e < aa_num_experts g \<longrightarrow> al_counts m ! nat e = int (length (expert_tokens g e))"
    and mem: "align_memory_ok g m"
  shows "scan_counts g m = Inr (m\<lparr>al_cumsum := map (block_start g) [0..aa_num_experts g],
    al_total_tokens_post_pad := (al_total_tokens_post_pad m)[0 := block_start g (aa_num_experts g)]\<rparr>)"
proof -
  let ?E = "aa_num_experts g"
  let ?v = "\<lambda>t. if t < ?E then padded_tokens g t else 0"
  let ?vals = "map ?v [0..kScanThreads - 1]"
  have E: "0 < ?E" "?E < kScanThreads" and B: "0 < aa_block_size g" using ok(1) by (simp_all add: align_args_ok_def kScanThreads_def)
  have sum: "sum_list (take t ?vals) = block_start g (min (int t) ?E)" if "t \<le> nat kScanThreads" for t
  proof -
    have "sum_list (take t ?vals) = (\<Sum>k \<in> {0..<int t}. ?v k)" using that by (rule take_upto_map)
    also have "\<dots> = (\<Sum>k \<in> {0..<min (int t) ?E}. padded_tokens g k)"
      by (intro sum.mono_neutral_cong_right) auto
    finally show ?thesis by (simp add: block_start_def)
  qed
  have "take (nat kScanThreads) ?vals = ?vals" by simp
  then have "sum_list ?vals = block_start g ?E" using sum [of "nat kScanThreads"] E by simp
  then have bound: "0 + sum_list ?vals < 2 ^ 31" using mem B by (simp add: align_memory_ok_def)
  have nonneg: "\<forall>v \<in> set ?vals. 0 \<le> v" using padded_tokens_ge(2) [OF B] by auto
  have at_t: "exclusive_sum 0 ?vals ! nat t = block_start g t" if "0 \<le> t" "t \<le> ?E" for t
  proof -
    have "nat t < length ?vals" using that E by simp
    then have "exclusive_sum 0 ?vals ! nat t = 0 + sum_list (take (nat t) ?vals)"
      by (intro exclusive_sum_nth [OF order_refl nonneg bound])
    moreover have "nat t \<le> nat kScanThreads" using that E by simp
    ultimately show ?thesis using sum [of "nat t"] that by simp
  qed
  have nth: "map (\<lambda>i. if i < kScanThreads then exclusive_sum 0 ?vals ! nat i else al_cumsum m ! nat i) [0..?E + 1 - 1] =
      map (block_start g) [0..?E]"
    using E at_t by (auto intro!: map_cong)
  have cum: "rfold (\<lambda>t c. if t < ?E + 1 then array_store c t (exclusive_sum 0 ?vals ! nat t) else Inr c)
      [0..kScanThreads - 1] (al_cumsum m) = Inr (map (block_start g) [0..?E])"
  proof -
    have len: "length (al_cumsum m) = nat (?E + 1)" using mem by (auto simp: align_memory_ok_def)
    have pos: "0 \<le> kScanThreads" by (simp add: kScanThreads_def)
    show ?thesis unfolding nth [symmetric] by (rule store_each [OF pos len])
  qed
  have tot: "rfold (\<lambda>t x. if t = ?E then array_store x 0 (exclusive_sum 0 ?vals ! nat t) else Inr x)
      [0..kScanThreads - 1] (al_total_tokens_post_pad m) = Inr ((al_total_tokens_post_pad m)[0 := block_start g ?E])"
  proof -
    have "rfold (\<lambda>t x. if t = ?E then array_store x 0 (exclusive_sum 0 ?vals ! nat t) else Inr x)
        [0..kScanThreads - 1] (al_total_tokens_post_pad m) =
      rfold (\<lambda>t x. if t = ?E then array_store x 0 (block_start g ?E) else Inr x)
        [0..kScanThreads - 1] (al_total_tokens_post_pad m)"
      using at_t [of ?E] E by (intro arg_cong [where f = "\<lambda>f. rfold f _ _"] ext) auto
    also have "\<dots> = array_store (al_total_tokens_post_pad m) 0 (block_start g ?E)"
      by (rule rfold_one) (use E in simp_all)
    finally show ?thesis using mem by (simp add: align_memory_ok_def array_store_def in_array_def)
  qed
  show ?thesis
    unfolding scan_counts_def padded_counts_eq [OF ok len c] rbind_Inr cum tot ..
qed


text \<open>The blocks of the experts.\<close>

definition expert_steps :: "align_args \<Rightarrow> int \<Rightarrow> int \<Rightarrow> int \<Rightarrow> align_step list" where
  "expert_steps g stride blocks t =
     (if t < aa_num_experts g then map (\<lambda>i. Set_Expert (i sdiv aa_block_size g) t)
        (stride_loop (block_start g t) (aa_block_size g) (block_start g (t + 1))) else []) @
     map (\<lambda>i. Set_Expert i (-1)) (stride_loop (block_start g (aa_num_experts g) sdiv aa_block_size g + t) stride blocks)"

definition block_of :: "align_args \<Rightarrow> int \<Rightarrow> int \<Rightarrow> bool" where
  "block_of g b e \<longleftrightarrow> 0 \<le> b \<and>
     (0 \<le> e \<and> e < aa_num_experts g \<and> block_start g e \<le> b * aa_block_size g \<and> b * aa_block_size g < block_start g (e + 1) \<or>
      e = -1 \<and> block_start g (aa_num_experts g) \<le> b * aa_block_size g)"

lemma block_of_unique:
  assumes "0 < aa_block_size g" and "block_of g b d" and "block_of g b e"
  shows "d = e"
proof -
  have m: "block_start g i \<le> block_start g j" if "i \<le> j" for i j using block_start_mono [OF assms(1) that] .
  have "\<not> d < e" if "0 \<le> d" using assms(2,3) m [of "d + 1" e] m [of "d + 1" "aa_num_experts g"] that by (auto simp: block_of_def)
  moreover have "\<not> e < d" if "0 \<le> e" using assms(2,3) m [of "e + 1" d] that by (auto simp: block_of_def)
  moreover have "\<not> (d = -1 \<and> 0 \<le> e)" "\<not> (e = -1 \<and> 0 \<le> d)"
    using assms(2,3) m [of "e + 1" "aa_num_experts g"] m [of "d + 1" "aa_num_experts g"] by (auto simp: block_of_def)
  ultimately show ?thesis using assms(2,3) by (auto simp: block_of_def)
qed

lemma expert_program_eq:
  assumes "al_cumsum m = map (block_start g) [0..aa_num_experts g]" and "0 < aa_num_experts g" and "0 \<le> t"
  shows "expert_program g stride t m =
    Inr (expert_steps g stride (CEILDIV (int (length (al_sorted_token_ids m))) (aa_block_size g)) t)"
proof -
  have "array_load (al_cumsum m) i = Inr (block_start g i)" if "0 \<le> i" "i \<le> aa_num_experts g" for i
    using that by (simp add: assms(1) array_load_def in_array_def nth_upto)
  then show ?thesis using assms(2,3) by (simp add: expert_program_def expert_steps_def)
qed

lemma ceildiv_le: "0 < b \<Longrightarrow> 0 \<le> m \<Longrightarrow> 0 \<le> a \<Longrightarrow> a < CEILDIV m b \<longleftrightarrow> a * b < m"
proof -
  assume b: "0 < b" and m: "0 \<le> m" and a: "0 \<le> a"
  have c: "CEILDIV m b = (m + b - 1) div b"
    using b m by (simp add: CEILDIV_def sdiv_nonneg)
  have r: "m \<le> CEILDIV m b * b" "CEILDIV m b * b < m + b"
    using round_up_ge [OF b m] by (simp_all add: c)
  show "a < CEILDIV m b \<longleftrightarrow> a * b < m"
  proof
    assume "a < CEILDIV m b"
    then have "(a + 1) * b \<le> CEILDIV m b * b" using b by simp
    then show "a * b < m" using r by (simp add: algebra_simps)
  next
    assume "a * b < m"
    then have "a * b < CEILDIV m b * b" using r by linarith
    then show "a < CEILDIV m b" by (rule mult_less_cancel_right_pos [OF b, THEN iffD1])
  qed
qed

lemma expert_steps_in:
  assumes B: "0 < aa_block_size g" and t: "0 \<le> t" "0 < stride"
    and room: "block_start g (aa_num_experts g) \<le> n"
    and x: "x \<in> set (expert_steps g stride (CEILDIV n (aa_block_size g)) t)"
  shows "\<exists>b e. x = Set_Expert b e \<and> block_of g b e \<and> b < CEILDIV n (aa_block_size g)"
proof -
  let ?B = "aa_block_size g"
  let ?E = "aa_num_experts g"
  have mult: "i sdiv ?B * ?B = i" "0 \<le> i sdiv ?B" if "0 \<le> i" "?B dvd i" for i
    using that B by (simp_all add: sdiv_nonneg pos_imp_zdiv_nonneg_iff)
  note nonneg = block_start_nonneg [OF B]
  have n: "0 \<le> n" using room nonneg [of ?E] by simp
  consider i where "t < ?E" "x = Set_Expert (i sdiv ?B) t" "i \<in> set (stride_loop (block_start g t) ?B (block_start g (t + 1)))"
    | i where "x = Set_Expert i (-1)" "i \<in> set (stride_loop (block_start g ?E sdiv ?B + t) stride (CEILDIV n ?B))"
    using x by (auto simp: expert_steps_def split: if_splits)
  then show ?thesis
  proof cases
    case 1
    then have i: "block_start g t \<le> i" "i < block_start g (t + 1)" "?B dvd i - block_start g t"
      using B by (simp_all add: set_stride_loop)
    have "?B dvd i" using i(3) block_start_dvd [of g t] by (metis diff_add_cancel dvd_add)
    then have m: "i sdiv ?B * ?B = i" "0 \<le> i sdiv ?B" using mult i(1) nonneg [of t] by simp_all
    have "i < n" using i(2) block_start_mono [OF B, of "t + 1" ?E] 1(1) room by simp
    then have "i sdiv ?B < CEILDIV n ?B" using ceildiv_le [OF B n m(2)] m(1) by simp
    then show ?thesis using 1 i t m by (auto simp: block_of_def)
  next
    case 2
    then have i: "block_start g ?E sdiv ?B + t \<le> i" "i < CEILDIV n ?B" using t(2) by (simp_all add: set_stride_loop)
    have s: "block_start g ?E sdiv ?B * ?B = block_start g ?E" "0 \<le> block_start g ?E sdiv ?B"
      using mult nonneg block_start_dvd by blast+
    have "block_start g ?E sdiv ?B * ?B \<le> i * ?B" using i(1) t(1) B by (intro mult_right_mono) simp_all
    then show ?thesis using 2 i s t by (auto simp: block_of_def)
  qed
qed

lemma expert_steps_all:
  assumes B: "0 < aa_block_size g" and E: "0 < aa_num_experts g" "aa_num_experts g \<le> stride"
    and room: "block_start g (aa_num_experts g) \<le> n"
    and b: "block_of g b e" "b < CEILDIV n (aa_block_size g)"
  shows "\<exists>t. 0 \<le> t \<and> t < stride \<and> Set_Expert b e \<in> set (expert_steps g stride (CEILDIV n (aa_block_size g)) t)"
proof -
  let ?B = "aa_block_size g"
  let ?E = "aa_num_experts g"
  have "0 \<le> b" using b(1) by (simp add: block_of_def)
  consider "0 \<le> e" "e < ?E" "block_start g e \<le> b * ?B" "b * ?B < block_start g (e + 1)"
    | "e = -1" "block_start g ?E \<le> b * ?B" using b(1) by (auto simp: block_of_def)
  then show ?thesis
  proof cases
    case 1
    have "b * ?B \<in> set (stride_loop (block_start g e) ?B (block_start g (e + 1)))"
      using 1 B block_start_dvd [of g e] by (simp add: set_stride_loop dvd_diff)
    moreover have "b * ?B sdiv ?B = b" using B \<open>0 \<le> b\<close> by (simp add: sdiv_nonneg)
    ultimately have "Set_Expert b e \<in> set (expert_steps g stride (CEILDIV n ?B) e)"
      using 1(2) by (force simp: expert_steps_def)
    then show ?thesis using 1 E by (intro exI [of _ e]) simp
  next
    case 2
    let ?s = "block_start g ?E sdiv ?B"
    have "?s = block_start g ?E div ?B" using B block_start_nonneg [OF B] by (simp add: sdiv_nonneg)
    then have "?s \<le> b" using 2(2) zdiv_mono1 [OF 2(2) B] B by simp
    let ?t = "(b - ?s) mod stride"
    have t: "0 \<le> ?t" "?t < stride" "?t \<le> b - ?s" using E \<open>?s \<le> b\<close> by (simp_all add: zmod_le_nonneg_dividend)
    have "stride dvd (b - ?s) - ?t" by (rule dvd_minus_mod)
    moreover have "(b - ?s) - ?t = b - (?s + ?t)" by simp
    ultimately have "b \<in> set (stride_loop (?s + ?t) stride (CEILDIV n ?B))"
      using t b(2) E by (simp only: set_stride_loop) simp
    then have "Set_Expert b e \<in> set (expert_steps g stride (CEILDIV n ?B) ?t)" using 2(1) by (simp add: expert_steps_def)
    then show ?thesis using t(1,2) by blast
  qed
qed

lemma set_expert_run:
  assumes "\<forall>x \<in> set xs. \<exists>b e. x = Set_Expert b e \<and> 0 \<le> b \<and> b < int (length (al_expert_ids m))"
    and "\<forall>b d e. Set_Expert b d \<in> set xs \<and> Set_Expert b e \<in> set xs \<longrightarrow> d = e"
  shows "\<exists>x. rfold (align_exec g) xs m = Inr (m\<lparr>al_expert_ids := x\<rparr>) \<and> length x = length (al_expert_ids m) \<and>
    (\<forall>b e. Set_Expert b e \<in> set xs \<longrightarrow> x ! nat b = e)"
  using assms
proof (induction xs rule: rev_induct)
  case Nil
  then show ?case by (intro exI [of _ "al_expert_ids m"]) simp
next
  case (snoc y xs)
  then obtain x where x: "rfold (align_exec g) xs m = Inr (m\<lparr>al_expert_ids := x\<rparr>)" "length x = length (al_expert_ids m)"
    "\<forall>b e. Set_Expert b e \<in> set xs \<longrightarrow> x ! nat b = e" by auto
  obtain b e where y: "y = Set_Expert b e" "0 \<le> b" "b < int (length x)" using snoc.prems(1) x(2) by auto
  have "rfold (align_exec g) (xs @ [y]) m = Inr (m\<lparr>al_expert_ids := x[nat b := e]\<rparr>)"
    using x y by (simp add: rfold_append array_store_def in_array_def)
  moreover have "x[nat b := e] ! nat b' = e'" if "Set_Expert b' e' \<in> set (xs @ [y])" for b' e'
  proof (cases "b' = b")
    case True
    then have "e' = e" using snoc.prems(2) [rule_format, of b e' e] that y(1) by simp
    then show ?thesis using True y by simp
  next
    case False
    have "0 \<le> b'" using bspec [OF snoc.prems(1) that] by simp
    moreover have "Set_Expert b' e' \<in> set xs" using that False y(1) by simp
    ultimately show ?thesis using False x(3) y(2,3) by (simp add: nth_store)
  qed
  ultimately show ?case using x(2) by (intro exI [of _ "x[nat b := e]"]) simp
qed


text \<open>The placement, as placing into buckets.\<close>

lemma place_token_sim:
  assumes "align_args_ok g" and "\<forall>y \<in> set ys. 0 \<le> y \<and> y < aa_numel g"
    and "rfold (place_at (token_expert g) (\<lambda>b. 0)) ys (al_cumsum m, al_sorted_token_ids m) = Inr (c, d)"
  shows "rfold (align_exec g) (map Place_Token ys) m = Inr (m\<lparr>al_cumsum := c, al_sorted_token_ids := d\<rparr>)"
  using assms(2,3)
proof (induction ys arbitrary: m)
  case (Cons y ys)
  have y: "0 \<le> y" "y < aa_numel g" using Cons.prems(1) by simp_all
  obtain c1 d1 where one: "place_at (token_expert g) (\<lambda>b. 0) y (al_cumsum m, al_sorted_token_ids m) = Inr (c1, d1)"
    and more: "rfold (place_at (token_expert g) (\<lambda>b. 0)) ys (c1, d1) = Inr (c, d)"
    using Cons.prems(2) by (auto simp: rbind_eq_Inr_iff)
  have "align_exec g (Place_Token y) m = Inr (m\<lparr>al_cumsum := c1, al_sorted_token_ids := d1\<rparr>)"
    using one by (auto simp: place_at_def place_token_def large_expert_eq [OF assms(1) y] numel_int32 [OF assms(1) y]
      rbind_eq_Inr_iff split: option.splits)
  moreover have "rfold (align_exec g) (map Place_Token ys) (m\<lparr>al_cumsum := c1, al_sorted_token_ids := d1\<rparr>) =
      Inr (m\<lparr>al_cumsum := c1, al_sorted_token_ids := d1, al_cumsum := c, al_sorted_token_ids := d\<rparr>)"
    using Cons.prems(1) more by (intro Cons.IH) simp_all
  ultimately show ?case by simp
qed simp

lemma arrivals_mset: "mset ys = mset zs \<Longrightarrow> mset (arrivals key b ys) = mset (arrivals key b zs)"
  unfolding arrivals_def by (simp add: mset_filter)

lemma arrivals_length: "mset ys = mset zs \<Longrightarrow> length (arrivals key b ys) = length (arrivals key b zs)"
  using arrivals_mset mset_eq_length by blast

lemma expert_tokens_le: "length (expert_tokens g e) \<le> nat (aa_numel g)"
  using length_filter_le [of "\<lambda>z. token_expert g z = Some e" "[0..aa_numel g - 1]"] by (simp add: expert_tokens_def arrivals_def)

lemma nth_map_upto: "0 \<le> b \<Longrightarrow> b \<le> n \<Longrightarrow> map f [0..n] ! nat b = f b"
  by (simp add: nth_upto nat_less_eq_zless)

lemma large_buckets:
  assumes ok: "align_args_ok g" and mem: "block_start g (aa_num_experts g) \<le> int (length d)" "int (length d) < 2 ^ 31"
    and ys: "mset ys = mset [0..aa_numel g - 1]"
  shows "buckets_ok (token_expert g) (\<lambda>b. 0) ys (map (block_start g) [0..aa_num_experts g], d)"
proof -
  let ?E = "aa_num_experts g"
  let ?c = "map (block_start g) [0..?E]"
  let ?n = "\<lambda>b. int (length (arrivals (token_expert g) b ys))"
  have B: "0 < aa_block_size g" using ok by (simp add: align_args_ok_def)
  have set_ys: "set ys = {0..aa_numel g - 1}" using mset_eq_setD [OF ys] by simp
  have n: "?n b = int (length (expert_tokens g b))" for b
    using arrivals_length [OF ys] by (simp add: expert_tokens_def)
  have cell: "?c ! nat b = block_start g b" "0 \<le> b" "b \<le> ?E" if "in_array ?c b" for b
  proof -
    show "0 \<le> b" "b \<le> ?E" using that ok by (auto simp: in_array_def align_args_ok_def)
    then show "?c ! nat b = block_start g b" by (rule nth_map_upto)
  qed
  have none: "?n ?E = 0" if "b = ?E" for b
  proof -
    have "token_expert g y \<noteq> Some ?E" if "y \<in> set ys" for y
      using token_expert_range(2) [OF ok, of y ?E] that set_ys by auto
    then have "arrivals (token_expert g) ?E ys = []" by (simp add: arrivals_def filter_empty_conv)
    then show ?thesis by simp
  qed
  have after: "block_start g b + ?n b \<le> block_start g b'" if "0 \<le> b" "b < b'" for b b'
  proof -
    have "block_start g b + ?n b \<le> block_start g (b + 1)"
      using padded_tokens_ge(1) [OF B] that(1) by (simp add: block_start_Suc n)
    also have "\<dots> \<le> block_start g b'" using that by (intro block_start_mono [OF B]) simp
    finally show ?thesis .
  qed
  have top: "block_start g b + ?n b \<le> block_start g ?E" if "0 \<le> b" "b \<le> ?E" for b
    using after [of b ?E] that none by (cases "b = ?E") auto
  show ?thesis
    unfolding buckets_ok_def fst_conv snd_conv
  proof (intro conjI allI ballI impI)
    fix z b assume z: "z \<in> set ys" "token_expert g z = Some b"
    then have "0 \<le> b \<and> b < ?E" using token_expert_range [OF ok, of z b] set_ys by auto
    then show "in_array ?c b" by (simp add: in_array_def)
  next
    fix b assume b: "in_array ?c b"
    note c = cell [OF b]
    show "- (2 ^ 31) \<le> ?c ! nat b" "0 \<le> ?c ! nat b + 0"
      using block_start_nonneg [OF B, of b] unfolding c(1) by simp_all
    show "?c ! nat b + ?n b < 2 ^ 31" "?c ! nat b + 0 + ?n b \<le> int (length d)"
      using top [OF c(2,3)] mem unfolding c(1) by simp_all
  next
    fix b b' assume b: "in_array ?c b \<and> in_array ?c b' \<and> b \<noteq> b'"
    then have "b < b' \<or> b' < b" by auto
    then show "?c ! nat b + 0 + ?n b \<le> ?c ! nat b' + 0 \<or> ?c ! nat b' + 0 + ?n b' \<le> ?c ! nat b + 0"
      using after [of b b'] after [of b' b] cell [of b] cell [of b'] b by fastforce
  qed
qed

text \<open>What remains to be seen of the sorted tokens once the buckets are filled.\<close>

lemma stride_programs_mset:
  "0 < n \<Longrightarrow> mset (concat (map (\<lambda>t. stride_loop t n limit) [0..n - 1])) = mset [0..limit - 1]"
  using grid_stride_mset [of 1 n limit] by (simp add: grid_stride_def thread_ids_upto)

lemma interleave_stride:
  assumes "interleave (map (\<lambda>t. map f (stride_loop t n limit)) [0..n - 1]) xs" and "0 < n"
  shows "\<exists>ys. xs = map f ys \<and> mset ys = mset [0..limit - 1]"
proof -
  have "interleave (map (map f) (map (\<lambda>t. stride_loop t n limit) [0..n - 1])) xs"
    using assms(1) by (simp add: comp_def)
  then show ?thesis using interleave_map stride_programs_mset [OF assms(2)] by metis
qed


text \<open>Experts in place and tokens in their buckets make an aligned order.\<close>

lemma alignedI:
  assumes B: "0 < aa_block_size g" and len: "int (length (al_expert_ids m)) = CEILDIV (int (length (al_sorted_token_ids m))) (aa_block_size g)"
    and room: "block_start g (aa_num_experts g) \<le> int (length (al_sorted_token_ids m))"
    and ids: "\<And>b e. block_of g b e \<Longrightarrow> b < int (length (al_expert_ids m)) \<Longrightarrow> al_expert_ids m ! nat b = e"
    and toks: "\<And>e. 0 \<le> e \<Longrightarrow> e < aa_num_experts g \<Longrightarrow>
      mset (slice (al_sorted_token_ids m) (block_start g e) (int (length (expert_tokens g e)))) = mset (expert_tokens g e)"
    and pad: "\<And>p. 0 \<le> p \<Longrightarrow> p < int (length (al_sorted_token_ids m)) \<Longrightarrow>
      \<forall>e. 0 \<le> e \<and> e < aa_num_experts g \<longrightarrow> p < block_start g e \<or> block_start g e + int (length (expert_tokens g e)) \<le> p \<Longrightarrow>
      al_sorted_token_ids m ! nat p = aa_numel g"
    and tot: "al_total_tokens_post_pad m ! 0 = block_start g (aa_num_experts g)"
  shows "aligned g m"
proof -
  let ?E = "aa_num_experts g"
  let ?M = "int (length (al_sorted_token_ids m))"
  note mono = block_start_mono [OF B]
  note nonneg = block_start_nonneg [OF B]
  have fits: "block_start g e + int (length (expert_tokens g e)) \<le> block_start g (e + 1)" if "0 \<le> e" for e
    using padded_tokens_ge(1) [OF B, of e] that by (simp add: block_start_Suc)
  have outside: "p < block_start g d \<or> block_start g d + int (length (expert_tokens g d)) \<le> p"
    if "block_start g e \<le> p" "p < block_start g (e + 1)" "0 \<le> d" "d \<noteq> e" for d e p
  proof (cases "d < e")
    case True
    then show ?thesis using that fits [OF that(3)] mono [of "d + 1" e] by simp
  next
    case False
    then show ?thesis using that mono [of "e + 1" d] by simp
  qed
  have padding: "al_sorted_token_ids m ! nat p = aa_numel g"
    if e: "0 \<le> e" "e < ?E" and p: "block_start g e + int (length (expert_tokens g e)) \<le> p" "p < block_start g (e + 1)" for e p
  proof (rule pad)
    show "0 \<le> p" using p(1) nonneg [of e] by linarith
    show "p < ?M" using p(2) mono [of "e + 1" ?E] e room by simp
    show "\<forall>d. 0 \<le> d \<and> d < ?E \<longrightarrow> p < block_start g d \<or> block_start g d + int (length (expert_tokens g d)) \<le> p"
    proof (intro allI impI)
      fix d assume d: "0 \<le> d \<and> d < ?E"
      have "block_start g e \<le> p" using p(1) by linarith
      then show "p < block_start g d \<or> block_start g d + int (length (expert_tokens g d)) \<le> p"
        using outside [of e p d] p d by (cases "d = e") auto
    qed
  qed
  have rest: "al_sorted_token_ids m ! nat p = aa_numel g" if "block_start g ?E \<le> p" "p < ?M" for p
  proof (rule pad)
    show "0 \<le> p" using that nonneg [of ?E] by linarith
    show "\<forall>d. 0 \<le> d \<and> d < ?E \<longrightarrow> p < block_start g d \<or> block_start g d + int (length (expert_tokens g d)) \<le> p"
    proof (intro allI impI)
      fix d assume "0 \<le> d \<and> d < ?E"
      then show "p < block_start g d \<or> block_start g d + int (length (expert_tokens g d)) \<le> p"
        using fits [of d] mono [of "d + 1" ?E] that(1) by simp
    qed
  qed (use that in simp)
  have b0: "0 \<le> b" if "0 \<le> b * aa_block_size g" for b using that B by (simp add: zero_le_mult_iff)
  have own: "al_expert_ids m ! nat b = e"
    if "0 \<le> e" "e < ?E" "block_start g e \<le> b * aa_block_size g" "b * aa_block_size g < block_start g (e + 1)" for b e
  proof (rule ids)
    have pos: "0 \<le> b" by (rule b0 [OF order.trans [OF nonneg that(3)]])
    then show "block_of g b e" using that by (simp add: block_of_def)
    have "b * aa_block_size g < ?M" using that(2,4) mono [of "e + 1" ?E] room by simp
    then show "b < int (length (al_expert_ids m))" using ceildiv_le [OF B _ pos] by (simp add: len)
  qed
  have left: "al_expert_ids m ! nat b = -1"
    if "block_start g ?E \<le> b * aa_block_size g" "b < int (length (al_expert_ids m))" for b
    using that b0 [OF order.trans [OF nonneg that(1)]] by (intro ids) (simp_all add: block_of_def)
  show ?thesis unfolding aligned_def using toks padding own rest left tot by blast
qed


text \<open>The phases of the large program, one after the other.\<close>

lemma run_phase_set:
  assumes "fair sched"
  shows "interleave ps (sched n ps)" and "set (sched n ps) = \<Union> (set ` set ps)"
proof -
  show i: "interleave ps (sched n ps)" using assms by (simp add: fair_def)
  show "set (sched n ps) = \<Union> (set ` set ps)" by (rule interleave_set [OF i])
qed

text \<open>The zeroing of the counters and the filling of the tokens reach every element they have to.\<close>

lemma zero_program_steps:
  assumes w: "0 < w" "aa_experts_per_warp g = w"
    and counts: "int (length (al_counts m)) = aa_padded_num_experts g" "aa_num_experts g \<le> aa_padded_num_experts g"
      "aa_padded_num_experts g \<le> kScanThreads"
  shows "0 \<le> t \<Longrightarrow> x \<in> set (zero_program g w t) \<Longrightarrow> \<exists>a. x = Zero_Count a \<and> in_array (al_counts m) a"
    and "0 \<le> e \<Longrightarrow> e < aa_num_experts g \<Longrightarrow> \<exists>t \<in> {0..kScanThreads - 1}. Zero_Count e \<in> set (zero_program g w t)"
proof -
  show "\<exists>a. x = Zero_Count a \<and> in_array (al_counts m) a" if "0 \<le> t" "x \<in> set (zero_program g w t)"
  proof -
    have "0 \<le> t sdiv w" using that(1) w(1) by (simp add: sdiv_nonneg pos_imp_zdiv_nonneg_iff)
    then have "0 \<le> t sdiv w * w" using w(1) by simp
    then show ?thesis using that(2) w counts(1) by (auto simp: zero_program_def Let_def in_array_def)
  qed
  assume e: "0 \<le> e" "e < aa_num_experts g"
  let ?t = "e div w * w"
  have t: "0 \<le> ?t" "?t < kScanThreads" "?t sdiv w = e div w"
  proof -
    show "0 \<le> ?t" using e w by (simp add: pos_imp_zdiv_nonneg_iff)
    then show "?t sdiv w = e div w" using w by (simp add: sdiv_nonneg)
    have "?t \<le> e" using w by (simp flip: minus_mod_eq_div_mult)
    then show "?t < kScanThreads" using e counts by linarith
  qed
  have "e = e div w * w + e mod w" "0 \<le> e mod w" "e mod w < w" using w by simp_all
  then have "Zero_Count e \<in> set (zero_program g w ?t)"
    using e counts(2) by (auto simp: zero_program_def Let_def t(3) w(2) intro!: image_eqI [of _ _ "e mod w"])
  then show "\<exists>t \<in> {0..kScanThreads - 1}. Zero_Count e \<in> set (zero_program g w t)" using t(1,2) by auto
qed

lemma fill_program_steps:
  shows "0 \<le> t \<Longrightarrow> x \<in> set (fill_program kScanThreads t m) \<Longrightarrow> \<exists>a. x = Fill_Sorted a \<and> in_array (al_sorted_token_ids m) a"
    and "0 \<le> p \<Longrightarrow> p < int (length (al_sorted_token_ids m)) \<Longrightarrow>
      \<exists>t \<in> {0..kScanThreads - 1}. Fill_Sorted p \<in> set (fill_program kScanThreads t m)"
proof -
  have k: "0 < kScanThreads" by (simp add: kScanThreads_def)
  show "\<exists>a. x = Fill_Sorted a \<and> in_array (al_sorted_token_ids m) a" if "0 \<le> t" "x \<in> set (fill_program kScanThreads t m)"
    using that k by (auto simp: fill_program_def set_stride_loop in_array_def)
  assume "0 \<le> p" "p < int (length (al_sorted_token_ids m))"
  then have "p \<in> set [0..int (length (al_sorted_token_ids m)) - 1]" by simp
  then have "p \<in> set (concat (map (\<lambda>t. stride_loop t kScanThreads (int (length (al_sorted_token_ids m)))) [0..kScanThreads - 1]))"
    using mset_eq_setD [OF stride_programs_mset [OF k]] by blast
  then show "\<exists>t \<in> {0..kScanThreads - 1}. Fill_Sorted p \<in> set (fill_program kScanThreads t m)" by (auto simp: fill_program_def)
qed

lemma large_first_phase:
  assumes ok: "align_args_ok g" and fair: "fair sched" and w: "0 < w" "aa_experts_per_warp g = w"
    and counts: "int (length (al_counts m)) = aa_padded_num_experts g" "aa_num_experts g \<le> aa_padded_num_experts g"
      "aa_padded_num_experts g \<le> kScanThreads"
  shows "\<exists>s c. run_phase sched g 0 (map (zero_program g w) [0..kScanThreads - 1] @
      map (\<lambda>t. fill_program kScanThreads t m) [0..kScanThreads - 1]) m = Inr (m\<lparr>al_sorted_token_ids := s, al_counts := c\<rparr>) \<and>
    length s = length (al_sorted_token_ids m) \<and> length c = length (al_counts m) \<and>
    (\<forall>p. 0 \<le> p \<and> p < int (length s) \<longrightarrow> s ! nat p = aa_numel g) \<and>
    (\<forall>e. 0 \<le> e \<and> e < aa_num_experts g \<longrightarrow> c ! nat e = 0)"
proof -
  let ?ps = "map (zero_program g w) [0..kScanThreads - 1] @ map (\<lambda>t. fill_program kScanThreads t m) [0..kScanThreads - 1]"
  let ?xs = "sched 0 ?ps"
  note zero = zero_program_steps [OF w counts] and fill = fill_program_steps [where m = m]
  have set_xs: "set ?xs = (\<Union>t \<in> {0..kScanThreads - 1}. set (zero_program g w t)) \<union>
      (\<Union>t \<in> {0..kScanThreads - 1}. set (fill_program kScanThreads t m))"
    unfolding run_phase_set(2) [OF fair] by simp
  have steps: "\<forall>x \<in> set ?xs. (\<exists>a. x = Fill_Sorted a \<and> in_array (al_sorted_token_ids m) a) \<or>
      (\<exists>a. x = Zero_Count a \<and> in_array (al_counts m) a)"
    unfolding set_xs using zero(1) fill(1) by (fastforce simp only: Un_iff UN_iff atLeastAtMost_iff)
  have all: "Fill_Sorted p \<in> set ?xs" if "0 \<le> p" "p < int (length (al_sorted_token_ids m))" for p
    unfolding set_xs using fill(2) [OF that] by blast
  have all': "Zero_Count e \<in> set ?xs" if "0 \<le> e" "e < aa_num_experts g" for e
    unfolding set_xs using zero(2) [OF that] by blast
  obtain s c where run: "rfold (align_exec g) ?xs m = Inr (m\<lparr>al_sorted_token_ids := s, al_counts := c\<rparr>)"
    and len: "length s = length (al_sorted_token_ids m)" "length c = length (al_counts m)"
    and s: "\<forall>p \<ge> 0. s ! nat p = (if Fill_Sorted p \<in> set ?xs then aa_numel g else al_sorted_token_ids m ! nat p)"
    and c: "\<forall>p \<ge> 0. c ! nat p = (if Zero_Count p \<in> set ?xs then 0 else al_counts m ! nat p)"
    using fill_zero_run [OF ok steps] by blast
  show ?thesis
    by (rule exI [of _ s], rule exI [of _ c]) (use run len s c all all' in \<open>simp add: run_phase_def\<close>)
qed

text \<open>The phase of the blocks, whatever else the threads do in it to other arrays.\<close>

lemma expert_steps_functional:
  assumes B: "0 < aa_block_size g" and E: "0 < aa_num_experts g" "aa_num_experts g \<le> stride"
    and room: "block_start g (aa_num_experts g) \<le> n"
    and xs: "set xs = (\<Union>t \<in> {0..stride - 1}. set (expert_steps g stride (CEILDIV n (aa_block_size g)) t))"
    and len: "int (length (al_expert_ids m)) = CEILDIV n (aa_block_size g)"
  shows "\<exists>x. rfold (align_exec g) xs m = Inr (m\<lparr>al_expert_ids := x\<rparr>) \<and> length x = length (al_expert_ids m) \<and>
    (\<forall>b e. block_of g b e \<and> b < CEILDIV n (aa_block_size g) \<longrightarrow> x ! nat b = e)"
proof -
  let ?nb = "CEILDIV n (aa_block_size g)"
  have step: "\<exists>b e. x = Set_Expert b e \<and> block_of g b e \<and> b < ?nb" if "x \<in> set xs" for x
  proof -
    obtain t where "0 \<le> t" "x \<in> set (expert_steps g stride ?nb t)" using \<open>x \<in> set xs\<close> unfolding xs by auto
    moreover have "0 < stride" using E by simp
    ultimately show ?thesis by (intro expert_steps_in [OF B _ _ room])
  qed
  have one: "\<forall>x \<in> set xs. \<exists>b e. x = Set_Expert b e \<and> 0 \<le> b \<and> b < int (length (al_expert_ids m))"
    using step len by (fastforce simp: block_of_def)
  have two: "\<forall>b d e. Set_Expert b d \<in> set xs \<and> Set_Expert b e \<in> set xs \<longrightarrow> d = e"
  proof (intro allI impI)
    fix b d e assume a: "Set_Expert b d \<in> set xs \<and> Set_Expert b e \<in> set xs"
    then have "block_of g b d" "block_of g b e" using step by fastforce+
    then show "d = e" by (rule block_of_unique [OF B])
  qed
  obtain x where x: "rfold (align_exec g) xs m = Inr (m\<lparr>al_expert_ids := x\<rparr>)" "length x = length (al_expert_ids m)"
      "\<forall>b e. Set_Expert b e \<in> set xs \<longrightarrow> x ! nat b = e"
    using set_expert_run [OF one two] by blast
  have "x ! nat b = e" if "block_of g b e" "b < ?nb" for b e
  proof -
    obtain t where "0 \<le> t" "t < stride" "Set_Expert b e \<in> set (expert_steps g stride ?nb t)"
      using expert_steps_all [OF B E room \<open>block_of g b e\<close> \<open>b < ?nb\<close>] by blast
    then have "Set_Expert b e \<in> set xs" unfolding xs by auto
    then show ?thesis using x(3) by blast
  qed
  then show ?thesis using x(1,2) by blast
qed

lemma grid_mset:
  assumes "0 \<le> n"
  shows "mset (concat (grid_stride (min ((n + 255) sdiv 256) 65535) 256 n)) = mset [0..n - 1]"
proof (cases "n = 0")
  case True
  then show ?thesis by (simp add: grid_stride_def thread_ids_def signed_divide_int_def)
next
  case False
  then have "0 < (n + 255) sdiv 256" using assms by (simp add: sdiv_nonneg pos_imp_zdiv_pos_iff)
  then show ?thesis by (intro grid_stride_mset) simp_all
qed

text \<open>The last launch places the tokens over the padding, and leaves the order aligned.\<close>

lemma place_phase_aligned:
  assumes ok: "align_args_ok g" and fair: "fair sched" and mem: "align_memory_ok g m"
    and cum: "al_cumsum m = map (block_start g) [0..aa_num_experts g]"
    and pad: "\<forall>p. 0 \<le> p \<and> p < int (length (al_sorted_token_ids m)) \<longrightarrow> al_sorted_token_ids m ! nat p = aa_numel g"
    and ids: "\<forall>b e. block_of g b e \<and> b < CEILDIV (int (length (al_sorted_token_ids m))) (aa_block_size g) \<longrightarrow> al_expert_ids m ! nat b = e"
  shows "\<exists>c d. run_phase sched g 3 (map (map Place_Token)
      (grid_stride (min ((aa_numel g + 255) sdiv 256) 65535) 256 (aa_numel g))) m =
      Inr (m\<lparr>al_cumsum := c, al_sorted_token_ids := d\<rparr>) \<and> length d = length (al_sorted_token_ids m) \<and>
    (\<forall>t. t ! 0 = block_start g (aa_num_experts g) \<longrightarrow>
       aligned g (m\<lparr>al_cumsum := c, al_sorted_token_ids := d, al_total_tokens_post_pad := t\<rparr>))"
proof -
  let ?E = "aa_num_experts g"
  let ?s = "al_sorted_token_ids m"
  have B: "0 < aa_block_size g" and E: "0 < ?E" using ok by (simp_all add: align_args_ok_def)
  have room: "block_start g ?E \<le> int (length ?s)" "int (length ?s) < 2 ^ 31"
    "int (length (al_expert_ids m)) = CEILDIV (int (length ?s)) (aa_block_size g)"
    using mem B by (simp_all add: align_memory_ok_def)
  let ?place = "map (map Place_Token) (grid_stride (min ((aa_numel g + 255) sdiv 256) 65535) 256 (aa_numel g))"
  obtain zs where zs: "sched 3 ?place = map Place_Token zs" "mset zs = mset [0..aa_numel g - 1]"
    using interleave_map [OF run_phase_set(1) [OF fair, of ?place 3]] grid_mset [of "aa_numel g"] by auto
  have in_zs: "\<forall>y \<in> set zs. 0 \<le> y \<and> y < aa_numel g" using mset_eq_setD [OF zs(2)] by simp
  let ?c = "map (block_start g) [0..?E]"
  have buckets: "buckets_ok (token_expert g) (\<lambda>b. 0) zs (?c, ?s)"
    by (rule large_buckets [OF ok _ _ zs(2)]) (use room in simp_all)
  obtain c d where place: "rfold (place_at (token_expert g) (\<lambda>b. 0)) zs (?c, ?s) = Inr (c, d)"
    and d: "length d = length ?s"
      "\<forall>b. in_array ?c b \<longrightarrow> slice d (?c ! nat b + 0) (int (length (arrivals (token_expert g) b zs))) = arrivals (token_expert g) b zs"
      "\<forall>p. 0 \<le> p \<and> (\<forall>b. in_array ?c b \<longrightarrow> p < ?c ! nat b + 0 \<or>
         ?c ! nat b + 0 + int (length (arrivals (token_expert g) b zs)) \<le> p) \<longrightarrow> d ! nat p = ?s ! nat p"
    using place_at_buckets [OF buckets] by blast
  have p4: "rfold (align_exec g) (map Place_Token zs) m = Inr (m\<lparr>al_cumsum := c, al_sorted_token_ids := d\<rparr>)"
    by (rule place_token_sim [OF ok in_zs]) (use place in \<open>simp add: cum\<close>)
  have n: "length (arrivals (token_expert g) b zs) = length (expert_tokens g b)" for b
    using arrivals_length [OF zs(2)] by (simp add: expert_tokens_def)
  have cell: "in_array ?c b" "?c ! nat b = block_start g b" if "0 \<le> b" "b \<le> ?E" for b
    using that by (simp_all add: in_array_def nth_map_upto)
  have "aligned g (m\<lparr>al_cumsum := c, al_sorted_token_ids := d, al_total_tokens_post_pad := t\<rparr>)" (is "aligned g ?m")
    if t: "t ! 0 = block_start g ?E" for t
  proof (rule alignedI [OF B])
    fix e assume e: "0 \<le> e" "e < ?E"
    then have "slice d (block_start g e) (int (length (expert_tokens g e))) = arrivals (token_expert g) e zs"
      using d(2) [rule_format, OF cell(1) [of e]] unfolding n add_0_right by (simp add: nth_map_upto)
    then show "mset (slice (al_sorted_token_ids ?m) (block_start g e) (int (length (expert_tokens g e)))) = mset (expert_tokens g e)"
      using arrivals_mset [OF zs(2)] by (simp add: expert_tokens_def)
  next
    fix p assume p: "0 \<le> p" "p < int (length (al_sorted_token_ids ?m))"
      "\<forall>e. 0 \<le> e \<and> e < ?E \<longrightarrow> p < block_start g e \<or> block_start g e + int (length (expert_tokens g e)) \<le> p"
    have "p < ?c ! nat b + 0 \<or> ?c ! nat b + 0 + int (length (arrivals (token_expert g) b zs)) \<le> p" if "in_array ?c b" for b
    proof -
      have b: "0 \<le> b" "b \<le> ?E" using that E by (auto simp: in_array_def)
      have "length (expert_tokens g ?E) = 0"
      proof -
        have "token_expert g y \<noteq> Some ?E" if "y \<in> set [0..aa_numel g - 1]" for y
          using token_expert_range(2) [OF ok, of y ?E] that by auto
        then show ?thesis by (simp add: expert_tokens_def arrivals_def filter_empty_conv)
      qed
      then show ?thesis using p(3) b cell [OF b] n [of b] by (cases "b = ?E") auto
    qed
    then have "d ! nat p = ?s ! nat p" using d(3) p(1) by blast
    then show "al_sorted_token_ids ?m ! nat p = aa_numel g" using pad d(1) p(1,2) by simp
  qed (use room ids d(1) t in simp_all)
  then show ?thesis using p4 d(1) by (intro exI [of _ c] exI [of _ d]) (simp add: run_phase_def zs(1))
qed

lemma align_large_aligned:
  assumes ok: "align_args_ok g" and fair: "fair sched" and w: "0 < w" "aa_experts_per_warp g = w"
    and counts: "int (length (al_counts m)) = aa_padded_num_experts g" "aa_num_experts g \<le> aa_padded_num_experts g"
      "aa_padded_num_experts g \<le> kScanThreads"
    and mem: "align_memory_ok g m"
  shows "\<exists>m'. align_large sched g w m = Inr m' \<and> aligned g m' \<and>
    length (al_sorted_token_ids m') = length (al_sorted_token_ids m) \<and> length (al_expert_ids m') = length (al_expert_ids m)"
proof -
  let ?E = "aa_num_experts g"
  let ?M = "int (length (al_sorted_token_ids m))"
  have B: "0 < aa_block_size g" and E: "0 < ?E" "?E \<le> kScanThreads" and epw: "0 < aa_experts_per_warp g"
    using ok w by (simp_all add: align_args_ok_def kScanThreads_def)
  have room: "block_start g ?E \<le> ?M" "?M < 2 ^ 31" "int (length (al_expert_ids m)) = CEILDIV ?M (aa_block_size g)"
    using mem B by (simp_all add: align_memory_ok_def)
  obtain s1 c1 where p0: "run_phase sched g 0 (map (zero_program g w) [0..kScanThreads - 1] @
      map (\<lambda>t. fill_program kScanThreads t m) [0..kScanThreads - 1]) m = Inr (m\<lparr>al_sorted_token_ids := s1, al_counts := c1\<rparr>)"
    and s1: "length s1 = length (al_sorted_token_ids m)" "\<forall>p. 0 \<le> p \<and> p < int (length s1) \<longrightarrow> s1 ! nat p = aa_numel g"
    and c1: "length c1 = length (al_counts m)" "\<forall>e. 0 \<le> e \<and> e < ?E \<longrightarrow> c1 ! nat e = 0"
    using large_first_phase [OF ok fair w counts] by blast
  define m1 where "m1 = m\<lparr>al_sorted_token_ids := s1, al_counts := c1\<rparr>"
  let ?count = "map (\<lambda>t. map Count_Token (stride_loop t kScanThreads (aa_numel g))) [0..kScanThreads - 1]"
  obtain ys where ys: "sched 1 ?count = map Count_Token ys" "mset ys = mset [0..aa_numel g - 1]"
    using interleave_stride [OF run_phase_set(1) [OF fair, of ?count 1]] E by auto
  have in_ys: "\<forall>y \<in> set ys. 0 \<le> y \<and> y < aa_numel g" using mset_eq_setD [OF ys(2)] by simp
  have "length ys = nat (aa_numel g)" using mset_eq_length [OF ys(2)] by simp
  then have len_ys: "int (length ys) < 2 ^ 31" using ok by (simp add: align_args_ok_def)
  obtain c2 where p1: "rfold (align_exec g) (map Count_Token ys) m1 = Inr (m1\<lparr>al_counts := c2\<rparr>)"
    and c2: "length c2 = length (al_counts m)"
      "\<forall>e. 0 \<le> e \<and> e < ?E \<longrightarrow> c2 ! nat e = int (length (arrivals (token_expert g) e ys))"
    using count_run [OF ok epw _ in_ys _ len_ys, of m1] c1 counts by (auto simp: m1_def)
  define m2 where "m2 = m1\<lparr>al_counts := c2\<rparr>"
  have c2': "\<forall>e. 0 \<le> e \<and> e < ?E \<longrightarrow> al_counts m2 ! nat e = int (length (expert_tokens g e))"
    using c2(2) arrivals_length [OF ys(2)] by (simp add: m2_def expert_tokens_def)
  have mem2: "align_memory_ok g m2" using mem s1(1) by (simp add: align_memory_ok_def m2_def m1_def)
  have len2: "?E \<le> int (length (al_counts m2))" using c2(1) counts by (simp add: m2_def)
  define m3 where "m3 = m2\<lparr>al_cumsum := map (block_start g) [0..?E],
    al_total_tokens_post_pad := (al_total_tokens_post_pad m2)[0 := block_start g ?E]\<rparr>"
  have p2: "scan_counts g m2 = Inr m3" unfolding m3_def by (rule scan_counts_eq [OF ok epw len2 c2' mem2])
  let ?nb = "CEILDIV ?M (aa_block_size g)"
  let ?experts = "map (expert_steps g kScanThreads ?nb) [0..kScanThreads - 1]"
  have progs: "rmap (\<lambda>t. expert_program g kScanThreads t m3) [0..kScanThreads - 1] = Inr ?experts"
  proof (rule rmap_total)
    fix t assume "t \<in> set [0..kScanThreads - 1]"
    then show "expert_program g kScanThreads t m3 = Inr (expert_steps g kScanThreads ?nb t)"
      using expert_program_eq [of m3 g t kScanThreads] E s1(1) by (simp add: m3_def m2_def m1_def)
  qed
  obtain x where p3: "rfold (align_exec g) (sched 2 ?experts) m3 = Inr (m3\<lparr>al_expert_ids := x\<rparr>)"
    and x: "length x = length (al_expert_ids m)" "\<forall>b e. block_of g b e \<and> b < ?nb \<longrightarrow> x ! nat b = e"
    using expert_steps_functional [OF B E room(1), of "sched 2 ?experts" m3] run_phase_set(2) [OF fair, of 2 ?experts] room(3)
    by (auto simp: m3_def m2_def m1_def)
  define m4 where "m4 = m3\<lparr>al_expert_ids := x\<rparr>"
  have mem4: "align_memory_ok g m4" using mem s1(1) x(1) by (simp add: align_memory_ok_def m4_def m3_def m2_def m1_def)
  obtain c d where p4: "run_phase sched g 3 (map (map Place_Token)
      (grid_stride (min ((aa_numel g + 255) sdiv 256) 65535) 256 (aa_numel g))) m4 = Inr (m4\<lparr>al_cumsum := c, al_sorted_token_ids := d\<rparr>)"
    and d: "length d = length (al_sorted_token_ids m4)" "\<forall>t. t ! 0 = block_start g ?E \<longrightarrow>
       aligned g (m4\<lparr>al_cumsum := c, al_sorted_token_ids := d, al_total_tokens_post_pad := t\<rparr>)"
    using place_phase_aligned [OF ok fair mem4] s1 x by (auto simp: m4_def m3_def m2_def m1_def)
  define m5 where "m5 = m4\<lparr>al_cumsum := c, al_sorted_token_ids := d\<rparr>"
  have q1: "run_phase sched g 1 ?count m1 = Inr m2" unfolding run_phase_def ys(1) p1 m2_def ..
  have q3: "run_phase sched g 2 ?experts m3 = Inr m4" unfolding run_phase_def p3 m4_def ..
  have run: "align_large sched g w m = Inr m5"
    unfolding align_large_def p0 rbind_Inr m1_def [symmetric] q1 p2 progs q3 p4 m5_def ..
  have "al_total_tokens_post_pad m5 ! 0 = block_start g ?E" using mem by (simp add: m5_def m4_def m3_def m2_def m1_def align_memory_ok_def)
  then have "aligned g (m4\<lparr>al_cumsum := c, al_sorted_token_ids := d, al_total_tokens_post_pad := al_total_tokens_post_pad m5\<rparr>)"
    using d(2) by blast
  then have "aligned g m5" by (simp add: m5_def)
  then show ?thesis using run x(1) d(1) s1(1) by (simp add: m5_def m4_def m3_def m2_def m1_def)
qed


end
