(* ===== verification/Kv_Paging.thy ===== *)
theory Kv_Paging
  imports Gpu
begin

text \<open>
  The kernels over the paged KV cache: \<^verbatim>\<open>ex_engine/xllm_kernels/cuda/reshape_paged_cache.cu\<close>
  writes the keys and values of tokens into their slots, \<^verbatim>\<open>qwen3_6_scripts/corex_paged_kv_gather.cu\<close>
  gathers a sequence from its blocks into the layouts of the attention, and
  \<^verbatim>\<open>ex_engine/xllm_kernels/cuda/block_copy.cu\<close> copies blocks to their duplicates in all layers.
\<close>

section \<open>Writing tokens into slots\<close>

record 'v strided = "'v buffer" +
  st_strides :: "int list"

text \<open>Sizes and strides counted from the last dimension.\<close>

definition size_back :: "('v, 'z) buffer_scheme \<Rightarrow> nat \<Rightarrow> int result" where
  "size_back t k = (if 1 \<le> k \<and> k \<le> length (bf_sizes t) then Inr (bf_sizes t ! (length (bf_sizes t) - k))
     else Inl (Exn ''Dimension out of range''))"

definition stride_back :: "'v strided \<Rightarrow> nat \<Rightarrow> int result" where
  "stride_back t k = (if 1 \<le> k \<and> k \<le> length (st_strides t) then Inr (st_strides t ! (length (st_strides t) - k))
     else Inl (Exn ''Dimension out of range''))"

definition slot_position :: "int \<Rightarrow> int \<Rightarrow> int \<Rightarrow> int \<Rightarrow> int \<Rightarrow> int" where
  "slot_position n_kv_heads head_dim block_size slot_id i =
     (let block_idx = slot_id sdiv block_size;
          block_offset = slot_id smod block_size;
          block_base_idx = block_idx * block_size * n_kv_heads * head_dim;
          head_base_idx = block_base_idx + block_offset * n_kv_heads * head_dim;
          head_idx = int32 (i sdiv head_dim);
          head_offset = int32 (i smod head_dim)
      in head_base_idx + head_idx * head_dim + head_offset)"

definition reshape_copy ::
  "int list \<Rightarrow> 'v list \<Rightarrow> int \<Rightarrow> int \<Rightarrow> int \<Rightarrow> int \<Rightarrow> int \<times> int \<Rightarrow> 'v list \<Rightarrow> 'v list result" where
  "reshape_copy slot_ids src stride n_kv_heads head_dim block_size x cache =
     (let (bid, i) = x in
      rbind (array_load slot_ids bid) (\<lambda>slot_id.
      if slot_id < 0 then Inr cache
      else rbind (array_load src (bid * stride + i)) (\<lambda>v.
           array_store cache (slot_position n_kv_heads head_dim block_size slot_id i) v)))"

definition reshape_paged_cache_step ::
  "int list \<Rightarrow> 'v list \<Rightarrow> 'v list \<Rightarrow> int \<Rightarrow> int \<Rightarrow> int \<Rightarrow> int \<Rightarrow> int \<Rightarrow> int \<times> int \<Rightarrow>
   'v list \<times> 'v list \<Rightarrow> ('v list \<times> 'v list) result" where
  "reshape_paged_cache_step slot_ids keys vals k_stride v_stride n_kv_heads head_dim block_size x c =
     rbind (reshape_copy slot_ids keys k_stride n_kv_heads head_dim block_size x (fst c)) (\<lambda>kc.
     rbind (reshape_copy slot_ids vals v_stride n_kv_heads head_dim block_size x (snd c)) (\<lambda>vc.
     Inr (kc, vc)))"

text \<open>A block per token whose threads share the elements of its heads.\<close>

definition row_schedule :: "int \<Rightarrow> int \<Rightarrow> int \<Rightarrow> (int \<times> int) list \<Rightarrow> bool" where
  "row_schedule n block_dim width xs \<longleftrightarrow>
     interleave (concat (map (\<lambda>b. map (\<lambda>t. map (Pair b) (stride_loop t block_dim width))
       [0..block_dim - 1]) [0..n - 1])) xs"

definition reshape_block_dim :: "int \<Rightarrow> int" where
  "reshape_block_dim n = min (int32 n) 1024"

text \<open>
  The kernel is dispatched on the type of the keys, and each pointer is fetched with the type
  dispatched on.
\<close>

definition reshape_dtypes :: "int buffer \<Rightarrow> 'v strided \<Rightarrow> 'v strided \<Rightarrow> 'v buffer \<Rightarrow> 'v buffer \<Rightarrow> unit result" where
  "reshape_dtypes slot_ids keys vals key_cache value_cache = torch_checks
     [(bf_type keys \<in> {kFloat32, kFloat16, kBFloat16}, ''reshape_paged_cache_kernel not implemented''),
      (bf_type slot_ids = kInt32, ''expected scalar type Int''),
      (bf_type vals = bf_type keys, ''expected scalar type''),
      (bf_type key_cache = bf_type keys, ''expected scalar type''),
      (bf_type value_cache = bf_type keys, ''expected scalar type'')]"

definition cuda_reshape_paged_cache ::
  "(int \<times> int) list \<Rightarrow> int buffer \<Rightarrow> 'v strided \<Rightarrow> 'v strided \<Rightarrow> 'v buffer \<Rightarrow> 'v buffer \<Rightarrow> ('v buffer \<times> 'v buffer) result" where
  "cuda_reshape_paged_cache xs slot_ids keys vals key_cache value_cache =
     rbind (stride_back keys 1) (\<lambda>ks1. rbind (stride_back keys 2) (\<lambda>ks2. rbind (size_back keys 1) (\<lambda>head_dim.
     rbind (check (ks1 = 1 \<and> ks2 = head_dim) ''keys.stride(-1) == 1 && keys.stride(-2) == keys.size(-1)'') (\<lambda>_.
     rbind (stride_back vals 1) (\<lambda>vs1. rbind (stride_back vals 2) (\<lambda>vs2. rbind (size_back vals 1) (\<lambda>vd.
     rbind (check (vs1 = 1 \<and> vs2 = vd) ''values.stride(-1) == 1 && values.stride(-2) == values.size(-1)'') (\<lambda>_.
     rbind (size_back keys 3) (\<lambda>n_tokens. rbind (size_back keys 2) (\<lambda>n_kv_heads.
     rbind (size_back key_cache 3) (\<lambda>block_size.
     rbind (stride_back keys 3) (\<lambda>k_stride. rbind (stride_back vals 3) (\<lambda>v_stride.
     rbind (reshape_dtypes slot_ids keys vals key_cache value_cache) (\<lambda>_.
     rbind (rfold (reshape_paged_cache_step (bf_data slot_ids) (bf_data keys) (bf_data vals) k_stride v_stride
                     n_kv_heads head_dim block_size) xs (bf_data key_cache, bf_data value_cache)) (\<lambda>(kc, vc).
     Inr (key_cache\<lparr>bf_data := kc\<rparr>, value_cache\<lparr>bf_data := vc\<rparr>))))))))))))))))"

lemma row_visits:
  assumes "row_schedule n block_dim width xs" and "0 < block_dim"
  shows "set xs = {0..<n} \<times> {0..<width}"
proof -
  have "set (concat (grid_stride 1 block_dim width)) = {0..<width}"
    using assms(2) by (intro set_grid_stride) simp_all
  moreover have "grid_stride 1 block_dim width = map (\<lambda>t. stride_loop t block_dim width) [0..block_dim - 1]"
    using assms(2) by (simp add: grid_stride_def thread_ids_upto)
  ultimately have col: "(\<Union>t \<in> {0..block_dim - 1}. set (stride_loop t block_dim width)) = {0..<width}" by simp
  have "set xs = set (concat (concat (map (\<lambda>b. map (\<lambda>t. map (Pair b) (stride_loop t block_dim width))
       [0..block_dim - 1]) [0..n - 1])))"
    by (rule mset_eq_setD, rule interleave_mset) (rule assms(1) [unfolded row_schedule_def])
  also have "\<dots> = (\<Union>b \<in> {0..n - 1}. Pair b ` (\<Union>t \<in> {0..block_dim - 1}. set (stride_loop t block_dim width)))"
    by auto
  finally show ?thesis unfolding col by auto
qed

lemma slot_position_flat:
  assumes "0 \<le> slot_id" "0 < block_size" "0 < head_dim" "0 \<le> i" "i < n_kv_heads * head_dim"
    and "n_kv_heads < 2 ^ 31" "head_dim < 2 ^ 31"
  shows "slot_position n_kv_heads head_dim block_size slot_id i = slot_id * (n_kv_heads * head_dim) + i"
proof -
  have "i div head_dim * head_dim \<le> i" using assms(3) pos_mod_sign [of head_dim i] div_mult_mod_eq [of i head_dim] by linarith
  then have "i div head_dim * head_dim < n_kv_heads * head_dim" using assms(5) by (rule le_less_trans)
  then have "i div head_dim < n_kv_heads" using mult_less_cancel_right_pos [OF assms(3)] by blast
  moreover have "0 \<le> i div head_dim" using assms by (simp add: pos_imp_zdiv_nonneg_iff)
  moreover have "0 \<le> i mod head_dim" "i mod head_dim < 2 ^ 31"
    using pos_mod_sign [OF assms(3)] pos_mod_bound [OF assms(3)] assms(7) less_trans by blast+
  ultimately have "int32 (i div head_dim) = i div head_dim" "int32 (i mod head_dim) = i mod head_dim"
    using assms(6) by (intro int32_id; linarith)+
  then have "int32 (i sdiv head_dim) = i div head_dim" "int32 (i smod head_dim) = i mod head_dim"
    using assms by (simp_all add: c_arith)
  then have "slot_position n_kv_heads head_dim block_size slot_id i =
      slot_id div block_size * block_size * n_kv_heads * head_dim + slot_id mod block_size * n_kv_heads * head_dim +
      (i div head_dim * head_dim + i mod head_dim)"
    using assms by (simp add: slot_position_def Let_def c_arith)
  also have "\<dots> = (slot_id div block_size * block_size + slot_id mod block_size) * (n_kv_heads * head_dim) + i"
    by (simp only: div_mult_mod_eq [of i head_dim] distrib_right mult.assoc)
  finally show ?thesis by simp
qed

text \<open>One of the two caches: the elements of each slot are those of its token.\<close>

lemma reshape_copy_result:
  assumes xs: "set xs = {0..<n} \<times> {0..<w}" and w: "w = heads * dim" "0 \<le> heads" "0 < dim" "heads < 2 ^ 31" "dim < 2 ^ 31"
    and bs: "0 < block_size" and ids: "n \<le> int (length slot_ids)"
    and slots: "\<forall>t \<in> {0..<n}. slot_ids ! nat t < nslots" and cache: "int (length cache) = nslots * w"
    and src: "\<forall>t \<in> {0..<n}. \<forall>i \<in> {0..<w}. in_array src (t * stride + i)"
    and apart: "\<forall>t \<in> {0..<n}. \<forall>u \<in> {0..<n}. 0 \<le> slot_ids ! nat t \<longrightarrow> slot_ids ! nat t = slot_ids ! nat u \<longrightarrow> t = u"
  shows "\<exists>c. rfold (reshape_copy slot_ids src stride heads dim block_size) xs cache = Inr c \<and> length c = length cache \<and>
    (\<forall>t i. 0 \<le> t \<and> t < n \<and> 0 \<le> slot_ids ! nat t \<and> 0 \<le> i \<and> i < w \<longrightarrow>
       c ! nat (slot_ids ! nat t * w + i) = src ! nat (t * stride + i)) \<and>
    (\<forall>s i. 0 \<le> s \<and> s < nslots \<and> 0 \<le> i \<and> i < w \<and> (\<forall>t \<in> {0..<n}. slot_ids ! nat t \<noteq> s) \<longrightarrow>
       c ! nat (s * w + i) = cache ! nat (s * w + i))"
proof -
  define ok where "ok x = (0 \<le> slot_ids ! nat (fst x))" for x :: "int \<times> int"
  define addr where "addr x = slot_ids ! nat (fst x) * w + snd x" for x :: "int \<times> int"
  define v where "v x = src ! nat (fst x * stride + snd x)" for x :: "int \<times> int"
  let ?f = "reshape_copy slot_ids src stride heads dim block_size"
  have step: "?f x m = (if ok x then array_store m (addr x) (v x) else Inr m)" if "x \<in> set xs" for x m
  proof -
    obtain t i where x: "x = (t, i)" "0 \<le> t" "t < n" "0 \<le> i" "i < w" using \<open>x \<in> set xs\<close> xs by auto
    then have "array_load slot_ids t = Inr (slot_ids ! nat t)" using ids by (simp add: array_load_def in_array_def)
    moreover have "array_load src (t * stride + i) = Inr (v x)"
      using src x by (simp add: array_load_def v_def)
    moreover have "slot_position heads dim block_size (slot_ids ! nat t) i = addr x" if "ok x"
      using slot_position_flat [of "slot_ids ! nat t" block_size dim i heads] that x w bs by (simp add: ok_def addr_def)
    ultimately show ?thesis using x by (auto simp: reshape_copy_def ok_def)
  qed
  have valid: "\<forall>x \<in> set xs. ok x \<longrightarrow> in_array cache (addr x)"
  proof (intro ballI impI)
    fix x assume x: "x \<in> set xs" "ok x"
    then obtain t i where t: "x = (t, i)" "t \<in> {0..<n}" "0 \<le> i" "i < w" using xs by auto
    then show "in_array cache (addr x)"
      using digit_bounds [of "slot_ids ! nat t" nslots i w] slots x(2) cache by (auto simp: in_array_def addr_def ok_def)
  qed
  obtain c where c: "rfold ?f xs cache = Inr c" "\<forall>b. in_array c b = in_array cache b"
    and other: "\<forall>b. (\<forall>x \<in> set xs. ok x \<longrightarrow> addr x \<noteq> b) \<longrightarrow> array_load c b = array_load cache b"
    and stored: "\<forall>x \<in> set xs. ok x \<longrightarrow> (\<forall>y \<in> set xs. ok y \<longrightarrow> addr y = addr x \<longrightarrow> v y = v x) \<longrightarrow> array_load c (addr x) = Inr (v x)"
    using flat.stores [where f = ?f, OF step valid] by blast
  have len: "length c = length cache" using c(2) in_array_length by blast
  have "c ! nat (slot_ids ! nat t * w + i) = src ! nat (t * stride + i)"
    if t: "0 \<le> t" "t < n" "0 \<le> slot_ids ! nat t" "0 \<le> i" "i < w" for t i
  proof -
    have "y = (t, i)" if "y \<in> set xs" "ok y" "addr y = addr (t, i)" for y
    proof -
      obtain u j where y: "y = (u, j)" "u \<in> {0..<n}" "0 \<le> j" "j < w" using \<open>y \<in> set xs\<close> xs by auto
      then have "slot_ids ! nat u = slot_ids ! nat t \<and> j = i"
        using that(3) t digit_inject [of j w i "slot_ids ! nat u" "slot_ids ! nat t"] by (simp add: addr_def)
      moreover have "t \<in> {0..<n}" using t by simp
      ultimately have "t = u" using apart y(2) t(3) by metis
      then show ?thesis using y(1) \<open>slot_ids ! nat u = slot_ids ! nat t \<and> j = i\<close> by simp
    qed
    moreover have "(t, i) \<in> set xs" "ok (t, i)" using t xs by (auto simp: ok_def)
    ultimately have "array_load c (addr (t, i)) = Inr (v (t, i))" using stored by blast
    then show ?thesis by (simp add: array_loadI addr_def v_def)
  qed
  moreover have "c ! nat (s * w + i) = cache ! nat (s * w + i)"
    if s: "0 \<le> s" "s < nslots" "0 \<le> i" "i < w" "\<forall>t \<in> {0..<n}. slot_ids ! nat t \<noteq> s" for s i
  proof -
    have "addr x \<noteq> s * w + i" if "x \<in> set xs" for x
    proof -
      obtain u j where y: "x = (u, j)" "u \<in> {0..<n}" "0 \<le> j" "j < w" using \<open>x \<in> set xs\<close> xs by auto
      then show ?thesis using s digit_inject [of j w i "slot_ids ! nat u" s] by (auto simp: addr_def)
    qed
    then have "array_load c (s * w + i) = array_load cache (s * w + i)" using other by blast
    moreover have "in_array cache (s * w + i)"
      using digit_bounds [of s nslots i w] s cache by (simp add: in_array_def)
    ultimately show ?thesis using c(2) by (simp add: array_load_def)
  qed
  ultimately show ?thesis using c(1) len by (intro exI [of _ c]) simp
qed

text \<open>What the caller has to provide: a slot for each token, inside the cache, at most one token to a slot.\<close>

definition slots_ok :: "int list \<Rightarrow> int \<Rightarrow> int \<Rightarrow> bool" where
  "slots_ok slot_ids n nslots \<longleftrightarrow> n \<le> int (length slot_ids) \<and> (\<forall>t \<in> {0..<n}. slot_ids ! nat t < nslots) \<and>
     (\<forall>t \<in> {0..<n}. \<forall>u \<in> {0..<n}. 0 \<le> slot_ids ! nat t \<longrightarrow> slot_ids ! nat t = slot_ids ! nat u \<longrightarrow> t = u)"

definition token_rows :: "'v strided \<Rightarrow> int \<Rightarrow> int \<Rightarrow> int \<Rightarrow> int \<Rightarrow> bool" where
  "token_rows t n heads dim stride \<longleftrightarrow> bf_sizes t = [n, heads, dim] \<and> st_strides t = [stride, dim, 1] \<and>
     (\<forall>b \<in> {0..<n}. \<forall>i \<in> {0..<heads * dim}. in_array (bf_data t) (b * stride + i))"

definition paged_cache :: "'v buffer \<Rightarrow> int \<Rightarrow> int \<Rightarrow> int \<Rightarrow> int \<Rightarrow> bool" where
  "paged_cache t blocks block_size heads dim \<longleftrightarrow> bf_sizes t = [blocks, block_size, heads, dim] \<and>
     int (length (bf_data t)) = blocks * block_size * (heads * dim)"

text \<open>The row of a slot.\<close>

definition slot_row :: "'v buffer \<Rightarrow> int \<Rightarrow> int \<Rightarrow> int \<Rightarrow> 'v" where
  "slot_row t w s i = bf_data t ! nat (s * w + i)"

text \<open>
  C11: Keys, values and caches of one floating type and 32-bit slots are accepted, any other types
  throw before the launch. Whatever the order of the threads, each token's keys and values end up
  in its slot, tokens with a negative slot are skipped, and the other slots keep their contents.
  The slots have to be distinct and inside the cache; the kernel checks neither.
\<close>

theorem reshape_fills_slots:
  assumes "token_rows keys n heads dim ks" "token_rows vals n heads dim vs"
    and "paged_cache kc blocks block_size heads dim" "paged_cache vc blocks block_size heads dim"
    and "0 < heads" "0 < dim" "heads * dim < 2 ^ 31" "0 < block_size" "n < 2 ^ 31"
    and "slots_ok (bf_data slot_ids) n (blocks * block_size)"
    and "row_schedule n (reshape_block_dim (heads * dim)) (heads * dim) xs"
  shows "if bf_type slot_ids = kInt32 \<and> bf_type keys \<in> {kFloat32, kFloat16, kBFloat16} \<and>
      bf_type vals = bf_type keys \<and> bf_type kc = bf_type keys \<and> bf_type vc = bf_type keys
    then \<exists>kc' vc'. cuda_reshape_paged_cache xs slot_ids keys vals kc vc = Inr (kc', vc') \<and>
    (\<forall>t i. 0 \<le> t \<and> t < n \<and> 0 \<le> bf_data slot_ids ! nat t \<and> 0 \<le> i \<and> i < heads * dim \<longrightarrow>
       slot_row kc' (heads * dim) (bf_data slot_ids ! nat t) i = bf_data keys ! nat (t * ks + i) \<and>
       slot_row vc' (heads * dim) (bf_data slot_ids ! nat t) i = bf_data vals ! nat (t * vs + i)) \<and>
    (\<forall>s i. 0 \<le> s \<and> s < blocks * block_size \<and> 0 \<le> i \<and> i < heads * dim \<and>
       (\<forall>t \<in> {0..<n}. bf_data slot_ids ! nat t \<noteq> s) \<longrightarrow>
       slot_row kc' (heads * dim) s i = slot_row kc (heads * dim) s i \<and>
       slot_row vc' (heads * dim) s i = slot_row vc (heads * dim) s i)
    else \<exists>m. cuda_reshape_paged_cache xs slot_ids keys vals kc vc = Inl (Exn m)"
proof -
  let ?w = "heads * dim"
  have "heads * 1 \<le> ?w" "1 * dim \<le> ?w" using assms(5,6) by (intro mult_mono; simp)+
  then have small: "heads < 2 ^ 31" "dim < 2 ^ 31" using assms(7) by simp_all
  have "0 < ?w" using assms(5,6) by simp
  then have "0 < reshape_block_dim ?w" using assms(7) by (simp add: reshape_block_dim_def int32_id)
  then have xs: "set xs = {0..<n} \<times> {0..<?w}" using row_visits assms(11) by blast
  let ?f = "\<lambda>src stride. reshape_copy (bf_data slot_ids) src stride heads dim block_size"
  note s = assms(10) [unfolded slots_ok_def]
  have run: "\<exists>c. rfold (?f (bf_data t) stride) xs (bf_data cache) = Inr c \<and> length c = length (bf_data cache) \<and>
    (\<forall>b i. 0 \<le> b \<and> b < n \<and> 0 \<le> bf_data slot_ids ! nat b \<and> 0 \<le> i \<and> i < ?w \<longrightarrow>
       c ! nat (bf_data slot_ids ! nat b * ?w + i) = bf_data t ! nat (b * stride + i)) \<and>
    (\<forall>s i. 0 \<le> s \<and> s < blocks * block_size \<and> 0 \<le> i \<and> i < ?w \<and> (\<forall>b \<in> {0..<n}. bf_data slot_ids ! nat b \<noteq> s) \<longrightarrow>
       c ! nat (s * ?w + i) = bf_data cache ! nat (s * ?w + i))"
    if "token_rows t n heads dim stride" "paged_cache cache blocks block_size heads dim" for t stride cache
    using that s assms(5,6,8) small by (intro reshape_copy_result [OF xs]) (auto simp: token_rows_def paged_cache_def)
  from run [OF assms(1,3)] obtain k where k: "rfold (?f (bf_data keys) ks) xs (bf_data kc) = Inr k" and k': "(\<forall>b i. 0 \<le> b \<and> b < n \<and> 0 \<le> bf_data slot_ids ! nat b \<and> 0 \<le> i \<and> i < ?w \<longrightarrow>
       k ! nat (bf_data slot_ids ! nat b * ?w + i) = bf_data keys ! nat (b * ks + i)) \<and>
    (\<forall>s i. 0 \<le> s \<and> s < blocks * block_size \<and> 0 \<le> i \<and> i < ?w \<and> (\<forall>b \<in> {0..<n}. bf_data slot_ids ! nat b \<noteq> s) \<longrightarrow>
       k ! nat (s * ?w + i) = bf_data kc ! nat (s * ?w + i))" by blast
  from run [OF assms(2,4)] obtain u where u: "rfold (?f (bf_data vals) vs) xs (bf_data vc) = Inr u" and u': "(\<forall>b i. 0 \<le> b \<and> b < n \<and> 0 \<le> bf_data slot_ids ! nat b \<and> 0 \<le> i \<and> i < ?w \<longrightarrow>
       u ! nat (bf_data slot_ids ! nat b * ?w + i) = bf_data vals ! nat (b * vs + i)) \<and>
    (\<forall>s i. 0 \<le> s \<and> s < blocks * block_size \<and> 0 \<le> i \<and> i < ?w \<and> (\<forall>b \<in> {0..<n}. bf_data slot_ids ! nat b \<noteq> s) \<longrightarrow>
       u ! nat (s * ?w + i) = bf_data vc ! nat (s * ?w + i))" by blast
  have "rfold (reshape_paged_cache_step (bf_data slot_ids) (bf_data keys) (bf_data vals) ks vs heads dim block_size) xs
      (bf_data kc, bf_data vc) = Inr (k, u)"
    by (rule rfold_pair [OF _ k u]) (simp add: reshape_paged_cache_step_def)
  then have "cuda_reshape_paged_cache xs slot_ids keys vals kc vc =
      rbind (reshape_dtypes slot_ids keys vals kc vc) (\<lambda>_. Inr (kc\<lparr>bf_data := k\<rparr>, vc\<lparr>bf_data := u\<rparr>))"
    using assms(1-4)
    by (simp add: cuda_reshape_paged_cache_def stride_back_def size_back_def token_rows_def paged_cache_def
        rbind_def split: sum.split)
  moreover have "reshape_dtypes slot_ids keys vals kc vc = Inr () \<longleftrightarrow>
      bf_type slot_ids = kInt32 \<and> bf_type keys \<in> {kFloat32, kFloat16, kBFloat16} \<and>
      bf_type vals = bf_type keys \<and> bf_type kc = bf_type keys \<and> bf_type vc = bf_type keys"
    by (auto simp: reshape_dtypes_def result_simps)
  moreover have "reshape_dtypes slot_ids keys vals kc vc = Inr () \<or>
      (\<exists>m. reshape_dtypes slot_ids keys vals kc vc = Inl (Exn m))"
    unfolding reshape_dtypes_def by (rule torch_checks_cases)
  ultimately show ?thesis using k' u' by (auto simp: slot_row_def)
qed

definition sample_slots :: "int buffer" where
  "sample_slots = \<lparr>bf_cuda = True, bf_device = 0, bf_type = kInt32, bf_contiguous = True, bf_address = 0,
     bf_sizes = [2], bf_data = [3, -1]\<rparr>"

definition sample_keys :: "nat strided" where
  "sample_keys = \<lparr>bf_cuda = True, bf_device = 0, bf_type = kFloat16, bf_contiguous = True, bf_address = 0,
     bf_sizes = [2, 1, 2], bf_data = [10, 11, 12, 13], st_strides = [2, 2, 1]\<rparr>"

definition sample_vals :: "nat strided" where
  "sample_vals = \<lparr>bf_cuda = True, bf_device = 0, bf_type = kFloat16, bf_contiguous = False, bf_address = 0,
     bf_sizes = [2, 1, 2], bf_data = [20, 21, 0, 22, 23], st_strides = [3, 2, 1]\<rparr>"

definition sample_paged :: "nat buffer" where
  "sample_paged = \<lparr>bf_cuda = True, bf_device = 0, bf_type = kFloat16, bf_contiguous = True, bf_address = 0,
     bf_sizes = [2, 2, 1, 2], bf_data = replicate 8 0\<rparr>"

lemmas sample_defs = sample_slots_def sample_keys_def sample_vals_def sample_paged_def

lemma two_tokens: "{0..<2} = {0, 1 :: int}"
  by auto

theorem reshape_fills_slots_witness:
  "\<exists>xs kc' vc'. cuda_reshape_paged_cache xs sample_slots sample_keys sample_vals sample_paged sample_paged = Inr (kc', vc') \<and>
     slot_row kc' 2 3 1 = 11 \<and> slot_row vc' 2 3 0 = 20 \<and> slot_row kc' 2 1 0 = 0"
proof -
  let ?w = "1 * 2 :: int"
  let ?xs = "concat (concat (map (\<lambda>b. map (\<lambda>t. map (Pair b)
      (stride_loop t (reshape_block_dim ?w) ?w)) [0..reshape_block_dim ?w - 1]) [0..2 - 1]))"
  have s: "row_schedule 2 (reshape_block_dim ?w) ?w ?xs"
    unfolding row_schedule_def by (rule interleave_concat)
  have slots: "slots_ok (bf_data sample_slots) 2 (2 * 2)" unfolding slots_ok_def two_tokens by (auto simp: sample_defs)
  have keys: "token_rows sample_keys 2 1 2 2" "token_rows sample_vals 2 1 2 3"
    unfolding token_rows_def two_tokens by (auto simp: in_array_def sample_defs)
  have cache: "paged_cache sample_paged 2 2 1 2" by (simp add: paged_cache_def sample_defs)
  have pos: "0 < (1 :: int)" "0 < (2 :: int)" "?w < 2 ^ 31" "(2 :: int) < 2 ^ 31" by simp_all
  have types: "(bf_type sample_slots = kInt32 \<and> bf_type sample_keys \<in> {kFloat32, kFloat16, kBFloat16} \<and>
      bf_type sample_vals = bf_type sample_keys \<and> bf_type sample_paged = bf_type sample_keys \<and>
      bf_type sample_paged = bf_type sample_keys) = True"
    by (simp_all add: sample_defs)
  obtain kc' vc' :: "nat buffer" where
    run: "cuda_reshape_paged_cache ?xs sample_slots sample_keys sample_vals sample_paged sample_paged = Inr (kc', vc')"
    and rows: "\<forall>t i. 0 \<le> t \<and> t < 2 \<and> 0 \<le> bf_data sample_slots ! nat t \<and> 0 \<le> i \<and> i < ?w \<longrightarrow>
       slot_row kc' ?w (bf_data sample_slots ! nat t) i = bf_data sample_keys ! nat (t * 2 + i) \<and>
       slot_row vc' ?w (bf_data sample_slots ! nat t) i = bf_data sample_vals ! nat (t * 3 + i)"
    and rest: "\<forall>s i. 0 \<le> s \<and> s < 2 * 2 \<and> 0 \<le> i \<and> i < ?w \<and> (\<forall>t \<in> {0..<2}. bf_data sample_slots ! nat t \<noteq> s) \<longrightarrow>
       slot_row kc' ?w s i = slot_row sample_paged ?w s i \<and> slot_row vc' ?w s i = slot_row sample_paged ?w s i"
    using reshape_fills_slots [OF keys cache cache pos(1,2,3,2) pos(4) slots s, unfolded types if_True]
    by (elim exE conjE) (rule that, assumption+)
  have "slot_row kc' 2 3 1 = 11 \<and> slot_row vc' 2 3 0 = 20"
    using rows [rule_format, of 0 1] rows [rule_format, of 0 0] by (simp add: sample_defs)
  moreover have "slot_row kc' 2 1 0 = 0"
    using rest [unfolded two_tokens, rule_format, of 1 0] by (simp add: sample_defs slot_row_def)
  ultimately show ?thesis using run by blast
qed

section \<open>Gathering a sequence\<close>

definition kThreads :: int where "kThreads = 256"
definition kSmallGridBlocks :: int where "kSmallGridBlocks = 256"
definition kSmallGridMaxSeqLen :: int where "kSmallGridMaxSeqLen = 96 * 1024"

text \<open>The sizes a launch is made with.\<close>

record gather_dims =
  gd_seq_len :: int
  gd_kv_heads :: int
  gd_head_size :: int
  gd_block_size :: int
  gd_key_pack :: int

text \<open>The dimension, token and head of an index.\<close>

definition gather_cursor :: "gather_dims \<Rightarrow> int \<Rightarrow> int \<times> int \<times> int" where
  "gather_cursor g index =
     (let dim' = int32 (index smod gd_head_size g);
          token = int32 ((index sdiv gd_head_size g) smod gd_seq_len g);
          kv_head = int32 (index sdiv (gd_head_size g * gd_seq_len g))
      in (dim', token, kv_head))"

definition key_index :: "gather_dims \<Rightarrow> int \<Rightarrow> int \<Rightarrow> int \<Rightarrow> int \<Rightarrow> int" where
  "key_index g physical_block kv_head d block_offset =
     (((physical_block * gd_kv_heads g + kv_head) * (gd_head_size g sdiv gd_key_pack g) + d sdiv gd_key_pack g)
       * gd_block_size g + block_offset) * gd_key_pack g + d smod gd_key_pack g"

definition value_index :: "gather_dims \<Rightarrow> int \<Rightarrow> int \<Rightarrow> int \<Rightarrow> int \<Rightarrow> int" where
  "value_index g physical_block kv_head d block_offset =
     ((physical_block * gd_kv_heads g + kv_head) * gd_head_size g + d) * gd_block_size g + block_offset"

definition paged_kv_gather_step ::
  "('h \<Rightarrow> 'f) \<Rightarrow> gather_dims \<Rightarrow> 'h list \<Rightarrow> 'h list \<Rightarrow> int list \<Rightarrow> int \<Rightarrow> 'f list \<times> 'f list \<Rightarrow> ('f list \<times> 'f list) result" where
  "paged_kv_gather_step half2float g key_cache value_cache block_table index out =
     (let (d, token, kv_head) = gather_cursor g index;
          logical_block = token sdiv gd_block_size g;
          block_offset = token smod gd_block_size g in
      rbind (array_load block_table logical_block) (\<lambda>physical_block.
      rbind (array_load key_cache (key_index g physical_block kv_head d block_offset)) (\<lambda>k.
      rbind (array_store (fst out) ((kv_head * gd_head_size g + d) * gd_seq_len g + token) (half2float k)) (\<lambda>ko.
      rbind (array_load value_cache (value_index g physical_block kv_head d block_offset)) (\<lambda>v.
      rbind (array_store (snd out) ((kv_head * gd_seq_len g + token) * gd_head_size g + d) (half2float v)) (\<lambda>vo.
      Inr (ko, vo)))))))"

definition check_half_cuda_contiguous :: "'v buffer \<Rightarrow> string \<Rightarrow> (bool \<times> string) list" where
  "check_half_cuda_contiguous t name =
     [(bf_cuda t, name @ '' must be a CUDA tensor''),
      (bf_type t = kFloat16, name @ '' must have dtype float16''),
      (bf_contiguous t, name @ '' must be contiguous'')]"

definition gather_checks :: "'h buffer \<Rightarrow> 'h buffer \<Rightarrow> int buffer \<Rightarrow> int \<Rightarrow> unit result" where
  "gather_checks key_cache value_cache block_table seq_len = torch_checks
     (check_half_cuda_contiguous key_cache ''key_cache'' @
      check_half_cuda_contiguous value_cache ''value_cache'' @
      [(bf_cuda block_table, ''block_table must be a CUDA tensor''),
       (bf_type block_table = kInt32, ''block_table must have dtype int32''),
       (bf_contiguous block_table, ''block_table must be contiguous''),
       (bf_dim key_cache = 5, ''key_cache must have shape (blocks, kv_heads, d/x, block, x)''),
       (bf_dim value_cache = 4, ''value_cache must have shape (blocks, kv_heads, d, block)''),
       (bf_dim block_table = 1, ''block_table must be a one-dimensional row''),
       (bf_sizes key_cache ! 0 = bf_sizes value_cache ! 0, ''key/value block counts differ''),
       (bf_sizes key_cache ! 1 = bf_sizes value_cache ! 1, ''key/value KV-head counts differ''),
       (bf_sizes key_cache ! 3 = bf_sizes value_cache ! 3, ''key/value block sizes differ''),
       (bf_sizes key_cache ! 2 * bf_sizes key_cache ! 4 = bf_sizes value_cache ! 2, ''key/value head sizes differ''),
       (0 < seq_len, ''seq_len must be positive'')])"

definition required_blocks :: "int \<Rightarrow> int \<Rightarrow> int result" where
  "required_blocks seq_len block_size =
     (if block_size = 0 then Inl (Undefined ''division by zero'')
      else Inr ((seq_len + block_size - 1) sdiv block_size))"

definition gather_dims_of :: "'h buffer \<Rightarrow> 'h buffer \<Rightarrow> int \<Rightarrow> gather_dims" where
  "gather_dims_of key_cache value_cache seq_len =
     \<lparr>gd_seq_len = int32 seq_len, gd_kv_heads = int32 (bf_sizes value_cache ! 1),
      gd_head_size = int32 (bf_sizes value_cache ! 2), gd_block_size = int32 (bf_sizes value_cache ! 3),
      gd_key_pack = int32 (bf_sizes key_cache ! 4)\<rparr>"

definition gather_blocks :: "gather_dims \<Rightarrow> int \<Rightarrow> int" where
  "gather_blocks g seq_len =
     (let work = seq_len * gd_kv_heads g * gd_head_size g;
          grid_cap = (if seq_len \<le> kSmallGridMaxSeqLen then kSmallGridBlocks else 65535)
      in int32 (min ((work + kThreads - 1) sdiv kThreads) grid_cap))"

definition gather_schedule :: "gather_dims \<Rightarrow> int \<Rightarrow> int list \<Rightarrow> bool" where
  "gather_schedule g seq_len xs \<longleftrightarrow>
     interleave (grid_stride (gather_blocks g seq_len) kThreads (gd_seq_len g * gd_kv_heads g * gd_head_size g)) xs"

definition gather_paged_kv ::
  "int list \<Rightarrow> (int \<Rightarrow> 'f) \<Rightarrow> ('h \<Rightarrow> 'f) \<Rightarrow> 'h buffer \<Rightarrow> 'h buffer \<Rightarrow> int buffer \<Rightarrow> int \<Rightarrow> ('f list \<times> 'f list) result" where
  "gather_paged_kv xs junk half2float key_cache value_cache block_table seq_len =
     rbind (gather_checks key_cache value_cache block_table seq_len) (\<lambda>_.
     let g = gather_dims_of key_cache value_cache seq_len in
     rbind (required_blocks seq_len (gd_block_size g)) (\<lambda>needed.
     rbind (torch_check (needed \<le> bf_numel block_table) ''block_table is too short for seq_len'') (\<lambda>_.
     let fresh = map junk [0..gd_kv_heads g * gd_head_size g * seq_len - 1] in
     rfold (paged_kv_gather_step half2float g (bf_data key_cache) (bf_data value_cache) (bf_data block_table)) xs
       (fresh, fresh))))"

text \<open>A cache shape the gather is called with, and a table whose blocks are in the cache.\<close>

definition gather_shapes :: "'h buffer \<Rightarrow> 'h buffer \<Rightarrow> int \<Rightarrow> int \<Rightarrow> int \<Rightarrow> int \<Rightarrow> int \<Rightarrow> bool" where
  "gather_shapes key_cache value_cache nb heads dx bs x \<longleftrightarrow>
     bf_sizes key_cache = [nb, heads, dx, bs, x] \<and> bf_sizes value_cache = [nb, heads, dx * x, bs] \<and>
     int (length (bf_data key_cache)) = nb * heads * dx * bs * x \<and>
     int (length (bf_data value_cache)) = nb * heads * (dx * x) * bs \<and>
     0 < heads \<and> 0 < dx \<and> 0 < bs \<and> 0 < x \<and> heads < 2 ^ 31 \<and> dx * x < 2 ^ 31 \<and> bs < 2 ^ 31 \<and> x < 2 ^ 31"

definition table_ok :: "int buffer \<Rightarrow> int \<Rightarrow> int \<Rightarrow> int \<Rightarrow> bool" where
  "table_ok block_table nb bs seq_len \<longleftrightarrow> int (length (bf_data block_table)) = bf_numel block_table \<and>
     (\<forall>s \<in> {0..<seq_len}. 0 \<le> bf_data block_table ! nat (s div bs) \<and> bf_data block_table ! nat (s div bs) < nb)"

definition key_at :: "'h buffer \<Rightarrow> int \<Rightarrow> int \<Rightarrow> int \<Rightarrow> int \<Rightarrow> int \<Rightarrow> int \<Rightarrow> int \<Rightarrow> int \<Rightarrow> 'h" where
  "key_at t heads dx bs x b h d off =
     bf_data t ! nat ((((b * heads + h) * dx + d div x) * bs + off) * x + d mod x)"

definition value_at :: "'h buffer \<Rightarrow> int \<Rightarrow> int \<Rightarrow> int \<Rightarrow> int \<Rightarrow> int \<Rightarrow> int \<Rightarrow> int \<Rightarrow> 'h" where
  "value_at t heads dim bs b h d off = bf_data t ! nat (((b * heads + h) * dim + d) * bs + off)"

lemma gather_cursor_index:
  assumes "0 \<le> d" "d < dim" "0 \<le> s" "s < S" "0 \<le> h" "h < 2 ^ 31" "dim < 2 ^ 31" "S < 2 ^ 31"
    and g: "gd_head_size g = dim" "gd_seq_len g = S"
  shows "gather_cursor g ((h * S + s) * dim + d) = (d, s, h)"
proof -
  let ?i = "(h * S + s) * dim + d"
  have hs: "0 \<le> h * S + s" using assms by simp
  then have i: "0 \<le> ?i" using assms by simp
  have d: "?i mod dim = d" "?i div dim = h * S + s" using assms by simp_all
  have s: "(h * S + s) mod S = s" "(h * S + s) div S = h" using assms by simp_all
  have "?i div (dim * S) = h" using zdiv_zmult2_eq [of S ?i dim] assms d s by simp
  moreover have "int32 d = d" "int32 s = s" "int32 h = h" using assms by (simp_all add: int32_id)
  ultimately show ?thesis
    using i hs d s assms unfolding gather_cursor_def Let_def g by (simp add: c_arith)
qed

lemma index_of_cursor:
  assumes "0 \<le> i" "i < S * H * D" "0 < S" "0 < D" "0 \<le> H"
  obtains h s d where "i = (h * S + s) * D + d" "0 \<le> d" "d < D" "0 \<le> s" "s < S" "0 \<le> h" "h < (H :: int)"
proof
  let ?c = "i div D"
  show "i = (?c div S * S + ?c mod S) * D + i mod D" by simp
  have c: "0 \<le> ?c" using assms by (simp add: pos_imp_zdiv_nonneg_iff)
  show "0 \<le> i mod D" "i mod D < D" "0 \<le> ?c mod S" "?c mod S < S" "0 \<le> ?c div S"
    using assms c by (simp_all add: pos_imp_zdiv_nonneg_iff)
  have "?c div S = i div (S * D)" using zdiv_zmult2_eq [of S i D] assms by (simp add: mult.commute)
  moreover have "i div (S * D) < H"
  proof -
    have sd: "0 < S * D" using assms by simp
    have "i div (S * D) * (S * D) \<le> i"
      using pos_mod_sign [OF sd, of i] div_mult_mod_eq [of i "S * D"] by linarith
    also have "i < H * (S * D)" using assms(2) by (simp add: ac_simps)
    finally show ?thesis using mult_less_cancel_right_pos [OF sd] by blast
  qed
  ultimately show "?c div S < H" by simp
qed

lemma key_index_flat:
  assumes "0 \<le> d" "d < dx * x" "0 < x" "0 < dx" "gd_head_size g = dx * x" "gd_key_pack g = x" "gd_kv_heads g = heads" "gd_block_size g = bs"
  shows "key_index g b h d off = (((b * heads + h) * dx + d div x) * bs + off) * x + d mod x"
  using assms by (simp add: key_index_def c_arith)

lemma key_index_bounds:
  fixes d :: int
  assumes "0 \<le> d" "d < dx * x" "0 < x" "0 \<le> h" "h < heads" "0 \<le> b" "b < nb" "0 \<le> off" "off < bs"
  shows "0 \<le> (((b * heads + h) * dx + d div x) * bs + off) * x + d mod x"
    and "(((b * heads + h) * dx + d div x) * bs + off) * x + d mod x < nb * heads * dx * bs * x"
proof -
  have q: "0 \<le> d div x" "d div x < dx"
  proof -
    show "0 \<le> d div x" using pos_imp_zdiv_nonneg_iff [OF assms(3)] assms(1) by blast
    have "d div x * x \<le> d" using pos_mod_sign [OF assms(3), of d] div_mult_mod_eq [of d x] by linarith
    then have "d div x * x < dx * x" using assms(2) by (rule le_less_trans)
    then show "d div x < dx" using mult_less_cancel_right_pos [OF assms(3)] by blast
  qed
  have m: "0 \<le> d mod x" "d mod x < x" using assms by simp_all
  note a = digit_bounds [OF assms(6,7,4,5)]
  note b = digit_bounds [OF a q]
  note c = digit_bounds [OF b assms(8,9)]
  show "0 \<le> (((b * heads + h) * dx + d div x) * bs + off) * x + d mod x"
    and "(((b * heads + h) * dx + d div x) * bs + off) * x + d mod x < nb * heads * dx * bs * x"
    using digit_bounds [OF c m] by simp_all
qed

lemma value_index_bounds:
  assumes "0 \<le> d" "d < dim" "0 \<le> h" "h < heads" "0 \<le> b" "b < nb" "0 \<le> off" "off < bs"
  shows "0 \<le> ((b * heads + h) * dim + d) * bs + off"
    and "((b * heads + h) * dim + d) * bs + off < nb * heads * dim * (bs :: int)"
proof -
  note a = digit_bounds [OF assms(5,6,3,4)]
  note b = digit_bounds [OF a assms(1,2)]
  show "0 \<le> ((b * heads + h) * dim + d) * bs + off"
    and "((b * heads + h) * dim + d) * bs + off < nb * heads * dim * bs"
    using digit_bounds [OF b assms(7,8)] by simp_all
qed

text \<open>One of the two outputs: a load per iteration, stored at an address of its own.\<close>

definition gather_part ::
  "('h \<Rightarrow> 'f) \<Rightarrow> 'h list \<Rightarrow> int list \<Rightarrow> gather_dims \<Rightarrow> (int \<Rightarrow> int \<Rightarrow> int \<Rightarrow> int \<Rightarrow> int) \<Rightarrow> (int \<Rightarrow> int \<Rightarrow> int \<Rightarrow> int) \<Rightarrow>
   int \<Rightarrow> 'f list \<Rightarrow> 'f list result" where
  "gather_part f cache table g src dst index out =
     (let (d, token, kv_head) = gather_cursor g index in
      rbind (array_load table (token sdiv gd_block_size g)) (\<lambda>b.
      rbind (array_load cache (src b kv_head d (token smod gd_block_size g))) (\<lambda>x.
      array_store out (dst kv_head d token) (f x))))"

lemma gather_step_parts:
  "paged_kv_gather_step f g kc vc table i (a, b) =
     rbind (gather_part f kc table g (key_index g) (\<lambda>h d s. (h * gd_head_size g + d) * gd_seq_len g + s) i a) (\<lambda>a'.
     rbind (gather_part f vc table g (value_index g) (\<lambda>h d s. (h * gd_seq_len g + s) * gd_head_size g + d) i b) (\<lambda>b'.
     Inr (a', b')))"
proof -
  obtain d s h where c: "gather_cursor g i = (d, s, h)" by (metis prod_cases3)
  show ?thesis
  proof (cases "array_load table (s sdiv gd_block_size g)")
    case (Inr b)
    then show ?thesis by (simp add: paged_kv_gather_step_def gather_part_def c rbind_assoc Let_def)
  qed (simp add: paged_kv_gather_step_def gather_part_def c Let_def)
qed

lemma gather_part_result:
  assumes xs: "set xs = {0..<S * H * D}" and pos: "0 < S" "0 < D" "0 < H" "0 < bs"
    and small: "S < 2 ^ 31" "H < 2 ^ 31" "D < 2 ^ 31"
    and g: "gd_head_size g = D" "gd_seq_len g = S" "gd_block_size g = bs"
    and table: "\<And>s. 0 \<le> s \<Longrightarrow> s < S \<Longrightarrow> in_array table (s div bs)"
    and src: "\<And>h d s. 0 \<le> h \<Longrightarrow> h < H \<Longrightarrow> 0 \<le> d \<Longrightarrow> d < D \<Longrightarrow> 0 \<le> s \<Longrightarrow> s < S \<Longrightarrow>
       in_array cache (src (table ! nat (s div bs)) h d (s mod bs))"
    and dst: "\<And>h d s. 0 \<le> h \<Longrightarrow> h < H \<Longrightarrow> 0 \<le> d \<Longrightarrow> d < D \<Longrightarrow> 0 \<le> s \<Longrightarrow> s < S \<Longrightarrow> in_array out (dst h d s)"
    and inj: "\<And>h d s h' d' s'. 0 \<le> h \<Longrightarrow> h < H \<Longrightarrow> 0 \<le> d \<Longrightarrow> d < D \<Longrightarrow> 0 \<le> s \<Longrightarrow> s < S \<Longrightarrow>
       0 \<le> h' \<Longrightarrow> h' < H \<Longrightarrow> 0 \<le> d' \<Longrightarrow> d' < D \<Longrightarrow> 0 \<le> s' \<Longrightarrow> s' < S \<Longrightarrow> dst h' d' s' = dst h d s \<Longrightarrow> h' = h \<and> d' = d \<and> s' = s"
  shows "\<exists>o'. rfold (gather_part f cache table g src dst) xs out = Inr o' \<and>
    (\<forall>h d s. 0 \<le> h \<and> h < H \<and> 0 \<le> d \<and> d < D \<and> 0 \<le> s \<and> s < S \<longrightarrow>
       o' ! nat (dst h d s) = f (cache ! nat (src (table ! nat (s div bs)) h d (s mod bs))))"
proof -
  define addr where "addr i = (let (d, s, h) = gather_cursor g i in dst h d s)" for i
  define v where "v i = (let (d, s, h) = gather_cursor g i in f (cache ! nat (src (table ! nat (s div bs)) h d (s mod bs))))" for i
  have pos_i: "\<exists>h s d. i = (h * S + s) * D + d \<and> gather_cursor g i = (d, s, h) \<and> 0 \<le> d \<and> d < D \<and> 0 \<le> s \<and> s < S \<and> 0 \<le> h \<and> h < H"
    if "i \<in> set xs" for i
  proof -
    have "0 \<le> i" "i < S * H * D" "0 \<le> H" using that xs pos by auto
    then obtain h s d where "i = (h * S + s) * D + d" "0 \<le> d" "d < D" "0 \<le> s" "s < S" "0 \<le> h" "h < H"
      using index_of_cursor [of i S H D] pos by blast
    then show ?thesis using gather_cursor_index [of d D s S h g] small g by fastforce
  qed
  have step: "gather_part f cache table g src dst i m = (if True then array_store m (addr i) (v i) else Inr m)"
    if i: "i \<in> set xs" for i m
  proof -
    obtain h s d where c: "gather_cursor g i = (d, s, h)" "0 \<le> d" "d < D" "0 \<le> s" "s < S" "0 \<le> h" "h < H"
      using pos_i [OF i] by blast
    then have "array_load table (s div bs) = Inr (table ! nat (s div bs))"
      "array_load cache (src (table ! nat (s div bs)) h d (s mod bs)) = Inr (cache ! nat (src (table ! nat (s div bs)) h d (s mod bs)))"
      using table src by (simp_all add: array_load_def)
    then show ?thesis using c pos g by (simp add: gather_part_def addr_def v_def c_arith)
  qed
  have valid: "\<forall>i \<in> set xs. True \<longrightarrow> in_array out (addr i)"
    using pos_i dst by (fastforce simp: addr_def)
  obtain o' where o': "rfold (gather_part f cache table g src dst) xs out = Inr o'"
    and stored: "\<forall>x \<in> set xs. True \<longrightarrow> (\<forall>y \<in> set xs. True \<longrightarrow> addr y = addr x \<longrightarrow> v y = v x) \<longrightarrow> array_load o' (addr x) = Inr (v x)"
    using flat.stores [where f = "gather_part f cache table g src dst" and ok = "\<lambda>_. True", OF step valid] by blast
  have "o' ! nat (dst h d s) = f (cache ! nat (src (table ! nat (s div bs)) h d (s mod bs)))"
    if r: "0 \<le> h" "h < H" "0 \<le> d" "d < D" "0 \<le> s" "s < S" for h d s
  proof -
    let ?i = "(h * S + s) * D + d"
    have c: "gather_cursor g ?i = (d, s, h)" using gather_cursor_index [of d D s S h g] r small g by fastforce
    have "0 \<le> ?i" "?i < H * S * D"
      using digit_bounds [OF digit_bounds [OF r(1,2,5,6)] r(3,4)] by simp_all
    then have i: "?i \<in> set xs" by (simp add: xs ac_simps)
    have "v y = v ?i" if y: "y \<in> set xs" "addr y = addr ?i" for y
    proof -
      obtain h' s' d' where c': "gather_cursor g y = (d', s', h')" "0 \<le> d'" "d' < D" "0 \<le> s'" "s' < S" "0 \<le> h'" "h' < H"
        using pos_i [OF y(1)] by blast
      then have "h' = h \<and> d' = d \<and> s' = s" using y(2) c inj [OF r c'(6,7,2,3,4,5)] by (simp add: addr_def)
      then show ?thesis using c c'(1) by (simp add: v_def)
    qed
    then have "array_load o' (addr ?i) = Inr (v ?i)" using stored i by blast
    then show ?thesis using c by (simp add: array_loadI addr_def v_def)
  qed
  then show ?thesis using o' by blast
qed

text \<open>
  C35: Gathering a sequence reads, for each token, the block its position is mapped to, and lays
  the keys out as heads by dimensions by tokens and the values as heads by tokens by dimensions,
  whatever the order of the threads. The blocks of the table have to lie in the cache: the
  checks of the host do not look at them.
\<close>

theorem gather_reads_blocks:
  assumes shapes: "gather_shapes key_cache value_cache nb heads dx bs x"
    and table: "table_ok block_table nb bs seq_len" and len: "seq_len < 2 ^ 31"
    and checks: "gather_checks key_cache value_cache block_table seq_len = Inr ()"
    and long: "(seq_len + bs - 1) div bs \<le> bf_numel block_table"
    and xs: "gather_schedule (gather_dims_of key_cache value_cache seq_len) seq_len xs"
  shows "\<exists>ko vo. gather_paged_kv xs junk f key_cache value_cache block_table seq_len = Inr (ko, vo) \<and>
    (\<forall>h d s. 0 \<le> h \<and> h < heads \<and> 0 \<le> d \<and> d < dx * x \<and> 0 \<le> s \<and> s < seq_len \<longrightarrow>
       ko ! nat ((h * (dx * x) + d) * seq_len + s) =
         f (key_at key_cache heads dx bs x (bf_data block_table ! nat (s div bs)) h d (s mod bs)) \<and>
       vo ! nat ((h * seq_len + s) * (dx * x) + d) =
         f (value_at value_cache heads (dx * x) bs (bf_data block_table ! nat (s div bs)) h d (s mod bs)))"
proof -
  let ?g = "gather_dims_of key_cache value_cache seq_len"
  let ?D = "dx * x"
  let ?t = "bf_data block_table"
  note sh = shapes [unfolded gather_shapes_def]
  have S: "0 < seq_len"
    using checks by (auto simp: gather_checks_def check_half_cuda_contiguous_def torch_checks_Cons)
  have D: "0 < ?D" using sh by simp
  have D32: "int32 ?D = ?D" using D sh by (intro int32_id) linarith+
  have g: "gd_head_size ?g = ?D" "gd_seq_len ?g = seq_len" "gd_block_size ?g = bs" "gd_kv_heads ?g = heads" "gd_key_pack ?g = x"
    using sh S D32 len by (simp_all add: gather_dims_of_def int32_id)
  have visits: "set xs = {0..<seq_len * heads * ?D}"
  proof -
    have "0 < seq_len * heads * ?D" using S sh D by simp
    then have "0 < gather_blocks ?g seq_len"
      by (simp add: gather_blocks_def g kThreads_def kSmallGridBlocks_def Let_def sdiv_nonneg int32_id)
    then show ?thesis
      using interleave_grid_stride(1) [of "gather_blocks ?g seq_len" kThreads] xs
      by (simp add: gather_schedule_def g kThreads_def)
  qed
  let ?fresh = "map junk [0..heads * ?D * seq_len - 1]"
  have in_table: "in_array ?t (s div bs)" if "0 \<le> s" "s < seq_len" for s
  proof -
    have "s div bs \<le> (seq_len - 1) div bs" using that sh by (intro zdiv_mono1) simp_all
    also have "(seq_len - 1) div bs < (seq_len + bs - 1) div bs"
    proof -
      have "(seq_len + bs - 1) div bs = (seq_len - 1) div bs + 1"
        using div_add_self2 [of bs "seq_len - 1"] sh by (simp add: algebra_simps)
      then show ?thesis by simp
    qed
    finally have "s div bs < int (length ?t)" using long table by (simp add: table_ok_def)
    moreover have "0 \<le> s div bs" using that sh by (simp add: pos_imp_zdiv_nonneg_iff)
    ultimately show ?thesis by (simp add: in_array_def)
  qed
  have blk: "0 \<le> ?t ! nat (s div bs)" "?t ! nat (s div bs) < nb" if "0 \<le> s" "s < seq_len" for s
    using table that by (simp_all add: table_ok_def)
  have off: "0 \<le> s mod bs" "s mod bs < bs" for s using sh by simp_all
  have keys: "\<exists>o'. rfold (gather_part f (bf_data key_cache) ?t ?g (key_index ?g) (\<lambda>h d s. (h * gd_head_size ?g + d) * gd_seq_len ?g + s)) xs ?fresh = Inr o' \<and>
    (\<forall>h d s. 0 \<le> h \<and> h < heads \<and> 0 \<le> d \<and> d < ?D \<and> 0 \<le> s \<and> s < seq_len \<longrightarrow>
       o' ! nat ((h * gd_head_size ?g + d) * gd_seq_len ?g + s) =
       f (bf_data key_cache ! nat (key_index ?g (?t ! nat (s div bs)) h d (s mod bs))))"
  proof (rule gather_part_result [OF visits S D])
    show "in_array (bf_data key_cache) (key_index ?g (?t ! nat (s div bs)) h d (s mod bs))"
      if "0 \<le> h" "h < heads" "0 \<le> d" "d < ?D" "0 \<le> s" "s < seq_len" for h d s
    proof -
      have "key_index ?g (?t ! nat (s div bs)) h d (s mod bs) =
          (((?t ! nat (s div bs) * heads + h) * dx + d div x) * bs + s mod bs) * x + d mod x"
        using that sh by (intro key_index_flat g) simp_all
      then show ?thesis
        using key_index_bounds [of d dx x h heads "?t ! nat (s div bs)" nb "s mod bs" bs] that blk [of s] off sh
        by (simp add: in_array_def)
    qed
    show "in_array ?fresh ((h * gd_head_size ?g + d) * gd_seq_len ?g + s)"
      if "0 \<le> h" "h < heads" "0 \<le> d" "d < ?D" "0 \<le> s" "s < seq_len" for h d s
      using digit_bounds [OF digit_bounds [OF that(1-4)] that(5,6)] by (simp add: in_array_def g)
    show "h' = h \<and> d' = d \<and> s' = s"
      if "0 \<le> h" "h < heads" "0 \<le> d" "d < ?D" "0 \<le> s" "s < seq_len" "0 \<le> h'" "h' < heads" "0 \<le> d'" "d' < ?D" "0 \<le> s'" "s' < seq_len"
        "(h' * gd_head_size ?g + d') * gd_seq_len ?g + s' = (h * gd_head_size ?g + d) * gd_seq_len ?g + s" for h d s h' d' s'
      using that digit_inject [of s' seq_len s] digit_inject [of d' ?D d h' h] by (simp add: g)
  qed (use sh len g in_table in simp_all)
  have vals: "\<exists>o'. rfold (gather_part f (bf_data value_cache) ?t ?g (value_index ?g) (\<lambda>h d s. (h * gd_seq_len ?g + s) * gd_head_size ?g + d)) xs ?fresh = Inr o' \<and>
    (\<forall>h d s. 0 \<le> h \<and> h < heads \<and> 0 \<le> d \<and> d < ?D \<and> 0 \<le> s \<and> s < seq_len \<longrightarrow>
       o' ! nat ((h * gd_seq_len ?g + s) * gd_head_size ?g + d) =
       f (bf_data value_cache ! nat (value_index ?g (?t ! nat (s div bs)) h d (s mod bs))))"
  proof (rule gather_part_result [OF visits S D])
    show "in_array (bf_data value_cache) (value_index ?g (?t ! nat (s div bs)) h d (s mod bs))"
      if "0 \<le> h" "h < heads" "0 \<le> d" "d < ?D" "0 \<le> s" "s < seq_len" for h d s
      using value_index_bounds [of d ?D h heads "?t ! nat (s div bs)" nb "s mod bs" bs] that blk [of s] off sh
      by (simp add: in_array_def value_index_def g)
    show "in_array ?fresh ((h * gd_seq_len ?g + s) * gd_head_size ?g + d)"
      if "0 \<le> h" "h < heads" "0 \<le> d" "d < ?D" "0 \<le> s" "s < seq_len" for h d s
      using digit_bounds [OF digit_bounds [OF that(1,2,5,6)] that(3,4)] by (simp add: in_array_def g ac_simps)
    show "h' = h \<and> d' = d \<and> s' = s"
      if "0 \<le> h" "h < heads" "0 \<le> d" "d < ?D" "0 \<le> s" "s < seq_len" "0 \<le> h'" "h' < heads" "0 \<le> d'" "d' < ?D" "0 \<le> s'" "s' < seq_len"
        "(h' * gd_seq_len ?g + s') * gd_head_size ?g + d' = (h * gd_seq_len ?g + s) * gd_head_size ?g + d" for h d s h' d' s'
      using that digit_inject [of d' ?D d] digit_inject [of s' seq_len s h' h] by (simp add: g)
  qed (use sh len g in_table in simp_all)
  obtain ko where ko: "rfold (gather_part f (bf_data key_cache) ?t ?g (key_index ?g) (\<lambda>h d s. (h * gd_head_size ?g + d) * gd_seq_len ?g + s)) xs ?fresh = Inr ko"
    and ko_at: "\<forall>h d s. 0 \<le> h \<and> h < heads \<and> 0 \<le> d \<and> d < ?D \<and> 0 \<le> s \<and> s < seq_len \<longrightarrow>
       ko ! nat ((h * ?D + d) * seq_len + s) = f (bf_data key_cache ! nat (key_index ?g (?t ! nat (s div bs)) h d (s mod bs)))"
    using keys unfolding g by blast
  obtain vo where vo: "rfold (gather_part f (bf_data value_cache) ?t ?g (value_index ?g) (\<lambda>h d s. (h * gd_seq_len ?g + s) * gd_head_size ?g + d)) xs ?fresh = Inr vo"
    and vo_at: "\<forall>h d s. 0 \<le> h \<and> h < heads \<and> 0 \<le> d \<and> d < ?D \<and> 0 \<le> s \<and> s < seq_len \<longrightarrow>
       vo ! nat ((h * seq_len + s) * ?D + d) = f (bf_data value_cache ! nat (value_index ?g (?t ! nat (s div bs)) h d (s mod bs)))"
    using vals unfolding g by blast
  have "rfold (paged_kv_gather_step f ?g (bf_data key_cache) (bf_data value_cache) ?t) xs (?fresh, ?fresh) = Inr (ko, vo)"
    by (rule rfold_pair [OF _ ko vo]) (rule gather_step_parts)
  moreover have "required_blocks seq_len bs = Inr ((seq_len + bs - 1) div bs)"
    using S sh by (simp add: required_blocks_def sdiv_nonneg)
  ultimately have run: "gather_paged_kv xs junk f key_cache value_cache block_table seq_len = Inr (ko, vo)"
    using long by (simp add: gather_paged_kv_def checks g Let_def torch_check_def)
  have "key_index ?g b h d off = (((b * heads + h) * dx + d div x) * bs + off) * x + d mod x" if "0 \<le> d" "d < ?D" for b h d off
    using that sh by (intro key_index_flat g) simp_all
  then show ?thesis using run ko_at vo_at by (auto simp: key_at_def value_at_def value_index_def g)
qed

definition sample_key_cache :: "nat buffer" where
  "sample_key_cache = \<lparr>bf_cuda = True, bf_device = 0, bf_type = kFloat16, bf_contiguous = True, bf_address = 0,
     bf_sizes = [2, 1, 1, 1, 1], bf_data = [5, 7]\<rparr>"

definition sample_value_cache :: "nat buffer" where
  "sample_value_cache = \<lparr>bf_cuda = True, bf_device = 0, bf_type = kFloat16, bf_contiguous = True, bf_address = 0,
     bf_sizes = [2, 1, 1, 1], bf_data = [8, 9]\<rparr>"

definition sample_table :: "int buffer" where
  "sample_table = \<lparr>bf_cuda = True, bf_device = 0, bf_type = kInt32, bf_contiguous = True, bf_address = 0,
     bf_sizes = [2], bf_data = [1, 0]\<rparr>"

theorem gather_reads_blocks_witness:
  "\<exists>xs ko vo. gather_paged_kv xs (\<lambda>k. 0) (\<lambda>x. x + 100) sample_key_cache sample_value_cache sample_table 2 = Inr (ko, vo) \<and>
     ko ! 0 = 107 \<and> vo ! 1 = 108"
proof -
  let ?g = "gather_dims_of sample_key_cache sample_value_cache 2"
  let ?xs = "concat (grid_stride (gather_blocks ?g 2) kThreads (gd_seq_len ?g * gd_kv_heads ?g * gd_head_size ?g))"
  have xs: "gather_schedule ?g 2 ?xs" unfolding gather_schedule_def by (rule interleave_concat)
  have shapes: "gather_shapes sample_key_cache sample_value_cache 2 1 1 1 1"
    by (simp add: gather_shapes_def sample_key_cache_def sample_value_cache_def)
  have table: "table_ok sample_table 2 1 2"
    unfolding table_ok_def two_tokens by (simp add: sample_table_def bf_numel_def)
  have checks: "gather_checks sample_key_cache sample_value_cache sample_table 2 = Inr ()"
    by (simp add: gather_checks_def check_half_cuda_contiguous_def torch_checks_Cons torch_checks_Nil bf_dim_def
        sample_key_cache_def sample_value_cache_def sample_table_def)
  have len: "(2 :: int) < 2 ^ 31" by simp
  have long: "(2 + 1 - 1) div 1 \<le> bf_numel sample_table" by (simp add: sample_table_def bf_numel_def)
  obtain ko vo where run: "gather_paged_kv ?xs (\<lambda>k. 0) (\<lambda>x. x + 100) sample_key_cache sample_value_cache sample_table 2 = Inr (ko, vo)"
    and at_i: "\<forall>h d s. 0 \<le> h \<and> h < 1 \<and> 0 \<le> d \<and> d < 1 * 1 \<and> 0 \<le> s \<and> s < 2 \<longrightarrow>
       ko ! nat ((h * (1 * 1) + d) * 2 + s) =
         key_at sample_key_cache 1 1 1 1 (bf_data sample_table ! nat (s div 1)) h d (s mod 1) + 100 \<and>
       vo ! nat ((h * 2 + s) * (1 * 1) + d) =
         value_at sample_value_cache 1 (1 * 1) 1 (bf_data sample_table ! nat (s div 1)) h d (s mod 1) + 100"
    using gather_reads_blocks [OF shapes table len checks long xs, of "\<lambda>k. 0" "\<lambda>x. x + 100"]
    by (elim exE conjE) (rule that, assumption+)
  have "ko ! 0 = 107" "vo ! 1 = 108"
    using at_i [rule_format, of 0 0 0] at_i [rule_format, of 0 0 1]
    by (simp_all add: key_at_def value_at_def sample_key_cache_def sample_value_cache_def sample_table_def)
  then show ?thesis using run by blast
qed

section \<open>Copying blocks\<close>

text \<open>
  The binary search of the group of a destination: the first group whose prefix sum is above it.
\<close>

function find_group_from :: "int list \<Rightarrow> int \<Rightarrow> int \<Rightarrow> int \<Rightarrow> int result" where
  "find_group_from cum_sum dst_idx left right =
     (if left < right then
        let mid = left + (right - left) div 2 in
        rbind (array_load cum_sum mid) (\<lambda>c.
        if dst_idx < c then find_group_from cum_sum dst_idx left mid
        else find_group_from cum_sum dst_idx (mid + 1) right)
      else Inr left)"
  by pat_completeness auto

termination by (relation "measure (\<lambda>(cum_sum, dst_idx, left, right). nat (right - left))") auto

declare find_group_from.simps [simp del]

definition find_group_idx :: "int list \<Rightarrow> int \<Rightarrow> int \<Rightarrow> int result" where
  "find_group_idx cum_sum num_groups dst_idx = find_group_from cum_sum dst_idx 0 (num_groups - 1)"

text \<open>What it stands for: a linear search, the last group when no prefix sum is above.\<close>

fun first_above :: "int \<Rightarrow> int list \<Rightarrow> nat" where
  "first_above dst_idx [] = 0"
| "first_above dst_idx [c] = 0"
| "first_above dst_idx (c # cs) = (if dst_idx < c then 0 else Suc (first_above dst_idx cs))"

lemma first_above_spec:
  "cs \<noteq> [] \<Longrightarrow> first_above d cs < length cs \<and> (\<forall>i < first_above d cs. cs ! i \<le> d) \<and>
    (first_above d cs < length cs - 1 \<longrightarrow> d < cs ! first_above d cs)"
proof (induction d cs rule: first_above.induct)
  case (3 d c c' cs)
  then show ?case by (auto simp: nth_Cons split: nat.splits)
qed auto

lemma first_above_unique:
  assumes "cs \<noteq> []" "i < length cs" "\<forall>j < i. cs ! j \<le> d" "i < length cs - 1 \<longrightarrow> d < cs ! i"
  shows "first_above d cs = i"
proof (rule linorder_cases)
  assume l: "first_above d cs < i"
  then have "d < cs ! first_above d cs" using first_above_spec [OF assms(1), of d] assms(2) by auto
  moreover have "cs ! first_above d cs \<le> d" using assms(3) l by blast
  ultimately show ?thesis by simp
next
  assume g: "i < first_above d cs"
  then have "cs ! i \<le> d" "i < length cs - 1" using first_above_spec [OF assms(1), of d] by auto
  then show ?thesis using assms(4) by simp
qed

lemma find_group_from_result:
  assumes "sorted cs" "cs \<noteq> []" "0 \<le> left" "left \<le> right" "right < int (length cs)"
    and "\<forall>j < nat left. cs ! j \<le> d" and "right < int (length cs) - 1 \<longrightarrow> d < cs ! nat right"
  shows "find_group_from cs d left right = Inr (int (first_above d cs))"
  using assms
proof (induction cs d left right rule: find_group_from.induct)
  case (1 cs d left right)
  show ?case
  proof (cases "left < right")
    case True
    define mid where "mid = left + (right - left) div 2"
    have m: "left \<le> mid" "mid < right" using True by (auto simp: mid_def)
    have load: "array_load cs mid = Inr (cs ! nat mid)" using m 1 by (simp add: array_load_def in_array_def)
    have upto: "cs ! j \<le> d" if "\<not> d < cs ! nat mid" "j < nat (mid + 1)" for j
    proof -
      have "cs ! j \<le> cs ! nat mid" using that m 1(3,7) by (intro sorted_nth_mono) auto
      then show ?thesis using that(1) by simp
    qed
    show ?thesis
    proof (cases "d < cs ! nat mid")
      case lt: True
      have "find_group_from cs d left mid = Inr (int (first_above d cs))"
        using m 1(3-9) lt by (intro 1(1) [OF True mid_def lt]) auto
      then show ?thesis using True lt load by (subst find_group_from.simps) (simp add: mid_def [symmetric] Let_def)
    next
      case ge: False
      have "find_group_from cs d (mid + 1) right = Inr (int (first_above d cs))"
        using m 1(3-9) ge upto by (intro 1(2) [OF True mid_def ge]) auto
      then show ?thesis using True ge load by (subst find_group_from.simps) (simp add: mid_def [symmetric] Let_def)
    qed
  next
    case False
    then have "left = right" using 1 by simp
    moreover have "first_above d cs = nat left" using 1 \<open>left = right\<close> by (intro first_above_unique) auto
    ultimately show ?thesis using False 1(5) by (subst find_group_from.simps) simp
  qed
qed

lemma find_group_idx_first:
  "sorted cs \<Longrightarrow> cs \<noteq> [] \<Longrightarrow> find_group_idx cs (int (length cs)) d = Inr (int (first_above d cs))"
  unfolding find_group_idx_def by (intro find_group_from_result) (auto simp: Suc_le_eq)

text \<open>
  C36: The binary search of the copy kernel ends, reads only inside of the prefix sums and finds
  the group the linear search finds.
\<close>

theorem find_group_idx_linear:
  assumes "sorted cum_sum" "cum_sum \<noteq> []"
  shows "find_group_idx cum_sum (int (length cum_sum)) dst_idx = Inr (int (first_above dst_idx cum_sum))"
  using assms by (rule find_group_idx_first)

theorem find_group_idx_linear_witness:
  "find_group_idx [2, 3, 7, 7, 9] 5 6 = Inr 2"
  using find_group_idx_linear [of "[2, 3, 7, 7, 9]" 6] by simp

definition vec_width :: "scalar_kind \<Rightarrow> int" where
  "vec_width t = (if t = kFloat32 then 4 else 8)"

definition ceil_div :: "int \<Rightarrow> int \<Rightarrow> int" where
  "ceil_div a b = (a + b - 1) sdiv b"

record copy_args =
  ca_src_blocks :: "int list"
  ca_dst_blocks :: "int list"
  ca_cum_sum :: "int list"
  ca_num_groups :: int
  ca_numel_per_block :: int

text \<open>Where the source and the destination of a destination index start.\<close>

definition copy_offsets :: "copy_args \<Rightarrow> int \<Rightarrow> (int \<times> int) result" where
  "copy_offsets c dst_linear_idx =
     rbind (find_group_idx (ca_cum_sum c) (ca_num_groups c) dst_linear_idx) (\<lambda>group_idx.
     rbind (array_load (ca_src_blocks c) group_idx) (\<lambda>src_block.
     rbind (array_load (ca_dst_blocks c) dst_linear_idx) (\<lambda>dst_block.
     Inr (src_block * ca_numel_per_block c, dst_block * ca_numel_per_block c))))"

text \<open>One thread of the kernel on one of the caches: an element, or a vector loaded before it is stored.\<close>

definition copy_element :: "nat \<Rightarrow> int \<Rightarrow> int \<Rightarrow> 'v list list \<Rightarrow> 'v list list result" where
  "copy_element layer src dst cache =
     rbind (arrays_load cache (layer, src)) (arrays_store cache (layer, dst))"

definition copy_vector :: "int \<Rightarrow> nat \<Rightarrow> int \<Rightarrow> int \<Rightarrow> 'v list list \<Rightarrow> 'v list list result" where
  "copy_vector width layer src dst cache =
     rbind (rmap (\<lambda>l. arrays_load cache (layer, src + l)) [0..width - 1]) (\<lambda>vs.
     rfold (\<lambda>l m. arrays_store m (layer, dst + l) (vs ! nat l)) [0..width - 1] cache)"

definition block_copy_part :: "int option \<Rightarrow> copy_args \<Rightarrow> int \<times> int \<times> int \<Rightarrow> 'v list list \<Rightarrow> 'v list list result" where
  "block_copy_part vectorized c t cache =
     (let (layer_idx, dst_linear_idx, idx) = t in
      rbind (copy_offsets c dst_linear_idx) (\<lambda>(src_offset, dst_offset).
      case vectorized of
        Some width \<Rightarrow>
          if ca_numel_per_block c sdiv width \<le> idx then Inr cache
          else copy_vector width (nat layer_idx) (src_offset + idx * width) (dst_offset + idx * width) cache
      | None \<Rightarrow>
          if ca_numel_per_block c \<le> idx then Inr cache
          else copy_element (nat layer_idx) (src_offset + idx) (dst_offset + idx) cache))"

definition block_copy_step ::
  "int option \<Rightarrow> copy_args \<Rightarrow> int \<times> int \<times> int \<Rightarrow> 'v list list \<times> 'v list list \<Rightarrow> ('v list list \<times> 'v list list) result" where
  "block_copy_step vectorized c t s =
     rbind (block_copy_part vectorized c t (fst s)) (\<lambda>kc.
     rbind (block_copy_part vectorized c t (snd s)) (\<lambda>vc. Inr (kc, vc)))"

text \<open>The threads of the launch: a grid of layers, destinations and tiles of 256 threads.\<close>

definition kThreadsPerBlock :: int where "kThreadsPerBlock = 256"

definition copy_width :: "scalar_kind \<Rightarrow> int \<Rightarrow> int option" where
  "copy_width cache_dtype numel = (if numel smod vec_width cache_dtype = 0 then Some (vec_width cache_dtype) else None)"

definition copy_tiles :: "int option \<Rightarrow> int \<Rightarrow> int" where
  "copy_tiles vectorized numel =
     ceil_div (case vectorized of Some width \<Rightarrow> numel sdiv width | None \<Rightarrow> numel) kThreadsPerBlock"

definition copy_threads :: "int \<Rightarrow> int \<Rightarrow> int \<Rightarrow> (int \<times> int \<times> int) list" where
  "copy_threads num_layers num_dst_blocks tiles =
     concat (map (\<lambda>l. concat (map (\<lambda>d. map (\<lambda>i. (l, d, i)) (thread_ids tiles kThreadsPerBlock))
       [0..num_dst_blocks - 1])) [0..num_layers - 1])"

definition block_copy_checks ::
  "int buffer \<Rightarrow> int buffer \<Rightarrow> int buffer \<Rightarrow> int buffer \<Rightarrow> int buffer \<Rightarrow> int \<Rightarrow> scalar_kind \<Rightarrow> unit result" where
  "block_copy_checks key_ptrs value_ptrs src_blocks dst_blocks cum_sum numel_per_block cache_dtype = torch_checks
        [(bf_cuda key_ptrs, ''key_cache_ptrs.is_cuda()''), (bf_cuda value_ptrs, ''value_cache_ptrs.is_cuda()''),
         (bf_cuda src_blocks, ''src_block_indices.is_cuda()''), (bf_cuda dst_blocks, ''dst_block_indices.is_cuda()''),
         (bf_cuda cum_sum, ''cum_sum.is_cuda()''),
         (bf_type key_ptrs = kInt64, ''key_cache_ptrs int64''), (bf_type value_ptrs = kInt64, ''value_cache_ptrs int64''),
         (bf_type src_blocks = kInt32, ''src_block_indices int32''), (bf_type dst_blocks = kInt32, ''dst_block_indices int32''),
         (bf_type cum_sum = kInt32, ''cum_sum int32''),
         (bf_dim key_ptrs = 1, ''key_cache_ptrs.dim() == 1''), (bf_dim value_ptrs = 1, ''value_cache_ptrs.dim() == 1''),
         (bf_dim src_blocks = 1, ''src_block_indices.dim() == 1''), (bf_dim dst_blocks = 1, ''dst_block_indices.dim() == 1''),
         (bf_dim cum_sum = 1, ''cum_sum.dim() == 1''),
         (bf_contiguous key_ptrs, ''key_cache_ptrs.is_contiguous()''), (bf_contiguous value_ptrs, ''value_cache_ptrs.is_contiguous()''),
         (bf_contiguous src_blocks, ''src_block_indices.is_contiguous()''), (bf_contiguous dst_blocks, ''dst_block_indices.is_contiguous()''),
         (bf_contiguous cum_sum, ''cum_sum.is_contiguous()''),
         (bf_sizes key_ptrs ! 0 = bf_sizes value_ptrs ! 0, ''key and value pointers''),
         (bf_sizes src_blocks ! 0 = bf_sizes cum_sum ! 0, ''sources and groups''),
         (0 < numel_per_block, ''numel_per_block > 0''),
         (cache_dtype \<in> {kFloat32, kFloat16, kBFloat16}, ''block_copy_kernel not implemented'')]"

text \<open>
  The grid has a block for every layer, destination and tile; its sizes are cut to 32 bits. CUDA
  refuses an empty grid and one higher or deeper than 65535.
\<close>

definition copy_grid :: "int buffer \<Rightarrow> int buffer \<Rightarrow> int \<Rightarrow> scalar_kind \<Rightarrow> int \<times> int \<times> int" where
  "copy_grid key_ptrs dst_blocks numel_per_block cache_dtype =
     (uint32 (int32 (bf_sizes key_ptrs ! 0)), uint32 (int32 (bf_sizes dst_blocks ! 0)),
      uint32 (copy_tiles (copy_width cache_dtype numel_per_block) numel_per_block))"

definition copy_launch_check :: "int \<times> int \<times> int \<Rightarrow> unit result" where
  "copy_launch_check grid =
     (let (x, y, z) = grid in
      torch_checks [(0 < x \<and> x < 2 ^ 31 \<and> 0 < y \<and> y \<le> 65535 \<and> 0 < z \<and> z \<le> 65535,
        ''CUDA error: invalid configuration argument'')])"

definition copy_args_of :: "int buffer \<Rightarrow> int buffer \<Rightarrow> int buffer \<Rightarrow> int \<Rightarrow> copy_args" where
  "copy_args_of src_blocks dst_blocks cum_sum numel_per_block =
     \<lparr>ca_src_blocks = bf_data src_blocks, ca_dst_blocks = bf_data dst_blocks, ca_cum_sum = bf_data cum_sum,
      ca_num_groups = int32 (bf_sizes src_blocks ! 0), ca_numel_per_block = numel_per_block\<rparr>"

text \<open>
  The two lists of caches are the memories behind the pointers, layer by layer, and \<open>xs\<close> the
  order in which the threads of the grid run.
\<close>

definition block_copy ::
  "(int \<times> int \<times> int) list \<Rightarrow> 'v list list \<Rightarrow> 'v list list \<Rightarrow> int buffer \<Rightarrow> int buffer \<Rightarrow> int buffer \<Rightarrow> int buffer \<Rightarrow> int buffer \<Rightarrow>
   int \<Rightarrow> scalar_kind \<Rightarrow> ('v list list \<times> 'v list list) result" where
  "block_copy xs key_caches value_caches key_ptrs value_ptrs src_blocks dst_blocks cum_sum numel_per_block cache_dtype =
     (if bf_numel src_blocks = 0 then Inr (key_caches, value_caches)
      else rbind (block_copy_checks key_ptrs value_ptrs src_blocks dst_blocks cum_sum numel_per_block cache_dtype) (\<lambda>_.
      rbind (copy_launch_check (copy_grid key_ptrs dst_blocks numel_per_block cache_dtype)) (\<lambda>_.
      rfold (block_copy_step (copy_width cache_dtype numel_per_block)
              (copy_args_of src_blocks dst_blocks cum_sum numel_per_block)) xs (key_caches, value_caches))))"

section \<open>The copies of one cache\<close>

text \<open>
  The blocks a copy is asked for: in the caches, the destinations distinct and none of them a source.
\<close>

definition copy_ok :: "copy_args \<Rightarrow> 'v list list \<Rightarrow> int \<Rightarrow> bool" where
  "copy_ok c cache nblocks \<longleftrightarrow>
     sorted (ca_cum_sum c) \<and> ca_cum_sum c \<noteq> [] \<and> length (ca_cum_sum c) = length (ca_src_blocks c) \<and>
     ca_num_groups c = int (length (ca_src_blocks c)) \<and>
     0 < ca_numel_per_block c \<and> (\<forall>t \<in> set cache. int (length t) = nblocks * ca_numel_per_block c) \<and>
     (\<forall>b \<in> set (ca_src_blocks c) \<union> set (ca_dst_blocks c). 0 \<le> b \<and> b < nblocks) \<and>
     distinct (ca_dst_blocks c) \<and> set (ca_src_blocks c) \<inter> set (ca_dst_blocks c) = {}"

text \<open>The source of a destination, by the linear search.\<close>

definition source_of :: "copy_args \<Rightarrow> int \<Rightarrow> int" where
  "source_of c i = ca_src_blocks c ! first_above i (ca_cum_sum c)"

lemma copy_offsets_ok:
  assumes "copy_ok c cache nblocks" "0 \<le> i" "i < int (length (ca_dst_blocks c))"
  shows "copy_offsets c i = Inr (source_of c i * ca_numel_per_block c, ca_dst_blocks c ! nat i * ca_numel_per_block c)"
    and "source_of c i \<in> set (ca_src_blocks c)"
proof -
  have cum: "sorted (ca_cum_sum c)" "ca_cum_sum c \<noteq> []" "length (ca_cum_sum c) = length (ca_src_blocks c)"
    "ca_num_groups c = int (length (ca_src_blocks c))"
    using assms(1) by (simp_all add: copy_ok_def)
  have f: "first_above i (ca_cum_sum c) < length (ca_src_blocks c)"
    using first_above_spec [OF cum(2), of i] cum(3) by simp
  then show "source_of c i \<in> set (ca_src_blocks c)" by (simp add: source_of_def)
  have "find_group_idx (ca_cum_sum c) (int (length (ca_src_blocks c))) i = Inr (int (first_above i (ca_cum_sum c)))"
    using find_group_idx_first [OF cum(1,2)] cum(3) by simp
  then show "copy_offsets c i = Inr (source_of c i * ca_numel_per_block c, ca_dst_blocks c ! nat i * ca_numel_per_block c)"
    using f assms by (simp add: copy_offsets_def array_load_def in_array_def source_of_def cum(4))
qed

text \<open>The elements a thread copies.\<close>

definition thread_elements :: "int option \<Rightarrow> copy_args \<Rightarrow> int \<times> int \<times> int \<Rightarrow> (int \<times> int \<times> int) list" where
  "thread_elements vectorized c t =
     (let (l, d, i) = t in case vectorized of
        Some w \<Rightarrow> if ca_numel_per_block c div w \<le> i then [] else map (\<lambda>k. (l, d, i * w + k)) [0..w - 1]
      | None \<Rightarrow> if ca_numel_per_block c \<le> i then [] else [(l, d, i)])"

definition element_copy :: "copy_args \<Rightarrow> int \<times> int \<times> int \<Rightarrow> 'v list list \<Rightarrow> 'v list list result" where
  "element_copy c x = (let (l, d, e) = x in
     copy_element (nat l) (source_of c d * ca_numel_per_block c + e) (ca_dst_blocks c ! nat d * ca_numel_per_block c + e))"

text \<open>Loading a vector before storing it is the same as copying its elements one by one, off the sources.\<close>

lemma copy_vector_elements:
  assumes "\<forall>l \<in> {0..<w}. \<forall>k \<in> {0..<w}. src + l \<noteq> dst + (k :: int)"
    and "\<forall>l \<in> {0..<w}. in_arrays cache (layer, src + l)"
  shows "copy_vector w layer src dst cache = rfold (\<lambda>l. copy_element layer (src + l) (dst + l)) [0..w - 1] cache"
proof -
  define v where "v l = cache ! layer ! nat (src + l)" for l
  have load: "arrays_load cache (layer, src + l) = Inr (v l)" if "l \<in> set [0..w - 1]" for l
    using assms(2) that by (auto simp: in_arrays_def arrays_load_def array_load_def v_def)
  have "rmap (\<lambda>l. arrays_load cache (layer, src + l)) [0..w - 1] = Inr (map v [0..w - 1])"
    by (rule rmap_total) (rule load)
  then have "copy_vector w layer src dst cache =
      rfold (\<lambda>l m. arrays_store m (layer, dst + l) (map v [0..w - 1] ! nat l)) [0..w - 1] cache"
    by (simp only: copy_vector_def rbind_Inr)
  also have "\<dots> = rfold (\<lambda>l. copy_element layer (src + l) (dst + l)) [0..w - 1] cache"
  proof -
    have "rfold (\<lambda>l m. arrays_store m (layer, dst + l) (map v [0..w - 1] ! nat l)) ls m =
        rfold (\<lambda>l. copy_element layer (src + l) (dst + l)) ls m"
      if "\<forall>l \<in> set ls. 0 \<le> l \<and> l < w" "\<forall>l \<in> {0..<w}. arrays_load m (layer, src + l) = Inr (v l)" for ls m
      using that
    proof (induction ls arbitrary: m)
      case (Cons l ls)
      have "copy_element layer (src + l) (dst + l) m = arrays_store m (layer, dst + l) (v l)"
        using Cons.prems by (simp add: copy_element_def)
      moreover have "map v [0..w - 1] ! nat l = v l" using Cons.prems by (simp add: nth_upto0)
      moreover have "\<forall>k \<in> {0..<w}. arrays_load m' (layer, src + k) = Inr (v k)"
        if "arrays_store m (layer, dst + l) (v l) = Inr m'" for m'
        using layered.load_other [OF that] Cons.prems assms(1) by auto
      ultimately show ?case
        using Cons.IH Cons.prems(1) by (cases "arrays_store m (layer, dst + l) (v l)") simp_all
    qed simp
    then show ?thesis using load by (metis (no_types, lifting) atLeastLessThan_iff set_upto atLeastAtMost_iff zle_diff1_eq)
  qed
  finally show ?thesis .
qed

lemma rfold_cong_from:
  assumes "\<And>x m. x \<in> set xs \<Longrightarrow> I m \<Longrightarrow> f x m = g x m" and "\<And>x m m'. x \<in> set xs \<Longrightarrow> I m \<Longrightarrow> g x m = Inr m' \<Longrightarrow> I m'"
  shows "I m \<Longrightarrow> rfold f xs m = rfold g xs m"
  using assms
proof (induction xs arbitrary: m)
  case (Cons x xs)
  have "f x m = g x m" using Cons.prems by simp
  moreover have "rfold f xs m' = rfold g xs m'" if "g x m = Inr m'" for m'
  proof (rule Cons.IH)
    show "I m'" using Cons.prems(3) [of x m m'] Cons.prems(1) that by simp
    show "f y k = g y k" if "y \<in> set xs" "I k" for y k using Cons.prems(2) that by simp
    show "I k'" if "y \<in> set xs" "I k" "g y k = Inr k'" for y k k' using Cons.prems(3) [of y k k'] that by simp
  qed
  ultimately show ?case by (cases "g x m") simp_all
qed simp

definition same_arrays :: "'v list list \<Rightarrow> 'v list list \<Rightarrow> bool" where
  "same_arrays m m' \<longleftrightarrow> (\<forall>a. in_arrays m' a = in_arrays m a)"

lemma element_copy_arrays: "element_copy c x m = Inr m' \<Longrightarrow> same_arrays k m \<Longrightarrow> same_arrays k m'"
  by (cases x) (auto simp: element_copy_def copy_element_def rbind_eq_Inr_iff same_arrays_def layered.store_valid)

lemma rfold_element_copy_arrays: "rfold (element_copy c) xs m = Inr m' \<Longrightarrow> same_arrays k m \<Longrightarrow> same_arrays k m'"
  by (induction xs arbitrary: m) (auto simp: rbind_eq_Inr_iff dest: element_copy_arrays)

lemma block_offset_bounds:
  assumes ok: "copy_ok c cache nblocks" and "b \<in> set (ca_src_blocks c) \<union> set (ca_dst_blocks c)"
    and "0 \<le> e" "e < ca_numel_per_block c" "l < length cache"
  shows "in_arrays cache (l, b * ca_numel_per_block c + e)"
proof -
  have "0 \<le> b" "b < nblocks" using assms by (auto simp: copy_ok_def)
  moreover have "int (length (cache ! l)) = nblocks * ca_numel_per_block c" using ok assms(5) by (simp add: copy_ok_def)
  ultimately show ?thesis
    using digit_bounds [of b nblocks e "ca_numel_per_block c"] assms by (simp add: in_arrays_def in_array_def)
qed

lemma source_apart:
  assumes ok: "copy_ok c cache nblocks" and "s \<in> set (ca_src_blocks c)" "d \<in> set (ca_dst_blocks c)"
    and "0 \<le> e" "e < ca_numel_per_block c" "0 \<le> e'" "e' < ca_numel_per_block c"
  shows "s * ca_numel_per_block c + e \<noteq> d * ca_numel_per_block c + e'"
  using assms digit_inject [of e "ca_numel_per_block c" e' s d] by (auto simp: copy_ok_def)

lemma vector_element_bounds:
  assumes "n mod w = 0" "0 < w" "0 \<le> i" "i < n div w" "0 \<le> k" "k < w"
  shows "0 \<le> i * w + k" and "i * w + k < (n :: int)"
proof -
  have "n div w * w = n" using assms(1) div_mult_mod_eq [of n w] by simp
  then show "0 \<le> i * w + k" "i * w + k < n" using digit_bounds [OF assms(3,4,5,6)] by simp_all
qed

lemma block_copy_part_elements:
  assumes ok: "copy_ok c cache nblocks" and w: "\<And>w. vectorized = Some w \<Longrightarrow> 0 < w \<and> ca_numel_per_block c mod w = 0"
    and t: "0 \<le> l" "l < int (length cache)" "0 \<le> d" "d < int (length (ca_dst_blocks c))" "0 \<le> i"
    and m: "same_arrays cache m"
  shows "block_copy_part vectorized c (l, d, i) m = rfold (element_copy c) (thread_elements vectorized c (l, d, i)) m"
proof (cases vectorized)
  case None
  then show ?thesis
    using copy_offsets_ok [OF ok t(3,4)]
    by (simp add: block_copy_part_def thread_elements_def element_copy_def copy_element_def rbind_def split: sum.splits)
next
  case (Some v)
  let ?n = "ca_numel_per_block c"
  let ?s = "source_of c d * ?n + i * v" and ?d = "ca_dst_blocks c ! nat d * ?n + i * v"
  have v: "0 < v" "?n mod v = 0" using w Some by auto
  have n: "0 < ?n" using ok by (simp add: copy_ok_def)
  have dst: "ca_dst_blocks c ! nat d \<in> set (ca_dst_blocks c)" using t by simp
  note src = copy_offsets_ok(2) [OF ok t(3,4)]
  have div: "?n sdiv v = ?n div v" using n v by (simp add: sdiv_nonneg)
  show ?thesis
  proof (cases "?n div v \<le> i")
    case True
    then show ?thesis
      using copy_offsets_ok [OF ok t(3,4)] Some div by (simp add: block_copy_part_def thread_elements_def)
  next
    case False
    then have i: "i < ?n div v" by simp
    have "copy_vector v (nat l) ?s ?d m = rfold (\<lambda>k. copy_element (nat l) (?s + k) (?d + k)) [0..v - 1] m"
    proof (rule copy_vector_elements)
      show "\<forall>k \<in> {0..<v}. \<forall>k' \<in> {0..<v}. ?s + k \<noteq> ?d + k'"
        using source_apart [OF ok src dst] vector_element_bounds [OF v(2,1) t(5) i] by (fastforce simp: add.assoc)
      show "\<forall>k \<in> {0..<v}. in_arrays m (nat l, ?s + k)"
      proof
        fix k assume "k \<in> {0..<v}"
        then have "in_arrays cache (nat l, source_of c d * ?n + (i * v + k))"
          using vector_element_bounds [OF v(2,1) t(5) i, of k] src t by (intro block_offset_bounds [OF ok]) auto
        then show "in_arrays m (nat l, ?s + k)" using m by (simp add: same_arrays_def add.assoc)
      qed
    qed
    also have "\<dots> = rfold (element_copy c) (map (\<lambda>k. (l, d, i * v + k)) [0..v - 1]) m"
      by (simp add: rfold_map element_copy_def add.assoc)
    finally show ?thesis
      using copy_offsets_ok [OF ok t(3,4)] Some div False by (simp add: block_copy_part_def thread_elements_def)
  qed
qed

lemma element_copies_result:
  assumes ok: "copy_ok c cache nblocks"
    and xs: "set xs = {0..<int (length cache)} \<times> {0..<int (length (ca_dst_blocks c))} \<times> {0..<ca_numel_per_block c}"
  shows "\<exists>m. rfold (element_copy c) xs cache = Inr m \<and>
    (\<forall>l d e. 0 \<le> l \<and> l < int (length cache) \<and> 0 \<le> d \<and> d < int (length (ca_dst_blocks c)) \<and> 0 \<le> e \<and> e < ca_numel_per_block c \<longrightarrow>
       m ! nat l ! nat (ca_dst_blocks c ! nat d * ca_numel_per_block c + e) =
       cache ! nat l ! nat (source_of c d * ca_numel_per_block c + e)) \<and>
    (\<forall>l b e. 0 \<le> l \<and> l < int (length cache) \<and> 0 \<le> b \<and> b < nblocks \<and> b \<notin> set (ca_dst_blocks c) \<and> 0 \<le> e \<and> e < ca_numel_per_block c \<longrightarrow>
       m ! nat l ! nat (b * ca_numel_per_block c + e) = cache ! nat l ! nat (b * ca_numel_per_block c + e))"
proof -
  let ?n = "ca_numel_per_block c"
  let ?dst = "\<lambda>d. ca_dst_blocks c ! nat d"
  define addr where "addr x = (let (l, d, e) = x in (nat l, ?dst d * ?n + e))" for x :: "int \<times> int \<times> int"
  define v where "v x = (let (l, d, e) = x in cache ! nat l ! nat (source_of c d * ?n + e))" for x :: "int \<times> int \<times> int"
  define R where "R = {(l, s * ?n + e) | l s e. s \<in> set (ca_src_blocks c) \<and> 0 \<le> e \<and> e < ?n \<and> l < length cache}"
  have dst: "?dst d \<in> set (ca_dst_blocks c)" if "0 \<le> d" "d < int (length (ca_dst_blocks c))" for d using that by simp
  have step: "element_copy c x m' = (if True then arrays_store m' (addr x) (v x) else Inr m')"
    if x: "x \<in> set xs" and same: "\<forall>a \<in> R. arrays_load m' a = arrays_load cache a" for x m'
  proof -
    obtain l d e where t: "x = (l, d, e)" "0 \<le> l" "l < int (length cache)" "0 \<le> d" "d < int (length (ca_dst_blocks c))" "0 \<le> e" "e < ?n"
      using x xs by auto
    have "(nat l, source_of c d * ?n + e) \<in> R"
    proof -
      have "nat l < length cache" using t by simp
      then show ?thesis unfolding R_def using copy_offsets_ok(2) [OF ok t(4,5)] t(6,7) by blast
    qed
    then have "arrays_load m' (nat l, source_of c d * ?n + e) = arrays_load cache (nat l, source_of c d * ?n + e)" using same by blast
    also have "in_arrays cache (nat l, source_of c d * ?n + e)"
      using copy_offsets_ok(2) [OF ok t(4,5)] t by (intro block_offset_bounds [OF ok]) auto
    then have "arrays_load cache (nat l, source_of c d * ?n + e) = Inr (v x)"
      by (simp add: in_arrays_def arrays_load_def array_load_def v_def t)
    finally show ?thesis by (simp add: element_copy_def copy_element_def addr_def t)
  qed
  have valid: "\<forall>x \<in> set xs. True \<longrightarrow> in_arrays cache (addr x)"
    using xs block_offset_bounds [OF ok] dst by (auto simp: addr_def)
  have apart: "\<forall>x \<in> set xs. True \<longrightarrow> addr x \<notin> R"
  proof (intro ballI impI notI)
    fix x assume "x \<in> set xs" "addr x \<in> R"
    then obtain l d e l' s e' where "0 \<le> d" "d < int (length (ca_dst_blocks c))" "0 \<le> e" "e < ?n"
      "(nat l, ?dst d * ?n + e) = (l', s * ?n + e')" "s \<in> set (ca_src_blocks c)" "0 \<le> e'" "e' < ?n"
      using xs by (auto simp: addr_def R_def)
    then show False using source_apart [OF ok, of s "?dst d" e' e] dst by simp
  qed
  obtain m where m: "rfold (element_copy c) xs cache = Inr m" "\<forall>b. in_arrays m b = in_arrays cache b"
    and other: "\<forall>b. (\<forall>x \<in> set xs. True \<longrightarrow> addr x \<noteq> b) \<longrightarrow> arrays_load m b = arrays_load cache b"
    and stored: "\<forall>x \<in> set xs. True \<longrightarrow> (\<forall>y \<in> set xs. True \<longrightarrow> addr y = addr x \<longrightarrow> v y = v x) \<longrightarrow> arrays_load m (addr x) = Inr (v x)"
    using layered.stores_from [where f = "element_copy c" and ok = "\<lambda>_. True", OF step valid apart] by blast
  have read: "arrays_load m (l, i) = Inr (m ! l ! nat i)" if "in_arrays cache (l, i)" for l i
    using that m(2) [rule_format, of "(l, i)"] by (simp add: in_arrays_def arrays_load_def array_load_def)
  have "m ! nat l ! nat (?dst d * ?n + e) = cache ! nat l ! nat (source_of c d * ?n + e)"
    if t: "0 \<le> l" "l < int (length cache)" "0 \<le> d" "d < int (length (ca_dst_blocks c))" "0 \<le> e" "e < ?n" for l d e
  proof -
    let ?x = "(l, d, e)"
    have x: "?x \<in> set xs" using t xs by simp
    have "y = ?x" if y: "y \<in> set xs" "addr y = addr ?x" for y
    proof -
      obtain l' d' e' where t': "y = (l', d', e')" "0 \<le> l'" "0 \<le> d'" "d' < int (length (ca_dst_blocks c))" "0 \<le> e'" "e' < ?n"
        using y(1) xs by auto
      then have "nat l' = nat l" "?dst d' = ?dst d" "e' = e"
        using y(2) t digit_inject [of e' ?n e "?dst d'" "?dst d"] by (simp_all add: addr_def)
      moreover have "l' = l" using calculation(1) t' t by simp
      moreover have "distinct (ca_dst_blocks c)" using ok by (simp add: copy_ok_def)
      ultimately show ?thesis using t t' by (simp add: nth_eq_iff_index_eq)
    qed
    then have "arrays_load m (addr ?x) = Inr (v ?x)" using stored x by blast
    moreover have "in_arrays cache (addr ?x)" using valid x by blast
    ultimately show ?thesis using read by (simp add: addr_def v_def)
  qed
  moreover have "m ! nat l ! nat (b * ?n + e) = cache ! nat l ! nat (b * ?n + e)"
    if t: "0 \<le> l" "l < int (length cache)" "0 \<le> b" "b < nblocks" "b \<notin> set (ca_dst_blocks c)" "0 \<le> e" "e < ?n" for l b e
  proof -
    have "addr x \<noteq> (nat l, b * ?n + e)" if x: "x \<in> set xs" for x
    proof -
      obtain l' d' e' where "x = (l', d', e')" "0 \<le> d'" "d' < int (length (ca_dst_blocks c))" "0 \<le> e'" "e' < ?n"
        using x xs by auto
      then show ?thesis using t dst digit_inject [of e' ?n e "?dst d'" b] by (auto simp: addr_def)
    qed
    then have "arrays_load m (nat l, b * ?n + e) = arrays_load cache (nat l, b * ?n + e)" using other by blast
    moreover have "in_arrays cache (nat l, b * ?n + e)"
      using digit_bounds [of b nblocks e ?n] t ok by (simp add: copy_ok_def in_arrays_def in_array_def)
    ultimately show ?thesis using read by (simp add: in_arrays_def arrays_load_def array_load_def)
  qed
  ultimately show ?thesis using m(1) by blast
qed

text \<open>The launches cover every element of every destination block once.\<close>

lemma copy_threads_set:
  "0 \<le> tiles \<Longrightarrow> set (copy_threads layers n tiles) = {0..<layers} \<times> {0..<n} \<times> {0..<tiles * kThreadsPerBlock}"
proof -
  have ivl: "{0..k - 1} = {0..<k}" for k :: int by auto
  show ?thesis by (auto simp: copy_threads_def thread_ids_upto kThreadsPerBlock_def ivl image_iff)
qed

lemma copy_tiles_cover:
  assumes "0 < numel" "\<And>w. vectorized = Some w \<Longrightarrow> 0 < w"
  shows "0 \<le> copy_tiles vectorized numel"
    and "(case vectorized of Some w \<Rightarrow> numel div w | None \<Rightarrow> numel) \<le> copy_tiles vectorized numel * kThreadsPerBlock"
proof -
  define k where "k = (case vectorized of Some w \<Rightarrow> numel div w | None \<Rightarrow> numel)"
  have k: "0 \<le> k" using assms by (auto simp: k_def pos_imp_zdiv_nonneg_iff split: option.splits)
  have "copy_tiles vectorized numel = (k + 255) div 256"
    using assms k by (auto simp: copy_tiles_def ceil_div_def kThreadsPerBlock_def k_def c_arith split: option.splits)
  then show "0 \<le> copy_tiles vectorized numel" "(case vectorized of Some w \<Rightarrow> numel div w | None \<Rightarrow> numel) \<le> copy_tiles vectorized numel * kThreadsPerBlock"
    using k unfolding k_def [symmetric] kThreadsPerBlock_def by linarith+
qed

lemma thread_elements_set:
  assumes "0 < ca_numel_per_block c" "\<And>w. vectorized = Some w \<Longrightarrow> 0 < w \<and> ca_numel_per_block c mod w = 0"
    and "(case vectorized of Some w \<Rightarrow> ca_numel_per_block c div w | None \<Rightarrow> ca_numel_per_block c) \<le> m"
  shows "(\<Union>i \<in> {0..<m}. set (thread_elements vectorized c (l, d, i))) = {l} \<times> {d} \<times> {0..<ca_numel_per_block c}"
proof (cases vectorized)
  case None
  then have "set (thread_elements vectorized c (l, d, i)) = (if ca_numel_per_block c \<le> i then {} else {(l, d, i)})" for i
    by (simp add: thread_elements_def)
  moreover have "ca_numel_per_block c \<le> m" using assms(3) None by simp
  ultimately show ?thesis by (auto split: if_splits)
next
  case (Some w)
  let ?n = "ca_numel_per_block c"
  have w: "0 < w" "?n mod w = 0" using assms(2) Some by auto
  have n: "?n div w * w = ?n" using w(2) div_mult_mod_eq [of ?n w] by simp
  have "\<exists>i \<in> {0..<m}. (l, d, e) \<in> set (thread_elements vectorized c (l, d, i))" if e: "0 \<le> e" "e < ?n" for e
  proof (intro bexI [of _ "e div w"])
    have "e div w * w \<le> e" using pos_mod_sign [OF w(1), of e] div_mult_mod_eq [of e w] by linarith
    then have "e div w * w < ?n div w * w" using e n by linarith
    then have lt: "e div w < ?n div w" using mult_less_cancel_right_pos [OF w(1)] by blast
    moreover have "0 \<le> e div w" using e w by (simp add: pos_imp_zdiv_nonneg_iff)
    ultimately show "e div w \<in> {0..<m}" using assms(3) Some by simp
    have "(l, d, e) = (\<lambda>k. (l, d, e div w * w + k)) (e mod w)" by simp
    moreover have "e mod w \<in> set [0..w - 1]" using w by simp
    ultimately have "(l, d, e) \<in> (\<lambda>k. (l, d, e div w * w + k)) ` set [0..w - 1]" by (rule image_eqI)
    then show "(l, d, e) \<in> set (thread_elements vectorized c (l, d, e div w))"
      using lt Some by (simp add: thread_elements_def)
  qed
  moreover have "x \<in> {l} \<times> {d} \<times> {0..<?n}" if "i \<in> {0..<m}" "x \<in> set (thread_elements vectorized c (l, d, i))" for i x
    using that Some vector_element_bounds [OF w(2,1)] by (auto simp: thread_elements_def split: if_splits)
  ultimately show ?thesis by fastforce
qed

lemma block_copy_part_result:
  assumes ok: "copy_ok c cache nblocks" and w: "\<And>w. vectorized = Some w \<Longrightarrow> 0 < w \<and> ca_numel_per_block c mod w = 0"
    and xs: "mset xs = mset (copy_threads (int (length cache)) (int (length (ca_dst_blocks c)))
      (copy_tiles vectorized (ca_numel_per_block c)))"
  shows "\<exists>m. rfold (block_copy_part vectorized c) xs cache = Inr m \<and>
    (\<forall>l d e. 0 \<le> l \<and> l < int (length cache) \<and> 0 \<le> d \<and> d < int (length (ca_dst_blocks c)) \<and> 0 \<le> e \<and> e < ca_numel_per_block c \<longrightarrow>
       m ! nat l ! nat (ca_dst_blocks c ! nat d * ca_numel_per_block c + e) =
       cache ! nat l ! nat (source_of c d * ca_numel_per_block c + e)) \<and>
    (\<forall>l b e. 0 \<le> l \<and> l < int (length cache) \<and> 0 \<le> b \<and> b < nblocks \<and> b \<notin> set (ca_dst_blocks c) \<and> 0 \<le> e \<and> e < ca_numel_per_block c \<longrightarrow>
       m ! nat l ! nat (b * ca_numel_per_block c + e) = cache ! nat l ! nat (b * ca_numel_per_block c + e))"
proof -
  let ?n = "ca_numel_per_block c"
  let ?tiles = "copy_tiles vectorized ?n"
  have n: "0 < ?n" using ok by (simp add: copy_ok_def)
  have tiles: "0 \<le> ?tiles" "(case vectorized of Some w \<Rightarrow> ?n div w | None \<Rightarrow> ?n) \<le> ?tiles * kThreadsPerBlock"
    using copy_tiles_cover [OF n] w by blast+
  have set: "set xs = {0..<int (length cache)} \<times> {0..<int (length (ca_dst_blocks c))} \<times> {0..<?tiles * kThreadsPerBlock}"
    using mset_eq_setD [OF xs] copy_threads_set [OF tiles(1)] by simp
  have "rfold (block_copy_part vectorized c) xs cache = rfold (\<lambda>t. rfold (element_copy c) (thread_elements vectorized c t)) xs cache"
  proof (rule rfold_cong_from [where I = "same_arrays cache"])
    show "same_arrays cache cache" by (simp add: same_arrays_def)
    show "block_copy_part vectorized c t m = rfold (element_copy c) (thread_elements vectorized c t) m"
      if t: "t \<in> set xs" and "same_arrays cache m" for t m
    proof -
      obtain l d i where "t = (l, d, i)" "0 \<le> l" "l < int (length cache)" "0 \<le> d" "d < int (length (ca_dst_blocks c))" "0 \<le> i"
        using t set by auto
      then show ?thesis using block_copy_part_elements [OF ok w] \<open>same_arrays cache m\<close> by blast
    qed
  qed (rule rfold_element_copy_arrays)
  also have "\<dots> = rfold (element_copy c) (concat (map (thread_elements vectorized c) xs)) cache"
    by (simp add: rfold_concat rfold_map)
  finally have run: "rfold (block_copy_part vectorized c) xs cache = rfold (element_copy c) (concat (map (thread_elements vectorized c) xs)) cache" .
  have "set (concat (map (thread_elements vectorized c) xs)) =
      (\<Union>l \<in> {0..<int (length cache)}. \<Union>d \<in> {0..<int (length (ca_dst_blocks c))}.
         \<Union>i \<in> {0..<?tiles * kThreadsPerBlock}. set (thread_elements vectorized c (l, d, i)))"
    by (auto simp: set)
  also have "\<dots> = (\<Union>l \<in> {0..<int (length cache)}. \<Union>d \<in> {0..<int (length (ca_dst_blocks c))}. {l} \<times> {d} \<times> {0..<?n})"
    by (intro SUP_cong refl thread_elements_set [OF n w tiles(2)])
  also have "\<dots> = {0..<int (length cache)} \<times> {0..<int (length (ca_dst_blocks c))} \<times> {0..<?n}" by auto
  finally show ?thesis unfolding run by (rule element_copies_result [OF ok])
qed

definition copy_schedule :: "int \<times> int \<times> int \<Rightarrow> (int \<times> int \<times> int) list \<Rightarrow> bool" where
  "copy_schedule grid xs \<longleftrightarrow>
     (let (x, y, z) = grid in interleave (map (\<lambda>t. [t]) (copy_threads x y z)) xs)"

lemma copy_tiles_pos: "0 < numel \<Longrightarrow> 0 < copy_tiles (copy_width t numel) numel"
proof -
  assume n: "0 < numel"
  let ?v = "copy_width t numel"
  have "0 < numel div w" if "?v = Some w" for w
    using that n pos_imp_zdiv_pos_iff [of w numel] zdvd_imp_le [of w numel]
    by (auto simp: copy_width_def vec_width_def c_arith mod_eq_0_iff_dvd split: if_splits)
  then have "0 < (case ?v of Some w \<Rightarrow> numel div w | None \<Rightarrow> numel)"
    using n by (auto split: option.split)
  also have "\<dots> \<le> copy_tiles ?v numel * kThreadsPerBlock"
    using n by (intro copy_tiles_cover) (auto simp: copy_width_def vec_width_def split: if_splits)
  finally show ?thesis by (simp add: kThreadsPerBlock_def)
qed

text \<open>A one-dimensional tensor as long as its data, whose length fits into 32 bits.\<close>

definition vector_of_data :: "int buffer \<Rightarrow> bool" where
  "vector_of_data t \<longleftrightarrow> bf_sizes t = [int (length (bf_data t))] \<and> length (bf_data t) < 2 ^ 31"

definition layer_pointers :: "int buffer \<Rightarrow> 'v list list \<Rightarrow> bool" where
  "layer_pointers t caches \<longleftrightarrow> bf_sizes t = [int (length caches)] \<and> length caches < 2 ^ 31"

lemma copy_grid_sizes:
  assumes "layer_pointers key_ptrs keys" "vector_of_data dst" "0 < numel" "numel < 2 ^ 31"
  shows "copy_grid key_ptrs dst numel t =
    (int (length keys), int (length (bf_data dst)), copy_tiles (copy_width t numel) numel)"
proof -
  let ?n = "case copy_width t numel of Some width \<Rightarrow> numel sdiv width | None \<Rightarrow> numel"
  have "0 \<le> ?n \<and> ?n \<le> numel"
    using assms(3) zdiv_mono2 [of numel 1] by (auto simp: copy_width_def vec_width_def c_arith pos_imp_zdiv_nonneg_iff)
  then have "0 \<le> copy_tiles (copy_width t numel) numel" "copy_tiles (copy_width t numel) numel \<le> ?n + 255"
    using zdiv_mono2 [of "?n + 255" 1 256]
    by (simp_all add: copy_tiles_def ceil_div_def kThreadsPerBlock_def c_arith pos_imp_zdiv_nonneg_iff)
  then have "uint32 (copy_tiles (copy_width t numel) numel) = copy_tiles (copy_width t numel) numel"
    using \<open>0 \<le> ?n \<and> ?n \<le> numel\<close> assms(4) by (simp add: uint32_def take_bit_int_eq_self)
  then show ?thesis
    using assms(1,2) by (simp add: copy_grid_def layer_pointers_def vector_of_data_def uint32_def int32_id take_bit_int_eq_self)
qed

text \<open>
  C9: In all layers, for the vectorised and the scalar kernel and for every interleaving of the
  threads, each destination block becomes a copy of the block its group names, and the blocks that
  are no destination keep their contents. The destinations have to be distinct and none of them
  may also be a source: the host checks neither. Where the grid is empty (no layers, or no
  destinations although there are sources) or too large, the launch check throws.
\<close>

theorem block_copy_duplicates:
  assumes checks: "block_copy_checks key_ptrs value_ptrs src dst cum numel cache_dtype = Inr ()" and some: "bf_numel src \<noteq> 0"
    and ptrs: "layer_pointers key_ptrs keys" "layer_pointers value_ptrs vals"
    and data: "vector_of_data src" "vector_of_data dst" and numel: "numel < 2 ^ 31"
    and c: "c = copy_args_of src dst cum numel" and ok: "copy_ok c keys nblocks" "copy_ok c vals nblocks"
    and tiles: "tiles = copy_tiles (copy_width cache_dtype numel) numel"
    and xs: "copy_schedule (copy_grid key_ptrs dst numel cache_dtype) xs"
  shows "if keys \<noteq> [] \<and> bf_data dst \<noteq> [] \<and> length (bf_data dst) \<le> 65535 \<and> tiles \<le> 65535
    then \<exists>keys' vals'. block_copy xs keys vals key_ptrs value_ptrs src dst cum numel cache_dtype = Inr (keys', vals') \<and>
    (\<forall>l d e. 0 \<le> l \<and> l < int (length keys) \<and> 0 \<le> d \<and> d < int (length (bf_data dst)) \<and> 0 \<le> e \<and> e < numel \<longrightarrow>
       keys' ! nat l ! nat (bf_data dst ! nat d * numel + e) = keys ! nat l ! nat (source_of c d * numel + e) \<and>
       vals' ! nat l ! nat (bf_data dst ! nat d * numel + e) = vals ! nat l ! nat (source_of c d * numel + e)) \<and>
    (\<forall>l b e. 0 \<le> l \<and> l < int (length keys) \<and> 0 \<le> b \<and> b < nblocks \<and> b \<notin> set (bf_data dst) \<and> 0 \<le> e \<and> e < numel \<longrightarrow>
       keys' ! nat l ! nat (b * numel + e) = keys ! nat l ! nat (b * numel + e) \<and>
       vals' ! nat l ! nat (b * numel + e) = vals ! nat l ! nat (b * numel + e))
    else block_copy xs keys vals key_ptrs value_ptrs src dst cum numel cache_dtype
      = Inl (Exn ''CUDA error: invalid configuration argument'')"
proof -
  let ?v = "copy_width cache_dtype numel" and ?grid = "copy_grid key_ptrs dst numel cache_dtype"
  have args: "ca_numel_per_block c = numel" "ca_dst_blocks c = bf_data dst" by (simp_all add: c copy_args_of_def)
  have n: "0 < numel" using ok(1) by (simp add: copy_ok_def args)
  have grid: "?grid = (int (length keys), int (length (bf_data dst)), tiles)"
    unfolding tiles by (rule copy_grid_sizes [OF ptrs(1) data(2) n numel])
  have pos: "0 < tiles" unfolding tiles using n by (rule copy_tiles_pos)
  have launch: "copy_launch_check ?grid = (if keys \<noteq> [] \<and> bf_data dst \<noteq> [] \<and> length (bf_data dst) \<le> 65535 \<and> tiles \<le> 65535
      then Inr () else Inl (Exn ''CUDA error: invalid configuration argument''))"
    using ptrs(1) pos by (auto simp: grid copy_launch_check_def torch_checks_def torch_check_def layer_pointers_def)
  have layers: "length vals = length keys"
    using checks ptrs by (simp add: block_copy_checks_def result_simps layer_pointers_def)
  have w: "0 < w \<and> ca_numel_per_block c mod w = 0" if "?v = Some w" for w
    using that n by (auto simp: copy_width_def vec_width_def c_arith args split: if_splits)
  have ms: "mset xs = mset (copy_threads (int (length keys)) (int (length (ca_dst_blocks c))) (copy_tiles ?v (ca_numel_per_block c)))"
    using interleave_mset xs by (fastforce simp: copy_schedule_def grid args tiles)
  note k = block_copy_part_result [OF ok(1) w ms] and u = block_copy_part_result [OF ok(2) w ms [folded layers]]
  obtain keys' where keys': "rfold (block_copy_part ?v c) xs keys = Inr keys'" using k by blast
  obtain vals' where vals': "rfold (block_copy_part ?v c) xs vals = Inr vals'" using u by blast
  have "rfold (block_copy_step ?v c) xs (keys, vals) = Inr (keys', vals')"
    by (rule rfold_pair [OF _ keys' vals']) (simp add: block_copy_step_def)
  then have "block_copy xs keys vals key_ptrs value_ptrs src dst cum numel cache_dtype =
      rbind (copy_launch_check ?grid) (\<lambda>_. Inr (keys', vals'))"
    using some checks by (simp add: block_copy_def c rbind_def split: sum.split)
  then show ?thesis using k u keys' vals' layers launch by (simp add: args)
qed

theorem block_copy_duplicates_witness:
  "\<exists>xs keys'. block_copy xs [[1, 2, 3, 4, 5, 6]] [[1, 2, 3, 4, 5, 6]]
     (sample_table\<lparr>bf_type := kInt64, bf_sizes := [1]\<rparr>) (sample_table\<lparr>bf_type := kInt64, bf_sizes := [1]\<rparr>)
     (sample_table\<lparr>bf_sizes := [1], bf_data := [0]\<rparr>) (sample_table\<lparr>bf_data := [2, 1]\<rparr>)
     (sample_table\<lparr>bf_sizes := [1], bf_data := [2]\<rparr>) 2 kFloat16 = Inr (keys', keys') \<and>
   keys' ! 0 ! 5 = (2 :: nat) \<and> keys' ! 0 ! 2 = 1"
proof -
  let ?ptrs = "sample_table\<lparr>bf_type := kInt64, bf_sizes := [1]\<rparr>"
  let ?src = "sample_table\<lparr>bf_sizes := [1], bf_data := [0]\<rparr>" and ?dst = "sample_table\<lparr>bf_data := [2, 1]\<rparr>"
    and ?cum = "sample_table\<lparr>bf_sizes := [1], bf_data := [2]\<rparr>"
  define c where "c = copy_args_of ?src ?dst ?cum 2"
  let ?cache = "[[1, 2, 3, 4, 5, 6]] :: nat list list"
  have w: "copy_width kFloat16 2 = None" by (simp add: copy_width_def vec_width_def)
  have grid: "copy_grid ?ptrs ?dst 2 kFloat16 = (1, 2, 1)" by code_simp
  let ?xs = "concat (map (\<lambda>t. [t]) (copy_threads 1 2 1))"
  have xs: "copy_schedule (copy_grid ?ptrs ?dst 2 kFloat16) ?xs"
    unfolding copy_schedule_def grid Let_def prod.case by (rule interleave_concat)
  have ptrs: "layer_pointers ?ptrs ?cache" and data: "vector_of_data ?src" "vector_of_data ?dst"
    by (simp_all add: layer_pointers_def vector_of_data_def sample_table_def)
  have ok: "copy_ok c ?cache 3" by (simp add: copy_ok_def c_def copy_args_of_def int32_id)
  have tiles: "1 = copy_tiles (copy_width kFloat16 2) 2" by code_simp
  have small: "(2 :: int) < 2 ^ 31" by simp
  have fits: "(?cache \<noteq> [] \<and> bf_data ?dst \<noteq> [] \<and> length (bf_data ?dst) \<le> 65535 \<and> (1 :: int) \<le> 65535) = True"
    by simp
  have checks: "block_copy_checks ?ptrs ?ptrs ?src ?dst ?cum 2 kFloat16 = Inr ()"
    by (simp add: block_copy_checks_def torch_checks_Cons torch_checks_Nil sample_table_def bf_dim_def)
  have some: "bf_numel ?src \<noteq> 0" by (simp add: bf_numel_def)
  obtain keys' vals' where run: "block_copy ?xs ?cache ?cache ?ptrs ?ptrs ?src ?dst ?cum 2 kFloat16 = Inr (keys', vals')"
    and at_d: "\<forall>l d e. 0 \<le> l \<and> l < int (length ?cache) \<and> 0 \<le> d \<and> d < int (length (bf_data ?dst)) \<and> 0 \<le> e \<and> e < 2 \<longrightarrow>
       keys' ! nat l ! nat (bf_data ?dst ! nat d * 2 + e) = ?cache ! nat l ! nat (source_of c d * 2 + e) \<and>
       vals' ! nat l ! nat (bf_data ?dst ! nat d * 2 + e) = ?cache ! nat l ! nat (source_of c d * 2 + e)"
    using block_copy_duplicates [OF checks some ptrs ptrs data small c_def ok ok tiles xs, unfolded fits if_True]
    by (elim exE conjE) (rule that, assumption+)
  have "source_of c d = 0" for d by (simp add: source_of_def c_def copy_args_of_def)
  then have "keys' ! 0 ! 5 = 2" "keys' ! 0 ! 2 = 1"
    using at_d [rule_format, of 0 0 1] at_d [rule_format, of 0 1 0] by simp_all
  moreover have "keys' = vals'"
  proof -
    have "rfold (block_copy_step v c) ys (m, m) = Inr (a, b) \<Longrightarrow> a = b" for v ys m a b
      by (induction ys arbitrary: m) (auto simp: block_copy_step_def rbind_eq_Inr_iff)
    then show ?thesis using run some checks by (auto simp: block_copy_def rbind_eq_Inr_iff c_def)
  qed
  ultimately show ?thesis using run by blast
qed

text \<open>
  Without the hypothesis on the sources the result depends on the interleaving: a block that is
  the destination of one copy and the source of another is read before or after it is written.
\<close>

lemma block_copy_race:
  defines "c \<equiv> \<lparr>ca_src_blocks = [0, 1], ca_dst_blocks = [1, 2], ca_cum_sum = [1, 2], ca_num_groups = 2, ca_numel_per_block = 1\<rparr>"
  shows "rfold (block_copy_part None c) [(0, 0, 0), (0, 1, 0)] [[5, 6, 7 :: nat]] = Inr [[5, 5, 5]]"
    and "rfold (block_copy_part None c) [(0, 1, 0), (0, 0, 0)] [[5, 6, 7 :: nat]] = Inr [[5, 5, 6]]"
proof -
  have "find_group_idx [1, 2] 2 0 = Inr 0" "find_group_idx [1, 2] 2 1 = Inr 1"
    using find_group_idx_first [of "[1, 2]" 0] find_group_idx_first [of "[1, 2]" 1] by simp_all
  then have "copy_offsets c 0 = Inr (0, 1)" "copy_offsets c 1 = Inr (1, 2)"
    by (simp_all add: c_def copy_offsets_def array_load_def in_array_def)
  then show "rfold (block_copy_part None c) [(0, 0, 0), (0, 1, 0)] [[5, 6, 7 :: nat]] = Inr [[5, 5, 5]]"
    and "rfold (block_copy_part None c) [(0, 1, 0), (0, 0, 0)] [[5, 6, 7 :: nat]] = Inr [[5, 5, 6]]"
    by (simp_all add: block_copy_part_def copy_element_def arrays_load_def arrays_store_def array_load_def
        array_store_def in_array_def) (simp_all add: c_def)
qed

end
