(* ===== verification/Moe_Batched.thy ===== *)
theory Moe_Batched
  imports Moe_Align Kv_Paging
begin

text \<open>
  The two remaining kernels of \<^verbatim>\<open>ex_engine/csrc/moe/moe_align_sum_kernels.cu\<close> that are not about
  adapters: the block-aligned order of tokens that come in one batch per expert, and the sum of
  the outputs of the experts of a token.
\<close>

section \<open>The kernel for batches\<close>

text \<open>
  The arrays are \<^verbatim>\<open>sorted_ids\<close>, \<^verbatim>\<open>block_ids\<close> and \<^verbatim>\<open>num_tokens_post_pad\<close>, by their number; a step stores a
  value. The loops compare the indices as \<^verbatim>\<open>size_t\<close>.
\<close>

type_synonym store_step = "(nat \<times> int) \<times> int"

record batched_args =
  ba_num_batches :: int
  ba_max_tokens :: int
  ba_block_size :: int
  ba_num_tokens :: "int list"

definition kBatchedThreads :: int where "kBatchedThreads = 1024"

definition size_t :: "int \<Rightarrow> int" where "size_t x = take_bit 64 x"

definition batched_sizes :: "batched_args \<Rightarrow> int \<times> int \<times> int" where
  "batched_sizes g =
     (let num_blocks_per_batch = CEILDIV (ba_max_tokens g) (ba_block_size g);
          sorted_ids_size = int32 (num_blocks_per_batch * ba_num_batches g * ba_block_size g) in
      (sorted_ids_size, sorted_ids_size sdiv ba_block_size g, int32 (ba_num_batches g * ba_max_tokens g)))"

definition batched_fill :: "batched_args \<Rightarrow> int \<Rightarrow> store_step list" where
  "batched_fill g tid =
     (let (sorted_ids_size, block_ids_size, SENTINEL) = batched_sizes g in
      map (\<lambda>i. ((0, i), SENTINEL)) (stride_loop tid kBatchedThreads (size_t sorted_ids_size)) @
      map (\<lambda>i. ((1, i), -1)) (stride_loop tid kBatchedThreads (size_t block_ids_size)))"

definition batch_tokens :: "batched_args \<Rightarrow> int \<Rightarrow> int result" where
  "batch_tokens g batch_id =
     (if batch_id < size_t (ba_num_batches g) then array_load (ba_num_tokens g) batch_id else Inr 0)"

definition ceil_tokens :: "batched_args \<Rightarrow> int \<Rightarrow> int" where
  "ceil_tokens g n = int32 (CEILDIV n (ba_block_size g) * ba_block_size g)"

definition batched_write :: "batched_args \<Rightarrow> int \<Rightarrow> int \<Rightarrow> int \<Rightarrow> store_step list" where
  "batched_write g cumsum_val b_num_tokens batch_id =
     (let ceil_b_num_tokens = ceil_tokens g b_num_tokens;
          batch_offset = int32 (batch_id * ba_max_tokens g);
          block_start = cumsum_val sdiv ba_block_size g;
          num_blocks = ceil_b_num_tokens sdiv ba_block_size g in
      (if batch_id = size_t (ba_num_batches g - 1) then [((2, 0), int32 (cumsum_val + ceil_b_num_tokens))] else []) @
      (if batch_id < size_t (ba_num_batches g) then
         map (\<lambda>i. ((0, cumsum_val + i), int32 (batch_offset + i))) [0..size_t b_num_tokens - 1] @
         map (\<lambda>i. ((1, block_start + i), int32 batch_id)) [0..size_t num_blocks - 1]
       else []))"

text \<open>The scan of the block separates the two phases.\<close>

type_synonym store_scheduler = "nat \<Rightarrow> store_step list list \<Rightarrow> store_step list"

definition fair_stores :: "store_scheduler \<Rightarrow> bool" where
  "fair_stores sched \<longleftrightarrow> (\<forall>n ps. interleave ps (sched n ps))"

definition run_stores :: "store_step list \<Rightarrow> int list list \<Rightarrow> int list list result" where
  "run_stores xs mem = rfold (\<lambda>(a, v) m. arrays_store m a v) xs mem"

definition batched_kernel :: "store_scheduler \<Rightarrow> batched_args \<Rightarrow> int list list \<Rightarrow> int list list result" where
  "batched_kernel sched g mem =
     rbind (run_stores (sched 0 (map (batched_fill g) [0..kBatchedThreads - 1])) mem) (\<lambda>mem.
     rbind (rmap (batch_tokens g) [0..kBatchedThreads - 1]) (\<lambda>nums.
     let starts = exclusive_sum 0 (map (ceil_tokens g) nums) in
     run_stores (sched 1 (map (\<lambda>tid. batched_write g (starts ! nat tid) (nums ! nat tid) tid) [0..kBatchedThreads - 1])) mem))"

definition round_to_next_multiple_of :: "int \<Rightarrow> int \<Rightarrow> int" where
  "round_to_next_multiple_of a b = (if a smod b = 0 then a else (a sdiv b + 1) * b)"

definition batched_moe_align_block_size ::
  "store_scheduler \<Rightarrow> int \<Rightarrow> int \<Rightarrow> int buffer \<Rightarrow> int buffer \<Rightarrow> int buffer \<Rightarrow> int buffer \<Rightarrow>
   (int buffer \<times> int buffer \<times> int buffer) result" where
  "batched_moe_align_block_size sched max_tokens_per_batch block_size batch_num_tokens sorted_ids batch_ids
     num_tokens_post_pad =
     rbind (bf_size batch_num_tokens 0) (\<lambda>n. let B = int32 n in
     if block_size = 0 then Inl (Undefined ''division by zero'')
     else
      (let num_blocks_per_batch = int32 (round_to_next_multiple_of max_tokens_per_batch block_size sdiv block_size);
          num_blocks = int32 (num_blocks_per_batch * B);
          sorted_ids_size = num_blocks * block_size in
      rbind (bf_size sorted_ids 0) (\<lambda>s.
      rbind (torch_checks [(s = sorted_ids_size, ''sorted_ids'')]) (\<lambda>_.
      rbind (bf_size batch_ids 0) (\<lambda>b.
      rbind (torch_checks [(b = sorted_ids_size sdiv block_size, ''batch_ids'')]) (\<lambda>_.
      rbind (bf_size num_tokens_post_pad 0) (\<lambda>p.
      rbind (torch_checks [(p = 1, ''num_tokens_post_pad''), (B \<le> kBatchedThreads, ''batches'')]) (\<lambda>_.
      rbind (batched_kernel sched \<lparr>ba_num_batches = B, ba_max_tokens = int32 max_tokens_per_batch,
        ba_block_size = int32 block_size, ba_num_tokens = bf_data batch_num_tokens\<rparr>
        [bf_data sorted_ids, bf_data batch_ids, bf_data num_tokens_post_pad]) (\<lambda>mem.
      Inr (sorted_ids\<lparr>bf_data := mem ! 0\<rparr>, batch_ids\<lparr>bf_data := mem ! 1\<rparr>, num_tokens_post_pad\<lparr>bf_data := mem ! 2\<rparr>))))))))))"

section \<open>The order of the tokens\<close>

text \<open>
  Batch \<open>i\<close> starts after the padded batches before it; its tokens are numbered from \<open>i\<close> times the
  largest number of tokens, and the padding has the number after all of them.
\<close>

definition batch_len :: "batched_args \<Rightarrow> int \<Rightarrow> int" where
  "batch_len g i = ba_num_tokens g ! nat i"

definition batch_ceil :: "batched_args \<Rightarrow> int \<Rightarrow> int" where
  "batch_ceil g i = CEILDIV (batch_len g i) (ba_block_size g) * ba_block_size g"

definition batch_start :: "batched_args \<Rightarrow> int \<Rightarrow> int" where
  "batch_start g i = (\<Sum>j \<in> {0..<i}. batch_ceil g j)"

definition batched_order :: "batched_args \<Rightarrow> int list \<Rightarrow> int list \<Rightarrow> bool" where
  "batched_order g s b \<longleftrightarrow>
     (\<forall>i k. 0 \<le> i \<and> i < ba_num_batches g \<and> 0 \<le> k \<and> k < batch_ceil g i \<longrightarrow> s ! nat (batch_start g i + k) =
        (if k < batch_len g i then i * ba_max_tokens g + k else ba_num_batches g * ba_max_tokens g)) \<and>
     (\<forall>a. batch_start g (ba_num_batches g) \<le> a \<and> a < int (length s) \<longrightarrow> s ! nat a = ba_num_batches g * ba_max_tokens g) \<and>
     (\<forall>i a. 0 \<le> i \<and> i < ba_num_batches g \<and> batch_start g i \<le> a * ba_block_size g \<and>
        a * ba_block_size g < batch_start g (i + 1) \<longrightarrow> b ! nat a = i) \<and>
     (\<forall>a. batch_start g (ba_num_batches g) \<le> a * ba_block_size g \<and> a < int (length b) \<longrightarrow> b ! nat a = -1)"

definition batched_ok :: "batched_args \<Rightarrow> bool" where
  "batched_ok g \<longleftrightarrow> 0 < ba_block_size g \<and> 0 \<le> ba_max_tokens g \<and> 0 < ba_num_batches g \<and> ba_num_batches g \<le> 1024 \<and>
     int (length (ba_num_tokens g)) = ba_num_batches g \<and> (\<forall>n \<in> set (ba_num_tokens g). 0 \<le> n \<and> n \<le> ba_max_tokens g) \<and>
     CEILDIV (ba_max_tokens g) (ba_block_size g) * ba_num_batches g * ba_block_size g < 2 ^ 31"

text \<open>Stores that agree where they meet, in any order.\<close>

lemma run_stores_any:
  assumes "\<forall>(a, v) \<in> set xs. in_arrays mem a" and "\<forall>(a, v) \<in> set xs. \<forall>(b, w) \<in> set xs. a = b \<longrightarrow> v = w"
  shows "\<exists>mem'. run_stores xs mem = Inr mem' \<and> length mem' = length mem \<and> (\<forall>a. in_arrays mem' a = in_arrays mem a) \<and>
    (\<forall>(a, v) \<in> set xs. arrays_load mem' a = Inr v) \<and>
    (\<forall>a. a \<notin> fst ` set xs \<longrightarrow> arrays_load mem' a = arrays_load mem a)"
proof -
  let ?f = "\<lambda>(a, v) m. arrays_store m a v"
  have valid: "\<forall>x \<in> set xs. True \<longrightarrow> in_arrays mem (fst x)" using assms(1) by (simp add: split_def)
  have step: "?f x m = (if True then arrays_store m (fst x) (snd x) else Inr m)" for x and m :: "int list list" by (simp add: split_def)
  obtain mem' where run: "rfold ?f xs mem = Inr mem'"
    and rest: "\<forall>a. in_arrays mem' a = in_arrays mem a"
      "\<forall>b. (\<forall>x \<in> set xs. True \<longrightarrow> fst x \<noteq> b) \<longrightarrow> arrays_load mem' b = arrays_load mem b"
      "\<forall>x \<in> set xs. True \<longrightarrow> (\<forall>y \<in> set xs. True \<longrightarrow> fst y = fst x \<longrightarrow> snd y = snd x) \<longrightarrow> arrays_load mem' (fst x) = Inr (snd x)"
    using layered.stores [of xs ?f, OF step valid] by (elim exE conjE) (rule that)
  have store: "length m' = length m" if "arrays_store m a v = Inr m'" for m m' :: "int list list" and a v
    using that by (auto simp: arrays_store_def rbind_eq_Inr_iff split: if_splits)
  have "length mem' = length mem"
    using rfold_invariant [OF run, of "\<lambda>m. length m = length mem"] store by (metis (mono_tags, lifting) case_prod_beta')
  moreover have "\<forall>x \<in> set xs. \<forall>y \<in> set xs. fst y = fst x \<longrightarrow> snd y = snd x" using assms(2) unfolding split_def by metis
  then have "\<forall>x \<in> set xs. arrays_load mem' (fst x) = Inr (snd x)" using rest(3) by blast
  moreover have "arrays_load mem' a = arrays_load mem a" if "a \<notin> fst ` set xs" for a
    using spec [OF rest(2), of a] that by (auto simp: image_iff)
  ultimately show ?thesis using run rest(1) by (intro exI [of _ mem']) (simp add: run_stores_def split_def)
qed

lemma stride_programs_set: "0 < n \<Longrightarrow> (\<Union>t \<in> {0..<n}. set (stride_loop t n limit)) = {0..<limit}"
  using arg_cong [OF stride_programs_mset [of n limit], of set_mset] atLeastLessThanPlusOne_atLeastAtMost_int [of 0 "n - 1"]
    atLeastLessThanPlusOne_atLeastAtMost_int [of 0 "limit - 1"] by simp

lemma batch_ceil_bounds:
  assumes "batched_ok g" and "0 \<le> i" "i < ba_num_batches g"
  shows "0 \<le> batch_len g i" "batch_len g i \<le> batch_ceil g i"
    and "batch_ceil g i \<le> CEILDIV (ba_max_tokens g) (ba_block_size g) * ba_block_size g" and "ba_block_size g dvd batch_ceil g i"
    and "ceil_tokens g (batch_len g i) = batch_ceil g i"
proof -
  have B: "0 < ba_block_size g" "0 \<le> ba_max_tokens g" using assms(1) by (simp_all add: batched_ok_def)
  have "batch_len g i \<in> set (ba_num_tokens g)" using assms by (simp add: batch_len_def batched_ok_def nat_less_iff)
  then have n: "0 \<le> batch_len g i" "batch_len g i \<le> ba_max_tokens g" using assms(1) by (auto simp: batched_ok_def)
  have c: "CEILDIV m (ba_block_size g) = (m + ba_block_size g - 1) div ba_block_size g" if "0 \<le> m" for m
    using that B by (simp add: CEILDIV_def sdiv_nonneg)
  show "0 \<le> batch_len g i" by (rule n(1))
  show "batch_len g i \<le> batch_ceil g i" using round_up_ge [OF B(1) n(1)] by (simp add: batch_ceil_def c n)
  have "CEILDIV (batch_len g i) (ba_block_size g) \<le> CEILDIV (ba_max_tokens g) (ba_block_size g)"
    using n B by (simp add: c zdiv_mono1)
  then show le: "batch_ceil g i \<le> CEILDIV (ba_max_tokens g) (ba_block_size g) * ba_block_size g"
    unfolding batch_ceil_def using B(1) by (intro mult_right_mono) simp_all
  show "ba_block_size g dvd batch_ceil g i" by (simp add: batch_ceil_def)
  have "0 \<le> CEILDIV (ba_max_tokens g) (ba_block_size g) * ba_block_size g" using le n round_up_ge(2) [OF B(1) n(1)] by (simp add: batch_ceil_def c)
  moreover have "1 \<le> ba_num_batches g" using assms(1) by (simp add: batched_ok_def)
  ultimately have "CEILDIV (ba_max_tokens g) (ba_block_size g) * ba_block_size g * 1 \<le>
      CEILDIV (ba_max_tokens g) (ba_block_size g) * ba_block_size g * ba_num_batches g" by (intro mult_left_mono) simp_all
  moreover have "CEILDIV (ba_max_tokens g) (ba_block_size g) * ba_block_size g * ba_num_batches g < 2 ^ 31"
    using assms(1) by (simp add: batched_ok_def mult_ac)
  ultimately have "batch_ceil g i < 2 ^ 31" using le by linarith
  moreover have nonneg: "0 \<le> batch_ceil g i" using round_up_ge(2) [OF B(1) n(1)] by (simp add: batch_ceil_def c n)
  ultimately show "ceil_tokens g (batch_len g i) = batch_ceil g i" by (simp add: ceil_tokens_def batch_ceil_def int32_id)
qed

lemma batch_start_facts:
  assumes "batched_ok g"
  shows "0 \<le> i \<Longrightarrow> i < ba_num_batches g \<Longrightarrow> batch_start g (i + 1) = batch_start g i + batch_ceil g i"
    and "0 \<le> i \<Longrightarrow> i \<le> j \<Longrightarrow> j \<le> ba_num_batches g \<Longrightarrow> batch_start g i \<le> batch_start g j"
    and "batch_start g 0 = 0" and "i \<le> ba_num_batches g \<Longrightarrow> ba_block_size g dvd batch_start g i"
    and "0 \<le> i \<Longrightarrow> i \<le> ba_num_batches g \<Longrightarrow>
      batch_start g i \<le> i * (CEILDIV (ba_max_tokens g) (ba_block_size g) * ba_block_size g)"
proof -
  note c = batch_ceil_bounds [OF assms]
  have nonneg: "0 \<le> batch_ceil g j" if "0 \<le> j" "j < ba_num_batches g" for j using c(1,2) [OF that] by linarith
  show "batch_start g (i + 1) = batch_start g i + batch_ceil g i" if "0 \<le> i" "i < ba_num_batches g"
  proof -
    have "{0..<i + 1} = insert i {0..<i}" using that by auto
    then show ?thesis by (simp add: batch_start_def)
  qed
  show "batch_start g i \<le> batch_start g j" if "0 \<le> i" "i \<le> j" "j \<le> ba_num_batches g"
    unfolding batch_start_def by (rule sum_mono2) (use that nonneg in auto)
  show "batch_start g 0 = 0" by (simp add: batch_start_def)
  show "ba_block_size g dvd batch_start g i" if "i \<le> ba_num_batches g"
    unfolding batch_start_def by (rule dvd_sum) (use that c(4) in auto)
  have "(\<Sum>j \<in> {0..<i}. batch_ceil g j) \<le> (\<Sum>j \<in> {0..<i}. CEILDIV (ba_max_tokens g) (ba_block_size g) * ba_block_size g)"
    if "i \<le> ba_num_batches g" by (rule sum_mono) (use that c(3) in auto)
  then show "batch_start g i \<le> i * (CEILDIV (ba_max_tokens g) (ba_block_size g) * ba_block_size g)"
    if "0 \<le> i" "i \<le> ba_num_batches g" using that by (simp add: batch_start_def)
qed

text \<open>An element lies in one batch.\<close>

lemma batch_unique:
  assumes "batched_ok g" and "0 \<le> i" "i < ba_num_batches g" "0 \<le> j" "j < ba_num_batches g"
    and "batch_start g i \<le> a" "a < batch_start g (i + 1)" "batch_start g j \<le> a" "a < batch_start g (j + 1)"
  shows "i = j"
proof -
  have "\<not> i < j" using batch_start_facts(2) [OF assms(1), of "i + 1" j] assms by auto
  moreover have "\<not> j < i" using batch_start_facts(2) [OF assms(1), of "j + 1" i] assms by auto
  ultimately show ?thesis by simp
qed
section \<open>The two phases\<close>

lemma size_t_id: "0 \<le> x \<Longrightarrow> x < 2 ^ 31 \<Longrightarrow> size_t x = x"
  by (simp add: size_t_def take_bit_int_eq_self)

lemma batched_sizes_eq:
  assumes "batched_ok g"
  defines "c \<equiv> CEILDIV (ba_max_tokens g) (ba_block_size g) * ba_num_batches g"
  shows "batched_sizes g = (c * ba_block_size g, c, ba_num_batches g * ba_max_tokens g)"
    and "0 \<le> c" "c \<le> c * ba_block_size g" "c * ba_block_size g < 2 ^ 31"
    and "ba_num_batches g * ba_max_tokens g \<le> c * ba_block_size g"
    and "batch_start g (ba_num_batches g) \<le> c * ba_block_size g"
proof -
  have B: "0 < ba_block_size g" "0 \<le> ba_max_tokens g" "0 < ba_num_batches g" using assms(1) by (simp_all add: batched_ok_def)
  have C: "CEILDIV (ba_max_tokens g) (ba_block_size g) = (ba_max_tokens g + ba_block_size g - 1) div ba_block_size g"
    using B by (simp add: CEILDIV_def sdiv_nonneg)
  then have nonneg: "0 \<le> CEILDIV (ba_max_tokens g) (ba_block_size g)" using B by (simp add: pos_imp_zdiv_nonneg_iff)
  show c: "0 \<le> c" using nonneg B by (simp add: c_def)
  have "c * 1 \<le> c * ba_block_size g" by (rule mult_left_mono) (use c B in simp_all)
  then show "c \<le> c * ba_block_size g" by simp
  show size: "c * ba_block_size g < 2 ^ 31" using assms(1) by (simp add: batched_ok_def c_def)
  have "ba_num_batches g * ba_max_tokens g \<le> ba_num_batches g * (CEILDIV (ba_max_tokens g) (ba_block_size g) * ba_block_size g)"
    by (rule mult_left_mono) (use round_up_ge(1) [OF B(1,2)] B C in simp_all)
  also have "\<dots> = c * ba_block_size g" by (simp add: c_def)
  finally show tokens: "ba_num_batches g * ba_max_tokens g \<le> c * ba_block_size g" .
  have "0 \<le> ba_num_batches g * ba_max_tokens g" using B by simp
  then have "int32 (ba_num_batches g * ba_max_tokens g) = ba_num_batches g * ba_max_tokens g" using tokens size by (intro int32_id) simp_all
  moreover have "int32 (c * ba_block_size g) = c * ba_block_size g" proof (rule int32_id)
    have "0 \<le> c * ba_block_size g" using c B by simp
    then show "- (2 ^ 31) \<le> c * ba_block_size g" by (rule order_trans [rotated]) simp
  qed (rule size)
  moreover have "c * ba_block_size g sdiv ba_block_size g = c" using c B by (simp add: sdiv_nonneg)
  ultimately show "batched_sizes g = (c * ba_block_size g, c, ba_num_batches g * ba_max_tokens g)"
    by (simp add: batched_sizes_def Let_def c_def)
  show "batch_start g (ba_num_batches g) \<le> c * ba_block_size g"
  proof -
    have "c * ba_block_size g = ba_num_batches g * (CEILDIV (ba_max_tokens g) (ba_block_size g) * ba_block_size g)" by (simp add: c_def)
    then show ?thesis using batch_start_facts(5) [OF assms(1), of "ba_num_batches g"] B(3) by linarith
  qed
qed

lemma fill_steps:
  assumes "batched_ok g" and "fair_stores sched"
  defines "c \<equiv> CEILDIV (ba_max_tokens g) (ba_block_size g) * ba_num_batches g"
  shows "set (sched 0 (map (batched_fill g) [0..kBatchedThreads - 1])) =
    (\<lambda>i. ((0, i), ba_num_batches g * ba_max_tokens g)) ` {0..<c * ba_block_size g} \<union> (\<lambda>i. ((1, i), -1)) ` {0..<c}"
proof -
  note s = batched_sizes_eq [OF assms(1), folded c_def]
  have n: "size_t (c * ba_block_size g) = c * ba_block_size g" "size_t c = c" using s(2-4) by (simp_all add: size_t_id)
  have K: "0 < kBatchedThreads" by (simp add: kBatchedThreads_def)
  have "{0..kBatchedThreads - 1} = {0..<kBatchedThreads}" by auto
  then have "set (sched 0 (map (batched_fill g) [0..kBatchedThreads - 1])) =
      (\<Union>t \<in> {0..<kBatchedThreads}. (\<lambda>i. ((0, i), ba_num_batches g * ba_max_tokens g)) ` set (stride_loop t kBatchedThreads (c * ba_block_size g)) \<union>
        (\<lambda>i. ((1, i), -1)) ` set (stride_loop t kBatchedThreads c))"
    using interleave_set [of "map (batched_fill g) [0..kBatchedThreads - 1]" "sched 0 (map (batched_fill g) [0..kBatchedThreads - 1])"] assms(2)
    by (simp add: fair_stores_def batched_fill_def s(1) n)
  then show ?thesis by (simp only: UN_Un_distrib image_UN [symmetric] stride_programs_set [OF K])
qed

lemma batch_sums:
  assumes ok: "batched_ok g"
  shows "rmap (batch_tokens g) [0..kBatchedThreads - 1] =
      Inr (map (\<lambda>i. if i < ba_num_batches g then batch_len g i else 0) [0..kBatchedThreads - 1])"
    and "0 \<le> i \<Longrightarrow> i < ba_num_batches g \<Longrightarrow> exclusive_sum 0 (map (ceil_tokens g)
      (map (\<lambda>i. if i < ba_num_batches g then batch_len g i else 0) [0..kBatchedThreads - 1])) ! nat i = batch_start g i"
proof -
  have B: "0 < ba_num_batches g" "ba_num_batches g \<le> kBatchedThreads" "int (length (ba_num_tokens g)) = ba_num_batches g"
    using ok by (simp_all add: batched_ok_def kBatchedThreads_def)
  have u: "size_t (ba_num_batches g) = ba_num_batches g" using B by (intro size_t_id) (simp_all add: kBatchedThreads_def)
  show "rmap (batch_tokens g) [0..kBatchedThreads - 1] =
      Inr (map (\<lambda>i. if i < ba_num_batches g then batch_len g i else 0) [0..kBatchedThreads - 1])"
    using B by (simp add: rmap_eq_Inr_iff batch_tokens_def u array_load_def in_array_def batch_len_def nth_upto)
  assume i: "0 \<le> i" "i < ba_num_batches g"
  let ?v = "\<lambda>i. ceil_tokens g (if i < ba_num_batches g then batch_len g i else 0)"
  let ?vals = "map ?v [0..kBatchedThreads - 1]"
  have zero: "ceil_tokens g 0 = 0" using ok by (simp add: ceil_tokens_def CEILDIV_def batched_ok_def sdiv_nonneg int32_def)
  have v: "?v j = (if j < ba_num_batches g then batch_ceil g j else 0)" if "0 \<le> j" for j
    using batch_ceil_bounds(5) [OF ok that] zero by auto
  have "set ?vals \<subseteq> {x. 0 \<le> x}" using v batch_ceil_bounds(1,2) [OF ok] by (fastforce intro: order_trans)
  then have nonneg: "\<forall>x \<in> set ?vals. 0 \<le> x" by blast
  have sum_to: "sum_list (take (nat t) ?vals) = (\<Sum>j \<in> {0..<t}. ?v j)" if "0 \<le> t" "t \<le> kBatchedThreads" for t
  proof -
    have "take (nat t) [0..kBatchedThreads - 1] = [0..t - 1]" using that by (simp add: upto_upt take_map min_def)
    then show ?thesis by (simp add: take_map sum_list_distinct_conv_sum_set) (rule sum.cong; auto)
  qed
  have start: "(\<Sum>j \<in> {0..<t}. ?v j) = batch_start g t" if "t \<le> ba_num_batches g" for t
    unfolding batch_start_def by (rule sum.cong) (use that batch_ceil_bounds(5) [OF ok] in auto)
  have "sum_list ?vals = (\<Sum>j \<in> {0..<kBatchedThreads}. ?v j)"
    using sum_to [of kBatchedThreads] by (simp add: kBatchedThreads_def)
  also have "\<dots> = (\<Sum>j \<in> {0..<ba_num_batches g}. ?v j)"
    by (rule sum.mono_neutral_right) (use B zero in auto)
  also have "\<dots> = batch_start g (ba_num_batches g)" using start by simp
  finally have "0 + sum_list ?vals < 2 ^ 31" using batched_sizes_eq(4,6) [OF ok] by linarith
  then have "exclusive_sum 0 ?vals ! nat i = 0 + sum_list (take (nat i) ?vals)"
    by (intro exclusive_sum_nth nonneg) (use i B in \<open>simp_all add: nat_less_iff\<close>)
  then show "exclusive_sum 0 (map (ceil_tokens g)
      (map (\<lambda>i. if i < ba_num_batches g then batch_len g i else 0) [0..kBatchedThreads - 1])) ! nat i = batch_start g i"
    using sum_to [of i] start [of i] i B by (simp add: comp_def)
qed

lemma int32_nonneg: "0 \<le> x \<Longrightarrow> x < 2 ^ 31 \<Longrightarrow> int32 x = x"
  by (simp add: int32_id)

lemma block_in_batch:
  assumes ok: "batched_ok g" and i: "0 \<le> i" "i < ba_num_batches g"
  shows "batch_start g i \<le> a * ba_block_size g \<and> a * ba_block_size g < batch_start g (i + 1) \<longleftrightarrow>
    (\<exists>k. a = batch_start g i div ba_block_size g + k \<and> 0 \<le> k \<and> k < batch_ceil g i div ba_block_size g)"
proof -
  have B: "0 < ba_block_size g" using ok by (simp add: batched_ok_def)
  obtain p q where p: "batch_start g i = p * ba_block_size g" and q: "batch_ceil g i = q * ba_block_size g"
    using batch_start_facts(4) [OF ok, of i] batch_ceil_bounds(4) [OF ok i] i by (fastforce simp: mult.commute elim!: dvdE)
  have "batch_start g (i + 1) = (p + q) * ba_block_size g" using batch_start_facts(1) [OF ok i] by (simp add: p q distrib_right)
  then have "batch_start g i \<le> a * ba_block_size g \<and> a * ba_block_size g < batch_start g (i + 1) \<longleftrightarrow> p \<le> a \<and> a < p + q"
    using B by (simp add: p)
  also have "\<dots> \<longleftrightarrow> (\<exists>k. a = p + k \<and> 0 \<le> k \<and> k < q)" by (metis add.commute add_le_cancel_left add_less_cancel_left diff_add_cancel le_iff_diff_le_0 diff_ge_0_iff_ge)
  finally show ?thesis using B by (simp add: p q)
qed

definition batch_steps :: "batched_args \<Rightarrow> int \<Rightarrow> store_step set" where
  "batch_steps g i = (\<lambda>k. ((0, batch_start g i + k), i * ba_max_tokens g + k)) ` {0..<batch_len g i} \<union>
     (\<lambda>k. ((1, batch_start g i div ba_block_size g + k), i)) ` {0..<batch_ceil g i div ba_block_size g}"

lemma batched_write_eq:
  assumes ok: "batched_ok g" and i: "0 \<le> i" "i < ba_num_batches g"
  shows "set (batched_write g (batch_start g i) (batch_len g i) i) =
    (if i = ba_num_batches g - 1 then {((2, 0), batch_start g (ba_num_batches g))} else {}) \<union> batch_steps g i"
proof -
  note c = batch_ceil_bounds [OF ok i] and s = batched_sizes_eq [OF ok]
  have B: "0 < ba_block_size g" "0 \<le> ba_max_tokens g" "ba_num_batches g \<le> 1024" using ok by (simp_all add: batched_ok_def)
  have start: "0 \<le> batch_start g i" "batch_start g (i + 1) \<le> batch_start g (ba_num_batches g)"
    using batch_start_facts(2) [OF ok, of 0 i] batch_start_facts(2) [OF ok, of "i + 1" "ba_num_batches g"] batch_start_facts(3) [OF ok] i
    by simp_all
  then have limit: "batch_start g i + batch_ceil g i < 2 ^ 31" using batch_start_facts(1) [OF ok i] s(4,6) by linarith
  have total: "int32 (batch_start g i + batch_ceil g i) = batch_start g (i + 1)"
    using batch_start_facts(1) [OF ok i] limit start(1) c(1,2) by (simp add: int32_id)
  have len: "batch_len g i \<le> ba_max_tokens g"
  proof -
    have "batch_len g i \<in> set (ba_num_tokens g)" using ok i by (simp add: batch_len_def batched_ok_def nat_less_iff)
    then show ?thesis using ok by (auto simp: batched_ok_def)
  qed
  have offset: "0 \<le> i * ba_max_tokens g" "i * ba_max_tokens g + ba_max_tokens g < 2 ^ 31"
  proof -
    have "(i + 1) * ba_max_tokens g \<le> ba_num_batches g * ba_max_tokens g" using i B by (intro mult_right_mono) simp_all
    then show "i * ba_max_tokens g + ba_max_tokens g < 2 ^ 31" using s(4,5) by (simp add: algebra_simps)
  qed (use i B in simp)
  have small: "size_t i = i" "size_t (ba_num_batches g) = ba_num_batches g" "size_t (ba_num_batches g - 1) = ba_num_batches g - 1"
    "int32 i = i"
    using i B by (simp_all add: size_t_id int32_id)
  have first: "int32 (i * ba_max_tokens g) = i * ba_max_tokens g"
    by (rule int32_nonneg) (use offset B(2) in linarith)+
  have steps: "size_t (batch_len g i) = batch_len g i"
    "size_t (batch_ceil g i sdiv ba_block_size g) = batch_ceil g i div ba_block_size g"
    "batch_start g i sdiv ba_block_size g = batch_start g i div ba_block_size g"
  proof -
    have "batch_ceil g i div ba_block_size g * 1 \<le> batch_ceil g i div ba_block_size g * ba_block_size g"
      using c(1,2) B(1) by (intro mult_left_mono) (simp_all add: pos_imp_zdiv_nonneg_iff)
    then have "batch_ceil g i div ba_block_size g \<le> batch_ceil g i" using c(4) by simp
    then show "size_t (batch_ceil g i sdiv ba_block_size g) = batch_ceil g i div ba_block_size g"
      using c(1,2) B(1) limit start(1) by (simp add: sdiv_nonneg size_t_id pos_imp_zdiv_nonneg_iff)
    show "size_t (batch_len g i) = batch_len g i" using c(1,2) limit start(1) by (simp add: size_t_id)
    show "batch_start g i sdiv ba_block_size g = batch_start g i div ba_block_size g" using start(1) B(1) by (simp add: sdiv_nonneg)
  qed
  have ids: "int32 (i * ba_max_tokens g + k) = i * ba_max_tokens g + k" if "0 \<le> k" "k < batch_len g i" for k
    by (rule int32_nonneg) (use that len offset in linarith)+
  have ranges: "set [0..batch_len g i - 1] = {0..<batch_len g i}"
    "set [0..batch_ceil g i div ba_block_size g - 1] = {0..<batch_ceil g i div ba_block_size g}" by auto
  have "(\<lambda>k. ((0 :: nat, batch_start g i + k), int32 (i * ba_max_tokens g + k))) ` {0..<batch_len g i} =
      (\<lambda>k. ((0, batch_start g i + k), i * ba_max_tokens g + k)) ` {0..<batch_len g i}"
    by (rule image_cong) (simp_all add: ids)
  then show ?thesis
    using i unfolding batched_write_def Let_def c(5) total small first steps batch_steps_def
    by (simp add: ranges del: set_upto)
qed

lemma write_steps:
  assumes ok: "batched_ok g" and "fair_stores sched"
  defines "nums \<equiv> map (\<lambda>i. if i < ba_num_batches g then batch_len g i else 0) [0..kBatchedThreads - 1]"
  shows "set (sched 1 (map (\<lambda>tid. batched_write g (exclusive_sum 0 (map (ceil_tokens g) nums) ! nat tid) (nums ! nat tid) tid)
      [0..kBatchedThreads - 1])) =
    insert ((2, 0), batch_start g (ba_num_batches g)) (\<Union>i \<in> {0..<ba_num_batches g}. batch_steps g i)" (is "set (sched 1 ?ps) = _")
proof -
  have B: "0 < ba_num_batches g" "ba_num_batches g \<le> kBatchedThreads" using ok by (simp_all add: batched_ok_def kBatchedThreads_def)
  have u: "size_t (ba_num_batches g) = ba_num_batches g" "size_t (ba_num_batches g - 1) = ba_num_batches g - 1"
    using B by (simp_all add: size_t_id kBatchedThreads_def)
  have at: "nums ! nat i = (if i < ba_num_batches g then batch_len g i else 0)" if "0 \<le> i" "i < kBatchedThreads" for i
    unfolding nums_def by (rule nth_map_upto0 [OF that])
  have one: "set (batched_write g (exclusive_sum 0 (map (ceil_tokens g) nums) ! nat i) (nums ! nat i) i) =
      (if i < ba_num_batches g then
         (if i = ba_num_batches g - 1 then {((2, 0), batch_start g (ba_num_batches g))} else {}) \<union> batch_steps g i else {})"
    if "0 \<le> i" "i < kBatchedThreads" for i
    using batched_write_eq [OF ok that(1)] batch_sums(2) [OF ok that(1)] at [OF that]
    by (simp add: nums_def [symmetric]) (simp add: batched_write_def u)
  have "set (sched 1 ?ps) = (\<Union>i \<in> {0..<kBatchedThreads}.
      set (batched_write g (exclusive_sum 0 (map (ceil_tokens g) nums) ! nat i) (nums ! nat i) i))"
    using interleave_set [of ?ps "sched 1 ?ps"] assms(2) by (simp add: fair_stores_def atLeastLessThan_def atLeastAtMost_def) auto
  also have "\<dots> = insert ((2, 0), batch_start g (ba_num_batches g)) (\<Union>i \<in> {0..<ba_num_batches g}. batch_steps g i)"
  proof -
    have split: "{0..<kBatchedThreads} = {0..<ba_num_batches g} \<union> {ba_num_batches g..<kBatchedThreads}" using B by auto
    have final: "(\<Union>i \<in> {0..<ba_num_batches g}. if i = ba_num_batches g - 1 then {((2, 0), batch_start g (ba_num_batches g))} else {}) =
        {((2 :: nat, 0 :: int), batch_start g (ba_num_batches g))}" using B(1) by (auto split: if_splits)
    have "(\<Union>i \<in> {0..<ba_num_batches g}. set (batched_write g (exclusive_sum 0 (map (ceil_tokens g) nums) ! nat i) (nums ! nat i) i)) =
        (\<Union>i \<in> {0..<ba_num_batches g}. (if i = ba_num_batches g - 1 then {((2, 0), batch_start g (ba_num_batches g))} else {}) \<union> batch_steps g i)"
      by (rule SUP_cong) (use one B in auto)
    moreover have "(\<Union>i \<in> {ba_num_batches g..<kBatchedThreads}.
        set (batched_write g (exclusive_sum 0 (map (ceil_tokens g) nums) ! nat i) (nums ! nat i) i)) = {}" using one B by simp
    ultimately show ?thesis unfolding split UN_Un UN_Un_distrib final by simp
  qed
  finally show ?thesis .
qed

text \<open>No two of the stores meet.\<close>

lemma write_steps_apart:
  assumes ok: "batched_ok g" and i: "i \<in> {0..<ba_num_batches g}" "j \<in> {0..<ba_num_batches g}"
    and x: "(a, v) \<in> batch_steps g i" "(a, w) \<in> batch_steps g j"
  shows "v = w"
proof -
  have r: "0 \<le> i" "i < ba_num_batches g" "0 \<le> j" "j < ba_num_batches g" using i by simp_all
  show ?thesis
  proof (cases "fst a = 0")
    case True
    then obtain k l where k: "a = (0, batch_start g i + k)" "v = i * ba_max_tokens g + k" "0 \<le> k" "k < batch_len g i"
      and l: "a = (0, batch_start g j + l)" "w = j * ba_max_tokens g + l" "0 \<le> l" "l < batch_len g j"
      using x by (auto simp: batch_steps_def)
    have "i = j"
      by (rule batch_unique [OF ok r, of "snd a"])
        (use k l batch_start_facts(1) [OF ok r(1,2)] batch_start_facts(1) [OF ok r(3,4)]
          batch_ceil_bounds(2) [OF ok r(1,2)] batch_ceil_bounds(2) [OF ok r(3,4)] in \<open>simp_all add: less_le_trans\<close>)
    then show ?thesis using k l by simp
  next
    case False
    then obtain k l where "a = (Suc 0, batch_start g i div ba_block_size g + k)" "v = i" "0 \<le> k" "k < batch_ceil g i div ba_block_size g"
      "a = (Suc 0, batch_start g j div ba_block_size g + l)" "w = j" "0 \<le> l" "l < batch_ceil g j div ba_block_size g"
      using x by (auto simp: batch_steps_def) metis
    then have "batch_start g i \<le> snd a * ba_block_size g \<and> snd a * ba_block_size g < batch_start g (i + 1)"
      "batch_start g j \<le> snd a * ba_block_size g \<and> snd a * ba_block_size g < batch_start g (j + 1)"
      unfolding block_in_batch [OF ok r(1,2)] block_in_batch [OF ok r(3,4)] by (metis snd_conv)+
    then have "i = j" using batch_unique [OF ok r, of "snd a * ba_block_size g"] by blast
    then show ?thesis using \<open>v = i\<close> \<open>w = j\<close> by simp
  qed
qed

lemma batch_steps_range:
  assumes ok: "batched_ok g" and i: "0 \<le> i" "i < ba_num_batches g" and x: "(a, v) \<in> batch_steps g i"
  shows "fst a = 0 \<and> 0 \<le> snd a \<and> snd a < batch_start g (ba_num_batches g) \<or>
    fst a = 1 \<and> 0 \<le> snd a \<and> snd a * ba_block_size g < batch_start g (ba_num_batches g)"
proof -
  have B: "0 < ba_block_size g" using ok by (simp add: batched_ok_def)
  have s: "0 \<le> batch_start g i" "batch_start g (i + 1) \<le> batch_start g (ba_num_batches g)"
    using batch_start_facts(2) [OF ok, of 0 i] batch_start_facts(2) [OF ok, of "i + 1" "ba_num_batches g"] batch_start_facts(3) [OF ok] i
    by simp_all
  note f = batch_start_facts(1) [OF ok i] batch_ceil_bounds [OF ok i]
  from x consider k where "a = (0, batch_start g i + k)" "0 \<le> k" "k < batch_len g i"
    | k where "a = (1, batch_start g i div ba_block_size g + k)" "0 \<le> k" "k < batch_ceil g i div ba_block_size g"
    by (auto simp: batch_steps_def)
  then show ?thesis
  proof cases
    case 1
    then show ?thesis using s f by auto
  next
    case 2
    then have "snd a * ba_block_size g < batch_start g (i + 1)" using block_in_batch [OF ok i, of "snd a"] by auto
    moreover have "0 \<le> snd a" using 2 s(1) B by (simp add: pos_imp_zdiv_nonneg_iff)
    ultimately show ?thesis using 2(1) s(2) by auto
  qed
qed

section \<open>The aligned order of the batches\<close>

text \<open>Stores of the batches over the padding leave the order of the batches.\<close>

lemma batched_order_if:
  assumes ok: "batched_ok g"
  defines "c \<equiv> CEILDIV (ba_max_tokens g) (ba_block_size g) * ba_num_batches g"
  assumes len: "int (length s') = c * ba_block_size g" "int (length b') = c"
    and written: "\<And>a x i. (a, x) \<in> batch_steps g i \<Longrightarrow> 0 \<le> i \<Longrightarrow> i < ba_num_batches g \<Longrightarrow> arrays_load [s', b', p'] a = Inr x"
    and untouched: "\<And>q a. q < 2 \<Longrightarrow> \<forall>i x. 0 \<le> i \<and> i < ba_num_batches g \<longrightarrow> ((q, a), x) \<notin> batch_steps g i \<Longrightarrow> 0 \<le> a \<Longrightarrow>
      a < (if q = 0 then c * ba_block_size g else c) \<Longrightarrow>
      arrays_load [s', b', p'] (q, a) = Inr (if q = 0 then ba_num_batches g * ba_max_tokens g else -1)"
  shows "batched_order g s' b'"
proof -
  let ?B = "ba_num_batches g" and ?bs = "ba_block_size g"
  note sz = batched_sizes_eq [OF ok, folded c_def]
  have bs: "0 < ?bs" using ok by (simp add: batched_ok_def)
  have load: "arrays_load [s', b', p'] (0, a) = Inr x \<Longrightarrow> s' ! nat a = x"
    "arrays_load [s', b', p'] (1, a) = Inr x \<Longrightarrow> b' ! nat a = x" for a x
    by (auto simp: arrays_load_def array_load_def split: if_splits)
  show ?thesis
    unfolding batched_order_def
  proof (intro conjI allI impI)
    fix i k assume ik: "0 \<le> i \<and> i < ?B \<and> 0 \<le> k \<and> k < batch_ceil g i"
    then have i: "0 \<le> i" "i < ?B" by simp_all
    have here: "batch_start g i \<le> batch_start g i + k" "batch_start g i + k < batch_start g (i + 1)"
      using ik batch_start_facts(1) [OF ok i] by simp_all
    have pos: "0 \<le> batch_start g i + k" "batch_start g i + k < c * ?bs"
      using here batch_start_facts(2) [OF ok, of 0 i] batch_start_facts(3) [OF ok] batch_start_facts(2) [OF ok, of "i + 1" ?B] i sz(6) by linarith+
    show "s' ! nat (batch_start g i + k) = (if k < batch_len g i then i * ba_max_tokens g + k else ?B * ba_max_tokens g)"
    proof (cases "k < batch_len g i")
      case True
      then have "((0, batch_start g i + k), i * ba_max_tokens g + k) \<in> batch_steps g i" using ik by (auto simp: batch_steps_def)
      then show ?thesis using load(1) [OF written [OF _ i]] True by simp
    next
      case False
      have "((0, batch_start g i + k), x) \<notin> batch_steps g j" if j: "0 \<le> j \<and> j < ?B" for j x
      proof
        assume "((0, batch_start g i + k), x) \<in> batch_steps g j"
        then obtain l where l: "batch_start g i + k = batch_start g j + l" "0 \<le> l" "l < batch_len g j"
          by (auto simp: batch_steps_def)
        then have "batch_start g j \<le> batch_start g i + k" "batch_start g i + k < batch_start g (j + 1)"
          using batch_ceil_bounds(2) [OF ok, of j] batch_start_facts(1) [OF ok, of j] j by auto
        then have "i = j" using batch_unique [OF ok i, of j "batch_start g i + k"] j here by blast
        then show False using l False by simp
      qed
      then have "arrays_load [s', b', p'] (0, batch_start g i + k) = Inr (?B * ba_max_tokens g)"
        using untouched [of 0 "batch_start g i + k"] pos by simp
      then show ?thesis using load(1) False by simp
    qed
  next
    fix a assume a: "batch_start g ?B \<le> a \<and> a < int (length s')"
    have "0 \<le> batch_start g ?B" using batch_start_facts(2) [OF ok, of 0 ?B] batch_start_facts(3) [OF ok] ok by (simp add: batched_ok_def)
    then have r: "0 \<le> a" "a < c * ?bs" using a len by simp_all
    have "((0, a), x) \<notin> batch_steps g i" if "0 \<le> i \<and> i < ?B" for i x
      using batch_steps_range [OF ok, of i "(0, a)" x] a that by auto
    then show "s' ! nat a = ?B * ba_max_tokens g" using untouched [of 0 a] r load(1) by simp
  next
    fix i a assume a: "0 \<le> i \<and> i < ?B \<and> batch_start g i \<le> a * ?bs \<and> a * ?bs < batch_start g (i + 1)"
    then obtain k where "a = batch_start g i div ?bs + k" "0 \<le> k" "k < batch_ceil g i div ?bs"
      using block_in_batch [OF ok, of i a] by blast
    then have "((1, a), i) \<in> batch_steps g i" by (auto simp: batch_steps_def)
    then show "b' ! nat a = i" using load(2) written a by blast
  next
    fix a assume a: "batch_start g ?B \<le> a * ?bs \<and> a < int (length b')"
    have "0 \<le> batch_start g ?B" using batch_start_facts(2) [OF ok, of 0 ?B] batch_start_facts(3) [OF ok] ok by (simp add: batched_ok_def)
    then have "0 \<le> a * ?bs" using a by linarith
    then have r: "0 \<le> a" "a < c" using a len bs by (simp_all add: zero_le_mult_iff)
    have "((1, a), x) \<notin> batch_steps g i" if "0 \<le> i \<and> i < ?B" for i x
      using batch_steps_range [OF ok, of i "(1, a)" x] a that by auto
    then show "b' ! nat a = -1" using untouched [of 1 a] r load(2) by simp
  qed
qed

lemma batched_kernel_order:
  assumes fair: "fair_stores sched" and ok: "batched_ok g"
  defines "c \<equiv> CEILDIV (ba_max_tokens g) (ba_block_size g) * ba_num_batches g"
  assumes len: "int (length s) = c * ba_block_size g" "int (length b) = c" "length p = 1"
  shows "\<exists>s' b'. batched_kernel sched g [s, b, p] = Inr [s', b', [batch_start g (ba_num_batches g)]] \<and>
    length s' = length s \<and> length b' = length b \<and> batched_order g s' b'"
proof -
  let ?B = "ba_num_batches g" and ?bs = "ba_block_size g"
  let ?nums = "map (\<lambda>i. if i < ?B then batch_len g i else 0) [0..kBatchedThreads - 1]"
  let ?xs = "sched 0 (map (batched_fill g) [0..kBatchedThreads - 1])"
  let ?ys = "sched 1 (map (\<lambda>tid. batched_write g (exclusive_sum 0 (map (ceil_tokens g) ?nums) ! nat tid) (?nums ! nat tid) tid)
    [0..kBatchedThreads - 1])"
  note sz = batched_sizes_eq [OF ok, folded c_def]
  note xs = fill_steps [OF ok fair, folded c_def] and ys = write_steps [OF ok fair]
  have bs: "0 < ?bs" using ok by (simp add: batched_ok_def)
  have valid: "in_arrays [s, b, p] a \<longleftrightarrow> fst a = 0 \<and> 0 \<le> snd a \<and> snd a < c * ?bs \<or> fst a = 1 \<and> 0 \<le> snd a \<and> snd a < c \<or>
      fst a = 2 \<and> snd a = 0" for a
    using len by (cases a; cases "fst a") (auto simp: in_arrays_def in_array_def less_Suc_eq)
  have "\<forall>(a, v) \<in> set ?xs. in_arrays [s, b, p] a" "\<forall>(a, v) \<in> set ?xs. \<forall>(a', w) \<in> set ?xs. a = a' \<longrightarrow> v = w"
    unfolding xs valid by auto
  from run_stores_any [OF this] obtain m1 where m1: "run_stores ?xs [s, b, p] = Inr m1" "length m1 = 3"
      "\<forall>a. in_arrays m1 a = in_arrays [s, b, p] a" "\<forall>(a, v) \<in> set ?xs. arrays_load m1 a = Inr v"
    by auto
  have filled: "arrays_load m1 (0, a) = Inr (?B * ba_max_tokens g)" if "0 \<le> a" "a < c * ?bs" for a
    using bspec [OF m1(4) [unfolded xs], of "((0, a), ?B * ba_max_tokens g)"] that by auto
  have cleared: "arrays_load m1 (1, a) = Inr (-1)" if "0 \<le> a" "a < c" for a
    using bspec [OF m1(4) [unfolded xs], of "((1, a), -1)"] that by auto
  have range: "fst a = 0 \<and> 0 \<le> snd a \<and> snd a < batch_start g ?B \<or> fst a = 1 \<and> 0 \<le> snd a \<and> snd a * ?bs < batch_start g ?B"
    if "(a, v) \<in> batch_steps g i" "i \<in> {0..<?B}" for a v i using batch_steps_range [OF ok _ _ that(1)] that(2) by simp
  have blocks: "a < c" if "a * ?bs < batch_start g ?B" for a
  proof -
    have "a * ?bs < c * ?bs" using that sz(6) by linarith
    then show ?thesis using bs by simp
  qed
  have v: "\<forall>(a, v) \<in> set ?ys. in_arrays m1 a"
    unfolding ys m1(3) [rule_format] valid using range sz(6) by (fastforce dest: blocks)
  have w: "\<forall>(a, v) \<in> set ?ys. \<forall>(a', w) \<in> set ?ys. a = a' \<longrightarrow> v = w"
    unfolding ys using range write_steps_apart [OF ok] by fastforce
  obtain m2 where m2: "run_stores ?ys m1 = Inr m2" "length m2 = 3" "\<forall>a. in_arrays m2 a = in_arrays [s, b, p] a"
      "\<forall>(a, v) \<in> set ?ys. arrays_load m2 a = Inr v" "\<forall>a. a \<notin> fst ` set ?ys \<longrightarrow> arrays_load m2 a = arrays_load m1 a"
    using run_stores_any [OF v w] m1(2,3) by auto
  obtain s' b' p' where m2': "m2 = [s', b', p']" using m2(2) by (auto simp: length_Suc_conv numeral_eq_Suc)
  have cells: "in_array s' a = in_array s a" "in_array b' a = in_array b a" "in_array p' a = in_array p a" for a
    using spec [OF m2(3), of "(0, a)"] spec [OF m2(3), of "(1, a)"] spec [OF m2(3), of "(2, a)"]
    by (simp_all add: m2' in_arrays_def numeral_eq_Suc)
  then have lens: "length s' = length s" "length b' = length b" "length p' = length p" using in_array_length by blast+
  have load: "arrays_load m2 (2, a) = Inr x \<Longrightarrow> p' ! nat a = x" for a x
    by (auto simp: m2' arrays_load_def array_load_def numeral_eq_Suc split: if_splits)
  have total: "p' = [batch_start g ?B]"
  proof -
    have "arrays_load m2 (2, 0) = Inr (batch_start g ?B)"
      using bspec [OF m2(4) [unfolded ys], of "((2, 0), batch_start g ?B)"] by simp
    then have "p' ! 0 = batch_start g ?B" using load by fastforce
    then show ?thesis using lens(3) len(3) by (cases p') auto
  qed
  have written: "arrays_load m2 a = Inr x" if "(a, x) \<in> batch_steps g i" "0 \<le> i" "i < ?B" for a x i
  proof -
    have "(a, x) \<in> set ?ys" unfolding ys using that by (intro insertI2 UN_I [of i]) simp_all
    then show ?thesis using m2(4) by blast
  qed
  have untouched: "arrays_load m2 (q, a) = arrays_load m1 (q, a)"
    if "q < 2" "\<forall>i x. 0 \<le> i \<and> i < ?B \<longrightarrow> ((q, a), x) \<notin> batch_steps g i" for q a
  proof -
    have "(q, a) \<notin> fst ` set ?ys" unfolding ys using that by auto
    then show ?thesis using m2(5) by blast
  qed
  have "batched_order g s' b'"
    by (rule batched_order_if [OF ok, of s' b' p', folded c_def m2'])
      (use lens len written untouched filled cleared in \<open>auto simp: less_Suc_eq numeral_2_eq_2\<close>)
  moreover have "batched_kernel sched g [s, b, p] = Inr [s', b', [batch_start g ?B]]"
    using m1(1) m2(1) by (simp add: batched_kernel_def batch_sums(1) [OF ok] m2' total Let_def)
  ultimately show ?thesis using lens by blast
qed


lemma next_multiple_blocks:
  assumes "0 < b" and "0 \<le> a"
  shows "round_to_next_multiple_of a b sdiv b = CEILDIV a b"
proof -
  have "(a + b - 1) div b = (if a mod b = 0 then a div b else a div b + 1)"
  proof -
    have a: "a = b * (a div b) + a mod b" and r: "0 \<le> a mod b" "a mod b < b" using assms(1) by simp_all
    show ?thesis
    proof (cases "a mod b = 0")
      case True
      then have "(a + b - 1) div b = a div b" using a r assms(1) by (intro int_div_pos_eq [of _ _ _ "b - 1"]) linarith+
      then show ?thesis using True by simp
    next
      case False
      then have "(a + b - 1) div b = a div b + 1"
        using a r assms(1) by (intro int_div_pos_eq [of _ _ _ "a mod b - 1"]) (simp add: algebra_simps, linarith+)
      then show ?thesis using False by simp
    qed
  qed
  moreover have "0 \<le> a div b" using assms by (simp add: pos_imp_zdiv_nonneg_iff)
  ultimately show ?thesis
    using assms by (simp add: round_to_next_multiple_of_def CEILDIV_def sdiv_nonneg smod_nonneg)
qed

text \<open>
  C14: Called with the sizes it checks for, the host leaves the order of the batches and the number of
  padded tokens, whatever the order in which the threads store.
\<close>

theorem batched_moe_align_orders:
  assumes "fair_stores sched"
    and g: "batched_ok g" "ba_num_tokens g = bf_data nums" "bf_sizes nums = [ba_num_batches g]"
      "ba_block_size g < 2 ^ 31" "ba_max_tokens g < 2 ^ 31"
    and sizes: "bf_sizes sorted_ids = [CEILDIV (ba_max_tokens g) (ba_block_size g) * ba_num_batches g * ba_block_size g]"
      "bf_sizes batch_ids = [CEILDIV (ba_max_tokens g) (ba_block_size g) * ba_num_batches g]" "bf_sizes post_pad = [1]"
    and data: "int (length (bf_data sorted_ids)) = bf_numel sorted_ids" "int (length (bf_data batch_ids)) = bf_numel batch_ids"
      "int (length (bf_data post_pad)) = bf_numel post_pad"
  shows "\<exists>s b. batched_moe_align_block_size sched (ba_max_tokens g) (ba_block_size g) nums sorted_ids batch_ids post_pad =
      Inr (sorted_ids\<lparr>bf_data := s\<rparr>, batch_ids\<lparr>bf_data := b\<rparr>, post_pad\<lparr>bf_data := [batch_start g (ba_num_batches g)]\<rparr>) \<and>
    length s = length (bf_data sorted_ids) \<and> length b = length (bf_data batch_ids) \<and> batched_order g s b"
proof -
  let ?c = "CEILDIV (ba_max_tokens g) (ba_block_size g) * ba_num_batches g"
  have B: "0 < ba_block_size g" "0 \<le> ba_max_tokens g" "0 < ba_num_batches g" "ba_num_batches g \<le> 1024" "?c * ba_block_size g < 2 ^ 31"
    using g(1) by (simp_all add: batched_ok_def)
  let ?q = "CEILDIV (ba_max_tokens g) (ba_block_size g)"
  have q: "0 \<le> ?q" using B by (simp add: CEILDIV_def sdiv_nonneg pos_imp_zdiv_nonneg_iff)
  have "?q * 1 \<le> ?c" "?c * 1 \<le> ?c * ba_block_size g" using q B by (intro mult_left_mono; simp)+
  then have small: "int32 ?q = ?q" "int32 ?c = ?c" using q B(5) by (auto intro!: int32_nonneg simp: B(3) less_imp_le)
  have id: "int32 (ba_num_batches g) = ba_num_batches g" "int32 (ba_max_tokens g) = ba_max_tokens g"
    "int32 (ba_block_size g) = ba_block_size g" using B g(4,5) by (simp_all add: int32_id)
  have eta: "\<lparr>ba_num_batches = ba_num_batches g, ba_max_tokens = ba_max_tokens g, ba_block_size = ba_block_size g,
      ba_num_tokens = bf_data nums\<rparr> = g" using g(2) by simp
  have len: "int (length (bf_data sorted_ids)) = ?c * ba_block_size g" "int (length (bf_data batch_ids)) = ?c"
    "length (bf_data post_pad) = 1" using data sizes by (simp_all add: bf_numel_def)
  obtain s b where run: "batched_kernel sched g [bf_data sorted_ids, bf_data batch_ids, bf_data post_pad] =
      Inr [s, b, [batch_start g (ba_num_batches g)]]" "length s = length (bf_data sorted_ids)" "length b = length (bf_data batch_ids)"
      "batched_order g s b"
    using batched_kernel_order [OF assms(1) g(1) len] by blast
  have "?c * ba_block_size g sdiv ba_block_size g = ?c" using q B by (simp add: sdiv_nonneg)
  then have "batched_moe_align_block_size sched (ba_max_tokens g) (ba_block_size g) nums sorted_ids batch_ids post_pad =
      Inr (sorted_ids\<lparr>bf_data := s\<rparr>, batch_ids\<lparr>bf_data := b\<rparr>, post_pad\<lparr>bf_data := [batch_start g (ba_num_batches g)]\<rparr>)"
    using B(1,4) run(1) by (simp add: batched_moe_align_block_size_def bf_size_def g(3) sizes id small eta
      next_multiple_blocks [OF B(1,2)] Let_def torch_checks_def torch_check_def kBatchedThreads_def numeral_eq_Suc)
  then show ?thesis using run(2-4) by blast
qed

theorem batched_moe_align_orders_witness:
  "\<exists>s b. batched_moe_align_block_size (\<lambda>n. concat) 3 2
     \<lparr>bf_cuda = True, bf_device = 0, bf_type = kInt32, bf_contiguous = True, bf_address = 0, bf_sizes = [2], bf_data = [3, 1]\<rparr>
     \<lparr>bf_cuda = True, bf_device = 0, bf_type = kInt32, bf_contiguous = True, bf_address = 0, bf_sizes = [8], bf_data = replicate 8 (9 :: int)\<rparr>
     \<lparr>bf_cuda = True, bf_device = 0, bf_type = kInt32, bf_contiguous = True, bf_address = 0, bf_sizes = [4], bf_data = replicate 4 (9 :: int)\<rparr>
     \<lparr>bf_cuda = True, bf_device = 0, bf_type = kInt32, bf_contiguous = True, bf_address = 0, bf_sizes = [1], bf_data = [9 :: int]\<rparr> =
     Inr (\<lparr>bf_cuda = True, bf_device = 0, bf_type = kInt32, bf_contiguous = True, bf_address = 0, bf_sizes = [8], bf_data = s\<rparr>,
       \<lparr>bf_cuda = True, bf_device = 0, bf_type = kInt32, bf_contiguous = True, bf_address = 0, bf_sizes = [4], bf_data = b\<rparr>,
       \<lparr>bf_cuda = True, bf_device = 0, bf_type = kInt32, bf_contiguous = True, bf_address = 0, bf_sizes = [1], bf_data = [6]\<rparr>) \<and>
     s ! 4 = 3"
proof -
  let ?g = "\<lparr>ba_num_batches = 2, ba_max_tokens = 3, ba_block_size = 2, ba_num_tokens = [3, 1]\<rparr>"
  have c: "CEILDIV 3 2 = 2" "CEILDIV 1 2 = 1" by (simp_all add: CEILDIV_def sdiv_nonneg)
  have start: "batch_start ?g 2 = 6" "batch_start ?g 1 = 4" "batch_ceil ?g 1 = 2" "batch_len ?g 1 = 1"
  proof -
    have "{0..<2 :: int} = {0, 1}" "{0..<1 :: int} = {0}" by auto
    then show "batch_start ?g 2 = 6" "batch_start ?g 1 = 4" "batch_ceil ?g 1 = 2" "batch_len ?g 1 = 1"
      by (simp_all add: batch_start_def batch_ceil_def batch_len_def c)
  qed
  have ok: "batched_ok ?g" by (simp add: batched_ok_def c)
  have fair: "fair_stores (\<lambda>n. concat)" by (simp add: fair_stores_def interleave_concat)
  let ?nums = "\<lparr>bf_cuda = True, bf_device = 0, bf_type = kInt32, bf_contiguous = True, bf_address = 0, bf_sizes = [2], bf_data = [3, 1]\<rparr>"
  let ?ids = "\<lparr>bf_cuda = True, bf_device = 0, bf_type = kInt32, bf_contiguous = True, bf_address = 0, bf_sizes = [8], bf_data = replicate 8 (9 :: int)\<rparr>"
  let ?blocks = "\<lparr>bf_cuda = True, bf_device = 0, bf_type = kInt32, bf_contiguous = True, bf_address = 0, bf_sizes = [4], bf_data = replicate 4 (9 :: int)\<rparr>"
  let ?pad = "\<lparr>bf_cuda = True, bf_device = 0, bf_type = kInt32, bf_contiguous = True, bf_address = 0, bf_sizes = [1], bf_data = [9 :: int]\<rparr>"
  have "\<exists>s b. batched_moe_align_block_size (\<lambda>n. concat) 3 2 ?nums ?ids ?blocks ?pad =
      Inr (?ids\<lparr>bf_data := s\<rparr>, ?blocks\<lparr>bf_data := b\<rparr>, ?pad\<lparr>bf_data := [6]\<rparr>) \<and>
      length s = length (bf_data ?ids) \<and> length b = length (bf_data ?blocks) \<and> batched_order ?g s b"
    by (rule batched_moe_align_orders [OF fair ok, of ?nums ?ids ?blocks ?pad, unfolded batched_args.select_convs start])
      (simp_all add: c bf_numel_def)
  then obtain s b where run: "batched_moe_align_block_size (\<lambda>n. concat) 3 2 ?nums ?ids ?blocks ?pad =
      Inr (?ids\<lparr>bf_data := s\<rparr>, ?blocks\<lparr>bf_data := b\<rparr>, ?pad\<lparr>bf_data := [6]\<rparr>)" and order: "batched_order ?g s b"
    by blast
  have "\<forall>k. 0 \<le> k \<and> k < batch_ceil ?g 1 \<longrightarrow> s ! nat (batch_start ?g 1 + k) = (if k < batch_len ?g 1 then 3 + k else 6)"
    using order by (simp add: batched_order_def)
  from spec [OF this, of 0] have "s ! 4 = 3" by (simp add: start)
  then show ?thesis using run by (intro exI [of _ s] exI [of _ b]) simp
qed

text \<open>Without a batch no thread is the last one, and the number of tokens keeps what it was.\<close>

lemma no_batch_no_count:
  assumes "ba_num_batches g = 0" and "0 \<le> tid" "tid < kBatchedThreads"
  shows "((2, 0), v) \<notin> set (batched_write g start n tid)"
proof -
  have "size_t (-1) = 2 ^ 64 - 1" by (simp add: size_t_def take_bit_eq_mod)
  then show ?thesis using assms by (auto simp: batched_write_def kBatchedThreads_def size_t_def)
qed

section \<open>The sum of the outputs of the experts\<close>

text \<open>
  The kernel that adds the rows of a token up, in the type of its elements; the host knows it for
  two, three and four rows and leaves any other number to the \<open>sum_out\<close> of the tensor library.
\<close>

definition moe_sum_element :: "'s \<Rightarrow> ('s \<Rightarrow> 's \<Rightarrow> 's) \<Rightarrow> int \<Rightarrow> 's list \<Rightarrow> int \<Rightarrow> int \<times> int \<Rightarrow> 's result" where
  "moe_sum_element zero add topk input d x =
     (let (token_idx, idx) = x in
      rfold (\<lambda>k x. rbind (array_load input (token_idx * topk * d + int32 (k * d) + idx)) (\<lambda>v. Inr (add x v)))
        [0..topk - 1] zero)"

definition moe_sum_kernel ::
  "(int \<times> int) list \<Rightarrow> 's \<Rightarrow> ('s \<Rightarrow> 's \<Rightarrow> 's) \<Rightarrow> int \<Rightarrow> 's list \<Rightarrow> int \<Rightarrow> 's list \<Rightarrow> 's list result" where
  "moe_sum_kernel xs zero add topk input d out =
     rfold (\<lambda>(token_idx, idx) out. rbind (moe_sum_element zero add topk input d (token_idx, idx)) (\<lambda>x.
       array_store out (token_idx * d + idx) x)) xs out"

definition moe_sum ::
  "(int \<times> int) list \<Rightarrow> 's \<Rightarrow> ('s \<Rightarrow> 's \<Rightarrow> 's) \<Rightarrow> ('s buffer \<Rightarrow> 's buffer \<Rightarrow> int list \<Rightarrow> 's buffer result) \<Rightarrow>
   's buffer \<Rightarrow> 's buffer \<Rightarrow> 's buffer result" where
  "moe_sum xs zero add sum_out input output =
     rbind (size_back input 1) (\<lambda>s. let hidden_size = int32 s in
     if hidden_size = 0 then Inl (Undefined ''division by zero'')
     else rbind (bf_size input 1) (\<lambda>t. let topk = int32 t in
       if topk \<in> {2, 3, 4}
       then rbind (torch_check (bf_type input \<in> {kFloat32, kFloat16, kBFloat16}) ''moe_sum_kernel'') (\<lambda>_.
         rbind (moe_sum_kernel xs zero add topk (bf_data input) hidden_size (bf_data output)) (\<lambda>out.
         Inr (output\<lparr>bf_data := out\<rparr>)))
       else sum_out output input [1]))"

definition moe_sum_schedule :: "'s buffer \<Rightarrow> int \<Rightarrow> (int \<times> int) list \<Rightarrow> bool" where
  "moe_sum_schedule output hidden_size xs \<longleftrightarrow>
     row_schedule (uint32 (bf_numel output sdiv hidden_size)) (min hidden_size 1024) hidden_size xs"

text \<open>For two, three or four rows every element of the output is the sum of those of its token, in their order.\<close>

lemma moe_sum_rows:
  assumes "bf_sizes input = [n, topk, d]" "int (length (bf_data input)) = n * topk * d"
    and "bf_sizes output = [n, d]" "int (length (bf_data output)) = n * d"
    and "0 \<le> n" "n < 2 ^ 31" "topk \<in> {2, 3, 4}" "0 < d" "topk * d < 2 ^ 31"
    and "bf_type input \<in> {kFloat32, kFloat16, kBFloat16}" and "moe_sum_schedule output d xs"
  shows "\<exists>out. moe_sum xs zero add sum_out input output = Inr (output\<lparr>bf_data := out\<rparr>) \<and> length out = length (bf_data output) \<and>
    (\<forall>token h. 0 \<le> token \<and> token < n \<and> 0 \<le> h \<and> h < d \<longrightarrow> out ! nat (token * d + h) =
       fold (\<lambda>k x. add x (bf_data input ! nat ((token * topk + k) * d + h))) [0..topk - 1] zero)"
proof -
  let ?v = "\<lambda>(token, h). fold (\<lambda>k x. add x (bf_data input ! nat ((token * topk + k) * d + h))) [0..topk - 1] zero"
  let ?addr = "\<lambda>(token, h). token * d + h"
  let ?f = "\<lambda>(token_idx, idx) out. rbind (moe_sum_element zero add topk (bf_data input) d (token_idx, idx)) (\<lambda>x.
       array_store out (token_idx * d + idx) x)"
  have tk: "0 < topk" "topk \<le> 4" using assms(7) by auto
  have "1 * d \<le> topk * d" using tk assms(8) by (intro mult_right_mono) simp_all
  then have "d < 2 ^ 31" using assms(9) by linarith
  then have small: "d < 2 ^ 31" "int32 d = d" "int32 topk = topk" "uint32 n = n"
    using assms(5,6,8,9) tk by (simp_all add: int32_id uint32_def take_bit_int_eq_self)
  have xs: "set xs = {0..<n} \<times> {0..<d}"
    using row_visits [of n "min d 1024" d xs] assms(3,8,11) small
    by (simp add: moe_sum_schedule_def bf_numel_def sdiv_nonneg assms(5))
  have element: "moe_sum_element zero add topk (bf_data input) d (token, h) = Inr (?v (token, h))"
    if "0 \<le> token" "token < n" "0 \<le> h" "h < d" for token h
    unfolding moe_sum_element_def Let_def prod.case
  proof (rule rfold_total)
    fix k acc assume "k \<in> set [0..topk - 1]"
    then have k: "0 \<le> k" "k < topk" by auto
    have flat: "0 \<le> token * topk + k" "token * topk + k < n * topk" using digit_bounds [of token n k topk] that k by simp_all
    then have at: "0 \<le> (token * topk + k) * d + h" "(token * topk + k) * d + h < n * topk * d"
      using digit_bounds [of "token * topk + k" "n * topk" h d] that by simp_all
    have "k * d \<le> topk * d" using k assms(8) by (intro mult_right_mono) simp_all
    then have "k * d < 2 ^ 31" using assms(9) by linarith
    moreover have "0 \<le> k * d" using k assms(8) by simp
    ultimately have "int32 (k * d) = k * d" by (intro int32_nonneg)
    then have "token * topk * d + int32 (k * d) + h = (token * topk + k) * d + h" by (simp add: algebra_simps)
    then show "rbind (array_load (bf_data input) (token * topk * d + int32 (k * d) + h)) (\<lambda>v. Inr (add acc v)) =
        Inr (add acc (bf_data input ! nat ((token * topk + k) * d + h)))"
      using at assms(2) by (simp add: array_load_def in_array_def)
  qed
  have step: "?f i m = (if True then array_store m (?addr i) (?v i) else Inr m)" if "i \<in> set xs" for i m
    using that element by (auto simp: xs)
  have valid: "\<forall>i \<in> set xs. True \<longrightarrow> in_array (bf_data output) (?addr i)"
    using digit_bounds [of _ n _ d] assms(4) by (auto simp: xs in_array_def)
  obtain out where out: "rfold ?f xs (bf_data output) = Inr out" "\<forall>b. in_array out b = in_array (bf_data output) b"
    and stored: "\<forall>x \<in> set xs. True \<longrightarrow> (\<forall>y \<in> set xs. True \<longrightarrow> ?addr y = ?addr x \<longrightarrow> ?v y = ?v x) \<longrightarrow>
      array_load out (?addr x) = Inr (?v x)"
    using flat.stores [where f = ?f and ok = "\<lambda>_. True" and addr = ?addr and v = ?v, OF step valid] by blast
  have run: "moe_sum_kernel xs zero add topk (bf_data input) d (bf_data output) = Inr out" using out(1) by (simp add: moe_sum_kernel_def)
  have "out ! nat (token * d + h) = ?v (token, h)" if "0 \<le> token" "token < n" "0 \<le> h" "h < d" for token h
  proof -
    have "(token, h) \<in> set xs" using that xs by simp
    moreover have "\<forall>y \<in> set xs. ?addr y = ?addr (token, h) \<longrightarrow> y = (token, h)" using that by (auto simp: xs digit_inject)
    ultimately have "array_load out (?addr (token, h)) = Inr (?v (token, h))" using stored by blast
    then show ?thesis by (simp add: array_loadI)
  qed
  moreover have "length out = length (bf_data output)" using out(2) in_array_length [of out "bf_data output"] by blast
  moreover have "moe_sum xs zero add sum_out input output = Inr (output\<lparr>bf_data := out\<rparr>)"
  proof -
    have sz: "size_back input 1 = Inr d" "bf_size input 1 = Inr topk" by (simp_all add: size_back_def bf_size_def assms(1))
    then show ?thesis
      unfolding moe_sum_def Let_def sz rbind_Inr small(2,3) if_P [OF assms(7)] torch_check_def if_P [OF assms(10)]
      using run assms(8) by simp
  qed
  ultimately show ?thesis by (intro exI [of _ out]) simp
qed

end
