(* ===== verification/Moe_Align_Small.thy ===== *)
theory Moe_Align_Small
  imports Moe_Align
begin

text \<open>
  The small-batch program of \<^verbatim>\<open>ex_engine/csrc/moe/moe_align_sum_kernels.cu\<close>: one block in which
  every thread counts its tokens in its own row, the columns are summed, and every thread
  places its tokens after those of the threads before it. Then the host function with both programs.
\<close>

section \<open>The program for small batches is right\<close>

text \<open>The tokens of one thread that go to an expert.\<close>

definition thread_tokens :: "align_args \<Rightarrow> int \<Rightarrow> int \<Rightarrow> int \<Rightarrow> int list" where
  "thread_tokens g stride t e = arrivals (token_expert g) e (stride_loop t stride (aa_numel g))"

text \<open>The program does not look whether there is an expert with the number; the map can still say that it is elsewhere.\<close>

definition small_id :: "align_args \<Rightarrow> int \<Rightarrow> bool" where
  "small_id g x \<longleftrightarrow> x < aa_num_experts g \<or> (\<exists>m. aa_expert_map g = Some m \<and> x < int (length m) \<and> m ! nat x = -1)"

definition small_args_ok :: "align_args \<Rightarrow> int \<Rightarrow> bool" where
  "small_args_ok g stride \<longleftrightarrow> align_args_ok g \<and> (\<forall>x \<in> set (aa_topk_ids g). small_id g x) \<and>
     aa_num_experts g \<le> stride"

text \<open>What a phase keeps of the memory.\<close>

definition same_sizes :: "align_state \<Rightarrow> align_state \<Rightarrow> bool" where
  "same_sizes m m' \<longleftrightarrow> length (al_sorted_token_ids m') = length (al_sorted_token_ids m) \<and>
     length (al_counts m') = length (al_counts m) \<and> al_expert_ids m' = al_expert_ids m \<and>
     al_total_tokens_post_pad m' = al_total_tokens_post_pad m \<and> al_cumsum m' = al_cumsum m"

lemma same_sizes_refl [simp]: "same_sizes m m"
  by (simp add: same_sizes_def)

lemma cell_range:
  assumes "0 \<le> i" "i \<le> n" "0 \<le> e" "e < E" and "int len = (n + 1) * (E::int)"
  shows "0 \<le> i * E + e" and "i * E + e < int len"
  using digit_bounds [of i "n + 1" e E] assms by simp_all

lemma small_expert_some:
  assumes "small_args_ok g stride" and "0 \<le> i" "i < aa_numel g"
  shows "small_expert g i = Inr (token_expert g i)"
    and "token_expert g i = Some e \<Longrightarrow> 0 \<le> e \<and> e < aa_num_experts g"
proof -
  have ok: "align_args_ok g" using assms(1) by (simp add: small_args_ok_def)
  note x = topk_id_ok [OF ok assms(2,3)]
  consider "aa_topk_ids g ! nat i < aa_num_experts g"
    | m where "aa_num_experts g \<le> aa_topk_ids g ! nat i" "aa_expert_map g = Some m" "aa_topk_ids g ! nat i < int (length m)"
        "m ! nat (aa_topk_ids g ! nat i) = -1"
    using assms(1) x(3) by (force simp: small_args_ok_def small_id_def)
  then show "small_expert g i = Inr (token_expert g i)"
  proof cases
    case 1
    then have "large_expert g i = small_expert g i" by (simp add: large_expert_def small_expert_def x Let_def)
    then show ?thesis using large_expert_eq [OF ok assms(2,3)] by simp
  next
    case 2
    then show ?thesis using x by (simp add: small_expert_def token_expert_def map_expert_def array_load_def in_array_def)
  qed
  show "token_expert g i = Some e \<Longrightarrow> 0 \<le> e \<and> e < aa_num_experts g" using token_expert_range [OF ok assms(2,3)] by blast
qed

text \<open>One step of counting a row, with what it leaves alone.\<close>

lemma count_row_step:
  assumes ok: "small_args_ok g stride" and i: "0 \<le> i" "i < aa_numel g" and t: "0 \<le> t" "t < stride"
    and len: "int (length (al_counts m)) = (stride + 1) * aa_num_experts g"
  shows "\<exists>c. align_exec g (Count_Row t i) m = Inr (m\<lparr>al_counts := c\<rparr>) \<and> length c = length (al_counts m) \<and>
    (\<forall>a \<ge> 0. c ! nat a = (case token_expert g i of
       Some e \<Rightarrow> if a = (t + 1) * aa_num_experts g + e then int32 (al_counts m ! nat a + 1) else al_counts m ! nat a
     | None \<Rightarrow> al_counts m ! nat a))"
proof (cases "token_expert g i")
  case None
  then show ?thesis
    by (intro exI [of _ "al_counts m"]) (simp add: count_row_def small_expert_some(1) [OF ok i])
next
  case (Some e)
  let ?a = "(t + 1) * aa_num_experts g + e"
  have a: "0 \<le> ?a" "?a < int (length (al_counts m))"
    using cell_range [of "t + 1" stride e "aa_num_experts g" "length (al_counts m)"] small_expert_some(2) [OF ok i Some] t len by simp_all
  have "atomic_add (al_counts m) ?a 1 = Inr (al_counts m ! nat ?a, (al_counts m)[nat ?a := int32 (al_counts m ! nat ?a + 1)])"
    using a by (simp add: atomic_add_def array_load_def array_store_def in_array_def)
  then show ?thesis using a
    by (intro exI [of _ "(al_counts m)[nat ?a := int32 (al_counts m ! nat ?a + 1)]"])
      (simp add: count_row_def small_expert_some(1) [OF ok i] Some nth_store)
qed

lemma zero_step:
  assumes "0 \<le> a" "a < int (length (al_counts m))"
  shows "align_exec g (Zero_Count a) m = Inr (m\<lparr>al_counts := (al_counts m)[nat a := 0]\<rparr>)"
  using assms by (simp add: array_store_def in_array_def)

lemma fill_step:
  assumes "align_args_ok g" "0 \<le> a" "a < int (length (al_sorted_token_ids m))"
  shows "align_exec g (Fill_Sorted a) m =
    Inr (m\<lparr>al_sorted_token_ids := (al_sorted_token_ids m)[nat a := aa_numel g]\<rparr>)"
  using assms by (simp add: array_store_def in_array_def numel_small)

text \<open>A row counted by its thread alone.\<close>

lemma count_row_run:
  assumes ok: "small_args_ok g stride" and t: "0 \<le> t" "t < stride"
    and len: "int (length (al_counts m)) = (stride + 1) * aa_num_experts g"
    and ys: "\<forall>y \<in> set ys. 0 \<le> y \<and> y < aa_numel g" "int (length ys) < 2 ^ 31"
    and zero: "\<forall>e. 0 \<le> e \<and> e < aa_num_experts g \<longrightarrow> al_counts m ! nat ((t + 1) * aa_num_experts g + e) = 0"
  shows "\<exists>c. rfold (align_exec g) (map (Count_Row t) ys) m = Inr (m\<lparr>al_counts := c\<rparr>) \<and> length c = length (al_counts m) \<and>
    (\<forall>e. 0 \<le> e \<and> e < aa_num_experts g \<longrightarrow>
       c ! nat ((t + 1) * aa_num_experts g + e) = int (length (arrivals (token_expert g) e ys)))"
  using ys
proof (induction ys rule: rev_induct)
  case Nil
  then show ?case using zero by (intro exI [of _ "al_counts m"]) (simp add: arrivals_def)
next
  case (snoc y ys)
  then obtain c where run: "rfold (align_exec g) (map (Count_Row t) ys) m = Inr (m\<lparr>al_counts := c\<rparr>)"
    and c: "length c = length (al_counts m)" "\<forall>e. 0 \<le> e \<and> e < aa_num_experts g \<longrightarrow>
       c ! nat ((t + 1) * aa_num_experts g + e) = int (length (arrivals (token_expert g) e ys))" by auto
  have y: "0 \<le> y" "y < aa_numel g" using snoc.prems by simp_all
  obtain c' where step: "align_exec g (Count_Row t y) (m\<lparr>al_counts := c\<rparr>) = Inr (m\<lparr>al_counts := c'\<rparr>)"
    and c': "length c' = length c" "\<forall>a \<ge> 0. c' ! nat a = (case token_expert g y of
       Some e \<Rightarrow> if a = (t + 1) * aa_num_experts g + e then int32 (c ! nat a + 1) else c ! nat a
     | None \<Rightarrow> c ! nat a)"
    using count_row_step [OF ok y t, of "m\<lparr>al_counts := c\<rparr>"] len c(1) by (cases "token_expert g y") auto
  have "c' ! nat ((t + 1) * aa_num_experts g + e) = int (length (arrivals (token_expert g) e (ys @ [y])))"
    if e: "0 \<le> e" "e < aa_num_experts g" for e
  proof -
    have "0 \<le> (t + 1) * aa_num_experts g + e" using t e by simp
    moreover have "length (arrivals (token_expert g) e ys) \<le> length ys" by (simp add: arrivals_def)
    then have "int32 (int (length (arrivals (token_expert g) e ys)) + 1) = int (length (arrivals (token_expert g) e ys)) + 1"
      using snoc.prems by (intro int32_id) simp_all
    ultimately show ?thesis using c' c(2) e by (auto simp: arrivals_snoc split: option.splits)
  qed
  then show ?case using run step c c'(1) by (intro exI [of _ c']) (simp add: rfold_append)
qed

lemma row_program_run:
  assumes ok: "small_args_ok g stride" and t: "0 \<le> t" "t < stride"
    and len: "int (length (al_counts m)) = (stride + 1) * aa_num_experts g"
  shows "\<exists>c. rfold (align_exec g) (row_count_program g stride t) m = Inr (m\<lparr>al_counts := c\<rparr>) \<and>
    (\<forall>e. 0 \<le> e \<and> e < aa_num_experts g \<longrightarrow>
       c ! nat ((t + 1) * aa_num_experts g + e) = int (length (thread_tokens g stride t e)))"
proof -
  let ?E = "aa_num_experts g"
  let ?zeros = "map (\<lambda>i. Zero_Count ((t + 1) * ?E + i)) [0..?E - 1]"
  have ok': "align_args_ok g" using ok by (simp add: small_args_ok_def)
  have in_row: "0 \<le> (t + 1) * ?E + e \<and> (t + 1) * ?E + e < int (length (al_counts m))" if "0 \<le> e" "e < ?E" for e
    using cell_range [of "t + 1" stride e ?E "length (al_counts m)"] that t len by simp
  have steps: "\<forall>x \<in> set ?zeros. (\<exists>a. x = Fill_Sorted a \<and> in_array (al_sorted_token_ids m) a) \<or>
      (\<exists>a. x = Zero_Count a \<and> in_array (al_counts m) a)"
    using in_row by (auto simp: in_array_def)
  obtain s c0 where zeros: "rfold (align_exec g) ?zeros m = Inr (m\<lparr>al_sorted_token_ids := s, al_counts := c0\<rparr>)"
    and l0: "length s = length (al_sorted_token_ids m)" "length c0 = length (al_counts m)"
    and s: "\<forall>p \<ge> 0. s ! nat p = (if Fill_Sorted p \<in> set ?zeros then aa_numel g else al_sorted_token_ids m ! nat p)"
    and c0: "\<forall>p \<ge> 0. c0 ! nat p = (if Zero_Count p \<in> set ?zeros then 0 else al_counts m ! nat p)"
    using fill_zero_run [OF ok' steps] by blast
  have "s ! i = al_sorted_token_ids m ! i" if "i < length s" for i using s [rule_format, of "int i"] by auto
  then have s': "s = al_sorted_token_ids m" using l0(1) by (intro nth_equalityI) simp_all
  have zero: "\<forall>e. 0 \<le> e \<and> e < ?E \<longrightarrow> c0 ! nat ((t + 1) * ?E + e) = 0"
    using c0 in_row by auto
  have "0 < stride" using t by simp
  then have ys: "\<forall>y \<in> set (stride_loop t stride (aa_numel g)). 0 \<le> y \<and> y < aa_numel g"
    using t by (simp add: set_stride_loop)
  have "int (length (stride_loop t stride (aa_numel g))) < 2 ^ 31"
  proof -
    have "set (stride_loop t stride (aa_numel g)) \<subseteq> {0..<aa_numel g}" using ys by auto
    then have "card (set (stride_loop t stride (aa_numel g))) \<le> card {0..<aa_numel g}" by (intro card_mono) simp_all
    then have "length (stride_loop t stride (aa_numel g)) \<le> length (aa_topk_ids g)"
      by (simp add: distinct_card distinct_stride_loop)
    then show ?thesis using ok' by (simp add: align_args_ok_def)
  qed
  then obtain c where "rfold (align_exec g) (map (Count_Row t) (stride_loop t stride (aa_numel g))) (m\<lparr>al_counts := c0\<rparr>) =
      Inr (m\<lparr>al_counts := c\<rparr>)" "\<forall>e. 0 \<le> e \<and> e < ?E \<longrightarrow>
       c ! nat ((t + 1) * ?E + e) = int (length (thread_tokens g stride t e))"
    using count_row_run [OF ok t _ ys, of "m\<lparr>al_counts := c0\<rparr>"] len l0(2) zero by (auto simp: thread_tokens_def)
  then show ?thesis using zeros s' by (intro exI [of _ c]) (simp add: row_count_program_def rfold_append)
qed


text \<open>The first phase: every row is counted by its thread, whatever the interleaving.\<close>

definition row_view :: "align_args \<Rightarrow> int \<Rightarrow> align_state \<Rightarrow> int list" where
  "row_view g t m = map (\<lambda>e. al_counts m ! nat ((t + 1) * aa_num_experts g + e)) [0..aa_num_experts g - 1]"

lemma row_view_eqI:
  "(\<And>e. 0 \<le> e \<Longrightarrow> e < aa_num_experts g \<Longrightarrow>
     al_counts m ! nat ((t + 1) * aa_num_experts g + e) = al_counts n ! nat ((t + 1) * aa_num_experts g + e)) \<Longrightarrow>
   row_view g t m = row_view g t n"
  by (simp add: row_view_def)

lemma row_view_eqD:
  "row_view g t m = row_view g t n \<Longrightarrow> 0 \<le> e \<Longrightarrow> e < aa_num_experts g \<Longrightarrow>
     al_counts m ! nat ((t + 1) * aa_num_experts g + e) = al_counts n ! nat ((t + 1) * aa_num_experts g + e)"
  by (simp add: row_view_def)

definition row_step :: "align_args \<Rightarrow> int \<Rightarrow> int \<Rightarrow> align_step \<Rightarrow> bool" where
  "row_step g stride t x \<longleftrightarrow> 0 \<le> t \<and> t < stride \<and>
     ((\<exists>e. x = Zero_Count ((t + 1) * aa_num_experts g + e) \<and> 0 \<le> e \<and> e < aa_num_experts g) \<or>
      (\<exists>i. x = Count_Row t i \<and> 0 \<le> i \<and> i < aa_numel g))"

lemma row_program_steps:
  assumes "0 \<le> t" "t < stride" and "x \<in> set (row_count_program g stride t)"
  shows "row_step g stride t x"
  using assms by (auto simp: row_count_program_def row_step_def set_stride_loop)

text \<open>A step of a row changes one cell of it, as a function of that cell.\<close>

lemma row_step_effect:
  assumes ok: "small_args_ok g stride" and x: "row_step g stride t x"
    and len: "int (length (al_counts m)) = (stride + 1) * aa_num_experts g"
  shows "\<exists>c. align_exec g x m = Inr (m\<lparr>al_counts := c\<rparr>) \<and> length c = length (al_counts m)"
    and "align_exec g x m = Inr m' \<Longrightarrow> 0 \<le> t' \<Longrightarrow> t' < stride \<Longrightarrow> t' \<noteq> t \<Longrightarrow> row_view g t' m' = row_view g t' m"
    and "align_exec g x m = Inr m' \<Longrightarrow> align_exec g x n = Inr n' \<Longrightarrow> length (al_counts n) = length (al_counts m) \<Longrightarrow>
      row_view g t m = row_view g t n \<Longrightarrow> row_view g t n' = row_view g t m'"
proof -
  let ?E = "aa_num_experts g"
  have t: "0 \<le> t" "t < stride" using x by (simp_all add: row_step_def)
  have cell: "0 \<le> (s + 1) * ?E + e \<and> (s + 1) * ?E + e < int (length (al_counts m))"
    if "0 \<le> s" "s < stride" "0 \<le> e" "e < ?E" for s e
    using cell_range [of "s + 1" stride e ?E "length (al_counts m)"] that len by simp
  have other: "(s + 1) * ?E + e = (t + 1) * ?E + d \<longleftrightarrow> s = t \<and> e = d" if "0 \<le> e" "e < ?E" "0 \<le> d" "d < ?E" for s e d
    using digit_inject [of e ?E d "s + 1" "t + 1"] that by simp
  define f :: "int \<Rightarrow> int \<Rightarrow> int" where "f = (\<lambda>e v. case x of Zero_Count a \<Rightarrow> if a = (t + 1) * ?E + e then 0 else v
    | Count_Row u i \<Rightarrow> if token_expert g i = Some e then int32 (v + 1) else v | _ \<Rightarrow> v)"
  have effect: "\<exists>c. align_exec g x m = Inr (m\<lparr>al_counts := c\<rparr>) \<and> length c = length (al_counts m) \<and>
      (\<forall>s e. 0 \<le> s \<and> s < stride \<and> 0 \<le> e \<and> e < ?E \<longrightarrow> c ! nat ((s + 1) * ?E + e) =
         (if s = t then f e (al_counts m ! nat ((s + 1) * ?E + e)) else al_counts m ! nat ((s + 1) * ?E + e)))"
    if len: "int (length (al_counts m)) = (stride + 1) * ?E" for m
  proof -
    have cell: "0 \<le> (s + 1) * ?E + e \<and> (s + 1) * ?E + e < int (length (al_counts m))"
      if "0 \<le> s" "s < stride" "0 \<le> e" "e < ?E" for s e
      using cell_range [of "s + 1" stride e ?E "length (al_counts m)"] that len by simp
    from x consider d where "x = Zero_Count ((t + 1) * ?E + d)" "0 \<le> d" "d < ?E"
      | i where "x = Count_Row t i" "0 \<le> i" "i < aa_numel g" by (auto simp: row_step_def)
    then show ?thesis
    proof cases
      case 1
      note a = cell [OF t 1(2,3)]
      let ?c = "(al_counts m)[nat ((t + 1) * ?E + d) := 0]"
      have "?c ! nat ((s + 1) * ?E + e) =
         (if s = t then f e (al_counts m ! nat ((s + 1) * ?E + e)) else al_counts m ! nat ((s + 1) * ?E + e))"
        if "0 \<le> s" "s < stride" "0 \<le> e" "e < ?E" for s e
        using nth_store [of "(t + 1) * ?E + d" "al_counts m" "(s + 1) * ?E + e" 0] a cell [OF that] other [OF that(3,4) 1(2,3)]
          other [OF 1(2,3) that(3,4)] by (auto simp: f_def 1(1))
      then show ?thesis using zero_step a 1(1) by (intro exI [of _ ?c]) simp
    next
      case 2
      obtain c where c: "align_exec g (Count_Row t i) m = Inr (m\<lparr>al_counts := c\<rparr>)" "length c = length (al_counts m)"
        "\<forall>a \<ge> 0. c ! nat a = (case token_expert g i of
           Some e \<Rightarrow> if a = (t + 1) * ?E + e then int32 (al_counts m ! nat a + 1) else al_counts m ! nat a
         | None \<Rightarrow> al_counts m ! nat a)"
        using count_row_step [OF ok 2(2,3) t len] by blast
      have "c ! nat ((s + 1) * ?E + e) =
         (if s = t then f e (al_counts m ! nat ((s + 1) * ?E + e)) else al_counts m ! nat ((s + 1) * ?E + e))"
        if "0 \<le> s" "s < stride" "0 \<le> e" "e < ?E" for s e
        using c(3) cell [OF that] other [OF that(3,4), of _ s] small_expert_some(2) [OF ok 2(2,3)]
        by (cases "token_expert g i") (auto simp: f_def 2(1))
      then show ?thesis using c(1,2) 2(1) by (intro exI [of _ c]) simp
    qed
  qed
  show "\<exists>c. align_exec g x m = Inr (m\<lparr>al_counts := c\<rparr>) \<and> length c = length (al_counts m)"
    using effect [OF len] by blast
  show "row_view g t' m' = row_view g t' m" if "align_exec g x m = Inr m'" "0 \<le> t'" "t' < stride" "t' \<noteq> t"
    using effect [OF len] that by (intro row_view_eqI) auto
  show "row_view g t n' = row_view g t m'" if a: "align_exec g x m = Inr m'" "align_exec g x n = Inr n'"
    and l: "length (al_counts n) = length (al_counts m)" and v: "row_view g t m = row_view g t n"
  proof (rule row_view_eqI)
    fix e assume e: "0 \<le> e" "e < ?E"
    have "int (length (al_counts n)) = (stride + 1) * ?E" using len l by simp
    from effect [OF this] effect [OF len] a t e row_view_eqD [OF v e]
    show "al_counts n' ! nat ((t + 1) * ?E + e) = al_counts m' ! nat ((t + 1) * ?E + e)" by auto
  qed
qed


lemma small_first_phase:
  assumes ok: "small_args_ok g stride" and fair: "fair sched"
    and len: "int (length (al_counts m)) = (stride + 1) * aa_num_experts g"
  shows "\<exists>m'. run_phase sched g 0 (map (\<lambda>t. fill_program kFillThreads t m) [0..kFillThreads - 1] @
      map (row_count_program g stride) [0..stride - 1]) m = Inr m' \<and> same_sizes m m' \<and>
    (\<forall>p. 0 \<le> p \<and> p < int (length (al_sorted_token_ids m)) \<longrightarrow> al_sorted_token_ids m' ! nat p = aa_numel g) \<and>
    (\<forall>t e. 0 \<le> t \<and> t < stride \<and> 0 \<le> e \<and> e < aa_num_experts g \<longrightarrow>
       al_counts m' ! nat ((t + 1) * aa_num_experts g + e) = int (length (thread_tokens g stride t e)))"
proof -
  let ?fills = "map (\<lambda>t. fill_program kFillThreads t m) [0..kFillThreads - 1]"
  let ?rows = "map (row_count_program g stride) [0..stride - 1]"
  let ?xs = "sched 0 (?fills @ ?rows)"
  let ?M = "int (length (al_sorted_token_ids m))"
  have ok': "align_args_ok g" using ok by (simp add: small_args_ok_def)
  have k: "0 < kFillThreads" by (simp add: kFillThreads_def)
  have kind: "(\<exists>a. x = Fill_Sorted a \<and> 0 \<le> a \<and> a < ?M) \<or> (\<exists>t. row_step g stride t x)" if "x \<in> set (concat (?fills @ ?rows))" for x
  proof -
    from that consider t where "0 \<le> t" "x \<in> set (fill_program kFillThreads t m)"
      | t where "0 \<le> t" "t < stride" "x \<in> set (row_count_program g stride t)" by auto
    then show ?thesis
    proof cases
      case 1
      then show ?thesis using k by (auto simp: fill_program_def set_stride_loop)
    next
      case 2
      then show ?thesis using row_program_steps by blast
    qed
  qed
  have len': "int (length (al_counts u)) = (stride + 1) * aa_num_experts g" if "same_sizes m u" for u
    using that len by (simp add: same_sizes_def)
  have step: "\<exists>u'. align_exec g x u = Inr u' \<and> same_sizes m u'" if "x \<in> set (concat (?fills @ ?rows))" "same_sizes m u" for x u
    using kind [OF that(1)]
  proof (elim disjE exE conjE)
    fix a assume "x = Fill_Sorted a" "0 \<le> a" "a < ?M"
    then show ?thesis using fill_step [OF ok', of a u] that(2) by (simp add: same_sizes_def)
  next
    fix t assume "row_step g stride t x"
    then show ?thesis using row_step_effect(1) [OF ok _ len' [OF that(2)]] that(2) by (fastforce simp: same_sizes_def)
  qed
  have set_xs: "set ?xs = set (concat (?fills @ ?rows))" unfolding run_phase_set(2) [OF fair] by simp
  obtain m' where run: "rfold (align_exec g) ?xs m = Inr m'" "same_sizes m m'"
    using rfold_succeeds [of ?xs "same_sizes m" "align_exec g" m] step set_xs by auto
  have keep: "same_sizes m u'" if "x \<in> set (concat (?fills @ ?rows))" "same_sizes m u" "align_exec g x u = Inr u'" for x u u'
    using step [OF that(1,2)] that(3) by simp
  have rows: "\<forall>e. 0 \<le> e \<and> e < aa_num_experts g \<longrightarrow>
      al_counts m' ! nat ((t + 1) * aa_num_experts g + e) = int (length (thread_tokens g stride t e))"
    if t: "0 \<le> t" "t < stride" for t
  proof -
    let ?ps = "?fills @ ?rows"
    let ?i = "nat kFillThreads + nat t"
    have i: "?i < length ?ps" "?ps ! ?i = row_count_program g stride t"
      using t k by (simp_all add: nth_append nth_upto)
    have "\<exists>n'. rfold (align_exec g) (?ps ! ?i) m = Inr n' \<and> row_view g t n' = row_view g t m'"
    proof (rule interleave_region [where I = "same_sizes m" and ps = ?ps and xs = ?xs and m = m])
      fix j x u u' assume j: "j < length ?ps" "j \<noteq> ?i" "x \<in> set (?ps ! j)" "same_sizes m u" "align_exec g x u = Inr u'"
      show "row_view g t u' = row_view g t u"
      proof (cases "j < length ?fills")
        case True
        then have "x \<in> set (?fills ! j)" using j(3) by (simp only: nth_append if_True)
        then have "x \<in> set (fill_program kFillThreads (int j) m)" using True by (simp add: nth_upto)
        then have "\<exists>a. x = Fill_Sorted a" by (auto simp: fill_program_def)
        then show ?thesis using j(5) by (auto simp: rbind_eq_Inr_iff row_view_def)
      next
        case False
        define s where "s = int (j - length ?fills)"
        have s: "0 \<le> s" "s < stride" using j(1) False by (auto simp: s_def)
        have "?ps ! j = row_count_program g stride s"
          using False s j(1) by (simp add: nth_append s_def nth_upto)
        then have "row_step g stride s x" using row_program_steps [OF s] j(3) by simp
        moreover have "s \<noteq> t" using j(2) False k by (auto simp: s_def)
        ultimately show ?thesis using row_step_effect(2) [OF ok _ len' [OF j(4)] j(5) t] by blast
      qed
    next
      fix x u v u' assume a: "x \<in> set (?ps ! ?i)" "same_sizes m u" "same_sizes m v" "row_view g t u = row_view g t v"
        "align_exec g x u = Inr u'"
      have x: "row_step g stride t x" using row_program_steps [OF t] a(1) unfolding i(2) by blast
      obtain v' where v': "align_exec g x v = Inr v'" using row_step_effect(1) [OF ok x len' [OF a(3)]] by blast
      have "length (al_counts v) = length (al_counts u)" using a(2,3) by (simp add: same_sizes_def)
      then show "\<exists>v'. align_exec g x v = Inr v' \<and> row_view g t v' = row_view g t u'"
        using row_step_effect(3) [OF ok x len' [OF a(2)] a(5) v' _ a(4)] v' by blast
    qed (use run_phase_set(1) [OF fair] i(1) keep run(1) in simp_all)
    then obtain n' where n': "rfold (align_exec g) (row_count_program g stride t) m = Inr n'" "row_view g t n' = row_view g t m'"
      unfolding i(2) by blast
    obtain c where "n' = m\<lparr>al_counts := c\<rparr>" "\<forall>e. 0 \<le> e \<and> e < aa_num_experts g \<longrightarrow>
       c ! nat ((t + 1) * aa_num_experts g + e) = int (length (thread_tokens g stride t e))"
      using row_program_run [OF ok t len] n'(1) by auto
    then show ?thesis using row_view_eqD [OF n'(2)] by auto
  qed
  have fills: "al_sorted_token_ids m' ! nat p = aa_numel g" if p: "0 \<le> p" "p < ?M" for p
  proof -
    let ?P = "\<lambda>x. \<exists>a. x = Fill_Sorted a"
    have "\<exists>n'. rfold (align_exec g) (filter ?P ?xs) m = Inr n' \<and> al_sorted_token_ids n' = al_sorted_token_ids m'"
    proof (rule rfold_filter [where I = "same_sizes m" and m = m])
      fix x u u' assume a: "x \<in> set ?xs" "\<not> ?P x" "same_sizes m u" "align_exec g x u = Inr u'"
      then obtain t where "row_step g stride t x" using kind set_xs by blast
      then show "al_sorted_token_ids u' = al_sorted_token_ids u"
        using row_step_effect(1) [OF ok _ len' [OF a(3)]] a(4) by fastforce
    next
      fix x u v u' assume a: "x \<in> set ?xs" "?P x" "same_sizes m u" "same_sizes m v"
        "al_sorted_token_ids u = al_sorted_token_ids v" "align_exec g x u = Inr u'"
      then obtain b where "x = Fill_Sorted b" by blast
      then show "\<exists>v'. align_exec g x v = Inr v' \<and> al_sorted_token_ids v' = al_sorted_token_ids u'"
        using a(5,6) by (auto simp: rbind_eq_Inr_iff)
    qed (use keep set_xs run(1) in simp_all)
    then obtain n' where n': "rfold (align_exec g) (filter ?P ?xs) m = Inr n'" "al_sorted_token_ids n' = al_sorted_token_ids m'" by blast
    have steps: "\<forall>x \<in> set (filter ?P ?xs). (\<exists>a. x = Fill_Sorted a \<and> in_array (al_sorted_token_ids m) a) \<or>
        (\<exists>a. x = Zero_Count a \<and> in_array (al_counts m) a)"
    proof
      fix x assume "x \<in> set (filter ?P ?xs)"
      then have "x \<in> set (concat (?fills @ ?rows))" "?P x" using set_xs by simp_all
      then show "(\<exists>a. x = Fill_Sorted a \<and> in_array (al_sorted_token_ids m) a) \<or> (\<exists>a. x = Zero_Count a \<and> in_array (al_counts m) a)"
        using kind by (fastforce simp: in_array_def row_step_def)
    qed
    have "p \<in> set [0..?M - 1]" using p by simp
    then have "p \<in> set (concat (map (\<lambda>t. stride_loop t kFillThreads ?M) [0..kFillThreads - 1]))"
      using mset_eq_setD [OF stride_programs_mset [OF k]] by blast
    then have "Fill_Sorted p \<in> set (concat (?fills @ ?rows))" by (auto simp: fill_program_def)
    then have "Fill_Sorted p \<in> set (filter ?P ?xs)" unfolding set_filter set_xs by blast
    then show ?thesis using fill_zero_run [OF ok' steps] n' p(1) by auto
  qed
  show ?thesis unfolding run_phase_def using run rows fills by blast
qed


text \<open>The tokens of the threads before one, for an expert.\<close>

definition tokens_before :: "align_args \<Rightarrow> int \<Rightarrow> int \<Rightarrow> int \<Rightarrow> int" where
  "tokens_before g stride t e = (\<Sum>j \<in> {0..<t}. int (length (thread_tokens g stride j e)))"

lemma tokens_before_0 [simp]: "tokens_before g stride 0 e = 0"
  by (simp add: tokens_before_def)

lemma tokens_before_Suc:
  "0 \<le> t \<Longrightarrow> tokens_before g stride (t + 1) e = tokens_before g stride t e + int (length (thread_tokens g stride t e))"
proof -
  assume "0 \<le> t"
  then have "{0..<t + 1} = insert t {0..<t}" by auto
  then show ?thesis by (simp add: tokens_before_def)
qed

lemma tokens_before_mono: "s \<le> t \<Longrightarrow> tokens_before g stride s e \<le> tokens_before g stride t e"
  unfolding tokens_before_def by (rule sum_mono2) auto

lemma tokens_before_nonneg: "0 \<le> tokens_before g stride t e"
  by (simp add: tokens_before_def sum_nonneg)

lemma arrivals_concat: "arrivals key e (concat xss) = concat (map (arrivals key e) xss)"
  by (induction xss) (simp_all add: arrivals_def)

lemma thread_tokens_mset:
  assumes "0 < stride"
  shows "mset (concat (map (\<lambda>t. thread_tokens g stride t e) [0..stride - 1])) = mset (expert_tokens g e)"
proof -
  have "concat (map (\<lambda>t. thread_tokens g stride t e) [0..stride - 1]) =
      arrivals (token_expert g) e (concat (map (\<lambda>t. stride_loop t stride (aa_numel g)) [0..stride - 1]))"
    by (simp add: arrivals_concat thread_tokens_def comp_def)
  then show ?thesis
    using arrivals_mset [OF stride_programs_mset [OF assms]] by (simp add: expert_tokens_def)
qed

lemma tokens_before_all:
  assumes "0 < stride"
  shows "tokens_before g stride stride e = int (length (expert_tokens g e))"
proof -
  have "tokens_before g stride k e = int (length (concat (map (\<lambda>t. thread_tokens g stride t e) [0..k - 1])))" if "0 \<le> k" for k
    using that
  proof (induction k rule: int_ge_induct)
    case (step k)
    have "[0..k + 1 - 1] = [0..k - 1] @ [k]" using step.hyps upto_rec2 [of 0 k] by simp
    then show ?case using step by (simp only: tokens_before_Suc map_append concat_append length_append) simp
  qed simp
  then show ?thesis using mset_eq_length [OF thread_tokens_mset [OF assms]] assms by simp
qed

lemma tokens_before_small:
  assumes "small_args_ok g stride" and "0 < stride" and "0 \<le> t" "t \<le> stride"
  shows "tokens_before g stride t e \<le> int (length (expert_tokens g e))" and "tokens_before g stride t e < 2 ^ 31"
proof -
  show a: "tokens_before g stride t e \<le> int (length (expert_tokens g e))"
    using tokens_before_mono [OF assms(4)] tokens_before_all [OF assms(2)] by metis
  have "int (length (expert_tokens g e)) < 2 ^ 31"
    using expert_tokens_le [of g e] assms(1) by (simp add: small_args_ok_def align_args_ok_def)
  then show "tokens_before g stride t e < 2 ^ 31" using a by linarith
qed

text \<open>The second phase: every column is summed by its thread.\<close>

definition column_view :: "align_args \<Rightarrow> int \<Rightarrow> int \<Rightarrow> align_state \<Rightarrow> int list" where
  "column_view g stride e m = map (\<lambda>i. al_counts m ! nat (i * aa_num_experts g + e)) [0..stride]"

definition column_step :: "align_args \<Rightarrow> int \<Rightarrow> int \<Rightarrow> align_step \<Rightarrow> bool" where
  "column_step g stride e x \<longleftrightarrow> 0 \<le> e \<and> e < aa_num_experts g \<and>
     (x = Zero_Count e \<or> (\<exists>i. x = Add_Count (i * aa_num_experts g + e) ((i - 1) * aa_num_experts g + e) \<and> 1 \<le> i \<and> i \<le> stride))"

lemma column_view_eqI:
  "(\<And>i. 0 \<le> i \<Longrightarrow> i \<le> stride \<Longrightarrow> al_counts m ! nat (i * aa_num_experts g + e) = al_counts n ! nat (i * aa_num_experts g + e)) \<Longrightarrow>
   column_view g stride e m = column_view g stride e n"
  by (simp add: column_view_def)

lemma column_view_eqD:
  "column_view g stride e m = column_view g stride e n \<Longrightarrow> 0 \<le> i \<Longrightarrow> i \<le> stride \<Longrightarrow>
   al_counts m ! nat (i * aa_num_experts g + e) = al_counts n ! nat (i * aa_num_experts g + e)"
  by (simp add: column_view_def)

lemma column_step_effect:
  assumes x: "column_step g stride e x" and pos: "0 \<le> stride"
    and len: "int (length (al_counts m)) = (stride + 1) * aa_num_experts g"
  shows "\<exists>c. align_exec g x m = Inr (m\<lparr>al_counts := c\<rparr>) \<and> length c = length (al_counts m) \<and>
    (\<forall>i d. 0 \<le> i \<and> i \<le> stride \<and> 0 \<le> d \<and> d < aa_num_experts g \<longrightarrow> c ! nat (i * aa_num_experts g + d) =
       (if d \<noteq> e then al_counts m ! nat (i * aa_num_experts g + d)
        else if x = Zero_Count e \<and> i = 0 then 0
        else if x = Add_Count (i * aa_num_experts g + e) ((i - 1) * aa_num_experts g + e) \<and> 1 \<le> i
        then int32 (al_counts m ! nat (i * aa_num_experts g + e) + al_counts m ! nat ((i - 1) * aa_num_experts g + e))
        else al_counts m ! nat (i * aa_num_experts g + d)))"
proof -
  let ?E = "aa_num_experts g"
  have e: "0 \<le> e" "e < ?E" using x by (simp_all add: column_step_def)
  have cell: "0 \<le> i * ?E + d \<and> i * ?E + d < int (length (al_counts m))" if "0 \<le> i" "i \<le> stride" "0 \<le> d" "d < ?E" for i d
    using cell_range [of i stride d ?E "length (al_counts m)"] that len by simp
  have other: "i * ?E + d = j * ?E + e \<longleftrightarrow> i = j \<and> d = e" if "0 \<le> d" "d < ?E" for i j d
    using digit_inject [of d ?E e i j] that e by simp
  from x consider "x = Zero_Count e"
    | k where "x = Add_Count (k * ?E + e) ((k - 1) * ?E + e)" "1 \<le> k" "k \<le> stride" by (auto simp: column_step_def)
  then show ?thesis
  proof cases
    case 1
    let ?c = "(al_counts m)[nat e := 0]"
    have e': "0 \<le> e" "e < int (length (al_counts m))" using cell [of 0 e] e pos by simp_all
    have "?c ! nat (i * ?E + d) = (if i = 0 \<and> d = e then 0 else al_counts m ! nat (i * ?E + d))"
      if "0 \<le> i" "i \<le> stride" "0 \<le> d" "d < ?E" for i d
      using nth_store [OF e', of "i * ?E + d" 0] cell [OF that] other [OF that(3,4), of i 0] by auto
    then show ?thesis using zero_step [OF e', of g] 1 by (intro exI [of _ ?c]) auto
  next
    case 2
    let ?a = "k * ?E + e"
    let ?v = "int32 (al_counts m ! nat ?a + al_counts m ! nat ((k - 1) * ?E + e))"
    let ?c = "(al_counts m)[nat ?a := ?v]"
    have a: "0 \<le> ?a" "?a < int (length (al_counts m))" using cell [of k e] e 2 by simp_all
    have b: "0 \<le> (k - 1) * ?E + e" "(k - 1) * ?E + e < int (length (al_counts m))" using cell [of "k - 1" e] e 2 by simp_all
    have run: "align_exec g x m = Inr (m\<lparr>al_counts := ?c\<rparr>)"
      using a b unfolding 2(1) by (simp add: atomic_add_def array_load_def array_store_def in_array_def)
    have "?c ! nat (i * ?E + d) = (if i = k \<and> d = e then ?v else al_counts m ! nat (i * ?E + d))"
      if "0 \<le> i" "i \<le> stride" "0 \<le> d" "d < ?E" for i d
      using nth_store [OF a, of "i * ?E + d" ?v] cell [OF that] other [OF that(3,4), of i k] by auto
    then show ?thesis using run 2 e by (intro exI [of _ ?c]) auto
  qed
qed


lemma column_program_run:
  assumes ok: "small_args_ok g stride" and e: "0 \<le> e" "e < aa_num_experts g"
    and len: "int (length (al_counts m)) = (stride + 1) * aa_num_experts g"
    and rows: "\<forall>t. 0 \<le> t \<and> t < stride \<longrightarrow>
      al_counts m ! nat ((t + 1) * aa_num_experts g + e) = int (length (thread_tokens g stride t e))"
  shows "\<exists>c. rfold (align_exec g) (column_program g stride e) m = Inr (m\<lparr>al_counts := c\<rparr>) \<and>
    (\<forall>i. 0 \<le> i \<and> i \<le> stride \<longrightarrow> c ! nat (i * aa_num_experts g + e) = tokens_before g stride i e)"
proof -
  let ?E = "aa_num_experts g"
  have pos: "0 \<le> stride" "0 < stride" using ok e by (simp_all add: small_args_ok_def)
  have "\<exists>c. rfold (align_exec g) (Zero_Count e # map (\<lambda>i. Add_Count (i * ?E + e) ((i - 1) * ?E + e)) [1..k]) m =
      Inr (m\<lparr>al_counts := c\<rparr>) \<and> length c = length (al_counts m) \<and>
    (\<forall>i. 0 \<le> i \<and> i \<le> stride \<longrightarrow> c ! nat (i * ?E + e) =
      (if i \<le> k then tokens_before g stride i e else al_counts m ! nat (i * ?E + e)))"
    if "0 \<le> k" "k \<le> stride" for k
    using that
  proof (induction k rule: int_ge_induct)
    case base
    have "column_step g stride e (Zero_Count e)" using e by (simp add: column_step_def)
    from column_step_effect [OF this pos(1) len] obtain c where
      c: "align_exec g (Zero_Count e) m = Inr (m\<lparr>al_counts := c\<rparr>)" "length c = length (al_counts m)"
        "\<forall>i d. 0 \<le> i \<and> i \<le> stride \<and> 0 \<le> d \<and> d < ?E \<longrightarrow> c ! nat (i * ?E + d) =
          (if d = e \<and> i = 0 then 0 else al_counts m ! nat (i * ?E + d))" by auto
    have "c ! nat (i * ?E + e) = (if i \<le> 0 then tokens_before g stride i e else al_counts m ! nat (i * ?E + e))"
      if "0 \<le> i" "i \<le> stride" for i
      using c(3) [rule_format, of i e] that e by auto
    then show ?case using c(1,2) by (intro exI [of _ c]) simp
  next
    case (step k)
    then obtain c where run: "rfold (align_exec g) (Zero_Count e # map (\<lambda>i. Add_Count (i * ?E + e) ((i - 1) * ?E + e)) [1..k]) m =
        Inr (m\<lparr>al_counts := c\<rparr>)" and l: "length c = length (al_counts m)"
      and c: "\<forall>i. 0 \<le> i \<and> i \<le> stride \<longrightarrow> c ! nat (i * ?E + e) =
        (if i \<le> k then tokens_before g stride i e else al_counts m ! nat (i * ?E + e))" by auto
    let ?x = "Add_Count ((k + 1) * ?E + e) (k * ?E + e)"
    have x: "column_step g stride e ?x"
      unfolding column_step_def by (intro conjI e disjI2 exI [of _ "k + 1"]) (use step in simp_all)
    obtain c' where c': "align_exec g ?x (m\<lparr>al_counts := c\<rparr>) = Inr (m\<lparr>al_counts := c'\<rparr>)" "length c' = length c"
      "\<forall>i. 0 \<le> i \<and> i \<le> stride \<longrightarrow> c' ! nat (i * ?E + e) =
         (if ?x = Add_Count (i * ?E + e) ((i - 1) * ?E + e) \<and> 1 \<le> i
          then int32 (c ! nat (i * ?E + e) + c ! nat ((i - 1) * ?E + e)) else c ! nat (i * ?E + e))"
      using column_step_effect [OF x pos(1), of "m\<lparr>al_counts := c\<rparr>"] len l e by (auto simp del: align_exec.simps)
    have "c' ! nat (i * ?E + e) = (if i \<le> k + 1 then tokens_before g stride i e else al_counts m ! nat (i * ?E + e))"
      if i: "0 \<le> i" "i \<le> stride" for i
    proof (cases "i = k + 1")
      case True
      have "c ! nat ((k + 1) * ?E + e) = int (length (thread_tokens g stride k e))"
        using c [rule_format, of "k + 1"] rows [rule_format, of k] step by simp
      moreover have "c ! nat (k * ?E + e) = tokens_before g stride k e"
        using c [rule_format, of k] step by simp
      ultimately have "c' ! nat (i * ?E + e) = int32 (tokens_before g stride (k + 1) e)"
        using c'(3) [rule_format, OF conjI [OF i]] True step.hyps tokens_before_Suc [OF step.hyps, of g stride e]
        by (simp only: add_diff_cancel_right' add.commute [of _ "tokens_before g stride k e"]) simp
      moreover have "int32 (tokens_before g stride (k + 1) e) = tokens_before g stride (k + 1) e"
        using tokens_before_small(2) [OF ok pos(2), of "k + 1" e] tokens_before_nonneg [of g stride "k + 1" e] step
        by (intro int32_id) simp_all
      ultimately show ?thesis using True by simp
    next
      case False
      have "(k + 1) * ?E + e \<noteq> i * ?E + e" using False digit_inject [OF e e, of "k + 1" i] by simp
      then show ?thesis using c'(3) [rule_format, OF conjI [OF i]] c [rule_format, OF conjI [OF i]] False by simp
    qed
    moreover have "[1..k + 1] = [1..k] @ [k + 1]" using step.hyps upto_rec2 [of 1 "k + 1"] by simp
    moreover have "rfold (align_exec g) (Zero_Count e # map (\<lambda>i. Add_Count (i * ?E + e) ((i - 1) * ?E + e)) ([1..k] @ [k + 1])) m =
        Inr (m\<lparr>al_counts := c'\<rparr>)"
      unfolding map_append append_Cons [symmetric] rfold_append run using c'(1) by (simp del: align_exec.simps)
    ultimately show ?case using l c'(2) by (intro exI [of _ c']) simp
  qed
  from this [OF pos(1) order_refl] show ?thesis using e by (auto simp: column_program_def)
qed


lemma column_program_steps:
  assumes "x \<in> set (column_program g stride t)" and "0 \<le> t"
  shows "column_step g stride t x"
  using assms by (auto simp: column_program_def column_step_def split: if_splits)

lemma column_step_keeps:
  assumes x: "column_step g stride t x" and pos: "0 \<le> stride"
    and len: "int (length (al_counts m)) = (stride + 1) * aa_num_experts g"
  shows "\<exists>c. align_exec g x m = Inr (m\<lparr>al_counts := c\<rparr>) \<and> length c = length (al_counts m)"
    and "align_exec g x m = Inr m' \<Longrightarrow> 0 \<le> e \<Longrightarrow> e < aa_num_experts g \<Longrightarrow> e \<noteq> t \<Longrightarrow>
      column_view g stride e m' = column_view g stride e m"
    and "align_exec g x m = Inr m' \<Longrightarrow> length (al_counts n) = length (al_counts m) \<Longrightarrow>
      column_view g stride t m = column_view g stride t n \<Longrightarrow>
      \<exists>n'. align_exec g x n = Inr n' \<and> column_view g stride t n' = column_view g stride t m'"
proof -
  let ?E = "aa_num_experts g"
  note effect = column_step_effect [OF x pos]
  show "\<exists>c. align_exec g x m = Inr (m\<lparr>al_counts := c\<rparr>) \<and> length c = length (al_counts m)"
    using effect [OF len] by blast
  show "column_view g stride e m' = column_view g stride e m"
    if "align_exec g x m = Inr m'" "0 \<le> e" "e < ?E" "e \<noteq> t"
  proof (rule column_view_eqI)
    fix i assume i: "0 \<le> i" "i \<le> stride"
    obtain c where "m' = m\<lparr>al_counts := c\<rparr>" "c ! nat (i * ?E + e) = al_counts m ! nat (i * ?E + e)"
    proof -
      obtain c where c: "align_exec g x m = Inr (m\<lparr>al_counts := c\<rparr>)"
        "\<forall>i d. 0 \<le> i \<and> i \<le> stride \<and> 0 \<le> d \<and> d < ?E \<and> d \<noteq> t \<longrightarrow> c ! nat (i * ?E + d) = al_counts m ! nat (i * ?E + d)"
        using effect [OF len] by auto
      have "m' = m\<lparr>al_counts := c\<rparr>" using c(1) \<open>align_exec g x m = Inr m'\<close> by simp
      moreover have "c ! nat (i * ?E + e) = al_counts m ! nat (i * ?E + e)"
        using c(2) i \<open>0 \<le> e\<close> \<open>e < ?E\<close> \<open>e \<noteq> t\<close> by blast
      ultimately show thesis by (rule that)
    qed
    then show "al_counts m' ! nat (i * ?E + e) = al_counts m ! nat (i * ?E + e)" by simp
  qed
  show "\<exists>n'. align_exec g x n = Inr n' \<and> column_view g stride t n' = column_view g stride t m'"
    if a: "align_exec g x m = Inr m'" and l: "length (al_counts n) = length (al_counts m)"
      and v: "column_view g stride t m = column_view g stride t n"
  proof -
    have t: "0 \<le> t" "t < ?E" using x by (simp_all add: column_step_def)
    have len': "int (length (al_counts n)) = (stride + 1) * ?E" using len l by simp
    define f where "f = (\<lambda>(m :: align_state) i. if x = Zero_Count t \<and> i = 0 then 0
        else if x = Add_Count (i * ?E + t) ((i - 1) * ?E + t) \<and> 1 \<le> i
        then int32 (al_counts m ! nat (i * ?E + t) + al_counts m ! nat ((i - 1) * ?E + t))
        else al_counts m ! nat (i * ?E + t))"
    obtain c where c: "align_exec g x m = Inr (m\<lparr>al_counts := c\<rparr>)" "\<forall>i. 0 \<le> i \<and> i \<le> stride \<longrightarrow> c ! nat (i * ?E + t) = f m i"
      using effect [OF len] t by (auto simp: f_def)
    obtain d where d: "align_exec g x n = Inr (n\<lparr>al_counts := d\<rparr>)" "\<forall>i. 0 \<le> i \<and> i \<le> stride \<longrightarrow> d ! nat (i * ?E + t) = f n i"
      using effect [OF len'] t by (auto simp: f_def)
    have same: "al_counts m ! nat (i * ?E + t) = al_counts n ! nat (i * ?E + t)" if "0 \<le> i" "i \<le> stride" for i
      using column_view_eqD [OF v that] .
    have "f n i = f m i" if "0 \<le> i" "i \<le> stride" for i
      using same [OF that] same [of "i - 1"] that by (simp add: f_def)
    then have "column_view g stride t (n\<lparr>al_counts := d\<rparr>) = column_view g stride t (m\<lparr>al_counts := c\<rparr>)"
      using c(2) d(2) by (intro column_view_eqI) simp
    then show ?thesis using d(1) c(1) a by auto
  qed
qed

lemma small_second_phase:
  assumes ok: "small_args_ok g stride" and fair: "fair sched"
    and len: "int (length (al_counts m)) = (stride + 1) * aa_num_experts g"
    and rows: "\<forall>t e. 0 \<le> t \<and> t < stride \<and> 0 \<le> e \<and> e < aa_num_experts g \<longrightarrow>
       al_counts m ! nat ((t + 1) * aa_num_experts g + e) = int (length (thread_tokens g stride t e))"
  shows "\<exists>c. run_phase sched g 1 (map (column_program g stride) [0..stride - 1]) m = Inr (m\<lparr>al_counts := c\<rparr>) \<and>
    length c = length (al_counts m) \<and>
    (\<forall>i e. 0 \<le> i \<and> i \<le> stride \<and> 0 \<le> e \<and> e < aa_num_experts g \<longrightarrow>
       c ! nat (i * aa_num_experts g + e) = tokens_before g stride i e)"
proof -
  let ?E = "aa_num_experts g"
  let ?ps = "map (column_program g stride) [0..stride - 1]"
  let ?xs = "sched 1 ?ps"
  define I where "I = (\<lambda>u. \<exists>c. u = m\<lparr>al_counts := c\<rparr> \<and> length c = length (al_counts m))"
  have pos: "0 \<le> stride" "0 < ?E" "?E \<le> stride" using ok by (simp_all add: small_args_ok_def align_args_ok_def)
  have prog: "?ps ! j = column_program g stride (int j)" if "j < length ?ps" for j
    using that by (simp add: nth_upto)
  have kind: "\<exists>t. column_step g stride t x" if "x \<in> set (concat ?ps)" for x
    using that column_program_steps by fastforce
  have lenI: "int (length (al_counts u)) = (stride + 1) * ?E" "length (al_counts u) = length (al_counts m)" if "I u" for u
    using that len by (auto simp: I_def)
  have step: "\<exists>u'. align_exec g x u = Inr u' \<and> I u'" if "x \<in> set (concat ?ps)" "I u" for x u
  proof -
    obtain t where "column_step g stride t x" using kind [OF \<open>x \<in> set (concat ?ps)\<close>] by blast
    from column_step_keeps(1) [OF this pos(1) lenI(1) [OF that(2)]] that(2) show ?thesis by (fastforce simp: I_def)
  qed
  have I: "I m" unfolding I_def by (rule exI [of _ "al_counts m"]) simp
  have set_xs: "set ?xs = set (concat ?ps)" unfolding run_phase_set(2) [OF fair] by simp
  obtain m' where run: "rfold (align_exec g) ?xs m = Inr m'" "I m'"
    using rfold_succeeds [of ?xs I "align_exec g" m] step set_xs I by auto
  have keep: "I u'" if "x \<in> set (concat ?ps)" "I u" "align_exec g x u = Inr u'" for x u u'
    using step [OF that(1,2)] that(3) by simp
  have columns: "al_counts m' ! nat (i * ?E + e) = tokens_before g stride i e"
    if i: "0 \<le> i" "i \<le> stride" and e: "0 \<le> e" "e < ?E" for i e
  proof -
    have j: "nat e < length ?ps" using e pos by simp
    have "\<exists>n'. rfold (align_exec g) (?ps ! nat e) m = Inr n' \<and> column_view g stride e n' = column_view g stride e m'"
    proof (rule interleave_region [where I = I and ps = ?ps and xs = ?xs and m = m])
      fix j x u u' assume a: "j < length ?ps" "j \<noteq> nat e" "x \<in> set (?ps ! j)" "I u" "align_exec g x u = Inr u'"
      have "column_step g stride (int j) x" using column_program_steps a(3) unfolding prog [OF a(1)] by simp
      moreover have "e \<noteq> int j" using a(2) by auto
      ultimately show "column_view g stride e u' = column_view g stride e u"
        using column_step_keeps(2) [OF _ pos(1) lenI(1) [OF a(4)] a(5) e] by blast
    next
      fix x u v u' assume a: "x \<in> set (?ps ! nat e)" "I u" "I v" "column_view g stride e u = column_view g stride e v"
        "align_exec g x u = Inr u'"
      have "column_step g stride e x" using column_program_steps a(1) e unfolding prog [OF j] by simp
      moreover have "length (al_counts v) = length (al_counts u)" using lenI(2) a(2,3) by simp
      ultimately show "\<exists>v'. align_exec g x v = Inr v' \<and> column_view g stride e v' = column_view g stride e u'"
        using column_step_keeps(3) [OF _ pos(1) lenI(1) [OF a(2)] a(5) _ a(4)] by blast
    qed (use run_phase_set(1) [OF fair] j keep run(1) I in simp_all)
    then obtain n' where n': "rfold (align_exec g) (column_program g stride e) m = Inr n'"
        "column_view g stride e n' = column_view g stride e m'"
      using e unfolding prog [OF j] by auto
    have "\<forall>t. 0 \<le> t \<and> t < stride \<longrightarrow> al_counts m ! nat ((t + 1) * ?E + e) = int (length (thread_tokens g stride t e))"
      using rows e by blast
    from column_program_run [OF ok e len this] obtain c where
      "n' = m\<lparr>al_counts := c\<rparr>" "c ! nat (i * ?E + e) = tokens_before g stride i e" using n'(1) i by auto
    then show ?thesis using column_view_eqD [OF n'(2) i] by simp
  qed
  obtain c where "m' = m\<lparr>al_counts := c\<rparr>" "length c = length (al_counts m)" using run(2) by (auto simp: I_def)
  then show ?thesis unfolding run_phase_def using run(1) columns by (intro exI [of _ c]) auto
qed

text \<open>The sum of the padded counts.\<close>

lemma sum_padded_eq:
  assumes ok: "small_args_ok g stride" and mem: "align_memory_ok g m"
    and len: "int (length (al_counts m)) = (stride + 1) * aa_num_experts g"
    and c: "\<forall>e. 0 \<le> e \<and> e < aa_num_experts g \<longrightarrow>
       al_counts m ! nat (stride * aa_num_experts g + e) = int (length (expert_tokens g e))"
  shows "sum_padded g stride m = Inr (m\<lparr>al_cumsum := map (block_start g) [0..aa_num_experts g],
    al_total_tokens_post_pad := (al_total_tokens_post_pad m)[0 := block_start g (aa_num_experts g)]\<rparr>)"
proof -
  let ?E = "aa_num_experts g"
  let ?B = "aa_block_size g"
  have B: "0 < ?B" and E: "0 < ?E" "?E \<le> stride"
    using ok by (simp_all add: small_args_ok_def align_args_ok_def)
  let ?step = "\<lambda>i c. rbind (array_load c (i - 1)) (\<lambda>a. rbind (array_load (al_counts m) (stride * ?E + i - 1)) (\<lambda>n.
         array_store c i (int32 (a + CEILDIV n ?B * ?B))))"
  have cum: "int (length (al_cumsum m)) = ?E + 1" using mem by (simp add: align_memory_ok_def)
  have small: "int32 (block_start g e) = block_start g e" if "e \<le> ?E" for e
    using block_start_nonneg [OF B, of e] block_start_mono [OF B that] mem B
    by (intro int32_id) (simp_all add: align_memory_ok_def)
  have "\<exists>s. rfold ?step [1..k] ((al_cumsum m)[0 := 0]) = Inr s \<and> length s = length (al_cumsum m) \<and>
      (\<forall>e. 0 \<le> e \<and> e \<le> k \<longrightarrow> s ! nat e = block_start g e)" if "0 \<le> k" "k \<le> ?E" for k
    using that
  proof (induction k rule: int_ge_induct)
    case base
    have "0 < length (al_cumsum m)" using cum E by linarith
    then show ?case by (simp add: block_start_def)
  next
    case (step k)
    then obtain s where s: "rfold ?step [1..k] ((al_cumsum m)[0 := 0]) = Inr s" "length s = length (al_cumsum m)"
        "\<forall>e. 0 \<le> e \<and> e \<le> k \<longrightarrow> s ! nat e = block_start g e" by auto
    have k: "0 \<le> k" "k < ?E" using step by simp_all
    have "array_load s k = Inr (block_start g k)" using s k cum by (simp add: array_load_def in_array_def)
    moreover have "array_load (al_counts m) (stride * ?E + k) = Inr (int (length (expert_tokens g k)))"
    proof -
      have "0 \<le> stride * ?E" using E by simp
      then show ?thesis using c k len by (simp add: array_load_def in_array_def algebra_simps)
    qed
    moreover have "block_start g k + CEILDIV (int (length (expert_tokens g k))) ?B * ?B = block_start g (k + 1)"
      using B k by (simp add: block_start_Suc padded_tokens_def CEILDIV_def sdiv_nonneg)
    moreover have "stride * ?E + (k + 1) - 1 = stride * ?E + k" by simp
    ultimately have "?step (k + 1) s = array_store s (k + 1) (block_start g (k + 1))"
      using small [of "k + 1"] k by (simp only: add_diff_cancel_right' rbind_Inr)
    moreover have "array_store s (k + 1) (block_start g (k + 1)) = Inr (s[nat (k + 1) := block_start g (k + 1)])"
      using k s(2) cum by (simp add: array_store_def in_array_def)
    moreover have "[1..k + 1] = [1..k] @ [k + 1]" using k upto_rec2 [of 1 "k + 1"] by simp
    ultimately have run: "rfold ?step [1..k + 1] ((al_cumsum m)[0 := 0]) = Inr (s[nat (k + 1) := block_start g (k + 1)])"
      using s(1) by (simp only: rfold_append rbind_Inr rfold.simps)
    have "s[nat (k + 1) := block_start g (k + 1)] ! nat e = block_start g e" if "0 \<le> e" "e \<le> k + 1" for e
      using s(2,3) that k cum nth_store [of "k + 1" s e "block_start g (k + 1)"] by simp
    then show ?case using run s(2) by (intro exI [of _ "s[nat (k + 1) := block_start g (k + 1)]"]) simp
  qed
  from this [of ?E] E obtain s where s: "rfold ?step [1..?E] ((al_cumsum m)[0 := 0]) = Inr s" "length s = length (al_cumsum m)"
      "\<forall>e. 0 \<le> e \<and> e \<le> ?E \<longrightarrow> s ! nat e = block_start g e" by auto
  have "s = map (block_start g) [0..?E]"
  proof (rule nth_equalityI)
    fix i assume "i < length s"
    then have "int i \<le> ?E" using s(2) cum by simp
    then show "s ! i = map (block_start g) [0..?E] ! i" using s(3) [rule_format, of "int i"] by (simp add: nth_upto)
  qed (use s(2) cum in simp)
  moreover have "array_store (al_cumsum m) 0 0 = Inr ((al_cumsum m)[0 := 0])"
    using cum E by (simp add: array_store_def in_array_def)
  moreover have "array_load s ?E = Inr (block_start g ?E)" using s cum E by (simp add: array_load_def in_array_def)
  moreover have "array_store (al_total_tokens_post_pad m) 0 (block_start g ?E) =
      Inr ((al_total_tokens_post_pad m)[0 := block_start g ?E])"
    using mem by (simp add: align_memory_ok_def array_store_def in_array_def)
  ultimately show ?thesis unfolding sum_padded_def by (simp add: s(1))
qed

text \<open>The last phase: the blocks are named and the tokens placed.\<close>

lemma set_expert_frame:
  assumes "\<forall>x \<in> set xs. \<exists>b e. x = Set_Expert b e"
    and "rfold (align_exec g) xs m = Inr (m\<lparr>al_expert_ids := x\<rparr>)" and "al_expert_ids n = al_expert_ids m"
  shows "rfold (align_exec g) xs n = Inr (n\<lparr>al_expert_ids := x\<rparr>)"
  using assms
proof (induction xs arbitrary: m n)
  case Nil
  have "al_expert_ids m = al_expert_ids (m\<lparr>al_expert_ids := x\<rparr>)" using Nil by simp
  then show ?case using Nil by simp
next
  case (Cons y xs)
  obtain b e where y: "y = Set_Expert b e" using Cons.prems(1) by auto
  obtain a where a: "array_store (al_expert_ids m) b e = Inr a"
      "rfold (align_exec g) xs (m\<lparr>al_expert_ids := a\<rparr>) = Inr (m\<lparr>al_expert_ids := x\<rparr>)"
    using Cons.prems(2) by (auto simp: y rbind_eq_Inr_iff)
  have "rfold (align_exec g) xs (n\<lparr>al_expert_ids := a\<rparr>) = Inr (n\<lparr>al_expert_ids := a, al_expert_ids := x\<rparr>)"
  proof (rule Cons.IH)
    show "\<forall>x \<in> set xs. \<exists>b e. x = Set_Expert b e" using Cons.prems(1) by simp
    show "rfold (align_exec g) xs (m\<lparr>al_expert_ids := a\<rparr>) = Inr (m\<lparr>al_expert_ids := a, al_expert_ids := x\<rparr>)"
      using a(2) by simp
  qed simp
  then show ?case using a(1) Cons.prems(3) by (simp add: y)
qed

definition row_key :: "align_args \<Rightarrow> int \<Rightarrow> int \<Rightarrow> int option" where
  "row_key g stride i = map_option (\<lambda>e. i mod stride * aa_num_experts g + e) (token_expert g i)"

definition row_start :: "align_args \<Rightarrow> int \<Rightarrow> int" where
  "row_start g b = block_start g (b mod aa_num_experts g)"

abbreviation place_own :: "int \<Rightarrow> int \<Rightarrow> align_step" where
  "place_own stride i \<equiv> Place_Row (i mod stride) i"

lemma array_store_Inr:
  "array_store a i v = Inr b \<Longrightarrow> 0 \<le> i \<and> i < int (length a) \<and> b = a[nat i := v]"
  by (simp add: array_store_def in_array_def split: if_splits)

lemma place_own_sim:
  assumes ok: "small_args_ok g stride" and i: "0 \<le> i" "i < aa_numel g"
    and cum: "al_cumsum m = map (block_start g) [0..aa_num_experts g]" and len: "int (length (al_sorted_token_ids m)) < 2 ^ 31"
    and run: "place_at (row_key g stride) (row_start g) i (al_counts m, al_sorted_token_ids m) = Inr (c, d)"
  shows "align_exec g (place_own stride i) m = Inr (m\<lparr>al_counts := c, al_sorted_token_ids := d\<rparr>)"
    and "length d = length (al_sorted_token_ids m)"
proof -
  have ok': "align_args_ok g" using ok by (simp add: small_args_ok_def)
  have "align_exec g (place_own stride i) m = Inr (m\<lparr>al_counts := c, al_sorted_token_ids := d\<rparr>) \<and>
      length d = length (al_sorted_token_ids m)"
  proof (cases "token_expert g i")
    case None
    then show ?thesis using run by (simp add: place_at_def row_key_def place_row_def small_expert_some(1) [OF ok i])
  next
    case (Some e)
    let ?b = "i mod stride * aa_num_experts g + e"
    have e: "0 \<le> e" "e < aa_num_experts g" using small_expert_some(2) [OF ok i Some] by simp_all
    have key: "row_key g stride i = Some ?b" "row_start g ?b = block_start g e"
      using Some digit_div_mod(2) [OF e] by (simp_all add: row_key_def row_start_def)
    obtain old where add: "atomic_add (al_counts m) ?b 1 = Inr (old, c)"
      and store: "array_store (al_sorted_token_ids m) (old + block_start g e) i = Inr d"
      using run by (auto simp: place_at_def key rbind_eq_Inr_iff)
    note st = array_store_Inr [OF store]
    have "int32 (old + block_start g e) = old + block_start g e" using st len by (intro int32_id) simp_all
    moreover have "array_load (al_cumsum m) e = Inr (block_start g e)"
      using e unfolding cum by (simp add: array_load_def in_array_def nth_upto)
    ultimately show ?thesis
      using add store st by (simp add: place_row_def small_expert_some(1) [OF ok i] Some numel_int32 [OF ok' i])
  qed
  then show "align_exec g (place_own stride i) m = Inr (m\<lparr>al_counts := c, al_sorted_token_ids := d\<rparr>)"
    and "length d = length (al_sorted_token_ids m)" by simp_all
qed

lemma last_phase_run:
  assumes ok: "small_args_ok g stride"
    and steps: "\<forall>x \<in> set xs. \<not> (\<exists>b e. x = Set_Expert b e) \<longrightarrow> (\<exists>i. x = place_own stride i \<and> 0 \<le> i \<and> i < aa_numel g)"
    and cum: "al_cumsum m = map (block_start g) [0..aa_num_experts g]" and len: "int (length (al_sorted_token_ids m)) < 2 ^ 31"
    and experts: "rfold (align_exec g) (filter (\<lambda>x. \<exists>b e. x = Set_Expert b e) xs) m = Inr (m\<lparr>al_expert_ids := x\<rparr>)"
    and tokens: "filter (\<lambda>x. \<not> (\<exists>b e. x = Set_Expert b e)) xs = map (place_own stride) ys"
      "rfold (place_at (row_key g stride) (row_start g)) ys (al_counts m, al_sorted_token_ids m) = Inr (c, d)"
  shows "rfold (align_exec g) xs m = Inr (m\<lparr>al_expert_ids := x, al_counts := c, al_sorted_token_ids := d\<rparr>)"
  using steps cum len experts tokens
proof (induction xs arbitrary: m ys)
  case Nil
  then have "m = m\<lparr>al_expert_ids := x\<rparr>" "m = m\<lparr>al_counts := c, al_sorted_token_ids := d\<rparr>" by simp_all
  then have "m = m\<lparr>al_expert_ids := x, al_counts := c, al_sorted_token_ids := d\<rparr>" by simp
  then show ?case by simp
next
  case (Cons y xs)
  have rest: "\<forall>x \<in> set xs. \<not> (\<exists>b e. x = Set_Expert b e) \<longrightarrow> (\<exists>i. x = place_own stride i \<and> 0 \<le> i \<and> i < aa_numel g)"
    using Cons.prems(1) by simp
  show ?case
  proof (cases "\<exists>b e. y = Set_Expert b e")
    case True
    then obtain b e where y: "y = Set_Expert b e" by blast
    obtain a where a: "array_store (al_expert_ids m) b e = Inr a"
        "rfold (align_exec g) (filter (\<lambda>x. \<exists>b e. x = Set_Expert b e) xs) (m\<lparr>al_expert_ids := a\<rparr>) = Inr (m\<lparr>al_expert_ids := x\<rparr>)"
      using Cons.prems(4) by (auto simp: y rbind_eq_Inr_iff)
    have "rfold (align_exec g) xs (m\<lparr>al_expert_ids := a\<rparr>) =
        Inr (m\<lparr>al_expert_ids := a, al_expert_ids := x, al_counts := c, al_sorted_token_ids := d\<rparr>)"
      by (rule Cons.IH [OF rest]) (use Cons.prems a(2) y in simp_all)
    then show ?thesis using a(1) by (simp add: y)
  next
    case False
    then obtain i where y: "y = place_own stride i" "0 \<le> i" "i < aa_numel g" using Cons.prems(1) by auto
    obtain zs where ys: "ys = i # zs" "filter (\<lambda>x. \<not> (\<exists>b e. x = Set_Expert b e)) xs = map (place_own stride) zs"
      using Cons.prems(5) y(1) by (cases ys) auto
    obtain c1 d1 where one: "place_at (row_key g stride) (row_start g) i (al_counts m, al_sorted_token_ids m) = Inr (c1, d1)"
      and more: "rfold (place_at (row_key g stride) (row_start g)) zs (c1, d1) = Inr (c, d)"
      using Cons.prems(6) by (auto simp: ys(1) rbind_eq_Inr_iff)
    note s = place_own_sim [OF ok y(2,3) Cons.prems(2,3) one]
    let ?m = "m\<lparr>al_counts := c1, al_sorted_token_ids := d1\<rparr>"
    have "rfold (align_exec g) (filter (\<lambda>x. \<exists>b e. x = Set_Expert b e) xs) ?m = Inr (?m\<lparr>al_expert_ids := x\<rparr>)"
      by (rule set_expert_frame [of _ _ m]) (use Cons.prems(4) y(1) in simp_all)
    then have "rfold (align_exec g) xs ?m = Inr (?m\<lparr>al_expert_ids := x, al_counts := c, al_sorted_token_ids := d\<rparr>)"
      by (intro Cons.IH [OF rest _ _ _ ys(2)]) (use Cons.prems(2,3) s(2) more in simp_all)
    then show ?thesis using s(1) unfolding y(1) by (simp del: align_exec.simps)
  qed
qed


text \<open>The rows as buckets.\<close>

lemma row_key_iff:
  assumes ok: "small_args_ok g stride" and i: "0 \<le> i" "i < aa_numel g" and e: "0 \<le> e" "e < aa_num_experts g"
  shows "row_key g stride i = Some (j * aa_num_experts g + e) \<longleftrightarrow> i mod stride = j \<and> token_expert g i = Some e"
proof (cases "token_expert g i")
  case (Some d)
  note d = small_expert_some(2) [OF ok i Some]
  show ?thesis using digit_inject [of d "aa_num_experts g" e "i mod stride" j] d e Some by (auto simp: row_key_def)
qed (simp add: row_key_def)

lemma row_arrivals:
  assumes ok: "small_args_ok g stride" and ys: "mset ys = mset [0..aa_numel g - 1]" and e: "0 \<le> e" "e < aa_num_experts g"
  shows "0 \<le> j \<Longrightarrow> j < stride \<Longrightarrow>
      mset (arrivals (row_key g stride) (j * aa_num_experts g + e) ys) = mset (thread_tokens g stride j e)"
    and "stride \<le> j \<Longrightarrow> arrivals (row_key g stride) (j * aa_num_experts g + e) ys = []"
proof -
  have pos: "0 < stride" using ok e by (simp add: small_args_ok_def)
  have set_ys: "set ys = {0..aa_numel g - 1}" using mset_eq_setD [OF ys] by simp
  have key: "row_key g stride i = Some (j * aa_num_experts g + e) \<longleftrightarrow> i mod stride = j \<and> token_expert g i = Some e"
    if "i \<in> set ys" for i
    using row_key_iff [OF ok _ _ e, of i j] that set_ys by simp
  show "arrivals (row_key g stride) (j * aa_num_experts g + e) ys = []" if "stride \<le> j"
  proof -
    have "i mod stride \<noteq> j" for i using pos_mod_bound [OF pos, of i] that by linarith
    then show ?thesis using key by (simp add: arrivals_def filter_empty_conv)
  qed
  show "mset (arrivals (row_key g stride) (j * aa_num_experts g + e) ys) = mset (thread_tokens g stride j e)"
    if j: "0 \<le> j" "j < stride"
  proof -
    have mod: "i mod stride = j \<longleftrightarrow> j \<le> i \<and> stride dvd i - j" if "0 \<le> i" for i
    proof
      assume a: "i mod stride = j"
      then show "j \<le> i \<and> stride dvd i - j" using pos that zmod_le_nonneg_dividend [OF that, of stride] by auto
    next
      assume "j \<le> i \<and> stride dvd i - j"
      then have "i mod stride = j mod stride" by (simp add: mod_eq_dvd_iff)
      then show "i mod stride = j" using j by simp
    qed
    have "distinct ys" using ys mset_eq_imp_distinct_iff [OF ys] by simp
    then have "distinct (arrivals (row_key g stride) (j * aa_num_experts g + e) ys)"
      "distinct (thread_tokens g stride j e)" by (simp_all add: arrivals_def thread_tokens_def distinct_stride_loop)
    moreover have "set (arrivals (row_key g stride) (j * aa_num_experts g + e) ys) = set (thread_tokens g stride j e)"
    proof -
      have "i \<in> set ys \<and> i mod stride = j \<longleftrightarrow> i \<in> set (stride_loop j stride (aa_numel g))" for i
        using mod [of i] j pos by (auto simp: set_ys set_stride_loop)
      then show ?thesis using key by (auto simp: arrivals_def thread_tokens_def)
    qed
    ultimately show ?thesis using set_eq_iff_mset_eq_distinct by blast
  qed
qed

lemma tokens_before_Suc_row:
  assumes "small_args_ok g stride" "mset ys = mset [0..aa_numel g - 1]" "0 \<le> e" "e < aa_num_experts g" "0 \<le> j" "j \<le> stride"
  shows "tokens_before g stride j e + int (length (arrivals (row_key g stride) (j * aa_num_experts g + e) ys)) =
    tokens_before g stride (min (j + 1) stride) e"
proof (cases "j = stride")
  case True
  then show ?thesis using row_arrivals(2) [OF assms(1-4), of j] by simp
next
  case False
  then show ?thesis
    using mset_eq_length [OF row_arrivals(1) [OF assms(1-5)]] assms(6) tokens_before_Suc [OF assms(5), of g stride e] by simp
qed

lemma row_buckets:
  assumes ok: "small_args_ok g stride" and ys: "mset ys = mset [0..aa_numel g - 1]"
    and room: "block_start g (aa_num_experts g) \<le> int (length d)"
    and len: "int (length c) = (stride + 1) * aa_num_experts g"
    and c: "\<forall>i e. 0 \<le> i \<and> i \<le> stride \<and> 0 \<le> e \<and> e < aa_num_experts g \<longrightarrow>
       c ! nat (i * aa_num_experts g + e) = tokens_before g stride i e"
  shows "buckets_ok (row_key g stride) (row_start g) ys (c, d)"
    and "in_array c b \<Longrightarrow> \<exists>j e. b = j * aa_num_experts g + e \<and> 0 \<le> j \<and> j \<le> stride \<and> 0 \<le> e \<and> e < aa_num_experts g \<and>
      c ! nat b + row_start g b = block_start g e + tokens_before g stride j e"
proof -
  let ?E = "aa_num_experts g"
  let ?n = "\<lambda>b. int (length (arrivals (row_key g stride) b ys))"
  have B: "0 < aa_block_size g" and E: "0 < ?E" "?E \<le> stride"
    using ok by (simp_all add: small_args_ok_def align_args_ok_def)
  have set_ys: "set ys = {0..aa_numel g - 1}" using mset_eq_setD [OF ys] by simp
  have split: "\<exists>j e. b = j * ?E + e \<and> 0 \<le> j \<and> j \<le> stride \<and> 0 \<le> e \<and> e < ?E" if "in_array c b" for b
  proof (intro exI conjI)
    have b: "0 \<le> b" "b < (stride + 1) * ?E" using that len by (simp_all add: in_array_def)
    show "b = b div ?E * ?E + b mod ?E" by simp
    show "0 \<le> b div ?E" using b E by (simp add: pos_imp_zdiv_nonneg_iff)
    show "b div ?E \<le> stride"
    proof (rule ccontr)
      assume "\<not> b div ?E \<le> stride"
      then have "(stride + 1) * ?E \<le> b div ?E * ?E" using E by (intro mult_right_mono) simp_all
      moreover have "b div ?E * ?E \<le> b" using E by (simp flip: minus_mod_eq_div_mult)
      ultimately show False using b by simp
    qed
  qed (use E in simp_all)
  have cell: "c ! nat (j * ?E + e) = tokens_before g stride j e" "row_start g (j * ?E + e) = block_start g e"
      "in_array c (j * ?E + e)"
    if "0 \<le> j" "j \<le> stride" "0 \<le> e" "e < ?E" for j e
    using c that digit_div_mod(2) [OF that(3,4), of j] cell_range [OF that len]
    by (simp_all add: row_start_def in_array_def)
  have upper: "tokens_before g stride j e + ?n (j * ?E + e) = tokens_before g stride (min (j + 1) stride) e"
    "tokens_before g stride j e + ?n (j * ?E + e) \<le> int (length (expert_tokens g e))"
    "tokens_before g stride j e + ?n (j * ?E + e) < 2 ^ 31"
    if "0 \<le> j" "j \<le> stride" "0 \<le> e" "e < ?E" for j e
  proof -
    show t: "tokens_before g stride j e + ?n (j * ?E + e) = tokens_before g stride (min (j + 1) stride) e"
      by (rule tokens_before_Suc_row [OF ok ys that(3,4,1,2)])
    show "tokens_before g stride j e + ?n (j * ?E + e) \<le> int (length (expert_tokens g e))"
      "tokens_before g stride j e + ?n (j * ?E + e) < 2 ^ 31"
      unfolding t using tokens_before_small [OF ok, of "min (j + 1) stride" e] that E by simp_all
  qed
  have fits: "block_start g e + int (length (expert_tokens g e)) \<le> block_start g (e + 1)" if "0 \<le> e" for e
    using padded_tokens_ge(1) [OF B, of e] that by (simp add: block_start_Suc)
  show "\<exists>j e. b = j * ?E + e \<and> 0 \<le> j \<and> j \<le> stride \<and> 0 \<le> e \<and> e < ?E \<and>
      c ! nat b + row_start g b = block_start g e + tokens_before g stride j e" if "in_array c b"
    using split [OF that] cell by fastforce
  show "buckets_ok (row_key g stride) (row_start g) ys (c, d)"
    unfolding buckets_ok_def fst_conv snd_conv
  proof (intro conjI allI ballI impI)
    fix z b assume z: "z \<in> set ys" "row_key g stride z = Some b"
    then obtain e where e: "token_expert g z = Some e" "b = z mod stride * ?E + e" by (auto simp: row_key_def)
    have "0 \<le> e \<and> e < ?E" using small_expert_some(2) [OF ok _ _ e(1)] z(1) set_ys by simp
    moreover have "0 \<le> z mod stride \<and> z mod stride < stride" using E by simp
    ultimately show "in_array c b" unfolding e(2) using cell(3) [of "z mod stride" e] by simp
  next
    fix b assume "in_array c b"
    then obtain j e where b: "b = j * ?E + e" and r: "0 \<le> j" "j \<le> stride" "0 \<le> e" "e < ?E" using split by blast
    note n = tokens_before_nonneg [of g stride j e] and s = block_start_nonneg [OF B, of e]
    show "- (2 ^ 31) \<le> c ! nat b" unfolding b cell(1) [OF r] using n by simp
    show "c ! nat b + ?n b < 2 ^ 31" unfolding b cell(1) [OF r] by (rule upper(3) [OF r])
    show "0 \<le> c ! nat b + row_start g b" unfolding b cell(1,2) [OF r] using n s by simp
    show "c ! nat b + row_start g b + ?n b \<le> int (length d)"
      unfolding b cell(1,2) [OF r] using upper(2) [OF r] fits [OF r(3)] block_start_mono [OF B, of "e + 1" ?E] r(4) room by simp
  next
    fix b b' assume a: "in_array c b \<and> in_array c b' \<and> b \<noteq> b'"
    obtain j e where b: "b = j * ?E + e" and r: "0 \<le> j" "j \<le> stride" "0 \<le> e" "e < ?E" using split a by blast
    obtain j' e' where b': "b' = j' * ?E + e'" and r': "0 \<le> j'" "j' \<le> stride" "0 \<le> e'" "e' < ?E" using split a by blast
    note n = tokens_before_nonneg [of g stride j e] tokens_before_nonneg [of g stride j' e']
    consider "e < e'" | "e' < e" | "e = e'" "j < j'" | "e = e'" "j' < j" using a b b' by (metis linorder_neqE)
    then show "c ! nat b + row_start g b + ?n b \<le> c ! nat b' + row_start g b' \<or>
        c ! nat b' + row_start g b' + ?n b' \<le> c ! nat b + row_start g b"
    proof cases
      case 1
      then show ?thesis unfolding b b' cell(1,2) [OF r] cell(1,2) [OF r']
        using n upper(2) [OF r] fits [OF r(3)] block_start_mono [OF B, of "e + 1" e'] by simp
    next
      case 2
      then show ?thesis unfolding b b' cell(1,2) [OF r] cell(1,2) [OF r']
        using n upper(2) [OF r'] fits [OF r'(3)] block_start_mono [OF B, of "e' + 1" e] by simp
    next
      case 3
      then show ?thesis unfolding b b' cell(1,2) [OF r] cell(1,2) [OF r']
        using upper(1) [OF r] tokens_before_mono [of "min (j + 1) stride" j' g stride e] r' by simp
    next
      case 4
      then show ?thesis unfolding b b' cell(1,2) [OF r] cell(1,2) [OF r']
        using upper(1) [OF r'] tokens_before_mono [of "min (j' + 1) stride" j g stride e] r by simp
    qed
  qed
qed

lemma slice_append:
  assumes "0 \<le> n" and "0 \<le> k"
  shows "slice xs a (n + k) = slice xs a n @ slice xs (a + n) k"
  using upto_split1 [of a "a + n" "a + (n + k) - 1"] assms
  by (cases "k = 0") (simp_all add: slice_def algebra_simps)

text \<open>The rows of an expert, one after the other, are its tokens.\<close>

lemma slices_mset:
  assumes "\<And>j. 0 \<le> j \<Longrightarrow> j < stride \<Longrightarrow>
      mset (slice d (a + tokens_before g stride j e) (int (length (thread_tokens g stride j e)))) = mset (thread_tokens g stride j e)"
    and "0 < stride"
  shows "mset (slice d a (int (length (expert_tokens g e)))) = mset (expert_tokens g e)"
proof -
  have "mset (slice d a (tokens_before g stride k e)) = mset (concat (map (\<lambda>t. thread_tokens g stride t e) [0..k - 1]))"
    if "0 \<le> k" "k \<le> stride" for k
    using that
  proof (induction k rule: int_ge_induct)
    case base
    then show ?case by (simp add: slice_def)
  next
    case (step k)
    have "[0..k + 1 - 1] = [0..k - 1] @ [k]" using step.hyps upto_rec2 [of 0 k] by simp
    then show ?case
      using step assms(1) [OF step.hyps]
      by (simp only: tokens_before_Suc slice_append [OF tokens_before_nonneg] map_append concat_append mset_append) simp
  qed
  from this [of stride] assms(2) show ?thesis
    using thread_tokens_mset [OF assms(2)] by (simp add: tokens_before_all)
qed

lemma stride_mod:
  assumes "0 \<le> t" "t < stride" and "i \<in> set (stride_loop t stride n)"
  shows "i mod stride = t" and "0 \<le> i" and "i < n"
proof -
  have i: "t \<le> i" "i < n" "stride dvd i - t" using assms by (simp_all add: set_stride_loop)
  then have "i mod stride = t mod stride" by (simp add: mod_eq_dvd_iff)
  then show "i mod stride = t" "0 \<le> i" "i < n" using assms(1,2) i by simp_all
qed

lemma last_phase_steps:
  assumes fair: "fair sched" and pos: "0 < stride"
    and ps: "ps = map (\<lambda>t. expert_steps g stride nb t @ map (Place_Row t) (stride_loop t stride (aa_numel g))) [0..stride - 1]"
  shows "set (filter (\<lambda>x. \<exists>b e. x = Set_Expert b e) (sched n ps)) = (\<Union>t \<in> {0..stride - 1}. set (expert_steps g stride nb t))"
    and "\<exists>ys. filter (\<lambda>x. \<not> (\<exists>b e. x = Set_Expert b e)) (sched n ps) = map (place_own stride) ys \<and>
      mset ys = mset [0..aa_numel g - 1]"
proof -
  let ?P = "\<lambda>x. \<exists>b e. x = Set_Expert b e"
  have own: "map (Place_Row t) (stride_loop t stride (aa_numel g)) = map (place_own stride) (stride_loop t stride (aa_numel g))"
    if "t \<in> set [0..stride - 1]" for t
    using stride_mod [of t stride] that by simp
  have experts: "?P x" if "x \<in> set (expert_steps g stride nb t)" for x t
    using that by (auto simp: expert_steps_def split: if_splits)
  have "set (sched n ps) = (\<Union>t \<in> {0..stride - 1}. set (expert_steps g stride nb t) \<union>
      Place_Row t ` set (stride_loop t stride (aa_numel g)))"
    unfolding run_phase_set(2) [OF fair] ps by simp
  then show "set (filter ?P (sched n ps)) = (\<Union>t \<in> {0..stride - 1}. set (expert_steps g stride nb t))"
    using experts by auto
  have "mset (filter (\<lambda>x. \<not> ?P x) (sched n ps)) = mset (filter (\<lambda>x. \<not> ?P x) (concat ps))"
    using interleave_mset [OF run_phase_set(1) [OF fair, of ps n]] by simp
  moreover have "filter (\<lambda>x. \<not> ?P x) (concat ps) = concat (map (filter (\<lambda>x. \<not> ?P x)) ps)"
    by (rule filter_concat)
  moreover have "map (filter (\<lambda>x. \<not> ?P x)) ps = map (\<lambda>t. map (place_own stride) (stride_loop t stride (aa_numel g))) [0..stride - 1]"
    unfolding ps map_map
  proof (rule map_cong [OF refl])
    fix t assume t: "t \<in> set [0..stride - 1]"
    have "filter (\<lambda>x. \<not> ?P x) (expert_steps g stride nb t) = []"
      using experts by (simp only: filter_empty_conv) blast
    moreover have "filter (\<lambda>x. \<not> ?P x) (map (place_own stride) zs) = map (place_own stride) zs" for zs
      by (simp add: filter_map comp_def)
    ultimately show "(filter (\<lambda>x. \<not> ?P x) \<circ> (\<lambda>t. expert_steps g stride nb t @
        map (Place_Row t) (stride_loop t stride (aa_numel g)))) t = map (place_own stride) (stride_loop t stride (aa_numel g))"
      unfolding comp_def filter_append own [OF t] by simp
  qed
  moreover have "concat (map (\<lambda>t. map (place_own stride) (stride_loop t stride (aa_numel g))) [0..stride - 1]) =
      map (place_own stride) (concat (map (\<lambda>t. stride_loop t stride (aa_numel g)) [0..stride - 1]))"
    by (simp add: map_concat comp_def)
  ultimately have "mset (filter (\<lambda>x. \<not> ?P x) (sched n ps)) =
      mset (map (place_own stride) (concat (map (\<lambda>t. stride_loop t stride (aa_numel g)) [0..stride - 1])))" by (simp only:)
  from mset_map_list [OF this] show "\<exists>ys. filter (\<lambda>x. \<not> ?P x) (sched n ps) = map (place_own stride) ys \<and>
      mset ys = mset [0..aa_numel g - 1]"
    using stride_programs_mset [OF pos] by auto
qed

lemma align_small_aligned:
  assumes ok: "small_args_ok g stride" and fair: "fair sched"
    and counts: "int (length (al_counts m)) = (stride + 1) * aa_num_experts g"
    and mem: "align_memory_ok g m"
  shows "\<exists>m'. align_small sched g stride m = Inr m' \<and> aligned g m' \<and>
    length (al_sorted_token_ids m') = length (al_sorted_token_ids m) \<and> length (al_expert_ids m') = length (al_expert_ids m)"
proof -
  let ?E = "aa_num_experts g"
  let ?M = "int (length (al_sorted_token_ids m))"
  let ?nb = "CEILDIV ?M (aa_block_size g)"
  have B: "0 < aa_block_size g" and E: "0 < ?E" "?E \<le> stride" "0 < stride"
    using ok by (simp_all add: small_args_ok_def align_args_ok_def)
  have room: "block_start g ?E \<le> ?M" "?M < 2 ^ 31" "int (length (al_expert_ids m)) = ?nb"
    using mem B by (simp_all add: align_memory_ok_def)
  obtain m1 where p0: "run_phase sched g 0 (map (\<lambda>t. fill_program kFillThreads t m) [0..kFillThreads - 1] @
      map (row_count_program g stride) [0..stride - 1]) m = Inr m1" and s1: "same_sizes m m1"
    and fill: "\<forall>p. 0 \<le> p \<and> p < ?M \<longrightarrow> al_sorted_token_ids m1 ! nat p = aa_numel g"
    and rows: "\<forall>t e. 0 \<le> t \<and> t < stride \<and> 0 \<le> e \<and> e < ?E \<longrightarrow>
       al_counts m1 ! nat ((t + 1) * ?E + e) = int (length (thread_tokens g stride t e))"
    using small_first_phase [OF ok fair counts] by blast
  have len1: "int (length (al_counts m1)) = (stride + 1) * ?E" using s1 counts by (simp add: same_sizes_def)
  obtain c where p1: "run_phase sched g 1 (map (column_program g stride) [0..stride - 1]) m1 = Inr (m1\<lparr>al_counts := c\<rparr>)"
    and c: "length c = length (al_counts m1)" "\<forall>i e. 0 \<le> i \<and> i \<le> stride \<and> 0 \<le> e \<and> e < ?E \<longrightarrow>
       c ! nat (i * ?E + e) = tokens_before g stride i e"
    using small_second_phase [OF ok fair len1 rows] by blast
  define m2 where "m2 = m1\<lparr>al_counts := c\<rparr>"
  have mem2: "align_memory_ok g m2" using mem s1 by (simp add: align_memory_ok_def same_sizes_def m2_def)
  have len2: "int (length (al_counts m2)) = (stride + 1) * ?E" using len1 c(1) by (simp add: m2_def)
  have last: "\<forall>e. 0 \<le> e \<and> e < ?E \<longrightarrow> al_counts m2 ! nat (stride * ?E + e) = int (length (expert_tokens g e))"
    using c(2) E by (simp add: m2_def tokens_before_all)
  define m3 where "m3 = m2\<lparr>al_cumsum := map (block_start g) [0..?E],
    al_total_tokens_post_pad := (al_total_tokens_post_pad m2)[0 := block_start g ?E]\<rparr>"
  have p2: "sum_padded g stride m2 = Inr m3" unfolding m3_def by (rule sum_padded_eq [OF ok mem2 len2 last])
  have f3: "al_counts m3 = c" "al_cumsum m3 = map (block_start g) [0..?E]" "al_expert_ids m3 = al_expert_ids m"
    "al_sorted_token_ids m3 = al_sorted_token_ids m1" "length (al_sorted_token_ids m3) = length (al_sorted_token_ids m)"
    "al_total_tokens_post_pad m3 = (al_total_tokens_post_pad m)[0 := block_start g ?E]"
    using s1 by (simp_all add: m3_def m2_def same_sizes_def)
  let ?ps = "map (\<lambda>t. expert_steps g stride ?nb t @ map (Place_Row t) (stride_loop t stride (aa_numel g))) [0..stride - 1]"
  have progs: "rmap (\<lambda>t. rbind (expert_program g stride t m3) (\<lambda>p.
      Inr (p @ map (Place_Row t) (stride_loop t stride (aa_numel g))))) [0..stride - 1] = Inr ?ps"
  proof (rule rmap_total)
    fix t assume "t \<in> set [0..stride - 1]"
    then show "rbind (expert_program g stride t m3) (\<lambda>p. Inr (p @ map (Place_Row t) (stride_loop t stride (aa_numel g)))) =
        Inr (expert_steps g stride ?nb t @ map (Place_Row t) (stride_loop t stride (aa_numel g)))"
      using expert_program_eq [OF f3(2) E(1), of t stride] f3(5) by simp
  qed
  let ?xs = "sched 2 ?ps"
  note steps = last_phase_steps [OF fair E(3) refl, where g = g and nb = ?nb and n = 2]
  obtain x where x: "rfold (align_exec g) (filter (\<lambda>x. \<exists>b e. x = Set_Expert b e) ?xs) m3 = Inr (m3\<lparr>al_expert_ids := x\<rparr>)"
    "length x = length (al_expert_ids m3)" "\<forall>b e. block_of g b e \<and> b < ?nb \<longrightarrow> x ! nat b = e"
    using expert_steps_functional [OF B E(1,2) room(1) steps(1), of m3] room(3) f3(3) by auto
  obtain ys where ys: "filter (\<lambda>x. \<not> (\<exists>b e. x = Set_Expert b e)) ?xs = map (place_own stride) ys"
    "mset ys = mset [0..aa_numel g - 1]" using steps(2) by blast
  have set_ys: "set ys = {0..aa_numel g - 1}" using mset_eq_setD [OF ys(2)] by simp
  let ?d = "al_sorted_token_ids m3"
  let ?n = "\<lambda>b. int (length (arrivals (row_key g stride) b ys))"
  have lenc: "int (length c) = (stride + 1) * ?E" using c(1) len1 by simp
  have room3: "block_start g ?E \<le> int (length ?d)" using room(1) f3(5) by simp
  note buckets = row_buckets [OF ok ys(2) room3 lenc c(2)]
  obtain c' d where place: "rfold (place_at (row_key g stride) (row_start g)) ys (c, ?d) = Inr (c', d)"
    and d: "length d = length ?d"
      "\<forall>b. in_array c b \<longrightarrow> slice d (c ! nat b + row_start g b) (?n b) = arrivals (row_key g stride) b ys"
      "\<forall>p. 0 \<le> p \<and> (\<forall>b. in_array c b \<longrightarrow> p < c ! nat b + row_start g b \<or> c ! nat b + row_start g b + ?n b \<le> p) \<longrightarrow>
         d ! nat p = ?d ! nat p"
    using place_at_buckets [OF buckets(1)] by blast
  define m4 where "m4 = m3\<lparr>al_expert_ids := x, al_counts := c', al_sorted_token_ids := d\<rparr>"
  have p3: "rfold (align_exec g) ?xs m3 = Inr m4"
    unfolding m4_def
  proof (rule last_phase_run [OF ok _ f3(2) _ x(1) ys(1)])
    show "\<forall>x \<in> set ?xs. \<not> (\<exists>b e. x = Set_Expert b e) \<longrightarrow> (\<exists>i. x = place_own stride i \<and> 0 \<le> i \<and> i < aa_numel g)"
    proof (intro ballI impI)
      fix x assume "x \<in> set ?xs" "\<not> (\<exists>b e. x = Set_Expert b e)"
      then have "x \<in> set (filter (\<lambda>x. \<not> (\<exists>b e. x = Set_Expert b e)) ?xs)" by (simp only: set_filter) blast
      then show "\<exists>i. x = place_own stride i \<and> 0 \<le> i \<and> i < aa_numel g" unfolding ys(1) using set_ys by auto
    qed
    show "rfold (place_at (row_key g stride) (row_start g)) ys (al_counts m3, ?d) = Inr (c', d)"
      using place f3(1) by simp
  qed (use room(2) f3(5) in simp)
  have run: "align_small sched g stride m = Inr m4"
    unfolding align_small_def p0 rbind_Inr p1 m2_def [symmetric] p2 progs by (simp add: run_phase_def p3)
  have fields: "al_sorted_token_ids m4 = d" "al_expert_ids m4 = x"
    "al_total_tokens_post_pad m4 = (al_total_tokens_post_pad m)[0 := block_start g ?E]"
    by (simp_all add: m4_def f3(6))
  have cell: "in_array c (j * ?E + e)" "c ! nat (j * ?E + e) + row_start g (j * ?E + e) = block_start g e + tokens_before g stride j e"
    if "0 \<le> j" "j \<le> stride" "0 \<le> e" "e < ?E" for j e
    using c(2) that digit_div_mod(2) [OF that(3,4), of j] cell_range [OF that lenc]
    by (simp_all add: row_start_def in_array_def)
  have "aligned g m4"
  proof (rule alignedI [OF B])
    fix e assume e: "0 \<le> e" "e < ?E"
    have "mset (slice d (block_start g e + tokens_before g stride j e) (int (length (thread_tokens g stride j e)))) =
        mset (thread_tokens g stride j e)" if j: "0 \<le> j" "j < stride" for j
    proof -
      note a = row_arrivals(1) [OF ok ys(2) e j]
      have "slice d (block_start g e + tokens_before g stride j e) (?n (j * ?E + e)) = arrivals (row_key g stride) (j * ?E + e) ys"
        using d(2) [rule_format, OF cell(1) [of j e]] cell(2) [of j e] e j by simp
      then show ?thesis using a mset_eq_length [OF a] by simp
    qed
    then show "mset (slice (al_sorted_token_ids m4) (block_start g e) (int (length (expert_tokens g e)))) = mset (expert_tokens g e)"
      unfolding fields by (rule slices_mset [OF _ E(3)])
  next
    fix p assume p: "0 \<le> p" "p < int (length (al_sorted_token_ids m4))"
      "\<forall>e. 0 \<le> e \<and> e < ?E \<longrightarrow> p < block_start g e \<or> block_start g e + int (length (expert_tokens g e)) \<le> p"
    have "p < c ! nat b + row_start g b \<or> c ! nat b + row_start g b + ?n b \<le> p" if "in_array c b" for b
    proof -
      obtain j e where b: "b = j * ?E + e" and r: "0 \<le> j" "j \<le> stride" "0 \<le> e" "e < ?E"
        and start: "c ! nat b + row_start g b = block_start g e + tokens_before g stride j e"
        using buckets(2) [OF \<open>in_array c b\<close>] by blast
      have "tokens_before g stride j e + ?n b \<le> int (length (expert_tokens g e))"
        unfolding b tokens_before_Suc_row [OF ok ys(2) r(3,4,1,2)]
        using tokens_before_small(1) [OF ok E(3), of "min (j + 1) stride" e] r E by simp
      then show ?thesis using p(3) r(3,4) tokens_before_nonneg [of g stride j e] unfolding start by force
    qed
    then have "d ! nat p = ?d ! nat p" using d(3) p(1) by blast
    then show "al_sorted_token_ids m4 ! nat p = aa_numel g" using fill p(1,2) d(1) f3(4,5) by (simp add: fields)
  qed (use room x mem d(1) f3 in \<open>simp_all add: fields align_memory_ok_def\<close>)
  then show ?thesis using run x(2) d(1) f3(3,5) by (simp add: fields)
qed


section \<open>The host function\<close>

text \<open>Any ready thread may go first; running the threads one after the other is one fair choice.\<close>

definition one_by_one :: scheduler where
  "one_by_one n ps = concat ps"

lemma fair_one_by_one: "fair one_by_one"
  by (simp add: fair_def one_by_one_def interleave_concat)

lemma round_up_multiple:
  assumes "0 < w" and "0 < (n::int)"
  shows "n \<le> (n + w - 1) sdiv w * w"
    and "CEILDIV ((n + w - 1) sdiv w * w) w * w = (n + w - 1) sdiv w * w"
proof -
  have e: "(n + w - 1) sdiv w = (n + w - 1) div w" using assms by (simp add: sdiv_nonneg)
  have q: "0 \<le> (n + w - 1) div w" using assms by (simp add: pos_imp_zdiv_nonneg_iff)
  show "n \<le> (n + w - 1) sdiv w * w" unfolding e using round_up_ge(1) [OF assms(1), of n] assms(2) by simp
  have "0 \<le> (n + w - 1) div w * w" using q assms(1) by simp
  then have "CEILDIV ((n + w - 1) div w * w) w = ((n + w - 1) div w * w + w - 1) div w"
    using assms(1) by (simp add: CEILDIV_def sdiv_nonneg)
  also have "\<dots> = (n + w - 1) div w"
  proof -
    have "(q * w + w - 1) div w = q" for q
    proof -
      have "q * w + w - 1 = (w - 1) + q * w" by simp
      then have "(q * w + w - 1) div w = q + (w - 1) div w" using assms(1) by (simp only: div_mult_self1)
      then show ?thesis using assms(1) by (simp add: div_pos_pos_trivial)
    qed
    then show ?thesis .
  qed
  finally show "CEILDIV ((n + w - 1) sdiv w * w) w * w = (n + w - 1) sdiv w * w" unfolding e by simp
qed

text \<open>
  C1: The block-aligned order of the experts is right, with either program and under every
  interleaving of the threads. When the threads are scheduled fairly, the padded number of experts
  is below 1024, the ids are not negative and, for the small program, name experts, the map sends
  ids to experts of this rank or to -1, and there is room for the padded tokens and their blocks,
  the call succeeds; the places of every expert then hold exactly its tokens, followed by the
  padding value up to a whole block, each used block names its expert, the places and blocks left
  over hold the padding value and -1, and the total is the sum of the padded counts.
\<close>

theorem moe_align_block_size_aligned:
  assumes "fair sched" and "0 < warp_size"
    and "g = align_args_of warp_size topk_ids num_experts block_size maybe_expert_map"
    and "0 < num_experts" and "(num_experts + warp_size - 1) sdiv warp_size * warp_size < 1024"
    and "align_args_ok g"
    and "length topk_ids < 1024 \<and> num_experts \<le> 64 \<Longrightarrow> \<forall>x \<in> set topk_ids. x < num_experts"
    and "block_start g num_experts \<le> int (length sorted_token_ids)"
    and "int (length sorted_token_ids) + block_size < 2 ^ 31" and "block_size < 2 ^ 31"
    and "int (length experts_ids) = CEILDIV (int (length sorted_token_ids)) block_size"
    and "num_tokens_post_pad \<noteq> []" and "0 < block_size"
  shows "\<exists>m. moe_align_block_size sched warp_size junk topk_ids num_experts block_size sorted_token_ids experts_ids
      num_tokens_post_pad maybe_expert_map = Inr m \<and> aligned g m \<and>
    length (al_sorted_token_ids m) = length sorted_token_ids \<and> length (al_expert_ids m) = length experts_ids"
proof -
  let ?padded = "(num_experts + warp_size - 1) sdiv warp_size * warp_size"
  let ?mem = "\<lambda>counts. \<lparr>al_sorted_token_ids = sorted_token_ids, al_expert_ids = experts_ids,
      al_total_tokens_post_pad = num_tokens_post_pad, al_cumsum = map junk [0..num_experts],
      al_counts = map junk [0..counts - 1]\<rparr>"
  note up = round_up_multiple [OF assms(2,4)]
  have small: "num_experts < 1024" "0 \<le> ?padded" using up(1) assms(4,5) by simp_all
  have "int32 num_experts = num_experts" "int32 ?padded = ?padded" "int32 block_size = block_size"
    using small assms(4,5,10,13) by (auto intro!: int32_id)
  then have g: "aa_num_experts g = num_experts" "aa_block_size g = block_size" "aa_experts_per_warp g = warp_size"
    "aa_padded_num_experts g = ?padded" "aa_topk_ids g = topk_ids" "int32 block_size = block_size"
    by (simp_all add: assms(3) align_args_of_def)
  have mem: "align_memory_ok g (?mem k)" for k
    using assms(4,8,9,11,12) by (simp add: align_memory_ok_def g)
  show ?thesis
  proof (cases "length topk_ids < 1024 \<and> num_experts \<le> 64")
    case True
    let ?threads = "max num_experts warp_size"
    have ok: "small_args_ok g ?threads" using assms(6) assms(7) [OF True] by (simp add: small_args_ok_def small_id_def g)
    have "0 \<le> (?threads + 1) * num_experts" using assms(4) by simp
    then have counts: "int (length (al_counts (?mem ((?threads + 1) * num_experts)))) = (?threads + 1) * aa_num_experts g"
      by (simp add: g)
    show ?thesis
      using align_small_aligned [OF ok assms(1) counts mem] True assms(5,13)
      unfolding moe_align_block_size_def Let_def assms(3) [symmetric] g(6) by simp
  next
    case False
    have counts: "int (length (al_counts (?mem ?padded))) = aa_padded_num_experts g"
      "aa_num_experts g \<le> aa_padded_num_experts g" "aa_padded_num_experts g \<le> kScanThreads"
      using small up(1) assms(5) by (simp_all add: g kScanThreads_def)
    have "\<not> (int (length topk_ids) < 1024 \<and> num_experts \<le> 64)" using False by simp
    then show ?thesis
      using align_large_aligned [OF assms(6,1,2) g(3) counts mem] assms(5,13)
      unfolding moe_align_block_size_def Let_def assms(3) [symmetric] g(6) up(2) if_not_P [OF \<open>\<not> (int (length topk_ids) < 1024 \<and> num_experts \<le> 64)\<close>] by simp
  qed
qed

text \<open>Five tokens for two experts in blocks of two, with a warp of 32 threads.\<close>

lemma moe_align_block_size_aligned_witness:
  "\<exists>m. moe_align_block_size one_by_one 32 (\<lambda>i. 7) [1, 0, 1, 1, 0] 2 2 (replicate 8 9) (replicate 4 9) [9] None = Inr m \<and>
     aligned (align_args_of 32 [1, 0, 1, 1, 0] 2 2 None) m \<and>
     length (al_sorted_token_ids m) = 8 \<and> length (al_expert_ids m) = 4"
proof -
  let ?g = "align_args_of 32 [1, 0, 1, 1, 0] 2 2 None"
  have g: "?g = \<lparr>aa_topk_ids = [1, 0, 1, 1, 0], aa_expert_map = None, aa_num_experts = 2, aa_block_size = 2,
      aa_experts_per_warp = 32, aa_padded_num_experts = 32\<rparr>"
    by (simp add: align_args_of_def int32_id signed_divide_int_def)
  have ok: "align_args_ok ?g" by (simp add: g align_args_ok_def)
  have "padded_tokens ?g 0 \<le> 3" "padded_tokens ?g 1 \<le> 4"
    by (simp_all add: padded_tokens_def expert_tokens_def arrivals_def token_expert_def g upto.simps int32_id)
  moreover have "{0..<2::int} = {0, 1}" by auto
  ultimately have "block_start ?g 2 \<le> 8" by (simp add: block_start_def)
  then show ?thesis
    using moe_align_block_size_aligned [OF fair_one_by_one, of 32 ?g "[1, 0, 1, 1, 0]" 2 2 None "replicate 8 9"
        "replicate 4 9" "[9]" "\<lambda>i. 7"] ok
    by (simp add: CEILDIV_def signed_divide_int_def)
qed



text \<open>
  The two programs differ on an id beyond the experts: the large one skips the token, the small
  one counts it, in a counter that is not that of an expert of its row.
\<close>

lemma id_beyond_experts:
  assumes "0 \<le> i" "i < aa_numel g" and "aa_expert_map g = None"
    and "aa_topk_ids g ! nat i = x" and "aa_num_experts g \<le> x" "0 \<le> x" "x < 2 ^ 31"
  shows "large_expert g i = Inr None" and "small_expert g i = Inr (Some x)"
    and "aa_num_experts g \<le> x \<and> count_row g t i m =
      rbind (atomic_add (al_counts m) ((t + 1) * aa_num_experts g + x) 1) (\<lambda>(old, c). Inr (m\<lparr>al_counts := c\<rparr>))"
proof -
  have l: "array_load (aa_topk_ids g) i = Inr x" "int32 x = x"
    using assms by (simp_all add: array_load_def in_array_def int32_id)
  show "large_expert g i = Inr None" using l assms(5) by (simp add: large_expert_def)
  show s: "small_expert g i = Inr (Some x)" using l assms(3) by (simp add: small_expert_def map_expert_def)
  show "aa_num_experts g \<le> x \<and> count_row g t i m =
      rbind (atomic_add (al_counts m) ((t + 1) * aa_num_experts g + x) 1) (\<lambda>(old, c). Inr (m\<lparr>al_counts := c\<rparr>))"
    using s assms(5) by (simp add: count_row_def)
qed

end
