(* ===== verification/Moe_Lora.thy ===== *)
theory Moe_Lora
  imports Moe_Align_Small
begin

text \<open>
  The block-aligned order of the tokens of every LoRA adapter, \<^verbatim>\<open>moe_lora_align_block_size\<close> of
  \<^verbatim>\<open>ex_engine/csrc/moe/moe_align_sum_kernels.cu\<close>: the two programs of \<open>Moe_Align\<close> with a mask of the
  tokens of the adapter, one or two blocks of threads for each adapter.
\<close>

section \<open>The masked steps\<close>

record lora_args =
  la_align :: align_args
  la_topk_num :: int
  la_token_lora_mapping :: "int list"
  la_max_loras :: int
  la_lora_ids :: "int list"
  la_adapter_enabled :: "int list"
  la_max_num_tokens_padded :: int
  la_max_num_m_blocks :: int

definition mask_at :: "int \<Rightarrow> int list \<Rightarrow> int \<Rightarrow> int result" where
  "mask_at topk_num token_mask i = array_load token_mask (i sdiv topk_num)"

definition masked_count_token :: "align_args \<Rightarrow> int \<Rightarrow> int list \<Rightarrow> int \<Rightarrow> align_state \<Rightarrow> align_state result" where
  "masked_count_token g topk_num token_mask i m = rbind (large_expert g i) (\<lambda>x. case x of None \<Rightarrow> Inr m
     | Some e \<Rightarrow> rbind (mask_at topk_num token_mask i) (\<lambda>v.
         rbind (atomic_add (al_counts m) (count_index g e) v) (\<lambda>(old, c). Inr (m\<lparr>al_counts := c\<rparr>))))"

definition masked_place_token :: "align_args \<Rightarrow> int \<Rightarrow> int list \<Rightarrow> int \<Rightarrow> align_state \<Rightarrow> align_state result" where
  "masked_place_token g topk_num token_mask i m = rbind (large_expert g i) (\<lambda>x. case x of None \<Rightarrow> Inr m
     | Some e \<Rightarrow> rbind (mask_at topk_num token_mask i) (\<lambda>v.
         if v = 0 then Inr m
         else rbind (atomic_add (al_cumsum m) e 1) (\<lambda>(rank_post_pad, c).
           rbind (array_store (al_sorted_token_ids m) rank_post_pad (int32 i)) (\<lambda>s.
           Inr (m\<lparr>al_cumsum := c, al_sorted_token_ids := s\<rparr>)))))"

definition masked_count_row :: "align_args \<Rightarrow> int \<Rightarrow> int list \<Rightarrow> int \<Rightarrow> int \<Rightarrow> align_state \<Rightarrow> align_state result" where
  "masked_count_row g topk_num token_mask tid i m = rbind (small_expert g i) (\<lambda>x. case x of None \<Rightarrow> Inr m
     | Some e \<Rightarrow> rbind (mask_at topk_num token_mask i) (\<lambda>v.
         rbind (atomic_add (al_counts m) ((tid + 1) * aa_num_experts g + e) v) (\<lambda>(old, c). Inr (m\<lparr>al_counts := c\<rparr>))))"

definition masked_place_row :: "align_args \<Rightarrow> int \<Rightarrow> int list \<Rightarrow> int \<Rightarrow> int \<Rightarrow> align_state \<Rightarrow> align_state result" where
  "masked_place_row g topk_num token_mask tid i m = rbind (small_expert g i) (\<lambda>x. case x of None \<Rightarrow> Inr m
     | Some e \<Rightarrow> rbind (array_load (al_counts m) (tid * aa_num_experts g + e)) (\<lambda>cnt.
         rbind (array_load (al_cumsum m) e) (\<lambda>start.
         rbind (mask_at topk_num token_mask i) (\<lambda>v.
         if v = 0 then Inr m
         else rbind (array_store (al_sorted_token_ids m) (int32 (cnt + start)) (int32 i)) (\<lambda>s.
           rbind (atomic_add (al_counts m) (tid * aa_num_experts g + e) 1) (\<lambda>(old, c).
           Inr (m\<lparr>al_sorted_token_ids := s, al_counts := c\<rparr>)))))))"

fun masked_exec :: "align_args \<Rightarrow> int \<Rightarrow> int list \<Rightarrow> align_step \<Rightarrow> align_state \<Rightarrow> align_state result" where
  "masked_exec g topk_num token_mask (Count_Token i) m = masked_count_token g topk_num token_mask i m"
| "masked_exec g topk_num token_mask (Place_Token i) m = masked_place_token g topk_num token_mask i m"
| "masked_exec g topk_num token_mask (Count_Row tid i) m = masked_count_row g topk_num token_mask tid i m"
| "masked_exec g topk_num token_mask (Place_Row tid i) m = masked_place_row g topk_num token_mask tid i m"
| "masked_exec g topk_num token_mask x m = align_exec g x m"

definition masked_phase ::
  "scheduler \<Rightarrow> align_args \<Rightarrow> int \<Rightarrow> int list \<Rightarrow> nat \<Rightarrow> align_step list list \<Rightarrow> align_state \<Rightarrow> align_state result" where
  "masked_phase sched g topk_num token_mask n ps m = rfold (masked_exec g topk_num token_mask) (sched n ps) m"

section \<open>The blocks of an adapter\<close>

text \<open>The adapter of a slot of the grid, if it is one and enabled.\<close>

definition lora_slot :: "lora_args \<Rightarrow> int \<Rightarrow> int option result" where
  "lora_slot g lora_idx = rbind (array_load (la_lora_ids g) lora_idx) (\<lambda>lora_id.
     if lora_id = -1 \<or> la_max_loras g \<le> lora_id then Inr None
     else rbind (array_load (la_adapter_enabled g) lora_id) (\<lambda>e. Inr (if e = 0 then None else Some lora_id)))"

text \<open>
  What the blocks of an adapter work on, once their pointers have been moved to the adapter: its row of
  every tensor, and the shared memory.
\<close>

record lora_row =
  lr_mem :: align_state
  lr_mask :: "int list"

text \<open>The first thread resets the count and fills the mask.\<close>

definition lora_prologue :: "lora_args \<Rightarrow> int \<Rightarrow> lora_row \<Rightarrow> lora_row result" where
  "lora_prologue g lora_id r =
     (if la_topk_num g = 0 then Inl (Undefined ''division by zero'')
      else let num_tokens = int32 (aa_numel (la_align g) sdiv la_topk_num g) in
        rbind (array_store (al_total_tokens_post_pad (lr_mem r)) 0 0) (\<lambda>t.
        rbind (rfold (\<lambda>i token_mask. rbind (array_load (la_token_lora_mapping g) i) (\<lambda>x.
            array_store token_mask i (if int32 x = lora_id then 1 else 0))) [0..num_tokens - 1] (lr_mask r)) (\<lambda>token_mask.
        Inr (r\<lparr>lr_mem := (lr_mem r)\<lparr>al_total_tokens_post_pad := t\<rparr>, lr_mask := token_mask\<rparr>))))"

text \<open>The blocks of an expert; the row of \<^verbatim>\<open>expert_ids\<close> has \<^verbatim>\<open>max_num_m_blocks\<close> elements.\<close>

definition lora_expert_program :: "align_args \<Rightarrow> int \<Rightarrow> int \<Rightarrow> align_state \<Rightarrow> align_step list result" where
  "lora_expert_program g stride tid m =
     rbind (if tid < aa_num_experts g
       then rbind (array_load (al_cumsum m) tid) (\<lambda>a. rbind (array_load (al_cumsum m) (tid + 1)) (\<lambda>b.
            Inr (map (\<lambda>i. Set_Expert (i sdiv aa_block_size g) tid) (stride_loop a (aa_block_size g) b))))
       else Inr []) (\<lambda>own.
     rbind (array_load (al_cumsum m) (aa_num_experts g)) (\<lambda>last.
     Inr (own @ map (\<lambda>i. Set_Expert i (-1)) (stride_loop (last sdiv aa_block_size g + tid) stride
       (int (length (al_expert_ids m)))))))"

text \<open>What a block does between two barriers.\<close>

datatype lora_phase =
    Prologue
  | Fill_Phase
  | Zero_Phase
  | Count_Phase
  | Scan_Phase
  | Expert_Phase
  | Sort_Phase
  | Small_Count int
  | Small_Columns int
  | Small_Sum int
  | Small_Place int

fun lora_memory :: "scheduler \<Rightarrow> align_args \<Rightarrow> int \<Rightarrow> int list \<Rightarrow> lora_phase \<Rightarrow> align_state \<Rightarrow> align_state result" where
  "lora_memory sched g k token_mask Prologue m = Inr m"
| "lora_memory sched g k token_mask Fill_Phase m =
     masked_phase sched g k token_mask 4 (map (\<lambda>t. fill_program kScanThreads t m) [0..kScanThreads - 1]) m"
| "lora_memory sched g k token_mask Zero_Phase m =
     masked_phase sched g k token_mask 0 (map (zero_program g (aa_experts_per_warp g)) [0..kScanThreads - 1]) m"
| "lora_memory sched g k token_mask Count_Phase m =
     masked_phase sched g k token_mask 1 (map (\<lambda>t. map Count_Token (stride_loop t kScanThreads (aa_numel g))) [0..kScanThreads - 1]) m"
| "lora_memory sched g k token_mask Scan_Phase m = scan_counts g m"
| "lora_memory sched g k token_mask Expert_Phase m =
     rbind (rmap (\<lambda>t. lora_expert_program g kScanThreads t m) [0..kScanThreads - 1]) (\<lambda>ps. masked_phase sched g k token_mask 2 ps m)"
| "lora_memory sched g k token_mask Sort_Phase m =
     masked_phase sched g k token_mask 3 (map (map Place_Token)
       (grid_stride (min ((aa_numel g + 255) sdiv 256) 65535) 256 (aa_numel g))) m"
| "lora_memory sched g k token_mask (Small_Count stride) m =
     masked_phase sched g k token_mask 0 (map (\<lambda>t. fill_program kFillThreads t m) [0..kFillThreads - 1] @
       map (row_count_program g stride) [0..stride - 1]) m"
| "lora_memory sched g k token_mask (Small_Columns stride) m =
     masked_phase sched g k token_mask 1 (map (column_program g stride) [0..stride - 1]) m"
| "lora_memory sched g k token_mask (Small_Sum stride) m = sum_padded g stride m"
| "lora_memory sched g k token_mask (Small_Place stride) m =
     rbind (rmap (\<lambda>t. rbind (lora_expert_program g stride t m) (\<lambda>p.
       Inr (p @ map (Place_Row t) (stride_loop t stride (aa_numel g))))) [0..stride - 1]) (\<lambda>ps. masked_phase sched g k token_mask 2 ps m)"

definition lora_phase_exec :: "scheduler \<Rightarrow> lora_args \<Rightarrow> int \<Rightarrow> lora_phase \<Rightarrow> lora_row \<Rightarrow> lora_row result" where
  "lora_phase_exec sched g lora_id ph r =
     (if ph = Prologue then lora_prologue g lora_id r
      else rbind (lora_memory sched (la_align g) (la_topk_num g) (lr_mask r) ph (lr_mem r)) (\<lambda>m. Inr (r\<lparr>lr_mem := m\<rparr>)))"

section \<open>The memory of a launch\<close>

text \<open>
  The tensors are flat. The counters of the experts are shared memory, and so are the sums in the small
  program, while the large one has a buffer for the sums of all adapters. The shared memory of a block
  stands by its adapter, since the host hands over the adapters sorted and without repetition.
\<close>

datatype lora_cumsum = Cumsum_Buffer "int list" | Cumsum_Shared "int list list"

record lora_mem =
  lm_sorted_token_ids :: "int list"
  lm_expert_ids :: "int list"
  lm_total_tokens_post_pad :: "int list"
  lm_cumsum :: lora_cumsum
  lm_token_mask :: "int list"
  lm_counts :: "int list list"

text \<open>
  A piece of a tensor behind a pointer, and the tensor with the piece overwritten. An access of an
  adapter outside of its piece is an error here, even if it would hit the piece of another adapter.
\<close>

definition segment :: "int list \<Rightarrow> int \<Rightarrow> int \<Rightarrow> int list result" where
  "segment xs offset n =
     (if 0 \<le> offset \<and> 0 \<le> n \<and> offset + n \<le> int (length xs) then Inr (slice xs offset n)
      else Inl (Undefined ''pointer out of bounds''))"

definition patch :: "int list \<Rightarrow> int \<Rightarrow> int list \<Rightarrow> int list" where
  "patch xs offset ys = take (nat offset) xs @ ys @ drop (nat offset + length ys) xs"

text \<open>The offsets are products of type int.\<close>

definition sorted_token_ids_offset :: "lora_args \<Rightarrow> int \<Rightarrow> int" where
  "sorted_token_ids_offset g model_offset = int32 (la_max_num_tokens_padded g * model_offset)"

definition expert_ids_offset :: "lora_args \<Rightarrow> int \<Rightarrow> int" where
  "expert_ids_offset g model_offset = int32 (la_max_num_m_blocks g * model_offset)"

definition cumsum_offset :: "lora_args \<Rightarrow> int \<Rightarrow> int" where
  "cumsum_offset g model_offset = int32 ((aa_num_experts (la_align g) + 1) * model_offset)"

definition lora_num_tokens :: "lora_args \<Rightarrow> int" where
  "lora_num_tokens g = int32 (aa_numel (la_align g) sdiv la_topk_num g)"

definition token_mask_offset :: "lora_args \<Rightarrow> int \<Rightarrow> int" where
  "token_mask_offset g lora_id = int32 (lora_id * lora_num_tokens g)"

definition lora_load :: "lora_args \<Rightarrow> int \<Rightarrow> lora_mem \<Rightarrow> lora_row result" where
  "lora_load g l m =
     rbind (segment (lm_sorted_token_ids m) (sorted_token_ids_offset g l) (la_max_num_tokens_padded g)) (\<lambda>sorted_ids.
     rbind (segment (lm_expert_ids m) (expert_ids_offset g l) (la_max_num_m_blocks g)) (\<lambda>expert_ids.
     rbind (segment (lm_total_tokens_post_pad m) l 1) (\<lambda>post_pad.
     rbind (case lm_cumsum m of
         Cumsum_Buffer xs \<Rightarrow> segment xs (cumsum_offset g l) (aa_num_experts (la_align g) + 1)
       | Cumsum_Shared xss \<Rightarrow> array_load xss l) (\<lambda>cumsum.
     rbind (segment (lm_token_mask m) (token_mask_offset g l) (lora_num_tokens g)) (\<lambda>token_mask.
     rbind (array_load (lm_counts m) l) (\<lambda>counts.
     Inr \<lparr>lr_mem = \<lparr>al_sorted_token_ids = sorted_ids, al_expert_ids = expert_ids, al_total_tokens_post_pad = post_pad,
          al_cumsum = cumsum, al_counts = counts\<rparr>,
        lr_mask = token_mask\<rparr>))))))"

definition lora_store :: "lora_args \<Rightarrow> int \<Rightarrow> lora_row \<Rightarrow> lora_mem \<Rightarrow> lora_mem" where
  "lora_store g l r m =
     \<lparr>lm_sorted_token_ids = patch (lm_sorted_token_ids m) (sorted_token_ids_offset g l) (al_sorted_token_ids (lr_mem r)),
      lm_expert_ids = patch (lm_expert_ids m) (expert_ids_offset g l) (al_expert_ids (lr_mem r)),
      lm_total_tokens_post_pad = patch (lm_total_tokens_post_pad m) l (al_total_tokens_post_pad (lr_mem r)),
      lm_cumsum = (case lm_cumsum m of
          Cumsum_Buffer xs \<Rightarrow> Cumsum_Buffer (patch xs (cumsum_offset g l) (al_cumsum (lr_mem r)))
        | Cumsum_Shared xss \<Rightarrow> Cumsum_Shared (xss[nat l := al_cumsum (lr_mem r)])),
      lm_token_mask = patch (lm_token_mask m) (token_mask_offset g l) (lr_mask r),
      lm_counts = (lm_counts m)[nat l := al_counts (lr_mem r)]\<rparr>"

text \<open>
  An event is a phase of a block that works for an adapter. The blocks of a launch are not ordered:
  \<open>order\<close> interleaves their phases. In one phase the threads of a block interleave as \<open>sched\<close> says.
\<close>

type_synonym lora_event = "int \<times> lora_phase"

definition lora_event_exec :: "(int \<Rightarrow> scheduler) \<Rightarrow> lora_args \<Rightarrow> lora_event \<Rightarrow> lora_mem \<Rightarrow> lora_mem result" where
  "lora_event_exec sched g x m =
     (let (lora_id, ph) = x in
      rbind (lora_load g lora_id m) (\<lambda>r. rbind (lora_phase_exec (sched lora_id) g lora_id ph r) (\<lambda>r'.
      Inr (lora_store g lora_id r' m))))"

definition lora_block :: "lora_args \<Rightarrow> int \<Rightarrow> lora_phase list \<Rightarrow> lora_event list result" where
  "lora_block g lora_idx phases =
     rbind (lora_slot g lora_idx) (\<lambda>x. Inr (case x of None \<Rightarrow> [] | Some lora_id \<Rightarrow> map (Pair lora_id) phases))"

definition align_phases :: "int \<Rightarrow> lora_phase list" where
  "align_phases block = Prologue #
     (if block smod 2 \<noteq> 0 then [Fill_Phase] else [Zero_Phase, Count_Phase, Scan_Phase, Expert_Phase])"

definition small_phases :: "int \<Rightarrow> lora_phase list" where
  "small_phases stride = [Prologue, Small_Count stride, Small_Columns stride, Small_Sum stride, Small_Place stride]"

type_synonym block_order = "nat \<Rightarrow> lora_event list list \<Rightarrow> lora_event list"

definition fair_order :: "block_order \<Rightarrow> bool" where
  "fair_order order \<longleftrightarrow> (\<forall>n ps. interleave ps (order n ps))"

definition lora_large :: "block_order \<Rightarrow> (int \<Rightarrow> scheduler) \<Rightarrow> lora_args \<Rightarrow> lora_mem \<Rightarrow> lora_mem result" where
  "lora_large order sched g m =
     rbind (rmap (\<lambda>b. lora_block g (b sdiv 2) (align_phases b)) [0..(la_max_loras g + 1) * 2 - 1]) (\<lambda>ps.
     rbind (rfold (lora_event_exec sched g) (order 0 ps) m) (\<lambda>m.
     rbind (rmap (\<lambda>b. lora_block g b [Sort_Phase]) [0..la_max_loras g]) (\<lambda>ps.
     rfold (lora_event_exec sched g) (order 1 ps) m)))"

definition lora_small :: "block_order \<Rightarrow> (int \<Rightarrow> scheduler) \<Rightarrow> lora_args \<Rightarrow> int \<Rightarrow> lora_mem \<Rightarrow> lora_mem result" where
  "lora_small order sched g stride m =
     rbind (rmap (\<lambda>b. lora_block g b (small_phases stride)) [0..la_max_loras g]) (\<lambda>ps.
     rfold (lora_event_exec sched g) (order 0 ps) m)"

section \<open>The host\<close>

text \<open>
  \<open>sorted_token_ids\<close>, \<open>expert_ids\<close> and \<open>num_tokens_post_pad\<close> are what the tensors hold before, \<open>max_shared\<close>
  is the shared memory of the device in bytes, and \<open>junk\<close> is what memory holds that nothing has written.
  The counters of a block are \<open>counts\<close> elements.
\<close>

definition lora_memory_of ::
  "(int \<Rightarrow> int) \<Rightarrow> lora_cumsum \<Rightarrow> int \<Rightarrow> int \<Rightarrow> int \<Rightarrow> int list \<Rightarrow> int list \<Rightarrow> int list \<Rightarrow> lora_mem" where
  "lora_memory_of junk cumsum counts max_loras num_tokens sorted_token_ids expert_ids num_tokens_post_pad =
     \<lparr>lm_sorted_token_ids = sorted_token_ids, lm_expert_ids = expert_ids, lm_total_tokens_post_pad = num_tokens_post_pad,
      lm_cumsum = cumsum, lm_token_mask = map (int32 \<circ> junk) [0..max_loras * num_tokens - 1],
      lm_counts = map (\<lambda>l. map (\<lambda>i. int32 (junk (l * counts + i))) [0..counts - 1]) [0..max_loras - 1]\<rparr>"

definition moe_lora_align_block_size ::
  "block_order \<Rightarrow> (int \<Rightarrow> scheduler) \<Rightarrow> int \<Rightarrow> int \<Rightarrow> (int \<Rightarrow> int) \<Rightarrow> int list \<Rightarrow> int \<Rightarrow> int \<Rightarrow> int list \<Rightarrow> int \<Rightarrow> int \<Rightarrow> int \<Rightarrow>
   int \<Rightarrow> int \<Rightarrow> int list \<Rightarrow> int list \<Rightarrow> int list \<Rightarrow> int list \<Rightarrow> int list \<Rightarrow> int list option \<Rightarrow> lora_mem result" where
  "moe_lora_align_block_size order sched warp_size max_shared junk topk_ids num_tokens topk_num token_lora_mapping
     num_experts block_size max_loras max_num_tokens_padded max_num_m_blocks sorted_token_ids expert_ids
     num_tokens_post_pad adapter_enabled lora_ids maybe_expert_map =
     (let padded_num_experts = (num_experts + warp_size - 1) sdiv warp_size * warp_size;
          g = \<lparr>la_align = align_args_of warp_size topk_ids num_experts block_size maybe_expert_map,
            la_topk_num = int32 topk_num, la_token_lora_mapping = token_lora_mapping, la_max_loras = int32 max_loras,
            la_lora_ids = lora_ids, la_adapter_enabled = adapter_enabled,
            la_max_num_tokens_padded = int32 max_num_tokens_padded, la_max_num_m_blocks = int32 max_num_m_blocks\<rparr>;
          memory = (\<lambda>cumsum counts. lora_memory_of junk cumsum counts max_loras num_tokens sorted_token_ids expert_ids
            num_tokens_post_pad) in
      rbind (torch_checks [(0 < block_size, ''block_size should be greater than 0. ''),
        (padded_num_experts < 1024, ''padded_num_experts must be less than 1024'')]) (\<lambda>_.
      if int32 block_size \<le> 0 then Inl (Undefined ''block size'')
      else if int (length topk_ids) < 1024 \<and> num_experts \<le> 64 then
        (let num_thread = max (int32 num_experts) 128;
             shared_mem = int32 ((num_thread + 1) * num_experts * 4 + (num_experts + 1) * 4) in
         rbind (torch_check (shared_mem \<le> max_shared) ''Shared memory usage exceeds device limit.'') (\<lambda>_.
         lora_small order sched g num_thread
           (memory (Cumsum_Shared (map (\<lambda>_. map (int32 \<circ> junk) [0..num_experts]) [0..max_loras - 1]))
             ((num_thread + 1) * num_experts))))
      else lora_large order sched g
        (memory (Cumsum_Buffer (map (\<lambda>_. 0) [0..max_loras * (num_experts + 1) - 1]))
          (CEILDIV padded_num_experts warp_size * warp_size))))"

section \<open>The tokens of an adapter\<close>

text \<open>
  Masking the tokens of other adapters is giving them a number behind the experts that the map
  sends nowhere.
\<close>

definition masked_args :: "align_args \<Rightarrow> int \<Rightarrow> int list \<Rightarrow> align_args" where
  "masked_args g k ms = g\<lparr>
     aa_topk_ids := map (\<lambda>i. if ms ! nat (i div k) = 0 then aa_num_experts g else aa_topk_ids g ! nat i) [0..aa_numel g - 1],
     aa_expert_map := Some ((case aa_expert_map g of None \<Rightarrow> [0..aa_num_experts g - 1] | Some m \<Rightarrow> take (nat (aa_num_experts g)) m) @ [-1])\<rparr>"

definition masks_tokens :: "align_args \<Rightarrow> int \<Rightarrow> int list \<Rightarrow> bool" where
  "masks_tokens g k ms \<longleftrightarrow> 0 < k \<and> aa_numel g = k * int (length ms) \<and> set ms \<subseteq> {0, 1}"

lemma masked_args_fields [simp]:
  "aa_num_experts (masked_args g k ms) = aa_num_experts g" "aa_block_size (masked_args g k ms) = aa_block_size g"
  "aa_experts_per_warp (masked_args g k ms) = aa_experts_per_warp g" "aa_padded_num_experts (masked_args g k ms) = aa_padded_num_experts g"
  "length (aa_topk_ids (masked_args g k ms)) = length (aa_topk_ids g)"
  by (simp_all add: masked_args_def)

lemma masked_map_nth:
  assumes "align_args_ok g"
  defines "m' \<equiv> (case aa_expert_map g of None \<Rightarrow> [0..aa_num_experts g - 1] | Some m \<Rightarrow> take (nat (aa_num_experts g)) m) @ [-1]"
  shows "length m' = nat (aa_num_experts g) + 1" and "m' ! nat (aa_num_experts g) = -1"
    and "0 \<le> x \<Longrightarrow> x < aa_num_experts g \<Longrightarrow> m' ! nat x = (case aa_expert_map g of None \<Rightarrow> x | Some m \<Rightarrow> m ! nat x)"
    and "\<forall>e \<in> set m'. e = -1 \<or> 0 \<le> e \<and> e < aa_num_experts g"
proof -
  have E: "0 < aa_num_experts g" and m: "\<And>m. aa_expert_map g = Some m \<Longrightarrow> aa_num_experts g \<le> int (length m) \<and>
      (\<forall>e \<in> set m. e = -1 \<or> 0 \<le> e \<and> e < aa_num_experts g)" using assms(1) by (simp_all add: align_args_ok_def)
  let ?b = "case aa_expert_map g of None \<Rightarrow> [0..aa_num_experts g - 1] | Some m \<Rightarrow> take (nat (aa_num_experts g)) m"
  have len: "length ?b = nat (aa_num_experts g)" using m by (cases "aa_expert_map g") (auto simp: min_def nat_le_iff)
  then show "length m' = nat (aa_num_experts g) + 1" by (simp add: m'_def)
  show "m' ! nat (aa_num_experts g) = -1" unfolding m'_def by (simp add: nth_append len)
  show "m' ! nat x = (case aa_expert_map g of None \<Rightarrow> x | Some m \<Rightarrow> m ! nat x)" if "0 \<le> x" "x < aa_num_experts g"
    using that len by (cases "aa_expert_map g") (simp_all add: m'_def nth_append nth_upto nat_less_iff)
  have "e = -1 \<or> 0 \<le> e \<and> e < aa_num_experts g" if "e \<in> set ?b" for e
  proof (cases "aa_expert_map g")
    case (Some m')
    then have "e \<in> set m'" using that by (auto dest: in_set_takeD)
    then show ?thesis using m [OF Some] by blast
  qed (use that in auto)
  then show "\<forall>e \<in> set m'. e = -1 \<or> 0 \<le> e \<and> e < aa_num_experts g" by (auto simp: m'_def)
qed

lemma masked_id:
  "0 \<le> i \<Longrightarrow> i < aa_numel g \<Longrightarrow> aa_topk_ids (masked_args g k ms) ! nat i =
     (if ms ! nat (i div k) = 0 then aa_num_experts g else aa_topk_ids g ! nat i)"
  using nth_map_upto [of i "aa_numel g - 1"] by (simp add: masked_args_def)

lemma masked_args_ok:
  assumes "align_args_ok g"
  shows "align_args_ok (masked_args g k ms)"
proof -
  have "0 \<le> x \<and> x < 2 ^ 31" if x: "x \<in> set (aa_topk_ids (masked_args g k ms))" for x
  proof -
    obtain j where j: "j < length (aa_topk_ids g)" "x = aa_topk_ids (masked_args g k ms) ! j"
      using x by (metis in_set_conv_nth masked_args_fields(5))
    then have "x = (if ms ! nat (int j div k) = 0 then aa_num_experts g else aa_topk_ids g ! j)"
      using masked_id [of "int j" g k ms] by simp
    then show ?thesis using assms j(1) by (auto simp: align_args_ok_def)
  qed
  moreover obtain m where "aa_expert_map (masked_args g k ms) = Some m" "aa_num_experts g \<le> int (length m)"
      "\<forall>e \<in> set m. e = -1 \<or> 0 \<le> e \<and> e < aa_num_experts g"
    by (rule that [of "(case aa_expert_map g of None \<Rightarrow> [0..aa_num_experts g - 1] | Some m \<Rightarrow> take (nat (aa_num_experts g)) m) @ [-1]"])
      (use masked_map_nth(1,4) [OF assms] in \<open>simp_all add: masked_args_def del: set_append\<close>)
  ultimately show ?thesis using assms unfolding align_args_ok_def masked_args_fields by simp
qed

text \<open>Only the tokens the mask lets through have an expert.\<close>

lemma masked_token_expert:
  assumes ok: "align_args_ok g" and i: "0 \<le> i" "i < aa_numel g"
  shows "token_expert (masked_args g k ms) i = (if ms ! nat (i div k) = 0 then None else token_expert g i)"
proof -
  note x = topk_id_ok [OF ok i]
  have E: "0 < aa_num_experts g" "aa_num_experts g < 2 ^ 31" using ok by (simp_all add: align_args_ok_def)
  have m: "aa_expert_map (masked_args g k ms) = Some ((case aa_expert_map g of None \<Rightarrow> [0..aa_num_experts g - 1]
      | Some m \<Rightarrow> take (nat (aa_num_experts g)) m) @ [-1])" by (simp add: masked_args_def)
  show ?thesis
  proof (cases "ms ! nat (i div k) = 0")
    case True
    then show ?thesis using E by (simp add: token_expert_def masked_id [OF i] int32_id)
  next
    case False
    then show ?thesis
      using x(1,2) masked_map_nth(3) [OF ok x(1)]
      by (auto simp: token_expert_def masked_id [OF i] m Let_def split: option.splits)
  qed
qed

section \<open>The masked steps are those of the tokens of the adapter\<close>

lemma mask_at_eq:
  assumes "masks_tokens g k ms" and "0 \<le> i" "i < aa_numel g"
  shows "mask_at k ms i = Inr (ms ! nat (i div k))" and "ms ! nat (i div k) = 0 \<or> ms ! nat (i div k) = 1"
proof -
  have k: "0 < k" "aa_numel g = k * int (length ms)" "set ms \<subseteq> {0, 1}" using assms(1) by (simp_all add: masks_tokens_def)
  have "i < int (length ms) * k" using k(2) assms(3) by (simp add: mult.commute)
  moreover have "i div k * k \<le> i" using k(1) by (simp flip: minus_mod_eq_div_mult)
  ultimately have "i div k * k < int (length ms) * k" by linarith
  then have a: "0 \<le> i div k" "i div k < int (length ms)"
    using k(1) assms(2) by (simp_all add: pos_imp_zdiv_nonneg_iff)
  then show "mask_at k ms i = Inr (ms ! nat (i div k))" using k(1) assms(2) by (simp add: mask_at_def array_load_def in_array_def sdiv_nonneg)
  have "ms ! nat (i div k) \<in> set ms" using a by (simp add: nat_less_iff)
  then show "ms ! nat (i div k) = 0 \<or> ms ! nat (i div k) = 1" using k(3) by blast
qed

definition int_cells :: "int list \<Rightarrow> bool" where
  "int_cells xs \<longleftrightarrow> (\<forall>c \<in> set xs. int32 c = c)"

lemma add_nothing: "int_cells xs \<Longrightarrow> in_array xs a \<Longrightarrow> atomic_add xs a 0 = Inr (xs ! nat a, xs)"
proof -
  assume a: "int_cells xs" "in_array xs a"
  then have "xs ! nat a \<in> set xs" by (simp add: in_array_def nat_less_iff)
  then have "int32 (xs ! nat a) = xs ! nat a" using a(1) by (simp add: int_cells_def)
  then show ?thesis using a(2) by (simp add: atomic_add_def array_load_def array_store_def)
qed

text \<open>A step for a token stays inside the counters.\<close>

fun step_in :: "align_args \<Rightarrow> align_state \<Rightarrow> align_step \<Rightarrow> bool" where
  "step_in g m (Count_Token i) \<longleftrightarrow> 0 \<le> i \<and> i < aa_numel g \<and> aa_num_experts g \<le> int (length (al_counts m))"
| "step_in g m (Place_Token i) \<longleftrightarrow> 0 \<le> i \<and> i < aa_numel g"
| "step_in g m (Count_Row t i) \<longleftrightarrow> 0 \<le> i \<and> i < aa_numel g \<and> 0 \<le> t \<and> (t + 2) * aa_num_experts g \<le> int (length (al_counts m)) \<and>
     (\<forall>x \<in> set (aa_topk_ids g). x < aa_num_experts g)"
| "step_in g m (Place_Row t i) \<longleftrightarrow> 0 \<le> i \<and> i < aa_numel g \<and> 0 \<le> t \<and> (t + 1) * aa_num_experts g \<le> int (length (al_counts m)) \<and>
     aa_num_experts g \<le> int (length (al_cumsum m)) \<and> (\<forall>x \<in> set (aa_topk_ids g). x < aa_num_experts g)"
| "step_in g m x \<longleftrightarrow> True"

lemma masked_small_ok:
  assumes ok: "align_args_ok g" and "\<forall>x \<in> set (aa_topk_ids g). x < aa_num_experts g" and "aa_num_experts g \<le> stride"
  shows "small_args_ok (masked_args g k ms) stride" and "small_args_ok g stride"
proof -
  show "small_args_ok g stride" using assms by (simp add: small_args_ok_def small_id_def)
  obtain m where m: "aa_expert_map (masked_args g k ms) = Some m" "length m = nat (aa_num_experts g) + 1" "m ! nat (aa_num_experts g) = -1"
    by (rule that [of "(case aa_expert_map g of None \<Rightarrow> [0..aa_num_experts g - 1] | Some m \<Rightarrow> take (nat (aa_num_experts g)) m) @ [-1]"])
      (use masked_map_nth(1,2) [OF ok] in \<open>simp_all add: masked_args_def\<close>)
  have E: "0 < aa_num_experts g" using ok by (simp add: align_args_ok_def)
  have "small_id (masked_args g k ms) x" if x: "x \<in> set (aa_topk_ids (masked_args g k ms))" for x
  proof -
    obtain j where j: "j < length (aa_topk_ids g)" "x = aa_topk_ids (masked_args g k ms) ! j"
      using x by (metis in_set_conv_nth masked_args_fields(5))
    then have "x = aa_num_experts g \<or> x \<in> set (aa_topk_ids g)" using masked_id [of "int j" g k ms] by (auto split: if_splits)
    then show ?thesis using assms(2) m E by (auto simp: small_id_def)
  qed
  then show "small_args_ok (masked_args g k ms) stride"
    using masked_args_ok [OF ok] assms(3) by (simp add: small_args_ok_def)
qed

lemma masked_exec_eq:
  assumes ok: "align_args_ok g" "0 < aa_experts_per_warp g" and ms: "masks_tokens g k ms"
    and cells: "int_cells (al_counts m)" and x: "step_in g m x"
  shows "masked_exec g k ms x m = align_exec (masked_args g k ms) x m"
proof -
  let ?g = "masked_args g k ms"
  note ok' = masked_args_ok [OF ok(1), of k ms]
  have large: "large_expert g i = Inr (token_expert g i)" "large_expert ?g i = Inr (if ms ! nat (i div k) = 0 then None else token_expert g i)"
    "token_expert g i = Some e \<Longrightarrow> 0 \<le> e \<and> e < aa_num_experts g" "mask_at k ms i = Inr (ms ! nat (i div k))"
    "ms ! nat (i div k) = 0 \<or> ms ! nat (i div k) = 1"
    if "0 \<le> i" "i < aa_numel g" for i e
    using large_expert_eq [OF ok(1) that] large_expert_eq [OF ok', of i] masked_token_expert [OF ok(1) that] that mask_at_eq [OF ms that]
      token_expert_range [OF ok(1) that] by simp_all
  have small: "small_expert g i = Inr (token_expert g i)" "small_expert ?g i = Inr (if ms ! nat (i div k) = 0 then None else token_expert g i)"
    if "0 \<le> i" "i < aa_numel g" "\<forall>x \<in> set (aa_topk_ids g). x < aa_num_experts g" for i
    using small_expert_some(1) [OF masked_small_ok(2) [OF ok(1) that(3) order_refl] that(1,2)]
      small_expert_some(1) [OF masked_small_ok(1) [OF ok(1) that(3) order_refl], of i k ms] that masked_token_expert [OF ok(1) that(1,2)]
    by simp_all
  show ?thesis
  proof (cases x)
    case (Count_Token i)
    then have i: "0 \<le> i" "i < aa_numel g" "aa_num_experts g \<le> int (length (al_counts m))" using x by simp_all
    show ?thesis
    proof (cases "token_expert g i")
      case (Some e)
      have "in_array (al_counts m) (count_index g e)" using large(3) [OF i(1,2) Some] i(3) ok(2) by (simp add: count_index_id in_array_def)
      then show ?thesis using Some large [OF i(1,2)] add_nothing [OF cells, of "count_index g e"]
        by (auto simp: Count_Token masked_count_token_def count_token_def count_index_def)
    qed (use large [OF i(1,2)] in \<open>simp add: Count_Token masked_count_token_def count_token_def\<close>)
  next
    case (Place_Token i)
    then have i: "0 \<le> i" "i < aa_numel g" using x by simp_all
    show ?thesis using large [OF i]
      by (cases "token_expert g i") (auto simp: Place_Token masked_place_token_def place_token_def)
  next
    case (Count_Row t i)
    then have i: "0 \<le> i" "i < aa_numel g" "0 \<le> t" "(t + 2) * aa_num_experts g \<le> int (length (al_counts m))"
      "\<forall>x \<in> set (aa_topk_ids g). x < aa_num_experts g" using x by simp_all
    show ?thesis
    proof (cases "token_expert g i")
      case (Some e)
      have "in_array (al_counts m) ((t + 1) * aa_num_experts g + e)"
        using large(3) [OF i(1,2) Some] i(3,4) digit_bounds [of "t + 1" "t + 2" e "aa_num_experts g"] by (simp add: in_array_def)
      then show ?thesis using Some large [OF i(1,2)] small [OF i(1,2,5)] add_nothing [OF cells, of "(t + 1) * aa_num_experts g + e"]
        by (auto simp: Count_Row masked_count_row_def count_row_def)
    qed (use small [OF i(1,2,5)] in \<open>simp add: Count_Row masked_count_row_def count_row_def\<close>)
  next
    case (Place_Row t i)
    then have i: "0 \<le> i" "i < aa_numel g" "0 \<le> t" "(t + 1) * aa_num_experts g \<le> int (length (al_counts m))"
      "aa_num_experts g \<le> int (length (al_cumsum m))" "\<forall>x \<in> set (aa_topk_ids g). x < aa_num_experts g" using x by simp_all
    show ?thesis
    proof (cases "token_expert g i")
      case (Some e)
      have "in_array (al_counts m) (t * aa_num_experts g + e)" "in_array (al_cumsum m) e"
        using large(3) [OF i(1,2) Some] i(3-5) digit_bounds [of t "t + 1" e "aa_num_experts g"] by (simp_all add: in_array_def)
      then show ?thesis using Some large [OF i(1,2)] small [OF i(1,2,6)]
        by (auto simp: Place_Row masked_place_row_def place_row_def atomic_add_def array_load_def array_store_def)
    qed (use small [OF i(1,2,6)] in \<open>simp add: Place_Row masked_place_row_def place_row_def\<close>)
  qed (simp_all add: masked_args_def)
qed

lemma int32_int32 [simp]: "int32 (int32 x) = int32 x"
  by (simp add: int32_def)

lemma int_cells_update: "int_cells xs \<Longrightarrow> int_cells (xs[n := int32 v])"
  unfolding int_cells_def using set_update_subset_insert [of xs n "int32 v"] by auto

lemma atomic_add_keeps:
  "atomic_add xs i v = Inr (old, ys) \<Longrightarrow> length ys = length xs \<and> (int_cells xs \<longrightarrow> int_cells ys)"
  by (auto simp: atomic_add_def rbind_eq_Inr_iff dest!: array_store_Inr intro: int_cells_update)

lemma align_exec_keeps:
  assumes "align_exec g x m = Inr m'"
  shows "length (al_counts m') = length (al_counts m)" "length (al_cumsum m') = length (al_cumsum m)"
    "int_cells (al_counts m) \<Longrightarrow> int_cells (al_counts m')"
proof -
  have zero: "int_cells xs \<Longrightarrow> int_cells (xs[n := 0])" for xs n using int_cells_update [of xs n 0] by (simp add: int32_def)
  have "length (al_counts m') = length (al_counts m) \<and> length (al_cumsum m') = length (al_cumsum m) \<and>
      (int_cells (al_counts m) \<longrightarrow> int_cells (al_counts m'))"
    using assms by (cases x) (auto simp: rbind_eq_Inr_iff count_token_def place_token_def count_row_def place_row_def
      dest!: array_store_Inr atomic_add_keeps intro: zero split: option.splits)
  then show "length (al_counts m') = length (al_counts m)" "length (al_cumsum m') = length (al_cumsum m)"
    "int_cells (al_counts m) \<Longrightarrow> int_cells (al_counts m')" by simp_all
qed

lemma step_in_cong:
  "length (al_counts m') = length (al_counts m) \<Longrightarrow> length (al_cumsum m') = length (al_cumsum m) \<Longrightarrow> step_in g m' x = step_in g m x"
  by (cases x) simp_all

lemma masked_run_eq:
  assumes "align_args_ok g" "0 < aa_experts_per_warp g" "masks_tokens g k ms"
    and "int_cells (al_counts m)" "\<forall>x \<in> set xs. step_in g m x"
  shows "rfold (masked_exec g k ms) xs m = rfold (align_exec (masked_args g k ms)) xs m \<and>
    (\<forall>m'. rfold (align_exec (masked_args g k ms)) xs m = Inr m' \<longrightarrow> int_cells (al_counts m'))"
  using assms(4,5)
proof (induction xs arbitrary: m)
  case (Cons x xs)
  have x: "masked_exec g k ms x m = align_exec (masked_args g k ms) x m"
    using Cons.prems by (intro masked_exec_eq assms) simp_all
  show ?case
  proof (cases "align_exec (masked_args g k ms) x m")
    case (Inr m1)
    note keep = align_exec_keeps [OF Inr]
    have "\<forall>y \<in> set xs. step_in g m1 y" using Cons.prems(2) step_in_cong [OF keep(1,2)] by simp
    then show ?thesis using Cons.IH [OF keep(3) [OF Cons.prems(1)]] by (simp add: x Inr)
  qed (simp add: x)
qed simp

lemma masked_phase_eq:
  assumes "align_args_ok g" "0 < aa_experts_per_warp g" "masks_tokens g k ms" "fair sched"
    and "int_cells (al_counts m)" "\<forall>p \<in> set ps. \<forall>x \<in> set p. step_in g m x"
  shows "masked_phase sched g k ms n ps m = run_phase sched (masked_args g k ms) n ps m"
    and "run_phase sched (masked_args g k ms) n ps m = Inr m' \<Longrightarrow> int_cells (al_counts m')"
proof -
  have "\<forall>x \<in> set (sched n ps). step_in g m x" using run_phase_set(2) [OF assms(4)] assms(6) by simp
  then show "masked_phase sched g k ms n ps m = run_phase sched (masked_args g k ms) n ps m"
    "run_phase sched (masked_args g k ms) n ps m = Inr m' \<Longrightarrow> int_cells (al_counts m')"
    using masked_run_eq [OF assms(1,2,3,5)] by (simp_all add: masked_phase_def run_phase_def)
qed

lemma masked_count_index [simp]: "count_index (masked_args g k ms) = count_index g"
  by (simp add: fun_eq_iff count_index_def)

lemma masked_programs [simp]:
  "zero_program (masked_args g k ms) = zero_program g" "row_count_program (masked_args g k ms) = row_count_program g"
  "column_program (masked_args g k ms) = column_program g" "scan_counts (masked_args g k ms) m = scan_counts g m"
  "sum_padded (masked_args g k ms) = sum_padded g" "lora_expert_program (masked_args g k ms) = lora_expert_program g"
proof -
  have "padded_counts (masked_args g k ms) m = padded_counts g m" for m
    unfolding padded_counts_def masked_count_index masked_args_fields ..
  then show "scan_counts (masked_args g k ms) m = scan_counts g m" by (simp add: scan_counts_def)
qed (simp_all add: fun_eq_iff zero_program_def row_count_program_def column_program_def sum_padded_def lora_expert_program_def)

lemma lora_expert_program_eq:
  "int (length (al_expert_ids m)) = CEILDIV (int (length (al_sorted_token_ids m))) (aa_block_size g) \<Longrightarrow>
   lora_expert_program g stride tid m = expert_program g stride tid m"
  by (simp add: lora_expert_program_def expert_program_def)

section \<open>The rows of the flat memory\<close>

text \<open>
  The row of an adapter, at its place in every tensor. A launch on the flat memory does what it does on
  the list of the rows: the pieces do not overlap, and no product of an offset wraps around.
\<close>

definition row_at :: "lora_args \<Rightarrow> lora_mem \<Rightarrow> int \<Rightarrow> lora_row" where
  "row_at g m l =
     (let P = la_max_num_tokens_padded g; B = la_max_num_m_blocks g; C = aa_num_experts (la_align g) + 1; n = lora_num_tokens g in
     \<lparr>lr_mem = \<lparr>al_sorted_token_ids = slice (lm_sorted_token_ids m) (P * l) P, al_expert_ids = slice (lm_expert_ids m) (B * l) B,
        al_total_tokens_post_pad = [lm_total_tokens_post_pad m ! nat l],
        al_cumsum = (case lm_cumsum m of Cumsum_Buffer xs \<Rightarrow> slice xs (C * l) C | Cumsum_Shared xss \<Rightarrow> xss ! nat l),
        al_counts = lm_counts m ! nat l\<rparr>,
      lr_mask = slice (lm_token_mask m) (n * l) n\<rparr>)"

definition rows_of :: "lora_args \<Rightarrow> lora_mem \<Rightarrow> lora_row list" where
  "rows_of g m = map (row_at g m) [0..la_max_loras g - 1]"

definition row_event_exec :: "(int \<Rightarrow> scheduler) \<Rightarrow> lora_args \<Rightarrow> lora_event \<Rightarrow> lora_row list \<Rightarrow> lora_row list result" where
  "row_event_exec sched g x rows =
     (let (lora_id, ph) = x in
      rbind (array_load rows lora_id) (\<lambda>r. rbind (lora_phase_exec (sched lora_id) g lora_id ph r) (\<lambda>r'.
      array_store rows lora_id r')))"

text \<open>A tensor of \<open>n\<close> rows of \<open>w\<close> elements whose offsets are 32-bit.\<close>

definition rows_fit :: "int \<Rightarrow> int \<Rightarrow> int list \<Rightarrow> bool" where
  "rows_fit w n xs \<longleftrightarrow> 0 \<le> w \<and> w * n < 2 ^ 31 \<and> int (length xs) = w * n"

definition lora_mem_ok :: "lora_args \<Rightarrow> lora_mem \<Rightarrow> bool" where
  "lora_mem_ok g m \<longleftrightarrow> rows_fit (la_max_num_tokens_padded g) (la_max_loras g) (lm_sorted_token_ids m) \<and>
     rows_fit (la_max_num_m_blocks g) (la_max_loras g) (lm_expert_ids m) \<and>
     int (length (lm_total_tokens_post_pad m)) = la_max_loras g \<and>
     (case lm_cumsum m of Cumsum_Buffer xs \<Rightarrow> rows_fit (aa_num_experts (la_align g) + 1) (la_max_loras g) xs
      | Cumsum_Shared xss \<Rightarrow> int (length xss) = la_max_loras g) \<and>
     rows_fit (lora_num_tokens g) (la_max_loras g) (lm_token_mask m) \<and> int (length (lm_counts m)) = la_max_loras g"

lemma patch_nth:
  assumes "0 \<le> a" and "a + int (length ys) \<le> int (length xs)" and "0 \<le> p"
  shows "patch xs a ys ! nat p = (if a \<le> p \<and> p < a + int (length ys) then ys ! nat (p - a) else xs ! nat p)"
proof -
  obtain i j where i: "p = int i" "a = int j" using assms(1,3) by (metis nonneg_int_cases)
  have len: "length (take j xs) = j" "j + length ys \<le> length xs" using assms(2) i(2) by simp_all
  consider "p < a" | "a \<le> p" "p < a + int (length ys)" | "a + int (length ys) \<le> p" by linarith
  then show ?thesis
  proof cases
    case 1
    then have "i < j" using i by simp
    then show ?thesis using len 1 i by (simp add: patch_def nth_append)
  next
    case 2
    then have "\<not> i < j" "i - j < length ys" "nat (p - a) = i - j" using i by linarith+
    then show ?thesis using len 2 i by (simp add: patch_def nth_append)
  next
    case 3
    then have "\<not> i < j" "\<not> i - j < length ys" "j + length ys + (i - j - length ys) = i" using i by linarith+
    then show ?thesis using len 3 i by (simp add: patch_def nth_append)
  qed
qed

lemma patch_length:
  "0 \<le> a \<Longrightarrow> a + int (length ys) \<le> int (length xs) \<Longrightarrow> length (patch xs a ys) = length xs"
  by (simp add: patch_def)

lemma slice_nth: "i < nat n \<Longrightarrow> slice xs a n ! i = xs ! nat (a + int i)"
  by (simp add: slice_def nth_upto)

lemma slice_length [simp]: "length (slice xs a n) = nat n"
  by (simp add: slice_def)

lemma row_bounds:
  fixes w :: int
  assumes "0 \<le> w" and "0 \<le> l" and "l < n"
  shows "0 \<le> w * l" and "w * l + w \<le> w * n" and "w * l \<le> w * n"
proof -
  have "w * (l + 1) \<le> w * n" using assms by (intro mult_left_mono) simp_all
  then show "0 \<le> w * l" "w * l + w \<le> w * n" "w * l \<le> w * n" using assms by (simp_all add: distrib_left)
qed

text \<open>Loading a row, and storing one.\<close>

lemma segment_row:
  assumes "rows_fit w n xs" and "0 \<le> l" and "l < n"
  shows "segment xs (int32 (w * l)) w = Inr (slice xs (w * l) w)" and "int32 (w * l) = w * l"
proof -
  have w: "0 \<le> w" "w * n < 2 ^ 31" "int (length xs) = w * n" using assms(1) by (simp_all add: rows_fit_def)
  note b = row_bounds [OF w(1) assms(2,3)]
  show id: "int32 (w * l) = w * l" using b w(2) by (intro int32_id) linarith+
  show "segment xs (int32 (w * l)) w = Inr (slice xs (w * l) w)"
    unfolding id using b w by (simp add: segment_def)
qed

lemma patch_row:
  assumes "rows_fit w n xs" and "0 \<le> l" "l < n" and "length ys = nat w"
  shows "rows_fit w n (patch xs (int32 (w * l)) ys)"
    and "0 \<le> l' \<Longrightarrow> l' < n \<Longrightarrow> slice (patch xs (int32 (w * l)) ys) (w * l') w = (if l' = l then ys else slice xs (w * l') w)"
proof -
  have w: "0 \<le> w" "w * n < 2 ^ 31" "int (length xs) = w * n" using assms(1) by (simp_all add: rows_fit_def)
  note b = row_bounds [OF w(1) assms(2,3)] and id = segment_row(2) [OF assms(1-3)]
  have ys: "int (length ys) = w" using assms(4) w(1) by simp
  have fits: "0 \<le> w * l" "w * l + int (length ys) \<le> int (length xs)" using b w(3) ys by simp_all
  show "rows_fit w n (patch xs (int32 (w * l)) ys)"
    unfolding id using w patch_length [OF fits] by (simp add: rows_fit_def)
  assume l': "0 \<le> l'" "l' < n"
  note b' = row_bounds [OF w(1) l']
  show "slice (patch xs (int32 (w * l)) ys) (w * l') w = (if l' = l then ys else slice xs (w * l') w)"
  proof (cases "l' = l")
    case True
    have "slice (patch xs (w * l) ys) (w * l) w = ys"
    proof (rule nth_equalityI)
      fix i assume "i < length (slice (patch xs (w * l) ys) (w * l) w)"
      then have i: "i < nat w" by simp
      then have "w * l \<le> w * l + int i" "w * l + int i < w * l + int (length ys)" "nat (w * l + int i - w * l) = i"
        using ys by linarith+
      then show "slice (patch xs (w * l) ys) (w * l) w ! i = ys ! i"
        using patch_nth [OF fits, of "w * l + int i"] fits(1) slice_nth [OF i] by simp
    qed (use assms(4) in simp)
    then show ?thesis by (simp add: True id)
  next
    case False
    have "w * l' + w \<le> w * l \<or> w * l + w \<le> w * l'"
    proof (cases "l' < l")
      case True
      then show ?thesis using row_bounds(2) [OF w(1) l'(1) True] by simp
    next
      case no: False
      then show ?thesis using row_bounds(2) [OF w(1) assms(2), of l'] False by simp
    qed
    then have "slice (patch xs (w * l) ys) (w * l') w = slice xs (w * l') w"
      using patch_nth [OF fits] b'(1) ys by (intro slice_cong) auto
    then show ?thesis by (simp add: False id)
  qed
qed

definition row_sizes :: "lora_row \<Rightarrow> nat list" where
  "row_sizes r = [length (al_sorted_token_ids (lr_mem r)), length (al_expert_ids (lr_mem r)),
     length (al_total_tokens_post_pad (lr_mem r)), length (al_cumsum (lr_mem r)), length (al_counts (lr_mem r)), length (lr_mask r)]"

lemma lora_load_row:
  assumes "lora_mem_ok g m" and "0 \<le> l" and "l < la_max_loras g"
  shows "lora_load g l m = Inr (row_at g m l)"
proof -
  note rows = segment_row(1) [OF _ assms(2,3)]
  have total: "segment (lm_total_tokens_post_pad m) l 1 = Inr [lm_total_tokens_post_pad m ! nat l]"
    using assms by (simp add: segment_def slice_def lora_mem_ok_def)
  have mask: "int32 (l * lora_num_tokens g) = int32 (lora_num_tokens g * l)" by (simp add: mult.commute)
  have cells: "array_load (lm_counts m) l = Inr (lm_counts m ! nat l)"
    "\<And>xss. lm_cumsum m = Cumsum_Shared xss \<Longrightarrow> array_load xss l = Inr (xss ! nat l)"
    using assms by (simp_all add: array_load_def in_array_def lora_mem_ok_def)
  have "(case lm_cumsum m of Cumsum_Buffer xs \<Rightarrow> segment xs (cumsum_offset g l) (aa_num_experts (la_align g) + 1)
       | Cumsum_Shared xss \<Rightarrow> array_load xss l) = Inr (al_cumsum (lr_mem (row_at g m l)))"
    using assms(1) by (cases "lm_cumsum m") (simp_all add: lora_mem_ok_def cumsum_offset_def row_at_def rows cells(2) Let_def)
  then show ?thesis
    using assms(1) by (simp add: lora_load_def row_at_def lora_mem_ok_def rows total mask cells(1) sorted_token_ids_offset_def
        expert_ids_offset_def token_mask_offset_def Let_def)
qed

lemma lora_store_row:
  assumes ok: "lora_mem_ok g m" and l: "0 \<le> l" "l < la_max_loras g" and r: "row_sizes r = row_sizes (row_at g m l)"
  shows "lora_mem_ok g (lora_store g l r m)"
    and "0 \<le> l' \<Longrightarrow> l' < la_max_loras g \<Longrightarrow> row_at g (lora_store g l r m) l' = (if l' = l then r else row_at g m l')"
proof -
  have sizes: "length (al_sorted_token_ids (lr_mem r)) = nat (la_max_num_tokens_padded g)"
    "length (al_expert_ids (lr_mem r)) = nat (la_max_num_m_blocks g)" "length (al_total_tokens_post_pad (lr_mem r)) = 1"
    "\<And>xs. lm_cumsum m = Cumsum_Buffer xs \<Longrightarrow> length (al_cumsum (lr_mem r)) = nat (aa_num_experts (la_align g) + 1)"
    "length (lr_mask r) = nat (lora_num_tokens g)"
    using r by (simp_all add: row_sizes_def row_at_def Let_def)
  obtain t where t: "al_total_tokens_post_pad (lr_mem r) = [t]" using sizes(3) by (auto simp: length_Suc_conv)
  have tot: "length (patch (lm_total_tokens_post_pad m) l [t]) = length (lm_total_tokens_post_pad m)"
    "0 \<le> p \<Longrightarrow> patch (lm_total_tokens_post_pad m) l [t] ! nat p = (if p = l then t else lm_total_tokens_post_pad m ! nat p)" for p
    using patch_length [of l "[t]"] patch_nth [of l "[t]" "lm_total_tokens_post_pad m" p] ok l
    by (auto simp: lora_mem_ok_def)
  have mask: "int32 (l * lora_num_tokens g) = int32 (lora_num_tokens g * l)" by (simp add: mult.commute)
  note put = patch_row [OF _ l]
  note defs = lora_mem_ok_def lora_store_def t tot mask sorted_token_ids_offset_def expert_ids_offset_def cumsum_offset_def
    token_mask_offset_def
  show "lora_mem_ok g (lora_store g l r m)"
    using ok sizes put(1) by (simp add: defs split: lora_cumsum.splits)
  assume l': "0 \<le> l'" "l' < la_max_loras g"
  note put' = put(2) [OF _ _ l']
  have idx: "nat l' = nat l \<longleftrightarrow> l' = l" using l l' by auto
  have lens: "nat l < length (lm_counts m)" "\<And>xss. lm_cumsum m = Cumsum_Shared xss \<Longrightarrow> nat l < length xss"
    using ok l by (auto simp: lora_mem_ok_def)
  show "row_at g (lora_store g l r m) l' = (if l' = l then r else row_at g m l')"
  proof (cases "l' = l")
    case True
    have "row_at g (lora_store g l r m) l = r"
      using ok sizes put' lens l True
      by (cases "lm_cumsum m") (simp_all add: defs row_at_def Let_def)
    then show ?thesis by (simp add: True)
  next
    case False
    then show ?thesis
      using ok sizes put' l' idx
      by (cases "lm_cumsum m") (simp_all add: defs row_at_def Let_def)
  qed
qed

text \<open>No phase changes the size of a row.\<close>

definition mem_sizes :: "align_state \<Rightarrow> nat list" where
  "mem_sizes m = [length (al_sorted_token_ids m), length (al_expert_ids m), length (al_total_tokens_post_pad m),
     length (al_cumsum m), length (al_counts m)]"

lemma masked_exec_mem_sizes: "masked_exec g k ms x m = Inr m' \<Longrightarrow> mem_sizes m' = mem_sizes m"
  by (cases x) (auto simp: mem_sizes_def rbind_eq_Inr_iff masked_count_token_def masked_place_token_def masked_count_row_def
      masked_place_row_def dest!: array_store_Inr atomic_add_keeps split: option.splits if_splits)

lemma masked_phase_mem_sizes: "masked_phase sched g k ms n ps m = Inr m' \<Longrightarrow> mem_sizes m' = mem_sizes m"
  unfolding masked_phase_def
  by (erule rfold_invariant [where I = "\<lambda>x. mem_sizes x = mem_sizes m"]) (auto dest: masked_exec_mem_sizes)

lemma rfold_store_length:
  "rfold (\<lambda>t c. if Q t then array_store c (f t) (v t) else Inr c) ts xs = Inr ys \<Longrightarrow> length ys = length xs"
  by (erule rfold_invariant [where I = "\<lambda>c. length c = length xs"]) (auto dest!: array_store_Inr split: if_splits)

lemma scan_counts_mem_sizes: "scan_counts g m = Inr m' \<Longrightarrow> mem_sizes m' = mem_sizes m"
  by (auto simp: scan_counts_def rbind_eq_Inr_iff mem_sizes_def dest!: rfold_store_length)

lemma sum_padded_mem_sizes:
  assumes "sum_padded g stride m = Inr m'"
  shows "mem_sizes m' = mem_sizes m"
proof -
  obtain c0 c last t where c0: "array_store (al_cumsum m) 0 0 = Inr c0" and c: "rfold (\<lambda>i c. rbind (array_load c (i - 1)) (\<lambda>a.
         rbind (array_load (al_counts m) (stride * aa_num_experts g + i - 1)) (\<lambda>n.
         array_store c i (int32 (a + CEILDIV n (aa_block_size g) * aa_block_size g))))) [1..aa_num_experts g] c0 = Inr c"
    and t: "array_store (al_total_tokens_post_pad m) 0 last = Inr t" and m': "m' = m\<lparr>al_cumsum := c, al_total_tokens_post_pad := t\<rparr>"
    using assms by (auto simp: sum_padded_def rbind_eq_Inr_iff)
  have "length c = length c0"
    by (rule rfold_invariant [OF c, of "\<lambda>x. length x = length c0"]) (auto simp: rbind_eq_Inr_iff dest!: array_store_Inr)
  then show ?thesis using array_store_Inr [OF c0] array_store_Inr [OF t] by (simp add: m' mem_sizes_def)
qed

lemma lora_memory_sizes: "lora_memory sched g k ms ph m = Inr m' \<Longrightarrow> mem_sizes m' = mem_sizes m"
  by (cases ph) (auto simp: rbind_eq_Inr_iff dest: masked_phase_mem_sizes scan_counts_mem_sizes sum_padded_mem_sizes)

lemma lora_prologue_sizes:
  assumes "lora_prologue g l r = Inr r'"
  shows "row_sizes r' = row_sizes r"
proof -
  obtain t ms where t: "array_store (al_total_tokens_post_pad (lr_mem r)) 0 0 = Inr t"
    and ms: "rfold (\<lambda>i token_mask. rbind (array_load (la_token_lora_mapping g) i) (\<lambda>x.
            array_store token_mask i (if int32 x = l then 1 else 0)))
          [0..int32 (aa_numel (la_align g) sdiv la_topk_num g) - 1] (lr_mask r) = Inr ms"
    and r': "r' = r\<lparr>lr_mem := (lr_mem r)\<lparr>al_total_tokens_post_pad := t\<rparr>, lr_mask := ms\<rparr>"
    using assms by (auto simp: lora_prologue_def Let_def rbind_eq_Inr_iff split: if_splits)
  have "length ms = length (lr_mask r)"
    by (rule rfold_invariant [OF ms, of "\<lambda>x. length x = length (lr_mask r)"]) (auto simp: rbind_eq_Inr_iff dest!: array_store_Inr)
  then show ?thesis using array_store_Inr [OF t] by (simp add: r' row_sizes_def)
qed

lemma lora_phase_sizes: "lora_phase_exec sched g l ph r = Inr r' \<Longrightarrow> row_sizes r' = row_sizes r"
  by (cases "ph = Prologue")
    (auto simp: lora_phase_exec_def rbind_eq_Inr_iff row_sizes_def [of "lr_mem_update _ _"] row_sizes_def [of r] mem_sizes_def
      dest: lora_prologue_sizes dest!: lora_memory_sizes)

text \<open>An event on the flat memory is the event on the rows.\<close>

lemma rows_of_nth: "0 \<le> l \<Longrightarrow> l < la_max_loras g \<Longrightarrow> rows_of g m ! nat l = row_at g m l"
  by (simp add: rows_of_def nth_upto)

lemma event_refines:
  assumes "lora_mem_ok g m" and "row_event_exec sched g x (rows_of g m) = Inr rows'"
  shows "\<exists>m'. lora_event_exec sched g x m = Inr m' \<and> lora_mem_ok g m' \<and> rows_of g m' = rows'"
proof -
  obtain l ph where x: "x = (l, ph)" by (cases x)
  have len: "int (length (rows_of g m)) = max 0 (la_max_loras g)" by (simp add: rows_of_def)
  obtain r r' where r: "array_load (rows_of g m) l = Inr r" "lora_phase_exec (sched l) g l ph r = Inr r'"
      "array_store (rows_of g m) l r' = Inr rows'"
    using assms(2) by (auto simp: row_event_exec_def x rbind_eq_Inr_iff)
  then have l: "0 \<le> l" "l < la_max_loras g" using len by (auto simp: array_load_def in_array_def split: if_splits)
  have row: "r = row_at g m l" using r(1) rows_of_nth [OF l] by (simp add: array_loadI)
  have rows': "rows' = (rows_of g m)[nat l := r']" using array_store_Inr [OF r(3)] by simp
  note store = lora_store_row [OF assms(1) l lora_phase_sizes [OF r(2), unfolded row]]
  have "rows_of g (lora_store g l r' m) = rows'"
  proof (rule nth_equalityI)
    show len': "length (rows_of g (lora_store g l r' m)) = length rows'" by (simp add: rows' rows_of_def)
    fix i assume "i < length (rows_of g (lora_store g l r' m))"
    then have i: "0 \<le> int i" "int i < la_max_loras g" by (simp_all add: rows_of_def)
    have "nat l = i \<longleftrightarrow> int i = l" using l by auto
    moreover have "i < length (rows_of g m)" using i by (simp add: rows_of_def)
    ultimately show "rows_of g (lora_store g l r' m) ! i = rows' ! i"
      using store(2) [OF i] rows_of_nth [OF i, of "lora_store g l r' m"] rows_of_nth [OF i, of m]
      by (auto simp: rows' nth_list_update)
  qed
  then show ?thesis
    using store(1) r(2) by (simp add: lora_event_exec_def x lora_load_row [OF assms(1) l] flip: row)
qed

lemma run_refines:
  "lora_mem_ok g m \<Longrightarrow> rfold (row_event_exec sched g) xs (rows_of g m) = Inr rows' \<Longrightarrow>
   \<exists>m'. rfold (lora_event_exec sched g) xs m = Inr m' \<and> lora_mem_ok g m' \<and> rows_of g m' = rows'"
proof (induction xs arbitrary: m)
  case (Cons x xs)
  then obtain rows1 where r: "row_event_exec sched g x (rows_of g m) = Inr rows1" "rfold (row_event_exec sched g) xs rows1 = Inr rows'"
    by (auto simp: rbind_eq_Inr_iff)
  then show ?case using event_refines [OF Cons.prems(1) r(1)] Cons.IH by fastforce
qed auto

section \<open>Launches with blocks for every adapter\<close>

text \<open>
  The blocks of a slot only work on the row of its adapter. So a property \<open>J\<close> of what these blocks
  have left to do and of the row that their phases keep holds after any interleaving of all blocks.
\<close>

lemma blocks_run:
  fixes S :: "nat \<Rightarrow> int option"
  assumes "interleave ps xs" and "length ps = n * m" and "\<And>b. b < n * m \<Longrightarrow> S (b div m) = None \<Longrightarrow> ps ! b = []"
    and "\<And>k l. k < n \<Longrightarrow> S k = Some l \<Longrightarrow>
      \<exists>rems. length rems = m \<and> (\<forall>j < m. ps ! (k * m + j) = map (Pair l) (rems ! j)) \<and> J l rems (rows ! nat l)"
    and range: "\<And>k l. k < n \<Longrightarrow> S k = Some l \<Longrightarrow> 0 \<le> l \<and> l < int N" and "length rows = N"
    and inj: "\<And>k k' l. k < n \<Longrightarrow> k' < n \<Longrightarrow> S k = Some l \<Longrightarrow> S k' = Some l \<Longrightarrow> k = k'"
    and step: "\<And>l rems j ph rest r. j < length rems \<Longrightarrow> rems ! j = ph # rest \<Longrightarrow> J l rems r \<Longrightarrow>
      \<exists>r'. lora_phase_exec (sched l) g l ph r = Inr r' \<and> J l (rems[j := rest]) r'"
  shows "\<exists>rows'. rfold (row_event_exec sched g) xs rows = Inr rows' \<and> length rows' = N \<and>
    (\<forall>k l. k < n \<and> S k = Some l \<longrightarrow> J l (replicate m []) (rows' ! nat l)) \<and>
    (\<forall>l. 0 \<le> l \<and> l < int N \<and> (\<forall>k < n. S k \<noteq> Some l) \<longrightarrow> rows' ! nat l = rows ! nat l)"
  using assms(1-4,6)
proof (induction arbitrary: rows rule: interleave.induct)
  case (finished ps)
  have "J l (replicate m []) (rows ! nat l)" if k: "k < n" "S k = Some l" for k l
  proof -
    obtain rems where r: "length rems = m" "\<forall>j < m. ps ! (k * m + j) = map (Pair l) (rems ! j)" "J l rems (rows ! nat l)"
      using finished.prems(3) [OF k] by blast
    have "rems ! j = []" if "j < m" for j
    proof -
      have "k * m + j < n * m" using k(1) that mult_le_mono1 [of "Suc k" n m] by simp
      then have "ps ! (k * m + j) = []" using finished.hyps finished.prems(1) by (metis nth_mem)
      then show ?thesis using r(2) that by simp
    qed
    then have "rems = replicate m []" using r(1) by (intro nth_equalityI) simp_all
    then show ?thesis using r(3) by simp
  qed
  then show ?case using finished.prems(4) by (intro exI [of _ rows]) auto
next
  case (step b ps x rest xs)
  have m: "0 < m" and b: "b < n * m" using step.hyps(1) step.prems(1) by (auto intro: gr0I)
  define k where "k = b div m"
  define j where "j = b mod m"
  have kj: "k < n" "j < m" "b = k * m + j" using b m by (simp_all add: k_def j_def less_mult_imp_div_less)
  obtain l where l: "S k = Some l" using step.prems(2) [OF b] step.hyps(2) by (cases "S k") (auto simp: k_def)
  obtain rems where r: "length rems = m" "\<forall>j < m. ps ! (k * m + j) = map (Pair l) (rems ! j)" "J l rems (rows ! nat l)"
    using step.prems(3) [OF kj(1) l] by blast
  have "map (Pair l) (rems ! j) = x # rest" using r(2) kj step.hyps(2) by simp
  then obtain ph rem where ph: "rems ! j = ph # rem" "x = (l, ph)" "rest = map (Pair l) rem" by (cases "rems ! j") auto
  obtain r' where r': "lora_phase_exec (sched l) g l ph (rows ! nat l) = Inr r'" "J l (rems[j := rem]) r'"
    using assms(8) [of j rems ph rem l "rows ! nat l"] r(1,3) kj(2) ph(1) by blast
  let ?rows = "rows[nat l := r']"
  have L: "0 \<le> l" "l < int N" using range [OF kj(1) l] by simp_all
  have exec: "row_event_exec sched g x rows = Inr ?rows"
    using L step.prems(4) r'(1) by (simp add: row_event_exec_def ph(2) array_load_def array_store_def in_array_def)
  have cell: "?rows ! nat l' = (if l' = l then r' else rows ! nat l')" if "0 \<le> l'" "l' < int N" for l'
    using that L step.prems(4) by (simp add: nth_list_update eq_nat_nat_iff)
  have upd: "ps[b := rest] ! (k' * m + j') = (if k' = k \<and> j' = j then rest else ps ! (k' * m + j'))" if "j' < m" for k' j'
  proof -
    have "(k' * m + j') div m = k'" "(k' * m + j') mod m = j'" using that by simp_all
    then have "k' * m + j' = b \<longleftrightarrow> k' = k \<and> j' = j" using kj(3) by (auto simp: k_def j_def)
    then show ?thesis using step.hyps(1) by (auto simp: nth_list_update)
  qed
  have idle: "ps[b := rest] ! a = []" if "a < n * m" "S (a div m) = None" for a
    using step.prems(2) [OF that] that(2) l by (cases "a = b") (auto simp: k_def)
  have busy: "\<exists>rems. length rems = m \<and> (\<forall>j < m. ps[b := rest] ! (k' * m + j) = map (Pair l') (rems ! j)) \<and> J l' rems (?rows ! nat l')"
    if k': "k' < n" "S k' = Some l'" for k' l'
  proof (cases "k' = k")
    case True
    then have "l' = l" using k'(2) l by simp
    have "ps[b := rest] ! (k * m + i) = map (Pair l) (rems[j := rem] ! i)" if "i < m" for i
      using that r(1,2) kj(2) ph(3) upd [OF that, of k] by (cases "i = j") simp_all
    then show ?thesis
      using True \<open>l' = l\<close> r(1) r'(2) cell [OF L] by (intro exI [of _ "rems[j := rem]"]) simp
  next
    case False
    then have "l' \<noteq> l" using inj [OF k'(1) kj(1) k'(2)] l by blast
    then have "?rows ! nat l' = rows ! nat l'" using range [OF k'] by (simp add: cell)
    moreover obtain rems' where "length rems' = m" "\<forall>j < m. ps ! (k' * m + j) = map (Pair l') (rems' ! j)" "J l' rems' (rows ! nat l')"
      using step.prems(3) [OF k'] by blast
    ultimately show ?thesis using False by (intro exI [of _ rems']) (auto simp: upd)
  qed
  obtain rows' where rows': "rfold (row_event_exec sched g) xs ?rows = Inr rows'" "length rows' = N"
    "\<forall>k l. k < n \<and> S k = Some l \<longrightarrow> J l (replicate m []) (rows' ! nat l)"
    "\<forall>l. 0 \<le> l \<and> l < int N \<and> (\<forall>k < n. S k \<noteq> Some l) \<longrightarrow> rows' ! nat l = ?rows ! nat l"
    using step.IH [of ?rows] idle busy step.prems(1,4) by auto
  have "?rows ! nat l' = rows ! nat l'" if "0 \<le> l'" "l' < int N" "\<forall>k < n. S k \<noteq> Some l'" for l'
    using that kj(1) l by (auto simp: cell)
  then show ?case using rows' exec by (intro exI [of _ rows']) simp
qed

section \<open>The adapters of a launch\<close>

text \<open>
  The host gets \<^verbatim>\<open>max_loras + 1\<close> sorted ids of adapters, where -1 stands for tokens without one.
\<close>

definition lora_adapter :: "lora_args \<Rightarrow> nat \<Rightarrow> int option" where
  "lora_adapter g k = (let l = la_lora_ids g ! k in
     if l = -1 \<or> la_max_loras g \<le> l \<or> la_adapter_enabled g ! nat l = 0 then None else Some l)"

definition lora_ids_ok :: "lora_args \<Rightarrow> bool" where
  "lora_ids_ok g \<longleftrightarrow> 0 \<le> la_max_loras g \<and> int (length (la_lora_ids g)) = la_max_loras g + 1 \<and> distinct (la_lora_ids g) \<and>
     (\<forall>l \<in> set (la_lora_ids g). -1 \<le> l) \<and> la_max_loras g \<le> int (length (la_adapter_enabled g))"

text \<open>The adapters that are there and enabled, and the tokens of one.\<close>

definition active_adapter :: "lora_args \<Rightarrow> int \<Rightarrow> bool" where
  "active_adapter g l \<longleftrightarrow> l \<in> set (la_lora_ids g) \<and> 0 \<le> l \<and> l < la_max_loras g \<and> la_adapter_enabled g ! nat l \<noteq> 0"

definition adapter_mask :: "lora_args \<Rightarrow> int \<Rightarrow> int list" where
  "adapter_mask g l = map (\<lambda>i. if int32 (la_token_lora_mapping g ! nat i) = l then 1 else 0)
     [0..aa_numel (la_align g) div la_topk_num g - 1]"

definition adapter_args :: "lora_args \<Rightarrow> int \<Rightarrow> align_args" where
  "adapter_args g l = masked_args (la_align g) (la_topk_num g) (adapter_mask g l)"

definition lora_args_ok :: "lora_args \<Rightarrow> bool" where
  "lora_args_ok g \<longleftrightarrow> lora_ids_ok g \<and> align_args_ok (la_align g) \<and> 0 < aa_experts_per_warp (la_align g) \<and> 0 < la_topk_num g \<and>
     la_topk_num g dvd aa_numel (la_align g) \<and>
     aa_numel (la_align g) div la_topk_num g \<le> int (length (la_token_lora_mapping g))"

lemma lora_block_eq:
  assumes "lora_ids_ok g" and "k < length (la_lora_ids g)"
  shows "lora_block g (int k) phs = Inr (case lora_adapter g k of None \<Rightarrow> [] | Some l \<Rightarrow> map (Pair l) phs)"
proof -
  have k: "k < length (la_lora_ids g)" by (rule assms(2))
  then have "-1 \<le> la_lora_ids g ! k" using assms(1) by (simp add: lora_ids_ok_def)
  then have "la_lora_ids g ! k = -1 \<or> 0 \<le> la_lora_ids g ! k" by linarith
  then show ?thesis
    using k assms(1) by (auto simp: lora_block_def lora_slot_def lora_adapter_def array_load_def in_array_def lora_ids_ok_def Let_def)
qed

lemma adapter_some:
  assumes "lora_ids_ok g" and "k < length (la_lora_ids g)" and "lora_adapter g k = Some l"
  shows "0 \<le> l" "l < la_max_loras g" "k' < length (la_lora_ids g) \<Longrightarrow> lora_adapter g k' = Some l \<Longrightarrow> k' = k"
proof -
  have k: "k < length (la_lora_ids g)" by (rule assms(2))
  then have "-1 \<le> la_lora_ids g ! k" using assms(1) by (simp add: lora_ids_ok_def)
  then have "la_lora_ids g ! k = -1 \<or> 0 \<le> la_lora_ids g ! k" by linarith
  then show "0 \<le> l" "l < la_max_loras g" using assms(3) by (auto simp: lora_adapter_def Let_def split: if_splits)
  show "k' = k" if "k' < length (la_lora_ids g)" "lora_adapter g k' = Some l"
  proof -
    have "la_lora_ids g ! k' = la_lora_ids g ! k" using assms(3) that(2) by (simp add: lora_adapter_def Let_def split: if_splits)
    then show ?thesis using assms(1) k that(1) by (simp add: lora_ids_ok_def nth_eq_iff_index_eq)
  qed
qed

lemma active_iff:
  assumes "lora_ids_ok g"
  shows "active_adapter g l \<longleftrightarrow> (\<exists>k < length (la_lora_ids g). lora_adapter g k = Some l)"
proof
  assume a: "active_adapter g l"
  then obtain k where "k < length (la_lora_ids g)" "la_lora_ids g ! k = l" by (auto simp: active_adapter_def in_set_conv_nth)
  then show "\<exists>k < length (la_lora_ids g). lora_adapter g k = Some l"
    using a assms by (intro exI [of _ k]) (auto simp: active_adapter_def lora_adapter_def lora_ids_ok_def)
next
  assume "\<exists>k < length (la_lora_ids g). lora_adapter g k = Some l"
  then obtain k where k: "k < length (la_lora_ids g)" "lora_adapter g k = Some l" by blast
  then show "active_adapter g l"
    using adapter_some(1,2) [OF assms k] k(2) by (auto simp: active_adapter_def lora_adapter_def Let_def split: if_splits)
qed

lemma adapter_mask_tokens:
  assumes "lora_args_ok g"
  shows "masks_tokens (la_align g) (la_topk_num g) (adapter_mask g l)"
proof -
  have "0 < la_topk_num g" "la_topk_num g dvd aa_numel (la_align g)" using assms by (simp_all add: lora_args_ok_def)
  moreover have "0 \<le> aa_numel (la_align g) div la_topk_num g" using calculation(1) by (simp add: pos_imp_zdiv_nonneg_iff)
  ultimately show ?thesis by (auto simp: masks_tokens_def adapter_mask_def)
qed

lemma prologue_eq:
  assumes ok: "lora_args_ok g" and r: "int (length (lr_mask r)) = aa_numel (la_align g) div la_topk_num g"
    "length (al_total_tokens_post_pad (lr_mem r)) = 1"
  shows "lora_prologue g l r =
    Inr (r\<lparr>lr_mem := (lr_mem r)\<lparr>al_total_tokens_post_pad := [0]\<rparr>, lr_mask := adapter_mask g l\<rparr>)"
proof -
  let ?n = "aa_numel (la_align g) div la_topk_num g"
  have k: "0 < la_topk_num g" "aa_numel (la_align g) < 2 ^ 31" "?n \<le> int (length (la_token_lora_mapping g))"
    using ok by (simp_all add: lora_args_ok_def align_args_ok_def)
  have n: "0 \<le> ?n" using r(1) by linarith
  have "?n * 1 \<le> ?n * la_topk_num g" using n k(1) by (intro mult_left_mono) simp_all
  moreover have "?n * la_topk_num g \<le> aa_numel (la_align g)" using k(1) by (simp flip: minus_mod_eq_div_mult)
  ultimately have num: "int32 (aa_numel (la_align g) sdiv la_topk_num g) = ?n" using n k by (simp add: sdiv_nonneg int32_id)
  let ?v = "\<lambda>i. if int32 (la_token_lora_mapping g ! nat i) = l then 1 else (0 :: int)"
  let ?f = "\<lambda>i ms. rbind (array_load (la_token_lora_mapping g) i) (\<lambda>x. array_store ms i (if int32 x = l then 1 else 0))"
  have step: "?f i ms = (if True then array_store ms i (?v i) else Inr ms)" if "i \<in> set [0..?n - 1]" for i ms
    using that k(3) by (simp add: array_load_def in_array_def)
  have valid: "\<forall>i \<in> set [0..?n - 1]. True \<longrightarrow> in_array (lr_mask r) i" using r(1) by (simp add: in_array_def)
  obtain ms where ms: "rfold ?f [0..?n - 1] (lr_mask r) = Inr ms" "\<forall>b. in_array ms b = in_array (lr_mask r) b"
    and stored: "\<forall>x \<in> set [0..?n - 1]. True \<longrightarrow> (\<forall>y \<in> set [0..?n - 1]. True \<longrightarrow> y = x \<longrightarrow> ?v y = ?v x) \<longrightarrow>
      array_load ms x = Inr (?v x)"
    using flat.stores [where f = ?f and ok = "\<lambda>_. True" and addr = "\<lambda>i. i" and v = ?v, OF step valid] by blast
  have "ms = adapter_mask g l"
  proof (rule nth_equalityI)
    show len: "length ms = length (adapter_mask g l)" using in_array_length [of ms "lr_mask r"] ms(2) r(1) by (simp add: adapter_mask_def)
    fix i assume "i < length ms"
    then have i: "int i \<in> set [0..?n - 1]" using len by (simp add: adapter_mask_def)
    then have "array_load ms (int i) = Inr (?v (int i))" using stored by blast
    then have "ms ! i = ?v (int i)" using array_loadI [of ms "int i"] by simp
    then show "ms ! i = adapter_mask g l ! i" using i nth_map_upto [of "int i" "?n - 1" ?v] by (simp add: adapter_mask_def)
  qed
  moreover obtain t where "al_total_tokens_post_pad (lr_mem r) = [t]" using r(2) by (auto simp: length_Suc_conv)
  ultimately show ?thesis
    using k(1) ms(1) by (simp add: lora_prologue_def num array_store_def in_array_def)
qed

section \<open>The small program of an adapter\<close>

definition al_sizes :: "align_state \<Rightarrow> nat \<times> nat \<times> nat \<times> nat" where
  "al_sizes m = (length (al_sorted_token_ids m), length (al_expert_ids m), length (al_cumsum m), length (al_counts m))"

lemma align_exec_sizes: "align_exec g x m = Inr m' \<Longrightarrow> al_sizes m' = al_sizes m"
  by (cases x) (auto simp: al_sizes_def rbind_eq_Inr_iff count_token_def place_token_def count_row_def place_row_def
      dest!: array_store_Inr atomic_add_keeps split: option.splits)

lemma run_phase_sizes: "run_phase sched g n ps m = Inr m' \<Longrightarrow> al_sizes m' = al_sizes m"
  unfolding run_phase_def by (erule rfold_invariant [where I = "\<lambda>x. al_sizes x = al_sizes m"]) (auto dest: align_exec_sizes)

lemma sum_padded_keeps:
  assumes "sum_padded g stride m = Inr m'"
  shows "al_sizes m' = al_sizes m" "al_counts m' = al_counts m"
proof -
  obtain c0 c t where c0: "array_store (al_cumsum m) 0 0 = Inr c0" and c: "rfold (\<lambda>i c. rbind (array_load c (i - 1)) (\<lambda>a.
         rbind (array_load (al_counts m) (stride * aa_num_experts g + i - 1)) (\<lambda>n.
         array_store c i (int32 (a + CEILDIV n (aa_block_size g) * aa_block_size g))))) [1..aa_num_experts g] c0 = Inr c"
    and m': "m' = m\<lparr>al_cumsum := c, al_total_tokens_post_pad := t\<rparr>"
    using assms by (auto simp: sum_padded_def rbind_eq_Inr_iff)
  have "length c = length c0"
    by (rule rfold_invariant [OF c, of "\<lambda>x. length x = length c0"]) (auto simp: rbind_eq_Inr_iff dest!: array_store_Inr)
  then show "al_sizes m' = al_sizes m" "al_counts m' = al_counts m" using array_store_Inr [OF c0] by (simp_all add: m' al_sizes_def)
qed

lemma lora_expert_steps:
  "lora_expert_program g stride t m = Inr p \<Longrightarrow> x \<in> set p \<Longrightarrow> \<exists>b e. x = Set_Expert b e"
  by (auto simp: lora_expert_program_def rbind_eq_Inr_iff split: if_splits)

lemma small_memory_run:
  assumes ok: "align_args_ok g" "0 < aa_experts_per_warp g" "masks_tokens g k ms" "fair sched"
    and ids: "\<forall>x \<in> set (aa_topk_ids g). x < aa_num_experts g" and stride: "0 \<le> stride"
    and cells: "int_cells (al_counts m)" and counts: "int (length (al_counts m)) = (stride + 1) * aa_num_experts g"
    and cumsum: "int (length (al_cumsum m)) = aa_num_experts g + 1"
    and blocks: "int (length (al_expert_ids m)) = CEILDIV (int (length (al_sorted_token_ids m))) (aa_block_size g)"
    and run: "align_small sched (masked_args g k ms) stride m = Inr m'"
  shows "rfold (lora_memory sched g k ms) [Small_Count stride, Small_Columns stride, Small_Sum stride, Small_Place stride] m = Inr m'"
proof -
  let ?g = "masked_args g k ms"
  let ?p0 = "map (\<lambda>t. fill_program kFillThreads t m) [0..kFillThreads - 1] @ map (row_count_program g stride) [0..stride - 1]"
  let ?p1 = "map (column_program g stride) [0..stride - 1]"
  have E: "0 < aa_num_experts g" using ok(1) by (simp add: align_args_ok_def)
  obtain m1 m2 m3 ps where r0: "run_phase sched ?g 0 ?p0 m = Inr m1" and r1: "run_phase sched ?g 1 ?p1 m1 = Inr m2"
    and r2: "sum_padded g stride m2 = Inr m3"
    and ps: "rmap (\<lambda>t. rbind (expert_program ?g stride t m3) (\<lambda>p. Inr (p @ map (Place_Row t) (stride_loop t stride (aa_numel g)))))
      [0..stride - 1] = Inr ps" and r3: "run_phase sched ?g 2 ps m3 = Inr m'"
    using run by (auto simp: align_small_def rbind_eq_Inr_iff)
  have s1: "al_sizes m1 = al_sizes m" by (rule run_phase_sizes [OF r0])
  have s2: "al_sizes m2 = al_sizes m" using run_phase_sizes [OF r1] s1 by simp
  have s3: "al_sizes m3 = al_sizes m" using sum_padded_keeps(1) [OF r2] s2 by simp
  have rows: "(t + 2) * aa_num_experts g \<le> (stride + 1) * aa_num_experts g" "(t + 1) * aa_num_experts g \<le> (stride + 1) * aa_num_experts g"
    if "t < stride" for t using that E by (intro mult_right_mono; simp)+
  have in0: "\<forall>p \<in> set ?p0. \<forall>x \<in> set p. step_in g m x"
    using rows counts ids stride by (auto simp: fill_program_def row_count_program_def set_stride_loop)
  note e0 = masked_phase_eq [OF ok cells in0, of 0]
  have in1: "\<forall>p \<in> set ?p1. \<forall>x \<in> set p. step_in g m1 x" by (auto simp: column_program_def)
  note e1 = masked_phase_eq [OF ok e0(2) [OF r0] in1, of 1]
  have blocks3: "int (length (al_expert_ids m3)) = CEILDIV (int (length (al_sorted_token_ids m3))) (aa_block_size ?g)"
    using blocks s3 by (simp add: al_sizes_def)
  have progs: "expert_program ?g stride t m3 = lora_expert_program g stride t m3" for t
    using lora_expert_program_eq [OF blocks3, of stride t] by simp
  have in3: "\<forall>p \<in> set ps. \<forall>x \<in> set p. step_in g m3 x"
  proof (intro ballI)
    fix p x assume p: "p \<in> set ps" "x \<in> set p"
    then obtain i where i: "i < length ps" "p = ps ! i" by (auto simp: in_set_conv_nth)
    then have t: "i < length [0..stride - 1]" "[0..stride - 1] ! i = int i" "int i < stride" using ps by (auto simp: rmap_eq_Inr_iff)
    then obtain q where q: "lora_expert_program g stride (int i) m3 = Inr q"
        "p = q @ map (Place_Row (int i)) (stride_loop (int i) stride (aa_numel g))"
      using ps i by (auto simp: rmap_eq_Inr_iff rbind_eq_Inr_iff progs)
    show "step_in g m3 x"
    proof (cases "x \<in> set q")
      case True
      then show ?thesis using lora_expert_steps [OF q(1)] by force
    next
      case False
      then show ?thesis
        using p(2) q(2) t(3) rows(2) [OF t(3)] s3 counts cumsum ids by (auto simp: set_stride_loop al_sizes_def)
    qed
  qed
  have "int_cells (al_counts m3)" using e1(2) [OF r1] sum_padded_keeps(2) [OF r2] by simp
  note e3 = masked_phase_eq [OF ok this in3, of 2]
  show ?thesis using e0(1) r0 e1(1) r1 r2 ps e3(1) r3 by (simp add: progs)
qed

text \<open>The rows a launch starts from.\<close>

definition adapter_row_ok :: "lora_args \<Rightarrow> int \<Rightarrow> int \<Rightarrow> lora_row \<Rightarrow> bool" where
  "adapter_row_ok g l counts r \<longleftrightarrow>
     int (length (lr_mask r)) = aa_numel (la_align g) div la_topk_num g \<and> length (al_total_tokens_post_pad (lr_mem r)) = 1 \<and>
     int_cells (al_counts (lr_mem r)) \<and> int (length (al_counts (lr_mem r))) = counts \<and> align_memory_ok (adapter_args g l) (lr_mem r)"

definition lora_rows_ok :: "lora_args \<Rightarrow> int \<Rightarrow> lora_row list \<Rightarrow> bool" where
  "lora_rows_ok g counts rows \<longleftrightarrow> int (length rows) = la_max_loras g \<and>
     (\<forall>l. active_adapter g l \<longrightarrow> adapter_row_ok g l counts (rows ! nat l))"

lemma phases_memory:
  "\<forall>ph \<in> set phs. ph \<noteq> Prologue \<Longrightarrow> rfold (lora_phase_exec sched g l) phs r =
     rbind (rfold (lora_memory sched (la_align g) (la_topk_num g) (lr_mask r)) phs (lr_mem r)) (\<lambda>m. Inr (r\<lparr>lr_mem := m\<rparr>))"
proof (induction phs arbitrary: r)
  case (Cons ph phs)
  show ?case
    by (cases "lora_memory sched (la_align g) (la_topk_num g) (lr_mask r) ph (lr_mem r)")
      (use Cons in \<open>simp_all add: lora_phase_exec_def\<close>)
qed simp

lemma small_adapter_run:
  assumes ok: "lora_args_ok g" "\<forall>x \<in> set (aa_topk_ids (la_align g)). x < aa_num_experts (la_align g)" "fair sched"
    and stride: "aa_num_experts (la_align g) \<le> stride"
    and row: "adapter_row_ok g l ((stride + 1) * aa_num_experts (la_align g)) r"
  shows "\<exists>r'. rfold (lora_phase_exec sched g l) (small_phases stride) r = Inr r' \<and> aligned (adapter_args g l) (lr_mem r')"
proof -
  let ?m = "(lr_mem r)\<lparr>al_total_tokens_post_pad := [0]\<rparr>"
  have a: "align_args_ok (la_align g)" "0 < aa_experts_per_warp (la_align g)" using ok(1) by (simp_all add: lora_args_ok_def)
  have E: "0 \<le> stride" using a(1) stride by (simp add: align_args_ok_def)
  note ms = adapter_mask_tokens [OF ok(1), of l]
  have mem: "align_memory_ok (adapter_args g l) ?m" "int_cells (al_counts ?m)"
    "int (length (al_counts ?m)) = (stride + 1) * aa_num_experts (la_align g)"
    using row by (simp_all add: adapter_row_ok_def align_memory_ok_def)
  have args: "small_args_ok (adapter_args g l) stride"
    unfolding adapter_args_def using masked_small_ok(1) [OF a(1) ok(2) stride] .
  obtain m' where m': "align_small sched (adapter_args g l) stride ?m = Inr m'" "aligned (adapter_args g l) m'"
    using align_small_aligned [OF args ok(3) _ mem(1)] mem(3) by (auto simp: adapter_args_def)
  have "rfold (lora_memory sched (la_align g) (la_topk_num g) (adapter_mask g l))
      [Small_Count stride, Small_Columns stride, Small_Sum stride, Small_Place stride] ?m = Inr m'"
    by (rule small_memory_run [OF a ms ok(3,2) E mem(2,3)])
      (use mem(1) m'(1) in \<open>simp_all add: align_memory_ok_def adapter_args_def\<close>)
  then have "rfold (lora_phase_exec sched g l) [Small_Count stride, Small_Columns stride, Small_Sum stride, Small_Place stride]
      (r\<lparr>lr_mem := ?m, lr_mask := adapter_mask g l\<rparr>) = Inr (r\<lparr>lr_mem := m', lr_mask := adapter_mask g l\<rparr>)"
    by (subst phases_memory) simp_all
  moreover have "lora_phase_exec sched g l Prologue r = Inr (r\<lparr>lr_mem := ?m, lr_mask := adapter_mask g l\<rparr>)"
    using prologue_eq [OF ok(1)] row by (simp add: lora_phase_exec_def adapter_row_ok_def)
  ultimately show ?thesis using m'(2) by (intro exI [of _ "r\<lparr>lr_mem := m', lr_mask := adapter_mask g l\<rparr>"]) (simp add: small_phases_def)
qed

text \<open>One block for every slot.\<close>

lemma slot_blocks:
  assumes ids: "lora_ids_ok g" and rows: "int (length rows) = la_max_loras g"
    and order: "interleave (map (\<lambda>k. case lora_adapter g k of None \<Rightarrow> [] | Some l \<Rightarrow> map (Pair l) phs) [0..<length (la_lora_ids g)]) xs"
    and run: "\<And>l. active_adapter g l \<Longrightarrow> \<exists>r'. rfold (lora_phase_exec (sched l) g l) phs (rows ! nat l) = Inr r' \<and> Q l r'"
  shows "\<exists>rows'. rfold (row_event_exec sched g) xs rows = Inr rows' \<and> length rows' = length rows \<and>
    (\<forall>l. active_adapter g l \<longrightarrow> Q l (rows' ! nat l)) \<and>
    (\<forall>l. 0 \<le> l \<and> l < la_max_loras g \<and> \<not> active_adapter g l \<longrightarrow> rows' ! nat l = rows ! nat l)"
proof -
  let ?n = "length (la_lora_ids g)"
  let ?J = "\<lambda>l rems r. \<exists>rem r'. rems = [rem] \<and> rfold (lora_phase_exec (sched l) g l) rem r = Inr r' \<and> Q l r'"
  let ?ps = "map (\<lambda>k. case lora_adapter g k of None \<Rightarrow> [] | Some l \<Rightarrow> map (Pair l) phs) [0..<?n]"
  note iff = active_iff [OF ids]
  obtain rows' where rows': "rfold (row_event_exec sched g) xs rows = Inr rows'" "length rows' = length rows"
    "\<forall>k l. k < ?n \<and> lora_adapter g k = Some l \<longrightarrow> ?J l (replicate 1 []) (rows' ! nat l)"
    "\<forall>l. 0 \<le> l \<and> l < int (length rows) \<and> (\<forall>k < ?n. lora_adapter g k \<noteq> Some l) \<longrightarrow> rows' ! nat l = rows ! nat l"
  proof (rule exE [OF blocks_run [where J = ?J and S = "lora_adapter g" and m = 1 and n = ?n, OF order]])
    show "\<exists>rems. length rems = 1 \<and> (\<forall>j < 1. ?ps ! (k * 1 + j) = map (Pair l) (rems ! j)) \<and> ?J l rems (rows ! nat l)"
      if "k < ?n" "lora_adapter g k = Some l" for k l
    proof -
      have "active_adapter g l" using that iff by blast
      then show ?thesis using run [of l] that by (intro exI [of _ "[phs]"]) simp
    qed
    show "\<exists>r'. lora_phase_exec (sched l) g l ph r = Inr r' \<and> ?J l (rems[j := rest]) r'"
      if "j < length rems" "rems ! j = ph # rest" "?J l rems r" for l rems j ph rest r
      using that by (auto simp: rbind_eq_Inr_iff)
    show "0 \<le> l \<and> l < int (length rows)" if "k < ?n" "lora_adapter g k = Some l" for k l
      using adapter_some(1,2) [OF ids that] rows by simp
    show "k = k'" if "k < ?n" "k' < ?n" "lora_adapter g k = Some l" "lora_adapter g k' = Some l" for k k' l
      using adapter_some(3) [OF ids that(2,4)] that by blast
  qed (auto intro: that)
  have "Q l (rows' ! nat l)" if "active_adapter g l" for l using rows'(3) that unfolding iff by auto
  moreover have "rows' ! nat l = rows ! nat l" if "0 \<le> l" "l < la_max_loras g" "\<not> active_adapter g l" for l
    using rows'(4) that rows unfolding iff by auto
  ultimately show ?thesis using rows'(1,2) by blast
qed

lemma slot_programs:
  assumes "lora_ids_ok g"
  shows "rmap (\<lambda>b. lora_block g b phs) [0..la_max_loras g] =
    Inr (map (\<lambda>k. case lora_adapter g k of None \<Rightarrow> [] | Some l \<Rightarrow> map (Pair l) phs) [0..<length (la_lora_ids g)])"
proof -
  have "[0..la_max_loras g] = map int [0..<length (la_lora_ids g)]"
    using assms by (intro nth_equalityI) (auto simp: lora_ids_ok_def)
  moreover have "rmap (\<lambda>b. lora_block g b phs) (map int ks) =
      Inr (map (\<lambda>k. case lora_adapter g k of None \<Rightarrow> [] | Some l \<Rightarrow> map (Pair l) phs) ks)"
    if "\<forall>k \<in> set ks. k < length (la_lora_ids g)" for ks
    using that by (induction ks) (simp_all add: lora_block_eq [OF assms])
  ultimately show ?thesis by simp
qed

lemma lora_small_aligned:
  assumes "lora_args_ok g" and "\<And>l. fair (sched l)" and "fair_order order"
    and "\<forall>x \<in> set (aa_topk_ids (la_align g)). x < aa_num_experts (la_align g)" and "aa_num_experts (la_align g) \<le> stride"
    and "lora_mem_ok g m" and "lora_rows_ok g ((stride + 1) * aa_num_experts (la_align g)) (rows_of g m)"
  shows "\<exists>m'. lora_small order sched g stride m = Inr m' \<and> lora_mem_ok g m' \<and>
    (\<forall>l. active_adapter g l \<longrightarrow> aligned (adapter_args g l) (lr_mem (row_at g m' l))) \<and>
    (\<forall>l. 0 \<le> l \<and> l < la_max_loras g \<and> \<not> active_adapter g l \<longrightarrow> row_at g m' l = row_at g m l)"
proof -
  have ids: "lora_ids_ok g" using assms(1) by (simp add: lora_args_ok_def)
  have rows: "int (length (rows_of g m)) = la_max_loras g"
    "\<And>l. active_adapter g l \<Longrightarrow> adapter_row_ok g l ((stride + 1) * aa_num_experts (la_align g)) (rows_of g m ! nat l)"
    using assms(7) by (simp_all add: lora_rows_ok_def)
  let ?ps = "map (\<lambda>k. case lora_adapter g k of None \<Rightarrow> [] | Some l \<Rightarrow> map (Pair l) (small_phases stride)) [0..<length (la_lora_ids g)]"
  have "interleave ?ps (order 0 ?ps)" using assms(3) by (simp add: fair_order_def)
  moreover have "\<exists>r'. rfold (lora_phase_exec (sched l) g l) (small_phases stride) (rows_of g m ! nat l) = Inr r' \<and>
      aligned (adapter_args g l) (lr_mem r')" if "active_adapter g l" for l
    using small_adapter_run [OF assms(1,4,2,5) rows(2)] that by blast
  ultimately obtain rows' where r: "rfold (row_event_exec sched g) (order 0 ?ps) (rows_of g m) = Inr rows'"
    "\<forall>l. active_adapter g l \<longrightarrow> aligned (adapter_args g l) (lr_mem (rows' ! nat l))"
    "\<forall>l. 0 \<le> l \<and> l < la_max_loras g \<and> \<not> active_adapter g l \<longrightarrow> rows' ! nat l = rows_of g m ! nat l"
    using slot_blocks [where sched = sched and Q = "\<lambda>l r. aligned (adapter_args g l) (lr_mem r)", OF ids rows(1)] by blast
  obtain m' where m': "rfold (lora_event_exec sched g) (order 0 ?ps) m = Inr m'" "lora_mem_ok g m'" "rows_of g m' = rows'"
    using run_refines [OF assms(6) r(1)] by blast
  have "lora_small order sched g stride m = Inr m'" using m'(1) by (simp add: lora_small_def slot_programs [OF ids])
  then show ?thesis using m'(2) r(2,3) rows_of_nth [of _ g] by (intro exI [of _ m']) (auto simp: active_adapter_def simp flip: m'(3))
qed

section \<open>The large program of an adapter\<close>

text \<open>
  Two blocks work for an adapter: one counts and aligns, the other fills. After \<open>i\<close> phases of the first
  and \<open>j\<close> phases of the second its row is as follows. Each of them resets the count of padded tokens.
\<close>

definition large_inv :: "lora_args \<Rightarrow> int \<Rightarrow> nat \<Rightarrow> nat \<Rightarrow> lora_row \<Rightarrow> bool" where
  "large_inv g l i j r \<longleftrightarrow> adapter_row_ok g l (aa_padded_num_experts (la_align g)) r \<and>
     (0 < i \<or> 0 < j \<longrightarrow> lr_mask r = adapter_mask g l) \<and>
     (i = 2 \<longrightarrow> (\<forall>e. 0 \<le> e \<and> e < aa_num_experts (la_align g) \<longrightarrow> al_counts (lr_mem r) ! nat e = 0)) \<and>
     (i = 3 \<longrightarrow> (\<forall>e. 0 \<le> e \<and> e < aa_num_experts (la_align g) \<longrightarrow>
        al_counts (lr_mem r) ! nat e = int (length (expert_tokens (adapter_args g l) e)))) \<and>
     (4 \<le> i \<longrightarrow> al_cumsum (lr_mem r) = map (block_start (adapter_args g l)) [0..aa_num_experts (la_align g)] \<and>
        al_total_tokens_post_pad (lr_mem r) ! 0 \<in> {0, block_start (adapter_args g l) (aa_num_experts (la_align g))}) \<and>
     (i = 5 \<longrightarrow> (\<forall>b e. block_of (adapter_args g l) b e \<and>
        b < CEILDIV (int (length (al_sorted_token_ids (lr_mem r)))) (aa_block_size (la_align g)) \<longrightarrow> al_expert_ids (lr_mem r) ! nat b = e)) \<and>
     (j = 2 \<longrightarrow> (\<forall>p. 0 \<le> p \<and> p < int (length (al_sorted_token_ids (lr_mem r))) \<longrightarrow>
        al_sorted_token_ids (lr_mem r) ! nat p = aa_numel (la_align g)))"

definition large_counters_ok :: "lora_args \<Rightarrow> bool" where
  "large_counters_ok g \<longleftrightarrow> aa_num_experts (la_align g) \<le> aa_padded_num_experts (la_align g) \<and>
     aa_padded_num_experts (la_align g) \<le> kScanThreads"

lemma adapter_args_fields [simp]:
  "aa_num_experts (adapter_args g l) = aa_num_experts (la_align g)" "aa_block_size (adapter_args g l) = aa_block_size (la_align g)"
  "aa_experts_per_warp (adapter_args g l) = aa_experts_per_warp (la_align g)"
  "aa_padded_num_experts (adapter_args g l) = aa_padded_num_experts (la_align g)"
  "length (aa_topk_ids (adapter_args g l)) = length (aa_topk_ids (la_align g))"
  by (simp_all add: adapter_args_def)

lemma large_inv_prologue:
  assumes ok: "lora_args_ok g" and inv: "large_inv g l i j r"
    and i': "i' = i \<or> i = 0 \<and> i' = 1" and j': "j' = j \<or> j = 0 \<and> j' = 1"
  shows "\<exists>r'. lora_phase_exec sched g l Prologue r = Inr r' \<and> large_inv g l i' j' r'"
proof -
  have row: "adapter_row_ok g l (aa_padded_num_experts (la_align g)) r" using inv by (simp add: large_inv_def)
  have exec: "lora_phase_exec sched g l Prologue r =
      Inr (r\<lparr>lr_mem := (lr_mem r)\<lparr>al_total_tokens_post_pad := [0]\<rparr>, lr_mask := adapter_mask g l\<rparr>)" (is "_ = Inr ?r")
    using prologue_eq [OF ok] row by (simp add: lora_phase_exec_def adapter_row_ok_def)
  have "length (adapter_mask g l) = length (lr_mask r)"
  proof -
    have "length (adapter_mask g l) = nat (aa_numel (la_align g) div la_topk_num g)" by (simp add: adapter_mask_def)
    also have "\<dots> = length (lr_mask r)" using row unfolding adapter_row_ok_def by (metis nat_int)
    finally show ?thesis .
  qed
  then have "adapter_row_ok g l (aa_padded_num_experts (la_align g)) ?r" using row by (simp add: adapter_row_ok_def align_memory_ok_def)
  moreover have "i' = 2 \<Longrightarrow> i = 2" "i' = 3 \<Longrightarrow> i = 3" "4 \<le> i' \<Longrightarrow> 4 \<le> i" "i' = 5 \<Longrightarrow> i = 5" "j' = 2 \<Longrightarrow> j = 2"
    using i' j' by auto
  ultimately have "large_inv g l i' j' ?r" using inv unfolding large_inv_def by (elim conjE, intro conjI impI) simp_all
  then show ?thesis using exec by blast
qed

text \<open>A phase of threads that interleave, over the tokens of the adapter.\<close>

lemma adapter_phase:
  assumes ok: "lora_args_ok g" "fair sched" and inv: "large_inv g l i j r" and "0 < i \<or> 0 < j"
    and "\<forall>p \<in> set ps. \<forall>x \<in> set p. step_in (la_align g) (lr_mem r) x"
    and run: "run_phase sched (adapter_args g l) n ps (lr_mem r) = Inr m'"
  shows "masked_phase sched (la_align g) (la_topk_num g) (lr_mask r) n ps (lr_mem r) = Inr m'" and "int_cells (al_counts m')"
    and "al_sizes m' = al_sizes (lr_mem r)"
proof -
  have a: "align_args_ok (la_align g)" "0 < aa_experts_per_warp (la_align g)" using ok(1) by (simp_all add: lora_args_ok_def)
  have cells: "int_cells (al_counts (lr_mem r))" and ms: "lr_mask r = adapter_mask g l"
    using inv assms(4) by (auto simp: large_inv_def adapter_row_ok_def)
  note e = masked_phase_eq [OF a adapter_mask_tokens [OF ok(1)] ok(2) cells assms(5), of l n, folded adapter_args_def]
  show "masked_phase sched (la_align g) (la_topk_num g) (lr_mask r) n ps (lr_mem r) = Inr m'" "int_cells (al_counts m')"
    using e run by (simp_all add: ms)
  show "al_sizes m' = al_sizes (lr_mem r)" by (rule run_phase_sizes [OF run])
qed

lemma adapter_row_sizes:
  assumes "adapter_row_ok g l c r" and "al_sizes m = al_sizes (lr_mem r)" "int_cells (al_counts m)"
    and "length (al_total_tokens_post_pad m) = 1"
  shows "adapter_row_ok g l c (r\<lparr>lr_mem := m\<rparr>)"
  using assms by (simp add: adapter_row_ok_def al_sizes_def align_memory_ok_def)

lemma phase_exec_memory:
  "ph \<noteq> Prologue \<Longrightarrow> lora_memory sched (la_align g) (la_topk_num g) (lr_mask r) ph (lr_mem r) = Inr m \<Longrightarrow>
   lora_phase_exec sched g l ph r = Inr (r\<lparr>lr_mem := m\<rparr>)"
  by (simp add: lora_phase_exec_def)

lemma same_cells: "\<forall>p \<ge> 0. xs ! nat p = ys ! nat p \<Longrightarrow> length xs = length ys \<Longrightarrow> xs = ys"
  by (rule nth_equalityI) (auto dest: spec [of _ "int _"])

lemma adapter_ok:
  assumes "lora_args_ok g"
  shows "align_args_ok (adapter_args g l)" "0 < aa_experts_per_warp (adapter_args g l)" "0 < aa_block_size (la_align g)"
    "0 < aa_num_experts (la_align g)" "aa_num_experts (la_align g) \<le> kScanThreads"
proof -
  have a: "align_args_ok (la_align g)" "0 < aa_experts_per_warp (la_align g)" using assms by (simp_all add: lora_args_ok_def)
  then show "align_args_ok (adapter_args g l)" unfolding adapter_args_def by (intro masked_args_ok)
  show "0 < aa_experts_per_warp (adapter_args g l)" using a(2) by simp
  show "0 < aa_block_size (la_align g)" "0 < aa_num_experts (la_align g)" "aa_num_experts (la_align g) \<le> kScanThreads"
    using a(1) by (simp_all add: align_args_ok_def kScanThreads_def)
qed

lemma large_inv_fill:
  assumes ok: "lora_args_ok g" "fair sched" and inv: "large_inv g l i 1 r"
  shows "\<exists>r'. lora_phase_exec sched g l Fill_Phase r = Inr r' \<and> large_inv g l i 2 r'"
proof -
  have row: "adapter_row_ok g l (aa_padded_num_experts (la_align g)) r" using inv by (simp add: large_inv_def)
  let ?m = "lr_mem r"
  let ?ps = "map (\<lambda>t. fill_program kScanThreads t ?m) [0..kScanThreads - 1]"
  let ?xs = "sched 4 ?ps"
  have xs: "set ?xs = (\<Union>t \<in> {0..kScanThreads - 1}. set (fill_program kScanThreads t ?m))"
    unfolding run_phase_set(2) [OF ok(2)] by simp
  have fill: "\<forall>x \<in> set ?xs. \<exists>a. x = Fill_Sorted a \<and> in_array (al_sorted_token_ids ?m) a"
    unfolding xs using fill_program_steps(1) by (metis UN_E atLeastAtMost_iff)
  then have steps: "\<forall>x \<in> set ?xs. (\<exists>a. x = Fill_Sorted a \<and> in_array (al_sorted_token_ids ?m) a) \<or>
      (\<exists>a. x = Zero_Count a \<and> in_array (al_counts ?m) a)" by blast
  obtain s c where run: "rfold (align_exec (adapter_args g l)) ?xs ?m = Inr (?m\<lparr>al_sorted_token_ids := s, al_counts := c\<rparr>)"
    and len: "length s = length (al_sorted_token_ids ?m)" "length c = length (al_counts ?m)"
    and s: "\<forall>p \<ge> 0. s ! nat p = (if Fill_Sorted p \<in> set ?xs then aa_numel (adapter_args g l) else al_sorted_token_ids ?m ! nat p)"
    and c: "\<forall>p \<ge> 0. c ! nat p = (if Zero_Count p \<in> set ?xs then 0 else al_counts ?m ! nat p)"
    using fill_zero_run [OF adapter_ok(1) [OF ok(1)] steps] by blast
  have "c = al_counts ?m" using c fill len(2) by (intro same_cells) force+
  then have run': "run_phase sched (adapter_args g l) 4 ?ps ?m = Inr (?m\<lparr>al_sorted_token_ids := s\<rparr>)"
    using run by (simp add: run_phase_def)
  have in_ps: "\<forall>p \<in> set ?ps. \<forall>x \<in> set p. step_in (la_align g) ?m x" by (auto simp: fill_program_def)
  note phase = adapter_phase [OF ok inv _ in_ps run']
  have "lora_phase_exec sched g l Fill_Phase r = Inr (r\<lparr>lr_mem := ?m\<lparr>al_sorted_token_ids := s\<rparr>\<rparr>)"
    by (rule phase_exec_memory) (use phase(1) in simp_all)
  moreover have "s ! nat p = aa_numel (la_align g)" if "0 \<le> p" "p < int (length s)" for p
  proof -
    have "Fill_Sorted p \<in> set ?xs" unfolding xs using fill_program_steps(2) [of p ?m] that len(1) by auto
    then show ?thesis using s that(1) by simp
  qed
  moreover have "adapter_row_ok g l (aa_padded_num_experts (la_align g)) (r\<lparr>lr_mem := ?m\<lparr>al_sorted_token_ids := s\<rparr>\<rparr>)"
    using row adapter_row_sizes [OF row phase(3,2)] by (simp add: adapter_row_ok_def)
  ultimately show ?thesis using inv len(1)
    by (intro exI [of _ "r\<lparr>lr_mem := ?m\<lparr>al_sorted_token_ids := s\<rparr>\<rparr>"]) (simp add: large_inv_def)
qed

lemma large_inv_zero:
  assumes ok: "lora_args_ok g" "fair sched" "large_counters_ok g" and inv: "large_inv g l 1 j r"
  shows "\<exists>r'. lora_phase_exec sched g l Zero_Phase r = Inr r' \<and> large_inv g l 2 j r'"
proof -
  have row: "adapter_row_ok g l (aa_padded_num_experts (la_align g)) r" using inv by (simp add: large_inv_def)
  let ?m = "lr_mem r" and ?w = "aa_experts_per_warp (la_align g)"
  let ?ps = "map (zero_program (la_align g) ?w) [0..kScanThreads - 1]"
  let ?xs = "sched 0 ?ps"
  have w: "0 < ?w" using adapter_ok(2) [OF ok(1), of l] by simp
  have counts: "int (length (al_counts ?m)) = aa_padded_num_experts (la_align g)" using inv by (simp add: large_inv_def adapter_row_ok_def)
  note zero = zero_program_steps [OF w refl counts ok(3) [unfolded large_counters_ok_def, THEN conjunct1]
      ok(3) [unfolded large_counters_ok_def, THEN conjunct2]]
  have xs: "set ?xs = (\<Union>t \<in> {0..kScanThreads - 1}. set (zero_program (la_align g) ?w t))"
    unfolding run_phase_set(2) [OF ok(2)] by simp
  have zeros: "\<forall>x \<in> set ?xs. \<exists>a. x = Zero_Count a \<and> in_array (al_counts ?m) a"
    unfolding xs using zero(1) by (metis UN_E atLeastAtMost_iff)
  then have steps: "\<forall>x \<in> set ?xs. (\<exists>a. x = Fill_Sorted a \<and> in_array (al_sorted_token_ids ?m) a) \<or>
      (\<exists>a. x = Zero_Count a \<and> in_array (al_counts ?m) a)" by blast
  obtain s c where run: "rfold (align_exec (adapter_args g l)) ?xs ?m = Inr (?m\<lparr>al_sorted_token_ids := s, al_counts := c\<rparr>)"
    and len: "length s = length (al_sorted_token_ids ?m)" "length c = length (al_counts ?m)"
    and s: "\<forall>p \<ge> 0. s ! nat p = (if Fill_Sorted p \<in> set ?xs then aa_numel (adapter_args g l) else al_sorted_token_ids ?m ! nat p)"
    and c: "\<forall>p \<ge> 0. c ! nat p = (if Zero_Count p \<in> set ?xs then 0 else al_counts ?m ! nat p)"
    using fill_zero_run [OF adapter_ok(1) [OF ok(1)] steps] by blast
  have "s = al_sorted_token_ids ?m" using s zeros len(1) by (intro same_cells) force+
  then have run': "run_phase sched (adapter_args g l) 0 ?ps ?m = Inr (?m\<lparr>al_counts := c\<rparr>)"
    using run by (simp add: run_phase_def)
  have in_ps: "\<forall>p \<in> set ?ps. \<forall>x \<in> set p. step_in (la_align g) ?m x" by (auto simp: zero_program_def Let_def)
  note phase = adapter_phase [OF ok(1,2) inv _ in_ps run']
  have "lora_phase_exec sched g l Zero_Phase r = Inr (r\<lparr>lr_mem := ?m\<lparr>al_counts := c\<rparr>\<rparr>)"
    by (rule phase_exec_memory) (use phase(1) in simp_all)
  moreover have "c ! nat e = 0" if "0 \<le> e" "e < aa_num_experts (la_align g)" for e
  proof -
    have "Zero_Count e \<in> set ?xs" unfolding xs using zero(2) [OF that] by auto
    then show ?thesis using c that(1) by simp
  qed
  moreover have "adapter_row_ok g l (aa_padded_num_experts (la_align g)) (r\<lparr>lr_mem := ?m\<lparr>al_counts := c\<rparr>\<rparr>)"
    using row adapter_row_sizes [OF row phase(3,2)] by (simp add: adapter_row_ok_def)
  ultimately show ?thesis using inv
    by (intro exI [of _ "r\<lparr>lr_mem := ?m\<lparr>al_counts := c\<rparr>\<rparr>"]) (simp add: large_inv_def)
qed

lemma large_inv_count:
  assumes ok: "lora_args_ok g" "fair sched" "large_counters_ok g" and inv: "large_inv g l 2 j r"
  shows "\<exists>r'. lora_phase_exec sched g l Count_Phase r = Inr r' \<and> large_inv g l 3 j r'"
proof -
  have row: "adapter_row_ok g l (aa_padded_num_experts (la_align g)) r" using inv by (simp add: large_inv_def)
  let ?m = "lr_mem r" and ?n = "aa_numel (la_align g)"
  let ?ps = "map (\<lambda>t. map Count_Token (stride_loop t kScanThreads ?n)) [0..kScanThreads - 1]"
  have k: "0 < kScanThreads" by (simp add: kScanThreads_def)
  obtain ys where ys: "sched 1 ?ps = map Count_Token ys" "mset ys = mset [0..?n - 1]"
    using interleave_stride [OF run_phase_set(1) [OF ok(2), of ?ps 1] k] by blast
  have in_ys: "\<forall>y \<in> set ys. 0 \<le> y \<and> y < ?n" using mset_eq_setD [OF ys(2)] by simp
  have "length ys = nat ?n" using mset_eq_length [OF ys(2)] by simp
  then have len_ys: "int (length ys) < 2 ^ 31" using ok(1) by (simp add: lora_args_ok_def align_args_ok_def)
  have len: "aa_num_experts (la_align g) \<le> int (length (al_counts ?m))"
    using row ok(3) by (simp add: adapter_row_ok_def large_counters_ok_def)
  obtain c where run: "rfold (align_exec (adapter_args g l)) (map Count_Token ys) ?m = Inr (?m\<lparr>al_counts := c\<rparr>)"
    and c: "\<forall>e. 0 \<le> e \<and> e < aa_num_experts (la_align g) \<longrightarrow>
      c ! nat e = int (length (arrivals (token_expert (adapter_args g l)) e ys))"
    using count_run [OF adapter_ok(1,2) [OF ok(1), of l], of ?m ys] len in_ys len_ys inv by (auto simp: large_inv_def)
  have run': "run_phase sched (adapter_args g l) 1 ?ps ?m = Inr (?m\<lparr>al_counts := c\<rparr>)"
    unfolding run_phase_def ys(1) by (rule run)
  have in_ps: "\<forall>p \<in> set ?ps. \<forall>x \<in> set p. step_in (la_align g) ?m x" using k len by (auto simp: set_stride_loop)
  note phase = adapter_phase [OF ok(1,2) inv _ in_ps run']
  have "lora_phase_exec sched g l Count_Phase r = Inr (r\<lparr>lr_mem := ?m\<lparr>al_counts := c\<rparr>\<rparr>)"
    by (rule phase_exec_memory) (use phase(1) in simp_all)
  moreover have "c ! nat e = int (length (expert_tokens (adapter_args g l) e))" if "0 \<le> e" "e < aa_num_experts (la_align g)" for e
    using c that arrivals_length [OF ys(2)] by (simp add: expert_tokens_def)
  moreover have "adapter_row_ok g l (aa_padded_num_experts (la_align g)) (r\<lparr>lr_mem := ?m\<lparr>al_counts := c\<rparr>\<rparr>)"
    using row adapter_row_sizes [OF row phase(3,2)] by (simp add: adapter_row_ok_def)
  ultimately show ?thesis using inv
    by (intro exI [of _ "r\<lparr>lr_mem := ?m\<lparr>al_counts := c\<rparr>\<rparr>"]) (simp add: large_inv_def)
qed

lemma large_inv_scan:
  assumes ok: "lora_args_ok g" "large_counters_ok g" and inv: "large_inv g l 3 j r"
  shows "\<exists>r'. lora_phase_exec sched g l Scan_Phase r = Inr r' \<and> large_inv g l 4 j r'"
proof -
  let ?m = "lr_mem r" and ?g = "adapter_args g l" and ?E = "aa_num_experts (la_align g)"
  have row: "adapter_row_ok g l (aa_padded_num_experts (la_align g)) r" using inv by (simp add: large_inv_def)
  then have mem: "align_memory_ok ?g ?m" "length (al_total_tokens_post_pad ?m) = 1" and len: "?E \<le> int (length (al_counts ?m))"
    using ok(2) by (simp_all add: adapter_row_ok_def large_counters_ok_def)
  let ?m' = "?m\<lparr>al_cumsum := map (block_start ?g) [0..?E],
    al_total_tokens_post_pad := (al_total_tokens_post_pad ?m)[0 := block_start ?g ?E]\<rparr>"
  have "scan_counts ?g ?m = Inr ?m'"
    using scan_counts_eq [OF adapter_ok(1,2) [OF ok(1), of l], of ?m] len inv mem(1) by (simp add: large_inv_def)
  then have "lora_phase_exec sched g l Scan_Phase r = Inr (r\<lparr>lr_mem := ?m'\<rparr>)"
    by (intro phase_exec_memory) (simp_all add: adapter_args_def)
  moreover have "adapter_row_ok g l (aa_padded_num_experts (la_align g)) (r\<lparr>lr_mem := ?m'\<rparr>)"
  proof (rule adapter_row_sizes [OF row])
    have "int (length (al_cumsum ?m)) = ?E + 1" using mem(1) by (simp add: align_memory_ok_def)
    then have "length (al_cumsum ?m) = nat (?E + 1)" by (metis nat_int)
    then show "al_sizes ?m' = al_sizes ?m" by (simp add: al_sizes_def)
    show "int_cells (al_counts ?m')" "length (al_total_tokens_post_pad ?m') = 1" using row by (simp_all add: adapter_row_ok_def)
  qed
  moreover have "al_total_tokens_post_pad ?m' ! 0 = block_start ?g ?E" using mem(2) by simp
  ultimately show ?thesis using inv by (intro exI [of _ "r\<lparr>lr_mem := ?m'\<rparr>"]) (simp add: large_inv_def)
qed

lemma large_inv_expert:
  assumes ok: "lora_args_ok g" "fair sched" and inv: "large_inv g l 4 j r"
  shows "\<exists>r'. lora_phase_exec sched g l Expert_Phase r = Inr r' \<and> large_inv g l 5 j r'"
proof -
  let ?m = "lr_mem r" and ?g = "adapter_args g l" and ?E = "aa_num_experts (la_align g)" and ?bs = "aa_block_size (la_align g)"
  let ?M = "int (length (al_sorted_token_ids ?m))"
  let ?nb = "CEILDIV ?M ?bs"
  have row: "adapter_row_ok g l (aa_padded_num_experts (la_align g)) r" using inv by (simp add: large_inv_def)
  then have room: "block_start ?g ?E \<le> ?M" "int (length (al_expert_ids ?m)) = ?nb"
    by (simp_all add: adapter_row_ok_def align_memory_ok_def)
  have cum: "al_cumsum ?m = map (block_start ?g) [0..aa_num_experts ?g]" using inv by (simp add: large_inv_def)
  let ?ps = "map (expert_steps ?g kScanThreads ?nb) [0..kScanThreads - 1]"
  have prog: "lora_expert_program (la_align g) kScanThreads t ?m = Inr (expert_steps ?g kScanThreads ?nb t)" if "0 \<le> t" for t
    using expert_program_eq [OF cum _ that, of kScanThreads] lora_expert_program_eq [of ?m ?g kScanThreads t] room(2) adapter_ok(4) [OF ok(1)]
    by (simp add: adapter_args_def)
  have progs: "rmap (\<lambda>t. lora_expert_program (la_align g) kScanThreads t ?m) [0..kScanThreads - 1] = Inr ?ps"
    by (rule rmap_total) (simp add: prog)
  obtain x where run: "rfold (align_exec ?g) (sched 2 ?ps) ?m = Inr (?m\<lparr>al_expert_ids := x\<rparr>)"
    and x: "length x = length (al_expert_ids ?m)" "\<forall>b e. block_of ?g b e \<and> b < ?nb \<longrightarrow> x ! nat b = e"
    using expert_steps_functional [of ?g kScanThreads ?M "sched 2 ?ps" ?m] adapter_ok(3-5) [OF ok(1)] room run_phase_set(2) [OF ok(2), of 2 ?ps]
    by auto
  have run': "run_phase sched ?g 2 ?ps ?m = Inr (?m\<lparr>al_expert_ids := x\<rparr>)" by (simp add: run_phase_def run)
  have in_ps: "\<forall>p \<in> set ?ps. \<forall>x \<in> set p. step_in (la_align g) ?m x"
  proof (intro ballI)
    fix p y assume p: "p \<in> set ?ps" "y \<in> set p"
    then obtain t where "0 \<le> t" "p = expert_steps ?g kScanThreads ?nb t" by auto
    then show "step_in (la_align g) ?m y" using lora_expert_steps [OF prog] p(2) by force
  qed
  note phase = adapter_phase [OF ok inv _ in_ps run']
  have "lora_phase_exec sched g l Expert_Phase r = Inr (r\<lparr>lr_mem := ?m\<lparr>al_expert_ids := x\<rparr>\<rparr>)"
    by (rule phase_exec_memory) (use phase(1) progs in simp_all)
  moreover have "adapter_row_ok g l (aa_padded_num_experts (la_align g)) (r\<lparr>lr_mem := ?m\<lparr>al_expert_ids := x\<rparr>\<rparr>)"
    using row adapter_row_sizes [OF row phase(3,2)] by (simp add: adapter_row_ok_def)
  ultimately show ?thesis using inv x(2)
    by (intro exI [of _ "r\<lparr>lr_mem := ?m\<lparr>al_expert_ids := x\<rparr>\<rparr>"]) (simp add: large_inv_def)
qed

text \<open>
  What both launches leave of an adapter: its tokens in blocks of one expert each; the count of
  padded tokens is theirs or was erased.
\<close>

definition adapter_aligned :: "lora_args \<Rightarrow> int \<Rightarrow> align_state \<Rightarrow> bool" where
  "adapter_aligned g l m \<longleftrightarrow>
     (let total = block_start (adapter_args g l) (aa_num_experts (la_align g)) in
      aligned (adapter_args g l) (m\<lparr>al_total_tokens_post_pad := [total]\<rparr>) \<and> al_total_tokens_post_pad m \<in> {[0], [total]})"

lemma adapter_sort:
  assumes ok: "lora_args_ok g" "fair sched" and inv: "large_inv g l 5 2 r"
  shows "\<exists>r'. lora_phase_exec sched g l Sort_Phase r = Inr r' \<and> adapter_aligned g l (lr_mem r')"
proof -
  let ?m = "lr_mem r" and ?g = "adapter_args g l" and ?n = "aa_numel (la_align g)"
  have row: "adapter_row_ok g l (aa_padded_num_experts (la_align g)) r" using inv by (simp add: large_inv_def)
  let ?ps = "map (map Place_Token) (grid_stride (min ((?n + 255) sdiv 256) 65535) 256 ?n)"
  have mem: "align_memory_ok ?g ?m" "length (al_total_tokens_post_pad ?m) = 1" using row by (simp_all add: adapter_row_ok_def)
  obtain c d where run: "run_phase sched ?g 3 ?ps ?m = Inr (?m\<lparr>al_cumsum := c, al_sorted_token_ids := d\<rparr>)"
    and al: "\<forall>t. t ! 0 = block_start ?g (aa_num_experts (la_align g)) \<longrightarrow>
      aligned ?g (?m\<lparr>al_cumsum := c, al_sorted_token_ids := d, al_total_tokens_post_pad := t\<rparr>)"
    using place_phase_aligned [OF adapter_ok(1) [OF ok(1)] ok(2) mem(1)] inv by (auto simp: large_inv_def)
  have "set (concat (grid_stride (min ((?n + 255) sdiv 256) 65535) 256 ?n)) = {0..?n - 1}"
    using mset_eq_setD [OF grid_mset [of ?n]] by simp
  then have in_ps: "\<forall>p \<in> set ?ps. \<forall>x \<in> set p. step_in (la_align g) ?m x" by auto
  note phase = adapter_phase [OF ok inv _ in_ps run]
  have "lora_phase_exec sched g l Sort_Phase r = Inr (r\<lparr>lr_mem := ?m\<lparr>al_cumsum := c, al_sorted_token_ids := d\<rparr>\<rparr>)"
    by (rule phase_exec_memory) (use phase(1) in simp_all)
  moreover obtain t where t: "al_total_tokens_post_pad ?m = [t]" using mem(2) by (auto simp: length_Suc_conv)
  moreover have "t = 0 \<or> t = block_start ?g (aa_num_experts (la_align g))" using inv t by (simp add: large_inv_def)
  ultimately show ?thesis using al by (simp add: adapter_aligned_def Let_def)
qed

lemma large_programs:
  assumes "lora_ids_ok g"
  shows "rmap (\<lambda>b. lora_block g (b sdiv 2) (align_phases b)) [0..(la_max_loras g + 1) * 2 - 1] =
    Inr (map (\<lambda>b. case lora_adapter g (b div 2) of None \<Rightarrow> [] | Some l \<Rightarrow> map (Pair l) (align_phases (int b)))
      [0..<length (la_lora_ids g) * 2])"
proof -
  have "[0..(la_max_loras g + 1) * 2 - 1] = map int [0..<length (la_lora_ids g) * 2]"
    using assms by (intro nth_equalityI) (auto simp: lora_ids_ok_def)
  moreover have "lora_block g (int b sdiv 2) phs = Inr (case lora_adapter g (b div 2) of None \<Rightarrow> [] | Some l \<Rightarrow> map (Pair l) phs)"
    if "b < length (la_lora_ids g) * 2" for b phs
  proof -
    have "int b sdiv 2 = int (b div 2)" by (simp add: sdiv_nonneg zdiv_int)
    then show ?thesis using lora_block_eq [OF assms, of "b div 2" phs] that by simp
  qed
  then have "rmap (\<lambda>b. lora_block g (b sdiv 2) (align_phases b)) (map int bs) =
      Inr (map (\<lambda>b. case lora_adapter g (b div 2) of None \<Rightarrow> [] | Some l \<Rightarrow> map (Pair l) (align_phases (int b))) bs)"
    if "\<forall>b \<in> set bs. b < length (la_lora_ids g) * 2" for bs
    using that by (induction bs) simp_all
  ultimately show ?thesis by simp
qed

text \<open>What is left to the two blocks says how far the adapter is.\<close>

definition large_state :: "lora_args \<Rightarrow> int \<Rightarrow> lora_phase list list \<Rightarrow> lora_row \<Rightarrow> bool" where
  "large_state g l rems r \<longleftrightarrow> (\<exists>i \<le> 5. \<exists>j \<le> 2.
     rems = [drop i [Prologue, Zero_Phase, Count_Phase, Scan_Phase, Expert_Phase], drop j [Prologue, Fill_Phase]] \<and> large_inv g l i j r)"

lemma large_state_step:
  assumes ok: "lora_args_ok g" "fair sched" "large_counters_ok g"
    and a: "a < length rems" "rems ! a = ph # rest" and J: "large_state g l rems r"
  shows "\<exists>r'. lora_phase_exec sched g l ph r = Inr r' \<and> large_state g l (rems[a := rest]) r'"
proof -
  let ?ev = "[Prologue, Zero_Phase, Count_Phase, Scan_Phase, Expert_Phase]" and ?od = "[Prologue, Fill_Phase]"
  obtain i j where ij: "i \<le> 5" "j \<le> 2" "rems = [drop i ?ev, drop j ?od]" "large_inv g l i j r" using J unfolding large_state_def by blast
  have "a = 0 \<or> a = 1" using a(1) ij(3) by (simp add: less_Suc_eq)
  then show ?thesis
  proof
    assume a0: "a = 0"
    have "i = 0 \<or> i = 1 \<or> i = 2 \<or> i = 3 \<or> i = 4" using a0 a(2) ij(1,3) by (auto simp: le_Suc_eq numeral_eq_Suc)
    then have ph: "ph = ?ev ! i" "rest = drop (i + 1) ?ev" "i + 1 \<le> 5" using a0 a(2) ij(3) by auto
    have "\<exists>r'. lora_phase_exec sched g l (?ev ! i) r = Inr r' \<and> large_inv g l (i + 1) j r'"
      using \<open>i = 0 \<or> i = 1 \<or> i = 2 \<or> i = 3 \<or> i = 4\<close> large_inv_prologue [OF ok(1) ij(4), of 1 j sched]
        large_inv_zero [OF ok(1,2,3), of l j r] large_inv_count [OF ok(1,2,3), of l j r] large_inv_scan [OF ok(1,3), of l j r sched]
        large_inv_expert [OF ok(1,2), of l j r] ij(4)
      by (elim disjE) (simp_all add: numeral_eq_Suc)
    then obtain r' where "lora_phase_exec sched g l ph r = Inr r'" "large_inv g l (i + 1) j r'" using ph(1) by blast
    moreover have "rems[a := rest] = [drop (i + 1) ?ev, drop j ?od]" using ij(3) a0 ph(2) by simp
    ultimately show ?thesis using ph(3) ij(2) unfolding large_state_def by blast
  next
    assume a1: "a = 1"
    have "j = 0 \<or> j = 1" using a1 a(2) ij(2,3) by (auto simp: le_Suc_eq numeral_eq_Suc)
    then have ph: "ph = ?od ! j" "rest = drop (j + 1) ?od" "j + 1 \<le> 2" using a1 a(2) ij(3) by auto
    have "\<exists>r'. lora_phase_exec sched g l (?od ! j) r = Inr r' \<and> large_inv g l i (j + 1) r'"
      using \<open>j = 0 \<or> j = 1\<close> large_inv_prologue [OF ok(1) ij(4), of i 1 sched] large_inv_fill [OF ok(1,2), of l i r] ij(4)
      by (elim disjE) (simp_all add: numeral_eq_Suc)
    then obtain r' where "lora_phase_exec sched g l ph r = Inr r'" "large_inv g l i (j + 1) r'" using ph(1) by blast
    moreover have "rems[a := rest] = [drop i ?ev, drop (j + 1) ?od]" using ij(3) a1 ph(2) by simp
    ultimately show ?thesis using ph(3) ij(1) unfolding large_state_def by blast
  qed
qed

text \<open>The first launch, whose two blocks for an adapter interleave with each other and with all others.\<close>

lemma large_first_launch:
  assumes ok: "lora_args_ok g" "\<And>l. fair (sched l)" "large_counters_ok g"
    and rows: "lora_rows_ok g (aa_padded_num_experts (la_align g)) rows"
    and order: "interleave (map (\<lambda>b. case lora_adapter g (b div 2) of None \<Rightarrow> [] | Some l \<Rightarrow> map (Pair l) (align_phases (int b)))
      [0..<length (la_lora_ids g) * 2]) xs"
  shows "\<exists>rows'. rfold (row_event_exec sched g) xs rows = Inr rows' \<and> length rows' = length rows \<and>
    (\<forall>l. active_adapter g l \<longrightarrow> large_inv g l 5 2 (rows' ! nat l)) \<and>
    (\<forall>l. 0 \<le> l \<and> l < la_max_loras g \<and> \<not> active_adapter g l \<longrightarrow> rows' ! nat l = rows ! nat l)"
proof -
  have ids: "lora_ids_ok g" and len: "int (length rows) = la_max_loras g"
    using ok(1) rows by (simp_all add: lora_args_ok_def lora_rows_ok_def)
  note iff = active_iff [OF ids]
  let ?n = "length (la_lora_ids g)"
  let ?ev = "[Prologue, Zero_Phase, Count_Phase, Scan_Phase, Expert_Phase]" and ?od = "[Prologue, Fill_Phase]"
  let ?J = "large_state g"
  let ?ps = "map (\<lambda>b. case lora_adapter g (b div 2) of None \<Rightarrow> [] | Some l \<Rightarrow> map (Pair l) (align_phases (int b))) [0..<?n * 2]"
  obtain rows' where rows': "rfold (row_event_exec sched g) xs rows = Inr rows'" "length rows' = length rows"
    "\<forall>k l. k < ?n \<and> lora_adapter g k = Some l \<longrightarrow> ?J l (replicate 2 []) (rows' ! nat l)"
    "\<forall>l. 0 \<le> l \<and> l < int (length rows) \<and> (\<forall>k < ?n. lora_adapter g k \<noteq> Some l) \<longrightarrow> rows' ! nat l = rows ! nat l"
  proof (rule exE [OF blocks_run [where J = ?J and S = "lora_adapter g" and m = 2 and n = ?n, OF order]])
    show "\<exists>rems. length rems = 2 \<and> (\<forall>j < 2. ?ps ! (k * 2 + j) = map (Pair l) (rems ! j)) \<and> ?J l rems (rows ! nat l)"
      if k: "k < ?n" "lora_adapter g k = Some l" for k l
    proof (intro exI [of _ "[?ev, ?od]"] conjI allI impI)
      fix j :: nat assume "j < 2"
      then have "j = 0 \<or> j = 1" by linarith
      moreover have "int (k * 2) smod 2 = 0" "int (k * 2 + 1) smod 2 = 1" by (simp_all add: smod_nonneg)
      ultimately show "?ps ! (k * 2 + j) = map (Pair l) ([?ev, ?od] ! j)" using k by (auto simp: align_phases_def)
    next
      have "active_adapter g l" using k iff by blast
      then have "large_inv g l 0 0 (rows ! nat l)" using rows by (simp add: large_inv_def lora_rows_ok_def)
      then show "?J l [?ev, ?od] (rows ! nat l)" unfolding large_state_def by (intro exI [of _ 0] conjI) simp_all
    qed simp
    show "\<exists>r'. lora_phase_exec (sched l) g l ph r = Inr r' \<and> ?J l (rems[a := rest]) r'"
      if a: "a < length rems" "rems ! a = ph # rest" and J: "?J l rems r" for l rems a ph rest r
      by (rule large_state_step [OF ok(1,2,3) a J])
    show "0 \<le> l \<and> l < int (length rows)" if "k < ?n" "lora_adapter g k = Some l" for k l
      using adapter_some(1,2) [OF ids that] len by simp
    show "k = k'" if "k < ?n" "k' < ?n" "lora_adapter g k = Some l" "lora_adapter g k' = Some l" for k k' l
      using adapter_some(3) [OF ids that(2,4)] that by blast
  qed (auto intro: that)
  have "large_inv g l 5 2 (rows' ! nat l)" if active: "active_adapter g l" for l
  proof -
    obtain k where "k < ?n" "lora_adapter g k = Some l" using active unfolding iff by blast
    then obtain i j where "i \<le> 5" "j \<le> 2" "replicate 2 [] = [drop i ?ev, drop j ?od]" "large_inv g l i j (rows' ! nat l)"
      using rows'(3) unfolding large_state_def by blast
    moreover have "i = 5" "j = 2" using calculation(1-3) by (simp_all add: numeral_2_eq_2)
    ultimately show ?thesis by simp
  qed
  moreover have "rows' ! nat l = rows ! nat l" if "0 \<le> l" "l < la_max_loras g" "\<not> active_adapter g l" for l
    using rows'(4) that len unfolding iff by auto
  ultimately show ?thesis using rows'(1,2) by blast
qed

lemma lora_large_aligned:
  assumes ok: "lora_args_ok g" "\<And>l. fair (sched l)" "large_counters_ok g" and order: "fair_order order"
    and mem: "lora_mem_ok g m" and rows: "lora_rows_ok g (aa_padded_num_experts (la_align g)) (rows_of g m)"
  shows "\<exists>m'. lora_large order sched g m = Inr m' \<and> lora_mem_ok g m' \<and>
    (\<forall>l. active_adapter g l \<longrightarrow> adapter_aligned g l (lr_mem (row_at g m' l))) \<and>
    (\<forall>l. 0 \<le> l \<and> l < la_max_loras g \<and> \<not> active_adapter g l \<longrightarrow> row_at g m' l = row_at g m l)"
proof -
  have ids: "lora_ids_ok g" and len: "int (length (rows_of g m)) = la_max_loras g"
    using ok(1) rows by (simp_all add: lora_args_ok_def lora_rows_ok_def)
  have any: "interleave ps (order n ps)" for n ps using order by (simp add: fair_order_def)
  let ?p0 = "map (\<lambda>b. case lora_adapter g (b div 2) of None \<Rightarrow> [] | Some l \<Rightarrow> map (Pair l) (align_phases (int b)))
    [0..<length (la_lora_ids g) * 2]"
  let ?p1 = "map (\<lambda>k. case lora_adapter g k of None \<Rightarrow> [] | Some l \<Rightarrow> map (Pair l) [Sort_Phase]) [0..<length (la_lora_ids g)]"
  obtain rows1 where r1: "rfold (row_event_exec sched g) (order 0 ?p0) (rows_of g m) = Inr rows1" "length rows1 = length (rows_of g m)"
    and inv: "\<forall>l. active_adapter g l \<longrightarrow> large_inv g l 5 2 (rows1 ! nat l)"
    and keep: "\<forall>l. 0 \<le> l \<and> l < la_max_loras g \<and> \<not> active_adapter g l \<longrightarrow> rows1 ! nat l = rows_of g m ! nat l"
    using large_first_launch [where sched = sched, OF ok rows any] by blast
  have "\<exists>r'. rfold (lora_phase_exec (sched l) g l) [Sort_Phase] (rows1 ! nat l) = Inr r' \<and> adapter_aligned g l (lr_mem r')"
    if "active_adapter g l" for l
    using adapter_sort [OF ok(1,2), of l "rows1 ! nat l" l] inv that by auto
  moreover have "int (length rows1) = la_max_loras g" using r1(2) len by simp
  ultimately obtain rows2 where r2: "rfold (row_event_exec sched g) (order 1 ?p1) rows1 = Inr rows2"
      "\<forall>l. active_adapter g l \<longrightarrow> adapter_aligned g l (lr_mem (rows2 ! nat l))"
      "\<forall>l. 0 \<le> l \<and> l < la_max_loras g \<and> \<not> active_adapter g l \<longrightarrow> rows2 ! nat l = rows1 ! nat l"
    using slot_blocks [where sched = sched and Q = "\<lambda>l r. adapter_aligned g l (lr_mem r)", OF ids _ any] by blast
  obtain m1 where m1: "rfold (lora_event_exec sched g) (order 0 ?p0) m = Inr m1" "lora_mem_ok g m1" "rows_of g m1 = rows1"
    using run_refines [OF mem r1(1)] by blast
  obtain m2 where m2: "rfold (lora_event_exec sched g) (order 1 ?p1) m1 = Inr m2" "lora_mem_ok g m2" "rows_of g m2 = rows2"
    using run_refines [OF m1(2), unfolded m1(3), OF r2(1)] by blast
  have "lora_large order sched g m = Inr m2"
    using m1(1) m2(1) unfolding lora_large_def large_programs [OF ids] slot_programs [OF ids] rbind_Inr by simp
  then show ?thesis
    using m2(2) r2(2,3) keep rows_of_nth [of _ g]
    by (intro exI [of _ m2]) (auto simp: active_adapter_def simp flip: m2(3))
qed

section \<open>The count that is erased\<close>

lemma masked_exec_total: "masked_exec g k ms x m = Inr m' \<Longrightarrow> al_total_tokens_post_pad m' = al_total_tokens_post_pad m"
  by (cases x) (auto simp: rbind_eq_Inr_iff masked_count_token_def masked_place_token_def masked_count_row_def masked_place_row_def
      split: option.splits if_splits)

lemma masked_phase_total: "masked_phase sched g k ms n ps m = Inr m' \<Longrightarrow> al_total_tokens_post_pad m' = al_total_tokens_post_pad m"
  unfolding masked_phase_def
  by (erule rfold_invariant [where I = "\<lambda>x. al_total_tokens_post_pad x = al_total_tokens_post_pad m"]) (auto dest: masked_exec_total)

lemma phase_total:
  "ph \<in> {Fill_Phase, Zero_Phase, Count_Phase, Expert_Phase, Sort_Phase} \<Longrightarrow> lora_phase_exec sched g l ph r = Inr r' \<Longrightarrow>
   al_total_tokens_post_pad (lr_mem r') = al_total_tokens_post_pad (lr_mem r)"
  by (auto simp: lora_phase_exec_def rbind_eq_Inr_iff dest!: masked_phase_total)

text \<open>
  When the block that fills starts after the other one has ended, as it does when blocks run in the
  order of their numbers, the count of the adapter is 0 in the end, whatever tokens it has.
\<close>

lemma late_fill_erases_count:
  assumes ok: "lora_args_ok g" "fair sched" "large_counters_ok g"
    and row: "adapter_row_ok g l (aa_padded_num_experts (la_align g)) r"
  shows "\<exists>r'. rfold (lora_phase_exec sched g l) (align_phases 0 @ align_phases 1 @ [Sort_Phase]) r = Inr r' \<and>
    al_total_tokens_post_pad (lr_mem r') = [0] \<and> adapter_aligned g l (lr_mem r')"
proof -
  have phases: "align_phases 0 = [Prologue, Zero_Phase, Count_Phase, Scan_Phase, Expert_Phase]" "align_phases 1 = [Prologue, Fill_Phase]"
    by (simp_all add: align_phases_def signed_modulo_int_def)
  have "large_inv g l 0 0 r" using row by (simp add: large_inv_def)
  then obtain r1 where r1: "lora_phase_exec sched g l Prologue r = Inr r1" "large_inv g l 1 0 r1"
    using large_inv_prologue [OF ok(1), of l 0 0 r 1 0 sched] by auto
  obtain r2 where r2: "lora_phase_exec sched g l Zero_Phase r1 = Inr r2" "large_inv g l 2 0 r2" using large_inv_zero [OF ok r1(2)] by blast
  obtain r3 where r3: "lora_phase_exec sched g l Count_Phase r2 = Inr r3" "large_inv g l 3 0 r3" using large_inv_count [OF ok r2(2)] by blast
  obtain r4 where r4: "lora_phase_exec sched g l Scan_Phase r3 = Inr r4" "large_inv g l 4 0 r4" using large_inv_scan [OF ok(1,3) r3(2)] by blast
  obtain r5 where r5: "lora_phase_exec sched g l Expert_Phase r4 = Inr r5" "large_inv g l 5 0 r5" using large_inv_expert [OF ok(1,2) r4(2)] by blast
  obtain r6 where r6: "lora_phase_exec sched g l Prologue r5 = Inr r6" "large_inv g l 5 1 r6"
    using large_inv_prologue [OF ok(1) r5(2), of 5 1 sched] by auto
  have "al_total_tokens_post_pad (lr_mem r6) = [0]"
    using r6(1) prologue_eq [OF ok(1), of r5 l] r5(2) by (auto simp: lora_phase_exec_def large_inv_def adapter_row_ok_def)
  moreover obtain r7 where r7: "lora_phase_exec sched g l Fill_Phase r6 = Inr r7" "large_inv g l 5 2 r7"
    using large_inv_fill [OF ok(1,2) r6(2)] by blast
  moreover obtain r8 where r8: "lora_phase_exec sched g l Sort_Phase r7 = Inr r8" "adapter_aligned g l (lr_mem r8)"
    using adapter_sort [OF ok(1,2) r7(2)] by blast
  ultimately have "al_total_tokens_post_pad (lr_mem r8) = [0]"
    using phase_total [OF _ r7(1)] phase_total [OF _ r8(1)] by simp
  then show ?thesis using r1(1) r2(1) r3(1) r4(1) r5(1) r6(1) r7(1) r8 by (simp add: phases)
qed

section \<open>Every adapter gets its tokens\<close>

lemma adapter_token_expert:
  assumes "lora_args_ok g" and "0 \<le> i" "i < aa_numel (la_align g)"
  shows "token_expert (adapter_args g l) i =
    (if int32 (la_token_lora_mapping g ! nat (i div la_topk_num g)) = l then token_expert (la_align g) i else None)"
proof -
  have k: "0 < la_topk_num g" "la_topk_num g dvd aa_numel (la_align g)" "align_args_ok (la_align g)"
    using assms(1) by (simp_all add: lora_args_ok_def)
  then obtain q where q: "aa_numel (la_align g) = la_topk_num g * q" by blast
  have d: "0 \<le> i div la_topk_num g" using assms(2) k(1) by (simp add: pos_imp_zdiv_nonneg_iff)
  have "i div la_topk_num g * la_topk_num g \<le> i" using k(1) by (simp flip: minus_mod_eq_div_mult)
  then have "i div la_topk_num g * la_topk_num g < q * la_topk_num g" using assms(3) q by (simp add: mult.commute)
  then have "i div la_topk_num g < q" using k(1) by simp
  then have "i div la_topk_num g \<le> aa_numel (la_align g) div la_topk_num g - 1" using q k(1) by simp
  then have "adapter_mask g l ! nat (i div la_topk_num g) =
      (if int32 (la_token_lora_mapping g ! nat (i div la_topk_num g)) = l then 1 else 0)"
    unfolding adapter_mask_def by (rule nth_map_upto [OF d])
  then show ?thesis by (simp add: adapter_args_def masked_token_expert [OF k(3) assms(2,3)])
qed

lemma lora_num_tokens_eq:
  assumes "lora_args_ok g"
  shows "lora_num_tokens g = aa_numel (la_align g) div la_topk_num g" and "0 \<le> lora_num_tokens g"
proof -
  let ?n = "aa_numel (la_align g) div la_topk_num g"
  have k: "0 < la_topk_num g" "aa_numel (la_align g) < 2 ^ 31" using assms by (simp_all add: lora_args_ok_def align_args_ok_def)
  then have n: "0 \<le> ?n" by (simp add: pos_imp_zdiv_nonneg_iff)
  have "?n * 1 \<le> ?n * la_topk_num g" using n k(1) by (intro mult_left_mono) simp_all
  moreover have "?n * la_topk_num g \<le> aa_numel (la_align g)" using k(1) by (simp flip: minus_mod_eq_div_mult)
  ultimately show "lora_num_tokens g = ?n" using n k by (simp add: lora_num_tokens_def sdiv_nonneg int32_id)
  then show "0 \<le> lora_num_tokens g" using n by simp
qed

text \<open>The memory the host hands over: every tensor has a row for every adapter.\<close>

lemma host_memory_ok:
  assumes ok: "lora_args_ok g" and c: "0 \<le> counts" and n: "num_tokens = aa_numel (la_align g) div la_topk_num g"
    "num_tokens * la_max_loras g < 2 ^ 31"
    and fit: "rows_fit (la_max_num_tokens_padded g) (la_max_loras g) sorted_ids"
      "rows_fit (la_max_num_m_blocks g) (la_max_loras g) expert_ids" "int (length post_pad) = la_max_loras g"
    and cumsum: "cumsum = Cumsum_Buffer xs \<and> rows_fit (aa_num_experts (la_align g) + 1) (la_max_loras g) xs \<or>
      cumsum = Cumsum_Shared xss \<and> int (length xss) = la_max_loras g \<and>
        (\<forall>ys \<in> set xss. int (length ys) = aa_num_experts (la_align g) + 1)"
    and room: "\<And>l. active_adapter g l \<Longrightarrow> block_start (adapter_args g l) (aa_num_experts (la_align g)) \<le> la_max_num_tokens_padded g"
      "la_max_num_tokens_padded g + aa_block_size (la_align g) < 2 ^ 31"
      "la_max_num_m_blocks g = CEILDIV (la_max_num_tokens_padded g) (aa_block_size (la_align g))"
    and m: "m = lora_memory_of junk cumsum counts (la_max_loras g) num_tokens sorted_ids expert_ids post_pad"
  shows "lora_mem_ok g m" and "lora_rows_ok g counts (rows_of g m)"
proof -
  note num = lora_num_tokens_eq [OF ok]
  have L: "0 \<le> la_max_loras g" using ok by (simp add: lora_args_ok_def lora_ids_ok_def)
  have n0: "0 \<le> num_tokens" using num n(1) by simp
  have "rows_fit (lora_num_tokens g) (la_max_loras g) (lm_token_mask m)"
    using n n0 L num by (simp add: rows_fit_def m lora_memory_of_def mult.commute)
  moreover have "case cumsum of Cumsum_Buffer xs \<Rightarrow> rows_fit (aa_num_experts (la_align g) + 1) (la_max_loras g) xs
      | Cumsum_Shared xss \<Rightarrow> int (length xss) = la_max_loras g"
    using cumsum by auto
  ultimately show mem: "lora_mem_ok g m"
    using fit L by (simp add: lora_mem_ok_def m lora_memory_of_def)
  have row: "adapter_row_ok g l counts (row_at g m l)" if l: "active_adapter g l" for l
  proof -
    have l': "0 \<le> l" "l < la_max_loras g" using l by (simp_all add: active_adapter_def)
    have cell: "lm_counts m ! nat l = map (\<lambda>i. int32 (junk (l * counts + i))) [0..counts - 1]"
      using l' by (simp add: m lora_memory_of_def nth_upto)
    have sums: "int (length (al_cumsum (lr_mem (row_at g m l)))) = aa_num_experts (la_align g) + 1"
      using cumsum
    proof
      assume a: "cumsum = Cumsum_Shared xss \<and> int (length xss) = la_max_loras g \<and>
        (\<forall>ys \<in> set xss. int (length ys) = aa_num_experts (la_align g) + 1)"
      then have "nat l < length xss" using l' by linarith
      then have "xss ! nat l \<in> set xss" by simp
      then show ?thesis using a by (simp add: row_at_def m lora_memory_of_def Let_def)
    qed (auto simp: row_at_def m lora_memory_of_def Let_def rows_fit_def)
    have widths: "0 \<le> la_max_num_tokens_padded g" "0 \<le> la_max_num_m_blocks g" using fit by (simp_all add: rows_fit_def)
    show ?thesis
      using sums num room(1) [OF l] room(2,3) widths c
      by (simp add: adapter_row_ok_def align_memory_ok_def row_at_def Let_def cell int_cells_def)
  qed
  have "int (length (rows_of g m)) = la_max_loras g" using L by (simp add: rows_of_def)
  then show "lora_rows_ok g counts (rows_of g m)"
    using row rows_of_nth [of _ g m] by (auto simp: lora_rows_ok_def active_adapter_def)
qed

text \<open>
  C6: In whatever order the blocks of all adapters and their threads run, every enabled adapter \<open>l\<close> of
  the launch ends with its own tokens in blocks of one expert each, in its row of the flat tensors:
  the \<open>max_num_tokens_padded\<close> elements of \<^verbatim>\<open>sorted_token_ids\<close> from \<open>max_num_tokens_padded * l\<close> on, the
  \<open>max_num_m_blocks\<close> elements of \<^verbatim>\<open>expert_ids\<close> from \<open>max_num_m_blocks * l\<close> on, and element \<open>l\<close> of the counts.
  In a small batch the count of padded tokens is right too; in a large one it is right or 0. The rows of
  all other adapters are as they were.
\<close>

theorem moe_lora_align_block_size_aligned:
  assumes fair: "fair_order order" "\<And>l. fair (sched l)"
    and g: "g = \<lparr>la_align = align_args_of warp_size topk_ids num_experts block_size maybe_expert_map, la_topk_num = topk_num,
      la_token_lora_mapping = token_lora_mapping, la_max_loras = max_loras, la_lora_ids = lora_ids,
      la_adapter_enabled = adapter_enabled, la_max_num_tokens_padded = max_num_tokens_padded,
      la_max_num_m_blocks = max_num_m_blocks\<rparr>" "lora_args_ok g"
    and sizes: "0 < warp_size" "0 < num_experts" "(num_experts + warp_size - 1) sdiv warp_size * warp_size < 1024"
      "0 < block_size" "topk_num < 2 ^ 31" "max_loras < 2 ^ 31" "num_tokens = int (length topk_ids) div topk_num"
      "num_tokens * max_loras < 2 ^ 31" "(num_experts + 1) * max_loras < 2 ^ 31"
    and small: "length topk_ids < 1024 \<and> num_experts \<le> 64 \<Longrightarrow> (\<forall>x \<in> set topk_ids. x < num_experts) \<and>
      (max num_experts 128 + 1) * num_experts * 4 + (num_experts + 1) * 4 \<le> max_shared"
    and room: "\<And>l. active_adapter g l \<Longrightarrow> block_start (adapter_args g l) num_experts \<le> max_num_tokens_padded"
      "max_num_tokens_padded + block_size < 2 ^ 31" "max_num_m_blocks = CEILDIV max_num_tokens_padded block_size"
    and tensors: "rows_fit max_num_tokens_padded max_loras sorted_token_ids" "rows_fit max_num_m_blocks max_loras expert_ids"
      "int (length num_tokens_post_pad) = max_loras"
  shows "\<exists>m. moe_lora_align_block_size order sched warp_size max_shared junk topk_ids num_tokens topk_num token_lora_mapping
      num_experts block_size max_loras max_num_tokens_padded max_num_m_blocks sorted_token_ids expert_ids num_tokens_post_pad
      adapter_enabled lora_ids maybe_expert_map = Inr m \<and>
    length (lm_sorted_token_ids m) = length sorted_token_ids \<and> length (lm_expert_ids m) = length expert_ids \<and>
    length (lm_total_tokens_post_pad m) = length num_tokens_post_pad \<and>
    (\<forall>l. active_adapter g l \<longrightarrow> (if length topk_ids < 1024 \<and> num_experts \<le> 64 then aligned (adapter_args g l) (lr_mem (row_at g m l))
       else adapter_aligned g l (lr_mem (row_at g m l)))) \<and>
    (\<forall>l. 0 \<le> l \<and> l < max_loras \<and> \<not> active_adapter g l \<longrightarrow>
       slice (lm_sorted_token_ids m) (max_num_tokens_padded * l) max_num_tokens_padded =
         slice sorted_token_ids (max_num_tokens_padded * l) max_num_tokens_padded \<and>
       slice (lm_expert_ids m) (max_num_m_blocks * l) max_num_m_blocks = slice expert_ids (max_num_m_blocks * l) max_num_m_blocks \<and>
       lm_total_tokens_post_pad m ! nat l = num_tokens_post_pad ! nat l)"
proof -
  note E = round_up_multiple [OF sizes(1,2)]
  have "num_experts < 1024" "0 \<le> (num_experts + warp_size - 1) sdiv warp_size * warp_size" using E(1) sizes(2,3) by linarith+
  then have E32: "num_experts < 2 ^ 31" "(num_experts + warp_size - 1) sdiv warp_size * warp_size < 2 ^ 31"
    "0 \<le> (num_experts + warp_size - 1) sdiv warp_size * warp_size"
    using sizes(3) by simp_all
  have P: "0 \<le> max_num_tokens_padded" "0 \<le> max_num_m_blocks" "block_size < 2 ^ 31" "max_num_tokens_padded < 2 ^ 31"
    using tensors(1,2) room(2) sizes(4) by (auto simp: rows_fit_def)
  have B: "max_num_m_blocks < 2 ^ 31"
  proof -
    have "max_num_m_blocks = (max_num_tokens_padded + block_size - 1) div block_size"
      using P(1) sizes(4) by (simp add: room(3) CEILDIV_def sdiv_nonneg)
    also have "\<dots> \<le> max_num_tokens_padded + block_size - 1"
      using zdiv_mono2 [of "max_num_tokens_padded + block_size - 1" 1 block_size] P(1) sizes(4) by simp
    finally show ?thesis using room(2) by simp
  qed
  have L: "0 \<le> max_loras" using g by (simp add: lora_args_ok_def lora_ids_ok_def)
  have ids: "int32 num_experts = num_experts" "int32 block_size = block_size" "int32 topk_num = topk_num" "int32 max_loras = max_loras"
    "int32 ((num_experts + warp_size - 1) sdiv warp_size * warp_size) = (num_experts + warp_size - 1) sdiv warp_size * warp_size"
    "int32 max_num_tokens_padded = max_num_tokens_padded" "int32 max_num_m_blocks = max_num_m_blocks"
    using E32 sizes g P B by (auto intro!: int32_id simp: lora_args_ok_def lora_ids_ok_def)
  have a: "aa_num_experts (la_align g) = num_experts" "aa_block_size (la_align g) = block_size" "aa_topk_ids (la_align g) = topk_ids"
    "aa_padded_num_experts (la_align g) = (num_experts + warp_size - 1) sdiv warp_size * warp_size" "la_topk_num g = topk_num"
    "la_max_loras g = max_loras" "la_max_num_tokens_padded g = max_num_tokens_padded" "la_max_num_m_blocks g = max_num_m_blocks"
    by (simp_all add: g(1) align_args_of_def ids)
  have checks: "torch_checks [(0 < block_size, ''block_size should be greater than 0. ''),
      ((num_experts + warp_size - 1) sdiv warp_size * warp_size < 1024, ''padded_num_experts must be less than 1024'')] = Inr ()"
    using sizes(3,4) by (simp add: torch_checks_def torch_check_def)
  let ?host = "\<lambda>cumsum counts. lora_memory_of junk cumsum counts max_loras num_tokens sorted_token_ids expert_ids num_tokens_post_pad"
  note host = host_memory_ok [OF g(2), unfolded a, OF _ sizes(7,8) tensors _ room, of _ _ _ _ _ junk]
  have kept: "length (lm_sorted_token_ids m) = length sorted_token_ids \<and> length (lm_expert_ids m) = length expert_ids \<and>
      length (lm_total_tokens_post_pad m) = length num_tokens_post_pad"
    if "lora_mem_ok g m" for m using that tensors by (simp add: lora_mem_ok_def a rows_fit_def flip: of_nat_eq_iff [where ?'a = int])
  have idle: "slice (lm_sorted_token_ids m) (max_num_tokens_padded * l) max_num_tokens_padded =
         slice sorted_token_ids (max_num_tokens_padded * l) max_num_tokens_padded \<and>
       slice (lm_expert_ids m) (max_num_m_blocks * l) max_num_m_blocks = slice expert_ids (max_num_m_blocks * l) max_num_m_blocks \<and>
       lm_total_tokens_post_pad m ! nat l = num_tokens_post_pad ! nat l"
    if "row_at g m l = row_at g (?host cumsum counts) l" for m l cumsum counts
    using that by (simp add: row_at_def Let_def a lora_memory_of_def)
  show ?thesis
  proof (cases "length topk_ids < 1024 \<and> num_experts \<le> 64")
    case True
    let ?n = "max num_experts 128"
    let ?c = "map (\<lambda>_. map (int32 \<circ> junk) [0..num_experts]) [0..max_loras - 1]"
    let ?m = "?host (Cumsum_Shared ?c) ((?n + 1) * num_experts)"
    have small': "\<forall>x \<in> set topk_ids. x < num_experts" "(?n + 1) * num_experts * 4 + (num_experts + 1) * 4 \<le> max_shared"
      using small [OF True] by simp_all
    have "(?n + 1) * num_experts \<le> 129 * 64" using True sizes(2) by (intro mult_mono) simp_all
    then have shared: "int32 ((?n + 1) * num_experts * 4 + (num_experts + 1) * 4) = (?n + 1) * num_experts * 4 + (num_experts + 1) * 4"
      using True sizes(2) by (intro int32_id) simp_all
    have c: "Cumsum_Shared ?c = Cumsum_Buffer [] \<and> rows_fit (num_experts + 1) max_loras [] \<or>
        Cumsum_Shared ?c = Cumsum_Shared ?c \<and> int (length ?c) = max_loras \<and> (\<forall>ys \<in> set ?c. int (length ys) = num_experts + 1)"
      using sizes(2) L by simp
    have n0: "0 \<le> (?n + 1) * num_experts" using sizes(2) by simp
    have "lora_mem_ok g ?m" "lora_rows_ok g ((?n + 1) * num_experts) (rows_of g ?m)"
      using host [OF n0 c _ refl] by blast+
    then obtain m where m: "lora_small order sched g ?n ?m = Inr m" "lora_mem_ok g m"
        "\<forall>l. active_adapter g l \<longrightarrow> aligned (adapter_args g l) (lr_mem (row_at g m l))"
        "\<forall>l. 0 \<le> l \<and> l < max_loras \<and> \<not> active_adapter g l \<longrightarrow> row_at g m l = row_at g ?m l"
      using lora_small_aligned [where sched = sched, OF g(2) fair(2,1), of ?n ?m] small'(1) by (auto simp: a)
    have "moe_lora_align_block_size order sched warp_size max_shared junk topk_ids num_tokens topk_num token_lora_mapping
        num_experts block_size max_loras max_num_tokens_padded max_num_m_blocks sorted_token_ids expert_ids num_tokens_post_pad
        adapter_enabled lora_ids maybe_expert_map = Inr m"
      unfolding moe_lora_align_block_size_def Let_def ids checks rbind_Inr shared g(1) [symmetric]
      using True m(1) small'(2) sizes(4) by (simp add: torch_check_def)
    then show ?thesis
      using m(3) kept [OF m(2)] idle [OF m(4) [rule_format]] by (intro exI [of _ m] conjI) (simp_all add: True)
  next
    case False
    let ?c = "(num_experts + warp_size - 1) sdiv warp_size * warp_size"
    let ?z = "map (\<lambda>_. 0) [0..max_loras * (num_experts + 1) - 1] :: int list"
    let ?m = "?host (Cumsum_Buffer ?z) ?c"
    have "0 \<le> max_loras * (num_experts + 1)" using L sizes(2) by simp
    then have "rows_fit (num_experts + 1) max_loras ?z" using sizes(2,9) by (simp add: rows_fit_def mult.commute)
    then have c: "Cumsum_Buffer ?z = Cumsum_Buffer ?z \<and> rows_fit (num_experts + 1) max_loras ?z \<or>
        Cumsum_Buffer ?z = Cumsum_Shared [] \<and> int (length []) = max_loras \<and> (\<forall>ys \<in> set []. int (length ys) = num_experts + 1)"
      by simp
    have "lora_mem_ok g ?m" "lora_rows_ok g ?c (rows_of g ?m)" using host [OF E32(3) c _ refl] by blast+
    moreover have "large_counters_ok g" using E(1) sizes(3) by (simp add: large_counters_ok_def a kScanThreads_def)
    ultimately obtain m where m: "lora_large order sched g ?m = Inr m" "lora_mem_ok g m"
        "\<forall>l. active_adapter g l \<longrightarrow> adapter_aligned g l (lr_mem (row_at g m l))"
        "\<forall>l. 0 \<le> l \<and> l < max_loras \<and> \<not> active_adapter g l \<longrightarrow> row_at g m l = row_at g ?m l"
      using lora_large_aligned [where sched = sched, OF g(2) fair(2) _ fair(1), of ?m] by (auto simp: a)
    have "\<not> (int (length topk_ids) < 1024 \<and> num_experts \<le> 64)" using False by simp
    note choice = if_not_P [OF this]
    have "moe_lora_align_block_size order sched warp_size max_shared junk topk_ids num_tokens topk_num token_lora_mapping
        num_experts block_size max_loras max_num_tokens_padded max_num_m_blocks sorted_token_ids expert_ids num_tokens_post_pad
        adapter_enabled lora_ids maybe_expert_map = Inr m"
      unfolding moe_lora_align_block_size_def Let_def ids checks rbind_Inr E(2) g(1) [symmetric] choice using m(1) sizes(4) by simp
    then show ?thesis unfolding if_not_P [OF False]
      using m(3) kept [OF m(2)] idle [OF m(4) [rule_format]] by (intro exI [of _ m] conjI) simp_all
  qed
qed

theorem moe_lora_align_block_size_aligned_witness:
  "\<exists>m. moe_lora_align_block_size (\<lambda>n. concat) (\<lambda>l. one_by_one) 32 49152 (\<lambda>i. 7) [1, 0, 1, 1] 4 1 [0, 1, 0, 0] 2 2 2 8 4
     (replicate 16 9) (replicate 8 9) [9, 9] [1, 1] [-1, 0, 1] None = Inr m \<and> length (lm_sorted_token_ids m) = 16 \<and>
     aligned (adapter_args \<lparr>la_align = align_args_of 32 [1, 0, 1, 1] 2 2 None, la_topk_num = 1,
       la_token_lora_mapping = [0, 1, 0, 0], la_max_loras = 2, la_lora_ids = [-1, 0, 1], la_adapter_enabled = [1, 1],
       la_max_num_tokens_padded = 8, la_max_num_m_blocks = 4\<rparr> 1)
       (lr_mem (row_at \<lparr>la_align = align_args_of 32 [1, 0, 1, 1] 2 2 None, la_topk_num = 1,
       la_token_lora_mapping = [0, 1, 0, 0], la_max_loras = 2, la_lora_ids = [-1, 0, 1], la_adapter_enabled = [1, 1],
       la_max_num_tokens_padded = 8, la_max_num_m_blocks = 4\<rparr> m 1))"
proof -
  let ?a = "align_args_of 32 [1, 0, 1, 1] 2 2 None"
  let ?g = "\<lparr>la_align = ?a, la_topk_num = 1, la_token_lora_mapping = [0, 1, 0, 0], la_max_loras = 2,
    la_lora_ids = [-1, 0, 1], la_adapter_enabled = [1, 1], la_max_num_tokens_padded = 8, la_max_num_m_blocks = 4\<rparr>"
  have a: "?a = \<lparr>aa_topk_ids = [1, 0, 1, 1], aa_expert_map = None, aa_num_experts = 2, aa_block_size = 2,
      aa_experts_per_warp = 32, aa_padded_num_experts = 32\<rparr>"
    by (simp add: align_args_of_def int32_id signed_divide_int_def)
  have ok: "lora_args_ok ?g" by (simp add: lora_args_ok_def lora_ids_ok_def a align_args_ok_def)
  have order: "fair_order (\<lambda>n. concat)" by (simp add: fair_order_def interleave_concat)
  have room: "block_start (adapter_args ?g l) 2 \<le> 8" for l
  proof -
    have p: "padded_tokens (adapter_args ?g l) e \<le> 4" for e
    proof -
      have "int (length (expert_tokens (adapter_args ?g l) e)) \<le> 4" using expert_tokens_le [of "adapter_args ?g l" e] by (simp add: a)
      then have "(int (length (expert_tokens (adapter_args ?g l) e)) + 1) div 2 \<le> 2" by linarith
      then show ?thesis by (simp add: padded_tokens_def a)
    qed
    have "{0..<2 :: int} = {0, 1}" by auto
    then have "block_start (adapter_args ?g l) 2 = padded_tokens (adapter_args ?g l) 0 + padded_tokens (adapter_args ?g l) 1"
      unfolding block_start_def by simp
    then show ?thesis using p [of 0] p [of 1] by linarith
  qed
  have active: "active_adapter ?g 1" by (simp add: active_adapter_def)
  have "\<exists>m. moe_lora_align_block_size (\<lambda>n. concat) (\<lambda>l. one_by_one) 32 49152 (\<lambda>i. 7) [1, 0, 1, 1] 4 1 [0, 1, 0, 0] 2 2 2 8 4
     (replicate 16 9) (replicate 8 9) [9, 9] [1, 1] [-1, 0, 1] None = Inr m \<and>
     length (lm_sorted_token_ids m) = length (replicate 16 (9 :: int)) \<and> length (lm_expert_ids m) = length (replicate 8 (9 :: int)) \<and>
     length (lm_total_tokens_post_pad m) = length [9, 9 :: int] \<and>
     (\<forall>l. active_adapter ?g l \<longrightarrow> (if length [1, 0, 1, 1 :: int] < 1024 \<and> (2 :: int) \<le> 64
        then aligned (adapter_args ?g l) (lr_mem (row_at ?g m l)) else adapter_aligned ?g l (lr_mem (row_at ?g m l)))) \<and>
     (\<forall>l. 0 \<le> l \<and> l < 2 \<and> \<not> active_adapter ?g l \<longrightarrow>
       slice (lm_sorted_token_ids m) (8 * l) 8 = slice (replicate 16 9) (8 * l) 8 \<and>
       slice (lm_expert_ids m) (4 * l) 4 = slice (replicate 8 9) (4 * l) 4 \<and>
       lm_total_tokens_post_pad m ! nat l = [9, 9] ! nat l)"
    by (rule moe_lora_align_block_size_aligned [OF order fair_one_by_one refl ok _ _ _ _ _ _ _ _ _ _ room])
      (simp_all add: signed_divide_int_def CEILDIV_def rows_fit_def)
  then show ?thesis using active by auto
qed

end
