(* ===== verification/Beam_Select.thy ===== *)
theory Beam_Select
  imports Gpu
begin

text \<open>
  \<^verbatim>\<open>ex_engine/xllm_kernels/cuda/xattention/cache_select.cu\<close>: after a step of beam search the KV
  entries of the beams are reordered in place, by one pass over the beams that take a later
  beam's entries and one, backwards, over those that take an earlier beam's.
\<close>

section \<open>The kernel\<close>

record select_dims =
  sd_b :: int
  sd_beam :: int
  sd_kv :: int
  sd_max_step :: int
  sd_d :: int
  sd_max_req :: int
  sd_layer :: int
  sd_decode_step :: int

definition step_end :: "select_dims \<Rightarrow> int" where
  "step_end g = (if sd_decode_step g < sd_max_step g - 1 then sd_decode_step g else sd_max_step g - 1)"

text \<open>Where the entries of a beam at a step and head start.\<close>

definition beam_base :: "select_dims \<Rightarrow> int \<Rightarrow> int \<Rightarrow> int \<Rightarrow> int \<Rightarrow> int" where
  "beam_base g req beam s kv =
     ((req * sd_beam g + beam) * sd_max_step g + s) * (sd_kv g * sd_d g) + kv * sd_d g"

definition old_beam_of :: "select_dims \<Rightarrow> int list \<Rightarrow> int \<Rightarrow> int \<Rightarrow> int result" where
  "old_beam_of g beam_index b new_beam =
     rbind (array_load beam_index (b * sd_beam g + new_beam)) (\<lambda>x. Inr (x sdiv sd_beam g))"

text \<open>
  The copies of a thread: pairs of a destination and a source in the cache of its layer. The
  values follow the keys, so one list of copies describes both.
\<close>

type_synonym copies = "((nat \<times> int) \<times> (nat \<times> int)) list"

definition beam_copies :: "select_dims \<Rightarrow> int \<Rightarrow> int \<Rightarrow> nat \<Rightarrow> int \<Rightarrow> int \<Rightarrow> int \<Rightarrow> int \<Rightarrow> int \<Rightarrow> copies" where
  "beam_copies g block_dim tid layer kv req s new_beam old_beam =
     map (\<lambda>d. ((layer, beam_base g req new_beam s kv + d), (layer, beam_base g req old_beam s kv + d)))
       (stride_loop tid block_dim (sd_d g))"

definition pass_copies ::
  "(int \<Rightarrow> int \<Rightarrow> bool) \<Rightarrow> int list \<Rightarrow> select_dims \<Rightarrow> int list \<Rightarrow> int \<Rightarrow> int \<Rightarrow> nat \<Rightarrow> int \<Rightarrow> int \<Rightarrow> int \<Rightarrow> int \<Rightarrow> copies result" where
  "pass_copies takes order g beam_index block_dim tid layer kv b req s =
     rbind (rmap (\<lambda>new_beam. rbind (old_beam_of g beam_index b new_beam) (\<lambda>old_beam. Inr
       (if 0 \<le> old_beam \<and> old_beam < sd_beam g \<and> takes old_beam new_beam
        then beam_copies g block_dim tid layer kv req s new_beam old_beam else []))) order) (\<lambda>cs. Inr (concat cs))"

definition step_copies ::
  "select_dims \<Rightarrow> int list \<Rightarrow> int \<Rightarrow> int \<Rightarrow> nat \<Rightarrow> int \<Rightarrow> int \<Rightarrow> int \<Rightarrow> int \<Rightarrow> copies result" where
  "step_copies g beam_index block_dim tid layer kv b req s =
     rbind (pass_copies (\<lambda>old new. new < old) [0..sd_beam g - 1] g beam_index block_dim tid layer kv b req s) (\<lambda>pass1.
     rbind (pass_copies (\<lambda>old new. old < new) (rev [0..sd_beam g - 1]) g beam_index block_dim tid layer kv b req s) (\<lambda>pass2.
     Inr (pass1 @ pass2)))"

definition thread_copies ::
  "select_dims \<Rightarrow> int list \<Rightarrow> int list \<Rightarrow> int \<Rightarrow> int \<times> int \<times> int \<times> int \<Rightarrow> copies result" where
  "thread_copies g beam_index block_table block_dim t =
     (let (layer, kv, b, tid) = t in
      if sd_b g \<le> b \<or> sd_kv g \<le> kv \<or> sd_layer g \<le> layer then Inr []
      else rbind (array_load block_table b) (\<lambda>req.
      if req < 0 \<or> sd_max_req g \<le> req then Inr []
      else rbind (rmap (\<lambda>s. step_copies g beam_index block_dim tid (nat layer) kv b req s) [0..step_end g]) (\<lambda>css.
      Inr (concat css))))"

definition select_block_dim :: "int \<Rightarrow> int" where
  "select_block_dim d = max 32 (min 256 ((d + 31) sdiv 32 * 32))"

definition select_threads :: "select_dims \<Rightarrow> int \<Rightarrow> (int \<times> int \<times> int \<times> int) list" where
  "select_threads g block_dim =
     concat (map (\<lambda>layer. concat (map (\<lambda>kv. concat (map (\<lambda>b. map (\<lambda>tid. (layer, kv, b, tid))
       [0..block_dim - 1]) [0..sd_b g - 1])) [0..sd_kv g - 1])) [0..sd_layer g - 1])"

definition copy_step :: "(nat \<times> int) \<times> (nat \<times> int) \<Rightarrow> 'v list list \<Rightarrow> 'v list list result" where
  "copy_step x m = rbind (arrays_load m (snd x)) (arrays_store m (fst x))"

definition select_step ::
  "(nat \<times> int) \<times> (nat \<times> int) \<Rightarrow> 'v list list \<times> 'v list list \<Rightarrow> ('v list list \<times> 'v list list) result" where
  "select_step x c = rbind (copy_step x (fst c)) (\<lambda>k. rbind (copy_step x (snd c)) (\<lambda>v. Inr (k, v)))"

text \<open>The programs of the threads of a launch; any interleaving of them can occur.\<close>

definition select_programs :: "select_dims \<Rightarrow> int list \<Rightarrow> int list \<Rightarrow> copies list result" where
  "select_programs g beam_index block_table =
     (let block_dim = select_block_dim (sd_d g) in
      rmap (thread_copies g beam_index block_table block_dim) (select_threads g block_dim))"

definition select_schedule :: "select_dims \<Rightarrow> int list \<Rightarrow> int list \<Rightarrow> copies \<Rightarrow> bool" where
  "select_schedule g beam_index block_table xs \<longleftrightarrow>
     (case select_programs g beam_index block_table of Inl e \<Rightarrow> False | Inr ps \<Rightarrow> interleave ps xs)"

section \<open>The host\<close>

definition select_dims_of :: "'v buffer \<Rightarrow> int \<Rightarrow> int \<Rightarrow> int \<Rightarrow> select_dims" where
  "select_dims_of k0 b decode_step layer_num =
     \<lparr>sd_b = int32 b, sd_beam = int32 (bf_sizes k0 ! 1), sd_kv = int32 (bf_sizes k0 ! 3),
      sd_max_step = int32 (bf_sizes k0 ! 2), sd_d = int32 (bf_sizes k0 ! 4), sd_max_req = int32 (bf_sizes k0 ! 0),
      sd_layer = int32 layer_num, sd_decode_step = int32 decode_step\<rparr>"

definition checks :: "(bool \<times> string) list \<Rightarrow> unit result" where
  "checks cs = rfold (\<lambda>(b, msg) u. check b msg) cs ()"

lemma checks_Nil [result_simps]: "checks [] = Inr u"
  by (simp add: checks_def)

lemma checks_Cons [result_simps]: "checks ((b, msg) # cs) = Inr u \<longleftrightarrow> b \<and> checks cs = Inr u"
  by (cases b) (simp_all add: checks_def check_def)

definition select_layer_check :: "'v buffer \<Rightarrow> 'v buffer \<Rightarrow> 'v buffer \<Rightarrow> unit result" where
  "select_layer_check k0 k v = checks
     [(bf_cuda k \<and> bf_cuda v, ''cache must be CUDA''),
      (bf_contiguous k \<and> bf_contiguous v, ''cache must be contiguous''),
      (bf_sizes k = bf_sizes k0, ''all layers must have same cache shape''),
      (bf_sizes v = bf_sizes k0, ''all layers must have same cache shape''),
      (bf_type k = bf_type k0, ''all layers must have same dtype''),
      (bf_type v = bf_type k0, ''all layers must have same dtype''),
      (bf_device k = bf_device k0, ''all layers must be on the same CUDA device''),
      (bf_device v = bf_device k0, ''all layers must be on the same CUDA device'')]"

text \<open>
  The last check is the one of the launch: CUDA refuses a grid with no blocks and one that is
  higher than 65535.
\<close>

definition cache_select_checks ::
  "int buffer \<Rightarrow> 'v buffer list \<Rightarrow> 'v buffer list \<Rightarrow> int buffer \<Rightarrow> int \<Rightarrow> int \<Rightarrow> int \<Rightarrow> unit result" where
  "cache_select_checks beam_index ks vs block_table decode_step beam_size layer_num =
     rbind (checks
       [(int (length ks) = layer_num, ''unshared_k_cache length mismatch''),
        (int (length vs) = layer_num, ''unshared_v_cache length mismatch''),
        (bf_cuda beam_index, ''beam_index must be CUDA''),
        (bf_cuda block_table, ''block_table must be CUDA''),
        (bf_dim block_table = 2, ''block_table must be [B*Beam, 1]''),
        (bf_sizes block_table ! 1 = 1, ''block_table must be [B*Beam, 1]''),
        (bf_dim beam_index = 2, ''beam_index must be [B*Beam, 1]''),
        (bf_sizes beam_index ! 1 = 1, ''beam_index must be [B*Beam, 1]''),
        (0 \<le> decode_step, ''decode_step must be >= 0''),
        (0 < beam_size, ''beam_size must be > 0''),
        (bf_sizes block_table ! 0 smod beam_size = 0, ''block_table.size(0) must be divisible by beam_size''),
        (bf_sizes beam_index ! 0 = bf_sizes block_table ! 0 sdiv beam_size * beam_size,
           ''beam_index size mismatch with B*beam_size'')]) (\<lambda>_.
     let k0 = ks ! 0; v0 = vs ! 0 in
     rbind (checks
       [(bf_cuda k0 \<and> bf_cuda v0, ''cache must be CUDA''),
        (bf_contiguous k0 \<and> bf_contiguous v0, ''cache must be contiguous''),
        (bf_dim k0 = 5, ''cache must be 5D [MaxReq, Beam, MaxStep, Kv, D]''),
        (bf_sizes v0 = bf_sizes k0, ''k/v cache shapes must match''),
        (bf_sizes k0 ! 1 = beam_size, ''beam_size mismatch with cache''),
        (decode_step < bf_sizes k0 ! 2, ''decode_step must be < max_decode_step'')]) (\<lambda>_.
     rbind (rfold (\<lambda>(k, v) u. select_layer_check k0 k v) (zip ks vs) ()) (\<lambda>_.
     rbind (checks
       [(bf_sizes k0 ! 3 \<le> 2 ^ 32 - 1, ''Kv too large for grid.y''),
        (layer_num \<le> 65535, ''layer_num too large for grid.z'')]) (\<lambda>_.
     torch_checks
       [(bf_type k0 \<in> {kFloat32, kFloat16, kBFloat16}, ''cache_select_inplace_ptrs_kernel not implemented''),
        (bf_sizes block_table ! 0 \<noteq> 0 \<and> 0 < bf_sizes k0 ! 3 \<and> bf_sizes k0 ! 3 \<le> 65535,
           ''CUDA error: invalid configuration argument'')]))))"

text \<open>The requests are numbered by the host; the block table only gives their number.\<close>

definition cache_select ::
  "copies \<Rightarrow> int buffer \<Rightarrow> 'v buffer list \<Rightarrow> 'v buffer list \<Rightarrow> int buffer \<Rightarrow> int \<Rightarrow> int \<Rightarrow> int \<Rightarrow>
   ('v buffer list \<times> 'v buffer list) result" where
  "cache_select xs beam_index ks vs block_table decode_step beam_size layer_num =
     rbind (check (0 \<le> layer_num) ''layer_num must be >= 0'') (\<lambda>_.
     if layer_num = 0 then Inr (ks, vs)
     else rbind (cache_select_checks beam_index ks vs block_table decode_step beam_size layer_num) (\<lambda>_.
     let b = bf_sizes block_table ! 0 sdiv beam_size;
         g = select_dims_of (ks ! 0) b decode_step layer_num in
     rbind (select_programs g (map int32 (bf_data beam_index)) (map int32 [0..b - 1])) (\<lambda>_.
     rbind (rfold select_step xs (map bf_data ks, map bf_data vs)) (\<lambda>(ks', vs').
     Inr (map2 (\<lambda>t d. t\<lparr>bf_data := d\<rparr>) ks ks', map2 (\<lambda>t d. t\<lparr>bf_data := d\<rparr>) vs vs')))))"


section \<open>A gather in place\<close>

text \<open>
  Each of the places \<open>xs\<close> is written once, from a place no earlier copy has written: afterwards
  every place holds what its source held at first.
\<close>

definition gather_copies :: "(int \<Rightarrow> 'a) \<Rightarrow> (int \<Rightarrow> int option) \<Rightarrow> int list \<Rightarrow> ('a \<times> 'a) list" where
  "gather_copies addr source xs =
     concat (map (\<lambda>x. case source x of None \<Rightarrow> [] | Some s \<Rightarrow> [(addr x, addr s)]) xs)"

definition place_source :: "(int \<Rightarrow> int option) \<Rightarrow> int \<Rightarrow> int" where
  "place_source source x = (case source x of None \<Rightarrow> x | Some s \<Rightarrow> s)"

lemma copied_gather:
  assumes "inj_on addr S" and "set xs \<subseteq> S" and "distinct xs" and "j \<in> S"
    and "\<forall>x \<in> set xs. \<forall>s. source x = Some s \<longrightarrow> s \<in> S"
    and "sorted_wrt (\<lambda>x y. \<forall>s. source y = Some s \<longrightarrow> s \<noteq> x) xs"
  shows "copied (gather_copies addr source xs) h (addr j) =
    h (addr (if j \<in> set xs then place_source source j else j))"
  using assms(2-)
proof (induction xs arbitrary: j rule: rev_induct)
  case (snoc x xs)
  have IH: "copied (gather_copies addr source xs) h (addr j) =
      h (addr (if j \<in> set xs then place_source source j else j))" if "j \<in> S" for j
    using snoc that by (intro snoc.IH) (auto simp: sorted_wrt_append)
  show ?case
  proof (cases "source x")
    case None
    then have "gather_copies addr source (xs @ [x]) = gather_copies addr source xs"
      by (simp add: gather_copies_def)
    then show ?thesis using IH [OF snoc.prems(3)] None by (auto simp: place_source_def)
  next
    case (Some s)
    then have g: "gather_copies addr source (xs @ [x]) = gather_copies addr source xs @ [(addr x, addr s)]"
      by (simp add: gather_copies_def)
    have s: "s \<in> S" "s \<notin> set xs" using snoc.prems Some by (auto simp: sorted_wrt_append)
    have "addr j = addr x \<longleftrightarrow> j = x"
      using inj_on_eq_iff [OF assms(1) snoc.prems(3), of x] snoc.prems(1) by simp
    then show ?thesis
      using IH [OF snoc.prems(3)] IH [OF s(1)] s Some
      by (auto simp: g copied_append place_source_def)
  qed
qed (simp add: gather_copies_def)

text \<open>The two passes over the beams, as gathers.\<close>

definition later_beam :: "int \<Rightarrow> (int \<Rightarrow> int) \<Rightarrow> int \<Rightarrow> int option" where
  "later_beam n old i = (if 0 \<le> old i \<and> old i < n \<and> i < old i then Some (old i) else None)"

definition earlier_beam :: "int \<Rightarrow> (int \<Rightarrow> int) \<Rightarrow> int \<Rightarrow> int option" where
  "earlier_beam n old i = (if 0 \<le> old i \<and> old i < n \<and> old i < i then Some (old i) else None)"

text \<open>
  The beam whose entries a beam ends up with. A beam number out of range keeps the beam; a beam
  that takes an earlier one sees what the first pass has left there.
\<close>

definition old_or_same :: "int \<Rightarrow> (int \<Rightarrow> int) \<Rightarrow> int \<Rightarrow> int" where
  "old_or_same n old i = (if 0 \<le> old i \<and> old i < n then old i else i)"

definition beam_taken :: "int \<Rightarrow> (int \<Rightarrow> int) \<Rightarrow> int \<Rightarrow> int" where
  "beam_taken n old i =
     (let j = old_or_same n old i in
      if j < i \<and> j < old_or_same n old j then old_or_same n old j else j)"

lemma old_or_same_range: "0 \<le> i \<Longrightarrow> i < n \<Longrightarrow> 0 \<le> old_or_same n old i \<and> old_or_same n old i < n"
  by (simp add: old_or_same_def)

lemma beam_taken_range: "0 \<le> i \<Longrightarrow> i < n \<Longrightarrow> 0 \<le> beam_taken n old i \<and> beam_taken n old i < n"
  using old_or_same_range by (simp add: beam_taken_def Let_def)

lemma beam_taken_ascending:
  assumes "\<forall>i j. 0 \<le> i \<and> i \<le> j \<and> j < n \<longrightarrow> 0 \<le> old i \<and> old i \<le> old j \<and> old j < n" and "0 \<le> i" "i < n"
  shows "beam_taken n old i = old i"
proof -
  have r: "0 \<le> old i" "old i < n" using assms(1) [rule_format, of i i] assms(2,3) by simp_all
  then have "0 \<le> old (old i)" "old (old i) < n" using assms(1) [rule_format, of "old i" "old i"] by simp_all
  moreover have "\<not> old i < old (old i)" if "old i < i"
    using assms(1) [rule_format, of "old i" i] that assms(3) r by simp
  ultimately show ?thesis using r by (auto simp: beam_taken_def old_or_same_def Let_def)
qed

lemma sorted_upto: "sorted_wrt (<) [0..n - 1 :: int]"
  by (simp add: sorted_wrt_upto)

lemma two_passes:
  assumes "inj_on addr {0..n - 1}" and "0 \<le> i" "i < n"
  shows "copied (gather_copies addr (later_beam n old) [0..n - 1] @
      gather_copies addr (earlier_beam n old) (rev [0..n - 1])) h (addr i) = h (addr (beam_taken n old i))"
proof -
  have w1: "sorted_wrt (\<lambda>x y. \<forall>s. later_beam n old y = Some s \<longrightarrow> s \<noteq> x) [0..n - 1]"
    by (rule sorted_wrt_mono_rel [OF _ sorted_upto]) (auto simp: later_beam_def split: if_splits)
  have w2: "sorted_wrt (\<lambda>y x. \<forall>s. earlier_beam n old y = Some s \<longrightarrow> s \<noteq> x) [0..n - 1]"
    by (rule sorted_wrt_mono_rel [OF _ sorted_upto]) (auto simp: earlier_beam_def split: if_splits)
  have r1: "\<forall>x \<in> set [0..n - 1]. \<forall>s. later_beam n old x = Some s \<longrightarrow> s \<in> {0..n - 1}"
    by (auto simp: later_beam_def split: if_splits)
  have r2: "\<forall>x \<in> set (rev [0..n - 1]). \<forall>s. earlier_beam n old x = Some s \<longrightarrow> s \<in> {0..n - 1}"
    by (auto simp: earlier_beam_def split: if_splits)
  have one: "copied (gather_copies addr (later_beam n old) [0..n - 1]) h (addr j) =
      h (addr (place_source (later_beam n old) j))" if "0 \<le> j" "j < n" for j
    using copied_gather [OF assms(1) _ _ _ r1 w1, of j h] that by simp
  have two: "copied (gather_copies addr (earlier_beam n old) (rev [0..n - 1])) g (addr i) =
      g (addr (place_source (earlier_beam n old) i))" for g
    using copied_gather [OF assms(1) _ _ _ r2, of i g] w2 assms(2,3) by (simp add: sorted_wrt_rev)
  have "0 \<le> place_source (earlier_beam n old) i" "place_source (earlier_beam n old) i < n"
    using assms(2,3) by (auto simp: place_source_def earlier_beam_def)
  then have "copied (gather_copies addr (later_beam n old) [0..n - 1] @
      gather_copies addr (earlier_beam n old) (rev [0..n - 1])) h (addr i) =
      h (addr (place_source (later_beam n old) (place_source (earlier_beam n old) i)))"
    by (simp add: copied_append two one)
  also have "place_source (later_beam n old) (place_source (earlier_beam n old) i) = beam_taken n old i"
    using assms(2,3)
    by (auto simp: place_source_def later_beam_def earlier_beam_def beam_taken_def old_or_same_def Let_def)
  finally show ?thesis .
qed


section \<open>The programs of the threads\<close>

definition old_beams :: "select_dims \<Rightarrow> int list \<Rightarrow> int \<Rightarrow> int \<Rightarrow> int" where
  "old_beams g beam_index b new_beam = beam_index ! nat (b * sd_beam g + new_beam) sdiv sd_beam g"

definition pass_list ::
  "(int \<Rightarrow> int option) \<Rightarrow> int list \<Rightarrow> select_dims \<Rightarrow> int \<Rightarrow> int \<Rightarrow> nat \<Rightarrow> int \<Rightarrow> int \<Rightarrow> int \<Rightarrow> copies" where
  "pass_list source order g block_dim tid layer kv req s = concat (map (\<lambda>new_beam.
     case source new_beam of None \<Rightarrow> []
     | Some old_beam \<Rightarrow> beam_copies g block_dim tid layer kv req s new_beam old_beam) order)"

definition step_list ::
  "select_dims \<Rightarrow> (int \<Rightarrow> int) \<Rightarrow> int \<Rightarrow> int \<Rightarrow> nat \<Rightarrow> int \<Rightarrow> int \<Rightarrow> int \<Rightarrow> copies" where
  "step_list g old block_dim tid layer kv req s =
     pass_list (later_beam (sd_beam g) old) [0..sd_beam g - 1] g block_dim tid layer kv req s @
     pass_list (earlier_beam (sd_beam g) old) (rev [0..sd_beam g - 1]) g block_dim tid layer kv req s"

definition thread_list ::
  "select_dims \<Rightarrow> int list \<Rightarrow> int \<Rightarrow> int \<times> int \<times> int \<times> int \<Rightarrow> copies" where
  "thread_list g beam_index block_dim t = (let (layer, kv, b, tid) = t in
     if sd_max_req g \<le> b then []
     else concat (map (step_list g (old_beams g beam_index b) block_dim tid (nat layer) kv b) [0..step_end g]))"

lemma pass_copies_list:
  assumes "\<And>n. n \<in> set order \<Longrightarrow> old_beam_of g beam_index b n = Inr (old n)"
    and "\<And>n. source n = (if 0 \<le> old n \<and> old n < sd_beam g \<and> takes (old n) n then Some (old n) else None)"
  shows "pass_copies takes order g beam_index block_dim tid layer kv b req s =
    Inr (pass_list source order g block_dim tid layer kv req s)"
proof -
  have "pass_copies takes order g beam_index block_dim tid layer kv b req s = Inr (concat (map (\<lambda>n.
       if 0 \<le> old n \<and> old n < sd_beam g \<and> takes (old n) n
       then beam_copies g block_dim tid layer kv req s n (old n) else []) order))"
    unfolding pass_copies_def by (subst rmap_total) (simp_all add: assms(1))
  also have "\<dots> = Inr (pass_list source order g block_dim tid layer kv req s)"
    unfolding pass_list_def by (rule arg_cong [where f = "\<lambda>x. Inr (concat x)"]) (simp add: assms(2))
  finally show ?thesis .
qed

lemma step_copies_list:
  assumes "\<And>n. 0 \<le> n \<Longrightarrow> n < sd_beam g \<Longrightarrow> old_beam_of g beam_index b n = Inr (old n)"
  shows "step_copies g beam_index block_dim tid layer kv b req s =
    Inr (step_list g old block_dim tid layer kv req s)"
proof -
  have "pass_copies (\<lambda>old new. new < old) [0..sd_beam g - 1] g beam_index block_dim tid layer kv b req s =
      Inr (pass_list (later_beam (sd_beam g) old) [0..sd_beam g - 1] g block_dim tid layer kv req s)"
    by (rule pass_copies_list [where old = old]) (simp_all add: assms later_beam_def)
  moreover have "pass_copies (\<lambda>old new. old < new) (rev [0..sd_beam g - 1]) g beam_index block_dim tid layer kv b req s =
      Inr (pass_list (earlier_beam (sd_beam g) old) (rev [0..sd_beam g - 1]) g block_dim tid layer kv req s)"
    by (rule pass_copies_list [where old = old]) (simp_all add: assms earlier_beam_def)
  ultimately show ?thesis by (simp add: step_copies_def step_list_def)
qed

text \<open>The rows of the beam index are complete and the requests are numbered from 0.\<close>

definition select_input :: "select_dims \<Rightarrow> int list \<Rightarrow> int list \<Rightarrow> bool" where
  "select_input g beam_index block_table \<longleftrightarrow>
     block_table = [0..sd_b g - 1] \<and> int (length beam_index) = sd_b g * sd_beam g \<and>
     0 < sd_b g \<and> 0 < sd_beam g \<and> 0 < sd_kv g \<and> 0 < sd_max_step g \<and> 0 \<le> sd_d g \<and>
     0 < sd_layer g \<and> 0 \<le> sd_decode_step g \<and> sd_decode_step g < sd_max_step g"

lemma select_block_dim_pos: "0 < select_block_dim d"
  by (simp add: select_block_dim_def)

lemma old_beam_of_row:
  assumes "select_input g beam_index block_table" and "0 \<le> b" "b < sd_b g" and "0 \<le> n" "n < sd_beam g"
  shows "old_beam_of g beam_index b n = Inr (old_beams g beam_index b n)"
  using digit_bounds [OF assms(2-5)] assms(1)
  by (simp add: old_beam_of_def array_load_def in_array_def old_beams_def select_input_def)

lemma set_select_threads:
  "(layer, kv, b, tid) \<in> set (select_threads g n) \<longleftrightarrow>
     0 \<le> layer \<and> layer < sd_layer g \<and> 0 \<le> kv \<and> kv < sd_kv g \<and> 0 \<le> b \<and> b < sd_b g \<and> 0 \<le> tid \<and> tid < n"
  unfolding select_threads_def set_concat set_map set_upto UN_iff image_image by (simp add: image_iff)

lemma thread_copies_list:
  assumes "select_input g beam_index block_table" and "t \<in> set (select_threads g n)"
  shows "thread_copies g beam_index block_table block_dim t = Inr (thread_list g beam_index block_dim t)"
proof -
  obtain layer kv b tid where t: "t = (layer, kv, b, tid)" by (cases t)
  have r: "0 \<le> b" "b < sd_b g" "kv < sd_kv g" "layer < sd_layer g"
    using assms(2) by (simp_all add: t set_select_threads)
  have "array_load block_table b = Inr b"
    using assms(1) r by (simp add: select_input_def array_load_def in_array_def nth_upto)
  moreover have "step_copies g beam_index block_dim tid l kv b b s =
      Inr (step_list g (old_beams g beam_index b) block_dim tid l kv b s)" for s l
    by (rule step_copies_list) (rule old_beam_of_row [OF assms(1) r(1,2)])
  then have "rmap (\<lambda>s. step_copies g beam_index block_dim tid (nat layer) kv b b s) [0..step_end g] =
      Inr (map (step_list g (old_beams g beam_index b) block_dim tid (nat layer) kv b) [0..step_end g])"
    by (intro rmap_total) simp
  ultimately show ?thesis using r by (simp add: t thread_copies_def thread_list_def)
qed

lemma select_programs_lists:
  assumes "select_input g beam_index block_table"
  shows "select_programs g beam_index block_table =
    Inr (map (thread_list g beam_index (select_block_dim (sd_d g))) (select_threads g (select_block_dim (sd_d g))))"
  unfolding select_programs_def Let_def by (rule rmap_total) (rule thread_copies_list [OF assms])

lemma distinct_nested:
  assumes "distinct xs" and "\<And>x. distinct (f x)" and "\<And>x y z. x \<noteq> y \<Longrightarrow> z \<in> set (f x) \<Longrightarrow> z \<notin> set (f y)"
  shows "distinct (concat (map f xs))"
  using assms(1)
proof (induction xs)
  case (Cons x xs)
  have "z \<notin> set (f y)" if "z \<in> set (f x)" "y \<in> set xs" for y z
    using assms(3) [of x y z] that Cons.prems by auto
  then have "set (f x) \<inter> set (concat (map f xs)) = {}" by auto
  then show ?case using Cons assms(2) by simp
qed simp

lemma distinct_select_threads: "distinct (select_threads g n)"
  unfolding select_threads_def by (intro distinct_nested) (auto simp: distinct_map inj_on_def)


section \<open>The copies of one element\<close>

text \<open>
  The layer, request, step and place within the heads that an address belongs to: the beam is
  left out. A copy stays among the beams of its key, and one thread makes all copies of a key.
\<close>

definition copy_key :: "select_dims \<Rightarrow> nat \<times> int \<Rightarrow> nat \<times> int \<times> int \<times> int" where
  "copy_key g a = (let w = sd_kv g * sd_d g; q = snd a div w in
     (fst a, q div sd_max_step g div sd_beam g, q mod sd_max_step g, snd a mod w))"

definition beam_address :: "select_dims \<Rightarrow> nat \<Rightarrow> int \<Rightarrow> int \<Rightarrow> int \<Rightarrow> int \<Rightarrow> int \<Rightarrow> nat \<times> int" where
  "beam_address g layer req s kv d beam = (layer, beam_base g req beam s kv + d)"

lemma beam_base_digits:
  "beam_base g req beam s kv + d =
     ((req * sd_beam g + beam) * sd_max_step g + s) * (sd_kv g * sd_d g) + (kv * sd_d g + d)"
  by (simp add: beam_base_def)

lemma copy_key_beam_address:
  assumes "0 \<le> beam" "beam < sd_beam g" "0 \<le> s" "s < sd_max_step g" "0 \<le> kv" "kv < sd_kv g" "0 \<le> d" "d < sd_d g"
  shows "copy_key g (beam_address g layer req s kv d beam) = (layer, req, s, kv * sd_d g + d)"
  using assms digit_div_mod [OF digit_bounds [OF assms(5-8)]]
  unfolding copy_key_def beam_address_def beam_base_digits snd_conv fst_conv Let_def by simp

lemma beam_address_inj:
  assumes "0 < sd_kv g * sd_d g" and "0 < sd_max_step g"
  shows "inj_on (beam_address g layer req s kv d) A"
  using assms by (auto simp: inj_on_def beam_address_def beam_base_def)

lemma filter_same: "distinct xs \<Longrightarrow> filter (\<lambda>x. x = y) xs = (if y \<in> set xs then [y] else [])"
  by (induction xs) auto

lemma concat_one: "distinct xs \<Longrightarrow> concat (map (\<lambda>x. if x = y then f x else []) xs) = (if y \<in> set xs then f y else [])"
  by (induction xs) (auto simp: concat_eq_Nil_conv)

lemma filter_map_key:
  assumes "\<And>x. x \<in> set xs \<Longrightarrow> P (f x) \<longleftrightarrow> Q x"
  shows "filter P (map f xs) = map f (filter Q xs)"
  using assms by (induction xs) auto

lemma beam_copies_key:
  assumes "0 \<le> new" "new < sd_beam g" "0 \<le> s" "s < sd_max_step g" "0 \<le> kv" "kv < sd_kv g"
    and "0 \<le> kv'" "kv' < sd_kv g" "0 \<le> d'" "d' < sd_d g"
    and "0 \<le> tid" "tid < block_dim"
  shows "filter (\<lambda>x. copy_key g (fst x) = (layer', req', s', kv' * sd_d g + d'))
      (beam_copies g block_dim tid layer kv req s new old) =
    (if layer = layer' \<and> req = req' \<and> s = s' \<and> kv = kv' \<and> tid = d' mod block_dim
     then [(beam_address g layer req s kv d' new, beam_address g layer req s kv d' old)] else [])"
proof -
  let ?ds = "stride_loop tid block_dim (sd_d g)"
  let ?f = "\<lambda>d. (beam_address g layer req s kv d new, beam_address g layer req s kv d old)"
  let ?same = "layer = layer' \<and> req = req' \<and> s = s' \<and> kv = kv'"
  have ds: "d \<in> set ?ds \<longleftrightarrow> tid \<le> d \<and> d < sd_d g \<and> block_dim dvd d - tid" for d
    using assms(11,12) by (simp add: set_stride_loop)
  have "filter (\<lambda>x. copy_key g (fst x) = (layer', req', s', kv' * sd_d g + d')) (map ?f ?ds) =
      map ?f (filter (\<lambda>d. ?same \<and> d = d') ?ds)"
  proof (rule filter_map_key)
    fix d assume "d \<in> set ?ds"
    then have d: "0 \<le> d" "d < sd_d g" using ds assms(11) by simp_all
    have "copy_key g (beam_address g layer req s kv d new) = (layer, req, s, kv * sd_d g + d)"
      by (rule copy_key_beam_address) (use assms d in simp_all)
    moreover have "kv * sd_d g + d = kv' * sd_d g + d' \<longleftrightarrow> kv = kv' \<and> d = d'"
      by (rule digit_inject) (use assms d in simp_all)
    ultimately show "copy_key g (fst (?f d)) = (layer', req', s', kv' * sd_d g + d') \<longleftrightarrow> ?same \<and> d = d'"
      by (auto simp del: mult_cancel_right)
  qed
  moreover have "beam_copies g block_dim tid layer kv req s new old = map ?f ?ds"
    by (simp add: beam_copies_def beam_address_def)
  moreover have "d' \<in> set ?ds \<longleftrightarrow> tid = d' mod block_dim"
  proof -
    have "block_dim dvd d' - tid \<and> tid \<le> d' \<longleftrightarrow> tid = d' mod block_dim"
    proof
      assume a: "block_dim dvd d' - tid \<and> tid \<le> d'"
      then have "d' mod block_dim = tid mod block_dim" by (simp add: mod_eq_dvd_iff)
      then show "tid = d' mod block_dim" using assms(11,12) by simp
    next
      assume a: "tid = d' mod block_dim"
      have "d' mod block_dim \<le> d'" using assms by (simp add: zmod_le_nonneg_dividend)
      then show "block_dim dvd d' - tid \<and> tid \<le> d'" by (simp add: a dvd_minus_mod)
    qed
    then show ?thesis using ds assms(10) by auto
  qed
  moreover have "filter (\<lambda>d. ?same \<and> d = d') ?ds = (if ?same \<and> d' \<in> set ?ds then [d'] else [])"
    by (cases ?same) (auto simp: filter_same distinct_stride_loop)
  ultimately show ?thesis by (cases "?same \<and> tid = d' mod block_dim") auto
qed


definition key_copies :: "select_dims \<Rightarrow> (int \<Rightarrow> int) \<Rightarrow> nat \<Rightarrow> int \<Rightarrow> int \<Rightarrow> int \<Rightarrow> int \<Rightarrow> copies" where
  "key_copies g old layer req s kv d =
     gather_copies (beam_address g layer req s kv d) (later_beam (sd_beam g) old) [0..sd_beam g - 1] @
     gather_copies (beam_address g layer req s kv d) (earlier_beam (sd_beam g) old) (rev [0..sd_beam g - 1])"

lemma pass_list_key:
  assumes "set order \<subseteq> {0..sd_beam g - 1}" and "0 \<le> s" "s < sd_max_step g" "0 \<le> kv" "kv < sd_kv g"
    and "0 \<le> kv'" "kv' < sd_kv g" "0 \<le> d'" "d' < sd_d g" and "0 \<le> tid" "tid < block_dim"
  shows "filter (\<lambda>x. copy_key g (fst x) = (layer', req', s', kv' * sd_d g + d'))
      (pass_list source order g block_dim tid layer kv req s) =
    (if layer = layer' \<and> req = req' \<and> s = s' \<and> kv = kv' \<and> tid = d' mod block_dim
     then gather_copies (beam_address g layer req s kv d') source order else [])"
  using assms(1)
proof (induction order)
  case (Cons new order)
  have "filter (\<lambda>x. copy_key g (fst x) = (layer', req', s', kv' * sd_d g + d'))
      (beam_copies g block_dim tid layer kv req s new old) =
    (if layer = layer' \<and> req = req' \<and> s = s' \<and> kv = kv' \<and> tid = d' mod block_dim
     then [(beam_address g layer req s kv d' new, beam_address g layer req s kv d' old)] else [])" for old
    by (rule beam_copies_key) (use assms Cons.prems in simp_all)
  then show ?case using Cons
    by (cases "source new") (simp_all add: pass_list_def gather_copies_def)
qed (simp add: pass_list_def gather_copies_def)

lemma step_list_key:
  assumes "0 \<le> s" "s < sd_max_step g" "0 \<le> kv" "kv < sd_kv g"
    and "0 \<le> kv'" "kv' < sd_kv g" "0 \<le> d'" "d' < sd_d g" and "0 \<le> tid" "tid < block_dim"
  shows "filter (\<lambda>x. copy_key g (fst x) = (layer', req', s', kv' * sd_d g + d'))
      (step_list g old block_dim tid layer kv req s) =
    (if s = s' then if layer = layer' \<and> req = req' \<and> kv = kv' \<and> tid = d' mod block_dim
     then key_copies g old layer' req' s' kv' d' else [] else [])"
  unfolding step_list_def filter_append
  by (subst (1 2) pass_list_key) (use assms in \<open>auto simp: key_copies_def\<close>)

lemma step_end_is: "sd_decode_step g < sd_max_step g \<Longrightarrow> step_end g = sd_decode_step g"
  by (simp add: step_end_def)

lemma thread_list_key:
  assumes "select_input g beam_index block_table" and "(layer, kv, b, tid) \<in> set (select_threads g block_dim)"
    and "0 \<le> kv'" "kv' < sd_kv g" "0 \<le> d'" "d' < sd_d g" "0 \<le> s'" "s' \<le> sd_decode_step g" "req' < sd_max_req g"
  shows "filter (\<lambda>x. copy_key g (fst x) = (layer', req', s', kv' * sd_d g + d'))
      (thread_list g beam_index block_dim (layer, kv, b, tid)) =
    (if layer = int layer' \<and> kv = kv' \<and> b = req' \<and> tid = d' mod block_dim
     then key_copies g (old_beams g beam_index req') layer' req' s' kv' d' else [])"
proof -
  let ?P = "\<lambda>x. copy_key g (fst x) = (layer', req', s', kv' * sd_d g + d')"
  let ?same = "nat layer = layer' \<and> b = req' \<and> kv = kv' \<and> tid = d' mod block_dim"
  have t: "0 \<le> layer" "0 \<le> kv" "kv < sd_kv g" "0 \<le> tid" "tid < block_dim"
    using assms(2) by (simp_all add: set_select_threads)
  have e: "step_end g = sd_decode_step g" "sd_decode_step g < sd_max_step g"
    using assms(1) by (simp_all add: select_input_def step_end_is)
  have "filter ?P (step_list g (old_beams g beam_index b) block_dim tid (nat layer) kv b s) =
      (if s = s' then if ?same then key_copies g (old_beams g beam_index b) layer' req' s' kv' d' else [] else [])"
    if "s \<in> set [0..step_end g]" for s
    by (rule step_list_key) (use that assms t e in simp_all)
  then have "concat (map (\<lambda>s. filter ?P (step_list g (old_beams g beam_index b) block_dim tid (nat layer) kv b s))
        [0..step_end g]) =
      concat (map (\<lambda>s. if s = s' then if ?same then key_copies g (old_beams g beam_index b) layer' req' s' kv' d' else []
        else []) [0..step_end g])"
    by (intro arg_cong [where f = concat] map_cong) simp_all
  also have "\<dots> = (if ?same then key_copies g (old_beams g beam_index b) layer' req' s' kv' d' else [])"
    by (subst concat_one) (use assms(7,8) e in simp_all)
  finally show ?thesis
    using assms(9) t(1) by (auto simp: thread_list_def filter_concat comp_def)
qed

text \<open>In every schedule the copies of a key happen in the order of the one thread that makes them.\<close>

lemma schedule_key:
  assumes "select_input g beam_index block_table" and "select_schedule g beam_index block_table xs"
    and "layer < nat (sd_layer g)" "0 \<le> req" "req < sd_b g" "req < sd_max_req g"
      "0 \<le> s" "s \<le> sd_decode_step g" "0 \<le> kv" "kv < sd_kv g" "0 \<le> d" "d < sd_d g"
  shows "filter (\<lambda>x. copy_key g (fst x) = (layer, req, s, kv * sd_d g + d)) xs =
    key_copies g (old_beams g beam_index req) layer req s kv d"
proof -
  let ?P = "\<lambda>x. copy_key g (fst x) = (layer, req, s, kv * sd_d g + d)"
  let ?n = "select_block_dim (sd_d g)"
  let ?ts = "select_threads g ?n"
  let ?ps = "map (thread_list g beam_index ?n) ?ts"
  let ?t = "(int layer, kv, req, d mod ?n)"
  have key: "filter ?P (thread_list g beam_index ?n t) =
      (if t = ?t then key_copies g (old_beams g beam_index req) layer req s kv d else [])" if "t \<in> set ?ts" for t
  proof -
    obtain l k b i where t: "t = (l, k, b, i)" by (cases t)
    show ?thesis
      using thread_list_key [OF assms(1), of l k b i ?n kv d s req layer] that assms(6-12) by (simp add: t)
  qed
  have "?t \<in> set ?ts"
    using assms(3-12) select_block_dim_pos [of "sd_d g"] by (simp add: set_select_threads)
  then obtain i where i: "i < length ?ts" "?ts ! i = ?t" by (auto simp: in_set_conv_nth)
  have "\<forall>j < length ?ps. j \<noteq> i \<longrightarrow> filter ?P (?ps ! j) = []"
  proof (intro allI impI)
    fix j assume j: "j < length ?ps" "j \<noteq> i"
    then have "?ts ! j \<noteq> ?t" using i nth_eq_iff_index_eq [OF distinct_select_threads] by (metis length_map)
    then show "filter ?P (?ps ! j) = []" using j key [of "?ts ! j"] by simp
  qed
  moreover have "interleave ?ps xs"
    using assms(2) by (simp add: select_schedule_def select_programs_lists [OF assms(1)])
  ultimately have "filter ?P xs = filter ?P (?ps ! i)" using i by (intro interleave_filter) simp_all
  also have "\<dots> = key_copies g (old_beams g beam_index req) layer req s kv d"
    using i key [of ?t] \<open>?t \<in> set ?ts\<close> by simp
  finally show ?thesis .
qed


lemma beam_sources:
  "later_beam n old i = Some j \<Longrightarrow> 0 \<le> j \<and> j < n"
  "earlier_beam n old i = Some j \<Longrightarrow> 0 \<le> j \<and> j < n"
  by (auto simp: later_beam_def earlier_beam_def split: if_splits)

lemma set_pass_list:
  "x \<in> set (pass_list source order g block_dim tid layer kv req s) \<longleftrightarrow>
     (\<exists>new \<in> set order. \<exists>old. source new = Some old \<and>
        x \<in> set (beam_copies g block_dim tid layer kv req s new old))"
  by (induction order) (auto simp: pass_list_def split: option.splits)

lemma pass_list_copy:
  assumes "x \<in> set (pass_list source order g block_dim tid layer kv req s)"
    and "\<And>i j. source i = Some j \<Longrightarrow> 0 \<le> j \<and> j < sd_beam g"
  shows "\<exists>new old. new \<in> set order \<and> 0 \<le> old \<and> old < sd_beam g \<and>
    x \<in> set (beam_copies g block_dim tid layer kv req s new old)"
  using assms by (auto simp: set_pass_list)

text \<open>What the copies of a launch are, in any schedule.\<close>

lemma copies_are_moves:
  assumes "select_input g beam_index block_table" and "select_schedule g beam_index block_table xs" and "x \<in> set xs"
  shows "\<exists>layer req s kv d new old. x = (beam_address g layer req s kv d new, beam_address g layer req s kv d old) \<and>
    layer < nat (sd_layer g) \<and> 0 \<le> req \<and> req < sd_b g \<and> req < sd_max_req g \<and> 0 \<le> s \<and> s \<le> sd_decode_step g \<and>
    0 \<le> kv \<and> kv < sd_kv g \<and> 0 \<le> d \<and> d < sd_d g \<and> 0 \<le> new \<and> new < sd_beam g \<and> 0 \<le> old \<and> old < sd_beam g"
proof -
  let ?n = "select_block_dim (sd_d g)"
  have "interleave (map (thread_list g beam_index ?n) (select_threads g ?n)) xs"
    using assms(2) by (simp add: select_schedule_def select_programs_lists [OF assms(1)])
  then have "mset xs = mset (concat (map (thread_list g beam_index ?n) (select_threads g ?n)))"
    by (rule interleave_mset)
  then have "set xs = set (concat (map (thread_list g beam_index ?n) (select_threads g ?n)))"
    by (rule mset_eq_setD)
  then have "\<exists>t \<in> set (select_threads g ?n). x \<in> set (thread_list g beam_index ?n t)"
    using assms(3) by simp
  then obtain layer kv b tid where t: "(layer, kv, b, tid) \<in> set (select_threads g ?n)"
    and x: "x \<in> set (thread_list g beam_index ?n (layer, kv, b, tid))"
    by (metis prod_cases4)
  have r: "0 \<le> layer" "layer < sd_layer g" "0 \<le> kv" "kv < sd_kv g" "0 \<le> b" "b < sd_b g" "0 \<le> tid" "tid < ?n"
    using t by (simp_all add: set_select_threads)
  have e: "step_end g = sd_decode_step g" using assms(1) by (simp add: select_input_def step_end_is)
  obtain s where s: "0 \<le> s" "s \<le> sd_decode_step g" "b < sd_max_req g"
    and xs: "x \<in> set (step_list g (old_beams g beam_index b) ?n tid (nat layer) kv b s)"
    using x unfolding thread_list_def e by (simp split: if_splits) fastforce
  have "\<exists>new old. new \<in> set [0..sd_beam g - 1] \<and> 0 \<le> old \<and> old < sd_beam g \<and>
      x \<in> set (beam_copies g ?n tid (nat layer) kv b s new old)"
  proof -
    consider "x \<in> set (pass_list (later_beam (sd_beam g) (old_beams g beam_index b)) [0..sd_beam g - 1] g ?n tid (nat layer) kv b s)"
      | "x \<in> set (pass_list (earlier_beam (sd_beam g) (old_beams g beam_index b)) (rev [0..sd_beam g - 1]) g ?n tid (nat layer) kv b s)"
      using xs unfolding step_list_def set_append by blast
    then show ?thesis
      by cases (use pass_list_copy [OF _ beam_sources(1)] pass_list_copy [OF _ beam_sources(2)] in \<open>fastforce simp only: set_rev\<close>)+
  qed
  then obtain new old where nn: "new \<in> set [0..sd_beam g - 1]" and n: "0 \<le> old" "old < sd_beam g"
    and xb: "x \<in> set (beam_copies g ?n tid (nat layer) kv b s new old)" by blast
  have nr: "0 \<le> new" "new < sd_beam g" using nn by simp_all
  obtain d where d: "d \<in> set (stride_loop tid ?n (sd_d g))"
    "x = (beam_address g (nat layer) b s kv d new, beam_address g (nat layer) b s kv d old)"
    using xb by (auto simp: beam_copies_def beam_address_def)
  have dr: "0 \<le> d" "d < sd_d g"
    using d(1) r(7) by (simp_all add: set_stride_loop select_block_dim_pos)
  have l: "nat layer < nat (sd_layer g)" using r(1,2) by simp
  show ?thesis
    by (rule exI [of _ "nat layer"], rule exI [of _ b], rule exI [of _ s], rule exI [of _ kv], rule exI [of _ d],
      rule exI [of _ new], rule exI [of _ old], intro conjI d(2) l r(3-6) s dr nr n)
qed

lemma copied_beam:
  assumes "select_input g beam_index block_table" and "select_schedule g beam_index block_table xs"
    and "layer < nat (sd_layer g)" "0 \<le> req" "req < sd_b g" "req < sd_max_req g"
      "0 \<le> s" "s \<le> sd_decode_step g" "0 \<le> kv" "kv < sd_kv g" "0 \<le> d" "d < sd_d g" "0 \<le> beam" "beam < sd_beam g"
  shows "copied xs h (beam_address g layer req s kv d beam) =
    h (beam_address g layer req s kv d (beam_taken (sd_beam g) (old_beams g beam_index req) beam))"
proof -
  let ?K = "(layer, req, s, kv * sd_d g + d)"
  let ?P = "\<lambda>x. copy_key g (fst x) = ?K"
  have in_step: "sd_decode_step g < sd_max_step g" using assms(1) by (simp add: select_input_def)
  have stay: "copy_key g (fst x) = copy_key g (snd x)" if "x \<in> set xs" for x
    using copies_are_moves [OF assms(1,2) that] in_step by (elim exE conjE) (simp add: copy_key_beam_address)
  have "copied xs h (beam_address g layer req s kv d beam) =
      copied (filter ?P xs) h (beam_address g layer req s kv d beam)"
  proof (rule copied_region [where A = "{a. copy_key g a = ?K}"])
    show "\<forall>(e, s) \<in> set xs. if ?P (e, s) then s \<in> {a. copy_key g a = ?K} else e \<notin> {a. copy_key g a = ?K}"
      using stay by fastforce
    show "beam_address g layer req s kv d beam \<in> {a. copy_key g a = ?K}"
      using assms(7-14) in_step by (simp add: copy_key_beam_address)
  qed simp
  also have "\<dots> = copied (key_copies g (old_beams g beam_index req) layer req s kv d) h
      (beam_address g layer req s kv d beam)"
    using assms by (subst schedule_key [OF assms(1,2)]) simp_all
  also have "\<dots> = h (beam_address g layer req s kv d (beam_taken (sd_beam g) (old_beams g beam_index req) beam))"
    unfolding key_copies_def
    by (rule two_passes) (use assms in \<open>auto intro!: beam_address_inj simp: select_input_def\<close>)
  finally show ?thesis .
qed

lemma copied_elsewhere:
  assumes "select_input g beam_index block_table" and "select_schedule g beam_index block_table xs"
    and "sd_b g \<le> req \<or> sd_decode_step g < s"
      "0 \<le> s" "s < sd_max_step g" "0 \<le> kv" "kv < sd_kv g" "0 \<le> d" "d < sd_d g" "0 \<le> beam" "beam < sd_beam g"
  shows "copied xs h (beam_address g layer req s kv d beam) = h (beam_address g layer req s kv d beam)"
proof -
  have "fst x \<noteq> beam_address g layer req s kv d beam" if x: "x \<in> set xs" for x
  proof
    assume "fst x = beam_address g layer req s kv d beam"
    then obtain l r t k c new
      where m: "beam_address g l r t k c new = beam_address g layer req s kv d beam"
        "r < sd_b g" "0 \<le> t" "t \<le> sd_decode_step g" "0 \<le> k" "k < sd_kv g" "0 \<le> c" "c < sd_d g" "0 \<le> new" "new < sd_beam g"
      using copies_are_moves [OF assms(1,2) x] by auto
    have "t < sd_max_step g" using m assms(1) by (simp add: select_input_def)
    then have "(layer, req, s, kv * sd_d g + d) = (l, r, t, k * sd_d g + c)"
      using m assms(4-11) copy_key_beam_address [of beam g s kv d layer req] copy_key_beam_address [of new g t k c l r]
      by simp
    then show False using m assms(3) by simp
  qed
  then show ?thesis by (intro copied_other) fastforce
qed


section \<open>The caches after a launch\<close>

text \<open>What the caches must be for the sizes the kernel is launched with.\<close>

definition select_caches :: "select_dims \<Rightarrow> 'v list list \<Rightarrow> bool" where
  "select_caches g m \<longleftrightarrow> int (length m) = sd_layer g \<and>
     (\<forall>a \<in> set m. int (length a) = sd_max_req g * sd_beam g * sd_max_step g * (sd_kv g * sd_d g))"

lemma beam_address_in_arrays:
  assumes "select_caches g m" and "layer < nat (sd_layer g)" "0 \<le> req" "req < sd_max_req g"
    "0 \<le> beam" "beam < sd_beam g" "0 \<le> s" "s < sd_max_step g" "0 \<le> kv" "kv < sd_kv g" "0 \<le> d" "d < sd_d g"
  shows "in_arrays m (beam_address g layer req s kv d beam)"
proof -
  have l: "layer < length m" using assms(1,2) by (auto simp: select_caches_def)
  then have "int (length (m ! layer)) = sd_max_req g * sd_beam g * sd_max_step g * (sd_kv g * sd_d g)"
    using assms(1) by (simp add: select_caches_def)
  moreover have p: "0 \<le> kv * sd_d g + d" "kv * sd_d g + d < sd_kv g * sd_d g"
    by (rule digit_bounds [OF assms(9-12)])+
  have b: "0 \<le> req * sd_beam g + beam" "req * sd_beam g + beam < sd_max_req g * sd_beam g"
    by (rule digit_bounds [OF assms(3-6)])+
  have "0 \<le> (req * sd_beam g + beam) * sd_max_step g + s"
    "(req * sd_beam g + beam) * sd_max_step g + s < sd_max_req g * sd_beam g * sd_max_step g"
    by (rule digit_bounds [OF b assms(7,8)])+
  note digit_bounds [OF this p]
  ultimately show ?thesis
    using l by (simp add: in_arrays_def in_array_def beam_address_def beam_base_digits)
qed

lemma in_arrays_load: "in_arrays m a \<Longrightarrow> \<exists>v. arrays_load m a = Inr v"
  by (simp add: in_arrays_def arrays_load_def array_load_def)

lemma copies_in_arrays:
  assumes "select_input g beam_index block_table" and "select_schedule g beam_index block_table xs" and "select_caches g m"
    and "x \<in> set xs"
  shows "in_arrays m (fst x) \<and> in_arrays m (snd x)"
proof -
  have "sd_decode_step g < sd_max_step g" using assms(1) by (simp add: select_input_def)
  then show ?thesis
    using copies_are_moves [OF assms(1,2,4)] by (elim exE conjE) (simp add: beam_address_in_arrays [OF assms(3)])
qed

lemma select_run:
  assumes "select_input g beam_index block_table" and "select_schedule g beam_index block_table xs"
    and "select_caches g k" and "select_caches g v"
  shows "\<exists>k' v'. rfold select_step xs (k, v) = Inr (k', v') \<and>
    (\<forall>a. in_arrays k' a = in_arrays k a) \<and> (\<forall>a. in_arrays v' a = in_arrays v a) \<and>
    arrays_load k' = copied xs (arrays_load k) \<and> arrays_load v' = copied xs (arrays_load v)"
proof -
  have run: "\<exists>m'. rfold copy_step xs m = Inr m' \<and> (\<forall>a. in_arrays m' a = in_arrays m a) \<and>
      arrays_load m' = copied xs (arrays_load m)" if "select_caches g m" for m :: "'a list list"
    by (rule layered.copies_run)
      (use copies_in_arrays [OF assms(1,2) that] in_arrays_load in \<open>auto simp: copy_step_def\<close>)
  obtain k' where k': "rfold copy_step xs k = Inr k'" "\<forall>a. in_arrays k' a = in_arrays k a"
      "arrays_load k' = copied xs (arrays_load k)" using run [OF assms(3)] by blast
  obtain v' where v': "rfold copy_step xs v = Inr v'" "\<forall>a. in_arrays v' a = in_arrays v a"
      "arrays_load v' = copied xs (arrays_load v)" using run [OF assms(4)] by blast
  have "rfold select_step xs (k, v) = Inr (k', v')"
    by (rule rfold_pair [OF _ k'(1) v'(1)]) (simp add: select_step_def)
  then show ?thesis using k' v' by blast
qed

section \<open>The call\<close>

text \<open>An element of the cache of a layer, by request, beam, step, head and place.\<close>

definition cache_entry :: "'v buffer list \<Rightarrow> nat \<Rightarrow> int \<times> int \<times> int \<times> int \<times> int \<Rightarrow> 'v result" where
  "cache_entry ks layer p = (let (req, beam, s, kv, d) = p; z = bf_sizes (ks ! layer) in
     if layer < length ks \<and> 0 \<le> req \<and> req < z ! 0 \<and> 0 \<le> beam \<and> beam < z ! 1 \<and> 0 \<le> s \<and> s < z ! 2 \<and>
        0 \<le> kv \<and> kv < z ! 3 \<and> 0 \<le> d \<and> d < z ! 4
     then array_load (bf_data (ks ! layer)) ((((req * z ! 1 + beam) * z ! 2 + s) * z ! 3 + kv) * z ! 4 + d)
     else Inl (Undefined ''no such entry''))"

text \<open>Calls whose arguments pass the checks, with sizes and beam numbers that 32 bits hold.\<close>

definition select_ready ::
  "int buffer \<Rightarrow> 'v buffer list \<Rightarrow> 'v buffer list \<Rightarrow> int buffer \<Rightarrow> int \<Rightarrow> int \<Rightarrow> int \<Rightarrow> bool" where
  "select_ready beam_index ks vs block_table decode_step beam_size layer_num \<longleftrightarrow>
     0 < layer_num \<and>
     cache_select_checks beam_index ks vs block_table decode_step beam_size layer_num = Inr () \<and>
     (\<forall>z \<in> set (bf_sizes (ks ! 0)). 0 \<le> z \<and> z < 2 ^ 31) \<and>
     0 \<le> bf_sizes block_table ! 0 \<and> bf_sizes block_table ! 0 < 2 ^ 31 \<and>
     int (length (bf_data beam_index)) = bf_sizes beam_index ! 0 \<and>
     (\<forall>x \<in> set (bf_data beam_index). - (2 ^ 31) \<le> x \<and> x < 2 ^ 31) \<and>
     (\<forall>t \<in> set ks \<union> set vs. int (length (bf_data t)) = bf_numel t)"

text \<open>The beam a beam of a request takes its entries from, in the numbering within the request.\<close>

definition beam_parent :: "int buffer \<Rightarrow> int \<Rightarrow> int \<Rightarrow> int \<Rightarrow> int" where
  "beam_parent beam_index beam_size req beam = bf_data beam_index ! nat (req * beam_size + beam) sdiv beam_size"

definition select_copies :: "int buffer \<Rightarrow> 'v buffer list \<Rightarrow> int buffer \<Rightarrow> int \<Rightarrow> int \<Rightarrow> int \<Rightarrow> copies \<Rightarrow> bool" where
  "select_copies beam_index ks block_table decode_step beam_size layer_num xs \<longleftrightarrow>
     (let b = bf_sizes block_table ! 0 sdiv beam_size in
      select_schedule (select_dims_of (ks ! 0) b decode_step layer_num)
        (map int32 (bf_data beam_index)) (map int32 [0..b - 1]) xs)"

lemma select_layers_checked:
  "rfold (\<lambda>(k, v) u. select_layer_check k0 k v) ps () = Inr u \<longleftrightarrow>
     (\<forall>(k, v) \<in> set ps. select_layer_check k0 k v = Inr ())"
  by (induction ps) (auto simp: rbind_eq_Inr_iff)

lemma select_checked_layer:
  assumes "select_layer_check k0 k v = Inr u"
  shows "bf_sizes k = bf_sizes k0" and "bf_sizes v = bf_sizes k0"
  using assms unfolding select_layer_check_def by (simp_all only: result_simps)


text \<open>The sizes of a checked call.\<close>

lemma select_ready_shape:
  assumes "select_ready beam_index ks vs block_table decode_step beam_size layer_num"
  shows "int (length ks) = layer_num" and "int (length vs) = layer_num" and "0 < beam_size"
    and "length (bf_sizes (ks ! 0)) = 5" and "bf_sizes (ks ! 0) ! 1 = beam_size" and "layer_num \<le> 65535"
    and "0 \<le> decode_step" and "decode_step < bf_sizes (ks ! 0) ! 2" and "0 < bf_sizes (ks ! 0) ! 3"
    and "bf_sizes block_table ! 0 \<noteq> 0" and "bf_sizes block_table ! 0 smod beam_size = 0"
    and "bf_sizes beam_index ! 0 = bf_sizes block_table ! 0 sdiv beam_size * beam_size"
  using assms unfolding select_ready_def cache_select_checks_def Let_def bf_dim_def
  by (simp_all add: result_simps)

lemma select_ready_sizes:
  assumes "select_ready beam_index ks vs block_table decode_step beam_size layer_num"
    and "t \<in> set ks \<union> set vs"
  shows "bf_sizes t = bf_sizes (ks ! 0)"
proof -
  note len = select_ready_shape(1,2) [OF assms(1)]
  have "rfold (\<lambda>(k, v) u. select_layer_check (ks ! 0) k v) (zip ks vs) () = Inr ()"
    using assms(1) unfolding select_ready_def cache_select_checks_def Let_def by (simp add: result_simps)
  then have c: "\<forall>(k, v) \<in> set (zip ks vs). select_layer_check (ks ! 0) k v = Inr ()"
    by (simp only: select_layers_checked)
  obtain i where i: "i < length ks" "t = ks ! i \<or> t = vs ! i"
    using assms(2) len by (auto simp: in_set_conv_nth)
  then have "select_layer_check (ks ! 0) (ks ! i) (vs ! i) = Inr ()"
    using c len by (fastforce simp: set_zip)
  then show ?thesis using i(2) select_checked_layer by blast
qed

lemma map_int32_id: "\<forall>x \<in> set xs. - (2 ^ 31) \<le> x \<and> x < 2 ^ 31 \<Longrightarrow> map int32 xs = xs"
  by (induction xs) (simp_all add: int32_id)

lemma prod_list_five:
  "length zs = 5 \<Longrightarrow> prod_list zs = zs ! 0 * zs ! 1 * zs ! 2 * (zs ! 3 * zs ! 4 :: int)"
  by (auto simp: length_Suc_conv numeral_eq_Suc)

lemma select_ready_kernel:
  assumes r: "select_ready beam_index ks vs block_table decode_step beam_size layer_num"
  defines "b \<equiv> bf_sizes block_table ! 0 sdiv beam_size"
  defines "g \<equiv> select_dims_of (ks ! 0) b decode_step layer_num"
  shows "g = \<lparr>sd_b = b, sd_beam = beam_size, sd_kv = bf_sizes (ks ! 0) ! 3, sd_max_step = bf_sizes (ks ! 0) ! 2,
      sd_d = bf_sizes (ks ! 0) ! 4, sd_max_req = bf_sizes (ks ! 0) ! 0, sd_layer = layer_num, sd_decode_step = decode_step\<rparr>"
    and "map int32 (bf_data beam_index) = bf_data beam_index" and "map int32 [0..b - 1] = [0..b - 1]"
    and "select_input g (bf_data beam_index) [0..b - 1]"
    and "select_caches g (map bf_data ks)" and "select_caches g (map bf_data vs)"
proof -
  note sh = select_ready_shape [OF r]
  let ?z = "\<lambda>i. bf_sizes (ks ! 0) ! i"
  have z: "0 \<le> ?z i \<and> ?z i < 2 ^ 31" if "i < 5" for i
    using r that sh(4) nth_mem [of i "bf_sizes (ks ! 0)"] by (auto simp: select_ready_def)
  have t: "0 \<le> bf_sizes block_table ! 0" "bf_sizes block_table ! 0 < 2 ^ 31"
    using r by (simp_all add: select_ready_def)
  have b: "b = bf_sizes block_table ! 0 div beam_size" "b * beam_size = bf_sizes block_table ! 0"
    using t(1) sh(3,11) by (auto simp: b_def c_arith)
  have bpos: "0 < b" using b(2) sh(3,10) t(1) by (smt (verit) zero_less_mult_iff mult_eq_0_iff)
  have b32: "b < 2 ^ 31" using mult_left_mono [of 1 beam_size b] b(2) bpos sh(3) t by simp
  have l: "0 < layer_num" using r by (simp add: select_ready_def)
  have i: "int32 b = b" "int32 layer_num = layer_num" "int32 decode_step = decode_step"
    using int32_id [of b] int32_id [of layer_num] int32_id [of decode_step] bpos b32 l sh(6,7,8) z [of 2]
    by simp_all
  have iz: "int32 (?z i) = ?z i" if "i < 5" for i
    using z [OF that] by (intro int32_id) linarith+
  show g: "g = \<lparr>sd_b = b, sd_beam = beam_size, sd_kv = ?z 3, sd_max_step = ?z 2,
      sd_d = ?z 4, sd_max_req = ?z 0, sd_layer = layer_num, sd_decode_step = decode_step\<rparr>"
    using sh(5) iz [of 1] by (simp add: g_def select_dims_of_def i iz)
  show "map int32 (bf_data beam_index) = bf_data beam_index"
    using r by (intro map_int32_id) (simp add: select_ready_def)
  show "map int32 [0..b - 1] = [0..b - 1]"
    using b32 by (intro map_int32_id) auto
  have "int (length (bf_data beam_index)) = b * beam_size"
    using r sh(12) by (simp add: select_ready_def b_def)
  then show "select_input g (bf_data beam_index) [0..b - 1]"
    using bpos l sh(3,7,8,9) z [of 4] by (simp add: select_input_def g)
  have cache: "select_caches g (map bf_data ts)" if "int (length ts) = layer_num" "set ts \<subseteq> set ks \<union> set vs" for ts
  proof -
    have "int (length (bf_data t)) = prod_list (bf_sizes (ks ! 0))" if "t \<in> set ts" for t
      using r select_ready_sizes [OF r, of t] that \<open>set ts \<subseteq> _\<close> by (auto simp: select_ready_def bf_numel_def)
    then show ?thesis using that(1) prod_list_five [OF sh(4)] sh(5) by (simp add: select_caches_def g)
  qed
  show "select_caches g (map bf_data ks)" by (rule cache) (use sh(1) in simp_all)
  show "select_caches g (map bf_data vs)" by (rule cache) (use sh(2) in simp_all)
qed

lemma select_step_lengths:
  assumes "rfold select_step xs (k, v) = Inr (k', v')"
  shows "length k' = length k \<and> length v' = length v"
proof -
  have store: "arrays_store m a w = Inr m' \<Longrightarrow> length m' = length m" for m m' :: "'a list list" and a w
    by (auto simp: arrays_store_def rbind_eq_Inr_iff split: if_splits)
  show ?thesis
    using rfold_invariant [OF assms, of "\<lambda>(a, b). length a = length k \<and> length b = length v"]
    by (fastforce simp: select_step_def copy_step_def rbind_eq_Inr_iff dest: store)
qed

lemma cache_entry_load:
  assumes "layer < length ks" and "bf_sizes (ks ! layer) = z" "g = \<lparr>sd_b = b, sd_beam = z ! 1, sd_kv = z ! 3,
      sd_max_step = z ! 2, sd_d = z ! 4, sd_max_req = z ! 0, sd_layer = l, sd_decode_step = n\<rparr>"
  shows "cache_entry ks layer (req, beam, s, kv, d) =
    (if 0 \<le> req \<and> req < z ! 0 \<and> 0 \<le> beam \<and> beam < z ! 1 \<and> 0 \<le> s \<and> s < z ! 2 \<and>
        0 \<le> kv \<and> kv < z ! 3 \<and> 0 \<le> d \<and> d < z ! 4
     then arrays_load (map bf_data ks) (beam_address g layer req s kv d beam)
     else Inl (Undefined ''no such entry''))"
  using assms
  by (simp add: cache_entry_def arrays_load_def beam_address_def beam_base_def algebra_simps)


lemma with_data:
  assumes "length arrs = length ks"
  shows "map bf_data (map2 (\<lambda>t d. t\<lparr>bf_data := d\<rparr>) ks arrs) = arrs"
    and "layer < length ks \<Longrightarrow> bf_sizes (map2 (\<lambda>t d. t\<lparr>bf_data := d\<rparr>) ks arrs ! layer) = bf_sizes (ks ! layer)"
    and "length (map2 (\<lambda>t d. t\<lparr>bf_data := d\<rparr>) ks arrs) = length ks"
  using assms by (auto intro: nth_equalityI)

text \<open>One family of caches, keys or values, after the copies.\<close>

lemma entries_after:
  assumes r: "select_ready beam_index ks vs block_table decode_step beam_size layer_num"
    and xs: "select_copies beam_index ks block_table decode_step beam_size layer_num xs"
    and ts: "int (length ts) = layer_num" "set ts \<subseteq> set ks \<union> set vs"
    and arrs: "length arrs = length ts" "arrays_load arrs = copied xs (arrays_load (map bf_data ts))"
    and p: "layer < nat layer_num" "0 \<le> beam" "beam < beam_size"
  shows "req < bf_sizes block_table ! 0 sdiv beam_size \<and> s \<le> decode_step \<Longrightarrow>
      cache_entry (map2 (\<lambda>t d. t\<lparr>bf_data := d\<rparr>) ts arrs) layer (req, beam, s, kv, d) =
      cache_entry ts layer (req, beam_taken beam_size (beam_parent beam_index beam_size req) beam, s, kv, d)"
    and "bf_sizes block_table ! 0 sdiv beam_size \<le> req \<or> decode_step < s \<Longrightarrow>
      cache_entry (map2 (\<lambda>t d. t\<lparr>bf_data := d\<rparr>) ts arrs) layer (req, beam, s, kv, d) =
      cache_entry ts layer (req, beam, s, kv, d)"
proof -
  define b where "b = bf_sizes block_table ! 0 sdiv beam_size"
  define g where "g = select_dims_of (ks ! 0) b decode_step layer_num"
  note k = select_ready_kernel [OF r, folded b_def, folded g_def]
  note sh = select_ready_shape [OF r]
  have l: "layer < length ts" using p(1) ts(1) by auto
  then have z: "bf_sizes (ts ! layer) = bf_sizes (ks ! 0)"
    using select_ready_sizes [OF r] ts(2) nth_mem by blast
  have sched: "select_schedule g (bf_data beam_index) [0..b - 1] xs"
    using xs unfolding select_copies_def Let_def b_def [symmetric] g_def [symmetric] k(2,3) .
  have kg: "g = \<lparr>sd_b = b, sd_beam = bf_sizes (ks ! 0) ! 1, sd_kv = bf_sizes (ks ! 0) ! 3,
      sd_max_step = bf_sizes (ks ! 0) ! 2, sd_d = bf_sizes (ks ! 0) ! 4, sd_max_req = bf_sizes (ks ! 0) ! 0,
      sd_layer = layer_num, sd_decode_step = decode_step\<rparr>" using k(1) sh(5) by simp
  note load = cache_entry_load [OF l z kg]
  have l2: "layer < length (map2 (\<lambda>t d. t\<lparr>bf_data := d\<rparr>) ts arrs)"
    "bf_sizes (map2 (\<lambda>t d. t\<lparr>bf_data := d\<rparr>) ts arrs ! layer) = bf_sizes (ks ! 0)"
    using with_data(2,3) [OF arrs(1)] l z by simp_all
  note load2 = cache_entry_load [OF l2 kg, unfolded with_data(1) [OF arrs(1)] arrs(2)]
  have old: "old_beams g (bf_data beam_index) req = beam_parent beam_index beam_size req"
    by (rule ext) (simp add: old_beams_def beam_parent_def k(1))
  have range: "0 \<le> beam_taken beam_size (beam_parent beam_index beam_size req) beam \<and>
      beam_taken beam_size (beam_parent beam_index beam_size req) beam < beam_size"
    using p by (intro beam_taken_range)
  show "cache_entry (map2 (\<lambda>t d. t\<lparr>bf_data := d\<rparr>) ts arrs) layer (req, beam, s, kv, d) =
      cache_entry ts layer (req, beam_taken beam_size (beam_parent beam_index beam_size req) beam, s, kv, d)"
    if "req < bf_sizes block_table ! 0 sdiv beam_size \<and> s \<le> decode_step"
    using copied_beam [OF k(4) sched, of layer req s kv d beam "arrays_load (map bf_data ts)"] that p range sh(5)
    unfolding load load2 old by (auto simp: k(1) b_def)
  show "cache_entry (map2 (\<lambda>t d. t\<lparr>bf_data := d\<rparr>) ts arrs) layer (req, beam, s, kv, d) =
      cache_entry ts layer (req, beam, s, kv, d)" if "bf_sizes block_table ! 0 sdiv beam_size \<le> req \<or> decode_step < s"
    using copied_elsewhere [OF k(4) sched, of req s kv d beam "arrays_load (map bf_data ts)" layer] that p sh(5)
    unfolding load load2 by (auto simp: k(1) b_def)
qed

lemma cache_select_entries:
  assumes "select_ready beam_index ks vs block_table decode_step beam_size layer_num"
    and "select_copies beam_index ks block_table decode_step beam_size layer_num xs"
  shows "\<exists>ks' vs'. cache_select xs beam_index ks vs block_table decode_step beam_size layer_num = Inr (ks', vs') \<and>
    (\<forall>layer < nat layer_num. \<forall>req beam s kv d. 0 \<le> beam \<and> beam < beam_size \<longrightarrow>
       (let from = if req < bf_sizes block_table ! 0 sdiv beam_size \<and> s \<le> decode_step
          then beam_taken beam_size (beam_parent beam_index beam_size req) beam else beam
        in cache_entry ks' layer (req, beam, s, kv, d) = cache_entry ks layer (req, from, s, kv, d) \<and>
           cache_entry vs' layer (req, beam, s, kv, d) = cache_entry vs layer (req, from, s, kv, d)))"
proof -
  define b where "b = bf_sizes block_table ! 0 sdiv beam_size"
  define g where "g = select_dims_of (ks ! 0) b decode_step layer_num"
  note k = select_ready_kernel [OF assms(1), folded b_def, folded g_def]
  note len = select_ready_shape(1,2) [OF assms(1)]
  have sched: "select_schedule g (bf_data beam_index) [0..b - 1] xs"
    using assms(2) unfolding select_copies_def Let_def b_def [symmetric] g_def [symmetric] k(2,3) .
  obtain k' v' where run: "rfold select_step xs (map bf_data ks, map bf_data vs) = Inr (k', v')"
    and loads: "arrays_load k' = copied xs (arrays_load (map bf_data ks))" "arrays_load v' = copied xs (arrays_load (map bf_data vs))"
    using select_run [OF k(4) sched k(5,6)] by blast
  have lens: "length k' = length ks" "length v' = length vs" using select_step_lengths [OF run] by simp_all
  have "cache_select xs beam_index ks vs block_table decode_step beam_size layer_num =
      Inr (map2 (\<lambda>t d. t\<lparr>bf_data := d\<rparr>) ks k', map2 (\<lambda>t d. t\<lparr>bf_data := d\<rparr>) vs v')"
    using assms(1) select_programs_lists [OF k(4)] run
    by (simp add: cache_select_def select_ready_def Let_def b_def [symmetric] g_def [symmetric] k(2,3))
  then show ?thesis
    using entries_after [OF assms len(1) _ lens(1) loads(1)] entries_after [OF assms len(2) _ lens(2) loads(2)]
    by (intro exI conjI) (auto simp: Let_def)
qed


text \<open>
  C10: For every order in which the threads can run, a call whose arguments pass the checks leaves
  in the beam of a request, up to the decode step, the keys and values its parent had before,
  except that a beam whose parent is an earlier beam that is itself replaced from a later one
  gets the replacement; a parent out of range keeps the beam. Later steps and other requests
  keep their entries.
\<close>

theorem cache_select_reorders:
  assumes "select_ready beam_index ks vs block_table decode_step beam_size layer_num"
    and "select_copies beam_index ks block_table decode_step beam_size layer_num xs"
  shows "\<exists>ks' vs'. cache_select xs beam_index ks vs block_table decode_step beam_size layer_num = Inr (ks', vs') \<and>
    (\<forall>layer < nat layer_num. \<forall>req beam s kv d. 0 \<le> beam \<and> beam < beam_size \<longrightarrow>
       (let from = if req < bf_sizes block_table ! 0 sdiv beam_size \<and> s \<le> decode_step
          then beam_taken beam_size (beam_parent beam_index beam_size req) beam else beam
        in cache_entry ks' layer (req, beam, s, kv, d) = cache_entry ks layer (req, from, s, kv, d) \<and>
           cache_entry vs' layer (req, beam, s, kv, d) = cache_entry vs layer (req, from, s, kv, d)))"
  by (rule cache_select_entries [OF assms])

text \<open>A launch has a schedule: the threads one after the other.\<close>

lemma select_copies_exist:
  assumes "select_ready beam_index ks vs block_table decode_step beam_size layer_num"
  shows "\<exists>xs. select_copies beam_index ks block_table decode_step beam_size layer_num xs"
  using select_ready_kernel [OF assms] interleave_concat
  by (auto simp: select_copies_def select_schedule_def Let_def select_programs_lists)

definition demo_cache :: "int \<Rightarrow> int buffer" where
  "demo_cache v = \<lparr>bf_cuda = True, bf_device = 0, bf_type = kFloat16, bf_contiguous = True, bf_address = v,
     bf_sizes = [1, 3, 1, 1, 1], bf_data = [v, v + 1, v + 2]\<rparr>"

definition demo_ids :: "int list \<Rightarrow> int buffer" where
  "demo_ids xs = \<lparr>bf_cuda = True, bf_device = 0, bf_type = kInt32, bf_contiguous = True, bf_address = 0,
     bf_sizes = [int (length xs), 1], bf_data = xs\<rparr>"

lemma demo_ready:
  assumes "length xs = 3" and "\<forall>x \<in> set xs. 0 \<le> x \<and> x < 9"
  shows "select_ready (demo_ids xs) [demo_cache 10] [demo_cache 20] (demo_ids [0, 1, 2]) 0 3 1"
  using assms
  by (auto simp: select_ready_def cache_select_checks_def select_layer_check_def demo_cache_def demo_ids_def
      result_simps checks_def torch_checks_def torch_check_def bf_dim_def bf_numel_def sdiv_nonneg smod_nonneg)

text \<open>
  Beams with the parents 1, 1 and 0: the third beam asks for what the first one had, and gets
  what the second one had.
\<close>

theorem cache_select_reorders_witness:
  "\<exists>xs ks' vs'. select_copies (demo_ids [3, 4, 2]) [demo_cache 10] (demo_ids [0, 1, 2]) 0 3 1 xs \<and>
     cache_select xs (demo_ids [3, 4, 2]) [demo_cache 10] [demo_cache 20] (demo_ids [0, 1, 2]) 0 3 1 = Inr (ks', vs') \<and>
     beam_parent (demo_ids [3, 4, 2]) 3 0 2 = 0 \<and>
     cache_entry ks' 0 (0, 0, 0, 0, 0) = Inr 11 \<and> cache_entry ks' 0 (0, 2, 0, 0, 0) = Inr 11 \<and>
     cache_entry vs' 0 (0, 1, 0, 0, 0) = Inr 21"
proof -
  have r: "select_ready (demo_ids [3, 4, 2]) [demo_cache 10] [demo_cache 20] (demo_ids [0, 1, 2]) 0 3 1"
    by (rule demo_ready) simp_all
  obtain xs where xs: "select_copies (demo_ids [3, 4, 2]) [demo_cache 10] (demo_ids [0, 1, 2]) 0 3 1 xs"
    using select_copies_exist [OF r] by blast
  have t: "beam_taken 3 (beam_parent (demo_ids [3, 4, 2]) 3 0) 0 = 1" "beam_taken 3 (beam_parent (demo_ids [3, 4, 2]) 3 0) 1 = 1"
    "beam_taken 3 (beam_parent (demo_ids [3, 4, 2]) 3 0) 2 = 1" "bf_sizes (demo_ids [0, 1, 2]) ! 0 sdiv 3 = 1"
    by (simp_all add: beam_taken_def old_or_same_def beam_parent_def demo_ids_def sdiv_nonneg)
  have e: "cache_entry [demo_cache v] 0 (0, 1, 0, 0, 0) = Inr (v + 1)" for v
    by (simp add: cache_entry_def demo_cache_def array_load_def in_array_def)
  obtain ks' vs' where run: "cache_select xs (demo_ids [3, 4, 2]) [demo_cache 10] [demo_cache 20] (demo_ids [0, 1, 2]) 0 3 1
      = Inr (ks', vs')"
    and entry: "\<forall>layer < nat 1. \<forall>req beam s kv d. 0 \<le> beam \<and> beam < 3 \<longrightarrow>
       (let from = if req < bf_sizes (demo_ids [0, 1, 2]) ! 0 sdiv 3 \<and> s \<le> 0
          then beam_taken 3 (beam_parent (demo_ids [3, 4, 2]) 3 req) beam else beam
        in cache_entry ks' layer (req, beam, s, kv, d) = cache_entry [demo_cache 10] layer (req, from, s, kv, d) \<and>
           cache_entry vs' layer (req, beam, s, kv, d) = cache_entry [demo_cache 20] layer (req, from, s, kv, d))"
    using cache_select_reorders [OF r xs] by blast
  have at0: "cache_entry ks' 0 (0, beam, 0, 0, 0) = cache_entry [demo_cache 10] 0
        (0, beam_taken 3 (beam_parent (demo_ids [3, 4, 2]) 3 0) beam, 0, 0, 0) \<and>
      cache_entry vs' 0 (0, beam, 0, 0, 0) = cache_entry [demo_cache 20] 0
        (0, beam_taken 3 (beam_parent (demo_ids [3, 4, 2]) 3 0) beam, 0, 0, 0)" if "0 \<le> beam" "beam < 3" for beam
    using entry [rule_format, of 0 beam 0 0 0 0] that t(4) by (simp add: Let_def)
  have "beam_parent (demo_ids [3, 4, 2]) 3 0 2 = 0"
    by (simp add: beam_parent_def demo_ids_def sdiv_nonneg)
  moreover have "cache_entry ks' 0 (0, 0, 0, 0, 0) = Inr 11" "cache_entry ks' 0 (0, 2, 0, 0, 0) = Inr 11"
    "cache_entry vs' 0 (0, 1, 0, 0, 0) = Inr 21"
    using at0 [of 0] at0 [of 2] at0 [of 1] by (simp_all add: t e)
  ultimately show ?thesis using xs run by blast
qed

text \<open>
  With parents in ascending order every beam gets the entries of its parent, so the order the
  caller sorts the beams into is what the two passes need.
\<close>

lemma cache_select_ascending:
  assumes "select_ready beam_index ks vs block_table decode_step beam_size layer_num"
    and "\<forall>i j. 0 \<le> i \<and> i \<le> j \<and> j < beam_size \<longrightarrow> 0 \<le> beam_parent beam_index beam_size req i \<and>
      beam_parent beam_index beam_size req i \<le> beam_parent beam_index beam_size req j \<and>
      beam_parent beam_index beam_size req j < beam_size"
    and "0 \<le> beam" "beam < beam_size"
  shows "beam_taken beam_size (beam_parent beam_index beam_size req) beam = beam_parent beam_index beam_size req beam"
  using assms(2-) by (rule beam_taken_ascending)

text \<open>Two beams that change places end up the same: the entries of the first are lost.\<close>

lemma exchanged_beams_lost:
  assumes "old 0 = 1" and "old 1 = 0" and "1 < n"
  shows "beam_taken n old 0 = 1" and "beam_taken n old 1 = 1"
  using assms by (simp_all add: beam_taken_def old_or_same_def)

text \<open>The division rounds towards zero, so a small negative id stands for the first beam.\<close>

lemma negative_id_is_beam_0:
  assumes "- n < x" and "x \<le> 0"
  shows "x sdiv n = (0::int)"
proof (cases "x = 0")
  case False
  then have "\<bar>x\<bar> div n = 0" using assms by (intro div_pos_pos_trivial) simp_all
  then show ?thesis using assms False by (simp add: signed_divide_int_def sgn_if)
qed (simp add: signed_divide_int_def)

end
