(* ===== verification/Beam_Search.thy ===== *)
theory Beam_Search
  imports Beam_Select
begin

text \<open>
  \<^verbatim>\<open>ex_engine/xllm_kernels/cuda/xattention/beam_search.cpp\<close>: one step of beam search, and what it
  gives together with the reordering of the KV caches. The top-k and argsort of torch and the
  addition of log probabilities are parameters.
\<close>

section \<open>The step\<close>

record 'p beam_ops =
  bo_add :: "'p \<Rightarrow> 'p \<Rightarrow> 'p"
  bo_topk :: "'p list \<Rightarrow> int \<Rightarrow> int list"
  bo_argsort :: "int list \<Rightarrow> int list"

text \<open>The tensors the step writes.\<close>

record 'p beam_out =
  bo_acc_logprob :: "'p buffer"
  bo_token_ids :: "int buffer"
  bo_token_index :: "int buffer"
  bo_sequence_group :: "int buffer"

text \<open>\<^verbatim>\<open>view\<close> into rows, and a copy into such a view.\<close>

definition view_rows :: "int \<Rightarrow> int \<Rightarrow> 'a list \<Rightarrow> 'a list list result" where
  "view_rows n w xs =
     (if int (length xs) = n * w then Inr (map (\<lambda>i. take (nat w) (drop (nat (i * w)) xs)) [0..n - 1])
      else Inl (Exn ''shape is invalid for input''))"

definition copy_rows :: "int \<Rightarrow> int \<Rightarrow> 'a list list \<Rightarrow> 'a buffer \<Rightarrow> 'a buffer result" where
  "copy_rows n w rows t =
     (if int (length (bf_data t)) = n * w then Inr (t\<lparr>bf_data := concat rows\<rparr>)
      else Inl (Exn ''shape is invalid for input''))"

text \<open>The best continuations of a request: their log probabilities and their numbers.\<close>

definition pick_row :: "'p beam_ops \<Rightarrow> int \<Rightarrow> bool \<Rightarrow> 'p list \<Rightarrow> 'p list \<times> int list" where
  "pick_row ops beam_size ordered probs =
     (let new_indices = bo_topk ops probs beam_size;
          new_probs = map (\<lambda>i. probs ! nat i) new_indices;
          ordered_indices = bo_argsort ops new_indices in
      if ordered then (map (\<lambda>i. new_probs ! nat i) ordered_indices, map (\<lambda>i. new_indices ! nat i) ordered_indices)
      else (new_probs, new_indices))"

text \<open>The sequences: the tokens of the parent up to the step, and the new token.\<close>

definition extend_group ::
  "int \<Rightarrow> int \<Rightarrow> int \<Rightarrow> int list list \<Rightarrow> int list list \<Rightarrow> int list \<Rightarrow> int list \<Rightarrow> int list" where
  "extend_group beam_size total_rounds current_step parent_beam new_tokens from out =
     map (\<lambda>j. let row = j div total_rounds; r = j mod total_rounds;
            b = nat (row div beam_size); i = nat (row mod beam_size) in
        if r < current_step then from ! nat ((int b * beam_size + parent_beam ! b ! i) * total_rounds + r)
        else if r = current_step then new_tokens ! b ! i else out ! nat j)
      [0..int (length out) - 1]"

definition first_step ::
  "int buffer \<Rightarrow> 'p buffer \<Rightarrow> int \<Rightarrow> int \<Rightarrow> int \<Rightarrow> int \<Rightarrow> 'p beam_out \<Rightarrow> 'p beam_out result" where
  "first_step top_tokens top_logprobs batch_size beam_size top_k total_rounds out =
     rbind (view_rows batch_size top_k (bf_data top_tokens)) (\<lambda>tokens.
     rbind (view_rows batch_size top_k (bf_data top_logprobs)) (\<lambda>probs.
     let tokens_view = map (take (nat beam_size)) tokens;
         init_probs_view = map (take (nat beam_size)) probs in
     rbind (copy_rows batch_size beam_size tokens_view (bo_token_ids out)) (\<lambda>ids.
     rbind (copy_rows batch_size beam_size init_probs_view (bo_acc_logprob out)) (\<lambda>acc.
     rbind (copy_rows batch_size beam_size (map (\<lambda>_. [0..beam_size - 1]) [0..batch_size - 1])
       (bo_token_index out)) (\<lambda>index.
     rbind (view_rows (batch_size * beam_size) total_rounds (bf_data (bo_sequence_group out))) (\<lambda>_.
     Inr (out\<lparr>bo_token_ids := ids, bo_acc_logprob := acc, bo_token_index := index,
       bo_sequence_group := (bo_sequence_group out)\<lparr>bf_data :=
         extend_group beam_size total_rounds 0 [] tokens_view [] (bf_data (bo_sequence_group out))\<rparr>\<rparr>)))))))"

definition next_step ::
  "'p beam_ops \<Rightarrow> 'p buffer \<Rightarrow> int buffer \<Rightarrow> int buffer \<Rightarrow> 'p buffer \<Rightarrow> int \<Rightarrow> int \<Rightarrow> int \<Rightarrow> int \<Rightarrow> int \<Rightarrow>
   'p beam_out \<Rightarrow> 'p beam_out result" where
  "next_step ops acc_logprob in_sequence_group top_tokens top_logprobs batch_size beam_size top_k total_rounds
     current_step out =
     rbind (view_rows batch_size (beam_size * top_k)
       (map (\<lambda>j. bo_add ops (bf_data acc_logprob ! nat (j div top_k)) (bf_data top_logprobs ! nat j))
         [0..int (length (bf_data top_logprobs)) - 1])) (\<lambda>combined_probs.
     let ordered = current_step < uint32 (total_rounds - 1);
         picks = map (pick_row ops beam_size ordered) combined_probs;
         new_probs = map fst picks; new_indices = map snd picks;
         parent_beam = map (map (\<lambda>i. i div top_k)) new_indices;
         token_in_beam = map (map (\<lambda>i. i mod top_k)) new_indices in
     rbind (view_rows batch_size (beam_size * top_k) (bf_data top_tokens)) (\<lambda>tokens.
     let new_tokens = map (\<lambda>(row, ps, ts). map2 (\<lambda>p t. row ! nat (p * top_k + t)) ps ts)
           (zip tokens (zip parent_beam token_in_beam)) in
     rbind (copy_rows batch_size beam_size new_probs (bo_acc_logprob out)) (\<lambda>acc.
     rbind (copy_rows batch_size beam_size (map (map int32) new_indices) (bo_token_index out)) (\<lambda>index.
     rbind (copy_rows batch_size beam_size new_tokens (bo_token_ids out)) (\<lambda>ids.
     Inr (out\<lparr>bo_acc_logprob := acc, bo_token_index := index, bo_token_ids := ids,
       bo_sequence_group := (bo_sequence_group out)\<lparr>bf_data :=
         extend_group beam_size total_rounds current_step parent_beam new_tokens
           (bf_data in_sequence_group) (bf_data (bo_sequence_group out))\<rparr>\<rparr>))))))"

text \<open>
  \<^verbatim>\<open>new_indices / top_k\<close> divides as floats and truncates, which is the integer quotient below
  \<open>2 ^ 24\<close>. The sequence groups have the sizes of the batch, the beams and the rounds.
\<close>

definition beam_search ::
  "'p beam_ops \<Rightarrow> 'p buffer \<Rightarrow> int buffer \<Rightarrow> int buffer \<Rightarrow> 'p buffer \<Rightarrow> 'p beam_out \<Rightarrow> int \<Rightarrow> int \<Rightarrow>
   'p beam_out result" where
  "beam_search ops acc_logprob in_sequence_group top_tokens top_logprobs out batch_size current_step =
     rbind (bf_size in_sequence_group 1) (\<lambda>beam. let beam_size = uint32 beam in
     rbind (bf_size top_tokens 1) (\<lambda>k. let top_k = uint32 k in
     rbind (bf_size in_sequence_group 2) (\<lambda>rounds. let total_rounds = uint32 rounds in
     rbind (check (beam_size = top_k) ''beam_size must be equal with top_k.'') (\<lambda>_.
     if current_step = 0 then first_step top_tokens top_logprobs batch_size beam_size top_k total_rounds out
     else next_step ops acc_logprob in_sequence_group top_tokens top_logprobs batch_size beam_size top_k total_rounds
       current_step out))))"


section \<open>Rows\<close>

lemma concat_rows_nth:
  assumes "\<forall>row \<in> set rows. length row = n" and "i < length rows" and "j < n"
  shows "concat rows ! (i * n + j) = rows ! i ! j"
  using assms
proof (induction rows arbitrary: i)
  case (Cons row rows)
  then show ?case by (cases i) (auto simp: nth_append)
qed simp

lemma view_rows_eq:
  assumes "view_rows n w xs = Inr rows" and "0 \<le> n" "0 \<le> w"
  shows "length rows = nat n" and "\<forall>row \<in> set rows. length row = nat w"
proof -
  have len: "int (length xs) = n * w" and rows: "rows = map (\<lambda>i. take (nat w) (drop (nat (i * w)) xs)) [0..n - 1]"
    using assms(1) by (auto simp: view_rows_def split: if_splits)
  show "length rows = nat n" by (simp add: rows)
  have "length (take (nat w) (drop (nat (i * w)) xs)) = nat w" if "0 \<le> i" "i < n" for i
  proof -
    have "i * w + w \<le> n * w" using mult_right_mono [of "i + 1" n w] that assms(3) by (simp add: algebra_simps)
    moreover have "0 \<le> i * w" using that assms(3) by simp
    ultimately show ?thesis using len assms(3) by simp
  qed
  then show "\<forall>row \<in> set rows. length row = nat w" by (auto simp: rows)
qed

lemma copy_rows_eq: "copy_rows n w rows t = Inr t' \<longleftrightarrow> int (length (bf_data t)) = n * w \<and> t' = t\<lparr>bf_data := concat rows\<rparr>"
  by (auto simp: copy_rows_def)

lemma length_extend_group: "length (extend_group n rounds step parents tokens from out) = length out"
  by (simp add: extend_group_def)

lemma extend_group_nth:
  assumes "0 \<le> r" "r < rounds" "0 \<le> i" "i < n" "0 \<le> b" and "(b * n + i) * rounds + r < int (length out)"
  shows "extend_group n rounds step parents tokens from out ! nat ((b * n + i) * rounds + r) =
    (if r < step then from ! nat ((b * n + parents ! nat b ! nat i) * rounds + r)
     else if r = step then tokens ! nat b ! nat i else out ! nat ((b * n + i) * rounds + r))"
proof -
  have h: "0 \<le> (b * n + i) * rounds + r" using assms by simp
  show ?thesis
    unfolding extend_group_def nth_map_upto0 [OF h assms(6)] digit_div_mod [OF assms(1,2)] digit_div_mod [OF assms(3,4)] Let_def
    using assms(5) by simp
qed

section \<open>What the parameters promise\<close>

text \<open>
  Top-k gives distinct indices such that nothing left out is larger, argsort an ordering
  permutation.
\<close>

definition beam_ops_ok :: "'p::linorder beam_ops \<Rightarrow> bool" where
  "beam_ops_ok ops \<longleftrightarrow>
     (\<forall>xs n. 0 \<le> n \<and> n \<le> int (length xs) \<longrightarrow>
        (let top = bo_topk ops xs n in int (length top) = n \<and> distinct top \<and> set top \<subseteq> {0..<int (length xs)} \<and>
          (\<forall>i \<in> set top. \<forall>j \<in> {0..<int (length xs)} - set top. xs ! nat j \<le> xs ! nat i))) \<and>
     (\<forall>xs. distinct (bo_argsort ops xs) \<and> set (bo_argsort ops xs) = {0..<int (length xs)} \<and>
        sorted (map (\<lambda>i. xs ! nat i) (bo_argsort ops xs)))"

lemma pick_row_ordered:
  assumes "beam_ops_ok ops" and "0 \<le> n" "n \<le> int (length probs)"
  shows "length (snd (pick_row ops n True probs)) = nat n"
    and "sorted (snd (pick_row ops n True probs))"
    and "set (snd (pick_row ops n True probs)) = set (bo_topk ops probs n)"
    and "set (snd (pick_row ops n True probs)) \<subseteq> {0..<int (length probs)}"
proof -
  let ?top = "bo_topk ops probs n"
  let ?ord = "bo_argsort ops ?top"
  have top: "int (length ?top) = n" "set ?top \<subseteq> {0..<int (length probs)}"
    using assms by (auto simp: beam_ops_ok_def Let_def)
  have ord: "distinct ?ord" "set ?ord = {0..<int (length ?top)}" "sorted (map (\<lambda>i. ?top ! nat i) ?ord)"
    using assms(1) by (simp_all add: beam_ops_ok_def)
  have idx: "snd (pick_row ops n True probs) = map (\<lambda>i. ?top ! nat i) ?ord"
    by (simp add: pick_row_def Let_def)
  have "length ?ord = card (set ?ord)" using ord(1) by (simp add: distinct_card)
  then show "length (snd (pick_row ops n True probs)) = nat n" using top(1) by (simp add: idx ord(2))
  show "sorted (snd (pick_row ops n True probs))" using ord(3) by (simp add: idx)
  have "(\<lambda>i. ?top ! nat i) ` {0..<int (length ?top)} = set ?top"
  proof
    show "(\<lambda>i. ?top ! nat i) ` {0..<int (length ?top)} \<subseteq> set ?top" by auto
    show "set ?top \<subseteq> (\<lambda>i. ?top ! nat i) ` {0..<int (length ?top)}"
    proof
      fix x assume "x \<in> set ?top"
      then obtain i where "i < length ?top" "?top ! i = x" by (auto simp: in_set_conv_nth)
      then show "x \<in> (\<lambda>i. ?top ! nat i) ` {0..<int (length ?top)}" by (intro image_eqI [of _ _ "int i"]) simp_all
    qed
  qed
  then show e: "set (snd (pick_row ops n True probs)) = set ?top" by (simp add: idx ord(2))
  show "set (snd (pick_row ops n True probs)) \<subseteq> {0..<int (length probs)}" using top(2) e by simp
qed

text \<open>The tensors of a step of a batch, whose continuations a float can number.\<close>

definition beam_shapes ::
  "'p buffer \<Rightarrow> int buffer \<Rightarrow> int buffer \<Rightarrow> 'p buffer \<Rightarrow> 'p beam_out \<Rightarrow> int \<Rightarrow> int \<Rightarrow> int \<Rightarrow> bool" where
  "beam_shapes acc from tokens probs out batch n rounds \<longleftrightarrow>
     0 < batch \<and> 0 < n \<and> 0 < rounds \<and> n * n < 2 ^ 24 \<and> rounds < 2 ^ 31 \<and>
     bf_sizes from = [batch, n, rounds] \<and> int (length (bf_data from)) = batch * n * rounds \<and>
     bf_sizes tokens = [batch * n, n] \<and> int (length (bf_data tokens)) = batch * (n * n) \<and>
     int (length (bf_data probs)) = batch * (n * n) \<and> int (length (bf_data acc)) = batch * n \<and>
     int (length (bf_data (bo_acc_logprob out))) = batch * n \<and> int (length (bf_data (bo_token_ids out))) = batch * n \<and>
     int (length (bf_data (bo_token_index out))) = batch * n \<and>
     int (length (bf_data (bo_sequence_group out))) = batch * n * rounds"


text \<open>
  The best continuations of a request, by their numbers: distinct, and none left out is better.
\<close>

definition picks_best :: "(int \<Rightarrow> 'p::linorder) \<Rightarrow> int \<Rightarrow> int \<Rightarrow> int list \<Rightarrow> bool" where
  "picks_best score n m picks \<longleftrightarrow> length picks = nat n \<and> distinct picks \<and> set picks \<subseteq> {0..<m} \<and>
     (\<forall>i \<in> set picks. \<forall>j \<in> {0..<m} - set picks. score j \<le> score i)"

lemma picks_best_cong:
  assumes "\<And>x. 0 \<le> x \<Longrightarrow> x < m \<Longrightarrow> f x = g x"
  shows "picks_best f n m picks \<longleftrightarrow> picks_best g n m picks"
  using assms unfolding picks_best_def by (auto simp: subset_iff)

lemma pick_row_best:
  fixes ops :: "'p::linorder beam_ops" and ordered :: bool
  assumes ops: "beam_ops_ok ops" and n: "0 \<le> n" "n \<le> int (length probs)"
  defines "picks \<equiv> snd (pick_row ops n ordered probs)"
  shows "picks_best (\<lambda>i. probs ! nat i) n (int (length probs)) picks"
    and "fst (pick_row ops n ordered probs) = map (\<lambda>i. probs ! nat i) picks"
proof -
  let ?top = "bo_topk ops probs n"
  have top: "int (length ?top) = n" "distinct ?top" "set ?top \<subseteq> {0..<int (length probs)}"
    "\<forall>i \<in> set ?top. \<forall>j \<in> {0..<int (length probs)} - set ?top. probs ! nat j \<le> probs ! nat i"
    using assms(1-3) by (auto simp: beam_ops_ok_def Let_def)
  show "picks_best (\<lambda>i. probs ! nat i) n (int (length probs)) picks"
  proof (cases ordered)
    case True
    note o = pick_row_ordered [OF ops n]
    have "distinct picks"
      by (rule card_distinct) (use o(1,3) top(1,2) True in \<open>simp add: picks_def distinct_card\<close>)
    then show ?thesis using o top(3,4) True by (simp add: picks_best_def picks_def)
  next
    case False
    then show ?thesis using top by (simp add: picks_best_def picks_def pick_row_def Let_def)
  qed
  have "set (bo_argsort ops ?top) = {0..<int (length ?top)}" using ops by (simp add: beam_ops_ok_def)
  then show "fst (pick_row ops n ordered probs) = map (\<lambda>i. probs ! nat i) picks"
    by (simp add: picks_def pick_row_def Let_def comp_def nat_less_iff)
qed

lemma view_rows_nth:
  assumes "view_rows n w xs = Inr rows" and "0 \<le> b" "b < n" "0 \<le> x" "x < w"
  shows "rows ! nat b ! nat x = xs ! nat (b * w + x)"
proof -
  have len: "int (length xs) = n * w" and rows: "rows = map (\<lambda>i. take (nat w) (drop (nat (i * w)) xs)) [0..n - 1]"
    using assms(1) by (auto simp: view_rows_def split: if_splits)
  have "rows ! nat b = take (nat w) (drop (nat (b * w)) xs)"
    unfolding rows by (rule nth_map_upto0 [OF assms(2,3)])
  moreover have "b * w \<le> n * w" "0 \<le> b * w" using assms by (simp_all add: mult_right_mono)
  then have "nat (b * w) \<le> length xs" using len by linarith
  ultimately show ?thesis using assms \<open>0 \<le> b * w\<close> by (simp add: nat_add_distrib)
qed

section \<open>A later step\<close>

definition beam_sum :: "'p beam_ops \<Rightarrow> 'p list \<Rightarrow> 'p list \<Rightarrow> int \<Rightarrow> int \<Rightarrow> int \<Rightarrow> 'p" where
  "beam_sum ops acc probs n b x = bo_add ops (acc ! nat (b * n + x div n)) (probs ! nat (b * (n * n) + x))"

lemma beam_shapes_conversions:
  assumes "beam_shapes acc from tokens probs out batch n rounds"
  shows "uint32 n = n" "uint32 rounds = rounds" "uint32 (rounds - 1) = rounds - 1"
    and "bf_size from 1 = Inr n" "bf_size from 2 = Inr rounds" "bf_size tokens 1 = Inr n" and "n \<le> n * n"
proof -
  have n: "0 < n" "n * n < 2 ^ 24" "0 < rounds" "rounds < 2 ^ 31" using assms by (simp_all add: beam_shapes_def)
  then show "n \<le> n * n" using mult_left_mono [of 1 n n] by simp
  then have "n < 2 ^ 24" using n(2) by simp
  then show "uint32 n = n" "uint32 rounds = rounds" "uint32 (rounds - 1) = rounds - 1"
    using n by (simp_all add: uint32_def take_bit_int_eq_self)
  show "bf_size from 1 = Inr n" "bf_size from 2 = Inr rounds" "bf_size tokens 1 = Inr n"
    using assms by (simp_all add: beam_shapes_def bf_size_def)
qed

lemma beam_search_later:
  fixes ops :: "'p::linorder beam_ops"
  assumes ops: "beam_ops_ok ops" and sh: "beam_shapes acc from tokens probs out batch n rounds"
    and step: "0 < step"
  shows "\<exists>idx toks. length idx = nat batch \<and> length toks = nat batch \<and>
    (\<forall>b. 0 \<le> b \<and> b < batch \<longrightarrow> picks_best (beam_sum ops (bf_data acc) (bf_data probs) n b) n (n * n) (idx ! nat b) \<and>
       (step < rounds - 1 \<longrightarrow> sorted (idx ! nat b)) \<and> toks ! nat b = map (\<lambda>x. bf_data tokens ! nat (b * (n * n) + x)) (idx ! nat b)) \<and>
    beam_search ops acc from tokens probs out batch step = Inr (out\<lparr>
      bo_acc_logprob := (bo_acc_logprob out)\<lparr>bf_data :=
        concat (map (\<lambda>b. map (beam_sum ops (bf_data acc) (bf_data probs) n b) (idx ! nat b)) [0..batch - 1])\<rparr>,
      bo_token_ids := (bo_token_ids out)\<lparr>bf_data := concat toks\<rparr>,
      bo_token_index := (bo_token_index out)\<lparr>bf_data := concat (map (map int32) idx)\<rparr>,
      bo_sequence_group := (bo_sequence_group out)\<lparr>bf_data := extend_group n rounds step (map (map (\<lambda>i. i div n)) idx) toks
        (bf_data from) (bf_data (bo_sequence_group out))\<rparr>\<rparr>)"
proof -
  have n: "0 < n" "0 < batch" and len: "int (length (bf_data probs)) = batch * (n * n)" "int (length (bf_data tokens)) = batch * (n * n)"
    using sh by (simp_all add: beam_shapes_def)
  note u = beam_shapes_conversions [OF sh]
  let ?sums = "map (\<lambda>j. bo_add ops (bf_data acc ! nat (j div n)) (bf_data probs ! nat j)) [0..int (length (bf_data probs)) - 1]"
  let ?sum = "beam_sum ops (bf_data acc) (bf_data probs) n"
  obtain combined where c: "view_rows batch (n * n) ?sums = Inr combined" using len by (simp add: view_rows_def)
  obtain rows where t: "view_rows batch (n * n) (bf_data tokens) = Inr rows" using len by (simp add: view_rows_def)
  have row: "length (combined ! nat b) = nat (n * n)" "length (rows ! nat b) = nat (n * n)" if "0 \<le> b" "b < batch" for b
    using view_rows_eq [OF c] view_rows_eq [OF t] n that by simp_all
  have sum: "combined ! nat b ! nat x = ?sum b x" if b: "0 \<le> b" "b < batch" and x: "0 \<le> x" "x < n * n" for b x
  proof -
    have "0 \<le> b * (n * n) + x" "b * (n * n) + x < batch * (n * n)" using digit_bounds [OF b x] by simp_all
    moreover have "(b * (n * n) + x) div n = b * n + x div n"
      using n(1) by (simp add: mult.assoc [symmetric] div_plus_div_distrib_dvd_left)
    ultimately show ?thesis
      unfolding view_rows_nth [OF c b x] beam_sum_def len(1) by (subst nth_map_upto0) simp_all
  qed
  let ?ord = "step < uint32 (rounds - 1)"
  define idx where "idx = map (\<lambda>row. snd (pick_row ops n ?ord row)) combined"
  define toks where "toks = map (\<lambda>(row, ps, ts). map2 (\<lambda>p t. row ! nat (p * n + t)) ps ts)
    (zip rows (zip (map (map (\<lambda>i. i div n)) idx) (map (map (\<lambda>i. i mod n)) idx)))"
  have lens: "length combined = nat batch" "length rows = nat batch" "length idx = nat batch" "length toks = nat batch"
    using view_rows_eq(1) [OF c] view_rows_eq(1) [OF t] n by (simp_all add: idx_def toks_def)
  have at: "idx ! nat b = snd (pick_row ops n ?ord (combined ! nat b))" if "0 \<le> b" "b < batch" for b
    using that lens by (simp add: idx_def)
  have best: "picks_best (?sum b) n (n * n) (idx ! nat b)" if b: "0 \<le> b" "b < batch" for b
  proof -
    have "picks_best (\<lambda>i. combined ! nat b ! nat i) n (n * n) (idx ! nat b)"
      using pick_row_best(1) [OF ops, of n "combined ! nat b" ?ord] row(1) [OF b] u(7) n by (simp add: at [OF b])
    then show ?thesis using picks_best_cong [of "n * n" "\<lambda>i. combined ! nat b ! nat i" "?sum b"] sum [OF b] by simp
  qed
  have sorted: "sorted (idx ! nat b)" if b: "0 \<le> b" "b < batch" and "step < rounds - 1" for b
    using pick_row_ordered(2) [OF ops, of n "combined ! nat b"] row(1) [OF b] u(3,7) n that(3) by (simp add: at [OF b])
  have tok: "toks ! nat b = map (\<lambda>x. bf_data tokens ! nat (b * (n * n) + x)) (idx ! nat b)" if b: "0 \<le> b" "b < batch" for b
  proof -
    have "toks ! nat b = map (\<lambda>x. rows ! nat b ! nat x) (idx ! nat b)"
      using b lens by (simp add: toks_def zip_map_map zip_same_conv_map comp_def)
    also have "\<dots> = map (\<lambda>x. bf_data tokens ! nat (b * (n * n) + x)) (idx ! nat b)"
      using best [OF b] by (intro map_cong refl view_rows_nth [OF t b]) (auto simp: picks_best_def)
    finally show ?thesis .
  qed
  have probs: "map fst (map (pick_row ops n ?ord) combined) = map (\<lambda>b. map (?sum b) (idx ! nat b)) [0..batch - 1]"
  proof (rule nth_equalityI)
    show "length (map fst (map (pick_row ops n ?ord) combined)) = length (map (\<lambda>b. map (?sum b) (idx ! nat b)) [0..batch - 1])"
      using lens by simp
    fix i assume "i < length (map fst (map (pick_row ops n ?ord) combined))"
    then have i: "i < nat batch" "0 \<le> int i" "int i < batch" using lens by simp_all
    have "fst (pick_row ops n ?ord (combined ! i)) = map (\<lambda>x. combined ! i ! nat x) (idx ! i)"
      using pick_row_best(2) [OF ops, of n "combined ! i" ?ord] row(1) [OF i(2,3)] u(7) n at [OF i(2,3)] by simp
    also have "\<dots> = map (?sum (int i)) (idx ! i)"
      using best [OF i(2,3)] sum [OF i(2,3)] by (intro map_cong refl) (auto simp: picks_best_def)
    finally show "map fst (map (pick_row ops n ?ord) combined) ! i = map (\<lambda>b. map (?sum b) (idx ! nat b)) [0..batch - 1] ! i"
      using i lens by (simp add: nth_upto)
  qed
  have room: "int (length (bf_data (bo_acc_logprob out))) = batch * n" "int (length (bf_data (bo_token_ids out))) = batch * n"
    "int (length (bf_data (bo_token_index out))) = batch * n" using sh by (simp_all add: beam_shapes_def)
  have idx': "map snd (map (pick_row ops n ?ord) combined) = idx" by (simp add: idx_def)
  have "beam_search ops acc from tokens probs out batch step = next_step ops acc from tokens probs batch n n rounds step out"
    unfolding beam_search_def u(1,2,4-6) rbind_Inr Let_def using step by simp
  also have "\<dots> = Inr (out\<lparr>
      bo_acc_logprob := (bo_acc_logprob out)\<lparr>bf_data := concat (map (\<lambda>b. map (?sum b) (idx ! nat b)) [0..batch - 1])\<rparr>,
      bo_token_ids := (bo_token_ids out)\<lparr>bf_data := concat toks\<rparr>,
      bo_token_index := (bo_token_index out)\<lparr>bf_data := concat (map (map int32) idx)\<rparr>,
      bo_sequence_group := (bo_sequence_group out)\<lparr>bf_data := extend_group n rounds step (map (map (\<lambda>i. i div n)) idx) toks
        (bf_data from) (bf_data (bo_sequence_group out))\<rparr>\<rparr>)"
    unfolding next_step_def Let_def c rbind_Inr idx' t toks_def [symmetric] probs by (simp add: copy_rows_def room)
  finally show ?thesis using lens(3,4) best sorted tok by (intro exI [of _ idx] exI [of _ toks]) simp
qed

lemma beam_search_next:
  fixes ops :: "'p::linorder beam_ops"
  assumes "beam_ops_ok ops" and sh: "beam_shapes acc from tokens probs out batch n rounds"
    and step: "0 < step" "step < rounds - 1"
  shows "\<exists>out' idx toks. beam_search ops acc from tokens probs out batch step = Inr out' \<and> length idx = nat batch \<and>
    (\<forall>is \<in> set idx. length is = nat n \<and> sorted is \<and> set is \<subseteq> {0..<n * n}) \<and>
    bf_data (bo_token_index out') = concat (map (map int32) idx) \<and>
    bf_data (bo_sequence_group out') = extend_group n rounds step (map (map (\<lambda>i. i div n)) idx) toks
      (bf_data from) (bf_data (bo_sequence_group out))"
proof -
  obtain idx toks where len: "length idx = nat batch"
    and rows: "\<forall>b. 0 \<le> b \<and> b < batch \<longrightarrow> picks_best (beam_sum ops (bf_data acc) (bf_data probs) n b) n (n * n) (idx ! nat b) \<and>
       (step < rounds - 1 \<longrightarrow> sorted (idx ! nat b)) \<and> toks ! nat b = map (\<lambda>x. bf_data tokens ! nat (b * (n * n) + x)) (idx ! nat b)"
    and run: "beam_search ops acc from tokens probs out batch step = Inr (out\<lparr>
      bo_acc_logprob := (bo_acc_logprob out)\<lparr>bf_data :=
        concat (map (\<lambda>b. map (beam_sum ops (bf_data acc) (bf_data probs) n b) (idx ! nat b)) [0..batch - 1])\<rparr>,
      bo_token_ids := (bo_token_ids out)\<lparr>bf_data := concat toks\<rparr>,
      bo_token_index := (bo_token_index out)\<lparr>bf_data := concat (map (map int32) idx)\<rparr>,
      bo_sequence_group := (bo_sequence_group out)\<lparr>bf_data := extend_group n rounds step (map (map (\<lambda>i. i div n)) idx) toks
        (bf_data from) (bf_data (bo_sequence_group out))\<rparr>\<rparr>)"
    using beam_search_later [OF assms(1-3)] by (elim exE conjE) (rule that)
  have "length is = nat n \<and> sorted is \<and> set is \<subseteq> {0..<n * n}" if mem: "is \<in> set idx" for "is"
  proof -
    obtain i where "i < nat batch" "is = idx ! i" using mem len by (auto simp: in_set_conv_nth)
    then show ?thesis using rows [rule_format, of "int i"] step(2) by (simp add: picks_best_def)
  qed
  then show ?thesis using run len by auto
qed

section \<open>The first step\<close>

lemma concat_take_drop: "concat (map (\<lambda>i. take w (drop (i * w) xs)) [0..<n]) = take (n * w) xs"
proof (induction n)
  case (Suc n)
  have "take (n * w + w) xs = take (n * w) xs @ take w (drop (n * w) xs)" by (rule take_add)
  then show ?case using Suc by (simp add: add.commute [of w])
qed simp

lemma concat_view_rows:
  assumes "view_rows n w xs = Inr rows" and "0 \<le> n" "0 \<le> w"
  shows "concat rows = xs"
proof -
  have len: "int (length xs) = n * w" and rows: "rows = map (\<lambda>i. take (nat w) (drop (nat (i * w)) xs)) [0..n - 1]"
    using assms(1) by (auto simp: view_rows_def split: if_splits)
  have "rows = map (\<lambda>i. take (nat w) (drop (i * nat w) xs)) [0..<nat n]"
    using assms(3) by (simp add: rows upto_upt comp_def nat_mult_distrib)
  then have "concat rows = take (nat n * nat w) xs" by (simp add: concat_take_drop)
  moreover have "int (length xs) = int (nat n * nat w)" using len assms(2,3) by simp
  ultimately show ?thesis by (simp only: of_nat_eq_iff take_all_iff order_refl)
qed

lemma beam_search_first:
  assumes n: "0 < n" "n < 2 ^ 24" "0 < batch" "0 < rounds" "rounds < 2 ^ 31"
    and sizes: "bf_sizes from = [batch, n, rounds]" "bf_sizes tokens = [batch, n]"
    and len: "int (length (bf_data tokens)) = batch * n" "int (length (bf_data probs)) = batch * n"
      "int (length (bf_data (bo_acc_logprob out))) = batch * n" "int (length (bf_data (bo_token_ids out))) = batch * n"
      "int (length (bf_data (bo_token_index out))) = batch * n"
      "int (length (bf_data (bo_sequence_group out))) = batch * n * rounds"
  shows "\<exists>rows. (\<forall>b i. 0 \<le> b \<and> b < batch \<and> 0 \<le> i \<and> i < n \<longrightarrow> rows ! nat b ! nat i = bf_data tokens ! nat (b * n + i)) \<and>
    beam_search ops acc from tokens probs out batch 0 = Inr (out\<lparr>
      bo_token_ids := (bo_token_ids out)\<lparr>bf_data := bf_data tokens\<rparr>,
      bo_acc_logprob := (bo_acc_logprob out)\<lparr>bf_data := bf_data probs\<rparr>,
      bo_token_index := (bo_token_index out)\<lparr>bf_data := concat (map (\<lambda>_. [0..n - 1]) [0..batch - 1])\<rparr>,
      bo_sequence_group := (bo_sequence_group out)\<lparr>bf_data :=
        extend_group n rounds 0 [] rows [] (bf_data (bo_sequence_group out))\<rparr>\<rparr>)"
proof -
  obtain rows where t: "view_rows batch n (bf_data tokens) = Inr rows" using len(1) by (simp add: view_rows_def)
  obtain ps where p: "view_rows batch n (bf_data probs) = Inr ps" using len(2) by (simp add: view_rows_def)
  have u: "uint32 n = n" "uint32 rounds = rounds" using n by (simp_all add: uint32_def take_bit_int_eq_self)
  have s: "bf_size from 1 = Inr n" "bf_size tokens 1 = Inr n" "bf_size from 2 = Inr rounds" using sizes by (simp_all add: bf_size_def)
  have "map (take (nat n)) rows = map id rows" "map (take (nat n)) ps = map id ps"
    using view_rows_eq(2) [OF t] view_rows_eq(2) [OF p] n by (intro map_cong; simp)+
  then have whole: "map (take (nat n)) rows = rows" "map (take (nat n)) ps = ps" by simp_all
  have group: "\<exists>v. view_rows (batch * n) rounds (bf_data (bo_sequence_group out)) = Inr v" using len(6) by (simp add: view_rows_def)
  have concat: "concat rows = bf_data tokens" "concat ps = bf_data probs"
    using concat_view_rows [OF t] concat_view_rows [OF p] n by simp_all
  have "beam_search ops acc from tokens probs out batch 0 = first_step tokens probs batch n n rounds out"
    unfolding beam_search_def s rbind_Inr Let_def u by simp
  also have "\<dots> = Inr (out\<lparr>
      bo_token_ids := (bo_token_ids out)\<lparr>bf_data := bf_data tokens\<rparr>,
      bo_acc_logprob := (bo_acc_logprob out)\<lparr>bf_data := bf_data probs\<rparr>,
      bo_token_index := (bo_token_index out)\<lparr>bf_data := concat (map (\<lambda>_. [0..n - 1]) [0..batch - 1])\<rparr>,
      bo_sequence_group := (bo_sequence_group out)\<lparr>bf_data :=
        extend_group n rounds 0 [] rows [] (bf_data (bo_sequence_group out))\<rparr>\<rparr>)"
    using group unfolding first_step_def t p rbind_Inr Let_def whole by (auto simp: copy_rows_def len concat)
  finally show ?thesis using view_rows_nth [OF t] by (intro exI [of _ rows]) simp
qed

text \<open>The token index of a beam, read as \<^verbatim>\<open>cache_select\<close> reads it, is its parent.\<close>

lemma token_index_parent:
  assumes "\<forall>is \<in> set idx. length is = nat n \<and> sorted is \<and> set is \<subseteq> {0..<n * n}"
    and "0 < n" "n * n < 2 ^ 24" and "bf_data t = concat (map (map int32) idx)"
    and "0 \<le> req" "req < int (length idx)" and "0 \<le> beam" "beam < n"
  shows "beam_parent t n req beam = idx ! nat req ! nat beam div n"
proof -
  have row: "idx ! nat req \<in> set idx" using assms(5,6) by simp
  then have len: "length (idx ! nat req) = nat n" "set (idx ! nat req) \<subseteq> {0..<n * n}" using assms(1) by auto
  have "nat (req * n + beam) = nat req * nat n + nat beam"
    using assms by (simp add: nat_add_distrib nat_mult_distrib)
  then have "bf_data t ! nat (req * n + beam) = map int32 (idx ! nat req) ! nat beam"
    using assms concat_rows_nth [of "map (map int32) idx" "nat n" "nat req" "nat beam"] by auto
  also have "\<dots> = int32 (idx ! nat req ! nat beam)" using len assms(7,8) by simp
  also have "\<dots> = idx ! nat req ! nat beam"
  proof -
    have "idx ! nat req ! nat beam \<in> set (idx ! nat req)" using len assms(7,8) by simp
    then show ?thesis using len(2) assms(3) by (intro int32_id) auto
  qed
  finally have x: "bf_data t ! nat (req * n + beam) = idx ! nat req ! nat beam" .
  have "idx ! nat req ! nat beam \<in> set (idx ! nat req)" using len assms(7,8) by simp
  then show ?thesis using len(2) assms(2) by (auto simp: beam_parent_def x sdiv_nonneg)
qed

lemma div_less_of_less_mult:
  assumes "0 < n" and "x < n * n"
  shows "x div n < (n::int)"
proof (rule ccontr)
  assume "\<not> x div n < n"
  then have "n * n \<le> x div n * n" using assms(1) by simp
  also have "\<dots> \<le> x" using assms(1) by (simp flip: minus_mod_eq_div_mult)
  finally show False using assms(2) by simp
qed

lemma token_index_ascending:
  assumes "\<forall>is \<in> set idx. length is = nat n \<and> sorted is \<and> set is \<subseteq> {0..<n * n}"
    and "0 < n" "n * n < 2 ^ 24" and "bf_data t = concat (map (map int32) idx)"
    and "0 \<le> req" "req < int (length idx)"
  shows "\<forall>i j. 0 \<le> i \<and> i \<le> j \<and> j < n \<longrightarrow>
    0 \<le> beam_parent t n req i \<and> beam_parent t n req i \<le> beam_parent t n req j \<and> beam_parent t n req j < n"
proof (intro allI impI)
  fix i j assume ij: "0 \<le> i \<and> i \<le> j \<and> j < n"
  let ?is = "idx ! nat req"
  have "?is \<in> set idx" using assms(5,6) by simp
  then have r: "length ?is = nat n" "sorted ?is" "set ?is \<subseteq> {0..<n * n}" using assms(1) by auto
  have m: "?is ! nat i \<in> set ?is" "?is ! nat j \<in> set ?is" using r(1) ij by simp_all
  have "?is ! nat i \<le> ?is ! nat j" using r(1,2) ij by (intro sorted_nth_mono) (auto intro: nat_mono)
  moreover have "0 \<le> ?is ! nat i" "?is ! nat j < n * n" using m r(3) by auto
  moreover have "beam_parent t n req i = ?is ! nat i div n" "beam_parent t n req j = ?is ! nat j div n"
    using ij by (intro token_index_parent assms; simp)+
  moreover have "?is ! nat j div n < n" using m(2) r(3) assms(2) by (intro div_less_of_less_mult) auto
  ultimately show "0 \<le> beam_parent t n req i \<and> beam_parent t n req i \<le> beam_parent t n req j \<and> beam_parent t n req j < n"
    using assms(2) by (simp add: zdiv_mono1 pos_imp_zdiv_nonneg_iff)
qed


text \<open>
  A later step that is not the last, followed by the reordering of the caches: for every beam
  of a request there is a beam it continues, whose tokens so far are the first tokens of its
  sequence and whose keys and values, up to the decode step, are in its place in the caches of
  all layers, whatever the order in which the threads copied them.
\<close>

theorem beam_search_moves_caches:
  fixes ops :: "'p::linorder beam_ops"
  assumes "beam_ops_ok ops" and "beam_shapes acc from tokens probs out batch n rounds"
    and "0 < step" "step < rounds - 1"
    and "beam_search ops acc from tokens probs out batch step = Inr out'"
    and "select_ready (bo_token_index out') ks vs block_table decode_step n layer_num"
    and "select_copies (bo_token_index out') ks block_table decode_step n layer_num xs"
  shows "\<exists>ks' vs'. cache_select xs (bo_token_index out') ks vs block_table decode_step n layer_num = Inr (ks', vs') \<and>
    (\<forall>req beam. 0 \<le> req \<and> req < batch \<and> 0 \<le> beam \<and> beam < n \<longrightarrow> (\<exists>parent. 0 \<le> parent \<and> parent < n \<and>
       (\<forall>r. 0 \<le> r \<and> r < step \<longrightarrow> bf_data (bo_sequence_group out') ! nat ((req * n + beam) * rounds + r) =
          bf_data from ! nat ((req * n + parent) * rounds + r)) \<and>
       (\<forall>layer < nat layer_num. \<forall>s kv d. s \<le> decode_step \<longrightarrow>
          cache_entry ks' layer (req, beam, s, kv, d) = cache_entry ks layer (req, parent, s, kv, d) \<and>
          cache_entry vs' layer (req, beam, s, kv, d) = cache_entry vs layer (req, parent, s, kv, d))))"
proof -
  have n: "0 < n" "n * n < 2 ^ 24" "0 < batch" "0 < rounds"
    and group: "int (length (bf_data (bo_sequence_group out))) = batch * n * rounds"
    using assms(2) by (simp_all add: beam_shapes_def)
  obtain idx toks where idx: "length idx = nat batch"
      "\<forall>is \<in> set idx. length is = nat n \<and> sorted is \<and> set is \<subseteq> {0..<n * n}"
    and data: "bf_data (bo_token_index out') = concat (map (map int32) idx)"
    and seqs: "bf_data (bo_sequence_group out') = extend_group n rounds step (map (map (\<lambda>i. i div n)) idx) toks
      (bf_data from) (bf_data (bo_sequence_group out))"
    using beam_search_next [OF assms(1-4)] assms(5) by auto
  obtain ks' vs' where run: "cache_select xs (bo_token_index out') ks vs block_table decode_step n layer_num = Inr (ks', vs')"
    and entries: "\<forall>layer < nat layer_num. \<forall>req beam s kv d. 0 \<le> beam \<and> beam < n \<longrightarrow>
       (let from = if req < bf_sizes block_table ! 0 sdiv n \<and> s \<le> decode_step
          then beam_taken n (beam_parent (bo_token_index out') n req) beam else beam
        in cache_entry ks' layer (req, beam, s, kv, d) = cache_entry ks layer (req, from, s, kv, d) \<and>
           cache_entry vs' layer (req, beam, s, kv, d) = cache_entry vs layer (req, from, s, kv, d))"
    using cache_select_entries [OF assms(6,7)] by blast
  have "length (concat (map (map int32) idx)) = nat batch * nat n"
    using idx by (simp add: length_concat comp_def sum_list_triv cong: map_cong)
  then have "batch * n = bf_sizes block_table ! 0 sdiv n * n"
    using assms(6) select_ready_shape(12) [OF assms(6)] n data by (simp add: select_ready_def)
  then have batch: "bf_sizes block_table ! 0 sdiv n = batch" using n(1) by simp
  show ?thesis
  proof (rule exI [of _ ks'], rule exI [of _ vs'], rule conjI [OF run], intro allI impI)
    fix req beam assume p: "0 \<le> req \<and> req < batch \<and> 0 \<le> beam \<and> beam < n"
    let ?parent = "beam_parent (bo_token_index out') n req beam"
    have asc: "\<forall>i j. 0 \<le> i \<and> i \<le> j \<and> j < n \<longrightarrow> 0 \<le> beam_parent (bo_token_index out') n req i \<and>
        beam_parent (bo_token_index out') n req i \<le> beam_parent (bo_token_index out') n req j \<and>
        beam_parent (bo_token_index out') n req j < n"
      by (rule token_index_ascending [OF idx(2) n(1,2) data]) (use p idx(1) in auto)
    have parent: "?parent = idx ! nat req ! nat beam div n"
      by (rule token_index_parent [OF idx(2) n(1,2) data]) (use p idx(1) in auto)
    have range: "0 \<le> ?parent" "?parent < n" using asc [rule_format, of beam beam] p by simp_all
    have row: "length (idx ! nat req) = nat n" using idx p by simp
    have taken: "beam_taken n (beam_parent (bo_token_index out') n req) beam = ?parent"
      by (rule cache_select_ascending [OF assms(6) asc]) (use p in simp_all)
    have tokens_kept: "bf_data (bo_sequence_group out') ! nat ((req * n + beam) * rounds + r) =
          bf_data from ! nat ((req * n + ?parent) * rounds + r)" if "0 \<le> r" "r < step" for r
    proof -
      have r: "r < rounds" using that assms(4) by simp
      have "(req * n + beam) * rounds + r < batch * n * rounds"
        by (intro digit_bounds(2)) (use p r that digit_bounds [of req batch beam n] in auto)
      then have "(req * n + beam) * rounds + r < int (length (bf_data (bo_sequence_group out)))" by (simp add: group)
      then show ?thesis
        unfolding seqs using that p r row idx(1)
        by (subst extend_group_nth) (simp_all add: parent nat_less_iff)
    qed
    show "\<exists>parent. 0 \<le> parent \<and> parent < n \<and>
       (\<forall>r. 0 \<le> r \<and> r < step \<longrightarrow> bf_data (bo_sequence_group out') ! nat ((req * n + beam) * rounds + r) =
          bf_data from ! nat ((req * n + parent) * rounds + r)) \<and>
       (\<forall>layer < nat layer_num. \<forall>s kv d. s \<le> decode_step \<longrightarrow>
          cache_entry ks' layer (req, beam, s, kv, d) = cache_entry ks layer (req, parent, s, kv, d) \<and>
          cache_entry vs' layer (req, beam, s, kv, d) = cache_entry vs layer (req, parent, s, kv, d))"
      using range tokens_kept entries p batch taken by (intro exI [of _ ?parent]) (simp add: Let_def)
  qed
qed


section \<open>A step on concrete tensors\<close>

definition sample_ops :: "int beam_ops" where
  "sample_ops = \<lparr>bo_add = (+),
     bo_topk = (\<lambda>xs n. take (nat n) (sort_key (\<lambda>i. - (xs ! nat i)) [0..int (length xs) - 1])),
     bo_argsort = (\<lambda>xs. sort_key (\<lambda>i. xs ! nat i) [0..int (length xs) - 1])\<rparr>"

lemma sample_topk:
  fixes xs :: "int list"
  assumes "0 \<le> n" "n \<le> int (length xs)"
  defines "best \<equiv> take (nat n) (sort_key (\<lambda>i. - (xs ! nat i)) [0..int (length xs) - 1])"
  shows "int (length best) = n" and "distinct best" and "set best \<subseteq> {0..<int (length xs)}"
    and "i \<in> set best \<Longrightarrow> j \<in> {0..<int (length xs)} - set best \<Longrightarrow> xs ! nat j \<le> xs ! nat i"
proof -
  let ?f = "\<lambda>i. - (xs ! nat i)"
  let ?ys = "sort_key ?f [0..int (length xs) - 1]"
  show "int (length best) = n" "distinct best" using assms(1,2) by (simp_all add: best_def)
  show "set best \<subseteq> {0..<int (length xs)}"
    using set_take_subset [of "nat n" ?ys] by (force simp: best_def)
  assume i: "i \<in> set best" and j: "j \<in> {0..<int (length xs)} - set best"
  have "j \<in> set ?ys" using j by auto
  moreover have "set ?ys = set (take (nat n) ?ys) \<union> set (drop (nat n) ?ys)"
    by (simp only: set_append [symmetric] append_take_drop_id)
  ultimately have k: "j \<in> set (drop (nat n) ?ys)" using j unfolding best_def by blast
  have "sorted (map ?f (take (nat n) ?ys @ drop (nat n) ?ys))" by (simp only: append_take_drop_id sorted_sort_key)
  then have "\<forall>x \<in> set (map ?f (take (nat n) ?ys)). \<forall>y \<in> set (map ?f (drop (nat n) ?ys)). x \<le> y"
    unfolding map_append sorted_append by (elim conjE)
  then have "?f i \<le> ?f j" using i k unfolding set_map best_def by blast
  then show "xs ! nat j \<le> xs ! nat i" by simp
qed

lemma sample_ops_ok: "beam_ops_ok sample_ops"
proof -
  have "set [0..int (length xs) - 1] = {0..<int (length xs)}" for xs :: "int list" by auto
  then show ?thesis using sample_topk by (auto simp: beam_ops_ok_def sample_ops_def Let_def)
qed

definition demo_tensor :: "int list \<Rightarrow> int list \<Rightarrow> int buffer" where
  "demo_tensor sizes xs = \<lparr>bf_cuda = True, bf_device = 0, bf_type = kInt32, bf_contiguous = True, bf_address = 0,
     bf_sizes = sizes, bf_data = xs\<rparr>"

definition demo_beam_out :: "int beam_out" where
  "demo_beam_out = \<lparr>bo_acc_logprob = demo_tensor [2, 1] [0, 0], bo_token_ids = demo_tensor [2, 1] [0, 0],
     bo_token_index = demo_tensor [2, 1] [0, 0], bo_sequence_group = demo_tensor [1, 2, 3] [0, 0, 0, 0, 0, 0]\<rparr>"

end
