(* ===== verification/Beam_Cache.thy ===== *)
theory Beam_Cache
  imports Beam_Select Kv_Paging
begin

text \<open>
  The writers of the caches that beam search works on:
  \<^verbatim>\<open>ex_engine/xllm_kernels/cuda/xattention/prefill_reshape_and_cache.cu\<close> stores the keys and values of
  the prompt tokens, \<^verbatim>\<open>decoder_reshape_and_cache.cu\<close> those of the token every beam has just taken.
\<close>

section \<open>Vectors of a row\<close>

text \<open>A load and a store of a vector of elements.\<close>

definition copy_vec :: "int \<Rightarrow> 'v list \<Rightarrow> int \<Rightarrow> int \<Rightarrow> 'v list \<Rightarrow> 'v list result" where
  "copy_vec width src a b m = rfold (\<lambda>i m. rbind (array_load src (a + i)) (array_store m (b + i))) [0..width - 1] m"

definition xattn_block_dim :: "int \<Rightarrow> int" where
  "xattn_block_dim total_vecs =
     (let threads_per_block = int32 (if 256 < total_vecs then 256 else total_vecs);
          rounded = (threads_per_block + 32 - 1) sdiv 32 * 32 in if rounded < 32 then 32 else rounded)"

text \<open>
  A block per token, whose threads share the vectors of its heads. CUDA refuses a grid of no
  blocks and one that is higher than 65535.
\<close>

definition xattn_schedule :: "int \<Rightarrow> int \<Rightarrow> (int \<times> int) list \<Rightarrow> bool" where
  "xattn_schedule n total_vecs xs \<longleftrightarrow> row_schedule (uint32 n) (xattn_block_dim total_vecs) total_vecs xs"

definition xattn_launch_check :: "int \<Rightarrow> unit result" where
  "xattn_launch_check n = torch_checks [(0 < uint32 n \<and> uint32 n \<le> 65535, ''CUDA error: invalid configuration argument'')]"

definition scalar_bytes :: "scalar_kind \<Rightarrow> int" where
  "scalar_bytes t = (if t = kFloat32 then 4 else 2)"

text \<open>A pointer is fetched with the type that was dispatched on.\<close>

definition typed_pointers :: "scalar_kind \<Rightarrow> 'v strided list \<Rightarrow> unit result" where
  "typed_pointers ty ts = torch_checks (map (\<lambda>t. (bf_type t = ty, ''expected scalar type'')) ts)"

definition pointers_aligned :: "('v strided \<times> string) list \<Rightarrow> unit result" where
  "pointers_aligned ts = checks (map (\<lambda>(t, name). (bf_address t mod 16 = 0, name @ '' data_ptr must be 16-byte aligned'')) ts)"

definition strides_aligned :: "scalar_kind \<Rightarrow> (int \<times> string) list \<Rightarrow> unit result" where
  "strides_aligned ty ss =
     checks (map (\<lambda>(s, name). (s * scalar_bytes ty smod 16 = 0, name @ '' bytes must be 16-byte aligned'')) ss)"

section \<open>The prompt\<close>

record prefill_args =
  pf_shared_len :: int
  pf_kv_heads :: int
  pf_head_dim :: int
  pf_k_stride0 :: int
  pf_v_stride0 :: int
  pf_v_stride1 :: int
  pf_vec_width :: int

definition prefill_cache_step ::
  "prefill_args \<Rightarrow> 'v list \<Rightarrow> 'v list \<Rightarrow> int \<times> int \<Rightarrow> 'v list \<times> 'v list \<Rightarrow> ('v list \<times> 'v list) result" where
  "prefill_cache_step g proj_k proj_v x c =
     (let (token_idx, linear_idx) = x;
          vecs_per_head = pf_head_dim g sdiv pf_vec_width g;
          k_token_base = token_idx * pf_k_stride0 g;
          v_token_base = token_idx * pf_v_stride0 g;
          dst_token_base = token_idx * pf_kv_heads g * pf_head_dim g;
          head_idx = linear_idx sdiv vecs_per_head;
          vec_idx = linear_idx - head_idx * vecs_per_head;
          head_offset = head_idx * pf_head_dim g;
          vec_offset = vec_idx * pf_vec_width g in
      if pf_shared_len g \<le> token_idx then Inr c
      else rbind (copy_vec (pf_vec_width g) proj_k (k_token_base + head_offset + vec_offset)
             (dst_token_base + head_offset + vec_offset) (fst c)) (\<lambda>kc.
           rbind (copy_vec (pf_vec_width g) proj_v (v_token_base + head_idx * pf_v_stride1 g + vec_offset)
             (dst_token_base + head_offset + vec_offset) (snd c)) (\<lambda>vc. Inr (kc, vc))))"

definition prefill_args_of :: "'v strided \<Rightarrow> 'v strided \<Rightarrow> prefill_args" where
  "prefill_args_of proj_k proj_v =
     \<lparr>pf_shared_len = bf_sizes proj_k ! 0, pf_kv_heads = bf_sizes proj_k ! 1, pf_head_dim = bf_sizes proj_k ! 2,
      pf_k_stride0 = st_strides proj_k ! 0, pf_v_stride0 = st_strides proj_v ! 0, pf_v_stride1 = st_strides proj_v ! 1,
      pf_vec_width = vec_width (bf_type proj_k)\<rparr>"

definition prefill_total_vecs :: "'v strided \<Rightarrow> int" where
  "prefill_total_vecs proj_k = bf_sizes proj_k ! 1 * (bf_sizes proj_k ! 2 sdiv vec_width (bf_type proj_k))"

definition prefill_shape_checks :: "'v strided \<Rightarrow> 'v strided \<Rightarrow> 'v strided \<Rightarrow> 'v strided \<Rightarrow> unit result" where
  "prefill_shape_checks proj_k proj_v kc vc =
     rbind (checks
       [(bf_dim proj_k = 3, ''proj_k must be 3-dimensional''),
        (bf_dim proj_v = 3, ''proj_v must be 3-dimensional''),
        (bf_dim kc = 3, ''shared_k_cache must be 3-dimensional''),
        (bf_dim vc = 3, ''shared_v_cache must be 3-dimensional''),
        (bf_cuda proj_k \<and> bf_cuda proj_v \<and> bf_cuda kc \<and> bf_cuda vc, ''all tensors must be CUDA tensors'')]) (\<lambda>_.
     let shared_len = bf_sizes proj_k ! 0; kv_heads = bf_sizes proj_k ! 1; head_dim = bf_sizes proj_k ! 2 in
     checks
       [(bf_sizes proj_v = bf_sizes proj_k, ''proj_v and proj_k must have same shape''),
        (shared_len \<le> bf_sizes kc ! 0 \<and> bf_sizes kc ! 1 = kv_heads \<and> bf_sizes kc ! 2 = head_dim,
           ''shared_k_cache shape mismatch''),
        (shared_len \<le> bf_sizes vc ! 0 \<and> bf_sizes vc ! 1 = kv_heads \<and> bf_sizes vc ! 2 = head_dim,
           ''shared_v_cache shape mismatch''),
        (st_strides proj_k ! 2 = 1 \<and> st_strides proj_v ! 2 = 1,
           ''proj_k/proj_v must be contiguous on head_dim (stride(2)=1)''),
        (st_strides proj_k ! 1 = head_dim \<and> st_strides proj_v ! 1 = head_dim,
           ''proj_k/proj_v must satisfy stride(1)=head_dim for qkv-slice layout''),
        (st_strides kc ! 2 = 1 \<and> st_strides vc ! 2 = 1, ''shared caches must be contiguous on head_dim (stride(2)=1)''),
        (st_strides kc ! 1 = head_dim \<and> st_strides vc ! 1 = head_dim, ''shared caches must satisfy stride(1)=head_dim''),
        (st_strides kc ! 0 = kv_heads * head_dim \<and> st_strides vc ! 0 = kv_heads * head_dim,
           ''shared caches must be contiguous on token stride'')])"

definition vector_checks :: "'v strided \<Rightarrow> int \<Rightarrow> int \<Rightarrow> unit result" where
  "vector_checks proj_k kv_heads head_dim =
     rbind (torch_checks [(bf_type proj_k \<in> {kFloat32, kFloat16, kBFloat16}, ''kernel not implemented'')]) (\<lambda>_.
     checks
       [(head_dim smod vec_width (bf_type proj_k) = 0, ''head_dim must be divisible by vector width''),
        (0 < kv_heads * (head_dim sdiv vec_width (bf_type proj_k)), ''total_vecs must be > 0'')])"

definition prefill_checks :: "'v strided \<Rightarrow> 'v strided \<Rightarrow> 'v strided \<Rightarrow> 'v strided \<Rightarrow> unit result" where
  "prefill_checks proj_k proj_v kc vc =
     rbind (prefill_shape_checks proj_k proj_v kc vc) (\<lambda>_.
     rbind (vector_checks proj_k (bf_sizes proj_k ! 1) (bf_sizes proj_k ! 2)) (\<lambda>_.
     rbind (typed_pointers (bf_type proj_k) [proj_k, proj_v, kc, vc]) (\<lambda>_.
     rbind (pointers_aligned [(proj_k, ''proj_k''), (proj_v, ''proj_v''), (kc, ''shared_k_cache''), (vc, ''shared_v_cache'')]) (\<lambda>_.
     rbind (strides_aligned (bf_type proj_k) [(st_strides proj_k ! 0, ''proj_k stride(0)''),
       (st_strides proj_v ! 0, ''proj_v stride(0)''), (st_strides proj_v ! 1, ''proj_v stride(1)'')]) (\<lambda>_.
     xattn_launch_check (bf_sizes proj_k ! 0))))))"

text \<open>The slices of the caches share their storage, so the kernel writes into the whole of it.\<close>

definition prefill_reshape_and_cache ::
  "(int \<times> int) list \<Rightarrow> 'v strided \<Rightarrow> 'v strided \<Rightarrow> 'v strided \<Rightarrow> 'v strided \<Rightarrow> ('v strided \<times> 'v strided) result" where
  "prefill_reshape_and_cache xs proj_k proj_v shared_k_cache shared_v_cache =
     rbind (prefill_checks proj_k proj_v shared_k_cache shared_v_cache) (\<lambda>_.
     rbind (rfold (prefill_cache_step (prefill_args_of proj_k proj_v) (bf_data proj_k) (bf_data proj_v)) xs
       (bf_data shared_k_cache, bf_data shared_v_cache)) (\<lambda>(kc, vc).
     Inr (shared_k_cache\<lparr>bf_data := kc\<rparr>, shared_v_cache\<lparr>bf_data := vc\<rparr>)))"

section \<open>The token of every beam\<close>

record decoder_args =
  dc_step :: int
  dc_batch_size :: int
  dc_beam_size :: int
  dc_kv_heads :: int
  dc_head_dim :: int
  dc_k_stride0 :: int
  dc_k_stride1 :: int
  dc_v_stride0 :: int
  dc_v_stride1 :: int
  dc_cache_stride0 :: int
  dc_cache_stride1 :: int
  dc_cache_stride2 :: int
  dc_cache_stride3 :: int
  dc_vec_width :: int

definition decoder_cache_step ::
  "decoder_args \<Rightarrow> 'v list \<Rightarrow> 'v list \<Rightarrow> int \<times> int \<Rightarrow> 'v list \<times> 'v list \<Rightarrow> ('v list \<times> 'v list) result" where
  "decoder_cache_step g proj_k proj_v x c =
     (let (token_idx, linear_idx) = x in
      if dc_batch_size g * dc_beam_size g \<le> token_idx then Inr c
      else
      (let batch_idx = token_idx sdiv dc_beam_size g;
          beam_idx = token_idx - batch_idx * dc_beam_size g;
          vecs_per_head = dc_head_dim g sdiv dc_vec_width g;
          k_token_base = batch_idx * dc_k_stride0 g + beam_idx * dc_k_stride1 g;
          v_token_base = batch_idx * dc_v_stride0 g + beam_idx * dc_v_stride1 g;
          dst_token_base = batch_idx * dc_cache_stride0 g + beam_idx * dc_cache_stride1 g + dc_step g * dc_cache_stride2 g;
          head_idx = linear_idx sdiv vecs_per_head;
          vec_idx = linear_idx - head_idx * vecs_per_head;
          vec_offset = vec_idx * dc_vec_width g in
      rbind (copy_vec (dc_vec_width g) proj_k (k_token_base + head_idx * dc_head_dim g + vec_offset)
        (dst_token_base + head_idx * dc_cache_stride3 g + vec_offset) (fst c)) (\<lambda>kc.
      rbind (copy_vec (dc_vec_width g) proj_v (v_token_base + head_idx * dc_head_dim g + vec_offset)
        (dst_token_base + head_idx * dc_cache_stride3 g + vec_offset) (snd c)) (\<lambda>vc. Inr (kc, vc)))))"

text \<open>Both caches are addressed with the strides of the key cache.\<close>

definition decoder_args_of :: "'v strided \<Rightarrow> 'v strided \<Rightarrow> 'v strided \<Rightarrow> int \<Rightarrow> decoder_args" where
  "decoder_args_of proj_k proj_v kc current_step =
     \<lparr>dc_step = current_step, dc_batch_size = bf_sizes proj_k ! 0, dc_beam_size = bf_sizes proj_k ! 1,
      dc_kv_heads = bf_sizes proj_k ! 2, dc_head_dim = bf_sizes proj_k ! 3,
      dc_k_stride0 = st_strides proj_k ! 0, dc_k_stride1 = st_strides proj_k ! 1,
      dc_v_stride0 = st_strides proj_v ! 0, dc_v_stride1 = st_strides proj_v ! 1,
      dc_cache_stride0 = st_strides kc ! 0, dc_cache_stride1 = st_strides kc ! 1,
      dc_cache_stride2 = st_strides kc ! 2, dc_cache_stride3 = st_strides kc ! 3,
      dc_vec_width = vec_width (bf_type proj_k)\<rparr>"

definition decoder_total_vecs :: "'v strided \<Rightarrow> int" where
  "decoder_total_vecs proj_k = bf_sizes proj_k ! 2 * (bf_sizes proj_k ! 3 sdiv vec_width (bf_type proj_k))"

definition decoder_shape_checks ::
  "'v strided \<Rightarrow> 'v strided \<Rightarrow> 'v strided \<Rightarrow> 'v strided \<Rightarrow> int buffer \<Rightarrow> unit result" where
  "decoder_shape_checks proj_k proj_v kc vc step_tensor =
     rbind (checks
       [(bf_dim proj_k = 4, ''proj_k must be 4-dimensional''),
        (bf_dim proj_v = 4, ''proj_v must be 4-dimensional''),
        (bf_dim kc = 5, ''unshared_k_cache must be 5-dimensional''),
        (bf_dim vc = 5, ''unshared_v_cache must be 5-dimensional''),
        (bf_cuda proj_k \<and> bf_cuda proj_v \<and> bf_cuda kc \<and> bf_cuda vc \<and> bf_cuda step_tensor,
           ''all tensors must be CUDA tensors''),
        (bf_dim step_tensor = 1, ''step must be 1-dimensional''),
        (bf_sizes step_tensor ! 0 = 1, ''step must have shape [1]''),
        (bf_type step_tensor = kInt32, ''step must be int32 (torch::kInt32)'')]) (\<lambda>_.
     let kv_heads = bf_sizes proj_k ! 2; head_dim = bf_sizes proj_k ! 3 in
     checks
       [(bf_sizes proj_v = bf_sizes proj_k, ''proj_v and proj_k must have same shape''),
        (bf_sizes kc ! 3 = kv_heads, ''unshared_k_cache kv_heads mismatch''),
        (bf_sizes kc ! 4 = head_dim, ''unshared_k_cache head_dim mismatch''),
        (bf_sizes vc = bf_sizes kc, ''unshared_v_cache and unshared_k_cache must have same shape''),
        (st_strides proj_k ! 3 = 1, ''proj_k must satisfy stride(3)=1''),
        (st_strides proj_v ! 3 = 1, ''proj_v must satisfy stride(3)=1''),
        (st_strides proj_k ! 2 = head_dim, ''proj_k must satisfy stride(2)=head_dim''),
        (st_strides proj_v ! 2 = head_dim, ''proj_v must satisfy stride(2)=head_dim''),
        (st_strides kc ! 4 = 1, ''unshared_k_cache must satisfy stride(4)=1''),
        (st_strides vc ! 4 = 1, ''unshared_v_cache must satisfy stride(4)=1''),
        (st_strides kc ! 3 = head_dim, ''unshared_k_cache must satisfy stride(3)=head_dim''),
        (st_strides vc ! 3 = head_dim, ''unshared_v_cache must satisfy stride(3)=head_dim'')])"

definition decoder_checks ::
  "'v strided \<Rightarrow> 'v strided \<Rightarrow> 'v strided \<Rightarrow> 'v strided \<Rightarrow> int buffer \<Rightarrow> unit result" where
  "decoder_checks proj_k proj_v kc vc step_tensor =
     rbind (decoder_shape_checks proj_k proj_v kc vc step_tensor) (\<lambda>_.
     rbind (vector_checks proj_k (bf_sizes proj_k ! 2) (bf_sizes proj_k ! 3)) (\<lambda>_.
     rbind (typed_pointers (bf_type proj_k) [proj_k, proj_v, kc, vc]) (\<lambda>_.
     rbind (pointers_aligned [(proj_k, ''proj_k''), (proj_v, ''proj_v''), (kc, ''unshared_k_cache''), (vc, ''unshared_v_cache'')]) (\<lambda>_.
     rbind (strides_aligned (bf_type proj_k)
       [(st_strides proj_k ! 0, ''proj_k stride(0)''), (st_strides proj_k ! 1, ''proj_k stride(1)''),
        (st_strides proj_v ! 0, ''proj_v stride(0)''), (st_strides proj_v ! 1, ''proj_v stride(1)''),
        (st_strides kc ! 0, ''cache stride(0)''), (st_strides kc ! 1, ''cache stride(1)''),
        (st_strides kc ! 2, ''cache stride(2)''), (st_strides kc ! 3, ''cache stride(3)'')]) (\<lambda>_.
     xattn_launch_check (bf_sizes proj_k ! 0 * bf_sizes proj_k ! 1))))))"

definition decoder_reshape_and_cache ::
  "(int \<times> int) list \<Rightarrow> 'v strided \<Rightarrow> 'v strided \<Rightarrow> 'v strided \<Rightarrow> 'v strided \<Rightarrow> int buffer \<Rightarrow>
   ('v strided \<times> 'v strided) result" where
  "decoder_reshape_and_cache xs proj_k proj_v unshared_k_cache unshared_v_cache step_tensor =
     rbind (decoder_checks proj_k proj_v unshared_k_cache unshared_v_cache step_tensor) (\<lambda>_.
     rbind (array_load (bf_data step_tensor) 0) (\<lambda>current_step.
     rbind (rfold (decoder_cache_step (decoder_args_of proj_k proj_v unshared_k_cache current_step)
         (bf_data proj_k) (bf_data proj_v)) xs (bf_data unshared_k_cache, bf_data unshared_v_cache)) (\<lambda>(kc, vc).
     Inr (unshared_k_cache\<lparr>bf_data := kc\<rparr>, unshared_v_cache\<lparr>bf_data := vc\<rparr>))))"

section \<open>Rows copied in vectors\<close>

text \<open>
  Whatever the order of the iterations, every row ends up with the elements of its source, when
  the rows do not meet.
\<close>

lemma row_stores:
  fixes n :: int
  assumes es: "set es = {0..<n} \<times> {0..<w}"
    and src: "\<forall>t. 0 \<le> t \<and> t < n \<longrightarrow> 0 \<le> sb t \<and> sb t + w \<le> int (length src)"
    and dst: "\<forall>t. 0 \<le> t \<and> t < n \<longrightarrow> 0 \<le> db t \<and> db t + w \<le> int (length m)"
    and apart: "\<forall>t u. 0 \<le> t \<and> t < u \<and> u < n \<longrightarrow> db t + w \<le> db u \<or> db u + w \<le> db t"
  shows "\<exists>c. rfold (\<lambda>(t, e) m. rbind (array_load src (sb t + e)) (array_store m (db t + e))) es m = Inr c \<and>
    length c = length m \<and>
    (\<forall>t i. 0 \<le> t \<and> t < n \<and> 0 \<le> i \<and> i < w \<longrightarrow> c ! nat (db t + i) = src ! nat (sb t + i)) \<and>
    (\<forall>p. 0 \<le> p \<and> p < int (length m) \<and> (\<forall>t. 0 \<le> t \<and> t < n \<longrightarrow> p < db t \<or> db t + w \<le> p) \<longrightarrow> c ! nat p = m ! nat p)"
proof -
  let ?g = "\<lambda>(t, e) m. rbind (array_load src (sb t + e)) (array_store m (db t + e))"
  let ?a = "\<lambda>x. db (fst x) + snd x"
  let ?v = "\<lambda>x. src ! nat (sb (fst x) + snd x)"
  have range: "0 \<le> fst x \<and> fst x < n \<and> 0 \<le> snd x \<and> snd x < w" if "x \<in> set es" for x
    using that unfolding es by auto
  have step: "?g x m' = (if True then array_store m' (?a x) (?v x) else Inr m')" if "x \<in> set es" for x m'
  proof -
    have "in_array src (sb (fst x) + snd x)" using src range [OF that] by (force simp: in_array_def)
    then show ?thesis by (simp add: split_def array_load_def)
  qed
  have valid: "\<forall>x \<in> set es. True \<longrightarrow> in_array m (?a x)"
    using dst range by (force simp: in_array_def)
  obtain c where c: "rfold ?g es m = Inr c" "\<forall>b. in_array c b = in_array m b"
    "\<forall>b. (\<forall>x \<in> set es. True \<longrightarrow> ?a x \<noteq> b) \<longrightarrow> array_load c b = array_load m b"
    "\<forall>x \<in> set es. True \<longrightarrow> (\<forall>y \<in> set es. True \<longrightarrow> ?a y = ?a x \<longrightarrow> ?v y = ?v x) \<longrightarrow> array_load c (?a x) = Inr (?v x)"
  proof -
    have "\<exists>c. rfold ?g es m = Inr c \<and> (\<forall>b. in_array c b = in_array m b) \<and>
      (\<forall>b. (\<forall>x \<in> set es. True \<longrightarrow> ?a x \<noteq> b) \<longrightarrow> array_load c b = array_load m b) \<and>
      (\<forall>x \<in> set es. True \<longrightarrow> (\<forall>y \<in> set es. True \<longrightarrow> ?a y = ?a x \<longrightarrow> ?v y = ?v x) \<longrightarrow> array_load c (?a x) = Inr (?v x))"
      by (rule flat.stores) (fact step, fact valid)
    then show thesis by (elim exE conjE) (rule that, assumption+)
  qed
  have unique: "x = y" if "x \<in> set es" "y \<in> set es" "?a x = ?a y" for x y
  proof -
    have "fst x = fst y"
    proof (rule ccontr)
      assume "fst x \<noteq> fst y"
      then have "fst x < fst y \<or> fst y < fst x" by auto
      then show False
        using apart [rule_format, of "fst x" "fst y"] apart [rule_format, of "fst y" "fst x"]
          range [OF that(1)] range [OF that(2)] that(3) by fastforce
    qed
    then show ?thesis using that(3) by (simp add: prod_eq_iff)
  qed
  have len: "length c = length m"
    using c(2) [rule_format, of "int (length c)"] c(2) [rule_format, of "int (length m)"]
    by (simp add: in_array_def)
  have stored: "c ! nat (db t + i) = src ! nat (sb t + i)" if a: "0 \<le> t" "t < n" "0 \<le> i" "i < w" for t i
  proof -
    have x: "(t, i) \<in> set es" using a by (simp add: es)
    have "?v y = ?v (t, i)" if "y \<in> set es" "?a y = ?a (t, i)" for y using unique [OF that(1) x that(2)] by simp
    then have "array_load c (?a (t, i)) = Inr (?v (t, i))" using bspec [OF c(4) x] by blast
    then have "array_load c (db t + i) = Inr (src ! nat (sb t + i))" by simp
    then show ?thesis by (simp add: array_loadI)
  qed
  have kept: "c ! nat p = m ! nat p"
    if a: "0 \<le> p" "p < int (length m)" "\<forall>t. 0 \<le> t \<and> t < n \<longrightarrow> p < db t \<or> db t + w \<le> p" for p
  proof -
    have "?a x \<noteq> p" if "x \<in> set es" for x
      using a(3) range [OF that] by fastforce
    then have "array_load c p = array_load m p" using c(3) by blast
    then show ?thesis using a(1,2) len by (simp add: array_load_def in_array_def)
  qed
  show ?thesis using c(1) len stored kept by blast
qed

lemma vec_rows_result:
  fixes n :: int
  assumes xs: "set xs = {0..<n} \<times> {0..<vecs}" and w: "vecs * width = w" "0 < width"
    and f: "\<forall>t j m. 0 \<le> t \<and> t < n \<and> 0 \<le> j \<and> j < vecs \<longrightarrow>
      f (t, j) m = copy_vec width src (sb t + j * width) (db t + j * width) m"
    and src: "\<forall>t. 0 \<le> t \<and> t < n \<longrightarrow> 0 \<le> sb t \<and> sb t + w \<le> int (length src)"
    and dst: "\<forall>t. 0 \<le> t \<and> t < n \<longrightarrow> 0 \<le> db t \<and> db t + w \<le> int (length m)"
    and apart: "\<forall>t u. 0 \<le> t \<and> t < u \<and> u < n \<longrightarrow> db t + w \<le> db u \<or> db u + w \<le> db t"
  shows "\<exists>c. rfold f xs m = Inr c \<and> length c = length m \<and>
    (\<forall>t i. 0 \<le> t \<and> t < n \<and> 0 \<le> i \<and> i < w \<longrightarrow> c ! nat (db t + i) = src ! nat (sb t + i)) \<and>
    (\<forall>p. 0 \<le> p \<and> p < int (length m) \<and> (\<forall>t. 0 \<le> t \<and> t < n \<longrightarrow> p < db t \<or> db t + w \<le> p) \<longrightarrow> c ! nat p = m ! nat p)"
proof -
  let ?flat = "\<lambda>x. map (\<lambda>i. (fst x, snd x * width + i)) [0..width - 1]"
  let ?g = "\<lambda>(t, e) m. rbind (array_load src (sb t + e)) (array_store m (db t + e))"
  let ?es = "concat (map ?flat xs)"
  have rows: "rfold f xs m = rfold ?g ?es m"
  proof -
    have one: "f x m = rfold ?g (?flat x) m" if "x \<in> set xs" for x m
    proof -
      obtain t j where x: "x = (t, j)" by (cases x)
      then have "0 \<le> t" "t < n" "0 \<le> j" "j < vecs" using that xs by auto
      then show ?thesis using f [rule_format, of t j m] by (simp add: x copy_vec_def rfold_map add.assoc)
    qed
    have "rfold f ys m = rfold ?g (concat (map ?flat ys)) m" if "set ys \<subseteq> set xs" for ys m
      using that
    proof (induction ys arbitrary: m)
      case (Cons y ys)
      have "rfold f (y # ys) m = rbind (rfold ?g (?flat y) m) (rfold ?g (concat (map ?flat ys)))"
        using Cons one [of y m] by (cases "rfold ?g (?flat y) m") simp_all
      then show ?case by (simp add: rfold_append)
    qed simp
    then show ?thesis by blast
  qed
  have set_es: "(t, e) \<in> set ?es \<longleftrightarrow> 0 \<le> t \<and> t < n \<and> 0 \<le> e \<and> e < w" for t e
  proof
    assume "(t, e) \<in> set ?es"
    then obtain j i where p: "0 \<le> t" "t < n" "0 \<le> j" "j < vecs" "0 \<le> i" "i < width" "e = j * width + i"
      using xs by auto
    then show "0 \<le> t \<and> t < n \<and> 0 \<le> e \<and> e < w" using digit_bounds [of j vecs i width] w by simp
  next
    assume a: "0 \<le> t \<and> t < n \<and> 0 \<le> e \<and> e < w"
    have "0 \<le> e div width" using a w(2) by (simp add: pos_imp_zdiv_nonneg_iff)
    moreover have "e div width < vecs"
    proof (rule ccontr)
      assume "\<not> e div width < vecs"
      then have "vecs * width \<le> e div width * width" using w(2) by simp
      also have "\<dots> \<le> e" using w(2) by (simp flip: minus_mod_eq_div_mult)
      finally show False using a w(1) by simp
    qed
    ultimately have "(t, e div width) \<in> set xs" using a xs by simp
    moreover have "(t, e) \<in> set (?flat (t, e div width))"
      using w(2) by (auto intro!: image_eqI [of _ _ "e mod width"])
    moreover have "?flat x \<in> set (map ?flat xs)" if "x \<in> set xs" for x
      unfolding set_map using that by (rule imageI)
    ultimately show "(t, e) \<in> set ?es" unfolding set_concat by (intro UN_I)
  qed
  have "set ?es = {0..<n} \<times> {0..<w}"
  proof (rule set_eqI)
    fix x show "x \<in> set ?es \<longleftrightarrow> x \<in> {0..<n} \<times> {0..<w}"
      using set_es [of "fst x" "snd x"] by (cases x) (simp only: mem_Times_iff atLeastLessThan_iff fst_conv snd_conv conj_assoc)
  qed
  from row_stores [OF this src dst apart] show ?thesis unfolding rows .
qed


section \<open>Tensors by their indices\<close>

definition offset_of :: "int list \<Rightarrow> int list \<Rightarrow> int" where
  "offset_of strides idx = sum_list (map2 (*) idx strides)"

definition tensor_at :: "'v strided \<Rightarrow> int list \<Rightarrow> 'v" where
  "tensor_at t idx = bf_data t ! nat (offset_of (st_strides t) idx)"

definition within :: "int list \<Rightarrow> int list \<Rightarrow> bool" where
  "within sizes idx \<longleftrightarrow> list_all2 (\<lambda>i n. 0 \<le> i \<and> i < n) idx sizes"

text \<open>A tensor whose indices stay in its storage, and one that is laid out row by row.\<close>

definition tensor_fits :: "'v strided \<Rightarrow> bool" where
  "tensor_fits t \<longleftrightarrow> length (st_strides t) = length (bf_sizes t) \<and>
     (\<forall>idx. within (bf_sizes t) idx \<longrightarrow> in_array (bf_data t) (offset_of (st_strides t) idx))"

fun row_major :: "int list \<Rightarrow> int list" where
  "row_major [] = []"
| "row_major (n # ns) = prod_list ns # row_major ns"

definition tensor_dense :: "'v strided \<Rightarrow> bool" where
  "tensor_dense t \<longleftrightarrow> st_strides t = row_major (bf_sizes t) \<and> int (length (bf_data t)) = bf_numel t \<and>
     (\<forall>n \<in> set (bf_sizes t). 0 \<le> n)"

lemma offset_of_simps [simp]:
  "offset_of (s # ss) (i # is) = i * s + offset_of ss is" "offset_of ss [] = 0" "offset_of [] is = 0"
  by (simp_all add: offset_of_def)

lemma within_simps [simp]: "within (n # ns) (i # is) \<longleftrightarrow> 0 \<le> i \<and> i < n \<and> within ns is" "within [] []"
  by (simp_all add: within_def)

lemma vector_index:
  assumes "0 < width" "0 < vph" and "0 \<le> (j :: int)"
  shows "j sdiv vph * (vph * width) + (j - j sdiv vph * vph) * width = j * width"
    and "0 \<le> j sdiv vph" and "0 \<le> (j - j sdiv vph * vph) * width"
proof -
  show "j sdiv vph * (vph * width) + (j - j sdiv vph * vph) * width = j * width" by (simp add: algebra_simps)
  show "0 \<le> j sdiv vph" using assms by (simp add: sdiv_nonneg pos_imp_zdiv_nonneg_iff)
  show "0 \<le> (j - j sdiv vph * vph) * width"
    using assms by (simp add: sdiv_nonneg minus_div_mult_eq_mod)
qed

text \<open>A head of whole vectors, as the checks demand it.\<close>

lemma vector_checks_ok:
  assumes "vector_checks t kv_heads head_dim = Inr ()" and "0 \<le> kv_heads" "0 \<le> head_dim"
  shows "0 < kv_heads" and "0 < head_dim" and "0 < vec_width (bf_type t)"
    and "head_dim sdiv vec_width (bf_type t) * vec_width (bf_type t) = head_dim"
    and "0 < head_dim sdiv vec_width (bf_type t)"
proof -
  let ?w = "vec_width (bf_type t)"
  show w: "0 < ?w" by (simp add: vec_width_def)
  have m: "head_dim smod ?w = 0" and v: "0 < kv_heads * (head_dim sdiv ?w)"
    using assms(1) by (simp_all add: vector_checks_def result_simps)
  have d: "head_dim sdiv ?w = head_dim div ?w" "head_dim smod ?w = head_dim mod ?w"
    using assms(3) w by (simp_all add: c_arith)
  show "head_dim sdiv ?w * ?w = head_dim" using m unfolding d by (simp add: mod_0_imp_dvd)
  have q: "0 \<le> head_dim sdiv ?w" unfolding d using assms(3) w by (simp add: pos_imp_zdiv_nonneg_iff)
  show q': "0 < head_dim sdiv ?w" using v q by (cases "head_dim sdiv ?w = 0") auto
  show "0 < kv_heads" using v q' assms(2) by (simp add: zero_less_mult_iff)
  show "0 < head_dim" using q' assms(3) by (cases "head_dim = 0") auto
qed

lemma xattn_visits:
  assumes "xattn_schedule n vecs xs" and "xattn_launch_check n = Inr ()" and "0 \<le> n" "n < 2 ^ 32" and "0 < vecs"
  shows "set xs = {0..<n} \<times> {0..<vecs}"
proof -
  have "uint32 n = n" using assms(3,4) by (simp add: uint32_def take_bit_int_eq_self)
  moreover have "0 < xattn_block_dim vecs" by (simp add: xattn_block_dim_def Let_def)
  ultimately show ?thesis using row_visits [of n "xattn_block_dim vecs" vecs xs] assms(1) by (simp add: xattn_schedule_def)
qed

lemma element_of_row:
  assumes "0 \<le> (h::int)" "h < heads" "0 \<le> d" "d < dim"
  shows "0 \<le> h * dim + d" and "h * dim + d < heads * dim"
  using digit_bounds assms by blast+

section \<open>The prompt is stored\<close>

text \<open>Calls that pass the checks, on tensors that are what they say.\<close>

definition prefill_ready :: "'v strided \<Rightarrow> 'v strided \<Rightarrow> 'v strided \<Rightarrow> 'v strided \<Rightarrow> bool" where
  "prefill_ready proj_k proj_v kc vc \<longleftrightarrow> prefill_checks proj_k proj_v kc vc = Inr () \<and>
     tensor_fits proj_k \<and> tensor_fits proj_v \<and> tensor_dense kc \<and> tensor_dense vc \<and>
     (\<forall>n \<in> set (bf_sizes proj_k). 0 \<le> n \<and> n < 2 ^ 31)"

lemma row_fits:
  assumes fits: "\<forall>h d. 0 \<le> h \<and> h < heads \<and> 0 \<le> d \<and> d < dim \<longrightarrow> in_array data (base + (h * dim + d))"
    and pos: "0 < heads" "0 < (dim::int)"
  shows "0 \<le> base" and "base + heads * dim \<le> int (length data)"
proof -
  show "0 \<le> base" using fits [rule_format, of 0 0] pos by (simp add: in_array_def)
  have "in_array data (base + ((heads - 1) * dim + (dim - 1)))" using fits pos by simp
  moreover have "(heads - 1) * dim + (dim - 1) = heads * dim - 1" by (simp add: algebra_simps)
  ultimately show "base + heads * dim \<le> int (length data)" by (simp add: in_array_def)
qed


text \<open>One of the two caches of either kernel: heads of whole vectors.\<close>

lemma head_rows_result:
  fixes n :: int
  assumes xs: "set xs = {0..<n} \<times> {0..<heads * vph}" and dims: "vph * width = dim" "0 < width" "0 < vph" "0 < heads"
    and f: "\<forall>t j m. 0 \<le> t \<and> t < n \<and> 0 \<le> j \<and> j < heads * vph \<longrightarrow>
      f (t, j) m = copy_vec width src (sb t + (j sdiv vph * dim + (j - j sdiv vph * vph) * width))
        (db t + (j sdiv vph * dim + (j - j sdiv vph * vph) * width)) m"
    and src: "\<forall>t h d. 0 \<le> t \<and> t < n \<and> 0 \<le> h \<and> h < heads \<and> 0 \<le> d \<and> d < dim \<longrightarrow> in_array src (sb t + (h * dim + d))"
    and dst: "\<forall>t. 0 \<le> t \<and> t < n \<longrightarrow> 0 \<le> db t \<and> db t + heads * dim \<le> int (length m)"
    and apart: "\<forall>t u. 0 \<le> t \<and> t < u \<and> u < n \<longrightarrow> db t + heads * dim \<le> db u \<or> db u + heads * dim \<le> db t"
  shows "\<exists>c. rfold f xs m = Inr c \<and> length c = length m \<and>
    (\<forall>t h d. 0 \<le> t \<and> t < n \<and> 0 \<le> h \<and> h < heads \<and> 0 \<le> d \<and> d < dim \<longrightarrow>
       c ! nat (db t + (h * dim + d)) = src ! nat (sb t + (h * dim + d))) \<and>
    (\<forall>p. 0 \<le> p \<and> p < int (length m) \<and> (\<forall>t. 0 \<le> t \<and> t < n \<longrightarrow> p < db t \<or> db t + heads * dim \<le> p) \<longrightarrow>
       c ! nat p = m ! nat p)"
proof -
  have dim: "0 < dim" using dims by auto
  have w: "heads * vph * width = heads * dim" using dims(1) by (simp add: mult.assoc)
  have f': "\<forall>t j m. 0 \<le> t \<and> t < n \<and> 0 \<le> j \<and> j < heads * vph \<longrightarrow>
      f (t, j) m = copy_vec width src (sb t + j * width) (db t + j * width) m"
    using f vector_index(1) [OF dims(2,3)] dims(1) by simp
  have src': "\<forall>t. 0 \<le> t \<and> t < n \<longrightarrow> 0 \<le> sb t \<and> sb t + heads * dim \<le> int (length src)"
  proof (intro allI impI)
    fix t assume t: "0 \<le> t \<and> t < n"
    have "\<forall>h d. 0 \<le> h \<and> h < heads \<and> 0 \<le> d \<and> d < dim \<longrightarrow> in_array src (sb t + (h * dim + d))" using src t by blast
    from row_fits [OF this dims(4) dim] show "0 \<le> sb t \<and> sb t + heads * dim \<le> int (length src)" by simp
  qed
  obtain c where c: "rfold f xs m = Inr c" "length c = length m"
    "\<forall>t i. 0 \<le> t \<and> t < n \<and> 0 \<le> i \<and> i < heads * dim \<longrightarrow> c ! nat (db t + i) = src ! nat (sb t + i)"
    "\<forall>p. 0 \<le> p \<and> p < int (length m) \<and> (\<forall>t. 0 \<le> t \<and> t < n \<longrightarrow> p < db t \<or> db t + heads * dim \<le> p) \<longrightarrow> c ! nat p = m ! nat p"
    using vec_rows_result [OF xs w dims(2) f' src' dst apart] by (elim exE conjE) (rule that)
  have "c ! nat (db t + (h * dim + d)) = src ! nat (sb t + (h * dim + d))"
    if "0 \<le> t" "t < n" "0 \<le> h" "h < heads" "0 \<le> d" "d < dim" for t h d
    using c(3) [rule_format, of t "h * dim + d"] element_of_row [OF that(3-6)] that(1,2) by simp
  then show ?thesis using c(1,2,4) by blast
qed

lemma tensor_fitsD3:
  assumes "tensor_fits t" "bf_sizes t = [a, b, c]" "st_strides t = [s, r, 1]" "0 \<le> i" "i < a" "0 \<le> h" "h < b" "0 \<le> d" "d < c"
  shows "in_array (bf_data t) (i * s + (h * r + d))"
proof -
  have "within (bf_sizes t) [i, h, d]" using assms by simp
  then have "in_array (bf_data t) (offset_of (st_strides t) [i, h, d])" using assms(1) unfolding tensor_fits_def by blast
  then show ?thesis by (simp add: assms(3) add.assoc)
qed

lemma three: "length xs = 3 \<Longrightarrow> xs = [xs ! 0, xs ! 1, xs ! 2]"
  by (auto simp: length_Suc_conv numeral_eq_Suc)

lemma prefill_ready_shape:
  assumes "prefill_ready proj_k proj_v kc vc"
  shows "\<exists>n heads dim ks vs. bf_sizes proj_k = [n, heads, dim] \<and> bf_sizes proj_v = [n, heads, dim] \<and>
      st_strides proj_k = [ks, dim, 1] \<and> st_strides proj_v = [vs, dim, 1] \<and>
      0 < n \<and> n \<le> 65535 \<and> 0 < heads \<and> 0 < dim \<and>
      (\<exists>N. bf_sizes kc = [N, heads, dim] \<and> n \<le> N \<and> st_strides kc = [heads * dim, dim, 1] \<and>
         int (length (bf_data kc)) = N * (heads * dim)) \<and>
      (\<exists>N. bf_sizes vc = [N, heads, dim] \<and> n \<le> N \<and> st_strides vc = [heads * dim, dim, 1] \<and>
         int (length (bf_data vc)) = N * (heads * dim)) \<and>
      dim sdiv vec_width (bf_type proj_k) * vec_width (bf_type proj_k) = dim \<and> 0 < dim sdiv vec_width (bf_type proj_k)"
proof -
  have c: "prefill_shape_checks proj_k proj_v kc vc = Inr ()"
    "vector_checks proj_k (bf_sizes proj_k ! 1) (bf_sizes proj_k ! 2) = Inr ()" "xattn_launch_check (bf_sizes proj_k ! 0) = Inr ()"
    using assms by (simp_all add: prefill_ready_def prefill_checks_def result_simps)
  note sh = c(1) [unfolded prefill_shape_checks_def Let_def]
  have len: "length (bf_sizes proj_k) = 3" "length (bf_sizes kc) = 3" "length (bf_sizes vc) = 3"
    using sh by (simp_all add: bf_dim_def result_simps)
  have nonneg: "\<forall>z \<in> set (bf_sizes proj_k). 0 \<le> z \<and> z < 2 ^ 31" using assms by (simp add: prefill_ready_def)
  have fits: "length (st_strides proj_k) = 3" "length (st_strides proj_v) = length (bf_sizes proj_v)"
    using assms len by (simp_all add: prefill_ready_def tensor_fits_def)
  obtain n heads dim where k: "bf_sizes proj_k = [n, heads, dim]" using three [OF len(1)] by blast
  then have v: "bf_sizes proj_v = [n, heads, dim]" using sh by (simp add: result_simps)
  have "length (st_strides proj_v) = 3" using fits(2) v by simp
  then have st: "st_strides proj_k = [st_strides proj_k ! 0, dim, 1]" "st_strides proj_v = [st_strides proj_v ! 0, dim, 1]"
    using three [OF fits(1)] three [of "st_strides proj_v"] sh k by (simp_all add: result_simps)
  have z: "0 \<le> n" "n < 2 ^ 31" "0 \<le> heads" "0 \<le> dim" using nonneg k by simp_all
  note vec = vector_checks_ok [OF c(2), unfolded k, simplified, OF z(3,4)]
  have "uint32 n = n" using z by (simp add: uint32_def take_bit_int_eq_self)
  then have n: "0 < n" "n \<le> 65535" using c(3) k by (simp_all add: xattn_launch_check_def result_simps)
  have cache: "\<exists>N. bf_sizes t = [N, heads, dim] \<and> n \<le> N \<and> st_strides t = [heads * dim, dim, 1] \<and>
      int (length (bf_data t)) = N * (heads * dim)"
    if t: "length (bf_sizes t) = 3" "tensor_dense t" "n \<le> bf_sizes t ! 0" "bf_sizes t ! 1 = heads" "bf_sizes t ! 2 = dim" for t :: "'a strided"
  proof -
    obtain N where s: "bf_sizes t = [N, heads, dim]" using three [OF t(1)] t(4,5) by auto
    then show ?thesis using t(2,3) by (simp add: tensor_dense_def bf_numel_def)
  qed
  have "\<exists>N. bf_sizes kc = [N, heads, dim] \<and> n \<le> N \<and> st_strides kc = [heads * dim, dim, 1] \<and>
      int (length (bf_data kc)) = N * (heads * dim)"
    by (rule cache) (use assms sh k len in \<open>simp_all add: prefill_ready_def result_simps\<close>)
  moreover have "\<exists>N. bf_sizes vc = [N, heads, dim] \<and> n \<le> N \<and> st_strides vc = [heads * dim, dim, 1] \<and>
      int (length (bf_data vc)) = N * (heads * dim)"
    by (rule cache) (use assms sh k len in \<open>simp_all add: prefill_ready_def result_simps\<close>)
  ultimately show ?thesis using k v st n vec by blast
qed

text \<open>
  C37: For every order of the threads, a prompt whose tensors pass the checks is stored: the keys and
  values of its tokens are in the first rows of the two caches, each at its own row, head and
  element, and the rows after them are as they were.
\<close>

theorem prefill_stores_prompt:
  assumes ready: "prefill_ready proj_k proj_v kc vc"
    and sched: "xattn_schedule (bf_sizes proj_k ! 0) (prefill_total_vecs proj_k) xs"
  shows "\<exists>kd vd. prefill_reshape_and_cache xs proj_k proj_v kc vc = Inr (kc\<lparr>bf_data := kd\<rparr>, vc\<lparr>bf_data := vd\<rparr>) \<and>
    (\<forall>t h d. within (bf_sizes kc) [t, h, d] \<longrightarrow> tensor_at (kc\<lparr>bf_data := kd\<rparr>) [t, h, d] =
       (if t < bf_sizes proj_k ! 0 then tensor_at proj_k [t, h, d] else tensor_at kc [t, h, d])) \<and>
    (\<forall>t h d. within (bf_sizes vc) [t, h, d] \<longrightarrow> tensor_at (vc\<lparr>bf_data := vd\<rparr>) [t, h, d] =
       (if t < bf_sizes proj_v ! 0 then tensor_at proj_v [t, h, d] else tensor_at vc [t, h, d]))"
proof -
  obtain n heads dim ks vs N M where sh: "bf_sizes proj_k = [n, heads, dim]" "bf_sizes proj_v = [n, heads, dim]"
      "st_strides proj_k = [ks, dim, 1]" "st_strides proj_v = [vs, dim, 1]"
    and pos: "0 < n" "n \<le> 65535" "0 < heads" "0 < dim"
    and kc: "bf_sizes kc = [N, heads, dim]" "n \<le> N" "st_strides kc = [heads * dim, dim, 1]"
      "int (length (bf_data kc)) = N * (heads * dim)"
    and vc: "bf_sizes vc = [M, heads, dim]" "n \<le> M" "st_strides vc = [heads * dim, dim, 1]"
      "int (length (bf_data vc)) = M * (heads * dim)"
    and vec: "dim sdiv vec_width (bf_type proj_k) * vec_width (bf_type proj_k) = dim" "0 < dim sdiv vec_width (bf_type proj_k)"
    using prefill_ready_shape [OF ready] by blast
  let ?W = "vec_width (bf_type proj_k)"
  let ?vph = "dim sdiv ?W"
  let ?off = "\<lambda>j. j sdiv ?vph * dim + (j - j sdiv ?vph * ?vph) * ?W"
  let ?copy = "\<lambda>src s x. copy_vec ?W src (fst x * s + ?off (snd x)) (fst x * (heads * dim) + ?off (snd x))"
  have W: "0 < ?W" by (simp add: vec_width_def)
  have checks: "prefill_checks proj_k proj_v kc vc = Inr ()" and fits: "tensor_fits proj_k" "tensor_fits proj_v"
    using ready by (simp_all add: prefill_ready_def)
  have "xattn_launch_check n = Inr ()" using checks by (simp add: prefill_checks_def result_simps sh)
  then have xs: "set xs = {0..<n} \<times> {0..<heads * ?vph}"
    using sched pos vec(2) by (intro xattn_visits) (simp_all add: sh prefill_total_vecs_def)
  have half: "\<exists>c. rfold (?copy (bf_data p) s) xs (bf_data t) = Inr c \<and> length c = length (bf_data t) \<and>
      (\<forall>i h d. within (bf_sizes t) [i, h, d] \<longrightarrow> tensor_at (t\<lparr>bf_data := c\<rparr>) [i, h, d] =
        (if i < n then tensor_at p [i, h, d] else tensor_at t [i, h, d]))"
    if p: "tensor_fits p" "bf_sizes p = [n, heads, dim]" "st_strides p = [s, dim, 1]"
      and t: "bf_sizes t = [L, heads, dim]" "n \<le> L" "st_strides t = [heads * dim, dim, 1]"
        "int (length (bf_data t)) = L * (heads * dim)" for p t :: "'a strided" and s L
  proof -
    have src: "\<forall>i h d. 0 \<le> i \<and> i < n \<and> 0 \<le> h \<and> h < heads \<and> 0 \<le> d \<and> d < dim \<longrightarrow> in_array (bf_data p) (i * s + (h * dim + d))"
      using tensor_fitsD3 [OF p] by blast
    have dst: "\<forall>i. 0 \<le> i \<and> i < n \<longrightarrow> 0 \<le> i * (heads * dim) \<and> i * (heads * dim) + heads * dim \<le> int (length (bf_data t))"
    proof (intro allI impI conjI)
      fix i assume i: "0 \<le> i \<and> i < n"
      show "0 \<le> i * (heads * dim)" using i pos by simp
      have "(i + 1) * (heads * dim) \<le> L * (heads * dim)" using i t(2) pos by (intro mult_right_mono) simp_all
      then show "i * (heads * dim) + heads * dim \<le> int (length (bf_data t))" unfolding t(4) by (simp add: algebra_simps)
    qed
    have apart: "\<forall>i u. 0 \<le> i \<and> i < u \<and> u < n \<longrightarrow>
        i * (heads * dim) + heads * dim \<le> u * (heads * dim) \<or> u * (heads * dim) + heads * dim \<le> i * (heads * dim)"
    proof (intro allI impI disjI1)
      fix i u assume "0 \<le> i \<and> i < u \<and> u < n"
      then have "(i + 1) * (heads * dim) \<le> u * (heads * dim)" using pos by (intro mult_right_mono) simp_all
      then show "i * (heads * dim) + heads * dim \<le> u * (heads * dim)" by (simp add: algebra_simps)
    qed
    have f: "\<forall>i j m. 0 \<le> i \<and> i < n \<and> 0 \<le> j \<and> j < heads * ?vph \<longrightarrow>
        ?copy (bf_data p) s (i, j) m = copy_vec ?W (bf_data p) (i * s + ?off j) (i * (heads * dim) + ?off j) m" by simp
    obtain c where c: "rfold (?copy (bf_data p) s) xs (bf_data t) = Inr c" "length c = length (bf_data t)"
      "\<forall>i h d. 0 \<le> i \<and> i < n \<and> 0 \<le> h \<and> h < heads \<and> 0 \<le> d \<and> d < dim \<longrightarrow>
         c ! nat (i * (heads * dim) + (h * dim + d)) = bf_data p ! nat (i * s + (h * dim + d))"
      "\<forall>q. 0 \<le> q \<and> q < int (length (bf_data t)) \<and>
         (\<forall>i. 0 \<le> i \<and> i < n \<longrightarrow> q < i * (heads * dim) \<or> i * (heads * dim) + heads * dim \<le> q) \<longrightarrow> c ! nat q = bf_data t ! nat q"
      using head_rows_result [OF xs vec(1) W vec(2) pos(3) f src dst apart] by (elim exE conjE) (rule that)
    have "tensor_at (t\<lparr>bf_data := c\<rparr>) [i, h, d] = (if i < n then tensor_at p [i, h, d] else tensor_at t [i, h, d])"
      if "within (bf_sizes t) [i, h, d]" for i h d
    proof -
      have r: "0 \<le> i" "i < L" "0 \<le> h" "h < heads" "0 \<le> d" "d < dim" using that by (simp_all add: t(1))
      let ?q = "i * (heads * dim) + (h * dim + d)"
      have q: "0 \<le> ?q" "?q < L * (heads * dim)"
        using digit_bounds [OF r(1,2) element_of_row [OF r(3-6)]] by simp_all
      have "c ! nat ?q = (if i < n then bf_data p ! nat (i * s + (h * dim + d)) else bf_data t ! nat ?q)"
      proof (cases "i < n")
        case True
        then show ?thesis using c(3) r by simp
      next
        case False
        have "u * (heads * dim) + heads * dim \<le> ?q" if u: "0 \<le> u \<and> u < n" for u
        proof -
          have "(u + 1) * (heads * dim) \<le> i * (heads * dim)" using u False pos by (intro mult_right_mono) simp_all
          then show ?thesis using element_of_row(1) [OF r(3-6)] by (simp add: algebra_simps)
        qed
        then show ?thesis using c(4) [rule_format, of ?q] q False by (simp add: t(4))
      qed
      then show ?thesis by (simp add: tensor_at_def t(3) p(3))
    qed
    then show ?thesis using c(1,2) by blast
  qed
  obtain kd where kd: "rfold (?copy (bf_data proj_k) ks) xs (bf_data kc) = Inr kd"
      "\<forall>i h d. within (bf_sizes kc) [i, h, d] \<longrightarrow> tensor_at (kc\<lparr>bf_data := kd\<rparr>) [i, h, d] =
        (if i < n then tensor_at proj_k [i, h, d] else tensor_at kc [i, h, d])"
    using half [OF fits(1) sh(1,3) kc] by blast
  obtain vd where vd: "rfold (?copy (bf_data proj_v) vs) xs (bf_data vc) = Inr vd"
      "\<forall>i h d. within (bf_sizes vc) [i, h, d] \<longrightarrow> tensor_at (vc\<lparr>bf_data := vd\<rparr>) [i, h, d] =
        (if i < n then tensor_at proj_v [i, h, d] else tensor_at vc [i, h, d])"
    using half [OF fits(2) sh(2,4) vc] by blast
  let ?g = "prefill_args_of proj_k proj_v"
  have step: "prefill_cache_step ?g (bf_data proj_k) (bf_data proj_v) x (a, b) =
      rbind (?copy (bf_data proj_k) ks x a) (\<lambda>a'. rbind (?copy (bf_data proj_v) vs x b) (\<lambda>b'. Inr (a', b')))"
    if "x \<in> set xs" for x a b
  proof -
    have "fst x < n" using that xs by auto
    then show ?thesis
      by (simp add: prefill_cache_step_def prefill_args_of_def sh Let_def split_def mult.assoc add.assoc)
  qed
  have "rfold (prefill_cache_step ?g (bf_data proj_k) (bf_data proj_v)) xs (bf_data kc, bf_data vc) = Inr (kd, vd)"
    by (rule rfold_pair [OF step kd(1) vd(1)])
  then have "prefill_reshape_and_cache xs proj_k proj_v kc vc = Inr (kc\<lparr>bf_data := kd\<rparr>, vc\<lparr>bf_data := vd\<rparr>)"
    by (simp add: prefill_reshape_and_cache_def checks)
  then show ?thesis using kd(2) vd(2) by (intro exI [of _ kd] exI [of _ vd]) (simp add: sh)
qed


text \<open>Two tokens whose keys are slices of a wider projection.\<close>

definition demo_slice :: "int \<Rightarrow> int list \<Rightarrow> int strided" where
  "demo_slice a xs = \<lparr>bf_cuda = True, bf_device = 0, bf_type = kFloat32, bf_contiguous = False, bf_address = a,
     bf_sizes = [2, 1, 4], bf_data = xs, st_strides = [12, 4, 1]\<rparr>"

definition demo_shared :: "int \<Rightarrow> int strided" where
  "demo_shared a = \<lparr>bf_cuda = True, bf_device = 0, bf_type = kFloat32, bf_contiguous = True, bf_address = a,
     bf_sizes = [3, 1, 4], bf_data = replicate 12 0, st_strides = [4, 4, 1]\<rparr>"

lemma within_three: "within [a, b, c] idx \<longleftrightarrow> (\<exists>i j k. idx = [i, j, k] \<and> 0 \<le> i \<and> i < a \<and> 0 \<le> j \<and> j < b \<and> 0 \<le> k \<and> k < c)"
  by (auto simp: within_def list_all2_Cons2)

lemma demo_prefill_ready: "prefill_ready (demo_slice 16 [0..19]) (demo_slice 32 [100..119]) (demo_shared 64) (demo_shared 128)"
proof -
  have fits: "tensor_fits (demo_slice a [b..b + 19])" for a b
    by (auto simp: tensor_fits_def demo_slice_def within_three in_array_def)
  have dense: "tensor_dense (demo_shared a)" for a
    by (simp add: tensor_dense_def demo_shared_def bf_numel_def)
  have "prefill_checks (demo_slice 16 [0..19]) (demo_slice 32 [100..119]) (demo_shared 64) (demo_shared 128) = Inr ()"
    by (simp add: prefill_checks_def prefill_shape_checks_def vector_checks_def typed_pointers_def pointers_aligned_def
        strides_aligned_def xattn_launch_check_def demo_slice_def demo_shared_def result_simps bf_dim_def vec_width_def
        scalar_bytes_def uint32_def c_arith)
  then show ?thesis using fits [of 16 0] fits [of 32 100] dense by (simp add: prefill_ready_def demo_slice_def)
qed

lemma xattn_schedule_exists: "\<exists>xs. xattn_schedule n vecs xs"
  unfolding xattn_schedule_def row_schedule_def using interleave_concat by blast

theorem prefill_stores_prompt_witness:
  "\<exists>xs kd vd. prefill_reshape_and_cache xs (demo_slice 16 [0..19]) (demo_slice 32 [100..119]) (demo_shared 64) (demo_shared 128) =
       Inr (demo_shared 64\<lparr>bf_data := kd\<rparr>, demo_shared 128\<lparr>bf_data := vd\<rparr>) \<and>
     tensor_at (demo_shared 64\<lparr>bf_data := kd\<rparr>) [1, 0, 2] = 14 \<and> tensor_at (demo_shared 128\<lparr>bf_data := vd\<rparr>) [0, 0, 3] = 103 \<and>
     tensor_at (demo_shared 64\<lparr>bf_data := kd\<rparr>) [2, 0, 2] = 0"
proof -
  let ?k = "demo_slice 16 [0..19]" and ?v = "demo_slice 32 [100..119]" and ?kc = "demo_shared 64" and ?vc = "demo_shared 128"
  obtain xs where xs: "xattn_schedule (bf_sizes ?k ! 0) (prefill_total_vecs ?k) xs" using xattn_schedule_exists by blast
  obtain kd vd where run: "prefill_reshape_and_cache xs ?k ?v ?kc ?vc = Inr (?kc\<lparr>bf_data := kd\<rparr>, ?vc\<lparr>bf_data := vd\<rparr>)"
    and k: "\<forall>t h d. within (bf_sizes ?kc) [t, h, d] \<longrightarrow> tensor_at (?kc\<lparr>bf_data := kd\<rparr>) [t, h, d] =
       (if t < bf_sizes ?k ! 0 then tensor_at ?k [t, h, d] else tensor_at ?kc [t, h, d])"
    and v: "\<forall>t h d. within (bf_sizes ?vc) [t, h, d] \<longrightarrow> tensor_at (?vc\<lparr>bf_data := vd\<rparr>) [t, h, d] =
       (if t < bf_sizes ?v ! 0 then tensor_at ?v [t, h, d] else tensor_at ?vc [t, h, d])"
    using prefill_stores_prompt [OF demo_prefill_ready xs] by blast
  have w: "within (bf_sizes (demo_shared a)) [t, h, d] \<longleftrightarrow> 0 \<le> t \<and> t < 3 \<and> 0 \<le> h \<and> h < 1 \<and> 0 \<le> d \<and> d < 4" for a t h d
    by (simp add: demo_shared_def)
  have at: "tensor_at ?k [1, 0, 2] = 14" "tensor_at ?v [0, 0, 3] = 103" "tensor_at ?kc [2, 0, 2] = 0" "bf_sizes ?k ! 0 = 2" "bf_sizes ?v ! 0 = 2"
    by (simp_all add: tensor_at_def demo_slice_def demo_shared_def nth_upto)
  show ?thesis
    using run k [rule_format, of 1 0 2] v [rule_format, of 0 0 3] k [rule_format, of 2 0 2] at w
    by (intro exI [of _ xs] exI [of _ kd] exI [of _ vd]) simp
qed

section \<open>The token of every beam is stored\<close>

text \<open>
  The kernel relies on more than the checks: there must be room for the batch, the beams and the
  step, and the value cache must be laid out as the key cache.
\<close>

definition decoder_ready :: "'v strided \<Rightarrow> 'v strided \<Rightarrow> 'v strided \<Rightarrow> 'v strided \<Rightarrow> int buffer \<Rightarrow> bool" where
  "decoder_ready proj_k proj_v kc vc step_tensor \<longleftrightarrow>
     decoder_checks proj_k proj_v kc vc step_tensor = Inr () \<and>
     tensor_fits proj_k \<and> tensor_fits proj_v \<and> tensor_dense kc \<and> tensor_dense vc \<and>
     (\<forall>n \<in> set (bf_sizes proj_k). 0 \<le> n) \<and> bf_sizes proj_k ! 0 * bf_sizes proj_k ! 1 < 2 ^ 32 \<and>
     bf_sizes proj_k ! 0 \<le> bf_sizes kc ! 0 \<and> bf_sizes proj_k ! 1 \<le> bf_sizes kc ! 1 \<and>
     bf_data step_tensor \<noteq> [] \<and> 0 \<le> bf_data step_tensor ! 0 \<and> bf_data step_tensor ! 0 < bf_sizes kc ! 2"

lemma four: "length xs = 4 \<Longrightarrow> xs = [xs ! 0, xs ! 1, xs ! 2, xs ! 3]"
  by (auto simp: length_Suc_conv numeral_eq_Suc)

lemma five: "length xs = 5 \<Longrightarrow> xs = [xs ! 0, xs ! 1, xs ! 2, xs ! 3, xs ! 4]"
  by (auto simp: length_Suc_conv numeral_eq_Suc)

lemma decoder_ready_shape:
  assumes "decoder_ready proj_k proj_v kc vc step_tensor"
  shows "\<exists>b n heads dim ks0 ks1 vs0 vs1 B N S. bf_sizes proj_k = [b, n, heads, dim] \<and> bf_sizes proj_v = [b, n, heads, dim] \<and>
      st_strides proj_k = [ks0, ks1, dim, 1] \<and> st_strides proj_v = [vs0, vs1, dim, 1] \<and>
      0 < b \<and> 0 < n \<and> b * n \<le> 65535 \<and> 0 < heads \<and> 0 < dim \<and> b \<le> B \<and> n \<le> N \<and>
      (\<forall>t \<in> {kc, vc}. bf_sizes t = [B, N, S, heads, dim] \<and>
         st_strides t = [N * (S * (heads * dim)), S * (heads * dim), heads * dim, dim, 1] \<and>
         int (length (bf_data t)) = B * N * S * (heads * dim)) \<and>
      dim sdiv vec_width (bf_type proj_k) * vec_width (bf_type proj_k) = dim \<and> 0 < dim sdiv vec_width (bf_type proj_k) \<and>
      0 \<le> bf_data step_tensor ! 0 \<and> bf_data step_tensor ! 0 < S \<and> uint32 (b * n) = b * n \<and> xattn_launch_check (b * n) = Inr ()"
proof -
  have c: "decoder_shape_checks proj_k proj_v kc vc step_tensor = Inr ()"
    "vector_checks proj_k (bf_sizes proj_k ! 2) (bf_sizes proj_k ! 3) = Inr ()"
    "xattn_launch_check (bf_sizes proj_k ! 0 * bf_sizes proj_k ! 1) = Inr ()"
    using assms by (simp_all add: decoder_ready_def decoder_checks_def result_simps)
  note sh = c(1) [unfolded decoder_shape_checks_def Let_def]
  have len: "length (bf_sizes proj_k) = 4" "length (bf_sizes kc) = 5"
    using sh by (simp_all add: bf_dim_def result_simps)
  obtain b n heads dim where k: "bf_sizes proj_k = [b, n, heads, dim]" using four [OF len(1)] by blast
  then have v: "bf_sizes proj_v = [b, n, heads, dim]" using sh by (simp add: result_simps)
  have fits: "length (st_strides proj_k) = 4" "length (st_strides proj_v) = 4"
    using assms k v by (simp_all add: decoder_ready_def tensor_fits_def)
  have st: "st_strides proj_k = [st_strides proj_k ! 0, st_strides proj_k ! 1, dim, 1]"
    "st_strides proj_v = [st_strides proj_v ! 0, st_strides proj_v ! 1, dim, 1]"
    using four [OF fits(1)] four [OF fits(2)] sh k by (simp_all add: result_simps)
  obtain B N S where kc: "bf_sizes kc = [B, N, S, heads, dim]" using five [OF len(2)] sh k by (simp add: result_simps)
  then have vc: "bf_sizes vc = [B, N, S, heads, dim]" using sh by (simp add: result_simps)
  have z: "0 \<le> b" "0 \<le> n" "0 \<le> heads" "0 \<le> dim" "b * n < 2 ^ 32" "b \<le> B" "n \<le> N"
    "0 \<le> bf_data step_tensor ! 0" "bf_data step_tensor ! 0 < S"
    using assms k kc by (simp_all add: decoder_ready_def)
  note vec = vector_checks_ok [OF c(2), unfolded k, simplified, OF z(3,4)]
  have u: "uint32 (b * n) = b * n" using z by (simp add: uint32_def take_bit_int_eq_self)
  then have "0 < b * n" "b * n \<le> 65535" using c(3) k by (simp_all add: xattn_launch_check_def result_simps)
  then have bn: "0 < b" "0 < n" "b * n \<le> 65535" using z by (auto simp: zero_less_mult_iff)
  have "\<forall>t \<in> {kc, vc}. bf_sizes t = [B, N, S, heads, dim] \<and>
      st_strides t = [N * (S * (heads * dim)), S * (heads * dim), heads * dim, dim, 1] \<and>
      int (length (bf_data t)) = B * N * S * (heads * dim)"
    using assms kc vc by (auto simp: decoder_ready_def tensor_dense_def bf_numel_def)
  moreover have "xattn_launch_check (b * n) = Inr ()" using c(3) k by simp
  ultimately show ?thesis using k v st bn vec z u by blast
qed


lemma tensor_fitsD4:
  assumes "tensor_fits t" "bf_sizes t = [a, b, c, e]" "st_strides t = [s, r, q, 1]"
    and "0 \<le> i" "i < a" "0 \<le> j" "j < b" "0 \<le> h" "h < c" "0 \<le> d" "d < e"
  shows "in_array (bf_data t) (i * s + j * r + (h * q + d))"
proof -
  have "within (bf_sizes t) [i, j, h, d]" using assms by simp
  then have "in_array (bf_data t) (offset_of (st_strides t) [i, j, h, d])" using assms(1) unfolding tensor_fits_def by blast
  then show ?thesis by (simp add: assms(3) add.assoc)
qed

text \<open>The row of a beam at a step, and the rows the tokens of the batch go to.\<close>

definition beam_row :: "int \<Rightarrow> int \<Rightarrow> int \<Rightarrow> int \<Rightarrow> int \<Rightarrow> int" where
  "beam_row N S r i s = (r * N + i) * S + s"

lemma beam_row_inject:
  assumes "0 \<le> i" "i < N" "0 \<le> i'" "i' < N" "0 \<le> s" "s < S" "0 \<le> s'" "s' < S"
  shows "beam_row N S r i s = beam_row N S r' i' s' \<longleftrightarrow> r = r' \<and> i = i' \<and> s = s'"
  using digit_inject [of s S s' "r * N + i" "r' * N + i'"] digit_inject [of i N i' r r'] assms
  by (auto simp: beam_row_def)

lemma beam_row_bounds:
  assumes "0 \<le> r" "r < B" "0 \<le> i" "i < N" "0 \<le> s" "s < S"
  shows "0 \<le> beam_row N S r i s" and "beam_row N S r i s < B * N * S"
  using digit_bounds [OF digit_bounds(1) [OF assms(1-4)] digit_bounds(2) [OF assms(1-4)] assms(5,6)]
  by (simp_all add: beam_row_def)

lemma rows_apart:
  assumes "(a::int) \<noteq> b" and "0 < w"
  shows "a * w + w \<le> b * w \<or> b * w + w \<le> a * w"
proof (cases "a < b")
  case True
  then have "(a + 1) * w \<le> b * w" using assms(2) by (intro mult_right_mono) simp_all
  then show ?thesis by (simp add: algebra_simps)
next
  case False
  then have "(b + 1) * w \<le> a * w" using assms by (intro mult_right_mono) simp_all
  then show ?thesis by (simp add: algebra_simps)
qed

lemma token_digits:
  assumes "0 \<le> t" "t < b * n" "0 < (n::int)"
  shows "0 \<le> t div n" "t div n < b" "0 \<le> t mod n" "t mod n < n"
proof -
  show "0 \<le> t div n" "0 \<le> t mod n" "t mod n < n" using assms by (simp_all add: pos_imp_zdiv_nonneg_iff)
  show "t div n < b"
  proof (rule ccontr)
    assume "\<not> t div n < b"
    then have "b * n \<le> t div n * n" using assms(3) by simp
    also have "\<dots> \<le> t" using assms(3) by (simp flip: minus_mod_eq_div_mult)
    finally show False using assms(2) by simp
  qed
qed

text \<open>One of the two caches.\<close>

lemma decoder_half:
  fixes p t :: "'v strided"
  assumes xs: "set xs = {0..<b * n} \<times> {0..<heads * vph}" and vec: "vph * W = dim" "0 < W" "0 < vph" "0 < heads"
    and p: "tensor_fits p" "bf_sizes p = [b, n, heads, dim]" "st_strides p = [s0, s1, dim, 1]"
    and t: "bf_sizes t = [B, N, S, heads, dim]" "st_strides t = [N * (S * (heads * dim)), S * (heads * dim), heads * dim, dim, 1]"
      "int (length (bf_data t)) = B * N * S * (heads * dim)"
    and r: "0 < n" "b \<le> B" "n \<le> N" "0 \<le> st" "st < S"
    and f: "\<forall>i j m. 0 \<le> i \<and> i < b * n \<and> 0 \<le> j \<and> j < heads * vph \<longrightarrow>
      f (i, j) m = copy_vec W (bf_data p) (i div n * s0 + i mod n * s1 + (j sdiv vph * dim + (j - j sdiv vph * vph) * W))
        (beam_row N S (i div n) (i mod n) st * (heads * dim) + (j sdiv vph * dim + (j - j sdiv vph * vph) * W)) m"
  shows "\<exists>c. rfold f xs (bf_data t) = Inr c \<and> length c = length (bf_data t) \<and>
    (\<forall>q i s h d. within (bf_sizes t) [q, i, s, h, d] \<longrightarrow> tensor_at (t\<lparr>bf_data := c\<rparr>) [q, i, s, h, d] =
       (if q < b \<and> i < n \<and> s = st then tensor_at p [q, i, h, d] else tensor_at t [q, i, s, h, d]))"
proof -
  let ?w = "heads * dim"
  let ?row = "\<lambda>k. beam_row N S (k div n) (k mod n) st"
  let ?sb = "\<lambda>k. k div n * s0 + k mod n * s1"
  have dim: "0 < dim" and w: "0 < ?w" using vec by auto
  have row: "0 \<le> ?row k" "?row k < B * N * S" if "0 \<le> k" "k < b * n" for k
    using beam_row_bounds [of "k div n" B "k mod n" N st S] token_digits [OF that r(1)] r by simp_all
  have src: "\<forall>k h d. 0 \<le> k \<and> k < b * n \<and> 0 \<le> h \<and> h < heads \<and> 0 \<le> d \<and> d < dim \<longrightarrow> in_array (bf_data p) (?sb k + (h * dim + d))"
  proof (intro allI impI)
    fix k h d assume a: "0 \<le> k \<and> k < b * n \<and> 0 \<le> h \<and> h < heads \<and> 0 \<le> d \<and> d < dim"
    note k = token_digits [OF _ _ r(1), of k b]
    show "in_array (bf_data p) (?sb k + (h * dim + d))"
      by (rule tensor_fitsD4 [OF p]) (use a k in simp_all)
  qed
  have dst: "\<forall>k. 0 \<le> k \<and> k < b * n \<longrightarrow> 0 \<le> ?row k * ?w \<and> ?row k * ?w + ?w \<le> int (length (bf_data t))"
  proof (intro allI impI)
    fix k assume k: "0 \<le> k \<and> k < b * n"
    have "(?row k + 1) * ?w \<le> B * N * S * ?w" using row(2) [of k] k w by (intro mult_right_mono) simp_all
    moreover have "0 \<le> ?row k * ?w" using row(1) [of k] k w by (simp add: mult_nonneg_nonneg less_imp_le)
    moreover have "(?row k + 1) * ?w = ?row k * ?w + ?w" by (simp add: distrib_right)
    ultimately show "0 \<le> ?row k * ?w \<and> ?row k * ?w + ?w \<le> int (length (bf_data t))" unfolding t(3) by simp
  qed
  have inj: "?row k = beam_row N S q i s \<longleftrightarrow> k div n = q \<and> k mod n = i \<and> st = s"
    if "0 \<le> k" "k < b * n" "0 \<le> i" "i < N" "0 \<le> s" "s < S" for k q i s
    using beam_row_inject [of "k mod n" N i st S s "k div n" q] token_digits [OF that(1,2) r(1)] that r by simp
  have apart: "\<forall>k u. 0 \<le> k \<and> k < u \<and> u < b * n \<longrightarrow> ?row k * ?w + ?w \<le> ?row u * ?w \<or> ?row u * ?w + ?w \<le> ?row k * ?w"
  proof (intro allI impI)
    fix k u assume ku: "0 \<le> k \<and> k < u \<and> u < b * n"
    have "k = u" if "k div n = u div n" "k mod n = u mod n" using that by (metis div_mult_mod_eq)
    moreover have "u mod n < N" using pos_mod_bound [OF r(1), of u] r(3) by linarith
    ultimately have "?row k \<noteq> ?row u"
      using inj [of k "u mod n" st "u div n"] token_digits [of u b n] ku r by auto
    then show "?row k * ?w + ?w \<le> ?row u * ?w \<or> ?row u * ?w + ?w \<le> ?row k * ?w" using w by (rule rows_apart)
  qed
  obtain c where c: "rfold f xs (bf_data t) = Inr c" "length c = length (bf_data t)"
    "\<forall>k h d. 0 \<le> k \<and> k < b * n \<and> 0 \<le> h \<and> h < heads \<and> 0 \<le> d \<and> d < dim \<longrightarrow>
       c ! nat (?row k * ?w + (h * dim + d)) = bf_data p ! nat (?sb k + (h * dim + d))"
    "\<forall>a. 0 \<le> a \<and> a < int (length (bf_data t)) \<and>
       (\<forall>k. 0 \<le> k \<and> k < b * n \<longrightarrow> a < ?row k * ?w \<or> ?row k * ?w + ?w \<le> a) \<longrightarrow> c ! nat a = bf_data t ! nat a"
    using head_rows_result [OF xs vec f src dst apart] by (elim exE conjE) (rule that)
  have "tensor_at (t\<lparr>bf_data := c\<rparr>) [q, i, s, h, d] =
      (if q < b \<and> i < n \<and> s = st then tensor_at p [q, i, h, d] else tensor_at t [q, i, s, h, d])"
    if "within (bf_sizes t) [q, i, s, h, d]" for q i s h d
  proof -
    have x: "0 \<le> q" "q < B" "0 \<le> i" "i < N" "0 \<le> s" "s < S" "0 \<le> h" "h < heads" "0 \<le> d" "d < dim"
      using that by (simp_all add: t(1))
    note e = element_of_row [OF x(7-10)]
    let ?R = "beam_row N S q i s"
    let ?a = "?R * ?w + (h * dim + d)"
    have a: "0 \<le> ?a" "?a < int (length (bf_data t))"
      using digit_bounds [OF beam_row_bounds [OF x(1-6)] e] unfolding t(3) by simp_all
    have "c ! nat ?a = (if q < b \<and> i < n \<and> s = st then bf_data p ! nat (q * s0 + i * s1 + (h * dim + d)) else bf_data t ! nat ?a)"
    proof (cases "q < b \<and> i < n \<and> s = st")
      case True
      then have k: "0 \<le> q * n + i" "q * n + i < b * n" "(q * n + i) div n = q" "(q * n + i) mod n = i"
        using digit_bounds [of q b i n] digit_div_mod [of i n q] x by simp_all
      then show ?thesis using c(3) [rule_format, of "q * n + i" h d] x True by simp
    next
      case False
      have "?a < ?row k * ?w \<or> ?row k * ?w + ?w \<le> ?a" if k: "0 \<le> k" "k < b * n" for k
      proof -
        have "?row k \<noteq> ?R" using inj [OF k x(3-6), of q] token_digits [OF k r(1)] False by auto
        then have "?row k * ?w + ?w \<le> ?R * ?w \<or> ?R * ?w + ?w \<le> ?row k * ?w" using w by (rule rows_apart)
        then show ?thesis using e by linarith
      qed
      then have "c ! nat ?a = bf_data t ! nat ?a" using spec [OF c(4), of ?a] a by blast
      then show ?thesis unfolding if_not_P [OF False] .
    qed
    moreover have "offset_of (st_strides t) [q, i, s, h, d] = ?a"
      by (simp add: t(2) beam_row_def algebra_simps)
    moreover have "offset_of (st_strides p) [q, i, h, d] = q * s0 + i * s1 + (h * dim + d)" by (simp add: p(3))
    ultimately show ?thesis by (simp add: tensor_at_def)
  qed
  then show ?thesis using c(1,2) by blast
qed

text \<open>Both caches.\<close>

lemma decoder_stores:
  assumes ready: "decoder_ready proj_k proj_v kc vc step_tensor"
    and sched: "xattn_schedule (bf_sizes proj_k ! 0 * bf_sizes proj_k ! 1) (decoder_total_vecs proj_k) xs"
  shows "\<exists>kd vd. decoder_reshape_and_cache xs proj_k proj_v kc vc step_tensor = Inr (kc\<lparr>bf_data := kd\<rparr>, vc\<lparr>bf_data := vd\<rparr>) \<and>
    length kd = length (bf_data kc) \<and> length vd = length (bf_data vc) \<and>
    (\<forall>r i s h d. within (bf_sizes kc) [r, i, s, h, d] \<longrightarrow>
       (let stored = r < bf_sizes proj_k ! 0 \<and> i < bf_sizes proj_k ! 1 \<and> s = bf_data step_tensor ! 0 in
        tensor_at (kc\<lparr>bf_data := kd\<rparr>) [r, i, s, h, d] =
          (if stored then tensor_at proj_k [r, i, h, d] else tensor_at kc [r, i, s, h, d]) \<and>
        tensor_at (vc\<lparr>bf_data := vd\<rparr>) [r, i, s, h, d] =
          (if stored then tensor_at proj_v [r, i, h, d] else tensor_at vc [r, i, s, h, d])))"
proof -
  obtain b n heads dim ks0 ks1 vs0 vs1 B N S where sh: "bf_sizes proj_k = [b, n, heads, dim]" "bf_sizes proj_v = [b, n, heads, dim]"
      "st_strides proj_k = [ks0, ks1, dim, 1]" "st_strides proj_v = [vs0, vs1, dim, 1]"
    and pos: "0 < b" "0 < n" "b * n \<le> 65535" "0 < heads" "0 < dim" "b \<le> B" "n \<le> N"
    and caches: "\<forall>t \<in> {kc, vc}. bf_sizes t = [B, N, S, heads, dim] \<and>
         st_strides t = [N * (S * (heads * dim)), S * (heads * dim), heads * dim, dim, 1] \<and>
         int (length (bf_data t)) = B * N * S * (heads * dim)"
    and vec: "dim sdiv vec_width (bf_type proj_k) * vec_width (bf_type proj_k) = dim" "0 < dim sdiv vec_width (bf_type proj_k)"
    and st: "0 \<le> bf_data step_tensor ! 0" "bf_data step_tensor ! 0 < S"
    and launch: "uint32 (b * n) = b * n" "xattn_launch_check (b * n) = Inr ()"
    using decoder_ready_shape [OF ready] by (elim exE conjE) (rule that)
  have kc: "bf_sizes kc = [B, N, S, heads, dim]" "st_strides kc = [N * (S * (heads * dim)), S * (heads * dim), heads * dim, dim, 1]"
      "int (length (bf_data kc)) = B * N * S * (heads * dim)"
    and vc: "bf_sizes vc = [B, N, S, heads, dim]" "st_strides vc = [N * (S * (heads * dim)), S * (heads * dim), heads * dim, dim, 1]"
      "int (length (bf_data vc)) = B * N * S * (heads * dim)" using caches by simp_all
  let ?W = "vec_width (bf_type proj_k)"
  let ?vph = "dim sdiv ?W"
  let ?st = "bf_data step_tensor ! 0"
  let ?off = "\<lambda>j. j sdiv ?vph * dim + (j - j sdiv ?vph * ?vph) * ?W"
  let ?copy = "\<lambda>src s0 s1 x. copy_vec ?W src (fst x div n * s0 + fst x mod n * s1 + ?off (snd x))
      (beam_row N S (fst x div n) (fst x mod n) ?st * (heads * dim) + ?off (snd x))"
  have W: "0 < ?W" by (simp add: vec_width_def)
  have checks: "decoder_checks proj_k proj_v kc vc step_tensor = Inr ()" and fits: "tensor_fits proj_k" "tensor_fits proj_v"
    and step: "array_load (bf_data step_tensor) 0 = Inr ?st"
    using ready by (simp_all add: decoder_ready_def array_load_def in_array_def)
  have xs: "set xs = {0..<b * n} \<times> {0..<heads * ?vph}"
    using sched launch(2) pos vec(2) by (intro xattn_visits) (simp_all add: sh decoder_total_vecs_def)
  have f: "\<forall>i j m. 0 \<le> i \<and> i < b * n \<and> 0 \<le> j \<and> j < heads * ?vph \<longrightarrow>
      ?copy src s0 s1 (i, j) m = copy_vec ?W src (i div n * s0 + i mod n * s1 + ?off j)
        (beam_row N S (i div n) (i mod n) ?st * (heads * dim) + ?off j) m" for src s0 s1 by simp
  obtain kd where kd: "rfold (?copy (bf_data proj_k) ks0 ks1) xs (bf_data kc) = Inr kd" "length kd = length (bf_data kc)"
      "\<forall>q i s h d. within (bf_sizes kc) [q, i, s, h, d] \<longrightarrow> tensor_at (kc\<lparr>bf_data := kd\<rparr>) [q, i, s, h, d] =
       (if q < b \<and> i < n \<and> s = ?st then tensor_at proj_k [q, i, h, d] else tensor_at kc [q, i, s, h, d])"
    using decoder_half [OF xs vec(1) W vec(2) pos(4) fits(1) sh(1,3) kc pos(2,6,7) st f] by (elim exE conjE) (rule that)
  obtain vd where vd: "rfold (?copy (bf_data proj_v) vs0 vs1) xs (bf_data vc) = Inr vd" "length vd = length (bf_data vc)"
      "\<forall>q i s h d. within (bf_sizes vc) [q, i, s, h, d] \<longrightarrow> tensor_at (vc\<lparr>bf_data := vd\<rparr>) [q, i, s, h, d] =
       (if q < b \<and> i < n \<and> s = ?st then tensor_at proj_v [q, i, h, d] else tensor_at vc [q, i, s, h, d])"
    using decoder_half [OF xs vec(1) W vec(2) pos(4) fits(2) sh(2,4) vc pos(2,6,7) st f] by (elim exE conjE) (rule that)
  let ?g = "decoder_args_of proj_k proj_v kc ?st"
  have one: "decoder_cache_step ?g (bf_data proj_k) (bf_data proj_v) x (a, c) =
      rbind (?copy (bf_data proj_k) ks0 ks1 x a) (\<lambda>a'. rbind (?copy (bf_data proj_v) vs0 vs1 x c) (\<lambda>c'. Inr (a', c')))"
    if "x \<in> set xs" for x a c
  proof -
    have x: "0 \<le> fst x" "fst x < b * n" using that xs by auto
    have d: "fst x sdiv n = fst x div n" "fst x - fst x div n * n = fst x mod n"
      using x pos(2) by (simp_all add: sdiv_nonneg minus_div_mult_eq_mod)
    have base: "i * (N * (S * (heads * dim))) + j * (S * (heads * dim)) + ?st * (heads * dim) + y + z =
        beam_row N S i j ?st * (heads * dim) + (y + z)" for i j y z
      by (simp add: beam_row_def algebra_simps)
    have group: "i * ks0 + j * ks1 + y + z = i * ks0 + j * ks1 + (y + z)"
      "i * vs0 + j * vs1 + y + z = i * vs0 + j * vs1 + (y + z)" for i j y z :: int by simp_all
    have run: "decoder_cache_step ?g (bf_data proj_k) (bf_data proj_v) x (a, c) =
      rbind (copy_vec ?W (bf_data proj_k) (fst x div n * ks0 + fst x mod n * ks1 + snd x sdiv ?vph * dim + (snd x - snd x sdiv ?vph * ?vph) * ?W)
        (fst x div n * (N * (S * (heads * dim))) + fst x mod n * (S * (heads * dim)) + ?st * (heads * dim) +
         snd x sdiv ?vph * dim + (snd x - snd x sdiv ?vph * ?vph) * ?W) a) (\<lambda>a'.
      rbind (copy_vec ?W (bf_data proj_v) (fst x div n * vs0 + fst x mod n * vs1 + snd x sdiv ?vph * dim + (snd x - snd x sdiv ?vph * ?vph) * ?W)
        (fst x div n * (N * (S * (heads * dim))) + fst x mod n * (S * (heads * dim)) + ?st * (heads * dim) +
         snd x sdiv ?vph * dim + (snd x - snd x sdiv ?vph * ?vph) * ?W) c) (\<lambda>c'. Inr (a', c')))"
      using x by (simp add: decoder_cache_step_def decoder_args_of_def sh kc split_def Let_def d)
    show ?thesis unfolding run by (simp only: base group)
  qed
  have "rfold (decoder_cache_step ?g (bf_data proj_k) (bf_data proj_v)) xs (bf_data kc, bf_data vc) = Inr (kd, vd)"
    by (rule rfold_pair [OF one kd(1) vd(1)])
  then have "decoder_reshape_and_cache xs proj_k proj_v kc vc step_tensor = Inr (kc\<lparr>bf_data := kd\<rparr>, vc\<lparr>bf_data := vd\<rparr>)"
    by (simp add: decoder_reshape_and_cache_def checks step)
  then show ?thesis
    using kd(2,3) vd(2,3) by (intro exI [of _ kd] exI [of _ vd]) (simp add: sh kc vc Let_def)
qed

text \<open>
  C38: For every order of the threads, a decode step that passes the checks and finds room in the
  caches stores the key and the value of the token of every beam at the step, and changes no
  entry of another step, beam or request.
\<close>

theorem decoder_stores_tokens:
  assumes ready: "decoder_ready proj_k proj_v kc vc step_tensor"
    and sched: "xattn_schedule (bf_sizes proj_k ! 0 * bf_sizes proj_k ! 1) (decoder_total_vecs proj_k) xs"
  shows "\<exists>kd vd. decoder_reshape_and_cache xs proj_k proj_v kc vc step_tensor = Inr (kc\<lparr>bf_data := kd\<rparr>, vc\<lparr>bf_data := vd\<rparr>) \<and>
    length kd = length (bf_data kc) \<and> length vd = length (bf_data vc) \<and>
    (\<forall>r i s h d. within (bf_sizes kc) [r, i, s, h, d] \<longrightarrow>
       (let stored = r < bf_sizes proj_k ! 0 \<and> i < bf_sizes proj_k ! 1 \<and> s = bf_data step_tensor ! 0 in
        tensor_at (kc\<lparr>bf_data := kd\<rparr>) [r, i, s, h, d] =
          (if stored then tensor_at proj_k [r, i, h, d] else tensor_at kc [r, i, s, h, d]) \<and>
        tensor_at (vc\<lparr>bf_data := vd\<rparr>) [r, i, s, h, d] =
          (if stored then tensor_at proj_v [r, i, h, d] else tensor_at vc [r, i, s, h, d])))"
  by (rule decoder_stores [OF assms])

text \<open>A prompt of more tokens than a grid is high is refused.\<close>

lemma long_prompt_refused:
  assumes "bf_sizes proj_k ! 0 = n" and "65535 < n" "n < 2 ^ 32"
  shows "\<exists>e. prefill_reshape_and_cache xs proj_k proj_v kc vc = Inl e"
proof -
  have "uint32 n = n" using assms by (simp add: uint32_def take_bit_int_eq_self)
  then have "xattn_launch_check (bf_sizes proj_k ! 0) \<noteq> Inr ()" using assms by (simp add: xattn_launch_check_def result_simps)
  then have "prefill_checks proj_k proj_v kc vc \<noteq> Inr ()" by (simp add: prefill_checks_def result_simps)
  then show ?thesis by (cases "prefill_checks proj_k proj_v kc vc") (simp_all add: prefill_reshape_and_cache_def)
qed

end
