(* ===== verification/Beam_Rounds.thy ===== *)
theory Beam_Rounds
  imports Beam_Search Beam_Cache
begin

text \<open>
  A decode round: the layers write the keys and values of the tokens taken last
  (\<open>Beam_Cache\<close>), the beams are searched (\<open>Beam_Search\<close>) and the caches reordered (\<open>Beam_Select\<close>). The
  invariant of the loop relates the caches to the sequences.
\<close>

section \<open>A decode round\<close>

text \<open>
  The loop of \<^verbatim>\<open>LlmRecMultiRoundPipeline::step\<close>, which calls the kernels: in a round after the first
  the model writes the keys and values of the tokens taken last into the caches of its layers,
  at the step of the round before; then the beams are searched, and unless the round is the last,
  the caches are reordered, in an order of the threads that may depend on the indices. The caches
  are allocated row by row.
\<close>

definition as_strided :: "'v buffer \<Rightarrow> 'v strided" where
  "as_strided t = \<lparr>bf_cuda = bf_cuda t, bf_device = bf_device t, bf_type = bf_type t, bf_contiguous = bf_contiguous t,
     bf_address = bf_address t, bf_sizes = bf_sizes t, bf_data = bf_data t, st_strides = row_major (bf_sizes t)\<rparr>"

definition round_tensor :: "int \<Rightarrow> int buffer" where
  "round_tensor round = \<lparr>bf_cuda = True, bf_device = 0, bf_type = kInt32, bf_contiguous = True, bf_address = 0,
     bf_sizes = [1], bf_data = [round - 1]\<rparr>"

text \<open>What the model gives a layer: an order of its threads, the keys and the values.\<close>

type_synonym 'v layer_tokens = "(int \<times> int) list \<times> 'v strided \<times> 'v strided"

definition write_token ::
  "int buffer \<Rightarrow> 'v layer_tokens \<times> 'v buffer \<times> 'v buffer \<Rightarrow> ('v buffer \<times> 'v buffer) result" where
  "write_token step_tensor l = (let ((xs, key, value), k, v) = l in
     rbind (decoder_reshape_and_cache xs key value (as_strided k) (as_strided v) step_tensor) (\<lambda>(k', v').
     Inr (k\<lparr>bf_data := bf_data k'\<rparr>, v\<lparr>bf_data := bf_data v'\<rparr>)))"

definition write_tokens ::
  "int buffer \<Rightarrow> 'v layer_tokens list \<Rightarrow> 'v buffer list \<Rightarrow> 'v buffer list \<Rightarrow> ('v buffer list \<times> 'v buffer list) result" where
  "write_tokens step_tensor layers ks vs =
     rbind (rmap (write_token step_tensor) (zip layers (zip ks vs))) (\<lambda>r. Inr (map fst r, map snd r))"

definition search_round ::
  "'p beam_ops \<Rightarrow> (int buffer \<Rightarrow> copies) \<Rightarrow> 'p buffer \<Rightarrow> int buffer \<Rightarrow> int buffer \<Rightarrow> 'p buffer \<Rightarrow> 'p beam_out \<Rightarrow>
   int buffer \<Rightarrow> int \<Rightarrow> int \<Rightarrow> int \<Rightarrow> int \<Rightarrow> int \<Rightarrow> 'v buffer list \<Rightarrow> 'v buffer list \<Rightarrow>
   ('p beam_out \<times> 'v buffer list \<times> 'v buffer list) result" where
  "search_round ops order acc_logprob sequence_group top_tokens top_logprobs out block_table batch_size beam_width
     num_layers round total_rounds ks vs =
     rbind (beam_search ops acc_logprob sequence_group top_tokens top_logprobs out batch_size round) (\<lambda>out.
     if 0 < round \<and> round < total_rounds - 1 then
       rbind (cache_select (order (bo_token_index out)) (bo_token_index out) ks vs block_table (round - 1) beam_width num_layers)
         (\<lambda>(ks, vs). Inr (out, ks, vs))
     else Inr (out, ks, vs))"

definition decode_round ::
  "'p beam_ops \<Rightarrow> 'v layer_tokens list \<Rightarrow> (int buffer \<Rightarrow> copies) \<Rightarrow> 'p buffer \<Rightarrow> int buffer \<Rightarrow> int buffer \<Rightarrow> 'p buffer \<Rightarrow>
   'p beam_out \<Rightarrow> int buffer \<Rightarrow> int \<Rightarrow> int \<Rightarrow> int \<Rightarrow> int \<Rightarrow> int \<Rightarrow> 'v buffer list \<Rightarrow> 'v buffer list \<Rightarrow>
   ('p beam_out \<times> 'v buffer list \<times> 'v buffer list) result" where
  "decode_round ops layers order acc_logprob sequence_group top_tokens top_logprobs out block_table batch_size beam_width
     num_layers round total_rounds ks vs =
     rbind (write_tokens (round_tensor round) layers ks vs) (\<lambda>(ks, vs).
     search_round ops order acc_logprob sequence_group top_tokens top_logprobs out block_table batch_size beam_width
       num_layers round total_rounds ks vs)"

text \<open>
  The caches follow the sequences: the entry of a beam at a step is what the model makes of the
  tokens of the beam up to that step.
\<close>

definition tokens_so_far :: "int list \<Rightarrow> int \<Rightarrow> int \<Rightarrow> int \<Rightarrow> int \<Rightarrow> int \<Rightarrow> int list" where
  "tokens_so_far seqs n rounds req i s = map (\<lambda>p. seqs ! nat ((req * n + i) * rounds + p)) [0..s]"

definition caches_follow ::
  "(nat \<Rightarrow> int \<Rightarrow> int list \<Rightarrow> int \<Rightarrow> int \<Rightarrow> 'v) \<Rightarrow> 'v buffer list \<Rightarrow> int list \<Rightarrow> int \<Rightarrow> int \<Rightarrow> int \<Rightarrow> int \<Rightarrow> int \<Rightarrow> int \<Rightarrow> bool" where
  "caches_follow entry ks seqs batch n rounds heads dim steps \<longleftrightarrow>
     (\<forall>l < length ks. \<forall>req i s h d. 0 \<le> req \<and> req < batch \<and> 0 \<le> i \<and> i < n \<and> 0 \<le> s \<and> s < steps \<and>
        0 \<le> h \<and> h < heads \<and> 0 \<le> d \<and> d < dim \<longrightarrow>
        cache_entry ks l (req, i, s, h, d) = Inr (entry l req (tokens_so_far seqs n rounds req i s) h d))"

lemma cache_entry_at:
  assumes "l < length ks" and "bf_sizes (ks ! l) = [B, N, S, heads, dim]" and "within [B, N, S, heads, dim] [r, i, s, h, d]"
    and "int (length (bf_data (ks ! l))) = bf_numel (ks ! l)"
  shows "cache_entry ks l (r, i, s, h, d) = Inr (tensor_at (as_strided (ks ! l)) [r, i, s, h, d])"
proof -
  have x: "0 \<le> r" "r < B" "0 \<le> i" "i < N" "0 \<le> s" "s < S" "0 \<le> h" "h < heads" "0 \<le> d" "d < dim" using assms(3) by simp_all
  have row: "0 \<le> ((r * N + i) * S + s) * heads + h" "((r * N + i) * S + s) * heads + h < B * N * S * heads"
    using digit_bounds [OF beam_row_bounds [OF x(1-6)] x(7,8)] by (simp_all add: beam_row_def)
  have a: "in_array (bf_data (ks ! l)) ((((r * N + i) * S + s) * heads + h) * dim + d)"
    using digit_bounds [OF row x(9,10)] assms(4) by (simp add: in_array_def bf_numel_def assms(2) mult.assoc)
  have "offset_of (row_major [B, N, S, heads, dim]) [r, i, s, h, d] = (((r * N + i) * S + s) * heads + h) * dim + d"
    by (simp add: algebra_simps)
  moreover have "tensor_at (as_strided (ks ! l)) [r, i, s, h, d] =
      bf_data (ks ! l) ! nat (offset_of (row_major [B, N, S, heads, dim]) [r, i, s, h, d])"
    by (simp add: tensor_at_def as_strided_def assms(2) del: offset_of_simps row_major.simps)
  ultimately show ?thesis
    using a x assms(1) by (simp add: cache_entry_def Let_def assms(2) array_load_def del: offset_of_simps row_major.simps)
qed

lemma rmap_exists:
  assumes "\<forall>i < length xs. \<exists>y. f (xs ! i) = Inr y \<and> P i y"
  shows "\<exists>ys. rmap f xs = Inr ys \<and> length ys = length xs \<and> (\<forall>i < length xs. P i (ys ! i))"
proof -
  obtain g where g: "\<forall>i < length xs. f (xs ! i) = Inr (g i) \<and> P i (g i)" using assms by metis
  then show ?thesis by (intro exI [of _ "map g [0..<length xs]"]) (simp add: rmap_eq_Inr_iff)
qed

text \<open>The caches after the layers have written their tokens.\<close>

definition same_but_data :: "'v buffer \<Rightarrow> 'v buffer \<Rightarrow> bool" where
  "same_but_data t u \<longleftrightarrow> u = t\<lparr>bf_data := bf_data u\<rparr> \<and> length (bf_data u) = length (bf_data t)"

lemma same_but_data_fields:
  "same_but_data t u \<Longrightarrow> bf_sizes u = bf_sizes t \<and> bf_type u = bf_type t \<and> bf_cuda u = bf_cuda t \<and> bf_device u = bf_device t \<and>
     bf_contiguous u = bf_contiguous t \<and> bf_address u = bf_address t \<and> length (bf_data u) = length (bf_data t)"
  by (cases t; cases u) (simp add: same_but_data_def)

lemma select_ready_same:
  assumes "select_ready index ks vs block_table decode_step n layers"
    and "list_all2 same_but_data ks ks'" and "list_all2 same_but_data vs vs'"
  shows "select_ready index ks' vs' block_table decode_step n layers"
    and "select_copies index ks block_table decode_step n layers xs \<Longrightarrow> select_copies index ks' block_table decode_step n layers xs"
proof -
  have len: "length ks' = length ks" "length vs' = length vs" using assms(2,3) by (simp_all add: list_all2_lengthD)
  have pos: "0 < length ks" "0 < length vs"
    using select_ready_shape(1,2) [OF assms(1)] assms(1) by (auto simp: select_ready_def)
  have k: "same_but_data (ks ! i) (ks' ! i)" if "i < length ks" for i using assms(2) that by (rule list_all2_nthD)
  have v: "same_but_data (vs ! i) (vs' ! i)" if "i < length vs" for i using assms(3) that by (rule list_all2_nthD)
  note f0 = same_but_data_fields [OF k [OF pos(1)]] same_but_data_fields [OF v [OF pos(2)]]
  have layer: "select_layer_check (ks' ! 0) (ks' ! i) (vs' ! i) = select_layer_check (ks ! 0) (ks ! i) (vs ! i)"
    if "i < length ks" "i < length vs" for i
    using f0 same_but_data_fields [OF k [OF that(1)]] same_but_data_fields [OF v [OF that(2)]]
    by (simp add: select_layer_check_def)
  have loop: "rfold (\<lambda>(k, v) u. select_layer_check (ks' ! 0) k v) (zip ks' vs') () = Inr () \<longleftrightarrow>
      rfold (\<lambda>(k, v) u. select_layer_check (ks ! 0) k v) (zip ks vs) () = Inr ()"
    using layer by (simp add: select_layers_checked set_zip len) metis
  have checks: "cache_select_checks index ks' vs' block_table decode_step n layers = Inr ()"
    using assms(1) f0 loop unfolding select_ready_def cache_select_checks_def Let_def
    by (simp add: result_simps len bf_dim_def)
  have "int (length (bf_data t)) = bf_numel t" if "t \<in> set ks' \<union> set vs'" for t
  proof -
    from that obtain i where "i < length ks \<and> t = ks' ! i \<or> i < length vs \<and> t = vs' ! i"
      by (auto simp: in_set_conv_nth len)
    moreover have "\<forall>t \<in> set ks \<union> set vs. int (length (bf_data t)) = bf_numel t" using assms(1) by (simp add: select_ready_def)
    ultimately show ?thesis
      using same_but_data_fields [OF k [of i]] same_but_data_fields [OF v [of i]] nth_mem by (auto simp: bf_numel_def)
  qed
  then show "select_ready index ks' vs' block_table decode_step n layers"
    using assms(1) checks f0 by (simp add: select_ready_def)
  show "select_copies index ks block_table decode_step n layers xs \<Longrightarrow> select_copies index ks' block_table decode_step n layers xs"
    using f0 by (simp add: select_copies_def select_dims_of_def)
qed


text \<open>The layers of a round, as the writers need them.\<close>

definition layers_ready ::
  "'v layer_tokens list \<Rightarrow> int buffer \<Rightarrow> int \<Rightarrow> int \<Rightarrow> int \<Rightarrow> int \<Rightarrow> 'v buffer list \<Rightarrow> 'v buffer list \<Rightarrow> bool" where
  "layers_ready layers step_tensor batch n heads dim ks vs \<longleftrightarrow> length ks = length layers \<and> length vs = length layers \<and>
     (\<forall>l < length layers. let (xs, key, value) = layers ! l in
        decoder_ready key value (as_strided (ks ! l)) (as_strided (vs ! l)) step_tensor \<and>
        bf_sizes key = [batch, n, heads, dim] \<and> xattn_schedule (batch * n) (decoder_total_vecs key) xs)"

definition gives_tokens ::
  "(nat \<Rightarrow> int \<Rightarrow> int list \<Rightarrow> int \<Rightarrow> int \<Rightarrow> 'v) \<Rightarrow> 'v strided list \<Rightarrow> int list \<Rightarrow> int \<Rightarrow> int \<Rightarrow> int \<Rightarrow> int \<Rightarrow> int \<Rightarrow> int \<Rightarrow> bool" where
  "gives_tokens entry projs seqs batch n rounds heads dim step \<longleftrightarrow>
     (\<forall>l < length projs. \<forall>req i h d. 0 \<le> req \<and> req < batch \<and> 0 \<le> i \<and> i < n \<and> 0 \<le> h \<and> h < heads \<and> 0 \<le> d \<and> d < dim \<longrightarrow>
        tensor_at (projs ! l) [req, i, h, d] = entry l req (tokens_so_far seqs n rounds req i step) h d)"

lemma write_tokens_follow:
  assumes ready: "layers_ready layers (round_tensor round) batch n heads dim ks vs" and round: "0 < round"
    and k: "caches_follow key_of ks seqs batch n rounds heads dim (round - 1)"
      "gives_tokens key_of (map (fst \<circ> snd) layers) seqs batch n rounds heads dim (round - 1)"
    and v: "caches_follow value_of vs seqs batch n rounds heads dim (round - 1)"
      "gives_tokens value_of (map (snd \<circ> snd) layers) seqs batch n rounds heads dim (round - 1)"
  shows "\<exists>ks' vs'. write_tokens (round_tensor round) layers ks vs = Inr (ks', vs') \<and>
    list_all2 same_but_data ks ks' \<and> list_all2 same_but_data vs vs' \<and>
    caches_follow key_of ks' seqs batch n rounds heads dim round \<and> caches_follow value_of vs' seqs batch n rounds heads dim round"
proof -
  have len: "length ks = length layers" "length vs = length layers" using ready by (simp_all add: layers_ready_def)
  define stored where "stored = (\<lambda>entry l (t :: 'a buffer) u. same_but_data t u \<and>
    (\<forall>req i s h d. 0 \<le> req \<and> req < batch \<and> 0 \<le> i \<and> i < n \<and> 0 \<le> s \<and> s < round \<and> 0 \<le> h \<and> h < heads \<and> 0 \<le> d \<and> d < dim \<longrightarrow>
       (\<forall>us. us ! l = u \<and> l < length us \<longrightarrow> cache_entry us l (req, i, s, h, d) = Inr (entry l req (tokens_so_far seqs n rounds req i s) h d))))"
  have one: "\<exists>y. write_token (round_tensor round) (zip layers (zip ks vs) ! l) = Inr y \<and>
      stored key_of l (ks ! l) (fst y) \<and> stored value_of l (vs ! l) (snd y)" if l: "l < length layers" for l
  proof -
    obtain xs key val where layer: "layers ! l = (xs, key, val)" by (cases "layers ! l")
    have r: "decoder_ready key val (as_strided (ks ! l)) (as_strided (vs ! l)) (round_tensor round)"
      and key: "bf_sizes key = [batch, n, heads, dim]" and xs: "xattn_schedule (batch * n) (decoder_total_vecs key) xs"
      using ready l by (auto simp: layers_ready_def layer dest!: spec [of _ l])
    have sizes: "\<exists>B N S. \<forall>t \<in> {ks ! l, vs ! l}. bf_sizes t = [B, N, S, heads, dim] \<and>
        int (length (bf_data t)) = bf_numel t \<and> batch \<le> B \<and> n \<le> N \<and> round - 1 < S"
      using decoder_ready_shape [OF r] key by (auto simp: as_strided_def round_tensor_def bf_numel_def mult.assoc)
    then obtain B N S where sz: "\<forall>t \<in> {ks ! l, vs ! l}. bf_sizes t = [B, N, S, heads, dim] \<and> int (length (bf_data t)) = bf_numel t"
      and room: "batch \<le> B" "n \<le> N" "round - 1 < S" by auto
    have "xattn_schedule (bf_sizes key ! 0 * bf_sizes key ! 1) (decoder_total_vecs key) xs" using xs by (simp add: key)
    from decoder_stores [OF r this] obtain kd vd where
      run: "decoder_reshape_and_cache xs key val (as_strided (ks ! l)) (as_strided (vs ! l)) (round_tensor round) =
        Inr (as_strided (ks ! l)\<lparr>bf_data := kd\<rparr>, as_strided (vs ! l)\<lparr>bf_data := vd\<rparr>)"
      and lend: "length kd = length (bf_data (ks ! l))" "length vd = length (bf_data (vs ! l))"
      and entries: "\<forall>q i s h d. within (bf_sizes (as_strided (ks ! l))) [q, i, s, h, d] \<longrightarrow>
       (let stored = q < batch \<and> i < n \<and> s = round - 1 in
        tensor_at (as_strided (ks ! l)\<lparr>bf_data := kd\<rparr>) [q, i, s, h, d] =
          (if stored then tensor_at key [q, i, h, d] else tensor_at (as_strided (ks ! l)) [q, i, s, h, d]) \<and>
        tensor_at (as_strided (vs ! l)\<lparr>bf_data := vd\<rparr>) [q, i, s, h, d] =
          (if stored then tensor_at val [q, i, h, d] else tensor_at (as_strided (vs ! l)) [q, i, s, h, d]))"
      by (auto simp: key round_tensor_def as_strided_def [of "ks ! l"] as_strided_def [of "vs ! l"])
    have half: "stored entry l t (t\<lparr>bf_data := td\<rparr>)"
      if t: "t \<in> {ks ! l, vs ! l}" "length td = length (bf_data t)" "ts ! l = t" "l < length ts"
        and old: "caches_follow entry ts seqs batch n rounds heads dim (round - 1)"
        and new: "\<forall>req i h d. 0 \<le> req \<and> req < batch \<and> 0 \<le> i \<and> i < n \<and> 0 \<le> h \<and> h < heads \<and> 0 \<le> d \<and> d < dim \<longrightarrow>
          tensor_at p [req, i, h, d] = entry l req (tokens_so_far seqs n rounds req i (round - 1)) h d"
        and td: "\<forall>q i s h d. within [B, N, S, heads, dim] [q, i, s, h, d] \<longrightarrow> tensor_at (as_strided t\<lparr>bf_data := td\<rparr>) [q, i, s, h, d] =
          (if q < batch \<and> i < n \<and> s = round - 1 then tensor_at p [q, i, h, d] else tensor_at (as_strided t) [q, i, s, h, d])"
      for entry ts p td t
      unfolding stored_def
    proof (intro conjI allI impI)
      show "same_but_data t (t\<lparr>bf_data := td\<rparr>)" using t(2) by (simp add: same_but_data_def)
      fix req i s h d us
      assume a: "0 \<le> req \<and> req < batch \<and> 0 \<le> i \<and> i < n \<and> 0 \<le> s \<and> s < round \<and> 0 \<le> h \<and> h < heads \<and> 0 \<le> d \<and> d < dim"
        and us: "us ! l = t\<lparr>bf_data := td\<rparr> \<and> l < length us"
      have w: "within [B, N, S, heads, dim] [req, i, s, h, d]" using a room by simp
      have shape: "bf_sizes t = [B, N, S, heads, dim]" "int (length (bf_data t)) = bf_numel t" using sz t(1) by blast+
      have "cache_entry us l (req, i, s, h, d) = Inr (tensor_at (as_strided (us ! l)) [req, i, s, h, d])"
        by (rule cache_entry_at [OF _ _ w]) (use us shape t(2) in \<open>simp_all add: bf_numel_def\<close>)
      also have "as_strided (us ! l) = as_strided t\<lparr>bf_data := td\<rparr>" using us by (simp add: as_strided_def)
      finally have e: "cache_entry us l (req, i, s, h, d) =
          Inr (if s = round - 1 then tensor_at p [req, i, h, d] else tensor_at (as_strided t) [req, i, s, h, d])"
        using td w a by simp
      show "cache_entry us l (req, i, s, h, d) = Inr (entry l req (tokens_so_far seqs n rounds req i s) h d)"
      proof (cases "s = round - 1")
        case True
        then show ?thesis using e new a by simp
      next
        case False
        have "cache_entry ts l (req, i, s, h, d) = Inr (entry l req (tokens_so_far seqs n rounds req i s) h d)"
          using old a t(4) False by (simp add: caches_follow_def)
        moreover have "cache_entry ts l (req, i, s, h, d) = Inr (tensor_at (as_strided (ts ! l)) [req, i, s, h, d])"
          by (rule cache_entry_at [OF t(4) _ w]) (use shape t(3) in simp_all)
        ultimately show ?thesis using e t(3) False by simp
      qed
    qed
    have dims: "bf_sizes (as_strided (ks ! l)) = [B, N, S, heads, dim]" using sz by (simp add: as_strided_def)
    have lens: "l < length (map (fst \<circ> snd) layers)" "l < length (map (snd \<circ> snd) layers)" using l by simp_all
    have new: "\<forall>req i h d. 0 \<le> req \<and> req < batch \<and> 0 \<le> i \<and> i < n \<and> 0 \<le> h \<and> h < heads \<and> 0 \<le> d \<and> d < dim \<longrightarrow>
        tensor_at key [req, i, h, d] = key_of l req (tokens_so_far seqs n rounds req i (round - 1)) h d"
      "\<forall>req i h d. 0 \<le> req \<and> req < batch \<and> 0 \<le> i \<and> i < n \<and> 0 \<le> h \<and> h < heads \<and> 0 \<le> d \<and> d < dim \<longrightarrow>
        tensor_at val [req, i, h, d] = value_of l req (tokens_so_far seqs n rounds req i (round - 1)) h d"
      using k(2) [unfolded gives_tokens_def, rule_format, OF lens(1)] v(2) [unfolded gives_tokens_def, rule_format, OF lens(2)] l
      by (simp_all add: layer)
    have td: "\<forall>q i s h d. within [B, N, S, heads, dim] [q, i, s, h, d] \<longrightarrow> tensor_at (as_strided (ks ! l)\<lparr>bf_data := kd\<rparr>) [q, i, s, h, d] =
          (if q < batch \<and> i < n \<and> s = round - 1 then tensor_at key [q, i, h, d] else tensor_at (as_strided (ks ! l)) [q, i, s, h, d])"
      "\<forall>q i s h d. within [B, N, S, heads, dim] [q, i, s, h, d] \<longrightarrow> tensor_at (as_strided (vs ! l)\<lparr>bf_data := vd\<rparr>) [q, i, s, h, d] =
          (if q < batch \<and> i < n \<and> s = round - 1 then tensor_at val [q, i, h, d] else tensor_at (as_strided (vs ! l)) [q, i, s, h, d])"
      using entries unfolding dims Let_def by blast+
    have "stored key_of l (ks ! l) ((ks ! l)\<lparr>bf_data := kd\<rparr>)"
      by (rule half [OF _ lend(1) refl _ k(1) new(1) td(1)]) (use l len in simp_all)
    moreover have "stored value_of l (vs ! l) ((vs ! l)\<lparr>bf_data := vd\<rparr>)"
      by (rule half [OF _ lend(2) refl _ v(1) new(2) td(2)]) (use l len in simp_all)
    moreover have "write_token (round_tensor round) (zip layers (zip ks vs) ! l) =
        Inr ((ks ! l)\<lparr>bf_data := kd\<rparr>, (vs ! l)\<lparr>bf_data := vd\<rparr>)"
      using l len run by (simp add: write_token_def layer)
    ultimately show ?thesis by simp
  qed
  have z: "length (zip layers (zip ks vs)) = length layers" using len by simp
  have "\<forall>l < length (zip layers (zip ks vs)). \<exists>y. write_token (round_tensor round) (zip layers (zip ks vs) ! l) = Inr y \<and>
      stored key_of l (ks ! l) (fst y) \<and> stored value_of l (vs ! l) (snd y)"
    using one unfolding z by blast
  from rmap_exists [OF this] obtain ys where
    ys: "rmap (write_token (round_tensor round)) (zip layers (zip ks vs)) = Inr ys" "length ys = length layers"
      "\<forall>l < length layers. stored key_of l (ks ! l) (fst (ys ! l)) \<and> stored value_of l (vs ! l) (snd (ys ! l))"
    unfolding z by (elim exE conjE) (rule that)
  have "write_tokens (round_tensor round) layers ks vs = Inr (map fst ys, map snd ys)" by (simp add: write_tokens_def ys(1))
  moreover have "list_all2 same_but_data ks (map fst ys)" "list_all2 same_but_data vs (map snd ys)"
    using ys(2,3) len by (simp_all add: list_all2_conv_all_nth stored_def)
  moreover have "caches_follow key_of (map fst ys) seqs batch n rounds heads dim round"
    "caches_follow value_of (map snd ys) seqs batch n rounds heads dim round"
    using ys(2,3) by (simp_all add: caches_follow_def stored_def)
  ultimately show ?thesis by blast
qed

text \<open>Selecting keeps the tensors, but for their data.\<close>

lemma select_keeps_arrays:
  assumes "rfold select_step xs (k, v) = Inr (k', v')"
  shows "map length k' = map length k \<and> map length v' = map length v"
proof -
  have store: "arrays_store m a w = Inr m' \<Longrightarrow> map length m' = map length m" for m m' :: "'a list list" and a w
    by (auto simp: arrays_store_def array_store_def map_update list_update_same_conv split: if_splits)
  show ?thesis
    using rfold_invariant [OF assms, of "\<lambda>(a, b). map length a = map length k \<and> map length b = map length v"]
    by (fastforce simp: select_step_def copy_step_def rbind_eq_Inr_iff dest: store split: prod.splits)
qed

lemma cache_select_same:
  assumes "cache_select xs index ks vs block_table decode_step n num_layers = Inr (ks', vs')"
  shows "list_all2 same_but_data ks ks'" "list_all2 same_but_data vs vs'"
proof -
  have same: "list_all2 same_but_data ts (map2 (\<lambda>t d. t\<lparr>bf_data := d\<rparr>) ts ds)" if "map length ds = map length (map bf_data ts)"
    for ts :: "'a buffer list" and ds
  proof -
    have len: "length ds = length ts" using that by (metis length_map)
    have "length (ds ! i) = length (bf_data (ts ! i))" if "i < length ts" for i
      using \<open>map length ds = _\<close> that len by (metis (no_types, lifting) length_map nth_map)
    then show ?thesis using len by (simp add: list_all2_conv_all_nth same_but_data_def)
  qed
  have refl: "list_all2 same_but_data ts ts" for ts :: "'a buffer list"
    by (rule list_all2_refl) (simp add: same_but_data_def)
  have "list_all2 same_but_data ks ks' \<and> list_all2 same_but_data vs vs'"
    using assms refl by (auto simp: cache_select_def Let_def rbind_eq_Inr_iff split: if_splits
        dest!: select_keeps_arrays intro!: same)
  then show "list_all2 same_but_data ks ks'" "list_all2 same_but_data vs vs'" by simp_all
qed

lemma same_but_data_trans: "same_but_data t u \<Longrightarrow> same_but_data u v \<Longrightarrow> same_but_data t v"
  by (cases t; cases u; cases v) (simp add: same_but_data_def)

lemma caches_same_trans:
  "list_all2 same_but_data ts us \<Longrightarrow> list_all2 same_but_data us ws \<Longrightarrow> list_all2 same_but_data ts ws"
  by (rule list_all2_trans [OF same_but_data_trans])

text \<open>A round that is not the last keeps the caches those of the sequences.\<close>

lemma decode_round_follows:
  fixes ops :: "'p::linorder beam_ops"
  assumes ops: "beam_ops_ok ops" "beam_shapes acc seqs tokens probs out batch n rounds"
    and round: "0 < round" "round < rounds - 1"
    and layers: "layers_ready layers (round_tensor round) batch n heads dim ks vs"
    and search: "beam_search ops acc seqs tokens probs out batch round = Inr out'"
    and select: "select_ready (bo_token_index out') ks vs block_table (round - 1) n num_layers"
      "select_copies (bo_token_index out') ks block_table (round - 1) n num_layers (order (bo_token_index out'))"
    and keys: "caches_follow key_of ks (bf_data seqs) batch n rounds heads dim (round - 1)"
      "gives_tokens key_of (map (fst \<circ> snd) layers) (bf_data seqs) batch n rounds heads dim (round - 1)"
    and vals: "caches_follow value_of vs (bf_data seqs) batch n rounds heads dim (round - 1)"
      "gives_tokens value_of (map (snd \<circ> snd) layers) (bf_data seqs) batch n rounds heads dim (round - 1)"
  shows "\<exists>ks' vs'. decode_round ops layers order acc seqs tokens probs out block_table batch n num_layers round rounds ks vs =
      Inr (out', ks', vs') \<and> list_all2 same_but_data ks ks' \<and> list_all2 same_but_data vs vs' \<and>
    caches_follow key_of ks' (bf_data (bo_sequence_group out')) batch n rounds heads dim round \<and>
    caches_follow value_of vs' (bf_data (bo_sequence_group out')) batch n rounds heads dim round"
proof -
  obtain ks1 vs1 where stores: "write_tokens (round_tensor round) layers ks vs = Inr (ks1, vs1)"
    and same: "list_all2 same_but_data ks ks1" "list_all2 same_but_data vs vs1"
    and stored: "caches_follow key_of ks1 (bf_data seqs) batch n rounds heads dim round"
      "caches_follow value_of vs1 (bf_data seqs) batch n rounds heads dim round"
    using write_tokens_follow [OF layers round(1) keys vals] by blast
  note ready = select_ready_same(1) [OF select(1) same] select_ready_same(2) [OF select(1) same select(2)]
  obtain ks' vs' where move: "cache_select (order (bo_token_index out')) (bo_token_index out') ks1 vs1 block_table (round - 1) n num_layers = Inr (ks', vs')"
    and moved: "\<forall>req beam. 0 \<le> req \<and> req < batch \<and> 0 \<le> beam \<and> beam < n \<longrightarrow> (\<exists>parent. 0 \<le> parent \<and> parent < n \<and>
       (\<forall>r. 0 \<le> r \<and> r < round \<longrightarrow> bf_data (bo_sequence_group out') ! nat ((req * n + beam) * rounds + r) =
          bf_data seqs ! nat ((req * n + parent) * rounds + r)) \<and>
       (\<forall>layer < nat num_layers. \<forall>s kv d. s \<le> round - 1 \<longrightarrow>
          cache_entry ks' layer (req, beam, s, kv, d) = cache_entry ks1 layer (req, parent, s, kv, d) \<and>
          cache_entry vs' layer (req, beam, s, kv, d) = cache_entry vs1 layer (req, parent, s, kv, d)))"
    using beam_search_moves_caches [OF ops round search ready] by (elim exE conjE) (rule that)
  have len: "length ks1 = nat num_layers" "length vs1 = nat num_layers"
    using select_ready_shape(1,2) [OF ready(1)] by simp_all
  have len': "length ks' = nat num_layers" "length vs' = nat num_layers"
    using move len by (auto simp: cache_select_def Let_def rbind_eq_Inr_iff split: if_splits dest!: select_step_lengths)
  have follow: "caches_follow entry ts' (bf_data (bo_sequence_group out')) batch n rounds heads dim round"
    if "caches_follow entry ts (bf_data seqs) batch n rounds heads dim round" "length ts = nat num_layers" "length ts' = nat num_layers"
      and t: "\<forall>req beam. 0 \<le> req \<and> req < batch \<and> 0 \<le> beam \<and> beam < n \<longrightarrow> (\<exists>parent. 0 \<le> parent \<and> parent < n \<and>
       (\<forall>r. 0 \<le> r \<and> r < round \<longrightarrow> bf_data (bo_sequence_group out') ! nat ((req * n + beam) * rounds + r) =
          bf_data seqs ! nat ((req * n + parent) * rounds + r)) \<and>
       (\<forall>layer < nat num_layers. \<forall>s kv d. s \<le> round - 1 \<longrightarrow>
          cache_entry ts' layer (req, beam, s, kv, d) = cache_entry ts layer (req, parent, s, kv, d)))"
    for entry ts ts'
    unfolding caches_follow_def
  proof (intro allI impI)
    fix l req i s h d
    assume l: "l < length ts'" and a: "0 \<le> req \<and> req < batch \<and> 0 \<le> i \<and> i < n \<and> 0 \<le> s \<and> s < round \<and>
      0 \<le> h \<and> h < heads \<and> 0 \<le> d \<and> d < dim"
    obtain parent where p: "0 \<le> parent" "parent < n"
      "\<forall>r. 0 \<le> r \<and> r < round \<longrightarrow> bf_data (bo_sequence_group out') ! nat ((req * n + i) * rounds + r) =
          bf_data seqs ! nat ((req * n + parent) * rounds + r)"
      "\<forall>layer < nat num_layers. \<forall>s kv d. s \<le> round - 1 \<longrightarrow>
          cache_entry ts' layer (req, i, s, kv, d) = cache_entry ts layer (req, parent, s, kv, d)"
      using t a by blast
    have "tokens_so_far (bf_data (bo_sequence_group out')) n rounds req i s = tokens_so_far (bf_data seqs) n rounds req parent s"
      using p(3) a by (simp add: tokens_so_far_def)
    moreover have "cache_entry ts l (req, parent, s, h, d) =
        Inr (entry l req (tokens_so_far (bf_data seqs) n rounds req parent s) h d)"
      using that(1) l a p(1,2) that(2,3) by (simp add: caches_follow_def)
    ultimately show "cache_entry ts' l (req, i, s, h, d) =
        Inr (entry l req (tokens_so_far (bf_data (bo_sequence_group out')) n rounds req i s) h d)"
      using p(4) l a that(3) by simp
  qed
  have "caches_follow key_of ks' (bf_data (bo_sequence_group out')) batch n rounds heads dim round"
  proof (rule follow [OF stored(1) len(1) len'(1)], intro allI impI)
    fix req beam assume a: "0 \<le> req \<and> req < batch \<and> 0 \<le> beam \<and> beam < n"
    from moved [rule_format, OF a] show "\<exists>parent. 0 \<le> parent \<and> parent < n \<and>
       (\<forall>r. 0 \<le> r \<and> r < round \<longrightarrow> bf_data (bo_sequence_group out') ! nat ((req * n + beam) * rounds + r) =
          bf_data seqs ! nat ((req * n + parent) * rounds + r)) \<and>
       (\<forall>layer < nat num_layers. \<forall>s kv d. s \<le> round - 1 \<longrightarrow>
          cache_entry ks' layer (req, beam, s, kv, d) = cache_entry ks1 layer (req, parent, s, kv, d))"
      by (rule ex_forward) simp
  qed
  moreover have "caches_follow value_of vs' (bf_data (bo_sequence_group out')) batch n rounds heads dim round"
  proof (rule follow [OF stored(2) len(2) len'(2)], intro allI impI)
    fix req beam assume a: "0 \<le> req \<and> req < batch \<and> 0 \<le> beam \<and> beam < n"
    from moved [rule_format, OF a] show "\<exists>parent. 0 \<le> parent \<and> parent < n \<and>
       (\<forall>r. 0 \<le> r \<and> r < round \<longrightarrow> bf_data (bo_sequence_group out') ! nat ((req * n + beam) * rounds + r) =
          bf_data seqs ! nat ((req * n + parent) * rounds + r)) \<and>
       (\<forall>layer < nat num_layers. \<forall>s kv d. s \<le> round - 1 \<longrightarrow>
          cache_entry vs' layer (req, beam, s, kv, d) = cache_entry vs1 layer (req, parent, s, kv, d))"
      by (rule ex_forward) simp
  qed
  moreover have "list_all2 same_but_data ks ks'" "list_all2 same_but_data vs vs'"
    by (rule caches_same_trans [OF same(1) cache_select_same(1) [OF move]])
      (rule caches_same_trans [OF same(2) cache_select_same(2) [OF move]])
  ultimately show ?thesis
    using stores search move round by (intro exI [of _ ks'] exI [of _ vs']) (simp add: decode_round_def search_round_def)
qed

text \<open>
  C3: The caches follow the sequences through a decode round that is not the last. If they did
  up to the step before, and the model gives for every beam the keys and values of its tokens so
  far, then after the layers have written them, the beams have been searched and the caches
  reordered, for every order of the threads of all these launches, the entries up to the new step
  are those of the tokens of the beams that were kept.
\<close>

theorem caches_follow_sequences:
  fixes ops :: "'p::linorder beam_ops"
  assumes ops: "beam_ops_ok ops" "beam_shapes acc seqs tokens probs out batch n rounds"
    and round: "0 < round" "round < rounds - 1"
    and layers: "layers_ready layers (round_tensor round) batch n heads dim ks vs"
    and search: "beam_search ops acc seqs tokens probs out batch round = Inr out'"
    and select: "select_ready (bo_token_index out') ks vs block_table (round - 1) n num_layers"
      "select_copies (bo_token_index out') ks block_table (round - 1) n num_layers (order (bo_token_index out'))"
    and keys: "caches_follow key_of ks (bf_data seqs) batch n rounds heads dim (round - 1)"
      "gives_tokens key_of (map (fst \<circ> snd) layers) (bf_data seqs) batch n rounds heads dim (round - 1)"
    and vals: "caches_follow value_of vs (bf_data seqs) batch n rounds heads dim (round - 1)"
      "gives_tokens value_of (map (snd \<circ> snd) layers) (bf_data seqs) batch n rounds heads dim (round - 1)"
  shows "\<exists>ks' vs'. decode_round ops layers order acc seqs tokens probs out block_table batch n num_layers round rounds ks vs =
      Inr (out', ks', vs') \<and> length ks' = length ks \<and> length vs' = length vs \<and>
    caches_follow key_of ks' (bf_data (bo_sequence_group out')) batch n rounds heads dim round \<and>
    caches_follow value_of vs' (bf_data (bo_sequence_group out')) batch n rounds heads dim round"
proof -
  note follows = decode_round_follows [where order = order, OF assms]
  then show ?thesis by (elim exE conjE) (metis list_all2_lengthD)
qed


text \<open>
  Two beams in the second decode round, a model whose keys and values are sums of tokens. Both
  kept beams continue the second one.
\<close>

definition demo_keys :: "nat \<Rightarrow> int \<Rightarrow> int list \<Rightarrow> int \<Rightarrow> int \<Rightarrow> int" where
  "demo_keys l req toks h d = 10 * sum_list toks + d"

definition demo_vals :: "nat \<Rightarrow> int \<Rightarrow> int list \<Rightarrow> int \<Rightarrow> int \<Rightarrow> int" where
  "demo_vals l req toks h d = sum_list toks"

definition demo_proj :: "int \<Rightarrow> int list \<Rightarrow> int strided" where
  "demo_proj a xs = \<lparr>bf_cuda = True, bf_device = 0, bf_type = kFloat32, bf_contiguous = True, bf_address = a,
     bf_sizes = [1, 2, 1, 4], bf_data = xs, st_strides = [8, 4, 4, 1]\<rparr>"

definition demo_beams :: "int \<Rightarrow> int list \<Rightarrow> int buffer" where
  "demo_beams a xs = (demo_tensor [1, 2, 3, 1, 4] xs)\<lparr>bf_type := kFloat32, bf_address := a\<rparr>"

definition demo_ks :: "int buffer list" where
  "demo_ks = [demo_beams 64 [70, 71, 72, 73, 0, 0, 0, 0, 0, 0, 0, 0, 80, 81, 82, 83, 0, 0, 0, 0, 0, 0, 0, 0]]"

definition demo_vs :: "int buffer list" where
  "demo_vs = [demo_beams 256 [7, 7, 7, 7, 0, 0, 0, 0, 0, 0, 0, 0, 8, 8, 8, 8, 0, 0, 0, 0, 0, 0, 0, 0]]"

definition demo_layers :: "(int \<times> int) list \<Rightarrow> int layer_tokens list" where
  "demo_layers lx = [(lx, demo_proj 512 [120, 121, 122, 123, 140, 141, 142, 143], demo_proj 1024 [12, 12, 12, 12, 14, 14, 14, 14])]"

definition demo_seqs :: "int buffer" where
  "demo_seqs = demo_tensor [1, 2, 4] [7, 5, 0, 0, 8, 6, 0, 0]"

definition demo_out :: "int beam_out" where
  "demo_out = demo_beam_out\<lparr>bo_sequence_group := demo_tensor [1, 2, 4] (replicate 8 0)\<rparr>"

lemmas demo_round_defs = demo_proj_def demo_beams_def demo_ks_def demo_vs_def demo_layers_def demo_seqs_def
  demo_out_def demo_tensor_def round_tensor_def

lemma within_four: "within [a, b, c, e] idx \<longleftrightarrow>
    (\<exists>i j k l. idx = [i, j, k, l] \<and> 0 \<le> i \<and> i < a \<and> 0 \<le> j \<and> j < b \<and> 0 \<le> k \<and> k < c \<and> 0 \<le> l \<and> l < e)"
  by (auto simp: within_def list_all2_Cons2)

lemma demo_search:
  "\<exists>out'. beam_search sample_ops (demo_tensor [2, 1] [0, 10]) demo_seqs (demo_tensor [2, 2] [1, 2, 3, 4])
     (demo_tensor [2, 2] [1, 2, 3, 4]) demo_out 1 2 = Inr out' \<and>
     bo_token_index out' = demo_tensor [2, 1] [2, 3] \<and> bf_data (bo_sequence_group out') = [8, 6, 3, 0, 8, 6, 4, 0]"
  by (simp add: beam_search_def next_step_def demo_round_defs demo_beam_out_def bf_size_def uint32_def view_rows_def
      copy_rows_def pick_row_def extend_group_def sample_ops_def Let_def upto_rec1 int32_id)

abbreviation demo_key :: "int strided" where
  "demo_key \<equiv> demo_proj 512 [120, 121, 122, 123, 140, 141, 142, 143]"

abbreviation demo_value :: "int strided" where
  "demo_value \<equiv> demo_proj 1024 [12, 12, 12, 12, 14, 14, 14, 14]"

lemma demo_total_vecs: "decoder_total_vecs (demo_proj a xs) = 1"
  by (simp add: decoder_total_vecs_def demo_proj_def vec_width_def c_arith)

lemma demo_writer_ready:
  assumes "length xs = 8" "length ys = 8" and "0 < round" "round < 4"
    and "same_but_data (demo_ks ! 0) k" "same_but_data (demo_vs ! 0) v"
  shows "decoder_ready (demo_proj 512 xs) (demo_proj 1024 ys) (as_strided k) (as_strided v) (round_tensor round)"
proof -
  have fits: "tensor_fits (demo_proj a xs)" if "length xs = 8" for a xs
    using that by (auto simp: tensor_fits_def demo_proj_def within_four in_array_def)
  note fields = same_but_data_fields [OF assms(5)] same_but_data_fields [OF assms(6)]
  have dense: "tensor_dense (as_strided k)" "tensor_dense (as_strided v)"
    using fields by (simp_all add: tensor_dense_def as_strided_def demo_round_defs bf_numel_def)
  have "decoder_checks (demo_proj 512 xs) (demo_proj 1024 ys) (as_strided k) (as_strided v) (round_tensor round) = Inr ()"
    using fields by (simp add: decoder_checks_def decoder_shape_checks_def vector_checks_def typed_pointers_def pointers_aligned_def
        strides_aligned_def xattn_launch_check_def demo_round_defs as_strided_def result_simps bf_dim_def vec_width_def
        scalar_bytes_def uint32_def c_arith)
  then show ?thesis using fits assms(1-4) dense fields by (simp add: decoder_ready_def demo_round_defs as_strided_def)
qed

lemma demo_decoder_ready:
  "decoder_ready demo_key demo_value (as_strided (demo_ks ! 0)) (as_strided (demo_vs ! 0)) (round_tensor 2)"
  by (rule demo_writer_ready) (simp_all add: same_but_data_def)

theorem decoder_stores_tokens_witness:
  "\<exists>xs kd vd. decoder_reshape_and_cache xs demo_key demo_value (as_strided (demo_ks ! 0)) (as_strided (demo_vs ! 0))
       (round_tensor 2) = Inr (as_strided (demo_ks ! 0)\<lparr>bf_data := kd\<rparr>, as_strided (demo_vs ! 0)\<lparr>bf_data := vd\<rparr>) \<and>
     tensor_at (as_strided (demo_ks ! 0)\<lparr>bf_data := kd\<rparr>) [0, 1, 1, 0, 2] = 142 \<and>
     tensor_at (as_strided (demo_vs ! 0)\<lparr>bf_data := vd\<rparr>) [0, 0, 1, 0, 3] = 12 \<and>
     tensor_at (as_strided (demo_ks ! 0)\<lparr>bf_data := kd\<rparr>) [0, 1, 0, 0, 2] = 82"
proof -
  let ?kc = "as_strided (demo_ks ! 0)" and ?vc = "as_strided (demo_vs ! 0)"
  obtain xs where xs: "xattn_schedule (bf_sizes demo_key ! 0 * bf_sizes demo_key ! 1) (decoder_total_vecs demo_key) xs"
    using xattn_schedule_exists by blast
  obtain kd vd where run: "decoder_reshape_and_cache xs demo_key demo_value ?kc ?vc (round_tensor 2) =
      Inr (?kc\<lparr>bf_data := kd\<rparr>, ?vc\<lparr>bf_data := vd\<rparr>)"
    and entries: "\<forall>r i s h d. within (bf_sizes ?kc) [r, i, s, h, d] \<longrightarrow>
       (let stored = r < bf_sizes demo_key ! 0 \<and> i < bf_sizes demo_key ! 1 \<and> s = bf_data (round_tensor 2) ! 0 in
        tensor_at (?kc\<lparr>bf_data := kd\<rparr>) [r, i, s, h, d] =
          (if stored then tensor_at demo_key [r, i, h, d] else tensor_at ?kc [r, i, s, h, d]) \<and>
        tensor_at (?vc\<lparr>bf_data := vd\<rparr>) [r, i, s, h, d] =
          (if stored then tensor_at demo_value [r, i, h, d] else tensor_at ?vc [r, i, s, h, d]))"
    using decoder_stores_tokens [OF demo_decoder_ready xs] by (elim exE conjE) (rule that)
  have w: "bf_sizes ?kc = [1, 2, 3, 1, 4]" "bf_sizes demo_key = [1, 2, 1, 4]" "bf_data (round_tensor 2) = [1]"
    by (simp_all add: as_strided_def demo_round_defs)
  have at: "tensor_at demo_key [0, 1, 0, 2] = 142" "tensor_at demo_value [0, 0, 0, 3] = 12" "tensor_at ?kc [0, 1, 0, 0, 2] = 82"
    by (simp_all add: tensor_at_def as_strided_def demo_round_defs)
  show ?thesis
    using run entries [rule_format, of 0 1 1 0 2] entries [rule_format, of 0 0 1 0 3] entries [rule_format, of 0 1 0 0 2]
    by (intro exI [of _ xs] exI [of _ kd] exI [of _ vd]) (simp add: at w)
qed

lemma demo_layers_ready:
  assumes "xattn_schedule 2 1 lx"
  shows "layers_ready (demo_layers lx) (round_tensor 2) 1 2 1 4 demo_ks demo_vs"
  using assms demo_decoder_ready demo_total_vecs
  by (simp add: layers_ready_def demo_layers_def demo_ks_def demo_vs_def demo_proj_def)

lemma demo_follows:
  "caches_follow demo_keys demo_ks (bf_data demo_seqs) 1 2 4 1 4 1" "caches_follow demo_vals demo_vs (bf_data demo_seqs) 1 2 4 1 4 1"
proof -
  note defs = cache_entry_def array_load_def in_array_def demo_keys_def demo_vals_def tokens_so_far_def demo_round_defs
  show "caches_follow demo_keys demo_ks (bf_data demo_seqs) 1 2 4 1 4 1"
    unfolding caches_follow_def
  proof (intro allI impI)
    fix l and req i s h da :: int
    assume a: "l < length demo_ks" "0 \<le> req \<and> req < 1 \<and> 0 \<le> i \<and> i < 2 \<and> 0 \<le> s \<and> s < 1 \<and> 0 \<le> h \<and> h < 1 \<and> 0 \<le> da \<and> da < 4"
    then have z: "l = 0" "req = 0" "s = 0" "h = 0" by (simp_all add: demo_ks_def)
    show "cache_entry demo_ks l (req, i, s, h, da) = Inr (demo_keys l req (tokens_so_far (bf_data demo_seqs) 2 4 req i s) h da)"
    proof -
      have "i = 0 \<or> i = 1" "da = 0 \<or> da = 1 \<or> da = 2 \<or> da = 3" using a(2) by auto
      then show ?thesis unfolding z by (elim disjE) (simp_all add: defs)
    qed
  qed
  show "caches_follow demo_vals demo_vs (bf_data demo_seqs) 1 2 4 1 4 1"
    unfolding caches_follow_def
  proof (intro allI impI)
    fix l and req i s h da :: int
    assume a: "l < length demo_vs" "0 \<le> req \<and> req < 1 \<and> 0 \<le> i \<and> i < 2 \<and> 0 \<le> s \<and> s < 1 \<and> 0 \<le> h \<and> h < 1 \<and> 0 \<le> da \<and> da < 4"
    then have z: "l = 0" "req = 0" "s = 0" "h = 0" by (simp_all add: demo_vs_def)
    show "cache_entry demo_vs l (req, i, s, h, da) = Inr (demo_vals l req (tokens_so_far (bf_data demo_seqs) 2 4 req i s) h da)"
    proof -
      have "i = 0 \<or> i = 1" "da = 0 \<or> da = 1 \<or> da = 2 \<or> da = 3" using a(2) by auto
      then show ?thesis unfolding z by (elim disjE) (simp_all add: defs)
    qed
  qed
qed

lemma demo_gives:
  "gives_tokens demo_keys (map (fst \<circ> snd) (demo_layers lx)) (bf_data demo_seqs) 1 2 4 1 4 1"
  "gives_tokens demo_vals (map (snd \<circ> snd) (demo_layers lx)) (bf_data demo_seqs) 1 2 4 1 4 1"
proof -
  have d: "d = 0 \<or> d = 1 \<or> d = 2 \<or> d = 3" if "0 \<le> d" "d < 4" for d :: int using that by auto
  have i: "i = 0 \<or> i = 1" if "0 \<le> i" "i < 2" for i :: int using that by auto
  have u: "[0..1] = [0, 1 :: int]" by (simp add: upto_rec1)
  have zero: "tensor_at (demo_proj 512 [120, 121, 122, 123, 140, 141, 142, 143]) [0, i, 0, da] =
      demo_keys 0 0 (tokens_so_far (bf_data demo_seqs) 2 4 0 i 1) 0 da \<and>
      tensor_at (demo_proj 1024 [12, 12, 12, 12, 14, 14, 14, 14]) [0, i, 0, da] =
      demo_vals 0 0 (tokens_so_far (bf_data demo_seqs) 2 4 0 i 1) 0 da"
    if "0 \<le> i" "i < 2" "0 \<le> da" "da < 4" for i da
    using i [OF that(1,2)] d [OF that(3,4)]
    by (elim disjE) (simp_all add: u tensor_at_def demo_keys_def demo_vals_def tokens_so_far_def demo_round_defs)
  have all: "tensor_at (demo_proj 512 [120, 121, 122, 123, 140, 141, 142, 143]) [req, i, h, da] =
      demo_keys 0 req (tokens_so_far (bf_data demo_seqs) 2 4 req i 1) h da \<and>
      tensor_at (demo_proj 1024 [12, 12, 12, 12, 14, 14, 14, 14]) [req, i, h, da] =
      demo_vals 0 req (tokens_so_far (bf_data demo_seqs) 2 4 req i 1) h da"
    if "0 \<le> req \<and> req < 1 \<and> 0 \<le> i \<and> i < 2 \<and> 0 \<le> h \<and> h < 1 \<and> 0 \<le> da \<and> da < 4" for req i h da :: int
  proof -
    have "req = 0" "h = 0" using that by auto
    then show ?thesis using zero [of i da] that by (simp only:)
  qed
  show "gives_tokens demo_keys (map (fst \<circ> snd) (demo_layers lx)) (bf_data demo_seqs) 1 2 4 1 4 1"
    "gives_tokens demo_vals (map (snd \<circ> snd) (demo_layers lx)) (bf_data demo_seqs) 1 2 4 1 4 1"
    unfolding gives_tokens_def demo_layers_def using all by (simp_all add: less_Suc_eq)
qed

theorem caches_follow_sequences_witness:
  "\<exists>lx xs out' ks' vs'. decode_round sample_ops (demo_layers lx) (\<lambda>_. xs) (demo_tensor [2, 1] [0, 10]) demo_seqs
       (demo_tensor [2, 2] [1, 2, 3, 4]) (demo_tensor [2, 2] [1, 2, 3, 4]) demo_out (demo_tensor [2, 1] [0, 1]) 1 2 1 2 4
       demo_ks demo_vs = Inr (out', ks', vs') \<and>
     bf_data (bo_sequence_group out') = [8, 6, 3, 0, 8, 6, 4, 0] \<and>
     cache_entry ks' 0 (0, 0, 1, 0, 2) = Inr 142 \<and> cache_entry vs' 0 (0, 0, 0, 0, 3) = Inr 8"
proof -
  obtain lx where lx: "xattn_schedule 2 1 lx" using xattn_schedule_exists by blast
  obtain out' where search: "beam_search sample_ops (demo_tensor [2, 1] [0, 10]) demo_seqs (demo_tensor [2, 2] [1, 2, 3, 4])
       (demo_tensor [2, 2] [1, 2, 3, 4]) demo_out 1 2 = Inr out'"
    and out: "bo_token_index out' = demo_tensor [2, 1] [2, 3]" "bf_data (bo_sequence_group out') = [8, 6, 3, 0, 8, 6, 4, 0]"
    using demo_search by blast
  have shapes: "beam_shapes (demo_tensor [2, 1] [0, 10 :: int]) demo_seqs (demo_tensor [2, 2] [1, 2, 3, 4])
      (demo_tensor [2, 2] [1, 2, 3, 4 :: int]) demo_out 1 2 4"
    by (simp add: beam_shapes_def demo_round_defs demo_beam_out_def)
  have ready: "select_ready (bo_token_index out') demo_ks demo_vs (demo_tensor [2, 1] [0, 1]) (2 - 1) 2 1"
    by (auto simp: out select_ready_def cache_select_checks_def select_layer_check_def demo_round_defs
        result_simps checks_def torch_checks_def torch_check_def bf_dim_def bf_numel_def sdiv_nonneg smod_nonneg)
  obtain xs where xs: "select_copies (bo_token_index out') demo_ks (demo_tensor [2, 1] [0, 1]) (2 - 1) 2 1 xs"
    using select_copies_exist [OF ready] by blast
  have bounds: "(0 :: int) < 2" "(2 :: int) < 4 - 1" by simp_all
  have one: "(2 :: int) - 1 = 1" by simp
  obtain ks' vs' where run: "decode_round sample_ops (demo_layers lx) (\<lambda>_. xs) (demo_tensor [2, 1] [0, 10]) demo_seqs
       (demo_tensor [2, 2] [1, 2, 3, 4]) (demo_tensor [2, 2] [1, 2, 3, 4]) demo_out (demo_tensor [2, 1] [0, 1]) 1 2 1 2 4
       demo_ks demo_vs = Inr (out', ks', vs')"
    and len: "length ks' = length demo_ks" "length vs' = length demo_vs"
    and k: "caches_follow demo_keys ks' (bf_data (bo_sequence_group out')) 1 2 4 1 4 2"
    and v: "caches_follow demo_vals vs' (bf_data (bo_sequence_group out')) 1 2 4 1 4 2"
    using caches_follow_sequences [where order = "\<lambda>_. xs", OF sample_ops_ok shapes bounds demo_layers_ready [OF lx] search ready xs, unfolded one,
        OF demo_follows(1) demo_gives(1) demo_follows(2) demo_gives(2)] by blast
  have u: "[0..1] = [0, 1 :: int]" by (simp add: upto_rec1)
  have "cache_entry ks' 0 (0, 0, 1, 0, 2) = Inr 142" "cache_entry vs' 0 (0, 0, 0, 0, 3) = Inr 8"
    using k [unfolded caches_follow_def, rule_format, of 0 0 0 1 0 2] v [unfolded caches_follow_def, rule_format, of 0 0 0 0 0 3]
    by (simp_all add: len demo_ks_def demo_vs_def u out tokens_so_far_def demo_keys_def demo_vals_def)
  then show ?thesis using run out(2) by blast
qed

end
