(* ===== verification/Beam_Loop.thy ===== *)
theory Beam_Loop
  imports Beam_Rounds
begin

text \<open>
  The loop of \<^verbatim>\<open>LlmRecMultiRoundPipeline::step\<close> around the rounds of \<open>Beam_Rounds\<close>, and beam search as
  it is defined in books, which the loop implements: at the end the sequences are the result of a
  beam search over the distribution of the model, although the model is only given the last tokens
  and the caches.
\<close>

section \<open>The loop\<close>

text \<open>What the rounds share: the input, the last sample, the tensors of the search, the caches.\<close>

record ('p, 'v) rec_state =
  rs_token_ids :: "int buffer"
  rs_sample :: "(int buffer \<times> 'p buffer) option"
  rs_top_tokens :: "int buffer option"
  rs_sequence_group :: "int buffer"
  rs_acc_logprob :: "'p buffer"
  rs_out :: "'p beam_out"
  rs_keys :: "'v buffer list"
  rs_values :: "'v buffer list"

text \<open>
  The model and the sampler: from the tokens of a round and the caches, what the layers write, and
  the sample when one is taken; \<^verbatim>\<open>None\<close> when there are no hidden states.
\<close>

type_synonym ('p, 'v) rec_model =
  "int \<Rightarrow> int buffer \<Rightarrow> 'v buffer list \<Rightarrow> 'v buffer list \<Rightarrow> ('v layer_tokens list \<times> (int buffer \<times> 'p buffer) option) option"

definition zeros_tensor :: "int \<Rightarrow> scalar_kind \<Rightarrow> 'a \<Rightarrow> int list \<Rightarrow> 'a buffer" where
  "zeros_tensor device type zero sizes = \<lparr>bf_cuda = True, bf_device = device, bf_type = type, bf_contiguous = True,
     bf_address = 0, bf_sizes = sizes, bf_data = replicate (nat (prod_list sizes)) zero\<rparr>"

definition torch_zeros :: "int \<Rightarrow> scalar_kind \<Rightarrow> 'a \<Rightarrow> int list \<Rightarrow> 'a buffer result" where
  "torch_zeros device type zero sizes =
     (if \<exists>n \<in> set sizes. n < 0 then Inl (Exn ''zeros: Dimension size must be non-negative.'')
      else Inr (zeros_tensor device type zero sizes))"

definition prepare_beam_search_tensors ::
  "'p \<Rightarrow> int \<Rightarrow> int \<Rightarrow> int \<Rightarrow> int \<Rightarrow> (int buffer \<times> 'p buffer \<times> 'p beam_out) result" where
  "prepare_beam_search_tensors zero device batch_size beam_width total_rounds =
     rbind (torch_zeros device kInt32 0 [batch_size, beam_width, total_rounds]) (\<lambda>sequence_group.
     let num_seq = batch_size * beam_width in
     if num_seq < - (2 ^ 31) \<or> 2 ^ 31 \<le> num_seq then Inl (Undefined ''signed overflow'')
     else rbind (torch_zeros device kFloat32 zero [num_seq, 1]) (\<lambda>acc_logprob.
     rbind (torch_zeros device kInt32 0 [num_seq, 1]) (\<lambda>ids.
     Inr (sequence_group, acc_logprob, \<lparr>bo_acc_logprob = acc_logprob, bo_token_ids = ids, bo_token_index = ids,
       bo_sequence_group = sequence_group\<rparr>))))"

text \<open>The first decode round runs on the sampled tokens, the later ones on those the search chose.\<close>

definition flattened :: "'a buffer \<Rightarrow> 'a buffer" where
  "flattened t = t\<lparr>bf_sizes := [bf_numel t]\<rparr>"

definition prepare_round_input :: "int \<Rightarrow> ('p, 'v) rec_state \<Rightarrow> ('p, 'v) rec_state" where
  "prepare_round_input round st =
     (let previous_step = round - 1 in
      if previous_step = 0 then
        (case rs_top_tokens st of None \<Rightarrow> st | Some top_tokens \<Rightarrow> st\<lparr>rs_token_ids := flattened top_tokens\<rparr>)
      else if 0 < previous_step then st\<lparr>rs_token_ids := flattened (bo_token_ids (rs_out st))\<rparr>
      else st)"

text \<open>A row of the sample per beam.\<close>

definition rows_of_beams :: "int \<Rightarrow> 'a buffer \<Rightarrow> 'a buffer result" where
  "rows_of_beams beam_width t =
     (if beam_width < 0 then Inl (Exn ''invalid shape dimension'')
      else Inr (t\<lparr>bf_sizes := [bf_numel t sdiv beam_width, beam_width]\<rparr>))"

definition sample_rows :: "int \<Rightarrow> int buffer \<Rightarrow> 'p buffer \<Rightarrow> (int buffer \<times> 'p buffer) result" where
  "sample_rows beam_width top_tokens top_logprobs =
     (if beam_width = 0 then Inl (Undefined ''division by zero'')
      else rbind (checks
        [(bf_numel top_tokens smod beam_width = 0, ''top_tokens numel must be divisible by beam_width''),
         (bf_numel top_logprobs smod beam_width = 0, ''top_logprobs numel must be divisible by beam_width'')]) (\<lambda>_.
      rbind (rows_of_beams beam_width (top_tokens\<lparr>bf_type := kInt32, bf_data := map int32 (bf_data top_tokens)\<rparr>)) (\<lambda>tokens.
      rbind (rows_of_beams beam_width top_logprobs) (\<lambda>logprobs. Inr (tokens, logprobs)))))"

text \<open>The two swaps at the end of \<^verbatim>\<open>execute_beam_search\<close>.\<close>

definition swap_beams :: "'p beam_out \<Rightarrow> ('p, 'v) rec_state \<Rightarrow> ('p, 'v) rec_state" where
  "swap_beams out st = st\<lparr>rs_sequence_group := bo_sequence_group out, rs_acc_logprob := bo_acc_logprob out,
     rs_out := out\<lparr>bo_sequence_group := rs_sequence_group st, bo_acc_logprob := rs_acc_logprob st\<rparr>\<rparr>"

record ('p, 'v) rec_env =
  re_ops :: "'p beam_ops"
  re_model :: "('p, 'v) rec_model"
  re_order :: "int \<Rightarrow> int buffer \<Rightarrow> copies"
  re_block_table :: "int buffer"
  re_batch_size :: int
  re_beam_width :: int
  re_num_layers :: int
  re_total_rounds :: int

definition rec_round :: "('p, 'v) rec_env \<Rightarrow> int \<Rightarrow> ('p, 'v) rec_state \<Rightarrow> ('p, 'v) rec_state option result" where
  "rec_round env round st =
     (let st = prepare_round_input round st in
      case re_model env round (rs_token_ids st) (rs_keys st) (rs_values st) of
        None \<Rightarrow> Inr None
      | Some (layers, sample) \<Rightarrow>
          rbind (if 0 < round then write_tokens (round_tensor round) layers (rs_keys st) (rs_values st)
            else Inr (rs_keys st, rs_values st)) (\<lambda>(ks, vs).
          case (if sample = None then rs_sample st else sample) of
            None \<Rightarrow> Inr (Some (st\<lparr>rs_keys := ks, rs_values := vs\<rparr>))
          | Some (tokens, logprobs) \<Rightarrow>
              rbind (sample_rows (re_beam_width env) tokens logprobs) (\<lambda>(top_tokens, top_logprobs).
              rbind (search_round (re_ops env) (re_order env round) (rs_acc_logprob st) (rs_sequence_group st)
                top_tokens top_logprobs (rs_out st) (re_block_table env) (re_batch_size env) (re_beam_width env)
                (re_num_layers env) round (re_total_rounds env) ks vs) (\<lambda>(out, ks, vs).
              Inr (Some (swap_beams out (st\<lparr>rs_sample := Some (tokens, logprobs), rs_top_tokens := Some top_tokens,
                rs_keys := ks, rs_values := vs\<rparr>)))))))"

fun rec_rounds :: "('p, 'v) rec_env \<Rightarrow> int list \<Rightarrow> ('p, 'v) rec_state \<Rightarrow> ('p, 'v) rec_state option result" where
  "rec_rounds env [] st = Inr (Some st)"
| "rec_rounds env (round # rounds) st =
     rbind (rec_round env round st) (\<lambda>r. case r of None \<Rightarrow> Inr None | Some st \<Rightarrow> rec_rounds env rounds st)"

text \<open>The output that the last round builds; without a sample it stays empty.\<close>

record 'p rec_output =
  ro_src_seq_idxes :: "int buffer"
  ro_out_tokens :: "int buffer"
  ro_out_logprobs :: "'p buffer"
  ro_beam_sequence_group :: "int buffer"

definition build_final_output :: "('p, 'v) rec_state \<Rightarrow> 'p rec_output" where
  "build_final_output st =
     \<lparr>ro_src_seq_idxes = flattened (bo_token_index (rs_out st)), ro_out_tokens = flattened (bo_token_ids (rs_out st)),
      ro_out_logprobs = flattened (rs_acc_logprob st), ro_beam_sequence_group = rs_sequence_group st\<rparr>"

definition rec_step ::
  "('p, 'v) rec_env \<Rightarrow> 'p \<Rightarrow> int \<Rightarrow> int \<Rightarrow> int buffer \<Rightarrow> 'v buffer list \<Rightarrow> 'v buffer list \<Rightarrow> 'p rec_output option option result" where
  "rec_step env zero device num_kv_caches token_ids ks vs =
     rbind (check (0 < num_kv_caches) ''KV caches are not initialized.'') (\<lambda>_.
     rbind (prepare_beam_search_tensors zero device (re_batch_size env) (re_beam_width env) (re_total_rounds env))
       (\<lambda>(sequence_group, acc_logprob, out).
     rbind (rec_rounds env [0..re_total_rounds env - 1]
       \<lparr>rs_token_ids = token_ids, rs_sample = None, rs_top_tokens = None, rs_sequence_group = sequence_group,
        rs_acc_logprob = acc_logprob, rs_out = out, rs_keys = ks, rs_values = vs\<rparr>) (\<lambda>r.
     Inr (map_option (\<lambda>st. if 0 < re_total_rounds env \<and> rs_sample st \<noteq> None then Some (build_final_output st) else None) r))))"

section \<open>Beam search over sequences\<close>

text \<open>
  A beam is a sequence with its score. The model gives for every sequence its \<open>n\<close> most likely next
  tokens with their log probabilities; a round keeps the \<open>n\<close> best continuations of all beams.
\<close>

type_synonym 'p beam = "int list \<times> 'p"

definition continuations :: "('p \<Rightarrow> 'p \<Rightarrow> 'p) \<Rightarrow> (int list \<Rightarrow> (int \<times> 'p) list) \<Rightarrow> 'p beam list \<Rightarrow> 'p beam list" where
  "continuations add cands beams =
     concat (map (\<lambda>(ts, score). map (\<lambda>(t, p). (ts @ [t], add score p)) (cands ts)) beams)"

inductive beam_result ::
  "('p::linorder \<Rightarrow> 'p \<Rightarrow> 'p) \<Rightarrow> (int list \<Rightarrow> (int \<times> 'p) list) \<Rightarrow> int \<Rightarrow> nat \<Rightarrow> 'p beam list \<Rightarrow> bool"
  for add cands n where
  prompt: "beam_result add cands n 0 (map (\<lambda>(t, p). ([t], p)) (cands []))"
| extend: "beam_result add cands n r beams \<Longrightarrow>
    picks_best (\<lambda>i. snd (continuations add cands beams ! nat i)) n (int (length (continuations add cands beams))) picks \<Longrightarrow>
    beam_result add cands n (Suc r) (map (\<lambda>i. continuations add cands beams ! nat i) picks)"

text \<open>The beams of a request, as the tensors hold them.\<close>

definition beams_of :: "int list \<Rightarrow> 'p list \<Rightarrow> int \<Rightarrow> int \<Rightarrow> int \<Rightarrow> int \<Rightarrow> 'p beam list" where
  "beams_of seqs acc n rounds req step =
     map (\<lambda>i. (tokens_so_far seqs n rounds req i step, acc ! nat (req * n + i))) [0..n - 1]"

definition gives_candidates ::
  "(int \<Rightarrow> int list \<Rightarrow> (int \<times> 'p) list) \<Rightarrow> int list \<Rightarrow> 'p list \<Rightarrow> int list \<Rightarrow> int \<Rightarrow> int \<Rightarrow> int \<Rightarrow> int \<Rightarrow> bool" where
  "gives_candidates cands tokens probs seqs batch n rounds step \<longleftrightarrow>
     (\<forall>req x. 0 \<le> req \<and> req < batch \<and> 0 \<le> x \<and> x < n * n \<longrightarrow>
        cands req (tokens_so_far seqs n rounds req (x div n) step) ! nat (x mod n) =
          (tokens ! nat (req * (n * n) + x), probs ! nat (req * (n * n) + x)))"

lemma continuations_nth:
  assumes n: "0 < n" and cands: "\<forall>ts. length (cands ts) = nat n" and x: "0 \<le> x" "x < n * n"
  shows "length (continuations add cands (beams_of seqs acc n rounds req step)) = nat (n * n)"
    and "continuations add cands (beams_of seqs acc n rounds req step) ! nat x =
      (let (t, p) = cands (tokens_so_far seqs n rounds req (x div n) step) ! nat (x mod n) in
       (tokens_so_far seqs n rounds req (x div n) step @ [t], add (acc ! nat (req * n + x div n)) p))"
proof -
  let ?row = "\<lambda>i. map (\<lambda>(t, p). (tokens_so_far seqs n rounds req i step @ [t], add (acc ! nat (req * n + i)) p))
    (cands (tokens_so_far seqs n rounds req i step))"
  let ?rows = "map ?row [0..n - 1]"
  have c: "continuations add cands (beams_of seqs acc n rounds req step) = concat ?rows"
    by (simp add: continuations_def beams_of_def comp_def split_def)
  have rows: "\<forall>row \<in> set ?rows. length row = nat n" using cands by simp
  show "length (continuations add cands (beams_of seqs acc n rounds req step)) = nat (n * n)"
    using n cands by (simp add: c length_concat comp_def sum_list_triv nat_mult_distrib cong: map_cong)
  have p: "0 \<le> x div n" "x div n < n" using div_less_of_less_mult [OF n x(2)] x n by (simp_all add: pos_imp_zdiv_nonneg_iff)
  have t: "0 \<le> x mod n" "x mod n < n" using n by simp_all
  have "nat x = nat (x div n) * nat n + nat (x mod n)"
    using p t n by (simp add: nat_mult_distrib [symmetric] nat_add_distrib [symmetric])
  then have "concat ?rows ! nat x = ?rows ! nat (x div n) ! nat (x mod n)"
    using concat_rows_nth [OF rows, of "nat (x div n)" "nat (x mod n)"] p t by simp
  also have "?rows ! nat (x div n) = ?row (x div n)" by (rule nth_map_upto0 [OF p])
  finally show "continuations add cands (beams_of seqs acc n rounds req step) ! nat x =
      (let (t, p) = cands (tokens_so_far seqs n rounds req (x div n) step) ! nat (x mod n) in
       (tokens_so_far seqs n rounds req (x div n) step @ [t], add (acc ! nat (req * n + x div n)) p))"
    using t cands by (simp add: c split_def Let_def)
qed

text \<open>A round of the search on the tensors is a round on the sequences.\<close>

lemma beams_of_extended:
  assumes n: "0 < n" and req: "0 \<le> req" "req < batch" and step: "0 < step" "step < rounds"
    and cands: "\<forall>ts. length (cands req ts) = nat n" "gives_candidates cands tokens probs seqs batch n rounds (step - 1)"
    and idx: "length idx = nat batch" "length toks = nat batch"
      "\<forall>b. 0 \<le> b \<and> b < batch \<longrightarrow> picks_best (beam_sum ops acc probs n b) n (n * n) (idx ! nat b) \<and>
         toks ! nat b = map (\<lambda>x. tokens ! nat (b * (n * n) + x)) (idx ! nat b)"
    and old: "int (length old) = batch * n * rounds"
  defines "C \<equiv> continuations (bo_add ops) (cands req) (beams_of seqs acc n rounds req (step - 1))"
  shows "beams_of (extend_group n rounds step (map (map (\<lambda>i. i div n)) idx) toks seqs old)
      (concat (map (\<lambda>b. map (beam_sum ops acc probs n b) (idx ! nat b)) [0..batch - 1])) n rounds req step =
      map (\<lambda>i. C ! nat i) (idx ! nat req)"
    and "picks_best (\<lambda>i. snd (C ! nat i)) n (int (length C)) (idx ! nat req)"
proof -
  have best: "picks_best (beam_sum ops acc probs n req) n (n * n) (idx ! nat req)"
    and toks: "toks ! nat req = map (\<lambda>x. tokens ! nat (req * (n * n) + x)) (idx ! nat req)" using idx(3) req by simp_all
  have len: "length (idx ! nat req) = nat n" using best by (simp add: picks_best_def)
  have C: "C ! nat x = (tokens_so_far seqs n rounds req (x div n) (step - 1) @ [tokens ! nat (req * (n * n) + x)],
      beam_sum ops acc probs n req x)" if "0 \<le> x" "x < n * n" for x
    using continuations_nth(2) [OF n cands(1) that] cands(2) req that
    by (simp add: C_def gives_candidates_def beam_sum_def)
  have lenC: "length C = nat (n * n)"
    using continuations_nth(1) [OF n cands(1), of 0] n by (simp add: C_def)
  show "picks_best (\<lambda>i. snd (C ! nat i)) n (int (length C)) (idx ! nat req)"
    using best picks_best_cong [of "n * n" "beam_sum ops acc probs n req" "\<lambda>i. snd (C ! nat i)"] C n by (simp add: lenC)
  show "beams_of (extend_group n rounds step (map (map (\<lambda>i. i div n)) idx) toks seqs old)
      (concat (map (\<lambda>b. map (beam_sum ops acc probs n b) (idx ! nat b)) [0..batch - 1])) n rounds req step =
      map (\<lambda>i. C ! nat i) (idx ! nat req)"
  proof (rule nth_equalityI)
    fix k assume "k < length (beams_of (extend_group n rounds step (map (map (\<lambda>i. i div n)) idx) toks seqs old)
      (concat (map (\<lambda>b. map (beam_sum ops acc probs n b) (idx ! nat b)) [0..batch - 1])) n rounds req step)"
    then have k: "k < nat n" by (simp add: beams_of_def)
    let ?i = "int k" and ?x = "idx ! nat req ! k"
    have i: "0 \<le> ?i" "?i < n" using k by simp_all
    have "?x \<in> set (idx ! nat req)" using k len by simp
    moreover have "set (idx ! nat req) \<subseteq> {0..<n * n}" using best by (simp add: picks_best_def)
    ultimately have x: "0 \<le> ?x" "?x < n * n" by auto
    have at: "extend_group n rounds step (map (map (\<lambda>i. i div n)) idx) toks seqs old ! nat ((req * n + ?i) * rounds + r) =
        (if r < step then seqs ! nat ((req * n + ?x div n) * rounds + r) else tokens ! nat (req * (n * n) + ?x))"
      if r: "0 \<le> r" "r \<le> step" for r
    proof -
      have "(req * n + ?i) * rounds + r < batch * n * rounds"
        by (intro digit_bounds(2)) (use req i r step digit_bounds [of req batch ?i n] in auto)
      then show ?thesis
        using r req i step idx(1,2) k len by (subst extend_group_nth) (simp_all add: old toks nat_less_iff)
    qed
    have "tokens_so_far (extend_group n rounds step (map (map (\<lambda>i. i div n)) idx) toks seqs old) n rounds req ?i step =
        tokens_so_far seqs n rounds req (?x div n) (step - 1) @ [tokens ! nat (req * (n * n) + ?x)]"
      using step(1) at by (simp add: tokens_so_far_def upto_rec2 [of 0 step])
    moreover have "concat (map (\<lambda>b. map (beam_sum ops acc probs n b) (idx ! nat b)) [0..batch - 1]) ! nat (req * n + ?i) =
        beam_sum ops acc probs n req ?x"
    proof -
      let ?rows = "map (\<lambda>b. map (beam_sum ops acc probs n b) (idx ! nat b)) [0..batch - 1]"
      have "\<forall>row \<in> set ?rows. length row = nat n" using idx(3) by (auto simp: picks_best_def)
      then have "concat ?rows ! (nat req * nat n + k) = ?rows ! nat req ! k" by (rule concat_rows_nth) (use req k in simp_all)
      moreover have "nat (req * n + ?i) = nat req * nat n + k" using req n by (simp add: nat_add_distrib nat_mult_distrib)
      moreover have "?rows ! nat req = map (beam_sum ops acc probs n req) (idx ! nat req)" by (rule nth_map_upto0 [OF req])
      ultimately show ?thesis using k len by simp
    qed
    ultimately show "beams_of (extend_group n rounds step (map (map (\<lambda>i. i div n)) idx) toks seqs old)
      (concat (map (\<lambda>b. map (beam_sum ops acc probs n b) (idx ! nat b)) [0..batch - 1])) n rounds req step ! k =
      map (\<lambda>i. C ! nat i) (idx ! nat req) ! k"
      using k len C [OF x] by (simp add: beams_of_def nth_upto)
  qed (simp add: beams_of_def len)
qed

section \<open>What the loop needs\<close>

text \<open>A sample of \<open>m\<close> tokens, which are integers of 32 bits.\<close>

definition sample_shape :: "int \<Rightarrow> int buffer \<Rightarrow> 'p buffer \<Rightarrow> bool" where
  "sample_shape m tokens probs \<longleftrightarrow> bf_numel tokens = m \<and> int (length (bf_data tokens)) = m \<and>
     bf_numel probs = m \<and> int (length (bf_data probs)) = m \<and> (\<forall>t \<in> set (bf_data tokens). - (2 ^ 31) \<le> t \<and> t < 2 ^ 31)"

text \<open>
  The model answers the prompt with the candidates of the empty sequence. In a later round it is
  given the last tokens of the beams and caches that follow their sequences, whatever these are, and
  writes the keys and values and samples the candidates that belong to the sequences.
\<close>

definition model_answers ::
  "('p, 'v) rec_env \<Rightarrow> (int \<Rightarrow> int list \<Rightarrow> (int \<times> 'p) list) \<Rightarrow> (nat \<Rightarrow> int \<Rightarrow> int list \<Rightarrow> int \<Rightarrow> int \<Rightarrow> 'v) \<Rightarrow>
   (nat \<Rightarrow> int \<Rightarrow> int list \<Rightarrow> int \<Rightarrow> int \<Rightarrow> 'v) \<Rightarrow> int \<Rightarrow> int \<Rightarrow> int buffer \<Rightarrow> 'v buffer list \<Rightarrow> 'v buffer list \<Rightarrow> bool" where
  "model_answers env cands key_of value_of heads dim prompt ks0 vs0 \<longleftrightarrow>
     (let n = re_beam_width env; batch = re_batch_size env; rounds = re_total_rounds env in
      (\<forall>req ts. length (cands req ts) = nat n) \<and>
      (\<exists>layers tokens probs. re_model env 0 prompt ks0 vs0 = Some (layers, Some (tokens, probs)) \<and>
         sample_shape (batch * n) tokens probs \<and>
         (\<forall>req k. 0 \<le> req \<and> req < batch \<and> 0 \<le> k \<and> k < n \<longrightarrow>
            cands req [] ! nat k = (bf_data tokens ! nat (req * n + k), bf_data probs ! nat (req * n + k)))) \<and>
      (\<forall>round token_ids seqs ks vs. 0 < round \<and> round < rounds \<and>
         list_all2 same_but_data ks0 ks \<and> list_all2 same_but_data vs0 vs \<and>
         (\<forall>req i. 0 \<le> req \<and> req < batch \<and> 0 \<le> i \<and> i < n \<longrightarrow>
            bf_data token_ids ! nat (req * n + i) = seqs ! nat ((req * n + i) * rounds + (round - 1))) \<and>
         caches_follow key_of ks seqs batch n rounds heads dim (round - 1) \<and>
         caches_follow value_of vs seqs batch n rounds heads dim (round - 1) \<longrightarrow>
         (\<exists>layers tokens probs. re_model env round token_ids ks vs = Some (layers, Some (tokens, probs)) \<and>
            sample_shape (batch * n * n) tokens probs \<and>
            gives_candidates cands (bf_data tokens) (bf_data probs) seqs batch n rounds (round - 1) \<and>
            layers_ready layers (round_tensor round) batch n heads dim ks vs \<and>
            gives_tokens key_of (map (fst \<circ> snd) layers) seqs batch n rounds heads dim (round - 1) \<and>
            gives_tokens value_of (map (snd \<circ> snd) layers) seqs batch n rounds heads dim (round - 1))))"

text \<open>The sizes, and caches and orders of the threads for every reordering.\<close>

definition loop_ready :: "('p, 'v) rec_env \<Rightarrow> int \<Rightarrow> 'v buffer list \<Rightarrow> 'v buffer list \<Rightarrow> bool" where
  "loop_ready env device ks0 vs0 \<longleftrightarrow>
     (let n = re_beam_width env; batch = re_batch_size env; rounds = re_total_rounds env;
          index0 = zeros_tensor device kInt32 0 [batch * n, 1] in
      0 < n \<and> n * n < 2 ^ 24 \<and> 0 < batch \<and> batch * n < 2 ^ 31 \<and> 0 < rounds \<and> rounds < 2 ^ 31 \<and>
      (\<forall>round. 0 < round \<and> round < rounds - 1 \<longrightarrow>
         select_ready index0 ks0 vs0 (re_block_table env) (round - 1) n (re_num_layers env) \<and>
         (\<forall>index. same_but_data index0 index \<and> (\<forall>x \<in> set (bf_data index). - (2 ^ 31) \<le> x \<and> x < 2 ^ 31) \<longrightarrow>
            select_copies index ks0 (re_block_table env) (round - 1) n (re_num_layers env) (re_order env round index))))"

section \<open>The invariant\<close>

definition tensors_ok ::
  "int \<Rightarrow> int \<Rightarrow> int \<Rightarrow> int buffer \<Rightarrow> int buffer \<Rightarrow> 'p buffer \<Rightarrow> 'p beam_out \<Rightarrow> bool" where
  "tensors_ok batch n rounds index0 seqs acc out \<longleftrightarrow>
     bf_sizes seqs = [batch, n, rounds] \<and> int (length (bf_data seqs)) = batch * n * rounds \<and>
     bf_sizes (bo_sequence_group out) = [batch, n, rounds] \<and>
     int (length (bf_data (bo_sequence_group out))) = batch * n * rounds \<and>
     int (length (bf_data acc)) = batch * n \<and> int (length (bf_data (bo_acc_logprob out))) = batch * n \<and>
     int (length (bf_data (bo_token_ids out))) = batch * n \<and>
     int (length (bf_data (bo_token_index out))) = batch * n \<and> same_but_data index0 (bo_token_index out)"

text \<open>After \<open>r\<close> rounds.\<close>

definition rounds_done ::
  "('p::linorder, 'v) rec_env \<Rightarrow> (int \<Rightarrow> int list \<Rightarrow> (int \<times> 'p) list) \<Rightarrow> (nat \<Rightarrow> int \<Rightarrow> int list \<Rightarrow> int \<Rightarrow> int \<Rightarrow> 'v) \<Rightarrow>
   (nat \<Rightarrow> int \<Rightarrow> int list \<Rightarrow> int \<Rightarrow> int \<Rightarrow> 'v) \<Rightarrow> int \<Rightarrow> int \<Rightarrow> int \<Rightarrow> 'v buffer list \<Rightarrow> 'v buffer list \<Rightarrow> int \<Rightarrow>
   ('p, 'v) rec_state \<Rightarrow> bool" where
  "rounds_done env cands key_of value_of heads dim device ks0 vs0 r st \<longleftrightarrow>
     (let n = re_beam_width env; batch = re_batch_size env; rounds = re_total_rounds env;
          seqs = bf_data (rs_sequence_group st); ids = bf_data (bo_token_ids (rs_out st)) in
      tensors_ok batch n rounds (zeros_tensor device kInt32 0 [batch * n, 1]) (rs_sequence_group st) (rs_acc_logprob st)
        (rs_out st) \<and>
      rs_sample st \<noteq> None \<and>
      (\<forall>req i. 0 \<le> req \<and> req < batch \<and> 0 \<le> i \<and> i < n \<longrightarrow>
         ids ! nat (req * n + i) = seqs ! nat ((req * n + i) * rounds + (r - 1))) \<and>
      (r = 1 \<longrightarrow> (\<exists>t. rs_top_tokens st = Some t \<and> bf_data t = ids)) \<and>
      (\<forall>req. 0 \<le> req \<and> req < batch \<longrightarrow> beam_result (bo_add (re_ops env)) (cands req) n (nat (r - 1))
         (beams_of seqs (bf_data (rs_acc_logprob st)) n rounds req (r - 1))) \<and>
      (r < rounds \<longrightarrow> list_all2 same_but_data ks0 (rs_keys st) \<and> list_all2 same_but_data vs0 (rs_values st) \<and>
         caches_follow key_of (rs_keys st) seqs batch n rounds heads dim (r - 1) \<and>
         caches_follow value_of (rs_values st) seqs batch n rounds heads dim (r - 1)))"

lemma sample_rows_shape:
  assumes "0 < n" and "sample_shape (m * n) tokens probs"
  shows "\<exists>t p. sample_rows n tokens probs = Inr (t, p) \<and> bf_sizes t = [m, n] \<and> bf_data t = bf_data tokens \<and>
    bf_data p = bf_data probs"
proof -
  have "map int32 (bf_data tokens) = bf_data tokens" using assms(2) by (intro map_int32_id) (simp add: sample_shape_def)
  moreover have "0 \<le> m * n" using assms(2) by (metis of_nat_0_le_iff sample_shape_def)
  then have "m * n sdiv n = m" "m * n smod n = 0" using assms(1) by (simp_all add: sdiv_nonneg smod_nonneg)
  ultimately show ?thesis
    using assms by (simp add: sample_rows_def rows_of_beams_def sample_shape_def checks_def bf_numel_def result_simps)
qed

lemma select_ready_index:
  assumes "select_ready index0 ks vs block_table decode_step n layers" and "same_but_data index0 index"
    and "\<forall>x \<in> set (bf_data index). - (2 ^ 31) \<le> x \<and> x < 2 ^ 31"
  shows "select_ready index ks vs block_table decode_step n layers"
  using assms same_but_data_fields [OF assms(2)]
  by (simp add: select_ready_def cache_select_checks_def bf_dim_def)

lemma prepare_round_input_tokens:
  assumes "rounds_done env cands key_of value_of heads dim device ks0 vs0 r st" and "0 < r"
  shows "\<exists>t. prepare_round_input r st = st\<lparr>rs_token_ids := t\<rparr> \<and> bf_data t = bf_data (bo_token_ids (rs_out st))"
  using assms by (auto simp: prepare_round_input_def rounds_done_def flattened_def Let_def)

section \<open>The rounds keep the invariant\<close>

lemma tensors_ok_after:
  assumes "tensors_ok batch n rounds index0 seqs acc out"
    and "length ids = length (bf_data (bo_token_ids out))" "length index = length (bf_data (bo_token_index out))"
    and "length probs = length (bf_data (bo_acc_logprob out))" "length new = length (bf_data (bo_sequence_group out))"
    and "seqs' = (bo_sequence_group out)\<lparr>bf_data := new\<rparr>" "acc' = (bo_acc_logprob out)\<lparr>bf_data := probs\<rparr>"
    and "bo_token_ids out' = (bo_token_ids out)\<lparr>bf_data := ids\<rparr>" "bo_token_index out' = (bo_token_index out)\<lparr>bf_data := index\<rparr>"
    and "bo_acc_logprob out' = acc" "bo_sequence_group out' = seqs"
  shows "tensors_ok batch n rounds index0 seqs' acc' out'"
proof -
  have "same_but_data (bo_token_index out) (bo_token_index out')" using assms(3,9) by (simp add: same_but_data_def)
  then have "same_but_data index0 (bo_token_index out')"
    using assms(1) same_but_data_trans unfolding tensors_ok_def by blast
  then show ?thesis using assms by (simp add: tensors_ok_def)
qed

lemma int_length_concat:
  assumes "\<forall>row \<in> set rows. length row = nat n" and "length rows = nat b" and "0 \<le> n" "0 \<le> b"
  shows "int (length (concat rows)) = b * n"
proof -
  have "length (concat rows) = nat b * nat n"
    using assms(1,2) by (simp add: length_concat sum_list_triv cong: map_cong)
  then show ?thesis using assms(3,4) by simp
qed

lemma beams_of_first:
  assumes n: "0 < n" and req: "0 \<le> req" "req < batch" and rounds: "0 < rounds"
    and cands: "length (cands []) = nat n"
      "\<forall>k. 0 \<le> k \<and> k < n \<longrightarrow> cands [] ! nat k = (tokens ! nat (req * n + k), probs ! nat (req * n + k))"
    and seqs: "\<forall>k. 0 \<le> k \<and> k < n \<longrightarrow> seqs ! nat ((req * n + k) * rounds) = tokens ! nat (req * n + k)"
  shows "beam_result add cands n 0 (beams_of seqs probs n rounds req 0)"
proof -
  have "beams_of seqs probs n rounds req 0 = map (\<lambda>(t, p). ([t], p)) (cands [])"
  proof (rule nth_equalityI)
    fix k assume "k < length (beams_of seqs probs n rounds req 0)"
    then have k: "0 \<le> int k" "int k < n" by (simp_all add: beams_of_def)
    then show "beams_of seqs probs n rounds req 0 ! k = map (\<lambda>(t, p). ([t], p)) (cands []) ! k"
      using cands(1) cands(2) [rule_format, of "int k"] seqs [rule_format, of "int k"]
      by (simp add: beams_of_def nth_upto tokens_so_far_def)
  qed (simp add: beams_of_def cands(1))
  then show ?thesis by (simp only: beam_result.prompt)
qed

lemma first_round:
  fixes env :: "('p::linorder, 'v) rec_env"
  assumes model: "model_answers env cands key_of value_of heads dim prompt ks0 vs0" and ready: "loop_ready env device ks0 vs0"
    and st: "tensors_ok (re_batch_size env) (re_beam_width env) (re_total_rounds env)
        (zeros_tensor device kInt32 0 [re_batch_size env * re_beam_width env, 1]) (rs_sequence_group st) (rs_acc_logprob st) (rs_out st)"
      "rs_token_ids st = prompt" "rs_keys st = ks0" "rs_values st = vs0"
  shows "\<exists>st'. rec_round env 0 st = Inr (Some st') \<and> rounds_done env cands key_of value_of heads dim device ks0 vs0 1 st'"
proof -
  let ?n = "re_beam_width env" and ?b = "re_batch_size env" and ?R = "re_total_rounds env" and ?out = "rs_out st"
  have pos: "0 < ?n" "?n * ?n < 2 ^ 24" "0 < ?b" "0 < ?R" "?R < 2 ^ 31" using ready by (simp_all add: loop_ready_def Let_def)
  have "1 * ?n \<le> ?n * ?n" by (rule mult_right_mono) (use pos(1) in simp_all)
  then have n: "?n < 2 ^ 24" using pos(2) by linarith
  obtain layers tokens probs where answer: "re_model env 0 prompt ks0 vs0 = Some (layers, Some (tokens, probs))"
    and shape: "sample_shape (?b * ?n) tokens probs"
    and first: "\<forall>req k. 0 \<le> req \<and> req < ?b \<and> 0 \<le> k \<and> k < ?n \<longrightarrow>
      cands req [] ! nat k = (bf_data tokens ! nat (req * ?n + k), bf_data probs ! nat (req * ?n + k))"
    and len: "\<forall>req ts. length (cands req ts) = nat ?n"
    using model unfolding model_answers_def Let_def by blast
  obtain t p where rows: "sample_rows ?n tokens probs = Inr (t, p)" "bf_sizes t = [?b, ?n]" "bf_data t = bf_data tokens"
      "bf_data p = bf_data probs"
    using sample_rows_shape [OF pos(1) shape] by (elim exE conjE) (rule that)
  have lens: "int (length (bf_data t)) = ?b * ?n" "int (length (bf_data p)) = ?b * ?n"
    using shape rows by (simp_all add: sample_shape_def)
  have start: "bf_sizes (rs_sequence_group st) = [?b, ?n, ?R]" and room: "int (length (bf_data (bo_acc_logprob ?out))) = ?b * ?n"
      "int (length (bf_data (bo_token_ids ?out))) = ?b * ?n" "int (length (bf_data (bo_token_index ?out))) = ?b * ?n"
      "int (length (bf_data (bo_sequence_group ?out))) = ?b * ?n * ?R"
    using st(1) by (simp_all add: tensors_ok_def)
  obtain rs where rs: "\<forall>b i. 0 \<le> b \<and> b < ?b \<and> 0 \<le> i \<and> i < ?n \<longrightarrow> rs ! nat b ! nat i = bf_data t ! nat (b * ?n + i)"
    and search: "beam_search (re_ops env) (rs_acc_logprob st) (rs_sequence_group st) t p ?out ?b 0 = Inr (?out\<lparr>
      bo_token_ids := (bo_token_ids ?out)\<lparr>bf_data := bf_data t\<rparr>, bo_acc_logprob := (bo_acc_logprob ?out)\<lparr>bf_data := bf_data p\<rparr>,
      bo_token_index := (bo_token_index ?out)\<lparr>bf_data := concat (map (\<lambda>_. [0..?n - 1]) [0..?b - 1])\<rparr>,
      bo_sequence_group := (bo_sequence_group ?out)\<lparr>bf_data :=
        extend_group ?n ?R 0 [] rs [] (bf_data (bo_sequence_group ?out))\<rparr>\<rparr>)"
    using beam_search_first [where ops = "re_ops env" and acc = "rs_acc_logprob st", OF pos(1) n pos(3-5) start rows(2) lens room] by (elim exE conjE) (rule that)
  define out where "out = ?out\<lparr>
      bo_token_ids := (bo_token_ids ?out)\<lparr>bf_data := bf_data t\<rparr>, bo_acc_logprob := (bo_acc_logprob ?out)\<lparr>bf_data := bf_data p\<rparr>,
      bo_token_index := (bo_token_index ?out)\<lparr>bf_data := concat (map (\<lambda>_. [0..?n - 1]) [0..?b - 1])\<rparr>,
      bo_sequence_group := (bo_sequence_group ?out)\<lparr>bf_data :=
        extend_group ?n ?R 0 [] rs [] (bf_data (bo_sequence_group ?out))\<rparr>\<rparr>"
  define st' where "st' = swap_beams out (st\<lparr>rs_sample := Some (tokens, probs), rs_top_tokens := Some t\<rparr>)"
  have run: "rec_round env 0 st = Inr (Some st')"
    using answer rows(1) search [folded out_def]
    by (simp add: rec_round_def prepare_round_input_def st(2-4) search_round_def st'_def swap_beams_def)
  have seqs: "bf_data (rs_sequence_group st') ! nat ((req * ?n + i) * ?R) = bf_data t ! nat (req * ?n + i)"
    if "0 \<le> req" "req < ?b" "0 \<le> i" "i < ?n" for req i
  proof -
    have "(req * ?n + i) * ?R + 0 < ?b * ?n * ?R"
      by (rule digit_bounds(2)) (use that pos digit_bounds [of req ?b i ?n] in simp_all)
    then show ?thesis
      using extend_group_nth [of 0 ?R i ?n req "bf_data (bo_sequence_group ?out)" 0] rs that pos room
      by (simp add: st'_def swap_beams_def out_def)
  qed
  have index: "length (concat (map (\<lambda>_. [0..?n - 1]) [0..?b - 1])) = length (bf_data (bo_token_index ?out))"
    using int_length_concat [of "map (\<lambda>_. [0..?n - 1]) [0..?b - 1]" ?n ?b] room(3) pos by simp
  have "rounds_done env cands key_of value_of heads dim device ks0 vs0 1 st'"
    unfolding rounds_done_def Let_def
  proof (intro conjI)
    show "tensors_ok ?b ?n ?R (zeros_tensor device kInt32 0 [?b * ?n, 1]) (rs_sequence_group st') (rs_acc_logprob st') (rs_out st')"
      by (rule tensors_ok_after [OF st(1), of "bf_data t" "concat (map (\<lambda>_. [0..?n - 1]) [0..?b - 1])" "bf_data p"
          "extend_group ?n ?R 0 [] rs [] (bf_data (bo_sequence_group ?out))"])
        (use lens room index in \<open>simp_all add: st'_def swap_beams_def out_def length_extend_group\<close>)
    show "rs_sample st' \<noteq> None" by (simp add: st'_def swap_beams_def)
    show "\<forall>req i. 0 \<le> req \<and> req < ?b \<and> 0 \<le> i \<and> i < ?n \<longrightarrow> bf_data (bo_token_ids (rs_out st')) ! nat (req * ?n + i) =
        bf_data (rs_sequence_group st') ! nat ((req * ?n + i) * ?R + (1 - 1))"
      using seqs by (simp add: st'_def swap_beams_def out_def)
    show "1 = (1::int) \<longrightarrow> (\<exists>t. rs_top_tokens st' = Some t \<and> bf_data t = bf_data (bo_token_ids (rs_out st')))"
      by (simp add: st'_def swap_beams_def out_def)
    have acc: "bf_data (rs_acc_logprob st') = bf_data probs" by (simp add: st'_def swap_beams_def out_def rows(4))
    show "\<forall>req. 0 \<le> req \<and> req < ?b \<longrightarrow> beam_result (bo_add (re_ops env)) (cands req) ?n (nat (1 - 1))
        (beams_of (bf_data (rs_sequence_group st')) (bf_data (rs_acc_logprob st')) ?n ?R req (1 - 1))"
      unfolding acc diff_self nat_0
    proof (intro allI impI, elim conjE)
      fix req assume req: "0 \<le> req" "req < ?b"
      show "beam_result (bo_add (re_ops env)) (cands req) ?n 0 (beams_of (bf_data (rs_sequence_group st')) (bf_data probs) ?n ?R req 0)"
        by (rule beams_of_first [OF pos(1) req pos(4), of _ "bf_data tokens"]) (use len first seqs rows(3) req in simp_all)
    qed
    show "1 < ?R \<longrightarrow> list_all2 same_but_data ks0 (rs_keys st') \<and> list_all2 same_but_data vs0 (rs_values st') \<and>
        caches_follow key_of (rs_keys st') (bf_data (rs_sequence_group st')) ?b ?n ?R heads dim (1 - 1) \<and>
        caches_follow value_of (rs_values st') (bf_data (rs_sequence_group st')) ?b ?n ?R heads dim (1 - 1)"
      by (auto simp: st'_def swap_beams_def st(3,4) caches_follow_def same_but_data_def intro!: list_all2_refl)
  qed
  then show ?thesis using run by blast
qed

text \<open>The caches in a later round: those that are reordered still follow the sequences.\<close>

lemma later_round_caches:
  fixes env :: "('p::linorder, 'v) rec_env"
  defines "n \<equiv> re_beam_width env" and "batch \<equiv> re_batch_size env" and "rounds \<equiv> re_total_rounds env"
  assumes ready: "loop_ready env device ks0 vs0" and round: "0 < round" "round < rounds"
    and ops: "beam_ops_ok (re_ops env)" "beam_shapes acc seqs tokens probs out batch n rounds"
    and layers: "layers_ready layers (round_tensor round) batch n heads dim ks vs"
    and search: "beam_search (re_ops env) acc seqs tokens probs out batch round = Inr out'"
    and index: "same_but_data (zeros_tensor device kInt32 0 [batch * n, 1]) (bo_token_index out')"
      "\<forall>x \<in> set (bf_data (bo_token_index out')). - (2 ^ 31) \<le> x \<and> x < 2 ^ 31"
    and same: "list_all2 same_but_data ks0 ks" "list_all2 same_but_data vs0 vs"
    and keys: "caches_follow key_of ks (bf_data seqs) batch n rounds heads dim (round - 1)"
      "gives_tokens key_of (map (fst \<circ> snd) layers) (bf_data seqs) batch n rounds heads dim (round - 1)"
    and vals: "caches_follow value_of vs (bf_data seqs) batch n rounds heads dim (round - 1)"
      "gives_tokens value_of (map (snd \<circ> snd) layers) (bf_data seqs) batch n rounds heads dim (round - 1)"
  shows "\<exists>ks1 vs1 ks' vs'. write_tokens (round_tensor round) layers ks vs = Inr (ks1, vs1) \<and>
    search_round (re_ops env) (re_order env round) acc seqs tokens probs out (re_block_table env) batch n (re_num_layers env)
      round rounds ks1 vs1 = Inr (out', ks', vs') \<and>
    (round + 1 < rounds \<longrightarrow> list_all2 same_but_data ks0 ks' \<and> list_all2 same_but_data vs0 vs' \<and>
       caches_follow key_of ks' (bf_data (bo_sequence_group out')) batch n rounds heads dim round \<and>
       caches_follow value_of vs' (bf_data (bo_sequence_group out')) batch n rounds heads dim round)"
proof (cases "round < rounds - 1")
  case False
  obtain ks1 vs1 where "write_tokens (round_tensor round) layers ks vs = Inr (ks1, vs1)"
    using write_tokens_follow [OF layers round(1) keys vals] by blast
  then show ?thesis using False by (simp add: search_round_def search)
next
  case True
  have "select_ready (zeros_tensor device kInt32 0 [batch * n, 1]) ks0 vs0 (re_block_table env) (round - 1) n (re_num_layers env)"
    and order: "select_copies (bo_token_index out') ks0 (re_block_table env) (round - 1) n (re_num_layers env)
      (re_order env round (bo_token_index out'))"
    using ready True round(1) index by (simp_all add: loop_ready_def Let_def n_def batch_def rounds_def)
  then have "select_ready (bo_token_index out') ks0 vs0 (re_block_table env) (round - 1) n (re_num_layers env)"
    using select_ready_index index by blast
  note select = select_ready_same(1) [OF this same] select_ready_same(2) [OF this same order]
  obtain ks' vs' where run: "decode_round (re_ops env) layers (re_order env round) acc seqs tokens probs out (re_block_table env)
        batch n (re_num_layers env) round rounds ks vs = Inr (out', ks', vs')"
    and kept: "list_all2 same_but_data ks ks'" "list_all2 same_but_data vs vs'"
    and follow: "caches_follow key_of ks' (bf_data (bo_sequence_group out')) batch n rounds heads dim round"
      "caches_follow value_of vs' (bf_data (bo_sequence_group out')) batch n rounds heads dim round"
    using decode_round_follows [where order = "re_order env round", OF ops round(1) True layers search select keys vals] by blast
  obtain ks1 vs1 where "write_tokens (round_tensor round) layers ks vs = Inr (ks1, vs1)"
    "search_round (re_ops env) (re_order env round) acc seqs tokens probs out (re_block_table env) batch n (re_num_layers env)
      round rounds ks1 vs1 = Inr (out', ks', vs')"
    using run by (auto simp: decode_round_def rbind_eq_Inr_iff)
  then show ?thesis
    using caches_same_trans [OF same(1) kept(1)] caches_same_trans [OF same(2) kept(2)] follow by blast
qed

lemma picks_int32:
  assumes "\<forall>is \<in> set idx. set is \<subseteq> {0..<m}" and "m < 2 ^ 24"
  shows "\<forall>x \<in> set (concat (map (map int32) idx)). - (2 ^ 31) \<le> x \<and> x < 2 ^ 31"
proof
  fix x assume "x \<in> set (concat (map (map int32) idx))"
  then obtain "is" y where y: "is \<in> set idx" "y \<in> set is" "x = int32 y" by auto
  then have "y \<in> {0..<m}" using assms(1) by blast
  then show "- (2 ^ 31) \<le> x \<and> x < 2 ^ 31" using assms(2) by (simp add: y(3) int32_id)
qed

text \<open>The search in a later round: the tensors it leaves, the last tokens, the beams.\<close>

lemma later_search:
  fixes ops :: "'p::linorder beam_ops"
  defines "step_ok \<equiv> \<lambda>out. \<forall>x \<in> set (bf_data (bo_token_index out)). - (2 ^ 31) \<le> x \<and> x < 2 ^ 31"
  assumes ops: "beam_ops_ok ops" and shapes: "beam_shapes acc seqs tokens probs out batch n rounds"
    and ok: "tensors_ok batch n rounds index0 seqs acc out" and round: "0 < round" "round < rounds"
    and cands: "\<forall>req ts. length (cands req ts) = nat n"
      "gives_candidates cands (bf_data tokens) (bf_data probs) (bf_data seqs) batch n rounds (round - 1)"
  shows "\<exists>out'. beam_search ops acc seqs tokens probs out batch round = Inr out' \<and>
    tensors_ok batch n rounds index0 (bo_sequence_group out') (bo_acc_logprob out')
      (out'\<lparr>bo_sequence_group := seqs, bo_acc_logprob := acc\<rparr>) \<and> step_ok out' \<and>
    (\<forall>req i. 0 \<le> req \<and> req < batch \<and> 0 \<le> i \<and> i < n \<longrightarrow> bf_data (bo_token_ids out') ! nat (req * n + i) =
       bf_data (bo_sequence_group out') ! nat ((req * n + i) * rounds + round)) \<and>
    (\<forall>req r. 0 \<le> req \<and> req < batch \<and>
       beam_result (bo_add ops) (cands req) n r (beams_of (bf_data seqs) (bf_data acc) n rounds req (round - 1)) \<longrightarrow>
       beam_result (bo_add ops) (cands req) n (Suc r)
         (beams_of (bf_data (bo_sequence_group out')) (bf_data (bo_acc_logprob out')) n rounds req round))"
proof -
  have pos: "0 < n" "n * n < 2 ^ 24" "0 < batch" using shapes by (simp_all add: beam_shapes_def)
  let ?sum = "beam_sum ops (bf_data acc) (bf_data probs) n"
  obtain idx toks where idx: "length idx = nat batch" "length toks = nat batch"
      "\<forall>b. 0 \<le> b \<and> b < batch \<longrightarrow> picks_best (?sum b) n (n * n) (idx ! nat b) \<and>
       (round < rounds - 1 \<longrightarrow> sorted (idx ! nat b)) \<and> toks ! nat b = map (\<lambda>x. bf_data tokens ! nat (b * (n * n) + x)) (idx ! nat b)"
    and search: "beam_search ops acc seqs tokens probs out batch round = Inr (out\<lparr>
      bo_acc_logprob := (bo_acc_logprob out)\<lparr>bf_data := concat (map (\<lambda>b. map (?sum b) (idx ! nat b)) [0..batch - 1])\<rparr>,
      bo_token_ids := (bo_token_ids out)\<lparr>bf_data := concat toks\<rparr>,
      bo_token_index := (bo_token_index out)\<lparr>bf_data := concat (map (map int32) idx)\<rparr>,
      bo_sequence_group := (bo_sequence_group out)\<lparr>bf_data := extend_group n rounds round (map (map (\<lambda>i. i div n)) idx) toks
        (bf_data seqs) (bf_data (bo_sequence_group out))\<rparr>\<rparr>)" (is "_ = Inr ?out")
    using beam_search_later [OF ops shapes round(1)] by (elim exE conjE) (rule that)
  have best: "picks_best (?sum b) n (n * n) (idx ! nat b)"
    and tok: "toks ! nat b = map (\<lambda>x. bf_data tokens ! nat (b * (n * n) + x)) (idx ! nat b)" if "0 \<le> b" "b < batch" for b
    using idx(3) that by simp_all
  have rows: "length (idx ! i) = nat n \<and> set (idx ! i) \<subseteq> {0..<n * n} \<and> length (toks ! i) = nat n" if "i < nat batch" for i
    using best [of "int i"] tok [of "int i"] that by (simp add: picks_best_def)
  then have width: "\<forall>is \<in> set idx. length is = nat n \<and> set is \<subseteq> {0..<n * n}" "\<forall>ts \<in> set toks. length ts = nat n"
    by (simp_all add: all_set_conv_all_nth idx(1,2))
  have lens: "int (length (concat (map (\<lambda>b. map (?sum b) (idx ! nat b)) [0..batch - 1]))) = batch * n"
    "int (length (concat toks)) = batch * n" "int (length (concat (map (map int32) idx))) = batch * n"
    using best width idx(1,2) pos by (intro int_length_concat; auto simp: picks_best_def)+
  have old: "int (length (bf_data (bo_sequence_group out))) = batch * n * rounds" using ok by (simp add: tensors_ok_def)
  have "tensors_ok batch n rounds index0 (bo_sequence_group ?out) (bo_acc_logprob ?out)
      (?out\<lparr>bo_sequence_group := seqs, bo_acc_logprob := acc\<rparr>)"
    by (rule tensors_ok_after [OF ok, of "concat toks" "concat (map (map int32) idx)"
          "concat (map (\<lambda>b. map (?sum b) (idx ! nat b)) [0..batch - 1])"
          "extend_group n rounds round (map (map (\<lambda>i. i div n)) idx) toks (bf_data seqs) (bf_data (bo_sequence_group out))"])
      (use lens ok in \<open>simp_all add: tensors_ok_def length_extend_group flip: of_nat_eq_iff [where 'a = int]\<close>)
  moreover have "step_ok ?out" using picks_int32 [of idx "n * n"] width(1) pos(2) by (simp add: step_ok_def)
  moreover have "concat toks ! nat (req * n + i) = bf_data (bo_sequence_group ?out) ! nat ((req * n + i) * rounds + round)"
    if r: "0 \<le> req" "req < batch" "0 \<le> i" "i < n" for req i
  proof -
    have "(req * n + i) * rounds + round < batch * n * rounds"
      by (rule digit_bounds(2)) (use r round digit_bounds [of req batch i n] in simp_all)
    then have "bf_data (bo_sequence_group ?out) ! nat ((req * n + i) * rounds + round) = toks ! nat req ! nat i"
      using extend_group_nth [of round rounds i n req] r round old by simp
    moreover have "nat (req * n + i) = nat req * nat n + nat i" using r pos by (simp add: nat_add_distrib nat_mult_distrib)
    ultimately show ?thesis using concat_rows_nth [OF width(2), of "nat req" "nat i"] r idx(2) by simp
  qed
  moreover have "beam_result (bo_add ops) (cands req) n (Suc r)
      (beams_of (bf_data (bo_sequence_group ?out)) (bf_data (bo_acc_logprob ?out)) n rounds req round)"
    if req: "0 \<le> req" "req < batch"
      and before: "beam_result (bo_add ops) (cands req) n r (beams_of (bf_data seqs) (bf_data acc) n rounds req (round - 1))" for req r
  proof -
    have picks: "\<forall>b. 0 \<le> b \<and> b < batch \<longrightarrow> picks_best (?sum b) n (n * n) (idx ! nat b) \<and>
       toks ! nat b = map (\<lambda>x. bf_data tokens ! nat (b * (n * n) + x)) (idx ! nat b)" using best tok by blast
    note next_beams = beams_of_extended [OF pos(1) req round spec [OF cands(1)] cands(2) idx(1,2) picks old]
    show ?thesis using beam_result.extend [OF before next_beams(2)] next_beams(1) by simp
  qed
  ultimately show ?thesis using search by (intro exI [of _ ?out]) simp
qed

lemma later_round:
  fixes env :: "('p::linorder, 'v) rec_env"
  assumes model: "model_answers env cands key_of value_of heads dim prompt ks0 vs0" and ready: "loop_ready env device ks0 vs0"
    and ops: "beam_ops_ok (re_ops env)"
    and st: "rounds_done env cands key_of value_of heads dim device ks0 vs0 round st" "0 < round" "round < re_total_rounds env"
  shows "\<exists>st'. rec_round env round st = Inr (Some st') \<and>
    rounds_done env cands key_of value_of heads dim device ks0 vs0 (round + 1) st'"
proof -
  let ?n = "re_beam_width env" and ?b = "re_batch_size env" and ?R = "re_total_rounds env"
    and ?seqs = "rs_sequence_group st" and ?acc = "rs_acc_logprob st" and ?out = "rs_out st"
  let ?index0 = "zeros_tensor device kInt32 (0::int) [?b * ?n, 1]"
  have pos: "0 < ?n" "?n * ?n < 2 ^ 24" "0 < ?b" "0 < ?R" "?R < 2 ^ 31" using ready by (simp_all add: loop_ready_def Let_def)
  have ok: "tensors_ok ?b ?n ?R ?index0 ?seqs ?acc ?out"
    and ids: "\<forall>req i. 0 \<le> req \<and> req < ?b \<and> 0 \<le> i \<and> i < ?n \<longrightarrow> bf_data (bo_token_ids ?out) ! nat (req * ?n + i) =
      bf_data ?seqs ! nat ((req * ?n + i) * ?R + (round - 1))"
    and beams: "\<forall>req. 0 \<le> req \<and> req < ?b \<longrightarrow> beam_result (bo_add (re_ops env)) (cands req) ?n (nat (round - 1))
      (beams_of (bf_data ?seqs) (bf_data ?acc) ?n ?R req (round - 1))"
    and same: "list_all2 same_but_data ks0 (rs_keys st)" "list_all2 same_but_data vs0 (rs_values st)"
    and follow: "caches_follow key_of (rs_keys st) (bf_data ?seqs) ?b ?n ?R heads dim (round - 1)"
      "caches_follow value_of (rs_values st) (bf_data ?seqs) ?b ?n ?R heads dim (round - 1)"
    using st(1,3) by (simp_all add: rounds_done_def Let_def)
  obtain input where input: "prepare_round_input round st = st\<lparr>rs_token_ids := input\<rparr>" "bf_data input = bf_data (bo_token_ids ?out)"
    using prepare_round_input_tokens [OF st(1,2)] by (elim exE conjE) (rule that)
  have len: "\<forall>req ts. length (cands req ts) = nat ?n" using model by (simp add: model_answers_def Let_def)
  obtain layers tokens probs where answer: "re_model env round input (rs_keys st) (rs_values st) = Some (layers, Some (tokens, probs))"
    and shape: "sample_shape (?b * ?n * ?n) tokens probs"
    and sampled: "gives_candidates cands (bf_data tokens) (bf_data probs) (bf_data ?seqs) ?b ?n ?R (round - 1)"
    and layers: "layers_ready layers (round_tensor round) ?b ?n heads dim (rs_keys st) (rs_values st)"
    and gives: "gives_tokens key_of (map (fst \<circ> snd) layers) (bf_data ?seqs) ?b ?n ?R heads dim (round - 1)"
      "gives_tokens value_of (map (snd \<circ> snd) layers) (bf_data ?seqs) ?b ?n ?R heads dim (round - 1)"
    using model [unfolded model_answers_def Let_def] st(2,3) ids same follow unfolding input(2) [symmetric] by blast
  obtain t p where rows: "sample_rows ?n tokens probs = Inr (t, p)" "bf_sizes t = [?b * ?n, ?n]" "bf_data t = bf_data tokens"
      "bf_data p = bf_data probs"
    using sample_rows_shape [OF pos(1) shape] by (elim exE conjE) (rule that)
  have shapes: "beam_shapes ?acc ?seqs t p ?out ?b ?n ?R"
    using ok shape pos rows by (simp add: beam_shapes_def tensors_ok_def sample_shape_def mult.assoc)
  obtain out where search: "beam_search (re_ops env) ?acc ?seqs t p ?out ?b round = Inr out"
    and ok': "tensors_ok ?b ?n ?R ?index0 (bo_sequence_group out) (bo_acc_logprob out)
      (out\<lparr>bo_sequence_group := ?seqs, bo_acc_logprob := ?acc\<rparr>)"
    and range: "\<forall>x \<in> set (bf_data (bo_token_index out)). - (2 ^ 31) \<le> x \<and> x < 2 ^ 31"
    and last_ids: "\<forall>req i. 0 \<le> req \<and> req < ?b \<and> 0 \<le> i \<and> i < ?n \<longrightarrow> bf_data (bo_token_ids out) ! nat (req * ?n + i) =
       bf_data (bo_sequence_group out) ! nat ((req * ?n + i) * ?R + round)"
    and beams': "\<forall>req r. 0 \<le> req \<and> req < ?b \<and>
       beam_result (bo_add (re_ops env)) (cands req) ?n r (beams_of (bf_data ?seqs) (bf_data ?acc) ?n ?R req (round - 1)) \<longrightarrow>
       beam_result (bo_add (re_ops env)) (cands req) ?n (Suc r)
         (beams_of (bf_data (bo_sequence_group out)) (bf_data (bo_acc_logprob out)) ?n ?R req round)"
    using later_search [OF ops shapes ok st(2,3) len sampled [folded rows(3,4)]] by (elim exE conjE) (rule that)
  have index: "same_but_data ?index0 (bo_token_index out)" using ok' by (simp add: tensors_ok_def)
  obtain ks1 vs1 ks' vs' where writes: "write_tokens (round_tensor round) layers (rs_keys st) (rs_values st) = Inr (ks1, vs1)"
    and searched: "search_round (re_ops env) (re_order env round) ?acc ?seqs t p ?out (re_block_table env) ?b ?n (re_num_layers env)
      round ?R ks1 vs1 = Inr (out, ks', vs')"
    and caches: "round + 1 < ?R \<longrightarrow> list_all2 same_but_data ks0 ks' \<and> list_all2 same_but_data vs0 vs' \<and>
       caches_follow key_of ks' (bf_data (bo_sequence_group out)) ?b ?n ?R heads dim round \<and>
       caches_follow value_of vs' (bf_data (bo_sequence_group out)) ?b ?n ?R heads dim round"
    using later_round_caches [OF ready st(2,3) ops shapes layers search index range same follow(1) gives(1) follow(2) gives(2)]
    by (elim exE conjE) (rule that)
  define st' where "st' = swap_beams out (st\<lparr>rs_token_ids := input, rs_sample := Some (tokens, probs), rs_top_tokens := Some t,
    rs_keys := ks', rs_values := vs'\<rparr>)"
  have "rec_round env round st = Inr (Some st')"
    using answer writes searched st(2) by (simp add: rec_round_def input(1) rows(1) st'_def)
  moreover have "nat round = Suc (nat (round - 1))" using st(2) by simp
  then have "rounds_done env cands key_of value_of heads dim device ks0 vs0 (round + 1) st'"
    using ok' last_ids beams beams' caches st(2) by (simp add: rounds_done_def st'_def swap_beams_def)
  ultimately show ?thesis by blast
qed

text \<open>A round that takes no sample searches the sample of an earlier round again.\<close>

lemma stale_sample_searched:
  assumes "prepare_round_input round st = st'" and "rs_sample st' = Some sample"
    and "re_model env round (rs_token_ids st') (rs_keys st') (rs_values st') = Some (layers, None)"
  shows "rec_round env round st = rec_round (env\<lparr>re_model := (\<lambda>r t ks vs. Some (layers, Some sample))\<rparr>) round st"
  using assms by (simp add: rec_round_def)

section \<open>The whole loop\<close>

lemma rounds_finish:
  fixes env :: "('p::linorder, 'v) rec_env"
  assumes model: "model_answers env cands key_of value_of heads dim prompt ks0 vs0" and ready: "loop_ready env device ks0 vs0"
    and ops: "beam_ops_ok (re_ops env)"
  shows "rounds_done env cands key_of value_of heads dim device ks0 vs0 r st \<Longrightarrow> 0 < r \<Longrightarrow> r \<le> re_total_rounds env \<Longrightarrow>
    \<exists>st'. rec_rounds env [r..re_total_rounds env - 1] st = Inr (Some st') \<and>
      rounds_done env cands key_of value_of heads dim device ks0 vs0 (re_total_rounds env) st'"
proof (induction "nat (re_total_rounds env - r)" arbitrary: r st)
  case 0
  then show ?case by auto
next
  case (Suc m)
  then have r: "r < re_total_rounds env" "m = nat (re_total_rounds env - (r + 1))" by simp_all
  obtain st1 where "rec_round env r st = Inr (Some st1)"
    "rounds_done env cands key_of value_of heads dim device ks0 vs0 (r + 1) st1"
    using later_round [OF model ready ops Suc.prems(1,2) r(1)] by blast
  then show ?case using Suc.hyps(1) [OF r(2), of st1] Suc.prems(2) r(1) by (simp add: upto_rec1)
qed

lemma tensors_prepared:
  assumes "loop_ready env device ks0 vs0"
  shows "\<exists>seqs acc out. prepare_beam_search_tensors zero device (re_batch_size env) (re_beam_width env) (re_total_rounds env) =
      Inr (seqs, acc, out) \<and>
    tensors_ok (re_batch_size env) (re_beam_width env) (re_total_rounds env)
      (zeros_tensor device kInt32 0 [re_batch_size env * re_beam_width env, 1]) seqs acc out"
proof -
  have "0 < re_batch_size env" "0 < re_beam_width env" "0 < re_total_rounds env" "re_batch_size env * re_beam_width env < 2 ^ 31"
    using assms by (simp_all add: loop_ready_def Let_def)
  moreover from this(1,2) have "\<not> re_batch_size env * re_beam_width env < 0" by (simp add: not_less)
  ultimately show ?thesis
    by (simp add: prepare_beam_search_tensors_def torch_zeros_def zeros_tensor_def tensors_ok_def same_but_data_def Let_def mult.assoc)
qed

text \<open>
  C2: A request is answered, and with the result of a beam search. If the model gives the right
  candidates whenever it is shown the last tokens of the beams and caches that follow their
  sequences, then for every order of the threads of all kernels the loop runs through all its
  rounds and returns an output; and the sequences and log probabilities in it are, for every
  request, those of a beam search that extends the sequences themselves.
\<close>

theorem multi_round_beam_search:
  fixes env :: "('p::linorder, 'v) rec_env"
  assumes model: "model_answers env cands key_of value_of heads dim prompt ks0 vs0"
    and ready: "loop_ready env device ks0 vs0" and ops: "beam_ops_ok (re_ops env)" and caches: "0 < num_kv_caches"
  shows "\<exists>out. rec_step env zero device num_kv_caches prompt ks0 vs0 = Inr (Some (Some out)) \<and>
    (\<forall>req. 0 \<le> req \<and> req < re_batch_size env \<longrightarrow>
       beam_result (bo_add (re_ops env)) (cands req) (re_beam_width env) (nat (re_total_rounds env - 1))
         (beams_of (bf_data (ro_beam_sequence_group out)) (bf_data (ro_out_logprobs out)) (re_beam_width env)
           (re_total_rounds env) req (re_total_rounds env - 1)))"
proof -
  let ?R = "re_total_rounds env"
  have R: "0 < ?R" using ready by (simp add: loop_ready_def Let_def)
  obtain seqs acc out where prepared: "prepare_beam_search_tensors zero device (re_batch_size env) (re_beam_width env) ?R =
      Inr (seqs, acc, out)"
    and ok: "tensors_ok (re_batch_size env) (re_beam_width env) ?R
      (zeros_tensor device kInt32 0 [re_batch_size env * re_beam_width env, 1]) seqs acc out"
    using tensors_prepared [where zero = zero, OF ready] by (elim exE conjE) (rule that)
  let ?st = "\<lparr>rs_token_ids = prompt, rs_sample = None, rs_top_tokens = None, rs_sequence_group = seqs,
    rs_acc_logprob = acc, rs_out = out, rs_keys = ks0, rs_values = vs0\<rparr>"
  obtain st1 where "rec_round env 0 ?st = Inr (Some st1)" "rounds_done env cands key_of value_of heads dim device ks0 vs0 1 st1"
    using first_round [OF model ready, of ?st] ok by auto
  moreover from this(2) R obtain st' where "rec_rounds env [1..?R - 1] st1 = Inr (Some st')"
    and done': "rounds_done env cands key_of value_of heads dim device ks0 vs0 ?R st'"
    using rounds_finish [OF model ready ops, of 1 st1] by auto
  ultimately have "rec_rounds env [0..?R - 1] ?st = Inr (Some st')" using R by (simp add: upto_rec1 [of 0])
  then have "rec_step env zero device num_kv_caches prompt ks0 vs0 = Inr (Some (Some (build_final_output st')))"
    using done' R caches prepared by (simp add: rec_step_def rounds_done_def Let_def)
  then show ?thesis using done' by (auto simp: rounds_done_def Let_def build_final_output_def flattened_def)
qed

section \<open>A request of four rounds\<close>

text \<open>A model whose answers depend on the last token only.\<close>

definition demo_cands :: "int \<Rightarrow> int list \<Rightarrow> (int \<times> int) list" where
  "demo_cands req ts = (if ts = [] then [(7, 3), (8, 4)] else [((last ts + 1) mod 100, 1), ((last ts + 3) mod 100, 2)])"

definition key_of_last :: "nat \<Rightarrow> int \<Rightarrow> int list \<Rightarrow> int \<Rightarrow> int \<Rightarrow> int" where
  "key_of_last l req ts h d = 10 * last ts + d"

definition value_of_last :: "nat \<Rightarrow> int \<Rightarrow> int list \<Rightarrow> int \<Rightarrow> int \<Rightarrow> int" where
  "value_of_last l req ts h d = last ts"

definition demo_model :: "(int \<times> int) list \<Rightarrow> (int, int) rec_model" where
  "demo_model lx round token_ids ks vs =
     (if round = 0 then Some ([], Some (demo_tensor [1, 2] [7, 8], demo_tensor [1, 2] [3, 4]))
      else
        let a = bf_data token_ids ! 0; b = bf_data token_ids ! 1 in
        Some ([(lx, demo_proj 512 [10 * a, 10 * a + 1, 10 * a + 2, 10 * a + 3, 10 * b, 10 * b + 1, 10 * b + 2, 10 * b + 3],
            demo_proj 1024 [a, a, a, a, b, b, b, b])],
          Some (demo_tensor [2, 2] [(a + 1) mod 100, (a + 3) mod 100, (b + 1) mod 100, (b + 3) mod 100],
            demo_tensor [2, 2] [1, 2, 1, 2])))"

definition demo_env :: "(int \<times> int) list \<Rightarrow> (int \<Rightarrow> int buffer \<Rightarrow> copies) \<Rightarrow> (int, int) rec_env" where
  "demo_env lx order = \<lparr>re_ops = sample_ops, re_model = demo_model lx, re_order = order,
     re_block_table = demo_tensor [2, 1] [0, 1], re_batch_size = 1, re_beam_width = 2, re_num_layers = 1, re_total_rounds = 4\<rparr>"

lemma last_so_far: "0 \<le> s \<Longrightarrow> tokens_so_far seqs n rounds req i s \<noteq> [] \<and>
    last (tokens_so_far seqs n rounds req i s) = seqs ! nat ((req * n + i) * rounds + s)"
  by (simp add: tokens_so_far_def last_map upto_rec2 [of 0 s])

lemma demo_answers:
  assumes "xattn_schedule 2 1 lx"
  shows "model_answers (demo_env lx order) demo_cands key_of_last value_of_last 1 4 prompt demo_ks demo_vs"
  unfolding model_answers_def Let_def
proof (intro conjI allI impI)
  show "length (demo_cands req ts) = nat (re_beam_width (demo_env lx order))" for req ts
    by (simp add: demo_cands_def demo_env_def)
  have two: "k = 0 \<or> k = 1" if "0 \<le> k" "k < 2" for k :: int using that by auto
  show "\<exists>layers tokens probs. re_model (demo_env lx order) 0 prompt demo_ks demo_vs = Some (layers, Some (tokens, probs)) \<and>
      sample_shape (re_batch_size (demo_env lx order) * re_beam_width (demo_env lx order)) tokens probs \<and>
      (\<forall>req k. 0 \<le> req \<and> req < re_batch_size (demo_env lx order) \<and> 0 \<le> k \<and> k < re_beam_width (demo_env lx order) \<longrightarrow>
         demo_cands req [] ! nat k = (bf_data tokens ! nat (req * re_beam_width (demo_env lx order) + k),
           bf_data probs ! nat (req * re_beam_width (demo_env lx order) + k)))"
    by (auto simp: demo_env_def demo_model_def sample_shape_def demo_tensor_def bf_numel_def demo_cands_def dest!: two)
  fix round :: int and token_ids :: "int buffer" and seqs :: "int list" and ks vs :: "int buffer list"
  assume a: "0 < round \<and> round < re_total_rounds (demo_env lx order) \<and> list_all2 same_but_data demo_ks ks \<and>
      list_all2 same_but_data demo_vs vs \<and>
      (\<forall>req i. 0 \<le> req \<and> req < re_batch_size (demo_env lx order) \<and> 0 \<le> i \<and> i < re_beam_width (demo_env lx order) \<longrightarrow>
         bf_data token_ids ! nat (req * re_beam_width (demo_env lx order) + i) =
           seqs ! nat ((req * re_beam_width (demo_env lx order) + i) * re_total_rounds (demo_env lx order) + (round - 1))) \<and>
      caches_follow key_of_last ks seqs (re_batch_size (demo_env lx order)) (re_beam_width (demo_env lx order))
        (re_total_rounds (demo_env lx order)) 1 4 (round - 1) \<and>
      caches_follow value_of_last vs seqs (re_batch_size (demo_env lx order)) (re_beam_width (demo_env lx order))
        (re_total_rounds (demo_env lx order)) 1 4 (round - 1)"
  then have round: "0 < round" "round < 4" by (simp_all add: demo_env_def)
  let ?a = "bf_data token_ids ! 0" and ?b = "bf_data token_ids ! 1"
  let ?xs = "[10 * ?a, 10 * ?a + 1, 10 * ?a + 2, 10 * ?a + 3, 10 * ?b, 10 * ?b + 1, 10 * ?b + 2, 10 * ?b + 3]"
    and ?ys = "[?a, ?a, ?a, ?a, ?b, ?b, ?b, ?b]"
  let ?layers = "[(lx, demo_proj 512 ?xs, demo_proj 1024 ?ys)]"
  let ?tokens = "demo_tensor [2, 2] [(?a + 1) mod 100, (?a + 3) mod 100, (?b + 1) mod 100, (?b + 3) mod 100]"
  let ?probs = "demo_tensor [2, 2] [1, 2, 1, 2 :: int]"
  have final: "last (tokens_so_far seqs 2 4 0 0 (round - 1)) = ?a" "last (tokens_so_far seqs 2 4 0 1 (round - 1)) = ?b"
      "tokens_so_far seqs 2 4 0 i (round - 1) \<noteq> []" for i
  proof -
    have ids: "bf_data token_ids ! nat (req * 2 + i) = seqs ! nat ((req * 2 + i) * 4 + (round - 1))"
      if "0 \<le> req \<and> req < 1 \<and> 0 \<le> i \<and> i < 2" for req i using a that by (simp add: demo_env_def)
    show "last (tokens_so_far seqs 2 4 0 0 (round - 1)) = ?a" "last (tokens_so_far seqs 2 4 0 1 (round - 1)) = ?b"
      "tokens_so_far seqs 2 4 0 i (round - 1) \<noteq> []" for i
      using last_so_far [of "round - 1" seqs 2 4 0] ids [of 0 0] ids [of 0 1] round by simp_all
  qed
  obtain k v where kv: "ks = [k]" "vs = [v]" "same_but_data (demo_ks ! 0) k" "same_but_data (demo_vs ! 0) v"
    using a by (auto simp: demo_ks_def demo_vs_def list_all2_Cons1)
  have "re_model (demo_env lx order) round token_ids ks vs = Some (?layers, Some (?tokens, ?probs))"
    using round by (simp add: demo_env_def demo_model_def Let_def)
  moreover have "sample_shape (1 * 2 * 2) ?tokens ?probs"
    by (auto simp: sample_shape_def demo_tensor_def bf_numel_def intro: order_trans [of _ 0] less_trans [of _ 100])
  moreover have "gives_candidates demo_cands (bf_data ?tokens) (bf_data ?probs) seqs 1 2 4 (round - 1)"
    unfolding gives_candidates_def
  proof (intro allI impI)
    fix req x :: int assume x: "0 \<le> req \<and> req < 1 \<and> 0 \<le> x \<and> x < 2 * 2"
    then have "req = 0" "x = 0 \<or> x = 1 \<or> x = 2 \<or> x = 3" by auto
    then show "demo_cands req (tokens_so_far seqs 2 4 req (x div 2) (round - 1)) ! nat (x mod 2) =
        (bf_data ?tokens ! nat (req * (2 * 2) + x), bf_data ?probs ! nat (req * (2 * 2) + x))"
      using final by (auto simp: demo_cands_def demo_tensor_def)
  qed
  moreover have "layers_ready ?layers (round_tensor round) 1 2 1 4 ks vs"
    using assms demo_writer_ready [OF _ _ round kv(3,4), of ?xs ?ys] demo_total_vecs
    by (simp add: layers_ready_def kv(1,2)) (simp add: demo_proj_def)
  moreover have "gives_tokens key_of_last (map (fst \<circ> snd) ?layers) seqs 1 2 4 1 4 (round - 1)"
    "gives_tokens value_of_last (map (snd \<circ> snd) ?layers) seqs 1 2 4 1 4 (round - 1)"
  proof -
    have "tensor_at (demo_proj 512 ?xs) [req, i, h, e] = key_of_last 0 req (tokens_so_far seqs 2 4 req i (round - 1)) h e \<and>
        tensor_at (demo_proj 1024 ?ys) [req, i, h, e] = value_of_last 0 req (tokens_so_far seqs 2 4 req i (round - 1)) h e"
      if "0 \<le> req \<and> req < 1 \<and> 0 \<le> i \<and> i < 2 \<and> 0 \<le> h \<and> h < 1 \<and> 0 \<le> e \<and> e < 4" for req i h e
    proof -
      have "req = 0" "h = 0" "i = 0 \<or> i = 1" "e = 0 \<or> e = 1 \<or> e = 2 \<or> e = 3" using that by auto
      then show ?thesis using final by (auto simp: tensor_at_def demo_proj_def key_of_last_def value_of_last_def)
    qed
    then show "gives_tokens key_of_last (map (fst \<circ> snd) ?layers) seqs 1 2 4 1 4 (round - 1)"
      "gives_tokens value_of_last (map (snd \<circ> snd) ?layers) seqs 1 2 4 1 4 (round - 1)"
      by (simp_all add: gives_tokens_def less_Suc_eq)
  qed
  ultimately show "\<exists>layers tokens probs. re_model (demo_env lx order) round token_ids ks vs = Some (layers, Some (tokens, probs)) \<and>
      sample_shape (re_batch_size (demo_env lx order) * re_beam_width (demo_env lx order) * re_beam_width (demo_env lx order)) tokens probs \<and>
      gives_candidates demo_cands (bf_data tokens) (bf_data probs) seqs (re_batch_size (demo_env lx order))
        (re_beam_width (demo_env lx order)) (re_total_rounds (demo_env lx order)) (round - 1) \<and>
      layers_ready layers (round_tensor round) (re_batch_size (demo_env lx order)) (re_beam_width (demo_env lx order)) 1 4 ks vs \<and>
      gives_tokens key_of_last (map (fst \<circ> snd) layers) seqs (re_batch_size (demo_env lx order))
        (re_beam_width (demo_env lx order)) (re_total_rounds (demo_env lx order)) 1 4 (round - 1) \<and>
      gives_tokens value_of_last (map (snd \<circ> snd) layers) seqs (re_batch_size (demo_env lx order))
        (re_beam_width (demo_env lx order)) (re_total_rounds (demo_env lx order)) 1 4 (round - 1)"
    by (intro exI [of _ ?layers] exI [of _ ?tokens] exI [of _ ?probs]) (simp add: demo_env_def)
qed

lemma demo_select_ready:
  assumes "0 < round" "round < 3" and "same_but_data (zeros_tensor 0 kInt32 0 [2, 1]) index"
    and "\<forall>x \<in> set (bf_data index). - (2 ^ 31) \<le> x \<and> x < 2 ^ 31"
  shows "select_ready index demo_ks demo_vs (demo_tensor [2, 1] [0, 1]) (round - 1) 2 1"
proof -
  have "select_ready (zeros_tensor 0 kInt32 0 [2, 1]) demo_ks demo_vs (demo_tensor [2, 1] [0, 1]) (round - 1) 2 1"
    using assms(1,2)
    by (auto simp: zeros_tensor_def select_ready_def cache_select_checks_def select_layer_check_def demo_round_defs
        result_simps checks_def torch_checks_def torch_check_def bf_dim_def bf_numel_def sdiv_nonneg smod_nonneg)
  then show ?thesis using assms(3,4) by (rule select_ready_index)
qed

lemma demo_loop_ready: "\<exists>order. loop_ready (demo_env lx order) 0 demo_ks demo_vs"
proof -
  have "\<forall>round index. \<exists>xs. 0 < round \<and> round < 3 \<and> same_but_data (zeros_tensor 0 kInt32 0 [2, 1]) index \<and>
      (\<forall>x \<in> set (bf_data index). - (2 ^ 31) \<le> x \<and> x < 2 ^ 31) \<longrightarrow>
      select_copies index demo_ks (demo_tensor [2, 1] [0, 1]) (round - 1) 2 1 xs"
    using select_copies_exist [OF demo_select_ready] by blast
  then obtain order where order: "\<forall>round index. 0 < round \<and> round < 3 \<and> same_but_data (zeros_tensor 0 kInt32 0 [2, 1]) index \<and>
      (\<forall>x \<in> set (bf_data index). - (2 ^ 31) \<le> x \<and> x < 2 ^ 31) \<longrightarrow>
      select_copies index demo_ks (demo_tensor [2, 1] [0, 1]) (round - 1) 2 1 (order round index)" by metis
  have "select_ready (zeros_tensor 0 kInt32 0 [2, 1]) demo_ks demo_vs (demo_tensor [2, 1] [0, 1]) (round - 1) 2 1"
    if "0 < round" "round < 3" for round
    using that by (rule demo_select_ready) (simp_all add: same_but_data_def zeros_tensor_def)
  then have "loop_ready (demo_env lx order) 0 demo_ks demo_vs"
    using order by (simp add: loop_ready_def demo_env_def Let_def)
  then show ?thesis by blast
qed

theorem multi_round_beam_search_witness:
  "\<exists>lx order out. rec_step (demo_env lx order) 0 0 1 (demo_tensor [3] [1, 2, 3]) demo_ks demo_vs = Inr (Some (Some out)) \<and>
     beam_result (+) (demo_cands 0) 2 3
       (beams_of (bf_data (ro_beam_sequence_group out)) (bf_data (ro_out_logprobs out)) 2 4 0 3)"
proof -
  obtain lx where lx: "xattn_schedule 2 1 lx" using xattn_schedule_exists by blast
  obtain order where order: "loop_ready (demo_env lx order) 0 demo_ks demo_vs" using demo_loop_ready by blast
  have ops: "beam_ops_ok (re_ops (demo_env lx order))" by (simp add: demo_env_def sample_ops_ok)
  obtain out where "rec_step (demo_env lx order) 0 0 1 (demo_tensor [3] [1, 2, 3]) demo_ks demo_vs = Inr (Some (Some out))"
    and "\<forall>req. 0 \<le> req \<and> req < re_batch_size (demo_env lx order) \<longrightarrow>
       beam_result (bo_add (re_ops (demo_env lx order))) (demo_cands req) (re_beam_width (demo_env lx order))
         (nat (re_total_rounds (demo_env lx order) - 1))
         (beams_of (bf_data (ro_beam_sequence_group out)) (bf_data (ro_out_logprobs out)) (re_beam_width (demo_env lx order))
           (re_total_rounds (demo_env lx order)) req (re_total_rounds (demo_env lx order) - 1))"
    using multi_round_beam_search [where zero = 0 and num_kv_caches = 1 and prompt = "demo_tensor [3] [1, 2, 3]",
        OF demo_answers [OF lx] order ops] by auto
  moreover from spec [OF this(2), of 0] have "beam_result (+) (demo_cands 0) 2 3
      (beams_of (bf_data (ro_beam_sequence_group out)) (bf_data (ro_out_logprobs out)) 2 4 0 3)"
    by (simp add: demo_env_def sample_ops_def)
  ultimately show ?thesis by blast
qed

end
