(* ===== verification/Spec2Isabelle.thy ===== *)
theory Spec2Isabelle
  imports Layerwise_Kv Ex_Registry Fused_Moe Qwen3_Args Hybrid_Lm Gdn_Metadata Ilu_Attention Kv_Transfer Moe_Index Moe_Batched Moe_Lora Kv_Paging Beam_Loop
begin

text \<open>
  This development models the parts of the repository that were written for running Qwen3
  models on Iluvatar accelerators: \<^verbatim>\<open>core/\<close> (how the KV caches of a model are split over ranks),
  \<^verbatim>\<open>ex_engine/\<close> (the registry of compiled engines, the kernel interface, the layers and models, the
  CUDA kernels) and the device extensions in \<^verbatim>\<open>qwen3_6_scripts/\<close>. All paths below are under \<^verbatim>\<open>src/\<close>.

  \<^bold>\<open>How the parts work together.\<close> A model is described by arguments read from its JSON
  configuration (\<open>Json_Args\<close>, \<open>Qwen3_Args\<close>). From them the layout decides which rank holds which heads
  of which layer (\<open>Layerwise_Layout\<close>); the master estimates with it how many cache blocks fit in
  memory (\<open>Layerwise_Estimate\<close>), and every worker allocates its caches (\<open>Kv_Cache\<close>, \<open>Layerwise_Kv\<close>).
  The models (\<open>Hybrid_Model\<close>, \<open>Hybrid_Lm\<close>, \<open>Gdn_Metadata\<close>) run their layers (\<open>Ilu_Attention\<close>,
  \<open>Fused_Moe\<close>) on tensors (\<open>Torch\<close>) and load their weights from state dictionaries (\<open>State_Dict\<close>).
  The layers call kernels through an interface that branches on the device (\<open>Ops_Api\<close>, parameters in
  \<open>Kernel_Params\<close>), which on Iluvatar ends in the wrappers of \<open>Ilu_Kernels\<close>; engines for single factors
  are loaded as shared objects (\<open>Ex_Registry\<close>). Below the interface, device kernels sort the tokens of the
  experts (\<open>Moe_Index\<close>, \<open>Moe_Align\<close>), write, gather, copy and transfer paged caches (\<open>Kv_Paging\<close>, \<open>Kv_Transfer\<close>) and
  serve beam search (\<open>Beam_Cache\<close>, \<open>Beam_Select\<close>, \<open>Beam_Search\<close>), which the loop of a worker composes
  (\<open>Beam_Rounds\<close>, \<open>Beam_Loop\<close>).

  \<^bold>\<open>The theories.\<close>
  \<^item> \<open>Prelude\<close>: failures and results, the C division, integer ranges. \<open>Gpu\<close>: threads, grid-stride loops,
    the interleavings of a launch, the locale \<open>memory\<close> (load, store, valid addresses) with its two
    interpretations (an array, the arrays of several layers), tensors as kernels see them.
  \<^item> \<open>Layerwise_Layout\<close>: \<^verbatim>\<open>core/framework/kv_cache/layerwise_split_layout.h\<close> and
    \<^verbatim>\<open>core/framework/parallel_state/mapping_ilu.*\<close>. Every layer's heads are conserved, the dense ranks get the
    even split, sparse layers rotate over the ranks in balance.
  \<^item> \<open>Layerwise_Estimate\<close>: \<^verbatim>\<open>kv_cache_estimation_layerwise.*\<close>, \<^verbatim>\<open>core/distributed_runtime/\<close>,
    \<^verbatim>\<open>parallel_config_layerwise.*\<close>. What is charged to each rank, when the hook and the master run.
  \<^item> \<open>Kv_Cache\<close>, \<open>Layerwise_Kv\<close>: the cache object of a layer with its block swap, the tensor descriptor of
    the ixformer SDK, \<^verbatim>\<open>kv_cache_layerwise.*\<close>, \<^verbatim>\<open>worker_layerwise_init.*\<close>. The worker succeeds exactly when the
    estimate it was given fits what it allocates.
  \<^item> \<open>Ex_Registry\<close>: \<^verbatim>\<open>ex_engine/csrc/ex_registry.c\<close>. The slot table and the dynamic linker as a state; no
    handle leaks, the invariant of the table, dispatch after load.
  \<^item> \<open>Torch\<close>, \<open>Kernel_Params\<close>, \<open>Ops_Api\<close>, \<open>Ilu_Kernels\<close>: tensors with shapes and the operations the code uses,
    \<^verbatim>\<open>xllm_kernels/param.h\<close>, \<^verbatim>\<open>xllm_kernels/ops_api.cpp\<close>, \<^verbatim>\<open>csrc/ilu_kernel_*.cpp\<close>.
  \<^item> \<open>Fused_Moe\<close>: \<^verbatim>\<open>csrc/ilu_layer_fused_moe.*\<close>; \<open>Ilu_Attention\<close>: \<^verbatim>\<open>csrc/ilu_layer_attention.*\<close> and
    \<^verbatim>\<open>ilu_kernel_attention.cpp\<close>. Shapes of the results, and the inputs on which they throw.
  \<^item> \<open>Json_Args\<close>, \<open>Qwen3_Args\<close>: the loading macros and every argument loader of the Qwen3 models.
  \<^item> \<open>State_Dict\<close>, \<open>Hybrid_Model\<close>, \<open>Hybrid_Lm\<close>, \<open>Gdn_Metadata\<close>: state dictionaries, the hybrid decoder stack,
    the causal language model and its multi-token-prediction draft, the tables of a prefill batch.
  \<^item> \<open>Moe_Index\<close>: \<^verbatim>\<open>xllm_kernels/cuda/moe/moe_compute_index.cu\<close> and its copy in \<^verbatim>\<open>qwen3_6_scripts/\<close>. A refinement: the
    result is a stable grouping of the tokens by expert up to the order within one.
  \<^item> \<open>Moe_Align\<close>, \<open>Moe_Align_Small\<close>: \<^verbatim>\<open>csrc/moe/moe_align_sum_kernels.cu\<close>, the order of the tokens in blocks of one
    expert. Two programs with barriers implement one specification (\<open>aligned\<close>); the phases between two
    barriers are interleavings of their own. \<open>Moe_Batched\<close>: the variant for tokens that come in batches
    (\<open>batched_order\<close>) and the sum of the rows of a token. \<open>Moe_Lora\<close>: the variant for LoRA adapters, whose blocks
    interleave. Its masked steps are those of \<open>Moe_Align\<close> for the tokens of the adapter (\<open>adapter_args\<close>);
    \<open>late_fill_erases_count\<close> states the race between the two blocks of an adapter.
  \<^item> \<open>Kv_Paging\<close>: \<^verbatim>\<open>reshape_paged_cache.cu\<close>, \<^verbatim>\<open>block_copy.cu\<close>, \<^verbatim>\<open>corex_paged_kv_gather.cu\<close>; \<open>Kv_Transfer\<close>:
    \<^verbatim>\<open>corex_block_major_kv_transfer.cu\<close>, with the round trip of packing and scattering blocks.
  \<^item> \<open>Beam_Cache\<close>: \<^verbatim>\<open>xllm_kernels/cuda/xattention/prefill_reshape_and_cache.cu\<close> and
    \<^verbatim>\<open>decoder_reshape_and_cache.cu\<close>, the writers of the caches; \<open>Beam_Select\<close>: \<^verbatim>\<open>cache_select.cu\<close>, which reorders
    them; \<open>Beam_Search\<close>: \<^verbatim>\<open>beam_search.cpp\<close>, one step of the search.
  \<^item> \<open>Beam_Rounds\<close>, \<open>Beam_Loop\<close>: the loop of \<^verbatim>\<open>rec_worker_impl.cpp\<close> (the CUDA branch) that calls them. The invariant
    of a round is that the caches follow the sequences; with it the loop, whose model only sees the last
    tokens and the caches, returns the result of a beam search over sequences (\<open>beam_result\<close>).

  \<^bold>\<open>How code is rendered.\<close> Structures are records and enums datatypes with the names of the source. A
  function that can abort, throw or leave defined behaviour returns a \<open>result\<close>: \<open>Inl\<close> with \<open>Abort\<close> for
  a failed \<^verbatim>\<open>CHECK\<close>, \<open>Exn\<close> for an exception, \<open>Undefined\<close> for an access out of bounds or a division by zero.
  Objects with state are records passed and returned. Loops over containers are \<open>rfold\<close> and \<open>rmap\<close>, which stop
  at the first failure. A kernel is the list of the programs of its threads; a launch runs their steps in some
  interleaving, and the theorems hold for every one. One iteration of a thread is one step, which is sound
  because no modelled kernel reads in an iteration what another one writes, but through an atomic
  operation or in the program of the same thread; \<open>block_copy_race\<close> in \<open>Kv_Paging\<close> states where that fails.
  Blocks of one launch that share memory (\<open>Moe_Lora\<close>) interleave phase by phase.

  \<^bold>\<open>Parameters\<close>, for code that is not in the repository: the tensor library where more than shapes is needed,
  the ixformer kernels, the JSON library, the dynamic linker and directories, the modules a model is built
  from, top-k and argsort, the forward pass and the sampler of the decode loop, float arithmetic, the contents of fresh device memory, and the interleavings.
  What a theorem needs of them is a named hypothesis, and its witness has a concrete instance.

  \<^bold>\<open>Bounds.\<close> Integers of 64 bits are \<open>int\<close>: the sizes and counts of the program stay far below their limits.
  Conversions to 32 bits are written out (\<open>int32\<close>, \<open>uint32\<close>), and the theorems that need sizes below \<open>2 ^ 31\<close>
  say so. Decimal literals are rationals; averages in double precision are exact below \<open>2 ^ 53\<close>, integer
  quotients by float division below \<open>2 ^ 24\<close>. A key cut by \<^verbatim>\<open>snprintf\<close> has at most 1023 characters. Units of 16 bytes
  are one element in \<open>Kv_Transfer\<close>. All loops are structural or have a measure, so no fuel is used.

  \<^bold>\<open>Not modelled.\<close> Logging and timing; the arithmetic of matrix products, norms, activations, rotary
  embeddings and attention kernels, which is float code with no property beyond itself; the layers for NPU and MLU
  builds; the tuning tables in \<^verbatim>\<open>muh/\<close>; the Python layer; copies of \<^verbatim>\<open>ex_engine/\<close> in \<^verbatim>\<open>qwen3_6_scripts/\<close>; vendored
  code (\<^verbatim>\<open>cccl_upstream\<close>, \<^verbatim>\<open>upstream_ref\<close>, \<^verbatim>\<open>cat_files\<close>, \<^verbatim>\<open>ixformer_sdk\<close>), except the few upstream classes that the
  modelled code calls.
\<close>

end
